(* ===== verification/GoLib.thy ===== *)
theory GoLib
  imports Complex_Main "HOL-Library.AList" "HOL-Library.Char_ord" "HOL-Library.List_Lexorder"
    "HOL-Library.Multiset"
begin

text \<open>
  The prelude: the parts of Go's standard library that the components call (package
  \<open>strings\<close>, package \<open>path\<close>, the integer verbs of \<open>fmt\<close>, \<open>sort.SliceStable\<close>), maps, and the
  generic lemmas about them that every component theory uses.

  A Go string is a byte sequence and is modelled as an Isabelle \<^typ>\<open>string\<close> (whose characters
  are bytes).  Case folding is the ASCII part of \<open>strings.ToLower\<close>: bytes above 127 are left
  alone.  A Go map is an association list; its order stands for the order in which the runtime
  happens to range over the map, so a theorem about all association lists is a theorem about
  every iteration order.
\<close>

named_theorems go_defs \<open>definitions of the small string and path helpers\<close>
named_theorems go_char \<open>evaluation of characters\<close>

type_synonym 'v gomap = "(string \<times> 'v) list"
type_synonym props = "string gomap"

section \<open>Package strings\<close>

fun HasPrefix :: "'a list \<Rightarrow> 'a list \<Rightarrow> bool" where
  "HasPrefix s [] = True"
| "HasPrefix [] (p # ps) = False"
| "HasPrefix (c # s) (p # ps) = (c = p \<and> HasPrefix s ps)"

definition HasSuffix :: "'a list \<Rightarrow> 'a list \<Rightarrow> bool" where
  "HasSuffix s t = HasPrefix (rev s) (rev t)"

definition TrimPrefix :: "'a list \<Rightarrow> 'a list \<Rightarrow> 'a list" where
  "TrimPrefix s p = (if HasPrefix s p then drop (length p) s else s)"

definition TrimSuffix :: "'a list \<Rightarrow> 'a list \<Rightarrow> 'a list" where
  "TrimSuffix s t = (if HasSuffix s t then take (length s - length t) s else s)"

fun CutPrefix :: "'a list \<Rightarrow> 'a list \<Rightarrow> 'a list option" where
  "CutPrefix s [] = Some s"
| "CutPrefix [] (p # ps) = None"
| "CutPrefix (c # s) (p # ps) = (if c = p then CutPrefix s ps else None)"

text \<open>The position of the first occurrence of a substring.\<close>

fun Index :: "'a list \<Rightarrow> 'a list \<Rightarrow> nat option" where
  "Index [] sub = (if sub = [] then Some 0 else None)"
| "Index (c # s) sub =
     (if HasPrefix (c # s) sub then Some 0 else map_option Suc (Index s sub))"

definition Contains :: "'a list \<Rightarrow> 'a list \<Rightarrow> bool" where
  "Contains s sub = (Index s sub \<noteq> None)"

fun IndexAny :: "('a \<Rightarrow> bool) \<Rightarrow> 'a list \<Rightarrow> nat option" where
  "IndexAny P [] = None"
| "IndexAny P (c # s) = (if P c then Some 0 else map_option Suc (IndexAny P s))"

definition LastIndexAny :: "('a \<Rightarrow> bool) \<Rightarrow> 'a list \<Rightarrow> nat option" where
  "LastIndexAny P s = map_option (\<lambda>i. length s - Suc i) (IndexAny P (rev s))"

definition IndexByte :: "'a list \<Rightarrow> 'a \<Rightarrow> nat option" where
  "IndexByte s c = IndexAny (\<lambda>x. x = c) s"

definition LastIndexByte :: "'a list \<Rightarrow> 'a \<Rightarrow> nat option" where
  "LastIndexByte s c = LastIndexAny (\<lambda>x. x = c) s"

text \<open>\<open>strings.Split\<close> on a one-byte separator and \<open>strings.Join\<close>.\<close>

fun SplitC :: "'a \<Rightarrow> 'a list \<Rightarrow> 'a list list" where
  "SplitC c [] = [[]]"
| "SplitC c (x # xs) =
     (if x = c then [] # SplitC c xs
      else (case SplitC c xs of [] \<Rightarrow> [[x]] | y # ys \<Rightarrow> (x # y) # ys))"

fun Join :: "'a list \<Rightarrow> 'a list list \<Rightarrow> 'a list" where
  "Join sep [] = []"
| "Join sep [x] = x"
| "Join sep (x # y # ys) = x @ sep @ Join sep (y # ys)"

definition replace_char :: "char \<Rightarrow> char \<Rightarrow> string \<Rightarrow> string" where
  "replace_char a b s = map (\<lambda>c. if c = a then b else c) s"

definition lower_char :: "char \<Rightarrow> char" where
  "lower_char c = (let n = (of_char c :: nat) in if 65 \<le> n \<and> n \<le> 90 then char_of (n + 32) else c)"

definition upper_char :: "char \<Rightarrow> char" where
  "upper_char c = (let n = (of_char c :: nat) in if 97 \<le> n \<and> n \<le> 122 then char_of (n - 32) else c)"

definition ToLower :: "string \<Rightarrow> string" where
  "ToLower s = map lower_char s"

definition ToUpper :: "string \<Rightarrow> string" where
  "ToUpper s = map upper_char s"

definition EqualFold :: "string \<Rightarrow> string \<Rightarrow> bool" where
  "EqualFold s t = (ToLower s = ToLower t)"

definition is_space :: "char \<Rightarrow> bool" where
  "is_space c = (let n = (of_char c :: nat) in n = 32 \<or> (9 \<le> n \<and> n \<le> 13))"

definition TrimSpace :: "string \<Rightarrow> string" where
  "TrimSpace s = rev (dropWhile is_space (rev (dropWhile is_space s)))"

lemmas [go_defs] = HasSuffix_def TrimPrefix_def TrimSuffix_def Contains_def IndexByte_def
  LastIndexByte_def LastIndexAny_def replace_char_def ToLower_def ToUpper_def EqualFold_def
  is_space_def TrimSpace_def lower_char_def upper_char_def Let_def

lemma char_of_numeral [go_char]:
  "char_of (numeral k :: nat) = Char (odd (numeral k :: nat)) (odd (drop_bit 1 (numeral k :: nat)))
    (odd (drop_bit 2 (numeral k :: nat))) (odd (drop_bit 3 (numeral k :: nat)))
    (odd (drop_bit 4 (numeral k :: nat))) (odd (drop_bit 5 (numeral k :: nat)))
    (odd (drop_bit 6 (numeral k :: nat))) (odd (drop_bit 7 (numeral k :: nat)))"
  by (simp add: char_of_def bit_iff_odd_drop_bit)

subsection \<open>Prefixes and suffixes\<close>

lemma HasPrefix_iff: "HasPrefix s p \<longleftrightarrow> (\<exists>t. s = p @ t)"
  by (induction s p rule: HasPrefix.induct) auto

lemma HasPrefix_append [simp]: "HasPrefix (p @ t) p"
  by (auto simp: HasPrefix_iff)

lemma HasPrefix_refl [simp]: "HasPrefix p p"
  by (auto simp: HasPrefix_iff)

lemma HasPrefix_length: "HasPrefix s p \<Longrightarrow> length p \<le> length s"
  by (auto simp: HasPrefix_iff)

lemma HasPrefix_trans: "HasPrefix s p \<Longrightarrow> HasPrefix p q \<Longrightarrow> HasPrefix s q"
  by (auto simp: HasPrefix_iff)

lemma HasPrefix_same_length: "HasPrefix s p \<Longrightarrow> HasPrefix s q \<Longrightarrow> length p = length q \<Longrightarrow> p = q"
  by (auto simp: HasPrefix_iff)

lemma HasSuffix_iff: "HasSuffix s t \<longleftrightarrow> (\<exists>u. s = u @ t)"
proof -
  have "(\<exists>v. rev s = rev t @ v) \<longleftrightarrow> (\<exists>u. s = u @ t)"
    by (metis rev_append rev_rev_ident)
  then show ?thesis by (simp add: HasSuffix_def HasPrefix_iff)
qed

lemma HasSuffix_append [simp]: "HasSuffix (u @ t) t"
  by (auto simp: HasSuffix_iff)

lemma TrimPrefix_append [simp]: "TrimPrefix (p @ t) p = t"
  by (simp add: TrimPrefix_def)

lemma TrimPrefix_other: "\<not> HasPrefix s p \<Longrightarrow> TrimPrefix s p = s"
  by (simp add: TrimPrefix_def)

lemma CutPrefix_Some: "CutPrefix s p = Some t \<longleftrightarrow> s = p @ t"
  by (induction s p rule: CutPrefix.induct) auto

lemma CutPrefix_append [simp]: "CutPrefix (p @ t) p = Some t"
  by (simp add: CutPrefix_Some)

subsection \<open>Searching\<close>

lemma IndexAny_None: "IndexAny P s = None \<longleftrightarrow> (\<forall>c \<in> set s. \<not> P c)"
  by (induction s) auto

lemma IndexAny_Some:
  "IndexAny P s = Some i \<Longrightarrow> i < length s \<and> P (s ! i) \<and> (\<forall>j < i. \<not> P (s ! j))"
proof (induction s arbitrary: i)
  case Nil
  then show ?case by simp
next
  case (Cons c s)
  show ?case
  proof (cases "P c")
    case True
    with Cons.prems show ?thesis by simp
  next
    case False
    with Cons.prems obtain k where k: "IndexAny P s = Some k" and i: "i = Suc k"
      by auto
    from Cons.IH [OF k] i False show ?thesis
      by (auto simp: nth_Cons split: nat.splits)
  qed
qed

lemma IndexAny_append:
  "\<forall>c \<in> set s. \<not> P c \<Longrightarrow> IndexAny P (s @ t) = map_option (\<lambda>i. length s + i) (IndexAny P t)"
  by (induction s; cases "IndexAny P t") auto

lemma IndexAny_split:
  "\<forall>c \<in> set s. \<not> P c \<Longrightarrow> P x \<Longrightarrow> IndexAny P (s @ x # t) = Some (length s)"
  by (simp add: IndexAny_append)

lemma LastIndexAny_None: "LastIndexAny P s = None \<longleftrightarrow> (\<forall>c \<in> set s. \<not> P c)"
  by (simp add: LastIndexAny_def IndexAny_None)

lemma LastIndexAny_split:
  "\<forall>c \<in> set t. \<not> P c \<Longrightarrow> P x \<Longrightarrow> LastIndexAny P (s @ x # t) = Some (length s)"
  using IndexAny_split [of "rev t" P x "rev s"] by (simp add: LastIndexAny_def)

lemma Index_Some_Contains: "Index s sub = Some i \<Longrightarrow> \<exists>u v. s = u @ sub @ v \<and> length u = i"
proof (induction s arbitrary: i)
  case Nil
  then show ?case by (auto split: if_splits)
next
  case (Cons c s)
  show ?case
  proof (cases "HasPrefix (c # s) sub")
    case True
    with Cons.prems have "i = 0" by simp
    moreover from True obtain v where "c # s = sub @ v" by (auto simp: HasPrefix_iff)
    ultimately have "c # s = [] @ sub @ v \<and> length ([] :: 'a list) = i" by simp
    then show ?thesis by blast
  next
    case False
    with Cons.prems obtain k where "Index s sub = Some k" and i: "i = Suc k" by auto
    with Cons.IH obtain u v where "s = u @ sub @ v" "length u = k" by blast
    then have "c # s = (c # u) @ sub @ v \<and> length (c # u) = i" using i by simp
    then show ?thesis by blast
  qed
qed

lemma Index_infix: "Index (u @ sub @ v) sub \<noteq> None"
proof (induction u)
  case Nil
  have "HasPrefix (sub @ v) sub" by simp
  then show ?case by (cases "sub @ v") auto
qed auto

lemma Contains_iff: "Contains s sub \<longleftrightarrow> (\<exists>u v. s = u @ sub @ v)"
  unfolding Contains_def using Index_Some_Contains [of s sub] Index_infix [where sub = sub] by blast

subsection \<open>Split and Join\<close>

lemma SplitC_nonempty [simp]: "SplitC c s \<noteq> []"
  by (induction s) (auto split: list.splits)

lemma SplitC_no_sep: "c \<notin> set s \<Longrightarrow> SplitC c s = [s]"
  by (induction s) auto

lemma SplitC_elems: "x \<in> set (SplitC c s) \<Longrightarrow> c \<notin> set x"
  by (induction s arbitrary: x) (auto split: if_splits list.splits)

lemma SplitC_append: "c \<notin> set s \<Longrightarrow> SplitC c (s @ c # t) = s # SplitC c t"
  by (induction s) auto

lemma length_SplitC: "length (SplitC c s) = Suc (count_list s c)"
proof (induction s)
  case (Cons x s)
  then show ?case by (cases "SplitC c s") auto
qed simp

lemma Join_cons: "ys \<noteq> [] \<Longrightarrow> Join sep (x # ys) = x @ sep @ Join sep ys"
  by (cases ys) auto

lemma Join_SplitC [simp]: "Join [c] (SplitC c s) = s"
proof (induction s)
  case (Cons x s)
  show ?case
  proof (cases "x = c")
    case True
    with Cons show ?thesis by (simp add: Join_cons)
  next
    case False
    obtain y ys where split: "SplitC c s = y # ys"
      by (cases "SplitC c s") auto
    with Cons have "Join [c] (y # ys) = s" by simp
    then have "Join [c] ((x # y) # ys) = x # s" by (cases ys) auto
    with False split show ?thesis by simp
  qed
qed simp

lemma SplitC_Join:
  "xs \<noteq> [] \<Longrightarrow> \<forall>x \<in> set xs. c \<notin> set x \<Longrightarrow> SplitC c (Join [c] xs) = xs"
proof (induction "[c]" xs rule: Join.induct)
  case (3 x y ys)
  then show ?case by (simp add: SplitC_append)
qed (auto simp: SplitC_no_sep)

lemma set_Join: "set (Join [c] xs) \<subseteq> insert c (\<Union> (set ` set xs))"
  by (induction "[c]" xs rule: Join.induct) auto

subsection \<open>Case folding\<close>

lemma lower_char_idem [simp]: "lower_char (lower_char c) = lower_char c"
  by (auto simp: lower_char_def Let_def)

lemma ToLower_idem [simp]: "ToLower (ToLower s) = ToLower s"
  by (simp add: ToLower_def)

lemma ToLower_append [simp]: "ToLower (s @ t) = ToLower s @ ToLower t"
  by (simp add: ToLower_def)

lemma length_ToLower [simp]: "length (ToLower s) = length s"
  by (simp add: ToLower_def)

lemma ToLower_Nil [simp]: "ToLower [] = []" and ToLower_eq_Nil [simp]: "ToLower s = [] \<longleftrightarrow> s = []"
  by (auto simp: ToLower_def)

lemma colon_ToLower [simp]: "CHR '':'' \<in> set (ToLower s) \<longleftrightarrow> CHR '':'' \<in> set s"
proof -
  have "lower_char c = CHR '':'' \<longleftrightarrow> c = CHR '':''" for c
  proof
    assume eq: "lower_char c = CHR '':''"
    show "c = CHR '':''"
    proof (rule ccontr)
      assume "c \<noteq> CHR '':''"
      with eq have range: "of_char c \<le> (90 :: nat)" "65 \<le> (of_char c :: nat)" and "CHR '':'' = char_of (of_char c + 32 :: nat)"
        by (auto simp: lower_char_def Let_def split: if_splits)
      then have "(of_char (CHR '':'') :: nat) = of_char (char_of (of_char c + 32 :: nat) :: char)" by simp
      with range show False by simp
    qed
  qed (simp add: lower_char_def)
  then show ?thesis unfolding ToLower_def set_map image_iff by metis
qed

section \<open>Package path\<close>

abbreviation slash :: char where "slash \<equiv> CHR ''/''"
abbreviation dot :: string where "dot \<equiv> ''.''"
abbreviation dotdot :: string where "dotdot \<equiv> ''..''"

text \<open>
  \<open>path.Clean\<close>: one slash-separated element at a time, on a stack whose head is the last
  element kept.  Empty and \<open>.\<close> elements vanish, \<open>..\<close> removes an element unless there is none
  to remove, in which case a rooted path drops it and a relative path keeps it.
\<close>

definition clean_step :: "bool \<Rightarrow> string list \<Rightarrow> string \<Rightarrow> string list" where
  "clean_step rooted st e =
     (if e = [] \<or> e = dot then st
      else if e = dotdot then
        (case st of [] \<Rightarrow> (if rooted then [] else [dotdot])
         | x # xs \<Rightarrow> if x = dotdot then dotdot # st else xs)
      else e # st)"

definition clean_elems :: "bool \<Rightarrow> string list \<Rightarrow> string list" where
  "clean_elems rooted es = rev (foldl (clean_step rooted) [] es)"

definition Clean :: "string \<Rightarrow> string" where
  "Clean p =
     (if p = [] then dot
      else let rooted = (hd p = slash); out = Join [slash] (clean_elems rooted (SplitC slash p)) in
        if rooted then slash # out else if out = [] then dot else out)"

definition Base :: "string \<Rightarrow> string" where
  "Base p =
     (if p = [] then dot
      else let q = rev (dropWhile (\<lambda>c. c = slash) (rev p)) in
        if q = [] then [slash] else last (SplitC slash q))"

definition Dir :: "string \<Rightarrow> string" where
  "Dir p = Clean (case LastIndexByte p slash of None \<Rightarrow> [] | Some i \<Rightarrow> take (Suc i) p)"

definition Ext :: "string \<Rightarrow> string" where
  "Ext p = (let b = last (SplitC slash p) in
     case LastIndexByte b (CHR ''.'') of None \<Rightarrow> [] | Some i \<Rightarrow> drop i b)"

definition JoinPath :: "string \<Rightarrow> string \<Rightarrow> string" where
  "JoinPath a b =
     (case filter (\<lambda>e. e \<noteq> []) [a, b] of [] \<Rightarrow> [] | es \<Rightarrow> Clean (Join [slash] es))"

lemmas [go_defs] = clean_step_def clean_elems_def Clean_def Base_def Dir_def Ext_def JoinPath_def

text \<open>
  The stack holds plain names, above any leading \<open>..\<close> elements, which only a relative path has.
\<close>

definition plain :: "string \<Rightarrow> bool" where
  "plain e \<longleftrightarrow> e \<noteq> [] \<and> e \<noteq> dot \<and> e \<noteq> dotdot \<and> slash \<notin> set e"

definition clean_form :: "bool \<Rightarrow> string list \<Rightarrow> bool" where
  "clean_form rooted es \<longleftrightarrow>
     (\<exists>n ns. es = replicate n dotdot @ ns \<and> list_all plain ns \<and> (rooted \<longrightarrow> n = 0))"

lemma clean_form_step:
  assumes "clean_form rooted (rev st)" "slash \<notin> set e"
  shows "clean_form rooted (rev (clean_step rooted st e))"
proof -
  from assms(1) obtain n ns where st: "rev st = replicate n dotdot @ ns"
    and ns: "list_all plain ns" and r: "rooted \<longrightarrow> n = 0" by (auto simp: clean_form_def)
  from st have st': "st = rev ns @ replicate n dotdot" by (metis rev_append rev_replicate rev_swap)
  consider "e = [] \<or> e = dot" | "e = dotdot" | "plain e"
    using assms(2) by (auto simp: plain_def)
  then show ?thesis
  proof cases
    case 1
    with assms(1) show ?thesis by (auto simp: clean_step_def)
  next
    case 3
    then have "rev (clean_step rooted st e) = replicate n dotdot @ (ns @ [e])"
      using st by (auto simp: clean_step_def plain_def)
    then show ?thesis using ns r 3 unfolding clean_form_def
      by (intro exI [of _ n] exI [of _ "ns @ [e]"]) simp
  next
    case 2
    show ?thesis
    proof (cases ns rule: rev_cases)
      case Nil
      show ?thesis
      proof (cases n)
        case 0
        with Nil st' 2 have "rev (clean_step rooted st e) = replicate (if rooted then 0 else 1) dotdot @ []"
          by (auto simp: clean_step_def)
        then show ?thesis unfolding clean_form_def
          by (intro exI [of _ "if rooted then 0 else 1"] exI [of _ "[]"]) simp
      next
        case (Suc m)
        with Nil st' 2 have "rev (clean_step rooted st e) = replicate (Suc n) dotdot @ []"
          by (auto simp: clean_step_def replicate_append_same)
        then show ?thesis using r Suc unfolding clean_form_def
          by (intro exI [of _ "Suc n"] exI [of _ "[]"]) simp
      qed
    next
      case (snoc ms m)
      with ns have "plain m" by simp
      with snoc st' 2 have "rev (clean_step rooted st e) = replicate n dotdot @ ms"
        by (auto simp: clean_step_def plain_def)
      then show ?thesis using ns r snoc unfolding clean_form_def
        by (intro exI [of _ n] exI [of _ ms]) simp
    qed
  qed
qed

lemma clean_elems_form:
  assumes "\<forall>e \<in> set es. slash \<notin> set e"
  shows "clean_form rooted (clean_elems rooted es)"
proof -
  have "clean_form rooted (rev st) \<Longrightarrow> \<forall>e \<in> set es. slash \<notin> set e \<Longrightarrow>
    clean_form rooted (rev (foldl (clean_step rooted) st es))" for st
    by (induction es arbitrary: st) (auto intro: clean_form_step)
  then show ?thesis
    using assms by (auto simp: clean_elems_def clean_form_def intro: exI [of _ 0])
qed

lemma clean_elems_id:
  assumes "clean_form rooted es"
  shows "clean_elems rooted es = es"
proof -
  from assms obtain n ns where es: "es = replicate n dotdot @ ns" and ns: "list_all plain ns"
    and r: "rooted \<longrightarrow> n = 0" by (auto simp: clean_form_def)
  have dd: "foldl (clean_step rooted) (replicate m dotdot) (replicate k dotdot) =
      replicate (m + k) dotdot" if "rooted \<longrightarrow> k = 0" for m k
    using that
  proof (induction k arbitrary: m)
    case (Suc k)
    have "clean_step rooted (replicate m dotdot) dotdot = replicate (Suc m) dotdot"
      using Suc.prems by (cases m) (auto simp: clean_step_def)
    with Suc.IH [of "Suc m"] Suc.prems show ?case by simp
  qed simp
  have pl: "foldl (clean_step rooted) st ms = rev ms @ st" if "list_all plain ms" for st ms
    using that by (induction ms arbitrary: st) (auto simp: clean_step_def plain_def)
  show ?thesis
    using dd [of n 0] pl [OF ns] r by (simp add: clean_elems_def es)
qed

lemma clean_form_elem:
  assumes "clean_form rooted es" "e \<in> set es"
  shows "e = dotdot \<or> plain e"
proof -
  from assms(1) obtain n ns where es: "es = replicate n dotdot @ ns" and ns: "list_all plain ns"
    unfolding clean_form_def by blast
  have "set (replicate n dotdot) \<subseteq> {dotdot}" by (cases n) auto
  with assms(2) es have "e = dotdot \<or> e \<in> set ns" by auto
  with ns show ?thesis unfolding list_all_iff by blast
qed

lemma clean_form_no_slash: "clean_form rooted es \<Longrightarrow> e \<in> set es \<Longrightarrow> slash \<notin> set e"
  by (drule (1) clean_form_elem) (auto simp: plain_def)

lemma clean_form_nonempty: "clean_form rooted es \<Longrightarrow> e \<in> set es \<Longrightarrow> e \<noteq> [] \<and> e \<noteq> dot"
  by (drule (1) clean_form_elem) (auto simp: plain_def)

lemma Join_eq_Nil:
  "\<forall>e \<in> set es. e \<noteq> [] \<Longrightarrow> Join [c] es = [] \<longleftrightarrow> es = []"
  by (induction "[c]" es rule: Join.induct) auto

lemma hd_Join: "es \<noteq> [] \<Longrightarrow> hd es \<noteq> [] \<Longrightarrow> hd (Join sep es) = hd (hd es)"
  by (induction sep es rule: Join.induct) auto

lemma Clean_relative:
  assumes form: "clean_form False es" and ne: "es \<noteq> []"
  shows "Clean (Join [slash] es) = Join [slash] es"
proof -
  let ?p = "Join [slash] es"
  have nosl: "\<forall>e \<in> set es. slash \<notin> set e"
    using form by (blast dest: clean_form_no_slash)
  have nonempty: "\<forall>e \<in> set es. e \<noteq> []"
    using form by (blast dest: clean_form_nonempty)
  then have p: "?p \<noteq> []" using ne by (simp add: Join_eq_Nil)
  have "hd es \<in> set es" using ne by simp
  then have "hd es \<noteq> []" "slash \<notin> set (hd es)" using nosl nonempty by auto
  then have "hd ?p \<noteq> slash" using ne hd_Join [of es "[slash]"] by (cases "hd es") auto
  moreover have "SplitC slash ?p = es" using ne nosl by (rule SplitC_Join)
  ultimately show ?thesis using p clean_elems_id [OF form] by (simp add: Clean_def)
qed

lemma Clean_elems_of:
  assumes "hd p \<noteq> slash" "p \<noteq> []"
  obtains es where "clean_form False es" "Clean p = (if es = [] then dot else Join [slash] es)"
proof
  let ?es = "clean_elems False (SplitC slash p)"
  show form: "clean_form False ?es"
    by (rule clean_elems_form) (blast dest: SplitC_elems)
  have "\<forall>e \<in> set ?es. e \<noteq> []" using form by (blast dest: clean_form_nonempty)
  then show "Clean p = (if ?es = [] then dot else Join [slash] ?es)"
    using assms by (simp add: Clean_def Join_eq_Nil Let_def)
qed

section \<open>Numbers in text\<close>

definition digit_char :: "nat \<Rightarrow> char" where
  "digit_char d = char_of (48 + d)"

definition is_digit :: "char \<Rightarrow> bool" where
  "is_digit c = (let n = (of_char c :: nat) in 48 \<le> n \<and> n \<le> 57)"

definition digit_val :: "char \<Rightarrow> nat" where
  "digit_val c = of_char c - 48"

fun nat_digits :: "nat \<Rightarrow> string" where
  "nat_digits n = (if n < 10 then [digit_char n] else nat_digits (n div 10) @ [digit_char (n mod 10)])"

declare nat_digits.simps [simp del]

text \<open>\<open>strconv.Itoa\<close> and the \<open>%d\<close> verb.\<close>

definition Itoa :: "int \<Rightarrow> string" where
  "Itoa i = (if i < 0 then CHR ''-'' # nat_digits (nat (- i)) else nat_digits (nat i))"

definition digits_val :: "string \<Rightarrow> nat" where
  "digits_val s = foldl (\<lambda>a c. 10 * a + digit_val c) 0 s"

definition int64_wrap :: "int \<Rightarrow> int" where
  "int64_wrap x = (x + 2 ^ 63) mod 2 ^ 64 - 2 ^ 63"

text \<open>
  \<open>fmt.Sscanf(s, "%d", &x)\<close>: leading blanks, an optional sign, the longest run of digits; nothing
  is stored when there is no digit or the number does not fit an \<open>int64\<close>.
\<close>

definition Sscanf_d :: "string \<Rightarrow> int option" where
  "Sscanf_d s =
     (let t = dropWhile (\<lambda>c. is_space c \<and> of_char c \<noteq> (10 :: nat)) s;
          neg = (t \<noteq> [] \<and> hd t = CHR ''-'');
          u = (if t \<noteq> [] \<and> (hd t = CHR ''-'' \<or> hd t = CHR ''+'') then tl t else t);
          ds = takeWhile is_digit u;
          v = (if neg then - int (digits_val ds) else int (digits_val ds))
      in if ds = [] \<or> v < - (2 ^ 63) \<or> 2 ^ 63 \<le> v then None else Some v)"

text \<open>The \<open>%q\<close> verb (bytes above 127 are left alone).\<close>

definition hex_digit :: "nat \<Rightarrow> char" where
  "hex_digit d = (if d < 10 then char_of (48 + d) else char_of (87 + d))"

definition quote_char :: "char \<Rightarrow> string" where
  "quote_char c =
     (let n = (of_char c :: nat); bs = char_of (92 :: nat) in
        if n = 34 \<or> n = 92 then [bs, c]
        else if n = 7 then [bs, CHR ''a''] else if n = 8 then [bs, CHR ''b'']
        else if n = 12 then [bs, CHR ''f''] else if n = 10 then [bs, CHR ''n'']
        else if n = 13 then [bs, CHR ''r''] else if n = 9 then [bs, CHR ''t'']
        else if n = 11 then [bs, CHR ''v'']
        else if n < 32 \<or> n = 127 then [bs, CHR ''x'', hex_digit (n div 16), hex_digit (n mod 16)]
        else [c])"

definition Quote :: "string \<Rightarrow> string" where
  "Quote s = char_of (34 :: nat) # concat (map quote_char s) @ [char_of (34 :: nat)]"

text \<open>The \<open>%.2f\<close> verb: round half to even at the second decimal.\<close>

definition round_half_even :: "rat \<Rightarrow> int" where
  "round_half_even x =
     (let f = \<lfloor>x\<rfloor>; d = x - of_int f in
        if d < 1 / 2 then f else if 1 / 2 < d then f + 1 else if even f then f else f + 1)"

definition fmt_2f :: "rat \<Rightarrow> string" where
  "fmt_2f x =
     (let n = nat (round_half_even (100 * \<bar>x\<bar>)) in
        (if x < 0 then ''-'' else []) @ nat_digits (n div 100) @ ''.'' @
        [digit_char (n div 10 mod 10), digit_char (n mod 10)])"

lemma digit_char_props [simp]:
  assumes "d < 10"
  shows "is_digit (digit_char d)" "digit_val (digit_char d) = d"
  using assms by (simp_all add: digit_char_def is_digit_def digit_val_def)

lemma digits_val_append: "digits_val (s @ [c]) = 10 * digits_val s + digit_val c"
  by (simp add: digits_val_def)

lemma nat_digits_digits: "c \<in> set (nat_digits n) \<Longrightarrow> is_digit c"
proof (induction n rule: nat_digits.induct)
  case (1 n)
  then show ?case by (subst (asm) (2) nat_digits.simps) (auto split: if_splits)
qed

lemma digits_val_nat_digits [simp]: "digits_val (nat_digits n) = n"
proof (induction n rule: nat_digits.induct)
  case (1 n)
  show ?case
  proof (cases "n < 10")
    case True
    then show ?thesis by (subst nat_digits.simps) (simp add: digits_val_def)
  next
    case False
    with 1 show ?thesis by (subst nat_digits.simps) (simp add: digits_val_append)
  qed
qed

lemma nat_digits_nonempty [simp]: "nat_digits n \<noteq> []"
  by (subst nat_digits.simps) simp

lemma hd_nat_digits: "is_digit (hd (nat_digits n))"
  by (rule nat_digits_digits) (rule hd_in_set, simp)

lemma nat_digits_inj: "nat_digits m = nat_digits n \<longleftrightarrow> m = n"
  by (metis digits_val_nat_digits)

lemma not_digit_sign [simp]: "\<not> is_digit (CHR ''-'')" "\<not> is_digit (CHR ''+'')" "\<not> is_digit (CHR '':'')"
  by (simp_all add: is_digit_def)

lemma takeWhile_digits [simp]: "takeWhile is_digit (nat_digits n) = nat_digits n"
  by (auto intro: takeWhile_eq_all_conv [THEN iffD2] dest: nat_digits_digits)

text \<open>Reading back a printed number.\<close>

lemma Sscanf_d_nat:
  assumes "int n < 2 ^ 63"
  shows "Sscanf_d (nat_digits n) = Some (int n)"
proof -
  let ?c = "hd (nat_digits n)"
  have d: "is_digit ?c" by (rule hd_nat_digits)
  then have ns: "\<not> is_space ?c" "?c \<noteq> CHR ''-''" "?c \<noteq> CHR ''+''"
    by (auto simp: is_digit_def is_space_def Let_def)
  have drop: "dropWhile (\<lambda>c. is_space c \<and> of_char c \<noteq> (10 :: nat)) (nat_digits n) = nat_digits n"
    using ns(1) by (cases "nat_digits n") auto
  show ?thesis using assms ns by (simp add: Sscanf_d_def Let_def drop)
qed

lemma int64_wrap_id: "- (2 ^ 63) \<le> x \<Longrightarrow> x < 2 ^ 63 \<Longrightarrow> int64_wrap x = x"
  by (simp add: int64_wrap_def)

section \<open>Maps\<close>

abbreviation mget :: "'v gomap \<Rightarrow> string \<Rightarrow> 'v option" where "mget \<equiv> map_of"
abbreviation mput :: "string \<Rightarrow> 'v \<Rightarrow> 'v gomap \<Rightarrow> 'v gomap" where "mput \<equiv> AList.update"
abbreviation mdel :: "string \<Rightarrow> 'v gomap \<Rightarrow> 'v gomap" where "mdel \<equiv> AList.delete"

text \<open>\<open>m[k]\<close> of a \<open>map[string]string\<close>: the empty string when the key is missing.\<close>

definition mval :: "props \<Rightarrow> string \<Rightarrow> string" where
  "mval m k = (case mget m k of None \<Rightarrow> [] | Some v \<Rightarrow> v)"

abbreviation map_ok :: "'v gomap \<Rightarrow> bool" where "map_ok m \<equiv> distinct (map fst m)"

text \<open>Two maps with the same entries, whatever the order they are ranged over.\<close>

definition same_map :: "'v gomap \<Rightarrow> 'v gomap \<Rightarrow> bool" where
  "same_map m n \<longleftrightarrow> mget m = mget n"

lemma mget_mput [simp]: "mget (mput k v m) = (mget m)(k \<mapsto> v)"
  by (rule AList.update_conv')

lemma mget_mdel [simp]: "mget (mdel k m) = (mget m)(k := None)"
  by (rule AList.delete_conv')

text \<open>Writing a value that is already there changes nothing.\<close>

lemma mput_same: "mget m k = Some v \<Longrightarrow> mput k v m = m"
  by (induction m) (auto split: if_splits)

lemma dom_mput: "dom (mget (mput k v m)) = insert k (dom (mget m))"
  by (simp only: mget_mput dom_fun_upd) simp

lemma map_ok_mput [simp]: "map_ok m \<Longrightarrow> map_ok (mput k v m)"
  by (rule AList.distinct_update)

lemma mval_mput [simp]: "mval (mput k v m) k' = (if k' = k then v else mval m k')"
  by (simp add: mval_def)

lemma map_ok_filter [simp]: "map_ok m \<Longrightarrow> map_ok (filter P m)"
  by (rule distinct_map_filter)

lemma mget_filter_keys: "mget (filter (\<lambda>kv. P (fst kv)) m) k = (if P k then mget m k else None)"
  by (induction m) auto

text \<open>Writing a key that a filter drops is not seen behind it.\<close>

lemma filter_mput: "\<not> P k \<Longrightarrow> filter (\<lambda>kv. P (fst kv)) (mput k v m) = filter (\<lambda>kv. P (fst kv)) m"
  by (induction m) auto

lemma set_gomap: "map_ok m \<Longrightarrow> (k, v) \<in> set m \<longleftrightarrow> mget m k = Some v"
  by (auto dest: map_of_SomeD)

section \<open>Lists\<close>

text \<open>
  \<open>sort.SliceStable\<close> by a descending key: the stable sort is unique, so it is \<^const>\<open>sort_key\<close>
  with the key negated.
\<close>

definition sort_desc :: "('a \<Rightarrow> 'k :: {linorder, ab_group_add, ordered_ab_group_add}) \<Rightarrow> 'a list \<Rightarrow> 'a list" where
  "sort_desc f xs = sort_key (\<lambda>x. - f x) xs"

lemma set_sort_desc [simp]: "set (sort_desc f xs) = set xs"
  by (simp add: sort_desc_def)

lemma mset_sort_desc [simp]: "mset (sort_desc f xs) = mset xs"
  by (simp add: sort_desc_def)

lemma length_sort_desc [simp]: "length (sort_desc f xs) = length xs"
  by (simp add: sort_desc_def)

lemma sorted_sort_desc: "sorted_wrt (\<lambda>x y. f y \<le> f x) (sort_desc f xs)"
proof -
  have "sorted (map (\<lambda>x. - f x) (sort_desc f xs))" by (simp add: sort_desc_def)
  then show ?thesis by (simp add: sorted_map)
qed

lemma sort_desc_stable: "filter (\<lambda>y. f y = k) (sort_desc f xs) = filter (\<lambda>y. f y = k) xs"
  using sort_key_stable [of "\<lambda>x. - f x" "- k" xs] by (simp add: sort_desc_def)

lemma list_fold_invariant:
  "I s \<Longrightarrow> (\<And>s x. x \<in> set xs \<Longrightarrow> I s \<Longrightarrow> I (f s x)) \<Longrightarrow> I (foldl f s xs)"
  by (induction xs arbitrary: s) auto

end
