(* ===== verification/Model.thy ===== *)
theory Model
  imports GoLib
begin

text \<open>
  The canonical SBOM model (\<open>internal/sbom/model\<close>): hashes, licences, evidence, layer
  information, components, the SBOM itself, and the depth-first walk over the component tree that
  the enrichers share.  A component's flat fields are the record \<open>component_data\<close>; the tree node
  \<open>Component d subs\<close> adds the nested components.  An absent pointer is \<^const>\<open>None\<close>; a nil map and
  an empty map are both \<^term>\<open>[]\<close>.
\<close>

section \<open>Types\<close>

record Hash =
  Algorithm :: string
  HashValue :: string

record License =
  SPDXID :: string
  LicenseName :: string
  Expression :: string
  URL :: string

record EvidenceLocation =
  Path :: string
  LineNo :: int

record Evidence =
  Method :: string
  EvConfidence :: rat
  Locations :: "EvidenceLocation list"

record LayerInfo =
  LayerDigest :: string
  LayerIndex :: int
  DockerfileLine :: string
  AddedBy :: string

record component_data =
  BOMRef :: string
  CType :: string
  Group :: string
  Name :: string
  Version :: string
  Description :: string
  Scope :: string
  PURL :: string
  CPEs :: "string list"
  Hashes :: "Hash list"
  Licenses :: "License list"
  Supplier :: string
  Author :: string
  Publisher :: string
  Copyright :: string
  Properties :: props
  CEvidence :: "Evidence option"
  CLayerInfo :: "LayerInfo option"
  COrigin :: string

datatype component = Component (cdata: component_data) (SubComponents: "component list")

record Tool =
  Vendor :: string
  ToolName :: string
  ToolVersion :: string

record Relationship =
  SourceRef :: string
  TargetRef :: string
  RelType :: string

text \<open>\<open>Timestamp\<close> is \<^const>\<open>None\<close> for Go's zero time, the only thing the code asks of it.\<close>

record Metadata =
  Timestamp :: "int option"
  Authors :: "string list"
  Tools :: "Tool list"
  MComponent :: "component option"
  MProperties :: props

record SBOM =
  SMetadata :: Metadata
  Components :: "component list"
  Relationships :: "Relationship list"
  SProperties :: props
  SourceFormat :: string
  SourceRaw :: string

section \<open>Constants and predicates of the model\<close>

definition ComponentTypeApplication :: string where "ComponentTypeApplication = ''application''"
definition ComponentTypeContainer :: string where "ComponentTypeContainer = ''container''"
definition ComponentTypeDevice :: string where "ComponentTypeDevice = ''device''"
definition ComponentTypeFile :: string where "ComponentTypeFile = ''file''"
definition ComponentTypeFirmware :: string where "ComponentTypeFirmware = ''firmware''"
definition ComponentTypeFramework :: string where "ComponentTypeFramework = ''framework''"
definition ComponentTypeLibrary :: string where "ComponentTypeLibrary = ''library''"
definition ComponentTypeOS :: string where "ComponentTypeOS = ''operating-system''"
definition ComponentTypePlatform :: string where "ComponentTypePlatform = ''platform''"
definition ComponentTypeUnknown :: string where "ComponentTypeUnknown = ''unknown''"

lemmas component_types = ComponentTypeApplication_def ComponentTypeContainer_def
  ComponentTypeDevice_def ComponentTypeFile_def ComponentTypeFirmware_def
  ComponentTypeFramework_def ComponentTypeLibrary_def ComponentTypeOS_def
  ComponentTypePlatform_def ComponentTypeUnknown_def

definition OriginBaseImage :: string where "OriginBaseImage = ''base''"
definition OriginApplication :: string where "OriginApplication = ''app''"
definition OriginUnknown :: string where "OriginUnknown = ''unknown''"

lemmas origins = OriginBaseImage_def OriginApplication_def OriginUnknown_def

definition Origin_IsKnown :: "string \<Rightarrow> bool" where
  "Origin_IsKnown org \<longleftrightarrow> org = OriginBaseImage \<or> org = OriginApplication \<or> org = OriginUnknown"

definition IsCycloneDX :: "string \<Rightarrow> bool" where
  "IsCycloneDX f \<longleftrightarrow> f = ''cyclonedx-json'' \<or> f = ''cyclonedx-xml''"

definition IsSPDX :: "string \<Rightarrow> bool" where
  "IsSPDX f \<longleftrightarrow> f = ''spdx-json'' \<or> f = ''spdx-tag-value''"

definition NormalizeHashAlgorithm :: "string \<Rightarrow> string" where
  "NormalizeHashAlgorithm s0 =
     (let s = replace_char (CHR ''_'') (CHR ''-'') (ToLower (TrimSpace s0)) in
        if s = ''sha-1'' then ''sha1''
        else if s = ''sha-256'' then ''sha256''
        else if s = ''sha-384'' then ''sha384''
        else if s = ''sha-512'' then ''sha512''
        else if s = ''blake2b-256'' \<or> s = ''blake2b256'' then ''blake2b-256''
        else if s = ''blake2b-512'' \<or> s = ''blake2b512'' then ''blake2b-512''
        else filter (\<lambda>c. c \<noteq> CHR ''-'') s)"

definition IsExpression :: "License \<Rightarrow> bool" where
  "IsExpression l \<longleftrightarrow> Expression l \<noteq> []"

definition License_IsEmpty :: "License \<Rightarrow> bool" where
  "License_IsEmpty l \<longleftrightarrow> SPDXID l = [] \<and> LicenseName l = [] \<and> Expression l = [] \<and> URL l = []"

definition Evidence_IsZero :: "Evidence \<Rightarrow> bool" where
  "Evidence_IsZero e \<longleftrightarrow> Method e = [] \<and> EvConfidence e = 0 \<and> Locations e = []"

text \<open>A component with every field at Go's zero value.\<close>

definition empty_component :: component_data where
  "empty_component = \<lparr>BOMRef = [], CType = [], Group = [], Name = [], Version = [],
     Description = [], Scope = [], PURL = [], CPEs = [], Hashes = [], Licenses = [],
     Supplier = [], Author = [], Publisher = [], Copyright = [], Properties = [],
     CEvidence = None, CLayerInfo = None, COrigin = []\<rparr>"

definition empty_metadata :: Metadata where
  "empty_metadata = \<lparr>Timestamp = None, Authors = [], Tools = [], MComponent = None, MProperties = []\<rparr>"

definition empty_sbom :: SBOM where
  "empty_sbom = \<lparr>SMetadata = empty_metadata, Components = [], Relationships = [],
     SProperties = [], SourceFormat = [], SourceRaw = []\<rparr>"

text \<open>\<open>setProp\<close> of the enrichers, and the same on the SBOM's metadata.\<close>

definition setProp :: "string \<Rightarrow> string \<Rightarrow> component_data \<Rightarrow> component_data" where
  "setProp k v c = c\<lparr>Properties := mput k v (Properties c)\<rparr>"

definition setMeta :: "string \<Rightarrow> string \<Rightarrow> SBOM \<Rightarrow> SBOM" where
  "setMeta k v s = s\<lparr>SMetadata := (SMetadata s)\<lparr>MProperties := mput k v (MProperties (SMetadata s))\<rparr>\<rparr>"

definition metaProp :: "SBOM \<Rightarrow> string \<Rightarrow> string option" where
  "metaProp s k = mget (MProperties (SMetadata s)) k"

lemma metaProp_setMeta [simp]:
  "metaProp (setMeta k v s) k' = (if k' = k then Some v else metaProp s k')"
  by (simp add: metaProp_def setMeta_def)

lemma setMeta_same: "metaProp s k = Some v \<Longrightarrow> setMeta k v s = s"
  by (simp add: metaProp_def setMeta_def mput_same)

lemma setMeta_frame [simp]:
  "Components (setMeta k v s) = Components s" "Relationships (setMeta k v s) = Relationships s"
  "Authors (SMetadata (setMeta k v s)) = Authors (SMetadata s)"
  "Tools (SMetadata (setMeta k v s)) = Tools (SMetadata s)"
  "Timestamp (SMetadata (setMeta k v s)) = Timestamp (SMetadata s)"
  by (simp_all add: setMeta_def)

section \<open>The component tree\<close>

text \<open>
  \<open>walk(comps, fn)\<close> applies \<open>fn\<close> to a component and then to its sub-components.  The function may
  thread a state (statistics, a log) and rewrites the flat fields; every walker of the code leaves
  the tree itself alone.
\<close>

fun walk_state :: "('s \<Rightarrow> component_data \<Rightarrow> 's \<times> component_data) \<Rightarrow> 's \<Rightarrow> component \<Rightarrow> 's \<times> component"
  and walk_states :: "('s \<Rightarrow> component_data \<Rightarrow> 's \<times> component_data) \<Rightarrow> 's \<Rightarrow> component list \<Rightarrow> 's \<times> component list"
where
  "walk_state f s (Component d subs) =
     (let r = f s d; q = walk_states f (fst r) subs in (fst q, Component (snd r) (snd q)))"
| "walk_states f s [] = (s, [])"
| "walk_states f s (c # cs) =
     (let r = walk_state f s c; q = walk_states f (fst r) cs in (fst q, snd r # snd q))"

text \<open>The walk of a function without state.\<close>

fun walk :: "(component_data \<Rightarrow> component_data) \<Rightarrow> component \<Rightarrow> component" where
  "walk f (Component d subs) = Component (f d) (map (walk f) subs)"

abbreviation walks :: "(component_data \<Rightarrow> component_data) \<Rightarrow> component list \<Rightarrow> component list" where
  "walks f cs \<equiv> map (walk f) cs"

text \<open>The components of a tree in depth-first order.\<close>

fun flatten :: "component \<Rightarrow> component_data list" where
  "flatten (Component d subs) = d # concat (map flatten subs)"

definition all_components :: "component list \<Rightarrow> component_data list" where
  "all_components cs = concat (map flatten cs)"

lemma all_components_simps [simp]:
  "all_components [] = []"
  "all_components (Component d subs # cs) = d # all_components subs @ all_components cs"
  "all_components (xs @ ys) = all_components xs @ all_components ys"
  by (simp_all add: all_components_def)

lemma flatten_walk: "flatten (walk f c) = map f (flatten c)"
proof (induction f c rule: walk.induct)
  case (1 f d subs)
  then show ?case by (simp add: map_concat comp_def cong: map_cong)
qed

lemma all_components_walks [simp]: "all_components (walks f cs) = map f (all_components cs)"
  by (simp add: all_components_def map_concat comp_def flatten_walk)

text \<open>A walker with state, over the flattened tree: the states it goes through.\<close>

lemma walk_state_fold:
  "fst (walk_state f s c) = foldl (\<lambda>s d. fst (f s d)) s (flatten c)"
  "fst (walk_states f s cs) = foldl (\<lambda>s d. fst (f s d)) s (all_components cs)"
  by (induction f s c and f s cs rule: walk_state_walk_states.induct)
     (auto simp: Let_def all_components_def)

lemma walk_state_stateless:
  "(\<And>s d. snd (f s d) = g d) \<Longrightarrow> snd (walk_state f s c) = walk g c"
  "(\<And>s d. snd (f s d) = g d) \<Longrightarrow> snd (walk_states f s cs) = walks g cs"
  by (induction f s c and f s cs rule: walk_state_walk_states.induct) (auto simp: Let_def)

text \<open>The same when the state keeps an invariant the result depends on.\<close>

lemma walk_state_invariant:
  "(\<And>s d. I s \<Longrightarrow> I (fst (f s d)) \<and> snd (f s d) = g d) \<Longrightarrow>
     I s \<Longrightarrow> I (fst (walk_state f s c)) \<and> snd (walk_state f s c) = walk g c"
  "(\<And>s d. I s \<Longrightarrow> I (fst (f s d)) \<and> snd (f s d) = g d) \<Longrightarrow>
     I s \<Longrightarrow> I (fst (walk_states f s cs)) \<and> snd (walk_states f s cs) = walks g cs"
  by (induction f s c and f s cs rule: walk_state_walk_states.induct) (auto simp: Let_def)

text \<open>The interface of a per-component enricher: what it promises about one component.\<close>

locale component_step =
  fixes step :: "component_data \<Rightarrow> component_data"
    and frame :: "component_data \<Rightarrow> 'f"
  assumes step_frame: "frame (step d) = frame d"
begin

lemma walk_frame: "map frame (all_components (walks step cs)) = map frame (all_components cs)"
  by (simp add: step_frame)

lemma walk_length: "length (walks step cs) = length cs"
  by simp

end

text \<open>A step that has nothing left to do the second time.\<close>

locale idempotent_step = component_step +
  assumes step_idem: "step (step d) = step d"
begin

lemma walk_tree_idem: "walk step (walk step c) = walk step c"
proof (induction c)
  case (Component d subs)
  then show ?case by (simp add: step_idem)
qed

lemma walk_idem: "walks step (walks step cs) = walks step cs"
  by (simp add: walk_tree_idem)

end

end
