(* ===== verification/Ordering.thy ===== *)
theory Ordering
  imports Model
begin

text \<open>
  The enricher ordering (\<open>internal/enrich/ordering.go\<close>): \<open>TopoSort\<close> with its helpers, on the
  \<open>Enricher\<close> interface of \<open>internal/enrich/enricher.go\<close>.  A map lookup of a missing key yields Go's
  zero value, so the in-degree and reverse-edge maps are total functions with default 0 and nil.
\<close>

section \<open>Model\<close>

record 'b enricher =
  EName :: string
  Dependencies :: "string list"
  Enrich :: "'b \<Rightarrow> SBOM \<Rightarrow> string option \<times> SBOM"

datatype topo_error = DuplicateName string | CyclicDependency "string list"

fun indexByName_from ::
  "nat \<Rightarrow> 'b enricher list \<Rightarrow> 'b enricher gomap \<Rightarrow> nat gomap \<Rightarrow> topo_error + ('b enricher gomap \<times> nat gomap)"
where
  "indexByName_from i [] byName order = Inr (byName, order)"
| "indexByName_from i (e # es) byName order =
     (if mget byName (EName e) \<noteq> None then Inl (DuplicateName (EName e))
      else indexByName_from (Suc i) es (mput (EName e) e byName) (mput (EName e) i order))"

definition indexByName :: "'b enricher list \<Rightarrow> topo_error + ('b enricher gomap \<times> nat gomap)" where
  "indexByName es = indexByName_from 0 es [] []"

type_synonym graph = "(string \<Rightarrow> int) \<times> (string \<Rightarrow> string list)"

definition add_edge :: "'b enricher gomap \<Rightarrow> string \<Rightarrow> graph \<Rightarrow> string \<Rightarrow> graph" where
  "add_edge byName n g dep =
     (if mget byName dep = None then g
      else ((fst g)(n := fst g n + 1), (snd g)(dep := snd g dep @ [n])))"

definition buildGraph :: "'b enricher list \<Rightarrow> 'b enricher gomap \<Rightarrow> graph" where
  "buildGraph es byName =
     foldl (\<lambda>g e. foldl (add_edge byName (EName e)) g (Dependencies e)) (\<lambda>_. 0, \<lambda>_. []) es"

definition retire :: "'b enricher list \<Rightarrow> (string \<Rightarrow> int) \<times> 'b enricher list \<Rightarrow> string \<Rightarrow> (string \<Rightarrow> int) \<times> 'b enricher list" where
  "retire es s n =
     (let inDegree = (fst s)(n := fst s n - 1) in
        (inDegree,
         if inDegree n = 0 then
           (case find (\<lambda>e. EName e = n) es of None \<Rightarrow> snd s | Some e \<Rightarrow> snd s @ [e])
         else snd s))"

text \<open>
  The queue loop.  It ends because an enricher enters the queue only when its in-degree drops to
  zero, so the queue length plus the number of enrichers with a positive in-degree decreases.
\<close>

definition positive :: "'b enricher list \<Rightarrow> (string \<Rightarrow> int) \<Rightarrow> nat" where
  "positive es inDegree = length (filter (\<lambda>e. 0 < inDegree (EName e)) es)"

lemma positive_dec: "positive es (f(n := f n - 1)) \<le> positive es f"
  by (induction es) (auto simp: positive_def)

lemma positive_dec_strict:
  assumes "f n = 1" "find (\<lambda>e. EName e = n) es = Some e"
  shows "positive es (f(n := f n - 1)) < positive es f"
  using assms
proof (induction es)
  case (Cons x es)
  show ?case
  proof (cases "EName x = n")
    case True
    have "positive es (f(n := 0)) \<le> positive es f"
      using positive_dec [of es f n] Cons.prems(1) by simp
    with True Cons.prems(1) show ?thesis by (simp add: positive_def)
  next
    case False
    with Cons show ?thesis by (auto simp: positive_def)
  qed
qed simp

lemma retire_measure:
  "length (snd (retire es s n)) + positive es (fst (retire es s n)) \<le> length (snd s) + positive es (fst s)"
proof (cases "fst s n - 1 = 0 \<and> find (\<lambda>e. EName e = n) es \<noteq> None")
  case True
  then obtain e where e: "fst s n = 1" "find (\<lambda>e. EName e = n) es = Some e" by auto
  with positive_dec_strict [of "fst s" n es e] show ?thesis by (simp add: retire_def Let_def)
next
  case False
  then show ?thesis
    using positive_dec [of es "fst s" n] by (auto simp: retire_def Let_def split: option.split)
qed

lemma retire_fold_measure:
  "length (snd (foldl (retire es) s ns)) + positive es (fst (foldl (retire es) s ns))
     \<le> length (snd s) + positive es (fst s)"
proof (induction ns arbitrary: s)
  case (Cons n ns)
  show ?case using Cons.IH [of "retire es s n"] retire_measure [of es s n] by simp
qed simp

function kahn_loop ::
  "'b enricher list \<Rightarrow> (string \<Rightarrow> string list) \<Rightarrow> (string \<Rightarrow> int) \<Rightarrow> 'b enricher list \<Rightarrow> 'b enricher list \<Rightarrow> 'b enricher list"
where
  "kahn_loop es dependents inDegree [] out = out"
| "kahn_loop es dependents inDegree (head # queue) out =
     (let s = foldl (retire es) (inDegree, queue) (dependents (EName head)) in
        kahn_loop es dependents (fst s) (snd s) (out @ [head]))"
  by pat_completeness auto
termination
proof (relation "measure (\<lambda>(es, dependents, inDegree, queue, out). length queue + positive es inDegree)", goal_cases)
  case 1
  show ?case by simp
next
  case (2 es dependents inDegree head queue out s)
  then show ?case
    using retire_fold_measure [of es "(inDegree, queue)" "dependents (EName head)"] by simp
qed

definition kahn :: "'b enricher list \<Rightarrow> (string \<Rightarrow> int) \<Rightarrow> (string \<Rightarrow> string list) \<Rightarrow> 'b enricher list" where
  "kahn es inDegree dependents =
     kahn_loop es dependents inDegree (filter (\<lambda>e. inDegree (EName e) = 0) es) []"

definition cycleError :: "'b enricher list \<Rightarrow> 'b enricher list \<Rightarrow> topo_error" where
  "cycleError es out =
     CyclicDependency (map EName (filter (\<lambda>e. EName e \<notin> set (map EName out)) es))"

definition TopoSort :: "'b enricher list \<Rightarrow> topo_error + 'b enricher list" where
  "TopoSort es =
     (if es = [] then Inr []
      else (case indexByName es of
          Inl err \<Rightarrow> Inl err
        | Inr idx \<Rightarrow>
            (let g = buildGraph es (fst idx); out = kahn es (fst g) (snd g) in
               if length out \<noteq> length es then Inl (cycleError es out) else Inr out)))"

section \<open>The dependency relation\<close>

abbreviation names :: "'b enricher list \<Rightarrow> string list" where "names es \<equiv> map EName es"

text \<open>The dependencies of an enricher that the code honours: the registered ones.\<close>

definition registered :: "'b enricher list \<Rightarrow> 'b enricher \<Rightarrow> string list" where
  "registered es e = filter (\<lambda>d. d \<in> set (names es)) (Dependencies e)"

definition dep_rel :: "'b enricher list \<Rightarrow> (string \<times> string) set" where
  "dep_rel es = {(d, EName e) | d e. e \<in> set es \<and> d \<in> set (registered es e)}"

text \<open>The name index: it fails exactly on a repeated name, and its keys are the names.\<close>

lemma indexByName_from_props:
  "(case indexByName_from i es byName order of
      Inl err \<Rightarrow> \<not> (distinct (names es) \<and> set (names es) \<inter> dom (mget byName) = {})
    | Inr idx \<Rightarrow> distinct (names es) \<and> set (names es) \<inter> dom (mget byName) = {} \<and>
        dom (mget (fst idx)) = set (names es) \<union> dom (mget byName))"
proof (induction es arbitrary: i byName order)
  case (Cons e es)
  show ?case
  proof (cases "mget byName (EName e)")
    case None
    then have new: "EName e \<notin> dom (mget byName)" by blast
    note ih = Cons.IH [of "mput (EName e) e byName" "Suc i" "mput (EName e) i order", unfolded dom_mput]
    have step: "indexByName_from i (e # es) byName order =
      indexByName_from (Suc i) es (mput (EName e) e byName) (mput (EName e) i order)"
      using None by simp
    show ?thesis
      unfolding step using ih new
      by (cases "indexByName_from (Suc i) es (mput (EName e) e byName) (mput (EName e) i order)") simp_all
  next
    case (Some x)
    then have "EName e \<in> dom (mget byName)" by blast
    with Some show ?thesis by simp
  qed
qed simp

lemma indexByName_Inl: "indexByName es = Inl err \<Longrightarrow> \<not> distinct (names es)"
  using indexByName_from_props [where i = 0 and es = es and byName = "[]" and order = "[]"]
  by (auto simp: indexByName_def)

lemma indexByName_Inr:
  assumes "indexByName es = Inr idx"
  shows "distinct (names es)" "mget (fst idx) d = None \<longleftrightarrow> d \<notin> set (names es)"
proof -
  have props: "distinct (names es) \<and> dom (mget (fst idx)) = set (names es)"
    using indexByName_from_props [where i = 0 and es = es and byName = "[]" and order = "[]"] assms
    by (simp add: indexByName_def)
  then show "distinct (names es)" by blast
  from props show "mget (fst idx) d = None \<longleftrightarrow> d \<notin> set (names es)"
    by (metis domIff)
qed

lemma indexByName_distinct: "distinct (names es) \<Longrightarrow> \<exists>idx. indexByName es = Inr idx"
  using indexByName_Inl by (cases "indexByName es") auto

text \<open>The graph: in-degrees count registered dependencies, reverse edges list the dependents.\<close>

definition dependents_of :: "'b enricher list \<Rightarrow> (string \<Rightarrow> bool) \<Rightarrow> string \<Rightarrow> string list" where
  "dependents_of es present d =
     concat (map (\<lambda>e. replicate (count_list (filter present (Dependencies e)) d) (EName e)) es)"

lemma add_edges:
  assumes "\<And>d. mget byName d = None \<longleftrightarrow> \<not> present d"
  shows "foldl (add_edge byName n) g ds =
    ((fst g)(n := fst g n + int (length (filter present ds))),
     \<lambda>d. snd g d @ replicate (count_list (filter present ds) d) n)"
proof (induction ds arbitrary: g)
  case (Cons d ds)
  show ?case
    by (subst foldl_Cons, subst Cons.IH)
       (auto simp: add_edge_def assms fun_eq_iff replicate_append_same [symmetric] simp del: replicate_append_same)
qed simp

lemma buildGraph_from:
  assumes "\<And>d. mget byName d = None \<longleftrightarrow> \<not> present d" "distinct (names es)"
  shows "foldl (\<lambda>g e. foldl (add_edge byName (EName e)) g (Dependencies e)) g es =
    (\<lambda>n. case find (\<lambda>e. EName e = n) es of None \<Rightarrow> fst g n
       | Some e \<Rightarrow> fst g n + int (length (filter present (Dependencies e))),
     \<lambda>d. snd g d @ dependents_of es present d)"
  using assms(2)
proof (induction es arbitrary: g)
  case (Cons e es)
  have "find (\<lambda>x. EName x = EName e) es = None"
    using Cons.prems by (simp add: find_None_iff) (metis image_eqI)
  then show ?case
    using Cons.prems
    by (subst foldl_Cons, subst Cons.IH)
       (auto simp: add_edges [of byName present] assms(1) fun_eq_iff dependents_of_def split: option.split)
qed (auto simp: dependents_of_def)

lemma find_name:
  assumes "distinct (names es)" "e \<in> set es"
  shows "find (\<lambda>x. EName x = EName e) es = Some e"
  using assms by (induction es) auto

lemma buildGraph_props:
  assumes "indexByName es = Inr idx"
  shows "e \<in> set es \<Longrightarrow> fst (buildGraph es (fst idx)) (EName e) = int (length (registered es e))"
    and "snd (buildGraph es (fst idx)) d = dependents_of es (\<lambda>d. d \<in> set (names es)) d"
proof -
  note graph = buildGraph_from [where present = "\<lambda>d. d \<in> set (names es)" and byName = "fst idx" and es = es
      and g = "(\<lambda>_. 0, \<lambda>_. [])", OF _ indexByName_Inr(1) [OF assms]]
  show "snd (buildGraph es (fst idx)) d = dependents_of es (\<lambda>d. d \<in> set (names es)) d"
    using graph indexByName_Inr(2) [OF assms] by (simp add: buildGraph_def)
  show "fst (buildGraph es (fst idx)) (EName e) = int (length (registered es e))" if "e \<in> set es"
    using graph indexByName_Inr(2) [OF assms] find_name [OF indexByName_Inr(1) [OF assms] that]
    by (simp add: buildGraph_def registered_def)
qed

section \<open>The invariant of the queue loop\<close>

lemma count_dependents:
  assumes "distinct (names es)" "e \<in> set es"
  shows "count_list (dependents_of es present d) (EName e) = count_list (filter present (Dependencies e)) d"
proof -
  have absent: "EName e \<notin> set (names xs) \<Longrightarrow> count_list (dependents_of xs present d) (EName e) = 0" for xs
    by (induction xs) (auto simp: dependents_of_def count_list_0_iff)
  show ?thesis using assms
  proof (induction es)
    case (Cons x xs)
    have unfold: "dependents_of (x # xs) present d =
        replicate (count_list (filter present (Dependencies x)) d) (EName x) @ dependents_of xs present d"
      by (simp add: dependents_of_def)
    have rep: "count_list (replicate n a) b = (if a = b then n else 0)" for n and a b :: string
      by (induction n) auto
    show ?case
    proof (cases "e = x")
      case True
      with Cons.prems absent [of xs] show ?thesis by (simp add: unfold rep)
    next
      case False
      with Cons.prems have "EName x \<noteq> EName e" by auto
      with False Cons show ?thesis by (simp add: unfold rep)
    qed
  qed simp
qed

lemma set_dependents: "set (dependents_of es present d) \<subseteq> set (names es)"
  by (induction es) (auto simp: dependents_of_def)

lemma retire_fold:
  assumes "distinct (names es)" "set ns \<subseteq> set (names es)" "\<And>n. n \<in> set ns \<Longrightarrow> int (count_list ns n) \<le> f n"
  shows "\<exists>p. foldl (retire es) (f, queue) ns = (\<lambda>n. f n - int (count_list ns n), queue @ p) \<and>
    distinct (names p) \<and> set p \<subseteq> set es \<and>
    set (names p) = {n \<in> set ns. f n = int (count_list ns n)}"
  using assms(2,3)
proof (induction ns arbitrary: f queue)
  case Nil
  show ?case by (intro exI [of _ "[]"]) simp
next
  case (Cons n ns)
  let ?f = "f(n := f n - 1)"
  have bound: "int (count_list ns m) \<le> ?f m" if "m \<in> set ns" for m
    using Cons.prems(2) [of m] that by auto
  from Cons.prems(1) obtain e where e: "e \<in> set es" "EName e = n" by auto
  have found: "find (\<lambda>x. EName x = n) es = Some e"
    using find_name [OF assms(1) e(1)] e(2) by simp
  let ?queue = "if f n - 1 = 0 then queue @ [e] else queue"
  have sub: "set ns \<subseteq> set (names es)" using Cons.prems(1) by simp
  from Cons.IH [where f = ?f and queue = ?queue, OF sub bound] obtain p where
    p: "foldl (retire es) (?f, ?queue) ns = (\<lambda>m. ?f m - int (count_list ns m), ?queue @ p)"
      "distinct (names p)" "set p \<subseteq> set es"
      "set (names p) = {m \<in> set ns. ?f m = int (count_list ns m)}"
    by blast
  have step: "foldl (retire es) (f, queue) (n # ns) = foldl (retire es) (?f, ?queue) ns"
    using found by (simp add: retire_def)
  have degree: "(\<lambda>m. ?f m - int (count_list ns m)) = (\<lambda>m. f m - int (count_list (n # ns) m))"
    by (auto simp: fun_eq_iff)
  show ?case
  proof (cases "f n - 1 = 0")
    case True
    then have notin: "n \<notin> set ns"
      using bound [of n] by (auto simp: count_list_0_iff)
    show ?thesis
    proof (intro exI [of _ "e # p"] conjI)
      show "foldl (retire es) (f, queue) (n # ns) = (\<lambda>m. f m - int (count_list (n # ns) m), queue @ e # p)"
        using step p(1) degree True by simp
      show "distinct (names (e # p))" using p(2,4) notin e(2) by auto
      show "set (e # p) \<subseteq> set es" using p(3) e(1) by simp
      have "set (names p) = {m \<in> set ns. f m = int (count_list (n # ns) m)}"
        using p(4) notin by auto
      moreover have "{m \<in> set (n # ns). f m = int (count_list (n # ns) m)}
          = insert n {m \<in> set ns. f m = int (count_list (n # ns) m)}"
        using True notin by (auto simp: count_list_0_iff)
      ultimately show "set (names (e # p)) = {m \<in> set (n # ns). f m = int (count_list (n # ns) m)}"
        using e(2) by simp
    qed
  next
    case False
    show ?thesis
    proof (intro exI [of _ p] conjI)
      show "foldl (retire es) (f, queue) (n # ns) = (\<lambda>m. f m - int (count_list (n # ns) m), queue @ p)"
        using step p(1) degree False by simp
      show "set (names p) = {m \<in> set (n # ns). f m = int (count_list (n # ns) m)}"
        using p(4) False by (auto simp: count_list_0_iff)
    qed (use p in auto)
  qed
qed

definition dep_sorted :: "'b enricher list \<Rightarrow> 'b enricher list \<Rightarrow> bool" where
  "dep_sorted es out \<longleftrightarrow>
     (\<forall>i < length out. set (registered es (out ! i)) \<subseteq> set (names (take i out)))"

lemma dep_sorted_snoc:
  "dep_sorted es (out @ [h]) \<longleftrightarrow> dep_sorted es out \<and> set (registered es h) \<subseteq> set (names out)"
  by (auto simp: dep_sorted_def nth_append less_Suc_eq)

definition open_deps :: "'b enricher list \<Rightarrow> 'b enricher list \<Rightarrow> 'b enricher \<Rightarrow> string list" where
  "open_deps es out e = filter (\<lambda>d. d \<notin> set (names out)) (registered es e)"

definition kahn_inv :: "'b enricher list \<Rightarrow> (string \<Rightarrow> int) \<Rightarrow> 'b enricher list \<Rightarrow> 'b enricher list \<Rightarrow> bool" where
  "kahn_inv es inDegree queue out \<longleftrightarrow>
     distinct (names (out @ queue)) \<and> set (out @ queue) \<subseteq> set es \<and>
     (\<forall>e \<in> set es. inDegree (EName e) = int (length (open_deps es out e))) \<and>
     (\<forall>e \<in> set es. open_deps es out e = [] \<longleftrightarrow> e \<in> set (out @ queue)) \<and>
     dep_sorted es out"

lemma open_deps_snoc:
  assumes "EName h \<notin> set (names out)"
  shows "length (open_deps es (out @ [h]) e) + count_list (registered es e) (EName h) = length (open_deps es out e)"
proof -
  have "length (filter (\<lambda>d. d \<notin> A) xs) = length (filter (\<lambda>d. d \<noteq> h \<and> d \<notin> A) xs) + count_list xs h"
    if "h \<notin> A" for A and h :: string and xs using that by (induction xs) auto
  from this [OF assms] show ?thesis
    by (simp add: open_deps_def conj_commute insert_iff)
qed

lemma same_name: "distinct (names es) \<Longrightarrow> e \<in> set es \<Longrightarrow> e' \<in> set es \<Longrightarrow> EName e = EName e' \<Longrightarrow> e = e'"
  by (auto simp: distinct_map dest: inj_onD)

lemma name_mem:
  assumes "distinct (names es)" "e \<in> set es" "set p \<subseteq> set es"
  shows "EName e \<in> set (names p) \<longleftrightarrow> e \<in> set p"
proof
  assume "EName e \<in> set (names p)"
  then obtain e' where "e' \<in> set p" "EName e = EName e'" by auto
  with same_name [OF assms(1,2)] assms(3) show "e \<in> set p" by blast
qed simp

lemma kahn_inv_step:
  assumes inv: "kahn_inv es f (h # q) out" and dist: "distinct (names es)"
    and s: "s = foldl (retire es) (f, q) (dependents_of es (\<lambda>d. d \<in> set (names es)) (EName h))"
  shows "kahn_inv es (fst s) (snd s) (out @ [h])"
proof -
  let ?ns = "dependents_of es (\<lambda>d. d \<in> set (names es)) (EName h)"
  from inv have fresh: "EName h \<notin> set (names out)" and hin: "h \<in> set es"
    and dq: "distinct (names (out @ h # q))" and sub: "set (out @ h # q) \<subseteq> set es"
    and deg: "\<And>e. e \<in> set es \<Longrightarrow> f (EName e) = int (length (open_deps es out e))"
    and zero: "\<And>e. e \<in> set es \<Longrightarrow> open_deps es out e = [] \<longleftrightarrow> e \<in> set (out @ h # q)"
    and sorted: "dep_sorted es out"
    by (auto simp: kahn_inv_def)
  have cnt: "count_list ?ns (EName e) = count_list (registered es e) (EName h)" if "e \<in> set es" for e
    using count_dependents [OF dist that] by (simp add: registered_def)
  have bal: "length (open_deps es (out @ [h]) e) + count_list ?ns (EName e) = length (open_deps es out e)"
    if "e \<in> set es" for e using open_deps_snoc [OF fresh] cnt [OF that] by simp
  have bnd: "int (count_list ?ns n) \<le> f n" if "n \<in> set ?ns" for n
  proof -
    from that set_dependents obtain e where e: "e \<in> set es" "n = EName e" by fastforce
    show ?thesis using bal [OF e(1)] deg [OF e(1)] e(2) by simp
  qed
  then obtain p where
    p: "s = (\<lambda>n. f n - int (count_list ?ns n), q @ p)" "distinct (names p)" "set p \<subseteq> set es"
      "set (names p) = {n \<in> set ?ns. f n = int (count_list ?ns n)}"
    unfolding s using retire_fold [OF dist set_dependents bnd, of q] by blast
  have new: "e \<in> set p \<longleftrightarrow> open_deps es (out @ [h]) e = [] \<and> open_deps es out e \<noteq> []" if "e \<in> set es" for e
  proof -
    have "e \<in> set p \<longleftrightarrow> EName e \<in> set (names p)"
      using name_mem [OF dist that p(3)] by blast
    also have "\<dots> \<longleftrightarrow> 0 < count_list ?ns (EName e) \<and> f (EName e) = int (count_list ?ns (EName e))"
      using p(4) count_list_0_iff [of ?ns "EName e"] by auto
    also have "\<dots> \<longleftrightarrow> open_deps es (out @ [h]) e = [] \<and> open_deps es out e \<noteq> []"
      using bal [OF that] deg [OF that] by auto
    finally show ?thesis .
  qed
  have fewer: "open_deps es out e = [] \<Longrightarrow> open_deps es (out @ [h]) e = []" if "e \<in> set es" for e
    using bal [OF that] by auto
  show ?thesis
    unfolding kahn_inv_def
  proof (intro conjI ballI)
    have "set p \<inter> set (out @ h # q) = {}" using new zero p(3) by blast
    then have "EName e \<notin> set (names p)" if "e \<in> set (out @ h # q)" for e
      using name_mem [OF dist _ p(3), of e] sub that by blast
    then have "set (names p) \<inter> set (names (out @ h # q)) = {}"
      unfolding set_map [of EName "out @ h # q"] by blast
    then show "distinct (names ((out @ [h]) @ snd s))" using dq p(1,2) by auto
    show "set ((out @ [h]) @ snd s) \<subseteq> set es" using sub p(1,3) by auto
    show "dep_sorted es (out @ [h])"
      using sorted zero [OF hin] by (auto simp: dep_sorted_snoc open_deps_def filter_empty_conv)
    fix e assume e: "e \<in> set es"
    show "fst s (EName e) = int (length (open_deps es (out @ [h]) e))"
      using bal [OF e] deg [OF e] p(1) by simp
    show "open_deps es (out @ [h]) e = [] \<longleftrightarrow> e \<in> set ((out @ [h]) @ snd s)"
      using new [OF e] zero [OF e] fewer [OF e] p(1) by auto
  qed
qed

lemma kahn_loop_inv:
  assumes "kahn_inv es f q out" "distinct (names es)"
  shows "\<exists>g. kahn_inv es g [] (kahn_loop es (dependents_of es (\<lambda>d. d \<in> set (names es))) f q out)"
  using assms
proof (induction "positive es f + length q" arbitrary: f q out rule: less_induct)
  case less
  show ?case
  proof (cases q)
    case Nil
    with less.prems show ?thesis by auto
  next
    case (Cons h q')
    let ?s = "foldl (retire es) (f, q') (dependents_of es (\<lambda>d. d \<in> set (names es)) (EName h))"
    have "kahn_inv es (fst ?s) (snd ?s) (out @ [h])"
      using kahn_inv_step less.prems Cons by blast
    moreover have "positive es (fst ?s) + length (snd ?s) < positive es f + length q"
      using retire_fold_measure [of es "(f, q')"] Cons by (simp add: add.commute le_imp_less_Suc)
    ultimately show ?thesis
      using less.hyps less.prems(2) Cons by (simp add: Let_def)
  qed
qed

lemma kahn_loop_prefix: "\<exists>rest. kahn_loop es d f q out = out @ q @ rest"
proof (induction es d f q out rule: kahn_loop.induct)
  case (2 es d f h q out)
  have keep: "\<exists>r. snd (foldl (retire es) s ns) = snd s @ r" for s ns
  proof (induction ns arbitrary: s)
    case (Cons n ns)
    have "\<exists>r. snd (retire es s n) = snd s @ r"
      by (auto simp: retire_def Let_def split: option.split)
    with Cons.IH [of "retire es s n"] show ?case by auto
  qed simp
  show ?case using 2 [OF refl] keep [of "(f, q)" "d (EName h)"] by (auto simp: Let_def)
qed simp

section \<open>What TopoSort returns\<close>

text \<open>The computation behind \<open>TopoSort\<close> once the names are known to be distinct.\<close>

definition roots :: "'b enricher list \<Rightarrow> 'b enricher list" where
  "roots es = filter (\<lambda>e. registered es e = []) es"

lemma TopoSort_cases:
  assumes "distinct (names es)"
  obtains out f where "kahn_inv es f [] out" "\<exists>rest. out = roots es @ rest"
    "TopoSort es = (if length out = length es then Inr out else Inl (cycleError es out))"
proof -
  obtain idx where idx: "indexByName es = Inr idx" using indexByName_distinct [OF assms] by blast
  let ?g = "buildGraph es (fst idx)"
  let ?d = "dependents_of es (\<lambda>d. d \<in> set (names es))"
  have d: "snd ?g = ?d" using buildGraph_props(2) [OF idx] by (auto simp: fun_eq_iff)
  have deg: "\<And>e. e \<in> set es \<Longrightarrow> fst ?g (EName e) = int (length (registered es e))"
    by (rule buildGraph_props(1) [OF idx])
  then have seed: "filter (\<lambda>e. fst ?g (EName e) = 0) es = roots es"
    unfolding roots_def by (intro filter_cong) auto
  let ?out = "kahn_loop es ?d (fst ?g) (roots es) []"
  have "kahn_inv es (fst ?g) (roots es) []"
    using assms deg
    by (auto simp: kahn_inv_def roots_def open_deps_def dep_sorted_def distinct_map intro: inj_on_subset)
  then obtain f where "kahn_inv es f [] ?out" using kahn_loop_inv assms by blast
  moreover have "\<exists>rest. ?out = roots es @ rest" using kahn_loop_prefix [of es ?d "fst ?g" "roots es" "[]"] by simp
  moreover have "TopoSort es = (if length ?out = length es then Inr ?out else Inl (cycleError es ?out))"
    using idx d seed by (auto simp: TopoSort_def kahn_def Let_def)
  ultimately show ?thesis using that by blast
qed

lemma TopoSort_duplicate:
  assumes "\<not> distinct (names es)"
  obtains n where "TopoSort es = Inl (DuplicateName n)"
proof -
  from assms obtain err where err: "indexByName es = Inl err"
    using indexByName_Inr(1) by (cases "indexByName es") auto
  have "\<exists>n. err = DuplicateName n" if "indexByName_from i xs b r = Inl err" for i xs b r
    using that by (induction i xs b r rule: indexByName_from.induct) (auto split: if_splits)
  with err obtain n where "err = DuplicateName n" unfolding indexByName_def by blast
  moreover have "es \<noteq> []" using assms by auto
  ultimately have "TopoSort es = Inl (DuplicateName n)" using err by (simp add: TopoSort_def)
  then show ?thesis by (rule that)
qed

lemma kahn_inv_result:
  assumes "kahn_inv es f [] out" "distinct (names es)"
  shows "distinct out" "set out \<subseteq> set es" "dep_sorted es out"
    "e \<in> set es \<Longrightarrow> e \<notin> set out \<Longrightarrow> \<exists>e' \<in> set es - set out. EName e' \<in> set (registered es e)"
proof -
  from assms(1) show "distinct out" "set out \<subseteq> set es" "dep_sorted es out"
    by (auto simp: kahn_inv_def distinct_map)
  assume e: "e \<in> set es" "e \<notin> set out"
  with assms(1) have "open_deps es out e \<noteq> []" by (simp add: kahn_inv_def)
  then obtain d where "d \<in> set (registered es e)" "d \<notin> set (names out)"
    by (auto simp: open_deps_def filter_empty_conv)
  then show "\<exists>e' \<in> set es - set out. EName e' \<in> set (registered es e)"
    by (auto simp: registered_def)
qed

lemma dep_sorted_acyclic:
  assumes "dep_sorted es out" "set out = set es" "distinct (names es)" "distinct (names out)"
  shows "acyclic (dep_rel es)"
proof -
  let ?pos = "\<lambda>n. LEAST i. i < length out \<and> EName (out ! i) = n"
  have pos: "?pos (EName (out ! i)) = i" if "i < length out" for i
  proof (rule Least_equality)
    fix j assume j: "j < length out \<and> EName (out ! j) = EName (out ! i)"
    then have "names out ! j = names out ! i" using that by simp
    with assms(4) j that nth_eq_iff_index_eq [of "names out" j i] show "i \<le> j" by simp
  qed (use that in simp)
  have "dep_rel es \<subseteq> inv_image less_than ?pos"
  proof
    fix x assume "x \<in> dep_rel es"
    then obtain d e where x: "x = (d, EName e)" "e \<in> set es" "d \<in> set (registered es e)"
      by (auto simp: dep_rel_def)
    then obtain i where i: "i < length out" "out ! i = e" using assms(2) by (metis in_set_conv_nth)
    with x(3) assms(1) have "d \<in> set (names (take i out))" by (auto simp: dep_sorted_def)
    then obtain j where "j < i" "EName (out ! j) = d"
      using i by (auto simp: in_set_conv_nth)
    with pos i x(1) show "x \<in> inv_image less_than ?pos" by auto
  qed
  then show ?thesis by (meson acyclic_subset wf_acyclic wf_inv_image wf_less_than)
qed

lemma acyclic_finishes:
  assumes inv: "kahn_inv es f [] out" and dist: "distinct (names es)" and acyc: "acyclic (dep_rel es)"
  shows "set out = set es"
proof (rule ccontr)
  assume "set out \<noteq> set es"
  with kahn_inv_result(2) [OF inv dist] obtain e0 where e0: "e0 \<in> set es - set out" by blast
  have "dep_rel es \<subseteq> set (names es) \<times> set (names es)"
    by (auto simp: dep_rel_def registered_def)
  then have "finite (dep_rel es)" by (rule finite_subset) simp
  with acyc have "wf (dep_rel es)" by (simp add: finite_acyclic_wf)
  moreover have "EName e0 \<in> EName ` (set es - set out)" using e0 by blast
  ultimately obtain n where n: "n \<in> EName ` (set es - set out)"
    and least: "\<And>m. (m, n) \<in> dep_rel es \<Longrightarrow> m \<notin> EName ` (set es - set out)"
    by (rule wfE_min) blast
  from n obtain e where e: "e \<in> set es" "e \<notin> set out" "n = EName e" by blast
  from kahn_inv_result(4) [OF inv dist e(1,2)] obtain e' where
    "e' \<in> set es - set out" "EName e' \<in> set (registered es e)" by blast
  then show False using least e by (auto simp: dep_rel_def)
qed

lemma kahn_inv_complete:
  assumes "kahn_inv es f [] out" "distinct (names es)"
  shows "length out = length es \<longleftrightarrow> set out = set es"
proof -
  have d: "distinct es" "distinct out" "set out \<subseteq> set es"
    using assms kahn_inv_result(1,2) [OF assms] by (auto simp: distinct_map)
  show ?thesis
  proof
    assume "length out = length es"
    with d show "set out = set es"
      by (intro card_subset_eq) (auto simp: distinct_card)
  next
    assume "set out = set es"
    with d show "length out = length es" by (metis distinct_card)
  qed
qed

lemma map_filter_inv: "map f (filter (\<lambda>x. P (f x)) xs) = filter P (map f xs)"
  by (induction xs) auto

lemma kahn_inv_mset:
  assumes "kahn_inv es f [] out" "distinct (names es)" "set out = set es"
  shows "mset out = mset es"
  using assms kahn_inv_result(1) [OF assms(1,2)] by (auto simp: distinct_map set_eq_iff_mset_eq_distinct)

lemma topo_sound:
  assumes "TopoSort es = Inr out"
  shows "mset out = mset es \<and> distinct (names out) \<and> dep_sorted es out"
proof (cases "distinct (names es)")
  case True
  then show ?thesis
  proof (rule TopoSort_cases)
    fix out' f
    assume inv: "kahn_inv es f [] out'"
      and res: "TopoSort es = (if length out' = length es then Inr out' else Inl (cycleError es out'))"
    with assms have out: "out' = out" "length out' = length es" by (auto split: if_splits)
    with kahn_inv_complete [OF inv True] have "mset out' = mset es"
      by (intro kahn_inv_mset [OF inv True]) simp
    then have "mset (names out') = mset (names es)" by simp
    with True have "distinct (names out')" by (metis mset_eq_imp_distinct_iff)
    with \<open>mset out' = mset es\<close> out(1) kahn_inv_result(3) [OF inv True] show ?thesis by simp
  qed
next
  case False
  with assms show ?thesis by (auto elim: TopoSort_duplicate)
qed

lemma topo_succeeds_iff:
  "(\<exists>out. TopoSort es = Inr out) \<longleftrightarrow> distinct (names es) \<and> acyclic (dep_rel es)"
proof (cases "distinct (names es)")
  case True
  then show ?thesis
  proof (rule TopoSort_cases)
    fix out f
    assume inv: "kahn_inv es f [] out"
      and res: "TopoSort es = (if length out = length es then Inr out else Inl (cycleError es out))"
    have "distinct (names out)" using inv by (simp add: kahn_inv_def)
    then have "set out = set es \<longleftrightarrow> acyclic (dep_rel es)"
      using dep_sorted_acyclic [OF kahn_inv_result(3) [OF inv True] _ True] acyclic_finishes [OF inv True] by blast
    with res True kahn_inv_complete [OF inv True] show ?thesis by simp
  qed
next
  case False
  then show ?thesis by (auto elim: TopoSort_duplicate)
qed

section \<open>Properties\<close>

text \<open>
  C1.  A successful \<open>TopoSort\<close> returns a rearrangement of the registered enrichers in which every
  enricher comes after each of its registered dependencies.
\<close>
theorem TopoSort_sound:
  assumes "TopoSort es = Inr out"
  shows "mset out = mset es \<and> distinct (names out) \<and> dep_sorted es out"
  using assms by (rule topo_sound)

text \<open>
  C2.  \<open>TopoSort\<close> succeeds exactly when no two enrichers share a name and the honoured dependencies
  have no cycle; an unregistered dependency never makes it fail.
\<close>
theorem TopoSort_succeeds_iff:
  "(\<exists>out. TopoSort es = Inr out) \<longleftrightarrow> distinct (names es) \<and> acyclic (dep_rel es)"
  by (rule topo_succeeds_iff)

text \<open>
  When the registered enrichers form a cycle the error names every enricher that could not be
  placed, in registration order; the list is not empty and each name on it depends on another one.
\<close>
theorem TopoSort_cycle_error:
  assumes "TopoSort es = Inl (CyclicDependency stuck)"
  shows "stuck \<noteq> [] \<and> filter (\<lambda>n. n \<in> set stuck) (names es) = stuck \<and>
    (\<forall>n \<in> set stuck. \<exists>m \<in> set stuck. (m, n) \<in> dep_rel es)"
proof (cases "distinct (names es)")
  case True
  then show ?thesis
  proof (rule TopoSort_cases)
    fix out f
    assume inv: "kahn_inv es f [] out"
      and res: "TopoSort es = (if length out = length es then Inr out else Inl (cycleError es out))"
    with assms have stuck: "stuck = names (filter (\<lambda>e. EName e \<notin> set (names out)) es)"
      and short: "length out \<noteq> length es" by (auto simp: cycleError_def split: if_splits)
    have sub: "set out \<subseteq> set es" by (rule kahn_inv_result(2) [OF inv True])
    have members: "set stuck = EName ` (set es - set out)"
      using name_mem [OF True _ sub] unfolding stuck by fastforce
    have "set es - set out \<noteq> {}" using short kahn_inv_complete [OF inv True] sub by blast
    moreover have "\<exists>m \<in> set stuck. (m, n) \<in> dep_rel es" if n: "n \<in> set stuck" for n
    proof -
      from n members obtain e where e: "e \<in> set es" "e \<notin> set out" "n = EName e" by blast
      from kahn_inv_result(4) [OF inv True e(1,2)] members e show ?thesis by (auto simp: dep_rel_def)
    qed
    moreover have "filter (\<lambda>n. n \<in> set stuck) (names es) = stuck"
      unfolding stuck map_filter_inv [of EName "\<lambda>n. n \<notin> set (names out)"] by (intro filter_cong) auto
    ultimately show ?thesis using members by auto
  qed
next
  case False
  with assms show ?thesis by (auto elim: TopoSort_duplicate)
qed

section \<open>Witnesses\<close>

definition demo :: "string \<Rightarrow> string list \<Rightarrow> unit enricher" where
  "demo n ds = \<lparr>EName = n, Dependencies = ds, Enrich = \<lambda>_ s. (None, s)\<rparr>"

lemma demo_sel [simp]: "EName (demo n ds) = n" "Dependencies (demo n ds) = ds"
  by (simp_all add: demo_def)

lemmas TopoSort_eval = TopoSort_def indexByName_def buildGraph_def kahn_def add_edge_def retire_def cycleError_def

theorem TopoSort_sound_witness:
  "mset [demo ''dedup'' [], demo ''cpe'' [''dedup'', ''gone'']] =
     mset [demo ''cpe'' [''dedup'', ''gone''], demo ''dedup'' []] \<and>
   distinct (names [demo ''dedup'' [], demo ''cpe'' [''dedup'', ''gone'']]) \<and>
   dep_sorted [demo ''cpe'' [''dedup'', ''gone''], demo ''dedup'' []]
     [demo ''dedup'' [], demo ''cpe'' [''dedup'', ''gone'']]"
  by (rule TopoSort_sound) (simp add: TopoSort_eval)

theorem TopoSort_cycle_error_witness:
  "\<exists>m \<in> set [''a'', ''b'']. (m, ''a'') \<in> dep_rel [demo ''a'' [''b''], demo ''b'' [''a''], demo ''c'' []]"
proof -
  have "TopoSort [demo ''a'' [''b''], demo ''b'' [''a''], demo ''c'' []] = Inl (CyclicDependency [''a'', ''b''])"
    by (simp add: TopoSort_eval)
  from TopoSort_cycle_error [OF this] show ?thesis by simp
qed

end
