(* ===== verification/Pipeline.thy ===== *)
theory Pipeline
  imports Ordering
begin

text \<open>
  The enrichment pipeline (\<open>internal/enrich/pipeline.go\<close>): \<open>Run\<close>, \<open>runEnrichers\<close>, \<open>runOne\<close>, the
  metrics it records, the metadata stamp and the \<open>--enable\<close> / \<open>--disable\<close> filter.  The SBOM is
  passed and returned, since the code mutates it in place, also on the error path.  The context is
  the function giving \<open>ctx.Err()\<close> at the n-th enricher, log lines and metrics are a trace of
  events; times, durations and tracing spans are left out.
\<close>

section \<open>Model\<close>

record 'b pipeline =
  Enrichers :: "'b enricher list"
  Metrics :: bool

datatype event =
    PipelineOrder "string list"
  | EnricherStart string
  | EnricherDone string
  | EnricherFail string string
  | DurationObserved string string
  | ErrorCounted string
  | RunCounted string
  | RunDuration string
  | PipelineDone nat

datatype pipeline_error =
    NilSBOM
  | NilBundle
  | SortError topo_error
  | ContextError string
  | EnricherError string string

definition PropertyEnrichedBy :: string where "PropertyEnrichedBy = ''astinus:enriched-by''"
definition PropertyEnrichedVersion :: string where "PropertyEnrichedVersion = ''astinus:enriched-version''"

definition recordEnricherEnd :: "bool \<Rightarrow> string \<Rightarrow> string \<Rightarrow> event list" where
  "recordEnricherEnd metrics name status =
     (if \<not> metrics then []
      else DurationObserved name status # (if status = ''error'' then [ErrorCounted name] else []))"

definition recordPipelineEnd :: "bool \<Rightarrow> string \<Rightarrow> event list" where
  "recordPipelineEnd metrics status = (if \<not> metrics then [] else [RunCounted status, RunDuration status])"

definition runOne :: "bool \<Rightarrow> 'b \<Rightarrow> 'b enricher \<Rightarrow> SBOM \<Rightarrow> pipeline_error option \<times> SBOM \<times> event list" where
  "runOne metrics bundle e sbom =
     (let r = Enrich e bundle sbom in
        case fst r of
          Some err \<Rightarrow> (Some (EnricherError (EName e) err), snd r,
            EnricherStart (EName e) # recordEnricherEnd metrics (EName e) ''error'' @ [EnricherFail (EName e) err])
        | None \<Rightarrow> (None, snd r,
            EnricherStart (EName e) # recordEnricherEnd metrics (EName e) ''success'' @ [EnricherDone (EName e)]))"

fun runEnrichers ::
  "(nat \<Rightarrow> string option) \<Rightarrow> bool \<Rightarrow> 'b \<Rightarrow> 'b enricher list \<Rightarrow> SBOM \<Rightarrow> pipeline_error option \<times> SBOM \<times> event list"
where
  "runEnrichers ctx metrics bundle [] sbom = (None, sbom, [])"
| "runEnrichers ctx metrics bundle (e # es) sbom =
     (case ctx 0 of
        Some err \<Rightarrow> (Some (ContextError err), sbom, [])
      | None \<Rightarrow>
          (let r = runOne metrics bundle e sbom in
             if fst r \<noteq> None then r
             else (let q = runEnrichers (\<lambda>i. ctx (Suc i)) metrics bundle es (fst (snd r)) in
               (fst q, fst (snd q), snd (snd r) @ snd (snd q)))))"

definition stampMetadata :: "string \<Rightarrow> SBOM \<Rightarrow> SBOM" where
  "stampMetadata version sbom =
     setMeta PropertyEnrichedVersion version
       (if metaProp sbom PropertyEnrichedBy = None then setMeta PropertyEnrichedBy ''astinus'' sbom else sbom)"

definition enricherNames :: "'b enricher list \<Rightarrow> string list" where
  "enricherNames es = map EName es"

definition Run ::
  "(nat \<Rightarrow> string option) \<Rightarrow> string \<Rightarrow> 'b pipeline \<Rightarrow> SBOM option \<Rightarrow> 'b option \<Rightarrow>
   pipeline_error option \<times> SBOM option \<times> event list"
where
  "Run ctx version p sbom bundle =
     (case sbom of None \<Rightarrow> (Some NilSBOM, None, [])
      | Some s \<Rightarrow>
        (case bundle of None \<Rightarrow> (Some NilBundle, Some s, [])
         | Some b \<Rightarrow>
           (case TopoSort (Enrichers p) of
              Inl err \<Rightarrow> (Some (SortError err), Some s, [])
            | Inr ordered \<Rightarrow>
                (let r = runEnrichers ctx (Metrics p) b ordered s;
                     tr = PipelineOrder (enricherNames ordered) # snd (snd r) in
                   if fst r \<noteq> None then (fst r, Some (fst (snd r)), tr @ recordPipelineEnd (Metrics p) ''error'')
                   else (None, Some (stampMetadata version (fst (snd r))),
                     tr @ recordPipelineEnd (Metrics p) ''success'' @ [PipelineDone (length (Enrichers p))])))))"

definition flag :: "bool gomap \<Rightarrow> string \<Rightarrow> bool" where
  "flag m k = (mget m k = Some True)"

definition Filter :: "'b enricher list \<Rightarrow> bool gomap \<Rightarrow> bool gomap \<Rightarrow> 'b enricher list" where
  "Filter es enabled disabled =
     filter (\<lambda>e. \<not> flag disabled (EName e) \<and> (enabled \<noteq> [] \<longrightarrow> flag enabled (EName e))) es"

section \<open>The effect of a run\<close>

text \<open>The SBOM after a list of enrichers, each run on the result of the previous ones.\<close>

definition enrich_all :: "'b \<Rightarrow> 'b enricher list \<Rightarrow> SBOM \<Rightarrow> SBOM" where
  "enrich_all b es s = foldl (\<lambda>s e. snd (Enrich e b s)) s es"

lemma enrich_all_simps [simp]:
  "enrich_all b [] s = s" "enrich_all b (e # es) s = enrich_all b es (snd (Enrich e b s))"
  "enrich_all b (xs @ ys) s = enrich_all b ys (enrich_all b xs s)"
  by (simp_all add: enrich_all_def)

text \<open>No enricher of the list fails when they run in turn.\<close>

fun succeeds :: "'b \<Rightarrow> 'b enricher list \<Rightarrow> SBOM \<Rightarrow> bool" where
  "succeeds b [] s = True"
| "succeeds b (e # es) s = (fst (Enrich e b s) = None \<and> succeeds b es (snd (Enrich e b s)))"

lemma runOne_simps [simp]:
  "fst (runOne m b e s) = map_option (EnricherError (EName e)) (fst (Enrich e b s))"
  "fst (snd (runOne m b e s)) = snd (Enrich e b s)"
  by (auto simp: runOne_def Let_def split: option.split)

fun started :: "event list \<Rightarrow> string list" where
  "started [] = []"
| "started (EnricherStart n # tr) = n # started tr"
| "started (_ # tr) = started tr"

lemma started_append [simp]: "started (xs @ ys) = started xs @ started ys"
  by (induction xs rule: started.induct) auto

lemma started_record [simp]:
  "started (recordEnricherEnd m n st) = []" "started (recordPipelineEnd m st) = []"
  by (simp_all add: recordEnricherEnd_def recordPipelineEnd_def)

lemma started_runOne [simp]: "started (snd (snd (runOne m b e s))) = [EName e]"
  by (auto simp: runOne_def Let_def split: option.split)

text \<open>The three ways a run of the ordered list ends; \<open>ns\<close> are the enrichers that were started.\<close>

definition run_outcome ::
  "(nat \<Rightarrow> string option) \<Rightarrow> 'b \<Rightarrow> 'b enricher list \<Rightarrow> SBOM \<Rightarrow> pipeline_error option \<Rightarrow> SBOM \<Rightarrow> string list \<Rightarrow> bool"
where
  "run_outcome ctx b es s err s' ns \<longleftrightarrow>
     (case err of
        None \<Rightarrow> s' = enrich_all b es s \<and> succeeds b es s \<and> ns = names es \<and> (\<forall>i < length es. ctx i = None)
      | Some (EnricherError n msg) \<Rightarrow>
          (\<exists>pre e post. es = pre @ e # post \<and> EName e = n \<and> succeeds b pre s \<and>
             Enrich e b (enrich_all b pre s) = (Some msg, s') \<and> ns = names (pre @ [e]))
      | Some (ContextError msg) \<Rightarrow>
          (\<exists>pre e post. es = pre @ e # post \<and> succeeds b pre s \<and> s' = enrich_all b pre s \<and>
             ctx (length pre) = Some msg \<and> ns = names pre)
      | Some _ \<Rightarrow> False)"

lemma run_outcome_simps:
  "run_outcome ctx b es s None s' ns \<longleftrightarrow>
     s' = enrich_all b es s \<and> succeeds b es s \<and> ns = names es \<and> (\<forall>i < length es. ctx i = None)"
  "run_outcome ctx b es s (Some (EnricherError n msg)) s' ns \<longleftrightarrow>
     (\<exists>pre e post. es = pre @ e # post \<and> EName e = n \<and> succeeds b pre s \<and>
        Enrich e b (enrich_all b pre s) = (Some msg, s') \<and> ns = names (pre @ [e]))"
  "run_outcome ctx b es s (Some (ContextError msg)) s' ns \<longleftrightarrow>
     (\<exists>pre e post. es = pre @ e # post \<and> succeeds b pre s \<and> s' = enrich_all b pre s \<and>
        ctx (length pre) = Some msg \<and> ns = names pre)"
  by (simp_all add: run_outcome_def)

lemma run_outcome_error:
  assumes "run_outcome ctx b es s (Some err) s' ns"
  obtains (enricher) pre e post n msg where "err = EnricherError n msg" "es = pre @ e # post" "EName e = n"
      "succeeds b pre s" "Enrich e b (enrich_all b pre s) = (Some msg, s')" "ns = names (pre @ [e])"
  | (cancelled) pre e post msg where "err = ContextError msg" "es = pre @ e # post" "succeeds b pre s"
      "s' = enrich_all b pre s" "ctx (length pre) = Some msg" "ns = names pre"
  using assms by (cases err) (auto simp: run_outcome_def)

lemma run_outcome_Cons:
  assumes "ctx 0 = None" "fst (Enrich e b s) = None"
    and "run_outcome (\<lambda>i. ctx (Suc i)) b es (snd (Enrich e b s)) err s' ns"
  shows "run_outcome ctx b (e # es) s err s' (EName e # ns)"
proof (cases err)
  case None
  with assms show ?thesis by (auto simp: run_outcome_simps less_Suc_eq_0_disj)
next
  case (Some x)
  from assms(3) [unfolded Some] show ?thesis
  proof (cases rule: run_outcome_error)
    case (enricher pre e' post n msg)
    with assms(1,2) show ?thesis unfolding Some enricher(1) run_outcome_simps
      by (intro exI [of _ "e # pre"] exI [of _ e'] exI [of _ post]) simp
  next
    case (cancelled pre e' post msg)
    with assms(1,2) show ?thesis unfolding Some cancelled(1) run_outcome_simps
      by (intro exI [of _ "e # pre"] exI [of _ e'] exI [of _ post]) simp
  qed
qed

lemma runEnrichers_outcome:
  "run_outcome ctx b es s (fst (runEnrichers ctx m b es s)) (fst (snd (runEnrichers ctx m b es s)))
     (started (snd (snd (runEnrichers ctx m b es s))))"
proof (induction ctx m b es s rule: runEnrichers.induct)
  case (1 ctx m b s)
  then show ?case by (simp add: run_outcome_def)
next
  case (2 ctx m b e es s)
  show ?case
  proof (cases "ctx 0")
    case (Some msg)
    then show ?thesis by (auto simp: run_outcome_simps intro!: exI [of _ "[]"])
  next
    case go: None
    show ?thesis
    proof (cases "fst (Enrich e b s)")
      case (Some msg)
      with go show ?thesis
        by (auto simp: run_outcome_simps Let_def prod_eq_iff intro!: exI [of _ "[]"])
    next
      case ok: None
      have "run_outcome (\<lambda>i. ctx (Suc i)) b es (snd (Enrich e b s))
        (fst (runEnrichers (\<lambda>i. ctx (Suc i)) m b es (snd (Enrich e b s))))
        (fst (snd (runEnrichers (\<lambda>i. ctx (Suc i)) m b es (snd (Enrich e b s)))))
        (started (snd (snd (runEnrichers (\<lambda>i. ctx (Suc i)) m b es (snd (Enrich e b s))))))"
        using "2.IH" [OF go refl] ok by simp
      from run_outcome_Cons [of ctx, OF go ok this] go ok show ?thesis by (simp add: Let_def)
    qed
  qed
qed

lemma Run_cases:
  assumes "Run ctx version p (Some s) (Some b) = (err, sbom, tr)"
  obtains (unsorted) e where "TopoSort (Enrichers p) = Inl e" "err = Some (SortError e)" "sbom = Some s" "tr = []"
  | (failed) ordered s' where "TopoSort (Enrichers p) = Inr ordered" "run_outcome ctx b ordered s err s' (started tr)"
      "err \<noteq> None" "sbom = Some s'"
  | (completed) ordered s' where "TopoSort (Enrichers p) = Inr ordered" "run_outcome ctx b ordered s None s' (started tr)"
      "err = None" "sbom = Some (stampMetadata version s')"
proof (cases "TopoSort (Enrichers p)")
  case (Inl e)
  with assms unsorted show ?thesis by (simp add: Run_def)
next
  case (Inr ordered)
  let ?r = "runEnrichers ctx (Metrics p) b ordered s"
  have out: "run_outcome ctx b ordered s (fst ?r) (fst (snd ?r)) (started (snd (snd ?r)))"
    by (rule runEnrichers_outcome)
  show ?thesis
  proof (cases "fst ?r")
    case None
    with assms Inr have "err = None" "sbom = Some (stampMetadata version (fst (snd ?r)))"
      "started tr = started (snd (snd ?r))"
      by (auto simp: Run_def Let_def)
    with completed [OF Inr] out None show ?thesis by auto
  next
    case (Some x)
    with assms Inr have "err = fst ?r" "sbom = Some (fst (snd ?r))" "started tr = started (snd (snd ?r))"
      by (auto simp: Run_def Let_def)
    with failed [OF Inr] out Some show ?thesis by auto
  qed
qed

text \<open>
  A condition on the SBOM that every enricher keeps, whether it fails or not, and that the metadata
  stamp keeps.
\<close>

locale sbom_invariant =
  fixes enrich :: "'b \<Rightarrow> SBOM \<Rightarrow> string option \<times> SBOM"
    and I :: "SBOM \<Rightarrow> bool"
  assumes keeps: "I s \<Longrightarrow> I (snd (enrich b s))"

lemma enrich_all_invariant:
  "(\<And>e. e \<in> set es \<Longrightarrow> sbom_invariant (Enrich e) I) \<Longrightarrow> I s \<Longrightarrow> I (enrich_all b es s)"
  by (induction es arbitrary: s) (auto simp: sbom_invariant.keeps)

section \<open>Filtering\<close>

lemma Filter_subset: "set (Filter es en dis) \<subseteq> set es"
  by (auto simp: Filter_def)

lemma dep_rel_mono: "set es' \<subseteq> set es \<Longrightarrow> dep_rel es' \<subseteq> dep_rel es"
  by (auto simp: dep_rel_def registered_def)

lemma distinct_names_Filter: "distinct (names es) \<Longrightarrow> distinct (names (Filter es en dis))"
  by (simp add: Filter_def distinct_map_filter)

section \<open>Properties\<close>

text \<open>
  C3.  A run that reports no error has executed every registered enricher once, in an order that
  puts each after its dependencies, each on the SBOM the previous ones left, none of them failing;
  the SBOM it leaves is that result with the metadata stamp on top.
\<close>
theorem Run_success:
  assumes "Run ctx version p (Some s) (Some b) = (None, sbom, tr)"
  shows "\<exists>ordered. mset ordered = mset (Enrichers p) \<and> dep_sorted (Enrichers p) ordered \<and>
    started tr = names ordered \<and> succeeds b ordered s \<and>
    sbom = Some (stampMetadata version (enrich_all b ordered s))"
  using assms
proof (cases rule: Run_cases)
  case (completed ordered s')
  with topo_sound [OF completed(1)] show ?thesis by (auto simp: run_outcome_def)
qed auto

text \<open>
  C4.  When an enricher fails, the run stops there: exactly the enrichers up to and including it
  were started, its error is the one reported under its name, and the SBOM it left is returned
  without the metadata stamp.
\<close>
theorem Run_enricher_error:
  assumes "Run ctx version p (Some s) (Some b) = (Some (EnricherError n msg), sbom, tr)"
  shows "\<exists>pre e post s'. mset (pre @ e # post) = mset (Enrichers p) \<and> EName e = n \<and>
    succeeds b pre s \<and> Enrich e b (enrich_all b pre s) = (Some msg, s') \<and> sbom = Some s' \<and>
    started tr = names (pre @ [e])"
  using assms
proof (cases rule: Run_cases)
  case (failed ordered s')
  then obtain pre e post where "ordered = pre @ e # post" "EName e = n" "succeeds b pre s"
    "Enrich e b (enrich_all b pre s) = (Some msg, s')" "started tr = names (pre @ [e])"
    by (auto simp: run_outcome_def)
  with topo_sound [OF failed(1)] failed(4) show ?thesis by blast
qed auto

text \<open>
  Whatever every registered enricher and the metadata stamp preserve holds of the SBOM after
  the run, also when the run ends in an error of any kind.
\<close>
theorem Run_invariant:
  assumes "Run ctx version p (Some s) (Some b) = (err, Some s', tr)"
    and "\<And>e. e \<in> set (Enrichers p) \<Longrightarrow> sbom_invariant (Enrich e) I"
    and "\<And>s. I s \<Longrightarrow> I (stampMetadata version s)" and "I s"
  shows "I s'"
  using assms(1)
proof (cases rule: Run_cases)
  case (unsorted e)
  with assms(4) show ?thesis by simp
next
  case (completed ordered s'')
  then have "set ordered = set (Enrichers p)" using topo_sound [OF completed(1)] by (metis set_mset_mset)
  with completed assms(2-4) enrich_all_invariant [of ordered I s b] show ?thesis
    by (auto simp: run_outcome_def)
next
  case (failed ordered s'')
  then have mem: "\<And>e. e \<in> set ordered \<Longrightarrow> sbom_invariant (Enrich e) I"
    using topo_sound [OF failed(1)] assms(2) by (metis set_mset_mset)
  from failed(3) obtain x where "err = Some x" by blast
  with failed(2) obtain pre e post where "ordered = pre @ e # post"
    "s'' = snd (Enrich e b (enrich_all b pre s)) \<or> s'' = enrich_all b pre s"
    by (metis run_outcome_error snd_conv)
  with mem have "I s''"
    using enrich_all_invariant [of pre I s b] assms(4) by (auto simp: sbom_invariant.keeps)
  with failed(4) show ?thesis by simp
qed

text \<open>
  Enabling and disabling enrichers keeps the registration order, never duplicates one, and never
  makes a pipeline that could be ordered impossible to order, because a dependency on a disabled
  enricher is dropped.
\<close>
theorem Filter_keeps_sortable:
  assumes "TopoSort es = Inr out"
  shows "\<exists>out'. TopoSort (Filter es enabled disabled) = Inr out' \<and>
    set out' = {e \<in> set es. \<not> flag disabled (EName e) \<and> (enabled \<noteq> [] \<longrightarrow> flag enabled (EName e))}"
proof -
  have ok: "distinct (names es)" "acyclic (dep_rel es)"
    using assms topo_succeeds_iff by blast+
  let ?fs = "Filter es enabled disabled"
  have "distinct (names ?fs)" using ok(1) by (rule distinct_names_Filter)
  moreover have "acyclic (dep_rel ?fs)"
    using ok(2) dep_rel_mono [OF Filter_subset] by (rule acyclic_subset)
  ultimately obtain out' where out': "TopoSort ?fs = Inr out'" using topo_succeeds_iff by blast
  then have "set out' = set ?fs" using topo_sound by (metis set_mset_mset)
  with out' show ?thesis by (auto simp: Filter_def)
qed

section \<open>Witnesses\<close>

definition failing :: "string \<Rightarrow> unit enricher" where
  "failing n = \<lparr>EName = n, Dependencies = [], Enrich = \<lambda>_ s. (Some ''boom'', setMeta ''seen'' n s)\<rparr>"

definition demo_pipeline :: "unit pipeline" where
  "demo_pipeline = \<lparr>Enrichers = [demo ''cpe'' [''dedup''], demo ''dedup'' []], Metrics = True\<rparr>"

definition failing_pipeline :: "unit pipeline" where
  "failing_pipeline = \<lparr>Enrichers = [demo ''dedup'' [], failing ''cpe'', demo ''layer'' []], Metrics = False\<rparr>"

lemma demo_Enrich [simp]: "Enrich (demo n ds) b s = (None, s)"
  by (simp add: demo_def)

lemma failing_sel [simp]:
  "EName (failing n) = n" "Dependencies (failing n) = []" "Enrich (failing n) b s = (Some ''boom'', setMeta ''seen'' n s)"
  by (simp_all add: failing_def)

lemmas Run_eval = Run_def TopoSort_eval runOne_def recordEnricherEnd_def recordPipelineEnd_def
  enricherNames_def demo_pipeline_def failing_pipeline_def

theorem Run_success_witness:
  "\<exists>ordered. mset ordered = mset (Enrichers demo_pipeline) \<and> dep_sorted (Enrichers demo_pipeline) ordered \<and>
    started [PipelineOrder [''dedup'', ''cpe''], EnricherStart ''dedup'', DurationObserved ''dedup'' ''success'',
      EnricherDone ''dedup'', EnricherStart ''cpe'', DurationObserved ''cpe'' ''success'', EnricherDone ''cpe'',
      RunCounted ''success'', RunDuration ''success'', PipelineDone 2] = names ordered \<and>
    succeeds () ordered empty_sbom \<and>
    Some (stampMetadata ''1.0'' empty_sbom) = Some (stampMetadata ''1.0'' (enrich_all () ordered empty_sbom))"
  by (rule Run_success [where ctx = "\<lambda>_. None"]) (simp add: Run_eval)

theorem Run_enricher_error_witness:
  "\<exists>pre e post s'. mset (pre @ e # post) = mset (Enrichers failing_pipeline) \<and> EName e = ''cpe'' \<and>
    succeeds () pre empty_sbom \<and> Enrich e () (enrich_all () pre empty_sbom) = (Some ''boom'', s') \<and>
    Some (setMeta ''seen'' ''cpe'' empty_sbom) = Some s' \<and>
    started [PipelineOrder [''dedup'', ''cpe'', ''layer''], EnricherStart ''dedup'', EnricherDone ''dedup'',
      EnricherStart ''cpe'', EnricherFail ''cpe'' ''boom''] = names (pre @ [e])"
  by (rule Run_enricher_error [where ctx = "\<lambda>_. None" and version = "''1.0''"]) (simp add: Run_eval)

theorem Run_invariant_witness:
  "Components (setMeta ''seen'' ''cpe'' empty_sbom) = []"
proof (rule Run_invariant [where I = "\<lambda>s. Components s = []"])
  show "Run (\<lambda>_. None) ''1.0'' failing_pipeline (Some empty_sbom) (Some ()) =
    (Some (EnricherError ''cpe'' ''boom''), Some (setMeta ''seen'' ''cpe'' empty_sbom),
     [PipelineOrder [''dedup'', ''cpe'', ''layer''], EnricherStart ''dedup'', EnricherDone ''dedup'',
      EnricherStart ''cpe'', EnricherFail ''cpe'' ''boom''])"
    by (simp add: Run_eval)
  show "\<And>e. e \<in> set (Enrichers failing_pipeline) \<Longrightarrow> sbom_invariant (Enrich e) (\<lambda>s. Components s = [])"
    by (auto simp: failing_pipeline_def sbom_invariant_def)
qed (simp_all add: stampMetadata_def empty_sbom_def)

theorem Filter_keeps_sortable_witness:
  "\<exists>out'. TopoSort (Filter (Enrichers demo_pipeline) [] [(''dedup'', True)]) = Inr out' \<and>
    set out' = {demo ''cpe'' [''dedup'']}"
proof -
  have "TopoSort (Enrichers demo_pipeline) = Inr [demo ''dedup'' [], demo ''cpe'' [''dedup'']]"
    by (simp add: demo_pipeline_def TopoSort_eval)
  from Filter_keeps_sortable [OF this, of "[]" "[(''dedup'', True)]"] show ?thesis
    by (auto simp: demo_pipeline_def flag_def)
qed

end
