(* ===== verification/Dedup.thy ===== *)
theory Dedup
  imports Model
begin

text \<open>
  The dedup enricher (\<open>internal/enrich/dedup/dedup.go\<close>), the last stage of the pipeline: components
  with the same identity key are merged into one.  Go's bucket map is an association list from keys
  to indices; \<open>mergeProperties\<close> ranges over the second map in the order of its list.
\<close>

section \<open>Model\<close>

definition canonicalPURL :: "string \<Rightarrow> string" where
  "canonicalPURL p =
     (case IndexByte p (CHR ''?'') of
        Some i \<Rightarrow> if 0 < i then ToLower (take i p) else ToLower p
      | None \<Rightarrow> ToLower p)"

definition canonicalCPE :: "string \<Rightarrow> string" where
  "canonicalCPE cpe = ToLower (TrimSpace cpe)"

fun findHash_in :: "Hash list \<Rightarrow> string \<Rightarrow> string" where
  "findHash_in [] want = []"
| "findHash_in (h # hs) want =
     (if ToLower (Algorithm h) = want \<and> HashValue h \<noteq> [] then HashValue h else findHash_in hs want)"

definition findHash :: "component_data \<Rightarrow> string \<Rightarrow> string" where
  "findHash c algorithm = findHash_in (Hashes c) (ToLower algorithm)"

fun firstNonEmpty :: "string list \<Rightarrow> string" where
  "firstNonEmpty [] = []"
| "firstNonEmpty (v # vs) = (if TrimSpace v \<noteq> [] then v else firstNonEmpty vs)"

definition dedupKey :: "component_data \<Rightarrow> string" where
  "dedupKey c =
     (let cpe = firstNonEmpty (CPEs c); h = findHash c ''sha256'' in
        if PURL c \<noteq> [] then ''purl:'' @ canonicalPURL (PURL c)
        else if cpe \<noteq> [] then ''cpe:'' @ canonicalCPE cpe
        else if h \<noteq> [] then ''sha256:'' @ ToLower h
        else if Name c \<noteq> [] \<and> Version c \<noteq> [] then
          ''nvt:'' @ ToLower (CType c) @ '':'' @ ToLower (Name c) @ '':'' @ ToLower (Version c)
        else [])"

definition primaryScore :: "component_data \<Rightarrow> nat" where
  "primaryScore c =
     (if PURL c \<noteq> [] then 100 else 0) + (if CPEs c \<noteq> [] then 10 else 0) +
     (case CEvidence c of None \<Rightarrow> 0 | Some e \<Rightarrow> length (Locations e))"

definition pick_step :: "component list \<Rightarrow> nat \<times> nat \<Rightarrow> nat \<Rightarrow> nat \<times> nat" where
  "pick_step comps st i =
     (let s = primaryScore (cdata (comps ! i)) in
        if snd st < s then (i, s) else if s = snd st \<and> i < fst st then (i, snd st) else st)"

definition pickPrimary :: "component list \<Rightarrow> nat list \<Rightarrow> nat" where
  "pickPrimary comps idxs =
     fst (foldl (pick_step comps) (hd idxs, primaryScore (cdata (comps ! hd idxs))) (tl idxs))"

text \<open>The unions: the first element with each key is kept, elements without a key are dropped.\<close>

fun union_by :: "('a \<Rightarrow> 'k option) \<Rightarrow> 'k set \<Rightarrow> 'a list \<Rightarrow> 'a list" where
  "union_by key seen [] = []"
| "union_by key seen (x # xs) =
     (case key x of
        None \<Rightarrow> union_by key seen xs
      | Some k \<Rightarrow> if k \<in> seen then union_by key seen xs else x # union_by key (insert k seen) xs)"

definition hash_key :: "Hash \<Rightarrow> string option" where
  "hash_key h = (if HashValue h = [] then None else Some (ToLower (Algorithm h) @ '':'' @ ToLower (HashValue h)))"

definition mergeHashes :: "Hash list \<Rightarrow> Hash list \<Rightarrow> Hash list" where
  "mergeHashes a b = union_by hash_key {} (a @ b)"

definition cpe_key :: "string \<Rightarrow> string option" where
  "cpe_key cpe = (let k = canonicalCPE cpe in if k = [] then None else Some k)"

definition mergeCPEs :: "string list \<Rightarrow> string list \<Rightarrow> string list" where
  "mergeCPEs a b = union_by cpe_key {} (a @ b)"

definition license_key :: "License \<Rightarrow> string option" where
  "license_key l =
     (let e = ToLower (TrimSpace (Expression l));
          k = (if e = [] then ToLower (TrimSpace (SPDXID l)) @ ''|'' @ ToLower (TrimSpace (LicenseName l)) else e)
      in if k = ''|'' then None else Some k)"

definition mergeLicenses :: "License list \<Rightarrow> License list \<Rightarrow> License list" where
  "mergeLicenses a b = union_by license_key {} (a @ b)"

definition mergeEvidence :: "Evidence option \<Rightarrow> Evidence option \<Rightarrow> Evidence option" where
  "mergeEvidence a b =
     (if a = None \<and> b = None then None
      else
        let out = (case a of None \<Rightarrow> \<lparr>Method = [], EvConfidence = 0, Locations = []\<rparr> | Some e \<Rightarrow> e) in
          case b of
            None \<Rightarrow> Some out
          | Some e \<Rightarrow> Some
              \<lparr>Method = (if Method out = [] then Method e else Method out),
               EvConfidence = (if EvConfidence out = 0 then EvConfidence e else EvConfidence out),
               Locations = Locations out @
                 union_by (\<lambda>l. Some (Path l)) (set (map Path (Locations out))) (Locations e)\<rparr>)"

definition put_merged :: "props \<Rightarrow> string \<times> string \<Rightarrow> props" where
  "put_merged out kv =
     (case mget out (fst kv) of
        Some existing \<Rightarrow>
          if existing \<noteq> snd kv then mput (''astinus:dedup:conflict:'' @ fst kv) (snd kv) out
          else mput (fst kv) (snd kv) out
      | None \<Rightarrow> mput (fst kv) (snd kv) out)"

definition mergeProperties :: "props \<Rightarrow> props \<Rightarrow> props" where
  "mergeProperties a b = foldl put_merged (foldl (\<lambda>m kv. mput (fst kv) (snd kv) m) [] a) b"

definition merged_count :: string where "merged_count = ''astinus:dedup:merged-count''"

definition layer_note :: "component_data \<Rightarrow> component_data \<Rightarrow> component_data \<Rightarrow> component_data" where
  "layer_note primary secondary out =
     (case (CLayerInfo primary, CLayerInfo secondary) of
        (Some p, Some s) \<Rightarrow>
          if LayerIndex p \<noteq> LayerIndex s then setProp ''astinus:dedup:also-in-layer'' (Itoa (LayerIndex s)) out
          else out
      | (None, Some s) \<Rightarrow> out\<lparr>CLayerInfo := Some s\<rparr>
      | _ \<Rightarrow> out)"

definition count_stamp :: "component_data \<Rightarrow> component_data" where
  "count_stamp out =
     (let prev = (case mget (Properties out) merged_count of
                    None \<Rightarrow> 0
                  | Some v \<Rightarrow> (case Sscanf_d v of None \<Rightarrow> 0 | Some n \<Rightarrow> n))
      in setProp merged_count (Itoa (int64_wrap (prev + 1))) out)"

definition merge_data :: "component_data \<Rightarrow> component_data \<Rightarrow> component_data" where
  "merge_data primary secondary =
     count_stamp (layer_note primary secondary
       (primary\<lparr>CEvidence := mergeEvidence (CEvidence primary) (CEvidence secondary),
          Hashes := mergeHashes (Hashes primary) (Hashes secondary),
          CPEs := mergeCPEs (CPEs primary) (CPEs secondary),
          Licenses := mergeLicenses (Licenses primary) (Licenses secondary),
          Properties := mergeProperties (Properties primary) (Properties secondary)\<rparr>))"

definition mergePair :: "component \<Rightarrow> component \<Rightarrow> component" where
  "mergePair primary secondary =
     Component (merge_data (cdata primary) (cdata secondary)) (SubComponents primary)"

abbreviation ckey :: "component \<Rightarrow> string" where "ckey c \<equiv> dedupKey (cdata c)"

definition bucket_step :: "component list \<Rightarrow> nat list gomap \<Rightarrow> nat \<Rightarrow> nat list gomap" where
  "bucket_step comps buckets i =
     (let k = ckey (comps ! i) in
        if k = [] then buckets
        else (case mget buckets k of
            None \<Rightarrow> mput k [i] buckets
          | Some idxs \<Rightarrow> mput k (idxs @ [i]) buckets))"

definition merge_bucket :: "component list \<Rightarrow> nat list \<Rightarrow> component" where
  "merge_bucket comps idxs =
     (let primary = pickPrimary comps idxs in
        foldl (\<lambda>merged i. if i = primary then merged else mergePair merged (comps ! i)) (comps ! primary) idxs)"

definition emit_step ::
  "component list \<Rightarrow> nat list gomap \<Rightarrow> component list \<times> nat \<times> string set \<Rightarrow> nat \<Rightarrow> component list \<times> nat \<times> string set"
where
  "emit_step comps buckets st i =
     (let out = fst st; groups = fst (snd st); emitted = snd (snd st); k = ckey (comps ! i) in
        if k = [] then (out @ [comps ! i], groups, emitted)
        else if k \<in> emitted then st
        else
          let idxs = (case mget buckets k of None \<Rightarrow> [] | Some b \<Rightarrow> b) in
            if length idxs = 1 then (out @ [comps ! i], groups, insert k emitted)
            else (out @ [merge_bucket comps idxs], groups + 1, insert k emitted))"

definition Run :: "component list \<Rightarrow> component list \<times> nat" where
  "Run comps =
     (if comps = [] then (comps, 0)
      else
        let buckets = foldl (bucket_step comps) [] [0..<length comps];
            st = foldl (emit_step comps buckets) ([], 0, {}) [0..<length comps]
        in (fst st, fst (snd st)))"

definition Enrich_dedup :: "SBOM option \<Rightarrow> string option \<times> SBOM option" where
  "Enrich_dedup sbom =
     (case sbom of
        None \<Rightarrow> (Some ''dedup: nil sbom'', None)
      | Some s \<Rightarrow> (None, Some (s\<lparr>Components := fst (Run (Components s))\<rparr>)))"

section \<open>The buckets\<close>

definition members :: "component list \<Rightarrow> string \<Rightarrow> nat list" where
  "members comps k = filter (\<lambda>i. ckey (comps ! i) = k) [0..<length comps]"

lemma buckets_upto:
  "k \<noteq> [] \<Longrightarrow> mget (foldl (bucket_step comps) [] [0..<n]) k =
     (let is = filter (\<lambda>i. ckey (comps ! i) = k) [0..<n] in if is = [] then None else Some is)"
proof (induction n)
  case (Suc n)
  then show ?case
    by (auto simp: bucket_step_def Let_def split: option.split if_splits)
qed simp

lemma buckets_members:
  "k \<noteq> [] \<Longrightarrow> mget (foldl (bucket_step comps) [] [0..<length comps]) k =
     (if members comps k = [] then None else Some (members comps k))"
  by (simp add: buckets_upto members_def Let_def)

section \<open>Equivalence with a declarative specification\<close>

definition firsts :: "component list \<Rightarrow> nat \<Rightarrow> nat list" where
  "firsts comps n =
     filter (\<lambda>i. ckey (comps ! i) = [] \<or> (\<forall>j < i. ckey (comps ! j) \<noteq> ckey (comps ! i))) [0..<n]"

definition representative :: "component list \<Rightarrow> nat \<Rightarrow> component" where
  "representative comps i =
     (let k = ckey (comps ! i) in
        if k = [] \<or> length (members comps k) = 1 then comps ! i else merge_bucket comps (members comps k))"

definition shared_keys :: "component list \<Rightarrow> nat \<Rightarrow> nat list" where
  "shared_keys comps n =
     filter (\<lambda>i. ckey (comps ! i) \<noteq> [] \<and> 1 < length (members comps (ckey (comps ! i)))) (firsts comps n)"

lemma members_in: "i < length comps \<Longrightarrow> i \<in> set (members comps (ckey (comps ! i)))"
  by (simp add: members_def)

lemma emit_upto:
  assumes "n \<le> length comps"
  shows "foldl (emit_step comps (foldl (bucket_step comps) [] [0..<length comps])) ([], 0, {}) [0..<n] =
    (map (representative comps) (firsts comps n), length (shared_keys comps n),
     {k. k \<noteq> [] \<and> (\<exists>i < n. ckey (comps ! i) = k)})"
  using assms
proof (induction n)
  case (Suc n)
  then have i: "n < length comps" by simp
  let ?k = "ckey (comps ! n)"
  let ?b = "foldl (bucket_step comps) [] [0..<length comps]"
  have ih: "foldl (emit_step comps ?b) ([], 0, {}) [0..<n] =
    (map (representative comps) (firsts comps n), length (shared_keys comps n),
     {k. k \<noteq> [] \<and> (\<exists>i < n. ckey (comps ! i) = k)})"
    using Suc by simp
  have ne: "members comps ?k \<noteq> []" using members_in [OF i] by auto
  have keys: "{k. k \<noteq> [] \<and> (\<exists>i < Suc n. ckey (comps ! i) = k)} =
      (if ?k = [] then {k. k \<noteq> [] \<and> (\<exists>i < n. ckey (comps ! i) = k)}
       else insert ?k {k. k \<noteq> [] \<and> (\<exists>i < n. ckey (comps ! i) = k)})"
    by (auto simp: less_Suc_eq)
  have step: "foldl (emit_step comps ?b) ([], 0, {}) [0..<Suc n] =
      emit_step comps ?b (foldl (emit_step comps ?b) ([], 0, {}) [0..<n]) n"
    by simp
  consider (nokey) "?k = []" | (seen) "?k \<noteq> []" "\<exists>j < n. ckey (comps ! j) = ?k"
    | (new) "?k \<noteq> []" "\<forall>j < n. ckey (comps ! j) \<noteq> ?k" by blast
  then show ?case
  proof cases
    case nokey
    then show ?thesis unfolding step ih keys
      by (simp add: emit_step_def firsts_def shared_keys_def representative_def)
  next
    case seen
    then show ?thesis unfolding step ih keys
      by (auto simp: emit_step_def firsts_def shared_keys_def)
  next
    case new
    then have "mget ?b ?k = Some (members comps ?k)" using ne by (simp add: buckets_members)
    with new ne show ?thesis unfolding step ih keys
      by (cases "length (members comps ?k) = 1")
         (auto simp: emit_step_def firsts_def shared_keys_def representative_def Let_def
           simp del: length_0_conv length_greater_0_conv dest: less_SucI intro: Suc_lessI)
  qed
qed (simp add: firsts_def shared_keys_def)

lemma Run_spec:
  "fst (Run comps) = map (representative comps) (firsts comps (length comps))"
  "snd (Run comps) = length (shared_keys comps (length comps))"
  by (cases "comps = []", simp_all add: Run_def emit_upto Let_def)
     (simp_all add: firsts_def shared_keys_def)

section \<open>Unions\<close>

lemma set_union_by: "set (union_by key seen xs) \<subseteq> set xs"
  by (induction key seen xs rule: union_by.induct) (auto split: option.splits if_splits)

lemma keys_union_by:
  "(\<exists>x \<in> set (union_by key seen xs). key x = Some k) \<longleftrightarrow> k \<notin> seen \<and> (\<exists>x \<in> set xs. key x = Some k)"
  by (induction key seen xs rule: union_by.induct) (auto split: option.splits if_splits)

lemma union_by_keyed: "x \<in> set (union_by key seen xs) \<Longrightarrow> \<exists>k. key x = Some k \<and> k \<notin> seen"
  by (induction key seen xs rule: union_by.induct) (auto split: option.splits if_splits)

lemma distinct_union_by: "distinct (map key (union_by key seen xs))"
  by (induction key seen xs rule: union_by.induct)
     (auto split: option.splits if_splits dest!: union_by_keyed)

lemma union_by_covers: "x \<in> set xs \<Longrightarrow> key x = Some k \<Longrightarrow> \<exists>y \<in> set (union_by key {} xs). key y = Some k"
  using keys_union_by [of key "{}" xs k] by blast

section \<open>Merging keeps the key\<close>

definition hash_ok :: "component_data \<Rightarrow> bool" where
  "hash_ok c \<longleftrightarrow> (\<forall>h \<in> set (Hashes c). CHR '':'' \<notin> set (Algorithm h))"

lemma count_stamp_frame [simp]:
  "Name (count_stamp c) = Name c" "Version (count_stamp c) = Version c" "CType (count_stamp c) = CType c"
  "PURL (count_stamp c) = PURL c" "CPEs (count_stamp c) = CPEs c" "Hashes (count_stamp c) = Hashes c"
  "CEvidence (count_stamp c) = CEvidence c" "Licenses (count_stamp c) = Licenses c" "BOMRef (count_stamp c) = BOMRef c"
  by (simp_all add: count_stamp_def setProp_def Let_def)

lemma layer_note_frame [simp]:
  "Name (layer_note p s c) = Name c" "Version (layer_note p s c) = Version c" "CType (layer_note p s c) = CType c"
  "PURL (layer_note p s c) = PURL c" "CPEs (layer_note p s c) = CPEs c" "Hashes (layer_note p s c) = Hashes c"
  "CEvidence (layer_note p s c) = CEvidence c" "Licenses (layer_note p s c) = Licenses c" "BOMRef (layer_note p s c) = BOMRef c"
  by (auto simp: layer_note_def setProp_def split: option.splits)

lemma merge_frame [simp]:
  "Name (merge_data p s) = Name p" "Version (merge_data p s) = Version p" "CType (merge_data p s) = CType p"
  "PURL (merge_data p s) = PURL p" "CPEs (merge_data p s) = mergeCPEs (CPEs p) (CPEs s)"
  "Hashes (merge_data p s) = mergeHashes (Hashes p) (Hashes s)" "BOMRef (merge_data p s) = BOMRef p"
  "CEvidence (merge_data p s) = mergeEvidence (CEvidence p) (CEvidence s)"
  "Licenses (merge_data p s) = mergeLicenses (Licenses p) (Licenses s)"
  by (simp_all add: merge_data_def)

lemma firstNonEmpty_union: "firstNonEmpty (union_by cpe_key {} xs) = firstNonEmpty xs"
proof (induction xs)
  case (Cons x xs)
  then show ?case by (cases "TrimSpace x = []") (simp_all add: cpe_key_def canonicalCPE_def)
qed simp

lemma firstNonEmpty_append:
  "firstNonEmpty (xs @ ys) = (if firstNonEmpty xs \<noteq> [] then firstNonEmpty xs else firstNonEmpty ys)"
  by (induction xs) (auto simp: TrimSpace_def)

lemma lower_colon [simp]: "lower_char c = CHR '':'' \<longleftrightarrow> c = CHR '':''"
proof
  assume "lower_char c = CHR '':''"
  then show "c = CHR '':''"
  proof (cases "65 \<le> (of_char c :: nat) \<and> (of_char c :: nat) \<le> 90")
    case True
    then have "lower_char c = char_of ((of_char c :: nat) + 32)" by (simp add: lower_char_def)
    with \<open>lower_char c = CHR '':''\<close> have "of_char (CHR '':'') = ((of_char c :: nat) + 32) mod 256"
      by (metis of_char_of)
    with True show ?thesis by simp
  next
    case False
    then have "lower_char c = c" by (auto simp: lower_char_def Let_def)
    with \<open>lower_char c = CHR '':''\<close> show ?thesis by simp
  qed
qed (simp add: lower_char_def)

lemma colon_lower [simp]: "CHR '':'' = lower_char c \<longleftrightarrow> c = CHR '':''"
  by (metis lower_colon)

lemma prefix_before_colon:
  "CHR '':'' \<notin> set s \<Longrightarrow> CHR '':'' \<notin> set t \<Longrightarrow> s @ CHR '':'' # u = t @ CHR '':'' # v \<Longrightarrow> s = t"
  by (induction s arbitrary: t) (auto simp: Cons_eq_append_conv append_eq_Cons_conv)

lemma findHash_union:
  assumes "\<forall>h \<in> set hs. CHR '':'' \<notin> set (Algorithm h)"
    and "\<And>u. ''sha256'' @ CHR '':'' # u \<notin> seen"
  shows "findHash_in (union_by hash_key seen hs) ''sha256'' = findHash_in hs ''sha256''"
  using assms
proof (induction hs arbitrary: seen)
  case (Cons h hs)
  show ?case
  proof (cases "HashValue h = []")
    case True
    with Cons show ?thesis by (simp add: hash_key_def)
  next
    case False
    let ?k = "ToLower (Algorithm h) @ CHR '':'' # ToLower (HashValue h)"
    show ?thesis
    proof (cases "ToLower (Algorithm h) = ''sha256''")
      case True
      with False Cons.prems(2) show ?thesis by (simp add: hash_key_def)
    next
      case other: False
      have "''sha256'' @ CHR '':'' # u \<noteq> ?k" for u
        using prefix_before_colon [of "''sha256''" "ToLower (Algorithm h)" u] other Cons.prems(1)
        by (auto simp: colon_ToLower)
      with Cons False other show ?thesis by (auto simp: hash_key_def)
    qed
  qed
qed simp

lemma findHash_append:
  "findHash_in (xs @ ys) w = (if findHash_in xs w \<noteq> [] then findHash_in xs w else findHash_in ys w)"
  by (induction xs) auto

lemma ToLower_sha [simp]: "ToLower ''sha256'' = ''sha256''"
  by code_simp

lemma dedupKey_cases:
  obtains (purl) "PURL c \<noteq> []" "dedupKey c = ''purl:'' @ canonicalPURL (PURL c)"
  | (cpe) "PURL c = []" "firstNonEmpty (CPEs c) \<noteq> []"
      "dedupKey c = ''cpe:'' @ canonicalCPE (firstNonEmpty (CPEs c))"
  | (sha) "PURL c = []" "firstNonEmpty (CPEs c) = []" "findHash c ''sha256'' \<noteq> []"
      "dedupKey c = ''sha256:'' @ ToLower (findHash c ''sha256'')"
  | (nvt) "PURL c = []" "firstNonEmpty (CPEs c) = []" "findHash c ''sha256'' = []" "Name c \<noteq> []" "Version c \<noteq> []"
      "dedupKey c = ''nvt:'' @ ToLower (CType c) @ '':'' @ ToLower (Name c) @ '':'' @ ToLower (Version c)"
  | (nokey) "PURL c = []" "firstNonEmpty (CPEs c) = []" "findHash c ''sha256'' = []" "dedupKey c = []"
      "Name c = [] \<or> Version c = []"
  by (cases "PURL c = []"; cases "firstNonEmpty (CPEs c) = []"; cases "findHash c ''sha256'' = []";
      cases "Name c = [] \<or> Version c = []") (auto simp: dedupKey_def Let_def)

lemma merge_key:
  assumes ok: "hash_ok p" "hash_ok s" and same: "dedupKey p = dedupKey s" and key: "dedupKey p \<noteq> []"
  shows "dedupKey (merge_data p s) = dedupKey p"
proof -
  have cpes: "firstNonEmpty (CPEs (merge_data p s)) =
      (if firstNonEmpty (CPEs p) \<noteq> [] then firstNonEmpty (CPEs p) else firstNonEmpty (CPEs s))"
    by (simp add: mergeCPEs_def firstNonEmpty_union firstNonEmpty_append)
  have hash: "findHash (merge_data p s) ''sha256'' =
      (if findHash p ''sha256'' \<noteq> [] then findHash p ''sha256'' else findHash s ''sha256'')"
  proof -
    have "\<forall>h \<in> set (Hashes p @ Hashes s). CHR '':'' \<notin> set (Algorithm h)" using ok by (auto simp: hash_ok_def)
    from findHash_union [OF this, of "{}"] show ?thesis
      by (simp add: findHash_def mergeHashes_def findHash_append)
  qed
  show ?thesis
    using key
  proof (cases p rule: dedupKey_cases)
    case purl
    then show ?thesis by (simp add: dedupKey_def)
  next
    case cpe
    with cpes show ?thesis by (simp add: dedupKey_def Let_def)
  next
    case sha
    with same have "firstNonEmpty (CPEs s) = []"
      by (cases s rule: dedupKey_cases) auto
    with sha cpes hash show ?thesis by (simp add: dedupKey_def Let_def)
  next
    case nvt
    with same have "firstNonEmpty (CPEs s) = []" "findHash s ''sha256'' = []"
      by (cases s rule: dedupKey_cases; auto)+
    with nvt cpes hash show ?thesis by (simp add: dedupKey_def Let_def)
  qed auto
qed

lemma merge_hash_ok: "hash_ok p \<Longrightarrow> hash_ok s \<Longrightarrow> hash_ok (merge_data p s)"
  using set_union_by [of hash_key "{}" "Hashes p @ Hashes s"] by (auto simp: hash_ok_def mergeHashes_def)

section \<open>Picking the primary\<close>

abbreviation cscore :: "component list \<Rightarrow> nat \<Rightarrow> nat" where
  "cscore comps i \<equiv> primaryScore (cdata (comps ! i))"

definition best_of :: "component list \<Rightarrow> nat set \<Rightarrow> nat \<Rightarrow> bool" where
  "best_of comps A p \<longleftrightarrow>
     p \<in> A \<and> (\<forall>i \<in> A. cscore comps i < cscore comps p \<or> cscore comps i = cscore comps p \<and> p \<le> i)"

lemma pick_fold:
  "best_of comps A b \<Longrightarrow>
   best_of comps (A \<union> set is) (fst (foldl (pick_step comps) (b, cscore comps b) is))"
proof (induction "is" arbitrary: A b)
  case (Cons i "is")
  have "\<exists>b'. pick_step comps (b, cscore comps b) i = (b', cscore comps b') \<and> best_of comps (insert i A) b'"
    using Cons.prems by (fastforce simp: pick_step_def best_of_def Let_def)
  then obtain b' where b': "pick_step comps (b, cscore comps b) i = (b', cscore comps b')" "best_of comps (insert i A) b'"
    by blast
  with Cons.IH [OF b'(2)] show ?case by simp
qed simp

lemma pickPrimary_best: "idxs \<noteq> [] \<Longrightarrow> best_of comps (set idxs) (pickPrimary comps idxs)"
  using pick_fold [of comps "{hd idxs}" "hd idxs" "tl idxs"]
  by (cases idxs) (auto simp: pickPrimary_def best_of_def)

section \<open>Merging a bucket\<close>

text \<open>A set of identities a component carries, which a merge unites: the interface of the unions.\<close>

locale united_field =
  fixes content :: "component_data \<Rightarrow> 'k set"
  assumes unites: "content (merge_data p s) = content p \<union> content s"
begin

lemma bucket_content:
  assumes "idxs \<noteq> []"
  shows "content (cdata (merge_bucket comps idxs)) = (\<Union>i \<in> set idxs. content (cdata (comps ! i)))"
proof -
  let ?p = "pickPrimary comps idxs"
  have "content (cdata (foldl (\<lambda>m i. if i = ?p then m else mergePair m (comps ! i)) acc is)) =
      content (cdata acc) \<union> (\<Union>i \<in> set is - {?p}. content (cdata (comps ! i)))" for acc "is"
  proof (induction "is" arbitrary: acc)
    case (Cons i "is")
    show ?case
    proof (cases "i = ?p")
      case True
      with Cons.IH [of acc] show ?thesis by simp
    next
      case False
      then have "insert i (set is) - {?p} = insert i (set is - {?p})" by blast
      with False Cons.IH [of "mergePair acc (comps ! i)"] show ?thesis
        by (simp add: mergePair_def unites Un_assoc)
    qed
  qed simp
  moreover have "?p \<in> set idxs" using pickPrimary_best [OF assms] by (simp add: best_of_def)
  ultimately show ?thesis by (auto simp: merge_bucket_def Let_def)
qed

lemma Run_content: "(\<Union>c \<in> set (fst (Run comps)). content (cdata c)) = (\<Union>c \<in> set comps. content (cdata c))"
proof -
  have rep: "content (cdata (representative comps i)) =
      (if ckey (comps ! i) = [] then content (cdata (comps ! i))
       else (\<Union>j \<in> set (members comps (ckey (comps ! i))). content (cdata (comps ! j))))"
    if i: "i < length comps" for i
  proof -
    have mem: "i \<in> set (members comps (ckey (comps ! i)))" by (rule members_in [OF i])
    show ?thesis
    proof (cases "length (members comps (ckey (comps ! i))) = 1")
      case True
      then obtain j where j: "members comps (ckey (comps ! i)) = [j]"
        by (auto simp: length_Suc_conv)
      with mem have "j = i" by simp
      with j show ?thesis by (simp add: representative_def)
    next
      case False
      moreover have "members comps (ckey (comps ! i)) \<noteq> []" using mem by auto
      ultimately show ?thesis by (simp add: representative_def bucket_content)
    qed
  qed
  have first: "\<exists>f \<in> set (firsts comps (length comps)). i = f \<or>
      ckey (comps ! i) \<noteq> [] \<and> ckey (comps ! f) = ckey (comps ! i)" if i: "i < length comps" for i
  proof (cases "ckey (comps ! i) = []")
    case True
    with i show ?thesis by (auto simp: firsts_def intro!: bexI [of _ i])
  next
    case False
    obtain f where f: "ckey (comps ! f) = ckey (comps ! i)"
      and least: "\<And>j. j < f \<Longrightarrow> ckey (comps ! j) \<noteq> ckey (comps ! i)"
      using exists_least_iff [of "\<lambda>f. ckey (comps ! f) = ckey (comps ! i)"] by blast
    have "f \<le> i" using least [of i] by (cases "i < f") auto
    then have "f \<in> set (firsts comps (length comps))"
      using i f least by (simp add: firsts_def)
    with f False show ?thesis by blast
  qed
  show ?thesis
  proof (intro equalityI subsetI)
    fix x assume "x \<in> (\<Union>c \<in> set (fst (Run comps)). content (cdata c))"
    then obtain i where i: "i \<in> set (firsts comps (length comps))" "x \<in> content (cdata (representative comps i))"
      by (auto simp: Run_spec)
    then have "i < length comps" by (simp add: firsts_def)
    with i rep [of i] obtain j where "j < length comps" "x \<in> content (cdata (comps ! j))"
      by (auto simp: members_def split: if_splits)
    then show "x \<in> (\<Union>c \<in> set comps. content (cdata c))" using nth_mem by blast
  next
    fix x assume "x \<in> (\<Union>c \<in> set comps. content (cdata c))"
    then obtain i where i: "i < length comps" "x \<in> content (cdata (comps ! i))"
      by (auto simp: in_set_conv_nth)
    from first [OF i(1)] obtain f where f: "f \<in> set (firsts comps (length comps))"
      "i = f \<or> ckey (comps ! i) \<noteq> [] \<and> ckey (comps ! f) = ckey (comps ! i)" by blast
    then have "f < length comps" by (simp add: firsts_def)
    then have "x \<in> content (cdata (representative comps f))"
      using f(2) i rep [of f] members_in [OF i(1)] by auto
    with f(1) show "x \<in> (\<Union>c \<in> set (fst (Run comps)). content (cdata c))"
      by (auto simp: Run_spec)
  qed
qed

end

definition keys_of :: "('a \<Rightarrow> 'k option) \<Rightarrow> 'a list \<Rightarrow> 'k set" where
  "keys_of key xs = {k. \<exists>x \<in> set xs. key x = Some k}"

definition evidence_paths :: "component_data \<Rightarrow> string set" where
  "evidence_paths c = (case CEvidence c of None \<Rightarrow> {} | Some e \<Rightarrow> Path ` set (Locations e))"

lemma keys_of_union: "keys_of key (union_by key {} (a @ b)) = keys_of key a \<union> keys_of key b"
  by (auto simp: keys_of_def keys_union_by)

lemma paths_union_by: "Path ` set (union_by (\<lambda>l. Some (Path l)) seen xs) = Path ` set xs - seen"
  by (induction xs arbitrary: seen) auto

lemma evidence_union: "evidence_paths (merge_data p s) = evidence_paths p \<union> evidence_paths s"
  by (simp add: evidence_paths_def mergeEvidence_def Let_def image_Un paths_union_by split: option.split)

interpretation cpes: united_field "\<lambda>c. keys_of cpe_key (CPEs c)"
  by unfold_locales (simp add: mergeCPEs_def keys_of_union)

interpretation hashes: united_field "\<lambda>c. keys_of hash_key (Hashes c)"
  by unfold_locales (simp add: mergeHashes_def keys_of_union)

interpretation licenses: united_field "\<lambda>c. keys_of license_key (Licenses c)"
  by unfold_locales (simp add: mergeLicenses_def keys_of_union)

interpretation locations: united_field evidence_paths
  by unfold_locales (rule evidence_union)

section \<open>Keys of the result\<close>

lemma merge_bucket_key:
  assumes ok: "\<forall>c \<in> set comps. hash_ok (cdata c)" and k: "k \<noteq> []" and ne: "members comps k \<noteq> []"
  shows "ckey (merge_bucket comps (members comps k)) = k"
proof -
  let ?p = "pickPrimary comps (members comps k)"
  have mem: "ckey (comps ! i) = k \<and> hash_ok (cdata (comps ! i))" if "i \<in> set (members comps k)" for i
    using that ok by (auto simp: members_def)
  have step: "ckey m = k \<and> hash_ok (cdata m) \<Longrightarrow> set is \<subseteq> set (members comps k) \<Longrightarrow>
      ckey (foldl (\<lambda>m i. if i = ?p then m else mergePair m (comps ! i)) m is) = k" for m "is"
  proof (induction "is" arbitrary: m)
    case (Cons i "is")
    have "ckey (mergePair m (comps ! i)) = k \<and> hash_ok (cdata (mergePair m (comps ! i)))"
      using Cons.prems mem [of i] k by (simp add: mergePair_def merge_key merge_hash_ok)
    with Cons show ?case by simp
  qed simp
  have "?p \<in> set (members comps k)" using pickPrimary_best [OF ne] by (simp add: best_of_def)
  from step [OF mem [OF this]] show ?thesis by (simp add: merge_bucket_def Let_def)
qed

lemma representative_key:
  assumes "\<forall>c \<in> set comps. hash_ok (cdata c)" "i < length comps"
  shows "ckey (representative comps i) = ckey (comps ! i)"
proof -
  have "members comps (ckey (comps ! i)) \<noteq> []" using members_in [OF assms(2)] by auto
  with merge_bucket_key [OF assms(1), of "ckey (comps ! i)"] show ?thesis
    by (simp add: representative_def Let_def)
qed

definition unique_keys :: "component list \<Rightarrow> bool" where
  "unique_keys cs \<longleftrightarrow> distinct (filter (\<lambda>k. k \<noteq> []) (map ckey cs))"

lemma distinct_filter_key:
  assumes "distinct xs" "\<And>x y. x \<in> set xs \<Longrightarrow> y \<in> set xs \<Longrightarrow> f x = f y \<Longrightarrow> f x \<noteq> [] \<Longrightarrow> x = y"
  shows "distinct (filter (\<lambda>k. k \<noteq> []) (map f xs))"
  using assms
proof (induction xs)
  case (Cons x xs)
  have "distinct (filter (\<lambda>k. k \<noteq> []) (map f xs))" using Cons by simp
  moreover have "f x \<noteq> [] \<Longrightarrow> f x \<notin> f ` set xs" using Cons.prems by force
  ultimately show ?case by auto
qed simp

lemma Run_unique:
  assumes ok: "\<forall>c \<in> set comps. hash_ok (cdata c)"
  shows "unique_keys (fst (Run comps))"
proof -
  have "map ckey (fst (Run comps)) = map (\<lambda>i. ckey (comps ! i)) (firsts comps (length comps))"
    using representative_key [OF ok] by (simp add: Run_spec firsts_def)
  moreover have "distinct (filter (\<lambda>k. k \<noteq> []) (map (\<lambda>i. ckey (comps ! i)) (firsts comps (length comps))))"
  proof (rule distinct_filter_key)
    show "distinct (firsts comps (length comps))" by (simp add: firsts_def)
    fix x y assume "x \<in> set (firsts comps (length comps))" "y \<in> set (firsts comps (length comps))"
      "ckey (comps ! x) = ckey (comps ! y)" "ckey (comps ! x) \<noteq> []"
    then show "x = y" unfolding firsts_def by (cases x y rule: linorder_cases) auto
  qed
  ultimately show ?thesis by (simp add: unique_keys_def)
qed

lemma unique_keys_nth:
  assumes "unique_keys cs" "i < length cs" "j < length cs" "ckey (cs ! i) = ckey (cs ! j)" "ckey (cs ! i) \<noteq> []"
  shows "i = j"
  using assms
proof (induction cs arbitrary: i j)
  case (Cons c cs)
  have tl: "unique_keys cs" using Cons.prems(1) by (auto simp: unique_keys_def split: if_splits)
  have head: "ckey c \<noteq> [] \<Longrightarrow> k < length cs \<Longrightarrow> ckey (cs ! k) \<noteq> ckey c" for k
  proof
    assume "ckey c \<noteq> []" "k < length cs" "ckey (cs ! k) = ckey c"
    then have "ckey c \<in> ckey ` set cs" by (metis image_eqI nth_mem)
    with \<open>ckey c \<noteq> []\<close> Cons.prems(1) show False by (simp add: unique_keys_def)
  qed
  show ?case
  proof (cases i; cases j)
    fix i' j' assume "i = Suc i'" "j = Suc j'"
    with Cons.IH [OF tl, of i' j'] Cons.prems show ?thesis by simp
  qed (use head Cons.prems in \<open>auto dest: sym\<close>)
qed simp

lemma Run_stable:
  assumes "unique_keys cs"
  shows "Run cs = (cs, 0)"
proof -
  have all: "firsts cs (length cs) = [0..<length cs]"
    unfolding firsts_def
  proof (rule filter_True, rule ballI)
    fix i assume i: "i \<in> set [0..<length cs]"
    have "ckey (cs ! j) \<noteq> ckey (cs ! i)" if "ckey (cs ! i) \<noteq> []" "j < i" for j
      using unique_keys_nth [OF assms, of j i] that i by auto
    then show "ckey (cs ! i) = [] \<or> (\<forall>j < i. ckey (cs ! j) \<noteq> ckey (cs ! i))" by blast
  qed
  have one: "length (members cs (ckey (cs ! i))) = 1" if i: "i < length cs" "ckey (cs ! i) \<noteq> []" for i
  proof -
    have "members cs (ckey (cs ! i)) = filter (\<lambda>j. j = i) [0..<length cs]"
      unfolding members_def by (rule filter_cong) (use unique_keys_nth [OF assms] i in auto)
    also have "\<dots> = [i]"
    proof -
      have "[0..<length cs] = [0..<i] @ i # [Suc i..<length cs]"
        using i(1) by (metis less_imp_le_nat upt_add_eq_append upt_conv_Cons zero_le le_add_diff_inverse)
      then show ?thesis by (simp add: filter_empty_conv)
    qed
    finally show ?thesis by simp
  qed
  then have "representative cs i = cs ! i" if "i < length cs" for i
    using that by (auto simp: representative_def Let_def)
  then have "fst (Run cs) = map ((!) cs) [0..<length cs]" by (simp add: Run_spec all)
  then have "fst (Run cs) = cs" by (simp add: map_nth)
  moreover have "snd (Run cs) = 0" using one by (auto simp: Run_spec shared_keys_def all filter_empty_conv)
  ultimately show ?thesis by (simp add: prod_eq_iff)
qed

section \<open>The merge counter\<close>

lemma put_merged_other:
  "k \<noteq> fst kv \<Longrightarrow> k \<noteq> ''astinus:dedup:conflict:'' @ fst kv \<Longrightarrow> mget (put_merged out kv) k = mget out k"
  by (auto simp: put_merged_def split: option.split)

lemma copy_props: "map_ok a \<Longrightarrow> mget (foldl (\<lambda>m kv. mput (fst kv) (snd kv) m) m a) = mget m ++ mget a"
proof (induction a arbitrary: m)
  case (Cons kv a)
  then have "fst kv \<notin> dom (mget a)" by (simp add: dom_map_of_conv_image_fst)
  with Cons show ?case by (cases kv) (auto simp: fun_eq_iff map_add_def split: option.split)
qed simp

lemma mergeProperties_other:
  assumes "mget b k = None" "\<not> HasPrefix k ''astinus:dedup:conflict:''" "map_ok a"
  shows "mget (mergeProperties a b) k = mget a k"
proof -
  have "mget (foldl put_merged m b) k = mget m k" if "k \<notin> fst ` set b" for m
    using that
  proof (induction b arbitrary: m)
    case (Cons kv b)
    have "k \<noteq> ''astinus:dedup:conflict:'' @ fst kv" using assms(2) HasPrefix_append by metis
    with Cons show ?case by (simp add: put_merged_other)
  qed simp
  then show ?thesis
    using assms(1,3) by (simp add: mergeProperties_def map_of_eq_None_iff copy_props)
qed

definition counted :: "component_data \<Rightarrow> nat \<Rightarrow> bool" where
  "counted c n \<longleftrightarrow> map_ok (Properties c) \<and>
     mget (Properties c) merged_count = (if n = 0 then None else Some (Itoa (int n)))"

lemma map_ok_merged: "map_ok (mergeProperties a b)"
proof -
  have "map_ok m \<Longrightarrow> map_ok (foldl put_merged m b)" for m
    by (induction b arbitrary: m) (auto simp: put_merged_def split: option.split)
  moreover have "map_ok m \<Longrightarrow> map_ok (foldl (\<lambda>m kv. mput (fst kv) (snd kv) m) m a)" for m
    by (induction a arbitrary: m) auto
  ultimately show ?thesis by (simp add: mergeProperties_def)
qed

lemma merge_counted:
  assumes "counted p n" "counted s 0" "int n + 1 < 2 ^ 63"
  shows "counted (merge_data p s) (Suc n)"
proof -
  let ?u = "p\<lparr>CEvidence := mergeEvidence (CEvidence p) (CEvidence s), Hashes := mergeHashes (Hashes p) (Hashes s),
    CPEs := mergeCPEs (CPEs p) (CPEs s), Licenses := mergeLicenses (Licenses p) (Licenses s),
    Properties := mergeProperties (Properties p) (Properties s)\<rparr>"
  have "\<not> HasPrefix merged_count ''astinus:dedup:conflict:''" by (simp add: merged_count_def)
  then have merged: "mget (mergeProperties (Properties p) (Properties s)) merged_count = mget (Properties p) merged_count"
    using assms(1,2) mergeProperties_other [of "Properties s" merged_count] by (simp add: counted_def)
  have note_ok: "map_ok (Properties (layer_note p s ?u))"
    by (auto simp: layer_note_def setProp_def map_ok_merged split: option.split)
  have "mget (Properties (layer_note p s ?u)) merged_count = mget (Properties p) merged_count"
    using merged by (auto simp: layer_note_def setProp_def merged_count_def split: option.split)
  with note_ok assms(1,3) show ?thesis
    by (cases "n = 0")
       (simp_all add: counted_def merge_data_def count_stamp_def setProp_def Let_def Itoa_def Sscanf_d_nat int64_wrap_id
         add.commute)
qed

lemma merge_bucket_counted:
  assumes idxs: "idxs \<noteq> []" "distinct idxs" and fresh: "\<And>i. i \<in> set idxs \<Longrightarrow> counted (cdata (comps ! i)) 0"
    and small: "int (length idxs) < 2 ^ 63"
  shows "counted (cdata (merge_bucket comps idxs)) (length idxs - 1)"
proof -
  let ?p = "pickPrimary comps idxs"
  have step: "counted (cdata m) n \<Longrightarrow> (\<And>i. i \<in> set is \<Longrightarrow> counted (cdata (comps ! i)) 0) \<Longrightarrow>
      int n + int (length (filter (\<lambda>i. i \<noteq> ?p) is)) < 2 ^ 63 \<Longrightarrow>
      counted (cdata (foldl (\<lambda>m i. if i = ?p then m else mergePair m (comps ! i)) m is))
        (n + length (filter (\<lambda>i. i \<noteq> ?p) is))" for m n "is"
  proof (induction "is" arbitrary: m n)
    case (Cons i "is")
    show ?case
    proof (cases "i = ?p")
      case True
      with Cons show ?thesis by simp
    next
      case False
      with Cons.prems have "counted (cdata (mergePair m (comps ! i))) (Suc n)"
        by (simp add: mergePair_def merge_counted)
      with False Cons.IH [OF this] Cons.prems(2,3) show ?thesis by simp
    qed
  qed simp
  have mem: "?p \<in> set idxs" using pickPrimary_best [OF idxs(1)] by (simp add: best_of_def)
  have "filter (\<lambda>i. i \<noteq> ?p) idxs = remove1 ?p idxs"
    using idxs(2) by (simp add: distinct_remove1_removeAll removeAll_filter_not_eq eq_commute)
  then have len: "length (filter (\<lambda>i. i \<noteq> ?p) idxs) = length idxs - 1" using mem by (simp add: length_remove1)
  have "int 0 + int (length (filter (\<lambda>i. i \<noteq> ?p) idxs)) < 2 ^ 63" using len small by simp
  from step [OF fresh [OF mem] fresh this] len show ?thesis by (simp add: merge_bucket_def Let_def)
qed

section \<open>Properties\<close>

text \<open>
  The two passes over the bucket map compute this: every component without a key, and the first
  component of every key, in input order, a key with several members being replaced by the merge of
  all of them; the second result counts those keys.
\<close>
theorem dedup_Run_spec:
  "Run comps =
     (map (representative comps) (firsts comps (length comps)), length (shared_keys comps (length comps)))"
  using Run_spec [of comps] by (simp add: prod_eq_iff)

text \<open>
  C5.  After one run no two top-level components share a key, and a second run changes nothing and
  merges nothing.  The hash algorithm names must not contain a colon.
\<close>
theorem dedup_Run_idempotent:
  assumes "\<forall>c \<in> set comps. hash_ok (cdata c)"
  shows "unique_keys (fst (Run comps)) \<and> Run (fst (Run comps)) = (fst (Run comps), 0)"
  using Run_unique [OF assms] Run_stable by blast


text \<open>
  The component a bucket is merged into is the one with the highest primary score, the earliest
  among equals, and the merge counter of the result is the number of components folded into it.
\<close>
theorem dedup_merge_bucket:
  assumes "idxs \<noteq> []" "distinct idxs" "\<And>i. i \<in> set idxs \<Longrightarrow> counted (cdata (comps ! i)) 0"
    and "int (length idxs) < 2 ^ 63"
  shows "best_of comps (set idxs) (pickPrimary comps idxs) \<and>
    counted (cdata (merge_bucket comps idxs)) (length idxs - 1)"
  using pickPrimary_best [OF assms(1)] merge_bucket_counted [OF assms] by blast

section \<open>Witnesses\<close>

definition demo_lib :: "string \<Rightarrow> string list \<Rightarrow> component" where
  "demo_lib p cpes = Component (empty_component\<lparr>Name := ''libc'', Version := ''2'', PURL := p, CPEs := cpes\<rparr>) []"

theorem dedup_Run_idempotent_witness:
  "unique_keys (fst (Run [demo_lib ''pkg:deb/libc@2'' [], demo_lib ''pkg:deb/libc@2?arch=x'' [''cpe:x'']])) \<and>
   Run (fst (Run [demo_lib ''pkg:deb/libc@2'' [], demo_lib ''pkg:deb/libc@2?arch=x'' [''cpe:x'']])) =
     (fst (Run [demo_lib ''pkg:deb/libc@2'' [], demo_lib ''pkg:deb/libc@2?arch=x'' [''cpe:x'']]), 0)"
  by (rule dedup_Run_idempotent) (simp add: demo_lib_def hash_ok_def empty_component_def)

theorem dedup_merge_bucket_witness:
  "best_of [demo_lib ''pkg:deb/libc@2'' [], demo_lib ''pkg:deb/libc@2'' [''cpe:x'']] (set [0, 1])
     (pickPrimary [demo_lib ''pkg:deb/libc@2'' [], demo_lib ''pkg:deb/libc@2'' [''cpe:x'']] [0, 1]) \<and>
   counted (cdata (merge_bucket [demo_lib ''pkg:deb/libc@2'' [], demo_lib ''pkg:deb/libc@2'' [''cpe:x'']] [0, 1]))
     (length [0 :: nat, 1] - 1)"
  by (rule dedup_merge_bucket) (auto simp: demo_lib_def counted_def empty_component_def)

end
