(* ===== verification/Layer.thy ===== *)
theory Layer
  imports Model
begin

text \<open>
  Layer attribution of paths (\<open>internal/image/layer\<close>): \<open>normalizePath\<close>, \<open>Walk\<close> with its whiteout
  handling, \<open>Lookup\<close>, \<open>buildInfos\<close>, the base-image comparison \<open>ComputeDiff\<close>, and the second pass
  \<open>WalkFiles\<close> that delivers every visible file to a visitor.  An image of the registry library is
  the record of what its methods return; a layer's tar stream is the list of its headers followed by
  the end of the stream or a read error.  \<open>ctx\<close> gives \<open>ctx.Err()\<close> at each check.
\<close>

section \<open>Model\<close>

datatype typeflag = TypeReg | TypeDir | TypeOther

record tar_header =
  HName :: string
  Typeflag :: typeflag
  Body :: string

record v1_layer =
  LDigest :: "string option"
  LDiffID :: "string option"
  LSize :: "int option"
  UncompressedError :: "string option"
  Tar :: "tar_header list"
  TarError :: "string option"

record history =
  HAuthor :: string
  HCreated :: int
  HCreatedBy :: string
  HComment :: string
  HEmptyLayer :: bool

record config_file =
  ConfigAuthor :: string
  History :: "history list"
  Labels :: props
  Entrypoint :: "string list"

record v1_image =
  Layers :: "string + v1_layer list"
  ConfigFile :: "string + config_file option"
  ManifestAnnotations :: "props option"

record Info =
  InfoIndex :: nat
  InfoDigest :: string
  CreatedBy :: string
  EmptyLayer :: bool

record FileMap =
  Paths :: "nat gomap"
  FLayers :: "Info list"

datatype layer_error =
    NilImage
  | NilVisitor
  | NilTarget
  | NilBase
  | LayersError string
  | ConfigError string
  | ContextError string
  | Uncompressed nat string
  | TarHeader nat string
  | VisitorError nat string string
  | WalkBase layer_error

definition normalizePath :: "string \<Rightarrow> string" where
  "normalizePath p0 =
     (if p0 = [] \<or> p0 = dot then []
      else
        let p = TrimPrefix (TrimPrefix (replace_char (char_of (92 :: nat)) slash p0) ''./'') ''/'';
            cleaned = Clean p
        in if cleaned = dot \<or> cleaned = ''/'' then [] else TrimPrefix cleaned ''/'')"

definition removePrefixFromPriorLayers :: "nat gomap \<Rightarrow> string \<Rightarrow> nat \<Rightarrow> nat gomap" where
  "removePrefixFromPriorLayers m prefix currentLayer =
     filter (\<lambda>kv. \<not> (snd kv < currentLayer \<and> HasPrefix (fst kv) prefix)) m"

definition walk_entry :: "nat \<Rightarrow> nat gomap \<Rightarrow> tar_header \<Rightarrow> nat gomap" where
  "walk_entry layerIdx m hdr =
     (let name = normalizePath (HName hdr) in
        if name = [] then m
        else
          let base = Base name; dir = Dir name in
            if base = ''.wh..wh..opq'' then removePrefixFromPriorLayers m (dir @ ''/'') layerIdx
            else if HasPrefix base ''.wh.'' then
              mdel (normalizePath (JoinPath dir (TrimPrefix base ''.wh.''))) m
            else if Typeflag hdr = TypeDir then m
            else mput name layerIdx m)"

definition walkLayer :: "nat \<Rightarrow> v1_layer \<Rightarrow> nat gomap \<Rightarrow> layer_error + nat gomap" where
  "walkLayer layerIdx lyr m =
     (case UncompressedError lyr of
        Some err \<Rightarrow> Inl (Uncompressed layerIdx err)
      | None \<Rightarrow>
          (case TarError lyr of
             Some err \<Rightarrow> Inl (TarHeader layerIdx err)
           | None \<Rightarrow> Inr (foldl (walk_entry layerIdx) m (Tar lyr))))"

fun assign_history :: "Info list \<Rightarrow> nat \<Rightarrow> history list \<Rightarrow> Info list" where
  "assign_history infos li [] = infos"
| "assign_history infos li (h # hs) =
     (if HEmptyLayer h then assign_history infos li hs
      else if length infos \<le> li then infos
      else assign_history (infos[li := (infos ! li)\<lparr>CreatedBy := HCreatedBy h, EmptyLayer := False\<rparr>]) (Suc li) hs)"

definition buildInfos :: "v1_image \<Rightarrow> v1_layer list \<Rightarrow> layer_error + Info list" where
  "buildInfos img layers =
     (case ConfigFile img of
        Inl err \<Rightarrow> Inl (ConfigError err)
      | Inr cfg \<Rightarrow>
          (let infos = map (\<lambda>i. \<lparr>InfoIndex = i,
                 InfoDigest = (case LDigest (layers ! i) of None \<Rightarrow> [] | Some d \<Rightarrow> d),
                 CreatedBy = [], EmptyLayer = False\<rparr>) [0..<length layers]
           in case cfg of None \<Rightarrow> Inr infos | Some c \<Rightarrow> Inr (assign_history infos 0 (History c))))"

fun walk_layers ::
  "(nat \<Rightarrow> string option) \<Rightarrow> nat \<Rightarrow> v1_layer list \<Rightarrow> nat gomap \<Rightarrow> layer_error + nat gomap"
where
  "walk_layers ctx i [] m = Inr m"
| "walk_layers ctx i (lyr # lyrs) m =
     (case ctx i of
        Some err \<Rightarrow> Inl (ContextError err)
      | None \<Rightarrow>
          (case walkLayer i lyr m of
             Inl err \<Rightarrow> Inl err
           | Inr m' \<Rightarrow> walk_layers ctx (Suc i) lyrs m'))"

definition Walk :: "(nat \<Rightarrow> string option) \<Rightarrow> v1_image option \<Rightarrow> layer_error + FileMap" where
  "Walk ctx img =
     (case img of None \<Rightarrow> Inl NilImage
      | Some im \<Rightarrow>
        (case Layers im of Inl err \<Rightarrow> Inl (LayersError err)
         | Inr layers \<Rightarrow>
           (case buildInfos im layers of Inl err \<Rightarrow> Inl err
            | Inr descs \<Rightarrow>
              (case walk_layers ctx 0 layers [] of Inl err \<Rightarrow> Inl err
               | Inr m \<Rightarrow> Inr \<lparr>Paths = m, FLayers = descs\<rparr>))))"

definition Lookup :: "FileMap option \<Rightarrow> string \<Rightarrow> Info option" where
  "Lookup fm p =
     (case fm of None \<Rightarrow> None
      | Some m \<Rightarrow>
        (case mget (Paths m) (normalizePath p) of None \<Rightarrow> None
         | Some idx \<Rightarrow> if length (FLayers m) \<le> idx then None else Some (FLayers m ! idx)))"

definition Len :: "FileMap option \<Rightarrow> nat" where
  "Len fm = (case fm of None \<Rightarrow> 0 | Some m \<Rightarrow> length (Paths m))"

subsection \<open>Comparison with the base image\<close>

datatype DiffMode = DiffModePrefix | DiffModeFallback

record Diff =
  Mode :: DiffMode
  BasePrefix :: nat
  BasePaths :: "bool gomap"

definition IsBaseLayer :: "Diff option \<Rightarrow> int \<Rightarrow> bool" where
  "IsBaseLayer d targetLayerIdx =
     (case d of None \<Rightarrow> False | Some x \<Rightarrow> Mode x = DiffModePrefix \<and> targetLayerIdx < int (BasePrefix x))"

definition IsBasePath :: "Diff option \<Rightarrow> string \<Rightarrow> bool" where
  "IsBasePath d path =
     (case d of None \<Rightarrow> False
      | Some x \<Rightarrow> BasePaths x \<noteq> [] \<and> mget (BasePaths x) (normalizePath path) = Some True)"

fun same_digests :: "v1_layer list \<Rightarrow> v1_layer list \<Rightarrow> bool" where
  "same_digests target [] = True"
| "same_digests [] (b # bs) = False"
| "same_digests (t # ts) (b # bs) =
     (case LDigest b of None \<Rightarrow> False
      | Some bd \<Rightarrow> (case LDigest t of None \<Rightarrow> False | Some td \<Rightarrow> bd = td \<and> same_digests ts bs))"

definition layerPrefix :: "v1_layer list \<Rightarrow> v1_layer list \<Rightarrow> nat \<times> bool" where
  "layerPrefix target base =
     (if base = [] then (0, True)
      else if length target < length base then (0, False)
      else if same_digests target base then (length base, True) else (0, False))"

definition ComputeDiff ::
  "(nat \<Rightarrow> string option) \<Rightarrow> v1_image option \<Rightarrow> v1_image option \<Rightarrow> layer_error + Diff"
where
  "ComputeDiff ctx target base =
     (case target of None \<Rightarrow> Inl NilTarget
      | Some t \<Rightarrow>
      (case base of None \<Rightarrow> Inl NilBase
       | Some b \<Rightarrow>
       (case Layers t of Inl err \<Rightarrow> Inl (LayersError err)
        | Inr tgtLayers \<Rightarrow>
        (case Layers b of Inl err \<Rightarrow> Inl (LayersError err)
         | Inr baseLayers \<Rightarrow>
           (let r = layerPrefix tgtLayers baseLayers in
              if snd r then Inr \<lparr>Mode = DiffModePrefix, BasePrefix = fst r, BasePaths = []\<rparr>
              else (case Walk ctx (Some b) of
                  Inl err \<Rightarrow> Inl (WalkBase err)
                | Inr baseMap \<Rightarrow>
                    Inr \<lparr>Mode = DiffModeFallback, BasePrefix = 0,
                      BasePaths = map (\<lambda>kv. (fst kv, True)) (Paths baseMap)\<rparr>))))))"

subsection \<open>Streaming the visible files\<close>

record FileEntry =
  EPath :: string
  ELayer :: Info
  EHeader :: tar_header

datatype visit = VisitOk | SkipFile | VisitError string

text \<open>A visitor changes a state of its own and returns nil, the sentinel \<open>SkipFile\<close> or an error.\<close>

type_synonym 's visitor = "'s \<Rightarrow> FileEntry \<Rightarrow> 's \<times> visit"

fun stream_entries ::
  "(nat \<Rightarrow> string option) \<Rightarrow> nat \<Rightarrow> FileMap \<Rightarrow> 's visitor \<Rightarrow> string option \<Rightarrow> nat \<Rightarrow> tar_header list \<Rightarrow> 's \<Rightarrow> layer_error option \<times> 's"
where
  "stream_entries ctx idx fm visitor tarErr n [] s =
     (case ctx n of Some err \<Rightarrow> (Some (ContextError err), s)
      | None \<Rightarrow> (map_option (TarHeader idx) tarErr, s))"
| "stream_entries ctx idx fm visitor tarErr n (hdr # hdrs) s =
     (case ctx n of Some err \<Rightarrow> (Some (ContextError err), s)
      | None \<Rightarrow>
          (let path = normalizePath (HName hdr) in
             if Typeflag hdr \<noteq> TypeReg \<or> path = [] then stream_entries ctx idx fm visitor tarErr (Suc n) hdrs s
             else (case Lookup (Some fm) path of
                 None \<Rightarrow> stream_entries ctx idx fm visitor tarErr (Suc n) hdrs s
               | Some owner \<Rightarrow>
                   if InfoIndex owner \<noteq> idx then stream_entries ctx idx fm visitor tarErr (Suc n) hdrs s
                   else (case visitor s \<lparr>EPath = path, ELayer = owner, EHeader = hdr\<rparr> of
                       (s', VisitError err) \<Rightarrow> (Some (VisitorError idx path err), s')
                     | (s', _) \<Rightarrow> stream_entries ctx idx fm visitor tarErr (Suc n) hdrs s'))))"

definition streamLayer ::
  "(nat \<Rightarrow> string option) \<Rightarrow> nat \<Rightarrow> v1_layer \<Rightarrow> FileMap \<Rightarrow> 's visitor \<Rightarrow> 's \<Rightarrow> layer_error option \<times> 's"
where
  "streamLayer ctx idx lyr fm visitor s =
     (case UncompressedError lyr of Some err \<Rightarrow> (Some (Uncompressed idx err), s)
      | None \<Rightarrow> stream_entries ctx idx fm visitor (TarError lyr) 0 (Tar lyr) s)"

fun stream_layers ::
  "(nat \<Rightarrow> string option) \<Rightarrow> (nat \<Rightarrow> nat \<Rightarrow> string option) \<Rightarrow> FileMap \<Rightarrow> 's visitor \<Rightarrow> nat \<Rightarrow> v1_layer list \<Rightarrow> 's \<Rightarrow> layer_error option \<times> 's"
where
  "stream_layers ctx ectx fm visitor i [] s = (None, s)"
| "stream_layers ctx ectx fm visitor i (lyr # lyrs) s =
     (case ctx i of Some err \<Rightarrow> (Some (ContextError err), s)
      | None \<Rightarrow>
          (let r = streamLayer (ectx i) i lyr fm visitor s in
             if fst r \<noteq> None then r else stream_layers ctx ectx fm visitor (Suc i) lyrs (snd r)))"

definition WalkFiles ::
  "(nat \<Rightarrow> string option) \<Rightarrow> (nat \<Rightarrow> nat \<Rightarrow> string option) \<Rightarrow> v1_image option \<Rightarrow> 's visitor option \<Rightarrow> 's \<Rightarrow> layer_error option \<times> 's"
where
  "WalkFiles ctx ectx img visitor s =
     (case img of None \<Rightarrow> (Some NilImage, s)
      | Some im \<Rightarrow>
      (case visitor of None \<Rightarrow> (Some NilVisitor, s)
       | Some v \<Rightarrow>
       (case Walk ctx (Some im) of Inl err \<Rightarrow> (Some err, s)
        | Inr fm \<Rightarrow>
        (case Layers im of Inl err \<Rightarrow> (Some (LayersError err), s)
         | Inr layers \<Rightarrow> stream_layers ctx ectx fm v 0 layers s))))"

section \<open>Normal paths\<close>

abbreviation backslash :: char where "backslash \<equiv> char_of (92 :: nat)"

definition normal :: "string \<Rightarrow> bool" where
  "normal p \<longleftrightarrow> (\<exists>es. clean_form False es \<and> es \<noteq> [] \<and> p = Join [slash] es \<and> backslash \<notin> set p)"

lemma replace_char_absent: "a \<notin> set s \<Longrightarrow> replace_char a b s = s"
  by (auto simp: replace_char_def intro: map_idI)

lemma replace_char_removes: "a \<noteq> b \<Longrightarrow> a \<notin> set (replace_char a b s)"
  by (auto simp: replace_char_def)

lemma foldl_clean_set: "set (foldl (clean_step rooted) st es) \<subseteq> set st \<union> set es"
proof (induction es arbitrary: st)
  case (Cons e es)
  have "set (clean_step rooted st e) \<subseteq> set st \<union> {e}"
    by (cases st) (auto simp: clean_step_def)
  with Cons.IH [of "clean_step rooted st e"] show ?case by auto
qed simp

lemma clean_elems_set: "set (clean_elems rooted es) \<subseteq> set es"
  using foldl_clean_set [of rooted "[]" es] by (simp add: clean_elems_def)

lemma SplitC_chars: "x \<in> set (SplitC c s) \<Longrightarrow> set x \<subseteq> set s"
proof (induction s arbitrary: x)
  case (Cons a s)
  show ?case
  proof (cases "SplitC c s")
    case Nil
    with Cons.prems show ?thesis by (auto split: if_splits)
  next
    case (Cons y ys)
    with Cons.prems Cons.IH [of x] Cons.IH [of y] show ?thesis by (fastforce split: if_splits)
  qed
qed simp

lemma clean_elems_chars:
  assumes "e \<in> set (clean_elems rooted (SplitC slash p))"
  shows "set e \<subseteq> set p"
  by (rule SplitC_chars [OF subsetD [OF clean_elems_set assms]])

lemma clean_form_weaken: "clean_form True es \<Longrightarrow> clean_form False es"
  by (auto simp: clean_form_def intro: exI [of _ 0])

lemma hd_Join_form:
  assumes "clean_form False es" "es \<noteq> []"
  shows "Join [slash] es \<noteq> []" "hd (Join [slash] es) \<noteq> slash"
    "\<not> HasPrefix (Join [slash] es) ''/''" "\<not> HasPrefix (Join [slash] es) ''./''"
    "Join [slash] es \<noteq> dot"
proof -
  obtain e es' where es: "es = e # es'" using assms(2) by (cases es) auto
  have e: "e \<noteq> []" "e \<noteq> dot" "slash \<notin> set e"
    using clean_form_nonempty [OF assms(1), of e] clean_form_no_slash [OF assms(1), of e] es by auto
  have rest: "Join [slash] es = e \<or> (\<exists>r. Join [slash] es = e @ slash # r)" using es by (cases es') auto
  obtain c e' where c: "e = c # e'" using e(1) by (cases e) auto
  show "Join [slash] es \<noteq> []" "hd (Join [slash] es) \<noteq> slash" using rest c e(3) by auto
  show "\<not> HasPrefix (Join [slash] es) ''/''" using rest c e(3) by auto
  show "\<not> HasPrefix (Join [slash] es) ''./''" using rest c e by (cases e') auto
  show "Join [slash] es \<noteq> dot" using rest c e by (cases e') auto
qed

lemma normalizePath_normal: "normalizePath p = [] \<or> normal (normalizePath p)"
proof (cases "p = [] \<or> p = dot")
  case False
  let ?p = "TrimPrefix (TrimPrefix (replace_char backslash slash p) ''./'') ''/''"
  have nb: "backslash \<notin> set ?p"
  proof -
    have "backslash \<notin> set (replace_char backslash slash p)" by (rule replace_char_removes) (simp add: go_char)
    moreover have "set (TrimPrefix q r) \<subseteq> set q" for q r :: string
      by (auto simp: TrimPrefix_def dest: in_set_dropD)
    ultimately show ?thesis by blast
  qed
  have joined: "normal (Join [slash] es)"
    if "clean_form False es" "es \<noteq> []" "\<And>e. e \<in> set es \<Longrightarrow> set e \<subseteq> set ?p" for es
  proof -
    have "set (Join [slash] es) \<subseteq> insert slash (set ?p)" using that(3) set_Join [of slash es] by blast
    moreover have "backslash \<noteq> slash" by (simp add: go_char)
    ultimately have "backslash \<notin> set (Join [slash] es)" using nb by blast
    with that(1,2) show ?thesis unfolding normal_def by blast
  qed
  have np: "normalizePath p = (let c = Clean ?p in if c = dot \<or> c = ''/'' then [] else TrimPrefix c ''/'')"
    using False by (simp add: normalizePath_def Let_def)
  consider (empty) "?p = []" | (rooted) "?p \<noteq> []" "hd ?p = slash" | (relative) "?p \<noteq> []" "hd ?p \<noteq> slash" by blast
  then show ?thesis
  proof cases
    case empty
    then show ?thesis by (simp add: np Clean_def)
  next
    case rooted
    let ?es = "clean_elems True (SplitC slash ?p)"
    have form: "clean_form False ?es"
      by (rule clean_form_weaken, rule clean_elems_form) (blast dest: SplitC_elems)
    have c: "Clean ?p = slash # Join [slash] ?es" using rooted by (simp add: Clean_def Let_def)
    show ?thesis
    proof (cases "?es = []")
      case True
      then show ?thesis using c by (simp add: np)
    next
      case False
      have "normal (Join [slash] ?es)" by (rule joined [OF form False]) (rule clean_elems_chars)
      with c show ?thesis by (simp add: np TrimPrefix_def)
    qed
  next
    case relative
    let ?es = "clean_elems False (SplitC slash ?p)"
    have form: "clean_form False ?es"
      by (rule clean_elems_form) (blast dest: SplitC_elems)
    have "\<forall>e \<in> set ?es. e \<noteq> []" using form by (blast dest: clean_form_nonempty)
    then have c: "Clean ?p = (if ?es = [] then dot else Join [slash] ?es)"
      using relative by (simp add: Clean_def Join_eq_Nil Let_def)
    show ?thesis
    proof (cases "?es = []")
      case True
      then show ?thesis using c by (simp add: np)
    next
      case False
      have "normal (Join [slash] ?es)" by (rule joined [OF form False]) (rule clean_elems_chars)
      moreover have "Join [slash] ?es \<noteq> ''/''" using hd_Join_form(3) [OF form False] by fastforce
      ultimately show ?thesis
        using c hd_Join_form [OF form False] False by (simp add: np TrimPrefix_other Let_def)
    qed
  qed
qed (auto simp: normalizePath_def)

lemma normalizePath_id: "normal p \<Longrightarrow> normalizePath p = p"
proof -
  assume "normal p"
  then obtain es where es: "clean_form False es" "es \<noteq> []" "p = Join [slash] es" "backslash \<notin> set p"
    by (auto simp: normal_def)
  note h = hd_Join_form [OF es(1,2), folded es(3)]
  have "Clean p = p" using Clean_relative [OF es(1,2)] es(3) by simp
  then show ?thesis
    using h es(4) by (auto simp: normalizePath_def replace_char_absent TrimPrefix_other Let_def)
qed

lemma normalizePath_idem: "normalizePath (normalizePath p) = normalizePath p"
proof (cases "normalizePath p = []")
  case True
  then show ?thesis by (simp only: True) (simp add: normalizePath_def)
next
  case False
  with normalizePath_normal [of p] show ?thesis by (blast intro: normalizePath_id)
qed

lemma normal_not_dot:
  assumes "normal p"
  shows "p \<noteq> []" "\<not> HasPrefix p ''./''" "\<not> HasPrefix p ''/''"
proof -
  obtain es where es: "clean_form False es" "es \<noteq> []" "p = Join [slash] es"
    using assms by (auto simp: normal_def)
  show "p \<noteq> []" "\<not> HasPrefix p ''./''" "\<not> HasPrefix p ''/''"
    unfolding es(3) by (rule hd_Join_form [OF es(1,2)])+
qed

section \<open>One path at a time\<close>

text \<open>What an entry does to a path: it writes it, removes it, or removes it when it is older.\<close>

definition writes :: "tar_header \<Rightarrow> string \<Rightarrow> bool" where
  "writes hdr p \<longleftrightarrow> p \<noteq> [] \<and> normalizePath (HName hdr) = p \<and> Typeflag hdr \<noteq> TypeDir \<and> \<not> HasPrefix (Base p) ''.wh.''"

definition removes :: "tar_header \<Rightarrow> string \<Rightarrow> bool" where
  "removes hdr p \<longleftrightarrow>
     (let name = normalizePath (HName hdr); base = Base name in
        name \<noteq> [] \<and> base \<noteq> ''.wh..wh..opq'' \<and> HasPrefix base ''.wh.'' \<and>
        p = normalizePath (JoinPath (Dir name) (TrimPrefix base ''.wh.'')))"

definition hides :: "tar_header \<Rightarrow> string \<Rightarrow> bool" where
  "hides hdr p \<longleftrightarrow>
     (let name = normalizePath (HName hdr) in
        name \<noteq> [] \<and> Base name = ''.wh..wh..opq'' \<and> HasPrefix p (Dir name @ ''/''))"

text \<open>The layer that owns a path, read off the events in order.\<close>

definition owner_step :: "string \<Rightarrow> nat option \<Rightarrow> nat \<times> tar_header \<Rightarrow> nat option" where
  "owner_step p own ev =
     (if writes (snd ev) p then Some (fst ev)
      else if removes (snd ev) p \<or> (hides (snd ev) p \<and> (case own of None \<Rightarrow> False | Some i \<Rightarrow> i < fst ev)) then None
      else own)"

lemma opq_prefix: "HasPrefix ''.wh..wh..opq'' ''.wh.''"
  by simp

lemma mget_evict: "map_ok m \<Longrightarrow> mget (removePrefixFromPriorLayers m prefix cur) p =
   (case mget m p of Some i \<Rightarrow> if i < cur \<and> HasPrefix p prefix then None else Some i | None \<Rightarrow> None)"
proof (induction m)
  case (Cons kv m)
  obtain k v where kv: "kv = (k, v)" by (cases kv)
  with Cons.prems have "k = p \<Longrightarrow> mget m p = None" by (auto simp: map_of_eq_None_iff)
  with Cons kv show ?case
    by (cases "k = p") (auto simp: removePrefixFromPriorLayers_def simp del: map_of_eq_Some_iff split: option.splits)
qed (simp add: removePrefixFromPriorLayers_def)

lemma walk_entry_owner:
  assumes "map_ok m"
  shows "mget (walk_entry i m hdr) p = owner_step p (mget m p) (i, hdr)" "map_ok (walk_entry i m hdr)"
proof -
  let ?n = "normalizePath (HName hdr)"
  show "map_ok (walk_entry i m hdr)"
    using assms by (simp add: walk_entry_def Let_def removePrefixFromPriorLayers_def distinct_delete)
  show "mget (walk_entry i m hdr) p = owner_step p (mget m p) (i, hdr)"
  proof (cases "?n = []")
    case True
    then show ?thesis by (auto simp: walk_entry_def owner_step_def writes_def removes_def hides_def)
  next
    case False
    consider (opq) "Base ?n = ''.wh..wh..opq''" | (wh) "Base ?n \<noteq> ''.wh..wh..opq''" "HasPrefix (Base ?n) ''.wh.''"
      | (plain) "\<not> HasPrefix (Base ?n) ''.wh.''" by auto
    then show ?thesis
    proof cases
      case opq
      have "\<not> writes hdr p" "\<not> removes hdr p" "hides hdr p \<longleftrightarrow> HasPrefix p (Dir ?n @ ''/'')"
        using opq False by (auto simp: writes_def removes_def hides_def Let_def)
      then show ?thesis
        using opq False assms
        by (auto simp: walk_entry_def owner_step_def mget_evict simp del: map_of_eq_Some_iff split: option.split)
    next
      case wh
      then have "\<not> writes hdr p" "\<not> hides hdr p"
        "removes hdr p \<longleftrightarrow> p = normalizePath (JoinPath (Dir ?n) (TrimPrefix (Base ?n) ''.wh.''))"
        using False by (auto simp: writes_def removes_def hides_def Let_def)
      then show ?thesis using wh False by (simp add: walk_entry_def owner_step_def Let_def)
    next
      case plain
      then have "Base ?n \<noteq> ''.wh..wh..opq''" using opq_prefix by metis
      moreover have "writes hdr p \<longleftrightarrow> ?n = p \<and> Typeflag hdr \<noteq> TypeDir" "\<not> removes hdr p" "\<not> hides hdr p"
        using plain False calculation by (auto simp: writes_def removes_def hides_def Let_def)
      ultimately show ?thesis using plain False by (auto simp: walk_entry_def owner_step_def Let_def)
    qed
  qed
qed

lemma walk_tar_owner:
  assumes "map_ok m"
  shows "mget (foldl (walk_entry i) m hdrs) p = foldl (owner_step p) (mget m p) (map (\<lambda>h. (i, h)) hdrs) \<and>
    map_ok (foldl (walk_entry i) m hdrs)"
  using assms
proof (induction hdrs arbitrary: m)
  case (Cons h hdrs)
  from Cons.IH [OF walk_entry_owner(2) [OF Cons.prems]] walk_entry_owner(1) [OF Cons.prems]
  show ?case by simp
qed simp

fun layer_events :: "nat \<Rightarrow> v1_layer list \<Rightarrow> (nat \<times> tar_header) list" where
  "layer_events i [] = []"
| "layer_events i (lyr # lyrs) = map (\<lambda>h. (i, h)) (Tar lyr) @ layer_events (Suc i) lyrs"

lemma walk_layers_owner:
  "walk_layers ctx i lyrs m = Inr m' \<Longrightarrow> map_ok m \<Longrightarrow>
     mget m' p = foldl (owner_step p) (mget m p) (layer_events i lyrs) \<and> map_ok m'"
proof (induction ctx i lyrs m arbitrary: m' rule: walk_layers.induct)
  case (2 ctx i lyr lyrs m)
  let ?m = "foldl (walk_entry i) m (Tar lyr)"
  from "2.prems"(1) have go: "ctx i = None" "walkLayer i lyr m = Inr ?m" "walk_layers ctx (Suc i) lyrs ?m = Inr m'"
    by (auto simp: walkLayer_def split: option.splits sum.splits)
  from walk_tar_owner [OF "2.prems"(2)] have m: "map_ok ?m"
    "mget ?m p = foldl (owner_step p) (mget m p) (map (\<lambda>h. (i, h)) (Tar lyr))" by blast+
  from "2.IH" [OF go m(1)] m(2) show ?case by simp
qed simp

definition owner :: "string \<Rightarrow> v1_layer list \<Rightarrow> nat option" where
  "owner p layers = foldl (owner_step p) None (layer_events 0 layers)"

lemma Walk_cases:
  assumes "Walk ctx (Some img) = Inr fm"
  obtains layers where "Layers img = Inr layers" "buildInfos img layers = Inr (FLayers fm)"
    "walk_layers ctx 0 layers [] = Inr (Paths fm)" "map_ok (Paths fm)"
    "\<And>p. mget (Paths fm) p = owner p layers"
proof -
  from assms obtain layers where l: "Layers img = Inr layers" "buildInfos img layers = Inr (FLayers fm)"
    "walk_layers ctx 0 layers [] = Inr (Paths fm)"
    by (auto simp: Walk_def split: sum.splits)
  from walk_layers_owner [OF l(3)] have "map_ok (Paths fm)" "\<And>p. mget (Paths fm) p = owner p layers"
    by (simp_all add: owner_def)
  with l that show ?thesis by blast
qed

text \<open>The layer a path belongs to is the last one to write it, unless a later event removed it.\<close>

definition undisturbed :: "string \<Rightarrow> nat \<Rightarrow> (nat \<times> tar_header) list \<Rightarrow> bool" where
  "undisturbed p i evs \<longleftrightarrow>
     (\<forall>(j, h) \<in> set evs. \<not> writes h p \<and> \<not> removes h p \<and> \<not> (hides h p \<and> i < j))"

lemma owner_step_Some:
  "foldl (owner_step p) own evs = Some i \<longleftrightarrow>
     (own = Some i \<and> undisturbed p i evs) \<or>
     (\<exists>pre h post. evs = pre @ (i, h) # post \<and> writes h p \<and> undisturbed p i post)"
proof (induction evs arbitrary: own)
  case Nil
  then show ?case by (auto simp: undisturbed_def)
next
  case (Cons ev evs)
  obtain j h where ev: "ev = (j, h)" by (cases ev)
  have split: "(\<exists>pre h post. ev # evs = pre @ (i, h) # post \<and> writes h p \<and> undisturbed p i post) \<longleftrightarrow>
      (j = i \<and> writes h p \<and> undisturbed p i evs) \<or>
      (\<exists>pre h post. evs = pre @ (i, h) # post \<and> writes h p \<and> undisturbed p i post)" (is "?l = ?r")
  proof
    assume ?l
    then obtain pre h' post where e: "ev # evs = pre @ (i, h') # post" "writes h' p" "undisturbed p i post" by blast
    then show ?r using ev by (cases pre) auto
  next
    assume ?r
    then show ?l
    proof
      assume "j = i \<and> writes h p \<and> undisturbed p i evs"
      then show ?l using ev by (intro exI [of _ "[]"] exI [of _ h] exI [of _ evs]) simp
    next
      assume "\<exists>pre h post. evs = pre @ (i, h) # post \<and> writes h p \<and> undisturbed p i post"
      then obtain pre h' post where "evs = pre @ (i, h') # post" "writes h' p" "undisturbed p i post" by blast
      then show ?l by (intro exI [of _ "ev # pre"] exI [of _ h'] exI [of _ post]) simp
    qed
  qed
  have step: "owner_step p own ev = Some i \<longleftrightarrow>
      (j = i \<and> writes h p) \<or> (own = Some i \<and> \<not> writes h p \<and> \<not> removes h p \<and> \<not> (hides h p \<and> i < j))"
    by (auto simp: ev owner_step_def split: option.split)
  have und: "undisturbed p i (ev # evs) \<longleftrightarrow>
      \<not> writes h p \<and> \<not> removes h p \<and> \<not> (hides h p \<and> i < j) \<and> undisturbed p i evs"
    by (auto simp: undisturbed_def ev)
  define X where "X \<longleftrightarrow> (\<exists>pre h post. evs = pre @ (i, h) # post \<and> writes h p \<and> undisturbed p i post)"
  show ?case
    unfolding foldl_Cons Cons.IH [of "owner_step p own ev"] split step und X_def [symmetric] by blast
qed

lemma owner_Some:
  "owner p layers = Some i \<longleftrightarrow>
     (\<exists>pre h post. layer_events 0 layers = pre @ (i, h) # post \<and> writes h p \<and> undisturbed p i post)"
  unfolding owner_def owner_step_Some by simp

lemma layer_events_range: "(j, h) \<in> set (layer_events i lyrs) \<Longrightarrow> i \<le> j \<and> j < i + length lyrs"
  by (induction i lyrs rule: layer_events.induct) fastforce+

lemma owner_range: "owner p layers = Some i \<Longrightarrow> i < length layers"
proof -
  assume "owner p layers = Some i"
  then obtain pre h post where "layer_events 0 layers = pre @ (i, h) # post" unfolding owner_Some by blast
  then have "(i, h) \<in> set (layer_events 0 layers)" by simp
  from layer_events_range [OF this] show ?thesis by simp
qed

section \<open>Layer descriptors\<close>

lemma assign_history_length: "length (assign_history infos li hs) = length infos"
  by (induction infos li hs rule: assign_history.induct) simp_all

lemma assign_history_frame:
  "map InfoIndex (assign_history infos li hs) = map InfoIndex infos \<and>
   map InfoDigest (assign_history infos li hs) = map InfoDigest infos"
  by (induction infos li hs rule: assign_history.induct) (auto simp: map_update list_update_same_conv)

lemma assign_history_keep: "j < li \<Longrightarrow> assign_history infos li hs ! j = infos ! j"
  by (induction infos li hs rule: assign_history.induct) auto

lemma assign_history_created:
  "li + k < length infos \<Longrightarrow> k < length (filter (\<lambda>h. \<not> HEmptyLayer h) hs) \<Longrightarrow>
   CreatedBy (assign_history infos li hs ! (li + k)) = HCreatedBy (filter (\<lambda>h. \<not> HEmptyLayer h) hs ! k)"
proof (induction infos li hs arbitrary: k rule: assign_history.induct)
  case (2 infos li h hs)
  show ?case
  proof (cases "HEmptyLayer h")
    case True
    with 2 show ?thesis by simp
  next
    case False
    show ?thesis
    proof (cases k)
      case 0
      with False "2.prems" assign_history_keep [of li "Suc li"] show ?thesis by simp
    next
      case (Suc k')
      with False "2.prems" "2.IH"(2) [of k'] show ?thesis by simp
    qed
  qed
qed simp

lemma buildInfos_length:
  assumes "buildInfos img layers = Inr infos"
  shows "length infos = length layers" "i < length layers \<Longrightarrow> InfoIndex (infos ! i) = i"
proof -
  let ?base = "map (\<lambda>i. \<lparr>InfoIndex = i, InfoDigest = (case LDigest (layers ! i) of None \<Rightarrow> [] | Some d \<Rightarrow> d),
                 CreatedBy = [], EmptyLayer = False\<rparr>) [0..<length layers]"
  from assms consider "infos = ?base" | h where "infos = assign_history ?base 0 h"
    by (auto simp: buildInfos_def Let_def split: sum.splits option.splits)
  then have props: "length infos = length layers \<and> map InfoIndex infos = [0..<length layers]"
    by cases (simp_all add: assign_history_length assign_history_frame comp_def)
  then show "length infos = length layers" by blast
  assume "i < length layers"
  with props show "InfoIndex (infos ! i) = i" by (metis add_0 nth_map nth_upt)
qed

lemma Walk_Lookup:
  assumes "Walk ctx (Some img) = Inr fm" "Layers img = Inr layers"
  shows "map_option InfoIndex (Lookup (Some fm) p) = owner (normalizePath p) layers"
proof -
  from assms obtain fm_layers where l: "buildInfos img layers = Inr (FLayers fm)"
    "\<And>p. mget (Paths fm) p = owner p layers"
    by (auto elim: Walk_cases)
  note len = buildInfos_length [OF l(1)]
  show ?thesis
  proof (cases "owner (normalizePath p) layers")
    case None
    with l(2) show ?thesis by (simp add: Lookup_def)
  next
    case (Some i)
    with owner_range [OF Some] l(2) len show ?thesis by (simp add: Lookup_def)
  qed
qed

section \<open>Delivery of the visible files\<close>

definition delivered :: "v1_layer list \<Rightarrow> Info list \<Rightarrow> (nat \<times> tar_header) list \<Rightarrow> FileEntry list" where
  "delivered layers infos evs =
     map (\<lambda>(i, h). \<lparr>EPath = normalizePath (HName h), ELayer = infos ! i, EHeader = h\<rparr>)
       (filter (\<lambda>(i, h). Typeflag h = TypeReg \<and> normalizePath (HName h) \<noteq> [] \<and>
          owner (normalizePath (HName h)) layers = Some i) evs)"

lemma delivered_append: "delivered layers infos (xs @ ys) = delivered layers infos xs @ delivered layers infos ys"
  by (simp add: delivered_def)

abbreviation run_visitor :: "'s visitor \<Rightarrow> 's \<Rightarrow> FileEntry list \<Rightarrow> 's" where
  "run_visitor v s es \<equiv> foldl (\<lambda>s e. fst (v s e)) s es"

lemma stream_entries_delivers:
  assumes lookup: "\<And>p. normalizePath p = p \<Longrightarrow> Lookup (Some fm) p =
      (case owner p layers of None \<Rightarrow> None | Some i \<Rightarrow> Some (infos ! i))"
    and index: "\<And>i. i < length layers \<Longrightarrow> InfoIndex (infos ! i) = i"
    and quiet: "\<And>s e. \<forall>err. snd (v s e) \<noteq> VisitError err"
  shows "stream_entries (\<lambda>_. None) idx fm v None n hdrs s =
    (None, run_visitor v s (delivered layers infos (map (\<lambda>h. (idx, h)) hdrs)))"
proof (induction hdrs arbitrary: n s)
  case Nil
  show ?case by (simp add: Let_def delivered_def)
next
  case (Cons h hdrs)
  let ?p = "normalizePath (HName h)"
  show ?case
  proof (cases "Typeflag h = TypeReg \<and> ?p \<noteq> [] \<and> owner ?p layers = Some idx")
    case True
    then have look: "Lookup (Some fm) ?p = Some (infos ! idx)"
      using lookup [OF normalizePath_idem, of "HName h"] by simp
    have idx: "InfoIndex (infos ! idx) = idx" using True owner_range index by blast
    let ?e = "\<lparr>EPath = ?p, ELayer = infos ! idx, EHeader = h\<rparr>"
    obtain s' r where v: "v s ?e = (s', r)" by (cases "v s ?e")
    with quiet [of s ?e] have "r = VisitOk \<or> r = SkipFile" by (cases r) auto
    with True look idx v Cons.IH [of "Suc n" s'] show ?thesis
      by (auto simp: delivered_def Let_def)
  next
    case False
    then have "delivered layers infos (map (\<lambda>h. (idx, h)) (h # hdrs)) =
        delivered layers infos (map (\<lambda>h. (idx, h)) hdrs)"
      by (auto simp: delivered_def)
    moreover have "stream_entries (\<lambda>_. None) idx fm v None n (h # hdrs) s = stream_entries (\<lambda>_. None) idx fm v None (Suc n) hdrs s"
    proof (cases "Typeflag h \<noteq> TypeReg \<or> ?p = [] \<or> owner ?p layers = None")
      case True
      then show ?thesis using lookup [OF normalizePath_idem, of "HName h"] by (auto simp: Let_def)
    next
      case other: False
      then obtain i where i: "owner ?p layers = Some i" "i \<noteq> idx" using False by auto
      then have "InfoIndex (infos ! i) \<noteq> idx" using index owner_range by metis
      with i other show ?thesis using lookup [OF normalizePath_idem, of "HName h"] by (simp add: Let_def)
    qed
    ultimately show ?thesis using Cons.IH [of "Suc n" s] by simp
  qed
qed

lemma stream_layers_delivers:
  assumes lookup: "\<And>p. normalizePath p = p \<Longrightarrow> Lookup (Some fm) p =
      (case owner p layers of None \<Rightarrow> None | Some i \<Rightarrow> Some (infos ! i))"
    and index: "\<And>i. i < length layers \<Longrightarrow> InfoIndex (infos ! i) = i"
    and quiet: "\<And>s e. \<forall>err. snd (v s e) \<noteq> VisitError err"
    and ok: "\<forall>l \<in> set lyrs. UncompressedError l = None \<and> TarError l = None"
  shows "stream_layers (\<lambda>_. None) (\<lambda>_ _. None) fm v i lyrs s =
    (None, run_visitor v s (delivered layers infos (layer_events i lyrs)))"
  using ok
proof (induction lyrs arbitrary: i s)
  case Nil
  show ?case by (simp add: delivered_def)
next
  case (Cons l lyrs)
  have "streamLayer (\<lambda>_. None) i l fm v s =
      (None, run_visitor v s (delivered layers infos (map (\<lambda>h. (i, h)) (Tar l))))"
    using Cons.prems stream_entries_delivers [OF lookup index quiet] by (simp add: streamLayer_def)
  with Cons show ?case by (simp add: Let_def delivered_append)
qed

lemma WalkFiles_run:
  assumes "Walk (\<lambda>_. None) (Some img) = Inr fm" "Layers img = Inr layers"
    and "\<And>s e. \<forall>err. snd (v s e) \<noteq> VisitError err"
  shows "WalkFiles (\<lambda>_. None) (\<lambda>_ _. None) (Some img) (Some v) s =
    (None, run_visitor v s (delivered layers (FLayers fm) (layer_events 0 layers)))"
proof -
  from assms obtain l: "buildInfos img layers = Inr (FLayers fm)"
    and w: "walk_layers (\<lambda>_. None) 0 layers [] = Inr (Paths fm)"
    and own: "\<And>p. mget (Paths fm) p = owner p layers"
    by (auto elim: Walk_cases)
  note len = buildInfos_length [OF l]
  have look: "Lookup (Some fm) p = (case owner p layers of None \<Rightarrow> None | Some i \<Rightarrow> Some (FLayers fm ! i))"
    if "normalizePath p = p" for p
    using that own len owner_range by (auto simp: Lookup_def split: option.split dest!: owner_range)
  have "\<forall>l \<in> set lyrs. UncompressedError l = None \<and> TarError l = None"
    if "walk_layers (\<lambda>_. None) i lyrs m = Inr m'" for i lyrs m m'
    using that
    by (induction lyrs arbitrary: i m) (auto simp: walkLayer_def split: option.splits sum.splits)
  from stream_layers_delivers [OF look len(2) assms(3) this [OF w]] assms(1,2) show ?thesis
    by (simp add: WalkFiles_def)
qed

text \<open>Whatever stops the second pass, the visitor's state keeps the visitor's invariant.\<close>

lemma stream_invariant:
  assumes v: "\<And>s e. normal (EPath e) \<Longrightarrow> I s \<Longrightarrow> I (fst (v s e))"
  shows "I s \<Longrightarrow> I (snd (stream_entries ctx idx fm v tarErr n hdrs s))"
    and "I s \<Longrightarrow> I (snd (stream_layers ctx' ectx fm v i lyrs s))"
proof -
  have entries: "I s \<Longrightarrow> I (snd (stream_entries ctx idx fm v tarErr n hdrs s))" for s ctx idx tarErr n hdrs
  proof (induction hdrs arbitrary: n s)
    case (Cons hdr hdrs)
    have "I s'" if "v s e = (s', r)" "EPath e = normalizePath (HName hdr)" "normalizePath (HName hdr) \<noteq> []" for e s' r
      using v [of e, OF _ Cons.prems] that normalizePath_normal [of "HName hdr"] by simp
    then show ?case using Cons by (auto simp: Let_def split: option.split prod.split visit.split)
  qed (simp split: option.split)
  then show "I s \<Longrightarrow> I (snd (stream_entries ctx idx fm v tarErr n hdrs s))" .
  show "I s \<Longrightarrow> I (snd (stream_layers ctx' ectx fm v i lyrs s))"
  proof (induction lyrs arbitrary: i s)
    case (Cons lyr lyrs)
    have "I (snd (streamLayer (ectx i) i lyr fm v s))"
      using entries Cons.prems by (simp add: streamLayer_def split: option.split)
    then show ?case using Cons by (simp add: Let_def split: option.split)
  qed simp
qed

lemma WalkFiles_invariant:
  assumes "\<And>s e. normal (EPath e) \<Longrightarrow> I s \<Longrightarrow> I (fst (v s e))" and "I s"
  shows "I (snd (WalkFiles ctx ectx img (Some v) s))"
  using stream_invariant(2) [of I v] assms
  by (auto simp: WalkFiles_def split: option.split sum.split)

section \<open>Comparison with the base\<close>

lemma same_digests_iff:
  "same_digests target base \<longleftrightarrow>
     length base \<le> length target \<and>
     (\<forall>i < length base. LDigest (base ! i) \<noteq> None \<and> LDigest (target ! i) = LDigest (base ! i))"
proof (induction target base rule: same_digests.induct)
  case (3 t ts b bs)
  then show ?case
    by (auto simp: nth_Cons' less_Suc_eq_0_disj split: option.splits)
qed simp_all

lemma layerPrefix_iff:
  "layerPrefix target base = (if same_digests target base then (length base, True) else (0, False))"
  by (auto simp: layerPrefix_def same_digests_iff)

lemma root_opaque_ineffective:
  assumes "normalizePath (HName h) = ''.wh..wh..opq''" "normal p"
  shows "\<not> hides h p"
proof -
  have "Dir ''.wh..wh..opq'' = dot" by code_simp
  with assms normal_not_dot(2) [OF assms(2)] show ?thesis by (simp add: hides_def Let_def)
qed

section \<open>Properties\<close>

text \<open>
  C18.  Latest layer wins: a path is found in layer \<open>i\<close> exactly when some entry of layer \<open>i\<close> writes
  it and no later entry, in that layer or above, writes it again, whites it out, or, from a higher
  layer, makes one of its directories opaque.
\<close>
theorem Walk_latest_layer:
  assumes "Walk ctx (Some img) = Inr fm" "Layers img = Inr layers"
  shows "map_option InfoIndex (Lookup (Some fm) p) = Some i \<longleftrightarrow>
    (\<exists>pre h post. layer_events 0 layers = pre @ (i, h) # post \<and>
       writes h (normalizePath p) \<and> undisturbed (normalizePath p) i post)"
  unfolding Walk_Lookup [OF assms] owner_Some ..

text \<open>
  The second pass hands the visitor exactly the regular-file entries that own their path, in
  layer order and tar order, and reports no error when the visitor reports none; skipping a file does
  not stop it.
\<close>
theorem WalkFiles_delivers:
  assumes "Walk (\<lambda>_. None) (Some img) = Inr fm" "Layers img = Inr layers"
    and "\<And>s e. \<forall>err. snd (v s e) \<noteq> VisitError err"
  shows "WalkFiles (\<lambda>_. None) (\<lambda>_ _. None) (Some img) (Some v) s =
    (None, run_visitor v s (delivered layers (FLayers fm) (layer_events 0 layers)))"
  by (rule WalkFiles_run [OF assms])

text \<open>
  The comparison trusts layer indices exactly when the base image's layers, by digest, are a
  prefix of the target's; otherwise a path counts as the base's exactly when it is visible in the
  base image.
\<close>
theorem ComputeDiff_modes:
  assumes "ComputeDiff ctx (Some target) (Some base) = Inr d" "Layers target = Inr ts" "Layers base = Inr bs"
  shows "if same_digests ts bs
    then IsBaseLayer (Some d) i = (i < int (length bs)) \<and> \<not> IsBasePath (Some d) p
    else \<not> IsBaseLayer (Some d) i \<and> IsBasePath (Some d) p = (owner (normalizePath p) bs \<noteq> None)"
proof (cases "same_digests ts bs")
  case True
  with assms have "d = \<lparr>Mode = DiffModePrefix, BasePrefix = length bs, BasePaths = []\<rparr>"
    by (simp add: ComputeDiff_def layerPrefix_iff)
  with True show ?thesis by (simp add: IsBaseLayer_def IsBasePath_def)
next
  case False
  with assms obtain fm where fm: "Walk ctx (Some base) = Inr fm"
    "d = \<lparr>Mode = DiffModeFallback, BasePrefix = 0, BasePaths = map (\<lambda>kv. (fst kv, True)) (Paths fm)\<rparr>"
    by (auto simp: ComputeDiff_def layerPrefix_iff split: sum.splits)
  from fm(1) assms(3) have own: "mget (Paths fm) q = owner q bs" for q by (auto elim: Walk_cases)
  have "mget (map (\<lambda>kv. (fst kv, True)) m) q = map_option (\<lambda>_. True) (mget m q)" for m :: "nat gomap" and q
    by (induction m) auto
  with own have "IsBasePath (Some d) p \<longleftrightarrow> owner (normalizePath p) bs \<noteq> None"
    by (auto simp: IsBasePath_def fm(2) simp flip: own)
  with False fm(2) show ?thesis by (simp add: IsBaseLayer_def)
qed

text \<open>
  C0.  A layer's instruction is the one of the history entry at the same position among the entries
  that produced a layer; entries without one are skipped.
\<close>
theorem buildInfos_history:
  assumes "buildInfos img layers = Inr infos" "ConfigFile img = Inr (Some cfg)"
    and "i < length layers" "i < length (filter (\<lambda>h. \<not> HEmptyLayer h) (History cfg))"
  shows "CreatedBy (infos ! i) = HCreatedBy (filter (\<lambda>h. \<not> HEmptyLayer h) (History cfg) ! i) \<and> InfoIndex (infos ! i) = i"
  using assms assign_history_created [of 0 i] buildInfos_length(2) [OF assms(1,3)]
  by (auto simp: buildInfos_def Let_def)

text \<open>
  Path normalisation is idempotent, so every spelling of a path is looked up as its normal form.
\<close>
theorem normalizePath_idempotent:
  "normalizePath (normalizePath p) = normalizePath p \<and> Lookup fm (normalizePath p) = Lookup fm p"
  unfolding Lookup_def normalizePath_idem by simp

section \<open>Witnesses and counterexamples\<close>

definition file_at :: "string \<Rightarrow> tar_header" where
  "file_at p = \<lparr>HName = p, Typeflag = TypeReg, Body = ''x''\<rparr>"

definition layer_of :: "string \<Rightarrow> string list \<Rightarrow> v1_layer" where
  "layer_of d ps = \<lparr>LDigest = Some d, LDiffID = None, LSize = None, UncompressedError = None, Tar = map file_at ps, TarError = None\<rparr>"

definition demo_config :: config_file where
  "demo_config = \<lparr>ConfigAuthor = [],
     History = [\<lparr>HAuthor = [], HCreated = 0, HCreatedBy = ''COPY'', HComment = [], HEmptyLayer = False\<rparr>],
     Labels = [], Entrypoint = []\<rparr>"

definition image_of :: "v1_layer list \<Rightarrow> v1_image" where
  "image_of ls = \<lparr>Layers = Inr ls, ConfigFile = Inr (Some demo_config), ManifestAnnotations = None\<rparr>"

definition demo_layers :: "v1_layer list" where
  "demo_layers = [layer_of ''d0'' [''./app/a'', ''app/b''], layer_of ''d1'' [''app/.wh.b'', ''/app/a'']]"

definition demo_infos :: "Info list" where
  "demo_infos = [\<lparr>InfoIndex = 0, InfoDigest = ''d0'', CreatedBy = ''COPY'', EmptyLayer = False\<rparr>,
     \<lparr>InfoIndex = 1, InfoDigest = ''d1'', CreatedBy = [], EmptyLayer = False\<rparr>]"

lemma demo_walk:
  "Walk (\<lambda>_. None) (Some (image_of demo_layers)) = Inr \<lparr>Paths = [(''app/a'', 1)], FLayers = demo_infos\<rparr>"
  by code_simp

lemma demo_image [simp]: "Layers (image_of ls) = Inr ls"
  by (simp add: image_of_def)

theorem Walk_latest_layer_witness:
  "\<exists>pre h post. layer_events 0 demo_layers = pre @ (1, h) # post \<and>
     writes h (normalizePath ''./app/a'') \<and> undisturbed (normalizePath ''./app/a'') 1 post"
proof -
  have "map_option InfoIndex (Lookup (Some \<lparr>Paths = [(''app/a'', 1)], FLayers = demo_infos\<rparr>) ''./app/a'') = Some 1"
    by code_simp
  then show ?thesis using Walk_latest_layer [OF demo_walk demo_image] by blast
qed

theorem WalkFiles_delivers_witness:
  "WalkFiles (\<lambda>_. None) (\<lambda>_ _. None) (Some (image_of demo_layers)) (Some (\<lambda>s e. (s @ [EPath e], SkipFile))) [] =
     (None, [''app/a''])"
proof -
  have "run_visitor (\<lambda>s e. (s @ [EPath e], SkipFile)) [] (delivered demo_layers demo_infos (layer_events 0 demo_layers))
      = [''app/a'']"
    by code_simp
  then show ?thesis
    using WalkFiles_delivers [OF demo_walk demo_image, where v = "\<lambda>s e. (s @ [EPath e], SkipFile)" and s = "[]"] by simp
qed

theorem ComputeDiff_modes_witness:
  "IsBaseLayer (Some \<lparr>Mode = DiffModePrefix, BasePrefix = 1, BasePaths = []\<rparr>) 0 \<and>
   \<not> IsBasePath (Some \<lparr>Mode = DiffModePrefix, BasePrefix = 1, BasePaths = []\<rparr>) ''app/a''"
proof -
  have diff: "ComputeDiff (\<lambda>_. None) (Some (image_of demo_layers)) (Some (image_of [layer_of ''d0'' [''app'']])) =
      Inr \<lparr>Mode = DiffModePrefix, BasePrefix = 1, BasePaths = []\<rparr>"
    by code_simp
  have "same_digests demo_layers [layer_of ''d0'' [''app'']]" by code_simp
  with ComputeDiff_modes [OF diff demo_image demo_image, of 0 "''app/a''"] show ?thesis by simp
qed

theorem buildInfos_history_witness:
  "CreatedBy (demo_infos ! 0) = ''COPY'' \<and> InfoIndex (demo_infos ! 0) = 0"
proof -
  have "buildInfos (image_of demo_layers) demo_layers = Inr demo_infos" by code_simp
  from buildInfos_history [OF this, of demo_config 0]
  show ?thesis by (simp add: image_of_def demo_layers_def demo_config_def)
qed

text \<open>A whiteout of a directory removes no file below it.\<close>

lemma directory_whiteout_leaves_children:
  "(case Walk (\<lambda>_. None) (Some (image_of [layer_of ''d0'' [''app/b''], layer_of ''d1'' [''.wh.app'']])) of
      Inl _ \<Rightarrow> False
    | Inr fm \<Rightarrow> map_option InfoIndex (Lookup (Some fm) ''app/b'') = Some 0)"
  by code_simp

end
