(* ===== verification/Runtime.thy ===== *)
theory Runtime
  imports Layer
begin

text \<open>
  Detection of the build tool and normalisation of the layers (\<open>internal/image/runtime\<close>):
  \<open>Detect\<close> with its chain of detectors, \<open>Normalize\<close>, the instruction parser and the per-runtime
  rewrites.  A range over the label map visits the entries in the order of the list.
\<close>

section \<open>Detection\<close>

datatype runtime =
    RuntimeDocker | RuntimeBuildKit | RuntimePodman | RuntimeBuildah | RuntimeKaniko | RuntimeJib
  | RuntimeKo | RuntimeUnknown

record DetectionEvidence =
  Field :: string
  Value :: string
  Reason :: string

type_synonym detection = "(runtime \<times> DetectionEvidence list) option"

definition found :: "runtime \<Rightarrow> string \<Rightarrow> string \<Rightarrow> string \<Rightarrow> detection" where
  "found rt f v r = Some (rt, [\<lparr>Field = f, Value = v, Reason = r\<rparr>])"

text \<open>The first entry of a map or of the numbered history that satisfies a condition.\<close>

fun first_label :: "(string \<Rightarrow> bool) \<Rightarrow> props \<Rightarrow> (string \<times> string) option" where
  "first_label P [] = None"
| "first_label P (kv # m) = (if P (fst kv) then Some kv else first_label P m)"

fun first_history :: "nat \<Rightarrow> (nat \<Rightarrow> history \<Rightarrow> detection) \<Rightarrow> history list \<Rightarrow> detection" where
  "first_history i f [] = None"
| "first_history i f (h # hs) = (case f i h of None \<Rightarrow> first_history (Suc i) f hs | Some r \<Rightarrow> Some r)"

definition label_field :: "string \<Rightarrow> string" where
  "label_field k = ''config.Labels['' @ k @ '']''"

definition history_field :: "nat \<Rightarrow> string \<Rightarrow> string" where
  "history_field i f = ''history['' @ nat_digits i @ '']'' @ f"

definition buildKitDetector :: "config_file option \<Rightarrow> props option \<Rightarrow> detection" where
  "buildKitDetector cf mf =
     (if mf \<noteq> None \<and> mget (the mf) ''vnd.docker.reference.type'' = Some ''attestation-manifest'' then
        found RuntimeBuildKit ''manifest.annotations[vnd.docker.reference.type]'' ''attestation-manifest''
          ''image is a BuildKit attestation manifest''
      else
        (case cf of None \<Rightarrow> None
         | Some c \<Rightarrow>
             (case first_label (\<lambda>k. HasPrefix k ''moby.buildkit'') (Labels c) of
                Some (k, v) \<Rightarrow> found RuntimeBuildKit (label_field k) v ''moby.buildkit.* label present''
              | None \<Rightarrow>
                  first_history 0 (\<lambda>i h.
                    if Contains (HCreatedBy h) ''buildkit.dockerfile.v'' then
                      found RuntimeBuildKit (history_field i ''.CreatedBy'') (HCreatedBy h)
                        ''history mentions buildkit.dockerfile frontend''
                    else None) (History c))))"

definition kanikoDetector :: "v1_image \<Rightarrow> config_file option \<Rightarrow> detection" where
  "kanikoDetector img cf =
     (case cf of None \<Rightarrow> None
      | Some c \<Rightarrow>
          if ConfigAuthor c = ''Kaniko'' then
            found RuntimeKaniko ''config.Author'' (ConfigAuthor c) ''Kaniko sets the Author field to its own name''
          else
            let builder = mget (Labels c) ''org.opencontainers.image.builder'' in
              if builder \<noteq> None \<and> Contains (ToLower (the builder)) ''kaniko'' then
                found RuntimeKaniko ''config.Labels[org.opencontainers.image.builder]'' (the builder)
                  ''OCI image.builder label names Kaniko''
              else
                (case Layers img of
                   Inl _ \<Rightarrow> None
                 | Inr layers \<Rightarrow>
                     if 5 \<le> length (History c) \<and> length layers \<le> 2 then
                       found RuntimeKaniko ''heuristic.squash''
                         (''history='' @ nat_digits (length (History c)) @ '' layers='' @ nat_digits (length layers))
                         ''many history entries but few layers (Kaniko or `docker build --squash`)''
                     else None))"

definition jibLayerNames :: "string list" where
  "jibLayerNames = [''dependencies'', ''resources'', ''classes'']"

definition jib_hit :: "history \<Rightarrow> bool" where
  "jib_hit h \<longleftrightarrow> (\<exists>name \<in> set jibLayerNames.
     Contains (HCreatedBy h) (''jib-'' @ name) \<or> Contains (HComment h) (''jib-'' @ name))"

definition jibDetector :: "config_file option \<Rightarrow> detection" where
  "jibDetector cf =
     (case cf of None \<Rightarrow> None
      | Some c \<Rightarrow>
          (case first_label (\<lambda>k. HasPrefix k ''jib.image.'' \<or> HasPrefix k ''com.google.cloud.tools.jib'') (Labels c) of
             Some (k, v) \<Rightarrow> found RuntimeJib (label_field k) v ''Jib-specific label present''
           | None \<Rightarrow>
               (let hits = length (filter jib_hit (History c)) in
                  if 2 \<le> hits then
                    found RuntimeJib ''history.CreatedBy'' (''matched '' @ nat_digits hits @ '' Jib layer markers'')
                      (''history names Jib'' @ [char_of (39 :: nat)] @ ''s canonical layer kinds'')
                  else None)))"

definition koDetector :: "config_file option \<Rightarrow> detection" where
  "koDetector cf =
     (case cf of None \<Rightarrow> None
      | Some c \<Rightarrow>
          (case first_label (\<lambda>k. HasPrefix k ''ko.build.'' \<or> k = ''dev.ko.build'') (Labels c) of
             Some (k, v) \<Rightarrow> found RuntimeKo (label_field k) v ''ko.build.* label present''
           | None \<Rightarrow>
               (let source = mget (Labels c) ''org.opencontainers.image.source'';
                    hasKoApp = (\<exists>cmd \<in> set (Entrypoint c). HasPrefix cmd ''/ko-app/'') in
                  if source \<noteq> None \<and> hasKoApp then
                    found RuntimeKo ''config.Entrypoint+config.Labels'' (''entrypoint=/ko-app/* source='' @ the source)
                      (''Ko'' @ [char_of (39 :: nat)] @ ''s canonical /ko-app entrypoint plus image.source label'')
                  else None)))"

definition podman_entry :: "nat \<Rightarrow> history \<Rightarrow> detection" where
  "podman_entry i h =
     (let lower = ToLower (HCreatedBy h); field = history_field i ''.CreatedBy'' in
        if EqualFold (HAuthor h) ''buildah'' then
          found RuntimeBuildah (history_field i ''.Author'') (HAuthor h) ''Buildah stamps its name into history.Author''
        else if Contains lower ''/usr/bin/buildah'' \<or> HasPrefix lower ''buildah:'' then
          found RuntimeBuildah field (HCreatedBy h) ''history.CreatedBy mentions buildah''
        else if HasPrefix lower ''containers-storage:'' then
          found RuntimePodman field (HCreatedBy h) ''history.CreatedBy uses containers-storage transport''
        else if HasPrefix lower ''podman:'' \<or> Contains lower ''/usr/bin/podman'' then
          found RuntimePodman field (HCreatedBy h) ''history.CreatedBy mentions podman''
        else None)"

definition podmanBuildahDetector :: "config_file option \<Rightarrow> detection" where
  "podmanBuildahDetector cf = (case cf of None \<Rightarrow> None | Some c \<Rightarrow> first_history 0 podman_entry (History c))"

definition detectors :: "(v1_image \<Rightarrow> config_file option \<Rightarrow> props option \<Rightarrow> detection) list" where
  "detectors =
     [\<lambda>img cf mf. buildKitDetector cf mf, \<lambda>img cf mf. kanikoDetector img cf, \<lambda>img cf mf. jibDetector cf,
      \<lambda>img cf mf. koDetector cf, \<lambda>img cf mf. podmanBuildahDetector cf]"

fun first_detection :: "(v1_image \<Rightarrow> config_file option \<Rightarrow> props option \<Rightarrow> detection) list \<Rightarrow>
  v1_image \<Rightarrow> config_file option \<Rightarrow> props option \<Rightarrow> detection"
where
  "first_detection [] img cf mf = None"
| "first_detection (d # ds) img cf mf =
     (case d img cf mf of Some r \<Rightarrow> Some r | None \<Rightarrow> first_detection ds img cf mf)"

datatype runtime_error = NoImage | ReadConfig string | ReadLayers string | NilConfig

definition Detect :: "v1_image option \<Rightarrow> runtime \<times> DetectionEvidence list \<times> runtime_error option" where
  "Detect img =
     (case img of None \<Rightarrow> (RuntimeUnknown, [], Some NoImage)
      | Some im \<Rightarrow>
          (case ConfigFile im of
             Inl err \<Rightarrow> (RuntimeUnknown, [], Some (ReadConfig err))
           | Inr cf \<Rightarrow>
               (case first_detection detectors im cf (ManifestAnnotations im) of
                  Some (rt, ev) \<Rightarrow> (rt, ev, None)
                | None \<Rightarrow> (RuntimeDocker, [], None))))"

definition detectRuntime :: "v1_image option \<Rightarrow> runtime \<times> DetectionEvidence list" where
  "detectRuntime img =
     (let r = Detect img in if snd (snd r) \<noteq> None then (RuntimeUnknown, []) else (fst r, fst (snd r)))"

section \<open>Normalisation\<close>

datatype InstructionType =
    InstructionFROM | InstructionRUN | InstructionCOPY | InstructionADD | InstructionENV
  | InstructionLABEL | InstructionARG | InstructionUNKNOWN

record NormalizedLayer =
  NIndex :: nat
  NDigest :: string
  NDiffID :: string
  NSize :: int
  NCreatedBy :: string
  NCreated :: int
  NComment :: string
  NEmptyLayer :: bool
  NInstructionType :: InstructionType
  RuntimeMetadata :: props

fun classify_in :: "string \<Rightarrow> (string \<times> InstructionType) list \<Rightarrow> InstructionType" where
  "classify_in upper [] = InstructionUNKNOWN"
| "classify_in upper ((word, it) # ws) = (if HasPrefix upper (word @ '' '') then it else classify_in upper ws)"

definition classifyInstructionWord :: "string \<Rightarrow> InstructionType" where
  "classifyInstructionWord s =
     classify_in (ToUpper s)
       [(''FROM'', InstructionFROM), (''RUN'', InstructionRUN), (''COPY'', InstructionCOPY), (''ADD'', InstructionADD),
        (''ENV'', InstructionENV), (''LABEL'', InstructionLABEL), (''ARG'', InstructionARG)]"

definition hasInstructionPrefix :: "string \<Rightarrow> string \<Rightarrow> bool" where
  "hasInstructionPrefix s prefix \<longleftrightarrow> length prefix \<le> length s \<and> EqualFold (take (length prefix) s) prefix"

definition parseInstructionType :: "string \<Rightarrow> InstructionType" where
  "parseInstructionType createdBy =
     (let s = TrimSpace createdBy in
        if s = [] then InstructionUNKNOWN
        else (case Index s ''#(nop)'' of
            Some i \<Rightarrow> classifyInstructionWord (TrimSpace (drop (i + 6) s))
          | None \<Rightarrow>
              if hasInstructionPrefix s ''RUN '' then InstructionRUN
              else if classifyInstructionWord s \<noteq> InstructionUNKNOWN then classifyInstructionWord s
              else if HasPrefix s ''/bin/sh -c'' \<or> HasPrefix s ''/bin/bash -c'' then InstructionRUN
              else InstructionUNKNOWN))"

definition applyRuntimeQuirks :: "runtime \<Rightarrow> NormalizedLayer \<Rightarrow> NormalizedLayer" where
  "applyRuntimeQuirks rt nl =
     (case rt of
        RuntimeKaniko \<Rightarrow> nl\<lparr>RuntimeMetadata := mput ''squashed'' ''likely'' (RuntimeMetadata nl)\<rparr>
      | RuntimePodman \<Rightarrow> nl\<lparr>NCreatedBy :=
          TrimSpace (TrimPrefix (TrimSpace (TrimPrefix (NCreatedBy nl) ''containers-storage:'')) ''buildah:'')\<rparr>
      | RuntimeBuildah \<Rightarrow> nl\<lparr>NCreatedBy :=
          TrimSpace (TrimPrefix (TrimSpace (TrimPrefix (NCreatedBy nl) ''containers-storage:'')) ''buildah:'')\<rparr>
      | RuntimeBuildKit \<Rightarrow> nl\<lparr>NCreatedBy :=
          TrimSpace (TrimPrefix (TrimSpace (TrimPrefix (NCreatedBy nl) ''buildkit:'')) ''buildkit.dockerfile.v0:'')\<rparr>
      | _ \<Rightarrow> nl)"

fun next_history :: "history list \<Rightarrow> history option \<times> history list" where
  "next_history [] = (None, [])"
| "next_history (h # hs) = (if HEmptyLayer h then next_history hs else (Some h, hs))"

definition normalize_layer :: "runtime \<Rightarrow> nat \<Rightarrow> v1_layer \<Rightarrow> history option \<Rightarrow> NormalizedLayer" where
  "normalize_layer rt i layer h =
     (let nl0 = \<lparr>NIndex = i,
            NDigest = (case LDigest layer of None \<Rightarrow> [] | Some d \<Rightarrow> d),
            NDiffID = (case LDiffID layer of None \<Rightarrow> [] | Some d \<Rightarrow> d),
            NSize = (case LSize layer of None \<Rightarrow> 0 | Some n \<Rightarrow> n),
            NCreatedBy = [], NCreated = 0, NComment = [], NEmptyLayer = False,
            NInstructionType = InstructionUNKNOWN, RuntimeMetadata = []\<rparr>;
          nl1 = (case h of None \<Rightarrow> nl0
            | Some e \<Rightarrow> nl0\<lparr>NCreatedBy := HCreatedBy e, NCreated := HCreated e, NComment := HComment e,
                NInstructionType := parseInstructionType (HCreatedBy e)\<rparr>);
          nl = applyRuntimeQuirks rt nl1
      in if NInstructionType nl = InstructionUNKNOWN \<and> NCreatedBy nl \<noteq> [] then
           nl\<lparr>NInstructionType := parseInstructionType (NCreatedBy nl)\<rparr>
         else nl)"

fun normalize_layers :: "runtime \<Rightarrow> nat \<Rightarrow> v1_layer list \<Rightarrow> history list \<Rightarrow> NormalizedLayer list" where
  "normalize_layers rt i [] hist = []"
| "normalize_layers rt i (l # ls) hist =
     normalize_layer rt i l (fst (next_history hist)) # normalize_layers rt (Suc i) ls (snd (next_history hist))"

text \<open>A nil configuration without an error would be dereferenced by the loop.\<close>

definition Normalize :: "runtime \<Rightarrow> v1_image option \<Rightarrow> runtime_error + NormalizedLayer list" where
  "Normalize rt img =
     (case img of None \<Rightarrow> Inl NoImage
      | Some im \<Rightarrow>
        (case ConfigFile im of Inl err \<Rightarrow> Inl (ReadConfig err)
         | Inr cf \<Rightarrow>
           (case Layers im of Inl err \<Rightarrow> Inl (ReadLayers err)
            | Inr layers \<Rightarrow>
              (case cf of
                 None \<Rightarrow> if layers = [] then Inr [] else Inl NilConfig
               | Some c \<Rightarrow> Inr (normalize_layers rt 0 layers (History c))))))"

section \<open>Lemmas\<close>

text \<open>Every detector reports evidence, and a named runtime other than the fallback.\<close>

definition convincing :: "detection \<Rightarrow> bool" where
  "convincing d \<longleftrightarrow> (\<forall>rt ev. d = Some (rt, ev) \<longrightarrow> rt \<noteq> RuntimeDocker \<and> rt \<noteq> RuntimeUnknown \<and> ev \<noteq> [])"

lemma convincing_simps [simp]:
  "convincing None" "convincing (found rt f v r) \<longleftrightarrow> rt \<noteq> RuntimeDocker \<and> rt \<noteq> RuntimeUnknown"
  by (auto simp: convincing_def found_def)

lemma convincing_history: "(\<And>i h. convincing (f i h)) \<Longrightarrow> convincing (first_history i f hs)"
  by (induction i f hs rule: first_history.induct) (auto simp: convincing_def split: option.splits)

lemma convincing_detectors:
  "d \<in> set detectors \<Longrightarrow> convincing (d img cf mf)"
proof -
  have bk: "convincing (buildKitDetector cf mf)"
  proof -
    have "convincing (first_history 0 (\<lambda>i h. if Contains (HCreatedBy h) ''buildkit.dockerfile.v'' then
        found RuntimeBuildKit (history_field i ''.CreatedBy'') (HCreatedBy h) ''history mentions buildkit.dockerfile frontend''
        else None) hs)" for hs
      by (rule convincing_history) simp
    then show ?thesis
      by (cases cf) (auto simp: buildKitDetector_def split: option.splits)
  qed
  have po: "convincing (podmanBuildahDetector cf)"
  proof -
    have "convincing (first_history 0 podman_entry hs)" for hs
      by (rule convincing_history) (simp add: podman_entry_def Let_def)
    then show ?thesis by (cases cf) (simp_all add: podmanBuildahDetector_def)
  qed
  have "convincing (kanikoDetector img cf)"
    by (cases cf) (auto simp: kanikoDetector_def Let_def split: sum.splits)
  moreover have "convincing (jibDetector cf)"
    by (cases cf) (auto simp: jibDetector_def Let_def split: option.splits if_splits)
  moreover have "convincing (koDetector cf)"
    by (cases cf) (auto simp: koDetector_def Let_def split: option.splits if_splits)
  ultimately show "d \<in> set detectors \<Longrightarrow> convincing (d img cf mf)"
    using bk po by (auto simp: detectors_def)
qed

lemma convincing_first: "\<forall>d \<in> set ds. convincing (d img cf mf) \<Longrightarrow> convincing (first_detection ds img cf mf)"
  by (induction ds img cf mf rule: first_detection.induct) (auto split: option.splits)

text \<open>The chosen runtime, leaving the evidence aside, depends on the labels only as a map.\<close>

lemma first_label_some:
  assumes "map_ok m" "map_ok m'" "same_map m m'"
  shows "first_label P m = None \<longleftrightarrow> first_label P m' = None"
proof -
  have none: "first_label P m = None \<longleftrightarrow> (\<forall>kv \<in> set m. \<not> P (fst kv))" for m
    by (induction m) auto
  have "fst ` set m = fst ` set m'"
    using assms(3) by (metis dom_map_of_conv_image_fst same_map_def)
  then have "(\<forall>k \<in> fst ` set m. \<not> P k) \<longleftrightarrow> (\<forall>k \<in> fst ` set m'. \<not> P k)" by simp
  then show ?thesis by (simp add: none)
qed

abbreviation which :: "detection \<Rightarrow> runtime option" where "which d \<equiv> map_option fst d"

lemma which_found [simp]: "which (found rt f v r) = Some rt"
  by (simp add: found_def)

lemma which_first:
  "(\<And>d. d \<in> set ds \<Longrightarrow> which (d img cf mf) = which (d img cf' mf)) \<Longrightarrow>
   which (first_detection ds img cf mf) = which (first_detection ds img cf' mf)"
proof (induction ds)
  case (Cons d ds)
  have "which (d img cf mf) = which (d img cf' mf)" using Cons.prems by simp
  moreover have "which (first_detection ds img cf mf) = which (first_detection ds img cf' mf)" using Cons by simp
  ultimately show ?case by (cases "d img cf mf"; cases "d img cf' mf") auto
qed simp

lemma which_order:
  assumes "map_ok (Labels c)" "map_ok m" "same_map (Labels c) m" "d \<in> set detectors"
  shows "which (d img (Some c) mf) = which (d img (Some (c\<lparr>Labels := m\<rparr>)) mf)"
proof -
  note lab = first_label_some [OF assms(1-3)]
  have get: "mget (Labels c) k = mget m k" for k using assms(3) by (simp add: same_map_def)
  have "which (buildKitDetector (Some c) mf) = which (buildKitDetector (Some (c\<lparr>Labels := m\<rparr>)) mf)"
    using lab [of "\<lambda>k. HasPrefix k ''moby.buildkit''"] by (auto simp: buildKitDetector_def simp del: map_option_eq_Some split: option.splits)
  moreover have "which (kanikoDetector img (Some c)) = which (kanikoDetector img (Some (c\<lparr>Labels := m\<rparr>)))"
    by (cases "Layers img") (simp_all add: kanikoDetector_def get Let_def)
  moreover have "which (jibDetector (Some c)) = which (jibDetector (Some (c\<lparr>Labels := m\<rparr>)))"
    using lab [of "\<lambda>k. HasPrefix k ''jib.image.'' \<or> HasPrefix k ''com.google.cloud.tools.jib''"]
    by (auto simp: jibDetector_def Let_def simp del: map_option_eq_Some split: option.splits)
  moreover have "which (koDetector (Some c)) = which (koDetector (Some (c\<lparr>Labels := m\<rparr>)))"
    using lab [of "\<lambda>k. HasPrefix k ''ko.build.'' \<or> k = ''dev.ko.build''"]
    by (auto simp: koDetector_def get Let_def simp del: map_option_eq_Some split: option.splits)
  moreover have "which (podmanBuildahDetector (Some c)) = which (podmanBuildahDetector (Some (c\<lparr>Labels := m\<rparr>)))"
    by (simp add: podmanBuildahDetector_def)
  ultimately show ?thesis using assms(4) by (auto simp: detectors_def)
qed

text \<open>Both pairings of layers with history give a layer the same entry.\<close>

lemma next_history_filter:
  "fst (next_history hs) = (case filter (\<lambda>h. \<not> HEmptyLayer h) hs of [] \<Rightarrow> None | h # _ \<Rightarrow> Some h)"
  "filter (\<lambda>h. \<not> HEmptyLayer h) (snd (next_history hs)) = tl (filter (\<lambda>h. \<not> HEmptyLayer h) hs)"
  by (induction hs) auto

lemma normalize_layers_nth:
  "length (normalize_layers rt i ls hist) = length ls"
  "k < length ls \<Longrightarrow> normalize_layers rt i ls hist ! k =
     normalize_layer rt (i + k) (ls ! k)
       (if k < length (filter (\<lambda>h. \<not> HEmptyLayer h) hist) then Some (filter (\<lambda>h. \<not> HEmptyLayer h) hist ! k) else None)"
proof -
  show "length (normalize_layers rt i ls hist) = length ls"
    by (induction rt i ls hist rule: normalize_layers.induct) simp_all
  show "k < length ls \<Longrightarrow> normalize_layers rt i ls hist ! k =
     normalize_layer rt (i + k) (ls ! k)
       (if k < length (filter (\<lambda>h. \<not> HEmptyLayer h) hist) then Some (filter (\<lambda>h. \<not> HEmptyLayer h) hist ! k) else None)"
  proof (induction rt i ls hist arbitrary: k rule: normalize_layers.induct)
    case (2 rt i l ls hist)
    show ?case
    proof (cases k)
      case 0
      then show ?thesis by (cases "filter (\<lambda>h. \<not> HEmptyLayer h) hist") (simp_all add: next_history_filter)
    next
      case (Suc k')
      with 2 show ?thesis
        by (cases "filter (\<lambda>h. \<not> HEmptyLayer h) hist") (simp_all add: next_history_filter)
    qed
  qed simp
qed

lemma assign_history_unset:
  "li + k < length infos \<Longrightarrow> length (filter (\<lambda>h. \<not> HEmptyLayer h) hs) \<le> k \<Longrightarrow>
   assign_history infos li hs ! (li + k) = infos ! (li + k)"
proof (induction infos li hs arbitrary: k rule: assign_history.induct)
  case (2 infos li h hs)
  show ?case
  proof (cases "HEmptyLayer h")
    case True
    with 2 show ?thesis by simp
  next
    case False
    with "2.prems" obtain k' where "k = Suc k'" by (cases k) auto
    with False "2.prems" "2.IH"(2) [of k'] show ?thesis by simp
  qed
qed simp

lemma if_instruction:
  "NCreatedBy (if b then nl\<lparr>NInstructionType := x\<rparr> else nl) = NCreatedBy nl"
  "NDigest (if b then nl\<lparr>NInstructionType := x\<rparr> else nl) = NDigest nl"
  "NIndex (if b then nl\<lparr>NInstructionType := x\<rparr> else nl) = NIndex nl"
  by simp_all

lemma quirk_other:
  "rt \<in> {RuntimeDocker, RuntimeJib, RuntimeKo, RuntimeUnknown, RuntimeKaniko} \<Longrightarrow>
   NCreatedBy (applyRuntimeQuirks rt nl) = NCreatedBy nl \<and> NDigest (applyRuntimeQuirks rt nl) = NDigest nl \<and>
   NIndex (applyRuntimeQuirks rt nl) = NIndex nl"
  by (auto simp: applyRuntimeQuirks_def)

lemma quirk_plain:
  "rt \<in> {RuntimeDocker, RuntimeJib, RuntimeKo, RuntimeUnknown, RuntimeKaniko} \<Longrightarrow>
   NCreatedBy (normalize_layer rt i l h) = (case h of None \<Rightarrow> [] | Some e \<Rightarrow> HCreatedBy e) \<and>
   NDigest (normalize_layer rt i l h) = (case LDigest l of None \<Rightarrow> [] | Some d \<Rightarrow> d) \<and>
   NIndex (normalize_layer rt i l h) = i"
  unfolding normalize_layer_def Let_def if_instruction
  by (cases h) (simp_all add: quirk_other)

section \<open>Properties\<close>

text \<open>
  Detection names an unknown runtime exactly when the configuration could not be read, and it
  reports evidence exactly when the runtime is neither unknown nor the Docker fallback.
\<close>
theorem Detect_evidence:
  assumes "Detect img = (rt, ev, err)"
  shows "(rt = RuntimeUnknown \<longleftrightarrow> err \<noteq> None) \<and> (ev = [] \<longleftrightarrow> rt = RuntimeDocker \<or> rt = RuntimeUnknown)"
proof -
  have "convincing (first_detection detectors im cf mf)" for im cf mf
    by (rule convincing_first) (blast intro: convincing_detectors)
  then have conv: "rt \<noteq> RuntimeDocker \<and> rt \<noteq> RuntimeUnknown \<and> ev \<noteq> []"
    if "first_detection detectors im cf mf = Some (rt, ev)" for im cf mf rt ev
    using that unfolding convincing_def by blast
  show ?thesis
  proof (cases img)
    case None
    with assms show ?thesis by (auto simp: Detect_def)
  next
    case (Some im)
    show ?thesis
    proof (cases "ConfigFile im")
      case (Inl e)
      with assms Some show ?thesis by (auto simp: Detect_def)
    next
      case (Inr cf)
      show ?thesis
      proof (cases "first_detection detectors im cf (ManifestAnnotations im)")
        case None
        with assms Some Inr show ?thesis by (auto simp: Detect_def)
      next
        case hit: (Some r)
        obtain rt' ev' where "r = (rt', ev')" by (cases r)
        with hit assms Some Inr conv [of im cf "ManifestAnnotations im" rt' ev'] show ?thesis
          by (simp add: Detect_def)
      qed
    qed
  qed
qed

text \<open>
  The detected runtime does not depend on the order in which Go ranges over the label map; only
  the label quoted as evidence does.
\<close>
theorem Detect_order_independent:
  assumes "map_ok (Labels c)" "map_ok m" "same_map (Labels c) m"
  shows "fst (Detect (Some (im\<lparr>ConfigFile := Inr (Some (c\<lparr>Labels := m\<rparr>))\<rparr>))) =
    fst (Detect (Some (im\<lparr>ConfigFile := Inr (Some c)\<rparr>)))"
proof -
  have "kanikoDetector (im\<lparr>ConfigFile := x\<rparr>) cf = kanikoDetector im cf" for x cf
  proof -
    have same: "Layers (im\<lparr>ConfigFile := x\<rparr>) = Layers im" by simp
    show ?thesis unfolding kanikoDetector_def same ..
  qed
  then have img: "first_detection detectors (im\<lparr>ConfigFile := x\<rparr>) cf mf = first_detection detectors im cf mf" for x cf mf
    unfolding detectors_def first_detection.simps by (simp cong: option.case_cong)
  have "which (first_detection detectors im (Some c) mf) = which (first_detection detectors im (Some (c\<lparr>Labels := m\<rparr>)) mf)"
    for mf by (rule which_first) (rule which_order [OF assms])
  from this [of "ManifestAnnotations im"] show ?thesis
    by (cases "first_detection detectors im (Some c) (ManifestAnnotations im)";
        cases "first_detection detectors im (Some (c\<lparr>Labels := m\<rparr>)) (ManifestAnnotations im)")
       (auto simp: Detect_def img split: prod.splits)
qed

text \<open>
  For the runtimes without prefix rewriting, \<open>Normalize\<close> and the layer walker's \<open>buildInfos\<close>,
  which step through the history with different loops, describe every layer alike.
\<close>
theorem Normalize_agrees_with_buildInfos:
  assumes "rt \<in> {RuntimeDocker, RuntimeJib, RuntimeKo, RuntimeUnknown, RuntimeKaniko}"
    and "Layers im = Inr layers" "ConfigFile im = Inr (Some c)"
  shows "\<exists>nls infos. Normalize rt (Some im) = Inr nls \<and> buildInfos im layers = Inr infos \<and>
    map NCreatedBy nls = map CreatedBy infos \<and> map NDigest nls = map InfoDigest infos \<and>
    map NIndex nls = map InfoIndex infos"
proof -
  let ?nls = "normalize_layers rt 0 layers (History c)"
  let ?base = "map (\<lambda>i. \<lparr>InfoIndex = i, InfoDigest = (case LDigest (layers ! i) of None \<Rightarrow> [] | Some d \<Rightarrow> d),
                 CreatedBy = [], EmptyLayer = False\<rparr>) [0..<length layers]"
  let ?infos = "assign_history ?base 0 (History c)"
  have infos: "buildInfos im layers = Inr ?infos" using assms(3) by (simp add: buildInfos_def)
  have nls: "Normalize rt (Some im) = Inr ?nls" using assms by (simp add: Normalize_def)
  have len: "length ?infos = length layers" by (simp add: assign_history_length)
  have created: "CreatedBy (?infos ! k) =
      (if k < length (filter (\<lambda>h. \<not> HEmptyLayer h) (History c))
       then HCreatedBy (filter (\<lambda>h. \<not> HEmptyLayer h) (History c) ! k) else [])" if "k < length layers" for k
    using that assign_history_created [of 0 k ?base] assign_history_unset [of 0 k ?base] by simp
  have "map NCreatedBy ?nls = map CreatedBy ?infos"
    by (rule nth_equalityI)
       (use len created in \<open>simp_all add: normalize_layers_nth quirk_plain [OF assms(1)]\<close>)
  moreover have "map NDigest ?nls = map InfoDigest ?infos"
    unfolding assign_history_frame [THEN conjunct2]
    by (rule nth_equalityI) (simp_all add: normalize_layers_nth quirk_plain [OF assms(1)])
  moreover have "map NIndex ?nls = map InfoIndex ?infos"
    unfolding assign_history_frame [THEN conjunct1]
    by (rule nth_equalityI) (simp_all add: normalize_layers_nth quirk_plain [OF assms(1)])
  ultimately show ?thesis using nls infos by blast
qed

section \<open>Witnesses\<close>

theorem Detect_evidence_witness:
  "(RuntimeDocker = RuntimeUnknown \<longleftrightarrow> (None :: runtime_error option) \<noteq> None) \<and>
   (([] :: DetectionEvidence list) = [] \<longleftrightarrow> RuntimeDocker = RuntimeDocker \<or> RuntimeDocker = RuntimeUnknown)"
proof (rule Detect_evidence)
  show "Detect (Some (image_of demo_layers)) = (RuntimeDocker, [], None)" by code_simp
qed

theorem Detect_order_independent_witness:
  "fst (Detect (Some (image_of demo_layers\<lparr>ConfigFile := Inr (Some (demo_config\<lparr>Labels := [(''b'', []), (''a'', [])]\<rparr>))\<rparr>))) =
   fst (Detect (Some (image_of demo_layers\<lparr>ConfigFile := Inr (Some (demo_config\<lparr>Labels := [(''a'', []), (''b'', [])]\<rparr>))\<rparr>)))"
  using Detect_order_independent [of "demo_config\<lparr>Labels := [(''a'', []), (''b'', [])]\<rparr>" "[(''b'', []), (''a'', [])]"
      "image_of demo_layers"]
  by (simp add: same_map_def fun_upd_twist)

theorem Normalize_agrees_with_buildInfos_witness:
  "\<exists>nls infos. Normalize RuntimeDocker (Some (image_of demo_layers)) = Inr nls \<and>
     buildInfos (image_of demo_layers) demo_layers = Inr infos \<and> map NCreatedBy nls = map CreatedBy infos \<and>
     map NDigest nls = map InfoDigest infos \<and> map NIndex nls = map InfoIndex infos"
  by (rule Normalize_agrees_with_buildInfos [where c = demo_config]) (simp_all add: image_of_def)

end
