(* ===== verification/Attribution.thy ===== *)
theory Attribution
  imports Runtime Pipeline
begin

text \<open>
  The attribution enricher (\<open>internal/enrich/attribution\<close>): the stamper that records for every
  component the layer owning its first located file, and the SBOM-level runtime and confidence
  stamps.  The provenance test is an optional Boolean, as \<open>HasProvenance\<close> is an optional function.
\<close>

section \<open>Model\<close>

datatype Confidence = ConfidenceHigh | ConfidenceMedium | ConfidenceLow | ConfidenceNone

definition looksSquashed :: "NormalizedLayer list \<Rightarrow> bool" where
  "looksSquashed layers \<longleftrightarrow>
     \<not> 2 < length layers \<and> (\<exists>l \<in> set layers. mval (RuntimeMetadata l) ''squashed'' = ''likely'')"

definition hasFullHistory :: "NormalizedLayer list \<Rightarrow> bool" where
  "hasFullHistory layers \<longleftrightarrow> (\<forall>l \<in> set layers. NCreatedBy l \<noteq> [])"

definition DetermineConfidence ::
  "NormalizedLayer list \<Rightarrow> runtime \<Rightarrow> bool option \<Rightarrow> Confidence \<times> string"
where
  "DetermineConfidence layers rt hasProvenance =
     (if hasProvenance = Some True then (ConfidenceHigh, ''BuildKit SLSA provenance attestation is present'')
      else if layers = [] then (ConfidenceNone, ''image has no layers'')
      else if rt = RuntimeKaniko then
        (ConfidenceLow, ''image was built with Kaniko ('' @ nat_digits (length layers) @ '' layers, squashing likely)'')
      else if looksSquashed layers then
        (ConfidenceLow, ''image is squashed ('' @ nat_digits (length layers) @ '' layers, no per-instruction history)'')
      else if hasFullHistory layers then (ConfidenceMedium, ''history aligns with every layer'')
      else (ConfidenceLow, ''history is missing or partial''))"

text \<open>The ellipsis is the UTF-8 encoding of U+2026.\<close>

definition truncate :: "string \<Rightarrow> nat \<Rightarrow> string" where
  "truncate s n = (if length s \<le> n then s else take n s @ [char_of (226 :: nat), char_of (128 :: nat), char_of (166 :: nat)])"

definition EvidenceSummary :: "DetectionEvidence list \<Rightarrow> string" where
  "EvidenceSummary evidence =
     (if evidence = [] then []
      else Join ''; '' (sort (map (\<lambda>e. Field e @ ''='' @ Quote (truncate (Value e) 64) @ '' ('' @ Reason e @ '')'') evidence)))"

fun first_located :: "FileMap option \<Rightarrow> EvidenceLocation list \<Rightarrow> Info option" where
  "first_located fm [] = None"
| "first_located fm (loc # locs) =
     (if Path loc = [] then first_located fm locs
      else (case Lookup fm (Path loc) of None \<Rightarrow> first_located fm locs | Some info \<Rightarrow> Some info))"

definition stamper_apply :: "FileMap option \<Rightarrow> component_data \<Rightarrow> component_data" where
  "stamper_apply fm c =
     (case CEvidence c of None \<Rightarrow> c
      | Some ev \<Rightarrow>
          if Locations ev = [] \<or> CLayerInfo c \<noteq> None then c
          else (case first_located fm (Locations ev) of None \<Rightarrow> c
             | Some info \<Rightarrow> c\<lparr>CLayerInfo := Some \<lparr>LayerDigest = InfoDigest info, LayerIndex = int (InfoIndex info),
                 DockerfileLine = [], AddedBy = CreatedBy info\<rparr>\<rparr>))"

definition applyAll :: "FileMap option \<Rightarrow> component list \<Rightarrow> component list" where
  "applyAll fm comps = walks (stamper_apply fm) comps"

record image_bundle =
  BImage :: "v1_image option"
  BRuntime :: "runtime option"
  RuntimeEvidence :: "DetectionEvidence list"

fun runtime_name :: "runtime \<Rightarrow> string" where
  "runtime_name RuntimeDocker = ''docker''"
| "runtime_name RuntimeBuildKit = ''buildkit''"
| "runtime_name RuntimePodman = ''podman''"
| "runtime_name RuntimeBuildah = ''buildah''"
| "runtime_name RuntimeKaniko = ''kaniko''"
| "runtime_name RuntimeJib = ''jib''"
| "runtime_name RuntimeKo = ''ko''"
| "runtime_name RuntimeUnknown = ''unknown''"

fun confidence_name :: "Confidence \<Rightarrow> string" where
  "confidence_name ConfidenceHigh = ''high''"
| "confidence_name ConfidenceMedium = ''medium''"
| "confidence_name ConfidenceLow = ''low''"
| "confidence_name ConfidenceNone = ''none''"

definition PropertyRuntime :: string where "PropertyRuntime = ''astinus:runtime''"
definition PropertyRuntimeEvidence :: string where "PropertyRuntimeEvidence = ''astinus:runtime:evidence''"
definition PropertyAttributionConfidence :: string where
  "PropertyAttributionConfidence = ''astinus:attribution:confidence''"
definition PropertyAttributionReason :: string where "PropertyAttributionReason = ''astinus:attribution:reason''"

lemmas attribution_keys = PropertyRuntime_def PropertyRuntimeEvidence_def PropertyAttributionConfidence_def
  PropertyAttributionReason_def

text \<open>\<open>BRuntime\<close> is \<^const>\<open>None\<close> for the empty runtime of a bundle that was not opened from a source.\<close>

definition stampRuntimeAndConfidence :: "bool option \<Rightarrow> image_bundle \<Rightarrow> SBOM \<Rightarrow> SBOM" where
  "stampRuntimeAndConfidence hasProvenance b sbom =
     (let rt = (case BRuntime b of None \<Rightarrow> RuntimeUnknown | Some r \<Rightarrow> r);
          s1 = setMeta PropertyRuntime (runtime_name rt) sbom;
          summary = EvidenceSummary (RuntimeEvidence b);
          s2 = (if summary \<noteq> [] then setMeta PropertyRuntimeEvidence summary s1 else s1)
      in case Normalize rt (BImage b) of
           Inl _ \<Rightarrow> s2
         | Inr layers \<Rightarrow>
             (let r = DetermineConfidence layers rt hasProvenance in
                setMeta PropertyAttributionReason (snd r)
                  (setMeta PropertyAttributionConfidence (confidence_name (fst r)) s2)))"

datatype attribution_error = Missing | WalkFailed layer_error

definition Enrich_attribution ::
  "(nat \<Rightarrow> string option) \<Rightarrow> bool option \<Rightarrow> SBOM option \<Rightarrow> image_bundle option \<Rightarrow> attribution_error option \<times> SBOM option"
where
  "Enrich_attribution ctx hasProvenance sbom bundle =
     (case (sbom, bundle) of
        (Some s, Some b) \<Rightarrow>
          if BImage b = None then (Some Missing, sbom)
          else (case Walk ctx (BImage b) of
              Inl err \<Rightarrow> (Some (WalkFailed err), sbom)
            | Inr fm \<Rightarrow>
                (None, Some (stampRuntimeAndConfidence hasProvenance b
                  (s\<lparr>Components := applyAll (Some fm) (Components s)\<rparr>))))
      | _ \<Rightarrow> (Some Missing, sbom))"

section \<open>Lemmas\<close>

lemma stamper_cases:
  obtains (same) "stamper_apply fm c = c"
  | (stamped) ev info where "CEvidence c = Some ev" "CLayerInfo c = None" "first_located fm (Locations ev) = Some info"
      "stamper_apply fm c = c\<lparr>CLayerInfo := Some \<lparr>LayerDigest = InfoDigest info, LayerIndex = int (InfoIndex info),
                 DockerfileLine = [], AddedBy = CreatedBy info\<rparr>\<rparr>"
proof (cases "CEvidence c")
  case None
  then show ?thesis using same by (simp add: stamper_apply_def)
next
  case (Some ev)
  show ?thesis
  proof (cases "first_located fm (Locations ev)")
    case None
    with Some show ?thesis using same by (simp add: stamper_apply_def)
  next
    case loc: (Some info)
    then have ne: "Locations ev \<noteq> []" by auto
    show ?thesis
    proof (cases "CLayerInfo c")
      case None
      from ne loc Some None show ?thesis by (intro stamped [of ev info]) (simp_all add: stamper_apply_def)
    next
      case old: (Some li)
      from Some old show ?thesis by (intro same) (simp add: stamper_apply_def)
    qed
  qed
qed

text \<open>Everything but the layer information.\<close>

definition but_layer :: "component_data \<Rightarrow> component_data" where
  "but_layer c = c\<lparr>CLayerInfo := None\<rparr>"

interpretation stamper: idempotent_step "stamper_apply fm" but_layer for fm
proof unfold_locales
  show "but_layer (stamper_apply fm d) = but_layer d" for d
    by (cases rule: stamper_cases [of fm d]) (simp_all add: but_layer_def)
  show "stamper_apply fm (stamper_apply fm d) = stamper_apply fm d" for d
  proof (cases rule: stamper_cases [of fm d])
    case (stamped ev info)
    then show ?thesis by (simp add: stamper_apply_def)
  qed simp
qed

lemma first_located_owner:
  assumes "Walk ctx (Some img) = Inr fm" "Layers img = Inr layers" "first_located (Some fm) locs = Some info"
  shows "\<exists>pre loc post. locs = pre @ loc # post \<and> owner (normalizePath (Path loc)) layers = Some (InfoIndex info) \<and>
    (\<forall>l \<in> set pre. Path l = [] \<or> owner (normalizePath (Path l)) layers = None)"
  using assms(3)
proof (induction "Some fm" locs rule: first_located.induct)
  case (2 loc locs)
  note look = Walk_Lookup [OF assms(1,2), of "Path loc"]
  show ?case
  proof (cases "Path loc = [] \<or> Lookup (Some fm) (Path loc) = None")
    case True
    with "2.prems" have "first_located (Some fm) locs = Some info" by (auto split: if_splits)
    then have "\<exists>pre l post. locs = pre @ l # post \<and> owner (normalizePath (Path l)) layers = Some (InfoIndex info) \<and>
        (\<forall>l \<in> set pre. Path l = [] \<or> owner (normalizePath (Path l)) layers = None)"
      using "2.hyps" True by (cases "Path loc = []") simp_all
    then obtain pre l post where
      "locs = pre @ l # post" "owner (normalizePath (Path l)) layers = Some (InfoIndex info)"
      "\<forall>l \<in> set pre. Path l = [] \<or> owner (normalizePath (Path l)) layers = None" by blast
    with True look show ?thesis by (intro exI [of _ "loc # pre"] exI [of _ l] exI [of _ post]) auto
  next
    case False
    with "2.prems" have "Lookup (Some fm) (Path loc) = Some info" by auto
    with look show ?thesis by (intro exI [of _ "[]"] exI [of _ loc] exI [of _ locs]) simp
  qed
qed simp

lemma first_located_None:
  assumes "Walk ctx (Some img) = Inr fm" "Layers img = Inr layers" "first_located (Some fm) locs = None" "l \<in> set locs"
  shows "Path l = [] \<or> owner (normalizePath (Path l)) layers = None"
  using assms(3,4)
proof (induction "Some fm" locs rule: first_located.induct)
  case (2 loc locs)
  then show ?case
    using Walk_Lookup [OF assms(1,2), of "Path loc"] by (auto split: if_splits option.splits)
qed simp

lemma stamp_frame:
  "Components (stampRuntimeAndConfidence hp b s) = Components s"
  by (simp add: stampRuntimeAndConfidence_def Let_def split: sum.split)

lemma setMeta_Components: "setMeta k v s\<lparr>Components := c\<rparr> = setMeta k v (s\<lparr>Components := c\<rparr>)"
  by (simp add: setMeta_def)

lemma stamp_idem:
  "stampRuntimeAndConfidence hp b (stampRuntimeAndConfidence hp b s) = stampRuntimeAndConfidence hp b s"
proof (cases "Normalize (case BRuntime b of None \<Rightarrow> RuntimeUnknown | Some r \<Rightarrow> r) (BImage b)")
  case (Inl e)
  then show ?thesis
    by (cases "EvidenceSummary (RuntimeEvidence b) = []")
       (simp_all add: stampRuntimeAndConfidence_def Let_def setMeta_same attribution_keys)
next
  case (Inr layers)
  then show ?thesis
    by (cases "EvidenceSummary (RuntimeEvidence b) = []")
       (simp_all add: stampRuntimeAndConfidence_def Let_def setMeta_same attribution_keys)
qed

lemma stamp_Components:
  "stampRuntimeAndConfidence hp b s\<lparr>Components := c\<rparr> = stampRuntimeAndConfidence hp b (s\<lparr>Components := c\<rparr>)"
  by (simp add: stampRuntimeAndConfidence_def Let_def setMeta_Components split: sum.split)

lemma Enrich_attribution_done:
  assumes "Enrich_attribution ctx hp (Some s) (Some b) = (None, Some s')"
  obtains img fm where "BImage b = Some img" "Walk ctx (Some img) = Inr fm"
    "s' = stampRuntimeAndConfidence hp b (s\<lparr>Components := applyAll (Some fm) (Components s)\<rparr>)"
  using assms by (cases "BImage b") (auto simp: Enrich_attribution_def split: sum.splits)

section \<open>Properties\<close>

text \<open>What the enricher makes of one component, given the layers of the image.\<close>

definition attributed :: "v1_layer list \<Rightarrow> component_data \<Rightarrow> component_data \<Rightarrow> bool" where
  "attributed layers c c' \<longleftrightarrow>
     but_layer c' = but_layer c \<and>
     (CLayerInfo c \<noteq> None \<longrightarrow> CLayerInfo c' = CLayerInfo c) \<and>
     (\<forall>li. CLayerInfo c = None \<and> CLayerInfo c' = Some li \<longrightarrow>
        (\<exists>ev pre loc post. CEvidence c = Some ev \<and> Locations ev = pre @ loc # post \<and> 0 \<le> LayerIndex li \<and>
           owner (normalizePath (Path loc)) layers = Some (nat (LayerIndex li)) \<and>
           (\<forall>l \<in> set pre. Path l = [] \<or> owner (normalizePath (Path l)) layers = None))) \<and>
     (\<forall>ev. CLayerInfo c' = None \<and> CEvidence c = Some ev \<longrightarrow>
        (\<forall>l \<in> set (Locations ev). Path l = [] \<or> owner (normalizePath (Path l)) layers = None))"

text \<open>
  C21.  Attribution gives every component without a layer the layer that owns the first of its
  evidence locations visible in the image, and leaves it without one only when no location is; a
  layer recorded before is kept and no other field changes, in the whole component tree.
\<close>
theorem Enrich_attribution_components:
  assumes "Enrich_attribution ctx hp (Some s) (Some b) = (None, Some s')"
    and "BImage b = Some img" "Layers img = Inr layers"
  shows "list_all2 (attributed layers) (all_components (Components s)) (all_components (Components s'))"
proof -
  from assms(1,2) obtain fm where walk: "Walk ctx (Some img) = Inr fm"
    and s': "Components s' = applyAll (Some fm) (Components s)"
    by (auto elim!: Enrich_attribution_done simp: stamp_frame)
  have "attributed layers c (stamper_apply (Some fm) c)" for c
  proof -
    have none: "Path l = [] \<or> owner (normalizePath (Path l)) layers = None"
      if "CLayerInfo (stamper_apply (Some fm) c) = None" "CEvidence c = Some ev" "l \<in> set (Locations ev)" for ev l
    proof -
      have "first_located (Some fm) (Locations ev) = None"
        using that by (auto simp: stamper_apply_def split: if_splits option.splits)
      from first_located_None [OF walk assms(3) this that(3)] show ?thesis .
    qed
    show ?thesis
    proof (cases rule: stamper_cases [of "Some fm" c])
      case same
      with none show ?thesis by (auto simp: attributed_def)
    next
      case (stamped ev info)
      from first_located_owner [OF walk assms(3) stamped(3)] stamped show ?thesis
        by (fastforce simp: attributed_def but_layer_def)
    qed
  qed
  then show ?thesis by (simp add: s' applyAll_def list_all2_map2 list_all2_same)
qed

text \<open>
  C26.  The enricher is idempotent: run again on its own result with the same image, it returns the
  same SBOM, components and metadata alike.
\<close>
theorem Enrich_attribution_idempotent:
  assumes "Enrich_attribution ctx hp (Some s) (Some b) = (None, Some s')"
  shows "Enrich_attribution ctx hp (Some s') (Some b) = (None, Some s')"
proof -
  from assms obtain img fm where fm: "BImage b = Some img" "Walk ctx (Some img) = Inr fm"
    "s' = stampRuntimeAndConfidence hp b (s\<lparr>Components := applyAll (Some fm) (Components s)\<rparr>)"
    by (rule Enrich_attribution_done)
  have "applyAll (Some fm) (Components s') = Components s'"
    unfolding fm(3) stamp_frame by (simp add: applyAll_def stamper.walk_tree_idem)
  then have "s'\<lparr>Components := applyAll (Some fm) (Components s')\<rparr> = s'" by simp
  then show ?thesis using fm(1,2) stamp_idem [of hp b] by (simp add: Enrich_attribution_def fm(3))
qed

text \<open>
  The confidence is high exactly when provenance is present; without it, medium exactly when the
  image has layers, was not built by Kaniko, does not look squashed and every layer has its
  instruction; none exactly for an image without layers; low otherwise.
\<close>
theorem DetermineConfidence_levels:
  "(fst (DetermineConfidence layers rt hp) = ConfidenceHigh \<longleftrightarrow> hp = Some True) \<and>
   (fst (DetermineConfidence layers rt hp) = ConfidenceNone \<longleftrightarrow> hp \<noteq> Some True \<and> layers = []) \<and>
   (fst (DetermineConfidence layers rt hp) = ConfidenceMedium \<longleftrightarrow>
      hp \<noteq> Some True \<and> layers \<noteq> [] \<and> rt \<noteq> RuntimeKaniko \<and> \<not> looksSquashed layers \<and>
      [] \<notin> set (map NCreatedBy layers))"
  by (auto simp: DetermineConfidence_def hasFullHistory_def image_iff) (metis (full_types))

section \<open>Witnesses\<close>

definition demo_bundle :: image_bundle where
  "demo_bundle = \<lparr>BImage = Some (image_of demo_layers), BRuntime = Some RuntimeDocker, RuntimeEvidence = []\<rparr>"

definition demo_located :: component where
  "demo_located = Component (empty_component\<lparr>Name := ''a'', CEvidence :=
     Some \<lparr>Method = ''scan'', EvConfidence = 1, Locations = [\<lparr>Path = ''/app/a'', LineNo = 0\<rparr>]\<rparr>\<rparr>) []"

definition demo_attributed :: SBOM where
  "demo_attributed = stampRuntimeAndConfidence None demo_bundle
     (empty_sbom\<lparr>Components := applyAll (Some \<lparr>Paths = [(''app/a'', 1)], FLayers = demo_infos\<rparr>) [demo_located]\<rparr>)"

lemma demo_attribution:
  "Enrich_attribution (\<lambda>_. None) None (Some (empty_sbom\<lparr>Components := [demo_located]\<rparr>)) (Some demo_bundle) =
     (None, Some demo_attributed)"
proof -
  have "BImage demo_bundle = Some (image_of demo_layers)" by (simp add: demo_bundle_def)
  then show ?thesis by (simp add: Enrich_attribution_def demo_attributed_def demo_walk)
qed

lemma demo_attributed_layer:
  "map (\<lambda>c. map_option LayerIndex (CLayerInfo c)) (all_components (Components demo_attributed)) = [Some 1]"
proof -
  have "map_option LayerIndex (CLayerInfo (stamper_apply (Some \<lparr>Paths = [(''app/a'', 1)], FLayers = demo_infos\<rparr>)
      (cdata demo_located))) = Some 1"
    by code_simp
  then show ?thesis by (simp add: demo_attributed_def stamp_frame applyAll_def) (simp add: demo_located_def)
qed

theorem Enrich_attribution_components_witness:
  "list_all2 (attributed demo_layers) (all_components [demo_located]) (all_components (Components demo_attributed))"
  using Enrich_attribution_components [OF demo_attribution, of "image_of demo_layers" demo_layers]
  by (simp add: demo_bundle_def)

theorem Enrich_attribution_idempotent_witness:
  "Enrich_attribution (\<lambda>_. None) None (Some demo_attributed) (Some demo_bundle) = (None, Some demo_attributed)"
  by (rule Enrich_attribution_idempotent [OF demo_attribution])

end
