(* ===== verification/Policy.thy ===== *)
theory Policy
  imports Model
begin

text \<open>
  The compliance policy (\<open>internal/policy\<close> and \<open>internal/policy/builtin/compliance\<close>): severities,
  findings, the severity policy with its built-in rules and operator overrides, and the four
  validators.  The YAML decoder and the file read are not modelled; the converter of the decoded
  overrides is.
\<close>

section \<open>Severities\<close>

datatype severity =
    SeverityIgnored | SeverityInfo | SeverityLow | SeverityMedium | SeverityHigh | SeverityCritical

fun severity_value :: "severity \<Rightarrow> int" where
  "severity_value SeverityIgnored = -1"
| "severity_value SeverityInfo = 0"
| "severity_value SeverityLow = 1"
| "severity_value SeverityMedium = 2"
| "severity_value SeverityHigh = 3"
| "severity_value SeverityCritical = 4"

lemma severity_value_inj: "severity_value s = severity_value t \<Longrightarrow> s = t"
  by (cases s; cases t) simp_all

instantiation severity :: linorder
begin

definition less_eq_severity :: "severity \<Rightarrow> severity \<Rightarrow> bool" where
  "less_eq_severity s t \<longleftrightarrow> severity_value s \<le> severity_value t"

definition less_severity :: "severity \<Rightarrow> severity \<Rightarrow> bool" where
  "less_severity s t \<longleftrightarrow> severity_value s < severity_value t"

instance
  by standard (auto simp: less_eq_severity_def less_severity_def severity_value_inj)

end

definition AtLeast :: "severity \<Rightarrow> severity \<Rightarrow> bool" where
  "AtLeast s t \<longleftrightarrow> t \<le> s"

fun severity_string :: "severity \<Rightarrow> string" where
  "severity_string SeverityCritical = ''critical''"
| "severity_string SeverityHigh = ''high''"
| "severity_string SeverityMedium = ''medium''"
| "severity_string SeverityLow = ''low''"
| "severity_string SeverityIgnored = ''ignored''"
| "severity_string SeverityInfo = ''info''"

definition ParseSeverity :: "string \<Rightarrow> severity \<times> bool" where
  "ParseSeverity s =
     (if s = ''critical'' then (SeverityCritical, True)
      else if s = ''high'' then (SeverityHigh, True)
      else if s = ''medium'' then (SeverityMedium, True)
      else if s = ''low'' then (SeverityLow, True)
      else if s = ''info'' \<or> s = [] then (SeverityInfo, True)
      else if s = ''ignored'' then (SeverityIgnored, True)
      else (SeverityInfo, False))"

record Finding =
  FSeverity :: severity
  RuleID :: string
  FComponent :: string
  Message :: string
  Reference :: string

section \<open>The severity policy\<close>

record SeverityRule =
  RRuleID :: string
  RComponentType :: string
  REcosystem :: string
  RSeverity :: severity
  RReason :: string

definition ecosystemFromPURL :: "string \<Rightarrow> string" where
  "ecosystemFromPURL purl =
     (if purl = [] then []
      else (case CutPrefix purl ''pkg:'' of None \<Rightarrow> []
        | Some rest \<Rightarrow>
            (case IndexAny (\<lambda>c. c \<in> set ''/@?#'') rest of
               None \<Rightarrow> ToLower rest
             | Some idx \<Rightarrow> ToLower (take idx rest))))"

definition componentContext :: "component_data option \<Rightarrow> string \<times> string" where
  "componentContext c = (case c of None \<Rightarrow> ([], []) | Some d \<Rightarrow> (CType d, ecosystemFromPURL (PURL d)))"

definition rule_matches :: "string \<Rightarrow> string \<Rightarrow> string \<Rightarrow> SeverityRule \<Rightarrow> bool" where
  "rule_matches ruleID componentType ecosystem r \<longleftrightarrow>
     RRuleID r = ruleID \<and> (RComponentType r = [] \<or> RComponentType r = componentType) \<and>
     (REcosystem r = [] \<or> REcosystem r = ecosystem)"

definition severity_step ::
  "string \<Rightarrow> string \<Rightarrow> string \<Rightarrow> severity \<times> string \<times> bool \<Rightarrow> SeverityRule \<Rightarrow> severity \<times> string \<times> bool"
where
  "severity_step ruleID componentType ecosystem st r =
     (if rule_matches ruleID componentType ecosystem r then (RSeverity r, RReason r, True) else st)"

text \<open>A policy is its rule list; \<^const>\<open>None\<close> is the nil policy.\<close>

definition policy_severity :: "SeverityRule list option \<Rightarrow> string \<Rightarrow> component_data option \<Rightarrow> severity \<times> string \<times> bool" where
  "policy_severity p ruleID c =
     (case p of None \<Rightarrow> (SeverityInfo, [], False)
      | Some rules \<Rightarrow>
          if rules = [] then (SeverityInfo, [], False)
          else (let ctx = componentContext c in
            foldl (severity_step ruleID (fst ctx) (snd ctx)) (SeverityInfo, [], False) rules))"

definition WithOverrides :: "SeverityRule list \<Rightarrow> SeverityRule list \<Rightarrow> SeverityRule list" where
  "WithOverrides rules overrides = rules @ overrides"

abbreviation rule :: "string \<Rightarrow> string \<Rightarrow> string \<Rightarrow> severity \<Rightarrow> string \<Rightarrow> SeverityRule" where
  "rule i t e s r \<equiv> \<lparr>RRuleID = i, RComponentType = t, REcosystem = e, RSeverity = s, RReason = r\<rparr>"

definition ntiaSupplierRules :: "SeverityRule list" where
  "ntiaSupplierRules =
     [rule ''NTIA-SUPPLIER'' [] [] SeverityMedium ''default for unknown ecosystem'',
      rule ''NTIA-SUPPLIER'' ComponentTypeFile [] SeverityIgnored ''files have no NTIA-supplier semantics'',
      rule ''NTIA-SUPPLIER'' [] ''npm'' SeverityInfo ''npm packages: registry publisher info available via enrichment'',
      rule ''NTIA-SUPPLIER'' [] ''pypi'' SeverityInfo ''PyPI: supplier derivable via enrichment'',
      rule ''NTIA-SUPPLIER'' [] ''deb'' SeverityInfo ''Debian packages: supplier=Debian Project (auto-derivable)'',
      rule ''NTIA-SUPPLIER'' [] ''rpm'' SeverityInfo ''RPM packages: supplier=distro publisher (auto-derivable)'',
      rule ''NTIA-SUPPLIER'' [] ''apk'' SeverityInfo ''Alpine packages: supplier=Alpine Linux (auto-derivable)'',
      rule ''NTIA-SUPPLIER'' [] ''maven'' SeverityLow ''Maven groupId provides supplier indication'',
      rule ''NTIA-SUPPLIER'' [] ''cargo'' SeverityLow [],
      rule ''NTIA-SUPPLIER'' [] ''gem'' SeverityLow [],
      rule ''NTIA-SUPPLIER'' [] ''nuget'' SeverityLow [],
      rule ''NTIA-SUPPLIER'' [] ''golang'' SeverityMedium ''Go modules: supplier from VCS host (github.com/X)'',
      rule ''NTIA-SUPPLIER'' ComponentTypeApplication [] SeverityHigh ''applications must have a known supplier'']"

definition ntiaVersionRules :: "SeverityRule list" where
  "ntiaVersionRules =
     [rule ''NTIA-VERSION'' [] [] SeverityHigh ''missing version blocks vulnerability scanning'',
      rule ''NTIA-VERSION'' ComponentTypeFile [] SeverityIgnored ''files have no version semantics'',
      rule ''NTIA-VERSION'' ComponentTypeApplication [] SeverityCritical ''applications without version are unscannable'']"

definition ntiaIdentifierRules :: "SeverityRule list" where
  "ntiaIdentifierRules =
     [rule ''NTIA-IDENTIFIER'' [] [] SeverityHigh ''components without PURL/CPE/SWID cannot be vulnerability-scanned'',
      rule ''NTIA-IDENTIFIER'' ComponentTypeFile [] SeverityIgnored (''files don'' @ [char_of (39 :: nat)] @ ''t carry PURL/CPE identifiers'')]"

definition ntiaMiscRules :: "SeverityRule list" where
  "ntiaMiscRules =
     [rule ''NTIA-NAME'' [] [] SeverityCritical ''Component lacks name (structural)'',
      rule ''NTIA-METADATA-AUTHOR'' [] [] SeverityHigh ''SBOM lacks author metadata'',
      rule ''NTIA-METADATA-TIMESTAMP'' [] [] SeverityHigh ''SBOM lacks timestamp'',
      rule ''NTIA-RELATIONSHIPS'' [] [] SeverityMedium ''large SBOM with no recorded relationships'']"

text \<open>The dashes and section signs of the messages are UTF-8.\<close>

abbreviation em_dash :: string where "em_dash \<equiv> [char_of (226 :: nat), char_of (128 :: nat), char_of (148 :: nat)]"
abbreviation section_sign :: string where "section_sign \<equiv> [char_of (194 :: nat), char_of (167 :: nat)]"

definition spdxRules :: "SeverityRule list" where
  "spdxRules =
     [rule ''SPDX-LICENSE-NOASSERTION'' [] [] SeverityLow (''license missing '' @ em_dash @ '' registry enrichment can resolve''),
      rule ''SPDX-LICENSE-NOASSERTION'' ComponentTypeFile [] SeverityIgnored ''files have no license semantics'',
      rule ''SPDX-DOWNLOAD-LOCATION-NOASSERTION'' [] [] SeverityLow ''download location missing'',
      rule ''SPDX-DOWNLOAD-LOCATION-NOASSERTION'' ComponentTypeFile [] SeverityIgnored [],
      rule ''SPDX-PACKAGE-NAME-MISSING'' [] [] SeverityCritical ''SPDX package without name (structural)'',
      rule ''SPDX-EMPTY-PACKAGES'' [] [] SeverityHigh ''SPDX SBOM has no packages'']"

definition euCRARules :: "SeverityRule list" where
  "euCRARules =
     [rule ''EU-CRA-ART13-VULN-HANDLING'' [] [] SeverityMedium ''no authoritative vuln handling signal in SBOM'',
      rule ''EU-CRA-ART13-LICENSE'' [] [] SeverityLow ''major-framework license metadata missing'',
      rule ''EU-CRA-ART13-LICENSE'' ComponentTypeFile [] SeverityIgnored []]"

definition defaultRules :: "SeverityRule list" where
  "defaultRules = ntiaSupplierRules @ ntiaVersionRules @ ntiaIdentifierRules @ ntiaMiscRules @ spdxRules @ euCRARules"

definition DefaultSeverityPolicy :: "SeverityRule list" where
  "DefaultSeverityPolicy = defaultRules"

subsection \<open>Operator overrides\<close>

record severityOverride =
  ORuleID :: string
  OComponentType :: string
  OEcosystem :: string
  OSeverity :: string
  OReason :: string

datatype override_error = RuleIDRequired nat | UnknownSeverity nat string

definition defaultIfEmpty :: "string \<Rightarrow> string \<Rightarrow> string" where
  "defaultIfEmpty s fallback = (if s = [] then fallback else s)"

fun convert_from :: "nat \<Rightarrow> severityOverride list \<Rightarrow> override_error + SeverityRule list" where
  "convert_from i [] = Inr []"
| "convert_from i (v # vs) =
     (if ORuleID v = [] then Inl (RuleIDRequired i)
      else if \<not> snd (ParseSeverity (OSeverity v)) then Inl (UnknownSeverity i (OSeverity v))
      else (case convert_from (Suc i) vs of
          Inl err \<Rightarrow> Inl err
        | Inr rs \<Rightarrow> Inr (rule (ORuleID v) (OComponentType v) (OEcosystem v) (fst (ParseSeverity (OSeverity v)))
            (defaultIfEmpty (OReason v) ''operator override via --compliance-config'') # rs)))"

definition convertOverrides :: "severityOverride list \<Rightarrow> override_error + SeverityRule list" where
  "convertOverrides vs = convert_from 0 vs"

text \<open>What \<open>LoadSeverityPolicyFromBytes\<close> does once the YAML has been decoded.\<close>

definition load_policy :: "severityOverride list \<Rightarrow> override_error + SeverityRule list" where
  "load_policy vs =
     (case convertOverrides vs of Inl err \<Rightarrow> Inl err | Inr os \<Rightarrow> Inr (WithOverrides DefaultSeverityPolicy os))"

section \<open>The validators\<close>

definition componentLabel :: "component_data \<Rightarrow> string" where
  "componentLabel c = (if Name c \<noteq> [] then Name c else if BOMRef c \<noteq> [] then BOMRef c else ''<unnamed>'')"

abbreviation finding :: "severity \<Rightarrow> string \<Rightarrow> string \<Rightarrow> string \<Rightarrow> string \<Rightarrow> Finding" where
  "finding s r c m f \<equiv> \<lparr>FSeverity = s, RuleID = r, FComponent = c, Message = m, Reference = f\<rparr>"

subsection \<open>NTIA minimum elements\<close>

definition hasSBOMAuthor :: "Metadata \<Rightarrow> bool" where
  "hasSBOMAuthor m \<longleftrightarrow> Authors m \<noteq> [] \<or> (\<exists>t \<in> set (Tools m). ToolName t \<noteq> [])"

definition metadata_findings :: "SBOM \<Rightarrow> Finding list" where
  "metadata_findings sbom =
     (if \<not> hasSBOMAuthor (SMetadata sbom) then
        [finding SeverityHigh ''NTIA-METADATA-AUTHOR'' [] ''SBOM lacks author metadata''
           ''NTIA Minimum Element 6: Author of SBOM Data''] else []) @
     (if Timestamp (SMetadata sbom) = None then
        [finding SeverityHigh ''NTIA-METADATA-TIMESTAMP'' [] ''SBOM lacks timestamp''
           ''NTIA Minimum Element 7: Timestamp''] else [])"

definition checkComponent :: "component_data \<Rightarrow> Finding list" where
  "checkComponent c =
     (if Name c = [] then [finding SeverityCritical ''NTIA-NAME'' (BOMRef c) ''Component lacks name''
        ''NTIA Minimum Element 2: Component Name''] else []) @
     (if Version c = [] then [finding SeverityHigh ''NTIA-VERSION'' (BOMRef c)
        (''Component '' @ Quote (componentLabel c) @ '' lacks version'') ''NTIA Minimum Element 3: Component Version''] else []) @
     (if Supplier c = [] \<and> Author c = [] then [finding SeverityMedium ''NTIA-SUPPLIER'' (BOMRef c)
        (''Component '' @ Quote (componentLabel c) @ '' lacks supplier and author'') ''NTIA Minimum Element 1: Supplier Name''] else []) @
     (if PURL c = [] \<and> CPEs c = [] then [finding SeverityMedium ''NTIA-IDENTIFIER'' (BOMRef c)
        (''Component '' @ Quote (componentLabel c) @ '' has no unique identifier (PURL/CPE)'')
        ''NTIA Minimum Element 4: Other Unique Identifiers''] else [])"

fun ntia_component :: "component \<Rightarrow> Finding list" where
  "ntia_component (Component d subs) =
     (if CType d = ComponentTypeFile then [] else checkComponent d @ concat (map ntia_component subs))"

definition relationship_finding :: "SBOM \<Rightarrow> Finding list" where
  "relationship_finding sbom =
     (if 10 \<le> length (Components sbom) \<and> Relationships sbom = [] then
        [finding SeverityMedium ''NTIA-RELATIONSHIPS'' []
           (''SBOM has '' @ nat_digits (length (Components sbom)) @ '' components but no recorded relationships'')
           ''NTIA Minimum Element 5: Dependency Relationship''] else [])"

definition NTIA_Validate :: "SBOM \<Rightarrow> string + Finding list" where
  "NTIA_Validate sbom =
     Inr (metadata_findings sbom @ concat (map ntia_component (Components sbom)) @ relationship_finding sbom)"

subsection \<open>EU Cyber Resilience Act\<close>

definition isMajorFramework :: "component_data \<Rightarrow> bool" where
  "isMajorFramework c \<longleftrightarrow>
     PURL c \<noteq> [] \<and> (CType c = ComponentTypeFramework \<or> CType c = ComponentTypeApplication) \<and>
     (HasPrefix (PURL c) ''pkg:maven/'' \<or> HasPrefix (PURL c) ''pkg:helm/'' \<or>
      HasPrefix (PURL c) ''pkg:pypi/'' \<or> HasPrefix (PURL c) ''pkg:npm/'')"

definition handles_vulnerabilities :: "component_data \<Rightarrow> bool" where
  "handles_vulnerabilities c \<longleftrightarrow>
     mval (Properties c) ''astinus:references:vuln-disclosure'' \<noteq> [] \<or>
     mval (Properties c) ''astinus:cpe:source'' = ''nvd-api'' \<or>
     mval (Properties c) ''astinus:cpe:source'' = ''clearly-defined''"

definition sbomHasVulnerabilityHandling :: "SBOM \<Rightarrow> bool" where
  "sbomHasVulnerabilityHandling sbom \<longleftrightarrow> (\<exists>c \<in> set (all_components (Components sbom)). handles_vulnerabilities c)"

fun cra_component :: "component \<Rightarrow> Finding list" where
  "cra_component (Component d subs) =
     (if CType d = ComponentTypeFile then []
      else (if isMajorFramework d \<and> Licenses d = [] then
              [finding SeverityLow ''EU-CRA-ART13-LICENSE'' (BOMRef d)
                 (''Major-framework Component '' @ Quote (componentLabel d) @ '' lacks license metadata'')
                 (''EU CRA Annex I '' @ section_sign @ ''3 (lifecycle / redistribution clarity)'')] else []) @
           concat (map cra_component subs))"

definition EUCRA_Validate :: "SBOM \<Rightarrow> string + Finding list" where
  "EUCRA_Validate sbom =
     Inr ((if \<not> sbomHasVulnerabilityHandling sbom then
             [finding SeverityMedium ''EU-CRA-ART13-VULN-HANDLING'' []
                ''SBOM lacks any vulnerability-handling reference (no authoritative CPE source, no vuln-disclosure URL on any component)''
                (''EU CRA Annex I '' @ section_sign @ ''2 (b)'')] else []) @
          concat (map cra_component (Components sbom)))"

subsection \<open>CycloneDX structure\<close>

definition isRecognisedComponentType :: "string \<Rightarrow> bool" where
  "isRecognisedComponentType t \<longleftrightarrow>
     t \<in> set [ComponentTypeApplication, ComponentTypeContainer, ComponentTypeDevice, ComponentTypeFile,
       ComponentTypeFirmware, ComponentTypeFramework, ComponentTypeLibrary, ComponentTypeOS,
       ComponentTypePlatform, ComponentTypeUnknown]"

fun cdx_component :: "component \<Rightarrow> Finding list" where
  "cdx_component (Component d subs) =
     (if Name d = [] then [finding SeverityCritical ''CDX-COMPONENT-NAME-MISSING'' (BOMRef d)
        ''Component lacks required `name`'' ''CycloneDX 1.6 schema $.components[].name''] else []) @
     (if \<not> isRecognisedComponentType (CType d) then [finding SeverityHigh ''CDX-COMPONENT-TYPE-INVALID'' (BOMRef d)
        (''Component '' @ Quote (componentLabel d) @ '' has unrecognised type '' @ Quote (CType d))
        ''CycloneDX 1.6 schema $.components[].type''] else []) @
     concat (map cdx_component subs)"

fun bomref_duplicates :: "string set \<Rightarrow> component_data list \<Rightarrow> Finding list" where
  "bomref_duplicates seen [] = []"
| "bomref_duplicates seen (c # cs) =
     (if BOMRef c = [] then bomref_duplicates seen cs
      else if BOMRef c \<in> seen then
        finding SeverityHigh ''CDX-BOMREF-DUPLICATE'' (BOMRef c)
          (''Duplicate bom-ref '' @ Quote (BOMRef c) @ '' across components'') ''CycloneDX 1.6 schema bom-ref uniqueness''
        # bomref_duplicates seen cs
      else bomref_duplicates (insert (BOMRef c) seen) cs)"

definition CycloneDX_Validate :: "SBOM \<Rightarrow> string + Finding list" where
  "CycloneDX_Validate sbom =
     Inr ((if Components sbom = [] then [finding SeverityHigh ''CDX-EMPTY-COMPONENTS'' []
             (''CycloneDX SBOM has no components '' @ em_dash @ '' useless to downstream consumers'')
             ''CycloneDX 1.6 schema $.components''] else []) @
          concat (map cdx_component (Components sbom)) @
          bomref_duplicates {} (all_components (Components sbom)))"

subsection \<open>SPDX structure\<close>

fun spdx_component :: "component \<Rightarrow> Finding list" where
  "spdx_component (Component d subs) =
     (if Name d = [] then [finding SeverityCritical ''SPDX-PACKAGE-NAME-MISSING'' (BOMRef d)
        ''SPDX package lacks required `name`'' (''SPDX 2.3 '' @ section_sign @ ''7.1'')] else []) @
     (if PURL d = [] then [finding SeverityLow ''SPDX-DOWNLOAD-LOCATION-NOASSERTION'' (BOMRef d)
        (''Component '' @ Quote (componentLabel d) @ '' has no PURL '' @ em_dash @ '' SPDX downloadLocation defaults to NOASSERTION'')
        (''SPDX 2.3 '' @ section_sign @ ''7.7'')] else []) @
     (if Licenses d = [] then [finding SeverityLow ''SPDX-LICENSE-NOASSERTION'' (BOMRef d)
        (''Component '' @ Quote (componentLabel d) @ '' has no license metadata '' @ em_dash @ '' SPDX licenseConcluded defaults to NOASSERTION'')
        (''SPDX 2.3 '' @ section_sign @ ''7.13'')] else []) @
     concat (map spdx_component subs)"

definition SPDX_Validate :: "SBOM \<Rightarrow> string + Finding list" where
  "SPDX_Validate sbom =
     Inr ((if Components sbom = [] then [finding SeverityHigh ''SPDX-EMPTY-PACKAGES'' [] ''SPDX document has no packages''
             (''SPDX 2.3 '' @ section_sign @ ''7'')] else []) @
          concat (map spdx_component (Components sbom)))"

section \<open>Lemmas on the policy\<close>

lemma severity_fold:
  "foldl (severity_step r t e) st rules =
     (case List.find (rule_matches r t e) (rev rules) of
        None \<Rightarrow> st
      | Some x \<Rightarrow> (RSeverity x, RReason x, True))"
  by (induction rules rule: rev_induct) (simp_all add: severity_step_def)

lemma policy_severity_last:
  "policy_severity (Some rules) r c =
     (case List.find (rule_matches r (fst (componentContext c)) (snd (componentContext c))) (rev rules) of
        None \<Rightarrow> (SeverityInfo, [], False)
      | Some x \<Rightarrow> (RSeverity x, RReason x, True))"
  by (simp add: policy_severity_def Let_def severity_fold)

lemma find_append: "List.find P (xs @ ys) = (case List.find P xs of None \<Rightarrow> List.find P ys | Some x \<Rightarrow> Some x)"
  by (induction xs) auto

section \<open>What the validators look at\<close>

text \<open>
  The compliance stamps live under one property prefix.  \<open>strip\<close> removes them; a validator that gives
  the same answer on the stripped SBOM does not see its own stamps.
\<close>

definition compliance_prefix :: string where "compliance_prefix = ''astinus:compliance:''"

definition strip_props :: "props \<Rightarrow> props" where
  "strip_props m = filter (\<lambda>kv. \<not> HasPrefix (fst kv) compliance_prefix) m"

definition strip :: "component_data \<Rightarrow> component_data" where
  "strip c = c\<lparr>Properties := strip_props (Properties c)\<rparr>"

definition strip_sbom :: "SBOM \<Rightarrow> SBOM" where
  "strip_sbom s = s\<lparr>Components := walks strip (Components s),
     SMetadata := (SMetadata s)\<lparr>MProperties := strip_props (MProperties (SMetadata s))\<rparr>\<rparr>"

lemma strip_frame [simp]:
  "Name (strip c) = Name c" "BOMRef (strip c) = BOMRef c" "CType (strip c) = CType c" "Version (strip c) = Version c"
  "Supplier (strip c) = Supplier c" "Author (strip c) = Author c" "PURL (strip c) = PURL c" "CPEs (strip c) = CPEs c"
  "Licenses (strip c) = Licenses c" "Properties (strip c) = strip_props (Properties c)"
  by (simp_all add: strip_def)

lemma strip_props_put: "HasPrefix k compliance_prefix \<Longrightarrow> strip_props (mput k v m) = strip_props m"
  by (induction m) (auto simp: strip_props_def)

lemma strip_setProp: "HasPrefix k compliance_prefix \<Longrightarrow> strip (setProp k v c) = strip c"
  by (simp add: strip_def setProp_def strip_props_put)

lemma strip_setMeta: "HasPrefix k compliance_prefix \<Longrightarrow> strip_sbom (setMeta k v s) = strip_sbom s"
  by (simp add: strip_sbom_def setMeta_def strip_props_put)

lemma mval_strip: "\<not> HasPrefix k compliance_prefix \<Longrightarrow> mval (strip_props m) k = mval m k"
  by (simp add: mval_def strip_props_def mget_filter_keys [of "\<lambda>k. \<not> HasPrefix k compliance_prefix"])

text \<open>The interface between the compliance enricher and a validator.\<close>

locale blind_validator =
  fixes validate :: "SBOM \<Rightarrow> string + Finding list"
  assumes blind: "validate (strip_sbom s) = validate s"
begin

lemma same_view: "strip_sbom s = strip_sbom s' \<Longrightarrow> validate s = validate s'"
  by (metis blind)

end

lemma componentLabel_strip [simp]: "componentLabel (strip c) = componentLabel c"
  by (simp add: componentLabel_def)

lemma step_strip [simp]:
  "checkComponent (strip c) = checkComponent c" "isMajorFramework (strip c) = isMajorFramework c"
  by (simp_all add: checkComponent_def isMajorFramework_def)

lemma walk_component_findings:
  "ntia_component (walk strip c) = ntia_component c" "cra_component (walk strip c) = cra_component c"
  "cdx_component (walk strip c) = cdx_component c" "spdx_component (walk strip c) = spdx_component c"
proof (induction c)
  case (Component d subs)
  {
    case 1
    have "map (ntia_component \<circ> walk strip) subs = map ntia_component subs" using Component(1) by simp
    then show ?case by (simp del: map_eq_conv)
  next
    case 2
    have "map (cra_component \<circ> walk strip) subs = map cra_component subs" using Component(2) by simp
    then show ?case by (simp del: map_eq_conv)
  next
    case 3
    have "map (cdx_component \<circ> walk strip) subs = map cdx_component subs" using Component(3) by simp
    then show ?case by (simp del: map_eq_conv)
  next
    case 4
    have "map (spdx_component \<circ> walk strip) subs = map spdx_component subs" using Component(4) by simp
    then show ?case by (simp del: map_eq_conv)
  }
qed

lemma walks_findings:
  "map (ntia_component \<circ> walk strip) cs = map ntia_component cs" "map (cra_component \<circ> walk strip) cs = map cra_component cs"
  "map (cdx_component \<circ> walk strip) cs = map cdx_component cs" "map (spdx_component \<circ> walk strip) cs = map spdx_component cs"
  by (simp_all add: walk_component_findings)

lemma duplicates_strip: "bomref_duplicates seen (map strip cs) = bomref_duplicates seen cs"
  by (induction cs arbitrary: seen) simp_all

lemma strip_sbom_sel [simp]:
  "Components (strip_sbom s) = walks strip (Components s)" "Relationships (strip_sbom s) = Relationships s"
  "Authors (SMetadata (strip_sbom s)) = Authors (SMetadata s)" "Tools (SMetadata (strip_sbom s)) = Tools (SMetadata s)"
  "Timestamp (SMetadata (strip_sbom s)) = Timestamp (SMetadata s)"
  by (simp_all add: strip_sbom_def)

interpretation ntia: blind_validator NTIA_Validate
  by unfold_locales
     (simp add: NTIA_Validate_def metadata_findings_def hasSBOMAuthor_def relationship_finding_def walks_findings del: map_eq_conv)

interpretation cra: blind_validator EUCRA_Validate
proof unfold_locales
  fix s
  have "handles_vulnerabilities (strip c) = handles_vulnerabilities c" for c
    by (simp add: handles_vulnerabilities_def mval_strip compliance_prefix_def)
  then show "EUCRA_Validate (strip_sbom s) = EUCRA_Validate s"
    by (simp add: EUCRA_Validate_def sbomHasVulnerabilityHandling_def walks_findings del: map_eq_conv)
qed

interpretation cdx: blind_validator CycloneDX_Validate
  by unfold_locales (simp add: CycloneDX_Validate_def walks_findings duplicates_strip del: map_eq_conv)

interpretation spdx: blind_validator SPDX_Validate
  by unfold_locales (simp add: SPDX_Validate_def walks_findings del: map_eq_conv)

section \<open>When a validator has nothing to report\<close>

text \<open>The components a validator that skips file components visits: below a file it sees nothing.\<close>

fun outside_files :: "component \<Rightarrow> component_data list" where
  "outside_files (Component d subs) = (if CType d = ComponentTypeFile then [] else d # concat (map outside_files subs))"

definition identified :: "component_data \<Rightarrow> bool" where
  "identified c \<longleftrightarrow> Name c \<noteq> [] \<and> Version c \<noteq> [] \<and> (Supplier c \<noteq> [] \<or> Author c \<noteq> []) \<and> (PURL c \<noteq> [] \<or> CPEs c \<noteq> [])"

lemma checkComponent_empty: "checkComponent c = [] \<longleftrightarrow> identified c"
  by (simp add: checkComponent_def identified_def)

lemma ntia_component_empty: "ntia_component c = [] \<longleftrightarrow> (\<forall>d \<in> set (outside_files c). identified d)"
  by (induction c) (auto simp: checkComponent_empty)

lemma cdx_component_empty:
  "cdx_component c = [] \<longleftrightarrow> (\<forall>d \<in> set (flatten c). Name d \<noteq> [] \<and> isRecognisedComponentType (CType d))"
  by (induction c) auto

lemma bomref_duplicates_empty:
  "bomref_duplicates seen cs = [] \<longleftrightarrow>
     distinct (filter (\<lambda>r. r \<noteq> []) (map BOMRef cs)) \<and> (\<forall>c \<in> set cs. BOMRef c \<noteq> [] \<longrightarrow> BOMRef c \<notin> seen)"
  by (induction seen cs rule: bomref_duplicates.induct) (auto, (metis image_eqI)+)

section \<open>Properties\<close>

text \<open>
  C35.  The severity of a finding is decided by the last rule that matches, so an operator override
  that matches beats every built-in rule, and where none matches the built-in decision stands.
\<close>
theorem severity_last_match:
  "policy_severity (Some (WithOverrides rules overrides)) r c =
     (if snd (snd (policy_severity (Some overrides) r c)) then policy_severity (Some overrides) r c
      else policy_severity (Some rules) r c)"
  by (simp add: policy_severity_last WithOverrides_def find_append split: option.split)

text \<open>
  The severity names and the parser are inverse to each other, and the names are the only ones
  it accepts besides the empty string, which means informational.
\<close>
theorem ParseSeverity_roundtrip:
  "ParseSeverity (severity_string s) = (s, True) \<and>
   (snd (ParseSeverity str) \<longleftrightarrow> str = [] \<or> (\<exists>t. str = severity_string t \<and> fst (ParseSeverity str) = t))"
proof
  show "ParseSeverity (severity_string s) = (s, True)" by (cases s) (simp_all add: ParseSeverity_def)
  have "ParseSeverity (severity_string t) = (t, True)" for t by (cases t) (simp_all add: ParseSeverity_def)
  then show "snd (ParseSeverity str) \<longleftrightarrow> str = [] \<or> (\<exists>t. str = severity_string t \<and> fst (ParseSeverity str) = t)"
    by (auto simp: ParseSeverity_def)
qed

text \<open>
  The NTIA validator reports nothing exactly when the SBOM names an author or tool, has a
  timestamp, records relationships once it has ten components, and every component outside file
  components has a name, a version, a supplier or author, and a PURL or CPE.
\<close>
theorem NTIA_clean_iff:
  "NTIA_Validate sbom = Inr [] \<longleftrightarrow>
     hasSBOMAuthor (SMetadata sbom) \<and> Timestamp (SMetadata sbom) \<noteq> None \<and>
     \<not> (10 \<le> length (Components sbom) \<and> Relationships sbom = []) \<and>
     list_all (\<lambda>c. Name c \<noteq> [] \<and> Version c \<noteq> [] \<and>
         \<not> (Supplier c = [] \<and> Author c = []) \<and> \<not> (PURL c = [] \<and> CPEs c = []))
       (concat (map outside_files (Components sbom)))"
  by (auto simp: list_all_iff NTIA_Validate_def metadata_findings_def relationship_finding_def ntia_component_empty identified_def)

text \<open>
  The CycloneDX validator reports nothing exactly when there is a component, every component of
  the tree has a name and a known type, and no two components share a non-empty BOM reference.
\<close>
theorem CycloneDX_clean_iff:
  "CycloneDX_Validate sbom = Inr [] \<longleftrightarrow>
     Components sbom \<noteq> [] \<and>
     list_all (\<lambda>c. Name c \<noteq> [] \<and> isRecognisedComponentType (CType c)) (all_components (Components sbom)) \<and>
     distinct (filter (\<lambda>r. r \<noteq> []) (map BOMRef (all_components (Components sbom))))"
  by (auto simp: list_all_iff CycloneDX_Validate_def cdx_component_empty bomref_duplicates_empty all_components_def)

text \<open>A file component with an npm PURL gets the npm severity: the later rule wins over the file rule.\<close>

lemma file_with_purl_not_ignored:
  "policy_severity (Some DefaultSeverityPolicy) ''NTIA-SUPPLIER''
     (Some (empty_component\<lparr>CType := ComponentTypeFile, PURL := ''pkg:npm/a@1''\<rparr>)) =
   (SeverityInfo, ''npm packages: registry publisher info available via enrichment'', True)"
  by code_simp

end
