(* ===== verification/Compliance.thy ===== *)
theory Compliance
  imports Policy
begin

text \<open>
  The compliance enricher (\<open>internal/enrich/compliance/enricher.go\<close>): it runs the validators, applies
  the severity policy to their findings, and stamps statuses and counters on the metadata and the
  findings on the components they name.  A pointer to a component found by its BOM reference is the
  first match of the depth-first search, which the update rewrites in place.
\<close>

section \<open>Model\<close>

record validator =
  VName :: string
  Validate :: "SBOM \<Rightarrow> string + Finding list"

record compliance =
  Validators :: "validator list"
  PolicyRules :: "SeverityRule list option"

definition New :: compliance where
  "New = \<lparr>Validators =
     [\<lparr>VName = ''ntia-minimum-elements'', Validate = NTIA_Validate\<rparr>,
      \<lparr>VName = ''eu-cra-article-13'', Validate = EUCRA_Validate\<rparr>,
      \<lparr>VName = ''cyclonedx-structural'', Validate = CycloneDX_Validate\<rparr>,
      \<lparr>VName = ''spdx-structural'', Validate = SPDX_Validate\<rparr>],
     PolicyRules = Some DefaultSeverityPolicy\<rparr>"

definition WithSeverityPolicy :: "SeverityRule list option \<Rightarrow> compliance \<Rightarrow> compliance" where
  "WithSeverityPolicy p e = (if p \<noteq> None then e\<lparr>PolicyRules := p\<rparr> else e)"

fun find_in :: "string \<Rightarrow> component \<Rightarrow> component_data option"
  and findComponentByBOMRef :: "string \<Rightarrow> component list \<Rightarrow> component_data option"
where
  "find_in ref (Component d subs) = (if BOMRef d = ref then Some d else findComponentByBOMRef ref subs)"
| "findComponentByBOMRef ref [] = None"
| "findComponentByBOMRef ref (c # cs) =
     (case find_in ref c of Some d \<Rightarrow> Some d | None \<Rightarrow> findComponentByBOMRef ref cs)"

fun update_in :: "string \<Rightarrow> (component_data \<Rightarrow> component_data) \<Rightarrow> component \<Rightarrow> bool \<times> component"
  and update_ref :: "string \<Rightarrow> (component_data \<Rightarrow> component_data) \<Rightarrow> component list \<Rightarrow> bool \<times> component list"
where
  "update_in ref f (Component d subs) =
     (if BOMRef d = ref then (True, Component (f d) subs)
      else (let r = update_ref ref f subs in (fst r, Component d (snd r))))"
| "update_ref ref f [] = (False, [])"
| "update_ref ref f (c # cs) =
     (let r = update_in ref f c in
        if fst r then (True, snd r # cs)
        else (let q = update_ref ref f cs in (fst q, snd r # snd q)))"

definition componentForFinding :: "SBOM \<Rightarrow> Finding \<Rightarrow> component_data option" where
  "componentForFinding sbom f =
     (if FComponent f = [] then None else findComponentByBOMRef (FComponent f) (Components sbom))"

definition apply_one :: "SeverityRule list option \<Rightarrow> SBOM \<Rightarrow> Finding \<Rightarrow> Finding option" where
  "apply_one p sbom f =
     (let r = policy_severity p (RuleID f) (componentForFinding sbom f) in
        if snd (snd r) \<and> fst r = SeverityIgnored then None
        else if snd (snd r) then Some (f\<lparr>FSeverity := fst r\<rparr>)
        else Some f)"

definition applyPolicyToValidatorSlice :: "SeverityRule list option \<Rightarrow> SBOM \<Rightarrow> Finding list \<Rightarrow> Finding list" where
  "applyPolicyToValidatorSlice p sbom findings =
     (if p = None then findings else List.map_filter (apply_one p sbom) findings)"

definition applyPolicy :: "compliance \<Rightarrow> SBOM \<Rightarrow> Finding list \<Rightarrow> Finding list \<times> nat" where
  "applyPolicy e sbom raw =
     (if PolicyRules e = None then (raw, 0)
      else (List.map_filter (apply_one (PolicyRules e) sbom) raw,
            length (filter (\<lambda>f. apply_one (PolicyRules e) sbom f = None) raw)))"

definition countSeverity :: "Finding list \<Rightarrow> severity \<Rightarrow> nat" where
  "countSeverity findings s = length (filter (\<lambda>f. FSeverity f = s) findings)"

definition countActionable :: "Finding list \<Rightarrow> nat" where
  "countActionable findings = length (filter (\<lambda>f. AtLeast (FSeverity f) SeverityMedium) findings)"

definition statusFor :: "Finding list \<Rightarrow> string" where
  "statusFor findings =
     (if findings = [] then ''passed''
      else if \<exists>f \<in> set findings. AtLeast (FSeverity f) SeverityHigh then ''failed''
      else ''passed-with-warnings'')"

definition status_key :: "string \<Rightarrow> string" where
  "status_key name = ''astinus:compliance:'' @ name @ '':status''"

definition stampStatuses :: "(string \<times> string) list \<Rightarrow> SBOM \<Rightarrow> SBOM" where
  "stampStatuses statuses sbom = foldl (\<lambda>s kv. setMeta (status_key (fst kv)) (snd kv) s) sbom statuses"

definition stampCounts :: "Finding list \<Rightarrow> SBOM \<Rightarrow> SBOM" where
  "stampCounts all sbom =
     foldl (\<lambda>s kv. setMeta (''astinus:compliance:'' @ fst kv) (nat_digits (snd kv)) s) sbom
       [(''findings-count'', length all), (''actionable-findings-count'', countActionable all),
        (''critical-count'', countSeverity all SeverityCritical), (''high-count'', countSeverity all SeverityHigh),
        (''medium-count'', countSeverity all SeverityMedium), (''low-count'', countSeverity all SeverityLow),
        (''info-count'', countSeverity all SeverityInfo)]"

definition stampMetadata_compliance :: "(string \<times> string) list \<Rightarrow> Finding list \<Rightarrow> SBOM \<Rightarrow> SBOM" where
  "stampMetadata_compliance statuses all sbom = stampCounts all (stampStatuses statuses sbom)"

definition stamp_finding :: "SBOM \<Rightarrow> Finding \<Rightarrow> SBOM" where
  "stamp_finding sbom f =
     (if FComponent f = [] then sbom
      else sbom\<lparr>Components := snd (update_ref (FComponent f)
        (setProp (''astinus:compliance:finding:'' @ RuleID f) (severity_string (FSeverity f))) (Components sbom))\<rparr>)"

definition stampPerComponent :: "Finding list \<Rightarrow> SBOM \<Rightarrow> SBOM" where
  "stampPerComponent findings sbom = foldl stamp_finding sbom findings"

text \<open>The runs map: a validator's findings, or \<^const>\<open>None\<close> when it could not run.\<close>

definition run_validators :: "compliance \<Rightarrow> SBOM \<Rightarrow> Finding list \<times> Finding list option gomap" where
  "run_validators e sbom =
     foldl (\<lambda>st v. case Validate v sbom of
         Inl err \<Rightarrow> (fst st, mput (VName v) None (snd st))
       | Inr fs \<Rightarrow> (fst st @ fs, mput (VName v) (Some fs) (snd st))) ([], []) (Validators e)"

definition statuses_of :: "compliance \<Rightarrow> SBOM \<Rightarrow> (string \<times> string) list" where
  "statuses_of e sbom =
     map (\<lambda>kv. (fst kv, case snd kv of None \<Rightarrow> ''errored''
       | Some fs \<Rightarrow> statusFor (applyPolicyToValidatorSlice (PolicyRules e) sbom fs))) (snd (run_validators e sbom))"

definition Enrich_compliance :: "compliance \<Rightarrow> SBOM option \<Rightarrow> string option \<times> SBOM option" where
  "Enrich_compliance e sbom =
     (case sbom of None \<Rightarrow> (Some ''compliance: nil sbom'', None)
      | Some s \<Rightarrow>
          (let all = fst (applyPolicy e s (fst (run_validators e s))) in
             (None, Some (stampPerComponent all (stampMetadata_compliance (statuses_of e s) all s)))))"

definition Findings :: "compliance \<Rightarrow> SBOM \<Rightarrow> Finding list" where
  "Findings e sbom =
     fst (applyPolicy e sbom (concat (map (\<lambda>v. case Validate v sbom of Inl _ \<Rightarrow> [] | Inr fs \<Rightarrow> fs) (Validators e))))"

section \<open>Lemmas\<close>

lemma run_validators_raw:
  "fst (run_validators e s) = concat (map (\<lambda>v. case Validate v s of Inl _ \<Rightarrow> [] | Inr fs \<Rightarrow> fs) (Validators e))"
proof -
  have "fst (foldl (\<lambda>st v. case Validate v s of
         Inl err \<Rightarrow> (fst st, mput (VName v) None (snd st))
       | Inr fs \<Rightarrow> (fst st @ fs, mput (VName v) (Some fs) (snd st))) st vs) =
    fst st @ concat (map (\<lambda>v. case Validate v s of Inl _ \<Rightarrow> [] | Inr fs \<Rightarrow> fs) vs)" for st vs
    by (induction vs arbitrary: st) (auto split: sum.split)
  from this [of "([], [])" "Validators e"] show ?thesis by (simp add: run_validators_def)
qed

lemma find_strip:
  "find_in ref (walk strip c) = map_option strip (find_in ref c)"
  "findComponentByBOMRef ref (walks strip cs) = map_option strip (findComponentByBOMRef ref cs)"
  by (induction ref c and ref cs rule: find_in_findComponentByBOMRef.induct) (auto split: option.split)

lemma update_strip:
  "\<forall>d. strip (f d) = strip d \<Longrightarrow> walk strip (snd (update_in ref f c)) = walk strip c"
  "\<forall>d. strip (f d) = strip d \<Longrightarrow> walks strip (snd (update_ref ref f cs)) = walks strip cs"
  by (induction ref f c and ref f cs rule: update_in_update_ref.induct) (auto simp: Let_def)

lemma strip_stamp_finding: "strip_sbom (stamp_finding s f) = strip_sbom s"
proof -
  have "strip (setProp (''astinus:compliance:finding:'' @ r) v d) = strip d" for r v d
    by (rule strip_setProp) (simp add: compliance_prefix_def)
  then have "walks strip (snd (update_ref ref (setProp (''astinus:compliance:finding:'' @ r) v) cs)) = walks strip cs"
    for ref r v cs by (intro update_strip(2) allI)
  then show ?thesis by (simp add: stamp_finding_def strip_sbom_def)
qed

lemma strip_stamps:
  "strip_sbom (stampPerComponent fs s) = strip_sbom s"
  "strip_sbom (stampMetadata_compliance sts all s) = strip_sbom s"
proof -
  show "strip_sbom (stampPerComponent fs s) = strip_sbom s"
    unfolding stampPerComponent_def
    by (rule list_fold_invariant [where I = "\<lambda>x. strip_sbom x = strip_sbom s"]) (simp_all add: strip_stamp_finding)
  have "strip_sbom (stampStatuses sts s) = strip_sbom s"
    unfolding stampStatuses_def
    by (rule list_fold_invariant [where I = "\<lambda>x. strip_sbom x = strip_sbom s"])
       (simp_all add: strip_setMeta status_key_def compliance_prefix_def)
  moreover have "strip_sbom (stampCounts all x) = strip_sbom x" for x
    by (simp add: stampCounts_def strip_setMeta compliance_prefix_def)
  ultimately show "strip_sbom (stampMetadata_compliance sts all s) = strip_sbom s"
    by (simp add: stampMetadata_compliance_def)
qed

lemma policy_strip: "policy_severity p r (map_option strip c) = policy_severity p r c"
proof -
  have "componentContext (map_option strip c) = componentContext c" by (cases c) (simp_all add: componentContext_def)
  then show ?thesis unfolding policy_severity_def by (simp only:)
qed

lemma apply_one_view:
  assumes "strip_sbom s = strip_sbom s'"
  shows "apply_one p s f = apply_one p s' f"
proof -
  from assms have "walks strip (Components s) = walks strip (Components s')"
    by (metis strip_sbom_sel(1))
  then have "map_option strip (findComponentByBOMRef ref (Components s)) =
      map_option strip (findComponentByBOMRef ref (Components s'))" for ref
    by (metis find_strip(2))
  then have "map_option strip (componentForFinding s f) = map_option strip (componentForFinding s' f)"
    by (simp add: componentForFinding_def)
  then have "policy_severity p (RuleID f) (componentForFinding s f) = policy_severity p (RuleID f) (componentForFinding s' f)"
    by (metis policy_strip)
  then show ?thesis by (simp add: apply_one_def)
qed

text \<open>An enricher all of whose validators overlook the compliance stamps.\<close>

definition blind :: "compliance \<Rightarrow> bool" where
  "blind e \<longleftrightarrow> (\<forall>v \<in> set (Validators e). \<forall>s. Validate v (strip_sbom s) = Validate v s)"

lemma blind_New: "blind (WithSeverityPolicy p New)"
  by (simp add: blind_def New_def WithSeverityPolicy_def ntia.blind cra.blind cdx.blind spdx.blind)

lemma Findings_view:
  assumes "blind e" "strip_sbom s = strip_sbom s'"
  shows "Findings e s = Findings e s'"
proof -
  have "Validate v s = Validate v s'" if "v \<in> set (Validators e)" for v
    using assms that unfolding blind_def by metis
  then have "map (\<lambda>v. case Validate v s of Inl _ \<Rightarrow> [] | Inr fs \<Rightarrow> fs) (Validators e) =
      map (\<lambda>v. case Validate v s' of Inl _ \<Rightarrow> [] | Inr fs \<Rightarrow> fs) (Validators e)"
    by simp
  moreover have "apply_one (PolicyRules e) s = apply_one (PolicyRules e) s'"
    using apply_one_view [OF assms(2)] by blast
  ultimately show ?thesis by (simp add: Findings_def applyPolicy_def del: map_eq_conv)
qed

lemma Enrich_compliance_Some:
  "Enrich_compliance e (Some s) =
     (None, Some (stampPerComponent (Findings e s) (stampMetadata_compliance (statuses_of e s) (Findings e s) s)))"
  by (simp add: Enrich_compliance_def run_validators_raw Findings_def Let_def)

lemma stampPerComponent_meta: "SMetadata (stampPerComponent fs s) = SMetadata s"
  unfolding stampPerComponent_def
  by (rule list_fold_invariant [where I = "\<lambda>x. SMetadata x = SMetadata s"]) (simp_all add: stamp_finding_def)

lemma count_partition:
  assumes "\<forall>f \<in> set fs. FSeverity f \<noteq> SeverityIgnored"
  shows "length fs = countActionable fs + countSeverity fs SeverityLow + countSeverity fs SeverityInfo"
    and "countActionable fs = countSeverity fs SeverityCritical + countSeverity fs SeverityHigh + countSeverity fs SeverityMedium"
proof -
  show "countActionable fs = countSeverity fs SeverityCritical + countSeverity fs SeverityHigh + countSeverity fs SeverityMedium"
  proof (induction fs)
    case (Cons f fs)
    then show ?case
      by (cases "FSeverity f") (simp_all add: countActionable_def countSeverity_def AtLeast_def less_eq_severity_def)
  qed (simp add: countActionable_def countSeverity_def)
  show "length fs = countActionable fs + countSeverity fs SeverityLow + countSeverity fs SeverityInfo"
    using assms
  proof (induction fs)
    case (Cons f fs)
    then show ?case
      by (cases "FSeverity f") (simp_all add: countActionable_def countSeverity_def AtLeast_def less_eq_severity_def)
  qed (simp add: countActionable_def countSeverity_def)
qed

lemma find_update:
  "\<forall>d. BOMRef (f d) = BOMRef d \<Longrightarrow> find_in ref' (snd (update_in ref f c)) =
     (if ref' = ref then map_option f (find_in ref c) else find_in ref' c)"
  "\<forall>d. BOMRef (f d) = BOMRef d \<Longrightarrow> findComponentByBOMRef ref' (snd (update_ref ref f cs)) =
     (if ref' = ref then map_option f (findComponentByBOMRef ref cs) else findComponentByBOMRef ref' cs)"
proof -
  have "fst (update_in ref f c) \<longleftrightarrow> find_in ref c \<noteq> None"
    and "fst (update_ref ref f cs) \<longleftrightarrow> findComponentByBOMRef ref cs \<noteq> None" for ref f c cs
    by (induction ref f c and ref f cs rule: update_in_update_ref.induct) (auto simp: Let_def split: option.split)
  note found = this
  show "\<forall>d. BOMRef (f d) = BOMRef d \<Longrightarrow> find_in ref' (snd (update_in ref f c)) =
     (if ref' = ref then map_option f (find_in ref c) else find_in ref' c)"
    and "\<forall>d. BOMRef (f d) = BOMRef d \<Longrightarrow> findComponentByBOMRef ref' (snd (update_ref ref f cs)) =
     (if ref' = ref then map_option f (findComponentByBOMRef ref cs) else findComponentByBOMRef ref' cs)"
    by (induction ref f c and ref f cs rule: update_in_update_ref.induct)
       (auto simp: Let_def found split: option.split)
qed

lemma find_Nil_ref: "find_in ref c = Some d \<Longrightarrow> BOMRef d = ref" "findComponentByBOMRef ref cs = Some d \<Longrightarrow> BOMRef d = ref"
  by (induction ref c and ref cs rule: find_in_findComponentByBOMRef.induct) (auto split: if_splits option.splits)

abbreviation finding_key :: "string \<Rightarrow> string" where "finding_key r \<equiv> ''astinus:compliance:finding:'' @ r"

lemma stamped_findings:
  assumes "ref \<noteq> []"
  shows "map_option (\<lambda>d. mget (Properties d) (finding_key r)) (findComponentByBOMRef ref (Components (stampPerComponent fs s))) =
    map_option (\<lambda>d. case filter (\<lambda>f. FComponent f = ref \<and> RuleID f = r) fs of
        [] \<Rightarrow> mget (Properties d) (finding_key r)
      | x # xs \<Rightarrow> Some (severity_string (FSeverity (last (x # xs))))) (findComponentByBOMRef ref (Components s))"
proof (induction fs rule: rev_induct)
  case Nil
  then show ?case by (simp add: stampPerComponent_def)
next
  case (snoc f fs)
  let ?s = "stampPerComponent fs s"
  have step: "findComponentByBOMRef ref (Components (stampPerComponent (fs @ [f]) s)) =
      (if FComponent f = ref then map_option (setProp (finding_key (RuleID f)) (severity_string (FSeverity f)))
         (findComponentByBOMRef ref (Components ?s))
       else findComponentByBOMRef ref (Components ?s))"
  proof -
    have "\<forall>d. BOMRef (setProp k v d) = BOMRef d" for k v by (simp add: setProp_def)
    from find_update(2) [OF this, of ref] assms show ?thesis
      by (auto simp: stampPerComponent_def stamp_finding_def)
  qed
  show ?case
  proof (cases "findComponentByBOMRef ref (Components s)")
    case None
    with snoc have "findComponentByBOMRef ref (Components ?s) = None" by simp
    with None step show ?thesis by simp
  next
    case (Some d)
    with snoc obtain d' where d': "findComponentByBOMRef ref (Components ?s) = Some d'"
      "mget (Properties d') (finding_key r) = (case filter (\<lambda>f. FComponent f = ref \<and> RuleID f = r) fs of
        [] \<Rightarrow> mget (Properties d) (finding_key r)
      | x # xs \<Rightarrow> Some (severity_string (FSeverity (last (x # xs)))))"
      by auto
    show ?thesis
    proof (cases "FComponent f = ref \<and> RuleID f = r")
      case True
      then have "filter (\<lambda>f. FComponent f = ref \<and> RuleID f = r) (fs @ [f]) =
          filter (\<lambda>f. FComponent f = ref \<and> RuleID f = r) fs @ [f]" by simp
      then show ?thesis using True d' Some step
        by (cases "filter (\<lambda>f. FComponent f = ref \<and> RuleID f = r) fs") (simp_all add: setProp_def)
    next
      case False
      then have same: "filter (\<lambda>f. FComponent f = ref \<and> RuleID f = r) (fs @ [f]) =
          filter (\<lambda>f. FComponent f = ref \<and> RuleID f = r) fs" by auto
      show ?thesis
      proof (cases "FComponent f = ref")
        case True
        with False have "RuleID f \<noteq> r" by blast
        with True d' Some step same show ?thesis by (simp add: setProp_def)
      next
        case other: False
        then have "findComponentByBOMRef ref (Components (stampPerComponent (fs @ [f]) s)) = Some d'"
          using step d' by simp
        with d'(2) Some same show ?thesis by simp
      qed
    qed
  qed
qed

text \<open>No built-in validator reports an ignored finding of its own.\<close>

lemma builtin_severities:
  "f \<in> set (ntia_component c) \<Longrightarrow> FSeverity f \<noteq> SeverityIgnored"
  "f \<in> set (cra_component c) \<Longrightarrow> FSeverity f \<noteq> SeverityIgnored"
  "f \<in> set (cdx_component c) \<Longrightarrow> FSeverity f \<noteq> SeverityIgnored"
  "f \<in> set (spdx_component c) \<Longrightarrow> FSeverity f \<noteq> SeverityIgnored"
  "f \<in> set (bomref_duplicates seen ds) \<Longrightarrow> FSeverity f \<noteq> SeverityIgnored"
proof -
  show "f \<in> set (ntia_component c) \<Longrightarrow> FSeverity f \<noteq> SeverityIgnored"
    by (induction c) (auto simp: checkComponent_def split: if_splits)
  show "f \<in> set (cra_component c) \<Longrightarrow> FSeverity f \<noteq> SeverityIgnored"
    by (induction c) (auto split: if_splits)
  show "f \<in> set (cdx_component c) \<Longrightarrow> FSeverity f \<noteq> SeverityIgnored"
    by (induction c) (auto split: if_splits)
  show "f \<in> set (spdx_component c) \<Longrightarrow> FSeverity f \<noteq> SeverityIgnored"
    by (induction c) (auto split: if_splits)
  show "f \<in> set (bomref_duplicates seen ds) \<Longrightarrow> FSeverity f \<noteq> SeverityIgnored"
    by (induction seen ds rule: bomref_duplicates.induct) (auto split: if_splits)
qed

lemma raw_New:
  assumes "v \<in> set (Validators New)" "Validate v s = Inr fs" "f \<in> set fs"
  shows "FSeverity f \<noteq> SeverityIgnored"
  using assms
  by (auto simp: New_def NTIA_Validate_def EUCRA_Validate_def CycloneDX_Validate_def SPDX_Validate_def
      metadata_findings_def relationship_finding_def builtin_severities split: if_splits)

lemma Findings_New:
  assumes "f \<in> set (Findings (WithSeverityPolicy p New) s)"
  shows "FSeverity f \<noteq> SeverityIgnored"
proof -
  let ?e = "WithSeverityPolicy p New"
  let ?raw = "concat (map (\<lambda>v. case Validate v s of Inl _ \<Rightarrow> [] | Inr fs \<Rightarrow> fs) (Validators ?e))"
  have raw: "FSeverity g \<noteq> SeverityIgnored" if "g \<in> set ?raw" for g
  proof -
    from that obtain v where "v \<in> set (Validators ?e)" "g \<in> set (case Validate v s of Inl _ \<Rightarrow> [] | Inr fs \<Rightarrow> fs)" by auto
    moreover have "Validators ?e = Validators New" by (simp add: WithSeverityPolicy_def)
    ultimately show ?thesis using raw_New [of v s _ g] by (cases "Validate v s") auto
  qed
  have one: "FSeverity f' \<noteq> SeverityIgnored" if "apply_one q s g = Some f'" "g \<in> set ?raw" for q g f'
    using that raw by (auto simp: apply_one_def Let_def split: if_splits)
  from assms show ?thesis
    using raw one by (fastforce simp: Findings_def applyPolicy_def map_filter_def split: if_splits)
qed

section \<open>Properties\<close>

lemma stamped_meta:
  "metaProp (stampPerComponent fs (stampMetadata_compliance sts all s)) k = metaProp (stampMetadata_compliance sts all s) k"
  by (simp add: metaProp_def stampPerComponent_meta)

text \<open>
  The enricher writes nothing but its own stamps, and the findings it stamped are the findings the
  \<open>--fail-on\<close> gate computes from the SBOM it leaves: the validators do not see the stamps.
\<close>
theorem compliance_gate_stable:
  "\<exists>s'. Enrich_compliance (WithSeverityPolicy p New) (Some s) = (None, Some s') \<and> strip_sbom s' = strip_sbom s \<and>
     Findings (WithSeverityPolicy p New) s' = Findings (WithSeverityPolicy p New) s"
proof (intro exI conjI)
  let ?e = "WithSeverityPolicy p New"
  let ?s = "stampPerComponent (Findings ?e s) (stampMetadata_compliance (statuses_of ?e s) (Findings ?e s) s)"
  show "Enrich_compliance ?e (Some s) = (None, Some ?s)" by (rule Enrich_compliance_Some)
  show "strip_sbom ?s = strip_sbom s" by (simp add: strip_stamps)
  then show "Findings ?e ?s = Findings ?e s" by (rule Findings_view [OF blind_New])
qed

text \<open>
  The counters stamped on the metadata are those of the findings kept: the total is the sum of the
  five severities, the actionable count the sum of critical, high and medium; ignored findings are in
  none of them.
\<close>
theorem compliance_counts:
  assumes "Enrich_compliance (WithSeverityPolicy p New) (Some s) = (None, Some s')"
    and "fs = Findings (WithSeverityPolicy p New) s"
  shows "metaProp s' ''astinus:compliance:findings-count'' = Some (nat_digits (length fs)) \<and>
    metaProp s' ''astinus:compliance:actionable-findings-count'' = Some (nat_digits (countActionable fs)) \<and>
    metaProp s' ''astinus:compliance:critical-count'' = Some (nat_digits (countSeverity fs SeverityCritical)) \<and>
    metaProp s' ''astinus:compliance:info-count'' = Some (nat_digits (countSeverity fs SeverityInfo)) \<and>
    countActionable fs = countSeverity fs SeverityCritical + countSeverity fs SeverityHigh + countSeverity fs SeverityMedium \<and>
    length fs = countActionable fs + countSeverity fs SeverityLow + countSeverity fs SeverityInfo"
proof -
  have s': "s' = stampPerComponent fs (stampMetadata_compliance (statuses_of (WithSeverityPolicy p New) s) fs s)"
    using assms by (simp add: Enrich_compliance_Some)
  have none: "\<forall>f \<in> set fs. FSeverity f \<noteq> SeverityIgnored" using Findings_New assms(2) by blast
  show ?thesis unfolding s' stamped_meta
    using count_partition [OF none] by (simp add: stampMetadata_compliance_def stampCounts_def)
qed

text \<open>
  Every component a finding names carries, for each rule, the severity of the last finding of
  that rule about it; the first component with the reference in depth-first order is the one stamped.
\<close>
theorem compliance_component_stamps:
  assumes "Enrich_compliance e (Some s) = (None, Some s')" "findComponentByBOMRef ref (Components s) = Some d"
    and "ref \<noteq> []" "f \<in> set (Findings e s)" "FComponent f = ref" "RuleID f = r"
  shows "\<exists>d'. findComponentByBOMRef ref (Components s') = Some d' \<and>
    mget (Properties d') (finding_key r) =
      Some (severity_string (FSeverity (last (filter (\<lambda>f. FComponent f = ref \<and> RuleID f = r) (Findings e s)))))"
proof -
  let ?t = "stampMetadata_compliance (statuses_of e s) (Findings e s) s"
  have s': "s' = stampPerComponent (Findings e s) ?t" using assms(1) by (simp add: Enrich_compliance_Some)
  have "Components ?t = Components s"
  proof -
    have "Components (stampStatuses sts x) = Components x" for sts x
      unfolding stampStatuses_def
      by (rule list_fold_invariant [where I = "\<lambda>y. Components y = Components x"]) simp_all
    then show ?thesis by (simp add: stampMetadata_compliance_def stampCounts_def)
  qed
  with stamped_findings [OF assms(3), of r "Findings e s" ?t] assms(2)
  have stamped: "map_option (\<lambda>d. mget (Properties d) (finding_key r)) (findComponentByBOMRef ref (Components s')) =
    Some (case filter (\<lambda>f. FComponent f = ref \<and> RuleID f = r) (Findings e s) of
        [] \<Rightarrow> mget (Properties d) (finding_key r)
      | x # xs \<Rightarrow> Some (severity_string (FSeverity (last (x # xs)))))"
    by (simp add: s')
  have "f \<in> set (filter (\<lambda>f. FComponent f = ref \<and> RuleID f = r) (Findings e s))" using assms(4-6) by simp
  then obtain x xs where "filter (\<lambda>f. FComponent f = ref \<and> RuleID f = r) (Findings e s) = x # xs"
    by (cases "filter (\<lambda>f. FComponent f = ref \<and> RuleID f = r) (Findings e s)") auto
  with stamped show ?thesis by auto
qed

section \<open>Witnesses\<close>

definition demo_unversioned :: SBOM where
  "demo_unversioned = empty_sbom\<lparr>Components := [Component (empty_component\<lparr>BOMRef := ''r1'', Name := ''app'',
     CType := ComponentTypeApplication\<rparr>) []]\<rparr>"

theorem compliance_counts_witness:
  "\<exists>s' :: SBOM. metaProp s' ''astinus:compliance:findings-count'' = Some ''8''"
proof -
  obtain s' where s': "Enrich_compliance (WithSeverityPolicy None New) (Some demo_unversioned) = (None, Some s')"
    using Enrich_compliance_Some by blast
  have "length (Findings (WithSeverityPolicy None New) demo_unversioned) = 8" by code_simp
  moreover have "nat_digits 8 = ''8''" by code_simp
  ultimately show ?thesis using compliance_counts [OF s' refl] by auto
qed

theorem compliance_component_stamps_witness:
  "\<exists>(s' :: SBOM) d'. findComponentByBOMRef ''r1'' (Components s') = Some d' \<and>
     mget (Properties d') (finding_key ''NTIA-VERSION'') = Some ''critical''"
proof -
  let ?e = "WithSeverityPolicy None New"
  let ?f = "finding SeverityCritical ''NTIA-VERSION'' ''r1'' (''Component '' @ Quote ''app'' @ '' lacks version'')
      ''NTIA Minimum Element 3: Component Version''"
  obtain s' where s': "Enrich_compliance ?e (Some demo_unversioned) = (None, Some s')"
    using Enrich_compliance_Some by blast
  have found: "findComponentByBOMRef ''r1'' (Components demo_unversioned) = Some
      (empty_component\<lparr>BOMRef := ''r1'', Name := ''app'', CType := ComponentTypeApplication\<rparr>)"
    by (simp add: demo_unversioned_def)
  have mem: "?f \<in> set (Findings ?e demo_unversioned)" by code_simp
  have last: "filter (\<lambda>f. FComponent f = ''r1'' \<and> RuleID f = ''NTIA-VERSION'') (Findings ?e demo_unversioned) = [?f]"
    by code_simp
  from compliance_component_stamps [OF s' found _ mem, of "''NTIA-VERSION''"]
  have "\<exists>d'. findComponentByBOMRef ''r1'' (Components s') = Some d' \<and>
     mget (Properties d') (finding_key ''NTIA-VERSION'') = Some ''critical''" by (simp add: last)
  then show ?thesis by (rule exI [of _ s'])
qed

end
