(* ===== verification/Cpe.thy ===== *)
theory Cpe
  imports Model
begin

text \<open>
  CPE identifiers and their resolvers (\<open>internal/enrich/cpe\<close>): the CPE 2.3 syntax, the PURL parser,
  candidates with their classification and deduplication, and the bundled, local, heuristic and
  chained resolvers.  A resolver is a function from parsed PURLs to candidates; confidences are
  rationals.  The percent decoding and the query parser of Go's \<open>net/url\<close> are written out.
\<close>

section \<open>CPE 2.3 identifiers\<close>

record CPEv23 =
  Part :: string
  Vendor :: string
  Product :: string
  CVersion :: string
  Update :: string
  Edition :: string
  Language :: string
  SwEdition :: string
  TargetSw :: string
  TargetHw :: string
  Other :: string

definition orStar :: "string \<Rightarrow> string" where
  "orStar s = (if s = [] then ''*'' else s)"

definition cpe_attributes :: "CPEv23 \<Rightarrow> string list" where
  "cpe_attributes c = [Part c, Vendor c, Product c, CVersion c, Update c, Edition c, Language c,
     SwEdition c, TargetSw c, TargetHw c, Other c]"

definition CPE_String :: "CPEv23 \<Rightarrow> string" where
  "CPE_String c = Join '':'' ([''cpe'', ''2.3''] @ map orStar (cpe_attributes c))"

text \<open>
  The regular expression asks for the two fixed fields, a one-letter part and ten further fields
  without a colon.
\<close>

definition IsValidCPE :: "string \<Rightarrow> bool" where
  "IsValidCPE s \<longleftrightarrow>
     (let parts = SplitC (CHR '':'') s in
        length parts = 13 \<and> parts ! 0 = ''cpe'' \<and> parts ! 1 = ''2.3'' \<and> parts ! 2 \<in> set [''a'', ''o'', ''h'', ''*''])"

definition Parse :: "string \<Rightarrow> CPEv23 option" where
  "Parse s =
     (if \<not> IsValidCPE s then None
      else (let parts = SplitC (CHR '':'') s in
        Some \<lparr>Part = parts ! 2, Vendor = parts ! 3, Product = parts ! 4, CVersion = parts ! 5,
          Update = parts ! 6, Edition = parts ! 7, Language = parts ! 8, SwEdition = parts ! 9,
          TargetSw = parts ! 10, TargetHw = parts ! 11, Other = parts ! 12\<rparr>))"

definition Build :: "string \<Rightarrow> string \<Rightarrow> string \<Rightarrow> string" where
  "Build vendor product version =
     CPE_String \<lparr>Part = ''a'', Vendor = ToLower vendor, Product = ToLower product, CVersion = orStar version,
       Update = [], Edition = [], Language = [], SwEdition = [], TargetSw = [], TargetHw = [], Other = []\<rparr>"

section \<open>Package URLs\<close>

record PURL_parts =
  PType :: string
  Namespace :: string
  PName :: string
  PVersion :: string
  Qualifiers :: props
  Subpath :: string

definition unhex :: "char \<Rightarrow> nat option" where
  "unhex c =
     (let n = (of_char c :: nat) in
        if 48 \<le> n \<and> n \<le> 57 then Some (n - 48)
        else if 97 \<le> n \<and> n \<le> 102 then Some (n - 87)
        else if 65 \<le> n \<and> n \<le> 70 then Some (n - 55)
        else None)"

text \<open>\<open>url.PathUnescape\<close> and, with the flag set, \<open>url.QueryUnescape\<close>.\<close>

fun unescape :: "bool \<Rightarrow> string \<Rightarrow> string option" where
  "unescape query [] = Some []"
| "unescape query (c # cs) =
     (if c = CHR ''%'' then
        (case cs of
           a # b # rest \<Rightarrow>
             (case (unhex a, unhex b) of
                (Some hi, Some lo) \<Rightarrow> map_option (\<lambda>t. char_of (16 * hi + lo) # t) (unescape query rest)
              | _ \<Rightarrow> None)
         | _ \<Rightarrow> None)
      else map_option (\<lambda>t. (if query \<and> c = CHR ''+'' then CHR '' '' else c) # t) (unescape query cs))"

text \<open>
  \<open>url.ParseQuery\<close> with the values of a key reduced to the first one, which is all the parser looks
  at; \<^const>\<open>None\<close> when some pair is malformed, in which case the caller drops the whole query.
\<close>

definition cut_at :: "char \<Rightarrow> string \<Rightarrow> string \<times> string" where
  "cut_at c s = (case IndexByte s c of None \<Rightarrow> (s, []) | Some i \<Rightarrow> (take i s, drop (Suc i) s))"

fun parse_pairs :: "string list \<Rightarrow> props option" where
  "parse_pairs [] = Some []"
| "parse_pairs (kv # kvs) =
     (if kv = [] then parse_pairs kvs
      else if CHR '';'' \<in> set kv then None
      else (case (unescape True (fst (cut_at (CHR ''='') kv)), unescape True (snd (cut_at (CHR ''='') kv)), parse_pairs kvs) of
          (Some k, Some v, Some m) \<Rightarrow> Some (mput k v m)
        | _ \<Rightarrow> None))"

definition ParseQuery :: "string \<Rightarrow> props option" where
  "ParseQuery s = parse_pairs (SplitC (CHR ''&'') s)"

definition decodeSegment :: "string \<Rightarrow> string" where
  "decodeSegment s = (case unescape False s of Some d \<Rightarrow> d | None \<Rightarrow> s)"

definition cut_last :: "char \<Rightarrow> string \<Rightarrow> string \<times> string option" where
  "cut_last c s = (case LastIndexByte s c of None \<Rightarrow> (s, None) | Some i \<Rightarrow> (take i s, Some (drop (Suc i) s)))"

definition cut_first :: "char \<Rightarrow> string \<Rightarrow> string \<times> string option" where
  "cut_first c s = (case IndexByte s c of None \<Rightarrow> (s, None) | Some i \<Rightarrow> (take i s, Some (drop (Suc i) s)))"

datatype purl_error = EmptyPURL | MissingPrefix string | MissingSeparator string | MissingName string

definition ParsePURL :: "string \<Rightarrow> purl_error + PURL_parts" where
  "ParsePURL s =
     (if s = [] then Inl EmptyPURL
      else (case CutPrefix s ''pkg:'' of None \<Rightarrow> Inl (MissingPrefix s)
        | Some rest0 \<Rightarrow>
          (let sub = cut_last (CHR ''#'') rest0;
               qual = cut_last (CHR ''?'') (fst sub);
               ver = cut_first (CHR ''@'') (fst qual);
               typ = cut_first (CHR ''/'') (fst ver)
           in case snd typ of None \<Rightarrow> Inl (MissingSeparator s)
              | Some path \<Rightarrow>
                  (let segs = SplitC (CHR ''/'') path in
                     if last segs = [] then Inl (MissingName s)
                     else Inr
                       \<lparr>PType = ToLower (fst typ),
                        Namespace = Join ''/'' (map decodeSegment (butlast segs)),
                        PName = decodeSegment (last segs),
                        PVersion = (case snd ver of None \<Rightarrow> [] | Some v \<Rightarrow> v),
                        Qualifiers = (case snd qual of None \<Rightarrow> []
                          | Some q \<Rightarrow> (case ParseQuery q of None \<Rightarrow> [] | Some m \<Rightarrow> m)),
                        Subpath = (case snd sub of None \<Rightarrow> [] | Some v \<Rightarrow> v)\<rparr>))))"

definition PURL_String :: "PURL_parts \<Rightarrow> string" where
  "PURL_String p =
     ''pkg:'' @ PType p @ (if Namespace p \<noteq> [] then ''/'' @ Namespace p else []) @ ''/'' @ PName p @
     (if PVersion p \<noteq> [] then ''@'' @ PVersion p else [])"

section \<open>Candidates\<close>

record MatchDetails =
  VendorMatch :: string
  ProductMatch :: string
  VersionMatch :: string
  SearchMethod :: string

record Candidate =
  CPE :: string
  Confidence :: rat
  Source :: string
  CEvidenceNote :: string
  RejectedReason :: string
  Details :: MatchDetails

definition no_details :: MatchDetails where
  "no_details = \<lparr>VendorMatch = [], ProductMatch = [], VersionMatch = [], SearchMethod = []\<rparr>"

definition SourceBundled :: string where "SourceBundled = ''bundled''"
definition SourceHeuristic :: string where "SourceHeuristic = ''heuristic''"
definition SourceLocalDict :: string where "SourceLocalDict = ''local-dictionary''"
definition SourceInput :: string where "SourceInput = ''input''"

definition ConfidenceHigh :: rat where "ConfidenceHigh = 95 / 100"
definition ConfidenceMedium :: rat where "ConfidenceMedium = 70 / 100"
definition ConfidenceLow :: rat where "ConfidenceLow = 50 / 100"
definition ConfidenceWeak :: rat where "ConfidenceWeak = 30 / 100"
definition ConfidenceReject :: rat where "ConfidenceReject = 5 / 100"

lemmas confidences = ConfidenceHigh_def ConfidenceMedium_def ConfidenceLow_def ConfidenceWeak_def ConfidenceReject_def

record Threshold =
  PrimaryMin :: rat
  AlternativeMin :: rat

definition DefaultThreshold :: Threshold where
  "DefaultThreshold = \<lparr>PrimaryMin = 70 / 100, AlternativeMin = 50 / 100\<rparr>"

definition with_reason :: "Threshold \<Rightarrow> Candidate \<Rightarrow> Candidate" where
  "with_reason t c =
     (if RejectedReason c = [] then
        c\<lparr>RejectedReason := ''confidence '' @ fmt_2f (Confidence c) @ '' below threshold '' @ fmt_2f (AlternativeMin t)\<rparr>
      else c)"

definition classify_step ::
  "Threshold \<Rightarrow> Candidate option \<times> Candidate list \<times> Candidate list \<Rightarrow> Candidate \<Rightarrow>
   Candidate option \<times> Candidate list \<times> Candidate list"
where
  "classify_step t st c =
     (if fst st = None \<and> PrimaryMin t \<le> Confidence c then (Some c, snd st)
      else if AlternativeMin t \<le> Confidence c then (fst st, fst (snd st) @ [c], snd (snd st))
      else (fst st, fst (snd st), snd (snd st) @ [with_reason t c]))"

definition Classify :: "Candidate list \<Rightarrow> Threshold \<Rightarrow> Candidate option \<times> Candidate list \<times> Candidate list" where
  "Classify cands t = foldl (classify_step t) (None, [], []) (sort_desc Confidence cands)"

definition mergeSources :: "string list \<Rightarrow> string" where
  "mergeSources set_list = Join ''+'' (sort (remdups set_list))"

text \<open>The index maps a CPE to its position in the output and the set of its sources.\<close>

definition dedupe_step ::
  "Candidate list \<times> (nat \<times> string list) gomap \<Rightarrow> Candidate \<Rightarrow> Candidate list \<times> (nat \<times> string list) gomap"
where
  "dedupe_step st c =
     (case mget (snd st) (CPE c) of
        None \<Rightarrow> (fst st @ [c], mput (CPE c) (length (fst st), [Source c]) (snd st))
      | Some (i, sources) \<Rightarrow>
          (if Confidence (fst st ! i) < Confidence c then (fst st)[i := c] else fst st,
           mput (CPE c) (i, List.insert (Source c) sources) (snd st)))"

definition DedupeCandidates :: "Candidate list \<Rightarrow> Candidate list" where
  "DedupeCandidates cands =
     (if length cands \<le> 1 then cands
      else (let st = foldl dedupe_step ([], []) cands in
        foldl (\<lambda>out kv. let i = fst (snd kv); sources = snd (snd kv) in
            if 1 < length sources then out[i := (out ! i)\<lparr>Source := mergeSources sources\<rparr>] else out)
          (fst st) (snd st)))"

section \<open>Resolvers\<close>

type_synonym resolver = "PURL_parts \<Rightarrow> Candidate list"

definition versionMatchKind :: "string \<Rightarrow> string" where
  "versionMatchKind version = (if version = [] then ''wildcard'' else ''exact'')"

record bundledEntry =
  PurlType :: string
  PurlNamespace :: string
  PurlName :: string
  BVendor :: string
  BProduct :: string

definition bundledKey :: "string \<Rightarrow> string \<Rightarrow> string \<Rightarrow> string" where
  "bundledKey purlType namespace name = ToLower purlType @ ''|'' @ ToLower namespace @ ''|'' @ ToLower name"

text \<open>The dictionary is the list of entries decoded from the embedded file, or \<^const>\<open>None\<close> when that failed.\<close>

definition Load_index :: "bundledEntry list \<Rightarrow> bundledEntry gomap" where
  "Load_index es = foldl (\<lambda>m e. mput (bundledKey (PurlType e) (PurlNamespace e) (PurlName e)) e m) [] es"

definition Dict_Lookup :: "bundledEntry list option \<Rightarrow> string \<Rightarrow> string \<Rightarrow> string \<Rightarrow> bundledEntry option" where
  "Dict_Lookup d purlType namespace name =
     (case d of None \<Rightarrow> None | Some es \<Rightarrow> mget (Load_index es) (bundledKey purlType namespace name))"

definition BundledResolver :: "bundledEntry list option \<Rightarrow> resolver" where
  "BundledResolver d p =
     (case Dict_Lookup d (PType p) (Namespace p) (PName p) of None \<Rightarrow> []
      | Some e \<Rightarrow> [\<lparr>CPE = Build (BVendor e) (BProduct e) (PVersion p), Confidence = ConfidenceHigh,
          Source = SourceBundled, CEvidenceNote = ''bundled purl_to_cpe.json hit'', RejectedReason = [],
          Details = \<lparr>VendorMatch = ''known-mapping'', ProductMatch = ''known-mapping'',
            VersionMatch = versionMatchKind (PVersion p), SearchMethod = ''dictionary-lookup''\<rparr>\<rparr>])"

definition guessVendorProduct :: "PURL_parts \<Rightarrow> string \<times> string" where
  "guessVendorProduct p =
     (if PType p = ''pypi'' then (PName p @ ''_project'', PName p)
      else if PType p = ''maven'' then
        (if Namespace p \<noteq> [] then (last (SplitC (CHR ''.'') (Namespace p)), PName p) else (PName p, PName p))
      else if PType p = ''golang'' then
        (if Namespace p \<noteq> [] then (last (SplitC (CHR ''/'') (Namespace p)), PName p) else (PName p, PName p))
      else (PName p, PName p))"

definition HeuristicResolver :: resolver where
  "HeuristicResolver p =
     (if PName p = [] then []
      else (let vp = guessVendorProduct p in
        [\<lparr>CPE = Build (fst vp) (snd vp) (PVersion p), Confidence = ConfidenceMedium, Source = SourceHeuristic,
          CEvidenceNote = ''PURL-shape guess'', RejectedReason = [],
          Details = \<lparr>VendorMatch = ''fuzzy'', ProductMatch = ''fuzzy'',
            VersionMatch = versionMatchKind (PVersion p), SearchMethod = ''purl-direct''\<rparr>\<rparr>]))"

fun Chain :: "resolver list \<Rightarrow> resolver" where
  "Chain [] p = []"
| "Chain (r # rs) p = (if r p \<noteq> [] then r p else Chain rs p)"

definition DefaultChain :: "bundledEntry list option \<Rightarrow> resolver" where
  "DefaultChain d = Chain [BundledResolver d, HeuristicResolver]"

subsection \<open>The local dictionary\<close>

record localCPEEntry =
  LVendor :: string
  LProduct :: string
  LSource :: string

record local_dictionary =
  byPurl :: "localCPEEntry gomap"
  byName :: "localCPEEntry gomap"

fun percentDecode :: "string \<Rightarrow> string option" where
  "percentDecode [] = Some []"
| "percentDecode (c # cs) =
     (case (c = CHR ''%'', cs) of
        (True, a # b # rest) \<Rightarrow>
          (case (unhex a, unhex b) of
             (Some hi, Some lo) \<Rightarrow> map_option (\<lambda>t. char_of (16 * hi + lo) # t) (percentDecode rest)
           | _ \<Rightarrow> None)
      | _ \<Rightarrow> map_option (\<lambda>t. c # t) (percentDecode cs))"

definition purlFromFileBase :: "string \<Rightarrow> string option" where
  "purlFromFileBase base = (if base = [] then None else percentDecode base)"

text \<open>One file of the catalogue: its base name, or its path below the root, and the decoded entry.\<close>

definition loadPurlFile :: "local_dictionary \<times> nat \<Rightarrow> string \<times> localCPEEntry option \<Rightarrow> local_dictionary \<times> nat" where
  "loadPurlFile st f =
     (case snd f of None \<Rightarrow> (fst st, snd st + 1)
      | Some e \<Rightarrow>
          (case purlFromFileBase (TrimSuffix (fst f) ''.json'') of None \<Rightarrow> (fst st, snd st + 1)
           | Some p \<Rightarrow> ((fst st)\<lparr>byPurl := mput p e (byPurl (fst st))\<rparr>, snd st)))"

definition loadNameFile :: "local_dictionary \<times> nat \<Rightarrow> string \<times> localCPEEntry option \<Rightarrow> local_dictionary \<times> nat" where
  "loadNameFile st f =
     (case snd f of None \<Rightarrow> (fst st, snd st + 1)
      | Some e \<Rightarrow>
          (case cut_first (CHR ''/'') (fst f) of
             (_, None) \<Rightarrow> (fst st, snd st + 1)
           | (typ, Some rest) \<Rightarrow>
               ((fst st)\<lparr>byName := mput (ToLower typ @ ''|'' @ ToLower (TrimSuffix rest ''.json'')) e (byName (fst st))\<rparr>, snd st)))"

definition local_candidate :: "PURL_parts \<Rightarrow> localCPEEntry \<Rightarrow> string \<Rightarrow> string \<Rightarrow> Candidate" where
  "local_candidate p e note search =
     \<lparr>CPE = Build (LVendor e) (LProduct e) (PVersion p), Confidence = ConfidenceHigh, Source = SourceLocalDict,
      CEvidenceNote = note, RejectedReason = [],
      Details = \<lparr>VendorMatch = ''known-mapping'', ProductMatch = ''known-mapping'',
        VersionMatch = versionMatchKind (PVersion p), SearchMethod = search\<rparr>\<rparr>"

definition LocalDictionaryResolver :: "local_dictionary \<Rightarrow> resolver" where
  "LocalDictionaryResolver l p =
     (case mget (byPurl l) (PURL_String p) of
        Some e \<Rightarrow> [local_candidate p e ''local-dictionary by-purl exact'' ''purl-direct'']
      | None \<Rightarrow>
          (case mget (byName l) (ToLower (PType p) @ ''|'' @ ToLower (PName p)) of
             Some e \<Rightarrow> [local_candidate p e ''local-dictionary by-name fallback'' ''dictionary-lookup'']
           | None \<Rightarrow> []))"

text \<open>
  What \<open>LoadFromDir\<close> finds on disk: no catalogue, a failing or non-directory root, or the two walks,
  each a failure or the list of its JSON files.
\<close>

type_synonym catalogue_walk = "string + (string \<times> localCPEEntry option) list"

datatype catalogue = RootMissing | RootFailed string | RootDir catalogue_walk catalogue_walk

definition LoadFromDir :: "catalogue \<Rightarrow> string + local_dictionary \<times> nat" where
  "LoadFromDir cat =
     (let init = (\<lparr>byPurl = [], byName = []\<rparr>, 0) in
        case cat of
          RootMissing \<Rightarrow> Inr init
        | RootFailed e \<Rightarrow> Inl e
        | RootDir purls names \<Rightarrow>
            (case purls of Inl e \<Rightarrow> Inl e
             | Inr ps \<Rightarrow> (case names of Inl e \<Rightarrow> Inl e
               | Inr ns \<Rightarrow> Inr (foldl loadNameFile (foldl loadPurlFile init ps) ns))))"

definition Local_Len :: "local_dictionary \<Rightarrow> nat" where
  "Local_Len l = length (byPurl l) + length (byName l)"

definition ChainWithLocal :: "bundledEntry list option \<Rightarrow> catalogue option \<Rightarrow> string + resolver" where
  "ChainWithLocal d cat =
     (case cat of None \<Rightarrow> Inr (DefaultChain d)
      | Some c \<Rightarrow>
          (case LoadFromDir c of Inl e \<Rightarrow> Inl e
           | Inr (x, skipped) \<Rightarrow> Inr (Chain [BundledResolver d, LocalDictionaryResolver x, HeuristicResolver])))"

section \<open>Lemmas\<close>

subsection \<open>The CPE syntax\<close>

definition well_formed_cpe :: "CPEv23 \<Rightarrow> bool" where
  "well_formed_cpe c \<longleftrightarrow> [] \<notin> set (cpe_attributes c) \<and> Part c \<in> set [''a'', ''o'', ''h'', ''*''] \<and>
     list_all (\<lambda>a. CHR '':'' \<notin> set a) (cpe_attributes c)"

lemma length_cpe_attributes [simp]: "length (cpe_attributes c) = 11"
  by (simp add: cpe_attributes_def)

lemma colon_orStar [simp]: "CHR '':'' \<in> set (orStar s) \<longleftrightarrow> CHR '':'' \<in> set s"
  by (simp add: orStar_def)

lemma orStar_id [simp]: "s \<noteq> [] \<Longrightarrow> orStar s = s"
  by (simp add: orStar_def)

lemma map_orStar_id: "[] \<notin> set xs \<Longrightarrow> map orStar xs = xs"
  by (rule map_idI, rule orStar_id) blast

lemma split_CPE_String:
  assumes "\<forall>a \<in> set (cpe_attributes c). CHR '':'' \<notin> set a"
  shows "SplitC (CHR '':'') (CPE_String c) = [''cpe'', ''2.3''] @ map orStar (cpe_attributes c)"
  unfolding CPE_String_def using assms by (subst SplitC_Join) auto

lemma in_set_Join: "x \<in> set xs \<Longrightarrow> c \<in> set x \<Longrightarrow> c \<in> set (Join sep xs)"
  by (induction sep xs rule: Join.induct) auto

text \<open>A join of more than as many fields as its parts has a colon inside one of them.\<close>

lemma count_list_Join:
  "xs \<noteq> [] \<Longrightarrow> Suc (count_list (Join [c] xs) c) = length xs + sum_list (map (\<lambda>x. count_list x c) xs)"
  by (induction "[c]" xs rule: Join.induct) auto

lemma IsValid_CPE_String:
  "IsValidCPE (CPE_String c) \<longleftrightarrow>
     orStar (Part c) \<in> set [''a'', ''o'', ''h'', ''*''] \<and> (\<forall>a \<in> set (cpe_attributes c). CHR '':'' \<notin> set a)"
proof
  assume valid: "IsValidCPE (CPE_String c)"
  let ?parts = "[''cpe'', ''2.3''] @ map orStar (cpe_attributes c)"
  have "Suc (count_list (Join '':'' ?parts) (CHR '':'')) = 13"
    using valid by (simp only: IsValidCPE_def length_SplitC CPE_String_def Let_def)
  then have "sum_list (map (\<lambda>x. count_list x (CHR '':'')) ?parts) = 0"
    by (subst (asm) count_list_Join) simp_all
  then have colon: "\<forall>a \<in> set (cpe_attributes c). CHR '':'' \<notin> set a"
    by (simp add: count_list_0_iff)
  show "orStar (Part c) \<in> set [''a'', ''o'', ''h'', ''*''] \<and> (\<forall>a \<in> set (cpe_attributes c). CHR '':'' \<notin> set a)"
    using valid colon by (simp add: IsValidCPE_def split_CPE_String cpe_attributes_def)
next
  assume "orStar (Part c) \<in> set [''a'', ''o'', ''h'', ''*''] \<and> (\<forall>a \<in> set (cpe_attributes c). CHR '':'' \<notin> set a)"
  then show "IsValidCPE (CPE_String c)"
    by (simp add: IsValidCPE_def split_CPE_String cpe_attributes_def)
qed

lemma Parse_attributes:
  assumes "Parse s = Some c"
  shows "SplitC (CHR '':'') s = [''cpe'', ''2.3''] @ cpe_attributes c" and "Part c \<in> set [''a'', ''o'', ''h'', ''*'']"
proof -
  let ?p = "SplitC (CHR '':'') s"
  have len: "length ?p = 13" and hd: "?p ! 0 = ''cpe''" "?p ! 1 = ''2.3''" "?p ! 2 \<in> set [''a'', ''o'', ''h'', ''*'']"
    using assms by (auto simp: Parse_def IsValidCPE_def Let_def split: if_splits)
  have c: "cpe_attributes c = map ((!) ?p) [2,3,4,5,6,7,8,9,10,11,12]" "Part c = ?p ! 2"
    using assms by (auto simp: Parse_def Let_def cpe_attributes_def split: if_splits)
  have "?p = map ((!) ?p) [0..<13]"
    using len map_nth [of ?p] by simp
  also have "[0..<13] = [0, 1, 2, 3, 4, 5, 6, 7, 8, 9, 10, 11, 12 :: nat]"
    by code_simp
  also have "map ((!) ?p) \<dots> = [''cpe'', ''2.3''] @ cpe_attributes c"
    using hd c by simp
  finally show "SplitC (CHR '':'') s = [''cpe'', ''2.3''] @ cpe_attributes c" .
  show "Part c \<in> set [''a'', ''o'', ''h'', ''*'']" using hd c by simp
qed

text \<open>
  Parsing a CPE URI and formatting a CPE are inverse to each other on the well-formed
  identifiers: a string parses to a CPE without empty attributes exactly when it is the canonical text
  of that CPE, whose part is one of the four letters and whose attributes hold no colon.
\<close>
theorem Parse_String_roundtrip:
  "Parse s = Some c \<and> [] \<notin> set (cpe_attributes c) \<longleftrightarrow> s = CPE_String c \<and> well_formed_cpe c"
proof
  assume a: "Parse s = Some c \<and> [] \<notin> set (cpe_attributes c)"
  note split = Parse_attributes [of s c]
  have "s = Join '':'' (SplitC (CHR '':'') s)" by simp
  then have "s = CPE_String c" using a split by (simp add: CPE_String_def map_orStar_id)
  moreover have "\<forall>x \<in> set (cpe_attributes c). CHR '':'' \<notin> set x"
    using a split SplitC_elems [of _ "CHR '':''" s] by (metis Un_iff set_append)
  ultimately show "s = CPE_String c \<and> well_formed_cpe c"
    using a split by (simp add: well_formed_cpe_def list_all_iff)
next
  assume a: "s = CPE_String c \<and> well_formed_cpe c"
  then have colon: "\<forall>x \<in> set (cpe_attributes c). CHR '':'' \<notin> set x" and ne: "[] \<notin> set (cpe_attributes c)"
    by (simp_all add: well_formed_cpe_def list_all_iff)
  have "IsValidCPE s" using a colon ne by (auto simp: IsValid_CPE_String well_formed_cpe_def orStar_def)
  moreover have "SplitC (CHR '':'') s = [''cpe'', ''2.3''] @ cpe_attributes c"
    using a colon ne by (simp add: split_CPE_String map_orStar_id)
  ultimately show "Parse s = Some c \<and> [] \<notin> set (cpe_attributes c)"
    using ne by (simp add: Parse_def cpe_attributes_def)
qed

text \<open>
  The CPE built from a vendor, a product and a version is syntactically valid exactly when none
  of the three holds a colon: a version with an epoch makes \<open>Build\<close> return a URI that the package's own
  validator refuses.
\<close>
theorem Build_valid_iff:
  "IsValidCPE (Build v p ver) \<longleftrightarrow> CHR '':'' \<notin> set v \<and> CHR '':'' \<notin> set p \<and> CHR '':'' \<notin> set ver"
  unfolding Build_def IsValid_CPE_String by (auto simp: cpe_attributes_def)

subsection \<open>Classification\<close>

lemma classify_rest:
  assumes "p \<noteq> None \<or> (\<forall>c \<in> set cs. Confidence c < PrimaryMin t)"
  shows "foldl (classify_step t) (p, as, rs) cs =
     (p, as @ filter (\<lambda>c. AlternativeMin t \<le> Confidence c) cs,
      rs @ map (with_reason t) (filter (\<lambda>c. Confidence c < AlternativeMin t) cs))"
  using assms by (induction cs arbitrary: as rs) (auto simp: classify_step_def)

text \<open>Only the first of the sorted candidates can become primary.\<close>

lemma Classify_closed:
  "Classify cs t =
     (case sort_desc Confidence cs of [] \<Rightarrow> (None, [], [])
      | c # rest \<Rightarrow>
          let prim = PrimaryMin t \<le> Confidence c; others = (if prim then rest else c # rest) in
          (if prim then Some c else None, filter (\<lambda>c. AlternativeMin t \<le> Confidence c) others,
           map (with_reason t) (filter (\<lambda>c. Confidence c < AlternativeMin t) others)))"
proof (cases "sort_desc Confidence cs")
  case Nil
  then show ?thesis by (simp add: Classify_def)
next
  case (Cons c rest)
  then have below: "\<forall>x \<in> set rest. Confidence x \<le> Confidence c"
    using sorted_sort_desc [of Confidence cs] by simp
  show ?thesis
  proof (cases "PrimaryMin t \<le> Confidence c")
    case True
    then have "classify_step t (None, [], []) c = (Some c, [], [])" by (simp add: classify_step_def)
    then show ?thesis using Cons True by (simp add: Classify_def classify_rest)
  next
    case False
    then have "\<forall>x \<in> set (c # rest). Confidence x < PrimaryMin t" using below by auto
    then have "foldl (classify_step t) (None, [], []) (c # rest) =
       (None, [] @ filter (\<lambda>c. AlternativeMin t \<le> Confidence c) (c # rest),
        [] @ map (with_reason t) (filter (\<lambda>c. Confidence c < AlternativeMin t) (c # rest)))"
      by (intro classify_rest) blast
    then show ?thesis using Cons False unfolding Classify_def by (simp del: foldl_Cons)
  qed
qed

lemma with_reason_simps [simp]:
  "CPE (with_reason t c) = CPE c" "Confidence (with_reason t c) = Confidence c" "RejectedReason (with_reason t c) \<noteq> []"
  by (simp_all add: with_reason_def)

lemma mset_filter_part:
  fixes k :: "'a \<Rightarrow> 'b :: linorder"
  shows "image_mset f (mset (filter (\<lambda>c. a \<le> k c) xs)) + image_mset f (mset (filter (\<lambda>c. k c < a) xs)) = image_mset f (mset xs)"
  by (induction xs) auto

text \<open>
  \<open>Classify\<close> partitions the candidates: the CPEs of the primary, the alternatives and the rejected
  ones are together those proposed, with multiplicity; there is no primary exactly when every candidate
  is below the primary floor, and a primary has the highest confidence of all; the alternatives reach
  the alternative floor, the rejected ones do not and carry a reason.
\<close>
theorem Classify_partition:
  "case Classify cs t of (pri, alts, rejected) \<Rightarrow>
     mset (map CPE ((case pri of None \<Rightarrow> [] | Some c \<Rightarrow> [c]) @ alts @ rejected)) = mset (map CPE cs) \<and>
     (pri = None) = list_all (\<lambda>c. Confidence c < PrimaryMin t) cs \<and>
     (case pri of None \<Rightarrow> True
      | Some c \<Rightarrow> c \<in> set cs \<and> PrimaryMin t \<le> Confidence c \<and> list_all (\<lambda>x. Confidence x \<le> Confidence c) cs) \<and>
     list_all (\<lambda>c. AlternativeMin t \<le> Confidence c) alts \<and>
     list_all (\<lambda>c. Confidence c < AlternativeMin t \<and> RejectedReason c \<noteq> []) rejected"
proof (cases "sort_desc Confidence cs")
  case Nil
  then have "cs = []" using set_sort_desc [of Confidence cs] by simp
  then show ?thesis by (simp add: Classify_def sort_desc_def)
next
  case (Cons c rest)
  have set: "set cs = insert c (set rest)" using Cons set_sort_desc [of Confidence cs] by simp
  have below: "\<forall>x \<in> set rest. Confidence x \<le> Confidence c"
    using Cons sorted_sort_desc [of Confidence cs] by simp
  have cpe: "CPE \<circ> with_reason t = CPE" by (simp add: fun_eq_iff)
  have ms: "mset cs = add_mset c (mset rest)" using Cons mset_sort_desc [of Confidence cs] by simp
  have part: "image_mset CPE (mset (filter (\<lambda>c. AlternativeMin t \<le> Confidence c) xs)) +
      image_mset CPE (mset (filter (\<lambda>c. Confidence c < AlternativeMin t) xs)) = image_mset CPE (mset xs)" for xs
    by (rule mset_filter_part)
  show ?thesis
  proof (cases "PrimaryMin t \<le> Confidence c")
    case True
    have eq: "Classify cs t = (Some c, filter (\<lambda>c. AlternativeMin t \<le> Confidence c) rest,
        map (with_reason t) (filter (\<lambda>c. Confidence c < AlternativeMin t) rest))"
      using Cons True by (simp add: Classify_closed)
    show ?thesis using True below part [of rest] set ms cpe unfolding eq
      by (auto simp: list_all_iff multiset.map_comp)
  next
    case False
    have eq: "Classify cs t = (None, filter (\<lambda>c. AlternativeMin t \<le> Confidence c) (c # rest),
        map (with_reason t) (filter (\<lambda>c. Confidence c < AlternativeMin t) (c # rest)))"
      using Cons False by (simp add: Classify_closed)
    have "\<forall>x \<in> set cs. Confidence x < PrimaryMin t" using False below set by auto
    then show ?thesis using part [of "c # rest"] ms cpe unfolding eq
      by (simp only: prod.case option.case append_Nil map_append mset_append map_map mset_map mset.simps) (auto simp: list_all_iff multiset.map_comp)
  qed
qed

subsection \<open>Deduplication\<close>

text \<open>
  The reference: one candidate for each CPE, in the order of first appearance; it is the first of the
  most confident proposals of that CPE, with all their sources when they differ.
\<close>

definition first_occurrences :: "'a list \<Rightarrow> 'a list" where
  "first_occurrences xs = rev (remdups (rev xs))"

definition proposals :: "string \<Rightarrow> Candidate list \<Rightarrow> Candidate list" where
  "proposals k cs = filter (\<lambda>c. CPE c = k) cs"

definition first_max :: "Candidate list \<Rightarrow> Candidate" where
  "first_max g = hd (filter (\<lambda>c. list_all (\<lambda>x. Confidence x \<le> Confidence c) g) g)"

definition merged :: "Candidate list \<Rightarrow> string \<Rightarrow> Candidate" where
  "merged cs k =
     (let g = proposals k cs; best = first_max g in
        if 1 < length (remdups (map Source g)) then best\<lparr>Source := mergeSources (map Source g)\<rparr> else best)"

lemma first_occurrences_snoc:
  "first_occurrences (xs @ [x]) = (if x \<in> set xs then first_occurrences xs else first_occurrences xs @ [x])"
  by (simp add: first_occurrences_def)

lemma first_occurrences_simps [simp]:
  "first_occurrences [] = []" "set (first_occurrences xs) = set xs" "distinct (first_occurrences xs)"
  by (simp_all add: first_occurrences_def)

lemma proposals_snoc: "proposals k (cs @ [c]) = (if CPE c = k then proposals k cs @ [c] else proposals k cs)"
  by (simp add: proposals_def)

lemma proposals_empty: "proposals k cs = [] \<longleftrightarrow> k \<notin> CPE ` set cs"
  by (auto simp: proposals_def filter_empty_conv)

lemma first_max_single [simp]: "first_max [c] = c"
  by (simp add: first_max_def)

lemma exists_max: "g \<noteq> [] \<Longrightarrow> \<exists>c \<in> set g. \<forall>x \<in> set g. Confidence x \<le> Confidence c"
proof -
  assume "g \<noteq> []"
  then have "Max (Confidence ` set g) \<in> Confidence ` set g" by simp
  then obtain c where "c \<in> set g" "Confidence c = Max (Confidence ` set g)" by auto
  then have "c \<in> set g \<and> (\<forall>x \<in> set g. Confidence x \<le> Confidence c)" by simp
  then show ?thesis by blast
qed

lemma first_max:
  assumes "g \<noteq> []"
  shows "first_max g \<in> set g" and "\<forall>x \<in> set g. Confidence x \<le> Confidence (first_max g)"
proof -
  let ?f = "filter (\<lambda>c. list_all (\<lambda>x. Confidence x \<le> Confidence c) g) g"
  have "?f \<noteq> []" using exists_max [OF assms] by (auto simp: filter_empty_conv list_all_iff)
  then have "hd ?f \<in> set ?f" by (rule hd_in_set)
  then have "hd ?f \<in> set g \<and> list_all (\<lambda>x. Confidence x \<le> Confidence (hd ?f)) g" unfolding set_filter by blast
  then show "first_max g \<in> set g" and "\<forall>x \<in> set g. Confidence x \<le> Confidence (first_max g)"
    by (auto simp: first_max_def list_all_iff)
qed

lemma first_max_snoc:
  assumes "g \<noteq> []"
  shows "first_max (g @ [c]) = (if Confidence (first_max g) < Confidence c then c else first_max g)"
proof (cases "Confidence (first_max g) < Confidence c")
  case True
  then have "\<forall>x \<in> set g. Confidence x < Confidence c" using first_max [OF assms] by force
  then have "filter (\<lambda>d. list_all (\<lambda>x. Confidence x \<le> Confidence d) (g @ [c])) g = []"
    by (auto simp: filter_empty_conv list_all_iff)
  then show ?thesis using True first_max [OF assms] by (auto simp: first_max_def list_all_iff)
next
  case False
  have same: "filter (\<lambda>d. list_all (\<lambda>x. Confidence x \<le> Confidence d) (g @ [c])) g =
      filter (\<lambda>d. list_all (\<lambda>x. Confidence x \<le> Confidence d) g) g"
    using False first_max [OF assms] by (intro filter_cong refl) (auto simp: list_all_iff)
  have "filter (\<lambda>d. list_all (\<lambda>x. Confidence x \<le> Confidence d) g) g \<noteq> []"
    using exists_max [OF assms] by (auto simp: filter_empty_conv list_all_iff)
  then show ?thesis using False same by (simp add: first_max_def)
qed

definition sources_of :: "string \<Rightarrow> Candidate list \<Rightarrow> string list" where
  "sources_of k cs = foldl (\<lambda>s c. List.insert (Source c) s) [] (proposals k cs)"

lemma sources_of_props: "set (sources_of k cs) = Source ` set (proposals k cs)" "distinct (sources_of k cs)"
proof -
  have "set (foldl (\<lambda>s c. List.insert (Source c) s) s0 g) = Source ` set g \<union> set s0"
    "distinct s0 \<Longrightarrow> distinct (foldl (\<lambda>s c. List.insert (Source c) s) s0 g)" for s0 g
    by (induction g arbitrary: s0) auto
  from this(1) [of "[]" "proposals k cs"] this(2) [of "[]" "proposals k cs"]
  show "set (sources_of k cs) = Source ` set (proposals k cs)" "distinct (sources_of k cs)"
    by (simp_all only: sources_of_def list.set distinct.simps Un_empty_right)
qed

lemma length_sources: "length (sources_of k cs) = length (remdups (map Source (proposals k cs)))"
  using sources_of_props [of k cs] by (metis distinct_card distinct_remdups set_map set_remdups)

lemma mergeSources_cong: "set xs = set ys \<Longrightarrow> mergeSources xs = mergeSources ys"
  by (simp add: mergeSources_def sorted_list_of_set_sort_remdups [symmetric])

definition dedupe_inv :: "Candidate list \<Rightarrow> Candidate list \<times> (nat \<times> string list) gomap \<Rightarrow> bool" where
  "dedupe_inv cs st \<longleftrightarrow>
     (let keys = first_occurrences (map CPE cs) in
        fst st = map (\<lambda>k. first_max (proposals k cs)) keys \<and> map_ok (snd st) \<and>
        (\<forall>i < length keys. mget (snd st) (keys ! i) = Some (i, sources_of (keys ! i) cs)) \<and>
        dom (mget (snd st)) = set keys)"

lemma dedupe_inv_step:
  assumes "dedupe_inv cs st"
  shows "dedupe_inv (cs @ [c]) (dedupe_step st c)"
proof -
  let ?keys = "first_occurrences (map CPE cs)"
  have out: "fst st = map (\<lambda>k. first_max (proposals k cs)) ?keys" and ok: "map_ok (snd st)"
    and get: "\<forall>i < length ?keys. mget (snd st) (?keys ! i) = Some (i, sources_of (?keys ! i) cs)"
    and dom: "dom (mget (snd st)) = set ?keys"
    using assms by (auto simp: dedupe_inv_def Let_def)
  show ?thesis
  proof (cases "CPE c \<in> CPE ` set cs")
    case False
    then have none: "mget (snd st) (CPE c) = None" using dom by auto
    have keys: "first_occurrences (map CPE (cs @ [c])) = ?keys @ [CPE c]"
      using False by (simp only: map_append list.map first_occurrences_snoc set_map if_False)
    have props: "proposals (CPE c) (cs @ [c]) = [c]"
      using False by (simp add: proposals_snoc proposals_empty)
    have other: "k \<in> set ?keys \<Longrightarrow> proposals k (cs @ [c]) = proposals k cs" for k
      using False by (auto simp: proposals_snoc)
    have othern: "i < length ?keys \<Longrightarrow> proposals (?keys ! i) (cs @ [c]) = proposals (?keys ! i) cs" for i
      by (rule other) (rule nth_mem)
    show ?thesis
      unfolding dedupe_inv_def keys Let_def dedupe_step_def none
      using out ok get dom False other othern props
      by (auto simp: nth_append sources_of_def less_Suc_eq dest: nth_mem)
  next
    case True
    then obtain i where i: "i < length ?keys" "?keys ! i = CPE c"
      by (metis first_occurrences_simps(2) in_set_conv_nth set_map)
    have keys: "first_occurrences (map CPE (cs @ [c])) = ?keys"
      using True by (simp add: first_occurrences_snoc)
    have some: "mget (snd st) (CPE c) = Some (i, sources_of (CPE c) cs)"
      using get i by force
    have ne: "proposals (CPE c) cs \<noteq> []" using True by (simp add: proposals_empty)
    have uniq: "j < length ?keys \<Longrightarrow> ?keys ! j = CPE c \<longleftrightarrow> j = i" for j
      using i nth_eq_iff_index_eq [of ?keys j i] by simp
    let ?F = "\<lambda>k. first_max (proposals k (cs @ [c]))" and ?G = "\<lambda>k. first_max (proposals k cs)"
    have F: "?F k = (if k = CPE c then if Confidence (?G k) < Confidence c then c else ?G k else ?G k)" for k
      by (simp add: proposals_snoc first_max_snoc [OF ne])
    have step: "fst (dedupe_step st c) = (if Confidence (?G (CPE c)) < Confidence c then (map ?G ?keys)[i := c] else map ?G ?keys)"
      using some out i by (simp add: dedupe_step_def)
    have "fst (dedupe_step st c) ! j = map ?F ?keys ! j" if "j < length ?keys" for j
      unfolding step using that i uniq [OF that] by (cases "j = i") (simp_all add: F)
    moreover have "length (fst (dedupe_step st c)) = length ?keys" by (simp add: step)
    ultimately have "fst (dedupe_step st c) = map ?F ?keys"
      using nth_equalityI [of "fst (dedupe_step st c)" "map ?F ?keys"] by simp
    moreover have snd: "snd (dedupe_step st c) = mput (CPE c) (i, List.insert (Source c) (sources_of (CPE c) cs)) (snd st)"
      using some by (simp add: dedupe_step_def)
    moreover have "\<forall>j < length ?keys. mget (snd (dedupe_step st c)) (?keys ! j) = Some (j, sources_of (?keys ! j) (cs @ [c]))"
    proof (intro allI impI)
      fix j assume j: "j < length ?keys"
      show "mget (snd (dedupe_step st c)) (?keys ! j) = Some (j, sources_of (?keys ! j) (cs @ [c]))"
      proof (cases "j = i")
        case True
        then show ?thesis using i unfolding snd mget_mput by (simp add: sources_of_def proposals_snoc)
      next
        case False
        then have "?keys ! j \<noteq> CPE c" using uniq [OF j] by blast
        then show ?thesis using get j unfolding snd mget_mput by (auto simp: sources_of_def proposals_snoc)
      qed
    qed
    moreover have "dom (mget (snd (dedupe_step st c))) = set ?keys"
      unfolding snd dom_mput dom using True by auto
    ultimately show ?thesis
      unfolding dedupe_inv_def keys Let_def using ok by (simp del: set_gomap mget_mput)
  qed
qed

text \<open>
  The second pass touches every slot at most once, so the order in which the map is ranged over does
  not matter.
\<close>

definition update_slots :: "('k \<Rightarrow> nat) \<Rightarrow> ('k \<Rightarrow> bool) \<Rightarrow> ('k \<Rightarrow> 'a \<Rightarrow> 'a) \<Rightarrow> 'a list \<Rightarrow> 'k list \<Rightarrow> 'a list" where
  "update_slots i P f = foldl (\<lambda>out kv. if P kv then out[i kv := f kv (out ! i kv)] else out)"

lemma length_update_slots [simp]: "length (update_slots i P f out kvs) = length out"
  unfolding update_slots_def by (induction kvs arbitrary: out) auto

lemma update_slots_other: "j \<notin> i ` set kvs \<Longrightarrow> update_slots i P f out kvs ! j = out ! j"
  unfolding update_slots_def by (induction kvs arbitrary: out) (auto simp: nth_list_update)

lemma update_slots_at:
  assumes "distinct (map i kvs)" "kv \<in> set kvs" "i kv < length out"
  shows "update_slots i P f out kvs ! i kv = (if P kv then f kv (out ! i kv) else out ! i kv)"
  using assms
proof (induction kvs arbitrary: out)
  case (Cons x kvs)
  let ?out = "if P x then out[i x := f x (out ! i x)] else out"
  have step: "update_slots i P f out (x # kvs) = update_slots i P f ?out kvs" by (simp add: update_slots_def)
  show ?case
  proof (cases "kv = x")
    case True
    then have "i kv \<notin> i ` set kvs" using Cons.prems by simp
    then show ?thesis using True Cons.prems unfolding step by (simp add: update_slots_other)
  next
    case False
    then have "kv \<in> set kvs" "i x \<noteq> i kv" using Cons.prems by (auto simp: image_iff)
    then show ?thesis using Cons.IH [of ?out] Cons.prems unfolding step by simp
  qed
qed simp

lemma dedupe_inv_fold: "dedupe_inv cs (foldl dedupe_step ([], []) cs)"
proof (induction cs rule: rev_induct)
  case Nil
  show ?case by (simp add: dedupe_inv_def)
qed (simp add: dedupe_inv_step)

lemma dedupe_fold_result:
  fixes st :: "Candidate list \<times> (nat \<times> string list) gomap"
  assumes "dedupe_inv cs st"
  shows "update_slots (\<lambda>kv. fst (snd kv)) (\<lambda>kv. 1 < length (snd (snd kv)))
      (\<lambda>kv c. c\<lparr>Source := mergeSources (snd (snd kv))\<rparr>) (fst st) (snd st) = map (merged cs) (first_occurrences (map CPE cs))"
    (is "?r = map _ ?keys")
proof (rule nth_equalityI)
  have out: "fst st = map (\<lambda>k. first_max (proposals k cs)) ?keys" and ok: "map_ok (snd st)"
    and get: "\<forall>i < length ?keys. mget (snd st) (?keys ! i) = Some (i, sources_of (?keys ! i) cs)"
    and dom: "dom (mget (snd st)) = set ?keys"
    using assms by (auto simp: dedupe_inv_def Let_def)
  then show "length ?r = length (map (merged cs) ?keys)" by simp
  have entry: "\<exists>i < length ?keys. kv = (?keys ! i, i, sources_of (?keys ! i) cs)" if "kv \<in> set (snd st)" for kv
  proof -
    have "mget (snd st) (fst kv) = Some (snd kv)" using that ok by simp
    moreover from this have "fst kv \<in> set ?keys" using dom by blast
    then obtain i where "i < length ?keys" "?keys ! i = fst kv" by (metis in_set_conv_nth)
    ultimately show ?thesis using get by (metis option.inject prod.collapse)
  qed
  have dist: "distinct (map (\<lambda>kv. fst (snd kv)) (snd st))"
  proof -
    have "inj_on (\<lambda>kv. fst (snd kv)) (set (snd st))"
    proof (rule inj_onI)
      fix x y assume "x \<in> set (snd st)" "y \<in> set (snd st)" "fst (snd x) = fst (snd y)"
      then show "x = y" using entry [of x] entry [of y] by auto
    qed
    then show ?thesis using ok by (simp add: distinct_map)
  qed
  fix i assume "i < length ?r"
  then have i: "i < length ?keys" using out by simp
  let ?k = "?keys ! i"
  let ?kv = "(?k, i, sources_of ?k cs)"
  have "?kv \<in> set (snd st)" using get i ok by simp
  from update_slots_at [OF dist this, of "fst st" "\<lambda>kv. 1 < length (snd (snd kv))"
      "\<lambda>kv c. c\<lparr>Source := mergeSources (snd (snd kv))\<rparr>"] i out
  have "?r ! i = (if 1 < length (sources_of ?k cs) then (fst st ! i)\<lparr>Source := mergeSources (sources_of ?k cs)\<rparr> else fst st ! i)"
    by simp
  also have "\<dots> = merged cs ?k"
  proof -
    have "mergeSources (sources_of ?k cs) = mergeSources (map Source (proposals ?k cs))"
      by (rule mergeSources_cong) (simp add: sources_of_props)
    moreover have "fst st ! i = first_max (proposals ?k cs)" using i out by simp
    ultimately show ?thesis by (simp only: merged_def length_sources Let_def)
  qed
  finally show "?r ! i = map (merged cs) ?keys ! i" using i by simp
qed

text \<open>
  \<open>DedupeCandidates\<close> computes its reference: the distinct CPEs in the order of their first
  appearance, each with the first of its most confident proposals, whose source becomes the sorted
  list of all the sources that proposed it when they differ.
\<close>
theorem DedupeCandidates_reference:
  "DedupeCandidates cs = map (merged cs) (first_occurrences (map CPE cs))"
proof (cases "length cs \<le> 1")
  case True
  then consider "cs = []" | c where "cs = [c]" by (cases cs) auto
  then show ?thesis
    by cases (simp_all add: DedupeCandidates_def first_occurrences_def merged_def proposals_def)
next
  case False
  then show ?thesis
    using dedupe_fold_result [OF dedupe_inv_fold [of cs]]
    by (simp add: DedupeCandidates_def update_slots_def Let_def)
qed

subsection \<open>Package URLs\<close>

lemma cut_first_none [simp]: "c \<notin> set s \<Longrightarrow> cut_first c s = (s, None)"
proof -
  assume "c \<notin> set s"
  then have "IndexByte s c = None" by (auto simp: IndexByte_def IndexAny_None)
  then show ?thesis by (simp add: cut_first_def)
qed

lemma cut_first_split [simp]: "c \<notin> set s \<Longrightarrow> cut_first c (s @ c # t) = (s, Some t)"
proof -
  assume "c \<notin> set s"
  then have "IndexByte (s @ c # t) c = Some (length s)"
    unfolding IndexByte_def by (intro IndexAny_split) auto
  then show ?thesis by (simp add: cut_first_def)
qed

lemma cut_last_none [simp]: "c \<notin> set s \<Longrightarrow> cut_last c s = (s, None)"
proof -
  assume "c \<notin> set s"
  then have "LastIndexByte s c = None" by (auto simp: LastIndexByte_def LastIndexAny_None)
  then show ?thesis by (simp add: cut_last_def)
qed

lemma SplitC_snoc: "c \<notin> set t \<Longrightarrow> SplitC c (s @ c # t) = SplitC c s @ [t]"
  by (induction s) (auto simp: SplitC_no_sep split: list.split)

lemma unescape_plain: "CHR ''%'' \<notin> set s \<Longrightarrow> unescape False s = Some s"
  by (induction s) auto

lemma decodeSegment_plain [simp]: "CHR ''%'' \<notin> set s \<Longrightarrow> decodeSegment s = s"
  by (simp add: decodeSegment_def unescape_plain)

lemma unescape_nonempty: "unescape q (c # cs) = Some t \<Longrightarrow> t \<noteq> []"
  by (simp only: unescape.simps) (auto split: if_split_asm list.split_asm option.split_asm prod.split_asm)

lemma decodeSegment_nonempty: "s \<noteq> [] \<Longrightarrow> decodeSegment s \<noteq> []"
  by (cases s) (auto simp: decodeSegment_def simp del: unescape.simps split: option.splits dest: unescape_nonempty)

definition plain_purl :: "PURL_parts \<Rightarrow> bool" where
  "plain_purl p \<longleftrightarrow>
     ToLower (PType p) = PType p \<and> set (PType p) \<inter> set ''/@?#'' = {} \<and>
     set (Namespace p) \<inter> set ''@?#%'' = {} \<and> PName p \<noteq> [] \<and> set (PName p) \<inter> set ''/@?#%'' = {} \<and>
     set (PVersion p) \<inter> set ''?#'' = {} \<and> Qualifiers p = [] \<and> Subpath p = []"

lemma ParsePURL_shape:
  assumes "set t \<inter> set ''/@?#'' = {}" "set path \<inter> set ''@?#'' = {}" "set v \<inter> set ''?#'' = {}" "path = pre @ nm"
    "CHR ''/'' \<notin> set nm" "pre = [] \<or> (\<exists>ns. pre = ns @ ''/'')" "nm \<noteq> []"
  shows "ParsePURL (''pkg:'' @ t @ ''/'' @ path @ (if v \<noteq> [] then ''@'' @ v else [])) =
     Inr \<lparr>PType = ToLower t, Namespace = Join ''/'' (map decodeSegment (butlast (SplitC (CHR ''/'') path))),
          PName = decodeSegment nm, PVersion = v, Qualifiers = [], Subpath = []\<rparr>"
proof -
  let ?rest = "t @ ''/'' @ path @ (if v \<noteq> [] then ''@'' @ v else [])"
  have last: "last (SplitC (CHR ''/'') path) = nm"
    using assms(4-6) by (auto simp: SplitC_no_sep SplitC_snoc)
  have sub: "cut_last (CHR ''#'') ?rest = (?rest, None)" and qual: "cut_last (CHR ''?'') ?rest = (?rest, None)"
    using assms(1-3) by auto
  have ver: "cut_first (CHR ''@'') ?rest = (t @ ''/'' @ path, if v \<noteq> [] then Some v else None)"
    using assms(1,2) cut_first_split [of "CHR ''@''" "t @ ''/'' @ path" v] by auto
  have ty: "cut_first (CHR ''/'') (t @ ''/'' @ path) = (t, Some path)"
    using assms(1) by simp
  have cut: "CutPrefix (''pkg:'' @ ?rest) ''pkg:'' = Some ?rest" by (rule CutPrefix_append)
  have "''pkg:'' @ ?rest \<noteq> []" by simp
  then show ?thesis
    using assms(7) unfolding ParsePURL_def cut sub qual ver ty option.case Let_def fst_conv snd_conv last by simp
qed

text \<open>
  \<open>ParsePURL\<close> reads back what \<open>String\<close> writes, for the package URLs whose fields hold none of the
  separators and no percent sign: a lower-case type, a namespace of any number of segments, a name,
  and a version that may itself hold \<open>@\<close> and \<open>/\<close>.
\<close>
theorem ParsePURL_String_roundtrip:
  assumes "plain_purl p"
  shows "ParsePURL (PURL_String p) = Inr p"
proof -
  let ?pre = "if Namespace p \<noteq> [] then Namespace p @ ''/'' else []"
  have str: "PURL_String p = ''pkg:'' @ PType p @ ''/'' @ (?pre @ PName p) @ (if PVersion p \<noteq> [] then ''@'' @ PVersion p else [])"
    by (simp add: PURL_String_def)
  have plain: "set (PType p) \<inter> set ''/@?#'' = {}" "set (?pre @ PName p) \<inter> set ''@?#'' = {}" "set (PVersion p) \<inter> set ''?#'' = {}"
     "CHR ''/'' \<notin> set (PName p)" "PName p \<noteq> []" "CHR ''%'' \<notin> set (PName p)" "CHR ''%'' \<notin> set (Namespace p)"
    using assms by (auto simp: plain_purl_def)
  have ns: "Join ''/'' (map decodeSegment (butlast (SplitC (CHR ''/'') (?pre @ PName p)))) = Namespace p"
  proof (cases "Namespace p = []")
    case True
    then show ?thesis using plain by (simp add: SplitC_no_sep)
  next
    case False
    have "\<forall>x \<in> set (SplitC (CHR ''/'') (Namespace p)). CHR ''%'' \<notin> set x"
    proof (intro ballI notI)
      fix x assume "x \<in> set (SplitC (CHR ''/'') (Namespace p))" "CHR ''%'' \<in> set x"
      then have "CHR ''%'' \<in> set (Join ''/'' (SplitC (CHR ''/'') (Namespace p)))" by (rule in_set_Join)
      then show False using plain by simp
    qed
    then have "map decodeSegment (SplitC (CHR ''/'') (Namespace p)) = SplitC (CHR ''/'') (Namespace p)"
      by (intro map_idI) simp
    then show ?thesis using False plain by (simp add: SplitC_snoc)
  qed
  have "ParsePURL (PURL_String p) = Inr \<lparr>PType = ToLower (PType p), Namespace = Namespace p, PName = PName p,
      PVersion = PVersion p, Qualifiers = [], Subpath = []\<rparr>"
    unfolding str using plain by (subst ParsePURL_shape [OF plain(1-3) refl]) (auto simp: ns [simplified])
  then show ?thesis using assms by (simp add: plain_purl_def)
qed

definition sample_purl :: PURL_parts where
  "sample_purl = \<lparr>PType = ''maven'', Namespace = ''org/apache'', PName = ''log4j'', PVersion = ''2@1/x'', Qualifiers = [], Subpath = []\<rparr>"

lemma ParsePURL_String_roundtrip_witness: "plain_purl sample_purl \<and> ParsePURL (PURL_String sample_purl) = Inr sample_purl"
proof -
  have "plain_purl sample_purl" by code_simp
  then show ?thesis using ParsePURL_String_roundtrip [of sample_purl] by blast
qed

text \<open>
  A package URL whose namespace starts with an unencoded \<open>@\<close>, the way npm scopes are commonly
  written, is refused: the parser takes the scope for the version and finds no name.
\<close>
theorem ParsePURL_unencoded_scope:
  assumes "set t \<inter> set ''/@?#'' = {}" and "set rest \<inter> set ''?#'' = {}"
  shows "ParsePURL (''pkg:'' @ t @ ''/@'' @ rest) = Inl (MissingName (''pkg:'' @ t @ ''/@'' @ rest))"
proof -
  let ?rest = "t @ ''/@'' @ rest"
  have sub: "cut_last (CHR ''#'') ?rest = (?rest, None)" and qual: "cut_last (CHR ''?'') ?rest = (?rest, None)"
    using assms by auto
  have ver: "cut_first (CHR ''@'') ?rest = (t @ ''/'', Some rest)"
    using assms cut_first_split [of "CHR ''@''" "t @ ''/''" rest] by simp
  have ty: "cut_first (CHR ''/'') (t @ ''/'') = (t, Some [])"
    using assms cut_first_split [of "CHR ''/''" t "[]"] by simp
  have cut: "CutPrefix (''pkg:'' @ ?rest) ''pkg:'' = Some ?rest" by (rule CutPrefix_append)
  have "''pkg:'' @ ?rest \<noteq> []" by simp
  then show ?thesis unfolding ParsePURL_def cut sub qual ver ty option.case Let_def fst_conv snd_conv by simp
qed

lemma ParsePURL_unencoded_scope_witness:
  "ParsePURL (''pkg:'' @ ''npm'' @ ''/@'' @ ''babel/core@7'') = Inl (MissingName (''pkg:'' @ ''npm'' @ ''/@'' @ ''babel/core@7''))"
proof -
  have "set ''npm'' \<inter> set ''/@?#'' = {}" "set ''babel/core@7'' \<inter> set ''?#'' = {}" by simp_all
  then show ?thesis by (rule ParsePURL_unencoded_scope)
qed

subsection \<open>Resolvers\<close>

lemma ParsePURL_name: "ParsePURL s = Inr p \<Longrightarrow> PName p \<noteq> []"
  by (auto simp: ParsePURL_def Let_def decodeSegment_nonempty split: if_split_asm option.split_asm)

lemma BundledResolver_empty: "BundledResolver d p = [] \<longleftrightarrow> Dict_Lookup d (PType p) (Namespace p) (PName p) = None"
  by (simp add: BundledResolver_def split: option.split)

text \<open>The local dictionary a chain was built with.\<close>

definition loaded :: "catalogue option \<Rightarrow> local_dictionary option" where
  "loaded cat = (case cat of None \<Rightarrow> None | Some c \<Rightarrow> (case LoadFromDir c of Inl e \<Rightarrow> None | Inr (x, skipped) \<Rightarrow> Some x))"

lemma ChainWithLocal_cases:
  assumes "ChainWithLocal d cat = Inr r"
  obtains (default) "loaded cat = None" "r = Chain [BundledResolver d, HeuristicResolver]"
  | (local) x where "loaded cat = Some x" "r = Chain [BundledResolver d, LocalDictionaryResolver x, HeuristicResolver]"
  using assms by (auto simp: ChainWithLocal_def loaded_def DefaultChain_def split: option.splits sum.splits)

lemma resolver_answers:
  "map (\<lambda>c. (Source c, Confidence c)) (BundledResolver d p) =
     (if Dict_Lookup d (PType p) (Namespace p) (PName p) \<noteq> None then [(SourceBundled, ConfidenceHigh)] else [])"
  "map (\<lambda>c. (Source c, Confidence c)) (LocalDictionaryResolver x p) =
     (if LocalDictionaryResolver x p \<noteq> [] then [(SourceLocalDict, ConfidenceHigh)] else [])"
  "map (\<lambda>c. (Source c, Confidence c)) (HeuristicResolver p) = (if PName p \<noteq> [] then [(SourceHeuristic, ConfidenceMedium)] else [])"
  "HeuristicResolver p = [] \<longleftrightarrow> PName p = []"
  by (simp_all add: BundledResolver_def LocalDictionaryResolver_def local_candidate_def HeuristicResolver_def Let_def split: option.split)

lemma resolver_cpe:
  "c \<in> set (BundledResolver d p) \<Longrightarrow> \<exists>v q. CPE c = Build v q (PVersion p)"
  "c \<in> set (HeuristicResolver p) \<Longrightarrow> \<exists>v q. CPE c = Build v q (PVersion p)"
  "c \<in> set (LocalDictionaryResolver x p) \<Longrightarrow> \<exists>v q. CPE c = Build v q (PVersion p)"
  by (fastforce simp: BundledResolver_def HeuristicResolver_def LocalDictionaryResolver_def local_candidate_def Let_def
      split: option.splits if_splits)+

text \<open>
  For every package URL the parser accepts, a chain gives exactly one candidate: the bundled
  dictionary's when it knows the package, else that of the local dictionary when one was loaded and it
  does, else the heuristic guess; the dictionaries' candidates have high confidence, the guess medium,
  and the CPE carries the version of the package URL.
\<close>
theorem ChainWithLocal_single:
  assumes "ParsePURL s = Inr p" and "ChainWithLocal d cat = Inr r"
  shows "map (\<lambda>c. (Source c, Confidence c)) (r p) =
      (if Dict_Lookup d (PType p) (Namespace p) (PName p) \<noteq> None then [(SourceBundled, ConfidenceHigh)]
       else if (case loaded cat of None \<Rightarrow> False | Some x \<Rightarrow> LocalDictionaryResolver x p \<noteq> []) then [(SourceLocalDict, ConfidenceHigh)]
       else [(SourceHeuristic, ConfidenceMedium)]) \<and>
    {c \<in> set (r p). CPE c \<notin> {Build v q (PVersion p) | v q. True}} = {}"
  using assms(2)
proof (cases rule: ChainWithLocal_cases)
  case default
  then show ?thesis using ParsePURL_name [OF assms(1)]
    by (auto simp: resolver_answers BundledResolver_empty dest: resolver_cpe)
next
  case (local x)
  then show ?thesis using ParsePURL_name [OF assms(1)]
    by (auto simp: resolver_answers BundledResolver_empty dest: resolver_cpe)
qed

definition sample_entry :: bundledEntry where
  "sample_entry = \<lparr>PurlType = ''npm'', PurlNamespace = [], PurlName = ''express'', BVendor = ''expressjs'', BProduct = ''express''\<rparr>"

lemma ChainWithLocal_single_witness:
  "map (\<lambda>c. (Source c, Confidence c))
     (DefaultChain (Some [sample_entry])
       \<lparr>PType = ''npm'', Namespace = [], PName = ''Express'', PVersion = ''4.1'', Qualifiers = [], Subpath = []\<rparr>) =
   [(SourceBundled, ConfidenceHigh)]"
proof -
  let ?p = "\<lparr>PType = ''npm'', Namespace = [], PName = ''Express'', PVersion = ''4.1'', Qualifiers = [], Subpath = []\<rparr>"
  have "ParsePURL ''pkg:npm/Express@4.1'' = Inr ?p" by code_simp
  moreover have "Dict_Lookup (Some [sample_entry]) (PType ?p) (Namespace ?p) (PName ?p) = Some sample_entry" by code_simp
  moreover have "ChainWithLocal (Some [sample_entry]) None = Inr (DefaultChain (Some [sample_entry]))"
    by (simp add: ChainWithLocal_def)
  ultimately show ?thesis using ChainWithLocal_single [of "''pkg:npm/Express@4.1''" ?p "Some [sample_entry]" None] by simp
qed

end
