(* ===== verification/CpeEnricher.thy ===== *)
theory CpeEnricher
  imports Cpe Pipeline
begin

text \<open>
  The CPE enricher (\<open>internal/enrich/cpe/enricher.go\<close>): per component it collects the input CPEs and
  the resolver's candidates, deduplicates and classifies them, and writes the primary CPE, the
  alternatives and, on request, the rejected candidates back as fields and properties.
\<close>

section \<open>Model\<close>

record cpe_enricher =
  chain :: resolver
  threshold :: Threshold
  includeRejected :: bool

record enrichStats =
  examined :: nat
  hadCPEAlready :: nat
  addedCPE :: nat
  validated :: nat
  noMatch :: nat
  noPURL :: nat
  purlError :: nat
  alternativesKept :: nat
  rejectedCount :: nat

definition zero_stats :: enrichStats where
  "zero_stats = \<lparr>examined = 0, hadCPEAlready = 0, addedCPE = 0, validated = 0, noMatch = 0, noPURL = 0,
     purlError = 0, alternativesKept = 0, rejectedCount = 0\<rparr>"

definition clearCPEProperties :: "component_data \<Rightarrow> component_data" where
  "clearCPEProperties c = c\<lparr>Properties := filter (\<lambda>kv. \<not> HasPrefix (fst kv) ''astinus:cpe:'') (Properties c)\<rparr>"

definition input_candidate :: "string \<Rightarrow> Candidate" where
  "input_candidate s =
     (if IsValidCPE s then
        \<lparr>CPE = s, Confidence = ConfidenceMedium, Source = SourceInput, CEvidenceNote = ''input SBOM'', RejectedReason = [],
         Details = no_details\<lparr>SearchMethod := ''purl-direct''\<rparr>\<rparr>
      else
        \<lparr>CPE = s, Confidence = ConfidenceReject, Source = SourceInput, CEvidenceNote = ''input SBOM'',
         RejectedReason = ''input CPE failed CPE 2.3 syntax validation'', Details = no_details\<rparr>)"

definition candidatesFromExistingCPEs :: "string list \<Rightarrow> Candidate list" where
  "candidatesFromExistingCPEs cpes = map input_candidate cpes"

definition formatConfidence :: "rat \<Rightarrow> string" where
  "formatConfidence x = fmt_2f x"

definition setValidationStamps :: "string list \<Rightarrow> component_data \<Rightarrow> component_data" where
  "setValidationStamps original c =
     (if original = [] then c
      else (let good = length (filter IsValidCPE original); bad = length (filter (\<lambda>s. \<not> IsValidCPE s) original) in
        if bad = 0 then setProp ''astinus:cpe:validated'' ''true'' c
        else if good = 0 then setProp ''astinus:cpe:invalid'' ''true'' (setProp ''astinus:cpe:validated'' ''false'' c)
        else setProp ''astinus:cpe:validated'' ''partial'' c))"

definition alternative_key :: "nat \<Rightarrow> string" where
  "alternative_key idx = ''astinus:cpe:alternative:'' @ nat_digits idx"

definition rejected_key :: "nat \<Rightarrow> string" where
  "rejected_key idx = ''astinus:cpe:rejected:'' @ nat_digits idx"

text \<open>The two loops that number the alternatives and the rejected candidates from 1.\<close>

fun write_alternatives :: "nat \<Rightarrow> Candidate list \<Rightarrow> component_data \<Rightarrow> component_data" where
  "write_alternatives i [] c = c"
| "write_alternatives i (alt # alts) c =
     write_alternatives (i + 1) alts
       (setProp (alternative_key (i + 1) @ '':confidence'') (formatConfidence (Confidence alt))
         (setProp (alternative_key (i + 1) @ '':source'') (Source alt)
           (setProp (alternative_key (i + 1)) (CPE alt) c)))"

fun write_rejected :: "bool \<Rightarrow> nat \<Rightarrow> Candidate list \<Rightarrow> component_data \<Rightarrow> component_data" where
  "write_rejected include i [] c = c"
| "write_rejected include i (rej # rejs) c =
     (if \<not> include then write_rejected include (i + 1) rejs c
      else (let c1 = setProp (rejected_key (i + 1) @ '':confidence'') (formatConfidence (Confidence rej))
              (setProp (rejected_key (i + 1) @ '':source'') (Source rej) (setProp (rejected_key (i + 1)) (CPE rej) c))
        in write_rejected include (i + 1) rejs
             (if RejectedReason rej \<noteq> [] then setProp (rejected_key (i + 1) @ '':reason'') (RejectedReason rej) c1 else c1)))"

text \<open>The part of \<open>writeResults\<close> before the loops, and whether it added a CPE.\<close>

definition write_primary :: "Candidate option \<Rightarrow> component_data \<Rightarrow> bool \<times> component_data" where
  "write_primary primary c =
     (let originalCPEs = CPEs c; c0 = c\<lparr>CPEs := []\<rparr> in
        case primary of
          Some p \<Rightarrow>
            (let c1 = setProp ''astinus:cpe:confidence'' (formatConfidence (Confidence p))
                   (setProp ''astinus:cpe:source'' (Source p) (c0\<lparr>CPEs := [CPE p]\<rparr>));
                 c2 = (if CEvidenceNote p \<noteq> [] then setProp ''astinus:cpe:evidence'' (CEvidenceNote p) c1 else c1)
             in (CPE p \<notin> set originalCPEs, setValidationStamps originalCPEs c2))
        | None \<Rightarrow>
            (if originalCPEs \<noteq> [] then
               (False, setProp ''astinus:cpe:lookup'' ''no-primary-above-threshold''
                  (setValidationStamps originalCPEs (c0\<lparr>CPEs := originalCPEs\<rparr>)))
             else (False, setProp ''astinus:cpe:lookup'' ''no-match'' c0)))"

definition writeResults ::
  "cpe_enricher \<Rightarrow> Candidate list \<Rightarrow> enrichStats \<Rightarrow> component_data \<Rightarrow> bool \<times> enrichStats \<times> component_data"
where
  "writeResults e cands stats c =
     (case Classify (DedupeCandidates cands) (threshold e) of (primary, alts, rejected) \<Rightarrow>
        (let w = write_primary primary c;
             c2 = write_rejected (includeRejected e) 0 rejected (write_alternatives 0 alts (snd w));
             stats2 = stats\<lparr>alternativesKept := alternativesKept stats + length alts,
                            rejectedCount := rejectedCount stats + length rejected\<rparr>
         in (fst w, stats2, c2)))"

fun purl_error_string :: "purl_error \<Rightarrow> string" where
  "purl_error_string EmptyPURL = ''purl: empty''"
| "purl_error_string (MissingPrefix s) = ''purl: missing pkg: prefix in '' @ Quote s"
| "purl_error_string (MissingSeparator s) = ''purl: missing type/name separator in '' @ Quote s"
| "purl_error_string (MissingName s) = ''purl: missing name in '' @ Quote s"

definition enrichOne :: "cpe_enricher \<Rightarrow> enrichStats \<Rightarrow> component_data \<Rightarrow> enrichStats \<times> component_data" where
  "enrichOne e stats0 c0 =
     (let c = clearCPEProperties c0;
          hadExisting = (CPEs c \<noteq> []);
          stats = stats0\<lparr>examined := examined stats0 + 1,
                    hadCPEAlready := hadCPEAlready stats0 + (if hadExisting then 1 else 0),
                    validated := validated stats0 + (if hadExisting then 1 else 0)\<rparr>;
          cands = candidatesFromExistingCPEs (CPEs c)
      in if PURL c = [] then
           (if \<not> hadExisting then (stats\<lparr>noPURL := noPURL stats + 1\<rparr>, c)
            else snd (writeResults e cands stats c))
         else (case ParsePURL (PURL c) of
             Inl err \<Rightarrow> (stats\<lparr>purlError := purlError stats + 1\<rparr>, setProp ''astinus:cpe:purl-error'' (purl_error_string err) c)
           | Inr purl \<Rightarrow>
               (let all_cands = cands @ chain e purl in
                  if all_cands = [] then
                    (stats\<lparr>noMatch := noMatch stats + 1\<rparr>, setProp ''astinus:cpe:lookup'' ''no-match'' c)
                  else (let w = writeResults e all_cands stats c in
                    if fst w then ((fst (snd w))\<lparr>addedCPE := addedCPE (fst (snd w)) + 1\<rparr>, snd (snd w)) else snd w))))"

definition Enrich_cpe :: "cpe_enricher \<Rightarrow> SBOM option \<Rightarrow> string option \<times> SBOM option \<times> enrichStats" where
  "Enrich_cpe e sbom =
     (case sbom of None \<Rightarrow> (Some ''cpe: nil sbom'', None, zero_stats)
      | Some s \<Rightarrow>
          (let w = walk_states (enrichOne e) zero_stats (Components s) in
             (None, Some (s\<lparr>Components := snd w\<rparr>), fst w)))"

definition cpe_New :: "bundledEntry list option \<Rightarrow> cpe_enricher" where
  "cpe_New d = \<lparr>chain = DefaultChain d, threshold = DefaultThreshold, includeRejected = False\<rparr>"

definition cpe_WithIncludeRejected :: "bool \<Rightarrow> cpe_enricher \<Rightarrow> cpe_enricher" where
  "cpe_WithIncludeRejected b e = e\<lparr>includeRejected := b\<rparr>"

definition cpe_WithThreshold :: "Threshold \<Rightarrow> cpe_enricher \<Rightarrow> cpe_enricher" where
  "cpe_WithThreshold t e = e\<lparr>threshold := t\<rparr>"

definition cpe_Dependencies :: "string list" where
  "cpe_Dependencies = [''untracked'', ''extractor'']"

section \<open>Lemmas\<close>

subsection \<open>What the enricher leaves alone\<close>

text \<open>Every field but the CPEs and the properties, and the properties outside the enricher's namespace.\<close>

definition cpe_frame :: "component_data \<Rightarrow> component_data \<times> props" where
  "cpe_frame d = (d\<lparr>CPEs := [], Properties := []\<rparr>, filter (\<lambda>kv. \<not> HasPrefix (fst kv) ''astinus:cpe:'') (Properties d))"

named_theorems cpe_writes \<open>operations that only write the enricher's own properties\<close>

lemma frame_setProp [cpe_writes]: "HasPrefix k ''astinus:cpe:'' \<Longrightarrow> cpe_frame (setProp k v d) = cpe_frame d"
  using filter_mput [of "\<lambda>k. \<not> HasPrefix k ''astinus:cpe:''" k v "Properties d"] by (simp add: cpe_frame_def setProp_def)

lemma frame_CPEs [cpe_writes]: "cpe_frame (d\<lparr>CPEs := x\<rparr>) = cpe_frame d"
  by (simp add: cpe_frame_def)

lemma cpe_keys [simp]: "HasPrefix (alternative_key i) ''astinus:cpe:''" "HasPrefix (alternative_key i @ t) ''astinus:cpe:''"
  "HasPrefix (rejected_key i) ''astinus:cpe:''" "HasPrefix (rejected_key i @ t) ''astinus:cpe:''"
  by (simp_all add: alternative_key_def rejected_key_def)

lemma frame_clear [cpe_writes]: "cpe_frame (clearCPEProperties d) = cpe_frame d"
  by (simp add: cpe_frame_def clearCPEProperties_def)

lemma frame_stamps [cpe_writes]: "cpe_frame (setValidationStamps original d) = cpe_frame d"
  by (simp add: setValidationStamps_def Let_def cpe_writes)

lemma frame_alternatives [cpe_writes]: "cpe_frame (write_alternatives i alts d) = cpe_frame d"
  by (induction alts arbitrary: i d) (simp_all add: cpe_writes)

lemma frame_rejected [cpe_writes]: "cpe_frame (write_rejected b i rejs d) = cpe_frame d"
proof (induction rejs arbitrary: i d)
  case (Cons rej rejs)
  then show ?case by (cases b) (simp_all add: cpe_writes Let_def)
qed simp

lemma frame_primary [cpe_writes]: "cpe_frame (snd (write_primary p d)) = cpe_frame d"
  by (simp add: write_primary_def Let_def cpe_writes split: option.split)

lemma frame_writeResults [cpe_writes]: "cpe_frame (snd (snd (writeResults e cands stats d))) = cpe_frame d"
  by (simp add: writeResults_def Let_def cpe_writes split: prod.split)

lemma enrichOne_frame: "cpe_frame (snd (enrichOne e stats d)) = cpe_frame d"
  by (simp add: enrichOne_def Let_def cpe_writes split: sum.split)

text \<open>The component does not depend on the statistics.\<close>

definition cpe_component :: "cpe_enricher \<Rightarrow> component_data \<Rightarrow> component_data" where
  "cpe_component e d = snd (enrichOne e zero_stats d)"

lemma writeResults_stats: "fst (writeResults e cands stats d) = fst (writeResults e cands stats' d)"
  "snd (snd (writeResults e cands stats d)) = snd (snd (writeResults e cands stats' d))"
  by (simp_all add: writeResults_def Let_def split: prod.split)

lemma enrichOne_component: "snd (enrichOne e stats d) = cpe_component e d"
  unfolding cpe_component_def enrichOne_def Let_def
  by (auto simp: writeResults_stats split: sum.split intro: writeResults_stats)

interpretation cpe_step: component_step "cpe_component e" cpe_frame for e
  by unfold_locales (simp add: cpe_component_def enrichOne_frame)

lemma Enrich_cpe_Some:
  "Enrich_cpe e (Some s) =
     (None, Some (s\<lparr>Components := walks (cpe_component e) (Components s)\<rparr>),
      foldl (\<lambda>st d. fst (enrichOne e st d)) zero_stats (all_components (Components s)))"
  using walk_state_stateless(2) [of "enrichOne e" "cpe_component e" zero_stats "Components s"]
    walk_state_fold(2) [of "enrichOne e" zero_stats "Components s"]
  by (simp add: Enrich_cpe_def Let_def enrichOne_component)

text \<open>The enricher as a member of the pipeline: it keeps every invariant of what it leaves alone.\<close>

definition cpe_sbom_frame :: "SBOM \<Rightarrow> SBOM \<times> (component_data \<times> props) list" where
  "cpe_sbom_frame s = (s\<lparr>Components := []\<rparr>, map cpe_frame (all_components (Components s)))"

definition cpe_pipeline_step :: "cpe_enricher \<Rightarrow> 'b \<Rightarrow> SBOM \<Rightarrow> string option \<times> SBOM" where
  "cpe_pipeline_step e b s = (let r = Enrich_cpe e (Some s) in (fst r, case fst (snd r) of None \<Rightarrow> s | Some t \<Rightarrow> t))"

interpretation cpe_invariant: sbom_invariant "cpe_pipeline_step e" "\<lambda>s. I (cpe_sbom_frame s)" for e I
  by unfold_locales (simp add: cpe_pipeline_step_def Enrich_cpe_Some cpe_sbom_frame_def comp_def cpe_step.step_frame)

subsection \<open>The primary CPE\<close>

lemma hd_sort_desc:
  assumes "xs \<noteq> []"
  shows "hd (sort_desc Confidence xs) = first_max xs"
proof -
  let ?s = "sort_desc Confidence xs"
  have ne: "?s \<noteq> []" using assms length_sort_desc [of Confidence xs] by (metis length_0_conv)
  then obtain c rest where s: "?s = c # rest" by (cases ?s) auto
  have "\<forall>x \<in> set xs. Confidence x \<le> Confidence c"
    using sorted_sort_desc [of Confidence xs] set_sort_desc [of Confidence xs] s by auto
  moreover have "c \<in> set xs" using set_sort_desc [of Confidence xs] s by auto
  ultimately have "filter (\<lambda>d. list_all (\<lambda>x. Confidence x \<le> Confidence d) xs) xs = filter (\<lambda>d. Confidence d = Confidence c) xs"
    by (intro filter_cong refl) (auto simp: list_all_iff intro: antisym)
  also have "\<dots> = filter (\<lambda>d. Confidence d = Confidence c) ?s" by (simp add: sort_desc_stable)
  finally show ?thesis by (simp add: first_max_def s)
qed

definition primary_of :: "Candidate list \<Rightarrow> Threshold \<Rightarrow> Candidate option" where
  "primary_of K t = fst (Classify (DedupeCandidates K) t)"

lemma dedupe_empty [simp]: "DedupeCandidates K = [] \<longleftrightarrow> K = []"
proof -
  have "set (first_occurrences (map CPE K)) = {} \<longleftrightarrow> K = []" by simp
  then show ?thesis by (simp add: DedupeCandidates_reference del: first_occurrences_simps)
qed

lemma Classify_primary:
  "fst (Classify D t) = (if D \<noteq> [] \<and> PrimaryMin t \<le> Confidence (first_max D) then Some (first_max D) else None)"
proof (cases "sort_desc Confidence D")
  case Nil
  then have "D = []" using length_sort_desc [of Confidence D] by simp
  then show ?thesis by (simp add: Classify_def sort_desc_def)
next
  case (Cons c rest)
  then have "D \<noteq> []" using length_sort_desc [of Confidence D] by force
  then have "c = first_max D" using hd_sort_desc [of D] Cons by simp
  then show ?thesis using Cons \<open>D \<noteq> []\<close> by (simp add: Classify_closed Let_def)
qed

lemma primary_of_eq:
  "primary_of K t = (let p = first_max (DedupeCandidates K) in if K \<noteq> [] \<and> PrimaryMin t \<le> Confidence p then Some p else None)"
  by (simp add: primary_of_def Classify_primary Let_def)

lemma merged_props:
  assumes "x \<in> set K" "CPE x = k"
  shows "CPE (merged K k) = k" and "Confidence x \<le> Confidence (merged K k)"
    and "\<exists>y \<in> set K. CPE y = k \<and> Confidence y = Confidence (merged K k)"
proof -
  have ne: "proposals k K \<noteq> []" using assms by (auto simp: proposals_empty)
  have x: "x \<in> set (proposals k K)" using assms by (simp add: proposals_def)
  have mem: "first_max (proposals k K) \<in> set K" "CPE (first_max (proposals k K)) = k"
    using first_max(1) [OF ne] by (auto simp: proposals_def)
  have eq: "CPE (merged K k) = CPE (first_max (proposals k K))" "Confidence (merged K k) = Confidence (first_max (proposals k K))"
    by (simp_all add: merged_def Let_def)
  show "CPE (merged K k) = k" using eq mem by simp
  show "Confidence x \<le> Confidence (merged K k)" using first_max(2) [OF ne] x eq by simp
  show "\<exists>y \<in> set K. CPE y = k \<and> Confidence y = Confidence (merged K k)" using mem eq by metis
qed

lemma dedupe_members:
  assumes "d \<in> set (DedupeCandidates K)"
  shows "\<exists>y \<in> set K. CPE y = CPE d \<and> Confidence y = Confidence d"
proof -
  obtain x where "x \<in> set K" "d = merged K (CPE x)" using assms by (auto simp: DedupeCandidates_reference)
  then show ?thesis using merged_props [of x K "CPE x"] by metis
qed

lemma dedupe_covers:
  assumes "x \<in> set K"
  shows "\<exists>d \<in> set (DedupeCandidates K). CPE d = CPE x \<and> Confidence x \<le> Confidence d"
  using assms merged_props [of x K "CPE x"] by (auto simp: DedupeCandidates_reference)

lemma first_max_Cons: "\<forall>x \<in> set xs. Confidence x \<le> Confidence a \<Longrightarrow> first_max (a # xs) = a"
  by (simp add: first_max_def list_all_iff)

lemma first_occurrences_Cons: "\<exists>ys. first_occurrences (x # xs) = x # ys"
proof (induction xs rule: rev_induct)
  case Nil
  show ?case by (simp add: first_occurrences_def)
next
  case (snoc y xs)
  then show ?case using first_occurrences_snoc [of "x # xs" y] by auto
qed

text \<open>Once chosen, the primary CPE is chosen again when it is the only input of the next run.\<close>

lemma primary_stable:
  assumes "primary_of (candidatesFromExistingCPEs cpes @ R) t = Some p"
  shows "\<exists>q. primary_of (candidatesFromExistingCPEs [CPE p] @ R) t = Some q \<and> CPE q = CPE p"
proof -
  let ?I = "candidatesFromExistingCPEs cpes" and ?K = "candidatesFromExistingCPEs cpes @ R"
  let ?K' = "input_candidate (CPE p) # R"
  have p: "p = first_max (DedupeCandidates ?K)" and min: "PrimaryMin t \<le> Confidence p" and ne: "?K \<noteq> []"
    using assms by (auto simp: primary_of_eq Let_def split: if_splits)
  have neD: "DedupeCandidates ?K \<noteq> []" using ne by (simp only: dedupe_empty not_False_eq_True)
  have pin: "p \<in> set (DedupeCandidates ?K)" and top: "\<forall>d \<in> set (DedupeCandidates ?K). Confidence d \<le> Confidence p"
    using first_max [OF neD] p by auto
  have max: "Confidence x \<le> Confidence p" if "x \<in> set R" for x
    using dedupe_covers [of x ?K] that top by force
  obtain y where y: "y \<in> set ?K" "CPE y = CPE p" "Confidence y = Confidence p" using dedupe_members [OF pin] by auto
  have "\<exists>x \<in> set ?K'. CPE x = CPE p \<and> Confidence x = Confidence p"
  proof (cases "y \<in> set R")
    case False
    then have "y = input_candidate (CPE p)"
      using y by (auto simp: candidatesFromExistingCPEs_def input_candidate_def split: if_splits)
    then show ?thesis using y by auto
  qed (use y in auto)
  then obtain x where x: "x \<in> set ?K'" "CPE x = CPE p" "Confidence x = Confidence p" by blast
  let ?q = "merged ?K' (CPE p)"
  have q: "CPE ?q = CPE p" "Confidence p \<le> Confidence ?q" using merged_props [OF x(1,2)] x(3) by auto
  have inp: "CPE (input_candidate (CPE p)) = CPE p" by (simp add: input_candidate_def)
  obtain ks where ks: "first_occurrences (map CPE ?K') = CPE p # ks"
    using first_occurrences_Cons [of "CPE p" "map CPE R"] inp by auto
  have D: "DedupeCandidates ?K' = ?q # map (merged ?K') ks" by (simp add: DedupeCandidates_reference ks del: list.map(2)) simp
  have inq: "Confidence (input_candidate (CPE p)) \<le> Confidence ?q"
    using merged_props(2) [of "input_candidate (CPE p)" ?K' "CPE p"] inp by simp
  have "Confidence d \<le> Confidence ?q" if "d \<in> set (DedupeCandidates ?K')" for d
    using dedupe_members [OF that] max q inq by force
  then have "first_max (DedupeCandidates ?K') = ?q" unfolding D by (intro first_max_Cons) auto
  then have "primary_of ?K' t = Some ?q" using min q by (simp add: primary_of_eq Let_def)
  then show ?thesis using q by (simp add: candidatesFromExistingCPEs_def)
qed

subsection \<open>The written fields\<close>

definition slate :: "cpe_enricher \<Rightarrow> component_data \<Rightarrow> Candidate list" where
  "slate e c = candidatesFromExistingCPEs (CPEs c) @
     (if PURL c = [] then [] else (case ParsePURL (PURL c) of Inl _ \<Rightarrow> [] | Inr p \<Rightarrow> chain e p))"

definition malformed_purl :: "component_data \<Rightarrow> bool" where
  "malformed_purl c \<longleftrightarrow> PURL c \<noteq> [] \<and> (case ParsePURL (PURL c) of Inl _ \<Rightarrow> True | Inr _ \<Rightarrow> False)"

lemma setProp_CPEs [simp]: "CPEs (setProp k v d) = CPEs d" "PURL (setProp k v d) = PURL d"
  by (simp_all add: setProp_def)

lemma clear_fields [simp]: "CPEs (clearCPEProperties d) = CPEs d" "PURL (clearCPEProperties d) = PURL d"
  by (simp_all add: clearCPEProperties_def)

lemma stamps_CPEs [simp]: "CPEs (setValidationStamps original d) = CPEs d"
  by (simp add: setValidationStamps_def Let_def)

lemma loops_CPEs [simp]: "CPEs (write_alternatives i alts d) = CPEs d" "CPEs (write_rejected b i rejs d) = CPEs d"
proof -
  show "CPEs (write_alternatives i alts d) = CPEs d" by (induction alts arbitrary: i d) simp_all
  show "CPEs (write_rejected b i rejs d) = CPEs d"
  proof (induction rejs arbitrary: i d)
    case (Cons rej rejs)
    then show ?case by (cases b) (simp_all add: Let_def)
  qed simp
qed

lemma writeResults_CPEs:
  "CPEs (snd (snd (writeResults e K stats d))) = (case primary_of K (threshold e) of Some p \<Rightarrow> [CPE p] | None \<Rightarrow> CPEs d)"
  by (auto simp: writeResults_def primary_of_def write_primary_def Let_def split: prod.split option.split)

lemma primary_of_Nil [simp]: "primary_of [] t = None"
  by (simp add: primary_of_eq)

lemma candidates_Nil [simp]: "candidatesFromExistingCPEs xs = [] \<longleftrightarrow> xs = []"
  by (simp add: candidatesFromExistingCPEs_def)

lemma candidates_of_Nil [simp]: "candidatesFromExistingCPEs [] = []"
  by simp

lemma component_CPEs:
  "CPEs (cpe_component e c) =
     (if malformed_purl c then CPEs c
      else (case primary_of (slate e c) (threshold e) of Some p \<Rightarrow> [CPE p] | None \<Rightarrow> CPEs c))"
proof (cases "PURL c = []")
  case True
  then show ?thesis
    by (cases "CPEs c = []") (simp_all add: cpe_component_def enrichOne_def malformed_purl_def slate_def Let_def
        writeResults_CPEs candidatesFromExistingCPEs_def cong: option.case_cong)
next
  case False
  then show ?thesis
    by (cases "ParsePURL (PURL c)") (auto simp: cpe_component_def enrichOne_def malformed_purl_def slate_def Let_def
        writeResults_CPEs cong: option.case_cong)
qed

lemma component_PURL [simp]: "PURL (cpe_component e c) = PURL c"
proof -
  have "cpe_frame (cpe_component e c) = cpe_frame c" by (rule cpe_step.step_frame)
  then have "fst (cpe_frame (cpe_component e c)) = fst (cpe_frame c)" by simp
  then have "PURL (fst (cpe_frame (cpe_component e c))) = PURL (fst (cpe_frame c))" by simp
  then show ?thesis by (simp add: cpe_frame_def)
qed

lemma component_CPEs_stable: "CPEs (cpe_component e (cpe_component e c)) = CPEs (cpe_component e c)"
proof (cases "malformed_purl c")
  case True
  then show ?thesis by (simp add: component_CPEs malformed_purl_def)
next
  case False
  then have ok: "\<not> malformed_purl (cpe_component e c)" by (simp add: malformed_purl_def)
  let ?R = "if PURL c = [] then [] else (case ParsePURL (PURL c) of Inl _ \<Rightarrow> [] | Inr p \<Rightarrow> chain e p)"
  show ?thesis
  proof (cases "primary_of (slate e c) (threshold e)")
    case None
    then have "CPEs (cpe_component e c) = CPEs c" using False by (simp add: component_CPEs)
    then have "slate e (cpe_component e c) = slate e c" by (simp add: slate_def)
    then show ?thesis using None ok by (simp add: component_CPEs [of e "cpe_component e c"])
  next
    case (Some p)
    then have cpes: "CPEs (cpe_component e c) = [CPE p]" using False by (simp add: component_CPEs)
    then have "slate e (cpe_component e c) = candidatesFromExistingCPEs [CPE p] @ ?R" by (simp add: slate_def)
    then obtain q where "primary_of (slate e (cpe_component e c)) (threshold e) = Some q" "CPE q = CPE p"
      using primary_stable Some unfolding slate_def by metis
    then show ?thesis using cpes ok by (simp add: component_CPEs [of e "cpe_component e c"])
  qed
qed

subsection \<open>The numbered properties\<close>

lemma digits_no_colon: "CHR '':'' \<notin> set (nat_digits n)"
  using nat_digits_digits [of "CHR '':''" n] by auto

lemma digits_neq_suffix [simp]: "nat_digits m \<noteq> nat_digits n @ CHR '':'' # t" "nat_digits n @ CHR '':'' # t \<noteq> nat_digits m"
proof -
  have "CHR '':'' \<in> set (nat_digits n @ CHR '':'' # t)" by simp
  then show "nat_digits m \<noteq> nat_digits n @ CHR '':'' # t" "nat_digits n @ CHR '':'' # t \<noteq> nat_digits m"
    using digits_no_colon [of m] by metis+
qed

lemma key_distinct [simp]:
  "alternative_key m = alternative_key n \<longleftrightarrow> m = n"
  "alternative_key m \<noteq> alternative_key n @ CHR '':'' # t"
  "alternative_key m \<noteq> rejected_key n @ t" "alternative_key m \<noteq> rejected_key n"
  by (simp_all add: alternative_key_def rejected_key_def nat_digits_inj)

lemma get_setProp: "mget (Properties (setProp k v d)) k' = (if k' = k then Some v else mget (Properties d) k')"
  by (simp add: setProp_def)

lemma alternatives_keep:
  "m \<le> i \<Longrightarrow> mget (Properties (write_alternatives i alts d)) (alternative_key m) = mget (Properties d) (alternative_key m)"
  by (induction alts arbitrary: i d) (simp_all add: get_setProp)

lemma alternatives_get:
  "j < length alts \<Longrightarrow> mget (Properties (write_alternatives i alts d)) (alternative_key (i + 1 + j)) = Some (CPE (alts ! j))"
proof (induction alts arbitrary: i j d)
  case (Cons alt alts)
  show ?case
  proof (cases j)
    case 0
    then show ?thesis by (simp add: alternatives_keep get_setProp)
  next
    case (Suc k)
    then show ?thesis using Cons.prems Cons.IH [of k "i + 1"] by simp
  qed
qed simp

lemma rejected_keep:
  "mget (Properties (write_rejected b i rejs d)) (alternative_key m) = mget (Properties d) (alternative_key m)"
proof (induction rejs arbitrary: i d)
  case (Cons rej rejs)
  then show ?case by (cases b) (simp_all add: get_setProp Let_def)
qed simp

lemma writeResults_alternative:
  assumes "Classify (DedupeCandidates K) (threshold e) = (pri, alts, rejected)" "j < length alts"
  shows "mget (Properties (snd (snd (writeResults e K stats d)))) (alternative_key (j + 1)) = Some (CPE (alts ! j))"
  using alternatives_get [OF assms(2), of 0] assms(1) by (simp add: writeResults_def Let_def rejected_keep)

lemma component_writeResults:
  assumes "\<not> malformed_purl c" "CPEs c \<noteq> []"
  shows "\<exists>stats. cpe_component e c = snd (snd (writeResults e (slate e c) stats (clearCPEProperties c)))"
  using assms by (cases "PURL c = []"; cases "ParsePURL (PURL c)")
     (auto simp: cpe_component_def enrichOne_def malformed_purl_def slate_def Let_def)

text \<open>Where a candidate at or above the alternative floor ends.\<close>

lemma kept_candidate:
  assumes "x \<in> set K" "AlternativeMin t \<le> Confidence x" "Classify (DedupeCandidates K) t = (pri, alts, rejected)"
  shows "(\<exists>p. pri = Some p \<and> CPE p = CPE x) \<or> (\<exists>j < length alts. CPE (alts ! j) = CPE x)"
proof -
  obtain d where d: "d \<in> set (DedupeCandidates K)" "CPE d = CPE x" "AlternativeMin t \<le> Confidence d"
    using dedupe_covers [OF assms(1)] assms(2) by force
  define ds where "ds = sort_desc Confidence (DedupeCandidates K)"
  have mem: "d \<in> set ds" using d by (simp add: ds_def)
  have "pri = Some d \<or> d \<in> set alts"
    using assms(3) mem d(3) unfolding Classify_closed ds_def [symmetric]
    by (cases ds) (auto simp: Let_def split: if_splits)
  then show ?thesis using d(2) by (metis in_set_conv_nth)
qed

lemma writeResults_added:
  "fst (writeResults e K stats d) = (case primary_of K (threshold e) of Some p \<Rightarrow> CPE p \<notin> set (CPEs d) | None \<Rightarrow> False)"
  "addedCPE (fst (snd (writeResults e K stats d))) = addedCPE stats"
  by (auto simp: writeResults_def primary_of_def write_primary_def Let_def split: prod.split option.split)

lemma enrichOne_counts:
  "examined (fst (enrichOne e st d)) = examined st + 1"
  "hadCPEAlready (fst (enrichOne e st d)) = hadCPEAlready st + (if CPEs d \<noteq> [] then 1 else 0)"
  "validated (fst (enrichOne e st d)) = validated st + (if CPEs d \<noteq> [] then 1 else 0)"
  "noPURL (fst (enrichOne e st d)) = noPURL st + (if PURL d = [] \<and> CPEs d = [] then 1 else 0)"
  "purlError (fst (enrichOne e st d)) = purlError st + (if malformed_purl d then 1 else 0)"
  by (auto simp: enrichOne_def writeResults_def malformed_purl_def Let_def split: sum.split prod.split)

lemma enrichOne_added:
  "addedCPE (fst (enrichOne e st d)) = addedCPE st +
     (if PURL d \<noteq> [] \<and> \<not> set (CPEs (cpe_component e d)) \<subseteq> set (CPEs d) then 1 else 0)"
proof (cases "PURL d = []")
  case True
  then show ?thesis by (simp add: enrichOne_def Let_def writeResults_added)
next
  case False
  then show ?thesis
    by (cases "ParsePURL (PURL d)"; cases "primary_of (slate e d) (threshold e)")
       (auto simp: enrichOne_def Let_def writeResults_added component_CPEs malformed_purl_def slate_def)
qed

section \<open>Properties\<close>

text \<open>
  C13.  With the default thresholds no valid CPE of the input is lost: for a component whose package
  URL parses, it is afterwards the component's CPE, one of its CPEs, or the value of one of the
  numbered alternative properties.
\<close>
theorem valid_input_kept:
  assumes "Enrich_cpe e (Some sbom) = (None, Some sbom', stats)" and "threshold e = DefaultThreshold"
    and "c \<in> set (all_components (Components sbom))" and "\<not> malformed_purl c"
    and "s \<in> set (CPEs c)" and "IsValidCPE s"
  shows "\<exists>c' \<in> set (all_components (Components sbom')). cpe_frame c' = cpe_frame c \<and>
    (s \<in> set (CPEs c') \<or> (\<exists>i. mget (Properties c') (alternative_key i) = Some s))"
proof -
  let ?c = "cpe_component e c"
  obtain pri alts rejected where cls: "Classify (DedupeCandidates (slate e c)) (threshold e) = (pri, alts, rejected)"
    by (metis prod_cases3)
  have "input_candidate s \<in> set (slate e c)" using assms(5) by (simp add: slate_def candidatesFromExistingCPEs_def)
  moreover have "AlternativeMin (threshold e) \<le> Confidence (input_candidate s)" "CPE (input_candidate s) = s"
    using assms(2,6) by (simp_all add: input_candidate_def DefaultThreshold_def ConfidenceMedium_def)
  ultimately consider p where "pri = Some p" "CPE p = s" | j where "j < length alts" "CPE (alts ! j) = s"
    using kept_candidate [OF _ _ cls] by metis
  then have "s \<in> set (CPEs ?c) \<or> (\<exists>i. mget (Properties ?c) (alternative_key i) = Some s)"
  proof cases
    case (1 p)
    then have "primary_of (slate e c) (threshold e) = Some p" using cls by (simp add: primary_of_def)
    then show ?thesis using 1 assms(4) by (simp add: component_CPEs)
  next
    case (2 j)
    obtain st where "?c = snd (snd (writeResults e (slate e c) st (clearCPEProperties c)))"
      using component_writeResults [OF assms(4)] assms(5) by (metis empty_iff list.set(1))
    then show ?thesis using writeResults_alternative [OF cls 2(1)] 2(2) by metis
  qed
  moreover have "?c \<in> set (all_components (Components sbom'))"
    using assms(1,3) by (auto simp: Enrich_cpe_Some)
  ultimately show ?thesis using cpe_step.step_frame [of e c] by blast
qed

text \<open>
  Whatever the resolver and the thresholds, the enricher writes nothing but CPEs and properties of
  its own namespace, on any component, and enriching a second time leaves every component's CPEs as
  the first run left them.
\<close>
theorem Enrich_cpe_stable:
  "case Enrich_cpe e (Some sbom) of (err, out, stats) \<Rightarrow> err = None \<and>
     (case out of None \<Rightarrow> False
      | Some s1 \<Rightarrow> cpe_sbom_frame s1 = cpe_sbom_frame sbom \<and>
          (case fst (snd (Enrich_cpe e (Some s1))) of None \<Rightarrow> False
           | Some s2 \<Rightarrow> map CPEs (all_components (Components s2)) = map CPEs (all_components (Components s1))))"
  by (simp add: Enrich_cpe_Some cpe_sbom_frame_def del: map_map)
     (simp add: cpe_step.step_frame component_CPEs_stable)

text \<open>
  The numbers of the enricher's log add up: every component is examined, and the components that
  have no package URL and no CPE, whose package URL is malformed, or for which nothing was found are
  disjoint; a component counted as gaining a CPE has one it did not have.
\<close>
theorem Enrich_cpe_statistics:
  "case Enrich_cpe e (Some sbom) of (err, out, stats) \<Rightarrow>
     let cs = all_components (Components sbom) in
       examined stats = length cs \<and>
       hadCPEAlready stats = length (filter (\<lambda>c. CPEs c \<noteq> []) cs) \<and> validated stats = hadCPEAlready stats \<and>
       noPURL stats = length (filter (\<lambda>c. PURL c = [] \<and> CPEs c = []) cs) \<and>
       purlError stats = length (filter malformed_purl cs) \<and>
       addedCPE stats = length (filter (\<lambda>c. PURL c \<noteq> [] \<and> \<not> set (CPEs (cpe_component e c)) \<subseteq> set (CPEs c)) cs)"
proof -
  have "examined (foldl (\<lambda>st d. fst (enrichOne e st d)) st cs) = examined st + length cs"
    "hadCPEAlready (foldl (\<lambda>st d. fst (enrichOne e st d)) st cs) = hadCPEAlready st + length (filter (\<lambda>c. CPEs c \<noteq> []) cs)"
    "validated (foldl (\<lambda>st d. fst (enrichOne e st d)) st cs) = validated st + length (filter (\<lambda>c. CPEs c \<noteq> []) cs)"
    "noPURL (foldl (\<lambda>st d. fst (enrichOne e st d)) st cs) = noPURL st + length (filter (\<lambda>c. PURL c = [] \<and> CPEs c = []) cs)"
    "purlError (foldl (\<lambda>st d. fst (enrichOne e st d)) st cs) = purlError st + length (filter malformed_purl cs)"
    "addedCPE (foldl (\<lambda>st d. fst (enrichOne e st d)) st cs) = addedCPE st +
       length (filter (\<lambda>c. PURL c \<noteq> [] \<and> \<not> set (CPEs (cpe_component e c)) \<subseteq> set (CPEs c)) cs)"
    for st cs
    by (induction cs arbitrary: st) (simp_all add: enrichOne_counts enrichOne_added)
  then show ?thesis by (simp add: Enrich_cpe_Some zero_stats_def)
qed

section \<open>Witnesses\<close>

definition sample_cpe :: string where
  "sample_cpe = CPE_String \<lparr>Part = ''a'', Vendor = ''acme'', Product = ''express'', CVersion = ''4.1'', Update = [],
     Edition = [], Language = [], SwEdition = [], TargetSw = [], TargetHw = [], Other = []\<rparr>"

definition sample_component :: component_data where
  "sample_component = empty_component\<lparr>Name := ''express'', PURL := ''pkg:npm/express@4.1'', CPEs := [sample_cpe]\<rparr>"

lemma valid_input_kept_witness:
  "\<exists>sbom' stats. Enrich_cpe (cpe_New (Some [sample_entry])) (Some (empty_sbom\<lparr>Components := [Component sample_component []]\<rparr>)) =
      (None, Some sbom', stats) \<and>
    (\<exists>c' \<in> set (all_components (Components sbom')). cpe_frame c' = cpe_frame sample_component \<and>
      (sample_cpe \<in> set (CPEs c') \<or> (\<exists>i. mget (Properties c') (alternative_key i) = Some sample_cpe)))"
proof -
  let ?s = "empty_sbom\<lparr>Components := [Component sample_component []]\<rparr>" and ?e = "cpe_New (Some [sample_entry])"
  obtain sbom' stats where run: "Enrich_cpe ?e (Some ?s) = (None, Some sbom', stats)"
    using Enrich_cpe_Some [of ?e ?s] by blast
  moreover have "sample_component \<in> set (all_components (Components ?s))" by simp
  moreover have "\<not> malformed_purl sample_component" by code_simp
  moreover have "sample_cpe \<in> set (CPEs sample_component)" by (simp add: sample_component_def)
  moreover have "IsValidCPE sample_cpe" by code_simp
  moreover have "threshold ?e = DefaultThreshold" by (simp add: cpe_New_def)
  ultimately show ?thesis using valid_input_kept [OF run] by blast
qed

end
