(* ===== verification/ContentHash.thy ===== *)
theory ContentHash
  imports Layer "HOL-Library.Word" Complex_Main
begin

text \<open>
  Content-addressed index of a base image (\<open>internal/enrich/basediff/contenthash\<close>): the Bloom filter
  over 64-bit words, the base set it fronts, the per-scan hash cache and the two scans.  Indexing out
  of a slice panics in Go; those operations return \<^const>\<open>None\<close> then.  SHA-256 is a parameter, and so
  is whether reading an entry's body fails; the filter's size is computed with real logarithms.
\<close>

unbundle bit_operations_syntax

section \<open>The Bloom filter\<close>

record bloom =
  bits :: "64 word list"
  nBits :: "64 word"
  nHashes :: nat

definition bloom_m :: "int \<Rightarrow> real \<Rightarrow> real" where
  "bloom_m n p = - real_of_int n * ln p / (ln 2 * ln 2)"

definition newBloom :: "int \<Rightarrow> real \<Rightarrow> bloom" where
  "newBloom expectedItems0 fpRate0 =
     (let expectedItems = (if expectedItems0 < 1 then 1 else expectedItems0);
          fpRate = (if fpRate0 \<le> 0 \<or> 1 \<le> fpRate0 then 1 / 100 else fpRate0);
          mFloat = bloom_m expectedItems fpRate;
          m0 = (word_of_int \<lceil>mFloat\<rceil> :: 64 word);
          m = (if m0 < 64 then 64 else m0);
          k0 = \<lceil>mFloat / real_of_int expectedItems * ln 2\<rceil>;
          k = (if k0 < 1 then 1 else nat k0)
      in \<lparr>bits = replicate (unat ((m + 63) div 64)) 0, nBits = m, nHashes = k\<rparr>)"

text \<open>\<open>hex.Decode\<close> into a zeroed array: it stops at the first invalid pair and keeps what it has.\<close>

definition hex_value :: "char \<Rightarrow> nat option" where
  "hex_value c =
     (let n = (of_char c :: nat) in
        if 48 \<le> n \<and> n \<le> 57 then Some (n - 48)
        else if 97 \<le> n \<and> n \<le> 102 then Some (n - 87)
        else if 65 \<le> n \<and> n \<le> 70 then Some (n - 55)
        else None)"

fun hex_pairs :: "string \<Rightarrow> 64 word list" where
  "hex_pairs (a # b # rest) =
     (case (hex_value a, hex_value b) of
        (Some hi, Some lo) \<Rightarrow> word_of_nat (16 * hi + lo) # hex_pairs rest
      | _ \<Rightarrow> [])"
| "hex_pairs _ = []"

definition be64 :: "64 word list \<Rightarrow> 64 word" where
  "be64 bs = foldl (\<lambda>acc b. 256 * acc + b) 0 bs"

definition bloomHashes :: "string \<Rightarrow> 64 word \<times> 64 word" where
  "bloomHashes s =
     (let raw = take 16 (hex_pairs (if 32 \<le> length s then take 32 s else take (2 * (length s div 2)) s) @ replicate 16 0);
          h1 = be64 (take 8 raw); h2 = be64 (drop 8 raw)
      in (h1, if h2 = 0 then 1 else h2))"

definition bloom_index :: "bloom \<Rightarrow> string \<Rightarrow> nat \<Rightarrow> 64 word" where
  "bloom_index b s i = (fst (bloomHashes s) + word_of_nat i * snd (bloomHashes s)) mod nBits b"

definition set_index :: "64 word \<Rightarrow> 64 word list \<Rightarrow> 64 word list option" where
  "set_index idx ws =
     (let j = unat (idx div 64) in
        if length ws \<le> j then None else Some (ws[j := ws ! j OR push_bit (unat (idx mod 64)) 1]))"

definition get_index :: "64 word \<Rightarrow> 64 word list \<Rightarrow> bool option" where
  "get_index idx ws =
     (let j = unat (idx div 64) in
        if length ws \<le> j then None else Some (ws ! j AND push_bit (unat (idx mod 64)) 1 \<noteq> 0))"

fun add_loop :: "64 word list \<Rightarrow> 64 word list \<Rightarrow> 64 word list option" where
  "add_loop [] ws = Some ws"
| "add_loop (idx # idxs) ws = (case set_index idx ws of None \<Rightarrow> None | Some ws' \<Rightarrow> add_loop idxs ws')"

fun test_loop :: "64 word list \<Rightarrow> 64 word list \<Rightarrow> bool option" where
  "test_loop [] ws = Some True"
| "test_loop (idx # idxs) ws =
     (case get_index idx ws of None \<Rightarrow> None | Some False \<Rightarrow> Some False | Some True \<Rightarrow> test_loop idxs ws)"

definition bloom_add :: "string \<Rightarrow> bloom \<Rightarrow> bloom option" where
  "bloom_add s b = map_option (\<lambda>ws. b\<lparr>bits := ws\<rparr>) (add_loop (map (bloom_index b s) [0..<nHashes b]) (bits b))"

definition bloom_test :: "bloom \<Rightarrow> string \<Rightarrow> bool option" where
  "bloom_test b s = test_loop (map (bloom_index b s) [0..<nHashes b]) (bits b)"

section \<open>The base set\<close>

record ch_evidence =
  BasePath :: string
  LayerIndex :: nat
  ESize :: nat

record BaseSet =
  filter_bloom :: bloom
  exact :: "ch_evidence gomap"
  basePaths :: "unit gomap"

definition NewBaseSet :: "int \<Rightarrow> BaseSet" where
  "NewBaseSet expectedFiles =
     \<lparr>filter_bloom = newBloom (if expectedFiles < 1 then 1 else expectedFiles) (1 / 100), exact = [], basePaths = []\<rparr>"

definition Add :: "string \<Rightarrow> ch_evidence \<Rightarrow> BaseSet \<Rightarrow> BaseSet option" where
  "Add h ev b =
     (case bloom_add h (filter_bloom b) of None \<Rightarrow> None
      | Some f \<Rightarrow> Some
          \<lparr>filter_bloom = f,
           exact = (if mget (exact b) h = None then mput h ev (exact b) else exact b),
           basePaths = (if BasePath ev \<noteq> [] then mput (BasePath ev) () (basePaths b) else basePaths b)\<rparr>)"

text \<open>The answer of \<open>Contains\<close>: the evidence of a hit.  The outer \<^const>\<open>None\<close> is a panic.\<close>

definition BaseSet_Contains :: "BaseSet \<Rightarrow> string \<Rightarrow> ch_evidence option option" where
  "BaseSet_Contains b h =
     (case bloom_test (filter_bloom b) h of None \<Rightarrow> None
      | Some hit \<Rightarrow> Some (if \<not> hit then None else mget (exact b) h))"

definition HasPath :: "BaseSet \<Rightarrow> string \<Rightarrow> bool" where
  "HasPath b p \<longleftrightarrow> mget (basePaths b) p \<noteq> None"

definition BaseSet_Size :: "BaseSet \<Rightarrow> nat" where
  "BaseSet_Size b = length (exact b)"

definition PathCount :: "BaseSet \<Rightarrow> nat" where
  "PathCount b = length (basePaths b)"

section \<open>The hash cache\<close>

text \<open>The digits of a positive \<open>int64\<close>, most significant first; the buffer holds twenty bytes.\<close>

function itoa_digits :: "int \<Rightarrow> string" where
  "itoa_digits n = (if n \<le> 0 then [] else itoa_digits (n div 10) @ [char_of (48 + nat (n mod 10))])"
  by pat_completeness auto
termination by (relation "measure nat") auto

definition itoa :: "64 word \<Rightarrow> string" where
  "itoa n =
     (if n = 0 then ''0''
      else (let neg = (sint n < 0); m = (if neg then - n else n) in
        (if neg then ''-'' else []) @ itoa_digits (sint m)))"

type_synonym HashCache = "string gomap option"

definition HashCache_Key :: "string \<Rightarrow> 64 word \<Rightarrow> string" where
  "HashCache_Key path sz = path @ char_of (0 :: nat) # itoa sz"

definition HashCache_Get :: "HashCache \<Rightarrow> string \<Rightarrow> string option" where
  "HashCache_Get c key = (case c of None \<Rightarrow> None | Some m \<Rightarrow> mget m key)"

definition HashCache_Set :: "string \<Rightarrow> string \<Rightarrow> HashCache \<Rightarrow> HashCache" where
  "HashCache_Set key hash c = (case c of None \<Rightarrow> None | Some m \<Rightarrow> Some (mput key hash m))"

section \<open>The scans\<close>

definition MaxFileBytes :: nat where "MaxFileBytes = 2 ^ 30"
definition DefaultExpectedFiles :: int where "DefaultExpectedFiles = 10000"

definition HashStream :: "(string \<Rightarrow> string) \<Rightarrow> bool \<Rightarrow> string \<Rightarrow> (string \<times> nat) option" where
  "HashStream sha fails body = (if fails then None else Some (sha body, length body))"

text \<open>The visitors' states: a base set, \<^const>\<open>None\<close> after a panic, and the target's hash by path.\<close>

definition base_visitor ::
  "(string \<Rightarrow> string) \<Rightarrow> (tar_header \<Rightarrow> bool) \<Rightarrow> BaseSet option visitor"
where
  "base_visitor sha fails st fe =
     (case HashStream sha (fails (EHeader fe)) (take MaxFileBytes (Body (EHeader fe))) of
        None \<Rightarrow> (st, SkipFile)
      | Some (hash, n) \<Rightarrow>
          ((case st of None \<Rightarrow> None
            | Some b \<Rightarrow> Add hash \<lparr>BasePath = EPath fe, LayerIndex = InfoIndex (ELayer fe), ESize = n\<rparr> b), VisitOk))"

definition target_visitor ::
  "(string \<Rightarrow> string) \<Rightarrow> (tar_header \<Rightarrow> bool) \<Rightarrow> string gomap visitor"
where
  "target_visitor sha fails st fe =
     (case HashStream sha (fails (EHeader fe)) (take MaxFileBytes (Body (EHeader fe))) of
        None \<Rightarrow> (st, SkipFile)
      | Some (hash, n) \<Rightarrow> (mput (EPath fe) hash st, VisitOk))"

datatype scan_error = ScanNilImage | ScanWalk layer_error

definition BuildBaseSet ::
  "(nat \<Rightarrow> string option) \<Rightarrow> (nat \<Rightarrow> nat \<Rightarrow> string option) \<Rightarrow> (string \<Rightarrow> string) \<Rightarrow> (tar_header \<Rightarrow> bool) \<Rightarrow>
   v1_image option \<Rightarrow> scan_error + BaseSet option"
where
  "BuildBaseSet ctx ectx sha fails img =
     (if img = None then Inl ScanNilImage
      else (case WalkFiles ctx ectx img (Some (base_visitor sha fails)) (Some (NewBaseSet DefaultExpectedFiles)) of
          (Some err, _) \<Rightarrow> Inl (ScanWalk err)
        | (None, b) \<Rightarrow> Inr b))"

definition ScanTarget ::
  "(nat \<Rightarrow> string option) \<Rightarrow> (nat \<Rightarrow> nat \<Rightarrow> string option) \<Rightarrow> (string \<Rightarrow> string) \<Rightarrow> (tar_header \<Rightarrow> bool) \<Rightarrow>
   v1_image option \<Rightarrow> scan_error + string gomap"
where
  "ScanTarget ctx ectx sha fails img =
     (if img = None then Inl ScanNilImage
      else (case WalkFiles ctx ectx img (Some (target_visitor sha fails)) [] of
          (Some err, _) \<Rightarrow> Inl (ScanWalk err)
        | (None, out) \<Rightarrow> Inr out))"

section \<open>The filter's contract\<close>

text \<open>
  What a set index asks of the filter in front of it: adding and testing do not panic, an added key
  tests positive, and adding never makes a positive key negative.
\<close>

locale membership_filter =
  fixes add :: "'k \<Rightarrow> 'f \<Rightarrow> 'f option"
    and test :: "'f \<Rightarrow> 'k \<Rightarrow> bool option"
    and ok :: "'f \<Rightarrow> bool"
  assumes add_total: "ok f \<Longrightarrow> \<exists>f'. add k f = Some f' \<and> ok f'"
    and test_total: "ok f \<Longrightarrow> test f k \<noteq> None"
    and add_test: "ok f \<Longrightarrow> add k f = Some f' \<Longrightarrow> test f' k = Some True"
    and add_keeps: "ok f \<Longrightarrow> add k f = Some f' \<Longrightarrow> test f k' = Some True \<Longrightarrow> test f' k' = Some True"
begin

fun add_all :: "'k list \<Rightarrow> 'f \<Rightarrow> 'f option" where
  "add_all [] f = Some f"
| "add_all (k # ks) f = (case add k f of None \<Rightarrow> None | Some f' \<Rightarrow> add_all ks f')"

lemma add_all_keeps: "ok f \<Longrightarrow> add_all ks f = Some f' \<Longrightarrow> test f k = Some True \<Longrightarrow> test f' k = Some True"
proof (induction ks arbitrary: f)
  case (Cons k' ks)
  obtain f1 where f1: "add k' f = Some f1" "ok f1" using add_total [OF Cons.prems(1)] by blast
  then show ?case using Cons add_keeps [OF Cons.prems(1) f1(1)] by simp
qed simp

lemma no_false_negative: "ok f \<Longrightarrow> \<exists>f'. add_all ks f = Some f' \<and> ok f' \<and> (\<forall>k \<in> set ks. test f' k = Some True)"
proof (induction ks arbitrary: f)
  case (Cons k ks)
  obtain f1 where f1: "add k f = Some f1" "ok f1" using add_total [OF Cons.prems] by blast
  then obtain f' where f': "add_all ks f1 = Some f'" "ok f'" "\<forall>k \<in> set ks. test f' k = Some True"
    using Cons.IH by blast
  moreover have "test f' k = Some True"
    using add_all_keeps [OF f1(2) f'(1)] add_test [OF Cons.prems f1(1)] by blast
  ultimately show ?case using f1 by simp
qed simp

text \<open>A map behind the filter answers as the map alone when every key of the map tests positive.\<close>

lemma filtered_lookup:
  assumes "ok f" "\<And>k. m k \<noteq> None \<Longrightarrow> test f k = Some True"
  shows "(case test f k of None \<Rightarrow> None | Some hit \<Rightarrow> Some (if \<not> hit then None else m k)) = Some (m k)"
  using test_total [OF assms(1), of k] assms(2) [of k] by (cases "test f k"; cases "m k") auto

end

section \<open>The Bloom filter fulfils it\<close>

definition bloom_ok :: "bloom \<Rightarrow> bool" where
  "bloom_ok b \<longleftrightarrow> nBits b \<noteq> 0 \<and> unat (nBits b) \<le> 64 * length (bits b)"

definition bit_set :: "64 word list \<Rightarrow> 64 word \<Rightarrow> bool" where
  "bit_set ws idx \<longleftrightarrow> bit (ws ! unat (idx div 64)) (unat (idx mod 64))"

lemma index_in_range:
  assumes "bloom_ok b" "length ws = length (bits b)"
  shows "unat (bloom_index b s i div 64) < length ws"
proof -
  have "bloom_index b s i < nBits b"
    using assms(1) by (simp add: bloom_ok_def bloom_index_def word_mod_less_divisor word_gt_0)
  then have "unat (bloom_index b s i) < 64 * length ws" using assms by (simp add: bloom_ok_def word_less_nat_alt)
  then show ?thesis by (simp add: unat_div less_mult_imp_div_less mult.commute)
qed

lemma slot_less: "unat (idx mod (64 :: 64 word)) < 64"
  by (simp add: unat_mod)

lemma set_index_Some:
  "unat (idx div 64) < length ws \<Longrightarrow>
     \<exists>ws'. set_index idx ws = Some ws' \<and> length ws' = length ws \<and> bit_set ws' idx \<and> (\<forall>j. bit_set ws j \<longrightarrow> bit_set ws' j)"
  using slot_less [of idx]
  by (auto simp: set_index_def bit_set_def Let_def nth_list_update bit_simps)

lemma get_index_Some: "unat (idx div 64) < length ws \<Longrightarrow> get_index idx ws = Some (bit_set ws idx)"
  by (simp add: get_index_def bit_set_def Let_def bit_iff_and_push_bit_not_eq_0)

lemma add_loop_Some:
  "\<forall>idx \<in> set idxs. unat (idx div 64) < length ws \<Longrightarrow>
     \<exists>ws'. add_loop idxs ws = Some ws' \<and> length ws' = length ws \<and>
       (\<forall>idx \<in> set idxs. bit_set ws' idx) \<and> (\<forall>j. bit_set ws j \<longrightarrow> bit_set ws' j)"
proof (induction idxs arbitrary: ws)
  case (Cons idx idxs)
  then obtain ws1 where ws1: "set_index idx ws = Some ws1" "length ws1 = length ws" "bit_set ws1 idx"
      "\<forall>j. bit_set ws j \<longrightarrow> bit_set ws1 j"
    using set_index_Some [of idx ws] by auto
  moreover have "\<forall>idx \<in> set idxs. unat (idx div 64) < length ws1" using Cons.prems ws1 by simp
  ultimately show ?case using Cons.IH [of ws1] by auto
qed simp

lemma test_loop_Some:
  "\<forall>idx \<in> set idxs. unat (idx div 64) < length ws \<Longrightarrow> test_loop idxs ws = Some (\<forall>idx \<in> set idxs. bit_set ws idx)"
  by (induction idxs) (auto simp: get_index_Some split: bool.split)

lemma bloom_indices_in_range:
  "bloom_ok b \<Longrightarrow> \<forall>idx \<in> set (map (bloom_index b s) [0..<nHashes b]). unat (idx div 64) < length (bits b)"
  using index_in_range [of b "bits b" s] by auto

lemma bloom_test_Some:
  "bloom_ok b \<Longrightarrow> bloom_test b s = Some (\<forall>i < nHashes b. bit_set (bits b) (bloom_index b s i))"
  using test_loop_Some [OF bloom_indices_in_range [of b s]] by (auto simp: bloom_test_def)

lemma bloom_add_Some:
  assumes "bloom_ok b"
  shows "\<exists>ws. bloom_add s b = Some (b\<lparr>bits := ws\<rparr>) \<and> bloom_ok (b\<lparr>bits := ws\<rparr>) \<and>
    (\<forall>i < nHashes b. bit_set ws (bloom_index b s i)) \<and> (\<forall>j. bit_set (bits b) j \<longrightarrow> bit_set ws j)"
proof -
  obtain ws where "add_loop (map (bloom_index b s) [0..<nHashes b]) (bits b) = Some ws" "length ws = length (bits b)"
    "\<forall>idx \<in> set (map (bloom_index b s) [0..<nHashes b]). bit_set ws idx" "\<forall>j. bit_set (bits b) j \<longrightarrow> bit_set ws j"
    using add_loop_Some [OF bloom_indices_in_range [OF assms, of s]] by blast
  then show ?thesis using assms by (auto simp: bloom_add_def bloom_ok_def)
qed

lemma bloom_index_bits [simp]: "bloom_index (b\<lparr>bits := ws\<rparr>) s i = bloom_index b s i"
  by (simp add: bloom_index_def)

interpretation bloom_filter: membership_filter bloom_add bloom_test bloom_ok
proof unfold_locales
  show "\<exists>f'. bloom_add k f = Some f' \<and> bloom_ok f'" if "bloom_ok f" for f k
    using bloom_add_Some [OF that, of k] by blast
  show "bloom_test f k \<noteq> None" if "bloom_ok f" for f k
    using bloom_test_Some [OF that] by simp
  show "bloom_test f' k = Some True" if "bloom_ok f" "bloom_add k f = Some f'" for f k f'
    using bloom_add_Some [OF that(1), of k] that(2) bloom_test_Some [of f' k] by auto
  show "bloom_test f' k' = Some True" if "bloom_ok f" "bloom_add k f = Some f'" "bloom_test f k' = Some True" for f k f' k'
    using bloom_add_Some [OF that(1), of k] that(2,3) bloom_test_Some [OF that(1), of k'] bloom_test_Some [of f' k'] by auto
qed

subsection \<open>The size of a new filter\<close>

lemma ln_bounds: "1 / 2 \<le> ln (2 :: real)" "ln (1 / 100 :: real) \<le> 0" "- 99 \<le> ln (1 / 100 :: real)"
proof -
  have "ln (1 / 2 :: real) \<le> 1 / 2 - 1" by (rule ln_le_minus_one) simp
  moreover have "ln (1 / 2 :: real) = - ln 2" by (simp add: ln_div)
  ultimately show "1 / 2 \<le> ln (2 :: real)" by simp
  have "ln (1 / 100 :: real) = - ln 100" by (simp add: ln_div)
  moreover have "0 \<le> ln (100 :: real)" "ln (100 :: real) \<le> 99" using ln_le_minus_one [of "100 :: real"] by simp_all
  ultimately show "ln (1 / 100 :: real) \<le> 0" "- 99 \<le> ln (1 / 100 :: real)" by simp_all
qed

lemma bloom_m_bounds:
  assumes "1 \<le> n" "n \<le> 2 ^ 48"
  shows "0 \<le> bloom_m n (1 / 100)" "bloom_m n (1 / 100) \<le> 2 ^ 57"
proof -
  have "real_of_int n \<le> real_of_int (2 ^ 48)" using assms(2) unfolding of_int_le_iff .
  then have n: "0 \<le> real_of_int n" "real_of_int n \<le> 2 ^ 48" using assms(1) by auto
  define l where "l = - ln (1 / 100 :: real)"
  define d where "d = ln 2 * ln (2 :: real)"
  have l: "0 \<le> l" "l \<le> 99" using ln_bounds(2,3) by (simp_all add: l_def)
  have "1 / 2 * (1 / 2) \<le> d" unfolding d_def using ln_bounds(1) by (intro mult_mono) auto
  then have d: "1 / 4 \<le> d" by simp
  have eq: "bloom_m n (1 / 100) = real_of_int n * l / d" by (simp add: bloom_m_def l_def d_def)
  show "0 \<le> bloom_m n (1 / 100)" unfolding eq using n l d by (intro divide_nonneg_nonneg mult_nonneg_nonneg) auto
  have "real_of_int n * l \<le> 2 ^ 48 * 99" using n l by (intro mult_mono) auto
  then have "real_of_int n * l / d \<le> (2 ^ 48 * 99) / (1 / 4)" using d n l by (intro frac_le) auto
  also have "\<dots> \<le> 2 ^ 57" by simp
  finally show "bloom_m n (1 / 100) \<le> 2 ^ 57" unfolding eq .
qed

lemma newBloom_ok:
  assumes "1 \<le> n" "n \<le> 2 ^ 48"
  shows "bloom_ok (newBloom n (1 / 100))" and "64 \<le> unat (nBits (newBloom n (1 / 100)))"
proof -
  define c where "c = \<lceil>bloom_m n (1 / 100)\<rceil>"
  define m where "m = (if (word_of_int c :: 64 word) < 64 then 64 else word_of_int c :: 64 word)"
  define k where "k = (if \<lceil>bloom_m n (1 / 100) / real_of_int n * ln 2\<rceil> < 1 then 1
      else nat \<lceil>bloom_m n (1 / 100) / real_of_int n * ln 2\<rceil>)"
  have eq: "newBloom n (1 / 100) = \<lparr>bits = replicate (unat ((m + 63) div 64)) 0, nBits = m, nHashes = k\<rparr>"
    using assms(1) by (simp add: newBloom_def Let_def c_def m_def k_def)
  have "\<lceil>bloom_m n (1 / 100)\<rceil> \<le> \<lceil>2 ^ 57 :: real\<rceil>" by (rule ceiling_mono) (rule bloom_m_bounds(2) [OF assms])
  then have r: "0 \<le> c" "c \<le> 2 ^ 57" using bloom_m_bounds(1) [OF assms] by (simp_all add: c_def)
  then have "uint (word_of_int c :: 64 word) = c" by (simp add: uint_word_of_int_eq take_bit_int_eq_self)
  then have "unat (word_of_int c :: 64 word) \<le> 2 ^ 57" using r by (simp flip: nat_uint_eq)
  then have m: "unat m \<le> 2 ^ 57" "64 \<le> unat m" by (auto simp: m_def word_less_nat_alt)
  then have "unat (m + 63) = unat m + 63" by (subst unat_add_lem [THEN iffD1]) simp_all
  then have len: "unat ((m + 63) div 64) = (unat m + 63) div 64" by (simp add: unat_div)
  have "m \<noteq> 0" using m by auto
  moreover have "unat m \<le> 64 * ((unat m + 63) div 64)" by simp
  ultimately show "bloom_ok (newBloom n (1 / 100))" unfolding eq bloom_ok_def by (simp only: bloom.simps length_replicate len) simp
  show "64 \<le> unat (nBits (newBloom n (1 / 100)))" unfolding eq using m by simp
qed

declare map_of_eq_Some_iff [simp del]

section \<open>The base set refines a map from hashes to their first evidence\<close>

fun add_entries :: "(string \<times> ch_evidence) list \<Rightarrow> BaseSet option \<Rightarrow> BaseSet option" where
  "add_entries [] st = st"
| "add_entries (e # es) st = add_entries es (case st of None \<Rightarrow> None | Some b \<Rightarrow> Add (fst e) (snd e) b)"

definition base_set_ok :: "BaseSet \<Rightarrow> bool" where
  "base_set_ok b \<longleftrightarrow> bloom_ok (filter_bloom b) \<and> map_ok (exact b) \<and> map_ok (basePaths b) \<and>
     (\<forall>h. mget (exact b) h \<noteq> None \<longrightarrow> bloom_test (filter_bloom b) h = Some True)"

lemma NewBaseSet_ok: "n \<le> 2 ^ 48 \<Longrightarrow> base_set_ok (NewBaseSet n)"
  using newBloom_ok(1) [of "if n < 1 then 1 else n"] by (auto simp: base_set_ok_def NewBaseSet_def)

lemma Add_ok:
  assumes "base_set_ok b"
  shows "\<exists>b'. Add h ev b = Some b' \<and> base_set_ok b' \<and>
    mget (exact b') = (case mget (exact b) h of None \<Rightarrow> (mget (exact b))(h \<mapsto> ev) | Some _ \<Rightarrow> mget (exact b)) \<and>
    (\<forall>p. HasPath b' p = (HasPath b p \<or> p \<noteq> [] \<and> p = BasePath ev))"
proof -
  have ok: "bloom_ok (filter_bloom b)" using assms by (simp add: base_set_ok_def)
  obtain f where f: "bloom_add h (filter_bloom b) = Some f" "bloom_ok f" using bloom_filter.add_total [OF ok] by blast
  have "bloom_test f h = Some True" by (rule bloom_filter.add_test [OF ok f(1)])
  moreover have "bloom_test f k = Some True" if "mget (exact b) k \<noteq> None" for k
    using assms that bloom_filter.add_keeps [OF ok f(1)] by (auto simp: base_set_ok_def)
  ultimately show ?thesis using assms f
    by (auto simp: Add_def base_set_ok_def HasPath_def split: option.split)
qed

lemma Contains_exact: "base_set_ok b \<Longrightarrow> BaseSet_Contains b h = Some (mget (exact b) h)"
  unfolding BaseSet_Contains_def base_set_ok_def by (rule bloom_filter.filtered_lookup) auto

lemma add_entries_ok:
  assumes "base_set_ok b"
  shows "\<exists>b'. add_entries es (Some b) = Some b' \<and> base_set_ok b' \<and>
    (\<forall>h. mget (exact b') h = (case mget (exact b) h of None \<Rightarrow> map_of es h | Some ev \<Rightarrow> Some ev)) \<and>
    (\<forall>p. HasPath b' p = (HasPath b p \<or> p \<noteq> [] \<and> p \<in> BasePath ` snd ` set es))"
  using assms
proof (induction es arbitrary: b)
  case Nil
  then show ?case by (auto split: option.split)
next
  case (Cons e es)
  obtain b1 where b1: "Add (fst e) (snd e) b = Some b1" "base_set_ok b1"
    "mget (exact b1) = (case mget (exact b) (fst e) of None \<Rightarrow> (mget (exact b))(fst e \<mapsto> snd e) | Some _ \<Rightarrow> mget (exact b))"
    "\<forall>p. HasPath b1 p = (HasPath b p \<or> p \<noteq> [] \<and> p = BasePath (snd e))"
    using Add_ok [OF Cons.prems] by blast
  obtain b' where b': "add_entries es (Some b1) = Some b'" "base_set_ok b'"
    "\<forall>h. mget (exact b') h = (case mget (exact b1) h of None \<Rightarrow> map_of es h | Some ev \<Rightarrow> Some ev)"
    "\<forall>p. HasPath b' p = (HasPath b1 p \<or> p \<noteq> [] \<and> p \<in> BasePath ` snd ` set es)"
    using Cons.IH [OF b1(2)] by blast
  have "mget (exact b') h = (case mget (exact b) h of None \<Rightarrow> map_of (e # es) h | Some ev \<Rightarrow> Some ev)" for h
    using b'(3) b1(3) by (cases e) (auto split: option.splits)
  moreover have "HasPath b' p = (HasPath b p \<or> p \<noteq> [] \<and> p \<in> BasePath ` snd ` set (e # es))" for p
    using b'(4) b1(4) by auto
  ultimately show ?case using b1(1) b'(1,2) by auto
qed

lemma NewBaseSet_empty [simp]: "mget (exact (NewBaseSet n)) h = None" "\<not> HasPath (NewBaseSet n) p"
  by (simp_all add: NewBaseSet_def HasPath_def)

section \<open>The scans, entry by entry\<close>

definition file_hash :: "(string \<Rightarrow> string) \<Rightarrow> FileEntry \<Rightarrow> string" where
  "file_hash sha fe = sha (take MaxFileBytes (Body (EHeader fe)))"

definition base_entry :: "(string \<Rightarrow> string) \<Rightarrow> FileEntry \<Rightarrow> string \<times> ch_evidence" where
  "base_entry sha fe = (file_hash sha fe,
     \<lparr>BasePath = EPath fe, LayerIndex = InfoIndex (ELayer fe), ESize = min MaxFileBytes (length (Body (EHeader fe)))\<rparr>)"

text \<open>The entries a scan reads: those the second pass delivers and whose body can be read.\<close>

definition readable :: "(tar_header \<Rightarrow> bool) \<Rightarrow> FileEntry list \<Rightarrow> FileEntry list" where
  "readable fails fes = filter (\<lambda>fe. \<not> fails (EHeader fe)) fes"

lemma base_visitor_run:
  "run_visitor (base_visitor sha fails) st fes = add_entries (map (base_entry sha) (readable fails fes)) st"
  by (induction fes arbitrary: st)
     (auto simp: base_visitor_def HashStream_def readable_def base_entry_def file_hash_def min.commute split: option.split)

lemma target_visitor_run:
  "mget (run_visitor (target_visitor sha fails) m fes) p =
     (case find (\<lambda>fe. EPath fe = p) (rev (readable fails fes)) of None \<Rightarrow> mget m p | Some fe \<Rightarrow> Some (file_hash sha fe))"
  by (induction fes arbitrary: m rule: rev_induct)
     (auto simp: target_visitor_def HashStream_def readable_def file_hash_def split: option.split)

section \<open>The decimal of a 64-bit integer\<close>

declare itoa_digits.simps [simp del]

lemma itoa_digits_nat: "0 < n \<Longrightarrow> itoa_digits n = nat_digits (nat n)"
proof (induction n rule: itoa_digits.induct)
  case (1 n)
  have m: "nat (n mod 10) = nat n mod 10" "nat (n div 10) = nat n div 10"
    using 1(2) by (simp_all add: nat_mod_distrib nat_div_distrib)
  show ?case
  proof (cases "n < 10")
    case True
    then have "n div 10 = 0" using 1(2) by simp
    then show ?thesis using True 1(2) m
      by (subst itoa_digits.simps, subst nat_digits.simps, subst itoa_digits.simps) (simp add: digit_char_def)
  next
    case False
    then have "itoa_digits (n div 10) = nat_digits (nat (n div 10))" using 1 by simp
    then show ?thesis using False 1(2) m
      by (subst itoa_digits.simps, subst nat_digits.simps) (simp add: digit_char_def)
  qed
qed

lemma length_nat_digits: "n < 10 ^ k \<Longrightarrow> 0 < k \<Longrightarrow> length (nat_digits n) \<le> k"
proof (induction k arbitrary: n)
  case (Suc k)
  show ?case
  proof (cases "n < 10")
    case True
    then show ?thesis by (subst nat_digits.simps) simp
  next
    case False
    then have "0 < k" using Suc.prems by (cases k) auto
    moreover have "n div 10 < 10 ^ k" using Suc.prems by (simp add: less_mult_imp_div_less mult.commute)
    ultimately show ?thesis using Suc.IH [of "n div 10"] False by (subst nat_digits.simps) simp
  qed
qed simp

lemma sint_range: "- (2 ^ 63) \<le> sint (n :: 64 word)" "sint (n :: 64 word) < 2 ^ 63"
  using sint_ge [of n] sint_lt [of n] by simp_all

lemma sint_neg: "sint (n :: 64 word) \<noteq> - (2 ^ 63) \<Longrightarrow> sint (- n) = - sint n"
  using sint_range [of n] by (simp add: sint_word_ariths(4) signed_take_bit_int_eq_self)

lemma itoa_min: "sint n = - (2 ^ 63) \<Longrightarrow> itoa n = ''-''"
proof -
  assume n: "sint n = - (2 ^ 63)"
  have "n = word_of_int (sint n)" by simp
  then have "n = word_of_int (- (2 ^ 63))" using n by simp
  then have "sint (- n) = - (2 ^ 63)" by simp
  then show ?thesis using n by (auto simp: itoa_def itoa_digits.simps)
qed

lemma itoa_other: "sint n \<noteq> - (2 ^ 63) \<Longrightarrow> itoa n = Itoa (sint n)"
proof (cases "n = 0")
  case True
  then show ?thesis by (simp add: itoa_def Itoa_def nat_digits.simps [of 0] digit_char_def char_of_numeral)
next
  case False
  assume "sint n \<noteq> - (2 ^ 63)"
  then have neg: "sint (- n) = - sint n" by (rule sint_neg)
  have "sint n \<noteq> 0"
  proof
    assume z: "sint n = 0"
    have "n = word_of_int (sint n)" by simp
    then show False using False z by simp
  qed
  then show ?thesis using False neg by (simp add: itoa_def Itoa_def itoa_digits_nat Let_def)
qed

lemma Itoa_chars: "c \<in> set (Itoa i) \<Longrightarrow> is_digit c \<or> c = CHR ''-''"
  by (auto simp: Itoa_def dest: nat_digits_digits split: if_splits)

lemma itoa_no_nul: "char_of (0 :: nat) \<notin> set (itoa n)"
proof
  assume a: "char_of (0 :: nat) \<in> set (itoa n)"
  have "\<not> is_digit (char_of (0 :: nat))" "char_of (0 :: nat) \<noteq> CHR ''-''" by (simp_all add: is_digit_def char_of_def)
  then show False
    using a itoa_min [of n] itoa_other [of n] Itoa_chars [of "char_of (0 :: nat)" "sint n"]
    by (cases "sint n = - (2 ^ 63)") auto
qed

text \<open>
  \<open>itoa\<close> agrees with \<open>strconv.FormatInt\<close> on every 64-bit integer but the smallest, whose negation
  wraps around to itself so that only the sign is written; the text always fits its buffer of twenty
  bytes.
\<close>
theorem itoa_correct:
  "itoa n = (if sint n = - (2 ^ 63) then ''-'' else Itoa (sint n)) \<and> length (itoa n) \<le> 20"
proof -
  have "nat \<bar>sint n\<bar> < 10 ^ 19" using sint_range [of n] by simp
  then have "length (nat_digits (nat \<bar>sint n\<bar>)) \<le> 19" by (intro length_nat_digits) simp_all
  then have "length (Itoa (sint n)) \<le> 20" by (simp add: Itoa_def abs_if split: if_splits)
  then show ?thesis using itoa_min [of n] itoa_other [of n] by auto
qed

lemma Itoa_inj: "Itoa i = Itoa j \<Longrightarrow> i = j"
proof -
  assume eq: "Itoa i = Itoa j"
  have sign: "hd (Itoa k) = CHR ''-'' \<longleftrightarrow> k < 0" for k
    using hd_nat_digits [of "nat k"] by (auto simp: Itoa_def)
  then have "i < 0 \<longleftrightarrow> j < 0" using eq by metis
  then show ?thesis using eq by (auto simp: Itoa_def nat_digits_inj split: if_splits)
qed

lemma split_at_last:
  assumes "u @ c # v = u' @ c # v'" "c \<notin> set v" "c \<notin> set v'"
  shows "u = u' \<and> v = v'"
proof -
  have "takeWhile (\<lambda>x. x \<noteq> c) (rev (u @ c # v)) = rev v" using assms(2) by (simp add: takeWhile_append takeWhile_eq_all_conv)
  moreover have "takeWhile (\<lambda>x. x \<noteq> c) (rev (u' @ c # v')) = rev v'" using assms(3) by (simp add: takeWhile_append takeWhile_eq_all_conv)
  ultimately have "v = v'" using assms(1) by (metis rev_is_rev_conv)
  then show ?thesis using assms(1) by simp
qed

lemma itoa_inj: "itoa m = itoa n \<Longrightarrow> m = n"
proof -
  assume eq: "itoa m = itoa n"
  have "Itoa k \<noteq> ''-''" for k
    using hd_nat_digits [of "nat k"] by (auto simp: Itoa_def)
  then have "sint m = sint n"
    using eq itoa_min [of m] itoa_min [of n] itoa_other [of m] itoa_other [of n] Itoa_inj by metis
  then have "word_of_int (sint m) = (word_of_int (sint n) :: 64 word)" by (rule arg_cong)
  then show ?thesis by simp
qed

text \<open>Distinct files of distinct sizes never share a cache slot.\<close>

lemma HashCache_Key_inj: "HashCache_Key p m = HashCache_Key q n \<longleftrightarrow> p = q \<and> m = n"
  unfolding HashCache_Key_def
  using split_at_last [OF _ itoa_no_nul itoa_no_nul, of p m q n] itoa_inj [of m n] by auto

section \<open>Properties of the scans\<close>

definition visible_files :: "(tar_header \<Rightarrow> bool) \<Rightarrow> v1_image \<Rightarrow> FileMap \<Rightarrow> FileEntry list" where
  "visible_files fails img fm =
     (case Layers img of Inl _ \<Rightarrow> [] | Inr layers \<Rightarrow> readable fails (delivered layers (FLayers fm) (layer_events 0 layers)))"

lemma BuildBaseSet_run:
  assumes "Walk (\<lambda>_. None) (Some img) = Inr fm"
  shows "BuildBaseSet (\<lambda>_. None) (\<lambda>_ _. None) sha fails (Some img) =
    Inr (add_entries (map (base_entry sha) (visible_files fails img fm)) (Some (NewBaseSet DefaultExpectedFiles)))"
proof -
  obtain layers where l: "Layers img = Inr layers" using assms by (auto simp: Walk_def split: sum.splits)
  have quiet: "\<forall>err. snd (base_visitor sha fails s e) \<noteq> VisitError err" for s e
    by (simp add: base_visitor_def split: option.split prod.split)
  show ?thesis using WalkFiles_run [OF assms l quiet] l
    by (simp add: BuildBaseSet_def base_visitor_run visible_files_def)
qed

lemma ScanTarget_run:
  assumes "Walk (\<lambda>_. None) (Some img) = Inr fm"
  shows "\<exists>m. ScanTarget (\<lambda>_. None) (\<lambda>_ _. None) sha fails (Some img) = Inr m \<and>
    (\<forall>p. mget m p = map_option (file_hash sha) (find (\<lambda>fe. EPath fe = p) (rev (visible_files fails img fm))))"
proof -
  obtain layers where l: "Layers img = Inr layers" using assms by (auto simp: Walk_def split: sum.splits)
  have quiet: "\<forall>err. snd (target_visitor sha fails s e) \<noteq> VisitError err" for s e
    by (simp add: target_visitor_def split: option.split prod.split)
  show ?thesis using WalkFiles_run [OF assms l quiet, where s = "[]"] l
    by (simp add: ScanTarget_def target_visitor_run visible_files_def split: option.split)
qed

text \<open>Even a scan that is interrupted leaves a well-formed set: no panic is ever reached.\<close>

lemma BuildBaseSet_no_panic:
  assumes "BuildBaseSet ctx ectx sha fails img = Inr r"
  shows "\<exists>b. r = Some b \<and> base_set_ok b"
proof -
  let ?I = "\<lambda>st. \<exists>b. st = Some b \<and> base_set_ok b"
  have step: "?I (fst (base_visitor sha fails st fe))" if st: "?I st" for st fe
  proof -
    obtain b where b: "st = Some b" "base_set_ok b" using st by blast
    show ?thesis
    proof (cases "fails (EHeader fe)")
      case True
      then show ?thesis using b by (simp add: base_visitor_def HashStream_def)
    next
      case False
      let ?n = "length (take MaxFileBytes (Body (EHeader fe)))"
      obtain b' where "Add (sha (take MaxFileBytes (Body (EHeader fe))))
          \<lparr>BasePath = EPath fe, LayerIndex = InfoIndex (ELayer fe), ESize = ?n\<rparr> b = Some b'" "base_set_ok b'"
        using Add_ok [OF b(2)] by blast
      then show ?thesis using False b by (simp add: base_visitor_def HashStream_def)
    qed
  qed
  have "base_set_ok (NewBaseSet DefaultExpectedFiles)" by (rule NewBaseSet_ok) (simp add: DefaultExpectedFiles_def)
  then have "?I (Some (NewBaseSet DefaultExpectedFiles))" by blast
  then have "?I (snd (WalkFiles ctx ectx img (Some (base_visitor sha fails)) (Some (NewBaseSet DefaultExpectedFiles))))"
    using WalkFiles_invariant [of ?I "base_visitor sha fails", OF step] by simp
  then show ?thesis using assms by (auto simp: BuildBaseSet_def split: if_splits prod.splits option.splits)
qed

lemma BuildBaseSet_index:
  assumes "Walk (\<lambda>_. None) (Some img) = Inr fm"
  shows "\<exists>b. BuildBaseSet (\<lambda>_. None) (\<lambda>_ _. None) sha fails (Some img) = Inr (Some b) \<and>
    (\<forall>h. BaseSet_Contains b h = Some (map_of (map (base_entry sha) (visible_files fails img fm)) h)) \<and>
    (\<forall>p. HasPath b p = (p \<noteq> [] \<and> p \<in> EPath ` set (visible_files fails img fm)))"
proof -
  have "base_set_ok (NewBaseSet DefaultExpectedFiles)" by (rule NewBaseSet_ok) (simp add: DefaultExpectedFiles_def)
  from add_entries_ok [OF this, of "map (base_entry sha) (visible_files fails img fm)"] obtain b where b:
    "add_entries (map (base_entry sha) (visible_files fails img fm)) (Some (NewBaseSet DefaultExpectedFiles)) = Some b" "base_set_ok b"
    "\<forall>h. mget (exact b) h = map_of (map (base_entry sha) (visible_files fails img fm)) h"
    "\<forall>p. HasPath b p = (p \<noteq> [] \<and> p \<in> BasePath ` snd ` set (map (base_entry sha) (visible_files fails img fm)))"
    by auto
  moreover have "BasePath ` snd ` set (map (base_entry sha) fes) = EPath ` set fes" for fes
    by (auto simp: base_entry_def image_image)
  ultimately show ?thesis using BuildBaseSet_run [OF assms] Contains_exact [OF b(2)] by simp
qed

text \<open>
  C19.  Scanning a base image whose layers can be read never panics and builds an exact index: behind
  its Bloom filter the set answers every hash as the plain map from the hashes of the visible readable
  files to the evidence of the first file with that hash, and it knows exactly their paths.
\<close>
theorem BuildBaseSet_exact:
  assumes "Walk (\<lambda>_. None) (Some img) = Inr fm"
  shows "\<exists>b. BuildBaseSet (\<lambda>_. None) (\<lambda>_ _. None) sha fails (Some img) = Inr (Some b) \<and>
    (\<forall>h. BaseSet_Contains b h = Some (map_of (map (base_entry sha) (visible_files fails img fm)) h)) \<and>
    (\<forall>p. HasPath b p = (p \<noteq> [] \<and> p \<in> EPath ` set (visible_files fails img fm)))"
  by (rule BuildBaseSet_index [OF assms])

lemma BuildBaseSet_exact_witness:
  "\<exists>b. BuildBaseSet (\<lambda>_. None) (\<lambda>_ _. None) (\<lambda>s. s) (\<lambda>_. False) (Some (image_of demo_layers)) = Inr (Some b) \<and>
    BaseSet_Contains b ''x'' = Some (Some \<lparr>BasePath = ''app/a'', LayerIndex = 1, ESize = 1\<rparr>) \<and> BaseSet_Contains b ''y'' = Some None \<and>
    HasPath b ''app/a'' \<and> \<not> HasPath b ''app/b''"
proof -
  let ?fm = "\<lparr>Paths = [(''app/a'', 1)], FLayers = demo_infos\<rparr>"
  have files: "visible_files (\<lambda>_. False) (image_of demo_layers) ?fm =
      [\<lparr>EPath = ''app/a'', ELayer = demo_infos ! 1, EHeader = file_at ''/app/a''\<rparr>]"
    by code_simp
  have "map (base_entry (\<lambda>s. s)) (visible_files (\<lambda>_. False) (image_of demo_layers) ?fm) =
      [(''x'', \<lparr>BasePath = ''app/a'', LayerIndex = 1, ESize = 1\<rparr>)]"
    unfolding files by (simp add: base_entry_def file_hash_def file_at_def MaxFileBytes_def demo_infos_def)
  then show ?thesis
    using BuildBaseSet_exact [OF demo_walk, of "\<lambda>s. s" "\<lambda>_. False"] unfolding files by auto
qed

end
