(* ===== verification/Basediff.thy ===== *)
theory Basediff
  imports ContentHash Attribution
begin

text \<open>
  The basediff enricher (\<open>internal/enrich/basediff\<close>): resolving the base image, the content strategy
  over the base set and the target's hashes, the layer and path fallbacks, and the partial heuristic
  when the base cannot be opened.  Opening the base image, SHA-256, body read failures and the context
  checks of the scans are the environment.
\<close>

section \<open>Model\<close>

datatype base_mode = ModeAuto | ModeExplicit | ModeNone | ModePartial | ModeOther int

record bd_options =
  OMode :: base_mode
  OReference :: string

record bd_env =
  OpenBase :: "string \<Rightarrow> string + image_bundle"
  Sha256 :: "string \<Rightarrow> string"
  ReadFails :: "tar_header \<Rightarrow> bool"
  BaseCtx :: "nat \<Rightarrow> string option"
  BaseEntryCtx :: "nat \<Rightarrow> nat \<Rightarrow> string option"
  TargetCtx :: "nat \<Rightarrow> string option"
  TargetEntryCtx :: "nat \<Rightarrow> nat \<Rightarrow> string option"
  DiffCtx :: "nat \<Rightarrow> string option"

definition PropertyBasediffStrategy :: string where "PropertyBasediffStrategy = ''astinus:basediff:strategy''"
definition PropertyBasediffMatchedBasePath :: string where
  "PropertyBasediffMatchedBasePath = ''astinus:basediff:matched-base-path''"
definition PropertyBasediffState :: string where "PropertyBasediffState = ''astinus:basediff:state''"

definition autoLabels :: "string list" where
  "autoLabels = [''org.opencontainers.image.base.name'', ''org.opencontainers.image.base.ref.name'']"

definition digestLabels :: "string list" where
  "digestLabels = [''org.opencontainers.image.base.digest'']"

fun firstNonEmpty :: "props \<Rightarrow> string list \<Rightarrow> string" where
  "firstNonEmpty m [] = []"
| "firstNonEmpty m (k # ks) =
     (case mget m k of None \<Rightarrow> firstNonEmpty m ks | Some v \<Rightarrow> if v \<noteq> [] then v else firstNonEmpty m ks)"

definition detectFromLabels :: "config_file option \<Rightarrow> string" where
  "detectFromLabels cfg =
     (case cfg of None \<Rightarrow> []
      | Some c \<Rightarrow>
          (let name = firstNonEmpty (Labels c) autoLabels; digest = firstNonEmpty (Labels c) digestLabels in
             if name = [] then []
             else if digest \<noteq> [] \<and> \<not> Contains name ''@'' then name @ ''@'' @ digest else name))"

definition resolveBaseRef :: "bd_options \<Rightarrow> v1_image \<Rightarrow> string + string" where
  "resolveBaseRef opts img =
     (case OMode opts of
        ModeExplicit \<Rightarrow>
          (if OReference opts = [] then Inl ''basediff: explicit mode requires Options.Reference'' else Inr (OReference opts))
      | ModeAuto \<Rightarrow>
          (case ConfigFile img of Inl err \<Rightarrow> Inl (''read image config: '' @ err) | Inr cfg \<Rightarrow> Inr (detectFromLabels cfg))
      | ModeNone \<Rightarrow> Inr []
      | ModePartial \<Rightarrow> Inl ''basediff: unknown mode 3''
      | ModeOther n \<Rightarrow> Inl (''basediff: unknown mode '' @ Itoa n))"

definition modeString :: "base_mode \<Rightarrow> string" where
  "modeString m = (case m of ModeAuto \<Rightarrow> ''auto'' | ModeExplicit \<Rightarrow> ''explicit'' | ModeNone \<Rightarrow> ''none''
     | ModePartial \<Rightarrow> ''partial'' | ModeOther n \<Rightarrow> ''unknown'')"

definition diffModeString :: "DiffMode \<Rightarrow> string" where
  "diffModeString m = (case m of DiffModePrefix \<Rightarrow> ''prefix'' | DiffModeFallback \<Rightarrow> ''fallback'')"

definition pathsForComponent :: "component_data \<Rightarrow> string list" where
  "pathsForComponent c =
     (case CEvidence c of None \<Rightarrow> [] | Some ev \<Rightarrow> filter (\<lambda>p. p \<noteq> []) (map Path (Locations ev))) @
     map snd (filter (\<lambda>kv. snd kv \<noteq> [] \<and> HasPrefix (fst kv) ''syft:location:'' \<and> HasSuffix (fst kv) '':path'') (Properties c))"

subsection \<open>The content strategy\<close>

record contentStats =
  SBase :: nat
  SModified :: nat
  SApp :: nat
  SUnknown :: nat

datatype path_verdict = Matched string | PathOnly | NoMatch | Panic

text \<open>The loop over a component's paths; the flag records a path the base image has too.\<close>

fun classify_paths :: "BaseSet \<Rightarrow> string gomap \<Rightarrow> bool \<Rightarrow> string list \<Rightarrow> path_verdict" where
  "classify_paths b target pathInBase [] = (if pathInBase then PathOnly else NoMatch)"
| "classify_paths b target pathInBase (p # ps) =
     (let key = normalizePath p in
        if key = [] then classify_paths b target pathInBase ps
        else (case mget target key of
            None \<Rightarrow> classify_paths b target (pathInBase \<or> HasPath b key) ps
          | Some hash \<Rightarrow>
              (case BaseSet_Contains b hash of
                 None \<Rightarrow> Panic
               | Some (Some ev) \<Rightarrow> Matched (BasePath ev)
               | Some None \<Rightarrow> classify_paths b target (pathInBase \<or> HasPath b key) ps)))"

definition setOrigin :: "string \<Rightarrow> component_data \<Rightarrow> component_data" where
  "setOrigin org c = c\<lparr>COrigin := org\<rparr>"

text \<open>The state is \<^const>\<open>None\<close> once the scan has panicked.\<close>

definition classifyComponent ::
  "BaseSet \<Rightarrow> string gomap \<Rightarrow> contentStats option \<Rightarrow> component_data \<Rightarrow> contentStats option \<times> component_data"
where
  "classifyComponent b target st c =
     (case st of None \<Rightarrow> (None, c)
      | Some stats \<Rightarrow>
          if pathsForComponent c = [] then (Some (stats\<lparr>SUnknown := SUnknown stats + 1\<rparr>), setOrigin OriginUnknown c)
          else (case classify_paths b target False (pathsForComponent c) of
              Panic \<Rightarrow> (None, c)
            | Matched bp \<Rightarrow> (Some (stats\<lparr>SBase := SBase stats + 1\<rparr>),
                setOrigin OriginBaseImage (setProp PropertyBasediffMatchedBasePath bp c))
            | PathOnly \<Rightarrow> (Some (stats\<lparr>SBase := SBase stats + 1, SModified := SModified stats + 1\<rparr>),
                setOrigin OriginBaseImage (setProp PropertyBasediffState ''modified'' c))
            | NoMatch \<Rightarrow> (Some (stats\<lparr>SApp := SApp stats + 1\<rparr>), setOrigin OriginApplication c)))"

definition zero_content :: contentStats where
  "zero_content = \<lparr>SBase = 0, SModified = 0, SApp = 0, SUnknown = 0\<rparr>"

text \<open>\<^const>\<open>None\<close> when the caller should fall back; otherwise the walk's state and components.\<close>

definition runContentStrategy ::
  "bd_env \<Rightarrow> SBOM \<Rightarrow> v1_image option \<Rightarrow> v1_image option \<Rightarrow> (contentStats option \<times> component list) option"
where
  "runContentStrategy env sbom target base =
     (case BuildBaseSet (BaseCtx env) (BaseEntryCtx env) (Sha256 env) (ReadFails env) base of
        Inl _ \<Rightarrow> None
      | Inr None \<Rightarrow> Some (None, Components sbom)
      | Inr (Some b) \<Rightarrow>
          (case ScanTarget (TargetCtx env) (TargetEntryCtx env) (Sha256 env) (ReadFails env) target of
             Inl _ \<Rightarrow> None
           | Inr hashes \<Rightarrow> Some (walk_states (classifyComponent b hashes) (Some zero_content) (Components sbom))))"

subsection \<open>The fallbacks\<close>

definition stampStrategy :: "string \<Rightarrow> SBOM \<Rightarrow> SBOM" where
  "stampStrategy strategy sbom = setMeta PropertyBasediffStrategy strategy sbom"

definition unknown_if_unset :: "component_data \<Rightarrow> component_data" where
  "unknown_if_unset c = (if COrigin c = [] then setOrigin OriginUnknown c else c)"

definition stampUnknown :: "SBOM \<Rightarrow> SBOM" where
  "stampUnknown sbom = sbom\<lparr>Components := walks unknown_if_unset (Components sbom)\<rparr>"

definition originFor :: "component_data \<Rightarrow> Diff \<Rightarrow> string" where
  "originFor c diff =
     (case Mode diff of
        DiffModePrefix \<Rightarrow>
          (case CLayerInfo c of None \<Rightarrow> OriginUnknown
           | Some li \<Rightarrow> if IsBaseLayer (Some diff) (LayerInfo.LayerIndex li) then OriginBaseImage else OriginApplication)
      | DiffModeFallback \<Rightarrow>
          (if list_ex (IsBasePath (Some diff)) (pathsForComponent c) then OriginBaseImage else OriginApplication))"

definition stampOriginWithMode :: "Diff \<Rightarrow> base_mode \<Rightarrow> SBOM \<Rightarrow> SBOM" where
  "stampOriginWithMode diff mode sbom =
     sbom\<lparr>Components := walks (\<lambda>c.
         let c1 = setOrigin (originFor c diff) c in
           if mode = ModePartial then setProp ''astinus:basediff:confidence'' ''low'' c1 else c1)
       (Components sbom)\<rparr>"

definition stampOrigin :: "Diff \<Rightarrow> SBOM \<Rightarrow> SBOM" where
  "stampOrigin diff sbom = stampOriginWithMode diff ModeAuto sbom"

definition handleNoBase :: "SBOM \<Rightarrow> SBOM" where
  "handleNoBase sbom = stampUnknown sbom"

definition handleBaseUnreachable :: "v1_image \<Rightarrow> SBOM \<Rightarrow> SBOM" where
  "handleBaseUnreachable img sbom =
     (let hasDigestLabel = (case ConfigFile img of
          Inr (Some cfg) \<Rightarrow> firstNonEmpty (Labels cfg) digestLabels \<noteq> [] | _ \<Rightarrow> False)
      in if \<not> hasDigestLabel then stampUnknown sbom
         else (case Layers img of
             Inl _ \<Rightarrow> stampUnknown sbom
           | Inr ls \<Rightarrow>
               if length ls < 2 then stampUnknown sbom
               else stampOriginWithMode \<lparr>Mode = DiffModePrefix, BasePrefix = length ls - 1, BasePaths = []\<rparr> ModePartial sbom))"

datatype bd_outcome = BdError string | BdPanic | BdDone SBOM

definition Enrich_basediff :: "bd_env \<Rightarrow> bd_options \<Rightarrow> SBOM option \<Rightarrow> image_bundle option \<Rightarrow> bd_outcome" where
  "Enrich_basediff env opts sbom bundle =
     (case (sbom, bundle) of
        (Some s, Some bd) \<Rightarrow>
          (case BImage bd of
             None \<Rightarrow> BdError ''basediff: missing sbom/bundle/image''
           | Some img \<Rightarrow>
               if OMode opts = ModeNone then BdDone s
               else (case resolveBaseRef opts img of
                   Inl err \<Rightarrow> BdDone (stampStrategy ''unavailable'' (handleNoBase s))
                 | Inr baseRef \<Rightarrow>
                     if baseRef = [] then BdDone (stampStrategy ''unavailable'' (handleNoBase s))
                     else (case OpenBase env baseRef of
                         Inl err \<Rightarrow> BdDone (stampStrategy ''unavailable'' (handleBaseUnreachable img s))
                       | Inr base \<Rightarrow>
                           (case runContentStrategy env s (Some img) (BImage base) of
                              Some (None, comps) \<Rightarrow> BdPanic
                            | Some (Some stats, comps) \<Rightarrow> BdDone (stampStrategy ''content'' (s\<lparr>Components := comps\<rparr>))
                            | None \<Rightarrow>
                                (case ComputeDiff (DiffCtx env) (Some img) (BImage base) of
                                   Inl err \<Rightarrow> BdDone (stampStrategy ''unavailable'' (stampUnknown s))
                                 | Inr diff \<Rightarrow> BdDone (stampStrategy ''path-fallback'' (stampOrigin diff s)))))))
      | _ \<Rightarrow> BdError ''basediff: missing sbom/bundle/image'')"

section \<open>Lemmas\<close>

definition hash_hit :: "BaseSet \<Rightarrow> string gomap \<Rightarrow> string \<Rightarrow> bool" where
  "hash_hit b target p \<longleftrightarrow> normalizePath p \<noteq> [] \<and>
     (case mget target (normalizePath p) of None \<Rightarrow> False | Some h \<Rightarrow> mget (exact b) h \<noteq> None)"

definition path_hit :: "BaseSet \<Rightarrow> string \<Rightarrow> bool" where
  "path_hit b p \<longleftrightarrow> normalizePath p \<noteq> [] \<and> HasPath b (normalizePath p)"

lemma classify_paths_verdict:
  assumes "base_set_ok b"
  shows "classify_paths b target seen ps \<noteq> Panic" and
    "(\<exists>bp. classify_paths b target seen ps = Matched bp) \<longleftrightarrow> list_ex (hash_hit b target) ps" and
    "classify_paths b target seen ps = PathOnly \<longleftrightarrow> \<not> list_ex (hash_hit b target) ps \<and> (seen \<or> list_ex (path_hit b) ps)"
  by (induction ps arbitrary: seen)
     (auto simp: Let_def hash_hit_def path_hit_def Contains_exact [OF assms] split: option.splits)

lemma matched_evidence:
  assumes "base_set_ok b" "classify_paths b target seen ps = Matched bp"
  shows "\<exists>p \<in> set ps. \<exists>h ev. mget target (normalizePath p) = Some h \<and> mget (exact b) h = Some ev \<and> bp = BasePath ev"
  using assms(2)
  by (induction ps arbitrary: seen)
     (auto simp: Let_def Contains_exact [OF assms(1)] split: if_splits option.splits)

text \<open>The origin the content strategy gives a component.\<close>

definition content_origin :: "BaseSet \<Rightarrow> string gomap \<Rightarrow> component_data \<Rightarrow> string" where
  "content_origin b target c =
     (if pathsForComponent c = [] then OriginUnknown
      else if list_ex (\<lambda>p. hash_hit b target p \<or> path_hit b p) (pathsForComponent c) then OriginBaseImage
      else OriginApplication)"

definition basediff_frame :: "component_data \<Rightarrow> component_data \<times> props" where
  "basediff_frame d = (d\<lparr>COrigin := [], Properties := []\<rparr>, filter (\<lambda>kv. \<not> HasPrefix (fst kv) ''astinus:basediff:'') (Properties d))"

lemma basediff_setProp [simp]: "HasPrefix k ''astinus:basediff:'' \<Longrightarrow> basediff_frame (setProp k v d) = basediff_frame d"
  using filter_mput [of "\<lambda>k. \<not> HasPrefix k ''astinus:basediff:''" k v "Properties d"]
  by (simp add: basediff_frame_def setProp_def)

lemma basediff_setOrigin [simp]: "basediff_frame (setOrigin x d) = basediff_frame d" "COrigin (setOrigin x d) = x"
  by (simp_all add: basediff_frame_def setOrigin_def)

lemma basediff_keys [simp]: "HasPrefix PropertyBasediffMatchedBasePath ''astinus:basediff:''"
  "HasPrefix PropertyBasediffState ''astinus:basediff:''"
  by (simp_all add: PropertyBasediffMatchedBasePath_def PropertyBasediffState_def)

lemma classifyComponent_result:
  assumes "base_set_ok b"
  shows "case classifyComponent b target (Some st) c of (st', c') \<Rightarrow>
     st' \<noteq> None \<and> COrigin c' = content_origin b target c \<and> basediff_frame c' = basediff_frame c"
proof -
  note v = classify_paths_verdict [OF assms, of target False "pathsForComponent c"]
  have any: "list_ex (\<lambda>p. P p \<or> Q p) ps \<longleftrightarrow> list_ex P ps \<or> list_ex Q ps" for P Q :: "string \<Rightarrow> bool" and ps
    by (auto simp: list_ex_iff)
  show ?thesis using v
    by (cases "classify_paths b target False (pathsForComponent c)")
       (auto simp: classifyComponent_def content_origin_def any)
qed

lemma classify_frame: "basediff_frame (snd (classifyComponent b target st c)) = basediff_frame c"
  by (simp add: classifyComponent_def split: option.split path_verdict.split)

definition content_component :: "BaseSet \<Rightarrow> string gomap \<Rightarrow> component_data \<Rightarrow> component_data" where
  "content_component b target c = snd (classifyComponent b target (Some zero_content) c)"

interpretation content_step: component_step "content_component b target" basediff_frame for b target
  by unfold_locales (simp add: content_component_def classify_frame)

lemma content_component_any: "snd (classifyComponent b target (Some st) c) = content_component b target c"
  by (simp add: content_component_def classifyComponent_def split: path_verdict.split)

lemma content_origin_of:
  assumes "base_set_ok b"
  shows "COrigin (content_component b target c) = content_origin b target c"
  using classifyComponent_result [OF assms, where target = target and st = zero_content and c = c] by (simp add: content_component_def split: prod.splits)

lemma runContentStrategy_result:
  assumes "BuildBaseSet (BaseCtx env) (BaseEntryCtx env) (Sha256 env) (ReadFails env) base = Inr (Some b)" "base_set_ok b"
    and "ScanTarget (TargetCtx env) (TargetEntryCtx env) (Sha256 env) (ReadFails env) target = Inr hashes"
  shows "\<exists>st. runContentStrategy env s target base = Some (Some st, walks (content_component b hashes) (Components s))"
proof -
  have "fst (classifyComponent b hashes st d) \<noteq> None \<and> snd (classifyComponent b hashes st d) = content_component b hashes d"
    if st: "st \<noteq> None" for st d
  proof -
    obtain y where "st = Some y" using st by blast
    then show ?thesis
      using classifyComponent_result [OF assms(2), where target = hashes and st = y and c = d] content_component_any [where b = b and target = hashes and st = y and c = d]
      by (auto split: prod.splits)
  qed
  from walk_state_invariant(2) [where I = "\<lambda>st. st \<noteq> None" and f = "classifyComponent b hashes" and
      s = "Some zero_content" and cs = "Components s", OF this]
  show ?thesis using assms(1,3) by (auto simp: runContentStrategy_def prod_eq_iff)
qed

lemma runContentStrategy_no_panic: "runContentStrategy env s target base \<noteq> Some (None, comps)"
proof
  assume run: "runContentStrategy env s target base = Some (None, comps)"
  then obtain r where r: "BuildBaseSet (BaseCtx env) (BaseEntryCtx env) (Sha256 env) (ReadFails env) base = Inr r"
    by (auto simp: runContentStrategy_def split: sum.splits)
  obtain b where b: "r = Some b" "base_set_ok b" using BuildBaseSet_no_panic [OF r] by blast
  with run r obtain hashes where "ScanTarget (TargetCtx env) (TargetEntryCtx env) (Sha256 env) (ReadFails env) target = Inr hashes"
    by (auto simp: runContentStrategy_def split: sum.splits)
  from runContentStrategy_result [OF r [unfolded b(1)] b(2) this, of s] run show False by force
qed

lemma runContentStrategy_cases:
  assumes "runContentStrategy env s target base = Some (Some st, comps)"
  obtains b hashes where "base_set_ok b" "comps = walks (content_component b hashes) (Components s)"
proof -
  obtain r where r: "BuildBaseSet (BaseCtx env) (BaseEntryCtx env) (Sha256 env) (ReadFails env) base = Inr r"
    using assms by (auto simp: runContentStrategy_def split: sum.splits)
  obtain b where b: "r = Some b" "base_set_ok b" using BuildBaseSet_no_panic [OF r] by blast
  with assms r obtain hashes where "ScanTarget (TargetCtx env) (TargetEntryCtx env) (Sha256 env) (ReadFails env) target = Inr hashes"
    by (auto simp: runContentStrategy_def split: sum.splits)
  from runContentStrategy_result [OF r [unfolded b(1)] b(2) this, of s] assms that [OF b(2)] show thesis by force
qed

text \<open>The outcomes of the enricher outside mode none: the components are rewritten one by one.\<close>

definition origin_known :: "component_data \<Rightarrow> bool" where
  "origin_known c \<longleftrightarrow> Origin_IsKnown (COrigin c)"

lemma known_origins [simp]: "Origin_IsKnown OriginUnknown" "Origin_IsKnown OriginBaseImage" "Origin_IsKnown OriginApplication"
  by (simp_all add: Origin_IsKnown_def)

lemma originFor_known [simp]: "Origin_IsKnown (originFor c diff)"
  by (simp add: originFor_def split: DiffMode.split option.split)

lemma content_origin_known [simp]: "Origin_IsKnown (content_origin b target c)"
  by (simp add: content_origin_def)

definition stamping :: "(component_data \<Rightarrow> component_data) \<Rightarrow> bool" where
  "stamping g \<longleftrightarrow> (\<forall>c. basediff_frame (g c) = basediff_frame c \<and> (COrigin c = [] \<or> Origin_IsKnown (COrigin c) \<longrightarrow> Origin_IsKnown (COrigin (g c))))"

lemma setProp_origin [simp]: "COrigin (setProp k v c) = COrigin c"
  by (simp add: setProp_def)

lemma stampings:
  "stamping unknown_if_unset"
  "stamping (\<lambda>c. let c1 = setOrigin (originFor c diff) c in if mode = ModePartial then setProp ''astinus:basediff:confidence'' ''low'' c1 else c1)"
  "base_set_ok b \<Longrightarrow> stamping (content_component b target)"
  by (auto simp: stamping_def unknown_if_unset_def Let_def content_step.step_frame content_origin_of)

lemma Enrich_basediff_stamps:
  assumes "OMode opts \<noteq> ModeNone" "BImage bd = Some img"
  shows "\<exists>g strategy. stamping g \<and> strategy \<in> set [''content'', ''path-fallback'', ''unavailable''] \<and>
    Enrich_basediff env opts (Some s) (Some bd) = BdDone (stampStrategy strategy (s\<lparr>Components := walks g (Components s)\<rparr>))"
proof -
  have unk: "\<exists>g. stamping g \<and> stampUnknown s = s\<lparr>Components := walks g (Components s)\<rparr>"
    using stampings(1) by (auto simp: stampUnknown_def)
  have diff: "\<exists>g. stamping g \<and> stampOriginWithMode d m s = s\<lparr>Components := walks g (Components s)\<rparr>" for d m
    using stampings(2) by (auto simp: stampOriginWithMode_def)
  have unr: "\<exists>g. stamping g \<and> handleBaseUnreachable img s = s\<lparr>Components := walks g (Components s)\<rparr>"
    using unk diff by (auto simp: handleBaseUnreachable_def Let_def split: sum.split option.split)
  define good where "good r \<longleftrightarrow> (\<exists>g strategy. stamping g \<and> strategy \<in> set [''content'', ''path-fallback'', ''unavailable''] \<and>
    r = BdDone (stampStrategy strategy (s\<lparr>Components := walks g (Components s)\<rparr>)))" for r
  have goodI: "good (BdDone (stampStrategy strategy t))"
    if "\<exists>g. stamping g \<and> t = s\<lparr>Components := walks g (Components s)\<rparr>" "strategy \<in> set [''content'', ''path-fallback'', ''unavailable'']"
    for t strategy
    using that unfolding good_def by blast
  have "good (Enrich_basediff env opts (Some s) (Some bd))"
  proof (cases "resolveBaseRef opts img")
    case (Inl err)
    then have "Enrich_basediff env opts (Some s) (Some bd) = BdDone (stampStrategy ''unavailable'' (stampUnknown s))"
      using assms by (simp add: Enrich_basediff_def handleNoBase_def)
    then show ?thesis using goodI [OF unk, of "''unavailable''"] by simp
  next
    case (Inr ref)
    show ?thesis
    proof (cases "ref = [] \<or> (\<exists>e. OpenBase env ref = Inl e)")
      case True
      then have "Enrich_basediff env opts (Some s) (Some bd) =
          BdDone (stampStrategy ''unavailable'' (if ref = [] then stampUnknown s else handleBaseUnreachable img s))"
        using assms Inr by (auto simp: Enrich_basediff_def handleNoBase_def)
      then show ?thesis using goodI [OF unk, of "''unavailable''"] goodI [OF unr, of "''unavailable''"] by (cases "ref = []") simp_all
    next
      case False
      then obtain base where base: "OpenBase env ref = Inr base" by (cases "OpenBase env ref") auto
      show ?thesis
      proof (cases "runContentStrategy env s (Some img) (BImage base)")
        case None
        then have eq: "Enrich_basediff env opts (Some s) (Some bd) =
            (case ComputeDiff (DiffCtx env) (Some img) (BImage base) of
               Inl err \<Rightarrow> BdDone (stampStrategy ''unavailable'' (stampUnknown s))
             | Inr d \<Rightarrow> BdDone (stampStrategy ''path-fallback'' (stampOriginWithMode d ModeAuto s)))"
          using assms Inr False base by (simp add: Enrich_basediff_def stampOrigin_def cong: sum.case_cong)
        have "good (BdDone (stampStrategy ''unavailable'' (stampUnknown s)))"
          "good (BdDone (stampStrategy ''path-fallback'' (stampOriginWithMode d ModeAuto s)))" for d
          by (rule goodI [OF unk], simp, rule goodI [OF diff], simp)
        then show ?thesis unfolding eq by (cases "ComputeDiff (DiffCtx env) (Some img) (BImage base)") simp_all
      next
        case (Some r)
        then obtain st comps where r: "r = (Some st, comps)"
          using runContentStrategy_no_panic [of env s "Some img" "BImage base"] by (cases r; cases "fst r") auto
        obtain b hashes where bh: "base_set_ok b" "comps = walks (content_component b hashes) (Components s)"
          using runContentStrategy_cases Some r by metis
        then have "\<exists>g. stamping g \<and> s\<lparr>Components := comps\<rparr> = s\<lparr>Components := walks g (Components s)\<rparr>"
          using stampings(3) by blast
        then have "good (BdDone (stampStrategy ''content'' (s\<lparr>Components := comps\<rparr>)))" by (rule goodI) simp
        moreover have "Enrich_basediff env opts (Some s) (Some bd) = BdDone (stampStrategy ''content'' (s\<lparr>Components := comps\<rparr>))"
          using assms Inr False base Some r by (simp add: Enrich_basediff_def)
        ultimately show ?thesis by simp
      qed
    qed
  qed
  then show ?thesis by (simp add: good_def)
qed

section \<open>Properties\<close>

text \<open>What the base and the target image say about a path of a component.\<close>

definition same_in_base :: "(string \<Rightarrow> string) \<Rightarrow> FileEntry list \<Rightarrow> FileEntry list \<Rightarrow> string \<Rightarrow> bool" where
  "same_in_base sha base_files target_files p \<longleftrightarrow>
     normalizePath p \<noteq> [] \<and>
     (normalizePath p \<in> EPath ` set base_files \<or>
      (case find (\<lambda>fe. EPath fe = normalizePath p) (rev target_files) of
         None \<Rightarrow> False | Some fe \<Rightarrow> file_hash sha fe \<in> file_hash sha ` set base_files))"

definition declared_origin :: "(string \<Rightarrow> string) \<Rightarrow> FileEntry list \<Rightarrow> FileEntry list \<Rightarrow> component_data \<Rightarrow> string" where
  "declared_origin sha base_files target_files c =
     (if pathsForComponent c = [] then OriginUnknown
      else if list_ex (same_in_base sha base_files target_files) (pathsForComponent c) then OriginBaseImage
      else OriginApplication)"

text \<open>
  C16.  When the base image opens and both images can be read, the enricher finishes with the content
  strategy and gives every component its declared origin: unknown without a path; base when some path
  of it holds, in the target, bytes the base image holds anywhere, or names a file of the base image;
  application otherwise.  Nothing else of a component changes but properties of its own namespace.
\<close>
theorem content_strategy_origins:
  assumes "OMode opts \<noteq> ModeNone" "resolveBaseRef opts img = Inr ref" "ref \<noteq> []"
    and "OpenBase env ref = Inr bb" "BImage bb = Some base" "BImage bd = Some img"
    and "Walk (\<lambda>_. None) (Some base) = Inr bfm" "Walk (\<lambda>_. None) (Some img) = Inr tfm"
    and "BaseCtx env = (\<lambda>_. None)" "BaseEntryCtx env = (\<lambda>_ _. None)" "TargetCtx env = (\<lambda>_. None)" "TargetEntryCtx env = (\<lambda>_ _. None)"
  shows "\<exists>s'. Enrich_basediff env opts (Some s) (Some bd) = BdDone s' \<and>
    metaProp s' PropertyBasediffStrategy = Some ''content'' \<and>
    map basediff_frame (all_components (Components s')) = map basediff_frame (all_components (Components s)) \<and>
    map COrigin (all_components (Components s')) =
      map (declared_origin (Sha256 env) (visible_files (ReadFails env) base bfm) (visible_files (ReadFails env) img tfm))
        (all_components (Components s))"
proof -
  let ?B = "visible_files (ReadFails env) base bfm" and ?T = "visible_files (ReadFails env) img tfm"
  obtain b where b: "BuildBaseSet (BaseCtx env) (BaseEntryCtx env) (Sha256 env) (ReadFails env) (Some base) = Inr (Some b)"
    "\<forall>h. BaseSet_Contains b h = Some (map_of (map (base_entry (Sha256 env)) ?B) h)"
    "\<forall>p. HasPath b p = (p \<noteq> [] \<and> p \<in> EPath ` set ?B)"
    using BuildBaseSet_index [OF assms(7)] assms(9,10) by metis
  have ok: "base_set_ok b" using BuildBaseSet_no_panic [OF b(1)] by blast
  obtain m where m: "ScanTarget (TargetCtx env) (TargetEntryCtx env) (Sha256 env) (ReadFails env) (Some img) = Inr m"
    "\<forall>p. mget m p = map_option (file_hash (Sha256 env)) (find (\<lambda>fe. EPath fe = p) (rev ?T))"
    using ScanTarget_run [OF assms(8)] assms(11,12) by metis
  have exact: "mget (exact b) h \<noteq> None \<longleftrightarrow> h \<in> file_hash (Sha256 env) ` set ?B" for h
  proof -
    have "mget (exact b) h = map_of (map (base_entry (Sha256 env)) ?B) h" using b(2) Contains_exact [OF ok, of h] by simp
    then show ?thesis by (simp add: map_of_eq_None_iff base_entry_def image_image)
  qed
  have "hash_hit b m p \<or> path_hit b p \<longleftrightarrow> same_in_base (Sha256 env) ?B ?T p" for p
    using exact b(3) m(2) by (auto simp: hash_hit_def path_hit_def same_in_base_def split: option.split)
  then have org: "content_origin b m c = declared_origin (Sha256 env) ?B ?T c" for c
    by (simp add: content_origin_def declared_origin_def)
  obtain st where "runContentStrategy env s (Some img) (Some base) = Some (Some st, walks (content_component b m) (Components s))"
    using runContentStrategy_result [OF b(1) ok m(1)] by blast
  then have "Enrich_basediff env opts (Some s) (Some bd) =
      BdDone (stampStrategy ''content'' (s\<lparr>Components := walks (content_component b m) (Components s)\<rparr>))"
    using assms by (simp add: Enrich_basediff_def)
  then show ?thesis
    by (simp add: stampStrategy_def content_origin_of [OF ok] org content_step.step_frame)
qed

text \<open>
  Outside mode none the enricher always finishes, without error or panic, whatever the images do:
  it records which strategy it used, changes only origins and its own properties, and leaves every
  component that came with no origin or a known one with a known one.
\<close>
theorem Enrich_basediff_total:
  assumes "OMode opts \<noteq> ModeNone" "BImage bd = Some img"
    and "list_all (\<lambda>c. COrigin c = [] \<or> Origin_IsKnown (COrigin c)) (all_components (Components s))"
  shows "\<exists>s' strategy. Enrich_basediff env opts (Some s) (Some bd) = BdDone s' \<and>
    metaProp s' PropertyBasediffStrategy = Some strategy \<and>
    strategy \<in> set [''content'', ''path-fallback'', ''unavailable''] \<and>
    map basediff_frame (all_components (Components s')) = map basediff_frame (all_components (Components s)) \<and>
    list_all (\<lambda>c. Origin_IsKnown (COrigin c)) (all_components (Components s'))"
proof -
  obtain g strategy where g: "stamping g" "strategy \<in> set [''content'', ''path-fallback'', ''unavailable'']"
    "Enrich_basediff env opts (Some s) (Some bd) = BdDone (stampStrategy strategy (s\<lparr>Components := walks g (Components s)\<rparr>))"
    using Enrich_basediff_stamps [OF assms(1,2)] by blast
  have "list_all (\<lambda>c. Origin_IsKnown (COrigin (g c))) (all_components (Components s))"
    using g(1) assms(3) by (auto simp: stamping_def list_all_iff)
  then show ?thesis using g unfolding stamping_def by (auto simp: stampStrategy_def list_all_iff)
qed

section \<open>Witnesses\<close>

definition demo_base :: "v1_layer list" where
  "demo_base = [layer_of ''d9'' [''lib/x'']]"

definition demo_base_map :: FileMap where
  "demo_base_map = \<lparr>Paths = [(''lib/x'', 0)], FLayers = [\<lparr>InfoIndex = 0, InfoDigest = ''d9'', CreatedBy = ''COPY'', EmptyLayer = False\<rparr>]\<rparr>"

definition demo_target_map :: FileMap where
  "demo_target_map = \<lparr>Paths = [(''app/a'', 1)], FLayers = demo_infos\<rparr>"

definition demo_env :: bd_env where
  "demo_env = \<lparr>OpenBase = (\<lambda>_. Inr \<lparr>BImage = Some (image_of demo_base), BRuntime = None, RuntimeEvidence = []\<rparr>),
     Sha256 = (\<lambda>s. s), ReadFails = (\<lambda>_. False), BaseCtx = (\<lambda>_. None), BaseEntryCtx = (\<lambda>_ _. None),
     TargetCtx = (\<lambda>_. None), TargetEntryCtx = (\<lambda>_ _. None), DiffCtx = (\<lambda>_. None)\<rparr>"

definition demo_options :: bd_options where
  "demo_options = \<lparr>OMode = ModeExplicit, OReference = ''base''\<rparr>"

definition located :: "string \<Rightarrow> component" where
  "located p = Component (empty_component\<lparr>Properties := [(''syft:location:0:path'', p)]\<rparr>) []"

definition demo_sbom :: SBOM where
  "demo_sbom = empty_sbom\<lparr>Components := [located ''/app/a'', located ''/app/z'', Component empty_component []]\<rparr>"

definition demo_bundle :: image_bundle where
  "demo_bundle = \<lparr>BImage = Some (image_of demo_layers), BRuntime = None, RuntimeEvidence = []\<rparr>"

lemma demo_walks:
  "Walk (\<lambda>_. None) (Some (image_of demo_base)) = Inr demo_base_map"
  "Walk (\<lambda>_. None) (Some (image_of demo_layers)) = Inr demo_target_map"
  by code_simp+

lemma content_strategy_origins_witness:
  "\<exists>s'. Enrich_basediff demo_env demo_options (Some demo_sbom) (Some demo_bundle) = BdDone s' \<and>
    map COrigin (all_components (Components s')) = [OriginBaseImage, OriginApplication, OriginUnknown]"
proof -
  have "visible_files (\<lambda>_. False) (image_of demo_base) demo_base_map =
      [\<lparr>EPath = ''lib/x'', ELayer = FLayers demo_base_map ! 0, EHeader = file_at ''lib/x''\<rparr>]"
    "visible_files (\<lambda>_. False) (image_of demo_layers) demo_target_map =
      [\<lparr>EPath = ''app/a'', ELayer = demo_infos ! 1, EHeader = file_at ''/app/a''\<rparr>]"
    by code_simp+
  moreover have "map (declared_origin (\<lambda>s. s)
      [\<lparr>EPath = ''lib/x'', ELayer = FLayers demo_base_map ! 0, EHeader = file_at ''lib/x''\<rparr>]
      [\<lparr>EPath = ''app/a'', ELayer = demo_infos ! 1, EHeader = file_at ''/app/a''\<rparr>]) (all_components (Components demo_sbom)) =
      [OriginBaseImage, OriginApplication, OriginUnknown]"
    by (simp add: declared_origin_def demo_sbom_def located_def pathsForComponent_def empty_component_def empty_sbom_def
        same_in_base_def file_hash_def file_at_def HasSuffix_def) code_simp
  ultimately have origins: "map (declared_origin (Sha256 demo_env) (visible_files (ReadFails demo_env) (image_of demo_base) demo_base_map)
      (visible_files (ReadFails demo_env) (image_of demo_layers) demo_target_map)) (all_components (Components demo_sbom)) =
      [OriginBaseImage, OriginApplication, OriginUnknown]"
    by (simp add: demo_env_def)
  have conds: "OMode demo_options \<noteq> ModeNone" "resolveBaseRef demo_options (image_of demo_layers) = Inr ''base''" "''base'' \<noteq> []"
    "OpenBase demo_env ''base'' = Inr \<lparr>BImage = Some (image_of demo_base), BRuntime = None, RuntimeEvidence = []\<rparr>"
    "BImage \<lparr>BImage = Some (image_of demo_base), BRuntime = None, RuntimeEvidence = []\<rparr> = Some (image_of demo_base)"
    "BImage demo_bundle = Some (image_of demo_layers)"
    by (simp_all add: demo_options_def demo_env_def demo_bundle_def resolveBaseRef_def)
  have quiet: "BaseCtx demo_env = (\<lambda>_. None)" "BaseEntryCtx demo_env = (\<lambda>_ _. None)" "TargetCtx demo_env = (\<lambda>_. None)"
    "TargetEntryCtx demo_env = (\<lambda>_ _. None)"
    by (simp_all add: demo_env_def)
  from content_strategy_origins [OF conds demo_walks quiet, of demo_sbom, unfolded origins] show ?thesis
    by (elim exE conjE, intro exI conjI) assumption+
qed

lemma Enrich_basediff_total_witness:
  "\<exists>s' strategy. Enrich_basediff demo_env demo_options (Some demo_sbom) (Some demo_bundle) = BdDone s' \<and>
    metaProp s' PropertyBasediffStrategy = Some strategy"
proof -
  have "list_all (\<lambda>c. COrigin c = [] \<or> Origin_IsKnown (COrigin c)) (all_components (Components demo_sbom))"
    by (simp add: demo_sbom_def located_def empty_component_def)
  moreover have "OMode demo_options \<noteq> ModeNone" "BImage demo_bundle = Some (image_of demo_layers)"
    by (simp_all add: demo_options_def demo_bundle_def)
  ultimately obtain s' strategy where "Enrich_basediff demo_env demo_options (Some demo_sbom) (Some demo_bundle) = BdDone s'"
    "metaProp s' PropertyBasediffStrategy = Some strategy"
    using Enrich_basediff_total [of demo_options demo_bundle "image_of demo_layers" demo_sbom demo_env] by metis
  then show ?thesis by blast
qed

end
