(* ===== verification/PathClassifier.thy ===== *)
theory PathClassifier
  imports Model
begin

text \<open>
  The declarative path classifier of the untracked enricher (\<open>internal/enrich/untracked/pathclassifier\<close>):
  rules, their loading and merging, the tries for prefixes and suffixes, and the dispatch over the
  five kinds of pattern.  The YAML decoder, \<open>filepath.Match\<close> and the regular expressions are parameters:
  a matcher of patterns against paths gives \<^const>\<open>None\<close> for a malformed pattern.
\<close>

section \<open>Rules\<close>

record Pattern =
  PatType :: string
  Values :: "string list"

record PathRule =
  RName :: string
  RDescription :: string
  RAction :: string
  RPattern :: Pattern
  Rationale :: string
  RConfidence :: rat
  AppliesTo :: "string list"

record Decision =
  DAction :: string
  RuleName :: string
  DReason :: string
  DConfidence :: rat

definition ActionSkip :: string where "ActionSkip = ''skip''"
definition ActionRedundantUnderArchive :: string where "ActionRedundantUnderArchive = ''redundant_under_archive''"
definition ActionMarkAsNoise :: string where "ActionMarkAsNoise = ''mark_as_noise''"
definition ActionMarkAsRedundant :: string where "ActionMarkAsRedundant = ''mark_as_redundant''"

definition PatternPrefix :: string where "PatternPrefix = ''prefix''"
definition PatternSuffix :: string where "PatternSuffix = ''suffix''"
definition PatternFilenameExact :: string where "PatternFilenameExact = ''filename_exact''"
definition PatternGlob :: string where "PatternGlob = ''glob''"
definition PatternRegex :: string where "PatternRegex = ''regex''"

lemmas actions = ActionSkip_def ActionRedundantUnderArchive_def ActionMarkAsNoise_def ActionMarkAsRedundant_def
lemmas pattern_types = PatternPrefix_def PatternSuffix_def PatternFilenameExact_def PatternGlob_def PatternRegex_def

definition no_decision :: Decision where
  "no_decision = \<lparr>DAction = [], RuleName = [], DReason = [], DConfidence = 0\<rparr>"

definition decisionFor :: "PathRule \<Rightarrow> Decision" where
  "decisionFor r = \<lparr>DAction = RAction r, RuleName = RName r, DReason = Rationale r, DConfidence = RConfidence r\<rparr>"

section \<open>The trie\<close>

datatype 'r trie = TrieNode (children: "(char \<times> 'r trie) list") (node_rule: "'r option")

definition newTrie :: "'r trie" where
  "newTrie = TrieNode [] None"

fun insert_at :: "string \<Rightarrow> 'r \<Rightarrow> 'r trie \<Rightarrow> 'r trie" where
  "insert_at [] r (TrieNode ch ru) = TrieNode ch (case ru of None \<Rightarrow> Some r | Some x \<Rightarrow> Some x)"
| "insert_at (c # cs) r (TrieNode ch ru) =
     TrieNode (AList.update c (insert_at cs r (case map_of ch c of None \<Rightarrow> newTrie | Some t \<Rightarrow> t)) ch) ru"

definition trie_insert :: "string \<Rightarrow> 'r \<Rightarrow> 'r trie \<Rightarrow> 'r trie" where
  "trie_insert pattern r t = (if pattern = [] then t else insert_at pattern r t)"

fun longest_from :: "'r option \<Rightarrow> string \<Rightarrow> 'r trie \<Rightarrow> 'r option" where
  "longest_from best [] (TrieNode ch ru) = (case ru of None \<Rightarrow> best | Some r \<Rightarrow> Some r)"
| "longest_from best (c # cs) (TrieNode ch ru) =
     (let best' = (case ru of None \<Rightarrow> best | Some r \<Rightarrow> Some r) in
        case map_of ch c of None \<Rightarrow> best' | Some t \<Rightarrow> longest_from best' cs t)"

definition longestMatch :: "'r trie \<Rightarrow> string \<Rightarrow> 'r option" where
  "longestMatch t s = longest_from None s t"

definition reversedString :: "string \<Rightarrow> string" where
  "reversedString s = rev s"

section \<open>The classifier\<close>

record path_classifier =
  PRules :: "PathRule list"
  prefixTrie :: "PathRule trie option"
  suffixTrie :: "PathRule trie option"
  filenameExact :: "PathRule gomap"
  globRules :: "(PathRule \<times> string list) list"
  regexRules :: "(PathRule \<times> string list) list"

datatype rule_error = EmptyValues string | BadGlob string string | BadRegex string string | UnknownType string string

type_synonym pattern_matcher = "string \<Rightarrow> string \<Rightarrow> bool option"

fun insert_values :: "(string \<Rightarrow> string) \<Rightarrow> string list \<Rightarrow> 'r \<Rightarrow> 'r trie \<Rightarrow> 'r trie" where
  "insert_values f [] r t = t"
| "insert_values f (v # vs) r t = insert_values f vs r (trie_insert (f v) r t)"

fun insert_exact :: "string list \<Rightarrow> 'r \<Rightarrow> 'r gomap \<Rightarrow> 'r gomap" where
  "insert_exact [] r m = m"
| "insert_exact (v # vs) r m = insert_exact vs r (if mget m v = None then mput v r m else m)"

definition first_bad :: "pattern_matcher \<Rightarrow> string list \<Rightarrow> string option" where
  "first_bad m vs = find (\<lambda>v. m v [] = None) vs"

definition indexRule :: "pattern_matcher \<Rightarrow> pattern_matcher \<Rightarrow> path_classifier \<Rightarrow> PathRule \<Rightarrow> rule_error + path_classifier" where
  "indexRule glob regex c r =
     (let ty = PatType (RPattern r); vs = Values (RPattern r) in
        if ty = PatternPrefix then Inr (c\<lparr>prefixTrie := map_option (insert_values (\<lambda>v. v) vs r) (prefixTrie c)\<rparr>)
        else if ty = PatternSuffix then Inr (c\<lparr>suffixTrie := map_option (insert_values reversedString vs r) (suffixTrie c)\<rparr>)
        else if ty = PatternFilenameExact then Inr (c\<lparr>filenameExact := insert_exact vs r (filenameExact c)\<rparr>)
        else if ty = PatternGlob then
          (case first_bad glob vs of Some v \<Rightarrow> Inl (BadGlob (RName r) v)
           | None \<Rightarrow> Inr (c\<lparr>globRules := globRules c @ [(r, vs)]\<rparr>))
        else if ty = PatternRegex then
          (case first_bad regex vs of Some v \<Rightarrow> Inl (BadRegex (RName r) v)
           | None \<Rightarrow> Inr (c\<lparr>regexRules := regexRules c @ [(r, vs)]\<rparr>))
        else Inl (UnknownType (RName r) ty))"

definition with_confidence :: "PathRule \<Rightarrow> PathRule" where
  "with_confidence r = (if RConfidence r = 0 then r\<lparr>RConfidence := 1\<rparr> else r)"

fun index_rules :: "pattern_matcher \<Rightarrow> pattern_matcher \<Rightarrow> path_classifier \<Rightarrow> PathRule list \<Rightarrow> rule_error + path_classifier" where
  "index_rules glob regex c [] = Inr c"
| "index_rules glob regex c (r # rs) =
     (if Values (RPattern r) = [] then Inl (EmptyValues (RName r))
      else (case indexRule glob regex c r of Inl e \<Rightarrow> Inl e | Inr c' \<Rightarrow> index_rules glob regex c' rs))"

definition classifier_New :: "pattern_matcher \<Rightarrow> pattern_matcher \<Rightarrow> PathRule list \<Rightarrow> rule_error + path_classifier" where
  "classifier_New glob regex rules0 =
     (let rules = map with_confidence rules0 in
        if rules0 = [] then
          Inr \<lparr>PRules = [], prefixTrie = None, suffixTrie = None, filenameExact = [], globRules = [], regexRules = []\<rparr>
        else index_rules glob regex
          \<lparr>PRules = rules, prefixTrie = Some newTrie, suffixTrie = Some newTrie, filenameExact = [], globRules = [], regexRules = []\<rparr>
          rules)"

definition matchPrefix :: "path_classifier \<Rightarrow> string \<Rightarrow> PathRule option" where
  "matchPrefix c p = (case prefixTrie c of None \<Rightarrow> None | Some t \<Rightarrow> longestMatch t p)"

definition matchSuffix :: "path_classifier \<Rightarrow> string \<Rightarrow> PathRule option" where
  "matchSuffix c p = (case suffixTrie c of None \<Rightarrow> None | Some t \<Rightarrow> longestMatch t (reversedString p))"

definition match_patterns :: "pattern_matcher \<Rightarrow> (PathRule \<times> string list) list \<Rightarrow> string \<Rightarrow> PathRule option" where
  "match_patterns m gs p = map_option fst (find (\<lambda>g. list_ex (\<lambda>pat. m pat p = Some True) (snd g)) gs)"

definition matchGlob :: "pattern_matcher \<Rightarrow> path_classifier \<Rightarrow> string \<Rightarrow> PathRule option" where
  "matchGlob glob c p = match_patterns glob (globRules c) p"

definition matchRegex :: "pattern_matcher \<Rightarrow> path_classifier \<Rightarrow> string \<Rightarrow> PathRule option" where
  "matchRegex regex c p = match_patterns regex (regexRules c) p"

definition classify_path :: "pattern_matcher \<Rightarrow> pattern_matcher \<Rightarrow> path_classifier \<Rightarrow> string \<Rightarrow> Decision" where
  "classify_path glob regex c p =
     (if p = [] then no_decision
      else (case mget (filenameExact c) (Base p) of Some r \<Rightarrow> decisionFor r
        | None \<Rightarrow> (case matchPrefix c p of Some r \<Rightarrow> decisionFor r
          | None \<Rightarrow> (case matchSuffix c p of Some r \<Rightarrow> decisionFor r
            | None \<Rightarrow> (case matchGlob glob c p of Some r \<Rightarrow> decisionFor r
              | None \<Rightarrow> (case matchRegex regex c p of Some r \<Rightarrow> decisionFor r
                | None \<Rightarrow> no_decision))))))"

section \<open>Loading and merging\<close>

record RulesFile =
  RFVersion :: int
  RFRules :: "PathRule list"

datatype load_error = EmptyDocument | BadYAML | UnsupportedVersion int | Unnamed nat | DuplicateName string | UnknownAction string string

definition knownAction :: "string \<Rightarrow> bool" where
  "knownAction a \<longleftrightarrow> a \<in> set [ActionSkip, ActionRedundantUnderArchive, ActionMarkAsNoise, ActionMarkAsRedundant]"

fun validate_from :: "nat \<Rightarrow> string list \<Rightarrow> PathRule list \<Rightarrow> load_error option" where
  "validate_from i seen [] = None"
| "validate_from i seen (r # rs) =
     (if RName r = [] then Some (Unnamed i)
      else if RName r \<in> set seen then Some (DuplicateName (RName r))
      else if \<not> knownAction (RAction r) then Some (UnknownAction (RName r) (RAction r))
      else validate_from (i + 1) (RName r # seen) rs)"

definition validateRules :: "PathRule list \<Rightarrow> load_error option" where
  "validateRules rules = validate_from 0 [] rules"

text \<open>The document is its bytes; \<open>decode\<close> is the YAML decoder.\<close>

definition Load :: "(string \<Rightarrow> RulesFile option) \<Rightarrow> string \<Rightarrow> load_error + PathRule list" where
  "Load decode data =
     (if data = [] then Inl EmptyDocument
      else (case decode data of None \<Rightarrow> Inl BadYAML
        | Some rf \<Rightarrow>
            if RFVersion rf \<noteq> 1 then Inl (UnsupportedVersion (RFVersion rf))
            else (case validateRules (RFRules rf) of Some e \<Rightarrow> Inl e | None \<Rightarrow> Inr (RFRules rf))))"

fun merge_defaults :: "PathRule gomap \<Rightarrow> PathRule list \<Rightarrow> PathRule list" where
  "merge_defaults overrides [] = []"
| "merge_defaults overrides (d # ds) =
     (case mget overrides (RName d) of Some c \<Rightarrow> c | None \<Rightarrow> d) # merge_defaults overrides ds"

definition Merge :: "PathRule list \<Rightarrow> PathRule list \<Rightarrow> PathRule list" where
  "Merge defaults custom =
     (if custom = [] then defaults
      else (let overrides = foldl (\<lambda>m c. mput (RName c) c m) [] custom;
                used = filter (\<lambda>n. mget overrides n \<noteq> None) (map RName defaults)
        in merge_defaults overrides defaults @ filter (\<lambda>c. RName c \<notin> set used) custom))"

section \<open>An index of patterns\<close>

text \<open>
  The contract of an index: a map from patterns to their first rule, asked for the longest pattern
  that matches.  Two patterns of the same length that match the same text are the same.
\<close>

definition longest_match :: "(string \<Rightarrow> bool) \<Rightarrow> (string \<times> 'r) list \<Rightarrow> 'r option" where
  "longest_match P pairs =
     (let cands = filter (\<lambda>vr. fst vr \<noteq> [] \<and> P (fst vr)) pairs in
        map_option snd (find (\<lambda>vr. list_all (\<lambda>wq. length (fst wq) \<le> length (fst vr)) cands) cands))"

locale pattern_index =
  fixes empty :: 't
    and insert :: "string \<Rightarrow> 'r \<Rightarrow> 't \<Rightarrow> 't"
    and query :: "'t \<Rightarrow> string \<Rightarrow> 'r option"
    and abs :: "'t \<Rightarrow> string \<Rightarrow> 'r option"
    and matches :: "string \<Rightarrow> string \<Rightarrow> bool"
  assumes abs_empty: "abs empty v = None"
    and abs_insert: "abs (insert v r t) w = (if w = v \<and> v \<noteq> [] \<and> abs t v = None then Some r else abs t w)"
    and query_longest: "query t s = Some r \<longleftrightarrow>
      (\<exists>v. matches v s \<and> abs t v = Some r \<and> (\<forall>w. matches w s \<longrightarrow> abs t w \<noteq> None \<longrightarrow> length w \<le> length v))"
    and matches_length: "matches v s \<Longrightarrow> matches w s \<Longrightarrow> length v = length w \<Longrightarrow> v = w"
begin

fun insert_pairs :: "(string \<times> 'r) list \<Rightarrow> 't \<Rightarrow> 't" where
  "insert_pairs [] t = t"
| "insert_pairs (vr # vrs) t = insert_pairs vrs (insert (fst vr) (snd vr) t)"

lemma abs_insert_pairs:
  "abs (insert_pairs vrs t) w = (case abs t w of Some r \<Rightarrow> Some r | None \<Rightarrow> if w = [] then None else map_of vrs w)"
  by (induction vrs arbitrary: t) (auto simp: abs_insert split: option.split)

lemma query_insert_pairs: "query (insert_pairs vrs empty) s = longest_match (\<lambda>v. matches v s) vrs"
proof -
  let ?abs = "abs (insert_pairs vrs empty)"
  let ?cands = "filter (\<lambda>vr. fst vr \<noteq> [] \<and> matches (fst vr) s) vrs"
  let ?top = "\<lambda>vr. list_all (\<lambda>wq. length (fst wq) \<le> length (fst vr)) ?cands"
  have abs: "?abs w = (if w = [] then None else map_of vrs w)" for w
    by (simp add: abs_insert_pairs abs_empty)
  have known: "matches w s \<and> ?abs w \<noteq> None \<longleftrightarrow> (\<exists>q. (w, q) \<in> set ?cands)" for w
    using weak_map_of_SomeI [of w _ vrs] by (auto simp: abs dest: map_of_SomeD)
  show ?thesis
  proof (cases "find ?top ?cands")
    case None
    have "?cands = []"
    proof (rule ccontr)
      assume ne: "?cands \<noteq> []"
      let ?m = "Max ((\<lambda>vr. length (fst vr)) ` set ?cands)"
      have "?m \<in> (\<lambda>vr. length (fst vr)) ` set ?cands" by (intro Max_in finite_imageI finite_set) (use ne in \<open>simp only: image_is_empty set_empty simp_thms\<close>)
      then obtain vr where vr: "vr \<in> set ?cands" "length (fst vr) = ?m" by auto
      have "length (fst wq) \<le> ?m" if "wq \<in> set ?cands" for wq
        using that by (intro Max_ge) auto
      then have "?top vr" using vr(2) by (auto simp: list_all_iff)
      then show False using None vr(1) unfolding find_None_iff by blast
    qed
    then have "query (insert_pairs vrs empty) s \<noteq> Some r" for r
      using known by (auto simp: query_longest)
    then have "query (insert_pairs vrs empty) s = None" by (metis not_None_eq)
    then show ?thesis using None by (simp add: longest_match_def Let_def)
  next
    case (Some vr)
    then obtain i where i: "i < length ?cands" "?top (?cands ! i)" "vr = ?cands ! i" "\<forall>j < i. \<not> ?top (?cands ! j)"
      by (auto simp: find_Some_iff)
    have vr: "vr \<in> set ?cands" "?top vr" using nth_mem [OF i(1)] i(2,3) by (simp_all only:)
    have first: "map_of vrs (fst vr) = Some (snd vr)"
    proof -
      have top: "find ?top ?cands = find (\<lambda>wq. fst wq = fst vr) ?cands"
      proof (intro find_cong refl)
        fix wq assume wq: "wq \<in> set ?cands"
        show "?top wq = (fst wq = fst vr)"
        proof
          assume "?top wq"
          then have "length (fst wq) = length (fst vr)" using vr wq unfolding list_all_iff by (meson le_antisym)
          then show "fst wq = fst vr" using wq vr(1) by (intro matches_length) auto
        qed (use vr(2) in simp)
      qed
      have keep: "find (\<lambda>wq. fst wq = v) (filter Q xs) = find (\<lambda>wq. fst wq = v) xs" if "\<And>wq. fst wq = v \<Longrightarrow> Q wq"
        for v Q and xs :: "(string \<times> 'r) list"
        using that by (induction xs) auto
      have "find ?top ?cands = find (\<lambda>wq. fst wq = fst vr) vrs"
        unfolding top using vr(1) by (intro keep) simp
      moreover have "map_option snd (find (\<lambda>wq. fst wq = v) xs) = map_of xs v" for v and xs :: "(string \<times> 'r) list"
        by (induction xs) auto
      ultimately show ?thesis using Some by (metis option.simps(9))
    qed
    have "query (insert_pairs vrs empty) s = Some (snd vr)"
      unfolding query_longest
    proof (intro exI conjI allI impI)
      show "matches (fst vr) s" "?abs (fst vr) = Some (snd vr)" using vr(1) first by (auto simp: abs)
      fix w assume "matches w s" "?abs w \<noteq> None"
      then obtain q where "(w, q) \<in> set ?cands" using known by blast
      then show "length w \<le> length (fst vr)" using vr(2) by (auto simp: list_all_iff)
    qed
    then show ?thesis using Some by (simp add: longest_match_def Let_def)
  qed
qed

end

section \<open>The tries fulfil it\<close>

fun trie_lookup :: "string \<Rightarrow> 'r trie \<Rightarrow> 'r option" where
  "trie_lookup [] (TrieNode ch ru) = ru"
| "trie_lookup (c # cs) (TrieNode ch ru) = (case map_of ch c of None \<Rightarrow> None | Some t \<Rightarrow> trie_lookup cs t)"

lemma lookup_new [simp]: "trie_lookup p newTrie = None"
  by (cases p) (simp_all add: newTrie_def)

lemma lookup_insert_at:
  "trie_lookup q (insert_at p r t) = (if q = p \<and> trie_lookup p t = None then Some r else trie_lookup q t)"
proof (induction p r t arbitrary: q rule: insert_at.induct)
  case (1 r ch ru)
  then show ?case by (cases q) (auto split: option.split)
next
  case (2 c cs r ch ru)
  show ?case
  proof (cases q)
    case (Cons d ds)
    then show ?thesis using 2 [of ds] by (auto simp: AList.update_conv' split: option.split)
  qed simp
qed

text \<open>The walk, as the deepest rule of the map on the way.\<close>

fun best_prefix :: "'r option \<Rightarrow> (string \<Rightarrow> 'r option) \<Rightarrow> string \<Rightarrow> 'r option" where
  "best_prefix b m [] = (case m [] of None \<Rightarrow> b | Some r \<Rightarrow> Some r)"
| "best_prefix b m (c # cs) = best_prefix (case m [] of None \<Rightarrow> b | Some r \<Rightarrow> Some r) (\<lambda>p. m (c # p)) cs"

lemma best_prefix_none: "(\<And>p. m p = None) \<Longrightarrow> best_prefix b m s = b"
  by (induction b m s rule: best_prefix.induct) auto

lemma longest_from_best: "longest_from b s t = best_prefix b (\<lambda>p. trie_lookup p t) s"
  by (induction b s t rule: longest_from.induct) (auto simp: Let_def best_prefix_none split: option.split)

lemma ex_le_Suc: "(\<exists>i \<le> Suc n. P i) \<longleftrightarrow> P 0 \<or> (\<exists>i \<le> n. P (Suc i))"
  by (simp add: less_Suc_eq_le [symmetric] Ex_less_Suc2)

lemma all_le_Suc: "(\<forall>i \<le> Suc n. P i) \<longleftrightarrow> P 0 \<and> (\<forall>i \<le> n. P (Suc i))"
  by (simp add: less_Suc_eq_le [symmetric] All_less_Suc2)

lemma best_prefix_Some:
  "best_prefix b m s = Some r \<longleftrightarrow>
     (\<exists>i \<le> length s. m (take i s) = Some r \<and> (\<forall>j \<le> length s. i < j \<longrightarrow> m (take j s) = None)) \<or>
     b = Some r \<and> (\<forall>i \<le> length s. m (take i s) = None)"
proof (induction b m s rule: best_prefix.induct)
  case (1 b m)
  then show ?case by (auto split: option.split)
next
  case (2 b m c cs)
  let ?b = "case m [] of None \<Rightarrow> b | Some x \<Rightarrow> Some x"
  let ?tail = "\<lambda>i. m (c # take i cs)"
  have here: "(m [] = Some r \<and> (\<forall>j \<le> length cs. ?tail j = None)) \<or> (b = Some r \<and> m [] = None \<and> (\<forall>i \<le> length cs. ?tail i = None))
    \<longleftrightarrow> ?b = Some r \<and> (\<forall>i \<le> length cs. ?tail i = None)"
    by (cases "m []") auto
  show ?case
    unfolding best_prefix.simps(2) 2 list.size(4) add_0_right add_Suc_right ex_le_Suc all_le_Suc
      take_0 take_Suc_Cons
    using here by (simp, argo)
qed

lemma HasPrefix_take: "HasPrefix s w \<longleftrightarrow> (\<exists>j \<le> length s. w = take j s)"
  by (metis HasPrefix_iff append_eq_conv_conj append_take_drop_id nle_le take_all_iff)

lemma longestMatch_Some:
  "longestMatch t s = Some r \<longleftrightarrow>
     (\<exists>v. HasPrefix s v \<and> trie_lookup v t = Some r \<and>
        (\<forall>w. HasPrefix s w \<longrightarrow> trie_lookup w t \<noteq> None \<longrightarrow> length w \<le> length v))"
  (is "?l = (\<exists>v. ?R v)")
proof -
  let ?m = "\<lambda>i. trie_lookup (take i s) t"
  have "?l \<longleftrightarrow> (\<exists>i \<le> length s. ?m i = Some r \<and> (\<forall>j \<le> length s. i < j \<longrightarrow> ?m j = None))"
    by (simp add: longestMatch_def longest_from_best best_prefix_Some)
  also have "\<dots> \<longleftrightarrow> (\<exists>i \<le> length s. ?R (take i s))"
  proof -
    have "?m i = Some r \<and> (\<forall>j \<le> length s. i < j \<longrightarrow> ?m j = None) \<longleftrightarrow> ?R (take i s)" if i: "i \<le> length s" for i
    proof -
    have "(\<forall>j \<le> length s. i < j \<longrightarrow> ?m j = None) \<longleftrightarrow> (\<forall>j \<le> length s. ?m j \<noteq> None \<longrightarrow> j \<le> i)"
      by (meson not_le)
    then show ?thesis
      using i by (auto simp: HasPrefix_take)
    qed
    then show ?thesis by blast
  qed
  also have "\<dots> \<longleftrightarrow> (\<exists>v. ?R v)"
    by (metis HasPrefix_take)
  finally show ?thesis .
qed

interpretation prefixes: pattern_index newTrie trie_insert longestMatch "\<lambda>t v. trie_lookup v t" "\<lambda>v s. HasPrefix s v"
proof unfold_locales
  show "trie_lookup v newTrie = None" for v by simp
  show "trie_lookup w (trie_insert v r t) = (if w = v \<and> v \<noteq> [] \<and> trie_lookup v t = None then Some r else trie_lookup w t)"
    for w v r t by (simp add: trie_insert_def lookup_insert_at)
qed (rule longestMatch_Some, erule (2) HasPrefix_same_length)

interpretation suffixes: pattern_index newTrie "\<lambda>v. trie_insert (reversedString v)"
    "\<lambda>t s. longestMatch t (reversedString s)" "\<lambda>t v. trie_lookup (rev v) t" "\<lambda>v s. HasSuffix s v"
proof unfold_locales
  show "trie_lookup (rev v) newTrie = None" for v by simp
  show "trie_lookup (rev w) (trie_insert (reversedString v) r t) =
      (if w = v \<and> v \<noteq> [] \<and> trie_lookup (rev v) t = None then Some r else trie_lookup (rev w) t)"
    for w v r t by (simp add: trie_insert_def lookup_insert_at reversedString_def)
  show "longestMatch t (reversedString s) = Some r \<longleftrightarrow>
      (\<exists>v. HasSuffix s v \<and> trie_lookup (rev v) t = Some r \<and>
         (\<forall>w. HasSuffix s w \<longrightarrow> trie_lookup (rev w) t \<noteq> None \<longrightarrow> length w \<le> length v))" for t s r
    unfolding longestMatch_Some reversedString_def HasSuffix_def by (metis length_rev rev_rev_ident)
  show "HasSuffix s v \<Longrightarrow> HasSuffix s w \<Longrightarrow> length v = length w \<Longrightarrow> v = w" for v s w :: string
    by (auto simp: HasSuffix_iff)
qed

section \<open>The classifier against a scan of the rules\<close>

definition patterns_of :: "string \<Rightarrow> PathRule list \<Rightarrow> (string \<times> PathRule) list" where
  "patterns_of ty rules =
     concat (map (\<lambda>r. map (\<lambda>v. (v, r)) (Values (RPattern r))) (filter (\<lambda>r. PatType (RPattern r) = ty) rules))"

definition scan :: "string \<Rightarrow> (string \<Rightarrow> bool) \<Rightarrow> PathRule list \<Rightarrow> PathRule option" where
  "scan ty P rules = find (\<lambda>r. PatType (RPattern r) = ty \<and> list_ex P (Values (RPattern r))) rules"

fun first_some :: "'a option list \<Rightarrow> 'a option" where
  "first_some [] = None"
| "first_some (None # xs) = first_some xs"
| "first_some (Some x # xs) = Some x"

definition reference_rule :: "pattern_matcher \<Rightarrow> pattern_matcher \<Rightarrow> PathRule list \<Rightarrow> string \<Rightarrow> PathRule option" where
  "reference_rule glob regex rules p = first_some
     [scan PatternFilenameExact (\<lambda>v. v = Base p) rules,
      longest_match (\<lambda>v. HasPrefix p v) (patterns_of PatternPrefix rules),
      longest_match (\<lambda>v. HasSuffix p v) (patterns_of PatternSuffix rules),
      scan PatternGlob (\<lambda>v. glob v p = Some True) rules,
      scan PatternRegex (\<lambda>v. regex v p = Some True) rules]"

definition rule_ok :: "pattern_matcher \<Rightarrow> pattern_matcher \<Rightarrow> PathRule \<Rightarrow> bool" where
  "rule_ok glob regex r \<longleftrightarrow>
     Values (RPattern r) \<noteq> [] \<and>
     (PatType (RPattern r) \<in> set [PatternPrefix, PatternSuffix, PatternFilenameExact] \<or>
      PatType (RPattern r) = PatternGlob \<and> first_bad glob (Values (RPattern r)) = None \<or>
      PatType (RPattern r) = PatternRegex \<and> first_bad regex (Values (RPattern r)) = None)"

definition compiled :: "string \<Rightarrow> PathRule list \<Rightarrow> (PathRule \<times> string list) list" where
  "compiled ty rules = map (\<lambda>r. (r, Values (RPattern r))) (filter (\<lambda>r. PatType (RPattern r) = ty) rules)"

lemma patterns_of_simps [simp]:
  "patterns_of ty [] = []"
  "patterns_of ty (r # rs) = (if PatType (RPattern r) = ty then map (\<lambda>v. (v, r)) (Values (RPattern r)) @ patterns_of ty rs else patterns_of ty rs)"
  by (simp_all add: patterns_of_def)

lemma compiled_simps [simp]:
  "compiled ty [] = []"
  "compiled ty (r # rs) = (if PatType (RPattern r) = ty then (r, Values (RPattern r)) # compiled ty rs else compiled ty rs)"
  by (simp_all add: compiled_def)

lemma insert_pairs_Nil:
  "prefixes.insert_pairs [] = id" "suffixes.insert_pairs [] = id"
  by (simp_all add: fun_eq_iff)

lemma insert_pairs_append:
  "prefixes.insert_pairs (xs @ ys) = (\<lambda>t. prefixes.insert_pairs ys (prefixes.insert_pairs xs t))"
  "suffixes.insert_pairs (xs @ ys) = (\<lambda>t. suffixes.insert_pairs ys (suffixes.insert_pairs xs t))"
proof -
  show "prefixes.insert_pairs (xs @ ys) = (\<lambda>t. prefixes.insert_pairs ys (prefixes.insert_pairs xs t))"
  proof
    show "prefixes.insert_pairs (xs @ ys) t = prefixes.insert_pairs ys (prefixes.insert_pairs xs t)" for t
      by (induction xs arbitrary: t) auto
  qed
  show "suffixes.insert_pairs (xs @ ys) = (\<lambda>t. suffixes.insert_pairs ys (suffixes.insert_pairs xs t))"
  proof
    show "suffixes.insert_pairs (xs @ ys) t = suffixes.insert_pairs ys (suffixes.insert_pairs xs t)" for t
      by (induction xs arbitrary: t) auto
  qed
qed

lemma insert_values_pairs:
  "insert_values (\<lambda>v. v) vs r = prefixes.insert_pairs (map (\<lambda>v. (v, r)) vs)"
  "insert_values reversedString vs r = suffixes.insert_pairs (map (\<lambda>v. (v, r)) vs)"
proof -
  have "insert_values (\<lambda>v. v) vs r t = prefixes.insert_pairs (map (\<lambda>v. (v, r)) vs) t" for t
    by (induction vs arbitrary: t) auto
  then show "insert_values (\<lambda>v. v) vs r = prefixes.insert_pairs (map (\<lambda>v. (v, r)) vs)" by blast
  have "insert_values reversedString vs r t = suffixes.insert_pairs (map (\<lambda>v. (v, r)) vs) t" for t
    by (induction vs arbitrary: t) auto
  then show "insert_values reversedString vs r = suffixes.insert_pairs (map (\<lambda>v. (v, r)) vs)" by blast
qed

lemma mget_insert_exact:
  "mget (insert_exact vs r m) v = (case mget m v of Some x \<Rightarrow> Some x | None \<Rightarrow> if v \<in> set vs then Some r else None)"
  by (induction vs r m rule: insert_exact.induct) (auto split: option.split)

definition exact_rule :: "string \<Rightarrow> PathRule list \<Rightarrow> PathRule option" where
  "exact_rule v rules = scan PatternFilenameExact (\<lambda>w. w = v) rules"

lemma indexRule_fields:
  assumes "indexRule glob regex c r = Inr c'"
  shows "prefixTrie c' = map_option (prefixes.insert_pairs (patterns_of PatternPrefix [r])) (prefixTrie c)"
    and "suffixTrie c' = map_option (suffixes.insert_pairs (patterns_of PatternSuffix [r])) (suffixTrie c)"
    and "filenameExact c' =
      (if PatType (RPattern r) = PatternFilenameExact then insert_exact (Values (RPattern r)) r (filenameExact c) else filenameExact c)"
    and "globRules c' = globRules c @ compiled PatternGlob [r]"
    and "regexRules c' = regexRules c @ compiled PatternRegex [r]"
    and "PRules c' = PRules c"
  using assms
  by (auto simp: indexRule_def Let_def pattern_types insert_values_pairs insert_pairs_Nil option.map_id split: if_splits option.splits)

lemma patterns_of_Cons: "patterns_of ty (r # rs) = patterns_of ty [r] @ patterns_of ty rs"
  and compiled_Cons: "compiled ty (r # rs) = compiled ty [r] @ compiled ty rs"
  by simp_all

lemma index_rules_result:
  assumes "index_rules glob regex c rules = Inr c'"
  shows "prefixTrie c' = map_option (prefixes.insert_pairs (patterns_of PatternPrefix rules)) (prefixTrie c)
    \<and> suffixTrie c' = map_option (suffixes.insert_pairs (patterns_of PatternSuffix rules)) (suffixTrie c)
    \<and> (\<forall>v. mget (filenameExact c') v = (case mget (filenameExact c) v of Some x \<Rightarrow> Some x | None \<Rightarrow> exact_rule v rules))
    \<and> globRules c' = globRules c @ compiled PatternGlob rules
    \<and> regexRules c' = regexRules c @ compiled PatternRegex rules
    \<and> PRules c' = PRules c"
  using assms
proof (induction rules arbitrary: c)
  case Nil
  have "map_option (\<lambda>a. a) x = x" for x :: "PathRule trie option" by (cases x) simp_all
  with Nil show ?case by (simp add: insert_pairs_Nil exact_rule_def scan_def id_def split: option.split)
next
  case (Cons r rs)
  then obtain c1 where c1: "indexRule glob regex c r = Inr c1" and rest: "index_rules glob regex c1 rs = Inr c'"
    by (auto split: if_splits sum.splits)
  note f = indexRule_fields [OF c1] and ih = Cons.IH [OF rest]
  have exact: "exact_rule v (r # rs) =
      (if PatType (RPattern r) = PatternFilenameExact \<and> v \<in> set (Values (RPattern r)) then Some r else exact_rule v rs)" for v
    by (auto simp: exact_rule_def scan_def list_ex_iff)
  have "mget (filenameExact c') v = (case mget (filenameExact c) v of Some x \<Rightarrow> Some x | None \<Rightarrow> exact_rule v (r # rs))" for v
    using ih by (simp add: f(3) exact mget_insert_exact split: option.split)
  moreover have "prefixTrie c' = map_option (prefixes.insert_pairs (patterns_of PatternPrefix (r # rs))) (prefixTrie c)"
    "suffixTrie c' = map_option (suffixes.insert_pairs (patterns_of PatternSuffix (r # rs))) (suffixTrie c)"
    using ih unfolding f(1,2) patterns_of_Cons [of _ r rs] insert_pairs_append by (simp_all add: option.map_comp comp_def)
  moreover have "globRules c' = globRules c @ compiled PatternGlob (r # rs)" "regexRules c' = regexRules c @ compiled PatternRegex (r # rs)"
    using ih unfolding f(4,5) compiled_Cons [of _ r rs] by (simp_all only: append_assoc)
  moreover have "PRules c' = PRules c" using ih f(6) by simp
  ultimately show ?case by blast
qed

lemma index_rules_ok:
  "(\<exists>c'. index_rules glob regex c rules = Inr c') \<longleftrightarrow> list_all (rule_ok glob regex) rules"
  by (induction glob regex c rules rule: index_rules.induct)
     (auto simp: indexRule_def Let_def rule_ok_def pattern_types split: option.splits sum.splits)

lemma map_of_option: "map_option snd (find P xs) = None \<longleftrightarrow> list_all (\<lambda>x. \<not> P x) xs"
  by (auto simp: find_None_iff list_all_iff)

lemma find_compiled:
  "match_patterns m (compiled ty rules) p = scan ty (\<lambda>v. m v p = Some True) rules"
  by (induction rules) (auto simp: match_patterns_def scan_def)

lemma no_patterns [simp]: "longest_match P [] = None"
  by (simp add: longest_match_def)

lemma ok_with_confidence: "rule_ok glob regex (with_confidence r) = rule_ok glob regex r"
  by (simp add: rule_ok_def with_confidence_def)

lemma New_compiles:
  assumes "classifier_New glob regex rules0 = Inr c"
  shows "mget (filenameExact c) v = exact_rule v (map with_confidence rules0)"
    and "matchPrefix c p = longest_match (\<lambda>v. HasPrefix p v) (patterns_of PatternPrefix (map with_confidence rules0))"
    and "matchSuffix c p = longest_match (\<lambda>v. HasSuffix p v) (patterns_of PatternSuffix (map with_confidence rules0))"
    and "globRules c = compiled PatternGlob (map with_confidence rules0)"
    and "regexRules c = compiled PatternRegex (map with_confidence rules0)"
proof -
  let ?rules = "map with_confidence rules0"
  let ?c0 = "\<lparr>PRules = ?rules, prefixTrie = Some newTrie, suffixTrie = Some newTrie, filenameExact = [], globRules = [], regexRules = []\<rparr>"
  have "rules0 = [] \<and> c = \<lparr>PRules = [], prefixTrie = None, suffixTrie = None, filenameExact = [], globRules = [], regexRules = []\<rparr>
      \<or> index_rules glob regex ?c0 ?rules = Inr c"
    using assms by (auto simp: classifier_New_def Let_def split: if_splits)
  then have "mget (filenameExact c) v = exact_rule v ?rules
      \<and> matchPrefix c p = longest_match (\<lambda>v. HasPrefix p v) (patterns_of PatternPrefix ?rules)
      \<and> matchSuffix c p = longest_match (\<lambda>v. HasSuffix p v) (patterns_of PatternSuffix ?rules)
      \<and> globRules c = compiled PatternGlob ?rules \<and> regexRules c = compiled PatternRegex ?rules"
  proof
    assume i: "index_rules glob regex ?c0 ?rules = Inr c"
    from index_rules_result [OF i] show ?thesis
      by (auto simp: matchPrefix_def matchSuffix_def prefixes.query_insert_pairs suffixes.query_insert_pairs)
  qed (simp add: exact_rule_def scan_def matchPrefix_def matchSuffix_def)
  then show "mget (filenameExact c) v = exact_rule v ?rules"
    "matchPrefix c p = longest_match (\<lambda>v. HasPrefix p v) (patterns_of PatternPrefix ?rules)"
    "matchSuffix c p = longest_match (\<lambda>v. HasSuffix p v) (patterns_of PatternSuffix ?rules)"
    "globRules c = compiled PatternGlob ?rules" "regexRules c = compiled PatternRegex ?rules"
    by blast+
qed

definition decision_of :: "PathRule option \<Rightarrow> Decision" where
  "decision_of r = (case r of None \<Rightarrow> no_decision | Some x \<Rightarrow> decisionFor x)"

text \<open>
  C23. The classifier compiled by \<open>New\<close> decides every path as a scan of the rules does: a rule with the exact
  file name first, then the rule with the longest prefix, then the one with the longest suffix, then the first
  glob rule and the first regex rule; among equal patterns the earlier rule wins, and the confidence defaults to 1.
\<close>

theorem Classify_reference:
  assumes "classifier_New glob regex rules = Inr c" and "p \<noteq> []"
  shows "classify_path glob regex c p = decision_of (reference_rule glob regex (map with_confidence rules) p)"
  using assms(2) New_compiles [OF assms(1)]
  by (auto simp: classify_path_def reference_rule_def decision_of_def matchGlob_def matchRegex_def find_compiled
      exact_rule_def split: option.split)

lemma New_total:
  "(\<exists>c. classifier_New glob regex rules = Inr c) \<longleftrightarrow> list_all (rule_ok glob regex) rules"
  using index_rules_ok [of glob regex _ "map with_confidence rules"]
  by (simp add: classifier_New_def Let_def list.pred_map comp_def ok_with_confidence)

section \<open>Loading and merging rule files\<close>

definition rule_named :: "string \<Rightarrow> PathRule list \<Rightarrow> PathRule option" where
  "rule_named n rules = find (\<lambda>r. RName r = n) rules"

lemma validate_from_None:
  "validate_from i seen rules = None \<longleftrightarrow>
     list_all (\<lambda>r. RName r \<noteq> [] \<and> knownAction (RAction r)) rules \<and> distinct (map RName rules) \<and>
     set seen \<inter> RName ` set rules = {}"
  by (induction i seen rules rule: validate_from.induct) auto

lemma validateRules_None:
  "validateRules rules = None \<longleftrightarrow>
     list_all (\<lambda>r. RName r \<noteq> [] \<and> knownAction (RAction r)) rules \<and> distinct (map RName rules)"
  by (simp add: validateRules_def validate_from_None)

lemma rule_named_simps [simp]:
  "rule_named n [] = None"
  "rule_named n (r # rs) = (if RName r = n then Some r else rule_named n rs)"
  by (simp_all add: rule_named_def)

lemma rule_named_None: "rule_named n rs = None \<longleftrightarrow> n \<notin> RName ` set rs"
  by (induction rs) auto

lemma rule_named_Some: "rule_named n rs = Some r \<Longrightarrow> RName r = n \<and> r \<in> set rs"
  by (induction rs) (auto split: if_splits)

lemma rule_named_append: "rule_named n (xs @ ys) = (case rule_named n xs of Some r \<Rightarrow> Some r | None \<Rightarrow> rule_named n ys)"
  by (induction xs) auto

lemma rule_named_filter: "P n \<Longrightarrow> rule_named n (filter (\<lambda>r. P (RName r)) rs) = rule_named n rs"
  by (induction rs) auto

lemma overrides_named:
  "distinct (map RName custom) \<Longrightarrow>
     mget (foldl (\<lambda>m c. mput (RName c) c m) m custom) n = (case rule_named n custom of Some c \<Rightarrow> Some c | None \<Rightarrow> mget m n)"
proof (induction custom arbitrary: m)
  case (Cons c cs)
  then show ?case by (cases "rule_named n cs") (use rule_named_None [of "RName c" cs] in auto)
qed simp

definition overridden :: "PathRule list \<Rightarrow> PathRule \<Rightarrow> PathRule" where
  "overridden custom d = (case rule_named (RName d) custom of Some c \<Rightarrow> c | None \<Rightarrow> d)"

lemma overridden_name [simp]: "RName (overridden custom d) = RName d"
  by (auto simp: overridden_def dest: rule_named_Some split: option.split)

lemma overridden_mem: "overridden custom d \<in> insert d (set custom)"
proof (cases "rule_named (RName d) custom")
  case (Some c)
  from rule_named_Some [OF this] show ?thesis using Some by (simp add: overridden_def)
qed (simp add: overridden_def)

lemma merge_defaults_map:
  "merge_defaults ov ds = map (\<lambda>d. case mget ov (RName d) of Some c \<Rightarrow> c | None \<Rightarrow> d) ds"
  by (induction ds) auto

lemma Merge_shape:
  assumes "distinct (map RName custom)"
  shows "Merge defaults custom = map (overridden custom) defaults @ filter (\<lambda>c. RName c \<notin> RName ` set defaults) custom"
proof -
  have "mget (foldl (\<lambda>m c. mput (RName c) c m) [] custom) n = rule_named n custom" for n
    by (simp add: overrides_named [OF assms] split: option.split)
  then show ?thesis
    by (auto simp: Merge_def Let_def merge_defaults_map overridden_def [abs_def] rule_named_None intro!: filter_cong)
qed

lemma rule_named_overridden:
  "rule_named n (map (overridden custom) ds) = (if rule_named n ds = None then None
     else (case rule_named n custom of Some c \<Rightarrow> Some c | None \<Rightarrow> rule_named n ds))"
  by (induction ds) (auto simp: overridden_def split: option.split dest: rule_named_Some)

lemma Merge_named:
  assumes "distinct (map RName custom)"
  shows "rule_named n (Merge defaults custom) = first_some [rule_named n custom, rule_named n defaults]"
proof -
  have "rule_named n (filter (\<lambda>r. RName r \<notin> RName ` set defaults) custom) = rule_named n custom"
    if "rule_named n defaults = None"
    using that rule_named_filter [of "\<lambda>m. m \<notin> RName ` set defaults" n custom] by (simp add: rule_named_None)
  then show ?thesis
    by (cases "rule_named n custom"; cases "rule_named n defaults")
       (simp_all add: Merge_shape [OF assms] rule_named_append rule_named_overridden)
qed

text \<open>
  Merging two valid rule lists gives a valid one, in which a name stands for the custom rule of that
  name if there is one, and for the default rule otherwise.
\<close>

theorem Merge_valid:
  assumes "validateRules defaults = None" and "validateRules custom = None"
  shows "validateRules (Merge defaults custom) = None \<and>
    rule_named n (Merge defaults custom) = first_some [rule_named n custom, rule_named n defaults]"
proof
  have d: "distinct (map RName defaults)" and c: "distinct (map RName custom)"
    and ok: "list_all (\<lambda>r. RName r \<noteq> [] \<and> knownAction (RAction r)) (defaults @ custom)"
    using assms by (auto simp: validateRules_None)
  have names: "map RName (Merge defaults custom) = map RName defaults @ filter (\<lambda>n. n \<notin> RName ` set defaults) (map RName custom)"
    by (simp add: Merge_shape [OF c] filter_map comp_def)
  have "set (Merge defaults custom) \<subseteq> set (defaults @ custom)"
    using overridden_mem [of custom] by (auto simp: Merge_shape [OF c]) metis
  then have "list_all (\<lambda>r. RName r \<noteq> [] \<and> knownAction (RAction r)) (Merge defaults custom)"
    using ok unfolding list_all_iff by blast
  moreover have "distinct (map RName (Merge defaults custom))"
    using c d by (auto simp: names)
  ultimately show "validateRules (Merge defaults custom) = None" by (simp add: validateRules_None)
qed (rule Merge_named, use assms in \<open>simp add: validateRules_None\<close>)

definition sample_rule :: "string \<Rightarrow> string \<Rightarrow> string \<Rightarrow> string list \<Rightarrow> PathRule" where
  "sample_rule n a ty vs = \<lparr>RName = n, RDescription = [], RAction = a, RPattern = \<lparr>PatType = ty, Values = vs\<rparr>,
     Rationale = [], RConfidence = 0, AppliesTo = []\<rparr>"

definition sample_rules :: "PathRule list" where
  "sample_rules =
     [sample_rule ''python'' ActionSkip PatternSuffix [''.pyc''],
      sample_rule ''usr'' ActionMarkAsNoise PatternPrefix [''/usr'', ''/usr/share/doc''],
      sample_rule ''doc'' ActionSkip PatternPrefix [''/usr/share'', ''/usr''],
      sample_rule ''readme'' ActionMarkAsRedundant PatternFilenameExact [''README'']]"

definition no_matcher :: pattern_matcher where "no_matcher pat p = Some False"

definition sample_classifier :: path_classifier where
  "sample_classifier = projr (classifier_New no_matcher no_matcher sample_rules)"

lemma sample_classifier_New: "classifier_New no_matcher no_matcher sample_rules = Inr sample_classifier"
  by code_simp

lemma Classify_reference_witness:
  "RuleName (decision_of (reference_rule no_matcher no_matcher (map with_confidence sample_rules) ''/usr/share/x'')) = ''doc'' \<and>
   RuleName (classify_path no_matcher no_matcher sample_classifier ''/usr/share/x'') = ''doc''"
  unfolding Classify_reference [OF sample_classifier_New, of "''/usr/share/x''", OF list.distinct(2)]
  by code_simp

lemma Merge_valid_witness:
  "validateRules (Merge sample_rules [sample_rule ''usr'' ActionSkip PatternPrefix [''/opt'']]) = None \<and>
   rule_named ''usr'' (Merge sample_rules [sample_rule ''usr'' ActionSkip PatternPrefix [''/opt'']])
     = Some (sample_rule ''usr'' ActionSkip PatternPrefix [''/opt''])"
proof -
  have v: "validateRules sample_rules = None"
      "validateRules [sample_rule ''usr'' ActionSkip PatternPrefix [''/opt'']] = None"
    by code_simp+
  show ?thesis using Merge_valid [OF v, of "''usr''"] by (simp add: sample_rule_def)
qed

text \<open>
  \<open>New\<close> accepts a rule list exactly when every rule has values, a known pattern type and, for
  globs and regular expressions, patterns that compile.
\<close>

theorem New_accepts:
  "(\<exists>c. classifier_New glob regex rules = Inr c) = list_all (rule_ok glob regex) rules"
  by (rule New_total)

text \<open>
  What \<open>Load\<close> returns are the rules of a version 1 document, all named, with distinct names and
  known actions; every other document is refused.
\<close>

theorem Load_Inr_iff:
  "(Load decode data = Inr rules) = (data \<noteq> [] \<and>
     (\<exists>rf. decode data = Some rf \<and> RFVersion rf = 1 \<and> RFRules rf = rules \<and> distinct (map RName rules) \<and>
        list_all (\<lambda>r. RName r \<noteq> [] \<and> knownAction (RAction r)) rules))"
  by (auto simp: Load_def validateRules_None split: option.split)
     (metis not_Some_eq validateRules_None option.distinct(1))+

end
