(* ===== verification/Anchors.thy ===== *)
theory Anchors
  imports Model
begin

text \<open>
  The manifest files that announce a package (\<open>internal/enrich/untracked/cluster/anchor.go\<close> and the
  types of \<open>identity.go\<close>): the rules that recognise them, the extractor of each ecosystem, the
  package URLs they build and the small TOML reader.  The JSON, XML and YAML decoders are parameters;
  each regular expression of the code is written out as the search it performs on bytes.
\<close>

section \<open>Types\<close>

record Identity =
  IName :: string
  IVersion :: string
  IPURL :: string
  IType :: string
  AnchorPath :: string
  IConfidence :: rat
  DetectionMethod :: string

record Cluster =
  CIdentity :: Identity
  Root :: string
  Files :: "string list"
  TotalSize :: int

definition hasPrefixWithSep :: "string \<Rightarrow> string \<Rightarrow> bool" where
  "hasPrefixWithSep p pre \<longleftrightarrow> length pre < length p \<and> take (length pre) p = pre \<and> p ! length pre = slash"

definition Within :: "Cluster option \<Rightarrow> string \<Rightarrow> bool" where
  "Within c p = (case c of None \<Rightarrow> False
     | Some cl \<Rightarrow> Root cl \<noteq> [] \<and> (p = Root cl \<or> hasPrefixWithSep p (Root cl)))"

datatype anchor_error = Malformed string | Missing string | NoVendor string

type_synonym extractor = "string \<Rightarrow> string \<Rightarrow> anchor_error + Identity"

text \<open>The decoders: the name and version of a JSON or YAML document, the project's and its parent's coordinates of a POM.\<close>

record pom_ident =
  GroupID :: string
  ArtifactID :: string
  PVersion :: string

record decoders =
  JsonNameVersion :: "string \<Rightarrow> (string \<times> string) option"
  YamlNameVersion :: "string \<Rightarrow> (string \<times> string) option"
  PomIdents :: "string \<Rightarrow> (pom_ident \<times> pom_ident) option"

section \<open>Package URLs\<close>

definition simplePURL :: "string \<Rightarrow> string \<Rightarrow> string \<Rightarrow> string \<Rightarrow> string" where
  "simplePURL ty namespace name version =
     (if name = [] then []
      else ''pkg:'' @ ty @ ''/'' @ (if namespace \<noteq> [] then namespace @ ''/'' else []) @ name @
        (if version \<noteq> [] then ''@'' @ version else []))"

definition cut_at :: "char \<Rightarrow> string \<Rightarrow> (string \<times> string) option" where
  "cut_at c s = (case IndexByte s c of None \<Rightarrow> None | Some i \<Rightarrow> Some (take i s, drop (Suc i) s))"

definition purlNPM :: "string \<Rightarrow> string \<Rightarrow> string" where
  "purlNPM name version =
     (if HasPrefix name ''@'' then
        (case cut_at slash name of
           Some (scope, base) \<Rightarrow> simplePURL ''npm'' scope base version
         | None \<Rightarrow> simplePURL ''npm'' [] name version)
      else simplePURL ''npm'' [] name version)"

definition purlGolang :: "string \<Rightarrow> string \<Rightarrow> string" where
  "purlGolang modulePath version =
     ''pkg:golang/'' @ modulePath @ ''@'' @ (if version = [] then ''unknown'' else version)"

definition purlMaven :: "string \<Rightarrow> string \<Rightarrow> string \<Rightarrow> string" where
  "purlMaven grp artifact version =
     ''pkg:maven/'' @ grp @ ''/'' @ artifact @ (if version \<noteq> [] then ''@'' @ version else [])"

definition nonEmpty :: "string list \<Rightarrow> string" where
  "nonEmpty values = (case find (\<lambda>v. v \<noteq> []) values of Some v \<Rightarrow> v | None \<Rightarrow> [])"

section \<open>Regular expressions\<close>

abbreviation newline :: char where "newline \<equiv> char_of (10 :: nat)"

definition re_space :: "char \<Rightarrow> bool" where
  "re_space c = (let n = (of_char c :: nat) in n = 9 \<or> n = 10 \<or> n = 12 \<or> n = 13 \<or> n = 32)"

definition re_word :: "char \<Rightarrow> bool" where
  "re_word c = (let n = (of_char c :: nat) in 48 \<le> n \<and> n \<le> 57 \<or> 65 \<le> n \<and> n \<le> 90 \<or> n = 95 \<or> 97 \<le> n \<and> n \<le> 122)"

definition re_quote :: "char \<Rightarrow> bool" where
  "re_quote c = (let n = (of_char c :: nat) in n = 34 \<or> n = 39)"

text \<open>The suffixes of a text at which \<open>(?m)^\<close> holds.\<close>

fun line_starts :: "bool \<Rightarrow> string \<Rightarrow> string list" where
  "line_starts bol [] = (if bol then [[]] else [])"
| "line_starts bol (c # s) = (if bol then [c # s] else []) @ line_starts (c = newline) s"

fun find_map :: "('a \<Rightarrow> 'b option) \<Rightarrow> 'a list \<Rightarrow> 'b option" where
  "find_map f [] = None"
| "find_map f (x # xs) = (case f x of Some y \<Rightarrow> Some y | None \<Rightarrow> find_map f xs)"

definition skip_space :: "string \<Rightarrow> string" where
  "skip_space s = dropWhile re_space s"

text \<open>\<open>'"x"'\<close>: an opening quote, at least one other character, a closing quote; the value and the rest.\<close>

definition quoted :: "string \<Rightarrow> (string \<times> string) option" where
  "quoted s =
     (case s of [] \<Rightarrow> None
      | q # r \<Rightarrow>
          if \<not> re_quote q then None
          else (let v = takeWhile (\<lambda>c. \<not> re_quote c) r; t = dropWhile (\<lambda>c. \<not> re_quote c) r in
            if v = [] \<or> t = [] then None else Some (v, tl t)))"

definition goModuleLine :: "string \<Rightarrow> string option" where
  "goModuleLine body = find_map
     (\<lambda>s. case CutPrefix s ''module'' of None \<Rightarrow> None
        | Some r \<Rightarrow>
            let w = takeWhile (\<lambda>c. \<not> re_space c) (skip_space r) in
              if takeWhile re_space r = [] \<or> w = [] then None else Some w)
     (line_starts True body)"

text \<open>A gemspec assignment at a line start: \<open>wrap\<close> may precede the quoted value.\<close>

definition gemspec_at :: "string \<Rightarrow> string \<Rightarrow> string \<Rightarrow> string option" where
  "gemspec_at field wrap s =
     (let r = skip_space s; w = takeWhile re_word r in
        if w = [] then None
        else (case CutPrefix (dropWhile re_word r) (''.'' @ field) of None \<Rightarrow> None
          | Some r2 \<Rightarrow>
            (case CutPrefix (skip_space r2) ''='' of None \<Rightarrow> None
             | Some r3 \<Rightarrow>
                 let r4 = skip_space r3;
                     r5 = (case if wrap = [] then None else CutPrefix r4 wrap of Some t \<Rightarrow> t | None \<Rightarrow> r4)
                 in map_option fst (quoted r5))))"

definition gemspecName :: "string \<Rightarrow> string option" where
  "gemspecName body = find_map (gemspec_at ''name'' []) (line_starts True body)"

definition gemspecVersion :: "string \<Rightarrow> string option" where
  "gemspecVersion body = find_map (gemspec_at ''version'' ''Gem::Version.new('') (line_starts True body)"

section \<open>The TOML reader\<close>

text \<open>
  \<open>tomlSectionLine\<close> at a line start: the text between the brackets, whether the match ends just after a
  line break, and the rest.  The trailing white space is taken as far as a line or the text ends.
\<close>

definition match_section :: "string \<Rightarrow> (string \<times> bool \<times> string) option" where
  "match_section s =
     (case CutPrefix (skip_space s) ''['' of None \<Rightarrow> None
      | Some r \<Rightarrow>
          (let g = takeWhile (\<lambda>c. c \<noteq> CHR '']'') r; t = dropWhile (\<lambda>c. c \<noteq> CHR '']'') r in
             if g = [] \<or> t = [] then None
             else (let w = takeWhile re_space (tl t) in
               if skip_space (tl t) = [] then Some (g, w \<noteq> [] \<and> last w = newline, [])
               else (case LastIndexByte w newline of None \<Rightarrow> None
                 | Some k \<Rightarrow> Some (g, 0 < k \<and> w ! (k - 1) = newline, drop k (tl t))))))"

definition match_assign :: "string \<Rightarrow> (string \<times> string \<times> string) option" where
  "match_assign s =
     (let r = skip_space s; key = takeWhile re_word r in
        if key = [] then None
        else (case CutPrefix (skip_space (dropWhile re_word r)) ''='' of None \<Rightarrow> None
          | Some r2 \<Rightarrow> map_option (\<lambda>vt. (key, fst vt, snd vt)) (quoted (skip_space r2))))"

lemma CutPrefix_length: "CutPrefix s p = Some r \<Longrightarrow> length s = length p + length r"
  by (induction s p rule: CutPrefix.induct) (auto split: if_splits)

lemma skip_space_length: "length (skip_space s) \<le> length s"
  by (simp add: skip_space_def length_dropWhile_le)

lemma quoted_length: "quoted s = Some (v, t) \<Longrightarrow> length t < length s"
proof (cases s)
  case (Cons q r)
  assume "quoted s = Some (v, t)"
  then have "t = tl (dropWhile (\<lambda>c. \<not> re_quote c) r)"
    using Cons by (auto simp: quoted_def Let_def split: if_splits)
  then have "length t \<le> length (dropWhile (\<lambda>c. \<not> re_quote c) r)" by simp
  also have "\<dots> \<le> length r" by (rule length_dropWhile_le)
  finally show ?thesis using Cons by simp
qed (simp add: quoted_def)

lemma match_section_length: "match_section s = Some (g, b, rest) \<Longrightarrow> length rest < length s"
proof -
  assume m: "match_section s = Some (g, b, rest)"
  then obtain r where r: "CutPrefix (skip_space s) ''['' = Some r" by (auto simp: match_section_def split: option.splits)
  let ?t = "dropWhile (\<lambda>c. c \<noteq> CHR '']'') r"
  have "length rest \<le> length ?t" using m r by (auto simp: match_section_def Let_def split: if_splits option.splits)
  also have "\<dots> \<le> length r" by (rule length_dropWhile_le)
  finally show ?thesis using CutPrefix_length [OF r] skip_space_length [of s] by simp
qed

lemma match_assign_length: "match_assign s = Some (k, v, rest) \<Longrightarrow> length rest < length s"
proof -
  assume m: "match_assign s = Some (k, v, rest)"
  let ?r = "dropWhile re_word (skip_space s)"
  from m obtain r2 where r2: "CutPrefix (skip_space ?r) ''='' = Some r2" and q: "quoted (skip_space r2) = Some (v, rest)"
    by (auto simp: match_assign_def Let_def split: if_splits option.splits)
  have "length ?r \<le> length s" using length_dropWhile_le [of re_word "skip_space s"] skip_space_length [of s] by linarith
  then show ?thesis
    using CutPrefix_length [OF r2] quoted_length [OF q] skip_space_length [of ?r] skip_space_length [of r2] by simp
qed

text \<open>All matches from left to right; a match is given by the lengths of the text from its start and after its end.\<close>

function sections :: "bool \<Rightarrow> string \<Rightarrow> (string \<times> nat \<times> nat) list" where
  "sections bol s =
     (case if bol then match_section s else None of
        Some (g, b, rest) \<Rightarrow> (g, length s, length rest) # sections b rest
      | None \<Rightarrow> (case s of [] \<Rightarrow> [] | c # cs \<Rightarrow> sections (c = newline) cs))"
  by pat_completeness auto
termination
  by (relation "measure (\<lambda>(b, s). length s)") (auto dest: match_section_length split: if_splits)

function assigns :: "bool \<Rightarrow> string \<Rightarrow> (string \<times> string) list" where
  "assigns bol s =
     (case if bol then match_assign s else None of
        Some (k, v, rest) \<Rightarrow> (k, v) # assigns False rest
      | None \<Rightarrow> (case s of [] \<Rightarrow> [] | c # cs \<Rightarrow> assigns (c = newline) cs))"
  by pat_completeness auto
termination
  by (relation "measure (\<lambda>(b, s). length s)") (auto dest: match_assign_length split: if_splits)

declare sections.simps [simp del] assigns.simps [simp del]

fun toml_keys :: "string \<Rightarrow> string \<Rightarrow> (string \<times> string) list \<Rightarrow> string \<times> string \<times> bool" where
  "toml_keys name version [] = (name, version, name \<noteq> [] \<or> version \<noteq> [])"
| "toml_keys name version ((k, v) # kvs) =
     (let name' = (if k = ''name'' then v else name); version' = (if k = ''version'' then v else version) in
        if name' \<noteq> [] \<and> version' \<noteq> [] then (name', version', True) else toml_keys name' version' kvs)"

fun toml_section :: "string \<Rightarrow> string \<Rightarrow> (string \<times> nat \<times> nat) list \<Rightarrow> string \<times> string \<times> bool" where
  "toml_section body sec [] = ([], [], False)"
| "toml_section body sec ((g, from, to) # ms) =
     (if TrimSpace g \<noteq> sec then toml_section body sec ms
      else (let nxt = (case ms of [] \<Rightarrow> 0 | m # _ \<Rightarrow> fst (snd m));
                block = take (to - nxt) (drop (length body - to) body)
        in toml_keys [] [] (assigns True block)))"

definition readTOMLNamedSection :: "string \<Rightarrow> string \<Rightarrow> string \<times> string \<times> bool" where
  "readTOMLNamedSection body sec = toml_section body sec (sections True body)"

definition readTOMLPackageBlock :: "string \<Rightarrow> string \<times> string \<times> bool" where
  "readTOMLPackageBlock body = readTOMLNamedSection body ''package''"

section \<open>The extractors\<close>

definition identity :: "string \<Rightarrow> string \<Rightarrow> string \<Rightarrow> string \<Rightarrow> string \<Rightarrow> string \<Rightarrow> Identity" where
  "identity name version purl ty anchor how =
     \<lparr>IName = name, IVersion = version, IPURL = purl, IType = ty, AnchorPath = anchor, IConfidence = 1, DetectionMethod = how\<rparr>"

definition extractFromPackageJSON :: "decoders \<Rightarrow> extractor" where
  "extractFromPackageJSON D anchor body =
     (case JsonNameVersion D body of None \<Rightarrow> Inl (Malformed ''package.json'')
      | Some (name, version) \<Rightarrow>
          if name = [] then Inl (Missing ''package.json: empty name'')
          else Inr (identity name version (purlNPM name version) ''npm'' anchor ''anchor:package.json''))"

definition extractFromCargoToml :: extractor where
  "extractFromCargoToml anchor body =
     (case readTOMLPackageBlock body of (name, version, ok) \<Rightarrow>
        if \<not> ok \<or> name = [] then Inl (Missing ''cargo.toml: no [package] block with name'')
        else Inr (identity name version (simplePURL ''cargo'' [] name version) ''cargo'' anchor ''anchor:Cargo.toml''))"

definition extractFromGoMod :: extractor where
  "extractFromGoMod anchor body =
     (case goModuleLine body of None \<Rightarrow> Inl (Missing ''go.mod: no module directive'')
      | Some m \<Rightarrow> Inr (identity m [] (purlGolang m []) ''golang'' anchor ''anchor:go.mod''))"

definition extractFromPomXML :: "decoders \<Rightarrow> extractor" where
  "extractFromPomXML D anchor body =
     (case PomIdents D body of None \<Rightarrow> Inl (Malformed ''pom.xml'')
      | Some (own, parent) \<Rightarrow>
          (let g = nonEmpty [GroupID own, GroupID parent];
               a = nonEmpty [ArtifactID own, ArtifactID parent];
               v = nonEmpty [PVersion own, PVersion parent]
           in if g = [] \<or> a = [] then Inl (Missing ''pom.xml: missing groupId/artifactId'')
              else Inr (identity (g @ '':'' @ a) v (purlMaven g a v) ''maven'' anchor ''anchor:pom.xml'')))"

definition extractFromPyproject :: extractor where
  "extractFromPyproject anchor body =
     (case find_map (\<lambda>sec. case readTOMLNamedSection body sec of (name, version, ok) \<Rightarrow>
          if ok \<and> name \<noteq> [] then Some (name, version) else None) [''project'', ''tool.poetry''] of
        None \<Rightarrow> Inl (Missing ''pyproject.toml: no [project] or [tool.poetry] with name'')
      | Some (name, version) \<Rightarrow>
          Inr (identity name version (simplePURL ''pypi'' [] name version) ''pypi'' anchor ''anchor:pyproject.toml''))"

text \<open>
  The lines a \<open>bufio.Scanner\<close> delivers: without the line break and one carriage return before it, up to
  the first line that does not fit the scanner's buffer of 64 KiB.
\<close>

definition scan_lines :: "string \<Rightarrow> string list" where
  "scan_lines body =
     (let ls = SplitC newline body; ls' = (if last ls = [] then butlast ls else ls)
      in map (\<lambda>l. if l \<noteq> [] \<and> last l = char_of (13 :: nat) then butlast l else l)
           (takeWhile (\<lambda>l. length l < 65536) ls'))"

fun metadata_headers :: "string \<Rightarrow> string \<Rightarrow> string list \<Rightarrow> string \<times> string" where
  "metadata_headers name version [] = (name, version)"
| "metadata_headers name version (l # ls) =
     (if l = [] then (name, version)
      else (let name' = (case CutPrefix l ''Name:'' of Some r \<Rightarrow> TrimSpace r | None \<Rightarrow> name);
                version' = (if HasPrefix l ''Name:'' then version
                  else (case CutPrefix l ''Version:'' of Some r \<Rightarrow> TrimSpace r | None \<Rightarrow> version))
            in if name' \<noteq> [] \<and> version' \<noteq> [] then (name', version') else metadata_headers name' version' ls))"

definition extractFromPythonMetadata :: extractor where
  "extractFromPythonMetadata anchor body =
     (case metadata_headers [] [] (scan_lines body) of (name, version) \<Rightarrow>
        if name = [] then Inl (Missing ''METADATA: no Name header'')
        else Inr (identity name version (simplePURL ''pypi'' [] name version) ''pypi'' anchor ''anchor:dist-info/METADATA''))"

definition extractFromComposerJSON :: "decoders \<Rightarrow> extractor" where
  "extractFromComposerJSON D anchor body =
     (case JsonNameVersion D body of None \<Rightarrow> Inl (Malformed ''composer.json'')
      | Some (name, version) \<Rightarrow>
          if name = [] then Inl (Missing ''composer.json: empty name'')
          else (case cut_at slash name of None \<Rightarrow> Inl (NoVendor name)
            | Some (vendor, pkg) \<Rightarrow>
                Inr (identity name version (simplePURL ''composer'' vendor pkg version) ''composer'' anchor ''anchor:composer.json'')))"

definition extractFromChartYaml :: "decoders \<Rightarrow> extractor" where
  "extractFromChartYaml D anchor body =
     (case YamlNameVersion D body of None \<Rightarrow> Inl (Malformed ''chart.yaml'')
      | Some (name, version) \<Rightarrow>
          if name = [] then Inl (Missing ''chart.yaml: empty name'')
          else Inr (identity name version (simplePURL ''helm'' [] name version) ''helm'' anchor ''anchor:Chart.yaml''))"

definition extractFromGemspec :: extractor where
  "extractFromGemspec anchor body =
     (case gemspecName body of None \<Rightarrow> Inl (Missing ''gemspec: no name assignment'')
      | Some name \<Rightarrow>
          (let version = (case gemspecVersion body of Some v \<Rightarrow> v | None \<Rightarrow> [])
           in Inr (identity name version (simplePURL ''gem'' [] name version) ''gem'' anchor ''anchor:.gemspec'')))"

section \<open>The rules\<close>

record anchorRule =
  Basename :: string
  SuffixOnBase :: string
  Extract :: extractor

definition anchorRules :: "decoders \<Rightarrow> anchorRule list" where
  "anchorRules D =
     [\<lparr>Basename = ''package.json'', SuffixOnBase = [], Extract = extractFromPackageJSON D\<rparr>,
      \<lparr>Basename = ''Cargo.toml'', SuffixOnBase = [], Extract = extractFromCargoToml\<rparr>,
      \<lparr>Basename = ''go.mod'', SuffixOnBase = [], Extract = extractFromGoMod\<rparr>,
      \<lparr>Basename = ''pom.xml'', SuffixOnBase = [], Extract = extractFromPomXML D\<rparr>,
      \<lparr>Basename = ''pyproject.toml'', SuffixOnBase = [], Extract = extractFromPyproject\<rparr>,
      \<lparr>Basename = ''METADATA'', SuffixOnBase = [], Extract = extractFromPythonMetadata\<rparr>,
      \<lparr>Basename = ''composer.json'', SuffixOnBase = [], Extract = extractFromComposerJSON D\<rparr>,
      \<lparr>Basename = ''Chart.yaml'', SuffixOnBase = [], Extract = extractFromChartYaml D\<rparr>,
      \<lparr>Basename = [], SuffixOnBase = ''.gemspec'', Extract = extractFromGemspec\<rparr>]"

definition isPythonDistInfo :: "string \<Rightarrow> bool" where
  "isPythonDistInfo filePath = HasSuffix (Dir filePath) ''.dist-info''"

fun match_rules :: "string \<Rightarrow> anchorRule list \<Rightarrow> extractor option" where
  "match_rules filePath [] = None"
| "match_rules filePath (r # rs) =
     (if Basename r \<noteq> [] \<and> Base filePath = Basename r then
        (if Basename r = ''METADATA'' \<and> \<not> isPythonDistInfo filePath then match_rules filePath rs else Some (Extract r))
      else if SuffixOnBase r \<noteq> [] \<and> HasSuffix (Base filePath) (SuffixOnBase r) then Some (Extract r)
      else match_rules filePath rs)"

definition matchAnchor :: "decoders \<Rightarrow> string \<Rightarrow> extractor option" where
  "matchAnchor D filePath = match_rules filePath (anchorRules D)"

section \<open>Lemmas\<close>

lemma match_rules_member: "match_rules p rs = Some e \<Longrightarrow> \<exists>r \<in> set rs. e = Extract r"
  by (induction p rs rule: match_rules.induct) (auto split: if_splits)

definition identity_ok :: "string \<Rightarrow> Identity \<Rightarrow> bool" where
  "identity_ok p ident \<longleftrightarrow> IName ident \<noteq> [] \<and> IConfidence ident = 1 \<and> AnchorPath ident = p \<and>
     (IPURL ident = [] \<or> HasPrefix (IPURL ident) (''pkg:'' @ IType ident @ ''/''))"

lemma HasPrefix_grow [simp]: "HasPrefix (p @ s) (p @ q) = HasPrefix s q"
  by (induction p) auto

lemma simplePURL_prefix: "simplePURL ty ns name v = [] \<or> HasPrefix (simplePURL ty ns name v) (''pkg:'' @ ty @ ''/'')"
  by (simp add: simplePURL_def)

lemma purlNPM_prefix: "purlNPM name v = [] \<or> HasPrefix (purlNPM name v) ''pkg:npm/''"
  using simplePURL_prefix [of "''npm''"] by (simp add: purlNPM_def split: option.split)

lemma purl_other_prefix: "HasPrefix (purlGolang m v) ''pkg:golang/''" "HasPrefix (purlMaven g a v) ''pkg:maven/''"
  by (simp_all add: purlGolang_def purlMaven_def)

lemma identity_ok_intros:
  "name \<noteq> [] \<Longrightarrow> identity_ok p (identity name v (simplePURL ty ns n v') ty p how)"
  "name \<noteq> [] \<Longrightarrow> identity_ok p (identity name v (purlNPM n v') ''npm'' p how)"
  "name \<noteq> [] \<Longrightarrow> identity_ok p (identity name v (purlGolang m v') ''golang'' p how)"
  "name \<noteq> [] \<Longrightarrow> identity_ok p (identity name v (purlMaven g a v') ''maven'' p how)"
  using simplePURL_prefix [of ty ns n v'] purlNPM_prefix [of n v'] purl_other_prefix
  by (simp_all add: identity_ok_def identity_def)

lemma find_map_Some: "find_map f xs = Some y \<Longrightarrow> \<exists>x \<in> set xs. f x = Some y"
  by (induction xs) (auto split: option.splits)

lemma goModuleLine_nonempty: "goModuleLine body = Some m \<Longrightarrow> m \<noteq> []"
  unfolding goModuleLine_def by (drule find_map_Some) (auto simp: Let_def split: option.splits if_splits)

lemma quoted_nonempty: "quoted s = Some (v, t) \<Longrightarrow> v \<noteq> []"
  by (cases s) (auto simp: quoted_def Let_def split: if_splits)

lemma gemspec_at_nonempty: "gemspec_at field wrap s = Some v \<Longrightarrow> v \<noteq> []"
proof -
  assume "gemspec_at field wrap s = Some v"
  then obtain x t where "quoted x = Some (v, t)"
    by (fastforce simp: gemspec_at_def Let_def split: option.splits if_splits)
  then show ?thesis by (rule quoted_nonempty)
qed

lemma gemspecName_nonempty: "gemspecName body = Some m \<Longrightarrow> m \<noteq> []"
  unfolding gemspecName_def by (drule find_map_Some) (blast dest: gemspec_at_nonempty)

named_theorems extractors \<open>the extractors establish identity_ok\<close>

lemma json_ok [extractors]: "extractFromPackageJSON D p body = Inr ident \<Longrightarrow> identity_ok p ident"
  by (auto simp: extractFromPackageJSON_def identity_ok_intros split: option.splits if_splits)

lemma cargo_ok [extractors]: "extractFromCargoToml p body = Inr ident \<Longrightarrow> identity_ok p ident"
  by (auto simp: extractFromCargoToml_def identity_ok_intros split: prod.splits if_splits)

lemma go_mod_ok [extractors]: "extractFromGoMod p body = Inr ident \<Longrightarrow> identity_ok p ident"
  by (auto simp: extractFromGoMod_def identity_ok_intros dest: goModuleLine_nonempty split: option.splits)

lemma pom_ok [extractors]: "extractFromPomXML D p body = Inr ident \<Longrightarrow> identity_ok p ident"
  by (auto simp: extractFromPomXML_def Let_def identity_ok_intros split: option.splits if_splits)

lemma pyproject_ok [extractors]: "extractFromPyproject p body = Inr ident \<Longrightarrow> identity_ok p ident"
proof -
  assume e: "extractFromPyproject p body = Inr ident"
  then obtain name version where ident: "ident = identity name version (simplePURL ''pypi'' [] name version) ''pypi'' p ''anchor:pyproject.toml''"
    and f: "find_map (\<lambda>sec. case readTOMLNamedSection body sec of (name, version, ok) \<Rightarrow>
          if ok \<and> name \<noteq> [] then Some (name, version) else None) [''project'', ''tool.poetry''] = Some (name, version)"
    unfolding extractFromPyproject_def by (auto split: option.splits simp del: find_map.simps)
  from find_map_Some [OF f] have "name \<noteq> []" by (auto split: prod.splits if_splits)
  then show ?thesis unfolding ident by (rule identity_ok_intros)
qed

lemma metadata_ok [extractors]: "extractFromPythonMetadata p body = Inr ident \<Longrightarrow> identity_ok p ident"
  by (auto simp: extractFromPythonMetadata_def identity_ok_intros split: prod.splits if_splits)

lemma composer_ok [extractors]: "extractFromComposerJSON D p body = Inr ident \<Longrightarrow> identity_ok p ident"
  by (auto simp: extractFromComposerJSON_def identity_ok_intros split: option.splits prod.splits if_splits)

lemma chart_ok [extractors]: "extractFromChartYaml D p body = Inr ident \<Longrightarrow> identity_ok p ident"
  by (auto simp: extractFromChartYaml_def identity_ok_intros split: option.splits prod.splits if_splits)

lemma gemspec_ok [extractors]: "extractFromGemspec p body = Inr ident \<Longrightarrow> identity_ok p ident"
  by (auto simp: extractFromGemspec_def Let_def identity_ok_intros dest: gemspecName_nonempty split: option.splits)

lemma anchor_identity:
  assumes "matchAnchor D p = Some e" and "e p body = Inr ident"
  shows "identity_ok p ident"
proof -
  from match_rules_member [OF assms(1) [unfolded matchAnchor_def]]
  obtain r where "r \<in> set (anchorRules D)" "e = Extract r" by blast
  then show ?thesis using assms(2) extractors by (auto simp: anchorRules_def)
qed

text \<open>
  Whatever manifest the detector recognises, the identity read from it has a name, full confidence, the
  manifest's own path, and a package URL of the declared ecosystem (or none at all).
\<close>

theorem anchor_identity_ok:
  assumes "matchAnchor D p = Some e" and "e p body = Inr ident"
  shows "identity_ok p ident"
  by (rule anchor_identity [OF assms])

definition no_decoders :: decoders where
  "no_decoders = \<lparr>JsonNameVersion = \<lambda>_. None, YamlNameVersion = \<lambda>_. None, PomIdents = \<lambda>_. None\<rparr>"

definition lines_of :: "string list \<Rightarrow> string" where
  "lines_of ls = concat (map (\<lambda>l. l @ [newline]) ls)"

lemma anchor_identity_ok_witness:
  "identity_ok ''app/go.mod'' (projr (extractFromGoMod ''app/go.mod'' (lines_of [''// x'', ''module  example.org/m'', ''go 1.22''])))"
proof -
  have "matchAnchor no_decoders ''app/go.mod'' = Some extractFromGoMod"
    unfolding matchAnchor_def anchorRules_def by (simp add: go_defs)
  moreover have "extractFromGoMod ''app/go.mod'' (lines_of [''// x'', ''module  example.org/m'', ''go 1.22'']) =
      Inr (projr (extractFromGoMod ''app/go.mod'' (lines_of [''// x'', ''module  example.org/m'', ''go 1.22''])))"
    by code_simp
  ultimately show ?thesis by (rule anchor_identity_ok)
qed

section \<open>Reading TOML back\<close>

definition double_quote :: char where "double_quote = char_of (34 :: nat)"

definition toml_value :: "string \<Rightarrow> string" where
  "toml_value v = double_quote # v @ [double_quote]"

definition toml_document :: "string \<Rightarrow> string \<Rightarrow> string \<Rightarrow> string" where
  "toml_document sec name version =
     ''['' @ sec @ '']'' @ newline # ''name = '' @ toml_value name @ newline # ''version = '' @ toml_value version @ [newline]"

definition toml_text :: "string \<Rightarrow> bool" where
  "toml_text v \<longleftrightarrow> v \<noteq> [] \<and> newline \<notin> set v \<and> list_all (\<lambda>c. \<not> re_quote c) v"

lemma toml_chars [simp]:
  "re_space newline" "\<not> re_word newline" "\<not> re_quote newline" "re_quote double_quote" "\<not> re_space double_quote"
  "re_space (CHR '' '')" "\<not> re_word (CHR '' '')" "\<not> re_space (CHR ''['')" "\<not> re_space (CHR ''='')"
  "newline \<noteq> double_quote"
  by code_simp+

lemma toml_letters:
  "\<forall>c \<in> set ''nameversion''. re_word c \<and> \<not> re_space c"
  by code_simp

lemma quoted_toml [simp]: "toml_text v \<Longrightarrow> quoted (toml_value v @ rest) = Some (v, rest)"
  by (auto simp: quoted_def toml_value_def toml_text_def list_all_iff takeWhile_append dropWhile_append Let_def
      takeWhile_eq_all_conv dropWhile_eq_Nil_conv)

lemma sections_line:
  assumes "newline \<notin> set l"
  shows "sections False (l @ newline # rest) = sections True rest"
  using assms
proof (induction l)
  case Nil
  then show ?case by (subst sections.simps) simp
next
  case (Cons c l)
  then show ?case by (subst sections.simps) auto
qed

lemma sections_no_match:
  "match_section (c # l @ newline # rest) = None \<Longrightarrow> newline \<notin> set (c # l) \<Longrightarrow>
     sections True (c # l @ newline # rest) = sections True rest"
  using sections_line [of l rest] by (subst sections.simps) auto

lemma sections_empty [simp]: "sections True [] = []"
  by (subst sections.simps) (simp add: match_section_def skip_space_def)

lemma sections_document:
  assumes "sec \<noteq> []" "CHR '']'' \<notin> set sec" "toml_text name" "toml_text version"
  shows "sections True (toml_document sec name version) =
    [(sec, length (toml_document sec name version), length (toml_document sec name version) - (length sec + 2))]"
proof -
  let ?keys = "''name = '' @ toml_value name @ newline # ''version = '' @ toml_value version @ [newline]"
  have doc: "toml_document sec name version = CHR ''['' # sec @ CHR '']'' # newline # ?keys"
    by (simp add: toml_document_def)
  have n: "\<not> re_space (CHR ''n'')" "\<not> re_space (CHR ''v'')" "newline \<noteq> CHR ''n''" "newline \<noteq> CHR ''v''" by code_simp+
  have head: "match_section (toml_document sec name version) = Some (sec, False, newline # ?keys)"
    using assms(1,2) n
    by (simp add: doc match_section_def skip_space_def takeWhile_append dropWhile_append Let_def LastIndexByte_def
        LastIndexAny_def takeWhile_eq_all_conv)
  have line: "newline \<notin> set (toml_value name)" "newline \<notin> set (toml_value version)"
    using assms(3,4) by (auto simp: toml_text_def toml_value_def)
  have lit: "newline \<notin> set ''ame = ''" "newline \<notin> set ''ersion = ''" by code_simp+
  have keys: "?keys = CHR ''n'' # (''ame = '' @ toml_value name) @ newline # CHR ''v'' # (''ersion = '' @ toml_value version) @ newline # []"
    by simp
  have "match_section (CHR ''n'' # r) = None" "match_section (CHR ''v'' # r) = None" for r
    using n by (simp_all add: match_section_def skip_space_def)
  note none = this
  have "sections True (CHR ''v'' # (''ersion = '' @ toml_value version) @ newline # []) = sections True []"
    by (rule sections_no_match, rule none) (use line lit n in auto)
  moreover have "sections True ?keys = sections True (CHR ''v'' # (''ersion = '' @ toml_value version) @ newline # [])"
    unfolding keys by (rule sections_no_match, rule none) (use line lit n in auto)
  ultimately have "sections True ?keys = []" by (simp only: sections_empty)
  then have "sections False (newline # ?keys) = []" using sections_line [of "[]" ?keys] by simp
  then show ?thesis using head by (subst sections.simps) (simp add: doc)
qed

lemma assigns_break [simp]: "assigns False (newline # rest) = assigns True rest"
  by (subst assigns.simps) simp

lemma assigns_empty [simp]: "assigns True [] = []"
  by (subst assigns.simps) (simp add: match_assign_def skip_space_def)

lemma match_assign_line:
  assumes "key \<in> {''name'', ''version''}" "toml_text v"
  shows "match_assign (key @ '' = '' @ toml_value v @ rest) = Some (key, v, rest)"
    and "match_assign (newline # key @ '' = '' @ toml_value v @ rest) = Some (key, v, rest)"
proof -
  have k: "list_all re_word key" "list_all (\<lambda>c. \<not> re_space c) key" "key \<noteq> []"
    using assms(1) toml_letters by (auto simp: list_all_iff)
  have q: "skip_space (toml_value v @ rest) = toml_value v @ rest"
    by (simp add: skip_space_def toml_value_def)
  have s: "skip_space (key @ t) = key @ t" "takeWhile re_word (key @ '' '' @ t) = key" "dropWhile re_word (key @ '' '' @ t) = '' '' @ t" for t
    using k by (auto simp: skip_space_def list_all_iff takeWhile_append dropWhile_append takeWhile_eq_all_conv dropWhile_eq_Nil_conv)
  show "match_assign (key @ '' = '' @ toml_value v @ rest) = Some (key, v, rest)"
    using k s(2,3) [of "''= '' @ toml_value v @ rest"] s(1) [of "'' = '' @ toml_value v @ rest"] q quoted_toml [OF assms(2), of rest]
    by (simp add: match_assign_def Let_def skip_space_def)
  then show "match_assign (newline # key @ '' = '' @ toml_value v @ rest) = Some (key, v, rest)"
    unfolding match_assign_def by (simp add: skip_space_def)
qed

lemma assigns_document:
  assumes "toml_text name" "toml_text version"
  shows "assigns True (newline # ''name = '' @ toml_value name @ newline # ''version = '' @ toml_value version @ [newline]) =
    [(''name'', name), (''version'', version)]"
proof -
  have v: "assigns True (''version = '' @ toml_value version @ [newline]) = [(''version'', version)]"
    using match_assign_line(1) [of "''version''" version "[newline]"] assms(2) by (subst assigns.simps) simp
  show ?thesis
    using match_assign_line(2) [of "''name''" name "newline # ''version = '' @ toml_value version @ [newline]"] assms(1) v
    by (subst assigns.simps) simp
qed

text \<open>
  A section written with a name and a version is read back as that name and version.
\<close>

theorem toml_roundtrip:
  assumes "sec \<noteq> []" "CHR '']'' \<notin> set sec" "TrimSpace sec = sec" "toml_text name" "toml_text version"
  shows "readTOMLNamedSection (toml_document sec name version) sec = (name, version, True)"
proof -
  let ?keys = "newline # ''name = '' @ toml_value name @ newline # ''version = '' @ toml_value version @ [newline]"
  have doc: "toml_document sec name version = (CHR ''['' # sec @ '']'') @ ?keys"
    by (simp add: toml_document_def)
  have "take n (drop (length d - n) d) = k" if "d = h @ k" "n = length k" for n and d h k :: string
    using that by simp
  note block = this [OF doc]
  have "toml_keys [] [] (assigns True ?keys) = (name, version, True)"
    using assms(4,5) by (simp only: assigns_document) (simp add: toml_text_def)
  then show ?thesis
    using block [of "length (toml_document sec name version) - (length sec + 2)"] assms(3)
    by (simp add: readTOMLNamedSection_def sections_document [OF assms(1,2,4,5)] Let_def del: toml_keys.simps) (simp add: doc)
qed

lemma toml_roundtrip_witness:
  "readTOMLNamedSection (toml_document ''package'' ''serde'' ''1.0.2'') ''package'' = (''serde'', ''1.0.2'', True)"
proof (rule toml_roundtrip)
  show "toml_text ''serde''" "toml_text ''1.0.2''" "TrimSpace ''package'' = ''package''" by code_simp+
qed simp_all

text \<open>
  A \<open>[[bin]]\<close> header is not a section line, so the keys of the array table count as the package's while
  the package's version is still open.
\<close>

definition cargo_workspace :: string where
  "cargo_workspace = lines_of [''[package]'', ''name = '' @ toml_value ''app'', ''version.workspace = true'',
     ''[[bin]]'', ''name = '' @ toml_value ''tool'']"

lemma cargo_array_table_name:
  "map_sum id IName (extractFromCargoToml ''app/Cargo.toml'' cargo_workspace) = Inr ''tool''"
  by code_simp

end
