(* ===== verification/Cluster.thy ===== *)
theory Cluster
  imports Anchors Layer
begin

text \<open>
  The filesystem-aware cluster detector of the untracked enricher
  (\<open>internal/enrich/untracked/cluster/detector.go\<close> and \<open>density.go\<close>): the walk that collects files and
  anchors, the assignment of files to the deepest anchor, and the density stage that scores the
  directories no anchor claims.  A set of strings is a list without duplicates; a confidence is a
  rational number.
\<close>

section \<open>Paths\<close>

definition parent2 :: "string \<Rightarrow> string" where
  "parent2 p = (if p = [] \<or> p = ''/'' then [] else let d = Dir p in if d = dot then [] else d)"

definition pathParent :: "string \<Rightarrow> string" where
  "pathParent p = (let d = Dir p in if d = dot then [] else d)"

definition childUnder :: "string \<Rightarrow> string \<Rightarrow> string" where
  "childUnder parent child =
     (if parent = [] then hd (SplitC slash child)
      else (case CutPrefix child (parent @ ''/'') of None \<Rightarrow> []
        | Some r \<Rightarrow> (case IndexByte r slash of None \<Rightarrow> r | Some i \<Rightarrow> take i r)))"

definition depthOf :: "string \<Rightarrow> int" where
  "depthOf p = (if p = [] then 0 else int (count_list p slash) + 1)"

text \<open>
  The loops over the ancestors of a directory end: cleaning a text that ends in a slash makes it shorter,
  unless it is the slash itself.
\<close>

definition elems_size :: "string list \<Rightarrow> nat" where
  "elems_size es = sum_list (map (\<lambda>e. if e = [] then 0 else Suc (length e)) es)"

lemma elems_size_simps [simp]:
  "elems_size [] = 0"
  "elems_size (e # es) = (if e = [] then 0 else Suc (length e)) + elems_size es"
  "elems_size (xs @ ys) = elems_size xs + elems_size ys"
  "elems_size (rev xs) = elems_size xs"
  by (simp_all add: elems_size_def rev_map [symmetric])

lemma clean_step_size: "elems_size (clean_step rooted st e) \<le> elems_size st + elems_size [e]"
  by (cases st) (auto simp: clean_step_def)

lemma clean_elems_size: "elems_size (clean_elems rooted es) \<le> elems_size es"
proof -
  have "elems_size (foldl (clean_step rooted) st es) \<le> elems_size st + elems_size es" for st
  proof (induction es arbitrary: st)
    case (Cons e es)
    from Cons.IH [of "clean_step rooted st e"] clean_step_size [of rooted st e] show ?case by simp
  qed simp
  from this [of "[]"] show ?thesis by (simp add: clean_elems_def)
qed

lemma Join_size: "\<forall>e \<in> set es. e \<noteq> [] \<Longrightarrow> length (Join [c] es) = elems_size es - 1"
proof (induction "[c]" es rule: Join.induct)
  case (3 x y ys)
  then have "length (Join [c] (y # ys)) = elems_size (y # ys) - 1" "y \<noteq> []" "x \<noteq> []" by auto
  then show ?case by auto
qed auto

lemma SplitC_size: "elems_size (SplitC c s) \<le> Suc (length s) - length (filter (\<lambda>e. e = []) (SplitC c s))"
proof -
  have total: "sum_list (map (\<lambda>e. Suc (length e)) (SplitC c s)) = Suc (length s)"
    by (induction s) (auto split: list.split)
  have "elems_size es + length (filter (\<lambda>e. e = []) es) = sum_list (map (\<lambda>e. Suc (length e)) es)" for es :: "string list"
    by (induction es) auto
  from this [of "SplitC c s"] total show ?thesis by simp
qed

lemma SplitC_snoc_sep: "SplitC c (s @ [c]) = SplitC c s @ [[]]"
  by (induction s) (auto split: list.split)

lemma Clean_slash_shorter:
  assumes "s \<noteq> []"
  shows "length (Clean (s @ [slash])) < length (s @ [slash])"
proof -
  let ?es = "SplitC slash (s @ [slash])" and ?r = "hd s = slash"
  let ?kept = "clean_elems ?r ?es"
  have "clean_form ?r ?kept" by (rule clean_elems_form) (blast dest: SplitC_elems)
  then have ne: "\<forall>e \<in> set ?kept. e \<noteq> []" by (blast dest: clean_form_nonempty)
  have blanks: "(if ?r then 2 else 1) \<le> length (filter (\<lambda>e. e = []) ?es)"
  proof (cases s)
    case (Cons a t)
    obtain y ys where "SplitC slash t = y # ys" by (metis SplitC_nonempty neq_Nil_conv)
    then show ?thesis using Cons by (simp add: SplitC_snoc_sep)
  qed (use assms in simp)
  have "elems_size ?kept \<le> elems_size ?es" by (rule clean_elems_size)
  also have "\<dots> \<le> Suc (length (s @ [slash])) - (if ?r then 2 else 1)"
    using SplitC_size [of slash "s @ [slash]"] blanks by linarith
  finally have size: "elems_size ?kept \<le> Suc (length (s @ [slash])) - (if ?r then 2 else 1)" .
  have "hd (s @ [slash]) = hd s" using assms by simp
  then show ?thesis
    using size assms Join_size [OF ne, of slash] by (cases s) (auto simp: Clean_def Let_def split: if_splits)
qed

lemma parent2_shorter: "p \<noteq> [] \<Longrightarrow> length (parent2 p) < length p"
proof (cases "LastIndexByte p slash")
  case None
  assume "p \<noteq> []"
  with None show ?thesis by (simp add: parent2_def Dir_def Clean_def)
next
  case (Some i)
  assume p: "p \<noteq> []"
  obtain u v where uv: "p = u @ slash # v" "slash \<notin> set v"
  proof -
    have "slash \<in> set p" using Some LastIndexAny_None [of "\<lambda>x. x = slash" p] by (auto simp: LastIndexByte_def)
    then show thesis using that by (blast dest: split_list_last)
  qed
  then have "\<forall>c \<in> set v. c \<noteq> slash" by auto
  from LastIndexAny_split [OF this, of slash u] have d: "Dir p = Clean (u @ [slash])"
    by (simp add: Dir_def LastIndexByte_def uv(1))
  show ?thesis
  proof (cases "u = []")
    case True
    have "Clean ''/'' = ''/''" by code_simp
    then have "Dir p = ''/''" using d True by simp
    then show ?thesis using uv True by (cases v) (simp_all add: parent2_def)
  next
    case False
    then show ?thesis using Clean_slash_shorter [OF False] uv d by (auto simp: parent2_def Let_def)
  qed
qed

text \<open>\<open>for cur := dir; cur != ""; cur = parent2(cur)\<close>.\<close>

function ancestors :: "string \<Rightarrow> string list" where
  "ancestors p = (if p = [] then [] else p # ancestors (parent2 p))"
  by pat_completeness auto
termination
  by (relation "measure length") (auto intro: parent2_shorter)

declare ancestors.simps [simp del]

section \<open>Scoring a directory\<close>

record signature =
  hasMakefile :: bool
  hasConfigure :: bool
  hasCMakeLists :: bool
  hasReadme :: bool
  hasLicense :: bool
  hasSrcDir :: bool
  hasIncludeDir :: bool
  hasTestDir :: bool
  versionInDirName :: string
  dirNameStripped :: string
  sigFileCount :: int

definition densityScoreThreshold :: int where "densityScoreThreshold = 7"

definition new_signature :: "int \<Rightarrow> signature" where
  "new_signature n = \<lparr>hasMakefile = False, hasConfigure = False, hasCMakeLists = False, hasReadme = False,
     hasLicense = False, hasSrcDir = False, hasIncludeDir = False, hasTestDir = False,
     versionInDirName = [], dirNameStripped = [], sigFileCount = n\<rparr>"

definition stampChildSignal :: "signature \<Rightarrow> string \<Rightarrow> signature" where
  "stampChildSignal sig c =
     (let sig1 =
        (if c \<in> set [''Makefile'', ''makefile'', ''GNUmakefile''] then sig\<lparr>hasMakefile := True\<rparr>
         else if c \<in> set [''configure'', ''configure.ac'', ''configure.in''] then sig\<lparr>hasConfigure := True\<rparr>
         else if c = ''CMakeLists.txt'' then sig\<lparr>hasCMakeLists := True\<rparr>
         else sig);
        lc = ToLower c
      in if HasPrefix lc ''readme'' then sig1\<lparr>hasReadme := True\<rparr>
         else if HasPrefix lc ''license'' \<or> HasPrefix lc ''licence'' \<or> lc = ''copying'' \<or> lc = ''copying.lib''
           then sig1\<lparr>hasLicense := True\<rparr>
         else if lc = ''src'' then sig1\<lparr>hasSrcDir := True\<rparr>
         else if lc = ''include'' then sig1\<lparr>hasIncludeDir := True\<rparr>
         else if lc = ''test'' \<or> lc = ''tests'' \<or> lc = ''spec'' then sig1\<lparr>hasTestDir := True\<rparr>
         else sig1)"

definition scoreSignature :: "signature \<Rightarrow> int" where
  "scoreSignature sig =
     (if hasMakefile sig \<and> hasConfigure sig then 5 else 0) +
     (if hasCMakeLists sig then 4 else 0) +
     (if versionInDirName sig \<noteq> [] then 5 else 0) +
     (if hasSrcDir sig \<and> hasIncludeDir sig then 3 else 0) +
     (if hasTestDir sig then 2 else 0) +
     (if hasLicense sig \<and> hasReadme sig then 2 else 0) +
     (if 100 < sigFileCount sig then 1 else 0) +
     (if 1000 < sigFileCount sig then 2 else 0)"

text \<open>
  The directory-name patterns: a name of the pattern's class, as short as possible, the separator,
  and a version that starts with a digit and runs to the end.
\<close>

definition is_letter :: "char \<Rightarrow> bool" where
  "is_letter c = (let n = (of_char c :: nat) in 65 \<le> n \<and> n \<le> 90 \<or> 97 \<le> n \<and> n \<le> 122)"

definition name_char :: "bool \<Rightarrow> char \<Rightarrow> bool" where
  "name_char underscore c \<longleftrightarrow> is_letter c \<or> is_digit c \<or> c \<in> set ''+.-'' \<or> underscore \<and> c = CHR ''_''"

definition dir_name :: "bool \<Rightarrow> string \<Rightarrow> bool" where
  "dir_name underscore s \<longleftrightarrow> s \<noteq> [] \<and> is_letter (hd s) \<and> list_all (name_char underscore) (tl s)"

definition dir_version :: "string \<Rightarrow> bool" where
  "dir_version s \<longleftrightarrow> s \<noteq> [] \<and> is_digit (hd s) \<and> list_all (name_char True) (tl s)"

definition match_name_version :: "bool \<Rightarrow> string \<Rightarrow> string \<Rightarrow> (string \<times> string) option" where
  "match_name_version underscore sep base =
     find_map (\<lambda>k. if \<not> dir_name underscore (take k base) then None
        else (case CutPrefix (drop k base) sep of None \<Rightarrow> None
          | Some v \<Rightarrow> if dir_version v then Some (take k base, v) else None))
       [1..<Suc (length base)]"

definition nameVersionPatterns :: "(bool \<times> string) list" where
  "nameVersionPatterns = [(True, ''-version-''), (True, ''-v''), (False, ''_''), (True, ''-'')]"

definition parseNameVersionFromDirName :: "string \<Rightarrow> (string \<times> string) option" where
  "parseNameVersionFromDirName base = find_map (\<lambda>(u, sep). match_name_version u sep base) nameVersionPatterns"

definition scoreDirectory :: "string \<Rightarrow> string list \<Rightarrow> int \<Rightarrow> signature \<times> int" where
  "scoreDirectory dir children recursiveFileCount =
     (let sig = foldl stampChildSignal (new_signature recursiveFileCount) children;
          sig1 = (case parseNameVersionFromDirName (Base dir) of None \<Rightarrow> sig
             | Some (name, version) \<Rightarrow> sig\<lparr>versionInDirName := version, dirNameStripped := name\<rparr>)
      in (sig1, scoreSignature sig1))"

definition densityIdentity :: "string \<Rightarrow> signature \<Rightarrow> int \<Rightarrow> Identity option" where
  "densityIdentity dir sig score =
     (let name = (if dirNameStripped sig = [] then (if dir = [] then [] else Base dir) else dirNameStripped sig);
          version = versionInDirName sig;
          confidence = of_int score / 10;
          purl = ''pkg:generic/'' @ name @ (if version \<noteq> [] then ''@'' @ version else []) @ ''?root=/'' @ TrimPrefix dir ''/''
      in if dirNameStripped sig = [] \<and> (name = [] \<or> name = ''/'' \<or> name = dot) then None
         else Some \<lparr>IName = name, IVersion = version, IPURL = purl, IType = ''generic'', AnchorPath = [],
           IConfidence = (if confidence > 1 then 1 else confidence), DetectionMethod = ''density:score='' @ Itoa score\<rparr>)"

section \<open>The detector\<close>

record fileMeta =
  FPath :: string
  FSize :: int

record ClusterOptions =
  MaxAnchorBytes :: int
  SkipDensity :: bool
  MinDirChildren :: int

definition anchorRoot :: "string \<Rightarrow> Identity \<Rightarrow> string" where
  "anchorRoot anchorPath ident =
     (let dir = (if Dir anchorPath = dot then [] else Dir anchorPath) in
        if DetectionMethod ident = ''anchor:dist-info/METADATA'' then Dir dir else dir)"

fun claim :: "fileMeta \<Rightarrow> Cluster list \<Rightarrow> Cluster list" where
  "claim f [] = []"
| "claim f (c # cs) =
     (if Within (Some c) (FPath f) then c\<lparr>Files := Files c @ [FPath f], TotalSize := TotalSize c + FSize f\<rparr> # cs
      else c # claim f cs)"

definition assignFilesToClusters :: "Cluster list \<Rightarrow> fileMeta list \<Rightarrow> Cluster list" where
  "assignFilesToClusters clusters files =
     foldl (\<lambda>cs f. claim f cs) (map (\<lambda>c. c\<lparr>Files := [], TotalSize := 0\<rparr>) clusters) files"

definition isAnchored :: "string \<Rightarrow> Cluster list \<Rightarrow> bool" where
  "isAnchored p clusters = list_ex (\<lambda>c. Within (Some c) p) clusters"

record dirInfo =
  dchildren :: "string list"
  fileCount :: int
  anyClaimed :: bool

definition update_dir :: "string \<Rightarrow> (dirInfo \<Rightarrow> dirInfo) \<Rightarrow> dirInfo gomap \<Rightarrow> dirInfo gomap" where
  "update_dir p f dirs =
     mput p (f (case mget dirs p of None \<Rightarrow> \<lparr>dchildren = [], fileCount = 0, anyClaimed = False\<rparr> | Some d \<Rightarrow> d)) dirs"

definition add_child :: "string \<Rightarrow> dirInfo \<Rightarrow> dirInfo" where
  "add_child c d = d\<lparr>dchildren := List.insert c (dchildren d)\<rparr>"

definition count_file :: "bool \<Rightarrow> string \<Rightarrow> dirInfo gomap \<Rightarrow> string \<Rightarrow> dirInfo gomap" where
  "count_file claimed parent dirs cur =
     update_dir cur (\<lambda>d.
       let d1 = d\<lparr>fileCount := fileCount d + 1, anyClaimed := anyClaimed d \<or> claimed\<rparr>
       in if cur = parent then d1 else add_child (childUnder cur parent) d1) dirs"

definition index_file :: "Cluster list \<Rightarrow> dirInfo gomap \<Rightarrow> fileMeta \<Rightarrow> dirInfo gomap" where
  "index_file clusters dirs f =
     (let parent = pathParent (FPath f) in
        foldl (count_file (isAnchored (FPath f) clusters) parent)
          (update_dir parent (add_child (Base (FPath f))) dirs) (ancestors parent))"

definition buildDirIndex :: "fileMeta list \<Rightarrow> Cluster list \<Rightarrow> dirInfo gomap" where
  "buildDirIndex files clusters = foldl (index_file clusters) [] files"

definition sortedDirNames :: "dirInfo gomap \<Rightarrow> string list" where
  "sortedDirNames dirs = sort (map fst dirs)"

definition alreadyScored :: "string \<Rightarrow> string set \<Rightarrow> bool" where
  "alreadyScored dirName scored = list_ex (\<lambda>cur. cur \<in> scored) (ancestors dirName)"

definition markScored :: "string \<Rightarrow> string set \<Rightarrow> string set" where
  "markScored dirName scored = foldl (\<lambda>sc cur. insert cur sc) scored (ancestors dirName)"

definition densityCandidate :: "string \<Rightarrow> dirInfo \<Rightarrow> int \<Rightarrow> string set \<Rightarrow> bool" where
  "densityCandidate dirName info minChildren scored \<longleftrightarrow>
     \<not> (dirName = [] \<or> int (length (dchildren info)) < minChildren) \<and> \<not> anyClaimed info \<and>
     \<not> alreadyScored dirName scored"

definition tryEmitDensityCluster :: "string \<Rightarrow> dirInfo \<Rightarrow> fileMeta list \<Rightarrow> Cluster list \<Rightarrow> Cluster option" where
  "tryEmitDensityCluster dirName info files clusters =
     (case scoreDirectory dirName (sort (dchildren info)) (fileCount info) of (sig, score) \<Rightarrow>
        if score < densityScoreThreshold then None
        else (case densityIdentity dirName sig score of None \<Rightarrow> None
          | Some ident \<Rightarrow>
              (let c = \<lparr>CIdentity = ident, Root = dirName, Files = [], TotalSize = 0\<rparr>;
                   mine = filter (\<lambda>f. Within (Some c) (FPath f) \<and> \<not> isAnchored (FPath f) clusters) files
               in Some (c\<lparr>Files := map FPath mine, TotalSize := sum_list (map FSize mine)\<rparr>))))"

fun density_loop :: "dirInfo gomap \<Rightarrow> fileMeta list \<Rightarrow> Cluster list \<Rightarrow> int \<Rightarrow> string set \<Rightarrow> string list \<Rightarrow> Cluster list" where
  "density_loop dirs files clusters m scored [] = []"
| "density_loop dirs files clusters m scored (d # ds) =
     (case mget dirs d of None \<Rightarrow> density_loop dirs files clusters m scored ds
      | Some info \<Rightarrow>
          if \<not> densityCandidate d info m scored then density_loop dirs files clusters m scored ds
          else (case tryEmitDensityCluster d info files clusters of
              None \<Rightarrow> density_loop dirs files clusters m scored ds
            | Some c \<Rightarrow> c # density_loop dirs files clusters m (markScored d scored) ds))"

definition detectDensityClusters :: "fileMeta list \<Rightarrow> Cluster list \<Rightarrow> int \<Rightarrow> Cluster list" where
  "detectDensityClusters files clusters minChildren =
     (let dirs = buildDirIndex files clusters in
        density_loop dirs files clusters (if minChildren < 1 then 3 else minChildren) {} (sortedDirNames dirs))"

definition cluster_visitor ::
  "decoders \<Rightarrow> (tar_header \<Rightarrow> bool) \<Rightarrow> int \<Rightarrow> (fileMeta list \<times> Cluster list) visitor"
where
  "cluster_visitor D fails maxAnchor st fe =
     (let body = Body (EHeader fe);
          files = fst st @ [\<lparr>FPath = EPath fe, FSize = int (length body)\<rparr>]
      in (case matchAnchor D (EPath fe) of None \<Rightarrow> ((files, snd st), VisitOk)
          | Some ext \<Rightarrow>
              if fails (EHeader fe) then ((files, snd st), VisitOk)
              else (case ext (EPath fe) (take (nat maxAnchor) body) of
                  Inl _ \<Rightarrow> ((files, snd st), VisitOk)
                | Inr ident \<Rightarrow>
                    ((files, snd st @ [\<lparr>CIdentity = ident, Root = anchorRoot (EPath fe) ident, Files = [], TotalSize = 0\<rparr>]), VisitOk))))"

datatype cluster_error = ClusterNilImage | ClusterWalk layer_error

definition DetectClusters ::
  "decoders \<Rightarrow> (tar_header \<Rightarrow> bool) \<Rightarrow> (nat \<Rightarrow> string option) \<Rightarrow> (nat \<Rightarrow> nat \<Rightarrow> string option) \<Rightarrow>
   v1_image option \<Rightarrow> ClusterOptions \<Rightarrow> cluster_error + Cluster list"
where
  "DetectClusters D fails ctx ectx img opts =
     (if img = None then Inl ClusterNilImage
      else (let maxAnchor = (if MaxAnchorBytes opts \<le> 0 then 256 * 1024 else MaxAnchorBytes opts) in
        (case WalkFiles ctx ectx img (Some (cluster_visitor D fails maxAnchor)) ([], []) of
           (Some err, _) \<Rightarrow> Inl (ClusterWalk err)
         | (None, (files, found)) \<Rightarrow>
             (let anchors = assignFilesToClusters (sort_desc (\<lambda>c. depthOf (Root c)) found) files
              in if SkipDensity opts then Inr anchors
                 else Inr (anchors @ detectDensityClusters files anchors (MinDirChildren opts))))))"

section \<open>Ancestors\<close>

lemma ancestors_Nil [simp]: "ancestors [] = []"
  by (subst ancestors.simps) simp

lemma ancestors_self: "p \<noteq> [] \<Longrightarrow> ancestors p = p # ancestors (parent2 p)"
  by (subst ancestors.simps) simp

text \<open>The directory above a normal path drops its last element.\<close>

lemma Join_snoc: "es \<noteq> [] \<Longrightarrow> Join [c] (es @ [e]) = Join [c] es @ c # e"
  by (induction "[c]" es rule: Join.induct) auto

lemma Clean_trailing_slash: "s \<noteq> [] \<Longrightarrow> s \<noteq> ''/'' \<Longrightarrow> Clean (s @ [slash]) = Clean s"
  by (auto simp: Clean_def SplitC_snoc_sep clean_elems_def clean_step_def Let_def)

lemma Dir_last:
  assumes "slash \<notin> set e"
  shows "Dir (u @ slash # e) = Clean (u @ [slash])"
proof -
  have "\<forall>c \<in> set e. c \<noteq> slash" using assms by auto
  from LastIndexAny_split [OF this, of slash u] show ?thesis by (simp add: Dir_def LastIndexByte_def)
qed

lemma clean_form_butlast: "clean_form r (es @ [e]) \<Longrightarrow> clean_form r es"
proof -
  assume "clean_form r (es @ [e])"
  then obtain n ns where es: "es @ [e] = replicate n dotdot @ ns" "list_all plain ns" "r \<longrightarrow> n = 0"
    unfolding clean_form_def by blast
  show ?thesis
  proof (cases ns rule: rev_cases)
    case Nil
    then obtain m where "n = Suc m" using es(1) by (cases n) auto
    then have "es = replicate m dotdot @ []" using es(1) Nil by (simp add: replicate_append_same [symmetric] del: replicate_append_same)
    then show ?thesis using es(3) \<open>n = Suc m\<close> unfolding clean_form_def by (intro exI [of _ m] exI [of _ "[]"]) auto
  next
    case (snoc ms m)
    then have "es = replicate n dotdot @ ms" using es(1) by simp
    then show ?thesis using es(2,3) snoc unfolding clean_form_def by (intro exI [of _ n] exI [of _ ms]) auto
  qed
qed

lemma parent2_Join:
  assumes form: "clean_form False (es @ [e])"
  shows "parent2 (Join [slash] (es @ [e])) = Join [slash] es" and "pathParent (Join [slash] (es @ [e])) = Join [slash] es"
proof -
  let ?p = "Join [slash] (es @ [e])"
  have e: "slash \<notin> set e" using clean_form_no_slash [OF form] by simp
  note h = hd_Join_form [OF form]
  have pn: "?p \<noteq> []" "?p \<noteq> ''/''" using h by auto
  have "(if Dir ?p = dot then [] else Dir ?p) = Join [slash] es"
  proof (cases "es = []")
    case True
    then have "LastIndexByte ?p slash = None" using e by (auto simp: LastIndexByte_def LastIndexAny_None)
    then show ?thesis using True by (simp add: Dir_def Clean_def)
  next
    case False
    note form' = clean_form_butlast [OF form]
    note h' = hd_Join_form [OF form' False]
    have "Dir ?p = Clean (Join [slash] es @ [slash])" using Dir_last [OF e] by (simp add: Join_snoc False)
    also have "\<dots> = Clean (Join [slash] es)"
      by (rule Clean_trailing_slash) (use h' in auto)
    also have "\<dots> = Join [slash] es" by (rule Clean_relative [OF form' False])
    finally show ?thesis using h' by simp
  qed
  then show "parent2 ?p = Join [slash] es" "pathParent ?p = Join [slash] es"
    using pn by (auto simp: parent2_def pathParent_def Let_def)
qed

definition top_dir :: "string \<Rightarrow> string" where
  "top_dir p = hd (SplitC slash p)"

definition dir_path :: "string \<Rightarrow> bool" where
  "dir_path p \<longleftrightarrow> (\<exists>es. clean_form False es \<and> p = Join [slash] es)"

lemma ancestors_Join:
  assumes "clean_form False es"
  shows "ancestors (Join [slash] es) = map (\<lambda>k. Join [slash] (take k es)) (rev [1..<Suc (length es)])"
  using assms
proof (induction es rule: rev_induct)
  case (snoc e es)
  then have "Join [slash] (es @ [e]) \<noteq> []" using hd_Join_form(1) [of "es @ [e]"] by simp
  with snoc show ?case
    by (auto simp: ancestors_self parent2_Join [OF snoc.prems] clean_form_butlast [OF snoc.prems])
qed simp

section \<open>Assigning files\<close>

definition owns :: "Cluster list \<Rightarrow> nat \<Rightarrow> string \<Rightarrow> bool" where
  "owns cs j p \<longleftrightarrow> Within (Some (cs ! j)) p \<and> \<not> (\<exists>i < j. Within (Some (cs ! i)) p)"

lemma Within_root: "Root c = Root d \<Longrightarrow> Within (Some c) p = Within (Some d) p"
  by (simp add: Within_def)

lemma owns_root: "map Root cs = map Root ds \<Longrightarrow> j < length cs \<Longrightarrow> owns cs j p = owns ds j p"
proof -
  assume r: "map Root cs = map Root ds" and j: "j < length cs"
  then have "Within (Some (cs ! i)) p = Within (Some (ds ! i)) p" if "i \<le> j" for i
    using that by (intro Within_root) (metis le_trans length_map linorder_not_less nth_map order_less_imp_le le_less_trans)
  then show ?thesis by (auto simp: owns_def)
qed

lemma claim_length [simp]: "length (claim f cs) = length cs"
  by (induction f cs rule: claim.induct) auto

lemma claim_frame [simp]: "map Root (claim f cs) = map Root cs" "map CIdentity (claim f cs) = map CIdentity cs"
  by (induction f cs rule: claim.induct) auto

lemma claim_nth:
  "j < length cs \<Longrightarrow> claim f cs ! j =
     (if owns cs j (FPath f) then (cs ! j)\<lparr>Files := Files (cs ! j) @ [FPath f], TotalSize := TotalSize (cs ! j) + FSize f\<rparr> else cs ! j)"
proof (induction f cs arbitrary: j rule: claim.induct)
  case (2 f c cs)
  then show ?case by (cases j) (auto simp: owns_def Ex_less_Suc2)
qed simp

lemma claims_nth:
  "j < length cs \<Longrightarrow> foldl (\<lambda>cs f. claim f cs) cs files ! j =
     (cs ! j)\<lparr>Files := Files (cs ! j) @ map FPath (filter (\<lambda>f. owns cs j (FPath f)) files),
       TotalSize := TotalSize (cs ! j) + sum_list (map FSize (filter (\<lambda>f. owns cs j (FPath f)) files))\<rparr>"
proof (induction files arbitrary: cs)
  case (Cons f files)
  have "owns (claim f cs) j p = owns cs j p" for p
    using Cons.prems by (intro owns_root) simp_all
  then show ?case using Cons.IH [of "claim f cs"] Cons.prems by (simp add: claim_nth)
qed simp

lemma claims_frame:
  "map Root (foldl (\<lambda>cs f. claim f cs) cs files) = map Root cs"
  "map CIdentity (foldl (\<lambda>cs f. claim f cs) cs files) = map CIdentity cs"
  by (induction files arbitrary: cs) simp_all

lemma assign_frame:
  "map Root (assignFilesToClusters cs files) = map Root cs"
  "map CIdentity (assignFilesToClusters cs files) = map CIdentity cs"
  "length (assignFilesToClusters cs files) = length cs"
proof -
  show r: "map Root (assignFilesToClusters cs files) = map Root cs"
    and "map CIdentity (assignFilesToClusters cs files) = map CIdentity cs"
    by (simp_all add: assignFilesToClusters_def claims_frame comp_def)
  from arg_cong [OF r, of length] show "length (assignFilesToClusters cs files) = length cs" by simp
qed

lemma assign_files:
  fixes cs :: "Cluster list"
  defines "out files \<equiv> assignFilesToClusters cs files"
  assumes "j < length cs"
  shows "Files (out files ! j) = map FPath (filter (\<lambda>f. owns (out files) j (FPath f)) files)"
    and "TotalSize (out files ! j) = sum_list (map FSize (filter (\<lambda>f. owns (out files) j (FPath f)) files))"
proof -
  let ?cs = "map (\<lambda>c. c\<lparr>Files := [], TotalSize := 0\<rparr>) cs"
  have "owns ?cs j p = owns (out files) j p" for p
    using assms by (intro owns_root) (simp_all add: assign_frame comp_def)
  then show "Files (out files ! j) = map FPath (filter (\<lambda>f. owns (out files) j (FPath f)) files)"
    "TotalSize (out files ! j) = sum_list (map FSize (filter (\<lambda>f. owns (out files) j (FPath f)) files))"
    using claims_nth [of j ?cs files] assms by (simp_all add: assignFilesToClusters_def)
qed

lemma owns_deepest:
  assumes "sorted_wrt (\<lambda>x y. depthOf (Root y) \<le> depthOf (Root x)) cs" "owns cs j p" "i < length cs" "Within (Some (cs ! i)) p"
  shows "depthOf (Root (cs ! i)) \<le> depthOf (Root (cs ! j))"
proof (cases "i = j")
  case False
  then have "j < i" using assms(2,4) by (meson nat_neq_iff owns_def)
  then show ?thesis using assms(1,3) by (simp add: sorted_wrt_iff_nth_less)
qed simp

text \<open>
  The files of an anchor cluster are, in walk order, those under its root that no cluster before it
  contains, with their total size; every other cluster that contains such a file is at most as deep.
\<close>

theorem assign_deepest:
  assumes "cs = assignFilesToClusters (sort_desc (\<lambda>c. depthOf (Root c)) found) files" and "j < length found"
  shows "Files (cs ! j) = map FPath (filter (\<lambda>f. owns cs j (FPath f)) files) \<and>
    TotalSize (cs ! j) = sum_list (map FSize (filter (\<lambda>f. owns cs j (FPath f)) files)) \<and>
    (\<forall>p. owns cs j p \<longrightarrow>
       list_all (\<lambda>c. Within (Some c) p \<longrightarrow> depthOf (Root c) \<le> depthOf (Root (cs ! j))) cs)"
proof (intro conjI allI impI)
  show "Files (cs ! j) = map FPath (filter (\<lambda>f. owns cs j (FPath f)) files)"
    "TotalSize (cs ! j) = sum_list (map FSize (filter (\<lambda>f. owns cs j (FPath f)) files))"
    using assign_files [of j "sort_desc (\<lambda>c. depthOf (Root c)) found" files] assms by simp_all
  fix p assume o: "owns cs j p"
  let ?s = "sort_desc (\<lambda>c. depthOf (Root c)) found"
  have "map Root cs = map Root ?s" using assms(1) by (simp add: assign_frame)
  then have d: "map (\<lambda>c. depthOf (Root c)) cs = map (\<lambda>c. depthOf (Root c)) ?s"
    by (metis (no_types, lifting) list.map_comp comp_def map_eq_conv)
  have "sorted_wrt (\<lambda>x y. y \<le> x) (map (\<lambda>c. depthOf (Root c)) ?s)"
    using sorted_sort_desc [of "\<lambda>c. depthOf (Root c)" found] by (simp add: sorted_wrt_map)
  then have "sorted_wrt (\<lambda>x y. depthOf (Root y) \<le> depthOf (Root x)) cs"
    unfolding d [symmetric] by (simp add: sorted_wrt_map)
  from owns_deepest [OF this o]
  show "list_all (\<lambda>c. Within (Some c) p \<longrightarrow> depthOf (Root c) \<le> depthOf (Root (cs ! j))) cs"
    by (auto simp: list_all_length)
qed

section \<open>One density cluster per top directory\<close>

lemma top_dir_below: "top_dir (r @ slash # t) = top_dir r"
  by (induction r) (auto simp: top_dir_def split: list.split)

lemma Within_top: "Within (Some c) p \<Longrightarrow> top_dir p = top_dir (Root c)"
proof -
  assume "Within (Some c) p"
  then consider "p = Root c" | "hasPrefixWithSep p (Root c)" by (auto simp: Within_def)
  then show ?thesis
  proof cases
    case 2
    then have "p = Root c @ slash # drop (Suc (length (Root c))) p"
      by (metis Cons_nth_drop_Suc append_take_drop_id hasPrefixWithSep_def)
    then show ?thesis by (metis top_dir_below)
  qed simp
qed

lemma top_dir_ancestor:
  assumes "dir_path p" "p \<noteq> []"
  shows "top_dir p \<in> set (ancestors p)"
proof -
  obtain es where es: "clean_form False es" "p = Join [slash] es" using assms(1) by (auto simp: dir_path_def)
  then obtain e es' where cons: "es = e # es'" using assms(2) by (cases es) auto
  have "slash \<notin> set x" if "x \<in> set es" for x using clean_form_no_slash [OF es(1) that] .
  then have "SplitC slash p = es" unfolding es(2) by (intro SplitC_Join) (auto simp: cons)
  then have "top_dir p = Join [slash] (take 1 es)" by (simp add: top_dir_def cons)
  moreover have "1 \<in> set [1..<Suc (length es)]" unfolding set_upt by (simp add: cons)
  ultimately show ?thesis unfolding es(2) ancestors_Join [OF es(1)] set_map set_rev by blast
qed

lemma markScored_set: "markScored d scored = scored \<union> set (ancestors d)"
proof -
  have "foldl (\<lambda>sc cur. insert cur sc) scored xs = scored \<union> set xs" for xs
    by (induction xs arbitrary: scored) auto
  then show ?thesis by (simp add: markScored_def)
qed

lemma tryEmit_root: "tryEmitDensityCluster d info files cl = Some c \<Longrightarrow> Root c = d"
  by (auto simp: tryEmitDensityCluster_def Let_def split: prod.splits if_splits option.splits)

lemma candidate_top:
  assumes "dir_path d" "densityCandidate d info m scored"
  shows "top_dir d \<notin> scored" "top_dir d \<in> set (ancestors d)"
proof -
  have "d \<noteq> []" "\<not> alreadyScored d scored" using assms(2) by (auto simp: densityCandidate_def)
  then show "top_dir d \<notin> scored" "top_dir d \<in> set (ancestors d)"
    using top_dir_ancestor [OF assms(1)] by (auto simp: alreadyScored_def list_ex_iff)
qed

lemma density_loop_tops:
  "\<forall>d \<in> set ds. dir_path d \<Longrightarrow>
     distinct (map (\<lambda>c. top_dir (Root c)) (density_loop dirs files cl m scored ds)) \<and>
     (\<forall>c \<in> set (density_loop dirs files cl m scored ds). top_dir (Root c) \<notin> scored)"
proof (induction dirs files cl m scored ds rule: density_loop.induct)
  case (2 dirs files cl m scored d ds)
  then have rest: "\<forall>x \<in> set ds. dir_path x" and d: "dir_path d" by simp_all
  show ?case
    using 2(1) [OF _ rest] 2(2) [OF _ _ rest] 2(3) [OF _ _ _ rest] 2(4) [OF _ _ _ rest] candidate_top [OF d, of _ m scored]
      tryEmit_root [of d _ files cl]
    by (auto simp: markScored_set split: option.split)
qed simp

lemma dom_update_dir: "dom (mget (update_dir p f dirs)) = insert p (dom (mget dirs))"
  by (simp only: update_dir_def dom_mput)

lemma keys_dom: "fst ` set (m :: 'v gomap) = dom (mget m)"
  by (rule dom_map_of_conv_image_fst [symmetric])

lemma Join_take_path: "clean_form False es \<Longrightarrow> dir_path (Join [slash] (take k es))"
proof (induction es arbitrary: k rule: rev_induct)
  case (snoc e es)
  from snoc.IH [OF clean_form_butlast [OF snoc.prems], of k] show ?case
    by (cases "k \<le> length es") (use snoc.prems in \<open>auto simp: dir_path_def\<close>)
qed (auto simp: dir_path_def)

lemma normal_parent:
  assumes "normal p"
  shows "dir_path (pathParent p)" and "d \<in> set (ancestors (pathParent p)) \<Longrightarrow> dir_path d"
proof -
  obtain es e where es: "clean_form False (es @ [e])" "p = Join [slash] (es @ [e])"
    using assms unfolding normal_def by (metis rev_exhaust)
  then have p: "pathParent p = Join [slash] es" and form: "clean_form False es"
    by (simp_all add: parent2_Join clean_form_butlast)
  show "dir_path (pathParent p)" unfolding p dir_path_def using form by blast
  show "dir_path d" if "d \<in> set (ancestors (pathParent p))"
    using that Join_take_path [OF form] unfolding p ancestors_Join [OF form] by auto
qed

lemma buildDirIndex_keys:
  assumes "list_all (\<lambda>f. normal (FPath f)) files" "d \<in> dom (mget (buildDirIndex files cl))"
  shows "dir_path d"
proof -
  have counts: "dom (mget (foldl (count_file b parent) dirs cs)) = dom (mget dirs) \<union> set cs" for b parent dirs cs
    by (induction cs arbitrary: dirs) (auto simp: count_file_def dom_update_dir)
  have step: "dom (mget (index_file cl dirs f)) = dom (mget dirs) \<union> insert (pathParent (FPath f)) (set (ancestors (pathParent (FPath f))))" for dirs f
    by (auto simp: index_file_def Let_def counts dom_update_dir)
  have "\<forall>d \<in> dom (mget (foldl (index_file cl) dirs files)). dir_path d" if "\<forall>d \<in> dom (mget dirs). dir_path d" for dirs
    using assms(1) that
  proof (induction files arbitrary: dirs)
    case (Cons f files)
    have "\<forall>d \<in> dom (mget (index_file cl dirs f)). dir_path d"
      using Cons.prems normal_parent [of "FPath f"] unfolding step by auto
    then show ?case using Cons by simp
  qed simp
  from this [of "[]"] assms(2) show ?thesis by (simp add: buildDirIndex_def)
qed

lemma detectDensity_tops:
  assumes "list_all (\<lambda>f. normal (FPath f)) files"
  shows "distinct (map (\<lambda>c. top_dir (Root c)) (detectDensityClusters files cl m))"
proof -
  have "set (sortedDirNames (buildDirIndex files cl)) = dom (mget (buildDirIndex files cl))"
    by (simp add: sortedDirNames_def keys_dom)
  then show ?thesis
    using buildDirIndex_keys [OF assms] unfolding detectDensityClusters_def Let_def
    by (intro conjunct1 [OF density_loop_tops]) blast
qed

text \<open>
  The density stage finds at most one cluster below each top-level directory: two source trees side
  by side are never both reported.
\<close>

theorem density_one_per_top:
  assumes "list_all (\<lambda>f. normal (FPath f)) files"
  shows "distinct (map (\<lambda>c. top_dir (Root c)) (detectDensityClusters files cl m))"
  by (rule detectDensity_tops [OF assms])

section \<open>The detector's result\<close>

lemma density_loop_members:
  "c \<in> set (density_loop dirs files cl m scored ds) \<Longrightarrow>
     \<exists>d info. tryEmitDensityCluster d info files cl = Some c \<and> d \<noteq> []"
  by (induction dirs files cl m scored ds rule: density_loop.induct)
     (auto simp: densityCandidate_def split: option.splits if_splits)

lemma tryEmit_files:
  assumes "tryEmitDensityCluster d info files cl = Some c" "p \<in> set (Files c)"
  shows "Within (Some c) p" "\<not> isAnchored p cl"
  using assms by (auto simp: tryEmitDensityCluster_def Within_def Let_def split: prod.splits if_splits option.splits)

definition cluster_fine :: "Cluster \<Rightarrow> bool" where
  "cluster_fine c \<longleftrightarrow> IName (CIdentity c) \<noteq> [] \<and> 7 / 10 \<le> IConfidence (CIdentity c) \<and> IConfidence (CIdentity c) \<le> 1"

lemma densityIdentity_fine:
  "densityIdentity d sig score = Some ident \<Longrightarrow> 7 \<le> (of_int score :: rat) \<Longrightarrow>
     IName ident \<noteq> [] \<and> 7 / 10 \<le> IConfidence ident \<and> IConfidence ident \<le> 1"
  unfolding densityIdentity_def Let_def by (auto split: if_split_asm)

lemma density_fine:
  assumes "c \<in> set (detectDensityClusters files cl m)"
  shows "cluster_fine c"
proof -
  from assms obtain d info where "tryEmitDensityCluster d info files cl = Some c"
    unfolding detectDensityClusters_def Let_def using density_loop_members by blast
  then obtain sig score where sc: "7 \<le> score" "densityIdentity d sig score = Some (CIdentity c)"
    by (auto simp: tryEmitDensityCluster_def densityScoreThreshold_def Let_def not_less split: prod.splits if_splits option.splits)
  have "(7 :: rat) \<le> of_int score" using sc(1) by (metis of_int_le_iff of_int_numeral)
  from densityIdentity_fine [OF sc(2) this] show ?thesis by (simp add: cluster_fine_def)
qed

lemma visitor_invariant:
  "normal (EPath fe) \<Longrightarrow> list_all (\<lambda>f. normal (FPath f)) (fst st) \<and> list_all cluster_fine (snd st) \<Longrightarrow>
     list_all (\<lambda>f. normal (FPath f)) (fst (fst (cluster_visitor D fails k st fe))) \<and>
     list_all cluster_fine (snd (fst (cluster_visitor D fails k st fe)))"
  by (auto simp: cluster_visitor_def Let_def cluster_fine_def identity_ok_def dest!: anchor_identity split: option.split sum.split)

lemma DetectClusters_cases:
  assumes "DetectClusters D fails ctx ectx img opts = Inr cs"
  obtains files found anchors dens where "list_all (\<lambda>f. normal (FPath f)) files" "list_all cluster_fine found"
    "anchors = assignFilesToClusters (sort_desc (\<lambda>c. depthOf (Root c)) found) files"
    "cs = anchors @ dens" "dens = [] \<or> dens = detectDensityClusters files anchors (MinDirChildren opts)"
proof -
  let ?I = "\<lambda>st. list_all (\<lambda>f. normal (FPath f)) (fst st) \<and> list_all cluster_fine (snd st)"
  let ?k = "if MaxAnchorBytes opts \<le> 0 then 256 * 1024 else MaxAnchorBytes opts"
  from assms obtain files found where w: "WalkFiles ctx ectx img (Some (cluster_visitor D fails ?k)) ([], []) = (None, (files, found))"
    by (auto simp: DetectClusters_def Let_def split: if_splits option.splits prod.splits)
  have "?I (files, found)"
    using WalkFiles_invariant [of ?I "cluster_visitor D fails ?k" "([], [])" ctx ectx img] visitor_invariant unfolding w by simp
  with that assms w show thesis
    by (auto simp: DetectClusters_def Let_def split: if_splits)
qed

lemma clusters_disjoint:
  assumes "DetectClusters D fails ctx ectx img opts = Inr cs" "i < j" "j < length cs"
  shows "set (Files (cs ! i)) \<inter> set (Files (cs ! j)) = {}"
proof -
  obtain files found anchors dens where files: "list_all (\<lambda>f. normal (FPath f)) files"
    and a: "anchors = assignFilesToClusters (sort_desc (\<lambda>c. depthOf (Root c)) found) files"
    and cs: "cs = anchors @ dens" and d: "dens = [] \<or> dens = detectDensityClusters files anchors (MinDirChildren opts)"
    using assms(1) by (rule DetectClusters_cases) blast
  have own: "owns anchors k p" if "k < length anchors" "p \<in> set (Files (anchors ! k))" for k p
    using that assign_files [of k "sort_desc (\<lambda>c. depthOf (Root c)) found" files] unfolding a by (auto simp: assign_frame)
  have dense: "Within (Some c) p \<and> \<not> isAnchored p anchors" if h: "c \<in> set dens" "p \<in> set (Files c)" for c p
  proof -
    have "dens = detectDensityClusters files anchors (MinDirChildren opts)" using h(1) d by auto
    then obtain e info where "tryEmitDensityCluster e info files anchors = Some c"
      using h(1) density_loop_members unfolding detectDensityClusters_def Let_def by blast
    from tryEmit_files [OF this h(2)] show ?thesis by blast
  qed
  have tops: "distinct (map (\<lambda>c. top_dir (Root c)) dens)"
    using d detectDensity_tops [OF files] by auto
  have False if p: "p \<in> set (Files (cs ! i))" "p \<in> set (Files (cs ! j))" for p
  proof -
    consider (anchors) "j < length anchors" | (mixed) "i < length anchors" "length anchors \<le> j" | (density) "length anchors \<le> i"
      by linarith
    then show False
    proof cases
      case anchors
      then have "owns anchors i p" "owns anchors j p" using p own [of _ p] assms(2) by (simp_all add: cs nth_append)
      then show False using assms(2) by (auto simp: owns_def)
    next
      case mixed
      then have "dens ! (j - length anchors) \<in> set dens" using assms(3) by (simp add: cs)
      then have "\<not> isAnchored p anchors" using p(2) mixed dense by (simp add: cs nth_append)
      moreover have "owns anchors i p" using p(1) mixed own [of i p] by (simp add: cs nth_append)
      ultimately show False using mixed(1) by (auto simp: owns_def isAnchored_def list_ex_iff)
    next
      case density
      let ?i = "i - length anchors" and ?j = "j - length anchors"
      have ij: "?i < ?j" "?j < length dens" using density assms(2,3) by (auto simp: cs)
      have "Within (Some (dens ! ?i)) p" "Within (Some (dens ! ?j)) p"
        using p ij density assms(2) dense [of "dens ! ?i" p] dense [of "dens ! ?j" p] by (simp_all add: cs nth_append)
      then have "top_dir (Root (dens ! ?i)) = top_dir (Root (dens ! ?j))" by (metis Within_top)
      then show False using tops ij by (auto simp: distinct_conv_nth)
    qed
  qed
  then show ?thesis by blast
qed

text \<open>
  C30. Every file belongs to at most one of the clusters the detector returns.
\<close>

theorem DetectClusters_disjoint:
  assumes "DetectClusters D fails ctx ectx img opts = Inr cs" and "i < j" and "j < length cs"
  shows "set (Files (cs ! i)) \<inter> set (Files (cs ! j)) = {}"
  by (rule clusters_disjoint [OF assms])

lemma clusters_fine:
  assumes "DetectClusters D fails ctx ectx img opts = Inr cs"
  shows "list_all cluster_fine cs"
proof -
  obtain files found anchors dens where fine: "list_all cluster_fine found"
    and a: "anchors = assignFilesToClusters (sort_desc (\<lambda>c. depthOf (Root c)) found) files"
    and cs: "cs = anchors @ dens" and d: "dens = [] \<or> dens = detectDensityClusters files anchors (MinDirChildren opts)"
    using assms by (rule DetectClusters_cases) blast
  have "cluster_fine c = (\<lambda>ident. IName ident \<noteq> [] \<and> 7 / 10 \<le> IConfidence ident \<and> IConfidence ident \<le> 1) (CIdentity c)" for c
    by (simp add: cluster_fine_def)
  then have id: "list_all cluster_fine xs = list_all (\<lambda>ident. IName ident \<noteq> [] \<and> 7 / 10 \<le> IConfidence ident \<and> IConfidence ident \<le> 1) (map CIdentity xs)" for xs
    by (simp add: list.pred_map comp_def cluster_fine_def [abs_def])
  have "list_all cluster_fine (sort_desc (\<lambda>c. depthOf (Root c)) found)"
    using fine by (simp add: list_all_iff)
  then have "list_all cluster_fine anchors" unfolding id a assign_frame .
  then show ?thesis using d density_fine by (auto simp: cs list_all_iff)
qed

text \<open>
  Every cluster the detector returns has a name and a confidence between 0.7 and 1.
\<close>

theorem DetectClusters_bounds:
  assumes "DetectClusters D fails ctx ectx img opts = Inr cs"
  shows "list_all (\<lambda>c. IName (CIdentity c) \<noteq> [] \<and> 7 / 10 \<le> IConfidence (CIdentity c) \<and> IConfidence (CIdentity c) \<le> 1) cs"
  using clusters_fine [OF assms] by (simp add: cluster_fine_def [abs_def])

text \<open>
  The walk up from a directory always ends: the directory above is a shorter path.
\<close>

theorem parent_walk_terminates:
  assumes "p \<noteq> []"
  shows "length (parent2 p) < length p \<and> ancestors p = p # ancestors (parent2 p)"
  using parent2_shorter [OF assms] ancestors_self [OF assms] by blast

section \<open>Witnesses\<close>

lemma normalI: "normalizePath p = p \<Longrightarrow> p \<noteq> [] \<Longrightarrow> normal p"
  using normalizePath_normal [of p] by simp

definition source_tree :: "string \<Rightarrow> fileMeta list" where
  "source_tree d = map (\<lambda>f. \<lparr>FPath = d @ f, FSize = 10\<rparr>) [''/Makefile'', ''/configure'', ''/README'', ''/LICENSE'']"

definition two_trees :: "fileMeta list" where
  "two_trees = source_tree ''opt/a-1.0'' @ source_tree ''opt/b-2.0''"

lemma two_trees_one_cluster: "map Root (detectDensityClusters two_trees [] 0) = [''opt/a-1.0'']"
  by code_simp

lemma density_one_per_top_witness: "distinct (map (\<lambda>c. top_dir (Root c)) (detectDensityClusters two_trees [] 0))"
proof (rule density_one_per_top)
  have "list_all (\<lambda>f. normalizePath (FPath f) = FPath f \<and> FPath f \<noteq> []) two_trees" by code_simp
  then show "list_all (\<lambda>f. normal (FPath f)) two_trees" by (rule list.pred_mono_strong) (simp add: normalI)
qed

definition go_file :: "string \<Rightarrow> string \<Rightarrow> tar_header" where
  "go_file p body = \<lparr>HName = p, Typeflag = TypeReg, Body = body\<rparr>"

definition go_layer :: v1_layer where
  "go_layer = \<lparr>LDigest = Some ''d0'', LDiffID = None, LSize = None, UncompressedError = None,
     Tar = [go_file ''app/go.mod'' ''module m'', go_file ''app/sub/go.mod'' ''module m/sub'',
            go_file ''app/sub/x.go'' ''x'', go_file ''app/y.go'' ''yy''], TarError = None\<rparr>"

definition go_options :: ClusterOptions where
  "go_options = \<lparr>MaxAnchorBytes = 12, SkipDensity = False, MinDirChildren = 0\<rparr>"

definition go_clusters :: "Cluster list" where
  "go_clusters = projr (DetectClusters no_decoders (\<lambda>_. False) (\<lambda>_. None) (\<lambda>_ _. None) (Some (image_of [go_layer])) go_options)"

lemma go_evaluation:
  "DetectClusters no_decoders (\<lambda>_. False) (\<lambda>_. None) (\<lambda>_ _. None) (Some (image_of [go_layer])) go_options = Inr go_clusters \<and>
   map Root go_clusters = [''app/sub'', ''app''] \<and>
   map Files go_clusters = [[''app/sub/go.mod'', ''app/sub/x.go''], [''app/go.mod'', ''app/y.go'']] \<and>
   owns (assignFilesToClusters (sort_desc (\<lambda>c. depthOf (Root c)) go_clusters) [\<lparr>FPath = ''app/sub/z'', FSize = 7\<rparr>]) 0 ''app/sub/z'' \<and>
   parent2 ''a/b'' = ''a'' \<and> ancestors ''a'' = [''a'']"
  unfolding owns_def by code_simp

lemma go_clusters_detected:
  "DetectClusters no_decoders (\<lambda>_. False) (\<lambda>_. None) (\<lambda>_ _. None) (Some (image_of [go_layer])) go_options = Inr go_clusters"
  using go_evaluation by (rule conjunct1)

lemma go_clusters_files:
  "map Root go_clusters = [''app/sub'', ''app'']"
  "map Files go_clusters = [[''app/sub/go.mod'', ''app/sub/x.go''], [''app/go.mod'', ''app/y.go'']]"
  using go_evaluation by blast+

lemma DetectClusters_disjoint_witness: "set (Files (go_clusters ! 0)) \<inter> set (Files (go_clusters ! 1)) = {}"
proof (rule DetectClusters_disjoint [OF go_clusters_detected])
  show "1 < length go_clusters" using arg_cong [OF go_clusters_files(1), of length] by simp
qed simp

lemma DetectClusters_bounds_witness:
  "list_all (\<lambda>c. IName (CIdentity c) \<noteq> [] \<and> 7 / 10 \<le> IConfidence (CIdentity c) \<and> IConfidence (CIdentity c) \<le> 1) go_clusters"
  by (rule DetectClusters_bounds [OF go_clusters_detected])

lemma parent_walk_terminates_witness: "length (parent2 ''a/b'') < 3 \<and> ancestors ''a/b'' = [''a/b'', ''a'']"
proof -
  have "parent2 ''a/b'' = ''a''" "ancestors ''a'' = [''a'']" using go_evaluation by blast+
  then show ?thesis using parent_walk_terminates [of "''a/b''"] by simp
qed

lemma assign_deepest_witness:
  "Files (assignFilesToClusters (sort_desc (\<lambda>c. depthOf (Root c)) go_clusters) [\<lparr>FPath = ''app/sub/z'', FSize = 7\<rparr>] ! 0) = [''app/sub/z'']"
proof -
  let ?cs = "assignFilesToClusters (sort_desc (\<lambda>c. depthOf (Root c)) go_clusters) [\<lparr>FPath = ''app/sub/z'', FSize = 7\<rparr>]"
  have l: "0 < length go_clusters" using arg_cong [OF go_clusters_files(1), of length] by simp
  have "owns ?cs 0 ''app/sub/z''" using go_evaluation by blast
  with assign_deepest [OF refl l, of "[\<lparr>FPath = ''app/sub/z'', FSize = 7\<rparr>]"] show ?thesis by simp
qed

end
