(* ===== verification/Matchers.thy ===== *)
theory Matchers
  imports Model
begin

text \<open>
  The digest matchers (\<open>internal/fingerprint/matcher\<close>): the chain, the offline catalogue, the TTL cache, the
  token bucket and the Software Heritage and ClearlyDefined clients.  A matcher is a function from an
  algorithm and a digest to the outcome of \<open>Lookup\<close>; the HTTP client and the files of an offline catalogue
  are parameters.  Times are rational numbers of seconds; every operation that holds a mutex is one step.
\<close>

record Match =
  MName :: string
  MVersion :: string
  MPURL :: string
  MCPEs :: "string list"
  MLicenses :: "License list"
  MSource :: string

datatype lookup = Found Match | NoMatch | LookupError string

type_synonym matcher = "string \<Rightarrow> string \<Rightarrow> lookup"

section \<open>The chain\<close>

fun Chain_Lookup :: "matcher list \<Rightarrow> matcher" where
  "Chain_Lookup [] alg digest = NoMatch"
| "Chain_Lookup (m # ms) alg digest =
     (case m alg digest of Found r \<Rightarrow> Found r | NoMatch \<Rightarrow> Chain_Lookup ms alg digest | LookupError e \<Rightarrow> LookupError e)"

definition NewChain :: "matcher list \<Rightarrow> matcher list" where "NewChain ms = ms"
definition Chain_Append :: "matcher list \<Rightarrow> matcher list \<Rightarrow> matcher list" where "Chain_Append c ms = c @ ms"

definition Null_Lookup :: matcher where "Null_Lookup alg digest = NoMatch"

section \<open>The offline catalogue\<close>

definition localKey :: "string \<Rightarrow> string \<Rightarrow> string" where
  "localKey alg digest = ToLower (TrimSpace alg) @ '':'' @ ToLower (TrimSpace digest)"

definition Local_Add :: "string \<Rightarrow> string \<Rightarrow> Match \<Rightarrow> Match gomap \<Rightarrow> Match gomap" where
  "Local_Add alg digest m entries = mput (localKey alg digest) m entries"

definition Local_Lookup :: "Match gomap \<Rightarrow> matcher" where
  "Local_Lookup entries alg digest = (case mget entries (localKey alg digest) of Some m \<Rightarrow> Found m | None \<Rightarrow> NoMatch)"

text \<open>The walk over \<open>fingerprint/\<close>: per file the relative path (a walk error, a directory), the bytes or a read error.\<close>

datatype dir_entry = WalkFailed | IsDir string | RegularFile string "string option"

definition splitFingerprintPath :: "string \<Rightarrow> (string \<times> string) option" where
  "splitFingerprintPath rel =
     (case SplitC slash rel of
        [alg, f] \<Rightarrow> (let digest = TrimSuffix f ''.json'' in if digest = [] then None else Some (alg, digest))
      | _ \<Rightarrow> None)"

definition load_entry ::
  "(string \<Rightarrow> Match option) \<Rightarrow> Match gomap \<times> nat \<Rightarrow> dir_entry \<Rightarrow> Match gomap \<times> nat"
where
  "load_entry decode st e =
     (case e of
        WalkFailed \<Rightarrow> (fst st, snd st + 1)
      | IsDir rel \<Rightarrow> st
      | RegularFile rel body \<Rightarrow>
          if Ext rel \<noteq> ''.json'' then st
          else (case splitFingerprintPath rel of None \<Rightarrow> (fst st, snd st + 1)
            | Some (alg, digest) \<Rightarrow>
              (case body of None \<Rightarrow> (fst st, snd st + 1)
               | Some b \<Rightarrow>
                 (case decode b of None \<Rightarrow> (fst st, snd st + 1)
                  | Some m \<Rightarrow> (Local_Add alg digest m (fst st), snd st)))))"

datatype fp_root = RootMissing | RootStatError | RootNotDir | RootDir "dir_entry list"
datatype load_failure = StatFailed | NotADirectory | EntryErrors nat

definition LoadFromDir :: "(string \<Rightarrow> Match option) \<Rightarrow> fp_root \<Rightarrow> Match gomap \<Rightarrow> Match gomap \<times> load_failure option" where
  "LoadFromDir decode dir entries =
     (case dir of
        RootMissing \<Rightarrow> (entries, None)
      | RootStatError \<Rightarrow> (entries, Some StatFailed)
      | RootNotDir \<Rightarrow> (entries, Some NotADirectory)
      | RootDir es \<Rightarrow>
          (let st = foldl (load_entry decode) (entries, 0) es
           in (fst st, if snd st > 0 then Some (EntryErrors (snd st)) else None)))"

section \<open>The cache\<close>

record cachedEntry =
  EMatch :: "Match option"
  EInsert :: rat

text \<open>\<open>EMatch\<close> is \<^const>\<open>None\<close> for a cached \<open>ErrNoMatch\<close>.\<close>

record CachedMatcher =
  Ttl :: rat
  MaxEntries :: int
  Entries :: "cachedEntry gomap"
  Order :: "string list"

definition NewCached :: "rat \<Rightarrow> int \<Rightarrow> CachedMatcher" where
  "NewCached ttl maxEntries =
     \<lparr>Ttl = (if ttl \<le> 0 then 3600 else ttl), MaxEntries = (if maxEntries \<le> 0 then 4096 else maxEntries), Entries = [], Order = []\<rparr>"

definition cache_read :: "rat \<Rightarrow> string \<Rightarrow> CachedMatcher \<Rightarrow> cachedEntry option \<times> CachedMatcher" where
  "cache_read now key c =
     (case mget (Entries c) key of None \<Rightarrow> (None, c)
      | Some e \<Rightarrow>
          if now - EInsert e > Ttl c then (None, c\<lparr>Entries := mdel key (Entries c)\<rparr>) else (Some e, c))"

definition cache_store :: "string \<Rightarrow> cachedEntry \<Rightarrow> CachedMatcher \<Rightarrow> CachedMatcher" where
  "cache_store key e c =
     (let c1 = (if mget (Entries c) key = None then
          (let c0 = (if MaxEntries c \<le> int (length (Entries c)) \<and> Order c \<noteq> []
              then c\<lparr>Order := tl (Order c), Entries := mdel (hd (Order c)) (Entries c)\<rparr> else c)
           in c0\<lparr>Order := Order c0 @ [key]\<rparr>) else c)
      in c1\<lparr>Entries := mput key e (Entries c1)\<rparr>)"

definition Cached_Lookup :: "matcher \<Rightarrow> rat \<Rightarrow> rat \<Rightarrow> string \<Rightarrow> string \<Rightarrow> CachedMatcher \<Rightarrow> lookup \<times> CachedMatcher" where
  "Cached_Lookup inner now now' alg digest c =
     (let key = localKey alg digest in
        case cache_read now key c of
          (Some e, c1) \<Rightarrow> ((case EMatch e of Some m \<Rightarrow> Found m | None \<Rightarrow> NoMatch), c1)
        | (None, c1) \<Rightarrow>
            (case inner alg digest of
               LookupError err \<Rightarrow> (LookupError err, c1)
             | Found m \<Rightarrow> (Found m, cache_store key \<lparr>EMatch = Some m, EInsert = now'\<rparr> c1)
             | NoMatch \<Rightarrow> (NoMatch, cache_store key \<lparr>EMatch = None, EInsert = now'\<rparr> c1)))"

section \<open>The rate limiter\<close>

record RateLimiter =
  Tokens :: rat
  MaxTokens :: rat
  RefillRate :: rat
  LastRefill :: rat

definition NewRateLimited :: "int \<Rightarrow> rat \<Rightarrow> rat \<Rightarrow> RateLimiter" where
  "NewRateLimited burst rate now =
     (let b = (if burst \<le> 0 then 10 else burst) in
        \<lparr>Tokens = of_int b, MaxTokens = of_int b, RefillRate = (if rate \<le> 0 then 5 else rate), LastRefill = now\<rparr>)"

definition refill :: "rat \<Rightarrow> RateLimiter \<Rightarrow> RateLimiter" where
  "refill now r =
     (let elapsed = now - LastRefill r in
        if elapsed \<le> 0 then r
        else r\<lparr>Tokens := min (Tokens r + elapsed * RefillRate r) (MaxTokens r), LastRefill := now\<rparr>)"

text \<open>One round of \<open>acquire\<close>: refill, then take a token if there is one.\<close>

definition try_acquire :: "rat \<Rightarrow> RateLimiter \<Rightarrow> bool \<times> RateLimiter" where
  "try_acquire now r =
     (let r1 = refill now r in if Tokens r1 \<ge> 1 then (True, r1\<lparr>Tokens := Tokens r1 - 1\<rparr>) else (False, r1))"

text \<open>
  \<open>acquire\<close> polls at the given times; after each failed round it waits, and stops when the context is
  done (\<open>cancelled\<close> tells for each wait).  \<^const>\<open>None\<close> when the polls given are not enough.
\<close>

fun acquire :: "(rat \<times> bool) list \<Rightarrow> RateLimiter \<Rightarrow> (bool \<times> RateLimiter) option" where
  "acquire [] r = None"
| "acquire ((now, cancelled) # polls) r =
     (case try_acquire now r of
        (True, r1) \<Rightarrow> Some (True, r1)
      | (False, r1) \<Rightarrow> if cancelled then Some (False, r1) else acquire polls r1)"

definition RateLimited_Lookup :: "matcher \<Rightarrow> (rat \<times> bool) list \<Rightarrow> string \<Rightarrow> string \<Rightarrow> RateLimiter \<Rightarrow> (lookup \<times> RateLimiter) option" where
  "RateLimited_Lookup inner polls alg digest r =
     (case acquire polls r of None \<Rightarrow> None
      | Some (True, r1) \<Rightarrow> Some (inner alg digest, r1)
      | Some (False, r1) \<Rightarrow> Some (LookupError ''context cancelled'', r1))"

section \<open>The network matchers\<close>

datatype http_outcome = HttpFailed string | HttpStatus int string

definition swhAlgorithm :: "string \<Rightarrow> string option" where
  "swhAlgorithm alg =
     (let a = ToLower (TrimSpace alg) in if a = ''sha1'' then Some ''sha1'' else if a = ''sha256'' then Some ''sha256'' else None)"

definition empty_match :: Match where
  "empty_match = \<lparr>MName = [], MVersion = [], MPURL = [], MCPEs = [], MLicenses = [], MSource = []\<rparr>"

definition maxSWHResponseBytes :: nat where "maxSWHResponseBytes = 2 ^ 20"

text \<open>\<open>decode\<close> gives the file names of a content response.\<close>

definition parseSWHResponse :: "(string \<Rightarrow> string list option) \<Rightarrow> string \<Rightarrow> lookup" where
  "parseSWHResponse decode body =
     (case decode (take maxSWHResponseBytes body) of None \<Rightarrow> LookupError ''swh: decode response''
      | Some names \<Rightarrow> Found (empty_match\<lparr>MSource := ''swh'', MName := (case names of [] \<Rightarrow> [] | n # _ \<Rightarrow> n)\<rparr>))"

definition SWH_Lookup :: "string \<Rightarrow> (string \<Rightarrow> http_outcome) \<Rightarrow> (string \<Rightarrow> string list option) \<Rightarrow> matcher" where
  "SWH_Lookup base http decode alg digest =
     (case swhAlgorithm alg of None \<Rightarrow> NoMatch
      | Some a \<Rightarrow>
          (case http (base @ ''/content/'' @ a @ '':'' @ ToLower digest @ ''/'') of
             HttpFailed e \<Rightarrow> LookupError e
           | HttpStatus st body \<Rightarrow>
               if st = 200 then parseSWHResponse decode body
               else if st = 404 then NoMatch
               else LookupError (''swh: status '' @ Itoa st)))"

definition ClearlyDefined_Lookup :: matcher where "ClearlyDefined_Lookup alg digest = NoMatch"

section \<open>Lookups by key\<close>

text \<open>
  What the cache asks of the matcher it wraps: the answer depends on the algorithm and the digest only
  through their normalised key.
\<close>

locale keyed_matcher =
  fixes lookup :: matcher
  assumes by_key: "localKey a d = localKey a' d' \<Longrightarrow> lookup a d = lookup a' d'"
begin

definition cached_ok :: "CachedMatcher \<Rightarrow> bool" where
  "cached_ok c \<longleftrightarrow> (\<forall>key e a d. mget (Entries c) key = Some e \<longrightarrow> localKey a d = key \<longrightarrow>
     lookup a d = (case EMatch e of Some m \<Rightarrow> Found m | None \<Rightarrow> NoMatch))"

lemma read_ok: "cached_ok c \<Longrightarrow> cached_ok (snd (cache_read now key c))"
  by (auto simp: cache_read_def cached_ok_def split: option.split)

lemma store_ok:
  assumes "cached_ok c" "\<And>a d. localKey a d = key \<Longrightarrow> lookup a d = (case EMatch e of Some m \<Rightarrow> Found m | None \<Rightarrow> NoMatch)"
  shows "cached_ok (cache_store key e c)"
  using assms by (auto simp: cache_store_def cached_ok_def Let_def)

lemma lookup_step:
  assumes "cached_ok c"
  shows "fst (Cached_Lookup lookup now now' alg digest c) = lookup alg digest"
    and "cached_ok (snd (Cached_Lookup lookup now now' alg digest c))"
proof -
  let ?key = "localKey alg digest"
  note same = by_key [of _ _ alg digest]
  have hit: "lookup alg digest = (case EMatch e of Some m \<Rightarrow> Found m | None \<Rightarrow> NoMatch)"
    if "fst (cache_read now ?key c) = Some e" for e
    using that assms by (auto simp: cache_read_def cached_ok_def split: option.splits if_splits)
  show "fst (Cached_Lookup lookup now now' alg digest c) = lookup alg digest"
    using hit by (auto simp: Cached_Lookup_def Let_def split: prod.split option.split lookup.split)
  have stored: "cached_ok (cache_store ?key e c1)"
    if "cached_ok c1" "lookup alg digest = (case EMatch e of Some m \<Rightarrow> Found m | None \<Rightarrow> NoMatch)" for e c1
    using that same by (intro store_ok) metis+
  show "cached_ok (snd (Cached_Lookup lookup now now' alg digest c))"
    using read_ok [OF assms, of now ?key] stored
    by (auto simp: Cached_Lookup_def Let_def split: prod.split option.split lookup.split)
qed

end

interpretation local_keyed: keyed_matcher "Local_Lookup entries" for entries
  by unfold_locales (simp add: Local_Lookup_def)

interpretation cd_keyed: keyed_matcher ClearlyDefined_Lookup
  by unfold_locales (simp add: ClearlyDefined_Lookup_def)

text \<open>A run of lookups: when the cache is read, when the answer is stored, and what is asked.\<close>

type_synonym request = "rat \<times> rat \<times> string \<times> string"

fun cached_run :: "matcher \<Rightarrow> request list \<Rightarrow> CachedMatcher \<Rightarrow> lookup list \<times> CachedMatcher" where
  "cached_run inner [] c = ([], c)"
| "cached_run inner ((now, now', alg, digest) # rs) c =
     (let r = Cached_Lookup inner now now' alg digest c; q = cached_run inner rs (snd r) in (fst r # fst q, snd q))"

lemma cached_run_transparent:
  assumes "keyed_matcher inner"
  shows "keyed_matcher.cached_ok inner c \<Longrightarrow> fst (cached_run inner rs c) = map (\<lambda>(now, now', alg, digest). inner alg digest) rs"
proof (induction rs arbitrary: c)
  case (Cons r rs)
  obtain now now' alg digest where r: "r = (now, now', alg, digest)" by (cases r)
  note step = keyed_matcher.lookup_step [OF assms Cons.prems, of now now' alg digest]
  show ?case using Cons.IH [OF step(2)] step(1) by (simp add: r Let_def)
qed simp

lemma new_cache_ok: "keyed_matcher inner \<Longrightarrow> keyed_matcher.cached_ok inner (NewCached ttl n)"
  by (simp add: keyed_matcher.cached_ok_def NewCached_def)

text \<open>
  The cache is transparent: whatever the times, the limits and the order of the requests, a run of lookups
  through a fresh cache answers as the matcher behind it, if that matcher depends on the normalised key only.
\<close>

theorem cached_transparent:
  assumes "\<And>a d a' d'. localKey a d = localKey a' d' \<Longrightarrow> inner a d = inner a' d'"
  shows "fst (cached_run inner rs (NewCached ttl n)) = map (\<lambda>(now, now', alg, digest). inner alg digest) rs"
proof -
  have "keyed_matcher inner" using assms by unfold_locales
  then show ?thesis by (rule cached_run_transparent) (rule new_cache_ok, fact)
qed

definition demo_match :: Match where
  "demo_match = empty_match\<lparr>MName := ''jq'', MSource := ''local''\<rparr>"

lemma cached_transparent_witness:
  "fst (cached_run (Local_Lookup [(''sha256:ab'', demo_match)])
     [(0, 1, ''SHA256'', ''AB''), (2, 2, ''sha256'', ''ab ''), (5000, 5000, ''sha256'', ''cd'')] (NewCached 0 0))
   = [Found demo_match, Found demo_match, NoMatch]"
proof -
  show ?thesis
    using cached_transparent [of "Local_Lookup [(''sha256:ab'', demo_match)]"
        "[(0, 1, ''SHA256'', ''AB''), (2, 2, ''sha256'', ''ab ''), (5000, 5000, ''sha256'', ''cd'')]" 0 0]
    by (simp add: Local_Lookup_def) code_simp
qed

section \<open>The cache's size\<close>

definition cache_wf :: "CachedMatcher \<Rightarrow> bool" where
  "cache_wf c \<longleftrightarrow> map_ok (Entries c) \<and> distinct (Order c) \<and> set (Order c) = fst ` set (Entries c) \<and>
     int (length (Entries c)) \<le> MaxEntries c \<and> 0 < MaxEntries c"

lemma length_map_ok: "map_ok (m :: 'v gomap) \<Longrightarrow> length m = card (fst ` set m)"
  by (metis distinct_card length_map list.set_map)

lemma put_keys: "fst ` set (mput k v (m :: 'v gomap)) = insert k (fst ` set m)"
  by (simp add: AList.dom_update)

lemma del_keys: "fst ` set (mdel k (m :: 'v gomap)) = fst ` set m - {k}"
  by (metis AList.delete_keys list.set_map set_removeAll)

lemma length_put: "map_ok (m :: 'v gomap) \<Longrightarrow> length (mput k v m) = (if k \<in> fst ` set m then length m else Suc (length m))"
  by (simp add: length_map_ok put_keys insert_absorb del: list.set_map)

lemma length_del:
  assumes "map_ok (m :: 'v gomap)" "k \<in> fst ` set m"
  shows "Suc (length (mdel k m)) = length m"
proof -
  have k: "k \<in> set (map fst m)" using assms(2) by simp
  have "map fst (mdel k m) = remove1 k (map fst m)"
    unfolding AList.delete_keys by (rule distinct_remove1_removeAll [OF assms(1), symmetric])
  then have "length (mdel k m) = length (remove1 k (map fst m))" by (metis length_map)
  then have "length (mdel k m) = length m - 1" using k by (simp add: length_remove1)
  moreover have "0 < length m" using assms(2) by (cases m) auto
  ultimately show ?thesis by simp
qed

lemma store_wf:
  assumes "cache_wf c"
  shows "cache_wf (cache_store key e c)"
proof -
  note wf = assms [unfolded cache_wf_def]
  show ?thesis
  proof (cases "key \<in> fst ` set (Entries c)")
    case True
    then obtain x where "mget (Entries c) key = Some x" by (metis map_of_eq_None_iff not_None_eq)
    then show ?thesis using wf True by (simp add: cache_store_def cache_wf_def put_keys length_put insert_absorb)
  next
    case False
    then have new: "mget (Entries c) key = None" by (simp add: map_of_eq_None_iff)
    show ?thesis
    proof (cases "MaxEntries c \<le> int (length (Entries c))")
      case True
      then have "Order c \<noteq> []" using wf by auto
      then obtain old rest where old: "Order c = old # rest" by (cases "Order c") auto
      then have mem: "old \<in> fst ` set (Entries c)" using wf by auto
      have "set rest = fst ` set (Entries c) - {old}" using wf old by auto
      then show ?thesis
        using wf False new True old length_del [OF _ mem]
        by (auto simp: cache_store_def cache_wf_def Let_def put_keys del_keys length_put AList.distinct_delete)
    qed (use wf False new in \<open>auto simp: cache_store_def cache_wf_def Let_def put_keys length_put\<close>)
  qed
qed

text \<open>No entry expires as long as all times lie within one lifetime.\<close>

definition fresh :: "rat \<Rightarrow> CachedMatcher \<Rightarrow> bool" where
  "fresh t0 c \<longleftrightarrow> (\<forall>key e. mget (Entries c) key = Some e \<longrightarrow> t0 \<le> EInsert e)"

lemma store_fresh: "fresh t0 c \<Longrightarrow> t0 \<le> EInsert e \<Longrightarrow> fresh t0 (cache_store key e c)"
  by (auto simp: fresh_def cache_store_def Let_def)

lemma read_fresh: "fresh t0 c \<Longrightarrow> now \<le> t0 + Ttl c \<Longrightarrow> snd (cache_read now key c) = c"
  by (force simp: fresh_def cache_read_def split: option.split)

lemma store_ttl [simp]: "Ttl (cache_store key e c) = Ttl c" "MaxEntries (cache_store key e c) = MaxEntries c"
  by (simp_all add: cache_store_def Let_def)

lemma lookup_wf:
  fixes inner :: matcher and alg digest :: string
  assumes "cache_wf c" "fresh t0 c" "now \<le> t0 + Ttl c" "t0 \<le> now'"
  defines "c' \<equiv> snd (Cached_Lookup inner now now' alg digest c)"
  shows "cache_wf c' \<and> fresh t0 c' \<and> Ttl c' = Ttl c \<and> MaxEntries c' = MaxEntries c"
proof -
  have r: "snd (cache_read now (localKey alg digest) c) = c" by (rule read_fresh [OF assms(2,3)])
  then obtain h where h: "cache_read now (localKey alg digest) c = (h, c)" by (metis prod.collapse)
  show ?thesis
    using assms(1,2,4) unfolding c'_def
    by (auto simp: Cached_Lookup_def Let_def h store_wf store_fresh split: option.split lookup.split)
qed

lemma cached_run_wf:
  assumes "list_all (\<lambda>(now, now', alg, digest). now \<le> t0 + ttl \<and> t0 \<le> now') rs"
  shows "cache_wf c \<Longrightarrow> fresh t0 c \<Longrightarrow> Ttl c = ttl \<Longrightarrow>
    cache_wf (snd (cached_run inner rs c)) \<and> MaxEntries (snd (cached_run inner rs c)) = MaxEntries c"
  using assms
proof (induction rs arbitrary: c)
  case (Cons r rs)
  obtain now now' alg digest where r: "r = (now, now', alg, digest)" by (cases r)
  have t: "now \<le> t0 + Ttl c" "t0 \<le> now'" using Cons.prems by (auto simp: r)
  note step = lookup_wf [OF Cons.prems(1,2) t, of inner alg digest]
  show ?case using Cons.IH [of "snd (Cached_Lookup inner now now' alg digest c)"] step Cons.prems by (simp add: r Let_def)
qed simp

text \<open>
  While no entry expires, the cache holds at most its maximal number of entries, and its eviction
  order lists exactly their keys.
\<close>

theorem cache_bounded:
  assumes "list_all (\<lambda>(now, now', alg, digest). now \<le> t0 + Ttl (NewCached ttl n) \<and> t0 \<le> now') rs"
  shows "cache_wf (snd (cached_run inner rs (NewCached ttl n)))"
  by (rule conjunct1 [OF cached_run_wf [OF assms]]) (auto simp: cache_wf_def fresh_def NewCached_def)

definition three_requests :: "request list" where
  "three_requests = [(0, 0, ''sha256'', ''a''), (1, 1, ''sha256'', ''b''), (2, 2, ''sha256'', ''c'')]"

lemma cache_bounded_witness: "cache_wf (snd (cached_run Null_Lookup three_requests (NewCached 10 2)))"
  by (rule cache_bounded [of 0]) (simp add: three_requests_def NewCached_def)

text \<open>
  An expired entry leaves its key in the eviction order.  Evicting that stale key removes nothing, and the
  cache grows past its limit; when the key has been stored again, its fresh entry is evicted instead of the oldest.
\<close>

definition expiring_requests :: "request list" where
  "expiring_requests = map (\<lambda>(t, d). (t, t, ''sha256'', d))
     [(0, ''a''), (1, ''b''), (20, ''a''), (21, ''b''), (22, ''c''), (23, ''d''), (24, ''e'')]"

lemma cache_expiry_breaks_bound:
  "let c = snd (cached_run Null_Lookup expiring_requests (NewCached 10 2)) in (length (Entries c), MaxEntries c) = (3, 2)"
  by code_simp

lemma cache_expiry_evicts_fresh:
  "mget (Entries (snd (cached_run Null_Lookup (take 5 expiring_requests) (NewCached 10 2)))) ''sha256:a'' = None"
  by code_simp

section \<open>The token bucket\<close>

text \<open>The goroutines' locked sections in any interleaving: refills at the clock's times, and attempts to take a token.\<close>

datatype rl_event = Refill rat | Take

definition rl_step :: "nat \<times> RateLimiter \<Rightarrow> rl_event \<Rightarrow> nat \<times> RateLimiter" where
  "rl_step st ev =
     (case ev of
        Refill now \<Rightarrow> (fst st, refill now (snd st))
      | Take \<Rightarrow> if Tokens (snd st) \<ge> 1 then (fst st + 1, (snd st)\<lparr>Tokens := Tokens (snd st) - 1\<rparr>) else st)"

definition rl_run :: "RateLimiter \<Rightarrow> rl_event list \<Rightarrow> nat \<times> RateLimiter" where
  "rl_run r evs = foldl rl_step (0, r) evs"

lemma try_acquire_run:
  "rl_run r [Refill now, Take] = ((if fst (try_acquire now r) then 1 else 0), snd (try_acquire now r))"
  by (simp add: rl_run_def rl_step_def try_acquire_def Let_def)

definition rl_ok :: "rat \<Rightarrow> rat \<Rightarrow> nat \<times> RateLimiter \<Rightarrow> bool" where
  "rl_ok burst t0 st \<longleftrightarrow>
     0 \<le> Tokens (snd st) \<and> Tokens (snd st) \<le> burst \<and> MaxTokens (snd st) = burst \<and> 0 < RefillRate (snd st) \<and>
     t0 \<le> LastRefill (snd st) \<and>
     of_nat (fst st) + Tokens (snd st) \<le> burst + RefillRate (snd st) * (LastRefill (snd st) - t0)"

lemma rl_step_ok:
  assumes "rl_ok burst t0 st"
  shows "rl_ok burst t0 (rl_step st ev)" and "RefillRate (snd (rl_step st ev)) = RefillRate (snd st)"
proof -
  obtain n r where st: "st = (n, r)" by (cases st)
  show "rl_ok burst t0 (rl_step st ev)"
  proof (cases ev)
    case (Refill now)
    show ?thesis
    proof (cases "now - LastRefill r \<le> 0")
      case False
      have "0 \<le> (now - LastRefill r) * RefillRate r" using assms False by (simp add: st rl_ok_def)
      moreover have "RefillRate r * (now - t0) = RefillRate r * (LastRefill r - t0) + (now - LastRefill r) * RefillRate r"
        by (simp add: algebra_simps)
      ultimately show ?thesis using assms False by (auto simp: st Refill rl_step_def rl_ok_def refill_def Let_def)
    qed (use assms in \<open>simp add: st Refill rl_step_def refill_def rl_ok_def\<close>)
  next
    case Take
    then show ?thesis using assms by (auto simp: st rl_step_def rl_ok_def)
  qed
  show "RefillRate (snd (rl_step st ev)) = RefillRate (snd st)"
    by (simp add: rl_step_def refill_def Let_def split: rl_event.split)
qed

lemma rl_fold_ok:
  "rl_ok burst t0 st \<Longrightarrow> rl_ok burst t0 (foldl rl_step st evs) \<and> RefillRate (snd (foldl rl_step st evs)) = RefillRate (snd st)"
  by (induction evs arbitrary: st) (simp_all add: rl_step_ok)

text \<open>
  However the goroutines interleave, the limiter never grants more than its burst plus the refill rate
  times the time passed on its clock.
\<close>

theorem rate_limit_bound:
  "(let r = NewRateLimited burst rate t0; st = rl_run r evs in
      of_nat (fst st) \<le> MaxTokens r + RefillRate r * (LastRefill (snd st) - t0))"
proof -
  let ?r = "NewRateLimited burst rate t0"
  have "rl_ok (MaxTokens ?r) t0 (0, ?r)"
    by (auto simp: rl_ok_def NewRateLimited_def Let_def)
  from rl_fold_ok [OF this, of evs]
  have "of_nat (fst (rl_run ?r evs)) + Tokens (snd (rl_run ?r evs)) \<le> MaxTokens ?r + RefillRate ?r * (LastRefill (snd (rl_run ?r evs)) - t0)"
    "0 \<le> Tokens (snd (rl_run ?r evs))"
    by (auto simp: rl_run_def rl_ok_def)
  then show ?thesis unfolding Let_def by linarith
qed

section \<open>Progress\<close>

definition accrued :: "rat \<Rightarrow> RateLimiter \<Rightarrow> bool" where
  "accrued t0 r \<longleftrightarrow> 1 \<le> MaxTokens r \<and> 0 < RefillRate r \<and> t0 \<le> LastRefill r \<and>
     RefillRate r * (LastRefill r - t0) \<le> Tokens r"

lemma refill_accrued:
  assumes "accrued t0 r"
  shows "1 \<le> Tokens (refill now r) \<or> accrued t0 (refill now r)"
    and "t0 + 1 / RefillRate r \<le> now \<Longrightarrow> 1 \<le> Tokens (refill now r)"
    and "RefillRate (refill now r) = RefillRate r"
proof -
  note a = assms [unfolded accrued_def]
  have later: "Tokens (refill now r) = MaxTokens r \<or>
      Tokens (refill now r) = Tokens r + (now - LastRefill r) * RefillRate r" if "LastRefill r < now"
    using that by (auto simp: refill_def Let_def min_def)
  have grow: "RefillRate r * (now - t0) = RefillRate r * (LastRefill r - t0) + (now - LastRefill r) * RefillRate r"
    by (simp add: algebra_simps)
  show "1 \<le> Tokens (refill now r) \<or> accrued t0 (refill now r)"
  proof (cases "LastRefill r < now")
    case True
    then have f: "LastRefill (refill now r) = now" "MaxTokens (refill now r) = MaxTokens r" "RefillRate (refill now r) = RefillRate r"
      by (simp_all add: refill_def)
    show ?thesis using later [OF True] a f True grow by (auto simp: accrued_def)
  qed (use assms in \<open>simp add: refill_def\<close>)
  show "1 \<le> Tokens (refill now r)" if "t0 + 1 / RefillRate r \<le> now"
  proof -
    have one: "1 \<le> RefillRate r * (now - t0)" using that a by (simp add: field_simps)
    show ?thesis
    proof (cases "LastRefill r < now")
      case True
      with one later [OF True] a grow show ?thesis by auto
    next
      case False
      then have "RefillRate r * (now - t0) \<le> RefillRate r * (LastRefill r - t0)"
        using a by (intro mult_left_mono) auto
      then have "1 \<le> Tokens r" using one a by linarith
      with False show ?thesis by (simp add: refill_def)
    qed
  qed
  show "RefillRate (refill now r) = RefillRate r" by (simp add: refill_def Let_def)
qed

lemma acquire_waits:
  "accrued t0 r \<Longrightarrow> list_all (\<lambda>(now, cancelled). \<not> cancelled) polls \<Longrightarrow>
     list_ex (\<lambda>(now, cancelled). t0 + 1 / RefillRate r \<le> now) polls \<Longrightarrow> \<exists>r'. acquire polls r = Some (True, r')"
proof (induction polls arbitrary: r)
  case (Cons p polls)
  obtain now c where p: "p = (now, c)" by (cases p)
  note ref = refill_accrued [OF Cons.prems(1), of now]
  show ?case
  proof (cases "1 \<le> Tokens (refill now r)")
    case True
    then show ?thesis by (simp add: p try_acquire_def Let_def)
  next
    case False
    then show ?thesis
      using Cons.IH [of "refill now r"] Cons.prems(2,3) ref by (auto simp: p try_acquire_def Let_def)
  qed
qed simp

text \<open>
  A caller that keeps polling and is not cancelled gets its token: at the latest at the first poll one
  refill period after the limiter's last refill.
\<close>

theorem acquire_progress:
  assumes "1 \<le> MaxTokens r" "0 < RefillRate r" "0 \<le> Tokens r"
    and "list_all (\<lambda>(now, cancelled). \<not> cancelled) polls"
    and "list_ex (\<lambda>(now, cancelled). LastRefill r + 1 / RefillRate r \<le> now) polls"
  shows "\<exists>r'. acquire polls r = Some (True, r')"
  by (rule acquire_waits [of "LastRefill r", OF _ assms(4,5)]) (use assms in \<open>simp add: accrued_def\<close>)

lemma acquire_progress_witness:
  "\<exists>r'. acquire [(1 / 20, False), (1 / 10, False), (1 / 5, False), (1 / 4, False)]
     \<lparr>Tokens = 0, MaxTokens = 10, RefillRate = 5, LastRefill = 0\<rparr> = Some (True, r')"
  by (rule acquire_progress) simp_all

section \<open>The chain\<close>

text \<open>
  The chain answers with the first matcher that does not report "no match", be it a match or a failure.
\<close>

theorem Chain_first_answer:
  "Chain_Lookup ms alg digest =
     (case find (\<lambda>m. m alg digest \<noteq> NoMatch) ms of None \<Rightarrow> NoMatch | Some m \<Rightarrow> m alg digest)"
  by (induction ms) (auto split: lookup.split)

end
