(* ===== verification/Fingerprint.thy ===== *)
theory Fingerprint
  imports Anchors
begin

text \<open>
  Recognising files by their bytes (\<open>internal/fingerprint\<close>) and the identity extractors
  (\<open>internal/fingerprint/extractor\<close>): magic numbers, the hasher, the JAR manifest parser, the six
  extractors and their registry.  The readers of binary formats (Go build info, ELF, PE, zip, the
  compressed JSON of cargo-auditable) are parameters, the record \<open>readers\<close>.
\<close>

section \<open>Magic numbers\<close>

abbreviation byte :: "nat \<Rightarrow> char" where "byte n \<equiv> char_of n"

definition IsELF :: "string \<Rightarrow> bool" where
  "IsELF b \<longleftrightarrow> 4 \<le> length b \<and> take 4 b = byte 127 # ''ELF''"

definition IsPE :: "string \<Rightarrow> bool" where
  "IsPE b \<longleftrightarrow> 2 \<le> length b \<and> take 2 b = ''MZ''"

definition IsMachO :: "string \<Rightarrow> bool" where
  "IsMachO b \<longleftrightarrow> 4 \<le> length b \<and>
     (b ! 0 = byte 254 \<and> b ! 1 = byte 237 \<and> b ! 2 = byte 250 \<and> (b ! 3 = byte 206 \<or> b ! 3 = byte 207) \<or>
      b ! 0 = byte 206 \<and> b ! 1 = byte 250 \<and> b ! 2 = byte 237 \<and> b ! 3 = byte 254 \<or>
      b ! 0 = byte 207 \<and> b ! 1 = byte 250 \<and> b ! 2 = byte 237 \<and> b ! 3 = byte 254)"

definition IsScriptShebang :: "string \<Rightarrow> bool" where
  "IsScriptShebang b \<longleftrightarrow> 2 \<le> length b \<and> b ! 0 = CHR ''#'' \<and> b ! 1 = CHR ''!''"

definition IsZIPArchive :: "string \<Rightarrow> bool" where
  "IsZIPArchive b \<longleftrightarrow> 4 \<le> length b \<and> b ! 0 = CHR ''P'' \<and> b ! 1 = CHR ''K'' \<and> b ! 2 = byte 3 \<and> b ! 3 = byte 4"

definition looksLikeBinary :: "string \<Rightarrow> bool" where
  "looksLikeBinary body \<longleftrightarrow> IsELF body \<or> IsPE body \<or> IsMachO body"

section \<open>Hashing\<close>

definition MaxHashBytes :: nat where "MaxHashBytes = 2 ^ 30"

record Hasher =
  WithSHA1 :: bool
  WithSHA512 :: bool

text \<open>\<open>digest\<close> is the hexadecimal digest by algorithm; the input is its bytes or a read error.\<close>

definition Hasher_Hash :: "(string \<Rightarrow> string \<Rightarrow> string) \<Rightarrow> Hasher \<Rightarrow> string option \<Rightarrow> (Hash list \<times> nat) option" where
  "Hasher_Hash digest h input =
     (case input of None \<Rightarrow> None
      | Some body \<Rightarrow>
          if MaxHashBytes < length body then None
          else Some (map (\<lambda>alg. \<lparr>Algorithm = alg, HashValue = digest alg body\<rparr>)
            ([''sha256''] @ (if WithSHA1 h then [''sha1''] else []) @ (if WithSHA512 h then [''sha512''] else [])), length body))"

definition HashSHA256 :: "(string \<Rightarrow> string \<Rightarrow> string) \<Rightarrow> string option \<Rightarrow> (string \<times> nat) option" where
  "HashSHA256 digest input =
     (case Hasher_Hash digest \<lparr>WithSHA1 = False, WithSHA512 = False\<rparr> input of
        Some (h # _, n) \<Rightarrow> Some (HashValue h, n) | _ \<Rightarrow> None)"

section \<open>The JAR manifest\<close>

record JARMetadata =
  BundleSymbolicName :: string
  BundleName :: string
  BundleVersion :: string
  ImplementationTitle :: string
  ImplementationVersion :: string
  ImplementationVendor :: string
  MainClass :: string

definition empty_jar :: JARMetadata where
  "empty_jar = \<lparr>BundleSymbolicName = [], BundleName = [], BundleVersion = [], ImplementationTitle = [],
     ImplementationVersion = [], ImplementationVendor = [], MainClass = []\<rparr>"

text \<open>A \<open>bufio.Scanner\<close> whose buffer holds \<open>k\<close> bytes.\<close>

definition scan_lines_upto :: "nat \<Rightarrow> string \<Rightarrow> string list" where
  "scan_lines_upto k body =
     (let ls = SplitC newline body; ls' = (if last ls = [] then butlast ls else ls)
      in map (\<lambda>l. if l \<noteq> [] \<and> last l = byte 13 then butlast l else l) (takeWhile (\<lambda>l. length l < k) ls'))"

definition commit :: "string \<Rightarrow> string \<Rightarrow> JARMetadata \<Rightarrow> JARMetadata" where
  "commit key v m =
     (if key = ''Bundle-SymbolicName'' then m\<lparr>BundleSymbolicName := TrimSpace (hd (SplitC (CHR '';'') v))\<rparr>
      else if key = ''Bundle-Name'' then m\<lparr>BundleName := v\<rparr>
      else if key = ''Bundle-Version'' then m\<lparr>BundleVersion := v\<rparr>
      else if key = ''Implementation-Title'' then m\<lparr>ImplementationTitle := v\<rparr>
      else if key = ''Implementation-Version'' then m\<lparr>ImplementationVersion := v\<rparr>
      else if key = ''Implementation-Vendor'' then m\<lparr>ImplementationVendor := v\<rparr>
      else if key = ''Main-Class'' then m\<lparr>MainClass := v\<rparr>
      else m)"

definition trim_cr :: "string \<Rightarrow> string" where
  "trim_cr s = rev (dropWhile (\<lambda>c. c = byte 13) (rev s))"

fun manifest_lines :: "string \<Rightarrow> string \<Rightarrow> JARMetadata \<Rightarrow> string list \<Rightarrow> JARMetadata" where
  "manifest_lines key v m [] = commit key v m"
| "manifest_lines key v m (l0 # ls) =
     (let l = trim_cr l0 in
        if l = [] then manifest_lines [] [] (commit key v m) ls
        else if HasPrefix l '' '' then manifest_lines key (v @ tl l) m ls
        else (case Index l '':'' of
            None \<Rightarrow> manifest_lines [] [] (commit key v m) ls
          | Some i \<Rightarrow> manifest_lines (TrimSpace (take i l)) (TrimSpace (drop (Suc i) l)) (commit key v m) ls))"

definition parseManifest :: "string \<Rightarrow> JARMetadata" where
  "parseManifest body = manifest_lines [] [] empty_jar (scan_lines_upto (2 ^ 20) body)"

definition maxManifestBytes :: nat where "maxManifestBytes = 2 ^ 20"

text \<open>A zip archive is the list of its files with their contents, \<^const>\<open>None\<close> for one that cannot be opened or read.\<close>

type_synonym zip_files = "(string \<times> string option) list"

datatype jar_error = NotJAR | NoManifest | ManifestUnreadable

definition ReadJARMetadata :: "(string \<Rightarrow> zip_files option) \<Rightarrow> string \<Rightarrow> jar_error + JARMetadata" where
  "ReadJARMetadata unzip body =
     (case unzip body of None \<Rightarrow> Inl NotJAR
      | Some files \<Rightarrow>
          (case find (\<lambda>f. fst f = ''META-INF/MANIFEST.MF'') files of None \<Rightarrow> Inl NoManifest
           | Some (_, None) \<Rightarrow> Inl ManifestUnreadable
           | Some (_, Some content) \<Rightarrow> Inr (parseManifest (take maxManifestBytes content))))"

section \<open>Identities\<close>

text \<open>\<open>SubComponents\<close> of an identity are themselves flat: an extractor nests one level only.\<close>

record sub_identity =
  SName :: string
  SVersion :: string
  SPURL :: string

record xidentity =
  XName :: string
  XVersion :: string
  XPURL :: string
  XCPE :: string
  XVendor :: string
  XSubs :: "sub_identity list"
  XProperties :: props
  XSource :: string
  XConfidence :: rat

definition empty_xidentity :: xidentity where
  "empty_xidentity = \<lparr>XName = [], XVersion = [], XPURL = [], XCPE = [], XVendor = [], XSubs = [], XProperties = [], XSource = [], XConfidence = 0\<rparr>"

definition xidentity_IsEmpty :: "xidentity \<Rightarrow> bool" where
  "xidentity_IsEmpty i \<longleftrightarrow> XName i = [] \<and> XPURL i = [] \<and> XCPE i = []"

text \<open>An extracted file: its path and body.  \<^const>\<open>None\<close> is an error of \<open>Extract\<close>.\<close>

record extractor_impl =
  XtName :: string
  XtConfidence :: rat
  XtMatch :: "string \<Rightarrow> string \<Rightarrow> bool"
  XtExtract :: "string \<Rightarrow> string \<Rightarrow> xidentity option"

definition identify_one :: "string \<Rightarrow> string \<Rightarrow> extractor_impl \<Rightarrow> xidentity option" where
  "identify_one path body ext =
     (if \<not> XtMatch ext path body then None
      else (case XtExtract ext path body of None \<Rightarrow> None
        | Some i \<Rightarrow> if xidentity_IsEmpty i then None else Some (i\<lparr>XSource := XtName ext, XConfidence := XtConfidence ext\<rparr>)))"

definition Identify :: "extractor_impl list \<Rightarrow> string \<Rightarrow> string \<Rightarrow> xidentity list" where
  "Identify exts path body = sort_desc XConfidence (List.map_filter (identify_one path body) exts)"

definition First :: "extractor_impl list \<Rightarrow> string \<Rightarrow> string \<Rightarrow> xidentity option" where
  "First exts path body = (case Identify exts path body of [] \<Rightarrow> None | i # _ \<Rightarrow> Some i)"

section \<open>Readers of binary formats\<close>

record go_module =
  GPath :: string
  GVersion :: string

record go_build_info =
  GoVersion :: string
  GMain :: go_module
  GDeps :: "go_module list"

record audit_package =
  APName :: string
  APVersion :: string
  APRoot :: bool

text \<open>A section is absent, unreadable, or its bytes.\<close>

datatype elf_section = NoSection | SectionError | SectionData string

record elf_file =
  DepV0 :: elf_section
  BuildIDNote :: elf_section
  Rodata :: elf_section
  SonameStrings :: "string list option"
  ElfMachine :: string

record readers =
  ReadBuildInfo :: "string \<Rightarrow> go_build_info option"
  ReadElf :: "string \<Rightarrow> elf_file option"
  ReadPE :: "string \<Rightarrow> nat option"
  Unzip :: "string \<Rightarrow> zip_files option"
  DecodeAudit :: "string \<Rightarrow> audit_package list option"

section \<open>The extractors\<close>

definition basename :: "string \<Rightarrow> string" where
  "basename p = (case LastIndexByte p slash of None \<Rightarrow> p | Some i \<Rightarrow> drop (Suc i) p)"

definition dirOf :: "string \<Rightarrow> string" where
  "dirOf p = (case LastIndexByte p slash of None \<Rightarrow> [] | Some i \<Rightarrow> take i p)"

text \<open>The package URL of a name and an optional version, after a fixed prefix.\<close>

definition prefixed_purl :: "string \<Rightarrow> string \<Rightarrow> string \<Rightarrow> string" where
  "prefixed_purl pre name version =
     (if name = [] then [] else if version = [] then pre @ name else pre @ name @ ''@'' @ version)"

definition purlCargo :: "string \<Rightarrow> string \<Rightarrow> string" where "purlCargo = prefixed_purl ''pkg:cargo/''"
definition purlPyPI :: "string \<Rightarrow> string \<Rightarrow> string" where "purlPyPI = prefixed_purl ''pkg:pypi/''"
definition purlGenericPE :: "string \<Rightarrow> string \<Rightarrow> string" where "purlGenericPE = prefixed_purl ''pkg:nuget/''"
definition purlGeneric :: "string \<Rightarrow> string \<Rightarrow> string" where "purlGeneric = prefixed_purl ''pkg:generic/''"

definition x_purlGolang :: "string \<Rightarrow> string \<Rightarrow> string" where
  "x_purlGolang modulePath version = (if modulePath = [] then [] else Anchors.purlGolang modulePath version)"

definition x_purlMaven :: "string \<Rightarrow> string \<Rightarrow> string \<Rightarrow> string" where
  "x_purlMaven grp artifact version =
     (if artifact = [] then []
      else ''pkg:maven/'' @ (if grp \<noteq> [] then grp @ ''/'' else []) @ artifact @ (if version \<noteq> [] then ''@'' @ version else []))"

subsection \<open>Go and Rust\<close>

definition Go_Extract :: "readers \<Rightarrow> string \<Rightarrow> string \<Rightarrow> xidentity option" where
  "Go_Extract R path body =
     (case ReadBuildInfo R body of None \<Rightarrow> Some empty_xidentity
      | Some bi \<Rightarrow>
          let p = GPath (GMain bi); v = GVersion (GMain bi) in
            if p = [] \<or> p = ''command-line-arguments'' then Some empty_xidentity
            else Some (empty_xidentity\<lparr>XName := p, XVersion := v, XPURL := x_purlGolang p v,
              XProperties := [(''go.compiler'', GoVersion bi), (''go.main.path'', p), (''go.main.version'', v)],
              XSubs := map (\<lambda>d. \<lparr>SName = GPath d, SVersion = GVersion d, SPURL = x_purlGolang (GPath d) (GVersion d)\<rparr>)
                (filter (\<lambda>d. GPath d \<noteq> []) (GDeps bi))\<rparr>))"

definition but_nth :: "nat \<Rightarrow> 'a list \<Rightarrow> 'a list" where
  "but_nth i xs = take i xs @ drop (Suc i) xs"

definition Rust_Extract :: "readers \<Rightarrow> string \<Rightarrow> string \<Rightarrow> xidentity option" where
  "Rust_Extract R path body =
     (case ReadElf R body of None \<Rightarrow> Some empty_xidentity
      | Some f \<Rightarrow>
        (case DepV0 f of
           NoSection \<Rightarrow> Some empty_xidentity
         | SectionError \<Rightarrow> None
         | SectionData raw \<Rightarrow>
           (case DecodeAudit R raw of None \<Rightarrow> None
            | Some packages \<Rightarrow>
              (case find_map (\<lambda>i. if APRoot (packages ! i) then Some i else None) [0..<length packages] of
                 None \<Rightarrow> Some empty_xidentity
               | Some i \<Rightarrow>
                   let root_pkg = packages ! i in
                     if APName root_pkg = [] then Some empty_xidentity
                     else Some (empty_xidentity\<lparr>XName := APName root_pkg, XVersion := APVersion root_pkg,
                       XPURL := purlCargo (APName root_pkg) (APVersion root_pkg),
                       XProperties := [(''rust.auditable'', ''true''), (''rust.dep.count'', Itoa (int (length packages) - 1))],
                       XSubs := map (\<lambda>p. \<lparr>SName = APName p, SVersion = APVersion p, SPURL = purlCargo (APName p) (APVersion p)\<rparr>)
                         (filter (\<lambda>p. APName p \<noteq> []) (but_nth i packages))\<rparr>)))))"

subsection \<open>Java\<close>

definition looksLikeJARName :: "string \<Rightarrow> bool" where
  "looksLikeJARName path =
     (let lower = ToLower path in HasSuffix lower ''.jar'' \<or> HasSuffix lower ''.war'' \<or> HasSuffix lower ''.ear'')"

fun property_lines :: "props \<Rightarrow> string list \<Rightarrow> props" where
  "property_lines m [] = m"
| "property_lines m (l # ls) =
     (let t = TrimSpace l in
        if t = [] \<or> HasPrefix t ''#'' \<or> HasPrefix t ''!'' then property_lines m ls
        else (case IndexAny (\<lambda>c. c \<in> set ''=:'') t of None \<Rightarrow> property_lines m ls
          | Some i \<Rightarrow>
              (let key = TrimSpace (take i t); val = TrimSpace (drop (Suc i) t)
               in property_lines (if key \<noteq> [] then mput key val m else m) ls)))"

definition parsePropertiesFile :: "string \<Rightarrow> props" where
  "parsePropertiesFile body = property_lines [] (scan_lines_upto (2 ^ 20) body)"

definition pomPropertiesMaxBytes :: nat where "pomPropertiesMaxBytes = 2 ^ 16"

fun readPomProperties :: "zip_files \<Rightarrow> xidentity option" where
  "readPomProperties [] = None"
| "readPomProperties ((name, content) # files) =
     (if \<not> HasPrefix name ''META-INF/maven/'' \<or> \<not> HasSuffix name ''/pom.properties'' then readPomProperties files
      else (case content of None \<Rightarrow> readPomProperties files
        | Some b \<Rightarrow>
            let ps = parsePropertiesFile (take pomPropertiesMaxBytes b);
                artifact = mval ps ''artifactId''; grp = mval ps ''groupId''; version = mval ps ''version'' in
              if artifact = [] then readPomProperties files
              else Some (empty_xidentity\<lparr>XName := artifact, XVersion := version, XVendor := grp,
                XPURL := x_purlMaven grp artifact version,
                XProperties := [(''java.tier'', ''pom-properties''), (''maven.groupId'', grp)]\<rparr>)))"

definition readManifestIdentity :: "readers \<Rightarrow> string \<Rightarrow> xidentity option" where
  "readManifestIdentity R body =
     (case ReadJARMetadata (Unzip R) body of Inl _ \<Rightarrow> None
      | Inr m \<Rightarrow>
          let name = nonEmpty [BundleSymbolicName m, ImplementationTitle m, BundleName m];
              version = nonEmpty [BundleVersion m, ImplementationVersion m] in
            if name = [] \<or> version = [] then None
            else Some (empty_xidentity\<lparr>XName := name, XVersion := version, XVendor := ImplementationVendor m,
              XPURL := x_purlMaven (ImplementationVendor m) name version,
              XProperties := [(''java.tier'', ''manifest''), (''java.implementation'', ImplementationTitle m),
                (''java.bundle.symbolic'', BundleSymbolicName m), (''java.bundle.version'', BundleVersion m)]
                @ (if MainClass m \<noteq> [] then [(''java.main-class'', MainClass m)] else [])\<rparr>))"

text \<open>
  \<open>jarFilenameVersion\<close>: the name runs to the first dash that a digit follows; every dash before it is followed
  by a letter.
\<close>

definition re_letter :: "char \<Rightarrow> bool" where
  "re_letter c = (let n = (of_char c :: nat) in 65 \<le> n \<and> n \<le> 90 \<or> 97 \<le> n \<and> n \<le> 122)"

definition jar_char :: "char \<Rightarrow> bool" where
  "jar_char c \<longleftrightarrow> re_letter c \<or> is_digit c \<or> c = CHR ''.'' \<or> c = CHR ''_''"

definition jar_name :: "string \<Rightarrow> bool" where
  "jar_name s = (case SplitC (CHR ''-'') s of [] \<Rightarrow> False
     | seg # segs \<Rightarrow> seg \<noteq> [] \<and> list_all jar_char seg \<and>
         list_all (\<lambda>t. t \<noteq> [] \<and> re_letter (hd t) \<and> list_all jar_char (tl t)) segs)"

definition cut_ext :: "string list \<Rightarrow> string \<Rightarrow> string option" where
  "cut_ext exts s = find_map (\<lambda>e. if HasSuffix s e then Some (TrimSuffix s e) else None) exts"

definition jarFilenameVersion :: "string \<Rightarrow> (string \<times> string) option" where
  "jarFilenameVersion base =
     find_map (\<lambda>k. if \<not> jar_name (take k base) then None
        else (case CutPrefix (drop k base) ''-'' of None \<Rightarrow> None
          | Some r \<Rightarrow>
            (case cut_ext [''.jar'', ''.war'', ''.ear''] r of None \<Rightarrow> None
             | Some v \<Rightarrow> if v \<noteq> [] \<and> is_digit (hd v) \<and> list_all (\<lambda>c. jar_char c \<or> c = CHR ''-'') (tl v)
                 then Some (take k base, v) else None)))
       [1..<Suc (length base)]"

definition identityFromJARFilename :: "string \<Rightarrow> xidentity option" where
  "identityFromJARFilename path =
     (case jarFilenameVersion (basename path) of None \<Rightarrow> None
      | Some (name, version) \<Rightarrow>
          if name = [] \<or> version = [] then None
          else Some (empty_xidentity\<lparr>XName := name, XVersion := version, XPURL := x_purlMaven [] name version,
            XProperties := [(''java.tier'', ''filename''), (''java.confidence'', ''low'')]\<rparr>))"

definition Java_Extract :: "readers \<Rightarrow> string \<Rightarrow> string \<Rightarrow> xidentity option" where
  "Java_Extract R path body =
     (case Unzip R body of None \<Rightarrow> Some empty_xidentity
      | Some files \<Rightarrow>
        (case readPomProperties files of Some i \<Rightarrow> Some i
         | None \<Rightarrow>
           (case readManifestIdentity R body of Some i \<Rightarrow> Some i
            | None \<Rightarrow>
              (case identityFromJARFilename path of Some i \<Rightarrow> Some i | None \<Rightarrow> Some empty_xidentity))))"

subsection \<open>Python\<close>

definition Python_Match :: "string \<Rightarrow> string \<Rightarrow> bool" where
  "Python_Match path body \<longleftrightarrow> basename path = ''METADATA'' \<and> HasSuffix (dirOf path) ''.dist-info''"

definition pythonHeaderMaxLines :: nat where "pythonHeaderMaxLines = 1000"

fun rfc822_lines :: "string \<Rightarrow> props \<Rightarrow> string list \<Rightarrow> props" where
  "rfc822_lines lastKey m [] = m"
| "rfc822_lines lastKey m (l # ls) =
     (if l = [] then m
      else if (hd l = CHR '' '' \<or> hd l = byte 9) \<and> lastKey \<noteq> [] then
        rfc822_lines lastKey (mput lastKey (mval m lastKey @ '' '' @ TrimSpace l) m) ls
      else (case Index l '':'' of None \<Rightarrow> rfc822_lines lastKey m ls
        | Some i \<Rightarrow>
            (let key = TrimSpace (take i l); val = TrimSpace (drop (Suc i) l) in
               if key = [] then rfc822_lines lastKey m ls
               else rfc822_lines key (if mget m key = None then mput key val m else m) ls)))"

definition parseRFC822Headers :: "string \<Rightarrow> props" where
  "parseRFC822Headers body = rfc822_lines [] [] (take pythonHeaderMaxLines (scan_lines_upto (2 ^ 20) body))"

definition Python_Extract :: "string \<Rightarrow> string \<Rightarrow> xidentity option" where
  "Python_Extract path body =
     (let h = parseRFC822Headers body; name = mval h ''Name''; version = mval h ''Version'';
          prop = (\<lambda>key field. if mval h field \<noteq> [] then [(key, mval h field)] else [])
      in if name = [] then Some empty_xidentity
         else Some (empty_xidentity\<lparr>XName := name, XVersion := version, XVendor := mval h ''Author'', XPURL := purlPyPI name version,
           XProperties := prop ''python.summary'' ''Summary'' @ prop ''python.license'' ''License'' @
             prop ''python.home-page'' ''Home-page'' @ prop ''python.requires'' ''Requires-Python''\<rparr>))"

subsection \<open>PE\<close>

definition hex4 :: "nat \<Rightarrow> string" where
  "hex4 n = [hex_digit (n div 4096 mod 16), hex_digit (n div 256 mod 16), hex_digit (n div 16 mod 16), hex_digit (n mod 16)]"

definition peMachineString :: "nat \<Rightarrow> string" where
  "peMachineString m =
     (if m = 34404 then ''amd64'' else if m = 332 then ''386'' else if m = 43620 then ''arm64''
      else if m = 448 then ''arm'' else ''0x'' @ hex4 m)"

definition pe_name_char :: "char \<Rightarrow> bool" where
  "pe_name_char c \<longleftrightarrow> re_letter c \<or> is_digit c \<or> c \<in> set ''_+.-''"

definition parsePEFilename :: "string \<Rightarrow> string \<times> string" where
  "parsePEFilename path =
     (let base = basename path in
      case find_map (\<lambda>k. let n = take k base; r = drop k base in
          if \<not> (re_letter (hd n) \<and> list_all pe_name_char (tl n)) \<or> r = [] \<or> hd r \<notin> set ''-_ '' then None
          else (let r1 = (case CutPrefix (tl r) ''v'' of Some t \<Rightarrow> t | None \<Rightarrow> tl r) in
            case cut_ext [''.exe'', ''.dll''] r1 of None \<Rightarrow> None
            | Some v \<Rightarrow> if v \<noteq> [] \<and> is_digit (hd v) \<and> list_all pe_name_char (tl v) then Some (n, v) else None))
        [1..<Suc (length base)] of
        None \<Rightarrow> ([], []) | Some nv \<Rightarrow> nv)"

definition PE_Extract :: "readers \<Rightarrow> string \<Rightarrow> string \<Rightarrow> xidentity option" where
  "PE_Extract R path body =
     (case ReadPE R body of None \<Rightarrow> Some empty_xidentity
      | Some machine \<Rightarrow>
          (case parsePEFilename path of (name, version) \<Rightarrow>
             if name = [] then Some empty_xidentity
             else Some (empty_xidentity\<lparr>XName := name, XVersion := version, XPURL := purlGenericPE name version,
               XProperties := [(''pe.machine'', peMachineString machine)]\<rparr>)))"

subsection \<open>ELF libraries\<close>

definition readELFSoname :: "elf_file \<Rightarrow> string" where
  "readELFSoname f = (case SonameStrings f of Some (s # _) \<Rightarrow> s | _ \<Rightarrow> [])"

definition hex_encode :: "string \<Rightarrow> string" where
  "hex_encode s = concat (map (\<lambda>c. let n = (of_char c :: nat) in [hex_digit (n div 16), hex_digit (n mod 16)]) s)"

definition readELFBuildID :: "elf_file \<Rightarrow> string" where
  "readELFBuildID f =
     (case BuildIDNote f of SectionData d \<Rightarrow> if length d < 16 then [] else hex_encode (drop 16 d) | _ \<Rightarrow> [])"

definition rodataMaxBytes :: nat where "rodataMaxBytes = 2 ^ 20"

text \<open>
  \<open>rodataVersionPattern\<close> at a start position, with the backtracking of the last greedy part that ends at a word
  boundary: the candidate lengths of a run of characters are tried from the longest down to one.
\<close>

definition longest_first :: "(char \<Rightarrow> bool) \<Rightarrow> string \<Rightarrow> nat list" where
  "longest_first P s = rev [1..<Suc (length (takeWhile P s))]"

definition at_boundary :: "string \<Rightarrow> string \<Rightarrow> bool" where
  "at_boundary before after \<longleftrightarrow>
     (before \<noteq> [] \<and> re_word (last before)) \<noteq> (after \<noteq> [] \<and> re_word (hd after))"

definition suffix_options :: "string \<times> string \<Rightarrow> (string \<times> string) list" where
  "suffix_options mr =
     (case CutPrefix (snd mr) ''-'' of None \<Rightarrow> []
      | Some r \<Rightarrow> map (\<lambda>n. (fst mr @ ''-'' @ take n r, drop n r))
          (longest_first (\<lambda>c. re_letter c \<or> is_digit c \<or> c = CHR ''.'') r)) @ [mr]"

definition third_options :: "string \<times> string \<Rightarrow> (string \<times> string) list" where
  "third_options mr =
     (case CutPrefix (snd mr) ''.'' of None \<Rightarrow> []
      | Some r \<Rightarrow> map (\<lambda>n. (fst mr @ ''.'' @ take n r, drop n r)) (longest_first is_digit r)) @ [mr]"

definition version_at :: "string \<Rightarrow> string option" where
  "version_at s0 =
     (let s = (case CutPrefix s0 ''v'' of Some t \<Rightarrow> t | None \<Rightarrow> s0);
          d1 = takeWhile is_digit s
      in if d1 = [] then None
         else (case CutPrefix (dropWhile is_digit s) ''.'' of None \<Rightarrow> None
           | Some r \<Rightarrow>
               map_option fst (find (\<lambda>mr. at_boundary (fst mr) (snd mr))
                 (concat (map suffix_options (concat (map third_options
                   (map (\<lambda>n. (d1 @ ''.'' @ take n r, drop n r)) (longest_first is_digit r)))))))))"

fun version_search :: "string \<Rightarrow> string option" where
  "version_search [] = None"
| "version_search (c # s) =
     (case if re_word c \<or> c = CHR ''.'' then None else version_at s of
        Some v \<Rightarrow> Some v | None \<Rightarrow> version_search s)"

definition readELFVersionString :: "elf_file \<Rightarrow> string" where
  "readELFVersionString f =
     (case Rodata f of
        SectionData d0 \<Rightarrow>
          (let d = take rodataMaxBytes d0 in
             case version_at d of Some v \<Rightarrow> v
             | None \<Rightarrow> (case version_search d of Some v \<Rightarrow> v | None \<Rightarrow> []))
      | _ \<Rightarrow> [])"

definition sonameToName :: "string \<Rightarrow> string" where
  "sonameToName soname =
     (if soname = [] then []
      else TrimPrefix (case Index soname ''.so'' of Some i \<Rightarrow> if 0 < i then take i soname else soname | None \<Rightarrow> soname) ''lib'')"

definition ELF_Extract :: "readers \<Rightarrow> string \<Rightarrow> string \<Rightarrow> xidentity option" where
  "ELF_Extract R path body =
     (case ReadElf R body of None \<Rightarrow> Some empty_xidentity
      | Some f \<Rightarrow>
          let soname = readELFSoname f; buildID = readELFBuildID f; version = readELFVersionString f in
            if soname = [] \<and> buildID = [] \<and> version = [] then Some empty_xidentity
            else (let n = sonameToName soname; name = (if n = [] then sonameToName (basename path) else n) in
              if name = [] then Some empty_xidentity
              else Some (empty_xidentity\<lparr>XName := name, XVersion := version, XPURL := purlGeneric name version,
                XProperties := (if soname \<noteq> [] then [(''elf.soname'', soname)] else []) @
                  (if buildID \<noteq> [] then [(''elf.buildid'', buildID)] else []) @ [(''elf.machine'', ElfMachine f)]\<rparr>)))"

section \<open>The default registry\<close>

definition NewDefault :: "readers \<Rightarrow> extractor_impl list" where
  "NewDefault R =
     [\<lparr>XtName = ''go'', XtConfidence = 95 / 100, XtMatch = (\<lambda>path body. looksLikeBinary body), XtExtract = Go_Extract R\<rparr>,
      \<lparr>XtName = ''rust'', XtConfidence = 95 / 100, XtMatch = (\<lambda>path body. IsELF body), XtExtract = Rust_Extract R\<rparr>,
      \<lparr>XtName = ''java'', XtConfidence = 90 / 100, XtMatch = (\<lambda>path body. looksLikeJARName path \<and> IsZIPArchive body), XtExtract = Java_Extract R\<rparr>,
      \<lparr>XtName = ''python'', XtConfidence = 95 / 100, XtMatch = Python_Match, XtExtract = Python_Extract\<rparr>,
      \<lparr>XtName = ''pe'', XtConfidence = 60 / 100, XtMatch = (\<lambda>path body. IsPE body), XtExtract = PE_Extract R\<rparr>,
      \<lparr>XtName = ''elf-library'', XtConfidence = 60 / 100, XtMatch = (\<lambda>path body. IsELF body), XtExtract = ELF_Extract R\<rparr>]"

section \<open>Lemmas\<close>

lemma set_map_filter: "set (List.map_filter f xs) = {y. \<exists>x \<in> set xs. f x = Some y}"
  by (force simp: List.map_filter_def)

lemma First_some_iff: "First exts path body = None \<longleftrightarrow> list_all (\<lambda>e. identify_one path body e = None) exts"
proof -
  have "First exts path body = None \<longleftrightarrow> Identify exts path body = []" by (simp add: First_def split: list.split)
  also have "\<dots> \<longleftrightarrow> set (Identify exts path body) = {}" by (simp only: set_empty)
  also have "\<dots> \<longleftrightarrow> list_all (\<lambda>e. identify_one path body e = None) exts"
    by (auto simp: Identify_def set_map_filter list_all_iff) (metis option.exhaust)
  finally show ?thesis .
qed

lemma sort_desc_hd:
  assumes "sort_desc f xs = y # ys"
  shows "y = hd (filter (\<lambda>x. f x = f y) xs)" and "y \<in> set xs" and "x \<in> set xs \<Longrightarrow> f x \<le> f y"
proof -
  have s: "filter (\<lambda>x. f x = f y) (y # ys) = filter (\<lambda>x. f x = f y) xs"
    using sort_desc_stable [of f "f y" xs] by (simp only: assms)
  then show "y = hd (filter (\<lambda>x. f x = f y) xs)" by (metis (mono_tags, lifting) filter.simps(2) list.sel(1))
  have m: "set xs = set (y # ys)" by (metis assms set_sort_desc)
  then show "y \<in> set xs" by simp
  show "f x \<le> f y" if "x \<in> set xs"
    using that m sorted_sort_desc [of f xs] unfolding assms by auto
qed

text \<open>
  The registry returns the identity of the most confident extractor that recognises the file, the
  earliest one among equals, stamped with that extractor's name and confidence.
\<close>

theorem First_best:
  assumes "First exts path body = Some i"
  shows "i = hd (filter (\<lambda>j. XConfidence j = XConfidence i) (List.map_filter (identify_one path body) exts)) \<and>
    list_all (\<lambda>e. case identify_one path body e of None \<Rightarrow> True | Some j \<Rightarrow> XConfidence j \<le> XConfidence i) exts \<and>
    list_ex (\<lambda>e. identify_one path body e = Some i \<and> XSource i = XtName e \<and> XConfidence i = XtConfidence e) exts"
proof -
  obtain is' where srt: "sort_desc XConfidence (List.map_filter (identify_one path body) exts) = i # is'"
    using assms by (auto simp: First_def Identify_def split: list.splits)
  note h = sort_desc_hd [OF srt]
  have "list_all (\<lambda>e. case identify_one path body e of None \<Rightarrow> True | Some j \<Rightarrow> XConfidence j \<le> XConfidence i) exts"
    using h(3) by (auto simp: list_all_iff set_map_filter split: option.split)
  moreover obtain e where e: "e \<in> set exts" "identify_one path body e = Some i"
    using h(2) by (auto simp: set_map_filter)
  then have "XSource i = XtName e \<and> XConfidence i = XtConfidence e"
    by (auto simp: identify_one_def split: if_splits option.splits)
  ultimately show ?thesis using h(1) e by (auto simp: list_ex_iff)
qed

definition demo_elf :: string where "demo_elf = byte 127 # ''ELF''"

definition demo_readers :: readers where
  "demo_readers = \<lparr>ReadBuildInfo = \<lambda>_. Some \<lparr>GoVersion = ''go1.25'', GMain = \<lparr>GPath = ''m'', GVersion = ''v1''\<rparr>, GDeps = []\<rparr>,
     ReadElf = \<lambda>_. Some \<lparr>DepV0 = NoSection, BuildIDNote = NoSection, Rodata = NoSection, SonameStrings = Some [''libm.so.6''], ElfMachine = ''EM_X86_64''\<rparr>,
     ReadPE = \<lambda>_. None, Unzip = \<lambda>_. None, DecodeAudit = \<lambda>_. None\<rparr>"

definition demo_identity :: xidentity where
  "demo_identity = the (First (NewDefault demo_readers) ''app'' demo_elf)"

lemma demo_first: "First (NewDefault demo_readers) ''app'' demo_elf = Some demo_identity"
  by code_simp

lemma First_best_witness:
  "XSource demo_identity = ''go'' \<and>
   list_all (\<lambda>e. case identify_one ''app'' demo_elf e of None \<Rightarrow> True | Some j \<Rightarrow> XConfidence j \<le> XConfidence demo_identity) (NewDefault demo_readers)"
proof -
  have "XSource demo_identity = ''go''" by code_simp
  then show ?thesis using First_best [OF demo_first] by blast
qed

text \<open>A version found in read-only data ends at a word boundary.\<close>

lemma rodata_examples:
  "version_search ''x 1.2.3_'' = Some ''1.2''" "version_search '' v2024.01.15 '' = Some ''2024.01.15''"
  by code_simp+

end
