(* ===== verification/Untracked.thy ===== *)
theory Untracked
  imports PathClassifier Cluster Matchers Fingerprint
begin

text \<open>
  The untracked-file enricher (\<open>internal/enrich/untracked\<close>): the filters and the index of what the SBOM
  already knows (\<open>filter.go\<close>), the classification of a file by path and magic bytes (\<open>classifier.go\<close>), and the
  enricher itself (\<open>enricher.go\<close>): the cluster pre-pass, the walk with its counters and its limit, and the pool
  of matcher workers, which is a step relation over the interleavings of the workers.  Digests and the
  identity extractors' readers are parameters; so is what \<open>Lookup\<close> answers to each task.
\<close>

section \<open>Filters\<close>

datatype category = CategoryNoise | CategoryExecutable | CategoryArchive | CategoryStaticArchive | CategoryScript
  | CategoryLibrary | CategoryConfig | CategoryUnknown | CategoryRedundant

definition noisyFilenames :: "string list" where
  "noisyFilenames =
    [''AUTHORS'', ''AUTHORS.md'', ''AUTHORS.txt'', ''CHANGELOG'', ''CHANGELOG.md'', ''CHANGELOG.rst'', ''CHANGELOG.txt'',
     ''CHANGES'', ''CHANGES.md'', ''CHANGES.txt'', ''CODEOWNERS'', ''CONTRIBUTING'', ''CONTRIBUTORS'', ''COPYING'',
     ''COPYING.LIB'', ''COPYRIGHT'', ''INSTALL'', ''INSTALL.md'', ''LICENCE'', ''LICENCE.md'', ''LICENCE.txt'', ''LICENSE'',
     ''LICENSE.md'', ''LICENSE.txt'', ''MAINTAINERS'', ''NEWS'', ''NEWS.md'', ''NOTICE'', ''NOTICE.md'', ''NOTICE.txt'',
     ''PATENTS'', ''README'', ''README.md'', ''README.rst'', ''README.txt'', ''SECURITY'', ''SECURITY.md'', ''THANKS'',
     ''TODO'', ''TODO.md'', ''VERSION'']"

definition noisyExtensions :: "string list" where
  "noisyExtensions =
    [''.asc'', ''.c'', ''.cc'', ''.cpp'', ''.cxx'', ''.d.ts'', ''.dwo'', ''.dwp'', ''.gpg'', ''.h'', ''.hpp'', ''.hxx'',
     ''.map'', ''.o'', ''.obj'', ''.pyi'', ''.sig'', ''.sym'', ''.symtab'', ''.ts'', ''.tsx'']"

definition packageManifestFiles :: "string list" where
  "packageManifestFiles =
    [''package.json'', ''package-lock.json'', ''setup.py'', ''PKG-INFO'', ''METADATA'', ''RECORD'', ''Cargo.toml'', ''go.mod'',
     ''composer.json'', ''Gemfile'', ''Gemfile.lock'', ''.gemspec'', ''pom.xml'', ''build.gradle'', ''DESCRIPTION'',
     ''control'', ''PKGBUILD'']"

record IncludeMask =
  IncludeRedundant :: bool
  IncludeNoise :: bool

definition allow :: "IncludeMask \<Rightarrow> category \<Rightarrow> bool" where
  "allow m c = (case c of CategoryRedundant \<Rightarrow> IncludeRedundant m | CategoryNoise \<Rightarrow> IncludeNoise m | _ \<Rightarrow> True)"

definition normalize :: "string \<Rightarrow> string" where
  "normalize p = TrimPrefix (TrimPrefix p ''./'') ''/''"

definition extractKnownPaths :: "component_data \<Rightarrow> string list" where
  "extractKnownPaths c =
     (case CEvidence c of None \<Rightarrow> []
      | Some ev \<Rightarrow> map normalize (filter (\<lambda>p. p \<noteq> []) (map Path (Locations ev)))) @
     map (\<lambda>kv. normalize (snd kv))
       (filter (\<lambda>kv. snd kv \<noteq> [] \<and> HasPrefix (fst kv) ''syft:location:'' \<and> HasSuffix (fst kv) '':path'') (Properties c))"

definition extractPackageRoot :: "string \<Rightarrow> string" where
  "extractPackageRoot p =
     (if Base p \<in> set packageManifestFiles then Dir p
      else if HasSuffix (Base p) ''.gemspec'' then Dir p
      else [])"

record knownIndex =
  KPaths :: "string list"
  KDirs :: "string list"

definition index_path :: "knownIndex \<Rightarrow> string \<Rightarrow> knownIndex" where
  "index_path idx p =
     (let r = extractPackageRoot p in
        \<lparr>KPaths = List.insert p (KPaths idx), KDirs = (if r \<noteq> [] then List.insert (r @ ''/'') (KDirs idx) else KDirs idx)\<rparr>)"

definition buildKnownIndex :: "SBOM \<Rightarrow> knownIndex" where
  "buildKnownIndex sbom =
     foldl (\<lambda>idx c. foldl index_path idx (extractKnownPaths c)) \<lparr>KPaths = [], KDirs = []\<rparr> (all_components (Components sbom))"

definition isRedundantAgainstIndex :: "string \<Rightarrow> knownIndex \<Rightarrow> bool" where
  "isRedundantAgainstIndex filePath idx =
     (let p = normalize filePath in
        p \<in> set (KPaths idx) \<or> list_ex (\<lambda>d. HasPrefix (p @ ''/'') d \<or> HasPrefix p d) (KDirs idx))"

definition isDocsOrMetadata :: "string \<Rightarrow> bool" where
  "isDocsOrMetadata filePath \<longleftrightarrow> Base filePath \<in> set noisyFilenames \<or> ToLower (Ext filePath) \<in> set noisyExtensions"

section \<open>Classification\<close>

definition noisePathPrefixes :: "string list" where
  "noisePathPrefixes =
    [''usr/share/man/'', ''usr/share/doc/'', ''usr/share/info/'', ''usr/share/locale/'', ''usr/share/i18n/'',
     ''usr/share/zoneinfo/'', ''usr/share/help/'', ''usr/lib/locale/'', ''var/cache/'', ''var/log/'',
     ''var/lib/dpkg/info/'', ''var/lib/apt/'', ''tmp/'', ''run/'', ''dev/'', ''proc/'', ''sys/'', ''etc/ssl/certs/'',
     ''etc/ca-certificates/'']"

definition noiseSuffixes :: "string list" where
  "noiseSuffixes = [''.pyc'', ''.pyo'', ''.pyd'', ''.dwarf'', ''.debug'', ''.la'', ''.gmo'', ''.mo'', ''.cache'']"

definition noiseBasenames :: "string list" where
  "noiseBasenames = [''__pycache__'', ''.DS_Store'', ''Thumbs.db'', ''.gitkeep'', ''.gitignore'', ''__init__.pyc'']"

definition noisePathContains :: "string list" where
  "noisePathContains = [''/__pycache__/'', ''/.cache/'', ''/.npm/'', ''/.yarn/'']"

definition isNoisePath :: "string \<Rightarrow> bool" where
  "isNoisePath filePath =
     (let p = TrimPrefix filePath ''/'' in
        list_ex (HasPrefix p) noisePathPrefixes \<or> list_ex (Contains (slash # p)) noisePathContains)"

definition classifyAsNoise :: "string \<Rightarrow> (category \<times> string) option" where
  "classifyAsNoise filePath =
     (if isNoisePath filePath then Some (CategoryNoise, ''noise path'')
      else if Base filePath \<in> set noiseBasenames then Some (CategoryNoise, ''noise basename'')
      else (case find (HasSuffix filePath) noiseSuffixes of
          Some s \<Rightarrow> Some (CategoryNoise, ''noise suffix '' @ s) | None \<Rightarrow> None))"

definition classifyByExtension :: "string \<Rightarrow> string \<Rightarrow> (category \<times> string) option" where
  "classifyByExtension filePath magic =
     (if HasSuffix filePath ''.a'' then Some (CategoryStaticArchive, ''.a static archive'')
      else (let ext = ToLower (Ext filePath) in
        if ext \<in> set [''.so'', ''.dylib'', ''.dll''] then Some (CategoryLibrary, ''library by extension'')
        else if ext \<in> set [''.jar'', ''.war'', ''.ear''] then Some (CategoryArchive, ''java archive by extension'')
        else if ext = ''.zip'' then (if IsZIPArchive magic then Some (CategoryArchive, ''generic zip'') else None)
        else if ext \<in> set [''.yaml'', ''.yml'', ''.json'', ''.toml'', ''.ini'', ''.conf'', ''.cfg'', ''.pem'', ''.crt'', ''.cer'', ''.key'']
          then Some (CategoryConfig, ''config/data by extension'')
        else if ext \<in> set [''.md'', ''.txt'', ''.rst'', ''.html'', ''.htm''] then Some (CategoryConfig, ''documentation by extension'')
        else None))"

definition classifyByMagic :: "string \<Rightarrow> (category \<times> string) option" where
  "classifyByMagic magic =
     (if IsELF magic then Some (CategoryExecutable, ''ELF magic'')
      else if IsPE magic then Some (CategoryExecutable, ''PE magic'')
      else if IsMachO magic then Some (CategoryExecutable, ''Mach-O magic'')
      else if IsZIPArchive magic then Some (CategoryArchive, ''ZIP magic'')
      else if IsScriptShebang magic then Some (CategoryScript, ''shebang'')
      else None)"

definition Classify_file :: "string \<Rightarrow> string \<Rightarrow> category \<times> string" where
  "Classify_file filePath magic =
     (case classifyAsNoise filePath of Some r \<Rightarrow> r
      | None \<Rightarrow> (case classifyByExtension filePath magic of Some r \<Rightarrow> r
        | None \<Rightarrow> (case classifyByMagic magic of Some r \<Rightarrow> r
          | None \<Rightarrow> (CategoryUnknown, ''unmatched''))))"

definition componentTypeFor :: "category \<Rightarrow> string" where
  "componentTypeFor c =
     (case c of CategoryExecutable \<Rightarrow> ComponentTypeApplication | CategoryScript \<Rightarrow> ComponentTypeApplication
      | CategoryLibrary \<Rightarrow> ComponentTypeLibrary | _ \<Rightarrow> ComponentTypeFile)"

definition categoryString :: "category \<Rightarrow> string" where
  "categoryString c =
     (case c of CategoryExecutable \<Rightarrow> ''executable'' | CategoryArchive \<Rightarrow> ''archive'' | CategoryLibrary \<Rightarrow> ''library''
      | CategoryScript \<Rightarrow> ''script'' | CategoryConfig \<Rightarrow> ''config'' | CategoryStaticArchive \<Rightarrow> ''static-archive''
      | CategoryNoise \<Rightarrow> ''noise'' | CategoryRedundant \<Rightarrow> ''redundant'' | CategoryUnknown \<Rightarrow> ''unknown'')"

section \<open>Options\<close>

record untracked_options =
  MaxComponents :: int
  UMaxFileBytes :: int
  Include :: IncludeMask
  MatcherIncludeUnknown :: bool
  MatcherIncludeScripts :: bool
  MatcherIncludeArchives :: bool
  MatcherMinFileBytes :: int
  MatcherWorkers :: int
  UPathClassifier :: "path_classifier option"
  DisableClustering :: bool
  UClusterOptions :: ClusterOptions

definition DefaultMaxComponents :: int where "DefaultMaxComponents = 10000"
definition DefaultMaxFileBytes :: int where "DefaultMaxFileBytes = 268435456"
definition defaultMagicWindow :: nat where "defaultMagicWindow = 16"

text \<open>
  \<open>NewWithOptions\<close>; \<open>bundled\<close> are the rules of \<open>LoadDefault\<close>.  The extractors and the matcher are arguments of
  the functions that use them.
\<close>

definition NewWithOptions ::
  "pattern_matcher \<Rightarrow> pattern_matcher \<Rightarrow> (load_error + PathRule list) \<Rightarrow> untracked_options \<Rightarrow> untracked_options"
where
  "NewWithOptions glob regex bundled o0 =
     (let o1 = (if MaxComponents o0 = 0 then o0\<lparr>MaxComponents := DefaultMaxComponents\<rparr> else o0);
          o2 = (if UMaxFileBytes o1 = 0 then o1\<lparr>UMaxFileBytes := DefaultMaxFileBytes\<rparr> else o1);
          o3 = (if MatcherMinFileBytes o2 = 0 then o2\<lparr>MatcherMinFileBytes := 4 * 1024\<rparr> else o2);
          o4 = (if MatcherWorkers o3 = 0 then o3\<lparr>MatcherWorkers := 16\<rparr> else o3)
      in (if UPathClassifier o4 = None then
            (case bundled of Inl _ \<Rightarrow> o4
             | Inr rules \<Rightarrow> (case classifier_New glob regex rules of Inl _ \<Rightarrow> o4 | Inr c \<Rightarrow> o4\<lparr>UPathClassifier := Some c\<rparr>))
          else o4))"

section \<open>The cluster pre-pass\<close>

definition normalisePURL :: "string \<Rightarrow> string" where
  "normalisePURL purl = (case IndexByte purl (CHR ''?'') of Some i \<Rightarrow> take i purl | None \<Rightarrow> purl)"

definition cut_before :: "char \<Rightarrow> string \<Rightarrow> string" where
  "cut_before c s = (case IndexByte s c of Some i \<Rightarrow> take i s | None \<Rightarrow> s)"

definition purlCoordinates :: "string \<Rightarrow> string" where
  "purlCoordinates purl =
     (case CutPrefix purl ''pkg:'' of None \<Rightarrow> []
      | Some body \<Rightarrow> cut_before (CHR ''@'') (cut_before (CHR ''?'') body))"

definition safe_char :: "char \<Rightarrow> bool" where
  "safe_char c \<longleftrightarrow> re_letter c \<or> is_digit c \<or> c = CHR ''-'' \<or> c = CHR ''.''"

definition safeBOMRef :: "string \<Rightarrow> string" where
  "safeBOMRef s = (if s = [] then ''anon'' else map (\<lambda>c. if safe_char c then c else CHR ''-'') s)"

definition componentTypeForCluster :: "string \<Rightarrow> string" where
  "componentTypeForCluster ty = (if ty = ''helm'' then ComponentTypeApplication else ComponentTypeLibrary)"

definition located_at :: "string \<Rightarrow> string \<Rightarrow> Evidence" where
  "located_at method path = \<lparr>Method = method, EvConfidence = 0, Locations = [\<lparr>Path = path, LineNo = 0\<rparr>]\<rparr>"

definition clusterToComponent :: "Cluster \<Rightarrow> component" where
  "clusterToComponent c =
     (let i = CIdentity c in
      Component (empty_component\<lparr>
        BOMRef := ''cluster-'' @ safeBOMRef (IType i @ ''-'' @ IName i @ ''-'' @ IVersion i),
        CType := componentTypeForCluster (IType i), Name := IName i, Version := IVersion i, PURL := IPURL i,
        CEvidence := Some (located_at ''cluster'' (Root c)),
        Properties := [(''astinus:cluster:type'', IType i), (''astinus:cluster:detection-method'', DetectionMethod i),
          (''astinus:cluster:confidence'', fmt_2f (IConfidence i)), (''astinus:cluster:file-count'', Itoa (int (length (Files c)))),
          (''astinus:cluster:total-size-bytes'', Itoa (TotalSize c)), (''astinus:cluster:root'', Root c)]
          @ (if AnchorPath i \<noteq> [] then [(''astinus:cluster:anchor-path'', AnchorPath i)] else [])\<rparr>) [])"

definition known_purls :: "component list \<Rightarrow> string list" where
  "known_purls cs = map (\<lambda>c. normalisePURL (PURL c)) (filter (\<lambda>c. PURL c \<noteq> []) (all_components cs))"

definition known_coords :: "component list \<Rightarrow> string list" where
  "known_coords cs = filter (\<lambda>k. k \<noteq> []) (map (\<lambda>c. purlCoordinates (PURL c)) (filter (\<lambda>c. PURL c \<noteq> []) (all_components cs)))"

fun add_clusters :: "string list \<Rightarrow> string list \<Rightarrow> Cluster list \<Rightarrow> Cluster list" where
  "add_clusters purls coords [] = []"
| "add_clusters purls coords (c # cs) =
     (let key = normalisePURL (IPURL (CIdentity c)); coord = purlCoordinates (IPURL (CIdentity c)) in
        if IName (CIdentity c) = [] then add_clusters purls coords cs
        else if key \<in> set purls then add_clusters purls coords cs
        else if coord \<noteq> [] \<and> coord \<in> set coords then add_clusters purls coords cs
        else c # add_clusters (key # purls) coords cs)"

definition runClusterPrePass :: "bool \<Rightarrow> (cluster_error + Cluster list) \<Rightarrow> SBOM \<Rightarrow> SBOM \<times> Cluster list" where
  "runClusterPrePass disabled detected sbom =
     (if disabled then (sbom, [])
      else (case detected of Inl _ \<Rightarrow> (sbom, [])
        | Inr clusters \<Rightarrow>
            (sbom\<lparr>Components := Components sbom @ map clusterToComponent
               (add_clusters (known_purls (Components sbom)) (known_coords (Components sbom)) clusters)\<rparr>, clusters)))"

section \<open>One file\<close>

record scanStats =
  scanned :: int
  added :: int
  redundant :: int
  noise :: int
  skippedClassifier :: int
  skippedByRule :: int
  skippedByCluster :: int
  byCategory :: "int gomap"
  byRule :: "int gomap"
  byCluster :: "int gomap"

definition newScanStats :: scanStats where
  "newScanStats = \<lparr>scanned = 0, added = 0, redundant = 0, noise = 0, skippedClassifier = 0, skippedByRule = 0,
     skippedByCluster = 0, byCategory = [], byRule = [], byCluster = []\<rparr>"

definition bump :: "string \<Rightarrow> int gomap \<Rightarrow> int gomap" where
  "bump k m = mput k ((case mget m k of Some n \<Rightarrow> n | None \<Rightarrow> 0) + 1) m"

definition withinAnyCluster :: "string \<Rightarrow> Cluster list \<Rightarrow> string option" where
  "withinAnyCluster p clusters = map_option (\<lambda>c. IName (CIdentity c)) (find (\<lambda>c. Within (Some c) p) clusters)"

text \<open>The classifier's verdict on a path: the counters, and \<^const>\<open>None\<close> to drop the file or the bypass reason.\<close>

definition applyPathClassifier ::
  "(string \<Rightarrow> Decision) \<Rightarrow> IncludeMask \<Rightarrow> string \<Rightarrow> scanStats \<Rightarrow> scanStats \<times> string option"
where
  "applyPathClassifier decide inc filePath st =
     (let d = decide filePath in
        if DAction d = ActionSkip \<or> DAction d = ActionRedundantUnderArchive then
          (st\<lparr>skippedByRule := skippedByRule st + 1, byRule := bump (RuleName d) (byRule st)\<rparr>, None)
        else if DAction d = ActionMarkAsNoise then
          (let st1 = st\<lparr>noise := noise st + 1\<rparr> in
             if \<not> allow inc CategoryNoise then (st1, None)
             else (st1\<lparr>byRule := bump (RuleName d) (byRule st1)\<rparr>, Some (''noise:'' @ RuleName d)))
        else if DAction d = ActionMarkAsRedundant then
          (let st1 = st\<lparr>redundant := redundant st + 1\<rparr> in
             if \<not> allow inc CategoryRedundant then (st1, None)
             else (st1\<lparr>byRule := bump (RuleName d) (byRule st1)\<rparr>, Some (''redundant:'' @ RuleName d)))
        else (st, Some []))"

definition preFilter ::
  "(string \<Rightarrow> Decision) option \<Rightarrow> IncludeMask \<Rightarrow> knownIndex \<Rightarrow> string \<Rightarrow> scanStats \<Rightarrow> scanStats \<times> string option"
where
  "preFilter decide inc idx filePath st =
     (let red = isRedundantAgainstIndex filePath idx;
          st1 = (if red then st\<lparr>redundant := redundant st + 1\<rparr> else st) in
        if red \<and> \<not> allow inc CategoryRedundant then (st1, None)
        else (let docs = isDocsOrMetadata filePath;
                  st2 = (if docs then st1\<lparr>noise := noise st1 + 1\<rparr> else st1) in
          if docs \<and> \<not> allow inc CategoryNoise then (st2, None)
          else (let reason = (if red then ''redundant'' else if docs then ''noise'' else []) in
            case decide of
              Some d \<Rightarrow> if reason = [] then applyPathClassifier d inc filePath st2 else (st2, Some reason)
            | None \<Rightarrow> (st2, Some reason))))"

text \<open>
  \<open>readCapped\<close>: the stream delivers the body and then, when it is read to the end, a read error or the end of
  the file.  The text of a read error is tagged, so that it is never that of the limit sentinel, which the
  code recognises by identity.
\<close>

definition read_all :: "string option \<Rightarrow> string \<Rightarrow> string + string" where
  "read_all err body = (case err of Some e \<Rightarrow> Inl (''body: '' @ e) | None \<Rightarrow> Inr body)"

definition readCapped :: "int \<Rightarrow> string option \<Rightarrow> string \<Rightarrow> string + string" where
  "readCapped limit err body =
     (if limit < 0 then read_all err body
      else (let n = nat (int64_wrap (limit + 1));
                r = (if n \<le> length body then Inr (take n body) else read_all err body) in
        case r of Inl e \<Rightarrow> Inl e
        | Inr b \<Rightarrow>
            if int (length b) > limit then Inl (''untracked: file exceeds MaxFileBytes ('' @ Itoa limit @ '')'') else Inr b))"

definition buildBaseComponent :: "FileEntry \<Rightarrow> category \<Rightarrow> string \<Rightarrow> Hash list \<Rightarrow> component_data" where
  "buildBaseComponent fe cat sha hashes =
     empty_component\<lparr>BOMRef := ''untracked-'' @ take 12 sha, CType := componentTypeFor cat, Name := Base (EPath fe),
       Hashes := hashes, CEvidence := Some (located_at ''untracked-scan'' (EPath fe)),
       CLayerInfo := Some \<lparr>LayerInfo.LayerDigest = InfoDigest (ELayer fe), LayerInfo.LayerIndex = int (InfoIndex (ELayer fe)),
         DockerfileLine = [], AddedBy = CreatedBy (ELayer fe)\<rparr>,
       Properties := [(''astinus:untracked:category'', categoryString cat)]\<rparr>"

definition identityToSubComponent :: "sub_identity \<Rightarrow> component" where
  "identityToSubComponent i =
     Component (empty_component\<lparr>CType := ComponentTypeLibrary, Name := SName i, Version := SVersion i, PURL := SPURL i\<rparr>) []"

definition applyExtractorIdentity :: "xidentity \<Rightarrow> component \<Rightarrow> component" where
  "applyExtractorIdentity i cp =
     (case cp of Component c subs \<Rightarrow>
        (let c1 = c\<lparr>Name := (if XName i \<noteq> [] then XName i else Name c),
                   Version := (if XVersion i \<noteq> [] then XVersion i else Version c),
                   PURL := (if XPURL i \<noteq> [] then XPURL i else PURL c),
                   Supplier := (if XVendor i \<noteq> [] then XVendor i else Supplier c),
                   CType := (if XSource i = ''java'' then ComponentTypeLibrary else CType c)\<rparr>;
             ps = foldl (\<lambda>m kv. if snd kv = [] then m else mput (fst kv) (snd kv) m)
               (mput ''astinus:extractor:source'' (XSource i) (Properties c1)) (XProperties i)
         in Component (c1\<lparr>Properties := ps\<rparr>) (subs @ map identityToSubComponent (XSubs i))))"

definition enrichEmbedded :: "extractor_impl list \<Rightarrow> category \<Rightarrow> string \<Rightarrow> string \<Rightarrow> component \<Rightarrow> component" where
  "enrichEmbedded exts cat path body cp =
     (if cat \<in> set [CategoryExecutable, CategoryArchive, CategoryLibrary] then
        (case First exts path body of None \<Rightarrow> cp | Some i \<Rightarrow> applyExtractorIdentity i cp)
      else cp)"

definition shouldMatcherLookup :: "untracked_options \<Rightarrow> category \<Rightarrow> int \<Rightarrow> bool" where
  "shouldMatcherLookup opts cat n =
     (if n < MatcherMinFileBytes opts then False
      else (case cat of CategoryExecutable \<Rightarrow> True | CategoryLibrary \<Rightarrow> True
        | CategoryUnknown \<Rightarrow> MatcherIncludeUnknown opts | CategoryScript \<Rightarrow> MatcherIncludeScripts opts
        | CategoryArchive \<Rightarrow> MatcherIncludeArchives opts | _ \<Rightarrow> False))"

record untracked_env =
  Digest :: "string \<Rightarrow> string \<Rightarrow> string"
  ReadError :: "tar_header \<Rightarrow> string option"
  UExtractors :: "extractor_impl list"
  UGlob :: pattern_matcher
  URegex :: pattern_matcher

record processResult =
  PComp :: component
  PSha :: string
  PCategory :: category
  PSize :: int

text \<open>An error, or \<^const>\<open>None\<close> for a file that is not recorded.\<close>

definition processFile :: "untracked_env \<Rightarrow> untracked_options \<Rightarrow> FileEntry \<Rightarrow> string + processResult option" where
  "processFile env opts fe =
     (case readCapped (UMaxFileBytes opts) (ReadError env (EHeader fe)) (Body (EHeader fe)) of
        Inl e \<Rightarrow> Inl e
      | Inr buf \<Rightarrow>
          (case Classify_file (EPath fe) (take defaultMagicWindow buf) of (cat, note) \<Rightarrow>
             if cat \<in> set [CategoryNoise, CategoryStaticArchive, CategoryConfig, CategoryRedundant] then Inr None
             else (case Hasher_Hash (Digest env) \<lparr>WithSHA1 = False, WithSHA512 = False\<rparr> (Some buf) of
                 None \<Rightarrow> Inr None
               | Some (hashes, _) \<Rightarrow>
                   (let sha = HashValue (hd hashes) in
                      Inr (Some \<lparr>PComp = enrichEmbedded (UExtractors env) cat (EPath fe) buf (Component (buildBaseComponent fe cat sha hashes) []),
                        PSha = sha, PCategory = cat, PSize = int (length buf)\<rparr>)))))"

section \<open>The walk\<close>

record matchTask =
  componentIdx :: nat
  TSha :: string

record scan_state =
  SComps :: "component list"
  SStats :: scanStats
  STasks :: "matchTask list"

definition errLimitHit :: string where "errLimitHit = ''untracked: max components reached''"

definition set_cprop :: "string \<Rightarrow> string \<Rightarrow> component \<Rightarrow> component" where
  "set_cprop k v c = (case c of Component d subs \<Rightarrow> Component (setProp k v d) subs)"

definition record_result :: "untracked_options \<Rightarrow> string \<Rightarrow> processResult \<Rightarrow> scan_state \<Rightarrow> scan_state" where
  "record_result opts reason r s =
     (let cp = (if reason \<noteq> [] then set_cprop ''astinus:untracked:filter-bypass'' reason (PComp r) else PComp r);
          cat = mval (Properties (cdata cp)) ''astinus:untracked:category'';
          st = (SStats s)\<lparr>added := added (SStats s) + 1\<rparr>
      in s\<lparr>SComps := SComps s @ [cp],
           SStats := (if cat \<noteq> [] then st\<lparr>byCategory := bump cat (byCategory st)\<rparr> else st),
           STasks := (if shouldMatcherLookup opts (PCategory r) (PSize r)
             then STasks s @ [\<lparr>componentIdx = length (SComps s), TSha = PSha r\<rparr>] else STasks s)\<rparr>)"

definition untracked_visit :: "untracked_env \<Rightarrow> untracked_options \<Rightarrow> knownIndex \<Rightarrow> Cluster list \<Rightarrow> scan_state visitor" where
  "untracked_visit env opts idx clusters s fe =
     (if MaxComponents opts > 0 \<and> added (SStats s) \<ge> MaxComponents opts then (s, VisitError errLimitHit)
      else (let st = (SStats s)\<lparr>scanned := scanned (SStats s) + 1\<rparr> in
        case withinAnyCluster (EPath fe) clusters of
          Some n \<Rightarrow>
            (s\<lparr>SStats := st\<lparr>skippedByCluster := skippedByCluster st + 1, byCluster := bump n (byCluster st)\<rparr>\<rparr>, VisitOk)
        | None \<Rightarrow>
          (case preFilter (map_option (classify_path (UGlob env) (URegex env)) (UPathClassifier opts)) (Include opts) idx (EPath fe) st of
             (st', None) \<Rightarrow> (s\<lparr>SStats := st'\<rparr>, VisitOk)
           | (st', Some reason) \<Rightarrow>
             (case processFile env opts fe of
                Inl e \<Rightarrow> (s\<lparr>SStats := st'\<rparr>, VisitError e)
              | Inr None \<Rightarrow> (s\<lparr>SStats := st'\<lparr>skippedClassifier := skippedClassifier st' + 1\<rparr>\<rparr>, VisitOk)
              | Inr (Some r) \<Rightarrow> (record_result opts reason r (s\<lparr>SStats := st'\<rparr>), VisitOk)))))"

section \<open>The matcher workers\<close>

definition applyMatch :: "Match \<Rightarrow> component_data \<Rightarrow> component_data" where
  "applyMatch m c =
     c\<lparr>Name := (if MName m \<noteq> [] then MName m else Name c),
       Version := (if MVersion m \<noteq> [] then MVersion m else Version c),
       PURL := (if MPURL m \<noteq> [] then MPURL m else PURL c),
       CPEs := CPEs c @ MCPEs m, Licenses := Licenses c @ MLicenses m,
       Properties := (if MSource m \<noteq> [] then mput ''astinus:untracked:matcher'' (MSource m) (Properties c) else Properties c)\<rparr>"

definition matched :: "Match \<Rightarrow> component \<Rightarrow> component" where
  "matched m c =
     (case c of Component d subs \<Rightarrow>
        Component ((applyMatch m d)\<lparr>CEvidence := map_option (\<lambda>ev. ev\<lparr>Method := ''fingerprint''\<rparr>) (CEvidence d)\<rparr>) subs)"

text \<open>
  One worker finishing a task: the locked section, on the components and the hits.  \<open>answer\<close> is what
  \<open>Lookup\<close> returns for a task; an error, a time-out and \<open>ErrNoMatch\<close> leave the component alone.
\<close>

definition finish_task :: "(matchTask \<Rightarrow> lookup) \<Rightarrow> component list \<times> int \<Rightarrow> matchTask \<Rightarrow> component list \<times> int" where
  "finish_task answer st t =
     (case answer t of
        Found m \<Rightarrow> ((fst st)[componentIdx t := matched m (fst st ! componentIdx t)], snd st + 1)
      | _ \<Rightarrow> st)"

definition run_tasks :: "(matchTask \<Rightarrow> lookup) \<Rightarrow> matchTask list \<Rightarrow> component list \<Rightarrow> component list \<times> int" where
  "run_tasks answer tasks comps = foldl (finish_task answer) (comps, 0) tasks"

record pool =
  Pending :: "matchTask list"
  InFlight :: "matchTask list"
  Shared :: "component list \<times> int"

definition pool_workers :: "untracked_options \<Rightarrow> matchTask list \<Rightarrow> int" where
  "pool_workers opts tasks = (if MatcherWorkers opts > int (length tasks) then int (length tasks) else MatcherWorkers opts)"

inductive pool_step :: "(matchTask \<Rightarrow> lookup) \<Rightarrow> int \<Rightarrow> pool \<Rightarrow> pool \<Rightarrow> bool" for answer workers where
  receive: "Pending p = t # ts \<Longrightarrow> int (length (InFlight p)) < workers \<Longrightarrow>
     pool_step answer workers p (p\<lparr>Pending := ts, InFlight := InFlight p @ [t]\<rparr>)"
| finish: "InFlight p = xs @ t # ys \<Longrightarrow>
     pool_step answer workers p (p\<lparr>InFlight := xs @ ys, Shared := finish_task answer (Shared p) t\<rparr>)"

definition start_pool :: "matchTask list \<Rightarrow> component list \<Rightarrow> pool" where
  "start_pool tasks comps = \<lparr>Pending = tasks, InFlight = [], Shared = (comps, 0)\<rparr>"

definition pool_done :: "pool \<Rightarrow> bool" where
  "pool_done p \<longleftrightarrow> Pending p = [] \<and> InFlight p = []"

section \<open>Enrich\<close>

datatype untracked_error = UntrackedMissingInput | UntrackedWalk layer_error

record untracked_run =
  RError :: "untracked_error option"
  RSbom :: SBOM
  RStats :: scanStats
  RHits :: int

definition is_limit :: "layer_error \<Rightarrow> bool" where
  "is_limit err \<longleftrightarrow> (case err of VisitorError _ _ e \<Rightarrow> e = errLimitHit | _ \<Rightarrow> False)"

text \<open>
  \<open>detected\<close> is what \<open>DetectClusters\<close> returns for the image.  The pool is run in the order of its queue;
  the order does not matter.
\<close>

definition Enrich_untracked ::
  "untracked_env \<Rightarrow> (nat \<Rightarrow> string option) \<Rightarrow> (nat \<Rightarrow> nat \<Rightarrow> string option) \<Rightarrow> (cluster_error + Cluster list) \<Rightarrow>
   (matchTask \<Rightarrow> lookup) \<Rightarrow> untracked_options \<Rightarrow> v1_image option \<Rightarrow> SBOM \<Rightarrow> untracked_run"
where
  "Enrich_untracked env ctx ectx detected answer opts img sbom =
     (if img = None then \<lparr>RError = Some UntrackedMissingInput, RSbom = sbom, RStats = newScanStats, RHits = 0\<rparr>
      else (case runClusterPrePass (DisableClustering opts) detected sbom of (sbom1, clusters) \<Rightarrow>
        (case WalkFiles ctx ectx img (Some (untracked_visit env opts (buildKnownIndex sbom1) clusters))
            \<lparr>SComps = Components sbom1, SStats = newScanStats, STasks = []\<rparr> of
          (err, s) \<Rightarrow>
            (case err of
              Some e \<Rightarrow>
                if \<not> is_limit e then
                  \<lparr>RError = Some (UntrackedWalk e), RSbom = sbom1\<lparr>Components := SComps s\<rparr>, RStats = SStats s, RHits = 0\<rparr>
                else (case run_tasks answer (STasks s) (SComps s) of (comps, hits) \<Rightarrow>
                  \<lparr>RError = None, RSbom = sbom1\<lparr>Components := comps\<rparr>, RStats = SStats s, RHits = hits\<rparr>)
            | None \<Rightarrow> (case run_tasks answer (STasks s) (SComps s) of (comps, hits) \<Rightarrow>
                  \<lparr>RError = None, RSbom = sbom1\<lparr>Components := comps\<rparr>, RStats = SStats s, RHits = hits\<rparr>)))))"

section \<open>The pool\<close>

lemma matched_simps [simp]:
  "CEvidence (cdata (matched m c)) = map_option (\<lambda>ev. ev\<lparr>Method := ''fingerprint''\<rparr>) (CEvidence (cdata c))"
  "SubComponents (matched m c) = SubComponents c"
  by (simp_all add: matched_def split: component.split)

lemma length_finish_task [simp]: "length (fst (finish_task answer st t)) = length (fst st)"
  by (simp add: finish_task_def split: lookup.split)

lemma finish_task_commute:
  assumes "componentIdx t \<noteq> componentIdx u"
  shows "finish_task answer (finish_task answer st t) u = finish_task answer (finish_task answer st u) t"
  using assms by (simp add: finish_task_def list_update_swap split: lookup.split)

lemma finish_task_first:
  assumes "componentIdx t \<notin> componentIdx ` set us"
  shows "foldl (finish_task answer) (finish_task answer st t) us = finish_task answer (foldl (finish_task answer) st us) t"
  using assms
proof (induction us arbitrary: st)
  case (Cons u us)
  then show ?case by (simp add: finish_task_commute [of t u])
qed simp

definition pool_inv :: "(matchTask \<Rightarrow> lookup) \<Rightarrow> component list \<times> int \<Rightarrow> pool \<Rightarrow> bool" where
  "pool_inv answer r p \<longleftrightarrow>
     distinct (map componentIdx (InFlight p @ Pending p)) \<and> foldl (finish_task answer) (Shared p) (InFlight p @ Pending p) = r"

lemma pool_inv_step:
  assumes "pool_step answer workers p q" "pool_inv answer r p"
  shows "pool_inv answer r q"
  using assms
proof cases
  case (finish xs t ys)
  then have d: "componentIdx t \<notin> componentIdx ` set xs" "distinct (map componentIdx (xs @ ys @ Pending p))"
    using assms(2) by (auto simp: pool_inv_def)
  have "foldl (finish_task answer) (finish_task answer (Shared p) t) (xs @ ys @ Pending p) = r"
    using assms(2) finish(2) finish_task_first [OF d(1), of answer "Shared p"] by (simp add: pool_inv_def)
  with d(2) finish(1) show ?thesis by (simp add: pool_inv_def)
qed (auto simp: pool_inv_def)

lemma pool_inv_reach: "(pool_step answer workers)\<^sup>*\<^sup>* p q \<Longrightarrow> pool_inv answer r p \<Longrightarrow> pool_inv answer r q"
  by (induction rule: rtranclp_induct) (auto intro: pool_inv_step)

lemma pool_result:
  assumes "distinct (map componentIdx tasks)" "(pool_step answer workers)\<^sup>*\<^sup>* (start_pool tasks comps) p" "pool_done p"
  shows "Shared p = run_tasks answer tasks comps"
  using pool_inv_reach [OF assms(2), of "run_tasks answer tasks comps"] assms(1,3)
  by (simp add: pool_inv_def start_pool_def run_tasks_def pool_done_def)

definition pool_work :: "pool \<Rightarrow> nat" where
  "pool_work p = 2 * length (Pending p) + length (InFlight p)"

lemma pool_step_work: "pool_step answer workers p q \<Longrightarrow> pool_work q < pool_work p"
  by (induction rule: pool_step.induct) (simp_all add: pool_work_def)

lemma pool_step_in_flight:
  "pool_step answer workers p q \<Longrightarrow> int (length (InFlight p)) \<le> workers \<Longrightarrow> int (length (InFlight q)) \<le> workers"
  by (induction rule: pool_step.induct) simp_all

lemma pool_enabled:
  assumes "0 < workers" "\<not> pool_done p"
  shows "\<exists>q. pool_step answer workers p q"
proof (cases "InFlight p")
  case Nil
  with assms obtain t ts where "Pending p = t # ts" by (cases "Pending p") (auto simp: pool_done_def)
  with Nil assms(1) show ?thesis using pool_step.receive [of p t ts workers] by auto
next
  case (Cons t ys)
  then show ?thesis using pool_step.finish [of p "[]" t ys] by auto
qed

lemma pool_completes: "0 < workers \<Longrightarrow> \<exists>q. (pool_step answer workers)\<^sup>*\<^sup>* p q \<and> pool_done q"
proof (induction "pool_work p" arbitrary: p rule: less_induct)
  case less
  show ?case
  proof (cases "pool_done p")
    case False
    then obtain q where q: "pool_step answer workers p q" using pool_enabled less.prems by blast
    then show ?thesis using less.hyps [OF pool_step_work [OF q] less.prems] by (meson converse_rtranclp_into_rtranclp)
  qed blast
qed

lemma pool_relpow_work: "(pool_step answer workers ^^ n) p q \<Longrightarrow> pool_work q + n \<le> pool_work p"
proof (induction n arbitrary: q)
  case (Suc n)
  then obtain r where "(pool_step answer workers ^^ n) p r" "pool_step answer workers r q" by auto
  with Suc.IH [of r] pool_step_work [of answer workers r q] show ?case by simp
qed simp

section \<open>The walk\<close>

text \<open>A rule for the second pass: \<open>I\<close> while the visitor succeeds, \<open>Q err\<close> when it returns \<open>err\<close>.\<close>

definition walk_post :: "('s \<Rightarrow> bool) \<Rightarrow> (string \<Rightarrow> 's \<Rightarrow> bool) \<Rightarrow> layer_error option \<times> 's \<Rightarrow> bool" where
  "walk_post I Q r = (case fst r of Some (VisitorError _ _ err) \<Rightarrow> Q err (snd r) | _ \<Rightarrow> I (snd r))"

definition visit_post :: "('s \<Rightarrow> bool) \<Rightarrow> (string \<Rightarrow> 's \<Rightarrow> bool) \<Rightarrow> 's \<times> visit \<Rightarrow> bool" where
  "visit_post I Q r = (case snd r of VisitError err \<Rightarrow> Q err (fst r) | _ \<Rightarrow> I (fst r))"

lemma stream_entries_post:
  assumes v: "\<And>s e. normal (EPath e) \<Longrightarrow> I s \<Longrightarrow> visit_post I Q (v s e)"
  shows "I s \<Longrightarrow> walk_post I Q (stream_entries ctx idx fm v tarErr n hdrs s)"
proof (induction hdrs arbitrary: n s)
  case (Cons hdr hdrs)
  let ?e = "\<lambda>w. \<lparr>EPath = normalizePath (HName hdr), ELayer = w, EHeader = hdr\<rparr>"
  have r: "v s (?e w) = (s', VisitOk) \<Longrightarrow> I s'" "v s (?e w) = (s', SkipFile) \<Longrightarrow> I s'"
    "v s (?e w) = (s', VisitError x) \<Longrightarrow> Q x s'" if "normalizePath (HName hdr) \<noteq> []" for w s' x
    using v [of "?e w", OF _ Cons.prems] that normalizePath_normal [of "HName hdr"] by (auto simp: visit_post_def)
  have err: "walk_post I Q (Some (ContextError e), s)" "Q e s' \<Longrightarrow> walk_post I Q (Some (VisitorError idx p e), s')" for e s' p
    using Cons.prems by (simp_all add: walk_post_def)
  note ih = Cons.IH [OF Cons.prems] Cons.IH
  show ?case
    using r ih err by (auto simp: Let_def split: option.split prod.split visit.split)
qed (auto simp: walk_post_def split: option.split)

lemma stream_layers_post:
  assumes v: "\<And>s e. normal (EPath e) \<Longrightarrow> I s \<Longrightarrow> visit_post I Q (v s e)"
  shows "I s \<Longrightarrow> walk_post I Q (stream_layers ctx ectx fm v i lyrs s)"
proof (induction lyrs arbitrary: i s)
  case (Cons lyr lyrs)
  have *: "walk_post I Q (streamLayer (ectx i) i lyr fm v s)"
  proof (cases "UncompressedError lyr")
    case None
    then show ?thesis using stream_entries_post [of I Q v, OF v Cons.prems] by (simp add: streamLayer_def)
  qed (simp add: streamLayer_def walk_post_def Cons.prems)
  show ?case
  proof (cases "ctx i")
    case n: None
    show ?thesis
    proof (cases "fst (streamLayer (ectx i) i lyr fm v s)")
      case None
      then have "I (snd (streamLayer (ectx i) i lyr fm v s))" using * by (simp add: walk_post_def)
      from Cons.IH [OF this] show ?thesis using None n by (simp add: Let_def)
    qed (use * n in \<open>simp add: Let_def\<close>)
  qed (simp add: walk_post_def Cons.prems)
qed (simp add: walk_post_def)

lemma Walk_not_visitor: "Walk ctx img \<noteq> Inl (VisitorError i p e)"
proof -
  have "buildInfos im ls \<noteq> Inl (VisitorError i p e)" for im ls
    by (auto simp: buildInfos_def Let_def split: sum.split option.split)
  moreover have "walk_layers ctx' k ls m \<noteq> Inl (VisitorError i p e)" for ctx' k ls m
    by (induction ls arbitrary: k m) (auto simp: walkLayer_def split: option.splits sum.splits)
  ultimately show ?thesis
    by (auto simp: Walk_def split: option.splits sum.splits)
qed

lemma WalkFiles_post:
  assumes "\<And>s e. normal (EPath e) \<Longrightarrow> I s \<Longrightarrow> visit_post I Q (v s e)" and "I s"
  shows "walk_post I Q (WalkFiles ctx ectx img (Some v) s)"
proof -
  have err: "walk_post I Q (Some e, s)" if "\<forall>i p t. e \<noteq> VisitorError i p t" for e
    using assms(2) that by (auto simp: walk_post_def split: layer_error.split)
  have "walk_post I Q (stream_layers ctx ectx fm v 0 ls s)" for fm ls
    using stream_layers_post [of I Q v, OF assms(1) assms(2)] .
  then show ?thesis
    using err Walk_not_visitor [of ctx img] by (auto simp: WalkFiles_def split: option.split sum.split)
qed

section \<open>What the visitor records\<close>

lemma enrichEmbedded_evidence: "CEvidence (cdata (enrichEmbedded exts cat p body cp)) = CEvidence (cdata cp)"
  by (cases cp) (simp add: enrichEmbedded_def applyExtractorIdentity_def Let_def split: option.split)

lemma set_cprop_evidence [simp]: "CEvidence (cdata (set_cprop k v cp)) = CEvidence (cdata cp)"
  by (cases cp) (simp add: set_cprop_def setProp_def)

lemma processFile_evidence:
  "processFile env opts fe = Inr (Some r) \<Longrightarrow> CEvidence (cdata (PComp r)) = Some (located_at ''untracked-scan'' (EPath fe))"
  by (auto simp: processFile_def Let_def enrichEmbedded_evidence buildBaseComponent_def split: sum.splits prod.splits if_splits option.splits)

lemmas path_actions = ActionSkip_def ActionRedundantUnderArchive_def ActionMarkAsNoise_def ActionMarkAsRedundant_def

text \<open>The files the filters let through.\<close>

definition classifier_keeps :: "untracked_env \<Rightarrow> untracked_options \<Rightarrow> string \<Rightarrow> bool" where
  "classifier_keeps env opts p =
     (case UPathClassifier opts of None \<Rightarrow> True
      | Some c \<Rightarrow>
          (let a = DAction (classify_path (UGlob env) (URegex env) c p) in
             a \<noteq> ActionSkip \<and> a \<noteq> ActionRedundantUnderArchive \<and>
             (a = ActionMarkAsNoise \<longrightarrow> IncludeNoise (Include opts)) \<and> (a = ActionMarkAsRedundant \<longrightarrow> IncludeRedundant (Include opts))))"

definition kept_path :: "untracked_env \<Rightarrow> untracked_options \<Rightarrow> knownIndex \<Rightarrow> Cluster list \<Rightarrow> string \<Rightarrow> bool" where
  "kept_path env opts idx clusters p \<longleftrightarrow>
     withinAnyCluster p clusters = None \<and>
     (isRedundantAgainstIndex p idx \<longrightarrow> IncludeRedundant (Include opts)) \<and>
     (isDocsOrMetadata p \<longrightarrow> IncludeNoise (Include opts)) \<and>
     (isRedundantAgainstIndex p idx \<or> isDocsOrMetadata p \<or> classifier_keeps env opts p)"

definition evidence_paths :: "component \<Rightarrow> string list" where
  "evidence_paths c = (case CEvidence (cdata c) of None \<Rightarrow> [] | Some ev \<Rightarrow> map Path (Locations ev))"

lemma evidence_paths_located [simp]: "CEvidence (cdata c) = Some (located_at m p) \<Longrightarrow> evidence_paths c = [p]"
  by (simp add: evidence_paths_def located_at_def)

lemma evidence_paths_matched [simp]: "evidence_paths (matched m c) = evidence_paths c"
  by (simp add: evidence_paths_def split: option.split)

lemma preFilter_keeps:
  assumes "preFilter (map_option (classify_path (UGlob env) (URegex env)) (UPathClassifier opts)) (Include opts) idx p st = (st', Some reason)"
    and "withinAnyCluster p clusters = None"
  shows "kept_path env opts idx clusters p"
  using assms
  by (auto simp: preFilter_def applyPathClassifier_def kept_path_def classifier_keeps_def allow_def Let_def path_actions
      split: if_splits option.splits)

lemma preFilter_added:
  "preFilter decide inc idx p st = (st', r) \<Longrightarrow> added st' = added st \<and> scanned st' = scanned st \<and>
     skippedClassifier st' = skippedClassifier st \<and> skippedByCluster st' = skippedByCluster st"
  by (auto simp: preFilter_def applyPathClassifier_def Let_def split: if_splits option.splits)

definition balance :: "scanStats \<Rightarrow> int" where
  "balance st = scanned st - (added st + redundant st + noise st + skippedClassifier st + skippedByRule st + skippedByCluster st)"

definition no_bypass :: "untracked_options \<Rightarrow> bool" where
  "no_bypass opts \<longleftrightarrow> \<not> IncludeRedundant (Include opts) \<and> \<not> IncludeNoise (Include opts)"

lemma preFilter_balance:
  assumes "preFilter decide inc idx p st = (st', r)" "\<not> IncludeRedundant inc" "\<not> IncludeNoise inc"
  shows "balance st' = balance st - (if r = None then 1 else 0)"
  using assms
  by (auto simp: preFilter_def applyPathClassifier_def allow_def balance_def Let_def split: if_splits option.splits)

text \<open>The visitor's invariant over the components \<open>base\<close> present before the walk.\<close>

definition scan_inv :: "untracked_env \<Rightarrow> untracked_options \<Rightarrow> knownIndex \<Rightarrow> Cluster list \<Rightarrow> component list \<Rightarrow> scan_state \<Rightarrow> bool" where
  "scan_inv env opts idx clusters base s \<longleftrightarrow>
     (\<exists>new. SComps s = base @ new \<and> added (SStats s) = int (length new) \<and>
        list_all (\<lambda>c. \<exists>p. evidence_paths c = [p] \<and> kept_path env opts idx clusters p) new) \<and>
     (MaxComponents opts > 0 \<longrightarrow> added (SStats s) \<le> MaxComponents opts) \<and>
     distinct (map componentIdx (STasks s)) \<and>
     list_all (\<lambda>t. length base \<le> componentIdx t \<and> componentIdx t < length (SComps s)) (STasks s)"

lemma scan_inv_frame:
  "SComps s' = SComps s \<Longrightarrow> STasks s' = STasks s \<Longrightarrow> added (SStats s') = added (SStats s) \<Longrightarrow>
     scan_inv env opts idx clusters base s \<Longrightarrow> scan_inv env opts idx clusters base s'"
  by (simp add: scan_inv_def)

lemma record_result_fields:
  "SComps (record_result opts reason r s) = SComps s @ [if reason \<noteq> [] then set_cprop ''astinus:untracked:filter-bypass'' reason (PComp r) else PComp r]"
  "STasks (record_result opts reason r s) = STasks s @
     (if shouldMatcherLookup opts (PCategory r) (PSize r) then [\<lparr>componentIdx = length (SComps s), TSha = PSha r\<rparr>] else [])"
  "added (SStats (record_result opts reason r s)) = added (SStats s) + 1"
  "balance (SStats (record_result opts reason r s)) = balance (SStats s) - 1"
  by (simp_all add: record_result_def Let_def balance_def)

lemma scan_inv_record:
  assumes inv: "scan_inv env opts idx clusters base s" and res: "processFile env opts fe = Inr (Some r)"
    and kept: "kept_path env opts idx clusters (EPath fe)"
    and room: "MaxComponents opts > 0 \<longrightarrow> added (SStats s) < MaxComponents opts"
  shows "scan_inv env opts idx clusters base (record_result opts reason r s)"
proof -
  let ?c = "if reason \<noteq> [] then set_cprop ''astinus:untracked:filter-bypass'' reason (PComp r) else PComp r"
  have "evidence_paths ?c = [EPath fe]" using processFile_evidence [OF res] by simp
  with inv kept obtain new where "SComps s = base @ new" "added (SStats s) = int (length new)"
    "list_all (\<lambda>c. \<exists>p. evidence_paths c = [p] \<and> kept_path env opts idx clusters p) (new @ [?c])"
    by (auto simp: scan_inv_def)
  then have "\<exists>new. SComps (record_result opts reason r s) = base @ new \<and> added (SStats (record_result opts reason r s)) = int (length new) \<and>
      list_all (\<lambda>c. \<exists>p. evidence_paths c = [p] \<and> kept_path env opts idx clusters p) new"
    by (intro exI [of _ "new @ [?c]"]) (simp add: record_result_fields)
  moreover have "distinct (map componentIdx (STasks (record_result opts reason r s)))"
    using inv by (auto simp: scan_inv_def record_result_fields list_all_iff)
  moreover have "list_all (\<lambda>t. length base \<le> componentIdx t \<and> componentIdx t < length (SComps (record_result opts reason r s)))
      (STasks (record_result opts reason r s))"
    using inv by (auto simp: scan_inv_def record_result_fields list_all_iff)
  moreover have "MaxComponents opts > 0 \<longrightarrow> added (SStats (record_result opts reason r s)) \<le> MaxComponents opts"
    using room by (auto simp: record_result_fields)
  ultimately show ?thesis unfolding scan_inv_def by blast
qed

lemma visit_inv:
  assumes inv: "scan_inv env opts idx clusters base s"
  shows "scan_inv env opts idx clusters base (fst (untracked_visit env opts idx clusters s fe))"
proof (cases "MaxComponents opts > 0 \<and> added (SStats s) \<ge> MaxComponents opts")
  case False
  then have lim: "(0 < MaxComponents opts \<and> MaxComponents opts \<le> added (SStats s)) = False" by blast
  define st where "st = (SStats s)\<lparr>scanned := scanned (SStats s) + 1\<rparr>"
  have frame: "scan_inv env opts idx clusters base (s\<lparr>SStats := st1\<rparr>)" if "added st1 = added (SStats s)" for st1
    using that by (intro scan_inv_frame [OF _ _ _ inv]) simp_all
  show ?thesis
  proof (cases "withinAnyCluster (EPath fe) clusters")
    case out: None
    obtain st1 res where pre: "preFilter (map_option (classify_path (UGlob env) (URegex env)) (UPathClassifier opts)) (Include opts) idx (EPath fe) st = (st1, res)"
      by fastforce
    then have st1: "added st1 = added (SStats s)" using preFilter_added [OF pre] by (simp add: st_def)
    show ?thesis
    proof (cases res)
      case None
      then show ?thesis using out pre frame [OF st1] by (simp add: untracked_visit_def lim st_def Let_def)
    next
      case (Some reason)
      note kept = preFilter_keeps [OF pre [unfolded Some] out]
      have "scan_inv env opts idx clusters base (record_result opts reason r (s\<lparr>SStats := st1\<rparr>))"
        if "processFile env opts fe = Inr (Some r)" for r
        using scan_inv_record [OF frame [OF st1] that kept] False st1 by auto
      then show ?thesis
        using out pre Some frame st1
        by (auto simp: untracked_visit_def lim st_def Let_def split: sum.split option.split)
    qed
  qed (use frame in \<open>simp add: untracked_visit_def lim st_def Let_def\<close>)
qed (simp add: untracked_visit_def inv)

section \<open>The counters\<close>

lemma processFile_not_limit: "processFile env opts fe = Inl e \<Longrightarrow> e \<noteq> errLimitHit"
  by (auto simp: processFile_def readCapped_def read_all_def errLimitHit_def Let_def
      split: sum.splits prod.splits if_splits option.splits)

definition off_by_one :: "string \<Rightarrow> scan_state \<Rightarrow> bool" where
  "off_by_one err s \<longleftrightarrow> balance (SStats s) = (if err = errLimitHit then 0 else 1)"

lemma visit_balance:
  assumes m: "no_bypass opts" and b: "balance (SStats s) = 0"
  shows "visit_post (\<lambda>s. balance (SStats s) = 0) off_by_one (untracked_visit env opts idx clusters s fe)"
proof (cases "MaxComponents opts > 0 \<and> added (SStats s) \<ge> MaxComponents opts")
  case True
  then show ?thesis using b by (simp add: untracked_visit_def visit_post_def off_by_one_def)
next
  case False
  then have lim: "(0 < MaxComponents opts \<and> MaxComponents opts \<le> added (SStats s)) = False" by blast
  define st where "st = (SStats s)\<lparr>scanned := scanned (SStats s) + 1\<rparr>"
  have st: "balance st = 1" using b by (simp add: st_def balance_def)
  show ?thesis
  proof (cases "withinAnyCluster (EPath fe) clusters")
    case out: None
    obtain st1 res where pre: "preFilter (map_option (classify_path (UGlob env) (URegex env)) (UPathClassifier opts)) (Include opts) idx (EPath fe) st = (st1, res)"
      by fastforce
    have bal: "balance st1 = 1 - (if res = None then 1 else 0)"
      using preFilter_balance [OF pre] m st by (simp add: no_bypass_def)
    show ?thesis
    proof (cases res)
      case None
      then show ?thesis using out pre bal by (simp add: untracked_visit_def lim st_def Let_def visit_post_def)
    next
      case (Some reason)
      have skip: "balance (st1\<lparr>skippedClassifier := skippedClassifier st1 + 1\<rparr>) = 0" using bal Some by (simp add: balance_def)
      show ?thesis
        using out pre Some bal skip processFile_not_limit [of env opts fe]
        by (auto simp: untracked_visit_def lim st_def Let_def visit_post_def off_by_one_def record_result_fields split: sum.split option.split)
    qed
  next
    case (Some n)
    have "balance (st\<lparr>skippedByCluster := skippedByCluster st + 1, byCluster := bump n (byCluster st)\<rparr>) = 0"
      using st by (simp add: balance_def)
    with Some show ?thesis by (simp add: untracked_visit_def lim st_def Let_def visit_post_def)
  qed
qed

section \<open>The run\<close>

lemma is_limit_iff: "is_limit e \<longleftrightarrow> (\<exists>i p. e = VisitorError i p errLimitHit)"
  by (simp add: is_limit_def split: layer_error.split)

lemma run_tasks_frame:
  assumes "list_all (\<lambda>t. n \<le> componentIdx t) tasks"
  shows "take n (fst (run_tasks answer tasks comps)) = take n comps"
    and "map evidence_paths (fst (run_tasks answer tasks comps)) = map evidence_paths comps"
proof -
  have "take n (fst (foldl (finish_task answer) st tasks)) = take n (fst st) \<and>
        map evidence_paths (fst (foldl (finish_task answer) st tasks)) = map evidence_paths (fst st)" for st
    using assms
  proof (induction tasks arbitrary: st)
    case (Cons t ts)
    have "map evidence_paths ((fst st)[componentIdx t := matched m (fst st ! componentIdx t)]) = map evidence_paths (fst st)" for m
      by (cases "componentIdx t < length (fst st)") (auto intro!: nth_equalityI simp: nth_list_update list_update_beyond)
    then have "map evidence_paths (fst (finish_task answer st t)) = map evidence_paths (fst st)"
      "take n (fst (finish_task answer st t)) = take n (fst st)"
      using Cons.prems by (simp_all add: finish_task_def split: lookup.split)
    with Cons show ?case by simp
  qed simp
  from this [of "(comps, 0)"] show "take n (fst (run_tasks answer tasks comps)) = take n comps"
    "map evidence_paths (fst (run_tasks answer tasks comps)) = map evidence_paths comps"
    by (simp_all add: run_tasks_def)
qed

abbreviation untracked_walk ::
  "untracked_env \<Rightarrow> (nat \<Rightarrow> string option) \<Rightarrow> (nat \<Rightarrow> nat \<Rightarrow> string option) \<Rightarrow> untracked_options \<Rightarrow> v1_image option \<Rightarrow>
   Cluster list \<Rightarrow> SBOM \<Rightarrow> layer_error option \<times> scan_state"
where
  "untracked_walk env ctx ectx opts img clusters sbom \<equiv>
     WalkFiles ctx ectx img (Some (untracked_visit env opts (buildKnownIndex sbom) clusters))
       \<lparr>SComps = Components sbom, SStats = newScanStats, STasks = []\<rparr>"

lemma start_inv: "scan_inv env opts idx clusters base \<lparr>SComps = base, SStats = newScanStats, STasks = []\<rparr>"
  by (simp add: scan_inv_def newScanStats_def)

lemma walk_inv:
  "scan_inv env opts (buildKnownIndex sbom) clusters (Components sbom) (snd (untracked_walk env ctx ectx opts img clusters sbom))"
  by (rule WalkFiles_invariant [OF visit_inv start_inv])

lemma Enrich_untracked_cases:
  fixes env ctx ectx detected answer opts img sbom
  defines "r \<equiv> Enrich_untracked env ctx ectx detected answer opts img sbom"
  assumes "runClusterPrePass (DisableClustering opts) detected sbom = (sbom1, clusters)"
    and "untracked_walk env ctx ectx opts img clusters sbom1 = (err, s)"
  obtains (no_image) "img = None" "r = \<lparr>RError = Some UntrackedMissingInput, RSbom = sbom, RStats = newScanStats, RHits = 0\<rparr>"
    | (failed) e where "img \<noteq> None" "err = Some e" "\<not> is_limit e"
        "r = \<lparr>RError = Some (UntrackedWalk e), RSbom = sbom1\<lparr>Components := SComps s\<rparr>, RStats = SStats s, RHits = 0\<rparr>"
    | (completed) "img \<noteq> None" "err = None \<or> (\<exists>e. err = Some e \<and> is_limit e)"
        "r = \<lparr>RError = None, RSbom = sbom1\<lparr>Components := fst (run_tasks answer (STasks s) (SComps s))\<rparr>, RStats = SStats s,
           RHits = snd (run_tasks answer (STasks s) (SComps s))\<rparr>"
proof (cases "img = None")
  case True
  then show ?thesis using no_image by (simp add: r_def Enrich_untracked_def)
next
  case False
  show ?thesis
  proof (cases "\<exists>e. err = Some e \<and> \<not> is_limit e")
    case True
    then show ?thesis using failed False assms(2,3) by (auto simp: r_def Enrich_untracked_def)
  next
    case ok: False
    then show ?thesis
      using completed False assms(2,3) by (cases err) (auto simp: r_def Enrich_untracked_def split_beta)
  qed
qed

section \<open>Cluster components\<close>

lemma prepass_Components:
  "runClusterPrePass disabled detected sbom = (sbom1, clusters) \<Longrightarrow>
     \<exists>cl. sbom1 = sbom\<lparr>Components := Components sbom @ cl\<rparr>"
  by (cases sbom) (auto simp: runClusterPrePass_def split: if_splits sum.splits)

abbreviation cluster_key :: "Cluster \<Rightarrow> string" where "cluster_key c \<equiv> normalisePURL (IPURL (CIdentity c))"

lemma add_clusters_spec:
  "distinct (map cluster_key (add_clusters purls coords cs)) \<and>
   (\<forall>c \<in> set (add_clusters purls coords cs). c \<in> set cs \<and> IName (CIdentity c) \<noteq> [] \<and> cluster_key c \<notin> set purls \<and>
      (purlCoordinates (IPURL (CIdentity c)) = [] \<or> purlCoordinates (IPURL (CIdentity c)) \<notin> set coords))"
proof (induction cs arbitrary: purls)
  case (Cons c cs)
  then show ?case using Cons [of purls] Cons [of "cluster_key c # purls"] by (auto simp: Let_def)
qed simp

lemma add_clusters_complete:
  "c \<in> set cs \<Longrightarrow> c \<notin> set (add_clusters purls coords cs) \<Longrightarrow> IName (CIdentity c) = [] \<or>
     cluster_key c \<in> set purls \<union> set (map cluster_key (add_clusters purls coords cs)) \<or>
     purlCoordinates (IPURL (CIdentity c)) \<in> set coords"
proof (induction cs arbitrary: purls)
  case (Cons d cs)
  show ?case
  proof (cases "c = d")
    case False
    then have "c \<in> set cs" using Cons.prems by simp
    then show ?thesis
      using Cons.IH [of purls] Cons.IH [of "cluster_key d # purls"] Cons.prems(2) by (auto simp: Let_def split: if_splits)
  qed (use Cons.prems in \<open>auto simp: Let_def split: if_splits\<close>)
qed simp

section \<open>Properties\<close>

text \<open>
  C24.  However the matcher workers interleave, a pool that has run dry over the tasks queued by the walk
  leaves the components and the number of hits that running the tasks one after the other gives.
\<close>
theorem matcher_pool_schedule:
  assumes "(pool_step answer workers)\<^sup>*\<^sup>* (start_pool (STasks s) (SComps s)) p" "pool_done p"
    and "untracked_walk env ctx ectx opts img clusters sbom = (err, s)"
  shows "Shared p = run_tasks answer (STasks s) (SComps s)"
proof -
  have "scan_inv env opts (buildKnownIndex sbom) clusters (Components sbom) s"
    using walk_inv [of env opts sbom clusters ctx ectx img] assms(3) by simp
  then show ?thesis using pool_result [OF _ assms(1,2)] by (simp add: scan_inv_def)
qed


text \<open>
  Whatever the image, the filters, the matcher's answers or a failure part-way, the enricher changes
  nothing of the SBOM but its components, and appends to those: the ones it got are left as they were.
\<close>
theorem Enrich_untracked_appends:
  "\<exists>new. RSbom (Enrich_untracked env ctx ectx detected answer opts img sbom) = sbom\<lparr>Components := Components sbom @ new\<rparr>"
proof -
  obtain sbom1 clusters where p: "runClusterPrePass (DisableClustering opts) detected sbom = (sbom1, clusters)" by fastforce
  obtain err s where w: "untracked_walk env ctx ectx opts img clusters sbom1 = (err, s)" by fastforce
  obtain cl where cl: "sbom1 = sbom\<lparr>Components := Components sbom @ cl\<rparr>" using prepass_Components [OF p] by blast
  have inv: "scan_inv env opts (buildKnownIndex sbom1) clusters (Components sbom1) s"
    using walk_inv [of env opts sbom1 clusters ctx ectx img] w by simp
  then obtain new where new: "SComps s = Components sbom1 @ new" by (auto simp: scan_inv_def)
  have "list_all (\<lambda>t. length (Components sbom1) \<le> componentIdx t) (STasks s)" using inv by (simp add: scan_inv_def list_all_iff)
  from run_tasks_frame(1) [OF this, of answer "SComps s"] have
    "fst (run_tasks answer (STasks s) (SComps s)) = Components sbom1 @ drop (length (Components sbom1)) (fst (run_tasks answer (STasks s) (SComps s)))"
    using new by (metis append_eq_conv_conj append_take_drop_id)
  then obtain new' where new': "fst (run_tasks answer (STasks s) (SComps s)) = Components sbom1 @ new'" by blast
  show ?thesis
    by (rule Enrich_untracked_cases [OF p w, of answer])
      (use cl new new' in \<open>auto simp: intro: exI [of _ "[]"] exI [of _ "cl @ new"] exI [of _ "cl @ new'"]\<close>)
qed

lemma run_paths:
  fixes env ctx ectx detected answer opts img sbom sbom1 clusters
  assumes p: "runClusterPrePass (DisableClustering opts) detected sbom = (sbom1, clusters)"
  defines "new \<equiv> drop (length (Components sbom1)) (Components (RSbom (Enrich_untracked env ctx ectx detected answer opts img sbom)))"
  shows "list_all (\<lambda>c. list_all (kept_path env opts (buildKnownIndex sbom1) clusters) (evidence_paths c) \<and> evidence_paths c \<noteq> []) new"
    and "MaxComponents opts > 0 \<Longrightarrow> int (length new) \<le> MaxComponents opts"
proof -
  let ?kept = "kept_path env opts (buildKnownIndex sbom1) clusters"
  obtain err s where w: "untracked_walk env ctx ectx opts img clusters sbom1 = (err, s)" by fastforce
  have inv: "scan_inv env opts (buildKnownIndex sbom1) clusters (Components sbom1) s"
    using walk_inv [of env opts sbom1 clusters ctx ectx img] w by simp
  let ?n = "length (Components sbom1)"
  have tasks: "list_all (\<lambda>t. ?n \<le> componentIdx t) (STasks s)" using inv by (simp add: scan_inv_def list_all_iff)
  obtain new' where new': "SComps s = Components sbom1 @ new'" "list_all (\<lambda>ps. list_all ?kept ps \<and> ps \<noteq> []) (map evidence_paths new')"
    "MaxComponents opts > 0 \<Longrightarrow> int (length new') \<le> MaxComponents opts"
    using inv by (fastforce simp: scan_inv_def list_all_iff)
  let ?comps = "Components (RSbom (Enrich_untracked env ctx ectx detected answer opts img sbom))"
  consider "new = []" | "map evidence_paths new = map evidence_paths new'"
  proof (rule Enrich_untracked_cases [OF p w, of answer])
    assume "Enrich_untracked env ctx ectx detected answer opts img sbom =
      \<lparr>RError = Some UntrackedMissingInput, RSbom = sbom, RStats = newScanStats, RHits = 0\<rparr>"
    then show thesis using that(1) prepass_Components [OF p] by (auto simp: new_def)
  next
    fix e
    assume "Enrich_untracked env ctx ectx detected answer opts img sbom =
      \<lparr>RError = Some (UntrackedWalk e), RSbom = sbom1\<lparr>Components := SComps s\<rparr>, RStats = SStats s, RHits = 0\<rparr>"
    then show thesis using that(2) new' by (simp add: new_def)
  next
    assume "Enrich_untracked env ctx ectx detected answer opts img sbom =
      \<lparr>RError = None, RSbom = sbom1\<lparr>Components := fst (run_tasks answer (STasks s) (SComps s))\<rparr>, RStats = SStats s,
        RHits = snd (run_tasks answer (STasks s) (SComps s))\<rparr>"
    then show thesis using that(2) new' run_tasks_frame(2) [OF tasks, of answer "SComps s"] by (simp add: new_def drop_map [symmetric])
  qed
  then have "list_all (\<lambda>ps. list_all ?kept ps \<and> ps \<noteq> []) (map evidence_paths new)" "new = [] \<or> length new = length new'"
    using new'(2) by (cases, simp_all) (metis length_map)+
  then show "list_all (\<lambda>c. list_all ?kept (evidence_paths c) \<and> evidence_paths c \<noteq> []) new"
    "MaxComponents opts > 0 \<Longrightarrow> int (length new) \<le> MaxComponents opts"
    using new'(3) by (auto simp: list.pred_map comp_def)
qed

text \<open>
  C6.  With the default options no file the filters reject becomes a component: every component the walk
  adds is evidenced by a path that lies in no cluster, is not known to the SBOM and is no documentation,
  and whose decision by the path classifier is not to drop it.
\<close>
theorem Enrich_untracked_filtered:
  assumes "no_bypass opts" and "runClusterPrePass (DisableClustering opts) detected sbom = (sbom1, clusters)"
    and "c \<in> set (drop (length (Components sbom1)) (Components (RSbom (Enrich_untracked env ctx ectx detected answer opts img sbom))))"
  shows "evidence_paths c \<noteq> [] \<and> list_all (\<lambda>p. withinAnyCluster p clusters = None \<and>
    \<not> isRedundantAgainstIndex p (buildKnownIndex sbom1) \<and> \<not> isDocsOrMetadata p \<and> classifier_keeps env opts p) (evidence_paths c)"
  using run_paths(1) [OF assms(2), of env ctx ectx answer img] assms(1,3)
  by (auto simp: list_all_iff kept_path_def no_bypass_def)

text \<open>A positive limit bounds the components the walk adds, whether or not it ends in an error.\<close>
theorem Enrich_untracked_limit:
  assumes "0 < MaxComponents opts" and "runClusterPrePass (DisableClustering opts) detected sbom = (sbom1, clusters)"
  shows "int (length (Components (RSbom (Enrich_untracked env ctx ectx detected answer opts img sbom)))) - int (length (Components sbom1))
    \<le> MaxComponents opts"
  using run_paths(2) [OF assms(2) assms(1), of env ctx ectx answer img] by simp

text \<open>
  With the default options every scanned file is counted once: added, redundant, noise, or skipped by
  the classifier, by a rule or by a cluster; only the file whose body fails, which ends the run, is not.
\<close>
theorem Enrich_untracked_counters:
  assumes "no_bypass opts" and "Enrich_untracked env ctx ectx detected answer opts img sbom = r"
  shows "scanned (RStats r) = added (RStats r) + redundant (RStats r) + noise (RStats r) + skippedClassifier (RStats r) +
    skippedByRule (RStats r) + skippedByCluster (RStats r) +
    (case RError r of Some (UntrackedWalk (VisitorError _ _ _)) \<Rightarrow> 1 | _ \<Rightarrow> 0)"
proof -
  obtain sbom1 clusters where p: "runClusterPrePass (DisableClustering opts) detected sbom = (sbom1, clusters)" by fastforce
  obtain err s where w: "untracked_walk env ctx ectx opts img clusters sbom1 = (err, s)" by fastforce
  have "walk_post (\<lambda>s. balance (SStats s) = 0) off_by_one (untracked_walk env ctx ectx opts img clusters sbom1)"
    by (rule WalkFiles_post [OF visit_balance [OF assms(1)]]) (simp_all add: balance_def newScanStats_def)
  then have b: "balance (SStats s) = (case err of Some (VisitorError _ _ e) \<Rightarrow> if e = errLimitHit then 0 else 1 | _ \<Rightarrow> 0)"
    unfolding w by (auto simp: walk_post_def off_by_one_def split: option.splits layer_error.splits)
  have "balance (RStats r) = (case RError r of Some (UntrackedWalk (VisitorError _ _ _)) \<Rightarrow> 1 | _ \<Rightarrow> 0)"
    unfolding assms(2) [symmetric]
    by (rule Enrich_untracked_cases [OF p w, of answer])
      (use b in \<open>auto simp: is_limit_iff balance_def newScanStats_def split: layer_error.split\<close>)
  then show ?thesis by (simp add: balance_def)
qed

text \<open>
  The components added for clusters have names and pairwise different PURLs up to qualifiers, none of
  which the SBOM already had; neither did it have a component of the same coordinates.
\<close>
theorem cluster_components_fresh:
  assumes "runClusterPrePass False (Inr clusters) sbom = (sbom1, cs)"
  shows "\<exists>added. Components sbom1 = Components sbom @ map clusterToComponent added \<and> cs = clusters \<and>
    distinct (map cluster_key added) \<and>
    list_all (\<lambda>c. IName (CIdentity c) \<noteq> [] \<and> cluster_key c \<notin> set (known_purls (Components sbom)) \<and>
      purlCoordinates (IPURL (CIdentity c)) \<notin> set (known_coords (Components sbom))) added"
proof -
  let ?a = "add_clusters (known_purls (Components sbom)) (known_coords (Components sbom)) clusters"
  note spec = add_clusters_spec [of "known_purls (Components sbom)" "known_coords (Components sbom)" clusters]
  have "[] \<notin> set (known_coords (Components sbom))" by (simp add: known_coords_def)
  then have "list_all (\<lambda>c. IName (CIdentity c) \<noteq> [] \<and> cluster_key c \<notin> set (known_purls (Components sbom)) \<and>
       purlCoordinates (IPURL (CIdentity c)) \<notin> set (known_coords (Components sbom))) ?a"
    using spec by (fastforce simp: list_all_iff)
  then show ?thesis using spec assms by (intro exI [of _ ?a]) (auto simp: runClusterPrePass_def)
qed

section \<open>Witnesses and counterexamples\<close>

definition demo_env :: untracked_env where
  "demo_env = \<lparr>Digest = (\<lambda>_ _. ''5feceb66ffc86f38''), ReadError = (\<lambda>_. None), UExtractors = [], UGlob = no_matcher, URegex = no_matcher\<rparr>"

definition demo_options :: untracked_options where
  "demo_options = \<lparr>MaxComponents = 1, UMaxFileBytes = 8, Include = \<lparr>IncludeRedundant = False, IncludeNoise = False\<rparr>,
     MatcherIncludeUnknown = True, MatcherIncludeScripts = False, MatcherIncludeArchives = False, MatcherMinFileBytes = 1,
     MatcherWorkers = 2, UPathClassifier = None, DisableClustering = True,
     UClusterOptions = \<lparr>MaxAnchorBytes = 0, SkipDensity = True, MinDirChildren = 0\<rparr>\<rparr>"

definition demo_files :: v1_image where "demo_files = image_of [layer_of ''d0'' [''app/a'']]"

definition demo_owner :: Info where
  "demo_owner = \<lparr>InfoIndex = 0, InfoDigest = ''d0'', CreatedBy = ''COPY'', EmptyLayer = False\<rparr>"

definition demo_entry :: FileEntry where
  "demo_entry = \<lparr>EPath = ''app/a'', ELayer = demo_owner, EHeader = file_at ''app/a''\<rparr>"

definition demo_result :: processResult where
  "demo_result = \<lparr>PComp = Component (buildBaseComponent demo_entry CategoryUnknown ''5feceb66ffc86f38''
       [\<lparr>Algorithm = ''sha256'', HashValue = ''5feceb66ffc86f38''\<rparr>]) [],
     PSha = ''5feceb66ffc86f38'', PCategory = CategoryUnknown, PSize = 1\<rparr>"

definition demo_scan :: scan_state where
  "demo_scan = record_result demo_options [] demo_result
     \<lparr>SComps = [], SStats = newScanStats\<lparr>scanned := 1\<rparr>, STasks = []\<rparr>"

lemma demo_process: "processFile demo_env demo_options demo_entry = Inr (Some demo_result)"
proof -
  have "readCapped 8 None ''x'' = Inr ''x''" by code_simp
  moreover have "Classify_file ''app/a'' ''x'' = (CategoryUnknown, ''unmatched'')" by code_simp
  ultimately show ?thesis
    by (simp add: processFile_def demo_env_def demo_options_def demo_entry_def demo_result_def file_at_def defaultMagicWindow_def
        Hasher_Hash_def MaxHashBytes_def enrichEmbedded_def Let_def)
qed

lemma demo_visit:
  "untracked_visit demo_env demo_options \<lparr>KPaths = [], KDirs = []\<rparr> [] \<lparr>SComps = [], SStats = newScanStats, STasks = []\<rparr> demo_entry =
     (demo_scan, VisitOk)"
proof -
  have "isRedundantAgainstIndex ''app/a'' \<lparr>KPaths = [], KDirs = []\<rparr> = False" "isDocsOrMetadata ''app/a'' = False" by code_simp+
  moreover have "EPath demo_entry = ''app/a''" "UPathClassifier demo_options = None" "MaxComponents demo_options = 1"
    by (simp_all add: demo_entry_def demo_options_def)
  ultimately show ?thesis
    by (simp add: untracked_visit_def demo_process demo_scan_def preFilter_def withinAnyCluster_def newScanStats_def Let_def)
qed

lemma demo_untracked_walk:
  "untracked_walk demo_env (\<lambda>_. None) (\<lambda>_ _. None) demo_options (Some demo_files) [] empty_sbom = (None, demo_scan)"
proof -
  have w: "Walk (\<lambda>_. None) (Some demo_files) = Inr \<lparr>Paths = [(''app/a'', 0)], FLayers = [demo_owner]\<rparr>" by code_simp
  have k: "buildKnownIndex empty_sbom = \<lparr>KPaths = [], KDirs = []\<rparr>" by code_simp
  have n: "normalizePath ''app/a'' = ''app/a''" by code_simp
  have l: "Layers demo_files = Inr [layer_of ''d0'' [''app/a'']]" by (simp add: demo_files_def)
  have e: "\<lparr>EPath = ''app/a'', ELayer = demo_owner, EHeader = file_at ''app/a''\<rparr> = demo_entry" by (simp add: demo_entry_def)
  have look: "Layer.Lookup (Some \<lparr>Paths = [(''app/a'', 0)], FLayers = [demo_owner]\<rparr>) ''app/a'' = Some demo_owner" by code_simp
  have "HName (file_at ''app/a'') = ''app/a''" "Typeflag (file_at ''app/a'') = TypeReg" "InfoIndex demo_owner = 0" "Components empty_sbom = []"
    by (simp_all add: file_at_def demo_owner_def empty_sbom_def)
  then show ?thesis
    using demo_visit
    by (simp add: WalkFiles_def w k l streamLayer_def layer_of_def n look e Let_def)
qed

lemma demo_tasks: "STasks demo_scan = [\<lparr>componentIdx = 0, TSha = ''5feceb66ffc86f38''\<rparr>]"
  by (simp add: demo_scan_def record_result_fields demo_result_def shouldMatcherLookup_def demo_options_def)

theorem matcher_pool_schedule_witness:
  "\<exists>p. (pool_step (\<lambda>_. NoMatch) 1)\<^sup>*\<^sup>* (start_pool (STasks demo_scan) (SComps demo_scan)) p \<and> pool_done p \<and>
     STasks demo_scan \<noteq> [] \<and> Shared p = run_tasks (\<lambda>_. NoMatch) (STasks demo_scan) (SComps demo_scan)"
proof -
  obtain p where p: "(pool_step (\<lambda>_. NoMatch) 1)\<^sup>*\<^sup>* (start_pool (STasks demo_scan) (SComps demo_scan)) p" "pool_done p"
    using pool_completes by force
  then show ?thesis using matcher_pool_schedule [OF p demo_untracked_walk] by (auto simp: demo_tasks)
qed


definition demo_run :: untracked_run where
  "demo_run = Enrich_untracked demo_env (\<lambda>_. None) (\<lambda>_ _. None) (Inr []) (\<lambda>_. NoMatch) demo_options (Some demo_files) empty_sbom"

lemma demo_prepass: "runClusterPrePass (DisableClustering demo_options) (Inr []) empty_sbom = (empty_sbom, [])"
  by (simp add: runClusterPrePass_def demo_options_def)

lemma demo_run_eq: "demo_run =
    \<lparr>RError = None, RSbom = empty_sbom\<lparr>Components := [PComp demo_result]\<rparr>, RStats = SStats demo_scan, RHits = 0\<rparr>"
  by (simp add: demo_run_def Enrich_untracked_def demo_prepass demo_untracked_walk demo_tasks run_tasks_def finish_task_def)
    (simp add: demo_scan_def record_result_fields)

lemma demo_options_simps: "no_bypass demo_options" "MaxComponents demo_options = 1"
  by (simp_all add: no_bypass_def demo_options_def)

theorem Enrich_untracked_filtered_witness: "evidence_paths (PComp demo_result) \<noteq> []"
proof -
  have "PComp demo_result \<in> set (drop (length (Components empty_sbom)) (Components (RSbom demo_run)))"
    by (simp add: demo_run_eq empty_sbom_def)
  from Enrich_untracked_filtered [OF demo_options_simps(1) demo_prepass this [unfolded demo_run_def]] show ?thesis by simp
qed

theorem Enrich_untracked_limit_witness: "length (Components (RSbom demo_run)) = 1 \<and> int (length (Components (RSbom demo_run))) \<le> 1"
  using Enrich_untracked_limit [OF _ demo_prepass, of demo_env "\<lambda>_. None" "\<lambda>_ _. None" "\<lambda>_. NoMatch" "Some demo_files",
      folded demo_run_def]
  by (simp add: demo_options_simps demo_run_eq empty_sbom_def)

theorem Enrich_untracked_counters_witness: "scanned (RStats demo_run) = 1 \<and> added (RStats demo_run) = 1"
proof -
  have "scanned (SStats demo_scan) = 1" "redundant (SStats demo_scan) = 0" "noise (SStats demo_scan) = 0"
    "skippedClassifier (SStats demo_scan) = 0" "skippedByRule (SStats demo_scan) = 0" "skippedByCluster (SStats demo_scan) = 0"
    by (simp_all add: demo_scan_def record_result_def Let_def newScanStats_def)
  then show ?thesis
    using Enrich_untracked_counters [OF demo_options_simps(1) demo_run_def [symmetric]] by (simp add: demo_run_eq)
qed

definition demo_cluster :: "string \<Rightarrow> string \<Rightarrow> Cluster" where
  "demo_cluster n purl = \<lparr>CIdentity = \<lparr>IName = n, IVersion = ''1'', IPURL = purl, IType = ''npm'', AnchorPath = [], IConfidence = 1,
     DetectionMethod = []\<rparr>, Root = ''app'', Files = [], TotalSize = 0\<rparr>"

theorem cluster_components_fresh_witness:
  "\<exists>added. Components (fst (runClusterPrePass False (Inr [demo_cluster ''a'' ''pkg:npm/a'', demo_cluster ''a'' ''pkg:npm/a?x'']) empty_sbom))
     = map clusterToComponent added \<and> distinct (map cluster_key added)"
  using cluster_components_fresh [OF prod.collapse [symmetric], of "[demo_cluster ''a'' ''pkg:npm/a'', demo_cluster ''a'' ''pkg:npm/a?x'']" empty_sbom]
  by (auto simp: empty_sbom_def)

text \<open>A second cluster without a PURL is taken for a duplicate of the first.\<close>

lemma second_purlless_cluster_dropped:
  "add_clusters [] [] [demo_cluster ''a'' [], demo_cluster ''b'' []] = [demo_cluster ''a'' []]"
  by code_simp

text \<open>The largest limit reads every file as empty.\<close>

lemma readCapped_max_empty: "readCapped (2 ^ 63 - 1) None body = Inr []"
  by (simp add: readCapped_def int64_wrap_def)

text \<open>One file above the limit fails the walk.\<close>

lemma big_file_fails:
  assumes "0 \<le> UMaxFileBytes opts" "UMaxFileBytes opts < 2 ^ 63 - 1" "UMaxFileBytes opts < int (length (Body (EHeader fe)))"
  shows "\<exists>e. processFile env opts fe = Inl e"
proof -
  have "int64_wrap (UMaxFileBytes opts + 1) = UMaxFileBytes opts + 1" using assms by (simp add: int64_wrap_def)
  moreover have "nat (UMaxFileBytes opts + 1) \<le> length (Body (EHeader fe))" using assms by linarith
  ultimately have "\<exists>e. readCapped (UMaxFileBytes opts) (ReadError env (EHeader fe)) (Body (EHeader fe)) = Inl e"
    using assms by (simp add: readCapped_def Let_def)
  then show ?thesis by (auto simp: processFile_def)
qed

end
