(* ===== verification/Registry.thy ===== *)
theory Registry
  imports Cpe
begin

text \<open>
  The package-registry enricher (\<open>internal/enrich/registry\<close>) and its mirror configuration
  (\<open>internal/config/mirrors.go\<close>): the validation of mirrors, the order of end points, the fetch loop with its
  errors, the caches, the resolver and the enricher.  The environment, the HTTP client, the files of
  certificates and the sources for single ecosystems are parameters.  The errors of the sentinel variables are
  constructors; \<open>OtherError\<close> carries the text of any other.
\<close>

section \<open>Mirrors\<close>

record MirrorAuthConfig =
  AuthType :: string
  Token :: string
  TokenEnv :: string
  Username :: string
  Password :: string
  PasswordEnv :: string
  HeaderName :: string
  HeaderValue :: string
  HeaderValueEnv :: string

record MirrorTLSConfig =
  CACert :: string
  ClientCert :: string
  ClientKey :: string
  SkipVerify :: bool

record MirrorEntry =
  Ecosystem :: string
  MURL :: string
  MMode :: string
  MAuth :: "MirrorAuthConfig option"
  MTLS :: "MirrorTLSConfig option"
  MHeaders :: props

definition MirrorModeReplace :: string where "MirrorModeReplace = ''replace''"
definition MirrorModeFallback :: string where "MirrorModeFallback = ''fallback''"

lemmas mirror_modes = MirrorModeReplace_def MirrorModeFallback_def

definition MirrorMode_IsKnown :: "string \<Rightarrow> bool" where
  "MirrorMode_IsKnown m \<longleftrightarrow> m = MirrorModeReplace \<or> m = MirrorModeFallback \<or> m = []"

definition MirrorMode_EffectiveMode :: "string \<Rightarrow> string" where
  "MirrorMode_EffectiveMode m = (if m = [] then MirrorModeReplace else m)"

definition validateMirrorAuth :: "MirrorAuthConfig \<Rightarrow> string option" where
  "validateMirrorAuth a =
     (if AuthType a = ''bearer'' then
        (if Token a = [] \<and> TokenEnv a = [] then Some ''bearer auth: token or token_env is required'' else None)
      else if AuthType a = ''basic'' then
        (if Username a = [] then Some ''basic auth: username is required''
         else if Password a = [] \<and> PasswordEnv a = [] then Some ''basic auth: password or password_env is required'' else None)
      else if AuthType a = ''header'' then
        (if HeaderName a = [] then Some ''header auth: header_name is required''
         else if HeaderValue a = [] \<and> HeaderValueEnv a = [] then Some ''header auth: header_value or header_value_env is required''
         else None)
      else Some (''unknown auth type '' @ Quote (AuthType a) @ '' (want bearer|basic|header)''))"

definition validateMirror :: "MirrorEntry \<Rightarrow> string option" where
  "validateMirror m =
     (if Ecosystem m = [] then Some ''ecosystem is required''
      else if MURL m = [] then Some ''url is required''
      else if \<not> MirrorMode_IsKnown (MMode m) then Some (''mode '' @ Quote (MMode m) @ '' is not one of replace|fallback'')
      else (case MAuth m of None \<Rightarrow> None | Some a \<Rightarrow> validateMirrorAuth a))"

fun first_invalid :: "nat \<Rightarrow> MirrorEntry list \<Rightarrow> string option" where
  "first_invalid i [] = None"
| "first_invalid i (m # ms) =
     (case validateMirror m of Some e \<Rightarrow> Some (''mirrors-config: mirrors['' @ Itoa (int i) @ '']: '' @ e)
      | None \<Rightarrow> first_invalid (Suc i) ms)"

text \<open>\<open>decode\<close> is the YAML decoder; a configuration is its list of mirrors.\<close>

definition ParseMirrorsConfig :: "(string \<Rightarrow> string + MirrorEntry list) \<Rightarrow> string \<Rightarrow> string + MirrorEntry list" where
  "ParseMirrorsConfig decode body =
     (case decode body of Inl e \<Rightarrow> Inl (''mirrors-config: parse YAML: '' @ e)
      | Inr ms \<Rightarrow> (case first_invalid 0 ms of Some e \<Rightarrow> Inl e | None \<Rightarrow> Inr ms))"

definition LoadMirrorsConfig ::
  "(string \<Rightarrow> string + string) \<Rightarrow> (string \<Rightarrow> string + MirrorEntry list) \<Rightarrow> string \<Rightarrow> string + MirrorEntry list"
where
  "LoadMirrorsConfig readFile decode path =
     (if path = [] then Inr []
      else (case readFile path of Inl e \<Rightarrow> Inl (''mirrors-config '' @ Quote path @ '': '' @ e)
        | Inr body \<Rightarrow> ParseMirrorsConfig decode body))"

definition MirrorsByEcosystem :: "MirrorEntry list option \<Rightarrow> MirrorEntry list gomap" where
  "MirrorsByEcosystem cfg =
     (case cfg of None \<Rightarrow> []
      | Some ms \<Rightarrow> foldl (\<lambda>out m. let key = ToLower (Ecosystem m) in
          mput key ((case mget out key of Some xs \<Rightarrow> xs | None \<Rightarrow> []) @ [m]) out) [] ms)"

section \<open>End points\<close>

record MirrorChain =
  Mirrors :: "MirrorEntry list"
  Upstream :: string

record Endpoint =
  EURL :: string
  EMirror :: "MirrorEntry option"
  ESource :: string

definition trim_right :: "char \<Rightarrow> string \<Rightarrow> string" where
  "trim_right c s = rev (dropWhile (\<lambda>x. x = c) (rev s))"

definition joinURL :: "string \<Rightarrow> string \<Rightarrow> string" where
  "joinURL base suffix =
     (let b = trim_right slash base in
        if suffix = [] then b else b @ (if HasPrefix suffix ''/'' then suffix else slash # suffix))"

definition HostOf :: "string \<Rightarrow> string" where
  "HostOf rawURL =
     (if rawURL = [] then []
      else (case Index rawURL ''://'' of None \<Rightarrow> rawURL
        | Some i \<Rightarrow>
            (let rest = drop (i + 3) rawURL in
               case IndexAny (\<lambda>c. c = slash \<or> c = CHR ''?'' \<or> c = CHR ''#'') rest of None \<Rightarrow> rest | Some j \<Rightarrow> take j rest)))"

definition mirror_endpoint :: "string \<Rightarrow> MirrorEntry \<Rightarrow> Endpoint" where
  "mirror_endpoint pathSuffix m = \<lparr>EURL = joinURL (MURL m) pathSuffix, EMirror = Some m, ESource = HostOf (MURL m)\<rparr>"

definition has_mode :: "string \<Rightarrow> MirrorEntry \<Rightarrow> bool" where
  "has_mode mode m \<longleftrightarrow> MirrorMode_EffectiveMode (MMode m) = mode"

text \<open>The zero mirror of the upstream end point is \<^const>\<open>None\<close>.\<close>

definition Endpoints :: "MirrorChain \<Rightarrow> string \<Rightarrow> Endpoint list" where
  "Endpoints c pathSuffix =
     map (mirror_endpoint pathSuffix) (filter (has_mode MirrorModeReplace) (Mirrors c)) @
     map (mirror_endpoint pathSuffix) (filter (has_mode MirrorModeFallback) (Mirrors c)) @
     (if \<not> list_ex (has_mode MirrorModeReplace) (Mirrors c) \<and> Upstream c \<noteq> [] then
        [\<lparr>EURL = joinURL (Upstream c) pathSuffix, EMirror = None, ESource = ''upstream''\<rparr>] else [])"

section \<open>Requests\<close>

definition readSecret :: "(string \<Rightarrow> string) \<Rightarrow> string \<Rightarrow> string \<Rightarrow> string" where
  "readSecret getenv literal envName = (if literal \<noteq> [] then literal else if envName = [] then [] else getenv envName)"

text \<open>The calls that set headers, in their order.\<close>

datatype header_call = SetHeader string string | SetBasicAuth string string

definition applyAuth :: "(string \<Rightarrow> string) \<Rightarrow> MirrorAuthConfig option \<Rightarrow> string + header_call list" where
  "applyAuth getenv auth =
     (case auth of None \<Rightarrow> Inr []
      | Some a \<Rightarrow>
          if AuthType a = ''bearer'' then
            (let t = readSecret getenv (Token a) (TokenEnv a) in
               if t = [] then Inl (''registry auth: bearer token empty (token_env='' @ Quote (TokenEnv a) @ '')'')
               else Inr [SetHeader ''Authorization'' (''Bearer '' @ t)])
          else if AuthType a = ''basic'' then
            (let p = readSecret getenv (Password a) (PasswordEnv a) in
               if p = [] then Inl (''registry auth: basic password empty (password_env='' @ Quote (PasswordEnv a) @ '')'')
               else Inr [SetBasicAuth (Username a) p])
          else if AuthType a = ''header'' then
            (let v = readSecret getenv (HeaderValue a) (HeaderValueEnv a) in
               if v = [] then Inl (''registry auth: header value empty (header_value_env='' @ Quote (HeaderValueEnv a) @ '')'')
               else Inr [SetHeader (HeaderName a) v])
          else Inl (''registry auth: unknown type '' @ Quote (AuthType a) @ '' (want bearer|basic|header)''))"

text \<open>\<open>os.Expand\<close>: the name after a dollar sign and the bytes it takes; \<^const>\<open>None\<close> for bad syntax.\<close>

definition shell_special :: "char \<Rightarrow> bool" where
  "shell_special c \<longleftrightarrow> c \<in> set ''*#$@!?-'' \<or> is_digit c"

definition shell_alnum :: "char \<Rightarrow> bool" where
  "shell_alnum c \<longleftrightarrow> c = CHR ''_'' \<or> is_digit c \<or> c \<in> set ''abcdefghijklmnopqrstuvwxyzABCDEFGHIJKLMNOPQRSTUVWXYZ''"

definition getShellName :: "string \<Rightarrow> string \<times> nat" where
  "getShellName s =
     (case s of [] \<Rightarrow> ([], 0)
      | c # rest \<Rightarrow>
          if c = CHR ''{'' then
            (if length s > 2 \<and> shell_special (s ! 1) \<and> s ! 2 = CHR ''}'' then ([s ! 1], 3)
             else (case IndexByte rest (CHR ''}'') of None \<Rightarrow> ([], 1)
               | Some 0 \<Rightarrow> ([], 2) | Some i \<Rightarrow> (take i rest, i + 2)))
          else if shell_special c then ([c], 1)
          else (takeWhile shell_alnum s, length (takeWhile shell_alnum s)))"

function expandEnv :: "(string \<Rightarrow> string) \<Rightarrow> string \<Rightarrow> string" where
  "expandEnv getenv [] = []"
| "expandEnv getenv (c # s) =
     (if c \<noteq> CHR ''$'' \<or> s = [] then c # expandEnv getenv s
      else (case getShellName s of (name, w) \<Rightarrow>
        (if name = [] then (if w > 0 then [] else [c]) else getenv name) @ expandEnv getenv (drop w s)))"
  by pat_completeness auto
termination by (relation "measure (\<lambda>(_, s). length s)") auto

definition applyHeaders :: "(string \<Rightarrow> string) \<Rightarrow> props \<Rightarrow> header_call list" where
  "applyHeaders getenv hs = map (\<lambda>kv. SetHeader (fst kv) (expandEnv getenv (snd kv))) hs"

record tls_config =
  RootCAs :: "string option"
  Certificate :: "(string \<times> string) option"
  InsecureSkipVerify :: bool

text \<open>\<open>bundle\<close> and \<open>pair\<close> say whether the files of a CA bundle and of a key pair load.\<close>

definition buildMirrorTLSConfig ::
  "(string \<Rightarrow> string option) \<Rightarrow> (string \<Rightarrow> string \<Rightarrow> string option) \<Rightarrow> MirrorTLSConfig option \<Rightarrow> string + tls_config option"
where
  "buildMirrorTLSConfig bundle pair t =
     (case t of None \<Rightarrow> Inr None
      | Some t \<Rightarrow>
          if CACert t = [] \<and> ClientCert t = [] \<and> ClientKey t = [] \<and> \<not> SkipVerify t then Inr None
          else (case (if CACert t \<noteq> [] then bundle (CACert t) else None) of Some e \<Rightarrow> Inl e
            | None \<Rightarrow>
              (let cfg = \<lparr>RootCAs = (if CACert t \<noteq> [] then Some (CACert t) else None), Certificate = None,
                     InsecureSkipVerify = SkipVerify t\<rparr> in
               if ClientCert t = [] \<and> ClientKey t = [] then Inr (Some cfg)
               else if ClientCert t = [] \<or> ClientKey t = [] then Inl ''client_cert and client_key must both be set''
               else (case pair (ClientCert t) (ClientKey t) of Some e \<Rightarrow> Inl (''load mTLS client cert: '' @ e)
                 | None \<Rightarrow> Inr (Some (cfg\<lparr>Certificate := Some (ClientCert t, ClientKey t)\<rparr>))))))"

section \<open>The fetch loop\<close>

datatype fetch_error = NotFound | Transient | NoNetwork | UnsupportedPURL | OtherError string

record http_request =
  RURL :: string
  RHeaders :: "header_call list"
  RTLS :: "tls_config option"

record http_response =
  StatusCode :: int
  RBody :: string

record http_env =
  Getenv :: "string \<Rightarrow> string"
  Bundle :: "string \<Rightarrow> string option"
  KeyPair :: "string \<Rightarrow> string \<Rightarrow> string option"
  NewRequestError :: "string \<Rightarrow> string option"
  Do :: "http_request \<Rightarrow> string + http_response"

definition handleResponse :: "(string \<Rightarrow> fetch_error + 'a) \<Rightarrow> string \<Rightarrow> http_response \<Rightarrow> fetch_error + 'a" where
  "handleResponse parser sourceName resp =
     (let s = StatusCode resp in
        if s = 404 then Inl NotFound
        else if s = 401 \<or> s = 403 then Inl (OtherError (''registry '' @ sourceName @ '': auth failed (status '' @ Itoa s @ '')''))
        else if s = 429 then Inl Transient
        else if s \<ge> 500 then Inl Transient
        else if s \<noteq> 200 then Inl (OtherError (''registry '' @ sourceName @ '': unexpected status '' @ Itoa s))
        else parser (RBody resp))"

definition build_request :: "http_env \<Rightarrow> Endpoint \<Rightarrow> string + http_request" where
  "build_request env ep =
     (let m = EMirror ep in
      case buildMirrorTLSConfig (Bundle env) (KeyPair env) (case m of None \<Rightarrow> None | Some e \<Rightarrow> MTLS e) of
        Inl e \<Rightarrow> Inl (''registry mirror '' @ Quote (case m of None \<Rightarrow> [] | Some e \<Rightarrow> MURL e) @ '': tls: '' @ e)
      | Inr tls \<Rightarrow>
          (case NewRequestError env (EURL ep) of Some e \<Rightarrow> Inl e
           | None \<Rightarrow>
             (case applyAuth (Getenv env) (case m of None \<Rightarrow> None | Some e \<Rightarrow> MAuth e) of Inl e \<Rightarrow> Inl e
              | Inr auth \<Rightarrow> Inr \<lparr>RURL = EURL ep,
                  RHeaders = [SetHeader ''Accept'' ''application/json''] @
                    (case m of None \<Rightarrow> [] | Some e \<Rightarrow> applyHeaders (Getenv env) (MHeaders e)) @ auth,
                  RTLS = tls\<rparr>)))"

definition try_endpoint :: "http_env \<Rightarrow> (string \<Rightarrow> fetch_error + 'a) \<Rightarrow> string \<Rightarrow> Endpoint \<Rightarrow> fetch_error + 'a" where
  "try_endpoint env parser sourceName ep =
     (case build_request env ep of Inl e \<Rightarrow> Inl (OtherError e)
      | Inr req \<Rightarrow> (case Do env req of Inl e \<Rightarrow> Inl (OtherError e) | Inr resp \<Rightarrow> handleResponse parser sourceName resp))"

text \<open>The loop over the end points with its \<open>transientSeen\<close> and \<open>lastErr\<close>.\<close>

fun fetch_loop :: "(Endpoint \<Rightarrow> fetch_error + 'a) \<Rightarrow> bool \<Rightarrow> fetch_error option \<Rightarrow> Endpoint list \<Rightarrow> fetch_error + 'a" where
  "fetch_loop attempt transient lastErr [] =
     Inl (case lastErr of Some e \<Rightarrow> e | None \<Rightarrow> if transient then Transient else NotFound)"
| "fetch_loop attempt transient lastErr (ep # eps) =
     (case attempt ep of
        Inr v \<Rightarrow> Inr v
      | Inl NotFound \<Rightarrow> fetch_loop attempt transient lastErr eps
      | Inl Transient \<Rightarrow> fetch_loop attempt True lastErr eps
      | Inl e \<Rightarrow> fetch_loop attempt transient (Some e) eps)"

definition FetchJSON ::
  "http_env \<Rightarrow> MirrorChain \<Rightarrow> string \<Rightarrow> string \<Rightarrow> (string \<Rightarrow> fetch_error + 'a) \<Rightarrow> fetch_error + 'a"
where
  "FetchJSON env chain pathSuffix sourceName parser =
     (let eps = Endpoints chain pathSuffix in
        if eps = [] then Inl NotFound else fetch_loop (try_endpoint env parser sourceName) False None eps)"

section \<open>RMetadata\<close>

record RLicense =
  RLSPDXID :: string
  RLName :: string
  RLURL :: string

record RSupplier =
  SupName :: string
  SupURL :: string
  SupEmail :: string

record RMetadata =
  MdName :: string
  MdVersion :: string
  MdDescription :: string
  MdLicenses :: "RLicense list"
  MdSupplier :: RSupplier
  MdAuthor :: string
  Homepage :: string
  Repository :: string
  BugTracker :: string
  Documentation :: string
  MdHashes :: props
  Keywords :: "string list"

definition Metadata_IsEmpty :: "RMetadata option \<Rightarrow> bool" where
  "Metadata_IsEmpty m =
     (case m of None \<Rightarrow> True
      | Some m \<Rightarrow> MdDescription m = [] \<and> MdAuthor m = [] \<and> Homepage m = [] \<and> Repository m = [] \<and> BugTracker m = [] \<and>
          Documentation m = [] \<and> MdLicenses m = [] \<and> SupName (MdSupplier m) = [] \<and> MdHashes m = [])"

section \<open>Caches\<close>

text \<open>A cached value is the metadata or \<^const>\<open>None\<close> for "nobody had anything"; \<open>Get\<close> may change the cache.\<close>

type_synonym md_cache = "RMetadata option gomap"

definition Memory_Get :: "string \<Rightarrow> md_cache \<Rightarrow> RMetadata option option \<times> md_cache" where
  "Memory_Get purl c = (mget c purl, c)"

definition Memory_Set :: "string \<Rightarrow> RMetadata option \<Rightarrow> md_cache \<Rightarrow> md_cache" where
  "Memory_Set purl m c = mput purl m c"

definition Noop_Get :: "string \<Rightarrow> 's \<Rightarrow> RMetadata option option \<times> 's" where "Noop_Get purl s = (None, s)"
definition Noop_Set :: "string \<Rightarrow> RMetadata option \<Rightarrow> 's \<Rightarrow> 's" where "Noop_Set purl m s = s"

text \<open>
  The disk cache: per key the time of its file and what its JSON decodes to, \<^const>\<open>None\<close> for a corrupt file.
  Digests that collide are left out; \<open>DWritable\<close> says whether files can be written.
\<close>

record DiskCache =
  DFiles :: "(rat \<times> RMetadata option) gomap"
  DTtl :: rat
  DWritable :: bool

definition Disk_Get :: "rat \<Rightarrow> string \<Rightarrow> DiskCache \<Rightarrow> RMetadata option option \<times> DiskCache" where
  "Disk_Get now purl d =
     (case mget (DFiles d) purl of None \<Rightarrow> (None, d)
      | Some (t, content) \<Rightarrow>
          if DTtl d > 0 \<and> now - t > DTtl d then (None, d\<lparr>DFiles := mdel purl (DFiles d)\<rparr>)
          else (case content of None \<Rightarrow> (None, d\<lparr>DFiles := mdel purl (DFiles d)\<rparr>) | Some m \<Rightarrow> (Some (Some m), d)))"

definition Disk_Set :: "rat \<Rightarrow> string \<Rightarrow> RMetadata option \<Rightarrow> DiskCache \<Rightarrow> DiskCache" where
  "Disk_Set now purl m d =
     (case m of None \<Rightarrow> d
      | Some m \<Rightarrow> if DWritable d then d\<lparr>DFiles := mput purl (now, Some m) (DFiles d)\<rparr> else d)"

type_synonym layered_cache = "md_cache \<times> DiskCache option"

definition Layered_Get :: "rat \<Rightarrow> string \<Rightarrow> layered_cache \<Rightarrow> RMetadata option option \<times> layered_cache" where
  "Layered_Get now purl c =
     (case mget (fst c) purl of Some m \<Rightarrow> (Some m, c)
      | None \<Rightarrow>
          (case snd c of None \<Rightarrow> (None, c)
           | Some d \<Rightarrow>
               (case Disk_Get now purl d of
                  (Some m, d') \<Rightarrow> (Some m, (Memory_Set purl m (fst c), Some d'))
                | (None, d') \<Rightarrow> (None, (fst c, Some d')))))"

definition Layered_Set :: "rat \<Rightarrow> string \<Rightarrow> RMetadata option \<Rightarrow> layered_cache \<Rightarrow> layered_cache" where
  "Layered_Set now purl m c = (Memory_Set purl m (fst c), map_option (Disk_Set now purl m) (snd c))"

section \<open>The resolver\<close>

record registry_source =
  Supports :: "string \<Rightarrow> bool"
  RequiresNetwork :: bool
  SFetch :: "PURL_parts \<Rightarrow> fetch_error + RMetadata option"

definition canonicalPURLKey :: "PURL_parts \<Rightarrow> string" where
  "canonicalPURLKey p = ToLower (PType p) @ ''|'' @ ToLower (Namespace p) @ ''|'' @ ToLower (PName p) @ ''|'' @ PVersion p"

text \<open>The chain of sources: the first non-empty metadata, and whether any source was tried.\<close>

fun walk_sources :: "bool \<Rightarrow> registry_source list \<Rightarrow> PURL_parts \<Rightarrow> RMetadata option \<times> bool" where
  "walk_sources networkOK [] purl = (None, False)"
| "walk_sources networkOK (src # srcs) purl =
     (if \<not> Supports src (PType purl) then walk_sources networkOK srcs purl
      else if RequiresNetwork src \<and> \<not> networkOK then walk_sources networkOK srcs purl
      else (case SFetch src purl of
          Inr (Some m) \<Rightarrow> if Metadata_IsEmpty (Some m) then (fst (walk_sources networkOK srcs purl), True) else (Some m, True)
        | _ \<Rightarrow> (fst (walk_sources networkOK srcs purl), True)))"

definition registry_Resolve ::
  "(string \<Rightarrow> 's \<Rightarrow> RMetadata option option \<times> 's) \<Rightarrow> (string \<Rightarrow> RMetadata option \<Rightarrow> 's \<Rightarrow> 's) \<Rightarrow>
   bool \<Rightarrow> registry_source list \<Rightarrow> 's \<Rightarrow> PURL_parts \<Rightarrow> 's \<times> (fetch_error + RMetadata)"
where
  "registry_Resolve get put networkOK srcs s purl =
     (case get (canonicalPURLKey purl) s of
        (Some (Some m), s1) \<Rightarrow> (s1, Inr m)
      | (Some None, s1) \<Rightarrow> (s1, Inl NotFound)
      | (None, s1) \<Rightarrow>
          (let r = walk_sources networkOK srcs purl; s2 = put (canonicalPURLKey purl) (fst r) s1 in
             case fst r of Some m \<Rightarrow> (s2, Inr m)
             | None \<Rightarrow> (s2, Inl (if snd r then NotFound else UnsupportedPURL))))"

section \<open>The enricher\<close>

definition licensePresent :: "License list \<Rightarrow> RLicense \<Rightarrow> bool" where
  "licensePresent existing l =
     list_ex (\<lambda>e. (RLSPDXID l \<noteq> [] \<and> SPDXID e = RLSPDXID l) \<or> (RLName l \<noteq> [] \<and> LicenseName e = RLName l) \<or>
       (RLSPDXID l \<noteq> [] \<and> Expression e = RLSPDXID l)) existing"

fun mergeLicenses :: "License list \<Rightarrow> RLicense list \<Rightarrow> License list" where
  "mergeLicenses existing [] = existing"
| "mergeLicenses existing (l # ls) =
     (if RLSPDXID l = [] \<and> RLName l = [] then mergeLicenses existing ls
      else if licensePresent existing l then mergeLicenses existing ls
      else mergeLicenses (existing @ [\<lparr>SPDXID = RLSPDXID l, LicenseName = RLName l, Expression = [], URL = RLURL l\<rparr>]) ls)"

fun mergeHashes :: "Hash list \<Rightarrow> props \<Rightarrow> Hash list" where
  "mergeHashes existing [] = existing"
| "mergeHashes existing ((alg0, hex) # hs) =
     (let alg = NormalizeHashAlgorithm alg0 in
        if alg = [] \<or> hex = [] then mergeHashes existing hs
        else if list_ex (\<lambda>h. Algorithm h = alg) existing then mergeHashes existing hs
        else mergeHashes (existing @ [\<lparr>Algorithm = alg, HashValue = hex\<rparr>]) hs)"

definition formatSupplier :: "RSupplier \<Rightarrow> string" where
  "formatSupplier s = (if SupEmail s = [] then SupName s else SupName s @ '' <'' @ SupEmail s @ ''>'')"

definition sourceForType :: "string \<Rightarrow> string" where
  "sourceForType purl =
     (case CutPrefix purl ''pkg:'' of None \<Rightarrow> []
      | Some rest \<Rightarrow>
          (case IndexAny (\<lambda>c. c = slash \<or> c = CHR ''@'' \<or> c = CHR ''?'' \<or> c = CHR ''#'') rest of
             None \<Rightarrow> ToLower rest | Some i \<Rightarrow> ToLower (take i rest)))"

definition setIfAbsent :: "string \<Rightarrow> string \<Rightarrow> props \<Rightarrow> props" where
  "setIfAbsent k v m = (if mget m k = None then mput k v m else m)"

definition fill_prop :: "string \<Rightarrow> string \<Rightarrow> props \<Rightarrow> props" where
  "fill_prop k v m = (if v \<noteq> [] then setIfAbsent k v m else m)"

text \<open>\<open>now\<close> is the rendered time of the call.\<close>

definition applyMetadata :: "string \<Rightarrow> RMetadata \<Rightarrow> component_data \<Rightarrow> component_data" where
  "applyMetadata now md c =
     c\<lparr>Description := (if Description c = [] \<and> MdDescription md \<noteq> [] then MdDescription md else Description c),
       Author := (if Author c = [] \<and> MdAuthor md \<noteq> [] then MdAuthor md else Author c),
       Supplier := (if Supplier c = [] \<and> SupName (MdSupplier md) \<noteq> [] then formatSupplier (MdSupplier md) else Supplier c),
       Licenses := mergeLicenses (Licenses c) (MdLicenses md),
       Hashes := mergeHashes (Hashes c) (MdHashes md),
       Properties :=
         fill_prop ''astinus:registry:documentation'' (Documentation md)
        (fill_prop ''astinus:registry:bug-tracker'' (BugTracker md)
        (fill_prop ''astinus:registry:repository'' (Repository md)
        (fill_prop ''astinus:registry:homepage'' (Homepage md)
        (mput ''astinus:registry:fetched-at'' now (mput ''astinus:registry:source'' (sourceForType (PURL c)) (Properties c))))))\<rparr>"

definition componentFingerprint :: "component_data \<Rightarrow> string" where
  "componentFingerprint c =
     Description c @ ''|'' @ Author c @ ''|'' @ Supplier c @ ''|'' @
     concat (map (\<lambda>l. SPDXID l @ '':'' @ LicenseName l @ '','') (Licenses c)) @ ''|'' @
     concat (map (\<lambda>h. Algorithm h @ '':'' @ HashValue h @ '','') (Hashes c))"

record registry_stats =
  RsExamined :: int
  RsEnriched :: int
  NoPURL :: int
  PurlError :: int
  RsNotFound :: int
  RsUnsupported :: int
  RsTransient :: int
  LicensesFilled :: int
  SupplierFilled :: int
  HomepageFilled :: int
  RepoFilled :: int
  HashesFilled :: int

definition new_registry_stats :: registry_stats where
  "new_registry_stats = \<lparr>RsExamined = 0, RsEnriched = 0, NoPURL = 0, PurlError = 0, RsNotFound = 0, RsUnsupported = 0, RsTransient = 0,
     LicensesFilled = 0, SupplierFilled = 0, HomepageFilled = 0, RepoFilled = 0, HashesFilled = 0\<rparr>"

abbreviation one_if :: "bool \<Rightarrow> int" where "one_if b \<equiv> (if b then 1 else 0)"

definition applyAndCount :: "string \<Rightarrow> RMetadata \<Rightarrow> registry_stats \<Rightarrow> component_data \<Rightarrow> registry_stats \<times> component_data" where
  "applyAndCount now md st c =
     (let c' = applyMetadata now md c in
        if componentFingerprint c' = componentFingerprint c then (st, c')
        else (st\<lparr>RsEnriched := RsEnriched st + 1,
            LicensesFilled := LicensesFilled st + one_if (MdLicenses md \<noteq> []),
            SupplierFilled := SupplierFilled st + one_if (SupName (MdSupplier md) \<noteq> []),
            HomepageFilled := HomepageFilled st + one_if (Homepage md \<noteq> []),
            RepoFilled := RepoFilled st + one_if (Repository md \<noteq> []),
            HashesFilled := HashesFilled st + one_if (MdHashes md \<noteq> [])\<rparr>, c'))"

definition processComponent ::
  "('s \<Rightarrow> PURL_parts \<Rightarrow> 's \<times> (fetch_error + RMetadata)) \<Rightarrow> string \<Rightarrow> registry_stats \<times> 's \<Rightarrow> component_data \<Rightarrow>
   (registry_stats \<times> 's) \<times> component_data"
where
  "processComponent resolve now acc c =
     (let st = (fst acc)\<lparr>RsExamined := RsExamined (fst acc) + 1\<rparr>; s = snd acc in
        if PURL c = [] then ((st\<lparr>NoPURL := NoPURL st + 1\<rparr>, s), c)
        else (case ParsePURL (PURL c) of
            Inl _ \<Rightarrow> ((st\<lparr>PurlError := PurlError st + 1\<rparr>, s), c)
          | Inr purl \<Rightarrow>
              (case resolve s purl of
                 (s', Inr md) \<Rightarrow> (case applyAndCount now md st c of (st', c') \<Rightarrow> ((st', s'), c'))
               | (s', Inl NotFound) \<Rightarrow> ((st\<lparr>RsNotFound := RsNotFound st + 1\<rparr>, s'), c)
               | (s', Inl UnsupportedPURL) \<Rightarrow> ((st\<lparr>RsUnsupported := RsUnsupported st + 1\<rparr>, s'), c)
               | (s', Inl Transient) \<Rightarrow> ((st\<lparr>RsTransient := RsTransient st + 1\<rparr>, s'), c)
               | (s', Inl _) \<Rightarrow> ((st, s'), c))))"

text \<open>A nil resolver disables the enricher.\<close>

definition Enrich_registry ::
  "('s \<Rightarrow> PURL_parts \<Rightarrow> 's \<times> (fetch_error + RMetadata)) option \<Rightarrow> string \<Rightarrow> 's \<Rightarrow> SBOM \<Rightarrow> (registry_stats \<times> 's) \<times> SBOM"
where
  "Enrich_registry resolver now s sbom =
     (case resolver of None \<Rightarrow> ((new_registry_stats, s), sbom)
      | Some resolve \<Rightarrow>
          (case walk_states (processComponent resolve now) (new_registry_stats, s) (Components sbom) of
             (acc, cs) \<Rightarrow> (acc, sbom\<lparr>Components := cs\<rparr>)))"

section \<open>The fetch loop's outcome\<close>

definition others :: "(fetch_error + 'a) list \<Rightarrow> fetch_error list" where
  "others rs = concat (map (\<lambda>r. case r of Inl e \<Rightarrow> if e = NotFound \<or> e = Transient then [] else [e] | Inr _ \<Rightarrow> []) rs)"

definition successes :: "(fetch_error + 'a) list \<Rightarrow> 'a list" where
  "successes rs = concat (map (\<lambda>r. case r of Inl _ \<Rightarrow> [] | Inr v \<Rightarrow> [v]) rs)"

definition failure :: "bool \<Rightarrow> fetch_error list \<Rightarrow> fetch_error" where
  "failure transient es = (if es \<noteq> [] then last es else if transient then Transient else NotFound)"

text \<open>What a list of attempts amounts to: the first success, else the last real error, else transient, else not found.\<close>

definition outcome :: "(fetch_error + 'a) list \<Rightarrow> fetch_error + 'a" where
  "outcome rs = (case successes rs of v # _ \<Rightarrow> Inr v | [] \<Rightarrow> Inl (failure (list_ex (\<lambda>r. r = Inl Transient) rs) (others rs)))"

lemma successes_simps [simp]: "successes [] = []" "successes (Inr v # rs) = v # successes rs" "successes (Inl e # rs) = successes rs"
  by (simp_all add: successes_def)

lemma others_simps [simp]: "others [] = []" "others (Inr v # rs) = others rs"
  "others (Inl e # rs) = (if e = NotFound \<or> e = Transient then others rs else e # others rs)"
  by (simp_all add: others_def)

lemma fetch_loop_outcome:
  "fetch_loop attempt transient lastErr eps =
     (case successes (map attempt eps) of v # _ \<Rightarrow> Inr v
      | [] \<Rightarrow> Inl (failure (transient \<or> list_ex (\<lambda>r. r = Inl Transient) (map attempt eps))
          ((case lastErr of None \<Rightarrow> [] | Some e \<Rightarrow> [e]) @ others (map attempt eps))))"
proof (induction attempt transient lastErr eps rule: fetch_loop.induct)
  case (2 attempt transient lastErr ep eps)
  show ?case
  proof (cases "attempt ep")
    case (Inl e)
    with 2 show ?thesis by (cases e) (auto simp: failure_def split: list.split option.split)
  qed simp
qed (simp add: failure_def split: option.split)

section \<open>End points and requests\<close>

lemma Endpoints_mirrors_only:
  assumes "list_ex (has_mode MirrorModeReplace) (Mirrors c)"
  shows "ep \<in> set (Endpoints c suffix) \<Longrightarrow> \<exists>m \<in> set (Mirrors c). ep = mirror_endpoint suffix m"
  using assms by (auto simp: Endpoints_def)

lemma build_request_URL: "build_request env ep = Inr req \<Longrightarrow> RURL req = EURL ep"
  by (auto simp: build_request_def Let_def split: sum.splits option.splits)

lemma build_request_cong:
  "build_request (env\<lparr>Do := f\<rparr>) ep = build_request env ep"
  by (simp add: build_request_def cong: sum.case_cong option.case_cong)

lemma fetch_loop_cong:
  "(\<And>ep. ep \<in> set eps \<Longrightarrow> f ep = g ep) \<Longrightarrow> fetch_loop f transient lastErr eps = fetch_loop g transient lastErr eps"
proof (induction f transient lastErr eps rule: fetch_loop.induct)
  case (2 attempt transient lastErr ep eps)
  then show ?case by (auto split: sum.split fetch_error.split)
qed simp

section \<open>The cache interface\<close>

text \<open>
  What the resolver needs of a cache, whose operations take the time: a hit is a value stored before
  (\<open>sound_cache\<close>), and a value stored or found stays a hit (\<open>memo_cache\<close>).
\<close>

locale sound_cache =
  fixes get :: "rat \<Rightarrow> string \<Rightarrow> 's \<Rightarrow> RMetadata option option \<times> 's"
    and put :: "rat \<Rightarrow> string \<Rightarrow> RMetadata option \<Rightarrow> 's \<Rightarrow> 's"
  assumes put_sound: "fst (get t k (put t' k' v s)) = Some w \<Longrightarrow> (k = k' \<and> w = v) \<or> (\<exists>t''. fst (get t'' k s) = Some w)"
    and get_sound: "fst (get t k (snd (get t' k' s))) = Some w \<Longrightarrow> \<exists>t''. fst (get t'' k s) = Some w"

definition metadata_of :: "fetch_error + RMetadata \<Rightarrow> RMetadata option" where
  "metadata_of r = (case r of Inl _ \<Rightarrow> None | Inr m \<Rightarrow> Some m)"

definition keys_decide :: "bool \<Rightarrow> registry_source list \<Rightarrow> bool" where
  "keys_decide net srcs \<longleftrightarrow>
     (\<forall>p q. canonicalPURLKey p = canonicalPURLKey q \<longrightarrow> fst (walk_sources net srcs p) = fst (walk_sources net srcs q))"

fun resolve_run ::
  "(rat \<Rightarrow> string \<Rightarrow> 's \<Rightarrow> RMetadata option option \<times> 's) \<Rightarrow> (rat \<Rightarrow> string \<Rightarrow> RMetadata option \<Rightarrow> 's \<Rightarrow> 's) \<Rightarrow>
   bool \<Rightarrow> registry_source list \<Rightarrow> 's \<Rightarrow> (rat \<times> PURL_parts) list \<Rightarrow> RMetadata option list"
where
  "resolve_run get put net srcs s [] = []"
| "resolve_run get put net srcs s ((t, p) # reqs) =
     (case registry_Resolve (get t) (put t) net srcs s p of (s', r) \<Rightarrow> metadata_of r # resolve_run get put net srcs s' reqs)"

context sound_cache
begin

definition agrees :: "bool \<Rightarrow> registry_source list \<Rightarrow> 's \<Rightarrow> bool" where
  "agrees net srcs s \<longleftrightarrow> (\<forall>t p w. fst (get t (canonicalPURLKey p) s) = Some w \<longrightarrow> w = fst (walk_sources net srcs p))"

lemma resolve_agrees:
  assumes "keys_decide net srcs" "agrees net srcs s" "registry_Resolve (get t) (put t) net srcs s p = (s', r)"
  shows "metadata_of r = fst (walk_sources net srcs p)" "agrees net srcs s'"
proof -
  obtain c s1 where g: "get t (canonicalPURLKey p) s = (c, s1)" by fastforce
  have s1: "agrees net srcs s1"
    using get_sound [of _ _ t "canonicalPURLKey p" s] assms(2) g unfolding agrees_def by fastforce
  have put: "agrees net srcs (put t (canonicalPURLKey p) (fst (walk_sources net srcs p)) s1)"
    unfolding agrees_def
  proof (intro allI impI)
    fix t' q w
    assume "fst (get t' (canonicalPURLKey q) (put t (canonicalPURLKey p) (fst (walk_sources net srcs p)) s1)) = Some w"
    from put_sound [OF this] show "w = fst (walk_sources net srcs q)"
      using assms(1) s1 unfolding keys_decide_def agrees_def by metis
  qed
  have hit: "c = Some w \<Longrightarrow> w = fst (walk_sources net srcs p)" for w
    using assms(2) g unfolding agrees_def by (metis fst_conv)
  show "metadata_of r = fst (walk_sources net srcs p)"
    using assms(3) g hit
    by (cases c) (auto simp: registry_Resolve_def metadata_of_def Let_def split: option.splits prod.splits)
  show "agrees net srcs s'"
    using assms(3) g s1 put by (cases c) (auto simp: registry_Resolve_def Let_def split: option.splits)
qed

lemma run_agrees:
  assumes "keys_decide net srcs"
  shows "agrees net srcs s \<Longrightarrow> resolve_run get put net srcs s reqs = map (\<lambda>r. fst (walk_sources net srcs (snd r))) reqs"
proof (induction reqs arbitrary: s)
  case (Cons req reqs)
  obtain t p where req: "req = (t, p)" by fastforce
  obtain s' r where "registry_Resolve (get t) (put t) net srcs s p = (s', r)" by fastforce
  with resolve_agrees [OF assms Cons.prems this] Cons.IH show ?case by (simp add: req)
qed simp

end

locale memo_cache = sound_cache +
  assumes put_hit: "fst (get t' k (put t k v s)) = Some v"
    and get_hit: "fst (get t k s) = Some v \<Longrightarrow> fst (get t' k (snd (get t k s))) = Some v"
begin

lemma resolve_once:
  assumes "registry_Resolve (get t) (put t) net srcs s p = (s', r)" "canonicalPURLKey q = canonicalPURLKey p"
  shows "metadata_of (snd (registry_Resolve (get t') (put t') net' srcs' s' q)) = metadata_of r"
proof -
  obtain c s1 where g: "get t (canonicalPURLKey p) s = (c, s1)" by fastforce
  have "fst (get t' (canonicalPURLKey p) s') = Some (metadata_of r)"
  proof (cases c)
    case None
    then show ?thesis
      using assms(1) g put_hit by (auto simp: registry_Resolve_def metadata_of_def Let_def split: option.splits)
  next
    case (Some w)
    then have "fst (get t' (canonicalPURLKey p) s1) = Some w" using get_hit [of t "canonicalPURLKey p" s w t'] g by simp
    then show ?thesis
      using assms(1) g Some by (cases w) (auto simp: registry_Resolve_def metadata_of_def)
  qed
  then show ?thesis
    unfolding registry_Resolve_def assms(2)
    by (cases "get t' (canonicalPURLKey p) s'") (auto simp: metadata_of_def split: option.splits)
qed

end

interpretation noop: sound_cache "\<lambda>t. Noop_Get" "\<lambda>t. Noop_Set"
  by unfold_locales (simp_all add: Noop_Get_def)

interpretation memory: memo_cache "\<lambda>t. Memory_Get" "\<lambda>t. Memory_Set"
  by unfold_locales (auto simp: Memory_Get_def Memory_Set_def split: if_splits)

lemma Disk_Get_sound:
  assumes "fst (Disk_Get t k (snd (Disk_Get t' k' d))) = Some w"
  shows "fst (Disk_Get t k d) = Some w"
  using assms by (auto simp: Disk_Get_def split: option.splits if_splits prod.splits)

lemma Disk_Set_sound:
  assumes "fst (Disk_Get t k (Disk_Set t' k' v d)) = Some w"
  shows "(k = k' \<and> w = v) \<or> fst (Disk_Get t k d) = Some w"
  using assms by (auto simp: Disk_Get_def Disk_Set_def split: option.splits if_splits prod.splits)

lemma Layered_Get_hit: "fst (Layered_Get t k c) =
    (case mget (fst c) k of Some m \<Rightarrow> Some m | None \<Rightarrow> (case snd c of None \<Rightarrow> None | Some d \<Rightarrow> fst (Disk_Get t k d)))"
  by (auto simp: Layered_Get_def split: option.split prod.split)

lemma Layered_Get_state:
  "mget (fst (snd (Layered_Get t k c))) k' =
     (if k' = k \<and> fst (Layered_Get t k c) \<noteq> None then fst (Layered_Get t k c) else mget (fst c) k')"
  "snd (snd (Layered_Get t k c)) = snd c \<or>
     (\<exists>d. snd c = Some d \<and> snd (snd (Layered_Get t k c)) = Some (snd (Disk_Get t k d)))"
  by (auto simp: Layered_Get_def Memory_Set_def split: option.split prod.split)

interpretation layered: memo_cache Layered_Get Layered_Set
proof
  show "fst (Layered_Get t' k (Layered_Set t k v s)) = Some v" for t' k t v s
    by (simp add: Layered_Get_hit Layered_Set_def Memory_Set_def)
  show "fst (Layered_Get t k s) = Some v \<Longrightarrow> fst (Layered_Get t' k (snd (Layered_Get t k s))) = Some v" for t k s v t'
    by (simp add: Layered_Get_hit [of t'] Layered_Get_state)
  show "(k = k' \<and> w = v) \<or> (\<exists>t''. fst (Layered_Get t'' k s) = Some w)"
    if "fst (Layered_Get t k (Layered_Set t' k' v s)) = Some w" for t k t' k' v s w
    using that Disk_Set_sound [of t k t' k' v _ w]
    by (auto simp: Layered_Get_hit Layered_Set_def Memory_Set_def split: option.splits if_splits)
  show "\<exists>t''. fst (Layered_Get t'' k s) = Some w"
    if h: "fst (Layered_Get t k (snd (Layered_Get t' k' s))) = Some w" for t k t' k' s w
  proof (cases "k = k' \<and> fst (Layered_Get t' k' s) \<noteq> None")
    case True
    then show ?thesis using h by (auto simp: Layered_Get_hit [of t] Layered_Get_state)
  next
    case False
    then have m: "mget (fst (snd (Layered_Get t' k' s))) k = mget (fst s) k" unfolding Layered_Get_state by auto
    show ?thesis
    proof (cases "mget (fst s) k")
      case None
      then have "(case snd (snd (Layered_Get t' k' s)) of None \<Rightarrow> None | Some d \<Rightarrow> fst (Disk_Get t k d)) = Some w"
        using h m by (simp add: Layered_Get_hit [of t])
      then obtain d' where d': "snd (snd (Layered_Get t' k' s)) = Some d'" "fst (Disk_Get t k d') = Some w"
        by (auto split: option.splits)
      with Layered_Get_state(2) [of t' k' s] obtain d where "snd s = Some d" "fst (Disk_Get t k d) = Some w"
        by (metis Disk_Get_sound option.inject)
      with None show ?thesis by (auto simp: Layered_Get_hit)
    next
      case (Some v)
      then have "v = w" using h m by (simp add: Layered_Get_hit [of t])
      with Some show ?thesis by (auto simp: Layered_Get_hit)
    qed
  qed
qed

section \<open>Filling a component\<close>

definition lic_known :: "License list \<Rightarrow> RLicense \<Rightarrow> bool" where
  "lic_known ls l \<longleftrightarrow> (RLSPDXID l = [] \<and> RLName l = []) \<or> licensePresent ls l"

lemma licensePresent_append: "licensePresent (xs @ ys) l \<longleftrightarrow> licensePresent xs l \<or> licensePresent ys l"
  by (simp add: licensePresent_def)

lemma mergeLicenses_extends: "\<exists>new. mergeLicenses xs ls = xs @ new"
proof (induction ls arbitrary: xs)
  case (Cons l ls)
  show ?case using Cons.IH [of xs] Cons.IH [of "xs @ [_]"] by fastforce
qed simp

lemma lic_known_mono: "lic_known xs l \<Longrightarrow> lic_known (xs @ ys) l"
  by (auto simp: lic_known_def licensePresent_append)

lemma lic_known_added: "lic_known (xs @ [\<lparr>SPDXID = RLSPDXID l, LicenseName = RLName l, Expression = [], URL = RLURL l\<rparr>]) l"
  by (auto simp: lic_known_def licensePresent_def)

lemma mergeLicenses_keeps_known: "lic_known xs l \<Longrightarrow> lic_known (mergeLicenses xs ls) l"
  using mergeLicenses_extends [of xs ls] lic_known_mono by metis

lemma mergeLicenses_known: "list_all (lic_known (mergeLicenses xs ls)) ls"
proof (induction xs ls rule: mergeLicenses.induct)
  case (2 xs l ls)
  have "lic_known (mergeLicenses xs (l # ls)) l"
    using mergeLicenses_keeps_known [of xs l ls] mergeLicenses_keeps_known [OF lic_known_added, of xs l ls]
    by (auto simp: lic_known_def)
  then show ?case using 2 by (auto split: if_splits)
qed simp

lemma mergeLicenses_done: "list_all (lic_known xs) ls \<Longrightarrow> mergeLicenses xs ls = xs"
  by (induction ls) (auto simp: lic_known_def)

definition hash_known :: "Hash list \<Rightarrow> string \<times> string \<Rightarrow> bool" where
  "hash_known hs kv \<longleftrightarrow>
     NormalizeHashAlgorithm (fst kv) = [] \<or> snd kv = [] \<or> list_ex (\<lambda>h. Algorithm h = NormalizeHashAlgorithm (fst kv)) hs"

lemma mergeHashes_extends: "\<exists>new. mergeHashes xs hs = xs @ new"
proof (induction xs hs rule: mergeHashes.induct)
  case (2 xs alg hex hs)
  then show ?case by (auto simp: Let_def)
qed simp

lemma mergeHashes_keeps_known: "hash_known xs kv \<Longrightarrow> hash_known (mergeHashes xs hs) kv"
  using mergeHashes_extends [of xs hs] by (auto simp: hash_known_def)

lemma mergeHashes_known: "list_all (hash_known (mergeHashes xs hs)) hs"
proof (induction xs hs rule: mergeHashes.induct)
  case (2 xs alg hex hs)
  let ?a = "NormalizeHashAlgorithm alg"
  have "hash_known (xs @ [\<lparr>Algorithm = ?a, HashValue = hex\<rparr>]) (alg, hex)" by (simp add: hash_known_def)
  then have "hash_known (mergeHashes xs ((alg, hex) # hs)) (alg, hex)"
    using mergeHashes_keeps_known [of xs "(alg, hex)" hs] mergeHashes_keeps_known [of "xs @ [_]" "(alg, hex)" hs]
    by (auto simp: hash_known_def Let_def)
  then show ?case using 2 by (auto simp: Let_def)
qed simp

lemma mergeHashes_done: "list_all (hash_known xs) hs \<Longrightarrow> mergeHashes xs hs = xs"
  by (induction xs hs rule: mergeHashes.induct) (auto simp: hash_known_def Let_def)

lemma mergeHashes_algorithms: "distinct (map Algorithm xs) \<Longrightarrow> distinct (map Algorithm (mergeHashes xs hs))"
proof (induction xs hs rule: mergeHashes.induct)
  case (2 xs alg hex hs)
  have "distinct (map Algorithm (xs @ [\<lparr>Algorithm = NormalizeHashAlgorithm alg, HashValue = hex\<rparr>]))"
    if "\<not> list_ex (\<lambda>h. Algorithm h = NormalizeHashAlgorithm alg) xs"
    using 2(4) that by (auto simp: list_ex_iff)
  then show ?case using 2 by (simp add: Let_def split: if_split)
qed simp

lemma mget_fill_prop: "mget (fill_prop k v m) k' = (if k' = k \<and> v \<noteq> [] \<and> mget m k = None then Some v else mget m k')"
  by (simp add: fill_prop_def setIfAbsent_def)

lemma fill_prop_keeps: "mget m k = Some x \<Longrightarrow> mget (fill_prop k' v m) k = Some x"
  by (auto simp: mget_fill_prop)

lemma fill_prop_done: "v = [] \<or> mget m k \<noteq> None \<Longrightarrow> fill_prop k v m = m"
  by (auto simp: fill_prop_def setIfAbsent_def)

lemma formatSupplier_nonempty: "SupName s \<noteq> [] \<Longrightarrow> formatSupplier s \<noteq> []"
  by (simp add: formatSupplier_def)

lemma applyMetadata_again: "applyMetadata now md (applyMetadata now md c) = applyMetadata now md c"
proof -
  define p where "p = Properties (applyMetadata now md c)"
  have g: "mget p ''astinus:registry:source'' = Some (sourceForType (PURL c))" "mget p ''astinus:registry:fetched-at'' = Some now"
    "Homepage md = [] \<or> mget p ''astinus:registry:homepage'' \<noteq> None" "Repository md = [] \<or> mget p ''astinus:registry:repository'' \<noteq> None"
    "BugTracker md = [] \<or> mget p ''astinus:registry:bug-tracker'' \<noteq> None" "Documentation md = [] \<or> mget p ''astinus:registry:documentation'' \<noteq> None"
    by (auto simp: p_def applyMetadata_def mget_fill_prop)
  have props: "Properties (applyMetadata now md (applyMetadata now md c)) = p"
  proof -
    have "PURL (applyMetadata now md c) = PURL c" by (simp add: applyMetadata_def)
    then have "Properties (applyMetadata now md (applyMetadata now md c)) =
        fill_prop ''astinus:registry:documentation'' (Documentation md) (fill_prop ''astinus:registry:bug-tracker'' (BugTracker md)
        (fill_prop ''astinus:registry:repository'' (Repository md) (fill_prop ''astinus:registry:homepage'' (Homepage md)
        (mput ''astinus:registry:fetched-at'' now (mput ''astinus:registry:source'' (sourceForType (PURL c)) p)))))"
      by (simp add: applyMetadata_def [of now md "applyMetadata now md c"] p_def)
    also have "\<dots> = p" using g by (simp only: mput_same fill_prop_done)
    finally show ?thesis .
  qed
  have lists: "Licenses (applyMetadata now md (applyMetadata now md c)) = Licenses (applyMetadata now md c)"
    "Hashes (applyMetadata now md (applyMetadata now md c)) = Hashes (applyMetadata now md c)"
    by (simp_all add: applyMetadata_def mergeLicenses_done [OF mergeLicenses_known] mergeHashes_done [OF mergeHashes_known])
  have texts: "Description (applyMetadata now md (applyMetadata now md c)) = Description (applyMetadata now md c)"
    "Author (applyMetadata now md (applyMetadata now md c)) = Author (applyMetadata now md c)"
    "Supplier (applyMetadata now md (applyMetadata now md c)) = Supplier (applyMetadata now md c)"
    by (simp_all add: applyMetadata_def formatSupplier_nonempty)
  show ?thesis
    by (rule component_data.equality) (rule texts lists props [unfolded p_def] | simp add: applyMetadata_def)+
qed

definition registry_frame where
  "registry_frame c = (BOMRef c, CType c, Group c, Name c, Version c, PURL c, CPEs c, CEvidence c, CLayerInfo c, COrigin c)"

interpretation registry_step: idempotent_step "applyMetadata now md" registry_frame
  by unfold_locales (simp add: applyMetadata_def registry_frame_def, rule applyMetadata_again)

text \<open>A fill only lengthens the fields of the fingerprint, so equal fingerprints mean equal fields.\<close>

lemma concat_map_longer: "length (concat (map f xs)) \<le> length (concat (map f (xs @ ys)))"
  by simp

lemma fingerprint_length:
  "length (componentFingerprint c) = 4 + length (Description c) + length (Author c) + length (Supplier c) +
     length (concat (map (\<lambda>l. SPDXID l @ '':'' @ LicenseName l @ '','') (Licenses c))) +
     length (concat (map (\<lambda>h. Algorithm h @ '':'' @ HashValue h @ '','') (Hashes c)))"
  by (simp add: componentFingerprint_def)

definition filled_fields where
  "filled_fields c = (Description c, Author c, Supplier c, Licenses c, Hashes c)"

lemma fingerprint_iff:
  "componentFingerprint (applyMetadata now md c) = componentFingerprint c \<longleftrightarrow> filled_fields (applyMetadata now md c) = filled_fields c"
proof
  let ?c = "applyMetadata now md c"
  let ?f = "\<lambda>l. SPDXID l @ '':'' @ LicenseName l @ '',''" and ?g = "\<lambda>h. Algorithm h @ '':'' @ HashValue h @ '',''"
  assume e: "componentFingerprint ?c = componentFingerprint c"
  obtain ls hs where ls: "Licenses ?c = Licenses c @ ls" and hs: "Hashes ?c = Hashes c @ hs"
    using mergeLicenses_extends mergeHashes_extends unfolding applyMetadata_def by fastforce
  have grow: "length (Description c) \<le> length (Description ?c)" "length (Author c) \<le> length (Author ?c)"
    "length (Supplier c) \<le> length (Supplier ?c)" by (simp_all add: applyMetadata_def)
  have "length (componentFingerprint ?c) = length (componentFingerprint c)" using e by simp
  then have z: "length (Description ?c) = length (Description c)" "length (Author ?c) = length (Author c)"
    "length (Supplier ?c) = length (Supplier c)" "length (concat (map ?f ls)) = 0" "length (concat (map ?g hs)) = 0"
    using grow unfolding fingerprint_length ls hs map_append concat_append length_append by linarith+
  then have "Description ?c = Description c" "Author ?c = Author c" "Supplier ?c = Supplier c" "ls = []" "hs = []"
    by (auto simp: applyMetadata_def formatSupplier_nonempty split: if_splits)
  then show "filled_fields ?c = filled_fields c" by (simp add: filled_fields_def ls hs)
qed (simp add: componentFingerprint_def filled_fields_def)

section \<open>Properties\<close>

text \<open>
  C14.  A mirror in replace mode cuts off the public registry: whatever the client would answer at other
  addresses, the outcome of a fetch depends on the requests to the mirrors alone.
\<close>
theorem FetchJSON_air_gap:
  assumes "list_ex (has_mode MirrorModeReplace) (Mirrors chain)"
    and "\<And>req m. m \<in> set (Mirrors chain) \<Longrightarrow> RURL req = joinURL (MURL m) suffix \<Longrightarrow> Do env req = other req"
  shows "FetchJSON env chain suffix src parser = FetchJSON (env\<lparr>Do := other\<rparr>) chain suffix src parser"
proof -
  have "try_endpoint env parser src ep = try_endpoint (env\<lparr>Do := other\<rparr>) parser src ep" if ep: "ep \<in> set (Endpoints chain suffix)" for ep
  proof -
    obtain m where m: "m \<in> set (Mirrors chain)" "ep = mirror_endpoint suffix m"
      using Endpoints_mirrors_only [OF assms(1) ep] by blast
    have "Do env req = other req" if "build_request env ep = Inr req" for req
      using assms(2) [OF m(1)] build_request_URL [OF that] m(2) by (simp add: mirror_endpoint_def)
    then show ?thesis by (auto simp: try_endpoint_def build_request_cong split: sum.split)
  qed
  then show ?thesis unfolding FetchJSON_def Let_def by (simp cong: fetch_loop_cong)
qed

text \<open>
  A fetch returns the first end point's success in the order replace, fallback, upstream; without one, the
  last error that is neither "not found" nor transient, then transient, then "not found".
\<close>
theorem FetchJSON_outcome:
  "FetchJSON env chain suffix src parser = outcome (map (try_endpoint env parser src) (Endpoints chain suffix))"
  by (cases "Endpoints chain suffix = []")
    (simp_all only: FetchJSON_def Let_def fetch_loop_outcome outcome_def if_True if_False simp_thms option.case append_Nil, simp add: failure_def)


text \<open>
  A second lookup of a key, at any later time, finds the first one's metadata in the cache: it does
  not depend on the sources or on the network, so a package is fetched once in a run.
\<close>
theorem registry_fetched_once:
  assumes "registry_Resolve (Layered_Get t) (Layered_Set t) net srcs s p = (s', r)" "canonicalPURLKey q = canonicalPURLKey p"
  shows "metadata_of (snd (registry_Resolve (Layered_Get t') (Layered_Set t') net' srcs' s' q)) = metadata_of r"
  by (rule layered.resolve_once [OF assms])

text \<open>
  Registry metadata only fills gaps: texts that were set stay, licenses and hashes are extended at the
  end, identity fields, CPEs and provenance are untouched, hashes keep one value per algorithm, and properties
  other than the two stamps keep their values.
\<close>
theorem applyMetadata_fills:
  assumes "applyMetadata now md c = c'" "distinct (map Algorithm (Hashes c))" "k \<noteq> ''astinus:registry:source''" "k \<noteq> ''astinus:registry:fetched-at''"
  shows "(Description c = [] \<or> Description c' = Description c) \<and> (Author c = [] \<or> Author c' = Author c) \<and>
    (Supplier c = [] \<or> Supplier c' = Supplier c) \<and> (\<exists>new. Licenses c' = Licenses c @ new) \<and> (\<exists>new. Hashes c' = Hashes c @ new) \<and>
    distinct (map Algorithm (Hashes c')) \<and> registry_frame c' = registry_frame c \<and>
    (mget (Properties c) k = None \<or> mget (Properties c') k = mget (Properties c) k) \<and> applyMetadata now md c' = c'"
proof -
  have "\<exists>new. Licenses c' = Licenses c @ new" "\<exists>new. Hashes c' = Hashes c @ new" "distinct (map Algorithm (Hashes c'))"
    using assms mergeLicenses_extends mergeHashes_extends mergeHashes_algorithms by (auto simp: applyMetadata_def)
  moreover have "mget (Properties c) k = None \<or> mget (Properties c') k = mget (Properties c) k"
  proof (cases "mget (Properties c) k")
    case (Some x)
    then have "mget (mput ''astinus:registry:fetched-at'' now (mput ''astinus:registry:source'' (sourceForType (PURL c)) (Properties c))) k = Some x"
      using assms(3,4) by simp
    then show ?thesis using assms(1) Some by (auto simp: applyMetadata_def intro!: fill_prop_keeps)
  qed simp
  moreover have "registry_frame c' = registry_frame c" "applyMetadata now md c' = c'"
    using registry_step.step_frame registry_step.step_idem assms(1) by metis+
  moreover have "Description c = [] \<or> Description c' = Description c" "Author c = [] \<or> Author c' = Author c"
    "Supplier c = [] \<or> Supplier c' = Supplier c"
    unfolding assms(1) [symmetric] by (simp_all add: applyMetadata_def)
  ultimately show ?thesis by blast
qed

text \<open>
  A component counts as enriched exactly when its description, author, supplier, licenses or hashes
  changed: the fingerprint misses no change of these and reports none that did not happen.
\<close>
theorem enriched_counts_changes:
  "RsEnriched (fst (applyAndCount now md st c)) =
     RsEnriched st + (if filled_fields (snd (applyAndCount now md st c)) = filled_fields c then 0 else 1)"
  by (simp add: applyAndCount_def Let_def fingerprint_iff)

section \<open>Witnesses and counterexamples\<close>

definition demo_mirror :: "string \<Rightarrow> MirrorEntry" where
  "demo_mirror mode = \<lparr>Ecosystem = ''npm'', MURL = ''https://m/'', MMode = mode, MAuth = None, MTLS = None, MHeaders = []\<rparr>"

definition demo_http :: "(http_request \<Rightarrow> string + http_response) \<Rightarrow> http_env" where
  "demo_http f = \<lparr>Getenv = (\<lambda>_. []), Bundle = (\<lambda>_. None), KeyPair = (\<lambda>_ _. None), NewRequestError = (\<lambda>_. None), Do = f\<rparr>"

definition answers :: "string \<Rightarrow> int \<Rightarrow> http_request \<Rightarrow> string + http_response" where
  "answers u code req = (if RURL req = u then Inr \<lparr>StatusCode = code, RBody = ''x''\<rparr> else Inl ''unreachable'')"

definition demo_chain :: "string \<Rightarrow> MirrorChain" where
  "demo_chain mode = \<lparr>Mirrors = [demo_mirror mode], Upstream = ''https://up''\<rparr>"

lemma demo_url: "joinURL ''https://m/'' ''p'' = ''https://m/p''"
  by code_simp

theorem FetchJSON_air_gap_witness:
  "FetchJSON (demo_http (answers ''https://m/p'' 404)) (demo_chain []) ''p'' ''npm'' (\<lambda>b. Inr b) =
   FetchJSON (demo_http (\<lambda>req. Inr \<lparr>StatusCode = 404, RBody = ''x''\<rparr>)) (demo_chain []) ''p'' ''npm'' (\<lambda>b. Inr b)"
proof -
  have "list_ex (has_mode MirrorModeReplace) (Mirrors (demo_chain []))"
    by (simp add: demo_chain_def demo_mirror_def has_mode_def MirrorMode_EffectiveMode_def)
  from FetchJSON_air_gap [OF this, of "''p''" "demo_http (answers ''https://m/p'' 404)" "\<lambda>req. Inr \<lparr>StatusCode = 404, RBody = ''x''\<rparr>" "''npm''" "\<lambda>b. Inr b"]
  show ?thesis by (simp add: demo_chain_def demo_mirror_def demo_url demo_http_def answers_def)
qed

text \<open>With a fallback mirror the same fetch goes on to the public registry.\<close>

lemma fallback_reaches_upstream:
  "FetchJSON (demo_http (answers ''https://up/p'' 200)) (demo_chain ''fallback'') ''p'' ''npm'' (\<lambda>b. Inr b) = Inr ''x''"
  by code_simp

text \<open>A real error at one end point hides that another answered with a transient failure.\<close>

lemma error_hides_transient:
  "outcome [Inl Transient, Inl (OtherError ''e''), Inl NotFound] = (Inl (OtherError ''e'') :: fetch_error + unit)"
  by code_simp

definition demo_md :: RMetadata where
  "demo_md = \<lparr>MdName = [], MdVersion = [], MdDescription = ''d'', MdLicenses = [], MdSupplier = \<lparr>SupName = [], SupURL = [], SupEmail = []\<rparr>,
     MdAuthor = [], Homepage = ''h'', Repository = [], BugTracker = [], Documentation = [], MdHashes = [(''sha-256'', ''ab'')], Keywords = []\<rparr>"

definition demo_source :: "fetch_error + RMetadata option \<Rightarrow> registry_source" where
  "demo_source r = \<lparr>Supports = (\<lambda>t. t = ''npm''), RequiresNetwork = True, SFetch = (\<lambda>_. r)\<rparr>"

definition demo_purl :: "string \<Rightarrow> PURL_parts" where
  "demo_purl t = \<lparr>PType = t, Namespace = [], PName = ''a'', PVersion = ''1'', Qualifiers = [], Subpath = []\<rparr>"


theorem registry_fetched_once_witness:
  "metadata_of (snd (registry_Resolve (Layered_Get 9) (Layered_Set 9) False []
     (fst (registry_Resolve (Layered_Get 0) (Layered_Set 0) True [demo_source (Inr (Some demo_md))] ([], None) (demo_purl ''npm'')))
     (demo_purl ''npm''))) = Some demo_md"
proof -
  have "metadata_of (snd (registry_Resolve (Layered_Get 0) (Layered_Set 0) True [demo_source (Inr (Some demo_md))] ([], None) (demo_purl ''npm''))) = Some demo_md"
    by code_simp
  then show ?thesis using registry_fetched_once [OF prod.collapse [symmetric] refl] by metis
qed

theorem applyMetadata_fills_witness:
  "Description (applyMetadata ''t'' demo_md (empty_component\<lparr>Description := ''mine''\<rparr>)) = ''mine''"
  using applyMetadata_fills [OF refl, of "empty_component\<lparr>Description := ''mine''\<rparr>" "''k''" "''t''" demo_md] by (simp add: empty_component_def)

text \<open>A transient failure is cached like a missing package, and an unsupported type is reported so only once.\<close>

lemma transient_is_cached:
  "map metadata_of [snd (registry_Resolve Memory_Get Memory_Set True [demo_source (Inl Transient)] [] (demo_purl ''npm'')),
     snd (registry_Resolve Memory_Get Memory_Set True [demo_source (Inr (Some demo_md))]
       (fst (registry_Resolve Memory_Get Memory_Set True [demo_source (Inl Transient)] [] (demo_purl ''npm''))) (demo_purl ''npm''))]
   = [None, None]"
  by code_simp

lemma unsupported_then_not_found:
  "snd (registry_Resolve Memory_Get Memory_Set True [demo_source (Inr None)] [] (demo_purl ''deb'')) = Inl UnsupportedPURL \<and>
   snd (registry_Resolve Memory_Get Memory_Set True [demo_source (Inr None)]
     (fst (registry_Resolve Memory_Get Memory_Set True [demo_source (Inr None)] [] (demo_purl ''deb''))) (demo_purl ''deb'')) = Inl NotFound"
  by code_simp

lemma Resolve_never_transient: "snd (registry_Resolve get put net srcs s p) \<noteq> Inl Transient"
  by (auto simp: registry_Resolve_def Let_def split: option.split prod.split)

text \<open>Properties alone do not count as enrichment, and a license list counts as filled although nothing was added.\<close>

lemma homepage_not_counted:
  "RsEnriched (fst (applyAndCount ''t'' (demo_md\<lparr>MdDescription := [], MdHashes := []\<rparr>) new_registry_stats empty_component)) = 0"
  by code_simp

lemma license_dedup_ignores_url:
  "mergeLicenses [\<lparr>SPDXID = [], LicenseName = ''L'', Expression = [], URL = ''a''\<rparr>] [\<lparr>RLSPDXID = ''MIT'', RLName = ''L'', RLURL = ''b''\<rparr>] =
     [\<lparr>SPDXID = [], LicenseName = ''L'', Expression = [], URL = ''a''\<rparr>]"
  by code_simp

end
