(* ===== verification/Lifecycle.thy ===== *)
theory Lifecycle
  imports Registry
begin

text \<open>
  The lifecycle enricher (\<open>internal/enrich/lifecycle\<close>): dates, the classification of a release cycle, the
  mapping of components to products, the online and the bundled source, the resolver with its modes, and the
  enricher.  A \<open>time.Time\<close> that comes from a date is the date, \<^const>\<open>None\<close> for Go's zero time; the clock is
  a number of nanoseconds since 1970.  The HTTP client, the JSON decoders and the snapshot are parameters.
\<close>

section \<open>Dates\<close>

record date =
  Year :: nat
  Month :: nat
  Day :: nat

definition leap :: "nat \<Rightarrow> bool" where
  "leap y \<longleftrightarrow> y mod 4 = 0 \<and> (y mod 100 \<noteq> 0 \<or> y mod 400 = 0)"

definition days_in :: "nat \<Rightarrow> nat \<Rightarrow> nat" where
  "days_in y m = (if m = 2 then (if leap y then 29 else 28) else if m \<in> set [4, 6, 9, 11] then 30 else 31)"

definition valid_date :: "date \<Rightarrow> bool" where
  "valid_date d \<longleftrightarrow> Year d < 10000 \<and> 1 \<le> Month d \<and> Month d \<le> 12 \<and> 1 \<le> Day d \<and> Day d \<le> days_in (Year d) (Month d)"

text \<open>Days from 1970-01-01, and the instant of midnight UTC.\<close>

definition unix_days :: "date \<Rightarrow> int" where
  "unix_days d =
     (let y = int (Year d) - 1 in
        365 * y + y div 4 - y div 100 + y div 400 + int (sum_list (map (days_in (Year d)) [1..<Month d])) + int (Day d) - 719163)"

definition day_ns :: int where "day_ns = 86400 * 10 ^ 9"

definition instant :: "date \<Rightarrow> int" where "instant d = unix_days d * day_ns"

definition pad :: "nat \<Rightarrow> nat \<Rightarrow> string" where
  "pad w n = replicate (w - length (nat_digits n)) (CHR ''0'') @ nat_digits n"

text \<open>\<open>t.Format("2006-01-02")\<close> and \<open>time.Parse\<close> with that layout; the first of January of year one is the zero time.\<close>

definition format_date :: "date \<Rightarrow> string" where
  "format_date d = pad 4 (Year d) @ ''-'' @ pad 2 (Month d) @ ''-'' @ pad 2 (Day d)"

definition formatDate :: "date option \<Rightarrow> string" where
  "formatDate t = (case t of None \<Rightarrow> [] | Some d \<Rightarrow> format_date d)"

definition zero_date :: date where "zero_date = \<lparr>Year = 1, Month = 1, Day = 1\<rparr>"

definition time_Parse :: "string \<Rightarrow> date option" where
  "time_Parse s =
     (if length s \<noteq> 10 \<or> s ! 4 \<noteq> CHR ''-'' \<or> s ! 7 \<noteq> CHR ''-'' then None
      else (let ys = take 4 s; ms = take 2 (drop 5 s); ds = drop 8 s in
        if \<not> list_all is_digit (ys @ ms @ ds) then None
        else (let d = \<lparr>Year = digits_val ys, Month = digits_val ms, Day = digits_val ds\<rparr> in
          if valid_date d then Some d else None)))"

definition parseDate :: "string \<Rightarrow> date option" where
  "parseDate s0 =
     (let s = TrimSpace s0 in
        if s = [] then None
        else (case time_Parse s of None \<Rightarrow> None | Some d \<Rightarrow> if d = zero_date then None else Some d))"

section \<open>Cycles and their status\<close>

record Lifecycle =
  Cycle :: string
  ReleaseDate :: "date option"
  ActiveSupportEnd :: "date option"
  EOL :: "date option"
  EOLBoolean :: string
  SupportBoolean :: string
  Latest :: string
  LTS :: bool

definition StatusActive :: string where "StatusActive = ''active''"
definition StatusMaintenance :: string where "StatusMaintenance = ''maintenance''"
definition StatusEOL :: string where "StatusEOL = ''eol''"
definition StatusUnknown :: string where "StatusUnknown = ''unknown''"

lemmas statuses = StatusActive_def StatusMaintenance_def StatusEOL_def StatusUnknown_def

definition reached :: "date option \<Rightarrow> int \<Rightarrow> bool" where
  "reached t now \<longleftrightarrow> (case t of None \<Rightarrow> False | Some d \<Rightarrow> \<not> now < instant d)"

definition ClassifyStatus :: "Lifecycle option \<Rightarrow> int \<Rightarrow> string" where
  "ClassifyStatus l now =
     (case l of None \<Rightarrow> StatusUnknown
      | Some l \<Rightarrow>
          if reached (EOL l) now then StatusEOL
          else if EOLBoolean l = ''true'' then StatusEOL
          else if reached (ActiveSupportEnd l) now then StatusMaintenance
          else if SupportBoolean l = ''false'' \<and> EOLBoolean l \<noteq> ''true'' then StatusMaintenance
          else if ReleaseDate l \<noteq> None then StatusActive
          else StatusUnknown)"

text \<open>\<open>Sub\<close> saturates at the largest durations; the division truncates towards zero.\<close>

definition duration :: "int \<Rightarrow> int" where
  "duration d = (if d > 2 ^ 63 - 1 then 2 ^ 63 - 1 else if d < - (2 ^ 63) then - (2 ^ 63) else d)"

definition quot :: "int \<Rightarrow> int \<Rightarrow> int" where
  "quot a b = sgn a * sgn b * (\<bar>a\<bar> div \<bar>b\<bar>)"

definition DaysUntilEOL :: "Lifecycle option \<Rightarrow> int \<Rightarrow> int option" where
  "DaysUntilEOL l now =
     (case l of None \<Rightarrow> None
      | Some l \<Rightarrow> (case EOL l of None \<Rightarrow> None | Some d \<Rightarrow> Some (quot (duration (instant d - now)) day_ns)))"

definition ModeOnline :: string where "ModeOnline = ''online''"
definition ModeOffline :: string where "ModeOffline = ''offline''"
definition ModeHybrid :: string where "ModeHybrid = ''hybrid''"

lemmas lifecycle_modes = ModeOnline_def ModeOffline_def ModeHybrid_def

definition Mode_IsKnown :: "string \<Rightarrow> bool" where
  "Mode_IsKnown m \<longleftrightarrow> m = ModeOnline \<or> m = ModeOffline \<or> m = ModeHybrid"

definition Mode_EffectiveMode :: "string \<Rightarrow> string" where
  "Mode_EffectiveMode m = (if m = [] then ModeHybrid else m)"

section \<open>Products\<close>

record ProductMapping =
  Product :: string
  VersionFormat :: string

abbreviation major :: "string \<Rightarrow> ProductMapping" where "major p \<equiv> \<lparr>Product = p, VersionFormat = ''major''\<rparr>"
abbreviation minor :: "string \<Rightarrow> ProductMapping" where "minor p \<equiv> \<lparr>Product = p, VersionFormat = ''major.minor''\<rparr>"

definition purlToProduct :: "ProductMapping gomap" where
  "purlToProduct =
    [(''pkg:apk/alpine'', minor ''alpine''), (''pkg:deb/debian'', major ''debian''), (''pkg:deb/ubuntu'', minor ''ubuntu''),
     (''pkg:rpm/centos'', major ''centos''), (''pkg:rpm/rhel'', major ''rhel''), (''pkg:rpm/rocky'', major ''rocky-linux''),
     (''pkg:rpm/almalinux'', major ''almalinux''), (''pkg:rpm/fedora'', major ''fedora''),
     (''pkg:rpm/amazonlinux'', major ''amazon-linux''), (''pkg:rpm/opensuse'', minor ''opensuse'')]"

definition nameToProduct :: "ProductMapping gomap" where
  "nameToProduct =
    [(''node'', major ''nodejs''), (''nodejs'', major ''nodejs''), (''python'', minor ''python''), (''python3'', minor ''python''),
     (''go'', minor ''go''), (''golang'', minor ''go''), (''openjdk'', major ''openjdk''), (''java'', major ''openjdk''),
     (''jdk'', major ''openjdk''), (''jre'', major ''openjdk''), (''ruby'', minor ''ruby''), (''php'', minor ''php''),
     (''perl'', minor ''perl''), (''rust'', minor ''rust''), (''dotnet'', major ''dotnet''),
     (''postgres'', major ''postgresql''), (''postgresql'', major ''postgresql''), (''mysql'', minor ''mysql''),
     (''mariadb'', minor ''mariadb''), (''redis'', major ''redis''), (''mongodb'', major ''mongodb''), (''sqlite'', minor ''sqlite''),
     (''cassandra'', major ''cassandra''), (''elasticsearch'', major ''elasticsearch''),
     (''kubernetes'', minor ''kubernetes''), (''docker'', major ''docker-engine''), (''containerd'', minor ''containerd''),
     (''podman'', major ''podman''), (''nginx'', minor ''nginx''), (''apache'', minor ''apache''), (''httpd'', minor ''apache''),
     (''haproxy'', minor ''haproxy''),
     (''alpine'', minor ''alpine''), (''debian'', major ''debian''), (''ubuntu'', minor ''ubuntu''), (''centos'', major ''centos''),
     (''rhel'', major ''rhel'')]"

definition formatVersion :: "string \<Rightarrow> string \<Rightarrow> string" where
  "formatVersion version fmt =
     (if version = [] then []
      else (let parts = SplitC (CHR ''.'') version in
        if fmt = ''major'' then parts ! 0
        else if fmt = ''major.minor'' then (if length parts \<ge> 2 then parts ! 0 @ ''.'' @ parts ! 1 else parts ! 0)
        else version))"

text \<open>\<open>rules\<close> is \<open>purlToProduct\<close> in the order the map is iterated.\<close>

definition MapToProduct_in :: "ProductMapping gomap \<Rightarrow> component_data \<Rightarrow> (string \<times> string) option" where
  "MapToProduct_in rules c =
     (case (if PURL c \<noteq> [] then find (\<lambda>r. HasPrefix (PURL c) (fst r)) rules else None) of
        Some (_, m) \<Rightarrow> Some (Product m, formatVersion (Version c) (VersionFormat m))
      | None \<Rightarrow>
          if Name c = [] then None
          else map_option (\<lambda>m. (Product m, formatVersion (Version c) (VersionFormat m))) (mget nameToProduct (ToLower (Name c))))"

definition MapToProduct :: "component_data \<Rightarrow> (string \<times> string) option" where
  "MapToProduct = MapToProduct_in purlToProduct"

section \<open>Sources\<close>

datatype lifecycle_error = LNotFound | LTransient | LUnsupported | LOther string

type_synonym lifecycle_source = "string \<Rightarrow> string \<Rightarrow> lifecycle_error + Lifecycle"

text \<open>A wire cycle: the raw fields are JSON texts, empty when absent.\<close>

record eolCycle =
  WCycle :: string
  WReleaseDate :: string
  WSupport :: string
  WEOL :: string
  WLatest :: string
  WLTS :: string

text \<open>\<open>unq\<close> decodes a JSON string.\<close>

definition parseDateOrBool :: "(string \<Rightarrow> string option) \<Rightarrow> string \<Rightarrow> date option \<times> string" where
  "parseDateOrBool unq raw =
     (let t = TrimSpace raw in
        if t = [] \<or> t = ''null'' then (None, [])
        else if t = ''true'' then (None, ''true'')
        else if t = ''false'' then (None, ''false'')
        else (case unq raw of None \<Rightarrow> (None, []) | Some s \<Rightarrow> (parseDate s, [])))"

definition parseLTS :: "(string \<Rightarrow> string option) \<Rightarrow> string \<Rightarrow> bool" where
  "parseLTS unq raw =
     (let t = TrimSpace raw in
        if t = ''true'' then True
        else if t = ''false'' \<or> t = [] \<or> t = ''null'' then False
        else (case unq raw of None \<Rightarrow> False | Some s \<Rightarrow> s \<noteq> []))"

definition convertCycle :: "(string \<Rightarrow> string option) \<Rightarrow> eolCycle \<Rightarrow> Lifecycle" where
  "convertCycle unq c =
     \<lparr>Cycle = WCycle c, ReleaseDate = parseDate (WReleaseDate c),
      ActiveSupportEnd = fst (parseDateOrBool unq (WSupport c)), EOL = fst (parseDateOrBool unq (WEOL c)),
      EOLBoolean = snd (parseDateOrBool unq (WEOL c)), SupportBoolean = snd (parseDateOrBool unq (WSupport c)),
      Latest = WLatest c, LTS = parseLTS unq (WLTS c)\<rparr>"

definition cycleMatches :: "string \<Rightarrow> string \<Rightarrow> bool" where
  "cycleMatches cyc version \<longleftrightarrow> cyc = version \<or> cyc = TrimPrefix version ''v''"

definition lifecycle_of :: "fetch_error \<Rightarrow> lifecycle_error" where
  "lifecycle_of e = (case e of NotFound \<Rightarrow> LNotFound | Transient \<Rightarrow> LTransient
     | NoNetwork \<Rightarrow> LOther ''registry: network required but disabled''
     | UnsupportedPURL \<Rightarrow> LOther ''registry: PURL type not supported by this source'' | OtherError t \<Rightarrow> LOther t)"

definition EOL_FetchProduct ::
  "http_env \<Rightarrow> (string \<Rightarrow> fetch_error + eolCycle list) \<Rightarrow> (string \<Rightarrow> string option) \<Rightarrow> MirrorChain \<Rightarrow> string \<Rightarrow>
   lifecycle_error + Lifecycle list"
where
  "EOL_FetchProduct env decode unq chain product =
     (if product = [] then Inl LNotFound
      else (case FetchJSON env chain (''/'' @ product @ ''.json'') ''endoflife.date'' decode of
          Inl e \<Rightarrow> Inl (case lifecycle_of e of LOther t \<Rightarrow> LOther (''lifecycle: fetch product '' @ Quote product @ '': '' @ t) | l \<Rightarrow> l)
        | Inr raw \<Rightarrow> Inr (map (convertCycle unq) raw)))"

definition EOL_Fetch ::
  "http_env \<Rightarrow> (string \<Rightarrow> fetch_error + eolCycle list) \<Rightarrow> (string \<Rightarrow> string option) \<Rightarrow> MirrorChain \<Rightarrow> lifecycle_source"
where
  "EOL_Fetch env decode unq chain product version =
     (if product = [] \<or> version = [] then Inl LNotFound
      else (case FetchJSON env chain (''/'' @ product @ ''.json'') ''endoflife.date'' decode of
          Inl e \<Rightarrow> Inl (lifecycle_of e)
        | Inr raw \<Rightarrow>
            (case find (\<lambda>c. cycleMatches (WCycle c) version) raw of
               Some c \<Rightarrow> Inr (convertCycle unq c) | None \<Rightarrow> Inl LNotFound)))"

text \<open>
  The snapshot: \<open>decode\<close> gives the products with the JSON of their cycles, \<open>cycles\<close> decodes those.
\<close>

definition parseBundledSnapshot ::
  "(string \<Rightarrow> string + (string \<times> string) list) \<Rightarrow> (string \<Rightarrow> string + eolCycle list) \<Rightarrow> (string \<Rightarrow> string option) \<Rightarrow>
   string \<Rightarrow> string + Lifecycle list gomap"
where
  "parseBundledSnapshot decode cycles unq body =
     (if body = [] then Inl ''lifecycle: empty snapshot''
      else (case decode body of Inl e \<Rightarrow> Inl (''lifecycle: parse snapshot: '' @ e)
        | Inr raw \<Rightarrow>
            foldl (\<lambda>out kv. case out of Inl e \<Rightarrow> Inl e
              | Inr m \<Rightarrow>
                  if HasPrefix (fst kv) ''_'' then Inr m
                  else (case cycles (snd kv) of
                      Inl e \<Rightarrow> Inl (''lifecycle: parse cycles for '' @ Quote (fst kv) @ '': '' @ e)
                    | Inr cs \<Rightarrow> Inr (mput (ToLower (fst kv)) (map (convertCycle unq) cs) m))) (Inr []) raw))"

definition Bundled_Fetch :: "(string + Lifecycle list gomap) \<Rightarrow> lifecycle_source" where
  "Bundled_Fetch snap product version =
     (case snap of Inl e \<Rightarrow> Inl (LOther e)
      | Inr m \<Rightarrow>
          (case mget m product of None \<Rightarrow> Inl LNotFound
           | Some cs \<Rightarrow> (case find (\<lambda>c. cycleMatches (Cycle c) version) cs of Some c \<Rightarrow> Inr c | None \<Rightarrow> Inl LNotFound)))"

definition HasProduct :: "(string + Lifecycle list gomap) \<Rightarrow> string \<Rightarrow> bool" where
  "HasProduct snap product = (case snap of Inl _ \<Rightarrow> False | Inr m \<Rightarrow> mget m product \<noteq> None)"

definition ProductCount :: "(string + Lifecycle list gomap) \<Rightarrow> nat" where
  "ProductCount snap = (case snap of Inl _ \<Rightarrow> 0 | Inr m \<Rightarrow> length m)"

section \<open>The resolver\<close>

record lifecycle_resolver =
  Online :: "(string \<times> lifecycle_source) option"
  Bundled :: "(string \<times> lifecycle_source) option"
  LMode :: string

definition NewResolver :: "(string \<times> lifecycle_source) option \<Rightarrow> (string \<times> lifecycle_source) option \<Rightarrow> string \<Rightarrow> lifecycle_resolver" where
  "NewResolver onl bun m = \<lparr>Online = onl, Bundled = bun, LMode = Mode_EffectiveMode m\<rparr>"

text \<open>The result, or whether the failure was transient.\<close>

definition tryOnline :: "lifecycle_resolver \<Rightarrow> string \<Rightarrow> string \<Rightarrow> bool + Lifecycle \<times> string" where
  "tryOnline r product version =
     (case Online r of None \<Rightarrow> Inl False
      | Some (name, fetch) \<Rightarrow>
          (case fetch product version of Inr lc \<Rightarrow> Inr (lc, name) | Inl e \<Rightarrow> Inl (e = LTransient)))"

definition finalErr :: "bool \<Rightarrow> lifecycle_error" where
  "finalErr transient = (if transient then LTransient else LNotFound)"

definition bundled_tier :: "lifecycle_resolver \<Rightarrow> bool \<Rightarrow> string \<Rightarrow> string \<Rightarrow> lifecycle_error + Lifecycle \<times> string" where
  "bundled_tier r transient product version =
     (case (if LMode r \<noteq> ModeOnline then Bundled r else None) of
        None \<Rightarrow> Inl (finalErr transient)
      | Some (name, fetch) \<Rightarrow> (case fetch product version of Inr lc \<Rightarrow> Inr (lc, name) | Inl _ \<Rightarrow> Inl (finalErr transient)))"

definition lifecycle_Resolve :: "lifecycle_resolver option \<Rightarrow> string \<Rightarrow> string \<Rightarrow> lifecycle_error + Lifecycle \<times> string" where
  "lifecycle_Resolve resolver product version =
     (case resolver of None \<Rightarrow> Inl LUnsupported
      | Some r \<Rightarrow>
          if product = [] then Inl LUnsupported
          else if LMode r \<noteq> ModeOffline then
            (case tryOnline r product version of
               Inr res \<Rightarrow> Inr res
             | Inl transient \<Rightarrow>
                 if LMode r = ModeOnline then Inl (finalErr transient) else bundled_tier r transient product version)
          else bundled_tier r False product version)"

section \<open>The enricher\<close>

record lifecycle_stats =
  LExamined :: int
  LEnriched :: int
  LUnmapped :: int
  LsNotFound :: int
  LsTransient :: int
  EolHits :: int
  LMaintenance :: int
  LActive :: int
  LUnknown :: int

definition new_lifecycle_stats :: lifecycle_stats where
  "new_lifecycle_stats = \<lparr>LExamined = 0, LEnriched = 0, LUnmapped = 0, LsNotFound = 0, LsTransient = 0, EolHits = 0, LMaintenance = 0,
     LActive = 0, LUnknown = 0\<rparr>"

definition bumpStatus :: "string \<Rightarrow> lifecycle_stats \<Rightarrow> lifecycle_stats" where
  "bumpStatus status s =
     (if status = StatusEOL then s\<lparr>EolHits := EolHits s + 1\<rparr>
      else if status = StatusMaintenance then s\<lparr>LMaintenance := LMaintenance s + 1\<rparr>
      else if status = StatusActive then s\<lparr>LActive := LActive s + 1\<rparr>
      else s\<lparr>LUnknown := LUnknown s + 1\<rparr>)"

definition PropertyLifecycleProduct :: string where "PropertyLifecycleProduct = ''astinus:lifecycle:product''"
definition PropertyLifecycleCycle :: string where "PropertyLifecycleCycle = ''astinus:lifecycle:cycle''"
definition PropertyLifecycleReleaseDate :: string where "PropertyLifecycleReleaseDate = ''astinus:lifecycle:release-date''"
definition PropertyLifecycleActiveSupportEnd :: string where "PropertyLifecycleActiveSupportEnd = ''astinus:lifecycle:active-support-end''"
definition PropertyLifecycleEOL :: string where "PropertyLifecycleEOL = ''astinus:lifecycle:eol''"
definition PropertyLifecycleLTS :: string where "PropertyLifecycleLTS = ''astinus:lifecycle:lts''"
definition PropertyLifecycleLatest :: string where "PropertyLifecycleLatest = ''astinus:lifecycle:latest''"
definition PropertyLifecycleStatus :: string where "PropertyLifecycleStatus = ''astinus:lifecycle:status''"
definition PropertyLifecycleDaysUntilEOL :: string where "PropertyLifecycleDaysUntilEOL = ''astinus:lifecycle:days-until-eol''"
definition PropertyLifecycleSource :: string where "PropertyLifecycleSource = ''astinus:lifecycle:source''"
definition PropertyLifecycleFetchedAt :: string where "PropertyLifecycleFetchedAt = ''astinus:lifecycle:fetched-at''"

lemmas lifecycle_keys = PropertyLifecycleProduct_def PropertyLifecycleCycle_def PropertyLifecycleReleaseDate_def
  PropertyLifecycleActiveSupportEnd_def PropertyLifecycleEOL_def PropertyLifecycleLTS_def PropertyLifecycleLatest_def
  PropertyLifecycleStatus_def PropertyLifecycleDaysUntilEOL_def PropertyLifecycleSource_def PropertyLifecycleFetchedAt_def

definition date_or_bool :: "date option \<Rightarrow> string \<Rightarrow> string option" where
  "date_or_bool t b = (case t of Some d \<Rightarrow> Some (format_date d) | None \<Rightarrow> if b \<noteq> [] then Some b else None)"

definition put_opt :: "string \<Rightarrow> string option \<Rightarrow> props \<Rightarrow> props" where
  "put_opt k v m = (case v of None \<Rightarrow> m | Some x \<Rightarrow> mput k x m)"

text \<open>The stamps in the order they are written; \<open>stamp\<close> is the clock as text.\<close>

definition lifecycle_stamps :: "Lifecycle \<Rightarrow> string \<Rightarrow> string \<Rightarrow> string \<Rightarrow> int \<Rightarrow> string \<Rightarrow> (string \<times> string option) list" where
  "lifecycle_stamps lc product src status now stamp =
     [(PropertyLifecycleProduct, Some product), (PropertyLifecycleCycle, Some (Cycle lc)),
      (PropertyLifecycleReleaseDate, map_option format_date (ReleaseDate lc)),
      (PropertyLifecycleActiveSupportEnd, date_or_bool (ActiveSupportEnd lc) (SupportBoolean lc)),
      (PropertyLifecycleEOL, date_or_bool (EOL lc) (EOLBoolean lc)),
      (PropertyLifecycleLTS, Some (if LTS lc then ''true'' else ''false'')),
      (PropertyLifecycleLatest, if Latest lc \<noteq> [] then Some (Latest lc) else None),
      (PropertyLifecycleStatus, Some status),
      (PropertyLifecycleDaysUntilEOL, map_option Itoa (DaysUntilEOL (Some lc) now)),
      (PropertyLifecycleSource, Some src), (PropertyLifecycleFetchedAt, Some stamp)]"

definition applyLifecycle :: "Lifecycle \<Rightarrow> string \<Rightarrow> string \<Rightarrow> string \<Rightarrow> int \<Rightarrow> string \<Rightarrow> component_data \<Rightarrow> component_data" where
  "applyLifecycle lc product src status now stamp c =
     c\<lparr>Properties := foldl (\<lambda>m kv. put_opt (fst kv) (snd kv) m) (Properties c) (lifecycle_stamps lc product src status now stamp)\<rparr>"

definition lifecycle_component ::
  "lifecycle_resolver \<Rightarrow> int \<Rightarrow> string \<Rightarrow> lifecycle_stats \<Rightarrow> component_data \<Rightarrow> lifecycle_stats \<times> component_data"
where
  "lifecycle_component r now stamp s0 c =
     (let s = s0\<lparr>LExamined := LExamined s0 + 1\<rparr> in
      case MapToProduct c of
        None \<Rightarrow> (s\<lparr>LUnmapped := LUnmapped s + 1\<rparr>, c)
      | Some (product, version) \<Rightarrow>
          (case lifecycle_Resolve (Some r) product version of
             Inr (lc, src) \<Rightarrow>
               (let status = ClassifyStatus (Some lc) now in
                  (bumpStatus status (s\<lparr>LEnriched := LEnriched s + 1\<rparr>), applyLifecycle lc product src status now stamp c))
           | Inl LNotFound \<Rightarrow> (s\<lparr>LsNotFound := LsNotFound s + 1\<rparr>, c)
           | Inl LTransient \<Rightarrow> (s\<lparr>LsTransient := LsTransient s + 1\<rparr>, c)
           | Inl _ \<Rightarrow> (s, c)))"

definition Enrich_lifecycle :: "lifecycle_resolver option \<Rightarrow> int \<Rightarrow> string \<Rightarrow> SBOM \<Rightarrow> lifecycle_stats \<times> SBOM" where
  "Enrich_lifecycle resolver now stamp sbom =
     (case resolver of None \<Rightarrow> (new_lifecycle_stats, sbom)
      | Some r \<Rightarrow>
          (case walk_states (lifecycle_component r now stamp) new_lifecycle_stats (Components sbom) of
             (s, cs) \<Rightarrow> (s, sbom\<lparr>Components := cs\<rparr>)))"

section \<open>Dates as text\<close>

lemma length_nat_digits_less: "n < 10 ^ Suc w \<Longrightarrow> length (nat_digits n) \<le> Suc w"
proof (induction w arbitrary: n)
  case 0
  then show ?case by (subst nat_digits.simps) simp
next
  case (Suc w)
  show ?case
  proof (cases "n < 10")
    case True
    then show ?thesis by (subst nat_digits.simps) simp
  next
    case False
    have "n div 10 < 10 ^ Suc w" using Suc.prems by (simp add: less_mult_imp_div_less mult.commute)
    from Suc.IH [OF this] False show ?thesis by (subst nat_digits.simps) simp
  qed
qed

lemma pad_length: "n < 10 ^ Suc w \<Longrightarrow> length (pad (Suc w) n) = Suc w"
  using length_nat_digits_less [of n w] by (simp add: pad_def)

lemma digits_val_replicate: "digits_val (replicate k (CHR ''0'') @ s) = digits_val s"
  by (induction k) (simp_all add: digits_val_def digit_val_def)

lemma pad_props: "digits_val (pad w n) = n" "list_all is_digit (pad w n)"
  using nat_digits_digits [of _ n] by (auto simp: pad_def digits_val_replicate list_all_iff) (simp add: is_digit_def)

lemma time_Parse_format: "valid_date d \<Longrightarrow> time_Parse (format_date d) = Some d"
proof -
  assume v: "valid_date d"
  have le: "Month d < 10 ^ Suc 1" "Day d < 10 ^ Suc 1" "Year d < 10 ^ Suc 3"
    using v by (auto simp: valid_date_def days_in_def split: if_splits)
  define y m e where "y = pad 4 (Year d)" and "m = pad 2 (Month d)" and "e = pad 2 (Day d)"
  have len: "length y = 4" "length m = 2" "length e = 2"
    using pad_length [OF le(1)] pad_length [OF le(2)] pad_length [OF le(3)] by (simp_all add: y_def m_def e_def numeral_eq_Suc)
  have f: "format_date d = y @ ''-'' @ m @ ''-'' @ e" by (simp add: format_date_def y_def m_def e_def)
  have digs: "list_all is_digit (y @ m @ e)" "digits_val y = Year d" "digits_val m = Month d" "digits_val e = Day d"
    by (simp_all add: y_def m_def e_def pad_props)
  have parts: "take 4 (format_date d) = y" "take 2 (drop 5 (format_date d)) = m" "drop 8 (format_date d) = e"
    "format_date d ! 4 = CHR ''-''" "format_date d ! 7 = CHR ''-''" "length (format_date d) = 10"
    using len by (simp_all add: f nth_append)
  show ?thesis unfolding time_Parse_def Let_def parts digs using v digs(1) by (cases d) (simp add: valid_date_def)
qed

lemma nat_digits_small: "d < 10 \<Longrightarrow> nat_digits d = [digit_char d]"
  by (subst nat_digits.simps) simp

lemma digit_char_0: "digit_char 0 = CHR ''0''"
  by code_simp

lemma pad_snoc:
  assumes "0 < n" "d < 10"
  shows "pad (Suc n) (10 * a + d) = pad n a @ [digit_char d]"
proof (cases "a = 0")
  case True
  obtain k where "n = Suc k" using assms(1) by (cases n) auto
  with True assms(2) show ?thesis by (simp add: pad_def nat_digits_small digit_char_0 replicate_append_same)
next
  case False
  then have "nat_digits (10 * a + d) = nat_digits a @ [digit_char d]" using assms(2) by (subst nat_digits.simps) simp
  then show ?thesis by (simp add: pad_def)
qed

lemma digit_char_val: "is_digit c \<Longrightarrow> digit_char (digit_val c) = c \<and> digit_val c < 10"
  by (auto simp: is_digit_def digit_char_def digit_val_def Let_def)

lemma pad_digits_val: "list_all is_digit s \<Longrightarrow> s \<noteq> [] \<Longrightarrow> pad (length s) (digits_val s) = s"
proof (induction s rule: rev_induct)
  case (snoc c s)
  show ?case
  proof (cases "s = []")
    case True
    then have "digits_val (s @ [c]) = digit_val c" by (simp add: digits_val_def)
    with True snoc.prems digit_char_val [of c] show ?thesis by (simp add: pad_def nat_digits_small)
  next
    case False
    with snoc digit_char_val [of c] pad_snoc [of "length s" "digit_val c" "digits_val s"]
    show ?thesis by (simp add: digits_val_append)
  qed
qed simp

lemma split10:
  assumes "length s = 10"
  shows "s = take 4 s @ [s ! 4] @ take 2 (drop 5 s) @ [s ! 7] @ drop 8 s"
proof -
  have "s = take 4 s @ s ! 4 # drop 5 s" using id_take_nth_drop [of 4 s] assms by simp
  also have "drop 5 s = take 2 (drop 5 s) @ drop 5 s ! 2 # drop 3 (drop 5 s)" using id_take_nth_drop [of 2 "drop 5 s"] assms by simp
  finally show ?thesis using assms by (simp add: nth_drop)
qed

lemma time_Parse_iff: "time_Parse s = Some d \<longleftrightarrow> valid_date d \<and> s = format_date d"
proof
  assume p: "time_Parse s = Some d"
  let ?y = "take 4 s" and ?m = "take 2 (drop 5 s)" and ?e = "drop 8 s"
  have len: "length s = 10" and sep: "s ! 4 = CHR ''-''" "s ! 7 = CHR ''-''" and dig: "list_all is_digit (?y @ ?m @ ?e)"
    and d: "d = \<lparr>Year = digits_val ?y, Month = digits_val ?m, Day = digits_val ?e\<rparr>" and v: "valid_date d"
    using p by (auto simp: time_Parse_def Let_def split: if_splits)
  have "s \<noteq> []" using len by auto
  then have "pad 4 (Year d) = ?y" "pad 2 (Month d) = ?m" "pad 2 (Day d) = ?e"
    using pad_digits_val [of ?y] pad_digits_val [of ?m] pad_digits_val [of ?e] dig len by (simp_all add: d)
  then show "valid_date d \<and> s = format_date d" using v split10 [OF len] sep by (simp add: format_date_def)
qed (auto simp: time_Parse_format)

lemma digit_not_space: "is_digit c \<Longrightarrow> \<not> is_space c"
  by (auto simp: is_digit_def is_space_def Let_def)

lemma dropWhile_none: "\<not> list_ex P s \<Longrightarrow> dropWhile P s = s"
  by (cases s) auto

lemma TrimSpace_nospace: "\<not> list_ex is_space s \<Longrightarrow> TrimSpace s = s"
  using dropWhile_none [of is_space s] dropWhile_none [of is_space "rev s"] by (simp add: TrimSpace_def list_ex_iff)

lemma format_date_shape: "TrimSpace (format_date d) = format_date d" "format_date d \<noteq> []"
proof -
  have "\<not> list_ex is_space (format_date d)"
    using pad_props(2) [of 4 "Year d"] pad_props(2) [of 2 "Month d"] pad_props(2) [of 2 "Day d"] digit_not_space
    by (auto simp: format_date_def list_ex_iff list_all_iff is_space_def)
  then show "TrimSpace (format_date d) = format_date d" by (rule TrimSpace_nospace)
qed (simp add: format_date_def)

lemma parseDate_Some: "parseDate s = Some d \<longleftrightarrow> valid_date d \<and> d \<noteq> zero_date \<and> TrimSpace s = format_date d"
proof -
  have "parseDate s = Some d \<longleftrightarrow> TrimSpace s \<noteq> [] \<and> time_Parse (TrimSpace s) = Some d \<and> d \<noteq> zero_date"
    by (auto simp: parseDate_def Let_def split: option.splits)
  then show ?thesis using format_date_shape(2) [of d] by (auto simp: time_Parse_iff)
qed

section \<open>Statuses over time\<close>

definition status_rank :: "string \<Rightarrow> nat" where
  "status_rank s = (if s = StatusEOL then 2 else if s = StatusMaintenance then 1 else 0)"

lemma reached_mono: "reached t now \<Longrightarrow> now \<le> now' \<Longrightarrow> reached t now'"
  by (auto simp: reached_def split: option.splits)

lemma ClassifyStatus_rank: "status_rank (ClassifyStatus (Some l) now) =
    (if reached (EOL l) now \<or> EOLBoolean l = ''true'' then 2
     else if reached (ActiveSupportEnd l) now \<or> SupportBoolean l = ''false'' then 1 else 0)"
  by (auto simp: ClassifyStatus_def status_rank_def statuses)

lemma quot_pos: assumes "0 < b" shows "0 < quot a b \<longleftrightarrow> b \<le> a"
proof (cases "0 < a")
  case True
  then show ?thesis using assms by (simp add: quot_def pos_imp_zdiv_pos_iff)
next
  case False
  have "0 \<le> \<bar>a\<bar> div \<bar>b\<bar>" using assms pos_imp_zdiv_nonneg_iff [of b "\<bar>a\<bar>"] by simp
  with False assms show ?thesis by (auto simp: quot_def sgn_if)
qed

lemma quot_neg: assumes "0 < b" shows "quot a b < 0 \<longleftrightarrow> a \<le> - b"
proof -
  have "quot (- a) b = - quot a b" by (simp add: quot_def sgn_minus)
  then show ?thesis using quot_pos [OF assms, of "- a"] by auto
qed

lemma day_ns_pos: "0 < day_ns" "day_ns < 2 ^ 62"
  by (simp_all add: day_ns_def)

section \<open>Products\<close>

lemma HasPrefix_comparable: "HasPrefix s p \<Longrightarrow> HasPrefix s q \<Longrightarrow> length p \<le> length q \<Longrightarrow> HasPrefix q p"
  by (metis HasPrefix_iff append_eq_append_conv_if append_take_drop_id)

text \<open>No rule's prefix begins another's, so at most one matches.\<close>

definition prefix_free :: "'a gomap \<Rightarrow> bool" where
  "prefix_free rules \<longleftrightarrow> list_all (\<lambda>r. list_all (\<lambda>q. fst r = fst q \<or> \<not> HasPrefix (fst q) (fst r)) rules) rules \<and> map_ok rules"

lemma purlToProduct_prefix_free: "prefix_free purlToProduct"
  by code_simp

lemma prefix_free_unique:
  assumes "prefix_free rules" "r \<in> set rules" "q \<in> set rules" "HasPrefix s (fst r)" "HasPrefix s (fst q)"
  shows "r = q"
proof -
  have "fst r = fst q"
    using assms HasPrefix_comparable [OF assms(4,5)] HasPrefix_comparable [OF assms(5,4)]
    by (auto simp: prefix_free_def list_all_iff) (metis linear)
  with assms(1-3) show ?thesis by (metis prefix_free_def eq_key_imp_eq_value prod.collapse)
qed

lemma find_unique_perm:
  assumes "\<And>x y. x \<in> set xs \<Longrightarrow> y \<in> set xs \<Longrightarrow> P x \<Longrightarrow> P y \<Longrightarrow> x = y" "set xs = set ys"
  shows "find P xs = find P ys"
proof (cases "find P ys")
  case None
  then have "find P xs = None" using assms(2) by (simp add: find_None_iff)
  with None show ?thesis by simp
next
  case (Some y)
  then have y: "y \<in> set xs" "P y" using assms(2) by (auto simp: find_Some_iff)
  then obtain x where "find P xs = Some x" by (metis find_None_iff not_None_eq)
  then show ?thesis using assms(1) y Some by (metis find_Some_iff nth_mem)
qed

lemma MapToProduct_nonempty: "MapToProduct c = Some (product, v) \<Longrightarrow> product \<noteq> []"
proof -
  have "list_all (\<lambda>r. Product (snd r) \<noteq> []) purlToProduct" "list_all (\<lambda>r. Product (snd r) \<noteq> []) nameToProduct"
    by code_simp+
  moreover have "find P purlToProduct = Some r \<Longrightarrow> r \<in> set purlToProduct" for P r by (metis find_Some_iff nth_mem)
  moreover have "mget nameToProduct k = Some m \<Longrightarrow> (k, m) \<in> set nameToProduct" for k m by (rule map_of_SomeD)
  ultimately show "MapToProduct c = Some (product, v) \<Longrightarrow> product \<noteq> []"
    by (fastforce simp: MapToProduct_def MapToProduct_in_def list_all_iff split: option.splits if_splits)
qed

section \<open>The resolver\<close>

definition tiers :: "lifecycle_resolver \<Rightarrow> (string \<times> lifecycle_source) option list" where
  "tiers r = (if LMode r \<noteq> ModeOffline then [Online r] else []) @ (if LMode r \<noteq> ModeOnline then [Bundled r] else [])"

text \<open>The first tier that answers, else transient when the online source was asked and said so.\<close>

definition tier_answer :: "string \<Rightarrow> string \<Rightarrow> (string \<times> lifecycle_source) option \<Rightarrow> (Lifecycle \<times> string) option" where
  "tier_answer product version t =
     (case t of None \<Rightarrow> None | Some (name, fetch) \<Rightarrow> (case fetch product version of Inr lc \<Rightarrow> Some (lc, name) | Inl _ \<Rightarrow> None))"

definition online_transient :: "lifecycle_resolver \<Rightarrow> string \<Rightarrow> string \<Rightarrow> bool" where
  "online_transient r product version \<longleftrightarrow>
     LMode r \<noteq> ModeOffline \<and> (case Online r of None \<Rightarrow> False | Some (_, fetch) \<Rightarrow> fetch product version = Inl LTransient)"

lemma resolve_tiers:
  assumes "product \<noteq> []"
  shows "lifecycle_Resolve (Some r) product version =
    (case concat (map (\<lambda>t. case tier_answer product version t of None \<Rightarrow> [] | Some a \<Rightarrow> [a]) (tiers r)) of
       a # _ \<Rightarrow> Inr a
     | [] \<Rightarrow> Inl (if online_transient r product version then LTransient else LNotFound))"
  using assms
  by (cases "Online r"; cases "Bundled r")
     (auto simp: lifecycle_Resolve_def tryOnline_def bundled_tier_def tiers_def tier_answer_def online_transient_def finalErr_def
       lifecycle_modes split: sum.split option.split prod.split)

lemma Resolve_errors: "product \<noteq> [] \<Longrightarrow> lifecycle_Resolve (Some r) product v = Inl e \<Longrightarrow> e = LNotFound \<or> e = LTransient"
  by (auto simp: resolve_tiers split: list.splits if_splits)

section \<open>Components\<close>

definition lifecycle_step :: "lifecycle_resolver \<Rightarrow> int \<Rightarrow> string \<Rightarrow> component_data \<Rightarrow> component_data" where
  "lifecycle_step r now stamp c = snd (lifecycle_component r now stamp new_lifecycle_stats c)"

lemma lifecycle_component_step: "snd (lifecycle_component r now stamp s c) = lifecycle_step r now stamp c"
  by (simp add: lifecycle_step_def lifecycle_component_def Let_def split: option.split sum.split lifecycle_error.split prod.split)

definition lifecycle_frame where
  "lifecycle_frame c = (c\<lparr>Properties := []\<rparr>, filter (\<lambda>kv. \<not> HasPrefix (fst kv) ''astinus:lifecycle:'') (Properties c))"

lemma put_opt_same: "v = None \<or> mget m k = v \<Longrightarrow> put_opt k v m = m"
  by (auto simp: put_opt_def mput_same split: option.split)

lemma mget_put_opt: "mget (put_opt k v m) k' = (if k' = k \<and> v \<noteq> None then v else mget m k')"
  by (auto simp: put_opt_def split: option.split)

abbreviation stamp_all :: "(string \<times> string option) list \<Rightarrow> props \<Rightarrow> props" where
  "stamp_all kvs m \<equiv> foldl (\<lambda>m kv. put_opt (fst kv) (snd kv) m) m kvs"

lemma stamp_all_other: "k \<notin> fst ` set kvs \<Longrightarrow> mget (stamp_all kvs m) k = mget m k"
  by (induction kvs arbitrary: m) (auto simp: mget_put_opt)

lemma stamp_all_get: "distinct (map fst kvs) \<Longrightarrow> (k, v) \<in> set kvs \<Longrightarrow> v = None \<or> mget (stamp_all kvs m) k = v"
proof (induction kvs arbitrary: m)
  case (Cons kv kvs)
  then show ?case
  proof (cases "kv = (k, v)")
    case True
    with Cons.prems have "k \<notin> fst ` set kvs" by auto
    with True stamp_all_other [OF this] show ?thesis by (auto simp: mget_put_opt)
  qed auto
qed simp

lemma stamp_all_same: "(\<And>k v. (k, v) \<in> set kvs \<Longrightarrow> v = None \<or> mget m k = v) \<Longrightarrow> stamp_all kvs m = m"
  by (induction kvs) (auto simp: put_opt_same)

lemma stamp_all_again: "distinct (map fst kvs) \<Longrightarrow> stamp_all kvs (stamp_all kvs m) = stamp_all kvs m"
  by (rule stamp_all_same) (rule stamp_all_get)

lemma stamp_all_frame:
  "list_all (\<lambda>kv. \<not> P (fst kv)) kvs \<Longrightarrow> filter (\<lambda>kv. P (fst kv)) (stamp_all kvs m) = filter (\<lambda>kv. P (fst kv)) m"
proof (induction kvs arbitrary: m)
  case (Cons kv kvs)
  then show ?case by (auto simp: put_opt_def filter_mput split: option.split)
qed simp

lemma stamp_keys:
  "distinct (map fst (lifecycle_stamps lc product src status now stamp))"
  "list_all (\<lambda>kv. \<not> \<not> HasPrefix (fst kv) ''astinus:lifecycle:'') (lifecycle_stamps lc product src status now stamp)"
  by (simp_all add: lifecycle_stamps_def lifecycle_keys)

lemma MapToProduct_frame: "MapToProduct (c\<lparr>Properties := p\<rparr>) = MapToProduct c"
  by (simp add: MapToProduct_def MapToProduct_in_def cong: option.case_cong prod.case_cong)

lemma lifecycle_step_cases:
  obtains "lifecycle_step r now stamp c = c"
  | kvs where "distinct (map fst kvs)" "list_all (\<lambda>kv. \<not> \<not> HasPrefix (fst kv) ''astinus:lifecycle:'') kvs"
      "\<And>p. lifecycle_step r now stamp (c\<lparr>Properties := p\<rparr>) = c\<lparr>Properties := stamp_all kvs p\<rparr>"
proof (cases "MapToProduct c")
  case None
  then show ?thesis using that(1) by (simp add: lifecycle_step_def lifecycle_component_def Let_def)
next
  case (Some pv)
  then obtain product v where pv: "MapToProduct c = Some (product, v)" by (cases pv) auto
  show ?thesis
  proof (cases "lifecycle_Resolve (Some r) product v")
    case (Inl e)
    then show ?thesis using that(1) pv by (cases e) (simp_all add: lifecycle_step_def lifecycle_component_def Let_def)
  next
    case (Inr res)
    then obtain lc src where "lifecycle_Resolve (Some r) product v = Inr (lc, src)" by (cases res) auto
    then show ?thesis
      using that(2) [OF stamp_keys, of lc product src "ClassifyStatus (Some lc) now" now stamp] pv
      by (simp add: lifecycle_step_def lifecycle_component_def Let_def MapToProduct_frame applyLifecycle_def)
  qed
qed

interpretation lifecycle_walk: idempotent_step "lifecycle_step r now stamp" lifecycle_frame
proof
  fix c :: component_data
  show "lifecycle_frame (lifecycle_step r now stamp c) = lifecycle_frame c"
  proof (cases rule: lifecycle_step_cases [of r now stamp c])
    case (2 kvs)
    have "lifecycle_step r now stamp c = c\<lparr>Properties := stamp_all kvs (Properties c)\<rparr>" using 2(3) [of "Properties c"] by simp
    then show ?thesis using stamp_all_frame [OF 2(2)] by (simp add: lifecycle_frame_def)
  qed simp
  show "lifecycle_step r now stamp (lifecycle_step r now stamp c) = lifecycle_step r now stamp c"
  proof (cases rule: lifecycle_step_cases [of r now stamp c])
    case (2 kvs)
    have "lifecycle_step r now stamp c = c\<lparr>Properties := stamp_all kvs (Properties c)\<rparr>" using 2(3) [of "Properties c"] by simp
    then show ?thesis using 2(3) stamp_all_again [OF 2(1)] by simp
  qed simp
qed

lemma Enrich_lifecycle_Some:
  "Enrich_lifecycle (Some r) now stamp sbom =
     (fst (walk_states (lifecycle_component r now stamp) new_lifecycle_stats (Components sbom)),
      sbom\<lparr>Components := walks (lifecycle_step r now stamp) (Components sbom)\<rparr>)"
proof -
  have "snd (walk_states (lifecycle_component r now stamp) s cs) = walks (lifecycle_step r now stamp) cs" for s cs
    by (rule walk_state_stateless(2)) (rule lifecycle_component_step)
  then show ?thesis by (simp add: Enrich_lifecycle_def split_beta)
qed

section \<open>The counters\<close>

definition accounted :: "lifecycle_stats \<Rightarrow> bool" where
  "accounted s \<longleftrightarrow> LExamined s = LEnriched s + LUnmapped s + LsNotFound s + LsTransient s \<and>
     LEnriched s = EolHits s + LMaintenance s + LActive s + LUnknown s"

lemma bumpStatus_accounted:
  "accounted (bumpStatus status (s\<lparr>LExamined := LExamined s + 1, LEnriched := LEnriched s + 1\<rparr>)) \<longleftrightarrow> accounted s"
  "LExamined (bumpStatus status s) = LExamined s"
  by (auto simp: bumpStatus_def accounted_def)

lemma lifecycle_component_stats:
  "(accounted (fst (lifecycle_component r now stamp s c)) \<longleftrightarrow> accounted s) \<and>
   LExamined (fst (lifecycle_component r now stamp s c)) = LExamined s + 1"
proof (cases "MapToProduct c")
  case None
  then show ?thesis by (auto simp: lifecycle_component_def Let_def accounted_def)
next
  case (Some pv)
  then obtain product v where pv: "MapToProduct c = Some (product, v)" by (cases pv) auto
  note ne = MapToProduct_nonempty [OF pv]
  show ?thesis
  proof (cases "lifecycle_Resolve (Some r) product v")
    case (Inl e)
    with Resolve_errors [OF ne Inl] pv show ?thesis by (auto simp: lifecycle_component_def Let_def accounted_def)
  next
    case (Inr res)
    with pv show ?thesis
      by (cases res) (simp add: lifecycle_component_def Let_def bumpStatus_accounted)
  qed
qed

section \<open>Properties\<close>

text \<open>
  C31.  A date of the API is read back exactly: \<open>parseDate\<close> gives a date just for the texts that are, up to
  blanks, the rendering of a valid calendar date other than Go's zero time.
\<close>
theorem parseDate_format: "parseDate s = Some d \<longleftrightarrow> valid_date d \<and> d \<noteq> zero_date \<and> TrimSpace s = formatDate (Some d)"
  by (simp add: parseDate_Some formatDate_def)

text \<open>As time passes a cycle only moves on, from active or unknown to maintenance to end of life.\<close>
theorem ClassifyStatus_monotone:
  "now \<le> now' \<Longrightarrow> status_rank (ClassifyStatus (Some l) now) \<le> status_rank (ClassifyStatus (Some l) now')"
  using reached_mono [of "EOL l" now now'] reached_mono [of "ActiveSupportEnd l" now now'] by (auto simp: ClassifyStatus_rank)

text \<open>
  The days until end of life agree with the status outside the last day: a positive count means the date
  is ahead, a negative one that it has passed and the status is end of life.
\<close>
theorem DaysUntilEOL_sign:
  assumes "DaysUntilEOL (Some l) now = Some n"
  shows "(0 < n \<longrightarrow> \<not> reached (EOL l) now) \<and> (n < 0 \<longrightarrow> ClassifyStatus (Some l) now = StatusEOL)"
proof -
  obtain d where d: "EOL l = Some d" "n = quot (duration (instant d - now)) day_ns"
    using assms by (auto simp: DaysUntilEOL_def split: option.splits)
  have "0 < n \<longrightarrow> now < instant d" "n < 0 \<longrightarrow> instant d < now"
    using day_ns_pos unfolding d(2) quot_pos [OF day_ns_pos(1)] quot_neg [OF day_ns_pos(1)]
    by (auto simp: duration_def split: if_splits)
  then show ?thesis using d(1) by (auto simp: reached_def ClassifyStatus_def)
qed

text \<open>
  The product of a component does not depend on the order in which the map of package URL prefixes is
  iterated.
\<close>
theorem MapToProduct_order:
  assumes "set rules = set purlToProduct"
  shows "MapToProduct_in rules c = MapToProduct c"
proof -
  have "find (\<lambda>r. HasPrefix (PURL c) (fst r)) rules = find (\<lambda>r. HasPrefix (PURL c) (fst r)) purlToProduct"
    using prefix_free_unique [OF purlToProduct_prefix_free] assms by (intro find_unique_perm) auto
  then show ?thesis by (simp add: MapToProduct_def MapToProduct_in_def)
qed

text \<open>
  The resolver returns the first answer of its tiers, the online source unless the mode is offline and
  then the snapshot unless it is online; without one it reports a transient failure exactly when the online
  source was asked and did.
\<close>
theorem lifecycle_Resolve_tiers:
  assumes "product \<noteq> []"
  shows "lifecycle_Resolve (Some (NewResolver onl bun m)) product version =
    (case concat (map (\<lambda>t. case tier_answer product version t of None \<Rightarrow> [] | Some a \<Rightarrow> [a]) (tiers (NewResolver onl bun m))) of
       a # _ \<Rightarrow> Inr a
     | [] \<Rightarrow> Inl (if online_transient (NewResolver onl bun m) product version then LTransient else LNotFound))"
  by (rule resolve_tiers [OF assms])

text \<open>
  C20.  In offline mode the enriched SBOM and the statistics do not depend on the online source: no component
  makes it ask the network.
\<close>
theorem Enrich_lifecycle_offline:
  assumes "LMode r = ModeOffline"
  shows "Enrich_lifecycle (Some r) now stamp sbom = Enrich_lifecycle (Some (r\<lparr>Online := other\<rparr>)) now stamp sbom"
proof -
  have eq: "lifecycle_Resolve (Some r) = lifecycle_Resolve (Some (r\<lparr>Online := other\<rparr>))"
    using assms by (auto simp: lifecycle_Resolve_def bundled_tier_def fun_eq_iff)
  have "lifecycle_component r now stamp = lifecycle_component (r\<lparr>Online := other\<rparr>) now stamp"
    unfolding lifecycle_component_def [abs_def] eq ..
  then show ?thesis by (simp add: Enrich_lifecycle_def)
qed

text \<open>
  Every component of the tree is examined and counted once, and every enriched one under its status.
\<close>
theorem Enrich_lifecycle_counts:
  "accounted (fst (Enrich_lifecycle (Some r) now stamp sbom)) \<and>
   LExamined (fst (Enrich_lifecycle (Some r) now stamp sbom)) = int (length (all_components (Components sbom)))"
proof -
  have "(accounted (foldl (\<lambda>s d. fst (lifecycle_component r now stamp s d)) s cs) \<longleftrightarrow> accounted s) \<and>
      LExamined (foldl (\<lambda>s d. fst (lifecycle_component r now stamp s d)) s cs) = LExamined s + int (length cs)" for s cs
    by (induction cs arbitrary: s) (simp_all add: lifecycle_component_stats)
  moreover have "accounted new_lifecycle_stats" "LExamined new_lifecycle_stats = 0"
    by (simp_all add: accounted_def new_lifecycle_stats_def)
  ultimately show ?thesis by (simp add: Enrich_lifecycle_Some walk_state_fold)
qed

text \<open>
  The enricher writes nothing but properties of its own prefix, and running it again at the same time
  changes nothing.
\<close>
theorem Enrich_lifecycle_stable:
  fixes r now stamp sbom
  defines "run \<equiv> \<lambda>s. snd (Enrich_lifecycle (Some r) now stamp s)"
  shows "map lifecycle_frame (all_components (Components (run sbom))) = map lifecycle_frame (all_components (Components sbom)) \<and>
    run (run sbom) = run sbom"
  by (simp add: run_def Enrich_lifecycle_Some lifecycle_walk.walk_tree_idem lifecycle_walk.step_frame comp_def)

section \<open>Witnesses and counterexamples\<close>

definition demo_cycle :: Lifecycle where
  "demo_cycle = \<lparr>Cycle = ''20'', ReleaseDate = Some \<lparr>Year = 2023, Month = 4, Day = 18\<rparr>, ActiveSupportEnd = None,
     EOL = Some \<lparr>Year = 2026, Month = 4, Day = 30\<rparr>, EOLBoolean = [], SupportBoolean = [], Latest = [], LTS = True\<rparr>"

definition demo_day :: "nat \<Rightarrow> nat \<Rightarrow> nat \<Rightarrow> int" where "demo_day y m d = instant \<lparr>Year = y, Month = m, Day = d\<rparr>"

lemma unix_days_values:
  "unix_days \<lparr>Year = 1970, Month = 1, Day = 1\<rparr> = 0" "unix_days \<lparr>Year = 2000, Month = 3, Day = 1\<rparr> = 11017"
  "unix_days \<lparr>Year = 2024, Month = 1, Day = 1\<rparr> = 19723" "unix_days \<lparr>Year = 2026, Month = 4, Day = 1\<rparr> = 20544"
  "unix_days \<lparr>Year = 2026, Month = 4, Day = 30\<rparr> = 20573" "unix_days \<lparr>Year = 2026, Month = 5, Day = 1\<rparr> = 20574"
  by (simp_all add: unix_days_def days_in_def leap_def upt_rec)

lemmas demo_dates = unix_days_values unix_days_values [unfolded One_nat_def] demo_day_def instant_def day_ns_def demo_cycle_def

lemma unix_days_examples: "unix_days \<lparr>Year = 1970, Month = 1, Day = 1\<rparr> = 0" "unix_days \<lparr>Year = 2000, Month = 3, Day = 1\<rparr> = 11017"
  by (rule unix_days_values)+

lemma demo_statuses:
  "ClassifyStatus (Some demo_cycle) (demo_day 2024 1 1) = StatusActive"
  "ClassifyStatus (Some demo_cycle) (demo_day 2026 5 1) = StatusEOL"
  by (simp_all add: ClassifyStatus_def reached_def demo_dates)

theorem ClassifyStatus_monotone_witness:
  "status_rank (ClassifyStatus (Some demo_cycle) (demo_day 2024 1 1)) \<le> status_rank (ClassifyStatus (Some demo_cycle) (demo_day 2026 5 1))"
proof -
  have "demo_day 2024 1 1 \<le> demo_day 2026 5 1" by (simp add: demo_dates)
  then show ?thesis by (rule ClassifyStatus_monotone)
qed

theorem DaysUntilEOL_sign_witness: "\<not> reached (EOL demo_cycle) (demo_day 2026 4 1)"
proof -
  have "DaysUntilEOL (Some demo_cycle) (demo_day 2026 4 1) = Some 29" by (simp add: DaysUntilEOL_def duration_def quot_def demo_dates)
  from DaysUntilEOL_sign [OF this] show ?thesis by simp
qed

text \<open>On the last day before and on the first day after the date the count is zero.\<close>

lemma zero_days_both_sides:
  "DaysUntilEOL (Some demo_cycle) (demo_day 2026 4 30 - 1) = Some 0 \<and> DaysUntilEOL (Some demo_cycle) (demo_day 2026 4 30 + 1) = Some 0"
  by (simp add: DaysUntilEOL_def duration_def quot_def demo_dates)

theorem MapToProduct_order_witness:
  "MapToProduct_in (rev purlToProduct) (empty_component\<lparr>PURL := ''pkg:apk/alpine/musl@1.2.4'', Version := ''1.2.4''\<rparr>) = Some (''alpine'', ''1.2'')"
proof -
  have "MapToProduct (empty_component\<lparr>PURL := ''pkg:apk/alpine/musl@1.2.4'', Version := ''1.2.4''\<rparr>) = Some (''alpine'', ''1.2'')"
    by code_simp
  then show ?thesis using MapToProduct_order [of "rev purlToProduct"] by simp
qed

definition demo_source :: "string \<Rightarrow> (string \<times> lifecycle_source) option" where
  "demo_source n = Some (n, \<lambda>product version. if version = ''20'' then Inr demo_cycle else Inl LTransient)"

theorem lifecycle_Resolve_tiers_witness:
  "lifecycle_Resolve (Some (NewResolver (demo_source ''endoflife.date'') (demo_source ''bundled'') [])) ''nodejs'' ''20'' =
     Inr (demo_cycle, ''endoflife.date'')"
  using lifecycle_Resolve_tiers [of "''nodejs''" "demo_source ''endoflife.date''" "demo_source ''bundled''" "[]" "''20''"]
  by (simp add: tiers_def tier_answer_def demo_source_def NewResolver_def Mode_EffectiveMode_def lifecycle_modes)

text \<open>A transient failure is reported although the snapshot, asked as well, just had no entry.\<close>

lemma transient_despite_bundled:
  "lifecycle_Resolve (Some (NewResolver (demo_source ''endoflife.date'') (Some (''bundled'', \<lambda>_ _. Inl LNotFound)) [])) ''nodejs'' ''19'' =
     Inl LTransient"
  by code_simp

theorem Enrich_lifecycle_offline_witness:
  "Enrich_lifecycle (Some (NewResolver (demo_source ''a'') (demo_source ''b'') ''offline'')) 0 [] empty_sbom =
   Enrich_lifecycle (Some (NewResolver None (demo_source ''b'') ''offline'')) 0 [] empty_sbom"
  using Enrich_lifecycle_offline [of "NewResolver (demo_source ''a'') (demo_source ''b'') ''offline''" 0 "[]" empty_sbom None]
  by (simp add: NewResolver_def Mode_EffectiveMode_def lifecycle_modes)

end
