(* ===== verification/Cyclonedx.thy ===== *)
theory Cyclonedx
  imports Model "HOL-Library.Multiset"
begin

text \<open>
  The CycloneDX mapper (\<open>internal/sbom/cyclonedx\<close>): from the library's BOM to the canonical model and back.
  The BOM types hold the fields the mapper uses; a nil pointer to a list is the empty list, other pointers are
  options.  The decoder and the encoder of the library, the rounding \<open>f32\<close> to single precision, \<open>time.Format\<close>
  and \<open>time.Parse\<close> and the order \<open>ord\<close> in which Go iterates a map are parameters.
\<close>

section \<open>The BOM\<close>

record cdx_license =
  LcID :: string
  LcName :: string
  LcURL :: string

record cdx_license_choice =
  LcExpression :: string
  LcLicense :: "cdx_license option"

record cdx_identity =
  IdField :: string
  IdConfidence :: "rat option"

record cdx_evidence =
  XIdentity :: "cdx_identity list"
  XOccurrences :: "string list"

record cdx_data =
  XBOMRef :: string
  XType :: string
  XGroup :: string
  XCName :: string
  XCVersion :: string
  XDescription :: string
  XScope :: string
  XPackageURL :: string
  XCPE :: string
  XAuthor :: string
  XPublisher :: string
  XCopyright :: string
  XSupplier :: "string option"
  XHashes :: "(string \<times> string) list"
  XLicenses :: "cdx_license_choice list"
  XEvidence :: "cdx_evidence option"
  XProps :: "(string \<times> string) list"

datatype cdx_component = CdxComponent (xdata: cdx_data) (XComponents: "cdx_component list")

definition empty_cdx :: cdx_data where
  "empty_cdx = \<lparr>XBOMRef = [], XType = [], XGroup = [], XCName = [], XCVersion = [], XDescription = [], XScope = [], XPackageURL = [],
     XCPE = [], XAuthor = [], XPublisher = [], XCopyright = [], XSupplier = None, XHashes = [], XLicenses = [], XEvidence = None,
     XProps = []\<rparr>"

record cdx_tools =
  TcComponents :: "cdx_component list"
  TcTools :: "Tool list"

record cdx_metadata =
  XTimestamp :: string
  XAuthors :: "string list"
  XTools :: "cdx_tools option"
  XComponent :: "cdx_component option"
  XMProps :: "(string \<times> string) list"

record cdx_dependency =
  DRef :: string
  DDependencies :: "string list"
  DProvides :: "string list"

record cdx_bom =
  SpecVersion :: string
  BProps :: "(string \<times> string) list"
  BMetadata :: "cdx_metadata option"
  BComponents :: "cdx_component list"
  BDependencies :: "cdx_dependency list"

section \<open>Leaves\<close>

definition SpecVersionPrimary :: string where "SpecVersionPrimary = ''1.6''"

definition componentTypeMap :: "string gomap" where
  "componentTypeMap =
    [(''application'', ComponentTypeApplication), (''container'', ComponentTypeContainer), (''device'', ComponentTypeDevice),
     (''file'', ComponentTypeFile), (''firmware'', ComponentTypeFirmware), (''framework'', ComponentTypeFramework),
     (''library'', ComponentTypeLibrary), (''operating-system'', ComponentTypeOS), (''platform'', ComponentTypePlatform)]"

definition canonicalToCDX :: "string gomap" where
  "canonicalToCDX = map (\<lambda>kv. (snd kv, fst kv)) componentTypeMap"

definition mapComponentTypeFromCDX :: "string \<Rightarrow> string" where
  "mapComponentTypeFromCDX t = (case mget componentTypeMap t of Some v \<Rightarrow> v | None \<Rightarrow> ComponentTypeUnknown)"

definition mapComponentTypeToCDX :: "string \<Rightarrow> string" where
  "mapComponentTypeToCDX t = (case mget canonicalToCDX t of Some v \<Rightarrow> v | None \<Rightarrow> t)"

definition propsFromCDX :: "(string \<times> string) list \<Rightarrow> props" where
  "propsFromCDX ps = foldl (\<lambda>m p. mput (fst p) (snd p) m) [] ps"

text \<open>\<open>sort.Strings\<close> of the keys: a map's entries are sorted by key.\<close>

definition mapToCDXProperties :: "props \<Rightarrow> (string \<times> string) list" where
  "mapToCDXProperties m = sort_key fst m"

definition mergeProperties :: "props \<Rightarrow> props \<Rightarrow> props" where
  "mergeProperties base extra = foldl (\<lambda>m p. mput (fst p) (snd p) m) base extra"

definition toCDXHashName :: "string \<Rightarrow> string" where
  "toCDXHashName s =
     (if s = ''md5'' then ''MD5'' else if s = ''sha1'' then ''SHA-1'' else if s = ''sha256'' then ''SHA-256''
      else if s = ''sha384'' then ''SHA-384'' else if s = ''sha512'' then ''SHA-512''
      else if s = ''blake2b-256'' then ''BLAKE2b-256'' else if s = ''blake2b-512'' then ''BLAKE2b-512''
      else if s = ''blake3'' then ''BLAKE3'' else if s = ''swhid'' then ''SWHID'' else s)"

definition hashesFromCDX :: "(string \<times> string) list \<Rightarrow> Hash list" where
  "hashesFromCDX hs = map (\<lambda>h. \<lparr>Algorithm = NormalizeHashAlgorithm (fst h), HashValue = snd h\<rparr>) hs"

definition hashesToCDX :: "Hash list \<Rightarrow> (string \<times> string) list" where
  "hashesToCDX hs = map (\<lambda>h. (toCDXHashName (Algorithm h), HashValue h)) hs"

definition license_from :: "cdx_license_choice \<Rightarrow> License list" where
  "license_from lc =
     (if LcExpression lc \<noteq> [] then [\<lparr>SPDXID = [], LicenseName = [], Expression = LcExpression lc, URL = []\<rparr>]
      else (case LcLicense lc of None \<Rightarrow> []
        | Some l \<Rightarrow>
            (let m = \<lparr>SPDXID = LcID l, LicenseName = LcName l, Expression = [], URL = LcURL l\<rparr> in
               if License_IsEmpty m then [] else [m])))"

definition licensesFromCDX :: "cdx_license_choice list \<Rightarrow> License list" where
  "licensesFromCDX lcs = concat (map license_from lcs)"

definition license_to :: "License \<Rightarrow> cdx_license_choice list" where
  "license_to l =
     (if License_IsEmpty l then []
      else if IsExpression l then [\<lparr>LcExpression = Expression l, LcLicense = None\<rparr>]
      else [\<lparr>LcExpression = [], LcLicense = Some \<lparr>LcID = SPDXID l, LcName = LicenseName l, LcURL = URL l\<rparr>\<rparr>])"

definition licensesToCDX :: "License list \<Rightarrow> cdx_license_choice list" where
  "licensesToCDX ls = concat (map license_to ls)"

definition evidenceFromCDX :: "cdx_evidence option \<Rightarrow> Evidence option" where
  "evidenceFromCDX e =
     (case e of None \<Rightarrow> None
      | Some e \<Rightarrow>
          (let out = \<lparr>Method = (case XIdentity e of [] \<Rightarrow> [] | i # _ \<Rightarrow> IdField i),
                 EvConfidence = (case XIdentity e of [] \<Rightarrow> 0 | i # _ \<Rightarrow> (case IdConfidence i of None \<Rightarrow> 0 | Some c \<Rightarrow> c)),
                 Locations = map (\<lambda>p. \<lparr>Path = p, LineNo = 0\<rparr>) (filter (\<lambda>p. p \<noteq> []) (XOccurrences e))\<rparr>
           in if Evidence_IsZero out then None else Some out))"

definition evidenceToCDX :: "(rat \<Rightarrow> rat) \<Rightarrow> Evidence option \<Rightarrow> cdx_evidence option" where
  "evidenceToCDX f32 e =
     (case e of None \<Rightarrow> None
      | Some e \<Rightarrow>
          if Evidence_IsZero e then None
          else Some \<lparr>XIdentity = (if Method e \<noteq> [] \<or> EvConfidence e \<noteq> 0
              then [\<lparr>IdField = Method e, IdConfidence = Some (f32 (EvConfidence e))\<rparr>] else []),
            XOccurrences = map Path (Locations e)\<rparr>)"

section \<open>Astinus properties\<close>

definition PropertyOrigin :: string where "PropertyOrigin = ''astinus:origin''"
definition PropertyLayerDigest :: string where "PropertyLayerDigest = ''astinus:layer:digest''"
definition PropertyLayerIndex :: string where "PropertyLayerIndex = ''astinus:layer:index''"
definition PropertyLayerDockerfileLine :: string where "PropertyLayerDockerfileLine = ''astinus:layer:dockerfile-line''"
definition PropertyLayerAddedBy :: string where "PropertyLayerAddedBy = ''astinus:layer:added-by''"

lemmas hydrated_keys = PropertyOrigin_def PropertyLayerDigest_def PropertyLayerIndex_def PropertyLayerDockerfileLine_def PropertyLayerAddedBy_def

abbreviation cpe_prefix :: string where "cpe_prefix \<equiv> ''astinus:cpe:''"

text \<open>\<open>strconv.Atoi\<close>.\<close>

definition Atoi :: "string \<Rightarrow> int option" where
  "Atoi s =
     (let neg = (s \<noteq> [] \<and> hd s = CHR ''-'');
          ds = (if s \<noteq> [] \<and> (hd s = CHR ''-'' \<or> hd s = CHR ''+'') then tl s else s);
          v = (if neg then - int (digits_val ds) else int (digits_val ds))
      in if ds = [] \<or> \<not> list_all is_digit ds \<or> v < - (2 ^ 63) \<or> 2 ^ 63 \<le> v then None else Some v)"

definition layer_keys :: "string list" where
  "layer_keys = [PropertyLayerDigest, PropertyLayerIndex, PropertyLayerDockerfileLine, PropertyLayerAddedBy]"

definition hydrated_layer :: "props \<Rightarrow> LayerInfo option" where
  "hydrated_layer ps =
     (if list_ex (\<lambda>k. mget ps k \<noteq> None) layer_keys then
        Some \<lparr>LayerDigest = mval ps PropertyLayerDigest,
          LayerIndex = (case mget ps PropertyLayerIndex of None \<Rightarrow> 0 | Some v \<Rightarrow> (case Atoi v of None \<Rightarrow> 0 | Some n \<Rightarrow> n)),
          DockerfileLine = mval ps PropertyLayerDockerfileLine, AddedBy = mval ps PropertyLayerAddedBy\<rparr>
      else None)"

definition hydrateAstinusFields :: "(props \<Rightarrow> props) \<Rightarrow> component_data \<Rightarrow> component_data" where
  "hydrateAstinusFields ord c =
     (let ps = Properties c;
          rest = filter (\<lambda>kv. fst kv \<noteq> PropertyOrigin \<and> fst kv \<notin> set layer_keys) ps
      in c\<lparr>COrigin := (case mget ps PropertyOrigin of Some v \<Rightarrow> v | None \<Rightarrow> COrigin c),
           CLayerInfo := (case hydrated_layer ps of Some li \<Rightarrow> Some li | None \<Rightarrow> CLayerInfo c),
           CPEs := CPEs c @ map snd (filter (\<lambda>kv. HasPrefix (fst kv) cpe_prefix) (ord rest)),
           Properties := filter (\<lambda>kv. \<not> HasPrefix (fst kv) cpe_prefix) rest\<rparr>)"

definition cpe_key :: "nat \<Rightarrow> string" where "cpe_key i = cpe_prefix @ nat_digits i"

definition astinusProperties :: "component_data \<Rightarrow> props" where
  "astinusProperties c =
     (if COrigin c \<noteq> [] then [(PropertyOrigin, COrigin c)] else []) @
     (case CLayerInfo c of None \<Rightarrow> []
      | Some li \<Rightarrow>
          (if LayerDigest li \<noteq> [] then [(PropertyLayerDigest, LayerDigest li)] else []) @
          [(PropertyLayerIndex, Itoa (LayerIndex li))] @
          (if DockerfileLine li \<noteq> [] then [(PropertyLayerDockerfileLine, DockerfileLine li)] else []) @
          (if AddedBy li \<noteq> [] then [(PropertyLayerAddedBy, AddedBy li)] else [])) @
     map (\<lambda>i. (cpe_key i, CPEs c ! i)) [1..<length (CPEs c)]"

section \<open>Components\<close>

definition data_from :: "(props \<Rightarrow> props) \<Rightarrow> cdx_data \<Rightarrow> component_data" where
  "data_from ord c = hydrateAstinusFields ord
     \<lparr>BOMRef = XBOMRef c, CType = mapComponentTypeFromCDX (XType c), Group = XGroup c, Name = XCName c, Version = XCVersion c,
      Description = XDescription c, Scope = XScope c, PURL = XPackageURL c, CPEs = (if XCPE c \<noteq> [] then [XCPE c] else []),
      Hashes = hashesFromCDX (XHashes c), Licenses = licensesFromCDX (XLicenses c),
      Supplier = (case XSupplier c of None \<Rightarrow> [] | Some s \<Rightarrow> s), Author = XAuthor c, Publisher = XPublisher c,
      Copyright = XCopyright c, Properties = propsFromCDX (XProps c), CEvidence = evidenceFromCDX (XEvidence c), CLayerInfo = None,
      COrigin = []\<rparr>"

fun componentFromCDX :: "(props \<Rightarrow> props) \<Rightarrow> cdx_component \<Rightarrow> component" where
  "componentFromCDX ord (CdxComponent c subs) = Component (data_from ord c) (map (componentFromCDX ord) subs)"

definition data_to :: "(rat \<Rightarrow> rat) \<Rightarrow> component_data \<Rightarrow> cdx_data" where
  "data_to f32 c =
     \<lparr>XBOMRef = BOMRef c, XType = mapComponentTypeToCDX (CType c), XGroup = Group c, XCName = Name c, XCVersion = Version c,
      XDescription = Description c, XScope = Scope c, XPackageURL = PURL c, XCPE = (case CPEs c of [] \<Rightarrow> [] | p # _ \<Rightarrow> p),
      XAuthor = Author c, XPublisher = Publisher c, XCopyright = Copyright c,
      XSupplier = (if Supplier c \<noteq> [] then Some (Supplier c) else None), XHashes = hashesToCDX (Hashes c),
      XLicenses = licensesToCDX (Licenses c), XEvidence = evidenceToCDX f32 (CEvidence c),
      XProps = mapToCDXProperties (mergeProperties (Properties c) (astinusProperties c))\<rparr>"

fun componentToCDX :: "(rat \<Rightarrow> rat) \<Rightarrow> component \<Rightarrow> cdx_component" where
  "componentToCDX f32 (Component c subs) = CdxComponent (data_to f32 c) (map (componentToCDX f32) subs)"

section \<open>Relationships\<close>

definition RelationshipDependsOn :: string where "RelationshipDependsOn = ''depends-on''"
definition RelationshipProvides :: string where "RelationshipProvides = ''provides''"
definition RelationshipContains :: string where "RelationshipContains = ''contains''"
definition RelationshipUnknown :: string where "RelationshipUnknown = ''unknown''"

definition relationshipsFromCDX :: "cdx_dependency list \<Rightarrow> Relationship list" where
  "relationshipsFromCDX ds = concat (map (\<lambda>d.
     map (\<lambda>t. \<lparr>SourceRef = DRef d, TargetRef = t, RelType = RelationshipDependsOn\<rparr>) (DDependencies d) @
     map (\<lambda>t. \<lparr>SourceRef = DRef d, TargetRef = t, RelType = RelationshipProvides\<rparr>) (DProvides d)) ds)"

definition add_relationship :: "Relationship \<Rightarrow> cdx_dependency \<Rightarrow> cdx_dependency" where
  "add_relationship r d =
     (if RelType r = RelationshipDependsOn then d\<lparr>DDependencies := DDependencies d @ [TargetRef r]\<rparr>
      else if RelType r = RelationshipProvides then d\<lparr>DProvides := DProvides d @ [TargetRef r]\<rparr>
      else d)"

text \<open>The entries in the order of their sources' first occurrences.\<close>

fun group_relationship :: "Relationship \<Rightarrow> cdx_dependency list \<Rightarrow> cdx_dependency list" where
  "group_relationship r [] = [add_relationship r \<lparr>DRef = SourceRef r, DDependencies = [], DProvides = []\<rparr>]"
| "group_relationship r (d # ds) = (if DRef d = SourceRef r then add_relationship r d # ds else d # group_relationship r ds)"

definition relationshipsToCDX :: "Relationship list \<Rightarrow> cdx_dependency list" where
  "relationshipsToCDX rs = foldl (\<lambda>ds r. group_relationship r ds) [] rs"

section \<open>Metadata and the whole\<close>

definition toolsFromCDX :: "cdx_tools option \<Rightarrow> Tool list" where
  "toolsFromCDX tools =
     (case tools of None \<Rightarrow> []
      | Some tc \<Rightarrow>
          map (\<lambda>c. \<lparr>Vendor = (case XSupplier (xdata c) of Some s \<Rightarrow> s | None \<Rightarrow> XGroup (xdata c)),
            ToolName = XCName (xdata c), ToolVersion = XCVersion (xdata c)\<rparr>) (TcComponents tc) @ TcTools tc)"

definition toolsToCDX :: "Tool list \<Rightarrow> cdx_tools" where
  "toolsToCDX ts = \<lparr>TcComponents = map (\<lambda>t. CdxComponent (empty_cdx\<lparr>XType := ''application'', XCName := ToolName t, XCVersion := ToolVersion t,
     XSupplier := (if Vendor t \<noteq> [] then Some (Vendor t) else None)\<rparr>) []) ts, TcTools = []\<rparr>"

definition timestamp_layouts :: "string list" where
  "timestamp_layouts = [''2006-01-02T15:04:05.999999999Z07:00'', ''2006-01-02T15:04:05Z07:00'', ''2006-01-02T15:04:05Z'', ''2006-01-02T15:04:05'']"

fun parseTimestamp :: "(string \<Rightarrow> string \<Rightarrow> int option) \<Rightarrow> string list \<Rightarrow> string \<Rightarrow> int option" where
  "parseTimestamp tparse [] s = None"
| "parseTimestamp tparse (layout # ls) s = (case tparse layout s of Some t \<Rightarrow> Some t | None \<Rightarrow> parseTimestamp tparse ls s)"

definition metadataFromCDX :: "(string \<Rightarrow> string \<Rightarrow> int option) \<Rightarrow> (props \<Rightarrow> props) \<Rightarrow> cdx_metadata \<Rightarrow> Metadata" where
  "metadataFromCDX tparse ord md =
     \<lparr>Timestamp = (if XTimestamp md \<noteq> [] then parseTimestamp tparse timestamp_layouts (XTimestamp md) else None),
      Authors = filter (\<lambda>n. n \<noteq> []) (map TrimSpace (XAuthors md)), Tools = toolsFromCDX (XTools md),
      MComponent = map_option (componentFromCDX ord) (XComponent md), MProperties = propsFromCDX (XMProps md)\<rparr>"

definition metadataToCDX :: "(int \<Rightarrow> string) \<Rightarrow> (rat \<Rightarrow> rat) \<Rightarrow> Metadata \<Rightarrow> cdx_metadata option" where
  "metadataToCDX tformat f32 md =
     (let props = mapToCDXProperties (MProperties md) in
        if Timestamp md = None \<and> Authors md = [] \<and> Tools md = [] \<and> MComponent md = None \<and> props = [] then None
        else Some \<lparr>XTimestamp = (case Timestamp md of None \<Rightarrow> [] | Some t \<Rightarrow> tformat t), XAuthors = Authors md,
          XTools = (if Tools md \<noteq> [] then Some (toolsToCDX (Tools md)) else None),
          XComponent = map_option (componentToCDX f32) (MComponent md), XMProps = props\<rparr>)"

definition fromCDX :: "(string \<Rightarrow> string \<Rightarrow> int option) \<Rightarrow> (props \<Rightarrow> props) \<Rightarrow> cdx_bom \<Rightarrow> string \<Rightarrow> string \<Rightarrow> SBOM" where
  "fromCDX tparse ord bom raw fmt =
     \<lparr>SMetadata = (case BMetadata bom of None \<Rightarrow> empty_metadata | Some md \<Rightarrow> metadataFromCDX tparse ord md),
      Components = map (componentFromCDX ord) (BComponents bom), Relationships = relationshipsFromCDX (BDependencies bom),
      SProperties = propsFromCDX (BProps bom), SourceFormat = fmt, SourceRaw = raw\<rparr>"

definition toCDX :: "(int \<Rightarrow> string) \<Rightarrow> (rat \<Rightarrow> rat) \<Rightarrow> SBOM \<Rightarrow> cdx_bom" where
  "toCDX tformat f32 sbom =
     \<lparr>SpecVersion = SpecVersionPrimary, BProps = mapToCDXProperties (SProperties sbom),
      BMetadata = metadataToCDX tformat f32 (SMetadata sbom), BComponents = map (componentToCDX f32) (Components sbom),
      BDependencies = relationshipsToCDX (Relationships sbom)\<rparr>"

section \<open>Maps in sorted order\<close>

lemma foldl_mput_append: "distinct (map fst (acc @ ps)) \<Longrightarrow> foldl (\<lambda>m p. mput (fst p) (snd p) m) acc ps = acc @ ps"
proof (induction ps arbitrary: acc)
  case (Cons p ps)
  have "mput (fst p) (snd p) acc = acc @ [p]" if "fst p \<notin> fst ` set acc" for acc :: "(string \<times> _) list"
    using that by (induction acc) auto
  with Cons show ?case by auto
qed simp

lemma propsFromCDX_ok: "map_ok ps \<Longrightarrow> propsFromCDX ps = ps"
  using foldl_mput_append [of "[]" ps] by (simp add: propsFromCDX_def)

lemma mergeProperties_disjoint: "map_ok (xs @ ys) \<Longrightarrow> mergeProperties xs ys = xs @ ys"
  unfolding mergeProperties_def by (rule foldl_mput_append)

lemma map_ok_sorted [simp]: "map_ok (mapToCDXProperties m) \<longleftrightarrow> map_ok m"
  unfolding mapToCDXProperties_def by (metis mset_eq_imp_distinct_iff mset_map mset_sort)

lemma mset_sorted [simp]: "mset (mapToCDXProperties m) = mset m"
  by (simp add: mapToCDXProperties_def)

lemma map_ok_mset: "mset m = mset n \<Longrightarrow> map_ok m \<Longrightarrow> map_ok n"
  by (metis mset_eq_imp_distinct_iff mset_map)

lemma mget_mset: assumes "mset m = mset n" "map_ok m" shows "mget m = mget n"
proof -
  have "set m = set n" using assms(1) by (rule mset_eq_setD)
  then show ?thesis using assms map_ok_mset [OF assms] by (intro map_of_eqI) (auto simp: map_of_eq_Some_iff)
qed

lemma sorted_unique:
  assumes "mset m = mset n" "map_ok m"
  shows "mapToCDXProperties m = mapToCDXProperties n"
proof -
  have "inj_on fst (set m)" using assms(2) by (simp add: distinct_map)
  then show ?thesis
    unfolding mapToCDXProperties_def using assms(1) by (intro sort_key_inj_key_eq) simp_all
qed

section \<open>The leaves' round trips\<close>

definition portable_type :: "string \<Rightarrow> bool" where
  "portable_type t \<longleftrightarrow> t \<in> snd ` set componentTypeMap \<or> t = ComponentTypeUnknown"

lemma type_roundtrip: "portable_type t \<Longrightarrow> mapComponentTypeFromCDX (mapComponentTypeToCDX t) = t"
proof -
  have "list_all (\<lambda>t. mapComponentTypeFromCDX (mapComponentTypeToCDX t) = t) (ComponentTypeUnknown # map snd componentTypeMap)"
    by code_simp
  then show "portable_type t \<Longrightarrow> ?thesis" by (auto simp: portable_type_def list_all_iff)
qed

definition portable_hash :: "Hash \<Rightarrow> bool" where
  "portable_hash h \<longleftrightarrow> NormalizeHashAlgorithm (toCDXHashName (Algorithm h)) = Algorithm h"

lemma canonical_hashes_portable:
  "list_all (\<lambda>a. portable_hash \<lparr>Algorithm = a, HashValue = v\<rparr>)
     [''md5'', ''sha1'', ''sha256'', ''sha384'', ''sha512'', ''swhid'', ''blake2b-256'', ''blake2b-512'', ''blake3'']"
  by (simp add: portable_hash_def toCDXHashName_def NormalizeHashAlgorithm_def go_defs go_char)

lemma hashes_roundtrip: "list_all portable_hash hs \<Longrightarrow> hashesFromCDX (hashesToCDX hs) = hs"
  by (induction hs) (simp_all add: hashesFromCDX_def hashesToCDX_def portable_hash_def)

definition portable_license :: "License \<Rightarrow> bool" where
  "portable_license l \<longleftrightarrow> \<not> License_IsEmpty l \<and> (IsExpression l \<longrightarrow> SPDXID l = [] \<and> LicenseName l = [] \<and> URL l = [])"

lemma license_roundtrip: "portable_license l \<Longrightarrow> concat (map license_from (license_to l)) = [l]"
  by (cases l) (auto simp: portable_license_def license_to_def license_from_def License_IsEmpty_def IsExpression_def Let_def)

lemma licenses_roundtrip: "list_all portable_license ls \<Longrightarrow> licensesFromCDX (licensesToCDX ls) = ls"
  by (induction ls) (simp_all add: licensesFromCDX_def licensesToCDX_def license_roundtrip)

definition portable_evidence :: "(rat \<Rightarrow> rat) \<Rightarrow> Evidence option \<Rightarrow> bool" where
  "portable_evidence f32 e \<longleftrightarrow>
     (case e of None \<Rightarrow> True
      | Some e \<Rightarrow> \<not> Evidence_IsZero e \<and> f32 (EvConfidence e) = EvConfidence e \<and>
          list_all (\<lambda>l. Path l \<noteq> [] \<and> LineNo l = 0) (Locations e))"

lemma evidence_roundtrip: "portable_evidence f32 e \<Longrightarrow> evidenceFromCDX (evidenceToCDX f32 e) = e"
proof (cases e)
  case (Some v)
  assume p: "portable_evidence f32 e"
  have "map ((\<lambda>p. \<lparr>Path = p, LineNo = 0\<rparr>) \<circ> Path) ls = ls \<and> filter (\<lambda>p. p \<noteq> []) (map Path ls) = map Path ls"
    if "list_all (\<lambda>l. Path l \<noteq> [] \<and> LineNo l = 0) ls" for ls
    using that by (induction ls) auto
  then show ?thesis
    using p Some by (cases v) (auto simp: portable_evidence_def evidenceFromCDX_def evidenceToCDX_def Evidence_IsZero_def Let_def)
qed (simp add: evidenceFromCDX_def evidenceToCDX_def)

lemma digits_no_sign: "ds \<noteq> [] \<Longrightarrow> list_all is_digit ds \<Longrightarrow> hd ds \<noteq> CHR ''-'' \<and> hd ds \<noteq> CHR ''+''"
  by (cases ds) (auto simp: is_digit_def)

lemma all_digits: "list_all is_digit (nat_digits n)"
  by (auto simp: list_all_iff dest: nat_digits_digits)

lemma Atoi_Itoa: "- (2 ^ 63) \<le> n \<Longrightarrow> n < 2 ^ 63 \<Longrightarrow> Atoi (Itoa n) = Some n"
  using digits_no_sign [OF nat_digits_nonempty all_digits] all_digits
  by (auto simp: Atoi_def Itoa_def Let_def)

section \<open>Components\<close>

definition reserved :: "string \<Rightarrow> bool" where
  "reserved k \<longleftrightarrow> k = PropertyOrigin \<or> k \<in> set layer_keys \<or> HasPrefix k cpe_prefix"

text \<open>What a component must satisfy for CycloneDX to carry all of it.\<close>

definition portable_data :: "(rat \<Rightarrow> rat) \<Rightarrow> component_data \<Rightarrow> bool" where
  "portable_data f32 c \<longleftrightarrow>
     portable_type (CType c) \<and> list_all portable_hash (Hashes c) \<and> list_all portable_license (Licenses c) \<and>
     portable_evidence f32 (CEvidence c) \<and> (CPEs c = [] \<or> hd (CPEs c) \<noteq> []) \<and>
     map_ok (Properties c) \<and> list_all (\<lambda>kv. \<not> reserved (fst kv)) (Properties c) \<and>
     (case CLayerInfo c of None \<Rightarrow> True | Some li \<Rightarrow> - (2 ^ 63) \<le> LayerIndex li \<and> LayerIndex li < 2 ^ 63)"

fun portable :: "(rat \<Rightarrow> rat) \<Rightarrow> component \<Rightarrow> bool" where
  "portable f32 (Component c subs) \<longleftrightarrow> portable_data f32 c \<and> list_all (portable f32) subs"

text \<open>The form in which components are compared: properties by key, additional CPEs as a multiset.\<close>

definition canon_data :: "component_data \<Rightarrow> component_data" where
  "canon_data c = c\<lparr>Properties := mapToCDXProperties (Properties c), CPEs := take 1 (CPEs c) @ sort (drop 1 (CPEs c))\<rparr>"

fun canon :: "component \<Rightarrow> component" where
  "canon (Component c subs) = Component (canon_data c) (map canon subs)"

lemma cpe_key_reserved [simp]: "HasPrefix (cpe_key i) cpe_prefix"
  by (simp add: cpe_key_def)

lemma fixed_keys_not_cpe:
  "\<not> HasPrefix PropertyOrigin cpe_prefix" "\<not> HasPrefix PropertyLayerDigest cpe_prefix" "\<not> HasPrefix PropertyLayerIndex cpe_prefix"
  "\<not> HasPrefix PropertyLayerDockerfileLine cpe_prefix" "\<not> HasPrefix PropertyLayerAddedBy cpe_prefix"
  by (simp_all add: hydrated_keys)

lemma cpe_key_fixed [simp]:
  "cpe_key i \<noteq> PropertyOrigin" "cpe_key i \<noteq> PropertyLayerDigest" "cpe_key i \<noteq> PropertyLayerIndex"
  "cpe_key i \<noteq> PropertyLayerDockerfileLine" "cpe_key i \<noteq> PropertyLayerAddedBy"
  using cpe_key_reserved [of i] fixed_keys_not_cpe by metis+

definition layer_props :: "LayerInfo option \<Rightarrow> props" where
  "layer_props l =
     (case l of None \<Rightarrow> []
      | Some li \<Rightarrow>
          (if LayerDigest li \<noteq> [] then [(PropertyLayerDigest, LayerDigest li)] else []) @
          [(PropertyLayerIndex, Itoa (LayerIndex li))] @
          (if DockerfileLine li \<noteq> [] then [(PropertyLayerDockerfileLine, DockerfileLine li)] else []) @
          (if AddedBy li \<noteq> [] then [(PropertyLayerAddedBy, AddedBy li)] else []))"

definition origin_props :: "string \<Rightarrow> props" where
  "origin_props org = (if org \<noteq> [] then [(PropertyOrigin, org)] else [])"

definition cpe_props :: "string list \<Rightarrow> props" where
  "cpe_props cpes = map (\<lambda>i. (cpe_key i, cpes ! i)) [1..<length cpes]"

lemma astinusProperties_parts: "astinusProperties c = origin_props (COrigin c) @ layer_props (CLayerInfo c) @ cpe_props (CPEs c)"
  by (simp add: astinusProperties_def origin_props_def layer_props_def cpe_props_def)

lemma cpe_props_values: "map snd (cpe_props cpes) = drop 1 cpes"
proof (cases cpes)
  case (Cons p ps)
  have "[1..<length (p # ps)] = map Suc [0..<length ps]" by (simp add: map_Suc_upt del: upt_Suc)
  then show ?thesis by (simp add: cpe_props_def comp_def Cons map_nth del: upt_Suc)
qed (simp add: cpe_props_def)

lemma fixed_keys_distinct: "distinct [PropertyOrigin, PropertyLayerDigest, PropertyLayerIndex, PropertyLayerDockerfileLine, PropertyLayerAddedBy]"
  by (simp add: hydrated_keys)

lemma cpe_props_ok: "map_ok (cpe_props cpes)" "list_all (\<lambda>kv. HasPrefix (fst kv) cpe_prefix) (cpe_props cpes)"
  by (auto simp: cpe_props_def comp_def distinct_map inj_on_def cpe_key_def nat_digits_inj list_all_iff)

lemma fixed_props_ok: "map_ok (origin_props org @ layer_props l)"
  "list_all (\<lambda>kv. fst kv \<in> set (PropertyOrigin # layer_keys)) (origin_props org @ layer_props l)"
  using fixed_keys_distinct by (auto simp: origin_props_def layer_props_def layer_keys_def split: option.split)

lemma keys_disjoint:
  "list_all (\<lambda>kv. P (fst kv)) xs \<Longrightarrow> list_all (\<lambda>kv. \<not> P (fst kv)) ys \<Longrightarrow> fst ` set xs \<inter> fst ` set ys = {}"
  by (fastforce simp: list_all_iff)

lemma fixed_not_cpe: "k \<in> set (PropertyOrigin # layer_keys) \<Longrightarrow> \<not> HasPrefix k cpe_prefix"
  using fixed_keys_not_cpe by (auto simp: layer_keys_def)

lemma astinusProperties_ok: "map_ok (astinusProperties c)" "list_all (\<lambda>kv. reserved (fst kv)) (astinusProperties c)"
proof -
  have "fst ` set (cpe_props (CPEs c)) \<inter> fst ` set (origin_props (COrigin c) @ layer_props (CLayerInfo c)) = {}"
    using fixed_props_ok(2) [of "COrigin c" "CLayerInfo c"] fixed_not_cpe
    by (intro keys_disjoint [OF cpe_props_ok(2)]) (simp only: list_all_iff, blast)
  then show "map_ok (astinusProperties c)"
    using fixed_props_ok(1) [of "COrigin c" "CLayerInfo c"] cpe_props_ok(1) [of "CPEs c"]
    unfolding astinusProperties_parts append_assoc [symmetric] by (simp add: Int_commute image_Un del: append_assoc)
  show "list_all (\<lambda>kv. reserved (fst kv)) (astinusProperties c)"
    using cpe_props_ok(2) [of "CPEs c"] fixed_props_ok(2) [of "COrigin c" "CLayerInfo c"]
    by (auto simp: astinusProperties_parts list_all_iff reserved_def)
qed

text \<open>The properties written for a portable component: its own and the reserved ones, apart.\<close>

lemma written_props:
  assumes "portable_data f32 c"
  shows "mergeProperties (Properties c) (astinusProperties c) = Properties c @ astinusProperties c"
    and "map_ok (Properties c @ astinusProperties c)"
proof -
  have "fst ` set (Properties c) \<inter> fst ` set (astinusProperties c) = {}"
    using assms astinusProperties_ok(2) [of c] by (fastforce simp: portable_data_def list_all_iff)
  then show m: "map_ok (Properties c @ astinusProperties c)"
    using assms astinusProperties_ok(1) by (simp add: portable_data_def)
  show "mergeProperties (Properties c) (astinusProperties c) = Properties c @ astinusProperties c"
    by (rule mergeProperties_disjoint [OF m])
qed

lemma mget_written:
  assumes "portable_data f32 c" "reserved k"
  shows "mget (Properties c @ astinusProperties c) k = mget (astinusProperties c) k"
proof -
  have "mget (Properties c) k = None"
    using assms by (auto simp: map_of_eq_None_iff portable_data_def list_all_iff)
  then show ?thesis by (simp add: map_add_def split: option.split)
qed

lemma mget_fixed:
  assumes "\<not> HasPrefix k cpe_prefix"
  shows "mget (astinusProperties c) k = mget (origin_props (COrigin c) @ layer_props (CLayerInfo c)) k"
proof -
  have "mget (cpe_props (CPEs c)) k = None"
    using cpe_props_ok(2) [of "CPEs c"] assms by (auto simp: map_of_eq_None_iff list_all_iff)
  then show ?thesis by (simp add: astinusProperties_parts map_add_def split: option.split)
qed

lemma hydrated_layer_props:
  assumes "\<And>k. k \<in> set layer_keys \<Longrightarrow> mget ps k = mget (layer_props l) k"
    and "case l of None \<Rightarrow> True | Some li \<Rightarrow> - (2 ^ 63) \<le> LayerIndex li \<and> LayerIndex li < 2 ^ 63"
  shows "hydrated_layer ps = l"
proof (cases l)
  case None
  then show ?thesis using assms(1) by (auto simp: hydrated_layer_def layer_props_def layer_keys_def)
next
  case (Some li)
  have a: "Atoi (Itoa (LayerIndex li)) = Some (LayerIndex li)" using assms(2) Some by (simp add: Atoi_Itoa)
  have "mget ps PropertyLayerIndex = mget (layer_props l) PropertyLayerIndex" "mget ps PropertyLayerDigest = mget (layer_props l) PropertyLayerDigest"
    "mget ps PropertyLayerDockerfileLine = mget (layer_props l) PropertyLayerDockerfileLine"
    "mget ps PropertyLayerAddedBy = mget (layer_props l) PropertyLayerAddedBy"
    by (simp_all add: assms(1) layer_keys_def)
  then have "mget ps PropertyLayerIndex = Some (Itoa (LayerIndex li))"
    "mval ps PropertyLayerDigest = LayerDigest li" "mval ps PropertyLayerDockerfileLine = DockerfileLine li"
    "mval ps PropertyLayerAddedBy = AddedBy li"
    by (simp_all add: Some mval_def layer_props_def hydrated_keys)
  with a Some show ?thesis by (simp add: hydrated_layer_def layer_keys_def)
qed

lemma sort_mset: "mset xs = mset ys \<Longrightarrow> sort xs = sort ys"
  by (metis sorted_list_of_multiset_mset)

lemma filter_all: "list_all P xs \<Longrightarrow> filter P xs = xs" "list_all (\<lambda>x. \<not> P x) xs \<Longrightarrow> filter P xs = []"
  by (simp_all add: list_all_iff filter_id_conv filter_empty_conv)

definition fixed :: "string \<Rightarrow> bool" where "fixed k \<longleftrightarrow> k \<in> set (PropertyOrigin # layer_keys)"

lemma written_split:
  assumes "portable_data f32 c"
  shows "filter (\<lambda>kv. \<not> fixed (fst kv)) (Properties c @ astinusProperties c) = Properties c @ cpe_props (CPEs c)"
    and "filter (\<lambda>kv. HasPrefix (fst kv) cpe_prefix) (Properties c @ cpe_props (CPEs c)) = cpe_props (CPEs c)"
    and "filter (\<lambda>kv. \<not> HasPrefix (fst kv) cpe_prefix) (Properties c @ cpe_props (CPEs c)) = Properties c"
proof -
  have own: "list_all (\<lambda>kv. \<not> fixed (fst kv)) (Properties c)" "list_all (\<lambda>kv. \<not> HasPrefix (fst kv) cpe_prefix) (Properties c)"
    using assms by (auto simp: portable_data_def list_all_iff reserved_def fixed_def)
  have f: "list_all (\<lambda>kv. \<not> \<not> fixed (fst kv)) (origin_props (COrigin c) @ layer_props (CLayerInfo c))"
    using fixed_props_ok(2) [of "COrigin c" "CLayerInfo c"] by (simp add: fixed_def)
  have cpes: "list_all (\<lambda>kv. \<not> fixed (fst kv)) (cpe_props (CPEs c))" "list_all (\<lambda>kv. \<not> \<not> HasPrefix (fst kv) cpe_prefix) (cpe_props (CPEs c))"
    using cpe_props_ok(2) [of "CPEs c"] fixed_not_cpe unfolding fixed_def list_all_iff by blast+
  show "filter (\<lambda>kv. \<not> fixed (fst kv)) (Properties c @ astinusProperties c) = Properties c @ cpe_props (CPEs c)"
    unfolding astinusProperties_parts append_assoc [symmetric] filter_append
    using filter_all(2) [OF f] by (simp add: filter_all own cpes)
  show "filter (\<lambda>kv. HasPrefix (fst kv) cpe_prefix) (Properties c @ cpe_props (CPEs c)) = cpe_props (CPEs c)"
    "filter (\<lambda>kv. \<not> HasPrefix (fst kv) cpe_prefix) (Properties c @ cpe_props (CPEs c)) = Properties c"
    using cpes(2) by (simp_all add: filter_all own)
qed

lemma hydrate_written:
  assumes ord: "\<And>m. mset (ord m) = mset m" and p: "portable_data f32 c"
    and x: "Properties x = mapToCDXProperties (Properties c @ astinusProperties c)" "COrigin x = []" "CLayerInfo x = None"
  shows "COrigin (hydrateAstinusFields ord x) = COrigin c" "CLayerInfo (hydrateAstinusFields ord x) = CLayerInfo c"
    and "mset (Properties (hydrateAstinusFields ord x)) = mset (Properties c)"
    and "\<exists>more. CPEs (hydrateAstinusFields ord x) = CPEs x @ more \<and> mset more = mset (drop 1 (CPEs c))"
proof -
  define M where "M = Properties c @ astinusProperties c"
  note mok = written_props(2) [OF p, folded M_def]
  have get: "mget (Properties x) = mget M" unfolding x(1) by (rule mget_mset) (use mok in \<open>simp_all add: M_def\<close>)
  have fx: "mget (Properties x) k = mget (origin_props (COrigin c) @ layer_props (CLayerInfo c)) k" if "fixed k" for k
    using mget_written [OF p, of k] mget_fixed [of k c] fixed_not_cpe [of k] that
    unfolding get M_def by (auto simp: reserved_def fixed_def)
  have lay: "mget (Properties x) k = mget (layer_props (CLayerInfo c)) k" if "k \<in> set layer_keys" for k
  proof -
    have "k \<noteq> PropertyOrigin" using that by (auto simp: layer_keys_def hydrated_keys)
    then show ?thesis using fx [of k] that by (simp add: fixed_def origin_props_def map_add_def split: option.split)
  qed
  have org: "mget (Properties x) PropertyOrigin = (if COrigin c \<noteq> [] then Some (COrigin c) else None)"
  proof -
    have "mget (layer_props (CLayerInfo c)) PropertyOrigin = None"
      by (simp add: layer_props_def hydrated_keys split: option.split)
    then show ?thesis using fx [of PropertyOrigin] by (simp add: fixed_def origin_props_def map_add_def)
  qed
  show "COrigin (hydrateAstinusFields ord x) = COrigin c" by (simp add: hydrateAstinusFields_def Let_def org x(2))
  have "hydrated_layer (Properties x) = CLayerInfo c"
    using p by (intro hydrated_layer_props lay) (simp_all add: portable_data_def)
  then show "CLayerInfo (hydrateAstinusFields ord x) = CLayerInfo c"
    by (simp add: hydrateAstinusFields_def Let_def x(3) split: option.split)
  define rest where "rest = filter (\<lambda>kv. fst kv \<noteq> PropertyOrigin \<and> fst kv \<notin> set layer_keys) (Properties x)"
  have "rest = filter (\<lambda>kv. \<not> fixed (fst kv)) (Properties x)" by (simp add: rest_def fixed_def)
  then have r: "mset rest = mset (Properties c @ cpe_props (CPEs c))"
    using written_split(1) [OF p] by (simp add: x(1) mset_filter) (metis mset_append mset_filter)
  have "mset (filter (\<lambda>kv. \<not> HasPrefix (fst kv) cpe_prefix) rest) = mset (Properties c)"
    using written_split(3) [OF p] by (metis mset_filter r)
  then show "mset (Properties (hydrateAstinusFields ord x)) = mset (Properties c)"
    by (simp add: hydrateAstinusFields_def Let_def rest_def)
  have "mset (filter (\<lambda>kv. HasPrefix (fst kv) cpe_prefix) (ord rest)) = mset (cpe_props (CPEs c))"
    using written_split(2) [OF p] by (metis mset_filter r ord)
  then have "mset (map snd (filter (\<lambda>kv. HasPrefix (fst kv) cpe_prefix) (ord rest))) = mset (drop 1 (CPEs c))"
    unfolding cpe_props_values [symmetric] mset_map by (rule arg_cong)
  then show "\<exists>more. CPEs (hydrateAstinusFields ord x) = CPEs x @ more \<and> mset more = mset (drop 1 (CPEs c))"
    by (auto simp: hydrateAstinusFields_def Let_def rest_def)
qed

lemma hydrate_frame:
  "(hydrateAstinusFields ord x)\<lparr>COrigin := [], CLayerInfo := None, Properties := [], CPEs := []\<rparr> =
   x\<lparr>COrigin := [], CLayerInfo := None, Properties := [], CPEs := []\<rparr>"
  by (simp add: hydrateAstinusFields_def Let_def)

lemma data_roundtrip:
  assumes ord: "\<And>m. mset (ord m) = mset m" and p: "portable_data f32 c"
  shows "canon_data (data_from ord (data_to f32 c)) = canon_data c"
proof -
  define x where "x = \<lparr>BOMRef = BOMRef c, CType = CType c, Group = Group c, Name = Name c, Version = Version c,
      Description = Description c, Scope = Scope c, PURL = PURL c, CPEs = take 1 (CPEs c), Hashes = Hashes c, Licenses = Licenses c,
      Supplier = Supplier c, Author = Author c, Publisher = Publisher c, Copyright = Copyright c,
      Properties = mapToCDXProperties (Properties c @ astinusProperties c), CEvidence = CEvidence c, CLayerInfo = None, COrigin = []\<rparr>"
  have ps: "propsFromCDX (mapToCDXProperties (mergeProperties (Properties c) (astinusProperties c))) =
      mapToCDXProperties (Properties c @ astinusProperties c)"
    unfolding written_props(1) [OF p] by (rule propsFromCDX_ok) (use written_props(2) [OF p] in simp)
  have cpes: "(if (case CPEs c of [] \<Rightarrow> [] | q # _ \<Rightarrow> q) \<noteq> [] then [case CPEs c of [] \<Rightarrow> [] | q # _ \<Rightarrow> q] else []) = take 1 (CPEs c)"
    using p by (auto simp: portable_data_def split: list.split)
  have supplier: "(case (if Supplier c \<noteq> [] then Some (Supplier c) else None) of None \<Rightarrow> [] | Some s \<Rightarrow> s) = Supplier c" by simp
  have rd: "data_from ord (data_to f32 c) = hydrateAstinusFields ord x"
    using p unfolding data_from_def data_to_def x_def cdx_data.simps ps cpes supplier portable_data_def
    by (simp add: type_roundtrip hashes_roundtrip licenses_roundtrip evidence_roundtrip)
  have xs: "Properties x = mapToCDXProperties (Properties c @ astinusProperties c)" "COrigin x = []" "CLayerInfo x = None"
    by (simp_all add: x_def)
  note h = hydrate_written [OF ord p xs]
  obtain more where more: "CPEs (hydrateAstinusFields ord x) = take 1 (CPEs c) @ more" "mset more = mset (drop 1 (CPEs c))"
    using h(4) by (auto simp: x_def)
  have "more = []" if "CPEs c = []" using more(2) that by simp
  then have cp: "take 1 (CPEs (hydrateAstinusFields ord x)) @ sort (drop 1 (CPEs (hydrateAstinusFields ord x))) = take 1 (CPEs c) @ sort (drop 1 (CPEs c))"
    using more sort_mset [OF more(2)] by (cases "CPEs c") auto
  have pr: "mapToCDXProperties (Properties (hydrateAstinusFields ord x)) = mapToCDXProperties (Properties c)"
    using sorted_unique [of "Properties c" "Properties (hydrateAstinusFields ord x)"] h(3) p by (simp add: portable_data_def)
  have fr: "(hydrateAstinusFields ord x)\<lparr>COrigin := [], CLayerInfo := None, Properties := [], CPEs := []\<rparr> =
      c\<lparr>COrigin := [], CLayerInfo := None, Properties := [], CPEs := []\<rparr>"
    unfolding hydrate_frame by (simp add: x_def)
  show ?thesis
    unfolding rd canon_data_def cp pr using fr h(1,2) by (cases "hydrateAstinusFields ord x"; cases c) simp
qed

lemma component_roundtrip:
  assumes "\<And>m. mset (ord m) = mset m"
  shows "portable f32 c \<Longrightarrow> canon (componentFromCDX ord (componentToCDX f32 c)) = canon c"
proof (induction c)
  case (Component d subs)
  then show ?case by (auto simp: data_roundtrip [OF assms] list_all_iff)
qed

section \<open>Relationships and metadata\<close>

definition carried :: "Relationship \<Rightarrow> bool" where
  "carried r \<longleftrightarrow> RelType r = RelationshipDependsOn \<or> RelType r = RelationshipProvides"

lemma relationshipsFromCDX_append:
  "relationshipsFromCDX (ds @ es) = relationshipsFromCDX ds @ relationshipsFromCDX es"
  by (simp add: relationshipsFromCDX_def)

lemma relationshipsFromCDX_Nil [simp]: "relationshipsFromCDX [] = []"
  by (simp add: relationshipsFromCDX_def)

lemmas relationshipsFromCDX_Cons = relationshipsFromCDX_append [of "[d]" for d, simplified append_Cons append_Nil]

lemma add_relationship_mset:
  assumes "DRef d = SourceRef r"
  shows "mset (relationshipsFromCDX [add_relationship r d]) = mset (relationshipsFromCDX [d]) + (if carried r then {#r#} else {#})"
proof -
  have "r = \<lparr>SourceRef = DRef d, TargetRef = TargetRef r, RelType = RelType r\<rparr>" using assms by (cases r) simp
  moreover have "RelationshipDependsOn \<noteq> RelationshipProvides" by (simp add: RelationshipDependsOn_def RelationshipProvides_def)
  ultimately show ?thesis
    by (auto simp: relationshipsFromCDX_def add_relationship_def carried_def)
qed

lemma group_relationship_mset:
  "mset (relationshipsFromCDX (group_relationship r ds)) = mset (relationshipsFromCDX ds) + (if carried r then {#r#} else {#})"
proof (induction r ds rule: group_relationship.induct)
  case (1 r)
  show ?case using add_relationship_mset [of "\<lparr>DRef = SourceRef r, DDependencies = [], DProvides = []\<rparr>" r]
    by (simp add: relationshipsFromCDX_def)
next
  case (2 r d ds)
  show ?case
  proof (cases "DRef d = SourceRef r")
    case True
    then have "group_relationship r (d # ds) = add_relationship r d # ds" by simp
    then show ?thesis using add_relationship_mset [OF True]
      by (simp only: relationshipsFromCDX_Cons [of _ ds] mset_append ac_simps)
  next
    case False
    then have "group_relationship r (d # ds) = d # group_relationship r ds" by simp
    then show ?thesis using 2 [OF False]
      by (simp only: relationshipsFromCDX_Cons [of d "group_relationship r ds"] relationshipsFromCDX_Cons [of d ds] mset_append ac_simps)
  qed
qed

lemma add_relationship_ref [simp]: "DRef (add_relationship r d) = DRef d"
  by (simp add: add_relationship_def)

lemma group_relationship_refs:
  "map DRef (group_relationship r ds) = (if SourceRef r \<in> set (map DRef ds) then map DRef ds else map DRef ds @ [SourceRef r])"
  by (induction r ds rule: group_relationship.induct) auto

lemma relationships_written:
  "mset (relationshipsFromCDX (relationshipsToCDX rs)) = mset (filter carried rs)"
  "distinct (map DRef (relationshipsToCDX rs))"
proof -
  have "mset (relationshipsFromCDX (foldl (\<lambda>ds r. group_relationship r ds) ds rs)) =
      mset (relationshipsFromCDX ds) + mset (filter carried rs)" for ds
    by (induction rs arbitrary: ds) (auto simp: group_relationship_mset)
  from this [of "[]"] show "mset (relationshipsFromCDX (relationshipsToCDX rs)) = mset (filter carried rs)"
    by (simp add: relationshipsToCDX_def)
  have "distinct (map DRef ds) \<Longrightarrow> distinct (map DRef (foldl (\<lambda>ds r. group_relationship r ds) ds rs))" for ds
    by (induction rs arbitrary: ds) (auto simp: group_relationship_refs simp del: set_map)
  then show "distinct (map DRef (relationshipsToCDX rs))" by (simp add: relationshipsToCDX_def)
qed

lemma tools_roundtrip: "toolsFromCDX (Some (toolsToCDX ts)) = ts"
  by (induction ts) (simp_all add: toolsFromCDX_def toolsToCDX_def empty_cdx_def)

definition portable_metadata :: "(string \<Rightarrow> string \<Rightarrow> int option) \<Rightarrow> (int \<Rightarrow> string) \<Rightarrow> (rat \<Rightarrow> rat) \<Rightarrow> Metadata \<Rightarrow> bool" where
  "portable_metadata tparse tformat f32 md \<longleftrightarrow>
     (case Timestamp md of None \<Rightarrow> True
      | Some t \<Rightarrow> tformat t \<noteq> [] \<and> parseTimestamp tparse timestamp_layouts (tformat t) = Some t) \<and>
     list_all (\<lambda>n. n \<noteq> [] \<and> TrimSpace n = n) (Authors md) \<and>
     (case MComponent md of None \<Rightarrow> True | Some c \<Rightarrow> portable f32 c) \<and> map_ok (MProperties md)"

definition canon_metadata :: "Metadata \<Rightarrow> Metadata" where
  "canon_metadata md = md\<lparr>MComponent := map_option canon (MComponent md), MProperties := mapToCDXProperties (MProperties md)\<rparr>"

lemma sorted_twice: "map_ok m \<Longrightarrow> mapToCDXProperties (propsFromCDX (mapToCDXProperties m)) = mapToCDXProperties m"
  using propsFromCDX_ok [of "mapToCDXProperties m"] map_ok_mset [of m "mapToCDXProperties m"] sorted_unique [of m "mapToCDXProperties m"]
  by (simp del: One_nat_def)

lemma sorted_Nil [simp]: "mapToCDXProperties m = [] \<longleftrightarrow> m = []"
  by (metis mset_sorted mset_zero_iff)

lemma metadata_roundtrip:
  assumes ord: "\<And>m. mset (ord m) = mset m" and p: "portable_metadata tparse tformat f32 md"
  shows "canon_metadata (case metadataToCDX tformat f32 md of None \<Rightarrow> empty_metadata | Some x \<Rightarrow> metadataFromCDX tparse ord x) = canon_metadata md"
proof (cases "metadataToCDX tformat f32 md")
  case None
  then show ?thesis
    by (cases md) (simp add: metadataToCDX_def Let_def empty_metadata_def split: if_splits)
next
  case (Some x)
  have au: "filter (\<lambda>n. n \<noteq> []) (map TrimSpace as) = as" if "list_all (\<lambda>n. n \<noteq> [] \<and> TrimSpace n = n) as" for as
    using that by (induction as) auto
  have x: "x = \<lparr>XTimestamp = (case Timestamp md of None \<Rightarrow> [] | Some t \<Rightarrow> tformat t), XAuthors = Authors md,
      XTools = (if Tools md \<noteq> [] then Some (toolsToCDX (Tools md)) else None),
      XComponent = map_option (componentToCDX f32) (MComponent md), XMProps = mapToCDXProperties (MProperties md)\<rparr>"
    using Some by (auto simp: metadataToCDX_def Let_def split: if_splits)
  have "map_option canon (map_option (componentFromCDX ord) (map_option (componentToCDX f32) (MComponent md))) = map_option canon (MComponent md)"
    using p component_roundtrip [OF ord, of f32] by (cases "MComponent md") (simp_all add: portable_metadata_def)
  moreover have "toolsFromCDX (if Tools md \<noteq> [] then Some (toolsToCDX (Tools md)) else None) = Tools md"
    using tools_roundtrip [of "Tools md"] by (simp add: toolsFromCDX_def)
  moreover have "(if (case Timestamp md of None \<Rightarrow> [] | Some t \<Rightarrow> tformat t) \<noteq> []
      then parseTimestamp tparse timestamp_layouts (case Timestamp md of None \<Rightarrow> [] | Some t \<Rightarrow> tformat t) else None) = Timestamp md"
    using p by (auto simp: portable_metadata_def split: option.splits)
  ultimately show ?thesis
    using p unfolding Some x metadataFromCDX_def canon_metadata_def option.case cdx_metadata.simps Metadata.simps portable_metadata_def
    by (cases md) (simp add: au sorted_twice)
qed

definition portable_sbom :: "(string \<Rightarrow> string \<Rightarrow> int option) \<Rightarrow> (int \<Rightarrow> string) \<Rightarrow> (rat \<Rightarrow> rat) \<Rightarrow> SBOM \<Rightarrow> bool" where
  "portable_sbom tparse tformat f32 s \<longleftrightarrow>
     portable_metadata tparse tformat f32 (SMetadata s) \<and> list_all (portable f32) (Components s) \<and> map_ok (SProperties s)"

text \<open>An SBOM up to the order of properties, of additional CPEs and of relationships, and but for its source.\<close>

definition canon_sbom :: "SBOM \<Rightarrow> Metadata \<times> component list \<times> Relationship multiset \<times> props" where
  "canon_sbom s = (canon_metadata (SMetadata s), map canon (Components s), mset (Relationships s), mapToCDXProperties (SProperties s))"

section \<open>Properties\<close>

text \<open>
  C15.  Writing an SBOM as CycloneDX and reading it back gives the same SBOM, with nested components, hashes,
  licenses, evidence, layers, origins and all CPEs, if CycloneDX can carry it: known types and digest
  algorithms, evidence without line numbers, no property in the mapper's name space, dependency edges of the
  two kinds CycloneDX has.  The order in which Go iterates its maps does not matter.
\<close>
theorem cyclonedx_roundtrip:
  assumes "\<And>m. mset (ord m) = mset m" and "portable_sbom tparse tformat f32 sbom" and "list_all carried (Relationships sbom)"
  shows "canon_sbom (fromCDX tparse ord (toCDX tformat f32 sbom) raw fmt) = canon_sbom sbom"
proof -
  have "map canon (map (componentFromCDX ord) (map (componentToCDX f32) (Components sbom))) = map canon (Components sbom)"
    using assms(2) component_roundtrip [OF assms(1), of f32] by (auto simp: portable_sbom_def list_all_iff)
  moreover have "filter carried (Relationships sbom) = Relationships sbom" using assms(3) by (rule filter_all)
  ultimately show ?thesis
    using assms(2) metadata_roundtrip [OF assms(1), of tparse tformat f32 "SMetadata sbom"]
    by (simp add: canon_sbom_def fromCDX_def toCDX_def portable_sbom_def relationships_written sorted_twice)
qed

text \<open>
  Of the relationships exactly the edges of kind depends-on and provides survive the writing, with
  their multiplicities, and every source has one entry.
\<close>
theorem relationships_carried:
  "mset (Relationships (fromCDX tparse ord (toCDX tformat f32 sbom) raw fmt)) = mset (filter carried (Relationships sbom)) \<and>
   distinct (map DRef (BDependencies (toCDX tformat f32 sbom)))"
  by (simp add: fromCDX_def toCDX_def relationships_written)

section \<open>Witnesses and counterexamples\<close>

definition demo_component :: component_data where
  "demo_component = empty_component\<lparr>CType := ComponentTypeLibrary, Name := ''a'', CPEs := [''cpe:2.3:a:x'', ''cpe:2.3:a:y''],
     Hashes := [\<lparr>Algorithm = ''sha256'', HashValue = ''ab''\<rparr>], COrigin := OriginBaseImage,
     CLayerInfo := Some \<lparr>LayerDigest = ''sha256:1'', LayerIndex = 3, DockerfileLine = [], AddedBy = ''RUN''\<rparr>,
     CEvidence := Some \<lparr>Method = ''filename'', EvConfidence = 1 / 2, Locations = [\<lparr>Path = ''/a'', LineNo = 0\<rparr>]\<rparr>\<rparr>"

definition demo_sbom :: SBOM where
  "demo_sbom = empty_sbom\<lparr>Components := [Component demo_component [Component (empty_component\<lparr>CType := ComponentTypeFile\<rparr>) []]],
     Relationships := [\<lparr>SourceRef = ''a'', TargetRef = ''b'', RelType = RelationshipDependsOn\<rparr>]\<rparr>"

theorem cyclonedx_roundtrip_witness:
  "canon_sbom (fromCDX (\<lambda>_ _. None) rev (toCDX (\<lambda>_. []) id demo_sbom) [] []) = canon_sbom demo_sbom"
proof -
  have "portable_sbom (\<lambda>_ _. None) (\<lambda>_. []) id demo_sbom"
    unfolding portable_sbom_def demo_sbom_def by code_simp
  moreover have "list_all carried (Relationships demo_sbom)" by (simp add: demo_sbom_def carried_def)
  ultimately show ?thesis by (intro cyclonedx_roundtrip) simp_all
qed

text \<open>
  The properties of the CPE enricher share the prefix of the additional CPEs: read back, a confidence is a CPE.
\<close>

lemma cpe_stamps_become_cpes:
  "CPEs (data_from (\<lambda>m. m) (data_to id (empty_component\<lparr>CPEs := [''cpe:2.3:a:x''], Properties := [(''astinus:cpe:confidence'', ''0.95''), (''astinus:cpe:source'', ''nvd'')]\<rparr>)))
     = [''cpe:2.3:a:x'', ''0.95'', ''nvd'']"
  by code_simp

text \<open>Without a BOM reference none is made up, and a containment edge leaves an empty entry.\<close>

lemma no_reference_made_up: "BOMRef (data_from ord (empty_cdx\<lparr>XBOMRef := []\<rparr>)) = []"
  by (simp add: data_from_def hydrateAstinusFields_def empty_cdx_def Let_def)

lemma containment_dropped:
  "relationshipsToCDX [\<lparr>SourceRef = ''a'', TargetRef = ''b'', RelType = RelationshipContains\<rparr>] =
     [\<lparr>DRef = ''a'', DDependencies = [], DProvides = []\<rparr>]"
  by code_simp

end
