(* ===== verification/Spdx.thy ===== *)
theory Spdx
  imports Cyclonedx
begin

text \<open>
  The SPDX mapper (\<open>internal/sbom/spdx\<close>): from the library's 2.3 document to the canonical model and back.
  The document types hold the fields the mapper uses.  A slice of pointers is a list of options, since the
  loader can leave nil entries; a nil pointer the mapper reads through is a panic, the result \<^const>\<open>None\<close>.
  Decoder and encoder, the clock, the time parser and the version string are parameters.
\<close>

section \<open>The document\<close>

record spdx_ref =
  RefCategory :: string
  RefType :: string
  Locator :: string

record spdx_annotation =
  Annotator :: string
  AnnotationDate :: string
  AnnotationType :: string
  AnnotationComment :: string

record spdx_package =
  PackageName :: string
  PackageSPDXIdentifier :: string
  PackageVersion :: string
  PackageDownloadLocation :: string
  FilesAnalyzed :: bool
  PackageSupplier :: "string option"
  PackageCopyrightText :: string
  PackageDescription :: string
  PackageChecksums :: "(string \<times> string) list"
  PackageLicenseConcluded :: string
  PackageLicenseDeclared :: string
  PackageExternalReferences :: "spdx_ref option list"
  PAnnotations :: "spdx_annotation list"

record spdx_rel =
  RefA :: string
  RefB :: string
  RelKind :: string

record spdx_creation =
  Created :: string
  Creators :: "(string \<times> string) list"
  LicenseListVersion :: string

record spdx_doc =
  SPDXVersion :: string
  DataLicense :: string
  SPDXIdentifier :: string
  DocumentName :: string
  DocumentNamespace :: string
  CreationInfo :: "spdx_creation option"
  DocAnnotations :: "spdx_annotation option list"
  DocPackages :: "spdx_package option list"
  DocRelationships :: "spdx_rel option list"

section \<open>Identifiers\<close>

text \<open>The width of the first rune of a byte string, 1 for an invalid one.\<close>

definition byte_in :: "nat \<Rightarrow> nat \<Rightarrow> char \<Rightarrow> bool" where
  "byte_in lo hi c \<longleftrightarrow> lo \<le> of_char c \<and> (of_char c :: nat) \<le> hi"

definition continues :: "string \<Rightarrow> bool" where
  "continues s \<longleftrightarrow> list_all (byte_in 128 191) s"

definition rune_width :: "string \<Rightarrow> nat" where
  "rune_width s =
     (case s of
        a # b # c # d # _ \<Rightarrow>
          (if byte_in 194 223 a \<and> continues [b] then 2
           else if (a = CHR 0xE0 \<and> byte_in 160 191 b \<or> a = CHR 0xED \<and> byte_in 128 159 b \<or>
             (byte_in 225 236 a \<or> byte_in 238 239 a) \<and> continues [b]) \<and> continues [c] then 3
           else if (a = CHR 0xF0 \<and> byte_in 144 191 b \<or> byte_in 241 243 a \<and> continues [b] \<or> a = CHR 0xF4 \<and> byte_in 128 143 b) \<and>
             continues [c, d] then 4
           else 1)
      | [a, b, c] \<Rightarrow>
          (if byte_in 194 223 a \<and> continues [b] then 2
           else if (a = CHR 0xE0 \<and> byte_in 160 191 b \<or> a = CHR 0xED \<and> byte_in 128 159 b \<or>
             (byte_in 225 236 a \<or> byte_in 238 239 a) \<and> continues [b]) \<and> continues [c] then 3
           else 1)
      | [a, b] \<Rightarrow> (if byte_in 194 223 a \<and> continues [b] then 2 else 1)
      | _ \<Rightarrow> 1)"

definition id_char :: "char \<Rightarrow> bool" where
  "id_char c \<longleftrightarrow> byte_in 65 90 c \<or> byte_in 97 122 c \<or> byte_in 48 57 c \<or> c = CHR ''.'' \<or> c = CHR ''-''"

fun id_runes :: "string \<Rightarrow> string" where
  "id_runes [] = []"
| "id_runes (c # s) = (if id_char c then c # id_runes s else CHR ''-'' # id_runes (drop (rune_width (c # s) - 1) s))"

definition refToID :: "string \<Rightarrow> string" where
  "refToID s = (if s = [] then ''Package'' else id_runes s)"

definition pkgID :: "component_data \<Rightarrow> string" where
  "pkgID c = (if BOMRef c \<noteq> [] then refToID (BOMRef c) else refToID (Name c @ ''-'' @ Version c))"

section \<open>Properties and annotations\<close>

text \<open>The hand-written insertion sort; the sorted prefix is kept from its end backwards.\<close>

fun sift :: "string \<Rightarrow> string list \<Rightarrow> string list" where
  "sift x [] = [x]"
| "sift x (y # ys) = (if y > x then y # sift x ys else x # y # ys)"

definition sortStrings :: "string list \<Rightarrow> string list" where
  "sortStrings s = rev (foldl (\<lambda>prefix x. sift x prefix) [] s)"

definition propsToOrderedSlice :: "props \<Rightarrow> (string \<times> string) list" where
  "propsToOrderedSlice m = map (\<lambda>k. (k, mval m k)) (sortStrings (map fst m))"

definition mergeProps :: "props \<Rightarrow> props \<Rightarrow> props" where
  "mergeProps base extra = foldl (\<lambda>m p. mput (fst p) (snd p) m) base extra"

definition annotator :: "string \<Rightarrow> string" where
  "annotator version = ''astinus-'' @ version"

definition annotationsFromProps :: "string \<Rightarrow> string \<Rightarrow> (string \<times> string) list \<Rightarrow> spdx_annotation list" where
  "annotationsFromProps version now ps = map (\<lambda>p.
     \<lparr>Annotator = annotator version, AnnotationDate = now, AnnotationType = ''OTHER'', AnnotationComment = fst p @ ''='' @ snd p\<rparr>) ps"

definition add_annotation :: "props \<Rightarrow> spdx_annotation \<Rightarrow> props" where
  "add_annotation m a =
     (case Index (AnnotationComment a) ''='' of
        None \<Rightarrow> m
      | Some i \<Rightarrow>
          (let k = TrimSpace (take i (AnnotationComment a)) in
             if i = 0 \<or> k = [] then m else mput k (drop (i + 1) (AnnotationComment a)) m))"

definition propsFromAnnotations :: "spdx_annotation list \<Rightarrow> props" where
  "propsFromAnnotations as = foldl add_annotation [] as"

definition pointerAnnotations :: "spdx_annotation list \<Rightarrow> spdx_annotation option list" where
  "pointerAnnotations as = map Some as"

fun derefAnnotations :: "spdx_annotation option list \<Rightarrow> spdx_annotation list" where
  "derefAnnotations [] = []"
| "derefAnnotations (None # ps) = derefAnnotations ps"
| "derefAnnotations (Some a # ps) = a # derefAnnotations ps"

definition astinusComponentProps :: "component_data \<Rightarrow> props" where
  "astinusComponentProps c =
     (if COrigin c \<noteq> [] then [(PropertyOrigin, COrigin c)] else []) @
     (case CLayerInfo c of None \<Rightarrow> []
      | Some li \<Rightarrow>
          (if LayerDigest li \<noteq> [] then [(PropertyLayerDigest, LayerDigest li)] else []) @
          [(PropertyLayerIndex, Itoa (LayerIndex li))] @
          (if DockerfileLine li \<noteq> [] then [(PropertyLayerDockerfileLine, DockerfileLine li)] else []) @
          (if AddedBy li \<noteq> [] then [(PropertyLayerAddedBy, AddedBy li)] else []))"

definition annotationsForComponent :: "string \<Rightarrow> string \<Rightarrow> component_data \<Rightarrow> spdx_annotation list" where
  "annotationsForComponent version now c =
     annotationsFromProps version now (propsToOrderedSlice (mergeProps (Properties c) (astinusComponentProps c)))"

definition hydrate_fields :: "component_data \<Rightarrow> component_data" where
  "hydrate_fields c =
     (let ps = Properties c in
        c\<lparr>COrigin := (case mget ps PropertyOrigin of Some v \<Rightarrow> v | None \<Rightarrow> COrigin c),
          CLayerInfo := (case hydrated_layer ps of Some li \<Rightarrow> Some li | None \<Rightarrow> CLayerInfo c),
          Properties := filter (\<lambda>kv. fst kv \<noteq> PropertyOrigin \<and> fst kv \<notin> set layer_keys) ps\<rparr>)"

section \<open>Hashes, licenses, external references\<close>

definition spdxChecksumAlgo :: "string \<Rightarrow> string" where
  "spdxChecksumAlgo s =
     (if s = ''md5'' then ''MD5'' else if s = ''sha1'' then ''SHA1'' else if s = ''sha256'' then ''SHA256''
      else if s = ''sha384'' then ''SHA384'' else if s = ''sha512'' then ''SHA512'' else [])"

definition checksumsFromHashes :: "Hash list \<Rightarrow> (string \<times> string) list" where
  "checksumsFromHashes hs =
     map (\<lambda>h. (spdxChecksumAlgo (Algorithm h), HashValue h)) (filter (\<lambda>h. spdxChecksumAlgo (Algorithm h) \<noteq> []) hs)"

definition hashesFromChecksums :: "(string \<times> string) list \<Rightarrow> Hash list" where
  "hashesFromChecksums cs = map (\<lambda>c. \<lparr>Algorithm = NormalizeHashAlgorithm (fst c), HashValue = snd c\<rparr>) cs"

definition license_part :: "License \<Rightarrow> string list" where
  "license_part l =
     (if Expression l \<noteq> [] then [Expression l] else if SPDXID l \<noteq> [] then [SPDXID l]
      else if LicenseName l \<noteq> [] then [LicenseName l] else [])"

definition licenseExpression :: "License list \<Rightarrow> string" where
  "licenseExpression ls = Join '' AND '' (concat (map license_part ls))"

definition externalRefs :: "component_data \<Rightarrow> spdx_ref list" where
  "externalRefs c =
     (if PURL c \<noteq> [] then [\<lparr>RefCategory = ''PACKAGE-MANAGER'', RefType = ''purl'', Locator = PURL c\<rparr>] else []) @
     map (\<lambda>p. \<lparr>RefCategory = ''SECURITY'', RefType = ''cpe23Type'', Locator = p\<rparr>) (CPEs c)"

section \<open>Components\<close>

definition componentToPackage :: "string \<Rightarrow> string \<Rightarrow> component_data \<Rightarrow> spdx_package" where
  "componentToPackage version now c =
     \<lparr>PackageName = Name c, PackageSPDXIdentifier = pkgID c, PackageVersion = Version c,
      PackageDownloadLocation = ''NOASSERTION'', FilesAnalyzed = False,
      PackageSupplier = (if Supplier c \<noteq> [] then Some (Supplier c) else None), PackageCopyrightText = Copyright c,
      PackageDescription = Description c, PackageChecksums = checksumsFromHashes (Hashes c),
      PackageLicenseConcluded = licenseExpression (Licenses c), PackageLicenseDeclared = licenseExpression (Licenses c),
      PackageExternalReferences = map Some (externalRefs c), PAnnotations = annotationsForComponent version now c\<rparr>"

definition stated :: "string \<Rightarrow> bool" where
  "stated l \<longleftrightarrow> l \<noteq> [] \<and> l \<noteq> ''NOASSERTION''"

definition as_expression :: "string \<Rightarrow> License list" where
  "as_expression l = [\<lparr>SPDXID = [], LicenseName = [], Expression = l, URL = []\<rparr>]"

definition add_ref :: "spdx_ref \<Rightarrow> component_data \<Rightarrow> component_data" where
  "add_ref r c =
     (if RefType r = ''purl'' then c\<lparr>PURL := Locator r\<rparr>
      else if RefType r = ''cpe23Type'' then c\<lparr>CPEs := CPEs c @ [Locator r]\<rparr> else c)"

fun add_refs :: "spdx_ref option list \<Rightarrow> component_data \<Rightarrow> component_data option" where
  "add_refs [] c = Some c"
| "add_refs (None # rs) c = None"
| "add_refs (Some r # rs) c = add_refs rs (add_ref r c)"

definition packageToComponent :: "spdx_package \<Rightarrow> component_data option" where
  "packageToComponent p =
     map_option hydrate_fields (add_refs (PackageExternalReferences p)
       (empty_component\<lparr>BOMRef := PackageSPDXIdentifier p, CType := ComponentTypeLibrary, Name := PackageName p,
          Version := PackageVersion p, Description := PackageDescription p, Copyright := PackageCopyrightText p,
          Properties := propsFromAnnotations (PAnnotations p),
          Supplier := (case PackageSupplier p of None \<Rightarrow> [] | Some s \<Rightarrow> s),
          Licenses := (if stated (PackageLicenseConcluded p) then as_expression (PackageLicenseConcluded p)
            else if stated (PackageLicenseDeclared p) then as_expression (PackageLicenseDeclared p) else []),
          Hashes := hashesFromChecksums (PackageChecksums p)\<rparr>))"

fun componentsFromPackages :: "spdx_package option list \<Rightarrow> component list option" where
  "componentsFromPackages [] = Some []"
| "componentsFromPackages (None # ps) = componentsFromPackages ps"
| "componentsFromPackages (Some p # ps) =
     (case packageToComponent p of None \<Rightarrow> None
      | Some c \<Rightarrow> map_option ((#) (Component c [])) (componentsFromPackages ps))"

definition contains_rel :: "string \<Rightarrow> string \<Rightarrow> spdx_rel option" where
  "contains_rel a b = Some \<lparr>RefA = a, RefB = b, RelKind = ''CONTAINS''\<rparr>"

fun emitComponent :: "string \<Rightarrow> string \<Rightarrow> component \<Rightarrow> spdx_package option list \<times> spdx_rel option list \<Rightarrow>
    spdx_package option list \<times> spdx_rel option list" where
  "emitComponent version now (Component c subs) acc =
     foldl (\<lambda>acc child.
         let acc' = emitComponent version now child acc
         in (fst acc', snd acc' @ [contains_rel (pkgID c) (pkgID (cdata child))]))
       (fst acc @ [Some (componentToPackage version now c)], snd acc) subs"

section \<open>Relationships\<close>

definition canonicalToSPDXRelType :: "string \<Rightarrow> string" where
  "canonicalToSPDXRelType t =
     (if t = RelationshipDependsOn then ''DEPENDS_ON'' else if t = RelationshipProvides then ''DEPENDENCY_OF''
      else if t = RelationshipContains then ''CONTAINS'' else [])"

definition spdxRelTypeToCanonical :: "string \<Rightarrow> string" where
  "spdxRelTypeToCanonical s =
     (if s = ''DEPENDS_ON'' then RelationshipDependsOn else if s = ''DEPENDENCY_OF'' then RelationshipProvides
      else if s = ''CONTAINS'' then RelationshipContains else RelationshipUnknown)"

text \<open>The index of the last component with a reference; components are updated in place.\<close>

definition byID :: "component list \<Rightarrow> nat gomap" where
  "byID cs = foldl (\<lambda>m ic. mput (BOMRef (cdata (snd ic))) (fst ic) m) [] (enumerate 0 cs)"

record hydration =
  HComps :: "component list"
  HKeep :: "Relationship list"
  HConsumed :: "string list"

definition add_sub :: "component \<Rightarrow> component \<Rightarrow> component" where
  "add_sub p c = Component (cdata p) (SubComponents p @ [c])"

definition hydrate_rel :: "nat gomap \<Rightarrow> hydration \<Rightarrow> spdx_rel option \<Rightarrow> hydration" where
  "hydrate_rel ids h rel =
     (case rel of None \<Rightarrow> h
      | Some r \<Rightarrow>
          if RelKind r = ''DESCRIBES'' then h
          else if RelKind r = ''CONTAINS'' then
            (case (mget ids (RefA r), mget ids (RefB r)) of
               (Some i, Some j) \<Rightarrow>
                 h\<lparr>HComps := (HComps h)[i := add_sub (HComps h ! i) (HComps h ! j)], HConsumed := RefB r # HConsumed h\<rparr>
             | _ \<Rightarrow> h\<lparr>HKeep := HKeep h @ [\<lparr>SourceRef = RefA r, TargetRef = RefB r, RelType = RelationshipContains\<rparr>]\<rparr>)
          else h\<lparr>HKeep := HKeep h @ [\<lparr>SourceRef = RefA r, TargetRef = RefB r, RelType = spdxRelTypeToCanonical (RelKind r)\<rparr>]\<rparr>)"

definition hydrateRelationships :: "component list \<Rightarrow> spdx_rel option list \<Rightarrow> component list \<times> Relationship list" where
  "hydrateRelationships cs rels =
     (let h = foldl (hydrate_rel (byID cs)) \<lparr>HComps = cs, HKeep = [], HConsumed = []\<rparr> rels
      in (filter (\<lambda>c. BOMRef (cdata c) \<notin> set (HConsumed h)) (HComps h), HKeep h))"

section \<open>The document's head\<close>

definition docName :: "SBOM \<Rightarrow> string" where
  "docName sbom =
     (case MComponent (SMetadata sbom) of
        Some c \<Rightarrow> if Name (cdata c) \<noteq> [] then Name (cdata c) else ''astinus-sbom''
      | None \<Rightarrow> ''astinus-sbom'')"

definition docNamespace :: "SBOM \<Rightarrow> string" where
  "docNamespace sbom = ''https://github.com/psyf8t/astinus/sbom/'' @ docName sbom"

definition creationInfo :: "string \<Rightarrow> string \<Rightarrow> spdx_creation" where
  "creationInfo version now = \<lparr>Created = now, Creators = [(''Tool'', ''astinus-'' @ version)], LicenseListVersion = ''3.23''\<rparr>"

definition splitTool :: "string \<Rightarrow> Tool" where
  "splitTool s0 =
     (let (s, ver) = (case LastIndexByte s0 (CHR ''-'') of Some i \<Rightarrow> if i > 0 then (take i s0, drop (i + 1) s0) else (s0, []) | None \<Rightarrow> (s0, []))
      in case LastIndexByte s (CHR '' '') of
           Some i \<Rightarrow> if i > 0 then \<lparr>Vendor = take i s, ToolName = drop (i + 1) s, ToolVersion = ver\<rparr>
                     else \<lparr>Vendor = [], ToolName = s, ToolVersion = ver\<rparr>
         | None \<Rightarrow> \<lparr>Vendor = [], ToolName = s, ToolVersion = ver\<rparr>)"

definition add_creator :: "Metadata \<Rightarrow> string \<times> string \<Rightarrow> Metadata" where
  "add_creator md c =
     (if fst c = ''Tool'' then md\<lparr>Tools := Tools md @ [splitTool (snd c)]\<rparr>
      else if fst c = ''Person'' \<or> fst c = ''Organization'' then md\<lparr>Authors := Authors md @ [snd c]\<rparr> else md)"

definition metadataFromDoc :: "(string \<Rightarrow> string \<Rightarrow> int option) \<Rightarrow> spdx_doc \<Rightarrow> Metadata" where
  "metadataFromDoc tparse doc =
     (let out = empty_metadata\<lparr>MProperties := propsFromAnnotations (derefAnnotations (DocAnnotations doc))\<rparr> in
      case CreationInfo doc of None \<Rightarrow> out
      | Some ci \<Rightarrow>
          foldl add_creator
            (out\<lparr>Timestamp := (if Created ci \<noteq> [] then
                 (case tparse ''2006-01-02T15:04:05Z'' (Created ci) of Some t \<Rightarrow> Some t
                  | None \<Rightarrow> tparse ''2006-01-02T15:04:05Z07:00'' (Created ci)) else None)\<rparr>)
            (Creators ci))"

definition fromSPDX :: "(string \<Rightarrow> string \<Rightarrow> int option) \<Rightarrow> spdx_doc \<Rightarrow> string \<Rightarrow> string \<Rightarrow> SBOM option" where
  "fromSPDX tparse doc raw fmt =
     (case componentsFromPackages (DocPackages doc) of None \<Rightarrow> None
      | Some cs \<Rightarrow>
          (let h = hydrateRelationships cs (DocRelationships doc) in
             Some \<lparr>SMetadata = metadataFromDoc tparse doc, Components = fst h, Relationships = snd h,
               SProperties = propsFromAnnotations (derefAnnotations (DocAnnotations doc)), SourceFormat = fmt, SourceRaw = raw\<rparr>))"

definition toSPDX :: "string \<Rightarrow> string \<Rightarrow> SBOM \<Rightarrow> spdx_doc" where
  "toSPDX version now sbom =
     (let emitted = foldl (\<lambda>acc c. emitComponent version now c acc) ([], []) (Components sbom);
          describes = map (\<lambda>c. Some \<lparr>RefA = ''DOCUMENT'', RefB = pkgID (cdata c), RelKind = ''DESCRIBES''\<rparr>) (Components sbom);
          edges = map (\<lambda>r. Some \<lparr>RefA = refToID (SourceRef r), RefB = refToID (TargetRef r), RelKind = canonicalToSPDXRelType (RelType r)\<rparr>)
            (filter (\<lambda>r. canonicalToSPDXRelType (RelType r) \<noteq> []) (Relationships sbom))
      in \<lparr>SPDXVersion = ''SPDX-2.3'', DataLicense = ''CC0-1.0'', SPDXIdentifier = ''DOCUMENT'', DocumentName = docName sbom,
          DocumentNamespace = docNamespace sbom, CreationInfo = Some (creationInfo version now),
          DocAnnotations = pointerAnnotations (annotationsFromProps version now (propsToOrderedSlice (SProperties sbom))),
          DocPackages = fst emitted, DocRelationships = snd emitted @ describes @ edges\<rparr>)"

section \<open>Identifiers are legal\<close>

lemma dash_legal [simp]: "id_char (CHR ''-'')"
  by (simp add: id_char_def)

lemma id_runes_legal: "list_all id_char (id_runes s)"
  by (induction s rule: id_runes.induct) auto

lemma id_runes_id: "list_all id_char s \<Longrightarrow> id_runes s = s"
  by (induction s) auto

lemma id_runes_Nil [simp]: "id_runes s = [] \<longleftrightarrow> s = []"
  by (cases s) auto

lemma refToID_nonempty [simp]: "refToID s \<noteq> []"
  by (simp add: refToID_def)

lemma Package_legal: "list_all id_char ''Package''"
  by code_simp

lemma refToID_chars: "list_all id_char (refToID s)"
  by (simp only: refToID_def Package_legal id_runes_legal split: if_split) simp

lemma refToID_idem [simp]: "refToID (refToID s) = refToID s"
  using id_runes_id [OF refToID_chars] refToID_nonempty by (simp add: refToID_def [of "refToID s"])

lemma pkgID_nonempty [simp]: "pkgID c \<noteq> []"
  by (simp add: pkgID_def)

lemma refToID_pkgID [simp]: "refToID (pkgID c) = pkgID c"
  by (simp add: pkgID_def)

section \<open>Sorting\<close>

lemma mset_sift: "mset (sift x ys) = add_mset x (mset ys)"
  by (induction ys) auto

lemma set_sift [simp]: "set (sift x ys) = insert x (set ys)"
  using mset_sift [of x ys] by (metis set_mset_add_mset_insert set_mset_mset)

lemma sorted_sift: "sorted (rev ys) \<Longrightarrow> sorted (rev (sift x ys))"
  by (induction ys) (auto simp: sorted_append)

lemma sortStrings_sort: "sortStrings s = sort s"
proof -
  have "mset (foldl (\<lambda>prefix x. sift x prefix) p s) = mset p + mset s \<and>
      (sorted (rev p) \<longrightarrow> sorted (rev (foldl (\<lambda>prefix x. sift x prefix) p s)))" for p
    by (induction s arbitrary: p) (simp_all add: mset_sift sorted_sift)
  from this [of "[]"] show ?thesis
    unfolding sortStrings_def by (intro properties_for_sort [symmetric]) simp_all
qed

lemma propsToOrderedSlice_sorted:
  assumes "map_ok m"
  shows "propsToOrderedSlice m = mapToCDXProperties m"
proof -
  have "sort (map fst m) = map fst (mapToCDXProperties m)"
    by (rule properties_for_sort) (simp_all add: mapToCDXProperties_def)
  moreover have "map (\<lambda>k. (k, mval m k)) (map fst xs) = xs" if "set xs \<subseteq> set m" for xs
    using that assms by (induction xs) (auto simp: mval_def)
  ultimately show ?thesis
    by (simp add: propsToOrderedSlice_def sortStrings_sort mapToCDXProperties_def)
qed

section \<open>Annotations\<close>

definition key_ok :: "string \<Rightarrow> bool" where
  "key_ok k \<longleftrightarrow> k \<noteq> [] \<and> TrimSpace k = k \<and> CHR ''='' \<notin> set k"

lemma Index_first: "c \<notin> set k \<Longrightarrow> Index (k @ c # v) [c] = Some (length k)"
  by (induction k) auto

lemma add_annotation_written:
  "key_ok (fst p) \<Longrightarrow> add_annotation m \<lparr>Annotator = a, AnnotationDate = d, AnnotationType = t, AnnotationComment = fst p @ ''='' @ snd p\<rparr> = mput (fst p) (snd p) m"
  using Index_first [of "CHR ''=''" "fst p" "snd p"] by (auto simp: add_annotation_def key_ok_def Let_def)

lemma annotations_roundtrip:
  assumes "list_all (\<lambda>p. key_ok (fst p)) ps" "map_ok ps"
  shows "propsFromAnnotations (annotationsFromProps version now ps) = ps"
proof -
  have "foldl add_annotation m (annotationsFromProps version now ps) = foldl (\<lambda>m p. mput (fst p) (snd p) m) m ps" for m
    using assms(1)
    by (induction ps arbitrary: m) (simp_all add: annotationsFromProps_def add_annotation_written [of "(_, _)", simplified])
  then show ?thesis using foldl_mput_append [of "[]" ps] assms(2) by (simp add: propsFromAnnotations_def)
qed

lemma deref_pointer [simp]: "derefAnnotations (pointerAnnotations as) = as"
  by (induction as) (simp_all add: pointerAnnotations_def)

text \<open>A property map SPDX can carry.\<close>

definition props_ok :: "props \<Rightarrow> bool" where
  "props_ok m \<longleftrightarrow> map_ok m \<and> list_all (\<lambda>p. key_ok (fst p)) m"

lemma props_annotations:
  assumes "props_ok m"
  shows "propsFromAnnotations (annotationsFromProps version now (propsToOrderedSlice m)) = mapToCDXProperties m"
proof -
  have "list_all (\<lambda>p. key_ok (fst p)) (mapToCDXProperties m)"
    using assms by (simp add: props_ok_def list_all_iff mapToCDXProperties_def)
  then show ?thesis using assms by (simp add: props_ok_def propsToOrderedSlice_sorted annotations_roundtrip)
qed

section \<open>One component\<close>

definition spdx_portable :: "component_data \<Rightarrow> bool" where
  "spdx_portable c \<longleftrightarrow>
     props_ok (Properties c) \<and> list_all (\<lambda>p. \<not> fixed (fst p)) (Properties c) \<and>
     (case CLayerInfo c of None \<Rightarrow> True | Some li \<Rightarrow> - (2 ^ 63) \<le> LayerIndex li \<and> LayerIndex li < 2 ^ 63)"

text \<open>What SPDX carries of a component.\<close>

definition spdx_carried :: "component_data \<Rightarrow> component_data" where
  "spdx_carried c = empty_component
     \<lparr>BOMRef := pkgID c, CType := ComponentTypeLibrary, Name := Name c, Version := Version c, Description := Description c,
      Copyright := Copyright c, Properties := mapToCDXProperties (Properties c), Supplier := Supplier c,
      Licenses := (if stated (licenseExpression (Licenses c)) then as_expression (licenseExpression (Licenses c)) else []),
      Hashes := filter (\<lambda>h. spdxChecksumAlgo (Algorithm h) \<noteq> []) (Hashes c),
      PURL := PURL c, CPEs := CPEs c, COrigin := COrigin c, CLayerInfo := CLayerInfo c\<rparr>"

lemma astinusComponentProps_parts: "astinusComponentProps c = origin_props (COrigin c) @ layer_props (CLayerInfo c)"
  by (simp add: astinusComponentProps_def origin_props_def layer_props_def)

lemma fixed_keys_ok: "fixed k \<Longrightarrow> key_ok k"
proof -
  have "list_all key_ok (PropertyOrigin # layer_keys)" by code_simp
  then show "fixed k \<Longrightarrow> key_ok k" by (auto simp: fixed_def list_all_iff)
qed

lemma component_props_fixed: "list_all (\<lambda>p. fixed (fst p)) (astinusComponentProps c)" "map_ok (astinusComponentProps c)"
  using fixed_props_ok [of "COrigin c" "CLayerInfo c"] by (simp_all only: astinusComponentProps_parts fixed_def)

lemma merged_component_props:
  assumes "spdx_portable c"
  shows "mergeProps (Properties c) (astinusComponentProps c) = Properties c @ astinusComponentProps c"
    and "props_ok (Properties c @ astinusComponentProps c)"
proof -
  have d: "fst ` set (astinusComponentProps c) \<inter> fst ` set (Properties c) = {}"
    using assms by (intro keys_disjoint [OF component_props_fixed(1)]) (simp add: spdx_portable_def)
  then have m: "map_ok (Properties c @ astinusComponentProps c)"
    using assms component_props_fixed(2) by (auto simp: spdx_portable_def props_ok_def)
  then show "mergeProps (Properties c) (astinusComponentProps c) = Properties c @ astinusComponentProps c"
    unfolding mergeProps_def by (rule foldl_mput_append)
  have "list_all (\<lambda>p. key_ok (fst p)) (astinusComponentProps c)"
    using component_props_fixed(1) by (auto simp: list_all_iff fixed_keys_ok)
  then show "props_ok (Properties c @ astinusComponentProps c)"
    using m assms by (simp add: spdx_portable_def props_ok_def)
qed

lemma hydrate_fields_written:
  assumes p: "spdx_portable c"
    and x: "Properties x = mapToCDXProperties (Properties c @ astinusComponentProps c)" "COrigin x = []" "CLayerInfo x = None"
  shows "hydrate_fields x = x\<lparr>COrigin := COrigin c, CLayerInfo := CLayerInfo c, Properties := mapToCDXProperties (Properties c)\<rparr>"
proof -
  let ?A = "origin_props (COrigin c) @ layer_props (CLayerInfo c)"
  have ok: "map_ok (Properties c @ ?A)" using merged_component_props(2) [OF p] by (simp add: props_ok_def astinusComponentProps_parts)
  have get: "mget (Properties x) = mget (Properties c @ ?A)"
    unfolding x(1) astinusComponentProps_parts by (rule mget_mset) (use ok in simp_all)
  have own: "list_all (\<lambda>kv. \<not> fixed (fst kv)) (Properties c)" using p by (simp add: spdx_portable_def)
  have fx: "mget (Properties x) k = mget ?A k" if "fixed k" for k
  proof -
    have "mget (Properties c) k = None" using own that by (auto simp: map_of_eq_None_iff list_all_iff)
    then show ?thesis by (simp add: get map_add_def split: option.split)
  qed
  have lay: "mget (Properties x) k = mget (layer_props (CLayerInfo c)) k" if "k \<in> set layer_keys" for k
  proof -
    have "k \<noteq> PropertyOrigin" using that by (auto simp: layer_keys_def hydrated_keys)
    then show ?thesis using fx [of k] that by (simp add: fixed_def origin_props_def map_add_def split: option.split)
  qed
  have org: "mget (Properties x) PropertyOrigin = (if COrigin c \<noteq> [] then Some (COrigin c) else None)"
  proof -
    have "mget (layer_props (CLayerInfo c)) PropertyOrigin = None"
      by (simp add: layer_props_def hydrated_keys split: option.split)
    then show ?thesis using fx [of PropertyOrigin] by (simp add: fixed_def origin_props_def map_add_def)
  qed
  have l: "hydrated_layer (Properties x) = CLayerInfo c"
    using p by (intro hydrated_layer_props lay) (simp_all add: spdx_portable_def)
  have "filter (\<lambda>kv. \<not> fixed (fst kv)) (Properties x) = mapToCDXProperties (filter (\<lambda>kv. \<not> fixed (fst kv)) (Properties c @ astinusComponentProps c))"
    unfolding x(1) mapToCDXProperties_def by (rule filter_sort)
  also have "filter (\<lambda>kv. \<not> fixed (fst kv)) (Properties c @ astinusComponentProps c) = Properties c"
    using own component_props_fixed(1) [of c] by (simp add: filter_all)
  finally have r: "filter (\<lambda>kv. fst kv \<noteq> PropertyOrigin \<and> fst kv \<notin> set layer_keys) (Properties x) = mapToCDXProperties (Properties c)"
    by (simp add: fixed_def)
  show ?thesis by (simp add: hydrate_fields_def Let_def r l org x(2,3) split: option.split)
qed

lemma add_refs_cpes:
  "add_refs (map (\<lambda>p. Some \<lparr>RefCategory = cat, RefType = ''cpe23Type'', Locator = p\<rparr>) ps) c = Some (c\<lparr>CPEs := CPEs c @ ps\<rparr>)"
  by (induction ps arbitrary: c) (simp_all add: add_ref_def)

lemma add_refs_external:
  "PURL c = [] \<Longrightarrow> CPEs c = [] \<Longrightarrow> add_refs (map Some (externalRefs d)) c = Some (c\<lparr>PURL := PURL d, CPEs := CPEs d\<rparr>)"
  using add_refs_cpes [of "''SECURITY''" "CPEs d"]
  by (cases c) (simp add: externalRefs_def comp_def add_ref_def)

lemma checksums_roundtrip:
  "hashesFromChecksums (checksumsFromHashes hs) = filter (\<lambda>h. spdxChecksumAlgo (Algorithm h) \<noteq> []) hs"
proof -
  have e: "list_all (\<lambda>a. NormalizeHashAlgorithm (spdxChecksumAlgo a) = a) [''md5'', ''sha1'', ''sha256'', ''sha384'', ''sha512'']"
    by (simp add: spdxChecksumAlgo_def NormalizeHashAlgorithm_def go_defs go_char)
  have "NormalizeHashAlgorithm (spdxChecksumAlgo a) = a" if "spdxChecksumAlgo a \<noteq> []" for a
  proof -
    have "a \<in> set [''md5'', ''sha1'', ''sha256'', ''sha384'', ''sha512'']"
      using that by (auto simp: spdxChecksumAlgo_def split: if_splits)
    then show ?thesis using e by (simp only: list_all_iff)
  qed
  then show ?thesis by (induction hs) (simp_all add: hashesFromChecksums_def checksumsFromHashes_def)
qed

lemma package_roundtrip:
  assumes "spdx_portable c"
  shows "packageToComponent (componentToPackage version now c) = Some (spdx_carried c)"
proof -
  have ps: "propsFromAnnotations (annotationsForComponent version now c) = mapToCDXProperties (Properties c @ astinusComponentProps c)"
    using merged_component_props [OF assms] by (simp add: annotationsForComponent_def props_annotations)
  have sup: "(case (if Supplier c \<noteq> [] then Some (Supplier c) else None) of None \<Rightarrow> [] | Some s \<Rightarrow> s) = Supplier c" by simp
  show ?thesis
    unfolding packageToComponent_def componentToPackage_def spdx_package.simps ps sup checksums_roundtrip
    by (subst add_refs_external) (simp_all add: empty_component_def hydrate_fields_written [OF assms] spdx_carried_def)
qed

section \<open>The tree of components\<close>

text \<open>The containment edges of a tree, children first, as the writer emits them.\<close>

fun contains_edges :: "component \<Rightarrow> (string \<times> string) list" where
  "contains_edges (Component c subs) =
     concat (map (\<lambda>s. contains_edges s @ [(pkgID c, pkgID (cdata s))]) subs)"

abbreviation ids_of :: "component \<Rightarrow> string list" where "ids_of c \<equiv> map pkgID (flatten c)"

lemma emitComponent_append:
  "emitComponent version now c acc =
     (fst acc @ map (\<lambda>d. Some (componentToPackage version now d)) (flatten c),
      snd acc @ map (\<lambda>e. contains_rel (fst e) (snd e)) (contains_edges c))"
proof (induction c arbitrary: acc)
  case (Component c subs)
  have "foldl (\<lambda>acc child. let acc' = emitComponent version now child acc
         in (fst acc', snd acc' @ [contains_rel (pkgID c) (pkgID (cdata child))])) acc ss =
      (fst acc @ map (\<lambda>d. Some (componentToPackage version now d)) (concat (map flatten ss)),
       snd acc @ map (\<lambda>e. contains_rel (fst e) (snd e)) (concat (map (\<lambda>s. contains_edges s @ [(pkgID c, pkgID (cdata s))]) ss)))"
    if "set ss \<subseteq> set subs" for ss acc
    using that by (induction ss arbitrary: acc) (simp_all add: Component Let_def)
  then show ?case by simp
qed

lemma emitComponents_append:
  "foldl (\<lambda>acc c. emitComponent version now c acc) acc cs =
     (fst acc @ map (\<lambda>d. Some (componentToPackage version now d)) (all_components cs),
      snd acc @ map (\<lambda>e. contains_rel (fst e) (snd e)) (concat (map contains_edges cs)))"
  by (induction cs arbitrary: acc) (simp_all add: emitComponent_append all_components_def)

lemma componentsFromPackages_written:
  "list_all spdx_portable ds \<Longrightarrow> componentsFromPackages (map (\<lambda>d. Some (componentToPackage version now d)) ds) =
     Some (map (\<lambda>d. Component (spdx_carried d) []) ds)"
  by (induction ds) (simp_all add: package_roundtrip)

text \<open>The effect of an edge on the components by identifier.\<close>

definition nest :: "(string \<Rightarrow> component) \<Rightarrow> string \<times> string \<Rightarrow> string \<Rightarrow> component" where
  "nest g e = g(fst e := add_sub (g (fst e)) (g (snd e)))"

lemma flatten_not_Nil [simp]: "flatten c \<noteq> []"
  by (cases c) simp

lemma flatten_hd: "flatten c = cdata c # tl (flatten c)"
  by (cases c) simp

lemma root_id: "pkgID (cdata c) \<in> set (ids_of c)"
  by (cases c) simp

text \<open>After a tree's edges its root holds the whole tree, and nothing else has changed.\<close>

lemma nest_trees:
  assumes IH: "\<And>s g. s \<in> set subs \<Longrightarrow> distinct (ids_of s) \<Longrightarrow> (\<And>d. d \<in> set (flatten s) \<Longrightarrow> g (pkgID d) = Component (spdx_carried d) []) \<Longrightarrow>
      foldl nest g (contains_edges s) (pkgID (cdata s)) = walk spdx_carried s \<and>
      (\<forall>k. k \<notin> set (ids_of s) \<longrightarrow> foldl nest g (contains_edges s) k = g k)"
  shows "set ss \<subseteq> set subs \<Longrightarrow> distinct (r # concat (map ids_of ss)) \<Longrightarrow>
    (\<And>d. d \<in> set (concat (map flatten ss)) \<Longrightarrow> g (pkgID d) = Component (spdx_carried d) []) \<Longrightarrow>
    foldl nest g (concat (map (\<lambda>s. contains_edges s @ [(r, pkgID (cdata s))]) ss)) r =
      Component (cdata (g r)) (SubComponents (g r) @ map (walk spdx_carried) ss) \<and>
    (\<forall>k. k \<noteq> r \<and> k \<notin> set (concat (map ids_of ss)) \<longrightarrow>
      foldl nest g (concat (map (\<lambda>s. contains_edges s @ [(r, pkgID (cdata s))]) ss)) k = g k)"
proof (induction ss arbitrary: g)
  case Nil
  then show ?case by simp
next
  case (Cons s ss)
  let ?g = "foldl nest g (contains_edges s)"
  let ?h = "nest ?g (r, pkgID (cdata s))"
  have s: "?g (pkgID (cdata s)) = walk spdx_carried s" and out: "\<And>k. k \<notin> set (ids_of s) \<Longrightarrow> ?g k = g k"
    using IH [of s g] Cons.prems by auto
  have r: "r \<notin> set (ids_of s)" using Cons.prems(2) by auto
  have h: "?h r = Component (cdata (g r)) (SubComponents (g r) @ [walk spdx_carried s])"
    using out [OF r] s by (simp add: nest_def add_sub_def)
  have hk: "?h k = g k" if "k \<noteq> r" "k \<notin> set (ids_of s)" for k
    using out [OF that(2)] that(1) by (simp add: nest_def)
  have "?h (pkgID d) = Component (spdx_carried d) []" if "d \<in> set (concat (map flatten ss))" for d
  proof -
    have "pkgID d \<in> set (concat (map ids_of ss))" using that by auto
    then have "pkgID d \<noteq> r" "pkgID d \<notin> set (ids_of s)" using Cons.prems(2) by (simp, blast, simp, blast)
    then show ?thesis using hk Cons.prems(3) [of d] that by simp
  qed
  then have "foldl nest ?h (concat (map (\<lambda>s. contains_edges s @ [(r, pkgID (cdata s))]) ss)) r =
      Component (cdata (?h r)) (SubComponents (?h r) @ map (walk spdx_carried) ss) \<and>
    (\<forall>k. k \<noteq> r \<and> k \<notin> set (concat (map ids_of ss)) \<longrightarrow>
      foldl nest ?h (concat (map (\<lambda>s. contains_edges s @ [(r, pkgID (cdata s))]) ss)) k = ?h k)"
    using Cons.prems(1,2) by (intro Cons.IH) auto
  then show ?case using hk unfolding h by simp
qed

lemma nest_tree:
  "distinct (ids_of c) \<Longrightarrow> (\<And>d. d \<in> set (flatten c) \<Longrightarrow> g (pkgID d) = Component (spdx_carried d) []) \<Longrightarrow>
   foldl nest g (contains_edges c) (pkgID (cdata c)) = walk spdx_carried c \<and>
   (\<forall>k. k \<notin> set (ids_of c) \<longrightarrow> foldl nest g (contains_edges c) k = g k)"
proof (induction c arbitrary: g)
  case (Component c subs)
  have "distinct (pkgID c # concat (map ids_of subs))" using Component.prems(1) by (simp add: map_concat comp_def)
  then have "foldl nest g (contains_edges (Component c subs)) (pkgID c) = Component (cdata (g (pkgID c))) (SubComponents (g (pkgID c)) @ map (walk spdx_carried) subs) \<and>
     (\<forall>k. k \<noteq> pkgID c \<and> k \<notin> set (concat (map ids_of subs)) \<longrightarrow> foldl nest g (contains_edges (Component c subs)) k = g k)"
    unfolding contains_edges.simps using Component by (intro nest_trees [of subs]) auto
  then show ?case using Component.prems(2) [of c] by (simp add: map_concat comp_def)
qed

lemma nest_forest:
  "distinct (concat (map ids_of cs)) \<Longrightarrow> (\<And>d. d \<in> set (concat (map flatten cs)) \<Longrightarrow> g (pkgID d) = Component (spdx_carried d) []) \<Longrightarrow>
   map (foldl nest g (concat (map contains_edges cs))) (map (pkgID \<circ> cdata) cs) = map (walk spdx_carried) cs \<and>
   (\<forall>k. k \<notin> set (concat (map ids_of cs)) \<longrightarrow> foldl nest g (concat (map contains_edges cs)) k = g k)"
proof (induction cs arbitrary: g)
  case (Cons c cs)
  let ?g = "foldl nest g (contains_edges c)"
  have c: "?g (pkgID (cdata c)) = walk spdx_carried c" and out: "\<And>k. k \<notin> set (ids_of c) \<Longrightarrow> ?g k = g k"
    using nest_tree [of c g] Cons.prems by auto
  have later: "k \<notin> set (ids_of c)" if "k \<in> set (concat (map ids_of cs))" for k using Cons.prems(1) that by auto
  have "?g (pkgID d) = Component (spdx_carried d) []" if "d \<in> set (concat (map flatten cs))" for d
    using out [OF later, of "pkgID d"] Cons.prems(2) [of d] that by auto
  then have IH: "map (foldl nest ?g (concat (map contains_edges cs))) (map (pkgID \<circ> cdata) cs) = map (walk spdx_carried) cs"
    "\<And>k. k \<notin> set (concat (map ids_of cs)) \<Longrightarrow> foldl nest ?g (concat (map contains_edges cs)) k = ?g k"
    using Cons.IH [of ?g] Cons.prems(1) by auto
  have "pkgID (cdata c) \<notin> set (concat (map ids_of cs))" using later root_id by blast
  then show ?case using IH c out by simp
qed simp

section \<open>Hydration\<close>

abbreviation ref_of :: "component \<Rightarrow> string" where "ref_of c \<equiv> BOMRef (cdata c)"

lemma byID_snoc: "byID (cs @ [c]) = mput (ref_of c) (length cs) (byID cs)"
  by (simp add: byID_def enumerate_append_eq)

lemma byID_Some: "mget (byID cs) k = Some i \<Longrightarrow> i < length cs \<and> ref_of (cs ! i) = k"
  by (induction cs arbitrary: i rule: rev_induct)
     (fastforce simp: byID_snoc nth_append byID_def [of "[]"] split: if_splits)+

lemma byID_None: "mget (byID cs) k = None \<longleftrightarrow> k \<notin> ref_of ` set cs"
  by (induction cs rule: rev_induct) (auto simp: byID_snoc byID_def [of "[]"])

lemma byID_known: "k \<in> ref_of ` set cs \<longleftrightarrow> (\<exists>i. mget (byID cs) k = Some i)"
  using byID_None [of cs k] by auto

text \<open>What one relationship does: it nests a component, is kept, or is dropped.\<close>

definition nests_edge :: "component list \<Rightarrow> spdx_rel option \<Rightarrow> bool" where
  "nests_edge cs rel \<longleftrightarrow> (case rel of None \<Rightarrow> False
     | Some r \<Rightarrow> RelKind r = ''CONTAINS'' \<and> RefA r \<in> ref_of ` set cs \<and> RefB r \<in> ref_of ` set cs)"

definition kept_edge :: "component list \<Rightarrow> spdx_rel option \<Rightarrow> Relationship list" where
  "kept_edge cs rel = (case rel of None \<Rightarrow> []
     | Some r \<Rightarrow> if RelKind r = ''DESCRIBES'' \<or> nests_edge cs rel then []
         else [\<lparr>SourceRef = RefA r, TargetRef = RefB r, RelType = spdxRelTypeToCanonical (RelKind r)\<rparr>])"

lemma hydrate_rel_effect:
  assumes "map cdata (HComps h) = map cdata cs"
  shows "map cdata (HComps (hydrate_rel (byID cs) h rel)) = map cdata cs"
    and "HKeep (hydrate_rel (byID cs) h rel) = HKeep h @ kept_edge cs rel"
    and "HConsumed (hydrate_rel (byID cs) h rel) = (if nests_edge cs rel then [RefB (the rel)] else []) @ HConsumed h"
proof -
  note k = byID_known [of _ cs]
  have u: "map cdata ((HComps h)[i := add_sub (HComps h ! i) x]) = map cdata cs" for i x
    using assms by (metis add_sub_def component.sel(1) list_update_id map_update nth_map list_update_beyond not_less length_map)
  show "map cdata (HComps (hydrate_rel (byID cs) h rel)) = map cdata cs"
    using assms u by (auto simp: hydrate_rel_def split: option.split)
  show "HKeep (hydrate_rel (byID cs) h rel) = HKeep h @ kept_edge cs rel"
    by (auto simp: hydrate_rel_def kept_edge_def nests_edge_def k spdxRelTypeToCanonical_def split: option.split)
  show "HConsumed (hydrate_rel (byID cs) h rel) = (if nests_edge cs rel then [RefB (the rel)] else []) @ HConsumed h"
    by (auto simp: hydrate_rel_def nests_edge_def k split: option.split)
qed

lemma hydrate_rels_effect:
  assumes "map cdata (HComps h) = map cdata cs"
  shows "map cdata (HComps (foldl (hydrate_rel (byID cs)) h rels)) = map cdata cs"
    and "HKeep (foldl (hydrate_rel (byID cs)) h rels) = HKeep h @ concat (map (kept_edge cs) rels)"
    and "set (HConsumed (foldl (hydrate_rel (byID cs)) h rels)) = set (HConsumed h) \<union> {RefB r | r. Some r \<in> set rels \<and> nests_edge cs (Some r)}"
proof -
  have "map cdata (HComps (foldl (hydrate_rel (byID cs)) h rels)) = map cdata cs \<and>
      HKeep (foldl (hydrate_rel (byID cs)) h rels) = HKeep h @ concat (map (kept_edge cs) rels) \<and>
      set (HConsumed (foldl (hydrate_rel (byID cs)) h rels)) = set (HConsumed h) \<union> {RefB r | r. Some r \<in> set rels \<and> nests_edge cs (Some r)}"
    using assms
  proof (induction rels arbitrary: h)
    case (Cons rel rels)
    have "{RefB r | r. Some r \<in> set (rel # rels) \<and> nests_edge cs (Some r)} =
        set (if nests_edge cs rel then [RefB (the rel)] else []) \<union> {RefB r | r. Some r \<in> set rels \<and> nests_edge cs (Some r)}"
      by (cases rel) (auto simp: nests_edge_def)
    then show ?case
      using Cons.IH [OF hydrate_rel_effect(1) [OF Cons.prems]] hydrate_rel_effect [OF Cons.prems, of rel] by (simp add: Un_ac)
  qed simp
  then show "map cdata (HComps (foldl (hydrate_rel (byID cs)) h rels)) = map cdata cs"
    "HKeep (foldl (hydrate_rel (byID cs)) h rels) = HKeep h @ concat (map (kept_edge cs) rels)"
    "set (HConsumed (foldl (hydrate_rel (byID cs)) h rels)) = set (HConsumed h) \<union> {RefB r | r. Some r \<in> set rels \<and> nests_edge cs (Some r)}"
    by blast+
qed

text \<open>With distinct references the components are a function of the identifier.\<close>

lemma update_by_key:
  assumes "distinct ks" "i < length ks"
  shows "(map g ks)[i := x] = map (g(ks ! i := x)) ks"
  using assms by (intro nth_equalityI) (auto simp: nth_list_update nth_eq_iff_index_eq)

lemma hydrate_nest:
  assumes "distinct (map ref_of cs)" "HComps h = map g (map ref_of cs)" "fst e \<in> ref_of ` set cs" "snd e \<in> ref_of ` set cs"
  shows "HComps (hydrate_rel (byID cs) h (contains_rel (fst e) (snd e))) = map (nest g e) (map ref_of cs)"
proof -
  obtain i j where ij: "mget (byID cs) (fst e) = Some i" "mget (byID cs) (snd e) = Some j"
    using assms(3,4) byID_None [of cs] by (metis option.exhaust)
  then have k: "i < length cs" "ref_of (cs ! i) = fst e" "j < length cs" "ref_of (cs ! j) = snd e"
    using byID_Some by blast+
  then have "HComps (hydrate_rel (byID cs) h (contains_rel (fst e) (snd e))) = (map g (map ref_of cs))[i := add_sub (g (fst e)) (g (snd e))]"
    by (simp add: hydrate_rel_def contains_rel_def ij assms(2))
  also have "\<dots> = map (nest g e) (map ref_of cs)"
    using update_by_key [OF assms(1), of i] k by (simp add: nest_def)
  finally show ?thesis .
qed

lemma hydrate_nests:
  assumes "distinct (map ref_of cs)" "HComps h = map g (map ref_of cs)"
    and "list_all (\<lambda>e. fst e \<in> ref_of ` set cs \<and> snd e \<in> ref_of ` set cs) es"
  shows "HComps (foldl (hydrate_rel (byID cs)) h (map (\<lambda>e. contains_rel (fst e) (snd e)) es)) = map (foldl nest g es) (map ref_of cs)"
  using assms(2,3)
proof (induction es arbitrary: h g)
  case (Cons e es)
  have "HComps (hydrate_rel (byID cs) h (contains_rel (fst e) (snd e))) = map (nest g e) (map ref_of cs)"
    using Cons.prems by (intro hydrate_nest assms(1)) auto
  then show ?case using Cons.IH Cons.prems(2) by simp
qed simp

lemma hydrate_other:
  "list_all (\<lambda>rel. \<not> nests_edge cs rel) rels \<Longrightarrow> HComps (foldl (hydrate_rel (byID cs)) h rels) = HComps h"
proof (induction rels arbitrary: h)
  case (Cons rel rels)
  have "HComps (hydrate_rel (byID cs) h rel) = HComps h"
    using Cons.prems by (auto simp: hydrate_rel_def nests_edge_def byID_known split: option.split)
  then show ?case using Cons by simp
qed simp

section \<open>Writing and reading\<close>

lemma edge_ends: "e \<in> set (contains_edges c) \<Longrightarrow> fst e \<in> set (ids_of c) \<and> snd e \<in> set (tl (ids_of c))"
proof (induction c)
  case (Component c subs)
  then obtain s where s: "s \<in> set subs" "e \<in> set (contains_edges s) \<or> e = (pkgID c, pkgID (cdata s))" by auto
  have "set (tl (ids_of s)) \<subseteq> set (ids_of s)" by (cases "ids_of s") auto
  then have "snd e \<in> set (ids_of s)" "fst e \<in> insert (pkgID c) (set (ids_of s))"
    using s Component.IH [of s] root_id [of s] by auto
  then show ?case using s(1) by auto
qed

lemma descendants_consumed: "k \<in> set (tl (ids_of c)) \<Longrightarrow> k \<in> snd ` set (contains_edges c)"
proof (induction c)
  case (Component c subs)
  then obtain s where s: "s \<in> set subs" "k \<in> set (ids_of s)" by auto
  show ?case
  proof (cases "k = pkgID (cdata s)")
    case True
    then show ?thesis using s by force
  next
    case False
    then have "k \<in> set (tl (ids_of s))" using s(2) by (subst (asm) flatten_hd) (simp add: map_tl)
    then show ?thesis using Component.IH [OF s(1)] s(1) by force
  qed
qed

lemma consumed_edges:
  "snd ` set (concat (map contains_edges cs)) = (\<Union>c \<in> set cs. set (tl (ids_of c)))"
  using edge_ends descendants_consumed by fastforce

lemma roots_remain:
  "list_all (\<lambda>c. pkgID (cdata c) \<notin> S) cs \<Longrightarrow> (\<Union>c \<in> set cs. set (tl (ids_of c))) \<subseteq> S \<Longrightarrow>
   filter (\<lambda>k. k \<notin> S) (concat (map ids_of cs)) = map (pkgID \<circ> cdata) cs"
proof (induction cs)
  case (Cons c cs)
  have "filter (\<lambda>k. k \<notin> S) (tl (ids_of c)) = []"
    using Cons.prems(2) by (auto simp: filter_empty_conv)
  then have "filter (\<lambda>k. k \<notin> S) (ids_of c) = [pkgID (cdata c)]"
    using Cons.prems(1) by (subst flatten_hd) (simp add: map_tl)
  then show ?case using Cons by simp
qed simp

lemma roots_not_below:
  "distinct (concat (map ids_of cs)) \<Longrightarrow> list_all (\<lambda>c. pkgID (cdata c) \<notin> (\<Union>c \<in> set cs. set (tl (ids_of c)))) cs"
proof -
  assume d: "distinct (concat (map ids_of cs))"
  have "False" if c: "c \<in> set cs" and c': "c' \<in> set cs" and k: "pkgID (cdata c) \<in> set (tl (ids_of c'))" for c c'
    using d that
  proof (induction cs)
    case (Cons x xs)
    have t: "set (tl (ids_of c')) \<subseteq> set (ids_of c')" by (cases "ids_of c'") auto
    have x: "pkgID (cdata x) \<notin> set (tl (ids_of x))"
      using Cons.prems(1) flatten_hd [of x] by (metis (no_types) concat.simps(2) distinct.simps(2) distinct_append list.simps(9) map_tl)
    have dj: "set (ids_of x) \<inter> set (ids_of y) = {}" if "y \<in> set xs" for y
      using Cons.prems(1) that by auto
    have k: "pkgID (cdata c) \<in> set (ids_of c)" "pkgID (cdata c) \<in> set (ids_of c')"
      using root_id t Cons.prems(4) by blast+
    consider "c = x" "c' = x" | "c = x" "c' \<in> set xs" | "c \<in> set xs" "c' = x" | "c \<in> set xs" "c' \<in> set xs"
      using Cons.prems(2,3) by auto
    then show ?case
    proof cases
      case 1
      then show ?thesis using x Cons.prems(4) by simp
    next
      case 2
      then show ?thesis using dj [of c'] k by blast
    next
      case 3
      then show ?thesis using dj [of c] k by blast
    next
      case 4
      then show ?thesis using Cons.IH Cons.prems(1,4) by simp
    qed
  qed simp
  then show ?thesis by (auto simp: list_all_iff)
qed

definition leaves :: "component_data list \<Rightarrow> component list" where
  "leaves ds = map (\<lambda>d. Component (spdx_carried d) []) ds"

lemma carried_ref [simp]: "BOMRef (spdx_carried d) = pkgID d"
  by (simp add: spdx_carried_def)

lemma leaves_refs: "map ref_of (leaves ds) = map pkgID ds"
  by (simp add: leaves_def comp_def)

definition written_edges :: "SBOM \<Rightarrow> spdx_rel option list" where
  "written_edges sbom =
     map (\<lambda>c. Some \<lparr>RefA = ''DOCUMENT'', RefB = pkgID (cdata c), RelKind = ''DESCRIBES''\<rparr>) (Components sbom) @
     map (\<lambda>r. Some \<lparr>RefA = refToID (SourceRef r), RefB = refToID (TargetRef r), RelKind = canonicalToSPDXRelType (RelType r)\<rparr>)
       (filter (\<lambda>r. canonicalToSPDXRelType (RelType r) \<noteq> []) (Relationships sbom))"

definition sanitised :: "Relationship \<Rightarrow> Relationship" where
  "sanitised r = \<lparr>SourceRef = refToID (SourceRef r), TargetRef = refToID (TargetRef r), RelType = RelType r\<rparr>"

lemma kinds_distinct:
  "RelationshipDependsOn \<noteq> RelationshipProvides" "RelationshipDependsOn \<noteq> RelationshipContains" "RelationshipProvides \<noteq> RelationshipContains"
  by (simp_all add: RelationshipDependsOn_def RelationshipProvides_def RelationshipContains_def)

lemma edge_kind:
  assumes "RelType r \<noteq> RelationshipContains"
  shows "canonicalToSPDXRelType (RelType r) \<noteq> [] \<longleftrightarrow> carried r"
    and "canonicalToSPDXRelType (RelType r) \<noteq> ''CONTAINS''" and "canonicalToSPDXRelType (RelType r) \<noteq> ''DESCRIBES''"
    and "carried r \<Longrightarrow> spdxRelTypeToCanonical (canonicalToSPDXRelType (RelType r)) = RelType r"
proof -
  consider "RelType r = RelationshipDependsOn" | "RelType r = RelationshipProvides"
    | "RelType r \<noteq> RelationshipDependsOn" "RelType r \<noteq> RelationshipProvides" by blast
  then have "(canonicalToSPDXRelType (RelType r) \<noteq> [] \<longleftrightarrow> carried r) \<and> canonicalToSPDXRelType (RelType r) \<noteq> ''CONTAINS'' \<and>
      canonicalToSPDXRelType (RelType r) \<noteq> ''DESCRIBES'' \<and>
      (carried r \<longrightarrow> spdxRelTypeToCanonical (canonicalToSPDXRelType (RelType r)) = RelType r)"
    by cases (use assms kinds_distinct in \<open>simp_all add: canonicalToSPDXRelType_def spdxRelTypeToCanonical_def carried_def\<close>)
  then show "canonicalToSPDXRelType (RelType r) \<noteq> [] \<longleftrightarrow> carried r" "canonicalToSPDXRelType (RelType r) \<noteq> ''CONTAINS''"
    "canonicalToSPDXRelType (RelType r) \<noteq> ''DESCRIBES''"
    "carried r \<Longrightarrow> spdxRelTypeToCanonical (canonicalToSPDXRelType (RelType r)) = RelType r" by blast+
qed

lemma written_edges_flat:
  assumes "list_all (\<lambda>r. RelType r \<noteq> RelationshipContains) (Relationships sbom)"
  shows "list_all (\<lambda>rel. \<not> nests_edge cs rel) (written_edges sbom)"
    and "concat (map (kept_edge cs) (written_edges sbom)) = map sanitised (filter carried (Relationships sbom))"
proof -
  show "list_all (\<lambda>rel. \<not> nests_edge cs rel) (written_edges sbom)"
    using assms edge_kind(2) by (auto simp: written_edges_def list_all_iff nests_edge_def)
  have "concat (map (kept_edge cs) (map (\<lambda>c. Some \<lparr>RefA = ''DOCUMENT'', RefB = pkgID (cdata c), RelKind = ''DESCRIBES''\<rparr>) xs)) = []" for xs
    by (induction xs) (simp_all add: kept_edge_def)
  moreover have "concat (map (kept_edge cs) (map (\<lambda>r. Some \<lparr>RefA = refToID (SourceRef r), RefB = refToID (TargetRef r), RelKind = canonicalToSPDXRelType (RelType r)\<rparr>)
        (filter (\<lambda>r. canonicalToSPDXRelType (RelType r) \<noteq> []) rs))) = map sanitised (filter carried rs)"
    if "list_all (\<lambda>r. RelType r \<noteq> RelationshipContains) rs" for rs
    using that
    by (induction rs) (simp_all add: edge_kind kept_edge_def nests_edge_def sanitised_def)
  ultimately show "concat (map (kept_edge cs) (written_edges sbom)) = map sanitised (filter carried (Relationships sbom))"
    using assms by (simp add: written_edges_def)
qed

lemma filter_by_key:
  assumes "map f (map G ks) = ks"
  shows "filter (\<lambda>c. f c \<notin> S) (map G ks) = map G (filter (\<lambda>k. k \<notin> S) ks)"
proof -
  have "f (G k) = k" if "k \<in> set ks" for k using assms that by (induction ks) auto
  then show ?thesis by (induction ks) auto
qed

lemma at_key: "distinct (map k ds) \<Longrightarrow> x \<in> set ds \<Longrightarrow> map_of (map (\<lambda>d. (k d, v d)) ds) (k x) = Some (v x)"
  by (rule map_of_is_SomeI) (auto simp: comp_def)

lemma all_ids: "map pkgID (all_components cs) = concat (map ids_of cs)"
  by (simp add: all_components_def map_concat comp_def)

abbreviation tree_edges :: "component list \<Rightarrow> (string \<times> string) list" where
  "tree_edges cs \<equiv> concat (map contains_edges cs)"

abbreviation contains_rels :: "(string \<times> string) list \<Rightarrow> spdx_rel option list" where
  "contains_rels es \<equiv> map (\<lambda>e. contains_rel (fst e) (snd e)) es"

lemma tree_edges_known:
  "list_all (\<lambda>e. fst e \<in> set (map pkgID (all_components cs)) \<and> snd e \<in> set (map pkgID (all_components cs))) (tree_edges cs)"
proof -
  have "fst e \<in> set (ids_of c) \<and> snd e \<in> set (ids_of c)" if "e \<in> set (contains_edges c)" for e c
    using edge_ends [OF that] list.set_sel(2) [of "ids_of c"] by auto
  then show ?thesis unfolding all_ids by (fastforce simp: list_all_iff)
qed

text \<open>The containment edges among known components nest, all of them and nothing else.\<close>

lemma contains_rels_nest:
  assumes "list_all (\<lambda>e. fst e \<in> ref_of ` set cs \<and> snd e \<in> ref_of ` set cs) es"
  shows "concat (map (kept_edge cs) (contains_rels es)) = []"
    and "{RefB r | r. Some r \<in> set (contains_rels es) \<and> nests_edge cs (Some r)} = snd ` set es"
proof -
  have n: "nests_edge cs (contains_rel (fst e) (snd e))" if "e \<in> set es" for e
    using assms that by (auto simp: nests_edge_def contains_rel_def list_all_iff)
  show "concat (map (kept_edge cs) (contains_rels es)) = []"
    using n by (auto simp: kept_edge_def contains_rel_def)
  have "snd e \<in> {RefB r | r. Some r \<in> set (contains_rels es) \<and> nests_edge cs (Some r)}" if e: "e \<in> set es" for e
  proof -
    have "Some \<lparr>RefA = fst e, RefB = snd e, RelKind = ''CONTAINS''\<rparr> \<in> set (contains_rels es)" using e by (force simp: contains_rel_def)
    then show ?thesis using n [OF e] unfolding contains_rel_def by force
  qed
  then show "{RefB r | r. Some r \<in> set (contains_rels es) \<and> nests_edge cs (Some r)} = snd ` set es"
    by (force simp: contains_rel_def)
qed

text \<open>What hydration makes of the written containment edges.\<close>

lemma hydrated_trees:
  assumes d: "distinct (map pkgID (all_components cs))"
  defines "h \<equiv> foldl (hydrate_rel (byID (leaves (all_components cs)))) \<lparr>HComps = leaves (all_components cs), HKeep = [], HConsumed = []\<rparr>
    (contains_rels (tree_edges cs))"
  shows "filter (\<lambda>c. ref_of c \<notin> snd ` set (tree_edges cs)) (HComps h) = walks spdx_carried cs"
proof -
  let ?ds = "all_components cs" and ?ls = "leaves (all_components cs)"
  define g where "g = the \<circ> map_of (map (\<lambda>d. (pkgID d, Component (spdx_carried d) [])) ?ds)"
  define G where "G = foldl nest g (tree_edges cs)"
  have leaf: "g (pkgID x) = Component (spdx_carried x) []" if "x \<in> set ?ds" for x
    using at_key [OF d that, of "\<lambda>d. Component (spdx_carried d) []"] by (simp add: g_def)
  have refset: "ref_of ` set ?ls = set (map pkgID ?ds)" by (metis leaves_refs set_map)
  have ends: "list_all (\<lambda>e. fst e \<in> ref_of ` set ?ls \<and> snd e \<in> ref_of ` set ?ls) (tree_edges cs)"
    unfolding refset by (rule tree_edges_known)
  have start: "?ls = map g (map pkgID ?ds)" using leaf by (simp add: leaves_def)
  have dl: "distinct (map ref_of ?ls)" unfolding leaves_refs by (rule d)
  have "HComps \<lparr>HComps = ?ls, HKeep = [], HConsumed = []\<rparr> = map g (map ref_of ?ls)"
    unfolding leaves_refs hydration.select_convs by (rule start)
  then have "HComps h = map G (map ref_of ?ls)"
    unfolding h_def G_def by (rule hydrate_nests [OF dl _ ends])
  then have comps: "HComps h = map G (map pkgID ?ds)" unfolding leaves_refs .
  have "map cdata (HComps h) = map cdata ?ls"
    unfolding h_def by (rule hydrate_rels_effect(1)) simp
  then have "map BOMRef (map cdata (HComps h)) = map BOMRef (map cdata ?ls)" by (rule arg_cong)
  then have "map ref_of (HComps h) = map ref_of ?ls" unfolding map_map comp_def .
  then have "map ref_of (HComps h) = map pkgID ?ds" unfolding leaves_refs .
  then have "map ref_of (map G (map pkgID ?ds)) = map pkgID ?ds" unfolding comps .
  then have "filter (\<lambda>c. ref_of c \<notin> snd ` set (tree_edges cs)) (HComps h) = map G (filter (\<lambda>k. k \<notin> snd ` set (tree_edges cs)) (map pkgID ?ds))"
    unfolding comps by (rule filter_by_key)
  also have "filter (\<lambda>k. k \<notin> snd ` set (tree_edges cs)) (map pkgID ?ds) = map (pkgID \<circ> cdata) cs"
    unfolding consumed_edges all_ids using d by (intro roots_remain roots_not_below) (simp_all add: all_ids)
  also have "map G (map (pkgID \<circ> cdata) cs) = walks spdx_carried cs"
    using nest_forest [of cs g] d leaf unfolding G_def all_ids by (simp add: all_components_def)
  finally show ?thesis .
qed

lemma hydration_written:
  fixes sbom :: SBOM
  defines "cs \<equiv> leaves (all_components (Components sbom))"
  assumes d: "distinct (map pkgID (all_components (Components sbom)))"
    and r: "list_all (\<lambda>r. RelType r \<noteq> RelationshipContains) (Relationships sbom)"
  shows "hydrateRelationships cs (contains_rels (tree_edges (Components sbom)) @ written_edges sbom) =
     (walks spdx_carried (Components sbom), map sanitised (filter carried (Relationships sbom)))"
proof -
  let ?R = "contains_rels (tree_edges (Components sbom))"
  let ?init = "\<lparr>HComps = cs, HKeep = [], HConsumed = []\<rparr>"
  let ?h = "foldl (hydrate_rel (byID cs)) ?init (?R @ written_edges sbom)"
  have "ref_of ` set cs = set (map pkgID (all_components (Components sbom)))" by (metis cs_def leaves_refs set_map)
  then have known: "list_all (\<lambda>e. fst e \<in> ref_of ` set cs \<and> snd e \<in> ref_of ` set cs) (tree_edges (Components sbom))"
    using tree_edges_known [of "Components sbom"] by simp
  note flat = written_edges_flat [OF r, of cs] and nested = contains_rels_nest [OF known]
  have keep: "HKeep ?h = map sanitised (filter carried (Relationships sbom))"
    using hydrate_rels_effect(2) [of ?init cs "?R @ written_edges sbom"] unfolding map_append concat_append flat(2) nested(1) by simp
  have "{RefB r | r. Some r \<in> set (?R @ written_edges sbom) \<and> nests_edge cs (Some r)} =
      {RefB r | r. Some r \<in> set ?R \<and> nests_edge cs (Some r)}"
    using flat(1) by (auto simp: list_all_iff)
  then have consumed: "set (HConsumed ?h) = snd ` set (tree_edges (Components sbom))"
    using hydrate_rels_effect(3) [of ?init cs "?R @ written_edges sbom"] nested(2) by simp
  have "HComps ?h = HComps (foldl (hydrate_rel (byID cs)) ?init ?R)"
    unfolding foldl_append by (rule hydrate_other [OF flat(1)])
  then show ?thesis
    using hydrated_trees [OF d] unfolding hydrateRelationships_def Let_def keep consumed by (simp only: cs_def)
qed

lemma written_read:
  assumes "list_all spdx_portable (all_components (Components sbom))"
    and "distinct (map pkgID (all_components (Components sbom)))"
    and "list_all (\<lambda>r. RelType r \<noteq> RelationshipContains) (Relationships sbom)" and "props_ok (SProperties sbom)"
  shows "fromSPDX tparse (toSPDX version now sbom) raw fmt =
    Some \<lparr>SMetadata = metadataFromDoc tparse (toSPDX version now sbom), Components = walks spdx_carried (Components sbom),
      Relationships = map sanitised (filter carried (Relationships sbom)),
      SProperties = mapToCDXProperties (SProperties sbom), SourceFormat = fmt, SourceRaw = raw\<rparr>"
proof -
  have rels: "DocRelationships (toSPDX version now sbom) = contains_rels (tree_edges (Components sbom)) @ written_edges sbom"
    by (simp add: toSPDX_def Let_def emitComponents_append written_edges_def)
  have pkgs: "componentsFromPackages (DocPackages (toSPDX version now sbom)) = Some (leaves (all_components (Components sbom)))"
    using assms(1) by (simp add: toSPDX_def Let_def emitComponents_append componentsFromPackages_written leaves_def)
  have props: "propsFromAnnotations (derefAnnotations (DocAnnotations (toSPDX version now sbom))) = mapToCDXProperties (SProperties sbom)"
    using assms(4) by (simp add: toSPDX_def Let_def props_annotations)
  show ?thesis
    unfolding fromSPDX_def pkgs rels props using hydration_written [OF assms(2,3)] by (simp add: Let_def)
qed

section \<open>Properties\<close>

text \<open>C34.  SPDX identifiers consist of letters, digits, dots and dashes, are never empty, and are identifiers of themselves.\<close>

theorem refToID_legal: "list_all id_char (refToID s) \<and> refToID s \<noteq> [] \<and> refToID (refToID s) = refToID s"
  by (simp add: refToID_chars)

text \<open>The hand-written insertion sort sorts.\<close>

theorem sortStrings_equiv: "sortStrings s = sort s"
  by (rule sortStrings_sort)

text \<open>
  C17.  Writing an SBOM as SPDX and reading it back restores its tree of components, however deep, from the
  flat packages and the containment edges, each component with what SPDX carries of it; dependency edges
  survive under the sanitised references, if identifiers are distinct and property keys fit in annotations.
\<close>

theorem spdx_roundtrip:
  assumes "list_all spdx_portable (all_components (Components sbom))"
    and "distinct (map pkgID (all_components (Components sbom)))"
    and "list_all (\<lambda>r. RelType r \<noteq> RelationshipContains) (Relationships sbom)" and "props_ok (SProperties sbom)"
  shows "fromSPDX tparse (toSPDX version now sbom) raw fmt =
    Some \<lparr>SMetadata = metadataFromDoc tparse (toSPDX version now sbom), Components = walks spdx_carried (Components sbom),
      Relationships = map sanitised (filter carried (Relationships sbom)),
      SProperties = mapToCDXProperties (SProperties sbom), SourceFormat = fmt, SourceRaw = raw\<rparr>"
  using assms by (rule written_read)

text \<open>
  Reading panics on exactly the documents in which a package has a nil external reference; nil packages,
  annotations and relationships are skipped.
\<close>

theorem fromSPDX_panics:
  "fromSPDX tparse doc raw fmt = None \<longleftrightarrow> (\<exists>p. Some p \<in> set (DocPackages doc) \<and> None \<in> set (PackageExternalReferences p))"
proof -
  have r: "add_refs rs c = None \<longleftrightarrow> None \<in> set rs" for rs c
    by (induction rs c rule: add_refs.induct) auto
  have p: "packageToComponent p = None \<longleftrightarrow> None \<in> set (PackageExternalReferences p)" for p
    by (simp only: packageToComponent_def option.map_disc_iff r)
  have "componentsFromPackages ps = None \<longleftrightarrow> (\<exists>p. Some p \<in> set ps \<and> None \<in> set (PackageExternalReferences p))" for ps
  proof (induction ps rule: componentsFromPackages.induct)
    case (3 p ps)
    then show ?case using p [of p] by (cases "packageToComponent p") auto
  qed simp_all
  from this [of "DocPackages doc"] show ?thesis
    by (cases "componentsFromPackages (DocPackages doc)") (simp_all add: fromSPDX_def Let_def)
qed

text \<open>
  Whatever relationships a document has, in whatever order, nesting moves components and never alters
  their own fields: at the top stay, in order, those that no containment edge between known components names
  as a child, and the edges kept are the others that are not descriptions.
\<close>

theorem hydrate_keeps_roots:
  "map cdata (fst (hydrateRelationships cs rels)) =
     filter (\<lambda>d. \<not> list_ex (\<lambda>rel. nests_edge cs rel \<and> RefB (the rel) = BOMRef d) rels) (map cdata cs) \<and>
   snd (hydrateRelationships cs rels) = concat (map (kept_edge cs) rels)"
proof -
  let ?h = "foldl (hydrate_rel (byID cs)) \<lparr>HComps = cs, HKeep = [], HConsumed = []\<rparr> rels"
  have e: "map cdata (HComps ?h) = map cdata cs" "HKeep ?h = concat (map (kept_edge cs) rels)"
    "set (HConsumed ?h) = {RefB r | r. Some r \<in> set rels \<and> nests_edge cs (Some r)}"
    using hydrate_rels_effect [of "\<lparr>HComps = cs, HKeep = [], HConsumed = []\<rparr>" cs rels] by simp_all
  have a: "map cdata (filter (\<lambda>c. ref_of c \<notin> set (HConsumed ?h)) (HComps ?h)) =
      filter (\<lambda>d. BOMRef d \<notin> set (HConsumed ?h)) (map cdata cs)"
    unfolding e(1) [symmetric] by (simp add: filter_map comp_def)
  have b: "BOMRef d \<notin> set (HConsumed ?h) \<longleftrightarrow> \<not> list_ex (\<lambda>rel. nests_edge cs rel \<and> RefB (the rel) = BOMRef d) rels" for d
    unfolding e(3) list_ex_iff by (auto simp: nests_edge_def split: option.splits)
  show ?thesis using a unfolding hydrateRelationships_def Let_def fst_conv snd_conv b e(2) by (intro conjI refl)
qed

section \<open>The second trip\<close>

lemma Join_one: "Join sep [x] = x"
  by simp

lemma carried_licenses:
  "Licenses (spdx_carried c) = (if stated (licenseExpression (Licenses c)) then as_expression (licenseExpression (Licenses c)) else [])"
  by (simp add: spdx_carried_def)

lemma expression_again [simp]: "stated l \<Longrightarrow> licenseExpression (as_expression l) = l"
  by (simp add: licenseExpression_def as_expression_def license_part_def stated_def)

lemma no_expression: "\<not> stated (licenseExpression [])"
  by (simp add: licenseExpression_def stated_def)

lemma sorted_again: "mapToCDXProperties (mapToCDXProperties m) = mapToCDXProperties m"
  unfolding mapToCDXProperties_def by (rule sort_key_id_if_sorted) simp

text \<open>Writing and reading is an idempotent step on every component, which keeps what identifies it.\<close>

lemma carried_id: "pkgID (spdx_carried c) = pkgID c"
  by (simp add: pkgID_def [of "spdx_carried c"])

lemma carried_fields:
  "Name (spdx_carried c) = Name c" "Version (spdx_carried c) = Version c" "Description (spdx_carried c) = Description c"
  "Copyright (spdx_carried c) = Copyright c" "Properties (spdx_carried c) = mapToCDXProperties (Properties c)"
  "Supplier (spdx_carried c) = Supplier c" "Hashes (spdx_carried c) = filter (\<lambda>h. spdxChecksumAlgo (Algorithm h) \<noteq> []) (Hashes c)"
  "PURL (spdx_carried c) = PURL c" "CPEs (spdx_carried c) = CPEs c" "COrigin (spdx_carried c) = COrigin c"
  "CLayerInfo (spdx_carried c) = CLayerInfo c"
  by (simp_all add: spdx_carried_def)

lemma licenses_again:
  "(if stated (licenseExpression (Licenses (spdx_carried c))) then as_expression (licenseExpression (Licenses (spdx_carried c))) else []) =
     (if stated (licenseExpression (Licenses c)) then as_expression (licenseExpression (Licenses c)) else [])"
  by (simp add: carried_licenses no_expression)

interpretation spdx_trip: idempotent_step spdx_carried "\<lambda>c. (Name c, Version c, PURL c, CPEs c, Supplier c)"
proof
  show "(Name (spdx_carried c), Version (spdx_carried c), PURL (spdx_carried c), CPEs (spdx_carried c), Supplier (spdx_carried c)) =
      (Name c, Version c, PURL c, CPEs c, Supplier c)" for c
    by (simp add: carried_fields)
  show "spdx_carried (spdx_carried c) = spdx_carried c" for c
    by (subst (1 3) spdx_carried_def) (simp add: carried_fields carried_id licenses_again sorted_again)
qed

lemma carried_portable: "spdx_portable c \<Longrightarrow> spdx_portable (spdx_carried c)"
  by (simp add: spdx_portable_def spdx_carried_def props_ok_def list_all_iff mapToCDXProperties_def)
     (metis distinct_map mset_eq_imp_distinct_iff mset_map mset_sort)

lemma props_ok_sorted: "props_ok m \<Longrightarrow> props_ok (mapToCDXProperties m)"
  by (simp add: props_ok_def list_all_iff) (simp add: mapToCDXProperties_def)

lemma sanitised_again:
  "filter carried (map sanitised (filter carried rs)) = map sanitised (filter carried rs)" "sanitised (sanitised r) = sanitised r"
  by (induction rs) (simp_all add: sanitised_def carried_def)

lemma carried_not_contains: "list_all (\<lambda>r. RelType r \<noteq> RelationshipContains) (map sanitised (filter carried rs))"
  using kinds_distinct by (auto simp: list_all_iff sanitised_def carried_def)

text \<open>What was read from a written SBOM is a normal form: written and read again, its components, relationships and properties do not change.\<close>

theorem spdx_second_trip:
  assumes "list_all spdx_portable (all_components (Components sbom))"
    and "distinct (map pkgID (all_components (Components sbom)))"
    and "list_all (\<lambda>r. RelType r \<noteq> RelationshipContains) (Relationships sbom)" and "props_ok (SProperties sbom)"
    and "fromSPDX tparse (toSPDX version now sbom) raw fmt = Some once"
  shows "fromSPDX tparse' (toSPDX version' now' once) raw' fmt' =
    Some (once\<lparr>SMetadata := metadataFromDoc tparse' (toSPDX version' now' once), SourceFormat := fmt', SourceRaw := raw'\<rparr>)"
proof -
  have once: "Components once = walks spdx_carried (Components sbom)"
    "Relationships once = map sanitised (filter carried (Relationships sbom))" "SProperties once = mapToCDXProperties (SProperties sbom)"
    using assms(5) unfolding written_read [OF assms(1-4)] by auto
  have "list_all spdx_portable (all_components (Components once))"
    using assms(1) by (auto simp: once(1) list_all_iff carried_portable)
  moreover have "distinct (map pkgID (all_components (Components once)))"
    using assms(2) by (simp add: once(1) comp_def carried_id)
  moreover have "list_all (\<lambda>r. RelType r \<noteq> RelationshipContains) (Relationships once)"
    unfolding once(2) by (rule carried_not_contains)
  moreover have "props_ok (SProperties once)" unfolding once(3) by (rule props_ok_sorted [OF assms(4)])
  ultimately show ?thesis
    using once spdx_trip.walk_idem [of "Components sbom"] sanitised_again
    by (subst written_read) (simp_all add: sorted_again comp_def)
qed

section \<open>Witnesses and counterexamples\<close>

definition demo_spdx :: SBOM where
  "demo_spdx = empty_sbom\<lparr>SProperties := [(''b'', ''1''), (''a'', ''2'')],
     Components := [Component (empty_component\<lparr>BOMRef := ''r'', Name := ''root''\<rparr>)
       [Component (empty_component\<lparr>BOMRef := ''m@1'', Name := ''mid'', CPEs := [''c1'', ''c2''], PURL := ''pkg:npm/mid@1''\<rparr>)
         [Component (empty_component\<lparr>Name := ''leaf'', Version := ''2'', COrigin := OriginBaseImage, Properties := [(''z'', ''1'')]\<rparr>) []]]],
     Relationships := [\<lparr>SourceRef = ''r'', TargetRef = ''m@1'', RelType = RelationshipDependsOn\<rparr>]\<rparr>"

lemma demo_spdx_ok:
  "list_all spdx_portable (all_components (Components demo_spdx))" "distinct (map pkgID (all_components (Components demo_spdx)))"
  "list_all (\<lambda>r. RelType r \<noteq> RelationshipContains) (Relationships demo_spdx)" "props_ok (SProperties demo_spdx)"
  by code_simp+

theorem spdx_roundtrip_witness:
  "map_option Components (fromSPDX (\<lambda>_ _. None) (toSPDX ''v'' ''t'' demo_spdx) [] []) = Some (walks spdx_carried (Components demo_spdx))"
  unfolding spdx_roundtrip [OF demo_spdx_ok] by simp

theorem spdx_second_trip_witness:
  "\<exists>once. fromSPDX (\<lambda>_ _. None) (toSPDX ''v'' ''t'' demo_spdx) [] [] = Some once \<and>
     map_option Components (fromSPDX (\<lambda>_ _. None) (toSPDX ''w'' ''u'' once) [] []) = Some (Components once)"
proof -
  obtain once where o: "fromSPDX (\<lambda>_ _. None) (toSPDX ''v'' ''t'' demo_spdx) [] [] = Some once"
    using written_read [OF demo_spdx_ok] by blast
  then show ?thesis using spdx_second_trip [OF demo_spdx_ok o, of "\<lambda>_ _. None" "''w''" "''u''" "[]" "[]"] by auto
qed

text \<open>A document that names the outer containment first loses what the inner one contains.\<close>

lemma outer_first_loses:
  "map (\<lambda>c. map (length \<circ> SubComponents) (SubComponents c))
     (fst (hydrateRelationships (leaves [empty_component\<lparr>BOMRef := ''a''\<rparr>, empty_component\<lparr>BOMRef := ''b''\<rparr>, empty_component\<lparr>BOMRef := ''c''\<rparr>])
       [contains_rel ''a'' ''b'', contains_rel ''b'' ''c''])) = [[0]]"
  by code_simp

text \<open>Components that contain each other disappear, and so does one that contains itself.\<close>

lemma cycle_vanishes:
  "fst (hydrateRelationships (leaves [empty_component\<lparr>BOMRef := ''a''\<rparr>, empty_component\<lparr>BOMRef := ''b''\<rparr>])
     [contains_rel ''a'' ''b'', contains_rel ''b'' ''a'']) = []"
  "fst (hydrateRelationships (leaves [empty_component\<lparr>BOMRef := ''a''\<rparr>]) [contains_rel ''a'' ''a'']) = []"
  by code_simp+

text \<open>Different references can have one identifier.\<close>

lemma identifiers_collide:
  "pkgID (empty_component\<lparr>BOMRef := ''pkg:npm/a@1''\<rparr>) = pkgID (empty_component\<lparr>BOMRef := ''pkg:npm-a-1''\<rparr>)"
  by code_simp

text \<open>The disjunction of one license is not kept apart from the others.\<close>

lemma and_binds_tighter:
  "licenseExpression [\<lparr>SPDXID = [], LicenseName = [], Expression = ''MIT OR GPL'', URL = []\<rparr>, \<lparr>SPDXID = ''BSD'', LicenseName = [], Expression = [], URL = []\<rparr>] =
     ''MIT OR GPL AND BSD''"
  by code_simp

text \<open>A version with a dash is split at the last one.\<close>

lemma prerelease_split: "splitTool ''astinus-1.2.0-rc1'' = \<lparr>Vendor = [], ToolName = ''astinus-1.2.0'', ToolVersion = ''rc1''\<rparr>"
  by code_simp

end
