(* ===== verification/CpeSources.thy ===== *)
theory CpeSources
  imports Cpe
begin

text \<open>
  The sources of CPE candidates (\<open>internal/enrich/cpe/sources\<close>): the resolver that walks them by priority and
  mode with its cache, the NVD source with its scoring and its token bucket, ClearlyDefined, and the offline
  sources.  A source is a record whose \<open>Match\<close> threads a state \<open>'w\<close>, the world of its HTTP client and limiter.
  The HTTP client and the JSON decoders are parameters.  Times are nanoseconds; confidences and tokens are
  exact where the code uses floating point.
\<close>

section \<open>Sources and the resolver\<close>

definition ModeOffline :: string where "ModeOffline = ''offline''"
definition ModeOnline :: string where "ModeOnline = ''online''"
definition ModeHybrid :: string where "ModeHybrid = ''hybrid''"

lemmas modes = ModeOffline_def ModeOnline_def ModeHybrid_def

definition Mode_IsKnown :: "string \<Rightarrow> bool" where
  "Mode_IsKnown m \<longleftrightarrow> m = ModeOffline \<or> m = ModeOnline \<or> m = ModeHybrid"

datatype source_error = BuildFailed | RequestFailed | RateLimited nat | BadStatus nat | ReadFailed | ParseFailed | WaitCancelled

record 'w cpe_source =
  SrcName :: string
  RequiresNetwork :: bool
  Priority :: int
  Match :: "PURL_parts \<Rightarrow> 'w \<Rightarrow> (source_error + Candidate list) \<times> 'w"

record 'w multi_source =
  MSources :: "'w cpe_source list"
  MMode :: string

definition NewMultiSource :: "string \<Rightarrow> 'w cpe_source option list \<Rightarrow> 'w multi_source" where
  "NewMultiSource m srcs =
     (let mode = (if Mode_IsKnown m then m else ModeHybrid);
          known = concat (map (\<lambda>s. case s of None \<Rightarrow> [] | Some s \<Rightarrow> [s]) srcs)
      in \<lparr>MSources = sort_desc Priority (filter (\<lambda>s. \<not> (mode = ModeOffline \<and> RequiresNetwork s)) known), MMode = mode\<rparr>)"

definition hasHighConfidence :: "Candidate list \<Rightarrow> bool" where
  "hasHighConfidence cands \<longleftrightarrow> list_ex (\<lambda>c. PrimaryMin DefaultThreshold \<le> Confidence c) cands"

definition purlCacheKey :: "PURL_parts \<Rightarrow> string" where
  "purlCacheKey p = PType p @ ''|'' @ Namespace p @ ''|'' @ PName p @ ''|'' @ PVersion p"

text \<open>The walk also returns its trace: the sources asked and their answers.\<close>

type_synonym 'w calls = "('w cpe_source \<times> (source_error + Candidate list)) list"

fun walk_sources :: "string \<Rightarrow> PURL_parts \<Rightarrow> 'w cpe_source list \<Rightarrow> bool \<Rightarrow> Candidate list \<Rightarrow> 'w \<Rightarrow> Candidate list \<times> 'w \<times> 'w calls" where
  "walk_sources mode p [] high cands w = (cands, w, [])"
| "walk_sources mode p (s # srcs) high cands w =
     (if mode = ModeHybrid \<and> high \<and> RequiresNetwork s then walk_sources mode p srcs high cands w
      else
        let r = Match s p w;
            rest = (case fst r of
               Inl e \<Rightarrow> walk_sources mode p srcs high cands (snd r)
             | Inr cs \<Rightarrow>
                 if cs = [] then walk_sources mode p srcs high cands (snd r)
                 else walk_sources mode p srcs (high \<or> \<not> RequiresNetwork s \<and> hasHighConfidence cs) (cands @ cs) (snd r))
        in (fst rest, fst (snd rest), (s, fst r) # snd (snd rest)))"

type_synonym cpe_cache = "Candidate list gomap"

definition Cache_Get :: "string \<Rightarrow> cpe_cache \<Rightarrow> Candidate list option" where
  "Cache_Get k c = mget c k"

definition Cache_Set :: "string \<Rightarrow> Candidate list \<Rightarrow> cpe_cache \<Rightarrow> cpe_cache" where
  "Cache_Set k v c = mput k v c"

definition Cache_Size :: "cpe_cache \<Rightarrow> nat" where
  "Cache_Size c = length c"

definition resolveCtx :: "'w multi_source \<Rightarrow> PURL_parts \<Rightarrow> cpe_cache \<times> 'w \<Rightarrow> Candidate list \<times> (cpe_cache \<times> 'w) \<times> 'w calls" where
  "resolveCtx r p st =
     (case Cache_Get (purlCacheKey p) (fst st) of
        Some cached \<Rightarrow> (cached, st, [])
      | None \<Rightarrow>
          (case walk_sources (MMode r) p (MSources r) False [] (snd st) of
             (all, w, calls) \<Rightarrow> (all, (Cache_Set (purlCacheKey p) all (fst st), w), calls)))"

section \<open>Offline sources\<close>

definition PatternMatcher :: "bundledEntry list option \<Rightarrow> 'w cpe_source" where
  "PatternMatcher dict = \<lparr>SrcName = ''pattern-matcher'', RequiresNetwork = False, Priority = 100,
     Match = (\<lambda>p w. (Inr (BundledResolver dict p), w))\<rparr>"

definition NewHeuristic :: "'w cpe_source" where
  "NewHeuristic = \<lparr>SrcName = ''heuristic'', RequiresNetwork = False, Priority = 50,
     Match = (\<lambda>p w. (Inr (HeuristicResolver p), w))\<rparr>"

definition NewLocalDict :: "local_dictionary option \<Rightarrow> 'w cpe_source option" where
  "NewLocalDict d = map_option (\<lambda>d. \<lparr>SrcName = ''local-dictionary'', RequiresNetwork = False, Priority = 90,
     Match = (\<lambda>p w. (Inr (LocalDictionaryResolver d p), w))\<rparr>) d"

section \<open>URLs\<close>

definition unreserved :: "char \<Rightarrow> bool" where
  "unreserved c \<longleftrightarrow> (let n = (of_char c :: nat) in
     (65 \<le> n \<and> n \<le> 90) \<or> (97 \<le> n \<and> n \<le> 122) \<or> (48 \<le> n \<and> n \<le> 57) \<or> c \<in> {CHR ''-'', CHR ''_'', CHR ''.'', CHR ''~''})"

definition escape_char :: "char \<Rightarrow> string" where
  "escape_char c = (let n = (of_char c :: nat) in [CHR ''%'', upper_char (hex_digit (n div 16)), upper_char (hex_digit (n mod 16))])"

definition QueryEscape :: "string \<Rightarrow> string" where
  "QueryEscape s = concat (map (\<lambda>c. if c = CHR '' '' then ''+'' else if unreserved c then [c] else escape_char c) s)"

definition PathEscape :: "string \<Rightarrow> string" where
  "PathEscape s = concat (map (\<lambda>c. if unreserved c \<or> c \<in> {CHR ''$'', CHR ''&'', CHR ''+'', CHR ''='', CHR '':'', CHR ''@''} then [c] else escape_char c) s)"

section \<open>The token bucket\<close>

record token_bucket =
  Tokens :: rat
  Burst :: rat
  Rps :: rat
  LastRefill :: int

definition newTokenBucket :: "rat \<Rightarrow> int \<Rightarrow> int \<Rightarrow> token_bucket" where
  "newTokenBucket rps burst now =
     (let r = (if rps \<le> 0 then 1 else rps); b = (if burst < 1 then 1 else burst)
      in \<lparr>Tokens = of_int b, Burst = of_int b, Rps = r, LastRefill = now\<rparr>)"

definition second :: rat where "second = 1000000000"

definition refill :: "int \<Rightarrow> token_bucket \<Rightarrow> token_bucket" where
  "refill now b =
     (let t = Tokens b + of_int (now - LastRefill b) / second * Rps b
      in b\<lparr>Tokens := (if t > Burst b then Burst b else t), LastRefill := now\<rparr>)"

definition tryAcquire :: "int \<Rightarrow> token_bucket \<Rightarrow> int \<times> token_bucket" where
  "tryAcquire now b0 =
     (let b = refill now b0 in
      if Tokens b \<ge> 1 then (0, b\<lparr>Tokens := Tokens b - 1\<rparr>)
      else (\<lfloor>(1 - Tokens b) / Rps b * second\<rfloor> + 1000000, b))"

text \<open>The loop of \<open>Wait\<close> over the instants at which it tries, each with whether the context ends the wait after it.\<close>

fun Wait :: "(int \<times> bool) list \<Rightarrow> token_bucket \<Rightarrow> bool option \<times> token_bucket" where
  "Wait [] b = (None, b)"
| "Wait ((now, done) # polls) b =
     (case tryAcquire now b of (wait, b') \<Rightarrow>
        if wait \<le> 0 then (Some True, b') else if done then (Some False, b') else Wait polls b')"

section \<open>The NVD source\<close>

definition nvdAnonymousRPS :: rat where "nvdAnonymousRPS = 5 / 30"
definition nvdAuthenticatedRPS :: rat where "nvdAuthenticatedRPS = 50 / 30"

definition normalizeAttr :: "string \<Rightarrow> string" where
  "normalizeAttr s = replace_char (CHR ''.'') (CHR ''_'') (replace_char (CHR ''-'') (CHR ''_'') s)"

definition lastSegment :: "string \<Rightarrow> string" where
  "lastSegment s = (case LastIndexAny (\<lambda>c. c = CHR ''/'' \<or> c = CHR ''.'') s of None \<Rightarrow> s | Some i \<Rightarrow> drop (i + 1) s)"

definition cpeVersionCompatible :: "string \<Rightarrow> string \<Rightarrow> bool" where
  "cpeVersionCompatible c p \<longleftrightarrow> c = ''*'' \<or> c = ''-'' \<or> c = [] \<or> c = p"

definition vendorMatchExact :: "string \<Rightarrow> string \<Rightarrow> string \<Rightarrow> string \<times> rat" where
  "vendorMatchExact v ns nm =
     (if ns \<noteq> [] \<and> v = ns then (''exact'', 50 / 100)
      else if nm \<noteq> [] \<and> v = nm then (''known-mapping'', 50 / 100)
      else if ns \<noteq> [] \<and> normalizeAttr v = normalizeAttr ns then (''normalized'', 40 / 100)
      else if nm \<noteq> [] \<and> normalizeAttr v = normalizeAttr nm then (''normalized'', 40 / 100)
      else ([], 0))"

definition vendorMatchSubstring :: "string \<Rightarrow> string \<Rightarrow> string \<Rightarrow> string \<times> rat" where
  "vendorMatchSubstring v ns nm =
     (if ns \<noteq> [] \<and> (Contains v ns \<or> Contains ns v) then (''substring'', 10 / 100)
      else if nm \<noteq> [] \<and> (Contains v nm \<or> Contains nm v) then (''substring'', 10 / 100)
      else ([], 0))"

definition scoreVendor :: "string \<Rightarrow> string \<Rightarrow> string \<Rightarrow> string \<times> rat" where
  "scoreVendor cpeVendor ns nm =
     (let v = ToLower cpeVendor in
      if v = [] then (''no-match'', 0)
      else if fst (vendorMatchExact v (ToLower ns) (ToLower nm)) \<noteq> [] then vendorMatchExact v (ToLower ns) (ToLower nm)
      else if fst (vendorMatchSubstring v (ToLower ns) (ToLower nm)) \<noteq> [] then vendorMatchSubstring v (ToLower ns) (ToLower nm)
      else (''no-match'', 0))"

definition scoreProduct :: "string \<Rightarrow> string \<Rightarrow> string \<Rightarrow> string \<times> rat" where
  "scoreProduct cpeProduct name ns =
     (let p = ToLower cpeProduct; nm = ToLower name in
      if p = [] \<or> nm = [] then (''no-match'', 0)
      else if p = nm then (''exact'', 40 / 100)
      else if normalizeAttr p = normalizeAttr nm then (''normalized'', 30 / 100)
      else if ns \<noteq> [] \<and> p = lastSegment (ToLower ns) then (''namespace-segment'', 20 / 100)
      else if Contains p nm \<or> Contains nm p then (''substring'', 10 / 100)
      else (''no-match'', 0))"

definition scoreVersion :: "string \<Rightarrow> string \<Rightarrow> string \<times> rat" where
  "scoreVersion c p =
     (if p = [] then (''wildcard'', 5 / 100)
      else if c = p then (''exact'', 20 / 100)
      else if c = ''*'' \<or> c = ''-'' \<or> c = [] then (''wildcard'', 10 / 100)
      else (''mismatch'', 0))"

definition scoreNVDMatch :: "PURL_parts \<Rightarrow> CPEv23 \<Rightarrow> rat \<times> MatchDetails" where
  "scoreNVDMatch purl c =
     (if Part c = ''h'' then
        (ConfidenceReject, \<lparr>VendorMatch = ''no-match'', ProductMatch = ''no-match'', VersionMatch = ''n/a'', SearchMethod = ''keyword-search''\<rparr>)
      else
        let v = scoreVendor (Vendor c) (Namespace purl) (PName purl);
            p = scoreProduct (Product c) (PName purl) (Namespace purl);
            n = scoreVersion (CVersion c) (PVersion purl);
            score = snd v + snd p + snd n
        in (if score > 1 then 1 else score,
            \<lparr>VendorMatch = fst v, ProductMatch = fst p, VersionMatch = fst n, SearchMethod = ''keyword-search''\<rparr>))"

definition nvd_candidate :: "PURL_parts \<Rightarrow> string \<Rightarrow> Candidate list" where
  "nvd_candidate purl raw =
     (case Parse raw of None \<Rightarrow> []
      | Some c \<Rightarrow>
          if PVersion purl \<noteq> [] \<and> \<not> cpeVersionCompatible (CVersion c) (PVersion purl) then []
          else let s = scoreNVDMatch purl c in
            [\<lparr>CPE = raw, Confidence = fst s, Source = ''nvd-api'', CEvidenceNote = ''nvd keyword='' @ Quote (PName purl),
              RejectedReason = (if Part c = ''h'' then ''hardware-type CPE for software PURL '' @ [CHR 0xE2, CHR 0x80, CHR 0x94] @ '' see ADR-0029''
                else if fst s < 30 / 100 then ''weak nvd substring match (vendor/product mismatch)'' else []),
              Details = snd s\<rparr>])"

definition candidatesFromNVDPage :: "string list \<Rightarrow> PURL_parts \<Rightarrow> Candidate list" where
  "candidatesFromNVDPage page purl = concat (map (nvd_candidate purl) (filter (\<lambda>raw. raw \<noteq> [] \<and> IsValidCPE raw) page))"

text \<open>An HTTP exchange: the request's URL and headers to an error or a status and the capped body, if it can be read.\<close>

type_synonym 'w http = "string \<Rightarrow> (string \<times> string) list \<Rightarrow> 'w \<Rightarrow> (unit + nat \<times> string option) \<times> 'w"

definition nvd_endpoint :: "string \<Rightarrow> string \<Rightarrow> string" where
  "nvd_endpoint base name = base @ ''?keywordSearch='' @ QueryEscape name @ ''&resultsPerPage=20''"

definition fetchPage :: "'w http \<Rightarrow> (string \<Rightarrow> string list option) \<Rightarrow> string \<Rightarrow> string \<Rightarrow> string \<Rightarrow> 'w \<Rightarrow> (source_error + string list) \<times> 'w" where
  "fetchPage http decode base apiKey name w =
     (case http (nvd_endpoint base name) (if apiKey \<noteq> [] then [(''apiKey'', apiKey)] else []) w of
        (Inl _, w') \<Rightarrow> (Inl RequestFailed, w')
      | (Inr (status, body), w') \<Rightarrow>
          (if status = 403 \<or> status = 429 then Inl (RateLimited status)
           else if status \<noteq> 200 then Inl (BadStatus status)
           else (case body of None \<Rightarrow> Inl ReadFailed
             | Some b \<Rightarrow> (case decode b of None \<Rightarrow> Inl ParseFailed | Some page \<Rightarrow> Inr page)), w'))"

text \<open>\<open>acquire\<close> is the limiter's \<open>Wait\<close> in the world: it says whether a token was taken.\<close>

definition NVDAPI :: "('w \<Rightarrow> bool \<times> 'w) \<Rightarrow> 'w http \<Rightarrow> (string \<Rightarrow> string list option) \<Rightarrow> string \<Rightarrow> string \<Rightarrow> 'w cpe_source" where
  "NVDAPI acquire http decode base apiKey = \<lparr>SrcName = ''nvd-api'', RequiresNetwork = True, Priority = 80,
     Match = (\<lambda>p w.
       if PName p = [] then (Inr [], w)
       else (case acquire w of (ok, w1) \<Rightarrow>
         if \<not> ok then (Inl WaitCancelled, w1)
         else (case fetchPage http decode base apiKey (PName p) w1 of
             (Inl e, w2) \<Rightarrow> (Inl e, w2)
           | (Inr page, w2) \<Rightarrow> (Inr (candidatesFromNVDPage page p), w2))))\<rparr>"

section \<open>ClearlyDefined\<close>

definition purlToCDCoordinates :: "PURL_parts \<Rightarrow> string option" where
  "purlToCDCoordinates p =
     (let n = PName p; rev = PVersion p; ns = Namespace p in
      if n = [] \<or> rev = [] then None
      else if PType p = ''npm'' then Some (''npm/npmjs/'' @ (if ns \<noteq> [] then ns else ''-'') @ ''/'' @ n @ ''/'' @ rev)
      else if PType p = ''pypi'' then Some (''pypi/pypi/-/'' @ n @ ''/'' @ rev)
      else if PType p = ''maven'' then if ns = [] then None else Some (''maven/mavencentral/'' @ ns @ ''/'' @ n @ ''/'' @ rev)
      else if PType p = ''nuget'' then Some (''nuget/nuget/-/'' @ n @ ''/'' @ rev)
      else if PType p = ''gem'' then Some (''gem/rubygems/-/'' @ n @ ''/'' @ rev)
      else if PType p = ''cargo'' then Some (''crate/cratesio/-/'' @ n @ ''/'' @ rev)
      else if PType p = ''golang'' then if ns = [] then None else Some (''git/github/'' @ ns @ ''/'' @ n @ ''/'' @ rev)
      else None)"

definition cd_candidates :: "string list \<Rightarrow> Candidate list" where
  "cd_candidates cpes = map (\<lambda>c. \<lparr>CPE = c, Confidence = ConfidenceHigh, Source = ''clearly-defined'',
     CEvidenceNote = ''clearly-defined identifiers.cpe'', RejectedReason = [],
     Details = no_details\<lparr>SearchMethod := ''purl-direct''\<rparr>\<rparr>) (filter IsValidCPE cpes)"

definition cd_response :: "(string \<Rightarrow> string list option) \<Rightarrow> nat \<Rightarrow> string option \<Rightarrow> source_error + Candidate list" where
  "cd_response decode status body =
     (if status = 404 then Inr []
      else if status \<ge> 500 then Inl (BadStatus status)
      else if status \<noteq> 200 then Inr []
      else (case body of None \<Rightarrow> Inl ReadFailed
        | Some b \<Rightarrow> (case decode b of None \<Rightarrow> Inl ParseFailed | Some cpes \<Rightarrow> Inr (cd_candidates cpes))))"

definition ClearlyDefined :: "'w http \<Rightarrow> (string \<Rightarrow> string list option) \<Rightarrow> string \<Rightarrow> 'w cpe_source" where
  "ClearlyDefined http decode base = \<lparr>SrcName = ''clearly-defined'', RequiresNetwork = True, Priority = 70,
     Match = (\<lambda>p w. case purlToCDCoordinates p of
         None \<Rightarrow> (Inr [], w)
       | Some coords \<Rightarrow>
           (case http (base @ ''/definitions/'' @ PathEscape coords) [] w of
              (Inl _, w') \<Rightarrow> (Inl RequestFailed, w')
            | (Inr (status, body), w') \<Rightarrow> (cd_response decode status body, w')))\<rparr>"

section \<open>The walk\<close>

definition answer_of :: "source_error + Candidate list \<Rightarrow> Candidate list" where
  "answer_of a = (case a of Inl _ \<Rightarrow> [] | Inr cs \<Rightarrow> cs)"

definition offline_high :: "'w cpe_source \<times> (source_error + Candidate list) \<Rightarrow> bool" where
  "offline_high c \<longleftrightarrow> \<not> RequiresNetwork (fst c) \<and> hasHighConfidence (answer_of (snd c))"

text \<open>No network source is asked after an offline one gave a confident answer.\<close>

fun saves_network :: "'w calls \<Rightarrow> bool" where
  "saves_network [] \<longleftrightarrow> True"
| "saves_network (c # cs) \<longleftrightarrow>
     (if offline_high c then list_all (\<lambda>d. \<not> RequiresNetwork (fst d)) cs else True) \<and> saves_network cs"

lemma hasHighConfidence_Nil [simp]: "\<not> hasHighConfidence []"
  by (simp add: hasHighConfidence_def)

text \<open>One step: an error and an empty answer add nothing and raise no flag.\<close>

lemma walk_step:
  "walk_sources mode p (s # srcs) high cands w =
     (if mode = ModeHybrid \<and> high \<and> RequiresNetwork s then walk_sources mode p srcs high cands w
      else
        let a = fst (Match s p w);
            rest = walk_sources mode p srcs (high \<or> offline_high (s, a)) (cands @ answer_of a) (snd (Match s p w))
        in (fst rest, fst (snd rest), (s, a) # snd (snd rest)))"
  by (cases "fst (Match s p w)") (auto simp: Let_def answer_of_def offline_high_def)

declare walk_sources.simps(2) [simp del]

lemma walk_asks: "c \<in> set (snd (snd (walk_sources mode p srcs high cands w))) \<Longrightarrow> fst c \<in> set srcs"
  by (induction srcs arbitrary: high cands w) (auto simp: walk_step Let_def split: if_splits)

lemma walk_answers:
  "fst (walk_sources mode p srcs high cands w) =
     cands @ concat (map (\<lambda>c. answer_of (snd c)) (snd (snd (walk_sources mode p srcs high cands w))))"
  by (induction srcs arbitrary: high cands w) (auto simp: walk_step Let_def)

lemma walk_all:
  "mode \<noteq> ModeHybrid \<Longrightarrow> map fst (snd (snd (walk_sources mode p srcs high cands w))) = srcs"
  by (induction srcs arbitrary: high cands w) (auto simp: walk_step Let_def)

lemma walk_high: "list_all (\<lambda>d. \<not> RequiresNetwork (fst d)) (snd (snd (walk_sources ModeHybrid p srcs True cands w)))"
  by (induction srcs arbitrary: cands w) (auto simp: walk_step Let_def)

lemma walk_saves: "saves_network (snd (snd (walk_sources ModeHybrid p srcs high cands w)))"
  by (induction srcs arbitrary: high cands w) (auto simp: walk_step Let_def walk_high)

definition resolve_calls :: "'w multi_source \<Rightarrow> PURL_parts \<Rightarrow> cpe_cache \<times> 'w \<Rightarrow> 'w calls" where
  "resolve_calls r p st = snd (snd (resolveCtx r p st))"

lemma resolve_calls_cases:
  "resolve_calls r p st = [] \<or> resolve_calls r p st = snd (snd (walk_sources (MMode r) p (MSources r) False [] (snd st)))"
  by (auto simp: resolve_calls_def resolveCtx_def split: option.split prod.split)

section \<open>The token bucket's invariant\<close>

definition bucket_ok :: "token_bucket \<Rightarrow> bool" where
  "bucket_ok b \<longleftrightarrow> 0 \<le> Tokens b \<and> Tokens b \<le> Burst b \<and> 1 \<le> Burst b \<and> 0 < Rps b"

lemma second_pos [simp]: "0 < second"
  by (simp add: second_def)

text \<open>The tokens that flow in over a duration.\<close>

definition gain :: "rat \<Rightarrow> int \<Rightarrow> rat" where
  "gain r d = of_int d / second * r"

lemma gain_add: "gain r (d + e) = gain r d + gain r e"
  by (simp add: gain_def add_divide_distrib distrib_right)

lemma gain_nonneg: "0 \<le> d \<Longrightarrow> 0 < r \<Longrightarrow> 0 \<le> gain r d"
  unfolding gain_def by (intro mult_nonneg_nonneg divide_nonneg_nonneg) (simp_all add: less_imp_le)

lemma enough_gain: "0 < r \<Longrightarrow> x / r * second \<le> of_int d \<Longrightarrow> x \<le> gain r d"
  by (simp add: gain_def second_def field_simps)

lemma newTokenBucket_ok: "bucket_ok (newTokenBucket rps burst now)"
  by (simp add: bucket_ok_def newTokenBucket_def Let_def)

lemma Tokens_refill:
  "Tokens (refill now b) = min (Burst b) (Tokens b + gain (Rps b) (now - LastRefill b))"
  by (simp add: refill_def Let_def gain_def)

lemma refill_ok:
  assumes "bucket_ok b" "LastRefill b \<le> now"
  shows "bucket_ok (refill now b)" "Tokens (refill now b) \<le> Tokens b + gain (Rps b) (now - LastRefill b)"
    "LastRefill (refill now b) = now" "Rps (refill now b) = Rps b" "Burst (refill now b) = Burst b"
proof -
  have "0 \<le> gain (Rps b) (now - LastRefill b)" using assms by (intro gain_nonneg) (simp_all add: bucket_ok_def)
  then show "bucket_ok (refill now b)" "Tokens (refill now b) \<le> Tokens b + gain (Rps b) (now - LastRefill b)"
    using assms(1) by (simp_all add: bucket_ok_def refill_def Let_def gain_def)
qed (simp_all add: refill_def Let_def)

lemma wait_positive:
  assumes "bucket_ok b" "Tokens b < 1"
  shows "0 < \<lfloor>(1 - Tokens b) / Rps b * second\<rfloor> + 1000000"
proof -
  have "0 \<le> (1 - Tokens b) / Rps b * second"
    using assms by (intro mult_nonneg_nonneg divide_nonneg_nonneg) (simp_all add: bucket_ok_def less_imp_le)
  then have "0 \<le> \<lfloor>(1 - Tokens b) / Rps b * second\<rfloor>" by simp
  then show ?thesis by linarith
qed

lemma tryAcquire_state:
  assumes "bucket_ok b" "LastRefill b \<le> now" "tryAcquire now b = (wait, b')"
  shows "bucket_ok b'" "LastRefill b' = now" "Rps b' = Rps b" "Burst b' = Burst b"
    "(if wait = 0 then 1 else 0) + Tokens b' \<le> Tokens b + gain (Rps b) (now - LastRefill b)"
    "0 \<le> wait" "wait = 0 \<longleftrightarrow> 1 \<le> Tokens (refill now b)"
proof -
  note r = refill_ok [OF assms(1,2)]
  show "bucket_ok b'" "LastRefill b' = now" "Rps b' = Rps b" "Burst b' = Burst b"
    using assms(3) r by (auto simp: tryAcquire_def Let_def bucket_ok_def split: if_splits)
  show "(if wait = 0 then 1 else 0) + Tokens b' \<le> Tokens b + gain (Rps b) (now - LastRefill b)" "0 \<le> wait"
    "wait = 0 \<longleftrightarrow> 1 \<le> Tokens (refill now b)"
    using assms(3) r(2) wait_positive [OF r(1)] by (cases "Tokens (refill now b) \<ge> 1"; force simp: tryAcquire_def Let_def)+
qed

text \<open>The number of tokens taken by attempts at the given instants.\<close>

fun acquires :: "int list \<Rightarrow> token_bucket \<Rightarrow> nat" where
  "acquires [] b = 0"
| "acquires (now # ts) b =
     (case tryAcquire now b of (wait, b') \<Rightarrow> (if wait = 0 then 1 else 0) + acquires ts b')"

lemma acquires_bound:
  "bucket_ok b \<Longrightarrow> sorted (LastRefill b # ts) \<Longrightarrow>
   of_nat (acquires ts b) \<le> Tokens b + gain (Rps b) (last (LastRefill b # ts) - LastRefill b)"
proof (induction ts arbitrary: b)
  case Nil
  then show ?case by (simp add: bucket_ok_def gain_def)
next
  case (Cons now ts)
  obtain wait b' where t: "tryAcquire now b = (wait, b')" by fastforce
  have le: "LastRefill b \<le> now" using Cons.prems(2) by simp
  note s = tryAcquire_state [OF Cons.prems(1) le t]
  have "of_nat (acquires ts b') \<le> Tokens b' + gain (Rps b) (last (now # ts) - now)"
    using Cons.IH [OF s(1)] Cons.prems(2) by (simp add: s(2,3))
  moreover have "gain (Rps b) (last (now # ts) - LastRefill b) = gain (Rps b) (last (now # ts) - now) + gain (Rps b) (now - LastRefill b)"
    by (simp flip: gain_add)
  moreover have "last (LastRefill b # now # ts) = last (now # ts)" by simp
  ultimately show ?case using s(5) by (auto simp: t simp del: last.simps split: if_splits)
qed

section \<open>The scores\<close>

lemma vendor_scores:
  "scoreVendor v ns nm \<in> {(''exact'', 50 / 100), (''known-mapping'', 50 / 100), (''normalized'', 40 / 100), (''substring'', 10 / 100), (''no-match'', 0)}"
  by (simp add: scoreVendor_def vendorMatchExact_def vendorMatchSubstring_def Let_def)

lemma product_scores:
  "scoreProduct p nm ns \<in> {(''exact'', 40 / 100), (''normalized'', 30 / 100), (''namespace-segment'', 20 / 100), (''substring'', 10 / 100), (''no-match'', 0)}"
  by (simp add: scoreProduct_def Let_def)

lemma version_scores:
  "scoreVersion c [] = (''wildcard'', 5 / 100)"
  "p \<noteq> [] \<Longrightarrow> scoreVersion c p \<in> {(''exact'', 20 / 100), (''wildcard'', 10 / 100), (''mismatch'', 0)}"
  by (simp_all add: scoreVersion_def)

text \<open>The evidence that reaches the threshold of a primary CPE; \<open>pinned\<close> says that the package URL has a version.\<close>

definition strong_match :: "bool \<Rightarrow> MatchDetails \<Rightarrow> bool" where
  "strong_match pinned d \<longleftrightarrow>
     (let v = VendorMatch d; p = ProductMatch d; n = VersionMatch d; soft = (pinned \<and> n \<noteq> ''mismatch'') in
      if v = ''exact'' \<or> v = ''known-mapping'' then
        p \<in> set [''exact'', ''normalized'', ''namespace-segment''] \<or> p = ''substring'' \<and> soft \<or> n = ''exact''
      else if v = ''normalized'' then
        p \<in> set [''exact'', ''normalized''] \<or> p = ''namespace-segment'' \<and> soft \<or> p = ''substring'' \<and> n = ''exact''
      else v = ''substring'' \<and> p = ''exact'' \<and> n = ''exact'')"

lemma score_table:
  assumes "v \<in> {(''exact'', 50 / 100), (''known-mapping'', 50 / 100), (''normalized'', 40 / 100), (''substring'', 10 / 100), (''no-match'', 0 :: rat)}"
    and "p \<in> {(''exact'', 40 / 100), (''normalized'', 30 / 100), (''namespace-segment'', 20 / 100), (''substring'', 10 / 100), (''no-match'', 0 :: rat)}"
    and "n \<in> (if pinned then {(''exact'', 20 / 100), (''wildcard'', 10 / 100), (''mismatch'', 0 :: rat)} else {(''wildcard'', 5 / 100)})"
  shows "0 \<le> snd v + snd p + snd n"
    and "70 / 100 \<le> snd v + snd p + snd n \<longleftrightarrow>
      strong_match pinned \<lparr>VendorMatch = fst v, ProductMatch = fst p, VersionMatch = fst n, SearchMethod = m\<rparr>"
proof -
  define vs where "vs = [(''exact'', 50 / 100), (''known-mapping'', 50 / 100), (''normalized'', 40 / 100), (''substring'', 10 / 100), (''no-match'', 0 :: rat)]"
  define ps where "ps = [(''exact'', 40 / 100), (''normalized'', 30 / 100), (''namespace-segment'', 20 / 100), (''substring'', 10 / 100), (''no-match'', 0 :: rat)]"
  define ns where "ns = (\<lambda>b. if b then [(''exact'', 20 / 100), (''wildcard'', 10 / 100), (''mismatch'', 0 :: rat)] else [(''wildcard'', 5 / 100)])"
  have "list_all (\<lambda>v. list_all (\<lambda>p. list_all (\<lambda>b. list_all (\<lambda>n. 0 \<le> snd v + snd p + snd n \<and>
      (70 / 100 \<le> snd v + snd p + snd n \<longleftrightarrow> strong_match b \<lparr>VendorMatch = fst v, ProductMatch = fst p, VersionMatch = fst n, SearchMethod = m\<rparr>))
      (ns b)) [True, False]) ps) vs"
    unfolding vs_def ps_def ns_def by (simp add: strong_match_def Let_def)
  moreover have "v \<in> set vs" "p \<in> set ps" "n \<in> set (ns pinned)"
    using assms by (auto simp: vs_def ps_def ns_def)
  ultimately have "0 \<le> snd v + snd p + snd n \<and>
      (70 / 100 \<le> snd v + snd p + snd n \<longleftrightarrow> strong_match pinned \<lparr>VendorMatch = fst v, ProductMatch = fst p, VersionMatch = fst n, SearchMethod = m\<rparr>)"
    unfolding list_all_iff by (cases pinned) fastforce+
  then show "0 \<le> snd v + snd p + snd n" "70 / 100 \<le> snd v + snd p + snd n \<longleftrightarrow>
      strong_match pinned \<lparr>VendorMatch = fst v, ProductMatch = fst p, VersionMatch = fst n, SearchMethod = m\<rparr>" by blast+
qed

lemma software_score:
  assumes "Part c \<noteq> ''h''"
  shows "0 \<le> fst (scoreNVDMatch purl c) \<and> fst (scoreNVDMatch purl c) \<le> 1"
    and "70 / 100 \<le> fst (scoreNVDMatch purl c) \<longleftrightarrow> strong_match (PVersion purl \<noteq> []) (snd (scoreNVDMatch purl c))"
proof -
  have n: "scoreVersion (CVersion c) (PVersion purl) \<in>
      (if PVersion purl \<noteq> [] then {(''exact'', 20 / 100), (''wildcard'', 10 / 100), (''mismatch'', 0 :: rat)} else {(''wildcard'', 5 / 100)})"
    using version_scores by simp
  note t = score_table [OF vendor_scores product_scores n]
  show "0 \<le> fst (scoreNVDMatch purl c) \<and> fst (scoreNVDMatch purl c) \<le> 1"
    using t(1) [of "Vendor c" "Namespace purl" "PName purl" "Product c" "PName purl" "Namespace purl"] assms
    by (simp add: scoreNVDMatch_def Let_def)
  show "70 / 100 \<le> fst (scoreNVDMatch purl c) \<longleftrightarrow> strong_match (PVersion purl \<noteq> []) (snd (scoreNVDMatch purl c))"
    using t(2) [of "Vendor c" "Namespace purl" "PName purl" "Product c" "PName purl" "Namespace purl" "''keyword-search''"] assms
    by (auto simp: scoreNVDMatch_def Let_def)
qed

text \<open>What is known of every candidate of a page.\<close>

definition software :: "string \<Rightarrow> bool" where
  "software raw \<longleftrightarrow> (case Parse raw of None \<Rightarrow> False | Some c \<Rightarrow> Part c \<noteq> ''h'')"

lemma nvd_candidate_props:
  assumes "c \<in> set (candidatesFromNVDPage page purl)"
  shows "CPE c \<in> set page" "IsValidCPE (CPE c)" "0 \<le> Confidence c \<and> Confidence c \<le> 1"
    "software (CPE c) \<Longrightarrow> 70 / 100 \<le> Confidence c \<longleftrightarrow> strong_match (PVersion purl \<noteq> []) (Details c)"
    "\<not> software (CPE c) \<Longrightarrow> Confidence c = 5 / 100 \<and> RejectedReason c \<noteq> []"
    "RejectedReason c = [] \<longleftrightarrow> software (CPE c) \<and> 30 / 100 \<le> Confidence c"
proof -
  obtain raw where raw: "raw \<in> set page" "IsValidCPE raw" "c \<in> set (nvd_candidate purl raw)"
    using assms by (auto simp: candidatesFromNVDPage_def)
  obtain p where q: "Parse raw = Some p" using raw(3) by (cases "Parse raw") (simp_all add: nvd_candidate_def)
  have p: "Parse raw = Some p" "CPE c = raw" "Confidence c = fst (scoreNVDMatch purl p)" "Details c = snd (scoreNVDMatch purl p)"
    "RejectedReason c = (if Part p = ''h'' then ''hardware-type CPE for software PURL '' @ [CHR 0xE2, CHR 0x80, CHR 0x94] @ '' see ADR-0029''
      else if fst (scoreNVDMatch purl p) < 30 / 100 then ''weak nvd substring match (vendor/product mismatch)'' else [])"
    using raw(3) by (simp_all only: nvd_candidate_def q Let_def option.case split: if_splits) simp_all
  have sw: "software (CPE c) \<longleftrightarrow> Part p \<noteq> ''h''" by (simp add: software_def p(1,2))
  have hard: "Part p = ''h'' \<Longrightarrow> fst (scoreNVDMatch purl p) = 5 / 100" by (simp add: scoreNVDMatch_def ConfidenceReject_def)
  show "CPE c \<in> set page" "IsValidCPE (CPE c)" using raw p(2) by simp_all
  show "0 \<le> Confidence c \<and> Confidence c \<le> 1"
    using software_score(1) [of p purl] hard p(3) by (cases "Part p = ''h''") simp_all
  show "software (CPE c) \<Longrightarrow> 70 / 100 \<le> Confidence c \<longleftrightarrow> strong_match (PVersion purl \<noteq> []) (Details c)"
    unfolding sw p(3,4) by (rule software_score(2))
  show "\<not> software (CPE c) \<Longrightarrow> Confidence c = 5 / 100 \<and> RejectedReason c \<noteq> []"
    "RejectedReason c = [] \<longleftrightarrow> software (CPE c) \<and> 30 / 100 \<le> Confidence c"
    using hard by (auto simp: sw p(3,5) not_less)
qed

section \<open>A run of the resolver\<close>

text \<open>The package URLs of a run in order, each with the answer and the sources asked.\<close>

fun resolve_run :: "'w multi_source \<Rightarrow> cpe_cache \<times> 'w \<Rightarrow> PURL_parts list \<Rightarrow> (string \<times> Candidate list \<times> bool) list" where
  "resolve_run r st [] = []"
| "resolve_run r st (p # ps) =
     (case resolveCtx r p st of (all, st', calls) \<Rightarrow>
        (purlCacheKey p, all, Cache_Get (purlCacheKey p) (fst st) = None) # resolve_run r st' ps)"

definition walked_keys :: "(string \<times> Candidate list \<times> bool) list \<Rightarrow> string list" where
  "walked_keys run = map fst (filter (\<lambda>x. snd (snd x)) run)"

lemma resolve_cached:
  "resolveCtx r p st = (all, st', calls) \<Longrightarrow> dom (mget (fst st')) = insert (purlCacheKey p) (dom (mget (fst st)))"
  by (auto simp: resolveCtx_def Cache_Get_def Cache_Set_def split: option.splits prod.splits if_splits)

lemma walked_once:
  "distinct (walked_keys (resolve_run r st ps)) \<and>
   set (walked_keys (resolve_run r st ps)) = purlCacheKey ` set ps - dom (mget (fst st))"
proof (induction ps arbitrary: st)
  case Nil
  then show ?case by (simp add: walked_keys_def)
next
  case (Cons p ps)
  obtain all st' calls where r: "resolveCtx r p st = (all, st', calls)" by (cases "resolveCtx r p st")
  show ?case
    using Cons [of st'] resolve_cached [OF r] r by (auto simp: walked_keys_def Cache_Get_def)
qed

section \<open>Properties\<close>

text \<open>In offline mode no network source is ever asked, whatever sources are registered.\<close>

theorem offline_no_network:
  "list_all (\<lambda>c. \<not> RequiresNetwork (fst c)) (resolve_calls (NewMultiSource ModeOffline srcs) p st)"
proof -
  have m: "MMode (NewMultiSource ModeOffline srcs) = ModeOffline" "\<forall>s \<in> set (MSources (NewMultiSource ModeOffline srcs)). \<not> RequiresNetwork s"
    by (simp_all add: NewMultiSource_def Let_def Mode_IsKnown_def)
  show ?thesis
    using resolve_calls_cases [of "NewMultiSource ModeOffline srcs" p st] m(2) walk_asks
    by (fastforce simp: list_all_iff)
qed

text \<open>In hybrid mode no network source is asked after an offline source has given a confident answer.\<close>

theorem hybrid_saves_network: "saves_network (resolve_calls (NewMultiSource ModeHybrid srcs) p st)"
proof -
  have "MMode (NewMultiSource ModeHybrid srcs) = ModeHybrid" by (simp add: NewMultiSource_def Let_def Mode_IsKnown_def)
  then show ?thesis
    using resolve_calls_cases [of "NewMultiSource ModeHybrid srcs" p st] by (auto simp: walk_saves)
qed

text \<open>
  The sources are registered by descending priority, those of equal priority in the order given; in
  offline mode all but the network sources, otherwise all.
\<close>

theorem registered_by_priority:
  "sorted_wrt (\<lambda>a b. Priority b \<le> Priority a) (MSources (NewMultiSource m srcs)) \<and>
   filter (\<lambda>s. Priority s = k) (MSources (NewMultiSource m srcs)) =
     filter (\<lambda>s. \<not> (m = ModeOffline \<and> RequiresNetwork s) \<and> Priority s = k) (concat (map (\<lambda>s. case s of None \<Rightarrow> [] | Some s \<Rightarrow> [s]) srcs))"
proof -
  have "(if Mode_IsKnown m then m else ModeHybrid) = ModeOffline \<longleftrightarrow> m = ModeOffline"
    by (simp add: Mode_IsKnown_def modes)
  then show ?thesis
    by (simp add: NewMultiSource_def Let_def sorted_sort_desc sort_desc_stable)
qed

text \<open>
  A package URL that is not cached gets exactly the candidates of the sources asked, in order, errors
  contributing none; outside hybrid mode every registered source is asked; a cached one gets the cached
  candidates, and the world is not touched.
\<close>

theorem resolve_answers:
  "case Cache_Get (purlCacheKey p) (fst st) of
     Some cs \<Rightarrow> resolveCtx r p st = (cs, st, [])
   | None \<Rightarrow> fst (resolveCtx r p st) = concat (map (\<lambda>c. answer_of (snd c)) (resolve_calls r p st)) \<and>
       (MMode r = ModeHybrid \<or> map fst (resolve_calls r p st) = MSources r) \<and>
       Cache_Get (purlCacheKey p) (fst (fst (snd (resolveCtx r p st)))) = Some (fst (resolveCtx r p st))"
proof (cases "Cache_Get (purlCacheKey p) (fst st)")
  case None
  obtain all w calls where k: "walk_sources (MMode r) p (MSources r) False [] (snd st) = (all, w, calls)"
    by (cases "walk_sources (MMode r) p (MSources r) False [] (snd st)")
  have n: "mget (fst st) (purlCacheKey p) = None" using None by (simp add: Cache_Get_def)
  show ?thesis
    using walk_answers [of "MMode r" p "MSources r" False "[]" "snd st"] walk_all [of "MMode r" p "MSources r" False "[]" "snd st"]
    by (auto simp: n k resolveCtx_def resolve_calls_def Cache_Get_def Cache_Set_def)
qed (simp add: resolveCtx_def)

text \<open>Over a run the sources are walked exactly once for every distinct key that was not cached at its start.\<close>

theorem keys_walked_once:
  "distinct (walked_keys (resolve_run r st ps)) \<and>
   set (walked_keys (resolve_run r st ps)) = purlCacheKey ` set ps - dom (mget (fst st))"
  by (rule walked_once)

text \<open>Every NVD candidate has a confidence between 0 and 1, and no reason for rejection exactly if it is software and scores at least 0.30.\<close>

theorem nvd_confidence_bounds:
  "list_all (\<lambda>c. 0 \<le> Confidence c \<and> Confidence c \<le> 1 \<and> IsValidCPE (CPE c) \<and>
     (RejectedReason c = [] \<longleftrightarrow> software (CPE c) \<and> 30 / 100 \<le> Confidence c)) (candidatesFromNVDPage page purl)"
  unfolding list_all_iff using nvd_candidate_props by blast

text \<open>A software candidate of the NVD reaches the threshold of a primary CPE exactly on the evidence of \<open>strong_match\<close>.\<close>

theorem nvd_primary_evidence:
  "list_all (\<lambda>c. PrimaryMin DefaultThreshold \<le> Confidence c \<longleftrightarrow>
     software (CPE c) \<and> strong_match (PVersion purl \<noteq> []) (Details c)) (candidatesFromNVDPage page purl)"
  unfolding list_all_iff
proof
  fix c assume "c \<in> set (candidatesFromNVDPage page purl)"
  note props = nvd_candidate_props [OF this]
  show "PrimaryMin DefaultThreshold \<le> Confidence c \<longleftrightarrow> software (CPE c) \<and> strong_match (PVersion purl \<noteq> []) (Details c)"
    using props(4,5) by (cases "software (CPE c)") (simp_all add: DefaultThreshold_def)
qed

text \<open>Hardware never becomes a primary or an alternative CPE: what classification accepts of an NVD page is software.\<close>

theorem nvd_accepts_software:
  "case Classify (candidatesFromNVDPage page purl) DefaultThreshold of
     (pri, alts, rej) \<Rightarrow> (case pri of None \<Rightarrow> True | Some c \<Rightarrow> software (CPE c)) \<and> list_all (\<lambda>c. software (CPE c)) alts"
proof -
  let ?cs = "candidatesFromNVDPage page purl"
  have sw: "software (CPE c)" if "c \<in> set ?cs" "PrimaryMin DefaultThreshold \<le> Confidence c \<or> AlternativeMin DefaultThreshold \<le> Confidence c" for c
    using nvd_candidate_props(5) [OF that(1)] that(2) by (cases "software (CPE c)") (simp_all add: DefaultThreshold_def)
  have "set (sort_desc Confidence ?cs) = set ?cs" by simp
  then show ?thesis
    using sw unfolding Classify_closed
    by (cases "sort_desc Confidence ?cs") (auto simp: Let_def list_all_iff)
qed

text \<open>
  C7.  The token bucket bounds the requests: attempts at any instants, in order, get at most the tokens in the
  bucket and what flows in from the last refill to the last attempt.
\<close>

theorem rate_limited:
  assumes "bucket_ok b" and "sorted (LastRefill b # ts)"
  shows "of_nat (acquires ts b) \<le> Tokens b + of_int (last (LastRefill b # ts) - LastRefill b) / second * Rps b"
  using acquires_bound [OF assms] by (simp add: gain_def)

text \<open>C8.  A caller that is told to wait gets its token when it tries again after that time, if nobody took it meanwhile.\<close>

theorem wait_suffices:
  assumes "bucket_ok b" and "LastRefill b \<le> now" and "now + fst (tryAcquire now b) \<le> later"
  shows "fst (Wait [(now, False), (later, done)] b) = Some True"
proof -
  obtain wait b' where t: "tryAcquire now b = (wait, b')" by fastforce
  note s = tryAcquire_state [OF assms(1,2) t]
  show ?thesis
  proof (cases "wait = 0")
    case True
    then show ?thesis by (simp add: t)
  next
    case False
    then have few: "Tokens (refill now b) < 1" using s(7) by simp
    then have b': "b' = refill now b" and w: "wait = \<lfloor>(1 - Tokens b') / Rps b' * second\<rfloor> + 1000000"
      using t by (auto simp: tryAcquire_def Let_def)
    have le: "LastRefill b' \<le> later" using assms(3) s(2,6) t by simp
    obtain wait' b'' where t': "tryAcquire later b' = (wait', b'')" by fastforce
    have "(1 - Tokens b') / Rps b' * second \<le> of_int wait" unfolding w by linarith
    also have "\<dots> \<le> of_int (later - now)" using assms(3) t by simp
    finally have "1 - Tokens b' \<le> gain (Rps b') (later - LastRefill b')"
      using s(1,2) by (intro enough_gain) (simp_all add: bucket_ok_def)
    then have "1 \<le> Tokens (refill later b')"
      using s(1) by (simp add: Tokens_refill bucket_ok_def)
    then have "wait' = 0" using tryAcquire_state(7) [OF s(1) le t'] by simp
    then show ?thesis using s(6) False by (simp add: t t')
  qed
qed

text \<open>
  With the conventional sources in hybrid mode, a package URL of the bundled dictionary is resolved by
  the offline sources alone: the network's state is left as it was.
\<close>

theorem bundled_hit_stays_offline:
  assumes "Dict_Lookup dict (PType p) (Namespace p) (PName p) = Some e" and "Cache_Get (purlCacheKey p) (fst st) = None"
  shows "snd (fst (snd (resolveCtx (NewMultiSource m [Some (NVDAPI acquire http decode base key), Some (ClearlyDefined http' decode' base'),
       NewLocalDict d, Some NewHeuristic, Some (PatternMatcher dict)]) p st))) = snd st \<or> m = ModeOnline"
proof (cases "m = ModeOnline")
  case False
  have hit: "offline_high (PatternMatcher dict, Inr (BundledResolver dict p))"
    using assms(1) by (simp add: offline_high_def PatternMatcher_def BundledResolver_def answer_of_def hasHighConfidence_def DefaultThreshold_def ConfidenceHigh_def)
  have mode: "MMode (NewMultiSource m srcs) = (if m = ModeOffline then ModeOffline else ModeHybrid)" for srcs
    using False by (simp add: NewMultiSource_def Let_def Mode_IsKnown_def)
  have quiet: "fst (snd (walk_sources ModeHybrid p srcs True cands w)) = w"
    if "list_all (\<lambda>s. RequiresNetwork s \<or> (\<forall>p w. snd (Match s p w) = w)) srcs" for srcs cands and w :: 'a
    using that by (induction srcs arbitrary: cands w) (auto simp: walk_step Let_def)
  have quiet_off: "fst (snd (walk_sources ModeOffline p srcs high cands w)) = w"
    if "list_all (\<lambda>s. \<forall>p w. snd (Match s p w) = w) srcs" for srcs high cands and w :: 'a
    using that by (induction srcs arbitrary: high cands w) (auto simp: walk_step Let_def)
  show ?thesis
    using assms(2) hit
    by (cases d; cases "m = ModeOffline")
       (auto simp: resolveCtx_def mode NewMultiSource_def Let_def Mode_IsKnown_def modes sort_desc_def NewLocalDict_def
          NVDAPI_def ClearlyDefined_def NewHeuristic_def PatternMatcher_def walk_step quiet quiet_off split: prod.split)
qed simp

section \<open>Witnesses and counterexamples\<close>

theorem rate_limited_witness:
  "of_nat (acquires [0, 6000000000, 7000000000] (newTokenBucket nvdAnonymousRPS 1 0)) \<le> 1 + 7 * nvdAnonymousRPS"
  using rate_limited [of "newTokenBucket nvdAnonymousRPS 1 0" "[0, 6000000000, 7000000000]"]
  by (simp add: newTokenBucket_ok) (simp add: newTokenBucket_def nvdAnonymousRPS_def second_def)

theorem wait_suffices_witness:
  "fst (Wait [(1, False), (60000000000, False)] ((newTokenBucket nvdAnonymousRPS 1 0)\<lparr>Tokens := 0\<rparr>)) = Some True"
  by (rule wait_suffices)
     (simp_all add: bucket_ok_def newTokenBucket_def nvdAnonymousRPS_def tryAcquire_def refill_def second_def Let_def)

definition demo_purl :: PURL_parts where
  "demo_purl = \<lparr>PType = ''npm'', Namespace = [], PName = ''express'', PVersion = ''1.0.0'', Qualifiers = [], Subpath = []\<rparr>"

definition demo_dictionary :: "bundledEntry list" where
  "demo_dictionary = [\<lparr>PurlType = ''npm'', PurlNamespace = [], PurlName = ''express'', BVendor = ''expressjs'', BProduct = ''express''\<rparr>]"

lemma demo_lookup: "\<exists>e. Dict_Lookup (Some demo_dictionary) (PType demo_purl) (Namespace demo_purl) (PName demo_purl) = Some e"
proof -
  have "Dict_Lookup (Some demo_dictionary) (PType demo_purl) (Namespace demo_purl) (PName demo_purl) \<noteq> None" by code_simp
  then show ?thesis by blast
qed

theorem bundled_hit_stays_offline_witness:
  "snd (fst (snd (resolveCtx (NewMultiSource ModeHybrid [Some (NVDAPI (\<lambda>n. (True, n + 1)) (\<lambda>_ _ n. (Inl (), n + 1)) (\<lambda>_. None) [] []),
     Some (ClearlyDefined (\<lambda>_ _ n. (Inl (), n + 1)) (\<lambda>_. None) []), NewLocalDict None, Some NewHeuristic, Some (PatternMatcher (Some demo_dictionary))])
     demo_purl ([], 0 :: nat)))) = 0"
proof -
  obtain e where "Dict_Lookup (Some demo_dictionary) (PType demo_purl) (Namespace demo_purl) (PName demo_purl) = Some e"
    using demo_lookup by blast
  from bundled_hit_stays_offline [OF this, of "([], 0 :: nat)" ModeHybrid] show ?thesis
    by (simp add: Cache_Get_def modes)
qed

text \<open>The vendor and the version alone make a primary CPE, although the product is another one.\<close>

lemma other_product_is_primary:
  "map (\<lambda>c. (PrimaryMin DefaultThreshold \<le> Confidence c, ProductMatch (Details c)))
     (candidatesFromNVDPage [''cpe:2.3:a:express:mail:1.0.0:*:*:*:*:*:*:*''] demo_purl) = [(True, ''no-match'')]"
  by code_simp

text \<open>The coordinates of a Go module repeat the host: six segments in the place of five.\<close>

lemma golang_coordinates:
  "purlToCDCoordinates \<lparr>PType = ''golang'', Namespace = ''github.com/spf13'', PName = ''cobra'', PVersion = ''v1'', Qualifiers = [], Subpath = []\<rparr>
     = Some ''git/github/github.com/spf13/cobra/v1''"
  by code_simp

text \<open>A failure of the network is remembered like an answer.\<close>

lemma failure_is_cached:
  "fst (fst (snd (resolveCtx (NewMultiSource ModeOnline [Some (NVDAPI (\<lambda>w. (True, w)) (\<lambda>_ _ w. (Inl (), w)) (\<lambda>_. None) [] [])]) demo_purl ([], ())))) =
     [(''npm||express|1.0.0'', [])]"
  by code_simp

end
