(* ===== verification/Prefilter.thy ===== *)
theory Prefilter
  imports PathClassifier Pipeline
begin

text \<open>
  The pre-filter of the upstream SBOM (\<open>internal/enrich/syftprefilter\<close>): components of type file are classified
  by path and removed, marked or kept, and the edges of removed ones are pruned.
\<close>

section \<open>The enricher\<close>

definition PropertyNoise :: string where "PropertyNoise = ''astinus:noise''"
definition PropertyNoiseRule :: string where "PropertyNoiseRule = ''astinus:noise:rule''"

record prefilter_stats =
  PExamined :: nat
  PRemoved :: nat
  PMarked :: nat
  PKept :: nat
  PByRule :: "nat gomap"

definition no_prefilter_stats :: prefilter_stats where
  "no_prefilter_stats = \<lparr>PExamined = 0, PRemoved = 0, PMarked = 0, PKept = 0, PByRule = []\<rparr>"

definition prefilter_Dependencies :: "string list" where
  "prefilter_Dependencies = []"

definition shouldClassify :: "component_data \<Rightarrow> bool" where
  "shouldClassify c \<longleftrightarrow> CType c = ComponentTypeFile"

definition extractPath :: "component_data \<Rightarrow> string" where
  "extractPath c =
     (if HasPrefix (Name c) ''/'' then Name c
      else if mval (Properties c) ''syft:location:0:path'' \<noteq> [] then mval (Properties c) ''syft:location:0:path''
      else (case CEvidence c of None \<Rightarrow> [] | Some e \<Rightarrow> (case Locations e of [] \<Rightarrow> [] | l # _ \<Rightarrow> Path l)))"

definition markAsNoise :: "Decision \<Rightarrow> component_data \<Rightarrow> component_data" where
  "markAsNoise d c =
     (let c' = setProp PropertyNoise ''true'' c in if RuleName d \<noteq> [] then setProp PropertyNoiseRule (RuleName d) c' else c')"

definition pruneRelationships :: "string list \<Rightarrow> Relationship list \<Rightarrow> Relationship list" where
  "pruneRelationships removed rs = filter (\<lambda>r. \<not> (SourceRef r \<in> set removed \<or> TargetRef r \<in> set removed)) rs"

definition bump :: "string \<Rightarrow> nat gomap \<Rightarrow> nat gomap" where
  "bump k m = mput k (case mget m k of None \<Rightarrow> 1 | Some n \<Rightarrow> n + 1) m"

type_synonym prefilter_state = "prefilter_stats \<times> component list \<times> string list"

definition prefilter_one :: "(string \<Rightarrow> Decision) \<Rightarrow> prefilter_state \<Rightarrow> component \<Rightarrow> prefilter_state" where
  "prefilter_one classify st c =
     (let s = (fst st)\<lparr>PExamined := PExamined (fst st) + 1\<rparr>; kept = fst (snd st); removed = snd (snd st);
          path = extractPath (cdata c) in
      if \<not> shouldClassify (cdata c) \<or> path = [] then (s, kept @ [c], removed)
      else
        let d = classify path in
        if DAction d = ActionSkip \<or> DAction d = ActionRedundantUnderArchive then
          (s\<lparr>PRemoved := PRemoved s + 1, PByRule := bump (RuleName d) (PByRule s)\<rparr>, kept,
           if BOMRef (cdata c) \<noteq> [] then removed @ [BOMRef (cdata c)] else removed)
        else if DAction d = ActionMarkAsNoise \<or> DAction d = ActionMarkAsRedundant then
          (s\<lparr>PMarked := PMarked s + 1, PByRule := bump (RuleName d) (PByRule s)\<rparr>,
           kept @ [Component (markAsNoise d (cdata c)) (SubComponents c)], removed)
        else (s, kept @ [c], removed))"

definition prefilter_sbom :: "(string \<Rightarrow> Decision) \<Rightarrow> SBOM \<Rightarrow> SBOM \<times> prefilter_stats" where
  "prefilter_sbom classify sbom =
     (let st = foldl (prefilter_one classify) (no_prefilter_stats, [], []) (Components sbom);
          kept = fst (snd st); removed = snd (snd st)
      in (sbom\<lparr>Components := kept, Relationships := (if removed \<noteq> [] then pruneRelationships removed (Relationships sbom) else Relationships sbom)\<rparr>,
          (fst st)\<lparr>PKept := length kept\<rparr>))"

definition Enrich_prefilter ::
  "pattern_matcher \<Rightarrow> pattern_matcher \<Rightarrow> path_classifier option \<Rightarrow> SBOM option \<Rightarrow> string option \<times> SBOM option \<times> prefilter_stats"
where
  "Enrich_prefilter glob regex classifier sbom =
     (case sbom of None \<Rightarrow> (Some ''syftprefilter: nil sbom'', None, no_prefilter_stats)
      | Some s \<Rightarrow>
          (case classifier of None \<Rightarrow> (None, Some s, no_prefilter_stats)
           | Some c \<Rightarrow> (let r = prefilter_sbom (classify_path glob regex c) s in (None, Some (fst r), snd r))))"

section \<open>What happens to a component\<close>

datatype verdict = Removed Decision | Marked Decision | Kept

definition verdict_of :: "(string \<Rightarrow> Decision) \<Rightarrow> component_data \<Rightarrow> verdict" where
  "verdict_of classify c =
     (if \<not> shouldClassify c \<or> extractPath c = [] then Kept
      else let d = classify (extractPath c) in
        if DAction d = ActionSkip \<or> DAction d = ActionRedundantUnderArchive then Removed d
        else if DAction d = ActionMarkAsNoise \<or> DAction d = ActionMarkAsRedundant then Marked d
        else Kept)"

definition surviving :: "(string \<Rightarrow> Decision) \<Rightarrow> component \<Rightarrow> component list" where
  "surviving classify c =
     (case verdict_of classify (cdata c) of Removed d \<Rightarrow> [] | Kept \<Rightarrow> [c]
      | Marked d \<Rightarrow> [Component (markAsNoise d (cdata c)) (SubComponents c)])"

definition removed_ref :: "(string \<Rightarrow> Decision) \<Rightarrow> component \<Rightarrow> string list" where
  "removed_ref classify c =
     (case verdict_of classify (cdata c) of Removed d \<Rightarrow> if BOMRef (cdata c) \<noteq> [] then [BOMRef (cdata c)] else [] | _ \<Rightarrow> [])"

lemma total_bump: "sum_list (map snd (bump k m)) = Suc (sum_list (map snd m))"
proof -
  have new: "mget m k = None \<Longrightarrow> sum_list (map snd (mput k (Suc 0) m)) = Suc (sum_list (map snd m))" for m :: "nat gomap"
    by (induction m) (auto split: if_splits)
  have old: "mget m k = Some n \<Longrightarrow> sum_list (map snd (mput k (Suc n) m)) = Suc (sum_list (map snd m))" for n and m :: "nat gomap"
    by (induction m) (auto split: if_splits)
  show ?thesis by (auto simp: bump_def new old split: option.split)
qed

text \<open>The counters agree with each other at every moment.\<close>

definition counts_ok :: "prefilter_state \<Rightarrow> bool" where
  "counts_ok st \<longleftrightarrow> (let s = fst st in
     PExamined s = PRemoved s + length (fst (snd st)) \<and> PMarked s \<le> length (fst (snd st)) \<and>
     sum_list (map snd (PByRule s)) = PRemoved s + PMarked s)"

lemma prefilter_one_effect:
  "snd (prefilter_one classify st c) = (fst (snd st) @ surviving classify c, snd (snd st) @ removed_ref classify c)"
  "counts_ok st \<Longrightarrow> counts_ok (prefilter_one classify st c)"
  "PExamined (fst (prefilter_one classify st c)) = PExamined (fst st) + 1"
  by (auto simp: prefilter_one_def surviving_def removed_ref_def verdict_of_def counts_ok_def total_bump Let_def)

lemma prefilter_fold:
  "snd (foldl (prefilter_one classify) st cs) =
     (fst (snd st) @ concat (map (surviving classify) cs), snd (snd st) @ concat (map (removed_ref classify) cs))"
  "counts_ok st \<Longrightarrow> counts_ok (foldl (prefilter_one classify) st cs)"
  "PExamined (fst (foldl (prefilter_one classify) st cs)) = PExamined (fst st) + length cs"
  by (induction cs arbitrary: st) (simp_all add: prefilter_one_effect)

lemma prune_none [simp]: "pruneRelationships [] rs = rs"
  by (simp add: pruneRelationships_def)

lemma prefilter_closed:
  "fst (prefilter_sbom classify s) = s\<lparr>Components := concat (map (surviving classify) (Components s)),
     Relationships := pruneRelationships (concat (map (removed_ref classify) (Components s))) (Relationships s)\<rparr>"
  unfolding prefilter_sbom_def Let_def prefilter_fold
  by (cases "concat (map (removed_ref classify) (Components s)) = []") (simp_all del: concat_eq_Nil_conv)

lemma markAsNoise_frame [simp]:
  "CType (markAsNoise d c) = CType c" "Name (markAsNoise d c) = Name c" "CEvidence (markAsNoise d c) = CEvidence c"
  "BOMRef (markAsNoise d c) = BOMRef c" "mval (Properties (markAsNoise d c)) ''syft:location:0:path'' = mval (Properties c) ''syft:location:0:path''"
  by (simp_all add: markAsNoise_def setProp_def Let_def PropertyNoise_def PropertyNoiseRule_def)

lemma markAsNoise_twice [simp]: "markAsNoise d (markAsNoise d c) = markAsNoise d c"
proof -
  have k: "mget (Properties (markAsNoise d c)) PropertyNoise = Some ''true''"
    "RuleName d \<noteq> [] \<Longrightarrow> mget (Properties (markAsNoise d c)) PropertyNoiseRule = Some (RuleName d)"
    by (simp_all add: markAsNoise_def setProp_def Let_def PropertyNoise_def PropertyNoiseRule_def)
  show ?thesis
    by (subst markAsNoise_def) (simp add: setProp_def Let_def k mput_same)
qed

lemma verdict_marked [simp]: "verdict_of classify (markAsNoise d c) = verdict_of classify c"
proof -
  have "extractPath (markAsNoise d c) = extractPath c" "shouldClassify (markAsNoise d c) = shouldClassify c"
    unfolding extractPath_def shouldClassify_def by simp_all
  then show ?thesis by (simp add: verdict_of_def)
qed

lemma surviving_twice: "concat (map (surviving classify) (surviving classify c)) = surviving classify c"
  by (simp add: surviving_def split: verdict.split)

lemma surviving_removed: "concat (map (removed_ref classify) (surviving classify c)) = []"
  by (simp add: surviving_def removed_ref_def split: verdict.split)

section \<open>Closed edges\<close>

text \<open>Every edge joins references of top-level components.\<close>

definition edges_closed :: "SBOM \<Rightarrow> bool" where
  "edges_closed s \<longleftrightarrow> list_all (\<lambda>r. \<forall>k \<in> set [SourceRef r, TargetRef r].
     k \<noteq> [] \<and> k \<in> set (map (\<lambda>c. BOMRef (cdata c)) (Components s))) (Relationships s)"

lemma ref_kept:
  assumes "c \<in> set cs" "BOMRef (cdata c) \<noteq> []" "BOMRef (cdata c) \<notin> set (concat (map (removed_ref classify) cs))"
  shows "BOMRef (cdata c) \<in> set (map (\<lambda>c. BOMRef (cdata c)) (concat (map (surviving classify) cs)))"
proof -
  have "removed_ref classify c = []" using assms by (auto simp: removed_ref_def split: verdict.splits if_splits)
  then obtain x where "x \<in> set (surviving classify c)" "BOMRef (cdata x) = BOMRef (cdata c)"
    using assms(2) by (auto simp: removed_ref_def surviving_def split: verdict.splits if_splits)
  then show ?thesis using assms(1) unfolding set_map by (intro image_eqI [of _ _ x]) auto
qed

lemma prefilter_keeps_closed: "edges_closed s \<Longrightarrow> edges_closed (fst (prefilter_sbom classify s))"
  using ref_kept [of _ "Components s" classify]
  by (auto simp: edges_closed_def prefilter_closed pruneRelationships_def list_all_iff simp del: set_map set_concat) (auto 4 4)

definition prefilter_step :: "(string \<Rightarrow> Decision) option \<Rightarrow> 'b \<Rightarrow> SBOM \<Rightarrow> string option \<times> SBOM" where
  "prefilter_step classify b s = (None, case classify of None \<Rightarrow> s | Some f \<Rightarrow> fst (prefilter_sbom f s))"

interpretation prefilter_invariant: sbom_invariant "prefilter_step classify" edges_closed for classify
  by unfold_locales (simp add: prefilter_step_def prefilter_keeps_closed split: option.split)

section \<open>Properties\<close>

text \<open>
  The pre-filter keeps the components in order, each removed, marked or left as it is by the verdict on its
  path alone; components that are not files survive unchanged; the edges pruned are those with an end removed.
\<close>

theorem prefilter_verdicts:
  "Components (fst (prefilter_sbom classify s)) = concat (map (surviving classify) (Components s)) \<and>
   filter (\<lambda>c. \<not> shouldClassify (cdata c)) (Components (fst (prefilter_sbom classify s))) =
     filter (\<lambda>c. \<not> shouldClassify (cdata c)) (Components s) \<and>
   Relationships (fst (prefilter_sbom classify s)) =
     pruneRelationships (concat (map (removed_ref classify) (Components s))) (Relationships s)"
proof -
  have "filter (\<lambda>c. \<not> shouldClassify (cdata c)) (concat (map (surviving classify) cs)) = filter (\<lambda>c. \<not> shouldClassify (cdata c)) cs" for cs
    by (induction cs) (auto simp: surviving_def verdict_of_def shouldClassify_def Let_def)
  then show ?thesis by (simp add: prefilter_closed)
qed

text \<open>Every component is counted once as removed or kept, and every removal and mark under one rule.\<close>

theorem prefilter_counts:
  "case prefilter_sbom classify s of (s', n) \<Rightarrow>
     PExamined n = length (Components s) \<and> PKept n = length (Components s') \<and> PExamined n = PRemoved n + PKept n \<and>
     PMarked n \<le> PKept n \<and> sum_list (map snd (PByRule n)) = PRemoved n + PMarked n"
proof -
  let ?st = "foldl (prefilter_one classify) (no_prefilter_stats, [], []) (Components s)"
  have "counts_ok (no_prefilter_stats, [], [])" by (simp add: counts_ok_def no_prefilter_stats_def)
  from prefilter_fold(2) [OF this, of classify "Components s"] prefilter_fold(3) [of classify "(no_prefilter_stats, [], [])" "Components s"]
  show ?thesis by (simp add: prefilter_sbom_def Let_def counts_ok_def no_prefilter_stats_def)
qed

text \<open>Run again, the pre-filter changes nothing.\<close>

theorem prefilter_idempotent: "fst (prefilter_sbom classify (fst (prefilter_sbom classify s))) = fst (prefilter_sbom classify s)"
proof -
  have "concat (map (surviving classify) (concat (map (surviving classify) cs))) = concat (map (surviving classify) cs)"
    "concat (map (removed_ref classify) (concat (map (surviving classify) cs))) = []" for cs
    by (induction cs) (simp_all add: surviving_twice surviving_removed)
  then show ?thesis by (simp add: prefilter_closed del: concat_eq_Nil_conv)
qed

section \<open>Counterexample\<close>

text \<open>The sub-components of a removed component go with it, and the edges to them stay.\<close>

lemma nested_edge_dangles:
  "let s = fst (prefilter_sbom (\<lambda>_. decisionFor (sample_rule ''r'' ActionSkip PatternPrefix [''/'']))
         (empty_sbom\<lparr>Components := [Component (empty_component\<lparr>CType := ComponentTypeFile, Name := ''/a'', BOMRef := ''a''\<rparr>)
             [Component (empty_component\<lparr>BOMRef := ''b''\<rparr>) []], Component (empty_component\<lparr>BOMRef := ''c''\<rparr>) []],
           Relationships := [\<lparr>SourceRef = ''c'', TargetRef = ''b'', RelType = ''depends-on''\<rparr>]\<rparr>))
   in map BOMRef (all_components (Components s)) = [''c''] \<and> map TargetRef (Relationships s) = [''b'']"
  by code_simp

end
