(* ===== verification/Extract.thy ===== *)
theory Extract
  imports Prefilter Fingerprint Layer
begin

text \<open>
  The extractor enricher (\<open>internal/enrich/extractor\<close>): dependencies found in the binaries of the image are
  attached to the components that own the files, and every sub-component is then lifted to the top level with
  an edge from its parent.  The registry of extractors and the walk of the image are those of
  \<open>Fingerprint\<close> and \<open>Layer\<close>; the digest of a nameless component is a parameter.
\<close>

section \<open>Attaching what was extracted\<close>

record extract_stats =
  BinariesVisited :: nat
  BinariesYielded :: nat
  DepsExtracted :: nat
  ComponentsAdded :: nat
  EdgesAdded :: nat

definition no_extract_stats :: extract_stats where
  "no_extract_stats = \<lparr>BinariesVisited = 0, BinariesYielded = 0, DepsExtracted = 0, ComponentsAdded = 0, EdgesAdded = 0\<rparr>"

definition extractor_Dependencies :: "string list" where
  "extractor_Dependencies = [''untracked'']"

definition clean_location :: "string \<Rightarrow> string" where
  "clean_location p = (if p = [] then [] else Clean (if hd p = slash then tl p else p))"

definition owned_paths :: "component_data \<Rightarrow> string list" where
  "owned_paths c = (case CEvidence c of None \<Rightarrow> [] | Some e \<Rightarrow> filter (\<lambda>p. p \<noteq> []) (map (\<lambda>l. clean_location (Path l)) (Locations e)))"

definition dep_component :: "sub_identity \<Rightarrow> component" where
  "dep_component d = Component (empty_component\<lparr>CType := ComponentTypeLibrary, Name := SName d, Version := SVersion d, PURL := SPURL d\<rparr>) []"

fun add_deps :: "string list \<Rightarrow> sub_identity list \<Rightarrow> component list" where
  "add_deps known [] = []"
| "add_deps known (d # ds) =
     (if SName d = [] \<or> SPURL d \<noteq> [] \<and> SPURL d \<in> set known then add_deps known ds
      else dep_component d # add_deps (if SPURL d \<noteq> [] then SPURL d # known else known) ds)"

definition attachExtractedDeps :: "xidentity \<Rightarrow> component \<Rightarrow> component" where
  "attachExtractedDeps ident c =
     (let d = cdata c;
          d' = (if XSource ident \<noteq> [] \<and> mval (Properties d) ''astinus:extractor:source'' = []
            then setProp ''astinus:extractor:source'' (XSource ident) d else d);
          known = filter (\<lambda>p. p \<noteq> []) (map (\<lambda>s. PURL (cdata s)) (SubComponents c))
      in Component d' (SubComponents c @ add_deps known (XSubs ident)))"

text \<open>Every owner of the path, once for each of its locations.\<close>

fun attach_owners :: "string \<Rightarrow> xidentity \<Rightarrow> component \<Rightarrow> component" where
  "attach_owners p ident (Component d subs) =
     (attachExtractedDeps ident ^^ count_list (owned_paths d) p) (Component d (map (attach_owners p ident) subs))"

definition extractor_visitor :: "extractor_impl list \<Rightarrow> (tar_header \<Rightarrow> bool) \<Rightarrow> (component list \<times> extract_stats) visitor" where
  "extractor_visitor exts fails st fe =
     (let p = EPath fe; s = snd st in
      if \<not> list_ex (\<lambda>d. p \<in> set (owned_paths d)) (all_components (fst st)) then (st, VisitOk)
      else
        let s1 = s\<lparr>BinariesVisited := BinariesVisited s + 1\<rparr> in
        if fails (EHeader fe) then ((fst st, s1), VisitOk)
        else (case First exts p (Body (EHeader fe)) of
            None \<Rightarrow> ((fst st, s1), VisitOk)
          | Some ident \<Rightarrow>
              if XSubs ident = [] then ((fst st, s1), VisitOk)
              else ((map (attach_owners p ident) (fst st),
                     s1\<lparr>BinariesYielded := BinariesYielded s1 + 1, DepsExtracted := DepsExtracted s1 + length (XSubs ident)\<rparr>), VisitOk)))"

definition extractFromImage ::
  "extractor_impl list \<Rightarrow> (tar_header \<Rightarrow> bool) \<Rightarrow> (nat \<Rightarrow> string option) \<Rightarrow> (nat \<Rightarrow> nat \<Rightarrow> string option) \<Rightarrow> v1_image \<Rightarrow>
   component list \<times> extract_stats \<Rightarrow> layer_error option \<times> component list \<times> extract_stats"
where
  "extractFromImage exts fails ctx ectx img st =
     (if list_all (\<lambda>d. owned_paths d = []) (all_components (fst st)) then (None, st)
      else WalkFiles ctx ectx (Some img) (Some (extractor_visitor exts fails)) st)"

section \<open>Lifting to the top level\<close>

definition dedupKey :: "component_data \<Rightarrow> string" where
  "dedupKey c = (if PURL c \<noteq> [] then PURL c else if Name c = [] then [] else Name c @ ''@'' @ Version c)"

definition synthBOMRef :: "(component \<Rightarrow> string) \<Rightarrow> component \<Rightarrow> string" where
  "synthBOMRef digest c =
     (if PURL (cdata c) \<noteq> [] then PURL (cdata c)
      else if Name (cdata c) \<noteq> [] then Name (cdata c) @ ''@'' @ (if Version (cdata c) = [] then ''unknown'' else Version (cdata c))
      else ''extracted-'' @ digest c)"

definition with_ref :: "(component \<Rightarrow> string) \<Rightarrow> component \<Rightarrow> component" where
  "with_ref digest c =
     (if BOMRef (cdata c) = [] then Component ((cdata c)\<lparr>BOMRef := synthBOMRef digest c\<rparr>) (SubComponents c) else c)"

definition index_key :: "string gomap \<Rightarrow> component \<Rightarrow> string gomap" where
  "index_key m c =
     (let k = dedupKey (cdata c) in if k = [] \<or> mget m k \<noteq> None then m else mput k (BOMRef (cdata c)) m)"

definition indexExistingByPURL :: "(component \<Rightarrow> string) \<Rightarrow> component list \<Rightarrow> component list \<times> string gomap" where
  "indexExistingByPURL digest cs = (let cs' = map (with_ref digest) cs in (cs', foldl index_key [] cs'))"

definition buildLiftedComponent :: "(component \<Rightarrow> string) \<Rightarrow> component \<Rightarrow> string \<Rightarrow> component" where
  "buildLiftedComponent digest sub parentRef =
     (let typed = Component ((cdata sub)\<lparr>CType := (if CType (cdata sub) = [] then ComponentTypeLibrary else CType (cdata sub))\<rparr>) (SubComponents sub);
          refd = with_ref digest typed
      in Component (setProp ''astinus:extractor:embedded-in'' parentRef (cdata refd)) [])"

record lift_state =
  LComps :: "component list"
  LRels :: "Relationship list"
  LIndex :: "string gomap"
  LAdded :: nat
  LEdges :: nat

definition depends_edge :: "string \<Rightarrow> string \<Rightarrow> Relationship" where
  "depends_edge a b = \<lparr>SourceRef = a, TargetRef = b, RelType = ''depends-on''\<rparr>"

definition lift_sub :: "(component \<Rightarrow> string) \<Rightarrow> string \<Rightarrow> lift_state \<times> string list \<Rightarrow> component \<Rightarrow> lift_state \<times> string list" where
  "lift_sub digest parentRef acc sub =
     (let st = fst acc; seen = snd acc; key = dedupKey (cdata sub) in
      if key = [] then acc
      else
        let (ref, st1) = (case mget (LIndex st) key of
              Some r \<Rightarrow> (r, st)
            | None \<Rightarrow>
                (let c = buildLiftedComponent digest sub parentRef; r = BOMRef (cdata c)
                 in (r, st\<lparr>LComps := LComps st @ [c], LIndex := mput key r (LIndex st), LAdded := LAdded st + 1\<rparr>)))
        in if ref \<in> set seen then (st1, seen)
           else (st1\<lparr>LRels := LRels st1 @ [depends_edge parentRef ref], LEdges := LEdges st1 + 1\<rparr>, seen @ [ref]))"

definition lift_parent :: "(component \<Rightarrow> string) \<Rightarrow> lift_state \<Rightarrow> nat \<Rightarrow> lift_state" where
  "lift_parent digest st i =
     (let parent = LComps st ! i in
      if SubComponents parent = [] then st
      else
        let p = with_ref digest parent
        in fst (foldl (lift_sub digest (BOMRef (cdata p))) (st\<lparr>LComps := (LComps st)[i := Component (cdata p) []]\<rparr>, []) (SubComponents parent)))"

definition liftSubComponentsToTopLevel :: "(component \<Rightarrow> string) \<Rightarrow> SBOM \<Rightarrow> SBOM \<times> nat \<times> nat" where
  "liftSubComponentsToTopLevel digest sbom =
     (let (cs, idx) = indexExistingByPURL digest (Components sbom);
          st = foldl (lift_parent digest) \<lparr>LComps = cs, LRels = Relationships sbom, LIndex = idx, LAdded = 0, LEdges = 0\<rparr> [0..<length cs]
      in (sbom\<lparr>Components := LComps st, Relationships := LRels st\<rparr>, LAdded st, LEdges st))"

definition Enrich_extractor ::
  "(component \<Rightarrow> string) \<Rightarrow> extractor_impl list option \<Rightarrow> (tar_header \<Rightarrow> bool) \<Rightarrow> (nat \<Rightarrow> string option) \<Rightarrow>
   (nat \<Rightarrow> nat \<Rightarrow> string option) \<Rightarrow> v1_image option \<Rightarrow> SBOM option \<Rightarrow> string option \<times> SBOM option \<times> extract_stats"
where
  "Enrich_extractor digest registry fails ctx ectx img sbom =
     (case sbom of None \<Rightarrow> (Some ''extractor: nil sbom'', None, no_extract_stats)
      | Some s \<Rightarrow>
          (let walked = (case (img, registry) of
                 (Some im, Some exts) \<Rightarrow> snd (extractFromImage exts fails ctx ectx im (Components s, no_extract_stats))
               | _ \<Rightarrow> (Components s, no_extract_stats));
               (lifted, added, edges) = liftSubComponentsToTopLevel digest (s\<lparr>Components := fst walked\<rparr>)
           in (None, Some lifted, (snd walked)\<lparr>ComponentsAdded := added, EdgesAdded := edges\<rparr>)))"

section \<open>The invariant of the lift\<close>

lemma key_with_ref [simp]: "dedupKey (cdata (with_ref digest c)) = dedupKey (cdata c)"
  by (simp add: with_ref_def dedupKey_def)

lemma synth_nonempty [simp]: "synthBOMRef digest c \<noteq> []"
  by (simp add: synthBOMRef_def)

lemma ref_with_ref [simp]: "BOMRef (cdata (with_ref digest c)) \<noteq> []"
  by (simp add: with_ref_def)

lemma with_ref_id: "BOMRef (cdata c) \<noteq> [] \<Longrightarrow> with_ref digest c = c"
  by (simp add: with_ref_def)

lemma lifted_props [simp]:
  "dedupKey (cdata (buildLiftedComponent digest sub r)) = dedupKey (cdata sub)"
  "BOMRef (cdata (buildLiftedComponent digest sub r)) \<noteq> []" "SubComponents (buildLiftedComponent digest sub r) = []"
proof -
  show "dedupKey (cdata (buildLiftedComponent digest sub r)) = dedupKey (cdata sub)"
    by (simp add: buildLiftedComponent_def Let_def setProp_def with_ref_def dedupKey_def)
  show "BOMRef (cdata (buildLiftedComponent digest sub r)) \<noteq> []"
    by (simp add: buildLiftedComponent_def Let_def setProp_def)
qed (simp add: buildLiftedComponent_def Let_def)

text \<open>The index names, for exactly the keys of the components, the reference of a component with that key.\<close>

definition index_ok :: "component list \<Rightarrow> string gomap \<Rightarrow> bool" where
  "index_ok cs m \<longleftrightarrow>
     (\<forall>k r. mget m k = Some r \<longrightarrow> k \<noteq> [] \<and> (\<exists>c \<in> set cs. dedupKey (cdata c) = k \<and> BOMRef (cdata c) = r)) \<and>
     (\<forall>c \<in> set cs. dedupKey (cdata c) \<noteq> [] \<longrightarrow> mget m (dedupKey (cdata c)) \<noteq> None)"

definition refs_ok :: "component list \<Rightarrow> bool" where
  "refs_ok cs \<longleftrightarrow> (\<forall>c \<in> set cs. BOMRef (cdata c) \<noteq> [])"

lemma index_ok_snoc: "index_ok cs m \<Longrightarrow> index_ok (cs @ [c]) (index_key m c)"
  by (auto simp: index_ok_def index_key_def Let_def)

lemma index_existing:
  assumes "indexExistingByPURL digest cs = (cs', m)"
  shows "cs' = map (with_ref digest) cs" "refs_ok cs'" "index_ok cs' m"
proof -
  have "index_ok xs (foldl index_key [] xs)" for xs
  proof (induction xs rule: rev_induct)
    case Nil
    then show ?case by (simp add: index_ok_def)
  next
    case (snoc c xs)
    then show ?case by (simp add: index_ok_snoc)
  qed
  then show "cs' = map (with_ref digest) cs" "refs_ok cs'" "index_ok cs' m"
    using assms by (auto simp: indexExistingByPURL_def Let_def refs_ok_def)
qed

text \<open>What lifting the sub-components of one parent, with reference \<open>pref\<close>, adds to the state.\<close>

definition lift_ok :: "lift_state \<Rightarrow> bool" where
  "lift_ok st \<longleftrightarrow> refs_ok (LComps st) \<and> index_ok (LComps st) (LIndex st)"

definition extends :: "lift_state \<Rightarrow> lift_state \<Rightarrow> component list \<Rightarrow> Relationship list \<Rightarrow> bool" where
  "extends st st' xs es \<longleftrightarrow>
     LComps st' = LComps st @ xs \<and> LRels st' = LRels st @ es \<and> LAdded st' = LAdded st + length xs \<and> LEdges st' = LEdges st + length es \<and>
     (\<forall>x \<in> set xs. SubComponents x = [] \<and> dedupKey (cdata x) \<noteq> [] \<and> dedupKey (cdata x) \<notin> set (map (\<lambda>c. dedupKey (cdata c)) (LComps st))) \<and>
     distinct (map (\<lambda>c. dedupKey (cdata c)) xs)"

definition has_dep :: "lift_state \<Rightarrow> string \<Rightarrow> component \<Rightarrow> bool" where
  "has_dep st pref sub \<longleftrightarrow> dedupKey (cdata sub) = [] \<or>
     (\<exists>c \<in> set (LComps st). dedupKey (cdata c) = dedupKey (cdata sub) \<and> depends_edge pref (BOMRef (cdata c)) \<in> set (LRels st))"

lemma extends_refl: "extends st st [] []"
  by (simp add: extends_def)

lemma extends_trans:
  assumes "extends st st1 xs es" "extends st1 st2 ys fs"
  shows "extends st st2 (xs @ ys) (es @ fs)"
proof -
  have "set (map (\<lambda>c. dedupKey (cdata c)) ys) \<inter> set (map (\<lambda>c. dedupKey (cdata c)) (LComps st @ xs)) = {}"
    using assms unfolding extends_def by auto
  then show ?thesis using assms unfolding extends_def by auto
qed

lemma has_dep_extends: "has_dep st pref sub \<Longrightarrow> extends st st' xs es \<Longrightarrow> has_dep st' pref sub"
  by (auto simp: has_dep_def extends_def)

definition sub_effect :: "lift_state \<Rightarrow> string \<Rightarrow> lift_state \<times> string list \<Rightarrow> component list \<Rightarrow> Relationship list \<Rightarrow> bool" where
  "sub_effect st pref acc xs es \<longleftrightarrow>
     lift_ok (fst acc) \<and> (\<forall>r \<in> set (snd acc). depends_edge pref r \<in> set (LRels (fst acc))) \<and> extends st (fst acc) xs es \<and>
     (\<forall>e \<in> set es. \<exists>c \<in> set (LComps (fst acc)). e = depends_edge pref (BOMRef (cdata c)))"

lemma lift_sub_effect:
  assumes "lift_ok st" "\<forall>r \<in> set seen. depends_edge pref r \<in> set (LRels st)"
  shows "\<exists>xs es. sub_effect st pref (lift_sub digest pref (st, seen) sub) xs es \<and> has_dep (fst (lift_sub digest pref (st, seen) sub)) pref sub"
proof (cases "dedupKey (cdata sub) = []")
  case True
  then have "sub_effect st pref (lift_sub digest pref (st, seen) sub) [] []"
    using assms extends_refl [of st] by (simp add: lift_sub_def Let_def sub_effect_def)
  then show ?thesis using True by (force simp: has_dep_def)
next
  case key: False
  show ?thesis
  proof (cases "mget (LIndex st) (dedupKey (cdata sub))")
    case (Some r)
    obtain c where c: "c \<in> set (LComps st)" "dedupKey (cdata c) = dedupKey (cdata sub)" "BOMRef (cdata c) = r"
      using assms(1) Some by (auto simp: lift_ok_def index_ok_def)
    have l: "lift_sub digest pref (st, seen) sub = (if r \<in> set seen then (st, seen)
        else (st\<lparr>LRels := LRels st @ [depends_edge pref r], LEdges := LEdges st + 1\<rparr>, seen @ [r]))"
      using key Some by (simp add: lift_sub_def Let_def)
    have "sub_effect st pref (lift_sub digest pref (st, seen) sub) [] (if r \<in> set seen then [] else [depends_edge pref r])"
      using assms c unfolding l by (auto simp: sub_effect_def extends_def lift_ok_def)
    moreover have "has_dep (fst (lift_sub digest pref (st, seen) sub)) pref sub"
      using assms(2) c unfolding l by (auto simp: has_dep_def)
    ultimately show ?thesis by blast
  next
    case None
    let ?c = "buildLiftedComponent digest sub pref"
    let ?r = "BOMRef (cdata ?c)"
    let ?st = "st\<lparr>LComps := LComps st @ [?c], LIndex := mput (dedupKey (cdata sub)) ?r (LIndex st), LAdded := LAdded st + 1\<rparr>"
    have l: "lift_sub digest pref (st, seen) sub = (if ?r \<in> set seen then (?st, seen)
        else (?st\<lparr>LRels := LRels ?st @ [depends_edge pref ?r], LEdges := LEdges ?st + 1\<rparr>, seen @ [?r]))"
      using key None by (simp add: lift_sub_def Let_def)
    have fresh: "dedupKey (cdata sub) \<notin> set (map (\<lambda>c. dedupKey (cdata c)) (LComps st))"
      using assms(1) None key by (fastforce simp: lift_ok_def index_ok_def)
    have "index_ok (LComps st @ [?c]) (LIndex ?st)"
      using index_ok_snoc [of "LComps st" "LIndex st" ?c] assms(1) None key by (simp add: lift_ok_def index_key_def Let_def)
    then have "sub_effect st pref (lift_sub digest pref (st, seen) sub) [?c] (if ?r \<in> set seen then [] else [depends_edge pref ?r])"
      using assms fresh key unfolding l by (simp add: sub_effect_def extends_def lift_ok_def refs_ok_def)
    moreover have "has_dep (fst (lift_sub digest pref (st, seen) sub)) pref sub"
      using assms(2) unfolding l by (auto simp: has_dep_def)
    ultimately show ?thesis by blast
  qed
qed

lemma lift_subs_effect:
  assumes "lift_ok st" "\<forall>r \<in> set seen. depends_edge pref r \<in> set (LRels st)"
  shows "\<exists>xs es. sub_effect st pref (foldl (lift_sub digest pref) (st, seen) subs) xs es \<and>
    (\<forall>s \<in> set subs. has_dep (fst (foldl (lift_sub digest pref) (st, seen) subs)) pref s)"
  using assms
proof (induction subs arbitrary: st seen)
  case Nil
  have "sub_effect st pref (foldl (lift_sub digest pref) (st, seen) []) [] []"
    using Nil extends_refl [of st] by (simp add: sub_effect_def)
  then show ?case by (intro exI conjI) auto
next
  case (Cons sub subs)
  obtain st1 seen1 where l: "lift_sub digest pref (st, seen) sub = (st1, seen1)" by fastforce
  obtain xs es where 1: "sub_effect st pref (st1, seen1) xs es" "has_dep st1 pref sub"
    using lift_sub_effect [OF Cons.prems, of digest sub] by (auto simp: l)
  let ?f = "foldl (lift_sub digest pref) (st1, seen1) subs"
  obtain ys fs where 2: "sub_effect st1 pref ?f ys fs" "\<forall>s \<in> set subs. has_dep (fst ?f) pref s"
    using Cons.IH [of st1 seen1] 1 by (auto simp: sub_effect_def)
  have "extends st (fst ?f) (xs @ ys) (es @ fs)" "extends st1 (fst ?f) ys fs"
    using 1 2 extends_trans by (auto simp: sub_effect_def)
  moreover from this have "has_dep (fst ?f) pref sub" using 1(2) has_dep_extends by blast
  moreover have "set (LComps st1) \<subseteq> set (LComps (fst ?f))" using 2(1) by (auto simp: sub_effect_def extends_def)
  then have "\<forall>e \<in> set (es @ fs). \<exists>c \<in> set (LComps (fst ?f)). e = depends_edge pref (BOMRef (cdata c))"
    using 1(1) 2(1) unfolding sub_effect_def fst_conv by (metis Un_iff set_append subsetD)
  ultimately have "sub_effect st pref ?f (xs @ ys) (es @ fs)" "has_dep (fst ?f) pref sub"
    using 2(1) by (simp_all add: sub_effect_def)
  then show ?case using 2 by (intro exI conjI) (simp_all add: l)
qed

definition strip :: "component \<Rightarrow> component" where
  "strip c = Component (cdata c) []"

text \<open>After the first \<open>j\<close> parents: they are stripped, the rest of the \<open>n\<close> originals untouched, and additions follow.\<close>

definition lifted_upto :: "component list \<Rightarrow> lift_state \<Rightarrow> nat \<Rightarrow> lift_state \<Rightarrow> component list \<Rightarrow> Relationship list \<Rightarrow> bool" where
  "lifted_upto cs st0 j st xs es \<longleftrightarrow>
     lift_ok st \<and> extends (st0\<lparr>LComps := map strip (take j cs) @ drop j cs\<rparr>) st xs es \<and>
     (\<forall>e \<in> set es. \<exists>p \<in> set cs. \<exists>c \<in> set (LComps st). e = depends_edge (BOMRef (cdata p)) (BOMRef (cdata c))) \<and>
     (\<forall>p \<in> set (take j cs). \<forall>s \<in> set (SubComponents p). has_dep st (BOMRef (cdata p)) s)"

lemma data_update:
  assumes "i < length cs" "cdata x = cdata (cs ! i)"
  shows "map cdata (cs[i := x]) = map cdata cs"
  using assms by (metis list_update_id map_update)

lemma ok_by_data:
  assumes "map cdata cs = map cdata ds"
  shows "index_ok cs m = index_ok ds m" "refs_ok cs = refs_ok ds"
    "map (\<lambda>c. dedupKey (cdata c)) cs = map (\<lambda>c. dedupKey (cdata c)) ds"
proof -
  have "(\<exists>c \<in> set xs. P (cdata c)) \<longleftrightarrow> (\<exists>d \<in> set (map cdata xs). P d)" "(\<forall>c \<in> set xs. P (cdata c)) \<longleftrightarrow> (\<forall>d \<in> set (map cdata xs). P d)" for P xs
    by auto
  note q = this
  show "index_ok cs m = index_ok ds m" unfolding index_ok_def q [of _ "\<lambda>d. dedupKey d = _ \<and> BOMRef d = _"] q(2) [of _ "\<lambda>d. dedupKey d \<noteq> [] \<longrightarrow> _ d"] assms
    by (simp only: assms q(2) [of _ "\<lambda>d. dedupKey d \<noteq> [] \<longrightarrow> mget m (dedupKey d) \<noteq> None"])
  show "refs_ok cs = refs_ok ds" unfolding refs_ok_def q(2) [of _ "\<lambda>d. BOMRef d \<noteq> []"] assms ..
  show "map (\<lambda>c. dedupKey (cdata c)) cs = map (\<lambda>c. dedupKey (cdata c)) ds"
    using arg_cong [OF assms, of "map dedupKey"] by (simp add: comp_def)
qed

lemma has_dep_data:
  assumes "map cdata (LComps st) = map cdata (LComps st')" "LRels st = LRels st'"
  shows "has_dep st k s = has_dep st' k s"
proof -
  have q: "(\<exists>c \<in> set xs. P (cdata c)) \<longleftrightarrow> (\<exists>d \<in> set (map cdata xs). P d)" for P xs by auto
  show ?thesis
    unfolding has_dep_def assms(2) q [of "LComps _" "\<lambda>d. dedupKey d = dedupKey (cdata s) \<and> depends_edge k (BOMRef d) \<in> set (LRels st')"] assms(1) ..
qed

lemma lift_parent_step:
  assumes "lifted_upto cs st0 j st xs es" "j < length cs" "refs_ok cs"
  shows "\<exists>xs es. lifted_upto cs st0 (Suc j) (lift_parent digest st j) xs es"
proof -
  let ?pre = "map strip (take j cs) @ drop j cs" and ?pre' = "map strip (take (Suc j) cs) @ drop (Suc j) cs"
  let ?p = "cs ! j"
  have comps: "LComps st = ?pre @ xs" using assms(1) by (simp add: lifted_upto_def extends_def)
  have at: "LComps st ! j = ?p" "j < length (LComps st)" using assms(2) by (simp_all add: comps nth_append)
  have upd: "(LComps st)[j := strip ?p] = ?pre' @ xs"
    using assms(2) by (simp add: comps list_update_append take_Suc_conv_app_nth flip: Cons_nth_drop_Suc)
  let ?st = "st\<lparr>LComps := ?pre' @ xs\<rparr>"
  have same: "map cdata (?pre' @ xs) = map cdata (LComps st)"
    unfolding upd [symmetric] using at by (intro data_update) (simp_all add: strip_def)
  have samepre: "map cdata ?pre' = map cdata ?pre" using same by (simp add: comps)
  have ok: "lift_ok ?st" using assms(1) ok_by_data [OF same] by (simp add: lifted_upto_def lift_ok_def)
  have ext: "extends (st0\<lparr>LComps := ?pre'\<rparr>) ?st xs es"
    using assms(1) ok_by_data(3) [OF samepre] unfolding lifted_upto_def extends_def by (simp del: map_append)
  have deps: "has_dep ?st k s = has_dep st k s" for k s
    by (rule has_dep_data) (use same in simp_all)
  have wref: "with_ref digest ?p = ?p" using assms(2,3) by (intro with_ref_id) (simp add: refs_ok_def)
  show ?thesis
  proof (cases "SubComponents ?p = []")
    case True
    then have "strip ?p = ?p" by (cases ?p) (simp add: strip_def)
    then have "?pre' @ xs = LComps st" unfolding upd [symmetric] using at(1) by (metis list_update_id)
    then have e: "?st = st" by simp
    have l: "lift_parent digest st j = st" using True at(1) by (simp add: lift_parent_def Let_def)
    have "\<forall>p \<in> set (take (Suc j) cs). \<forall>s \<in> set (SubComponents p). has_dep st (BOMRef (cdata p)) s"
      using assms(1) True unfolding lifted_upto_def take_Suc_conv_app_nth [OF assms(2)] by auto
    then have "lifted_upto cs st0 (Suc j) st xs es"
      using assms(1) ext unfolding e lifted_upto_def by blast
    then show ?thesis unfolding l by blast
  next
    case False
    let ?f = "foldl (lift_sub digest (BOMRef (cdata ?p))) (?st, []) (SubComponents ?p)"
    have l: "lift_parent digest st j = fst ?f"
      using False upd by (simp add: lift_parent_def Let_def at wref strip_def)
    obtain ys fs where f: "sub_effect ?st (BOMRef (cdata ?p)) ?f ys fs" "\<forall>s \<in> set (SubComponents ?p). has_dep (fst ?f) (BOMRef (cdata ?p)) s"
      using lift_subs_effect [OF ok, of "[]" "BOMRef (cdata ?p)" digest "SubComponents ?p"] by auto
    have e2: "extends ?st (fst ?f) ys fs" using f(1) by (simp add: sub_effect_def)
    have "extends (st0\<lparr>LComps := ?pre'\<rparr>) (fst ?f) (xs @ ys) (es @ fs)" by (rule extends_trans [OF ext e2])
    moreover have "\<exists>q \<in> set cs. \<exists>c \<in> set (LComps (fst ?f)). e = depends_edge (BOMRef (cdata q)) (BOMRef (cdata c))" if "e \<in> set (es @ fs)" for e
    proof (cases "e \<in> set es")
      case True
      then obtain q c where q: "q \<in> set cs" "c \<in> set (LComps st)" "e = depends_edge (BOMRef (cdata q)) (BOMRef (cdata c))"
        using assms(1) by (auto simp: lifted_upto_def)
      have "cdata c \<in> set (map cdata (?pre' @ xs))" unfolding same using q(2) by auto
      then obtain c' where "c' \<in> set (?pre' @ xs)" "cdata c' = cdata c" unfolding set_map by (elim imageE) simp
      then show ?thesis using q e2 by (intro bexI [OF _ q(1)] bexI [of _ c']) (auto simp: extends_def)
    next
      case False
      then show ?thesis using that f(1) assms(2) by (auto simp: sub_effect_def) (metis nth_mem)
    qed
    moreover have "has_dep (fst ?f) (BOMRef (cdata q)) s" if "q \<in> set (take (Suc j) cs)" "s \<in> set (SubComponents q)" for q s
    proof (cases "q = ?p")
      case True
      then show ?thesis using f(2) that by simp
    next
      case False
      then have "q \<in> set (take j cs)" using that(1) by (simp add: take_Suc_conv_app_nth [OF assms(2)])
      then have "has_dep st (BOMRef (cdata q)) s" using assms(1) that(2) unfolding lifted_upto_def by blast
      then have "has_dep ?st (BOMRef (cdata q)) s" unfolding deps .
      then show ?thesis using e2 by (rule has_dep_extends)
    qed
    ultimately show ?thesis using f(1) unfolding l lifted_upto_def sub_effect_def by blast
  qed
qed

lemma lift_parents:
  assumes "lift_ok st0" "LComps st0 = cs" "LAdded st0 = 0" "j \<le> length cs"
  shows "\<exists>xs es. lifted_upto cs st0 j (foldl (lift_parent digest) st0 [0..<j]) xs es"
  using assms(4)
proof (induction j)
  case 0
  have "lifted_upto cs st0 0 st0 [] []" using assms(1,2) by (simp add: lifted_upto_def extends_def)
  then show ?case by (intro exI) simp
next
  case (Suc j)
  then obtain xs es where u: "lifted_upto cs st0 j (foldl (lift_parent digest) st0 [0..<j]) xs es" by auto
  have "refs_ok cs" using assms(1,2) by (auto simp: lift_ok_def)
  from lift_parent_step [OF u _ this, of digest] Suc.prems show ?case by simp
qed

text \<open>The whole lift, for the components \<open>cs\<close> with references.\<close>

lemma lift_effect:
  fixes sbom :: SBOM and digest :: "component \<Rightarrow> string"
  defines "cs \<equiv> map (with_ref digest) (Components sbom)"
  assumes "liftSubComponentsToTopLevel digest sbom = (sbom', added, edges)"
  shows "\<exists>xs es. Components sbom' = map strip cs @ xs \<and> Relationships sbom' = Relationships sbom @ es \<and>
      added = length xs \<and> edges = length es \<and> refs_ok (Components sbom') \<and> list_all (\<lambda>c. SubComponents c = []) xs \<and>
      distinct (map (\<lambda>c. dedupKey (cdata c)) xs) \<and> [] \<notin> set (map (\<lambda>c. dedupKey (cdata c)) xs) \<and>
      set (map (\<lambda>c. dedupKey (cdata c)) xs) \<inter> set (map (\<lambda>c. dedupKey (cdata c)) cs) = {} \<and>
      (\<forall>e \<in> set es. \<exists>p \<in> set cs. \<exists>c \<in> set (Components sbom'). e = depends_edge (BOMRef (cdata p)) (BOMRef (cdata c))) \<and>
      (\<forall>p \<in> set cs. \<forall>s \<in> set (SubComponents p). dedupKey (cdata s) \<noteq> [] \<longrightarrow>
         (\<exists>c \<in> set (Components sbom'). dedupKey (cdata c) = dedupKey (cdata s) \<and> depends_edge (BOMRef (cdata p)) (BOMRef (cdata c)) \<in> set (Relationships sbom')))"
proof -
  obtain m where i: "indexExistingByPURL digest (Components sbom) = (cs, m)"
    by (simp add: indexExistingByPURL_def Let_def cs_def)
  let ?start = "\<lparr>LComps = cs, LRels = Relationships sbom, LIndex = m, LAdded = 0, LEdges = 0\<rparr>"
  let ?fin = "foldl (lift_parent digest) ?start [0..<length cs]"
  have "lift_ok ?start" using index_existing [OF i] by (simp add: lift_ok_def)
  then obtain xs es where u: "lifted_upto cs ?start (length cs) ?fin xs es"
    using lift_parents [of ?start cs "length cs" digest] by auto
  have r: "sbom' = sbom\<lparr>Components := LComps ?fin, Relationships := LRels ?fin\<rparr>" "added = LAdded ?fin" "edges = LEdges ?fin"
    using assms(2) by (simp_all add: liftSubComponentsToTopLevel_def i Let_def)
  have keys: "map (\<lambda>c. dedupKey (cdata c)) (map strip cs) = map (\<lambda>c. dedupKey (cdata c)) cs" by (simp add: strip_def comp_def)
  have "Components sbom' = map strip cs @ xs" "Relationships sbom' = Relationships sbom @ es" "added = length xs" "edges = length es"
    using u by (simp_all add: r lifted_upto_def extends_def)
  moreover have "refs_ok (Components sbom')" using u unfolding r lifted_upto_def lift_ok_def by simp
  moreover have "list_all (\<lambda>c. SubComponents c = []) xs" "distinct (map (\<lambda>c. dedupKey (cdata c)) xs)" "[] \<notin> set (map (\<lambda>c. dedupKey (cdata c)) xs)"
    using u by (auto simp: lifted_upto_def extends_def list_all_iff)
  moreover have "set (map (\<lambda>c. dedupKey (cdata c)) xs) \<inter> set (map (\<lambda>c. dedupKey (cdata c)) (map strip cs)) = {}"
    using u by (auto simp: lifted_upto_def extends_def)
  moreover have "\<forall>e \<in> set es. \<exists>p \<in> set cs. \<exists>c \<in> set (Components sbom'). e = depends_edge (BOMRef (cdata p)) (BOMRef (cdata c))"
    using u by (simp add: r lifted_upto_def)
  moreover have "\<forall>p \<in> set cs. \<forall>s \<in> set (SubComponents p). dedupKey (cdata s) \<noteq> [] \<longrightarrow>
      (\<exists>c \<in> set (Components sbom'). dedupKey (cdata c) = dedupKey (cdata s) \<and> depends_edge (BOMRef (cdata p)) (BOMRef (cdata c)) \<in> set (Relationships sbom'))"
    using u by (simp add: r lifted_upto_def has_dep_def) blast
  ultimately show ?thesis unfolding keys by blast
qed

section \<open>Properties\<close>

text \<open>
  After the lift no component has sub-components: the original ones come first, in order and otherwise
  unchanged but for a missing reference, and the lifted ones follow, with keys that are new and distinct.
\<close>

theorem lift_flattens:
  "case liftSubComponentsToTopLevel digest sbom of (sbom', added, edges) \<Rightarrow>
     let n = length (Components sbom); key = (\<lambda>c. dedupKey (cdata c)) in
     list_all (\<lambda>c. SubComponents c = [] \<and> BOMRef (cdata c) \<noteq> []) (Components sbom') \<and>
     map cdata (take n (Components sbom')) = map (\<lambda>c. cdata (with_ref digest c)) (Components sbom) \<and>
     distinct (map key (drop n (Components sbom'))) \<and>
     set (map key (drop n (Components sbom'))) \<inter> set ([] # map key (Components sbom)) = {} \<and>
     added = length (Components sbom') - n \<and> edges = length (Relationships sbom') - length (Relationships sbom)"
proof -
  obtain sbom' added edges where l: "liftSubComponentsToTopLevel digest sbom = (sbom', added, edges)" by (cases "liftSubComponentsToTopLevel digest sbom")
  let ?key = "\<lambda>c. dedupKey (cdata c)"
  have k: "map ?key (map (with_ref digest) (Components sbom)) = map ?key (Components sbom)" by simp
  obtain xs es where e: "Components sbom' = map strip (map (with_ref digest) (Components sbom)) @ xs" "Relationships sbom' = Relationships sbom @ es"
    "added = length xs" "edges = length es" "refs_ok (Components sbom')" "list_all (\<lambda>c. SubComponents c = []) xs" "distinct (map ?key xs)"
    "[] \<notin> set (map ?key xs)" "set (map ?key xs) \<inter> set (map ?key (Components sbom)) = {}"
    using lift_effect [OF l] unfolding k by blast
  have "list_all (\<lambda>c. SubComponents c = []) (Components sbom')" using e(1,6) by (auto simp: list_all_iff strip_def)
  then have "list_all (\<lambda>c. SubComponents c = [] \<and> BOMRef (cdata c) \<noteq> []) (Components sbom')" using e(5) by (simp add: list_all_iff refs_ok_def)
  moreover have "drop (length (Components sbom)) (Components sbom') = xs" by (simp add: e(1))
  moreover have "map cdata (take (length (Components sbom)) (Components sbom')) = map (\<lambda>c. cdata (with_ref digest c)) (Components sbom)"
    by (simp add: e(1) strip_def)
  moreover have "set (map ?key xs) \<inter> set ([] # map ?key (Components sbom)) = {}" using e(8,9) by simp
  ultimately show ?thesis using e(2-4,7) by (simp add: l Let_def e(1) del: drop_append take_append)
qed

text \<open>
  No dependency is lost: for every sub-component with a name or a package URL there is a top-level
  component of the same key and an edge to it from the parent.
\<close>

theorem lift_keeps_dependencies:
  "list_all (\<lambda>p. list_all (\<lambda>s. dedupKey (cdata s) = [] \<or>
       list_ex (\<lambda>c. dedupKey (cdata c) = dedupKey (cdata s) \<and>
           depends_edge (BOMRef (cdata (with_ref digest p))) (BOMRef (cdata c)) \<in> set (Relationships (fst (liftSubComponentsToTopLevel digest sbom))))
         (Components (fst (liftSubComponentsToTopLevel digest sbom))))
     (SubComponents p)) (Components sbom)"
proof -
  obtain sbom' added edges where l: "liftSubComponentsToTopLevel digest sbom = (sbom', added, edges)" by (cases "liftSubComponentsToTopLevel digest sbom")
  have s: "SubComponents (with_ref digest p) = SubComponents p" for p by (simp add: with_ref_def)
  show ?thesis using lift_effect [OF l] unfolding l list_all_iff list_ex_iff fst_conv by (auto simp: s)
qed

text \<open>Lifting again changes nothing and adds nothing.\<close>

theorem lift_idempotent:
  "liftSubComponentsToTopLevel digest (fst (liftSubComponentsToTopLevel digest sbom)) = (fst (liftSubComponentsToTopLevel digest sbom), 0, 0)"
proof -
  obtain sbom' added edges where l: "liftSubComponentsToTopLevel digest sbom = (sbom', added, edges)" by (cases "liftSubComponentsToTopLevel digest sbom")
  have flat: "\<forall>c \<in> set (Components sbom'). SubComponents c = [] \<and> BOMRef (cdata c) \<noteq> []"
    using lift_effect [OF l] by (auto simp: refs_ok_def list_all_iff strip_def)
  then have refs: "map (with_ref digest) (Components sbom') = Components sbom'" by (simp add: map_idI with_ref_id)
  have still: "foldl (lift_parent digest) st js = st" if "set js \<subseteq> {..<length (LComps st)}" "LComps st = Components sbom'" for st js
    using that by (induction js) (use flat in \<open>auto simp: lift_parent_def Let_def\<close>)
  have still': "foldl (lift_parent digest) st [0..<length (Components sbom')] = st" if "LComps st = Components sbom'" for st
    by (rule still) (use that in auto)
  have "liftSubComponentsToTopLevel digest sbom' = (sbom', 0, 0)"
    by (simp add: liftSubComponentsToTopLevel_def indexExistingByPURL_def Let_def refs still')
  then show ?thesis by (simp add: l)
qed

lemma lift_keeps_closed: "edges_closed s \<Longrightarrow> edges_closed (fst (liftSubComponentsToTopLevel digest s))"
proof -
  assume c: "edges_closed s"
  obtain s' added edges where l: "liftSubComponentsToTopLevel digest s = (s', added, edges)" by (cases "liftSubComponentsToTopLevel digest s")
  let ?refs = "map (\<lambda>c. BOMRef (cdata c))"
  obtain xs es where e: "Components s' = map strip (map (with_ref digest) (Components s)) @ xs" "Relationships s' = Relationships s @ es"
    "refs_ok (Components s')"
    "\<forall>e \<in> set es. \<exists>p \<in> set (map (with_ref digest) (Components s)). \<exists>c \<in> set (Components s'). e = depends_edge (BOMRef (cdata p)) (BOMRef (cdata c))"
    using lift_effect [OF l] by blast
  have r: "k \<in> set (?refs (Components s'))" if k: "k \<noteq> []" "k \<in> set (?refs (Components s))" for k
  proof -
    obtain x where "x \<in> set (Components s)" "BOMRef (cdata x) = k" using k(2) by auto
    then have "strip (with_ref digest x) \<in> set (Components s')" "BOMRef (cdata (strip (with_ref digest x))) = k"
      using k(1) by (simp add: e(1), simp add: strip_def with_ref_id)
    then show ?thesis by force
  qed
  have p: "BOMRef (cdata p) \<in> set (?refs (Components s'))" if q: "p \<in> set (map (with_ref digest) (Components s))" for p
  proof -
    have "strip p \<in> set (Components s')" "BOMRef (cdata (strip p)) = BOMRef (cdata p)" using q by (auto simp: e(1) strip_def)
    then show ?thesis unfolding set_map by (metis imageI)
  qed
  have new: "\<forall>k \<in> set [SourceRef d, TargetRef d]. k \<noteq> [] \<and> k \<in> set (?refs (Components s'))" if d: "d \<in> set es" for d
  proof -
    obtain q c where "q \<in> set (map (with_ref digest) (Components s))" "c \<in> set (Components s')" "d = depends_edge (BOMRef (cdata q)) (BOMRef (cdata c))"
      using e(4) d by blast
    then show ?thesis using p [of q] e(3) by (auto simp: depends_edge_def refs_ok_def)
  qed
  show ?thesis
    using c r new unfolding l edges_closed_def fst_conv e(2) list_all_iff by auto
qed

definition lift_step :: "(component \<Rightarrow> string) \<Rightarrow> 'b \<Rightarrow> SBOM \<Rightarrow> string option \<times> SBOM" where
  "lift_step digest b s = (None, fst (liftSubComponentsToTopLevel digest s))"

interpretation lift_invariant: sbom_invariant "lift_step digest" edges_closed for digest
  by unfold_locales (simp add: lift_step_def lift_keeps_closed)

text \<open>
  Pre-filter and lift never leave an edge without its ends, in whatever order and however often they run:
  if the edges of an SBOM join top-level components, so do those of the result.
\<close>

theorem closed_edges_survive:
  assumes "edges_closed s"
  shows "edges_closed (foldl (\<lambda>s step. snd (case step of Inl classify \<Rightarrow> prefilter_step classify b s | Inr digest \<Rightarrow> lift_step digest b s)) s steps)"
  using assms
  by (induction steps arbitrary: s) (auto simp: prefilter_invariant.keeps lift_invariant.keeps split: sum.split)

section \<open>Witness and counterexamples\<close>

definition demo_lift :: SBOM where
  "demo_lift = empty_sbom\<lparr>Components :=
       [Component (empty_component\<lparr>Name := ''bin'', BOMRef := ''bin'', CType := ComponentTypeFile\<rparr>)
         [Component (empty_component\<lparr>PURL := ''pkg:a'', BOMRef := ''own''\<rparr>) [Component (empty_component\<lparr>PURL := ''pkg:deep''\<rparr>) []]],
        Component (empty_component\<lparr>PURL := ''pkg:a'', BOMRef := ''known''\<rparr>) []],
     Relationships := [\<lparr>SourceRef = ''bin'', TargetRef = ''known'', RelType = ''provides''\<rparr>]\<rparr>"

theorem closed_edges_survive_witness:
  "edges_closed (foldl (\<lambda>s step. snd (case step of Inl classify \<Rightarrow> prefilter_step classify () s | Inr digest \<Rightarrow> lift_step digest () s))
     demo_lift [Inr (\<lambda>_. []), Inl None])"
proof -
  have "edges_closed demo_lift" by (simp add: edges_closed_def demo_lift_def empty_sbom_def empty_component_def)
  then show ?thesis by (rule closed_edges_survive)
qed

text \<open>The sub-components of a lifted component are dropped.\<close>

lemma deeper_components_lost:
  "map PURL (all_components (Components (fst (liftSubComponentsToTopLevel (\<lambda>_. []) demo_lift)))) = [[], ''pkg:a'']"
  by code_simp

text \<open>A sub-component found at the top level loses its own reference, and edges to it lose their end.\<close>

lemma own_reference_lost:
  "let s = fst (liftSubComponentsToTopLevel (\<lambda>_. []) (demo_lift\<lparr>Relationships := [depends_edge ''known'' ''own'']\<rparr>))
   in depends_edge ''known'' ''own'' \<in> set (Relationships s) \<and> ''own'' \<notin> set (map (\<lambda>c. BOMRef (cdata c)) (Components s))"
  by code_simp

text \<open>A nameless sub-component without a package URL disappears.\<close>

lemma nameless_lost:
  "all_components (Components (fst (liftSubComponentsToTopLevel (\<lambda>_. [])
     (empty_sbom\<lparr>Components := [Component (empty_component\<lparr>BOMRef := ''p''\<rparr>) [Component (empty_component\<lparr>BOMRef := ''x''\<rparr>) []]]\<rparr>))))
     = [empty_component\<lparr>BOMRef := ''p''\<rparr>]"
  by code_simp

end
