(* ===== verification/Access.thy ===== *)
theory Access
  imports GoLib
begin

text \<open>
  Access to registries: the configuration of registries (\<open>internal/config/registry.go\<close>), the providers of
  credentials and their chain (\<open>internal/image/auth\<close>), the transports and their dispatch by host
  (\<open>internal/image/transport\<close>), and the functions of \<open>internal/cli/enrich.go\<close> that build both from the
  configuration.  Files, the environment, certificates and the URL parser are
  parameters.
\<close>

section \<open>Configuration of registries\<close>

record AuthConfig =
  AuthType :: string
  ATokenEnv :: string
  AAPIKeyEnv :: string
  AUsernameEnv :: string
  APasswordEnv :: string
  AOIDCTokenEnv :: string
  AAudience :: string

record TLSConfig =
  TCACert :: string
  TClientCert :: string
  TClientKey :: string
  TSkipVerify :: bool

record RegistryConfig =
  RHost :: string
  RAuth :: "AuthConfig option"
  RTLS :: "TLSConfig option"
  RInsecure :: bool
  RProxy :: string

record Config =
  CVersion :: int
  Registries :: "RegistryConfig list"

datatype config_error = EmptyConfigPath | ConfigUnreadable | ConfigMalformed | HostMissing nat | ClientPairHalf nat

fun validate_registries :: "nat \<Rightarrow> RegistryConfig list \<Rightarrow> config_error option" where
  "validate_registries i [] = None"
| "validate_registries i (r # rs) =
     (if RHost r = [] then Some (HostMissing i)
      else case RTLS r of
          Some t \<Rightarrow> if (TClientCert t = []) \<noteq> (TClientKey t = []) then Some (ClientPairHalf i) else validate_registries (Suc i) rs
        | None \<Rightarrow> validate_registries (Suc i) rs)"

definition Validate_config :: "Config \<Rightarrow> config_error option" where
  "Validate_config c = validate_registries 0 (Registries c)"

definition Parse_config :: "(string \<Rightarrow> Config option) \<Rightarrow> string \<Rightarrow> config_error + Config" where
  "Parse_config yaml body =
     (case yaml body of None \<Rightarrow> Inl ConfigMalformed
      | Some c \<Rightarrow> (case Validate_config c of Some e \<Rightarrow> Inl e | None \<Rightarrow> Inr c))"

definition Load_config :: "(string \<Rightarrow> string option) \<Rightarrow> (string \<Rightarrow> Config option) \<Rightarrow> string \<Rightarrow> config_error + Config" where
  "Load_config read yaml path =
     (if path = [] then Inl EmptyConfigPath
      else case read path of None \<Rightarrow> Inl ConfigUnreadable | Some body \<Rightarrow> Parse_config yaml body)"

definition has_override :: "RegistryConfig \<Rightarrow> bool" where
  "has_override r \<longleftrightarrow> RTLS r \<noteq> None \<or> RInsecure r \<or> RProxy r \<noteq> []"

definition HasPerRegistryTLS :: "Config option \<Rightarrow> bool" where
  "HasPerRegistryTLS cfg = (case cfg of None \<Rightarrow> False | Some c \<Rightarrow> list_ex has_override (Registries c))"

definition equalHost :: "string \<Rightarrow> string \<Rightarrow> bool" where
  "equalHost a b \<longleftrightarrow> length a = length b \<and> list_all (\<lambda>(x, y). lower_char x = lower_char y) (zip a b)"

definition FindRegistry :: "Config option \<Rightarrow> string \<Rightarrow> RegistryConfig option" where
  "FindRegistry cfg host = (case cfg of None \<Rightarrow> None | Some c \<Rightarrow> find (\<lambda>r. equalHost (RHost r) host) (Registries c))"

section \<open>Credentials\<close>

record Credentials =
  Username :: string
  Password :: string
  Token :: string
  IdentityToken :: string

definition no_creds :: Credentials where
  "no_creds = \<lparr>Username = [], Password = [], Token = [], IdentityToken = []\<rparr>"

definition Creds_IsEmpty :: "Credentials \<Rightarrow> bool" where
  "Creds_IsEmpty c \<longleftrightarrow> Username c = [] \<and> Password c = [] \<and> Token c = [] \<and> IdentityToken c = []"

text \<open>\<open>ErrNoCredentials m\<close> stands for an error with the text \<open>m\<close> that wraps the sentinel of that name.\<close>

datatype auth_error = ErrNoCredentials string | AuthFailure string

type_synonym resolver = "string \<Rightarrow> auth_error + Credentials"
type_synonym provider = "string \<times> resolver"

definition envHostKey :: "string \<Rightarrow> string" where
  "envHostKey host = ToUpper (map (\<lambda>c. if c \<in> {CHR ''.'', CHR ''-'', CHR '':''} then CHR ''_'' else c) host)"

definition env_field :: "(string \<Rightarrow> string) \<Rightarrow> string \<Rightarrow> string \<Rightarrow> string" where
  "env_field getenv host name =
     (let v = getenv (''ASTINUS_REGISTRY_'' @ envHostKey host @ ''_'' @ name) in if v = [] then getenv (''REGISTRY_'' @ name) else v)"

definition EnvProvider_Resolve :: "(string \<Rightarrow> string) \<Rightarrow> resolver" where
  "EnvProvider_Resolve getenv host =
     (let c = no_creds\<lparr>Username := env_field getenv host ''USERNAME'', Password := env_field getenv host ''PASSWORD'',
                Token := env_field getenv host ''TOKEN''\<rparr>
      in if Creds_IsEmpty c then Inl (ErrNoCredentials (''env: no credentials for '' @ Quote host)) else Inr c)"

definition EnvProvider :: "(string \<Rightarrow> string) \<Rightarrow> provider" where
  "EnvProvider getenv = (''env'', EnvProvider_Resolve getenv)"

section \<open>Docker's credential file\<close>

text \<open>\<open>base64.StdEncoding.DecodeString\<close>: line breaks are skipped, padding is required.\<close>

definition b64_value :: "char \<Rightarrow> nat option" where
  "b64_value c =
     (let n = of_char c :: nat in
      if 65 \<le> n \<and> n \<le> 90 then Some (n - 65) else if 97 \<le> n \<and> n \<le> 122 then Some (n - 71)
      else if 48 \<le> n \<and> n \<le> 57 then Some (n + 4) else if c = CHR ''+'' then Some 62 else if c = CHR ''/'' then Some 63 else None)"

definition pad :: char where "pad = CHR ''=''"

fun b64_groups :: "string \<Rightarrow> string option" where
  "b64_groups [] = Some []"
| "b64_groups (a # b # c # d # rest) =
     (case (b64_value a, b64_value b) of
        (Some x, Some y) \<Rightarrow>
          if c = pad then (if d = pad \<and> rest = [] then Some [char_of (x * 4 + y div 16)] else None)
          else (case b64_value c of None \<Rightarrow> None
            | Some z \<Rightarrow>
                if d = pad then (if rest = [] then Some [char_of (x * 4 + y div 16), char_of ((y mod 16) * 16 + z div 4)] else None)
                else (case b64_value d of None \<Rightarrow> None
                  | Some w \<Rightarrow> map_option (\<lambda>s. [char_of (x * 4 + y div 16), char_of ((y mod 16) * 16 + z div 4), char_of ((z mod 4) * 64 + w)] @ s)
                      (b64_groups rest)))
      | _ \<Rightarrow> None)"
| "b64_groups _ = None"

definition DecodeString :: "string \<Rightarrow> string option" where
  "DecodeString s = b64_groups (filter (\<lambda>c. c \<noteq> CHR 0x0A \<and> c \<noteq> CHR 0x0D) s)"

record dockerAuthEntry =
  DAuth :: string
  DUsername :: string
  DPassword :: string
  DIdentityToken :: string
  DRegistryToken :: string

definition toCredentials :: "dockerAuthEntry \<Rightarrow> auth_error + Credentials" where
  "toCredentials e =
     (let c = \<lparr>Username = DUsername e, Password = DPassword e, Token = DRegistryToken e, IdentityToken = DIdentityToken e\<rparr> in
      if DAuth e = [] then Inr c
      else case DecodeString (DAuth e) of
          None \<Rightarrow> Inl (AuthFailure ''invalid base64 in auth field'')
        | Some raw \<Rightarrow>
            (case IndexByte raw (CHR '':'') of
               None \<Rightarrow> Inl (AuthFailure ''auth field not in user:pass form'')
             | Some i \<Rightarrow> Inr (c\<lparr>Username := take i raw, Password := drop (Suc i) raw\<rparr>)))"

definition normalizeAuthKey :: "string \<Rightarrow> string" where
  "normalizeAuthKey key =
     (let s = (case Index key ''://'' of None \<Rightarrow> key | Some i \<Rightarrow> drop (i + 3) key)
      in case IndexByte s slash of None \<Rightarrow> s | Some i \<Rightarrow> take i s)"

text \<open>The order of the map is that of the list.\<close>

definition matchHost :: "dockerAuthEntry gomap \<Rightarrow> string \<Rightarrow> dockerAuthEntry option" where
  "matchHost auths host =
     (case mget auths host of Some e \<Rightarrow> Some e
      | None \<Rightarrow> map_option snd (find (\<lambda>kv. normalizeAuthKey (fst kv) = host) auths))"

datatype docker_file = DockerMissing | DockerUnreadable | DockerMalformed | DockerAuths "dockerAuthEntry gomap"

definition resolvePath :: "(string \<Rightarrow> string) \<Rightarrow> string option \<Rightarrow> string \<Rightarrow> string option" where
  "resolvePath getenv home path =
     (if path \<noteq> [] then Some path
      else if getenv ''DOCKER_CONFIG'' \<noteq> [] then Some (JoinPath (getenv ''DOCKER_CONFIG'') ''config.json'')
      else map_option (\<lambda>h. JoinPath (JoinPath h ''.docker'') ''config.json'') home)"

definition DockerConfig_Resolve ::
  "(string \<Rightarrow> string) \<Rightarrow> string option \<Rightarrow> (string \<Rightarrow> docker_file) \<Rightarrow> string \<Rightarrow> resolver"
where
  "DockerConfig_Resolve getenv home read path host =
     (case resolvePath getenv home path of
        None \<Rightarrow> Inl (AuthFailure ''docker-config: home dir'')
      | Some p \<Rightarrow>
          (case read p of
             DockerMissing \<Rightarrow> Inl (ErrNoCredentials (''docker-config: '' @ p))
           | DockerUnreadable \<Rightarrow> Inl (AuthFailure (''docker-config: read '' @ p))
           | DockerMalformed \<Rightarrow> Inl (AuthFailure (''docker-config: parse '' @ p))
           | DockerAuths auths \<Rightarrow>
               (case matchHost auths host of
                  None \<Rightarrow> Inl (ErrNoCredentials (''docker-config: no entry for '' @ Quote host))
                | Some e \<Rightarrow>
                    (case toCredentials e of
                       Inl err \<Rightarrow> Inl err
                     | Inr c \<Rightarrow> if Creds_IsEmpty c then Inl (ErrNoCredentials (''docker-config: empty entry for '' @ Quote host)) else Inr c))))"

definition DockerConfigProvider :: "(string \<Rightarrow> string) \<Rightarrow> string option \<Rightarrow> (string \<Rightarrow> docker_file) \<Rightarrow> provider" where
  "DockerConfigProvider getenv home read = (''docker-config'', DockerConfig_Resolve getenv home read [])"

section \<open>Artifactory and the cloud registries\<close>

datatype ArtifactoryMode = ArtifactoryToken | ArtifactoryAPIKey | ArtifactoryOIDC

record ArtifactoryConfig =
  AMode :: ArtifactoryMode
  AHosts :: "string list"
  TokenEnvName :: string
  UserEnvName :: string
  APIKeyEnvName :: string
  OIDCEnvName :: string

definition hostLooksLikeArtifactory :: "string \<Rightarrow> bool" where
  "hostLooksLikeArtifactory host = Contains host ''artifactory''"

definition appliesTo :: "ArtifactoryConfig \<Rightarrow> string \<Rightarrow> bool" where
  "appliesTo cfg host =
     (let host = ToLower host in
      if AHosts cfg = [] then hostLooksLikeArtifactory host else list_ex (\<lambda>h. EqualFold (TrimSpace h) host) (AHosts cfg))"

fun readEnvFallback :: "(string \<Rightarrow> string) \<Rightarrow> string list \<Rightarrow> string" where
  "readEnvFallback getenv [] = []"
| "readEnvFallback getenv (k # ks) =
     (if k \<noteq> [] \<and> TrimSpace (getenv k) \<noteq> [] then TrimSpace (getenv k) else readEnvFallback getenv ks)"

definition Artifactory_Resolve :: "(string \<Rightarrow> string) \<Rightarrow> ArtifactoryConfig \<Rightarrow> resolver" where
  "Artifactory_Resolve getenv cfg host =
     (if \<not> appliesTo cfg host then Inl (ErrNoCredentials (''artifactory: host '' @ Quote host @ '' out of scope''))
      else case AMode cfg of
          ArtifactoryToken \<Rightarrow>
            (let t = readEnvFallback getenv [TokenEnvName cfg, ''ARTIFACTORY_TOKEN'']
             in if t = [] then Inl (ErrNoCredentials (''artifactory: token env empty for '' @ Quote host)) else Inr (no_creds\<lparr>Token := t\<rparr>))
        | ArtifactoryAPIKey \<Rightarrow>
            (let u = readEnvFallback getenv [UserEnvName cfg, ''ARTIFACTORY_USER'']; k = readEnvFallback getenv [APIKeyEnvName cfg, ''ARTIFACTORY_API_KEY'']
             in if u = [] \<or> k = [] then Inl (ErrNoCredentials (''artifactory: api-key env(s) empty for '' @ Quote host)) else Inr (no_creds\<lparr>Username := u, Password := k\<rparr>))
        | ArtifactoryOIDC \<Rightarrow>
            (let t = readEnvFallback getenv [OIDCEnvName cfg, ''GITHUB_TOKEN'', ''GITLAB_OIDC_TOKEN'']
             in if t = [] then Inl (ErrNoCredentials (''artifactory: OIDC token env empty for '' @ Quote host)) else Inr (no_creds\<lparr>Token := t\<rparr>)))"

definition ArtifactoryProvider :: "(string \<Rightarrow> string) \<Rightarrow> ArtifactoryConfig \<Rightarrow> provider" where
  "ArtifactoryProvider getenv cfg = (''artifactory'', Artifactory_Resolve getenv cfg)"

definition hostLooksLikeECR :: "string \<Rightarrow> bool" where
  "hostLooksLikeECR host \<longleftrightarrow> Contains host ''.dkr.ecr.'' \<and> HasSuffix host ''.amazonaws.com''"

definition hostLooksLikeGCR :: "string \<Rightarrow> bool" where
  "hostLooksLikeGCR host \<longleftrightarrow> host = ''gcr.io'' \<or> HasSuffix host ''.gcr.io'' \<or> HasSuffix host ''.pkg.dev''"

definition hostLooksLikeACR :: "string \<Rightarrow> bool" where
  "hostLooksLikeACR host = HasSuffix host ''.azurecr.io''"

text \<open>A stub declines every host and tells how to log in to those it recognises.\<close>

definition cloudStub :: "string \<Rightarrow> (string \<Rightarrow> bool) \<Rightarrow> string \<Rightarrow> provider" where
  "cloudStub name hostMatch hint = (name, \<lambda>host. Inl (ErrNoCredentials
     (if \<not> hostMatch (ToLower host) then name @ '': host '' @ Quote host @ '' out of scope''
      else name @ '': no built-in credentials helper for '' @ Quote host @ '' ('' @ hint @ '')'')))"

definition login_hint :: "string \<Rightarrow> string" where
  "login_hint cmd = ''run '' @ Quote cmd @ '' or set ASTINUS_REGISTRY_<HOST>_TOKEN''"

definition ECRProvider :: provider where
  "ECRProvider = cloudStub ''ecr'' hostLooksLikeECR (login_hint ''aws ecr get-login-password | docker login'')"

definition GCRProvider :: provider where
  "GCRProvider = cloudStub ''gcr'' hostLooksLikeGCR (login_hint ''gcloud auth configure-docker'')"

definition ACRProvider :: provider where
  "ACRProvider = cloudStub ''acr'' hostLooksLikeACR (login_hint ''az acr login --name <registry>'')"

section \<open>The chain\<close>

definition Chain_Name :: "provider list \<Rightarrow> string" where
  "Chain_Name ps = ''chain['' @ Join '','' (map fst ps) @ '']''"

fun chain_loop :: "provider list \<Rightarrow> resolver" where
  "chain_loop [] host = Inl (ErrNoCredentials (''chain: no provider supplied credentials for '' @ Quote host))"
| "chain_loop (p # ps) host =
     (case snd p host of
        Inr c \<Rightarrow> Inr c
      | Inl (ErrNoCredentials m) \<Rightarrow> chain_loop ps host
      | Inl (AuthFailure e) \<Rightarrow> Inl (AuthFailure (''chain: provider '' @ Quote (fst p) @ '': '' @ e)))"

definition Chain_Resolve :: "provider list \<Rightarrow> resolver" where
  "Chain_Resolve ps host = (if ps = [] then Inl (ErrNoCredentials ''chain: empty'') else chain_loop ps host)"

definition DefaultChain :: "(string \<Rightarrow> string) \<Rightarrow> string option \<Rightarrow> (string \<Rightarrow> docker_file) \<Rightarrow> provider list" where
  "DefaultChain getenv home read =
     [EnvProvider getenv, DockerConfigProvider getenv home read,
      ArtifactoryProvider getenv \<lparr>AMode = ArtifactoryToken, AHosts = [], TokenEnvName = [], UserEnvName = [], APIKeyEnvName = [], OIDCEnvName = []\<rparr>,
      ECRProvider, GCRProvider, ACRProvider]"

definition authProviderForRegistry :: "(string \<Rightarrow> string) \<Rightarrow> RegistryConfig \<Rightarrow> provider option" where
  "authProviderForRegistry getenv r =
     (case RAuth r of None \<Rightarrow> None
      | Some a \<Rightarrow>
          (let base = \<lparr>AMode = ArtifactoryToken, AHosts = [RHost r], TokenEnvName = [], UserEnvName = [], APIKeyEnvName = [], OIDCEnvName = []\<rparr> in
           if AuthType a = ''artifactory-token'' then Some (ArtifactoryProvider getenv (base\<lparr>TokenEnvName := ATokenEnv a\<rparr>))
           else if AuthType a = ''artifactory-api-key'' then
             Some (ArtifactoryProvider getenv (base\<lparr>AMode := ArtifactoryAPIKey, UserEnvName := AUsernameEnv a, APIKeyEnvName := AAPIKeyEnv a\<rparr>))
           else if AuthType a = ''artifactory-oidc'' then
             Some (ArtifactoryProvider getenv (base\<lparr>AMode := ArtifactoryOIDC, OIDCEnvName := AOIDCTokenEnv a\<rparr>))
           else None))"

definition buildAuthChain ::
  "(string \<Rightarrow> string) \<Rightarrow> string option \<Rightarrow> (string \<Rightarrow> docker_file) \<Rightarrow> Config option \<Rightarrow> provider list"
where
  "buildAuthChain getenv home read cfg =
     (case cfg of None \<Rightarrow> [] | Some c \<Rightarrow> List.map_filter (authProviderForRegistry getenv) (Registries c)) @ DefaultChain getenv home read"

datatype authenticator = Anonymous | Basic string string

definition pickPassword :: "Credentials \<Rightarrow> string" where
  "pickPassword c = (if Token c \<noteq> [] then Token c else if IdentityToken c \<noteq> [] then IdentityToken c else Password c)"

definition resolveAuth :: "provider list \<Rightarrow> string \<Rightarrow> auth_error + authenticator" where
  "resolveAuth chain host =
     (case Chain_Resolve chain host of
        Inl (ErrNoCredentials m) \<Rightarrow> Inr Anonymous
      | Inl (AuthFailure e) \<Rightarrow> Inl (AuthFailure (''registry: credential provider '' @ Quote (Chain_Name chain) @ '': '' @ e))
      | Inr c \<Rightarrow> Inr (Basic (Username c) (pickPassword c)))"

section \<open>Transports\<close>

text \<open>A transport is described by how it was built; \<open>'c\<close> are certificates and \<open>'k\<close> key pairs.\<close>

record transport_options =
  OCABundle :: string
  OSkipTLSVerify :: bool
  OProxy :: string
  OTimeout :: int
  OMaxRetries :: int
  OClientCert :: string
  OClientKey :: string

definition no_options :: transport_options where
  "no_options = \<lparr>OCABundle = [], OSkipTLSVerify = False, OProxy = [], OTimeout = 0, OMaxRetries = 0, OClientCert = [], OClientKey = []\<rparr>"

datatype proxy_setting = ProxyFromEnvironment | ProxyURL string

record ('c, 'k) transport =
  TRootCAs :: "'c list"
  TInsecure :: bool
  TClient :: "'k option"
  TProxySetting :: proxy_setting
  TRetryMax :: nat
  TTimeout :: int

record ('c, 'k) tls_world =
  SystemPool :: "'c list option"
  ReadPEM :: "string \<Rightarrow> 'c list option"
  LoadKeyPair :: "string \<Rightarrow> string \<Rightarrow> 'k option"
  ParseURL :: "string \<Rightarrow> string option"

datatype transport_error = CAUnreadable string | CAEmpty string | ClientHalf | ClientUnloadable | BadProxy string | NoDefault | AtRegistry string transport_error

definition loadCAPool :: "('c, 'k) tls_world \<Rightarrow> string \<Rightarrow> transport_error + 'c list" where
  "loadCAPool w path =
     (let pool = (case SystemPool w of None \<Rightarrow> [] | Some p \<Rightarrow> p) in
      if path = [] then Inr pool
      else case ReadPEM w path of
          None \<Rightarrow> Inl (CAUnreadable path)
        | Some cs \<Rightarrow> if cs = [] then Inl (CAEmpty path) else Inr (pool @ cs))"

definition loadClientCertificate :: "('c, 'k) tls_world \<Rightarrow> string \<Rightarrow> string \<Rightarrow> transport_error + 'k option" where
  "loadClientCertificate w cert key =
     (if cert = [] \<and> key = [] then Inr None
      else if cert = [] \<or> key = [] then Inl ClientHalf
      else case LoadKeyPair w cert key of None \<Rightarrow> Inl ClientUnloadable | Some k \<Rightarrow> Inr (Some k))"

definition proxyFunc :: "('c, 'k) tls_world \<Rightarrow> string \<Rightarrow> transport_error + proxy_setting" where
  "proxyFunc w explicit =
     (if explicit = [] then Inr ProxyFromEnvironment
      else case ParseURL w explicit of None \<Rightarrow> Inl (BadProxy explicit) | Some u \<Rightarrow> Inr (ProxyURL u))"

text \<open>Durations in seconds.\<close>

definition defaultTimeout :: int where "defaultTimeout = 30"
definition defaultRetries :: int where "defaultRetries = 3"

definition effective_retries :: "int \<Rightarrow> nat" where
  "effective_retries n = (let r = (if n = 0 then defaultRetries else n) in if r < 0 then 0 else nat r)"

definition New_transport :: "('c, 'k) tls_world \<Rightarrow> transport_options \<Rightarrow> transport_error + ('c, 'k) transport" where
  "New_transport w opt =
     (case loadCAPool w (OCABundle opt) of Inl e \<Rightarrow> Inl e
      | Inr pool \<Rightarrow>
          (case loadClientCertificate w (OClientCert opt) (OClientKey opt) of Inl e \<Rightarrow> Inl e
           | Inr client \<Rightarrow>
               (case proxyFunc w (OProxy opt) of Inl e \<Rightarrow> Inl e
                | Inr proxy \<Rightarrow>
                    Inr \<lparr>TRootCAs = pool, TInsecure = OSkipTLSVerify opt, TClient = client, TProxySetting = proxy,
                         TRetryMax = effective_retries (OMaxRetries opt),
                         TTimeout = (if OTimeout opt = 0 then defaultTimeout else OTimeout opt)\<rparr>)))"

text \<open>The User-Agent of a request, set when the request has none.\<close>

definition stamp_user_agent :: "string \<Rightarrow> string gomap \<Rightarrow> string gomap" where
  "stamp_user_agent version headers =
     (if mval headers ''User-Agent'' = []
      then mput ''User-Agent'' (''astinus/'' @ version @ '' (+https://github.com/psyf8t/astinus)'') headers else headers)"

section \<open>Dispatch by host\<close>

record ('c, 'k) per_registry =
  PDefault :: "('c, 'k) transport"
  PHosts :: "('c, 'k) transport gomap"

definition normalizeHost :: "string \<Rightarrow> string" where
  "normalizeHost s = ToLower (TrimSpace s)"

definition NewPerRegistry :: "('c, 'k) transport option \<Rightarrow> ('c, 'k) per_registry option" where
  "NewPerRegistry def = map_option (\<lambda>t. \<lparr>PDefault = t, PHosts = []\<rparr>) def"

definition Set_host :: "string \<Rightarrow> ('c, 'k) transport \<Rightarrow> ('c, 'k) per_registry \<Rightarrow> ('c, 'k) per_registry" where
  "Set_host host t p = p\<lparr>PHosts := mput (normalizeHost host) t (PHosts p)\<rparr>"

text \<open>The transport a request to a host goes through; a request without a URL is an error.\<close>

definition RoundTrip_via :: "('c, 'k) per_registry \<Rightarrow> string option \<Rightarrow> ('c, 'k) transport option" where
  "RoundTrip_via p url_host =
     map_option (\<lambda>host. case mget (PHosts p) (normalizeHost host) of Some t \<Rightarrow> t | None \<Rightarrow> PDefault p) url_host"

definition host_options :: "RegistryConfig \<Rightarrow> transport_options" where
  "host_options r =
     (let o1 = (case RTLS r of None \<Rightarrow> no_options
        | Some t \<Rightarrow> no_options\<lparr>OCABundle := TCACert t, OSkipTLSVerify := TSkipVerify t, OClientCert := TClientCert t, OClientKey := TClientKey t\<rparr>)
      in if RProxy r \<noteq> [] then o1\<lparr>OProxy := RProxy r\<rparr> else o1)"

fun add_registries ::
  "('c, 'k) tls_world \<Rightarrow> RegistryConfig list \<Rightarrow> ('c, 'k) per_registry \<Rightarrow> transport_error + ('c, 'k) per_registry"
where
  "add_registries w [] p = Inr p"
| "add_registries w (r # rs) p =
     (if RTLS r = None \<and> \<not> RInsecure r \<and> RProxy r = [] then add_registries w rs p
      else case New_transport w (host_options r) of
          Inl e \<Rightarrow> Inl (AtRegistry (RHost r) e)
        | Inr t \<Rightarrow> add_registries w rs (Set_host (RHost r) t p))"

definition buildPerRegistryTransport ::
  "('c, 'k) tls_world \<Rightarrow> ('c, 'k) transport \<Rightarrow> Config \<Rightarrow> transport_error + ('c, 'k) per_registry"
where
  "buildPerRegistryTransport w def cfg =
     (case NewPerRegistry (Some def) of None \<Rightarrow> Inl NoDefault | Some p \<Rightarrow> add_registries w (Registries cfg) p)"

text \<open>Without overrides the transport of the flags alone serves every host.\<close>

definition buildTransport ::
  "('c, 'k) tls_world \<Rightarrow> string \<Rightarrow> bool \<Rightarrow> Config option \<Rightarrow> transport_error + ('c, 'k) per_registry"
where
  "buildTransport w caBundle skipTLS cfg =
     (case New_transport w (no_options\<lparr>OCABundle := caBundle, OSkipTLSVerify := skipTLS\<rparr>) of
        Inl e \<Rightarrow> Inl e
      | Inr def \<Rightarrow>
          (case cfg of
             Some c \<Rightarrow> if HasPerRegistryTLS cfg then buildPerRegistryTransport w def c else Inr \<lparr>PDefault = def, PHosts = []\<rparr>
           | None \<Rightarrow> Inr \<lparr>PDefault = def, PHosts = []\<rparr>))"

section \<open>Lemmas\<close>

text \<open>The standard encoding, as \<open>docker login\<close> writes it.\<close>

definition b64_char :: "nat \<Rightarrow> char" where
  "b64_char n = (if n < 26 then char_of (n + 65) else if n < 52 then char_of (n + 71) else if n < 62 then char_of (n - 4)
     else if n = 62 then CHR ''+'' else CHR ''/'')"

fun b64_encode :: "string \<Rightarrow> string" where
  "b64_encode [] = []"
| "b64_encode [a] = (let x = of_char a :: nat in [b64_char (x div 4), b64_char ((x mod 4) * 16), pad, pad])"
| "b64_encode [a, b] = (let x = of_char a :: nat; y = of_char b :: nat in
     [b64_char (x div 4), b64_char ((x mod 4) * 16 + y div 16), b64_char ((y mod 16) * 4), pad])"
| "b64_encode (a # b # c # rest) = (let x = of_char a :: nat; y = of_char b :: nat; z = of_char c :: nat in
     [b64_char (x div 4), b64_char ((x mod 4) * 16 + y div 16), b64_char ((y mod 16) * 4 + z div 64), b64_char (z mod 64)] @ b64_encode rest)"

lemma b64_char_value: "n < 64 \<Longrightarrow> b64_value (b64_char n) = Some n"
  by (auto simp: b64_value_def b64_char_def Let_def)

lemma b64_char_props:
  assumes "n < 64"
  shows "b64_value (b64_char n) = Some n" "b64_char n \<noteq> pad" "b64_char n \<noteq> CHR 0x0A" "b64_char n \<noteq> CHR 0x0D"
proof -
  have "b64_value pad = None" "b64_value (CHR 0x0A) = None" "b64_value (CHR 0x0D) = None" by (simp_all add: b64_value_def pad_def)
  then show "b64_value (b64_char n) = Some n" "b64_char n \<noteq> pad" "b64_char n \<noteq> CHR 0x0A" "b64_char n \<noteq> CHR 0x0D"
    using b64_char_value [OF assms] by (metis option.distinct(1))+
qed

lemma sextet_bounds:
  fixes c d :: char
  shows "(of_char c :: nat) div 4 < 64" "(of_char c :: nat) mod 4 * 16 < 64" "(of_char c :: nat) mod 4 * 16 + of_char d div 16 < 64"
    "(of_char c :: nat) mod 16 * 4 < 64" "(of_char c :: nat) mod 16 * 4 + of_char d div 64 < 64" "(of_char c :: nat) mod 64 < 64"
    "(of_char c :: nat) div 16 < 16" "(of_char c :: nat) div 64 < 4"
proof -
  have d: "(of_char c :: nat) div 4 < 64" "(of_char c :: nat) div 16 < 16" "(of_char c :: nat) div 64 < 4" for c :: char
    by (rule less_mult_imp_div_less, simp)+
  have m: "(of_char c :: nat) mod 4 < 4" "(of_char c :: nat) mod 16 < 16" by simp_all
  show "(of_char c :: nat) div 4 < 64" "(of_char c :: nat) div 16 < 16" "(of_char c :: nat) div 64 < 4" by (rule d)+
  show "(of_char c :: nat) mod 4 * 16 < 64" "(of_char c :: nat) mod 4 * 16 + of_char d div 16 < 64"
    "(of_char c :: nat) mod 16 * 4 < 64" "(of_char c :: nat) mod 16 * 4 + of_char d div 64 < 64"
    using m d [of d] by linarith+
qed simp

lemma b64_no_breaks: "filter (\<lambda>c. c \<noteq> CHR 0x0A \<and> c \<noteq> CHR 0x0D) (b64_encode s) = b64_encode s"
  by (induction s rule: b64_encode.induct) (simp_all add: Let_def b64_char_props sextet_bounds pad_def)

lemma b64_roundtrip: "b64_groups (b64_encode s) = Some s"
proof -
  have x: "(n div 4) * 4 + (n mod 4 * 16) div 16 = n" "m < 16 \<Longrightarrow> (n div 4) * 4 + (n mod 4 * 16 + m) div 16 = n"
    "m < 16 \<Longrightarrow> (n mod 4 * 16 + m) mod 16 = m" "k < 4 \<Longrightarrow> (n mod 16 * 4 + k) div 4 = n mod 16" "k < 4 \<Longrightarrow> (n mod 16 * 4 + k) mod 4 = k"
    for n m k :: nat by auto
  have y: "n div 16 * 16 + n mod 16 = n" "n div 64 * 64 + n mod 64 = n" for n :: nat by auto
  show ?thesis
    by (induction s rule: b64_encode.induct) (simp_all add: Let_def b64_char_props sextet_bounds x y)
qed

lemma DecodeString_encode: "DecodeString (b64_encode s) = Some s"
  by (simp add: DecodeString_def b64_no_breaks b64_roundtrip)

lemma equalHost_iff: "equalHost a b \<longleftrightarrow> ToLower a = ToLower b"
  by (induction a b rule: list_induct2') (auto simp: equalHost_def ToLower_def)

lemma IndexByte_append: "c \<notin> set u \<Longrightarrow> IndexByte (u @ c # v) c = Some (length u)"
  by (simp add: IndexByte_def) (induction u, auto)

lemma EqualFold_iff: "EqualFold a b \<longleftrightarrow> ToLower a = ToLower b"
  by (simp add: EqualFold_def)

definition declines :: "string \<Rightarrow> provider \<Rightarrow> bool" where
  "declines host p \<longleftrightarrow> (case snd p host of Inl (ErrNoCredentials m) \<Rightarrow> True | _ \<Rightarrow> False)"

lemma chain_loop_skip: "declines host p \<Longrightarrow> chain_loop (p # ps) host = chain_loop ps host"
  by (auto simp: declines_def split: sum.splits auth_error.splits)

lemma chain_loop_append: "list_all (declines host) ps \<Longrightarrow> chain_loop (ps @ qs) host = chain_loop qs host"
  by (induction ps) (auto simp: declines_def split: sum.splits auth_error.splits)

lemma configured_provider:
  assumes "authProviderForRegistry getenv r = Some p" "\<not> EqualFold (TrimSpace (RHost r)) (ToLower host)"
  shows "declines host p"
proof -
  obtain cfg where "p = ArtifactoryProvider getenv cfg" "AHosts cfg = [RHost r]"
    using assms(1) by (auto simp: authProviderForRegistry_def Let_def split: option.splits if_splits)
  then show ?thesis using assms(2) by (simp add: declines_def ArtifactoryProvider_def Artifactory_Resolve_def appliesTo_def Let_def)
qed

lemma find_app: "find P (xs @ ys) = (case find P xs of Some x \<Rightarrow> Some x | None \<Rightarrow> find P ys)"
  by (induction xs) auto

lemma add_registries_hosts:
  assumes "add_registries w rs p = Inr p'"
  shows "PDefault p' = PDefault p \<and>
    (case find (\<lambda>r. has_override r \<and> normalizeHost (RHost r) = h) (rev rs) of
       None \<Rightarrow> mget (PHosts p') h = mget (PHosts p) h
     | Some r \<Rightarrow> \<exists>t. New_transport w (host_options r) = Inr t \<and> mget (PHosts p') h = Some t)"
  using assms
proof (induction rs arbitrary: p)
  case Nil
  then show ?case by simp
next
  case (Cons r rs)
  let ?P = "\<lambda>r. has_override r \<and> normalizeHost (RHost r) = h"
  have fr: "find ?P (rev (r # rs)) = (case find ?P (rev rs) of Some x \<Rightarrow> Some x | None \<Rightarrow> if ?P r then Some r else None)"
    by (auto simp: find_app split: option.split)
  show ?case
  proof (cases "has_override r")
    case False
    then have "add_registries w rs p = Inr p'" using Cons.prems by (simp add: has_override_def)
    then show ?thesis using Cons.IH [of p] False unfolding fr by (auto split: option.splits)
  next
    case True
    then obtain t where t: "New_transport w (host_options r) = Inr t" "add_registries w rs (Set_host (RHost r) t p) = Inr p'"
      using Cons.prems by (auto simp: has_override_def split: sum.splits if_splits)
    show ?thesis using Cons.IH [OF t(2)] t(1) True unfolding fr by (auto simp: Set_host_def split: option.splits)
  qed
qed

section \<open>Properties\<close>

text \<open>
  C27.  The credentials \<open>docker login\<close> stores in the \<open>auth\<close> field of a host come back as user and password,
  whatever bytes the password has.
\<close>

theorem docker_auth_roundtrip:
  assumes "CHR '':'' \<notin> set user"
  shows "toCredentials (e\<lparr>DAuth := b64_encode (user @ '':'' @ pass)\<rparr>) =
    Inr \<lparr>Username = user, Password = pass, Token = DRegistryToken e, IdentityToken = DIdentityToken e\<rparr>"
proof -
  have "b64_encode (user @ '':'' @ pass) \<noteq> []" using DecodeString_encode [of "user @ '':'' @ pass"] by (auto simp: DecodeString_def)
  then show ?thesis
    using assms by (simp add: toCredentials_def Let_def DecodeString_encode IndexByte_append)
qed

theorem docker_auth_roundtrip_witness:
  "toCredentials (\<lparr>DAuth = [], DUsername = ''x'', DPassword = [], DIdentityToken = [], DRegistryToken = []\<rparr>\<lparr>DAuth := b64_encode (''me'' @ '':'' @ ''a:b'')\<rparr>)
     = Inr \<lparr>Username = ''me'', Password = ''a:b'', Token = [], IdentityToken = []\<rparr>"
  by (subst docker_auth_roundtrip) simp_all

text \<open>
  The answer of a chain is that of its first provider that does not decline the host; a failure of that
  provider is not papered over by later ones.
\<close>

theorem Chain_Resolve_first:
  "Chain_Resolve ps host =
     (case dropWhile (declines host) ps of
        [] \<Rightarrow> Inl (ErrNoCredentials (if ps = [] then ''chain: empty'' else ''chain: no provider supplied credentials for '' @ Quote host))
      | p # _ \<Rightarrow> (case snd p host of Inr c \<Rightarrow> Inr c
          | Inl (AuthFailure e) \<Rightarrow> Inl (AuthFailure (''chain: provider '' @ Quote (fst p) @ '': '' @ e))
          | Inl (ErrNoCredentials m) \<Rightarrow> Inl (ErrNoCredentials m)))"
proof -
  have "chain_loop ps host = (case dropWhile (declines host) ps of
        [] \<Rightarrow> Inl (ErrNoCredentials (''chain: no provider supplied credentials for '' @ Quote host))
      | p # _ \<Rightarrow> (case snd p host of Inr c \<Rightarrow> Inr c
          | Inl (AuthFailure e) \<Rightarrow> Inl (AuthFailure (''chain: provider '' @ Quote (fst p) @ '': '' @ e))
          | Inl (ErrNoCredentials m) \<Rightarrow> Inl (ErrNoCredentials m)))"
  proof (induction ps)
    case Nil
    then show ?case by simp
  next
    case (Cons p ps)
    show ?case
    proof (cases "declines host p")
      case True
      then show ?thesis using Cons by (simp add: chain_loop_skip del: chain_loop.simps)
    next
      case False
      then show ?thesis by (auto simp: declines_def split: sum.splits auth_error.splits)
    qed
  qed
  then show ?thesis by (cases ps) (simp_all add: Chain_Resolve_def)
qed


text \<open>
  C33.  A request goes through the transport of the last entry with overrides for its host, or else through that of
  the flags: skipped verification, client certificate and proxy of one registry never serve another.
\<close>

theorem transport_by_host:
  assumes "buildTransport w ca skip (Some cfg) = Inr p"
  shows "\<exists>t. RoundTrip_via p (Some host) = Some t \<and>
    New_transport w (case find (\<lambda>r. has_override r \<and> normalizeHost (RHost r) = normalizeHost host) (rev (Registries cfg)) of
        None \<Rightarrow> no_options\<lparr>OCABundle := ca, OSkipTLSVerify := skip\<rparr> | Some r \<Rightarrow> host_options r) = Inr t"
proof -
  let ?P = "\<lambda>r. has_override r \<and> normalizeHost (RHost r) = normalizeHost host"
  obtain d where d: "New_transport w (no_options\<lparr>OCABundle := ca, OSkipTLSVerify := skip\<rparr>) = Inr d"
    using assms by (auto simp: buildTransport_def split: sum.splits)
  show ?thesis
  proof (cases "HasPerRegistryTLS (Some cfg)")
    case True
    then have "add_registries w (Registries cfg) \<lparr>PDefault = d, PHosts = []\<rparr> = Inr p"
      using assms d by (simp add: buildTransport_def buildPerRegistryTransport_def NewPerRegistry_def)
    from add_registries_hosts [OF this, of "normalizeHost host"]
    show ?thesis using d by (auto simp: RoundTrip_via_def split: option.splits)
  next
    case False
    then have "find ?P (rev (Registries cfg)) = None" by (auto simp: find_None_iff HasPerRegistryTLS_def list_ex_iff)
    moreover have "p = \<lparr>PDefault = d, PHosts = []\<rparr>" using False assms d by (simp add: buildTransport_def)
    ultimately show ?thesis using d by (simp add: RoundTrip_via_def)
  qed
qed

text \<open>A configuration that validates never fails for want of one half of a client certificate.\<close>

theorem validated_client_pairs:
  assumes "Validate_config cfg = None"
  shows "buildTransport w ca skip (Some cfg) \<noteq> Inl (AtRegistry host ClientHalf) \<and> list_all (\<lambda>r. RHost r \<noteq> []) (Registries cfg)"
proof -
  have half: "New_transport w opt \<noteq> Inl ClientHalf" if "(OClientCert opt = []) = (OClientKey opt = [])" for opt
    using that by (auto simp: New_transport_def loadCAPool_def loadClientCertificate_def proxyFunc_def Let_def split: option.splits sum.splits)
  have flat: "New_transport w opt \<noteq> Inl (AtRegistry host ClientHalf)" for opt
    by (auto simp: New_transport_def loadCAPool_def loadClientCertificate_def proxyFunc_def Let_def split: option.splits sum.splits)
  have "add_registries w rs p \<noteq> Inl (AtRegistry host ClientHalf) \<and> list_all (\<lambda>r. RHost r \<noteq> []) rs" if "validate_registries i rs = None" for rs i p
    using that
  proof (induction rs arbitrary: i p)
    case Nil
    then show ?case by simp
  next
    case (Cons r rs)
    have v: "validate_registries (Suc i) rs = None" "RHost r \<noteq> []" "(OClientCert (host_options r) = []) = (OClientKey (host_options r) = [])"
      using Cons.prems by (auto simp: host_options_def no_options_def Let_def split: option.splits if_splits)
    show ?case using Cons.IH [OF v(1)] v(2) half [OF v(3)] by (auto split: sum.splits)
  qed
  from this [of 0 "Registries cfg"] assms
  show ?thesis using flat [of "no_options\<lparr>OCABundle := ca, OSkipTLSVerify := skip\<rparr>"]
    by (auto simp: buildTransport_def buildPerRegistryTransport_def NewPerRegistry_def Validate_config_def split: sum.splits)
qed

section \<open>Witnesses and counterexamples\<close>

definition demo_world :: "(string, string) tls_world" where
  "demo_world = \<lparr>SystemPool = Some [''system''], ReadPEM = (\<lambda>p. Some [p]), LoadKeyPair = (\<lambda>c k. Some c), ParseURL = Some\<rparr>"

definition demo_registry :: "string \<Rightarrow> string \<Rightarrow> RegistryConfig" where
  "demo_registry host prox =
     \<lparr>RHost = host, RAuth = Some \<lparr>AuthType = ''artifactory-token'', ATokenEnv = ''T'', AAPIKeyEnv = [], AUsernameEnv = [], APasswordEnv = [],
        AOIDCTokenEnv = [], AAudience = []\<rparr>, RTLS = None, RInsecure = True, RProxy = prox\<rparr>"

definition demo_config :: Config where
  "demo_config = \<lparr>CVersion = 1, Registries = [demo_registry ''a'' ''direct'']\<rparr>"

definition demo_transport :: "(string, string) per_registry" where
  "demo_transport = (case buildTransport demo_world ''ca'' True (Some demo_config) of Inr p \<Rightarrow> p | Inl _ \<Rightarrow> undefined)"

lemma demo_built: "buildTransport demo_world ''ca'' True (Some demo_config) = Inr demo_transport"
  unfolding demo_transport_def
  by (simp add: demo_world_def demo_config_def demo_registry_def buildTransport_def New_transport_def loadCAPool_def loadClientCertificate_def
      proxyFunc_def no_options_def host_options_def HasPerRegistryTLS_def has_override_def buildPerRegistryTransport_def NewPerRegistry_def Let_def)

theorem transport_by_host_witness:
  "\<exists>t. RoundTrip_via demo_transport (Some ''b'') = Some t \<and>
    New_transport demo_world (case find (\<lambda>r. has_override r \<and> normalizeHost (RHost r) = normalizeHost ''b'') (rev (Registries demo_config)) of
        None \<Rightarrow> no_options\<lparr>OCABundle := ''ca'', OSkipTLSVerify := True\<rparr> | Some r \<Rightarrow> host_options r) = Inr t"
  by (rule transport_by_host [OF demo_built])


theorem validated_client_pairs_witness:
  "buildTransport demo_world [] False (Some demo_config) \<noteq> Inl (AtRegistry ''a'' ClientHalf) \<and> list_all (\<lambda>r. RHost r \<noteq> []) (Registries demo_config)"
  by (rule validated_client_pairs) code_simp

text \<open>The generic token replaces the password of a host, although the user stays that of the host.\<close>

lemma generic_token_wins:
  "resolveAuth [EnvProvider (\<lambda>k. if k = ''ASTINUS_REGISTRY_A_USERNAME'' then ''u'' else if k = ''ASTINUS_REGISTRY_A_PASSWORD'' then ''p''
      else if k = ''REGISTRY_TOKEN'' then ''t'' else [])] ''a'' = Inr (Basic ''u'' ''t'')"
  by code_simp

text \<open>Different hosts share the variables of the environment.\<close>

lemma env_keys_collide: "envHostKey ''my-corp.io'' = envHostKey ''my.corp-io''"
  by code_simp

text \<open>Plain HTTP for a registry changes nothing but drops the CA bundle and the skipped verification of the flags;
  a direct connection is taken as the URL of a proxy.\<close>

lemma host_settings_odd:
  "host_options (demo_registry ''a'' []) = no_options" "OProxy (host_options (demo_registry ''a'' ''direct'')) = ''direct''"
  "map_option TRootCAs (RoundTrip_via demo_transport (Some ''a'')) = Some [''system'']"
  "map_option TRootCAs (RoundTrip_via demo_transport (Some ''b'')) = Some [''system'', ''ca'']"
  by code_simp+

end
