(* ===== verification/ImageSource.thy ===== *)
theory ImageSource
  imports Access
begin

text \<open>
  Where an image comes from (\<open>internal/image/source\<close>): the parsing of references and the detection of files, layouts,
  daemons and registries, the choice of a manifest, and the pull.  The file system, the parser of references, the
  daemons and the registries are parameters; an environment is what \<open>os.Getenv\<close> answers.
\<close>

section \<open>Sources\<close>

datatype DaemonKind = DaemonDocker | DaemonPodman

datatype file_stat = NoSuchFile | StatFails | IsDirectory | IsRegular

record source_world =
  Stat :: "string \<Rightarrow> file_stat"
  ParseReference :: "bool \<Rightarrow> string \<Rightarrow> string option"
  DaemonImage :: "(string \<Rightarrow> string) \<Rightarrow> string \<Rightarrow> bool"

text \<open>A source carries its reference in the form \<open>ParseReference\<close> gives.\<close>

datatype image_source =
    RegistrySource string
  | ArchiveSource string string
  | LayoutSource string string
  | DaemonSource string DaemonKind

datatype source_error =
    EmptyReference | UnsupportedScheme string | NotFound string | StatFailure string | NoLayoutMarker string
  | NotAnImageDirectory string | InvalidReference string

definition parse_as :: "source_world \<Rightarrow> bool \<Rightarrow> string \<Rightarrow> (string \<Rightarrow> image_source) \<Rightarrow> source_error + image_source" where
  "parse_as w insecure ref mk = (case ParseReference w insecure ref of None \<Rightarrow> Inl (InvalidReference ref) | Some r \<Rightarrow> Inr (mk r))"

definition newRegistrySource :: "source_world \<Rightarrow> bool \<Rightarrow> string \<Rightarrow> source_error + image_source" where
  "newRegistrySource w insecure ref = parse_as w insecure ref RegistrySource"

definition newDaemonSource :: "source_world \<Rightarrow> string \<Rightarrow> DaemonKind \<Rightarrow> source_error + image_source" where
  "newDaemonSource w ref kind = parse_as w False ref (\<lambda>r. DaemonSource r kind)"

definition archiveReference :: "string \<Rightarrow> string \<Rightarrow> string" where
  "archiveReference path tag =
     (if tag \<noteq> [] then tag
      else let b = Base path; base = TrimSuffix b (Ext b) in ''archive/'' @ (if base = [] then ''image'' else base) @ '':latest'')"

definition newArchiveSource :: "source_world \<Rightarrow> string \<Rightarrow> string \<Rightarrow> source_error + image_source" where
  "newArchiveSource w path tag =
     (case Stat w path of
        NoSuchFile \<Rightarrow> Inl (NotFound path)
      | StatFails \<Rightarrow> Inl (StatFailure path)
      | _ \<Rightarrow> parse_as w False (archiveReference path tag) (ArchiveSource path))"

definition newLayoutSource :: "source_world \<Rightarrow> string \<Rightarrow> source_error + image_source" where
  "newLayoutSource w path =
     (case Stat w (JoinPath path ''index.json'') of
        NoSuchFile \<Rightarrow> Inl (NotFound path)
      | StatFails \<Rightarrow> Inl (StatFailure path)
      | _ \<Rightarrow>
          (if Stat w (JoinPath path ''oci-layout'') \<in> {NoSuchFile, StatFails} then Inl (NoLayoutMarker path)
           else parse_as w False (''oci-layout/'' @ Base path @ '':latest'') (LayoutSource path)))"

definition splitScheme :: "string \<Rightarrow> (string \<times> string) option" where
  "splitScheme ref =
     (case Index ref ''://'' of
        None \<Rightarrow> None
      | Some i \<Rightarrow>
          (if i = 0 then None
           else let scheme = take i ref in
             if list_ex (\<lambda>c. c \<noteq> CHR ''-'' \<and> (of_char c < (of_char (CHR ''a'') :: nat) \<or> (of_char (CHR ''z'') :: nat) < of_char c)) scheme then None
             else Some (scheme, drop (i + 3) ref)))"

definition fromExplicit :: "source_world \<Rightarrow> bool \<Rightarrow> string \<Rightarrow> string \<Rightarrow> source_error + image_source" where
  "fromExplicit w insecure scheme body =
     (if scheme = ''registry'' then newRegistrySource w insecure body
      else if scheme = ''archive'' then newArchiveSource w body []
      else if scheme = ''oci'' then newLayoutSource w body
      else if scheme = ''docker-daemon'' then newDaemonSource w body DaemonDocker
      else if scheme = ''podman-daemon'' then newDaemonSource w body DaemonPodman
      else Inl (UnsupportedScheme scheme))"

definition isOCILayout :: "source_world \<Rightarrow> string \<Rightarrow> bool" where
  "isOCILayout w dir \<longleftrightarrow>
     Stat w (JoinPath dir ''index.json'') \<notin> {NoSuchFile, StatFails} \<and> Stat w (JoinPath dir ''oci-layout'') \<notin> {NoSuchFile, StatFails}"

definition autoDetectFile :: "source_world \<Rightarrow> string \<Rightarrow> (source_error + image_source) option" where
  "autoDetectFile w ref =
     (case Stat w ref of
        NoSuchFile \<Rightarrow> None
      | StatFails \<Rightarrow> Some (Inl (StatFailure ref))
      | IsDirectory \<Rightarrow> Some (if isOCILayout w ref then newLayoutSource w ref else Inl (NotAnImageDirectory ref))
      | IsRegular \<Rightarrow> Some (newArchiveSource w ref []))"

section \<open>Daemons\<close>

definition podmanSocketCandidates :: "(string \<Rightarrow> string) \<Rightarrow> string list" where
  "podmanSocketCandidates env =
     (if env ''XDG_RUNTIME_DIR'' \<noteq> [] then [env ''XDG_RUNTIME_DIR'' @ ''/podman/podman.sock''] else []) @
     [''/run/podman/podman.sock'', ''/var/run/podman/podman.sock'']"

definition stat_ok :: "source_world \<Rightarrow> string \<Rightarrow> bool" where
  "stat_ok w path \<longleftrightarrow> Stat w path \<notin> {NoSuchFile, StatFails}"

definition socketLooksUsable :: "source_world \<Rightarrow> string \<Rightarrow> bool" where
  "socketLooksUsable w host =
     (if HasPrefix host ''unix://'' then stat_ok w (TrimPrefix host ''unix://'') else HasPrefix host ''tcp://'')"

definition dockerSocketReachable :: "source_world \<Rightarrow> (string \<Rightarrow> string) \<Rightarrow> bool" where
  "dockerSocketReachable w env =
     (if env ''DOCKER_HOST'' \<noteq> [] then socketLooksUsable w (env ''DOCKER_HOST'') else stat_ok w ''/var/run/docker.sock'')"

definition podmanSocketReachable :: "source_world \<Rightarrow> (string \<Rightarrow> string) \<Rightarrow> bool" where
  "podmanSocketReachable w env =
     (if env ''DOCKER_HOST'' \<noteq> [] then socketLooksUsable w (env ''DOCKER_HOST'') else list_ex (stat_ok w) (podmanSocketCandidates env))"

fun daemonAvailable :: "source_world \<Rightarrow> (string \<Rightarrow> string) \<Rightarrow> DaemonKind \<Rightarrow> bool" where
  "daemonAvailable w env DaemonDocker = dockerSocketReachable w env"
| "daemonAvailable w env DaemonPodman = podmanSocketReachable w env"

text \<open>The environment for Podman, and the function that restores it.\<close>

definition ensurePodmanHost ::
  "source_world \<Rightarrow> (string \<Rightarrow> string) \<Rightarrow> (string \<Rightarrow> string) \<times> ((string \<Rightarrow> string) \<Rightarrow> string \<Rightarrow> string)"
where
  "ensurePodmanHost w env =
     (if env ''DOCKER_HOST'' \<noteq> [] then (env, \<lambda>e. e)
      else case List.find (stat_ok w) (podmanSocketCandidates env) of
          None \<Rightarrow> (env, \<lambda>e. e)
        | Some path \<Rightarrow>
            (let old = env ''DOCKER_HOST'' in
             (env(''DOCKER_HOST'' := ''unix://'' @ path), \<lambda>e. if old = [] then e(''DOCKER_HOST'' := []) else e(''DOCKER_HOST'' := old))))"

text \<open>A daemon is asked under the environment for its kind; the second result is the environment afterwards.\<close>

definition HasImage :: "source_world \<Rightarrow> (string \<Rightarrow> string) \<Rightarrow> string \<Rightarrow> DaemonKind \<Rightarrow> bool \<times> (string \<Rightarrow> string)" where
  "HasImage w env ref kind =
     (let (env1, restore) = (if kind = DaemonPodman then ensurePodmanHost w env else (env, \<lambda>e. e))
      in (DaemonImage w env1 ref, restore env1))"

fun probe_daemons ::
  "source_world \<Rightarrow> string \<Rightarrow> DaemonKind list \<Rightarrow> (string \<Rightarrow> string) \<Rightarrow> image_source option \<times> (string \<Rightarrow> string)"
where
  "probe_daemons w ref [] env = (None, env)"
| "probe_daemons w ref (kind # kinds) env =
     (if \<not> daemonAvailable w env kind then probe_daemons w ref kinds env
      else let (has, env1) = HasImage w env ref kind in
        if \<not> has then probe_daemons w ref kinds env1
        else case newDaemonSource w ref kind of
            Inl e \<Rightarrow> probe_daemons w ref kinds env1
          | Inr src \<Rightarrow> (Some src, env1))"

definition autoDetectDaemon :: "source_world \<Rightarrow> string \<Rightarrow> (string \<Rightarrow> string) \<Rightarrow> image_source option \<times> (string \<Rightarrow> string)" where
  "autoDetectDaemon w ref env = probe_daemons w ref [DaemonDocker, DaemonPodman] env"

definition autoDetect ::
  "source_world \<Rightarrow> bool \<Rightarrow> string \<Rightarrow> (string \<Rightarrow> string) \<Rightarrow> (source_error + image_source) \<times> (string \<Rightarrow> string)"
where
  "autoDetect w insecure ref env =
     (case autoDetectFile w ref of
        Some r \<Rightarrow> (r, env)
      | None \<Rightarrow>
          (case ParseReference w False ref of
             None \<Rightarrow> (Inl (InvalidReference ref), env)
           | Some parsed \<Rightarrow>
               (case autoDetectDaemon w parsed env of
                  (Some src, env1) \<Rightarrow> (Inr src, env1)
                | (None, env1) \<Rightarrow> (newRegistrySource w insecure ref, env1))))"

definition FromReference ::
  "source_world \<Rightarrow> bool \<Rightarrow> string \<Rightarrow> (string \<Rightarrow> string) \<Rightarrow> (source_error + image_source) \<times> (string \<Rightarrow> string)"
where
  "FromReference w insecure ref env =
     (if ref = [] then (Inl EmptyReference, env)
      else case splitScheme ref of
          Some (scheme, body) \<Rightarrow> (fromExplicit w insecure scheme body, env)
        | None \<Rightarrow> autoDetect w insecure ref env)"

definition refRequiresNetwork :: "source_world \<Rightarrow> string \<Rightarrow> bool" where
  "refRequiresNetwork w ref =
     (if ref = [] then False
      else if list_ex (HasPrefix ref) [''archive://'', ''oci://'', ''docker-daemon://'', ''podman-daemon://''] then False
      else \<not> stat_ok w ref)"

section \<open>Loading\<close>

record v1_descriptor =
  DDigest :: string
  DIsIndex :: bool
  DPlatform :: "(string \<times> string) option"

definition manifest_matches :: "string \<times> string \<Rightarrow> v1_descriptor \<Rightarrow> bool" where
  "manifest_matches want m =
     (case DPlatform m of None \<Rightarrow> False
      | Some p \<Rightarrow> \<not> (fst want \<noteq> [] \<and> fst want \<noteq> fst p) \<and> \<not> (snd want \<noteq> [] \<and> snd want \<noteq> snd p))"

fun first_manifest :: "string \<times> string \<Rightarrow> nat \<Rightarrow> v1_descriptor list \<Rightarrow> int" where
  "first_manifest want i [] = -1"
| "first_manifest want i (m # ms) = (if manifest_matches want m then int i else first_manifest want (Suc i) ms)"

definition pickManifest :: "(string \<Rightarrow> (string \<times> string) option) \<Rightarrow> v1_descriptor list \<Rightarrow> string \<Rightarrow> int" where
  "pickManifest parse mfs platform =
     (if platform = [] then 0 else case parse platform of None \<Rightarrow> 0 | Some want \<Rightarrow> first_manifest want 0 mfs)"

datatype layout_error = IndexUnreadable | NoManifests | NoManifestForPlatform | ChildUnreadable | ChildEmpty | NoChildForPlatform

definition loadFromChildIndex ::
  "(string \<Rightarrow> (string \<times> string) option) \<Rightarrow> (string \<Rightarrow> v1_descriptor list option) \<Rightarrow> string \<Rightarrow> string \<Rightarrow> layout_error + string"
where
  "loadFromChildIndex parse child platform digest =
     (case child digest of None \<Rightarrow> Inl ChildUnreadable
      | Some cm \<Rightarrow>
          (if cm = [] then Inl ChildEmpty
           else let i = pickManifest parse cm platform in
             if i < 0 then Inl NoChildForPlatform else Inr (DDigest (cm ! nat i))))"

text \<open>The digest of the manifest that is loaded.\<close>

definition loadImage ::
  "(string \<Rightarrow> (string \<times> string) option) \<Rightarrow> v1_descriptor list option \<Rightarrow> (string \<Rightarrow> v1_descriptor list option) \<Rightarrow> string \<Rightarrow> layout_error + string"
where
  "loadImage parse index child platform =
     (case index of None \<Rightarrow> Inl IndexUnreadable
      | Some ms \<Rightarrow>
          (if ms = [] then Inl NoManifests
           else let i = pickManifest parse ms platform in
             if i < 0 then Inl NoManifestForPlatform
             else if DIsIndex (ms ! nat i) then loadFromChildIndex parse child platform (DDigest (ms ! nat i))
             else Inr (DDigest (ms ! nat i))))"

datatype 'i remote_answer = RemoteImage 'i | RemoteStatus nat string | RemoteFailure string

datatype pull_error = BadPlatform string | PullAuth auth_error | PullNotFound string | PullStatus string nat string | PullFailure string string

definition mapRemoteError :: "string \<Rightarrow> nat \<Rightarrow> string \<Rightarrow> pull_error" where
  "mapRemoteError ref status msg = (if status = 404 then PullNotFound ref else PullStatus ref status (TrimSpace msg))"

text \<open>\<open>registry\<close> is the host of the reference; \<open>creds\<close> and \<open>platform\<close> are the options, \<open>remote\<close> the registry.\<close>

definition pull ::
  "(string \<Rightarrow> (string \<times> string) option) \<Rightarrow> ((string \<times> string) option \<Rightarrow> authenticator option \<Rightarrow> string \<Rightarrow> 'i remote_answer) \<Rightarrow>
   provider list option \<Rightarrow> string \<Rightarrow> string \<Rightarrow> string \<Rightarrow> pull_error + 'i"
where
  "pull parse remote creds platform registry ref =
     (let plat = (if platform = [] then Inr None else case parse platform of None \<Rightarrow> Inl (BadPlatform platform) | Some p \<Rightarrow> Inr (Some p));
          auth = (case creds of None \<Rightarrow> Inr None
            | Some chain \<Rightarrow> (case resolveAuth chain registry of Inl e \<Rightarrow> Inl (PullAuth e) | Inr a \<Rightarrow> Inr (Some a)))
      in case plat of Inl e \<Rightarrow> Inl e
         | Inr p \<Rightarrow>
             (case auth of Inl e \<Rightarrow> Inl e
              | Inr a \<Rightarrow>
                  (case remote p a ref of
                     RemoteImage i \<Rightarrow> Inr i
                   | RemoteStatus s m \<Rightarrow> Inl (mapRemoteError ref s m)
                   | RemoteFailure m \<Rightarrow> Inl (PullFailure ref m))))"

text \<open>An image is loaded once: what the first call found, error or image, later calls find as well.\<close>

definition Image_once :: "('e + 'i) \<Rightarrow> ('e + 'i) option \<Rightarrow> ('e + 'i) \<times> ('e + 'i) option" where
  "Image_once load loaded = (case loaded of Some r \<Rightarrow> (r, loaded) | None \<Rightarrow> (load, Some load))"

section \<open>Properties\<close>

lemma splitScheme_parts: "splitScheme ref = Some (scheme, body) \<Longrightarrow> ref = scheme @ ''://'' @ body"
proof -
  assume a: "splitScheme ref = Some (scheme, body)"
  then obtain i where i: "Index ref ''://'' = Some i" "scheme = take i ref" "body = drop (i + 3) ref"
    by (auto simp: splitScheme_def Let_def split: option.splits if_splits)
  from Index_Some_Contains [OF i(1)] show ?thesis using i(2,3) by auto
qed

lemma layout_not_registry: "newLayoutSource w p \<noteq> Inr (RegistrySource r)"
  by (auto simp: newLayoutSource_def parse_as_def split: file_stat.splits option.splits)

lemma archive_not_registry: "newArchiveSource w p t \<noteq> Inr (RegistrySource r)"
  by (auto simp: newArchiveSource_def parse_as_def split: file_stat.splits option.splits)

lemma daemon_not_registry: "newDaemonSource w p k \<noteq> Inr (RegistrySource r)"
  by (auto simp: newDaemonSource_def parse_as_def split: option.splits)

lemma explicit_registry: "fromExplicit w insecure scheme body = Inr (RegistrySource r) \<Longrightarrow> scheme = ''registry''"
  by (auto simp: fromExplicit_def layout_not_registry archive_not_registry daemon_not_registry split: if_splits)

lemma local_schemes:
  assumes "list_ex (HasPrefix ref) [''archive://'', ''oci://'', ''docker-daemon://'', ''podman-daemon://'']"
  shows "\<exists>scheme body. splitScheme ref = Some (scheme, body) \<and> scheme \<noteq> ''registry''"
proof -
  from assms obtain body where "ref = ''archive://'' @ body \<or> ref = ''oci://'' @ body \<or> ref = ''docker-daemon://'' @ body \<or> ref = ''podman-daemon://'' @ body"
    by (auto simp: HasPrefix_iff)
  then show ?thesis
    by (elim disjE) (simp_all add: splitScheme_def Let_def)
qed

lemma offline_local:
  assumes "\<not> refRequiresNetwork w ref" "\<not> HasPrefix ref ''registry://''" "fst (FromReference w insecure ref env) = Inr src"
  shows "src \<noteq> RegistrySource r"
proof
  assume src: "src = RegistrySource r"
  have ne: "ref \<noteq> []" using assms(3) by (auto simp: FromReference_def)
  show False
  proof (cases "splitScheme ref")
    case (Some sb)
    then obtain scheme body where sb: "splitScheme ref = Some (scheme, body)" by (cases sb) simp
    then have "fromExplicit w insecure scheme body = Inr (RegistrySource r)" using assms(3) src ne by (simp add: FromReference_def)
    then have "scheme = ''registry''" by (rule explicit_registry)
    then show False using splitScheme_parts [OF sb] assms(2) by (simp add: HasPrefix_iff)
  next
    case None
    then have "\<not> list_ex (HasPrefix ref) [''archive://'', ''oci://'', ''docker-daemon://'', ''podman-daemon://'']"
      using local_schemes [of ref] by auto
    then have "stat_ok w ref" using assms(1) ne by (simp add: refRequiresNetwork_def)
    moreover have "fst (autoDetect w insecure ref env) = Inr (RegistrySource r)" using assms(3) src ne None by (simp add: FromReference_def)
    ultimately show False
      by (auto simp: autoDetect_def autoDetectFile_def stat_ok_def layout_not_registry archive_not_registry split: file_stat.splits if_splits)
  qed
qed

text \<open>
  C10.  When networking is refused, an image the check lets through is read from a file, a layout or a daemon and
  never pulled from a registry, unless the reference names the registry scheme.
\<close>

theorem offline_image_is_local:
  assumes "\<not> refRequiresNetwork w ref" "\<not> HasPrefix ref ''registry://''" "fst (FromReference w insecure ref env) = Inr src"
  shows "src \<noteq> RegistrySource r"
  by (rule offline_local [OF assms])

text \<open>Asking the daemons leaves the environment of the process as it was.\<close>

theorem environment_restored: "snd (FromReference w insecure ref env) = env"
proof -
  have e: "(snd (ensurePodmanHost w env)) (fst (ensurePodmanHost w env)) = env" for env
    by (auto simp: ensurePodmanHost_def Let_def split: option.splits)
  have h: "snd (HasImage w env ref kind) = env" for env ref kind
    using e [of env] by (auto simp: HasImage_def Let_def split: prod.splits)
  have "snd (probe_daemons w ref kinds env) = env" for ref kinds env
  proof (induction kinds arbitrary: env)
    case Nil
    then show ?case by simp
  next
    case (Cons kind kinds)
    obtain has env1 where hi: "HasImage w env ref kind = (has, env1)" by fastforce
    then have "env1 = env" using h [of env ref kind] by simp
    then show ?case using Cons by (simp add: hi split: sum.split)
  qed
  then have d: "snd (autoDetectDaemon w parsed env) = env" for parsed by (simp add: autoDetectDaemon_def del: probe_daemons.simps)
  have "snd (autoDetect w insecure ref env) = env"
  proof (cases "ParseReference w False ref")
    case None
    then show ?thesis by (simp add: autoDetect_def split: option.split)
  next
    case (Some parsed)
    obtain found env1 where p: "autoDetectDaemon w parsed env = (found, env1)" by fastforce
    then have "env1 = env" using d [of parsed] by simp
    then show ?thesis using Some p by (simp add: autoDetect_def split: option.split)
  qed
  then show ?thesis by (simp add: FromReference_def split: option.split prod.split)
qed

text \<open>
  Of the manifests of an index the first is chosen that is for the platform, and the first of all when the
  platform is not given or cannot be parsed; the choice is always in range.
\<close>

theorem pickManifest_first:
  assumes "mfs \<noteq> []"
  shows "case pickManifest parse mfs platform of i \<Rightarrow>
     (let fits = (\<lambda>m. case (if platform = [] then None else parse platform) of None \<Rightarrow> True | Some want \<Rightarrow> manifest_matches want m) in
      if 0 \<le> i then nat i < length mfs \<and> fits (mfs ! nat i) \<and> list_all (\<lambda>m. \<not> fits m) (take (nat i) mfs)
      else i = -1 \<and> list_all (\<lambda>m. \<not> fits m) mfs)"
proof -
  have f: "if 0 \<le> first_manifest want k ms
      then \<exists>j < length ms. first_manifest want k ms = int (k + j) \<and> manifest_matches want (ms ! j) \<and> list_all (\<lambda>m. \<not> manifest_matches want m) (take j ms)
      else first_manifest want k ms = -1 \<and> list_all (\<lambda>m. \<not> manifest_matches want m) ms" for want k ms
  proof (induction ms arbitrary: k)
    case Nil
    then show ?case by simp
  next
    case (Cons m ms)
    show ?case
    proof (cases "manifest_matches want m")
      case True
      then show ?thesis by (auto intro: exI [of _ 0])
    next
      case False
      show ?thesis
      proof (cases "0 \<le> first_manifest want (Suc k) ms")
        case True
        then obtain j where "j < length ms" "first_manifest want (Suc k) ms = int (Suc k + j)" "manifest_matches want (ms ! j)"
          "list_all (\<lambda>m. \<not> manifest_matches want m) (take j ms)"
          using Cons [of "Suc k"] by auto
        then show ?thesis using False True by (auto intro!: exI [of _ "Suc j"])
      next
        case neg: False
        then show ?thesis using Cons [of "Suc k"] False by simp
      qed
    qed
  qed
  show ?thesis
  proof (cases "if platform = [] then None else parse platform")
    case None
    then have "pickManifest parse mfs platform = 0" by (auto simp: pickManifest_def split: if_splits)
    then show ?thesis using assms None by simp
  next
    case (Some want)
    then have "pickManifest parse mfs platform = first_manifest want 0 mfs" by (auto simp: pickManifest_def split: if_splits)
    then show ?thesis using f [of want 0 mfs] Some by (auto simp: Let_def split: if_splits)
  qed
qed

section \<open>Witnesses and counterexamples\<close>

definition demo_files :: source_world where
  "demo_files = \<lparr>Stat = (\<lambda>p. if p \<in> {''app.tar'', ''My.tar'', ''registry://x''} then IsRegular else NoSuchFile),
     ParseReference = (\<lambda>insecure r. if list_ex (\<lambda>c. c \<in> {CHR ''M''}) r then None else Some r), DaemonImage = (\<lambda>_ r. r = ''local'')\<rparr>"

theorem offline_image_is_local_witness: "ArchiveSource ''app.tar'' ''archive/app:latest'' \<noteq> RegistrySource ''r''"
  by (rule offline_image_is_local [of demo_files "''app.tar''" False "\<lambda>_. []"]) code_simp+

theorem pickManifest_first_witness:
  "case pickManifest (\<lambda>_. Some (''linux'', [])) [\<lparr>DDigest = ''d'', DIsIndex = False, DPlatform = None\<rparr>] ''linux'' of i \<Rightarrow>
     (let fits = (\<lambda>m. case (if ''linux'' = [] then None else Some (''linux'', [])) of None \<Rightarrow> True | Some want \<Rightarrow> manifest_matches want m) in
      if 0 \<le> i then nat i < length [\<lparr>DDigest = ''d'', DIsIndex = False, DPlatform = None\<rparr>] \<and>
          fits ([\<lparr>DDigest = ''d'', DIsIndex = False, DPlatform = None\<rparr>] ! nat i) \<and>
          list_all (\<lambda>m. \<not> fits m) (take (nat i) [\<lparr>DDigest = ''d'', DIsIndex = False, DPlatform = None\<rparr>])
      else i = -1 \<and> list_all (\<lambda>m. \<not> fits m) [\<lparr>DDigest = ''d'', DIsIndex = False, DPlatform = None\<rparr>])"
  by (rule pickManifest_first) simp

text \<open>
  A file named like the scheme lets a pull through; an image of a local daemon is held for a pull; an archive whose
  name is no part of a reference cannot be opened.
\<close>

lemma offline_check_odd:
  "\<not> refRequiresNetwork demo_files ''registry://x'' \<and> fst (FromReference demo_files False ''registry://x'' (\<lambda>_. [])) = Inr (RegistrySource ''x'')"
  "refRequiresNetwork demo_files ''local'' \<and>
     fst (FromReference demo_files False ''local'' (\<lambda>k. if k = ''DOCKER_HOST'' then ''tcp://h'' else [])) = Inr (DaemonSource ''local'' DaemonDocker)"
  "fst (FromReference demo_files False ''archive://My.tar'' (\<lambda>_. [])) = Inl (InvalidReference ''archive/My:latest'')"
  by code_simp+

end
