(* ===== verification/Format.thy ===== *)
theory Format
  imports Cyclonedx Spdx
begin

text \<open>
  Reading an SBOM (\<open>internal/sbom/format.go\<close>, the readers of \<open>internal/sbom/cyclonedx\<close> and \<open>internal/sbom/spdx\<close>, and
  \<open>loadSBOM\<close> of \<open>internal/cli/enrich.go\<close>): the cap on the size, the detection of the format and the choice of the
  reader.  A JSON text is the list of tokens \<open>json.Decoder.Token\<close> gives before its first error, an XML text the
  list of its tokens; the tokenizers and the decoders of the third-party libraries are parameters.
\<close>

section \<open>Reading with a cap\<close>

definition FormatCycloneDXJSON :: string where "FormatCycloneDXJSON = ''cyclonedx-json''"
definition FormatCycloneDXXML :: string where "FormatCycloneDXXML = ''cyclonedx-xml''"
definition FormatSPDXJSON :: string where "FormatSPDXJSON = ''spdx-json''"
definition FormatSPDXTagValue :: string where "FormatSPDXTagValue = ''spdx-tag-value''"
definition FormatUnknown :: string where "FormatUnknown = ''unknown''"

lemmas format_names = FormatCycloneDXJSON_def FormatCycloneDXXML_def FormatSPDXJSON_def FormatSPDXTagValue_def FormatUnknown_def

definition MaxSBOMBytes :: nat where "MaxSBOMBytes = 256 * 1024 * 1024"
definition peekLimit :: nat where "peekLimit = 64 * 1024"

datatype load_error =
    EmptyPath | OpenFailed | ReadFailed | TooLarge | EmptyInput | UTF16 | Unrecognised | UnsupportedFormat | DecodeFailed | LoadPanics

text \<open>A reader gives its bytes and then ends, with an error if the flag is set.\<close>

type_synonym reader = "string \<times> bool"

definition ReadAllCapped :: "reader \<Rightarrow> load_error + string" where
  "ReadAllCapped r =
     (let body = take (MaxSBOMBytes + 1) (fst r) in
      if length body < MaxSBOMBytes + 1 \<and> snd r then Inl ReadFailed
      else if MaxSBOMBytes < length body then Inl TooLarge
      else Inr body)"

section \<open>Detection\<close>

datatype jtoken = JOpenObj | JOpenArr | JCloseObj | JCloseArr | JStr string | JPrim

definition is_delim :: "jtoken \<Rightarrow> bool" where
  "is_delim t \<longleftrightarrow> t \<in> {JOpenObj, JOpenArr, JCloseObj, JCloseArr}"

text \<open>\<open>json.Decoder.More\<close>.\<close>

fun More :: "jtoken list \<Rightarrow> bool" where
  "More [] = False"
| "More (t # ts) = (t \<notin> {JCloseObj, JCloseArr})"

text \<open>
  \<open>None\<close> is an error of the decoder.  The fuel bounds the number of calls; lemma \<open>skip_fuel\<close> shows that twice the
  number of tokens and two more are enough.
\<close>

fun skip_value :: "nat \<Rightarrow> jtoken list \<Rightarrow> jtoken list option"
and skip_loop :: "nat \<Rightarrow> bool \<Rightarrow> jtoken list \<Rightarrow> jtoken list option" where
  "skip_value 0 ts = None"
| "skip_value (Suc n) ts =
     (case ts of [] \<Rightarrow> None | t # r \<Rightarrow> if is_delim t then skip_loop n (t = JOpenObj) r else Some r)"
| "skip_loop 0 obj ts = None"
| "skip_loop (Suc n) obj ts =
     (if More ts
      then (case skip_value n (if obj then tl ts else ts) of None \<Rightarrow> None | Some r \<Rightarrow> skip_loop n obj r)
      else (case ts of [] \<Rightarrow> None | t # r \<Rightarrow> Some r))"

definition skipJSONValue :: "jtoken list \<Rightarrow> jtoken list option" where
  "skipJSONValue ts = skip_value (2 * length ts + 2) ts"

text \<open>\<open>Inl\<close> is the verdict that ends the walk, \<open>Inr\<close> the tokens after the value.\<close>

definition classifyTopLevelKey :: "string \<Rightarrow> jtoken list \<Rightarrow> string + jtoken list" where
  "classifyTopLevelKey key ts =
     (if key = ''bomFormat'' then
        (case ts of [] \<Rightarrow> Inl FormatUnknown
         | t # r \<Rightarrow> (case t of JStr v \<Rightarrow> if EqualFold v ''CycloneDX'' then Inl FormatCycloneDXJSON else Inr r | _ \<Rightarrow> Inr r))
      else if key = ''spdxVersion'' then
        (case ts of [] \<Rightarrow> Inl FormatUnknown
         | t # r \<Rightarrow> (case t of JStr v \<Rightarrow> if v \<noteq> [] then Inl FormatSPDXJSON else Inr r | _ \<Rightarrow> Inr r))
      else (case skipJSONValue ts of None \<Rightarrow> Inl FormatUnknown | Some r \<Rightarrow> Inr r))"

fun walk_keys :: "nat \<Rightarrow> jtoken list \<Rightarrow> string" where
  "walk_keys 0 ts = FormatUnknown"
| "walk_keys (Suc n) ts =
     (if More ts then
        (case ts of
           JStr key # r \<Rightarrow> (case classifyTopLevelKey key r of Inl f \<Rightarrow> f | Inr r' \<Rightarrow> walk_keys n r')
         | _ \<Rightarrow> FormatUnknown)
      else FormatUnknown)"

definition detectJSON :: "jtoken list \<Rightarrow> string" where
  "detectJSON ts = (case ts of t # r \<Rightarrow> if t = JOpenObj then walk_keys (Suc (length r)) r else FormatUnknown | [] \<Rightarrow> FormatUnknown)"

datatype xtoken = XStartElement string | XOther

fun detectXML :: "xtoken list \<Rightarrow> string" where
  "detectXML [] = FormatUnknown"
| "detectXML (XStartElement name # ts) = (if name = ''bom'' then FormatCycloneDXXML else FormatUnknown)"
| "detectXML (XOther # ts) = detectXML ts"

definition utf8BOM :: string where "utf8BOM = [CHR 0xEF, CHR 0xBB, CHR 0xBF]"
definition utf16LEBOM :: string where "utf16LEBOM = [CHR 0xFF, CHR 0xFE]"
definition utf16BEBOM :: string where "utf16BEBOM = [CHR 0xFE, CHR 0xFF]"

text \<open>The encodings of the white space of Unicode beyond ASCII.\<close>

definition wide_spaces :: "string list" where
  "wide_spaces = [[CHR 0xC2, CHR 0x85], [CHR 0xC2, CHR 0xA0], [CHR 0xE1, CHR 0x9A, CHR 0x80]] @
     map (\<lambda>n. [CHR 0xE2, CHR 0x80, char_of (n :: nat)]) ([128..<139] @ [168, 169, 175]) @
     [[CHR 0xE2, CHR 0x81, CHR 0x9F], [CHR 0xE3, CHR 0x80, CHR 0x80]]"

fun trim_left :: "nat \<Rightarrow> string \<Rightarrow> string" where
  "trim_left 0 s = s"
| "trim_left (Suc n) s =
     (case s of [] \<Rightarrow> []
      | c # r \<Rightarrow>
          if is_space c then trim_left n r
          else case List.find (HasPrefix s) wide_spaces of Some w \<Rightarrow> trim_left n (drop (length w) s) | None \<Rightarrow> s)"

definition TrimLeftSpace :: "string \<Rightarrow> string" where
  "TrimLeftSpace s = trim_left (length s) s"

definition DetectBytes :: "(string \<Rightarrow> jtoken list) \<Rightarrow> (string \<Rightarrow> xtoken list) \<Rightarrow> string \<Rightarrow> load_error + string" where
  "DetectBytes jtokens xtokens body =
     (if HasPrefix body utf16LEBOM \<or> HasPrefix body utf16BEBOM then Inl UTF16
      else
        let b = (if HasPrefix body utf8BOM then drop (length utf8BOM) body else body); trimmed = TrimLeftSpace b in
        if trimmed = [] then Inl EmptyInput
        else if hd trimmed = CHR 0x7B then Inr (detectJSON (jtokens (take peekLimit trimmed)))
        else if hd trimmed = CHR ''<'' then Inr (detectXML (xtokens trimmed))
        else if HasPrefix trimmed ''SPDXVersion:'' then Inr FormatSPDXTagValue
        else Inr FormatUnknown)"

definition Detect_format :: "(string \<Rightarrow> jtoken list) \<Rightarrow> (string \<Rightarrow> xtoken list) \<Rightarrow> reader \<Rightarrow> load_error + string \<times> string" where
  "Detect_format jtokens xtokens r =
     (case ReadAllCapped r of Inl e \<Rightarrow> Inl e
      | Inr body \<Rightarrow> (case DetectBytes jtokens xtokens body of Inl e \<Rightarrow> Inl e | Inr f \<Rightarrow> Inr (f, body)))"

section \<open>Readers\<close>

record codecs =
  JTokens :: "string \<Rightarrow> jtoken list"
  XTokens :: "string \<Rightarrow> xtoken list"
  DecodeCDX :: "bool \<Rightarrow> string \<Rightarrow> cdx_bom option"
  DecodeSPDX :: "bool \<Rightarrow> string \<Rightarrow> spdx_doc option"
  ParseTime :: "string \<Rightarrow> string \<Rightarrow> int option"
  MapOrder :: "props \<Rightarrow> props"

text \<open>The flag of the decoders is set for JSON.\<close>

definition read_cdx :: "codecs \<Rightarrow> reader \<Rightarrow> bool \<Rightarrow> string \<Rightarrow> load_error + SBOM" where
  "read_cdx k r json fmt =
     (case ReadAllCapped r of Inl e \<Rightarrow> Inl e
      | Inr body \<Rightarrow>
          (if body = [] then Inl EmptyInput
           else case DecodeCDX k json body of None \<Rightarrow> Inl DecodeFailed
             | Some bom \<Rightarrow> Inr (fromCDX (ParseTime k) (MapOrder k) bom body fmt)))"

definition ReadBytes_cdx :: "codecs \<Rightarrow> string \<Rightarrow> string \<Rightarrow> load_error + SBOM" where
  "ReadBytes_cdx k body fmt =
     (if body = [] then Inl EmptyInput
      else if fmt = FormatCycloneDXJSON then read_cdx k (body, False) True FormatCycloneDXJSON
      else if fmt = FormatCycloneDXXML then read_cdx k (body, False) False FormatCycloneDXXML
      else Inl UnsupportedFormat)"

definition ReadBytes_spdx :: "codecs \<Rightarrow> string \<Rightarrow> string \<Rightarrow> load_error + SBOM" where
  "ReadBytes_spdx k body fmt =
     (if body = [] then Inl EmptyInput
      else if fmt \<noteq> FormatSPDXJSON \<and> fmt \<noteq> FormatSPDXTagValue then Inl UnsupportedFormat
      else case DecodeSPDX k (fmt = FormatSPDXJSON) body of None \<Rightarrow> Inl DecodeFailed
        | Some doc \<Rightarrow> (case fromSPDX (ParseTime k) doc body fmt of None \<Rightarrow> Inl LoadPanics | Some s \<Rightarrow> Inr s))"

definition loadSBOM :: "codecs \<Rightarrow> (string \<Rightarrow> reader option) \<Rightarrow> reader \<Rightarrow> string \<Rightarrow> load_error + SBOM" where
  "loadSBOM k open_file stdin path =
     (let body = (if path = [] then Inl EmptyPath
          else if path = ''-'' then ReadAllCapped stdin
          else case open_file path of None \<Rightarrow> Inl OpenFailed | Some f \<Rightarrow> ReadAllCapped f)
      in case body of Inl e \<Rightarrow> Inl e
         | Inr b \<Rightarrow>
             (case DetectBytes (JTokens k) (XTokens k) b of Inl e \<Rightarrow> Inl e
              | Inr fmt \<Rightarrow>
                  (if fmt = FormatCycloneDXJSON \<or> fmt = FormatCycloneDXXML then ReadBytes_cdx k b fmt
                   else if fmt = FormatSPDXJSON \<or> fmt = FormatSPDXTagValue then ReadBytes_spdx k b fmt
                   else Inl Unrecognised)))"

section \<open>Skipping values\<close>

text \<open>A JSON value and its tokens.\<close>

datatype json = JObj "(string \<times> json) list" | JArr "json list" | JString string | JOther

fun tokens_of :: "json \<Rightarrow> jtoken list" where
  "tokens_of (JObj fs) = JOpenObj # concat (map (\<lambda>f. JStr (fst f) # tokens_of (snd f)) fs) @ [JCloseObj]"
| "tokens_of (JArr xs) = JOpenArr # concat (map tokens_of xs) @ [JCloseArr]"
| "tokens_of (JString s) = [JStr s]"
| "tokens_of JOther = [JPrim]"

lemma tokens_nonempty: "\<exists>t r. tokens_of j = t # r \<and> t \<notin> {JCloseObj, JCloseArr}"
  by (cases j) simp_all

lemma skip_mono:
  "skip_value n ts = Some r \<Longrightarrow> skip_value (n + k) ts = Some r"
  "skip_loop n obj ts = Some r \<Longrightarrow> skip_loop (n + k) obj ts = Some r"
proof (induction n ts and n obj ts arbitrary: r and r rule: skip_value_skip_loop.induct)
  case (2 n ts)
  then show ?case by (auto split: list.splits if_splits)
next
  case (4 n obj ts)
  then show ?case by (auto split: list.splits if_splits option.splits)
qed simp_all

lemma skip_append:
  "skip_value n us = Some r \<Longrightarrow> skip_value n (us @ vs) = Some (r @ vs)"
  "skip_loop n obj us = Some r \<Longrightarrow> skip_loop n obj (us @ vs) = Some (r @ vs)"
proof (induction n us and n obj us arbitrary: r and r rule: skip_value_skip_loop.induct)
  case (2 n ts)
  then show ?case by (auto split: list.splits if_splits)
next
  case (4 n obj ts)
  have "More (ts @ vs) = More ts \<and> tl (ts @ vs) = tl ts @ vs" if "ts \<noteq> []" using that by (cases ts) simp_all
  moreover have "ts \<noteq> []" using 4(3) by auto
  ultimately show ?case using 4 by (auto split: list.splits if_splits option.splits)
qed simp_all

lemma skip_shrinks:
  "skip_value n ts = Some r \<Longrightarrow> length r < length ts"
  "skip_loop n obj ts = Some r \<Longrightarrow> length r < length ts"
proof (induction n ts and n obj ts arbitrary: r and r rule: skip_value_skip_loop.induct)
  case (2 n ts)
  then show ?case by (auto split: list.splits if_splits) fastforce
next
  case (4 n obj ts)
  show ?case
  proof (cases "More ts")
    case True
    then obtain q where q: "skip_value n (if obj then tl ts else ts) = Some q" "skip_loop n obj q = Some r"
      using 4(3) by (auto split: option.splits)
    from 4(1) [OF True q(1)] 4(2) [OF True q(1) q(2)] show ?thesis by (auto split: if_splits)
  next
    case False
    then show ?thesis using 4(3) by (auto split: list.splits)
  qed
qed simp_all

text \<open>Fuel: with more than twice the number of tokens, more fuel changes nothing.\<close>

lemma skip_fuel:
  "2 * length ts < n \<Longrightarrow> skip_value (Suc n) ts = skip_value n ts"
  "2 * length ts + 1 < n \<Longrightarrow> skip_loop (Suc n) obj ts = skip_loop n obj ts"
proof (induction n ts and n obj ts rule: skip_value_skip_loop.induct)
  case (2 n ts)
  then show ?case by (cases ts) auto
next
  case (4 n obj ts)
  show ?case
  proof (cases "More ts")
    case True
    let ?v = "skip_value n (if obj then tl ts else ts)"
    have v: "skip_value (Suc n) (if obj then tl ts else ts) = ?v" using 4(1) [OF True] 4(3) by auto
    show ?thesis
    proof (cases ?v)
      case None
      then show ?thesis using True v by (simp del: skip_value.simps)
    next
      case (Some q)
      have "length q < length ts" using skip_shrinks(1) [OF Some] by (auto split: if_splits)
      then have "skip_loop (Suc n) obj q = skip_loop n obj q" using 4(2) [OF True Some] 4(3) by auto
      then show ?thesis using True v Some by (simp del: skip_value.simps skip_loop.simps add: skip_loop.simps(2))
    qed
  next
    case False
    then show ?thesis by simp
  qed
qed simp_all

lemma skip_enough: "2 * length ts < n \<Longrightarrow> skip_value n ts = skip_value (2 * length ts + 1) ts"
proof (induction n)
  case (Suc n)
  then show ?case
  proof (cases "2 * length ts < n")
    case True
    then show ?thesis using Suc.IH skip_fuel(1) by metis
  next
    case False
    then have "Suc n = 2 * length ts + 1" using Suc.prems by simp
    then show ?thesis by metis
  qed
qed simp

lemma skipJSONValue_iff: "skipJSONValue ts = Some r \<longleftrightarrow> (\<exists>n. skip_value n ts = Some r)"
proof
  assume "\<exists>n. skip_value n ts = Some r"
  then obtain n where "skip_value n ts = Some r" by blast
  from skip_mono(1) [OF this, of "2 * length ts + 1"] have "skip_value (n + (2 * length ts + 1)) ts = Some r" .
  then show "skipJSONValue ts = Some r"
    using skip_enough [of ts "n + (2 * length ts + 1)"] skip_enough [of ts "2 * length ts + 2"]
    unfolding skipJSONValue_def by (simp del: skip_value.simps)
qed (unfold skipJSONValue_def, blast)

lemma skip_elements:
  assumes "\<And>x. x \<in> set xs \<Longrightarrow> \<exists>n. skip_value n (f x) = Some []" "\<And>x. x \<in> set xs \<Longrightarrow> More (pre x @ f x)"
    "\<And>x. x \<in> set xs \<Longrightarrow> (if obj then tl (pre x @ f x) else pre x @ f x) = f x" "c \<in> {JCloseObj, JCloseArr}"
  shows "\<exists>n. skip_loop n obj (concat (map (\<lambda>x. pre x @ f x) xs) @ [c]) = Some []"
  using assms
proof (induction xs)
  case Nil
  then show ?case by (intro exI [of _ "Suc 0"]) auto
next
  case (Cons x xs)
  let ?rest = "concat (map (\<lambda>x. pre x @ f x) xs) @ [c]"
  obtain n m where n: "skip_value n (f x) = Some []" and m: "skip_loop m obj ?rest = Some []"
    using Cons by (metis list.set_intros)
  have "skip_value (n + m) (f x @ ?rest) = Some ?rest" using skip_mono(1) [OF skip_append(1) [OF n, of ?rest], of m] by simp
  moreover have "skip_loop (n + m) obj ?rest = Some []" using skip_mono(2) [OF m, of n] by (simp add: add.commute)
  moreover have "More ((pre x @ f x) @ ?rest)" using Cons.prems(2) [of x] by (cases "pre x @ f x") simp_all
  moreover have "(if obj then tl ((pre x @ f x) @ ?rest) else (pre x @ f x) @ ?rest) = f x @ ?rest"
    using Cons.prems(2,3) [of x] by (cases "pre x @ f x") (auto split: if_splits)
  ultimately have "skip_loop (Suc (n + m)) obj ((pre x @ f x) @ ?rest) = Some []"
    unfolding skip_loop.simps(2) by simp
  then show ?case by (intro exI [of _ "Suc (n + m)"]) simp
qed

lemma skip_tokens_ex: "\<exists>n. skip_value n (tokens_of j) = Some []"
proof (induction j rule: tokens_of.induct)
  case (1 fs)
  obtain n where "skip_loop n True (concat (map (\<lambda>f. [JStr (fst f)] @ tokens_of (snd f)) fs) @ [JCloseObj]) = Some []"
    using skip_elements [of fs "\<lambda>f. tokens_of (snd f)" "\<lambda>f. [JStr (fst f)]" True JCloseObj] 1 by auto
  then show ?case by (intro exI [of _ "Suc n"]) (simp add: is_delim_def)
next
  case (2 xs)
  have "More (tokens_of x)" for x using tokens_nonempty [of x] by auto
  then obtain n where "skip_loop n False (concat (map (\<lambda>x. [] @ tokens_of x) xs) @ [JCloseArr]) = Some []"
    using skip_elements [of xs tokens_of "\<lambda>_. []" False JCloseArr] 2 by auto
  then show ?case by (intro exI [of _ "Suc n"]) (simp add: is_delim_def)
next
  case (3 s)
  then show ?case by (intro exI [of _ 1]) (simp add: is_delim_def)
next
  case 4
  then show ?case by (intro exI [of _ 1]) (simp add: is_delim_def)
qed

lemma skip_tokens: "skipJSONValue (tokens_of j @ r) = Some r"
  using skip_tokens_ex [of j] skip_append(1) [of _ "tokens_of j" "[]" r] unfolding skipJSONValue_iff by auto

section \<open>Walking the keys\<close>

definition verdict_of_field :: "string \<times> json \<Rightarrow> string option" where
  "verdict_of_field f =
     (case f of
        (key, JString v) \<Rightarrow>
          if key = ''bomFormat'' \<and> EqualFold v ''CycloneDX'' then Some FormatCycloneDXJSON
          else if key = ''spdxVersion'' \<and> v \<noteq> [] then Some FormatSPDXJSON else None
      | _ \<Rightarrow> None)"

definition flat_marker :: "string \<times> json \<Rightarrow> bool" where
  "flat_marker f \<longleftrightarrow> \<not> (fst f \<in> {''bomFormat'', ''spdxVersion''} \<and> (case snd f of JObj _ \<Rightarrow> True | JArr _ \<Rightarrow> True | _ \<Rightarrow> False))"

lemma skip_leaf: "skipJSONValue (JStr v # r) = Some r" "skipJSONValue (JPrim # r) = Some r"
  using skip_tokens [of "JString v" r] skip_tokens [of JOther r] by simp_all

lemma classify_field:
  assumes "flat_marker f"
  shows "classifyTopLevelKey (fst f) (tokens_of (snd f) @ r) = (case verdict_of_field f of Some v \<Rightarrow> Inl v | None \<Rightarrow> Inr r)"
proof (cases f)
  case (Pair key v)
  then show ?thesis using assms by (cases v) (auto simp: classifyTopLevelKey_def verdict_of_field_def flat_marker_def skip_tokens skip_leaf simp del: tokens_of.simps(1,2))
qed

lemma walk_fields:
  assumes "list_all flat_marker fs" "length fs < n"
  shows "walk_keys n (concat (map (\<lambda>f. JStr (fst f) # tokens_of (snd f)) fs) @ [JCloseObj]) =
    (case List.map_filter verdict_of_field fs of [] \<Rightarrow> FormatUnknown | v # _ \<Rightarrow> v)"
  using assms
proof (induction fs arbitrary: n)
  case Nil
  then show ?case by (cases n) (simp_all add: map_filter_simps)
next
  case (Cons f fs)
  then obtain m where n: "n = Suc m" "length fs < m" by (cases n) auto
  have c: "classifyTopLevelKey (fst f) (tokens_of (snd f) @ concat (map (\<lambda>f. JStr (fst f) # tokens_of (snd f)) fs) @ [JCloseObj]) =
      (case verdict_of_field f of Some v \<Rightarrow> Inl v | None \<Rightarrow> Inr (concat (map (\<lambda>f. JStr (fst f) # tokens_of (snd f)) fs) @ [JCloseObj]))"
    using Cons.prems(1) by (intro classify_field) simp
  show ?case using Cons n by (simp add: c map_filter_simps split: option.split)
qed

lemma classify_append:
  assumes "classifyTopLevelKey key us \<noteq> Inl FormatUnknown"
  shows "classifyTopLevelKey key (us @ vs) = (case classifyTopLevelKey key us of Inl f \<Rightarrow> Inl f | Inr r \<Rightarrow> Inr (r @ vs))"
proof (cases "key \<in> {''bomFormat'', ''spdxVersion''}")
  case True
  then obtain t r where us: "us = t # r" using assms by (cases us) (auto simp: classifyTopLevelKey_def)
  show ?thesis using True by (elim insertE emptyE; cases t) (simp_all add: us classifyTopLevelKey_def)
next
  case False
  then obtain r where r: "skipJSONValue us = Some r" using assms by (cases "skipJSONValue us") (auto simp: classifyTopLevelKey_def)
  then have "skipJSONValue (us @ vs) = Some (r @ vs)" using skip_append(1) unfolding skipJSONValue_iff by blast
  then show ?thesis using False r by (simp add: classifyTopLevelKey_def)
qed

lemma walk_key: "walk_keys (Suc n) ts \<noteq> FormatUnknown \<Longrightarrow> \<exists>key r. ts = JStr key # r"
proof -
  assume a: "walk_keys (Suc n) ts \<noteq> FormatUnknown"
  then obtain t r where ts: "ts = t # r" by (cases ts) simp_all
  then show ?thesis using a by (cases t) simp_all
qed

lemma walk_mono: "walk_keys n us \<noteq> FormatUnknown \<Longrightarrow> walk_keys (n + k) us = walk_keys n us"
proof (induction n us rule: walk_keys.induct)
  case (2 n ts)
  obtain key r where ts: "ts = JStr key # r" using walk_key [OF 2(2)] by blast
  show ?case
  proof (cases "classifyTopLevelKey key r")
    case (Inr q)
    then show ?thesis using 2(1) [of "JStr key" r key q] 2(2) ts by simp
  qed (simp add: ts)
qed simp

lemma walk_append: "walk_keys n us \<noteq> FormatUnknown \<Longrightarrow> walk_keys n (us @ vs) = walk_keys n us"
proof (induction n us rule: walk_keys.induct)
  case (2 n ts)
  obtain key r where ts: "ts = JStr key # r" using walk_key [OF 2(2)] by blast
  show ?case
  proof (cases "classifyTopLevelKey key r")
    case (Inl f)
    then have "f \<noteq> FormatUnknown" using 2(2) ts by simp
    then have "classifyTopLevelKey key (r @ vs) = Inl f" using classify_append [of key r vs] Inl by simp
    then show ?thesis using Inl by (simp add: ts)
  next
    case (Inr q)
    then have "classifyTopLevelKey key (r @ vs) = Inr (q @ vs)" using classify_append [of key r vs] Inr by simp
    moreover have "walk_keys n q \<noteq> FormatUnknown" using 2(2) ts Inr by simp
    moreover have "walk_keys n (q @ vs) = walk_keys n q" using 2(1) [of "JStr key" r key q] ts Inr calculation by simp
    ultimately show ?thesis using Inr by (simp add: ts)
  qed
qed simp

section \<open>Properties\<close>


text \<open>Cutting the document at the peek limit can lose the verdict and never changes it.\<close>

theorem detectJSON_truncated: "detectJSON us = FormatUnknown \<or> detectJSON (us @ vs) = detectJSON us"
proof (cases us)
  case (Cons t r)
  show ?thesis
  proof (cases "t = JOpenObj \<and> walk_keys (Suc (length r)) r \<noteq> FormatUnknown")
    case True
    then have "walk_keys (Suc (length r)) (r @ vs) \<noteq> FormatUnknown" by (simp only: walk_append not_False_eq_True)
    from walk_mono [OF this, of "length vs"] True show ?thesis
      by (simp add: detectJSON_def Cons walk_append del: walk_keys.simps)
  next
    case False
    then show ?thesis by (auto simp: detectJSON_def Cons simp del: walk_keys.simps)
  qed
qed (simp add: detectJSON_def)

lemma loadSBOM_facts:
  assumes "loadSBOM k open_file stdin path = Inr s"
  shows "DetectBytes (JTokens k) (XTokens k) (SourceRaw s) = Inr (SourceFormat s) \<and> length (SourceRaw s) \<le> MaxSBOMBytes \<and>
    SourceFormat s \<in> {FormatCycloneDXJSON, FormatCycloneDXXML, FormatSPDXJSON, FormatSPDXTagValue} \<and>
    SourceRaw s \<in> {fst stdin} \<union> {fst f |f. open_file path = Some f}"
proof -
  have capped: "length b \<le> MaxSBOMBytes \<and> b = fst r" if "ReadAllCapped r = Inr b" for r b
    using that by (auto simp: ReadAllCapped_def Let_def split: if_splits)
  have fs: "fromSPDX t d raw f = Some s \<Longrightarrow> SourceRaw s = raw \<and> SourceFormat s = f" for t d raw f s
    by (auto simp: fromSPDX_def Let_def split: option.splits)
  have cdx: "SourceRaw s = b \<and> SourceFormat s = fmt" if "ReadBytes_cdx k b fmt = Inr s" for b fmt s
    using that capped [of "(b, False)"]
    by (auto simp: ReadBytes_cdx_def read_cdx_def fromCDX_def split: if_splits sum.splits option.splits)
  have spdx: "SourceRaw s = b \<and> SourceFormat s = fmt" if "ReadBytes_spdx k b fmt = Inr s" for b fmt s
    using that fs by (auto simp: ReadBytes_spdx_def split: if_splits option.splits)
  obtain b fmt where b: "length b \<le> MaxSBOMBytes" "b \<in> {fst stdin} \<union> {fst f |f. open_file path = Some f}" "DetectBytes (JTokens k) (XTokens k) b = Inr fmt"
    "(if fmt = FormatCycloneDXJSON \<or> fmt = FormatCycloneDXXML then ReadBytes_cdx k b fmt
      else if fmt = FormatSPDXJSON \<or> fmt = FormatSPDXTagValue then ReadBytes_spdx k b fmt else Inl Unrecognised) = Inr s"
    using assms by (auto simp: loadSBOM_def Let_def dest!: capped split: if_splits sum.splits option.splits)
  then have "SourceRaw s = b \<and> SourceFormat s = fmt" using cdx spdx by (auto split: if_splits)
  then show ?thesis using b by (auto split: if_splits)
qed

text \<open>
  An SBOM that loads has the bytes it was read from, no more than the cap of them, and the format detected for
  them, which is one of the four known ones.
\<close>

theorem loadSBOM_source:
  assumes "loadSBOM k open_file stdin path = Inr s"
  shows "DetectBytes (JTokens k) (XTokens k) (SourceRaw s) = Inr (SourceFormat s) \<and> length (SourceRaw s) \<le> MaxSBOMBytes \<and>
    SourceFormat s \<in> {FormatCycloneDXJSON, FormatCycloneDXXML, FormatSPDXJSON, FormatSPDXTagValue} \<and>
    SourceRaw s \<in> {fst stdin} \<union> {fst f |f. open_file path = Some f}"
  by (rule loadSBOM_facts [OF assms])

section \<open>Witnesses and counterexamples\<close>


definition demo_codecs :: codecs where
  "demo_codecs = \<lparr>JTokens = (\<lambda>_. [JOpenObj, JStr ''bomFormat'', JStr ''CycloneDX'']), XTokens = (\<lambda>_. []),
     DecodeCDX = (\<lambda>_ b. if HasPrefix b [CHR 0x7B] then Some \<lparr>SpecVersion = [], BProps = [], BMetadata = None, BComponents = [], BDependencies = []\<rparr> else None),
     DecodeSPDX = (\<lambda>_ _. None), ParseTime = (\<lambda>_ _. None), MapOrder = (\<lambda>m. m)\<rparr>"

definition demo_loaded :: SBOM where
  "demo_loaded = (case loadSBOM demo_codecs (\<lambda>_. None) ([CHR 0x7B], False) ''-'' of Inr s \<Rightarrow> s | Inl _ \<Rightarrow> undefined)"

lemma ReadAllCapped_small: "length s \<le> MaxSBOMBytes \<Longrightarrow> ReadAllCapped (s, e) = (if e then Inl ReadFailed else Inr s)"
  by (simp add: ReadAllCapped_def)

lemma demo_detect: "length s \<le> 4 \<Longrightarrow> loadSBOM demo_codecs (\<lambda>_. None) (s, False) ''-'' =
    (case DetectBytes (JTokens demo_codecs) (XTokens demo_codecs) s of Inl e \<Rightarrow> Inl e
     | Inr fmt \<Rightarrow>
         (if fmt = FormatCycloneDXJSON \<or> fmt = FormatCycloneDXXML then
            (if s = [] then Inl EmptyInput
             else if fmt = FormatCycloneDXJSON \<or> fmt = FormatCycloneDXXML then
               (case DecodeCDX demo_codecs (fmt = FormatCycloneDXJSON) s of None \<Rightarrow> Inl DecodeFailed
                | Some bom \<Rightarrow> Inr (fromCDX (ParseTime demo_codecs) (MapOrder demo_codecs) bom s fmt))
             else Inl UnsupportedFormat)
          else if fmt = FormatSPDXJSON \<or> fmt = FormatSPDXTagValue then ReadBytes_spdx demo_codecs s fmt
          else Inl Unrecognised))"
  by (auto simp: loadSBOM_def ReadBytes_cdx_def read_cdx_def ReadAllCapped_small MaxSBOMBytes_def format_names split: sum.split)

lemma demo_loads: "loadSBOM demo_codecs (\<lambda>_. None) ([CHR 0x7B], False) ''-'' = Inr demo_loaded"
proof -
  have "case loadSBOM demo_codecs (\<lambda>_. None) ([CHR 0x7B], False) ''-'' of Inl e \<Rightarrow> False | Inr s \<Rightarrow> True"
    by (subst demo_detect) (simp, code_simp)
  then show ?thesis unfolding demo_loaded_def by (cases "loadSBOM demo_codecs (\<lambda>_. None) ([CHR 0x7B], False) ''-''") simp_all
qed

theorem loadSBOM_source_witness:
  "DetectBytes (JTokens demo_codecs) (XTokens demo_codecs) (SourceRaw demo_loaded) = Inr (SourceFormat demo_loaded) \<and>
    length (SourceRaw demo_loaded) \<le> MaxSBOMBytes \<and>
    SourceFormat demo_loaded \<in> {FormatCycloneDXJSON, FormatCycloneDXXML, FormatSPDXJSON, FormatSPDXTagValue} \<and>
    SourceRaw demo_loaded \<in> {fst ([CHR 0x7B], False)} \<union> {fst f |f. (\<lambda>_. None :: reader option) ''-'' = Some f}"
  by (rule loadSBOM_source [OF demo_loads])

text \<open>
  A marker key that holds an object has the keys of that object read as if they were top-level ones; the byte order
  mark that detection skips is still there for the decoder.
\<close>

lemma nested_key_detected: "detectJSON (tokens_of (JObj [(''bomFormat'', JObj [(''spdxVersion'', JString ''x'')])])) = FormatSPDXJSON"
  by code_simp

lemma bom_reaches_decoder:
  "DetectBytes (JTokens demo_codecs) (XTokens demo_codecs) (utf8BOM @ [CHR 0x7B]) = Inr FormatCycloneDXJSON"
  "loadSBOM demo_codecs (\<lambda>_. None) (utf8BOM @ [CHR 0x7B], False) ''-'' = Inl DecodeFailed"
proof -
  show d: "DetectBytes (JTokens demo_codecs) (XTokens demo_codecs) (utf8BOM @ [CHR 0x7B]) = Inr FormatCycloneDXJSON" by code_simp
  show "loadSBOM demo_codecs (\<lambda>_. None) (utf8BOM @ [CHR 0x7B], False) ''-'' = Inl DecodeFailed"
    by (subst demo_detect) (simp add: utf8BOM_def, subst d, code_simp)
qed

end
