(* ===== verification/Render.thy ===== *)
theory Render
  imports Format CpeEnricher "HOL-Library.Product_Lexorder"
begin

text \<open>
  Rendering an SBOM (\<open>internal/output\<close>, the writers of \<open>internal/sbom/cyclonedx\<close> and \<open>internal/sbom/spdx\<close>): the
  registry of renderers, the SARIF document and the text of the summary.  The encoders of the third-party
  libraries, the encoder of JSON and the formatting of a percentage are parameters.
\<close>

section \<open>Helpers shared by the renderers\<close>

definition componentLabel :: "component_data \<Rightarrow> string" where
  "componentLabel c =
     (if Name c \<noteq> [] \<and> Version c \<noteq> [] then Name c @ ''@'' @ Version c
      else if Name c \<noteq> [] then Name c
      else if PURL c \<noteq> [] then PURL c
      else BOMRef c)"

definition first_location :: "component_data \<Rightarrow> string option" where
  "first_location c = (case CEvidence c of None \<Rightarrow> None | Some e \<Rightarrow> (case Locations e of [] \<Rightarrow> None | l # _ \<Rightarrow> Some (Path l)))"

definition isUntracked :: "component_data \<Rightarrow> bool" where
  "isUntracked c \<longleftrightarrow>
     (case CEvidence c of Some e \<Rightarrow> Method e = ''untracked-scan'' | None \<Rightarrow> False) \<or>
     (case mget (Properties c) ''astinus:untracked:category'' of Some cat \<Rightarrow> cat \<noteq> [] | None \<Rightarrow> False)"

text \<open>
  \<open>fmt.Sscanf\<close> with \<open>%f\<close> on decimal numbers; hexadecimal numbers, binary exponents and the infinities are not read.
\<close>

definition scan_exponent :: "string \<Rightarrow> int option" where
  "scan_exponent s =
     (if s = [] \<or> hd s \<notin> {CHR ''e'', CHR ''E''} then (if s \<noteq> [] \<and> hd s \<in> {CHR ''p'', CHR ''P''} then None else Some 0)
      else
        let t = tl s; neg = (t \<noteq> [] \<and> hd t = CHR ''-''); u = (if t \<noteq> [] \<and> hd t \<in> {CHR ''-'', CHR ''+''} then tl t else t);
            ds = takeWhile (\<lambda>c. is_digit c \<or> c = CHR ''_'') u
        in if ds = [] \<or> CHR ''_'' \<in> set ds then None else Some (if neg then - int (digits_val ds) else int (digits_val ds)))"

definition scale10 :: "rat \<Rightarrow> int \<Rightarrow> rat" where
  "scale10 x e = (if 0 \<le> e then x * 10 ^ nat e else x / 10 ^ nat (- e))"

definition Sscanf_f :: "string \<Rightarrow> rat option" where
  "Sscanf_f s =
     (let s0 = dropWhile (\<lambda>c. c \<in> {CHR '' '', CHR 0x09, CHR 0x0D}) s;
          neg = (s0 \<noteq> [] \<and> hd s0 = CHR ''-''); t = (if s0 \<noteq> [] \<and> hd s0 \<in> {CHR ''-'', CHR ''+''} then tl s0 else s0);
          body = (\<lambda>c. is_digit c \<or> c = CHR ''_'');
          d1 = takeWhile body t; r1 = dropWhile body t;
          d2 = (if r1 \<noteq> [] \<and> hd r1 = CHR ''.'' then takeWhile body (tl r1) else []);
          r2 = (if r1 \<noteq> [] \<and> hd r1 = CHR ''.'' then dropWhile body (tl r1) else r1)
      in if d1 @ d2 = [] \<or> CHR ''_'' \<in> set (d1 @ d2) \<or> d1 = ''0'' \<and> r1 \<noteq> [] \<and> hd r1 \<in> {CHR ''x'', CHR ''X''} then None
         else case scan_exponent r2 of None \<Rightarrow> None
           | Some e \<Rightarrow>
               (let v = scale10 (of_nat (digits_val (d1 @ d2)) / 10 ^ length d2) e in Some (if neg then - v else v)))"

definition parseConfidence :: "string \<Rightarrow> rat option" where
  "parseConfidence s = Sscanf_f s"

definition isLowConfidenceCPE :: "string \<Rightarrow> bool" where
  "isLowConfidenceCPE stamp =
     (if stamp = [] then False
      else if stamp = ''low'' then True
      else case parseConfidence stamp of None \<Rightarrow> False | Some v \<Rightarrow> v < 7 / 10)"

section \<open>SARIF\<close>

record sarif_rule =
  RuleIdent :: string
  RuleTitle :: string
  RuleText :: string
  RuleCategory :: string

datatype sarif_location = PhysicalLocation string | LogicalLocation string string

record sarif_result =
  ResultRule :: string
  Level :: string
  MessageText :: string
  ResultLocations :: "sarif_location list"

record sarif_document =
  Schema :: string
  SarifVersion :: string
  DriverVersion :: string
  Rules :: "sarif_rule list"
  Results :: "sarif_result list"

definition ruleUntracked :: string where "ruleUntracked = ''ASTINUS001''"
definition ruleOriginUnknown :: string where "ruleOriginUnknown = ''ASTINUS002''"
definition ruleMissingCPE :: string where "ruleMissingCPE = ''ASTINUS003''"
definition ruleLowConfidenceCPE :: string where "ruleLowConfidenceCPE = ''ASTINUS004''"

lemmas rule_names = ruleUntracked_def ruleOriginUnknown_def ruleMissingCPE_def ruleLowConfidenceCPE_def

definition sarif_rules :: "sarif_rule list" where
  "sarif_rules =
     [\<lparr>RuleIdent = ruleUntracked, RuleTitle = ''UntrackedComponent'',
        RuleText = ''Component discovered by Astinus that the input SBOM did not list.'', RuleCategory = ''untracked-scan''\<rparr>,
      \<lparr>RuleIdent = ruleOriginUnknown, RuleTitle = ''OriginUnknown'',
        RuleText = ''Component cannot be classified as base or application layer.'', RuleCategory = ''basediff''\<rparr>,
      \<lparr>RuleIdent = ruleMissingCPE, RuleTitle = ''MissingCPE'',
        RuleText = ''Component has a PURL but no CPE '' @ [CHR 0xE2, CHR 0x80, CHR 0x94] @ '' vulnerability scanners will likely miss it.'', RuleCategory = ''cpe''\<rparr>,
      \<lparr>RuleIdent = ruleLowConfidenceCPE, RuleTitle = ''LowConfidenceCPE'',
        RuleText = ''CPE was inferred heuristically; manual review recommended.'', RuleCategory = ''cpe''\<rparr>]"

definition cleanURI :: "string \<Rightarrow> string" where
  "cleanURI p = TrimPrefix p ''/''"

definition locationsFor :: "component_data \<Rightarrow> sarif_location list" where
  "locationsFor c =
     (case CEvidence c of
        Some e \<Rightarrow>
          if Locations e \<noteq> [] then map (\<lambda>l. PhysicalLocation (cleanURI (Path l))) (Locations e)
          else if BOMRef c \<noteq> [] then [LogicalLocation (BOMRef c) ''package''] else []
      | None \<Rightarrow> if BOMRef c \<noteq> [] then [LogicalLocation (BOMRef c) ''package''] else [])"

definition untrackedMessage :: "component_data \<Rightarrow> string" where
  "untrackedMessage c =
     (let v = mval (Properties c) ''astinus:untracked:category''; cat = (if v \<noteq> [] then v else ''component'');
          loc = (case first_location c of None \<Rightarrow> [] | Some p \<Rightarrow> p)
      in if loc \<noteq> [] then ''Untracked '' @ cat @ '' '' @ Quote (componentLabel c) @ '' found at '' @ loc @ ''.''
         else ''Untracked '' @ cat @ '' '' @ Quote (componentLabel c) @ ''.'')"

definition resultsForComponent :: "component_data \<Rightarrow> sarif_result list" where
  "resultsForComponent c =
     (if isUntracked c then
        [\<lparr>ResultRule = ruleUntracked, Level = ''warning'', MessageText = untrackedMessage c, ResultLocations = locationsFor c\<rparr>] else []) @
     (if COrigin c = OriginUnknown then
        [\<lparr>ResultRule = ruleOriginUnknown, Level = ''note'',
          MessageText = ''Component '' @ Quote (componentLabel c) @ '' has Origin=unknown.'', ResultLocations = locationsFor c\<rparr>] else []) @
     (if PURL c \<noteq> [] \<and> CPEs c = [] then
        [\<lparr>ResultRule = ruleMissingCPE, Level = ''note'',
          MessageText = ''Component '' @ Quote (componentLabel c) @ '' (PURL '' @ Quote (PURL c) @ '') has no CPE.'', ResultLocations = locationsFor c\<rparr>] else []) @
     (if isLowConfidenceCPE (mval (Properties c) ''astinus:cpe:confidence'') then
        [\<lparr>ResultRule = ruleLowConfidenceCPE, Level = ''note'',
          MessageText = ''Component '' @ Quote (componentLabel c) @ '' has a low-confidence CPE (heuristic).'', ResultLocations = locationsFor c\<rparr>] else [])"

definition collectResults :: "component list \<Rightarrow> sarif_result list" where
  "collectResults cs = concat (map resultsForComponent (all_components cs))"

definition buildSARIFDocument :: "string \<Rightarrow> SBOM \<Rightarrow> sarif_document" where
  "buildSARIFDocument version sbom =
     \<lparr>Schema = ''https://schemastore.azurewebsites.net/schemas/json/sarif-2.1.0.json'', SarifVersion = ''2.1.0'', DriverVersion = version,
      Rules = sarif_rules, Results = sort_key (\<lambda>r. (ResultRule r, MessageText r)) (collectResults (Components sbom))\<rparr>"

section \<open>Summary\<close>

record summary_stats =
  ImageRef :: string
  SDigest :: string
  TotalComponents :: nat
  FromBase :: nat
  Application :: nat
  UnknownOrigin :: nat
  Untracked :: "component_data list"
  UntrackedAdded :: nat
  WithCPE :: nat
  CPEAdded :: nat
  CPEAmbiguous :: nat

definition truncate_to :: "string \<Rightarrow> nat \<Rightarrow> string" where
  "truncate_to s n = (if length s \<le> n then s else take n s)"

definition imageRef :: "component_data option \<Rightarrow> string" where
  "imageRef c = (case c of None \<Rightarrow> [] | Some d \<Rightarrow> if Version d \<noteq> [] then Name d @ '':'' @ Version d else Name d)"

definition first_sha256 :: "Hash list \<Rightarrow> string option" where
  "first_sha256 hs = map_option HashValue (find (\<lambda>h. Algorithm h = ''sha256'') hs)"

definition sha256Digest :: "Hash list \<Rightarrow> string" where
  "sha256Digest hs = (case first_sha256 hs of None \<Rightarrow> [] | Some v \<Rightarrow> ''sha256:'' @ truncate_to v 12)"

definition tally :: "summary_stats \<Rightarrow> component_data \<Rightarrow> summary_stats" where
  "tally s c =
     (let src = mval (Properties c) ''astinus:cpe:source'' in
      s\<lparr>TotalComponents := TotalComponents s + 1,
        FromBase := FromBase s + (if COrigin c = OriginBaseImage then 1 else 0),
        Application := Application s + (if COrigin c = OriginApplication then 1 else 0),
        UnknownOrigin := UnknownOrigin s + (if COrigin c = OriginUnknown then 1 else 0),
        Untracked := Untracked s @ (if isUntracked c then [c] else []),
        UntrackedAdded := UntrackedAdded s + (if isUntracked c then 1 else 0),
        WithCPE := WithCPE s + (if CPEs c \<noteq> [] then 1 else 0),
        CPEAdded := CPEAdded s + (if src \<noteq> [] \<and> src \<noteq> ''input'' then 1 else 0),
        CPEAmbiguous := CPEAmbiguous s + (if isLowConfidenceCPE (mval (Properties c) ''astinus:cpe:confidence'') then 1 else 0)\<rparr>)"

definition untrackedSortKey :: "component_data \<Rightarrow> string" where
  "untrackedSortKey c = (case first_location c of Some p \<Rightarrow> p | None \<Rightarrow> Name c)"

definition computeStats :: "SBOM \<Rightarrow> summary_stats" where
  "computeStats sbom =
     (let mc = map_option cdata (MComponent (SMetadata sbom));
          s0 = \<lparr>ImageRef = imageRef mc, SDigest = (case mc of None \<Rightarrow> [] | Some d \<Rightarrow> sha256Digest (Hashes d)), TotalComponents = 0, FromBase = 0,
             Application = 0, UnknownOrigin = 0, Untracked = [], UntrackedAdded = 0, WithCPE = 0, CPEAdded = 0, CPEAmbiguous = 0\<rparr>;
          s = foldl tally s0 (all_components (Components sbom))
      in s\<lparr>Untracked := sort_key untrackedSortKey (Untracked s)\<rparr>)"

definition line :: "string \<Rightarrow> string" where
  "line s = s @ [CHR 0x0A]"

definition writeHeader :: "SBOM \<Rightarrow> string" where
  "writeHeader sbom =
     (case MComponent (SMetadata sbom) of
        Some c \<Rightarrow> line (''Image:  '' @ componentLabel (cdata c)) @
          (case first_sha256 (Hashes (cdata c)) of None \<Rightarrow> [] | Some v \<Rightarrow> line (''Digest: sha256:'' @ v))
      | None \<Rightarrow> line ''Image:  (not declared in SBOM metadata)'') @ line []"

definition writeComponentSummary :: "summary_stats \<Rightarrow> string" where
  "writeComponentSummary s =
     line ''Component summary:'' @ line (''  Total:           '' @ nat_digits (TotalComponents s)) @
     (if FromBase s + Application s + UnknownOrigin s > 0 then
        line (''  From base:       '' @ nat_digits (FromBase s)) @ line (''  Application:     '' @ nat_digits (Application s)) @
        (if UnknownOrigin s > 0 then line (''  Unknown origin:  '' @ nat_digits (UnknownOrigin s)) else []) else []) @
     (if UntrackedAdded s > 0 then line (''  Untracked added: '' @ nat_digits (UntrackedAdded s)) else []) @ line []"

definition untracked_line :: "component_data \<Rightarrow> string" where
  "untracked_line c =
     (let marker = (case CEvidence c of Some e \<Rightarrow> if Method e = ''fingerprint'' then ''!'' else ''?'' | None \<Rightarrow> ''?'');
          path = (case first_location c of None \<Rightarrow> [] | Some p \<Rightarrow> p);
          hash = (case first_sha256 (Hashes c) of None \<Rightarrow> [] | Some v \<Rightarrow> '', sha256:'' @ truncate_to v 12)
      in line (if path \<noteq> [] \<and> Version c \<noteq> [] then ''  '' @ marker @ '' '' @ path @ '' ('' @ Version c @ hash @ '')''
               else if path \<noteq> [] then ''  '' @ marker @ '' '' @ path @ '' ('' @ Name c @ hash @ '')''
               else ''  '' @ marker @ '' '' @ componentLabel c @ hash))"

definition writeUntrackedFindings :: "summary_stats \<Rightarrow> string" where
  "writeUntrackedFindings s =
     (if Untracked s = [] then [] else line ''Untracked findings:'' @ concat (map untracked_line (Untracked s)) @ line [])"

text \<open>\<open>pct with total\<close> is the percentage with one decimal.\<close>

definition writeCPESummary :: "(nat \<Rightarrow> nat \<Rightarrow> string) \<Rightarrow> summary_stats \<Rightarrow> string" where
  "writeCPESummary pct s =
     (if TotalComponents s = 0 then []
      else line ''CPE enrichment:'' @
        line (''  Components with CPE: '' @ nat_digits (WithCPE s) @ ''/'' @ nat_digits (TotalComponents s) @ '' ('' @ pct (WithCPE s) (TotalComponents s) @ ''%)'') @
        (if CPEAdded s > 0 then line (''  Newly added:         '' @ nat_digits (CPEAdded s)) else []) @
        (if CPEAmbiguous s > 0 then line (''  Low-confidence:      '' @ nat_digits (CPEAmbiguous s) @ '' (manual review recommended)'') else []))"

definition summary_text :: "(nat \<Rightarrow> nat \<Rightarrow> string) \<Rightarrow> SBOM \<Rightarrow> string" where
  "summary_text pct sbom =
     (let s = computeStats sbom
      in writeHeader sbom @ writeComponentSummary s @ writeUntrackedFindings s @ writeCPESummary pct s)"

section \<open>The registry of renderers\<close>

datatype renderer = CdxJSONRenderer bool | CdxXMLRenderer bool | SpdxJSONRenderer bool | SpdxTagValueRenderer | SarifRenderer bool | SummaryRenderer

type_synonym factory = "bool \<Rightarrow> renderer"

definition FormatSARIF :: string where "FormatSARIF = ''sarif''"
definition FormatSummary :: string where "FormatSummary = ''summary''"
definition FormatSame :: string where "FormatSame = ''same''"

text \<open>\<open>None\<close> is the panic on a second registration.\<close>

definition RegisterFormat :: "string \<Rightarrow> factory \<Rightarrow> factory gomap \<Rightarrow> factory gomap option" where
  "RegisterFormat name f reg = (if mget reg name \<noteq> None then None else Some (reg @ [(name, f)]))"

definition register_all :: "(string \<times> factory) list \<Rightarrow> factory gomap option" where
  "register_all fs = foldl (\<lambda>reg nf. case reg of None \<Rightarrow> None | Some r \<Rightarrow> RegisterFormat (fst nf) (snd nf) r) (Some []) fs"

text \<open>The registrations of the files of the package, in the order of their names.\<close>

definition builtin_formats :: "(string \<times> factory) list" where
  "builtin_formats =
     [(FormatCycloneDXJSON, CdxJSONRenderer), (FormatCycloneDXXML, CdxXMLRenderer), (FormatSummary, \<lambda>_. SummaryRenderer),
      (FormatSARIF, SarifRenderer), (FormatSPDXJSON, SpdxJSONRenderer), (FormatSPDXTagValue, \<lambda>_. SpdxTagValueRenderer)]"

definition Known :: "factory gomap \<Rightarrow> string list" where
  "Known reg = sort (map fst reg)"

definition Get_renderer :: "factory gomap \<Rightarrow> string \<Rightarrow> bool \<Rightarrow> string list + renderer" where
  "Get_renderer reg name pretty = (case mget reg name of None \<Rightarrow> Inl (Known reg) | Some f \<Rightarrow> Inr (f pretty))"

definition ResolveSame :: "string \<Rightarrow> string" where
  "ResolveSame f =
     (if f = FormatCycloneDXJSON then FormatCycloneDXJSON else if f = FormatCycloneDXXML then FormatCycloneDXXML
      else if f = FormatSPDXJSON then FormatSPDXJSON else if f = FormatSPDXTagValue then FormatSPDXTagValue
      else FormatCycloneDXJSON)"

fun MIMEType :: "renderer \<Rightarrow> string" where
  "MIMEType (CdxJSONRenderer p) = ''application/vnd.cyclonedx+json''"
| "MIMEType (CdxXMLRenderer p) = ''application/vnd.cyclonedx+xml''"
| "MIMEType (SpdxJSONRenderer p) = ''application/spdx+json''"
| "MIMEType SpdxTagValueRenderer = ''text/spdx''"
| "MIMEType (SarifRenderer p) = ''application/sarif+json''"
| "MIMEType SummaryRenderer = ''text/plain''"

text \<open>
  The encoders give the bytes, or nothing when they fail; the first flag of \<open>EncodeCDX\<close> and \<open>EncodeSPDX\<close> is set for JSON,
  the second for indentation.
\<close>

record encoders =
  EncodeCDX :: "bool \<Rightarrow> bool \<Rightarrow> cdx_bom \<Rightarrow> string option"
  EncodeSPDX :: "bool \<Rightarrow> bool \<Rightarrow> spdx_doc \<Rightarrow> string option"
  EncodeSARIF :: "bool \<Rightarrow> sarif_document \<Rightarrow> string option"
  FormatTime :: "int \<Rightarrow> string"
  Float32 :: "rat \<Rightarrow> rat"
  ToolVersionText :: string
  Now :: string
  Percent :: "nat \<Rightarrow> nat \<Rightarrow> string"

definition write_cdx :: "encoders \<Rightarrow> bool \<Rightarrow> bool \<Rightarrow> string \<Rightarrow> SBOM \<Rightarrow> string option" where
  "write_cdx k json pretty specVersion sbom =
     (let bom = toCDX (FormatTime k) (Float32 k) sbom
      in EncodeCDX k json pretty (bom\<lparr>SpecVersion := (if specVersion = [] then SpecVersionPrimary else specVersion)\<rparr>))"

definition write_spdx :: "encoders \<Rightarrow> bool \<Rightarrow> bool \<Rightarrow> SBOM \<Rightarrow> string option" where
  "write_spdx k json pretty sbom = EncodeSPDX k json pretty (toSPDX (ToolVersionText k) (Now k) sbom)"

fun Render_with :: "encoders \<Rightarrow> renderer \<Rightarrow> SBOM \<Rightarrow> string option" where
  "Render_with k (CdxJSONRenderer pretty) sbom = write_cdx k True pretty [] sbom"
| "Render_with k (CdxXMLRenderer pretty) sbom = write_cdx k False pretty [] sbom"
| "Render_with k (SpdxJSONRenderer pretty) sbom = write_spdx k True pretty sbom"
| "Render_with k SpdxTagValueRenderer sbom = write_spdx k False False sbom"
| "Render_with k (SarifRenderer pretty) sbom = EncodeSARIF k pretty (buildSARIFDocument (ToolVersionText k) sbom)"
| "Render_with k SummaryRenderer sbom = Some (summary_text (Percent k) sbom)"

text \<open>No renderer takes a nil SBOM.\<close>

definition Render_sbom :: "encoders \<Rightarrow> renderer \<Rightarrow> SBOM option \<Rightarrow> string option" where
  "Render_sbom k r sbom = (case sbom of None \<Rightarrow> None | Some s \<Rightarrow> Render_with k r s)"

datatype sink = Stdout | OutFile string

definition Open_output :: "(string \<Rightarrow> bool) \<Rightarrow> string \<Rightarrow> sink option" where
  "Open_output writable path =
     (if path = [] then None else if path = ''-'' then Some Stdout else if writable path then Some (OutFile path) else None)"

section \<open>Lemmas\<close>

lemma results_rules: "r \<in> set (resultsForComponent c) \<Longrightarrow> ResultRule r \<in> set (map RuleIdent sarif_rules)"
  by (auto simp: resultsForComponent_def sarif_rules_def split: if_splits)

definition count_of :: "string \<Rightarrow> sarif_result list \<Rightarrow> nat" where
  "count_of rule rs = length (filter (\<lambda>r. ResultRule r = rule) rs)"

lemma count_sort [simp]: "count_of rule (sort_key f rs) = count_of rule rs"
proof -
  have "count_of rule xs = size (filter_mset (\<lambda>r. ResultRule r = rule) (mset xs))" for xs
    by (simp add: count_of_def flip: mset_filter)
  then show ?thesis by simp
qed

lemma count_component:
  "count_of ruleUntracked (resultsForComponent c) = (if isUntracked c then 1 else 0)"
  "count_of ruleOriginUnknown (resultsForComponent c) = (if COrigin c = OriginUnknown then 1 else 0)"
  "count_of ruleMissingCPE (resultsForComponent c) = (if PURL c \<noteq> [] \<and> CPEs c = [] then 1 else 0)"
  "count_of ruleLowConfidenceCPE (resultsForComponent c) = (if isLowConfidenceCPE (mval (Properties c) ''astinus:cpe:confidence'') then 1 else 0)"
  by (simp_all add: count_of_def resultsForComponent_def rule_names)

lemma count_append: "count_of rule (xs @ ys) = count_of rule xs + count_of rule ys"
  by (simp add: count_of_def)

definition stats_ok :: "sarif_result list \<Rightarrow> nat \<Rightarrow> summary_stats \<Rightarrow> bool" where
  "stats_ok rs n s \<longleftrightarrow>
     count_of ruleUntracked rs = UntrackedAdded s \<and> length (Untracked s) = UntrackedAdded s \<and>
     count_of ruleOriginUnknown rs = UnknownOrigin s \<and> count_of ruleLowConfidenceCPE rs = CPEAmbiguous s \<and>
     TotalComponents s = n \<and> FromBase s + Application s + UnknownOrigin s \<le> n \<and> WithCPE s + count_of ruleMissingCPE rs \<le> n"

lemma tally_ok: "stats_ok rs n s \<Longrightarrow> stats_ok (rs @ resultsForComponent c) (Suc n) (tally s c)"
  by (auto simp: stats_ok_def tally_def Let_def count_append count_component OriginBaseImage_def OriginApplication_def OriginUnknown_def)

lemma tally_fold: "stats_ok rs n s \<Longrightarrow> stats_ok (rs @ concat (map resultsForComponent cs)) (n + length cs) (foldl tally s cs)"
proof (induction cs arbitrary: rs n s)
  case (Cons c cs)
  from Cons.IH [OF tally_ok [OF Cons.prems]] show ?case by simp
qed simp

lemma takeWhile_digits_stop:
  assumes "\<And>c. c \<in> set ds \<Longrightarrow> P c" "\<not> P c"
  shows "takeWhile P (ds @ c # r) = ds" "dropWhile P (ds @ c # r) = c # r"
  using assms by (simp_all add: takeWhile_append2 dropWhile_append2)

lemma digit_char_nonspace: "is_digit c \<Longrightarrow> c \<notin> {CHR '' '', CHR 0x09, CHR 0x0D} \<and> c \<noteq> CHR ''-'' \<and> c \<noteq> CHR ''+'' \<and> c \<noteq> CHR ''.'' \<and> c \<noteq> CHR ''_''"
  by (auto simp: is_digit_def)

lemma two_digits: "10 * (10 * (m div 100) + m div 10 mod 10) + m mod 10 = (m :: nat)"
proof -
  have "m div 100 = m div 10 div 10" by (simp flip: div_mult2_eq)
  then show ?thesis using mult_div_mod_eq [of 10 "m div 10"] mult_div_mod_eq [of 10 m] by simp
qed

lemma Sscanf_fmt_2f:
  assumes "0 \<le> x"
  shows "Sscanf_f (fmt_2f x) = Some (of_int (round_half_even (100 * x)) / 100)"
proof -
  let ?n = "nat (round_half_even (100 * x))"
  let ?q = "nat_digits (?n div 100)" and ?a = "digit_char (?n div 10 mod 10)" and ?b = "digit_char (?n mod 10)"
  let ?P = "\<lambda>c. is_digit c \<or> c = CHR ''_''"
  have f: "fmt_2f x = ?q @ CHR ''.'' # [?a, ?b]" using assms by (simp add: fmt_2f_def Let_def)
  have pos: "0 \<le> round_half_even (100 * x)"
    using assms by (auto simp: round_half_even_def Let_def)
  obtain h t where q: "?q = h # t" by (cases ?q) simp_all
  have h: "is_digit h" using hd_nat_digits [of "?n div 100"] q by simp
  have dq: "\<And>c. c \<in> set ?q \<Longrightarrow> ?P c" using nat_digits_digits by blast
  have nu: "CHR ''_'' \<notin> set ?q" using nat_digits_digits digit_char_nonspace by blast
  have ab: "is_digit ?a" "is_digit ?b" by simp_all
  have nd: "\<not> ?P (CHR ''.'')" by (simp add: is_digit_def)
  have tw: "takeWhile ?P (?q @ CHR ''.'' # [?a, ?b]) = ?q" "dropWhile ?P (?q @ CHR ''.'' # [?a, ?b]) = CHR ''.'' # [?a, ?b]"
    using takeWhile_digits_stop [of ?q ?P "CHR ''.''" "[?a, ?b]"] dq nd by blast+
  have s0: "dropWhile (\<lambda>c. c \<in> {CHR '' '', CHR 0x09, CHR 0x0D}) (?q @ CHR ''.'' # [?a, ?b]) = ?q @ CHR ''.'' # [?a, ?b]"
    using digit_char_nonspace [OF h] by (simp add: q)
  have hs: "hd (?q @ CHR ''.'' # [?a, ?b]) \<noteq> CHR ''-''" "hd (?q @ CHR ''.'' # [?a, ?b]) \<notin> {CHR ''-'', CHR ''+''}"
    using digit_char_nonspace [OF h] by (simp_all add: q)
  have nb: "CHR ''_'' \<noteq> ?a" "CHR ''_'' \<noteq> ?b" using digit_char_nonspace [OF ab(1)] digit_char_nonspace [OF ab(2)] by (metis, metis)
  have v: "digits_val (?q @ [?a, ?b]) = ?n"
  proof -
    have "digits_val ((?q @ [?a]) @ [?b]) = 10 * (10 * (?n div 100) + ?n div 10 mod 10) + ?n mod 10"
      unfolding digits_val_append by simp
    also have "\<dots> = ?n" by (rule two_digits)
    finally show ?thesis by simp
  qed
  have "Sscanf_f (?q @ CHR ''.'' # [?a, ?b]) = Some (of_nat ?n / 100)"
    unfolding Sscanf_f_def Let_def s0
    using hs tw ab nu nb v
    by (simp add: scan_exponent_def scale10_def)
  then show ?thesis using pos by (simp add: f)
qed

section \<open>Properties\<close>

text \<open>
  A SARIF document holds the results of all components, nested ones included, each as often as it arises, in the
  order of rules and messages, and every result names a rule the document declares.
\<close>

theorem sarif_results:
  "let rs = Results (buildSARIFDocument version sbom) in
     mset rs = mset (concat (map resultsForComponent (all_components (Components sbom)))) \<and>
     sorted (map (\<lambda>r. (ResultRule r, MessageText r)) rs) \<and>
     set (map ResultRule rs) \<subseteq> set (map RuleIdent (Rules (buildSARIFDocument version sbom)))"
  using results_rules by (fastforce simp: buildSARIFDocument_def collectResults_def Let_def)

text \<open>
  The summary and the SARIF document count the same: untracked components, unknown origins and low-confidence
  CPEs of the one are the results of the matching rules of the other, and no counter exceeds the number of components.
\<close>

theorem summary_matches_sarif:
  "let rs = Results (buildSARIFDocument version sbom); s = computeStats sbom; n = length (all_components (Components sbom)) in
     count_of ruleUntracked rs = UntrackedAdded s \<and> length (Untracked s) = UntrackedAdded s \<and>
     count_of ruleOriginUnknown rs = UnknownOrigin s \<and> count_of ruleLowConfidenceCPE rs = CPEAmbiguous s \<and>
     TotalComponents s = n \<and> FromBase s + Application s + UnknownOrigin s \<le> n \<and> WithCPE s + count_of ruleMissingCPE rs \<le> n"
proof -
  define s0 where "s0 i d = \<lparr>ImageRef = i, SDigest = d, TotalComponents = 0, FromBase = 0, Application = 0, UnknownOrigin = 0, Untracked = [],
      UntrackedAdded = 0, WithCPE = 0, CPEAdded = 0, CPEAmbiguous = 0\<rparr>" for i d
  have ok: "stats_ok [] 0 (s0 i d)" for i d by (simp add: stats_ok_def count_of_def s0_def)
  obtain i d where c: "computeStats sbom = (let s = foldl tally (s0 i d) (all_components (Components sbom)) in s\<lparr>Untracked := sort_key untrackedSortKey (Untracked s)\<rparr>)"
    unfolding computeStats_def Let_def s0_def by blast
  from tally_fold [OF ok, of "all_components (Components sbom)" i d]
  show ?thesis
    by (simp add: stats_ok_def c buildSARIFDocument_def collectResults_def Let_def)
qed

text \<open>The renderers register without a clash, and every format an SBOM can have is rendered in its own format.\<close>

theorem formats_registered:
  "register_all builtin_formats = Some builtin_formats \<and>
   Known builtin_formats = [''cyclonedx-json'', ''cyclonedx-xml'', ''sarif'', ''spdx-json'', ''spdx-tag-value'', ''summary''] \<and>
   (\<exists>r. Get_renderer builtin_formats (ResolveSame f) pretty = Inr r)"
proof -
  have "register_all builtin_formats = Some builtin_formats"
    by (simp add: register_all_def builtin_formats_def RegisterFormat_def format_names FormatSARIF_def FormatSummary_def)
  moreover have "Known builtin_formats = [''cyclonedx-json'', ''cyclonedx-xml'', ''sarif'', ''spdx-json'', ''spdx-tag-value'', ''summary'']"
    by code_simp
  moreover have "\<exists>r. Get_renderer builtin_formats (ResolveSame f) pretty = Inr r"
    by (simp add: Get_renderer_def builtin_formats_def ResolveSame_def format_names FormatSARIF_def FormatSummary_def)
  ultimately show ?thesis by blast
qed

text \<open>An SBOM that was loaded is written back, under the format \<open>same\<close>, in the format it was read in.\<close>

theorem same_format_out:
  assumes "loadSBOM k open_file stdin path = Inr s"
  shows "ResolveSame (SourceFormat s) = SourceFormat s"
  using loadSBOM_facts [OF assms] by (auto simp: ResolveSame_def format_names)

text \<open>The renderers read back the confidence that the CPE enricher stamps, rounded to two decimals.\<close>

theorem confidence_stamp_roundtrip:
  assumes "0 \<le> x"
  shows "parseConfidence (formatConfidence x) = Some (of_int (round_half_even (100 * x)) / 100)"
  using Sscanf_fmt_2f [OF assms] by (simp add: parseConfidence_def formatConfidence_def)

lemma high_stamp: "7 / 10 \<le> x \<Longrightarrow> \<not> isLowConfidenceCPE (formatConfidence x)"
proof -
  assume x: "7 / 10 \<le> x"
  then have "70 \<le> \<lfloor>100 * x\<rfloor>" by (simp add: le_floor_iff)
  then have "70 \<le> round_half_even (100 * x)" by (auto simp: round_half_even_def Let_def)
  then have "(7 / 10 :: rat) \<le> of_int (round_half_even (100 * x)) / 100" by simp
  moreover have "formatConfidence x \<noteq> ''low''"
    using Sscanf_fmt_2f [of x] x by (auto simp: formatConfidence_def Sscanf_f_def is_digit_def)
  ultimately show ?thesis
    using Sscanf_fmt_2f [of x] x by (simp add: isLowConfidenceCPE_def parseConfidence_def formatConfidence_def)
qed

lemma confidence_key [simp]:
  "''astinus:cpe:confidence'' \<noteq> alternative_key m" "''astinus:cpe:confidence'' \<noteq> alternative_key m @ t"
  "''astinus:cpe:confidence'' \<noteq> rejected_key m" "''astinus:cpe:confidence'' \<noteq> rejected_key m @ t"
  "''astinus:cpe'' \<noteq> alternative_key m" "''astinus:cpe'' \<noteq> rejected_key m"
  by (simp_all add: alternative_key_def rejected_key_def)

lemma loops_confidence:
  "mget (Properties (write_alternatives i alts d)) ''astinus:cpe:confidence'' = mget (Properties d) ''astinus:cpe:confidence''"
  "mget (Properties (write_rejected b i rejs d)) ''astinus:cpe:confidence'' = mget (Properties d) ''astinus:cpe:confidence''"
proof -
  show "mget (Properties (write_alternatives i alts d)) ''astinus:cpe:confidence'' = mget (Properties d) ''astinus:cpe:confidence''"
    by (induction alts arbitrary: i d) (simp_all add: get_setProp)
  show "mget (Properties (write_rejected b i rejs d)) ''astinus:cpe:confidence'' = mget (Properties d) ''astinus:cpe:confidence''"
  proof (induction rejs arbitrary: i d)
    case (Cons rej rejs)
    then show ?case by (cases b) (simp_all add: get_setProp Let_def)
  qed simp
qed

lemma stamps_confidence: "mget (Properties (setValidationStamps original d)) ''astinus:cpe:confidence'' = mget (Properties d) ''astinus:cpe:confidence''"
  by (simp add: setValidationStamps_def get_setProp Let_def)

lemma cleared_confidence: "mget (Properties (clearCPEProperties d)) ''astinus:cpe:confidence'' = None"
  by (simp add: clearCPEProperties_def mget_filter_keys [of "\<lambda>k. \<not> HasPrefix k ''astinus:cpe:''"])

lemma write_primary_confidence:
  "mget (Properties (snd (write_primary p d))) ''astinus:cpe:confidence'' =
     (case p of Some c \<Rightarrow> Some (formatConfidence (Confidence c)) | None \<Rightarrow> mget (Properties d) ''astinus:cpe:confidence'')"
  by (simp add: write_primary_def Let_def get_setProp stamps_confidence split: option.split)

lemma writeResults_confidence:
  assumes "mget (Properties d) ''astinus:cpe:confidence'' = None"
    "mget (Properties (snd (snd (writeResults e K st d)))) ''astinus:cpe:confidence'' = Some v"
  shows "\<exists>x. PrimaryMin (threshold e) \<le> x \<and> v = formatConfidence x"
proof -
  obtain p alts rejected where c: "Classify (DedupeCandidates K) (threshold e) = (p, alts, rejected)" by (metis prod_cases3)
  have "mget (Properties (snd (write_primary p d))) ''astinus:cpe:confidence'' = Some v"
    using assms(2) by (simp add: writeResults_def c loops_confidence Let_def)
  then obtain q where q: "p = Some q" "v = formatConfidence (Confidence q)"
    using assms(1) by (auto simp: write_primary_confidence split: option.splits)
  moreover have "PrimaryMin (threshold e) \<le> Confidence q"
    using Classify_primary [of "DedupeCandidates K" "threshold e"] c q(1) by (auto split: if_splits)
  ultimately show ?thesis by blast
qed

lemma component_confidence:
  assumes "mget (Properties (cpe_component e d)) ''astinus:cpe:confidence'' = Some v"
  shows "\<exists>x. PrimaryMin (threshold e) \<le> x \<and> v = formatConfidence x"
proof -
  let ?c = "clearCPEProperties d"
  have none: "mget (Properties ?c) ''astinus:cpe:confidence'' = None" by (rule cleared_confidence)
  have k: "mget (Properties (setProp ''astinus:cpe:purl-error'' t ?c)) ''astinus:cpe:confidence'' = None"
    "mget (Properties (setProp ''astinus:cpe:lookup'' t ?c)) ''astinus:cpe:confidence'' = None" for t
    by (simp_all add: get_setProp none)
  consider "cpe_component e d = ?c" | t where "cpe_component e d = setProp ''astinus:cpe:purl-error'' t ?c"
    | t where "cpe_component e d = setProp ''astinus:cpe:lookup'' t ?c" | K st where "cpe_component e d = snd (snd (writeResults e K st ?c))"
  proof (cases "PURL ?c = []")
    case True
    then show thesis using that(1,4) by (cases "CPEs ?c = []") (simp_all add: cpe_component_def enrichOne_def Let_def)
  next
    case purl: False
    show thesis
    proof (cases "ParsePURL (PURL ?c)")
      case (Inl err)
      then show thesis using purl that(2) by (simp add: cpe_component_def enrichOne_def Let_def)
    next
      case (Inr p)
      show thesis
      proof (cases "candidatesFromExistingCPEs (CPEs ?c) @ chain e p = []")
        case True
        then show thesis using purl Inr that(3) by (simp add: cpe_component_def enrichOne_def Let_def)
      next
        case False
        then show thesis using purl Inr that(4) by (auto simp: cpe_component_def enrichOne_def Let_def)
      qed
    qed
  qed
  then show ?thesis using assms none k writeResults_confidence [OF none] by cases simp_all
qed

text \<open>
  An SBOM the CPE enricher has just been through, at its default threshold, has no result for a low-confidence CPE,
  whatever the CPE sources answered: what is stamped on a component is the confidence of its primary CPE.
\<close>

theorem enriched_never_low:
  assumes "Enrich_cpe e (Some s) = (None, Some s', st)" "threshold e = DefaultThreshold"
  shows "ruleLowConfidenceCPE \<notin> set (map ResultRule (Results (buildSARIFDocument version s')))"
proof -
  have s': "Components s' = walks (cpe_component e) (Components s)" using assms(1) by (auto simp: Enrich_cpe_Some)
  have low: "\<not> isLowConfidenceCPE (mval (Properties (cpe_component e d)) ''astinus:cpe:confidence'')" for d
  proof (cases "mget (Properties (cpe_component e d)) ''astinus:cpe:confidence''")
    case None
    then show ?thesis by (simp add: mval_def isLowConfidenceCPE_def)
  next
    case (Some v)
    obtain x where "7 / 10 \<le> x" "v = formatConfidence x"
      using component_confidence [OF Some] assms(2) by (auto simp: DefaultThreshold_def)
    then show ?thesis using Some high_stamp [of x] by (simp add: mval_def)
  qed
  have "ruleLowConfidenceCPE \<notin> ResultRule ` set (resultsForComponent (cpe_component e d))" for d
    using low [of d] by (auto simp: resultsForComponent_def rule_names)
  then show ?thesis by (auto simp: buildSARIFDocument_def collectResults_def s')
qed

section \<open>Witnesses\<close>

theorem same_format_out_witness: "ResolveSame (SourceFormat demo_loaded) = SourceFormat demo_loaded"
  by (rule same_format_out [OF demo_loads])

theorem confidence_stamp_roundtrip_witness:
  "parseConfidence (formatConfidence (699 / 1000)) = Some (of_int (round_half_even (100 * (699 / 1000))) / 100)"
  by (rule confidence_stamp_roundtrip) simp

theorem enriched_never_low_witness:
  "ruleLowConfidenceCPE \<notin> set (map ResultRule (Results (buildSARIFDocument ''v1'' (empty_sbom\<lparr>Components := []\<rparr>))))"
proof -
  have "Enrich_cpe (cpe_New None) (Some empty_sbom) = (None, Some (empty_sbom\<lparr>Components := []\<rparr>), zero_stats)"
    by (simp add: Enrich_cpe_Some empty_sbom_def)
  then show ?thesis by (rule enriched_never_low) (simp add: cpe_New_def)
qed

text \<open>A confidence just below the threshold is rounded up to it and no longer reads as low.\<close>

lemma rounded_up: "\<not> isLowConfidenceCPE (formatConfidence (699 / 1000))"
  by code_simp

end
