(* ===== verification/Sign.thy ===== *)
theory Sign
  imports GoLib
begin

text \<open>
  Signing and its verification (\<open>internal/sign\<close>) with the two commands that use them
  (\<open>runSigningStep\<close> of \<open>internal/cli/enrich.go\<close>, \<open>runVerify\<close> of \<open>internal/cli/verify.go\<close>): options and their
  checks, the arguments and the environment handed to \<open>cosign\<close>, the redaction of the logged arguments,
  the tail of the error output, and the temporary file.  The file system is a map from paths to
  contents; the \<open>cosign\<close> process, the lookup of its binary, the environment and the failures of
  the temporary file are parameters.
\<close>

section \<open>Options\<close>

definition SignModeNone :: string where "SignModeNone = []"
definition ModeCosignKey :: string where "ModeCosignKey = ''cosign-key''"
definition ModeCosignKeyless :: string where "ModeCosignKeyless = ''cosign-keyless''"

definition SignMode_IsKnown :: "string \<Rightarrow> bool" where
  "SignMode_IsKnown m \<longleftrightarrow> m \<in> {SignModeNone, ModeCosignKey, ModeCosignKeyless}"

record SignOptions =
  SignFormat :: string
  AttachToImage :: string
  OutputFile :: string
  SignKeyPath :: string
  KeyPasswordEnv :: string
  SignRekorURL :: string
  SignFulcioURL :: string
  SignTUFMirror :: string
  SignCABundle :: string

record Artifact =
  ArtifactFormat :: string
  ArtifactBytes :: string
  OCIReference :: string
  PredicateURI :: string

datatype sign_error =
    ErrTooling string
  | ErrInvalidConfig string
  | ErrTempFile
  | ErrSigning string string

definition Validate_sign :: "SignOptions \<Rightarrow> string \<Rightarrow> sign_error option" where
  "Validate_sign opts mode =
     (let target = (if AttachToImage opts = [] \<and> OutputFile opts = []
                    then Some (ErrInvalidConfig ''either --attach-to-image or --signature-output is required'') else None) in
      if mode = SignModeNone then None
      else if mode = ModeCosignKey then
        (if SignKeyPath opts = [] then Some (ErrInvalidConfig ''--sign-with cosign-key requires --signing-key'') else target)
      else if mode = ModeCosignKeyless then target
      else Some (ErrInvalidConfig ''--sign-with: unknown mode''))"

definition ModeForOptions :: "SignOptions \<Rightarrow> string" where
  "ModeForOptions opts = (if SignKeyPath opts \<noteq> [] then ModeCosignKey else ModeCosignKeyless)"

definition normaliseFormat :: "string \<Rightarrow> string" where
  "normaliseFormat format = ToLower (TrimSpace format)"

definition attestationTypeFor :: "string \<Rightarrow> string" where
  "attestationTypeFor format =
     (let f = normaliseFormat format in
      if f \<in> {''cyclonedx'', ''cyclonedx-json'', ''cyclonedx-xml''} then ''cyclonedx''
      else if f \<in> {''spdx'', ''spdx-json'', ''spdx-tag-value''} then ''spdxjson''
      else ''custom'')"

definition predicateURIFor :: "string \<Rightarrow> string" where
  "predicateURIFor format =
     (let f = normaliseFormat format in
      if f \<in> {''cyclonedx'', ''cyclonedx-json'', ''cyclonedx-xml''} then ''https://cyclonedx.org/bom/v1.6''
      else if f \<in> {''spdx'', ''spdx-json'', ''spdx-tag-value''} then ''https://spdx.dev/Document''
      else [])"

section \<open>Arguments and environment\<close>

definition buildCosignArgs :: "string \<Rightarrow> SignOptions \<Rightarrow> string list" where
  "buildCosignArgs tmp opts =
     (let key = (if SignKeyPath opts \<noteq> [] then [''--key'', SignKeyPath opts] else []) in
      if AttachToImage opts \<noteq> [] then
        [''attest'', ''--predicate'', tmp, ''--type'', attestationTypeFor (SignFormat opts)] @ key @
        [''--yes'', AttachToImage opts]
      else [''sign-blob'', ''--output-signature'', OutputFile opts] @ key @ [''--yes'', tmp])"

definition sigstoreEnv :: "string \<Rightarrow> string \<Rightarrow> string \<Rightarrow> string \<Rightarrow> string list" where
  "sigstoreEnv rekor fulcio tuf ca =
     (if rekor \<noteq> [] then [''COSIGN_REKOR_URL='' @ rekor] else []) @
     (if fulcio \<noteq> [] then [''COSIGN_FULCIO_URL='' @ fulcio] else []) @
     (if tuf \<noteq> [] then [''TUF_ROOT='' @ tuf] else []) @
     (if ca \<noteq> [] then [''SSL_CERT_FILE='' @ ca] else [])"

definition buildCosignEnv :: "(string \<Rightarrow> string) \<Rightarrow> SignOptions \<Rightarrow> string list" where
  "buildCosignEnv getenv opts =
     sigstoreEnv (SignRekorURL opts) (SignFulcioURL opts) (SignTUFMirror opts) (SignCABundle opts) @
     (if KeyPasswordEnv opts \<noteq> [] \<and> getenv (KeyPasswordEnv opts) \<noteq> []
      then [''COSIGN_PASSWORD='' @ getenv (KeyPasswordEnv opts)] else [])"

text \<open>The loop of \<open>maskSensitive\<close>: the argument at index \<open>i\<close>, with the indices to redact.\<close>

definition sensitive_flags :: "string list" where
  "sensitive_flags = [''--key'', ''--cert'', ''--token'', ''--certificate'']"

definition redacted :: string where "redacted = ''<redacted>''"

fun mask_loop :: "nat \<Rightarrow> nat \<Rightarrow> nat list \<Rightarrow> string list \<Rightarrow> string list" where
  "mask_loop n i skip [] = []"
| "mask_loop n i skip (a # as) =
     (if a \<in> set sensitive_flags then a # mask_loop n (Suc i) (if i + 1 < n then (i + 1) # skip else skip) as
      else if i \<in> set skip then redacted # mask_loop n (Suc i) skip as
      else a # mask_loop n (Suc i) skip as)"

definition maskSensitive :: "string list \<Rightarrow> string list" where
  "maskSensitive args = mask_loop (length args) 0 [] args"

definition TrimRight_byte :: "string \<Rightarrow> char \<Rightarrow> string" where
  "TrimRight_byte s c = rev (dropWhile (\<lambda>x. x = c) (rev s))"

text \<open>The loop of \<open>lastStderrLines\<close> over the lines from the last to the first.\<close>

fun keep_lines :: "int \<Rightarrow> string list \<Rightarrow> string list \<Rightarrow> string list" where
  "keep_lines n [] keep = keep"
| "keep_lines n (l # ls) keep =
     (if int (length keep) < n
      then keep_lines n ls (if TrimSpace l \<noteq> [] then TrimSpace l # keep else keep)
      else keep)"

definition newline :: char where "newline = CHR 0x0A"

definition lastStderrLines :: "string \<Rightarrow> int \<Rightarrow> string" where
  "lastStderrLines s n =
     (if s = [] \<or> n \<le> 0 then []
      else Join [newline] (keep_lines n (rev (SplitC newline (TrimRight_byte s newline))) []))"

definition artifactFormatFor :: "SignOptions \<Rightarrow> string" where
  "artifactFormatFor opts = (if AttachToImage opts \<noteq> [] then ''in-toto-attestation'' else ''cosign-bundle'')"

section \<open>Signing\<close>

type_synonym file_system = "string \<Rightarrow> string option"

text \<open>
  \<open>TempName\<close> is the path that \<open>os.CreateTemp\<close> finds free, if it can create one; \<open>TempShort\<close> is what
  reaches the file when the write fails (\<open>None\<close>: it succeeds and all bytes are there).  A run of \<open>cosign\<close>
  sees the file system, its arguments and the extra environment, and yields the file system, the error
  of the process if any, and both outputs.
\<close>

record sign_env =
  LookPath :: "string \<Rightarrow> string option"
  Getenv :: "string \<Rightarrow> string"
  TempName :: "file_system \<Rightarrow> string option"
  TempShort :: "string \<Rightarrow> string option"
  TempCloses :: bool
  RunCosign :: "string \<Rightarrow> string list \<Rightarrow> string list \<Rightarrow> file_system \<Rightarrow> file_system \<times> string option \<times> string \<times> string"

definition defaultCosignBinary :: string where "defaultCosignBinary = ''cosign''"

definition NewCosignSigner :: "sign_env \<Rightarrow> string \<Rightarrow> sign_error + string" where
  "NewCosignSigner env cosignPath =
     (let path = (if cosignPath = [] then defaultCosignBinary else cosignPath) in
      case LookPath env path of None \<Rightarrow> Inl (ErrTooling path) | Some resolved \<Rightarrow> Inr resolved)"

definition writeTempSBOM :: "sign_env \<Rightarrow> string \<Rightarrow> file_system \<Rightarrow> string option \<times> file_system" where
  "writeTempSBOM env sbom fs =
     (case TempName env fs of
        None \<Rightarrow> (None, fs)
      | Some p \<Rightarrow>
          (case TempShort env sbom of
             Some part \<Rightarrow> (None, (fs(p \<mapsto> part))(p := None))
           | None \<Rightarrow>
               if TempCloses env then (Some p, fs(p \<mapsto> sbom)) else (None, (fs(p \<mapsto> sbom))(p := None))))"

definition Sign_cosign :: "sign_env \<Rightarrow> string \<Rightarrow> string \<Rightarrow> SignOptions \<Rightarrow> file_system \<Rightarrow> (sign_error + Artifact) \<times> file_system" where
  "Sign_cosign env binary sbom opts fs =
     (case Validate_sign opts (ModeForOptions opts) of
        Some e \<Rightarrow> (Inl e, fs)
      | None \<Rightarrow>
          (case writeTempSBOM env sbom fs of
             (None, fs1) \<Rightarrow> (Inl ErrTempFile, fs1)
           | (Some tmp, fs1) \<Rightarrow>
               (case RunCosign env binary (buildCosignArgs tmp opts) (buildCosignEnv (Getenv env) opts) fs1 of
                  (fs2, Some err, out, stderr) \<Rightarrow> (Inl (ErrSigning err stderr), fs2(tmp := None))
                | (fs2, None, out, stderr) \<Rightarrow>
                    (Inr \<lparr> ArtifactFormat = artifactFormatFor opts, ArtifactBytes = out, OCIReference = AttachToImage opts,
                           PredicateURI = predicateURIFor (SignFormat opts) \<rparr>, fs2(tmp := None)))))"

section \<open>Verification\<close>

record VerifyOptions =
  SBOMPath :: string
  SignaturePath :: string
  AttachedToImage :: string
  VerifyKeyPath :: string
  CertIdentityRegexp :: string
  CertOIDCIssuer :: string
  VerifyRekorURL :: string
  VerifyFulcioURL :: string
  VerifyTUFMirror :: string
  VerifyCABundle :: string

definition validate_verify :: "VerifyOptions \<Rightarrow> sign_error option" where
  "validate_verify opts =
     (let hasKeyless = CertIdentityRegexp opts \<noteq> [] \<or> CertOIDCIssuer opts \<noteq> [] in
      if AttachedToImage opts \<noteq> [] \<and> SignaturePath opts \<noteq> [] then
        Some (ErrInvalidConfig ''--attached-to-image and --signature are mutually exclusive'')
      else if AttachedToImage opts = [] \<and> SignaturePath opts = [] then
        Some (ErrInvalidConfig ''either --attached-to-image or --signature is required'')
      else if SignaturePath opts \<noteq> [] \<and> SBOMPath opts = [] then
        Some (ErrInvalidConfig ''--signature requires --sbom'')
      else if VerifyKeyPath opts = [] \<and> \<not> hasKeyless then
        Some (ErrInvalidConfig ''either --key (key-based) or both --cert-identity-regexp + --cert-oidc-issuer (keyless) are required'')
      else if hasKeyless \<and> (CertIdentityRegexp opts = [] \<or> CertOIDCIssuer opts = []) then
        Some (ErrInvalidConfig ''keyless verification requires BOTH --cert-identity-regexp and --cert-oidc-issuer'')
      else None)"

definition appendCommonVerifyArgs :: "string list \<Rightarrow> VerifyOptions \<Rightarrow> string list" where
  "appendCommonVerifyArgs args opts =
     args @
     (if VerifyKeyPath opts \<noteq> [] then [''--key'', VerifyKeyPath opts] else []) @
     (if CertIdentityRegexp opts \<noteq> [] then [''--certificate-identity-regexp'', CertIdentityRegexp opts] else []) @
     (if CertOIDCIssuer opts \<noteq> [] then [''--certificate-oidc-issuer'', CertOIDCIssuer opts] else [])"

definition buildVerifyBlobArgs :: "VerifyOptions \<Rightarrow> string list" where
  "buildVerifyBlobArgs opts =
     appendCommonVerifyArgs [''verify-blob'', ''--signature'', SignaturePath opts] opts @ [SBOMPath opts]"

definition buildVerifyAttestationArgs :: "VerifyOptions \<Rightarrow> string list" where
  "buildVerifyAttestationArgs opts = appendCommonVerifyArgs [''verify-attestation''] opts @ [AttachedToImage opts]"

definition buildVerifyArgs :: "VerifyOptions \<Rightarrow> string list" where
  "buildVerifyArgs opts =
     (if AttachedToImage opts \<noteq> [] then buildVerifyAttestationArgs opts else buildVerifyBlobArgs opts)"

definition buildVerifyEnv :: "VerifyOptions \<Rightarrow> string list" where
  "buildVerifyEnv opts =
     sigstoreEnv (VerifyRekorURL opts) (VerifyFulcioURL opts) (VerifyTUFMirror opts) (VerifyCABundle opts)"

definition NewVerifier :: "sign_env \<Rightarrow> string \<Rightarrow> sign_error + string" where
  "NewVerifier env cosignPath =
     (let path = (if cosignPath = [] then defaultCosignBinary else cosignPath) in
      case LookPath env path of None \<Rightarrow> Inl (ErrTooling path) | Some resolved \<Rightarrow> Inr resolved)"

definition Verify_cosign :: "sign_env \<Rightarrow> string \<Rightarrow> VerifyOptions \<Rightarrow> file_system \<Rightarrow> (sign_error + string) \<times> file_system" where
  "Verify_cosign env binary opts fs =
     (case validate_verify opts of
        Some e \<Rightarrow> (Inl e, fs)
      | None \<Rightarrow>
          (case RunCosign env binary (buildVerifyArgs opts) (buildVerifyEnv opts) fs of
             (fs1, Some err, out, stderr) \<Rightarrow> (Inl (ErrSigning err stderr), fs1)
           | (fs1, None, out, stderr) \<Rightarrow> (Inr out, fs1)))"

section \<open>The commands\<close>

definition ExitInvalidArgs :: nat where "ExitInvalidArgs = 2"
definition ExitOutputWrite :: nat where "ExitOutputWrite = 6"
definition ExitSigning :: nat where "ExitSigning = 50"

record sign_flags =
  SignWith :: string
  SigningKey :: string
  SigningKeyPasswordEnv :: string
  AttachFlag :: string
  SignatureOutput :: string
  RekorFlag :: string
  FulcioFlag :: string
  TUFFlag :: string
  CAFlag :: string
  CosignPath :: string

definition signOptionsFor :: "sign_flags \<Rightarrow> string \<Rightarrow> SignOptions" where
  "signOptionsFor fl formatName =
     \<lparr> SignFormat = formatName, AttachToImage = AttachFlag fl, OutputFile = SignatureOutput fl, SignKeyPath = SigningKey fl,
       KeyPasswordEnv = SigningKeyPasswordEnv fl, SignRekorURL = RekorFlag fl, SignFulcioURL = FulcioFlag fl,
       SignTUFMirror = TUFFlag fl, SignCABundle = CAFlag fl \<rparr>"

text \<open>The result is the exit code of the failure, \<open>None\<close> for success.\<close>

definition runSigningStep :: "sign_env \<Rightarrow> sign_flags \<Rightarrow> string \<Rightarrow> string \<Rightarrow> file_system \<Rightarrow> nat option \<times> file_system" where
  "runSigningStep env fl outputPath formatName fs =
     (let mode = SignWith fl; signOpts = signOptionsFor fl formatName in
      if mode = SignModeNone then (None, fs)
      else if \<not> SignMode_IsKnown mode then (Some ExitInvalidArgs, fs)
      else if outputPath = ''-'' \<or> outputPath = [] then (Some ExitInvalidArgs, fs)
      else case fs outputPath of
          None \<Rightarrow> (Some ExitOutputWrite, fs)
        | Some body \<Rightarrow>
            (if Validate_sign signOpts mode \<noteq> None then (Some ExitInvalidArgs, fs)
             else case NewCosignSigner env (CosignPath fl) of
                 Inl e \<Rightarrow> (Some ExitSigning, fs)
               | Inr binary \<Rightarrow>
                   (case Sign_cosign env binary body signOpts fs of
                      (Inl e, fs1) \<Rightarrow> (Some ExitSigning, fs1)
                    | (Inr artifact, fs1) \<Rightarrow> (None, fs1))))"

text \<open>\<open>now\<close> is the formatted time of the verification; the right result is what is printed.\<close>

definition runVerify :: "sign_env \<Rightarrow> string \<Rightarrow> string \<Rightarrow> VerifyOptions \<Rightarrow> file_system \<Rightarrow> (nat + string) \<times> file_system" where
  "runVerify env now cosignPath opts fs =
     (case NewVerifier env cosignPath of
        Inl e \<Rightarrow> (Inl ExitSigning, fs)
      | Inr binary \<Rightarrow>
          (case Verify_cosign env binary opts fs of
             (Inl e, fs1) \<Rightarrow> (Inl ExitSigning, fs1)
           | (Inr out, fs1) \<Rightarrow> (Inr (''verified: '' @ now @ [newline] @ out), fs1)))"

section \<open>The logged arguments\<close>

text \<open>The loop by a flag that says whether the previous argument was a sensitive option.\<close>

fun masked :: "bool \<Rightarrow> string list \<Rightarrow> string list" where
  "masked after [] = []"
| "masked after (a # as) =
     (if a \<in> set sensitive_flags then a # masked True as
      else (if after then redacted else a) # masked False as)"

lemma mask_loop_masked:
  assumes "i + length as = n" "\<forall>j \<in> set skip. j \<le> i"
  shows "mask_loop n i skip as = masked (i \<in> set skip) as"
  using assms
proof (induction as arbitrary: i skip)
  case (Cons a as)
  have le: "\<forall>j \<in> set skip. j \<le> Suc i" "Suc i \<notin> set skip" using Cons.prems(2) by auto
  have rest: "mask_loop n (Suc i) skip as = masked False as"
    using Cons.IH [of "Suc i" skip] Cons.prems(1) le by simp
  have "mask_loop n (Suc i) (if i + 1 < n then (i + 1) # skip else skip) as = masked True as"
  proof (cases "as = []")
    case False
    then have "i + 1 < n" using Cons.prems(1) by (cases as) auto
    moreover have "\<forall>j \<in> set ((i + 1) # skip). j \<le> Suc i" using le by simp
    ultimately show ?thesis using Cons.IH [of "Suc i" "(i + 1) # skip"] Cons.prems(1) by simp
  qed simp
  with rest show ?case by simp
qed simp

lemma maskSensitive_masked: "maskSensitive args = masked False args"
  unfolding maskSensitive_def using mask_loop_masked [of 0 args "length args" "[]"] by simp

lemma masked_key_any:
  assumes "k1 \<notin> set sensitive_flags" "k2 \<notin> set sensitive_flags"
  shows "masked after (pre @ ''--key'' # k1 # post) = masked after (pre @ ''--key'' # k2 # post)"
proof (induction pre arbitrary: after)
  case Nil
  show ?case using assms by (simp add: sensitive_flags_def)
next
  case (Cons a pre)
  then show ?case by simp
qed

lemma length_masked [simp]: "length (masked after as) = length as"
  by (induction as arbitrary: after) auto

lemma buildCosignArgs_key:
  "SignKeyPath opts \<noteq> [] \<Longrightarrow> \<exists>pre post. \<forall>k. k \<noteq> [] \<longrightarrow> buildCosignArgs tmp (opts\<lparr> SignKeyPath := k \<rparr>) = pre @ ''--key'' # k # post"
proof (cases "AttachToImage opts = []")
  case True
  then have "\<forall>k. k \<noteq> [] \<longrightarrow> buildCosignArgs tmp (opts\<lparr> SignKeyPath := k \<rparr>)
      = [''sign-blob'', ''--output-signature'', OutputFile opts] @ ''--key'' # k # [''--yes'', tmp]"
    by (simp add: buildCosignArgs_def)
  then show ?thesis by blast
next
  case False
  then have "\<forall>k. k \<noteq> [] \<longrightarrow> buildCosignArgs tmp (opts\<lparr> SignKeyPath := k \<rparr>)
      = [''attest'', ''--predicate'', tmp, ''--type'', attestationTypeFor (SignFormat opts)] @ ''--key'' # k # [''--yes'', AttachToImage opts]"
    by (simp add: buildCosignArgs_def)
  then show ?thesis by blast
qed

section \<open>The tail of the error output\<close>

definition last_n :: "nat \<Rightarrow> 'a list \<Rightarrow> 'a list" where
  "last_n n xs = drop (length xs - n) xs"

lemma last_n_rev: "last_n n xs = rev (take n (rev xs))"
  by (simp add: last_n_def rev_take)

lemma keep_lines_take:
  "int (length keep) \<le> n \<Longrightarrow>
   keep_lines n ls keep = rev (take (nat n - length keep) (filter (\<lambda>l. l \<noteq> []) (map TrimSpace ls))) @ keep"
proof (induction ls arbitrary: keep)
  case (Cons l ls)
  show ?case
  proof (cases "int (length keep) < n")
    case True
    then have "nat n - length keep = Suc (nat n - Suc (length keep))" by linarith
    with True Cons.IH [of keep] Cons.IH [of "TrimSpace l # keep"] show ?thesis by (auto simp: nat_less_iff)
  next
    case False
    with Cons.prems have "nat n - length keep = 0" by linarith
    with False show ?thesis by simp
  qed
qed simp

lemma TrimSpace_Nil [simp]: "TrimSpace [] = []"
  by (simp add: TrimSpace_def)

lemma SplitC_trailing: "SplitC c (s @ [c]) = SplitC c s @ [[]]"
  by (induction c s rule: SplitC.induct) (auto split: list.splits)

lemma nonempty_lines_trimmed:
  "filter (\<lambda>l. l \<noteq> []) (map TrimSpace (SplitC c (TrimRight_byte s c))) = filter (\<lambda>l. l \<noteq> []) (map TrimSpace (SplitC c s))"
proof (induction s rule: rev_induct)
  case (snoc x s)
  show ?case
  proof (cases "x = c")
    case True
    then show ?thesis using snoc.IH by (simp add: TrimRight_byte_def SplitC_trailing)
  next
    case False
    then show ?thesis by (simp add: TrimRight_byte_def)
  qed
qed (simp add: TrimRight_byte_def)

text \<open>
  The tail of the error output in the log is the last \<open>n\<close> non-blank lines of the output, trimmed
  and in their order: trailing newlines, blank lines and an output shorter than \<open>n\<close> lines are
  handled as the reference over the whole output says, and nothing is logged for \<open>n \<le> 0\<close>.
\<close>

theorem lastStderrLines_last:
  "lastStderrLines s n =
     Join [newline] (last_n (nat n) (filter (\<lambda>l. l \<noteq> []) (map TrimSpace (SplitC newline s))))"
proof (cases "s = [] \<or> n \<le> 0")
  case True
  then show ?thesis by (auto simp: lastStderrLines_def last_n_def)
next
  case False
  then show ?thesis
    using keep_lines_take [of "[]" n "rev (SplitC newline (TrimRight_byte s newline))"]
    by (simp add: lastStderrLines_def last_n_rev rev_filter [symmetric] rev_map [symmetric] nonempty_lines_trimmed)
qed

section \<open>Properties\<close>

text \<open>
  What the log shows of the arguments does not depend on the key: two runs that differ only in
  the path of the private key log the same list, of the same length as the real one.  The two paths
  must not be spelled like one of the redacted options, since such a value is taken for the option.
\<close>

theorem logged_arguments_hide_key:
  assumes "k1 \<noteq> []" "k1 \<notin> set sensitive_flags" "k2 \<noteq> []" "k2 \<notin> set sensitive_flags"
  shows "maskSensitive (buildCosignArgs tmp (opts\<lparr> SignKeyPath := k1 \<rparr>))
           = maskSensitive (buildCosignArgs tmp (opts\<lparr> SignKeyPath := k2 \<rparr>))
         \<and> length (maskSensitive (buildCosignArgs tmp (opts\<lparr> SignKeyPath := k1 \<rparr>)))
           = length (buildCosignArgs tmp (opts\<lparr> SignKeyPath := k1 \<rparr>))"
proof -
  obtain pre post where "\<forall>k. k \<noteq> [] \<longrightarrow> buildCosignArgs tmp (opts\<lparr> SignKeyPath := k \<rparr>) = pre @ ''--key'' # k # post"
    using buildCosignArgs_key [of "opts\<lparr> SignKeyPath := k1 \<rparr>" tmp] assms(1) by auto
  with assms masked_key_any [of k1 k2 False pre post] show ?thesis
    unfolding maskSensitive_masked by simp
qed

definition demo_sign_options :: SignOptions where
  "demo_sign_options =
     \<lparr> SignFormat = '' SPDX-JSON'', AttachToImage = [], OutputFile = ''sbom.sig'', SignKeyPath = ''prod.key'',
       KeyPasswordEnv = ''PW'', SignRekorURL = [], SignFulcioURL = [], SignTUFMirror = [], SignCABundle = [] \<rparr>"

lemma logged_arguments_hide_key_witness:
  "maskSensitive (buildCosignArgs ''t'' (demo_sign_options\<lparr> SignKeyPath := ''a.key'' \<rparr>))
     = maskSensitive (buildCosignArgs ''t'' (demo_sign_options\<lparr> SignKeyPath := ''b.key'' \<rparr>))
   \<and> maskSensitive (buildCosignArgs ''t'' (demo_sign_options\<lparr> SignKeyPath := ''a.key'' \<rparr>))
       = [''sign-blob'', ''--output-signature'', ''sbom.sig'', ''--key'', ''<redacted>'', ''--yes'', ''t'']"
  using logged_arguments_hide_key [of "''a.key''" "''b.key''" "''t''" demo_sign_options]
  by (simp add: sensitive_flags_def maskSensitive_def buildCosignArgs_def demo_sign_options_def redacted_def)

text \<open>The two clauses of a verified run: the scope of the signature and the object it is checked for.\<close>

definition scoped_args :: "string list \<Rightarrow> bool" where
  "scoped_args args \<longleftrightarrow>
     (\<exists>k. k \<noteq> [] \<and> Contains args [''--key'', k]) \<or>
     (\<exists>i u. i \<noteq> [] \<and> u \<noteq> [] \<and> Contains args [''--certificate-identity-regexp'', i, ''--certificate-oidc-issuer'', u])"

lemma buildVerifyArgs_form:
  "buildVerifyArgs opts =
     appendCommonVerifyArgs (if AttachedToImage opts \<noteq> [] then [''verify-attestation'']
                             else [''verify-blob'', ''--signature'', SignaturePath opts]) opts
     @ [if AttachedToImage opts \<noteq> [] then AttachedToImage opts else SBOMPath opts]"
  by (simp add: buildVerifyArgs_def buildVerifyBlobArgs_def buildVerifyAttestationArgs_def)

lemma validated_args_scoped:
  assumes "validate_verify opts = None"
  shows "scoped_args (buildVerifyArgs opts)"
proof (cases "VerifyKeyPath opts = []")
  case False
  let ?pre = "if AttachedToImage opts \<noteq> [] then [''verify-attestation''] else [''verify-blob'', ''--signature'', SignaturePath opts]"
  from False have "\<exists>v. buildVerifyArgs opts = ?pre @ [''--key'', VerifyKeyPath opts] @ v"
    unfolding buildVerifyArgs_form appendCommonVerifyArgs_def by simp
  then have "Contains (buildVerifyArgs opts) [''--key'', VerifyKeyPath opts]" unfolding Contains_iff by blast
  with False show ?thesis unfolding scoped_args_def by blast
next
  case True
  with assms have ne: "CertIdentityRegexp opts \<noteq> []" "CertOIDCIssuer opts \<noteq> []"
    by (auto simp: validate_verify_def Let_def split: if_splits)
  let ?w = "[''--certificate-identity-regexp'', CertIdentityRegexp opts, ''--certificate-oidc-issuer'', CertOIDCIssuer opts]"
  let ?pre = "if AttachedToImage opts \<noteq> [] then [''verify-attestation''] else [''verify-blob'', ''--signature'', SignaturePath opts]"
  have "\<exists>v. buildVerifyArgs opts = ?pre @ ?w @ v"
    unfolding buildVerifyArgs_form appendCommonVerifyArgs_def using True ne by simp
  then have "\<exists>u v. buildVerifyArgs opts = u @ ?w @ v" by blast
  with ne show ?thesis unfolding scoped_args_def Contains_iff by blast
qed

lemma validated_target:
  "validate_verify opts = None \<Longrightarrow>
   (AttachedToImage opts \<noteq> [] \<longleftrightarrow> SignaturePath opts = []) \<and> last (buildVerifyArgs opts) \<noteq> []"
  by (auto simp: validate_verify_def Let_def buildVerifyArgs_form split: if_splits)

text \<open>
  C28.  \<open>astinus verify\<close> reports a verification only if \<open>cosign\<close> itself succeeded on arguments that name
  a public key or else both an identity and an issuer, that end with the object to check, and that name a
  detached signature exactly if no image is named: no combination of flags reaches the line
  \<open>verified\<close> with an unscoped or untargeted check.
\<close>

theorem verified_is_scoped:
  assumes "runVerify env now cosignPath opts fs = (Inr out, fs')"
  shows "\<exists>binary stdout stderr.
           LookPath env (if cosignPath = [] then ''cosign'' else cosignPath) = Some binary \<and>
           RunCosign env binary (buildVerifyArgs opts) (buildVerifyEnv opts) fs = (fs', None, stdout, stderr) \<and>
           out = ''verified: '' @ now @ [newline] @ stdout \<and>
           scoped_args (buildVerifyArgs opts) \<and> last (buildVerifyArgs opts) \<noteq> [] \<and>
           (AttachedToImage opts \<noteq> [] \<longleftrightarrow> SignaturePath opts = [])"
proof -
  obtain binary where b: "NewVerifier env cosignPath = Inr binary"
    using assms by (auto simp: runVerify_def split: sum.splits)
  then have look: "LookPath env (if cosignPath = [] then ''cosign'' else cosignPath) = Some binary"
    by (auto simp: NewVerifier_def defaultCosignBinary_def Let_def split: option.splits if_splits)
  obtain stdout where v: "Verify_cosign env binary opts fs = (Inr stdout, fs')" "out = ''verified: '' @ now @ [newline] @ stdout"
    using assms b by (auto simp: runVerify_def split: sum.splits prod.splits)
  then have ok: "validate_verify opts = None" by (auto simp: Verify_cosign_def split: option.splits)
  with v(1) obtain stderr where
    "RunCosign env binary (buildVerifyArgs opts) (buildVerifyEnv opts) fs = (fs', None, stdout, stderr)"
    by (auto simp: Verify_cosign_def split: option.splits prod.splits)
  with look v(2) validated_args_scoped [OF ok] validated_target [OF ok] show ?thesis by blast
qed

definition demo_sign_env :: sign_env where
  "demo_sign_env =
     \<lparr> LookPath = (\<lambda>p. Some (''/bin/'' @ p)), Getenv = (\<lambda>v. if v = ''PW'' then ''secret'' else []),
       TempName = (\<lambda>fs. Some ''/tmp/s''), TempShort = (\<lambda>b. None), TempCloses = True,
       RunCosign = (\<lambda>b args e fs. (fs, None, ''ok'', [])) \<rparr>"

definition demo_verify_options :: VerifyOptions where
  "demo_verify_options =
     \<lparr> SBOMPath = [], SignaturePath = [], AttachedToImage = ''img'', VerifyKeyPath = [], CertIdentityRegexp = ''org'',
       CertOIDCIssuer = ''https'', VerifyRekorURL = [], VerifyFulcioURL = [], VerifyTUFMirror = [], VerifyCABundle = [] \<rparr>"

lemma verified_is_scoped_witness:
  "scoped_args (buildVerifyArgs demo_verify_options) \<and>
   fst (runVerify demo_sign_env ''now'' [] (demo_verify_options\<lparr> CertOIDCIssuer := [] \<rparr>) Map.empty) = Inl ExitSigning"
proof -
  have "runVerify demo_sign_env ''now'' [] demo_verify_options Map.empty = (Inr (''verified: now'' @ [newline] @ ''ok''), Map.empty)"
    by (simp add: runVerify_def NewVerifier_def Verify_cosign_def validate_verify_def demo_verify_options_def demo_sign_env_def)
  from verified_is_scoped [OF this] show ?thesis
    by (simp add: runVerify_def NewVerifier_def Verify_cosign_def validate_verify_def demo_verify_options_def demo_sign_env_def)
qed

lemma writeTempSBOM_cases:
  "(case writeTempSBOM env sbom fs of
      (None, fs1) \<Rightarrow> (\<forall>p. TempName env fs = Some p \<and> fs p = None \<longrightarrow> fs1 p = None)
    | (Some p, fs1) \<Rightarrow> TempName env fs = Some p \<and> fs1 = fs(p \<mapsto> sbom))"
  by (auto simp: writeTempSBOM_def split: option.splits)

lemma Sign_cosign_removes:
  assumes "TempName env fs = Some p" "fs p = None"
  shows "snd (Sign_cosign env binary sbom opts fs) p = None"
  using assms writeTempSBOM_cases [where env = env and sbom = sbom and fs = fs]
  by (auto simp: Sign_cosign_def split: option.splits prod.splits)


definition demo_sign_flags :: sign_flags where
  "demo_sign_flags =
     \<lparr> SignWith = ''cosign-key'', SigningKey = ''k'', SigningKeyPasswordEnv = ''PW'', AttachFlag = [], SignatureOutput = ''o.sig'',
       RekorFlag = [], FulcioFlag = [], TUFFlag = [], CAFlag = [], CosignPath = [] \<rparr>"


text \<open>
  A signing step that succeeds with signing requested has run \<open>cosign\<close> on a file that holds the bytes
  of the written output, under the arguments of the flags; the output path is a real one, and the flags
  name a key for \<open>cosign-key\<close> and an image or a signature file.  With no mode nothing happens.
\<close>

theorem signed_bytes_are_output:
  assumes "runSigningStep env fl outputPath formatName fs = (None, fs')"
  shows "if SignWith fl = [] then fs' = fs
         else outputPath \<noteq> ''-'' \<and> (SignWith fl = ''cosign-key'' \<longrightarrow> SigningKey fl \<noteq> []) \<and>
              (AttachFlag fl \<noteq> [] \<or> SignatureOutput fl \<noteq> []) \<and>
              (\<exists>binary body tmp fs2 stdout stderr.
                 fs outputPath = Some body \<and>
                 RunCosign env binary (buildCosignArgs tmp (signOptionsFor fl formatName))
                   (buildCosignEnv (Getenv env) (signOptionsFor fl formatName)) (fs(tmp \<mapsto> body)) = (fs2, None, stdout, stderr) \<and>
                 fs' = fs2(tmp := None))"
proof (cases "SignWith fl = []")
  case True
  with assms show ?thesis by (simp add: runSigningStep_def SignModeNone_def)
next
  case False
  let ?o = "signOptionsFor fl formatName"
  obtain body binary a where s: "outputPath \<noteq> ''-''" "fs outputPath = Some body" "Validate_sign ?o (SignWith fl) = None"
      "Sign_cosign env binary body ?o fs = (Inr a, fs')" "SignMode_IsKnown (SignWith fl)"
    using assms False by (auto simp: runSigningStep_def Let_def SignModeNone_def split: if_splits option.splits sum.splits prod.splits)
  then obtain tmp fs1 where w: "writeTempSBOM env body fs = (Some tmp, fs1)"
    by (auto simp: Sign_cosign_def split: option.splits prod.splits)
  then have "fs1 = fs(tmp \<mapsto> body)" using writeTempSBOM_cases [where env = env and sbom = body and fs = fs] by simp
  with w s(4) have "\<exists>fs2 stdout stderr. RunCosign env binary (buildCosignArgs tmp ?o) (buildCosignEnv (Getenv env) ?o) (fs(tmp \<mapsto> body))
      = (fs2, None, stdout, stderr) \<and> fs' = fs2(tmp := None)"
    by (auto simp: Sign_cosign_def split: option.splits prod.splits)
  moreover have "(SignWith fl = ''cosign-key'' \<longrightarrow> SigningKey fl \<noteq> []) \<and> (AttachFlag fl \<noteq> [] \<or> SignatureOutput fl \<noteq> [])"
    using s(3,5) False
    by (auto simp: Validate_sign_def SignMode_IsKnown_def SignModeNone_def ModeCosignKey_def ModeCosignKeyless_def signOptionsFor_def Let_def
        split: if_splits)
  ultimately show ?thesis using False s(1,2) by (simp only: if_False) blast
qed

lemma signed_bytes_are_output_witness:
  "\<exists>binary body tmp fs2 stdout stderr.
     (Map.empty(''o.json'' \<mapsto> ''{}'')) ''o.json'' = Some body \<and>
     RunCosign demo_sign_env binary (buildCosignArgs tmp (signOptionsFor demo_sign_flags ''x''))
       (buildCosignEnv (Getenv demo_sign_env) (signOptionsFor demo_sign_flags ''x'')) (Map.empty(''o.json'' \<mapsto> ''{}'', tmp \<mapsto> body))
       = (fs2, None, stdout, stderr)"
proof -
  have "runSigningStep demo_sign_env demo_sign_flags ''o.json'' ''x'' (Map.empty(''o.json'' \<mapsto> ''{}''))
      = (None, (Map.empty(''o.json'' \<mapsto> ''{}'', ''/tmp/s'' \<mapsto> ''{}''))(''/tmp/s'' := None))"
    by (simp add: runSigningStep_def demo_sign_flags_def demo_sign_env_def SignModeNone_def SignMode_IsKnown_def ModeCosignKey_def
        Validate_sign_def signOptionsFor_def NewCosignSigner_def Sign_cosign_def writeTempSBOM_def ModeForOptions_def Let_def)
  from signed_bytes_are_output [OF this] show ?thesis by (simp add: demo_sign_flags_def) blast
qed

end
