(* ===== verification/Sources.thy ===== *)
theory Sources
  imports Registry Access CpeSources Fingerprint
begin

text \<open>
  The registry sources (\<open>internal/enrich/registry/sources\<close>): npm, PyPI, Maven and the Go proxy with their projections to
  registry metadata, and the stubs.  What \<open>encoding/json\<close> and \<open>encoding/xml\<close> make of a body is a parameter that fills a
  structure already there, since the sources hand the same structure to every end point; a \<open>json.RawMessage\<close> is
  the JSON value it holds, \<^const>\<open>None\<close> when the field is absent, and its decoding is written out.
\<close>

section \<open>JSON fields of several shapes\<close>

datatype json_value = VNull | VBool bool | VNum string | VStr string | VArr "json_value list" | VObj "(string \<times> json_value) list"

text \<open>\<open>json.Unmarshal\<close> into a string: null leaves it alone.\<close>

fun UnmarshalString :: "json_value \<Rightarrow> string option" where
  "UnmarshalString (VStr s) = Some s"
| "UnmarshalString VNull = Some []"
| "UnmarshalString _ = None"

text \<open>
  \<open>json.Unmarshal\<close> into a structure with string fields: keys match a field up to case, the last value wins, null
  is skipped, and a value of another type is an error.
\<close>

definition matches_field :: "string \<Rightarrow> string \<times> json_value \<Rightarrow> bool" where
  "matches_field name kv \<longleftrightarrow> EqualFold (fst kv) name"

definition field_value :: "(string \<times> json_value) list \<Rightarrow> string \<Rightarrow> string" where
  "field_value kvs name = foldl (\<lambda>acc kv. if matches_field name kv then (case snd kv of VStr s \<Rightarrow> s | _ \<Rightarrow> acc) else acc) [] kvs"

definition fields_ok :: "string list \<Rightarrow> (string \<times> json_value) list \<Rightarrow> bool" where
  "fields_ok names kvs \<longleftrightarrow> list_all (\<lambda>kv. list_ex (\<lambda>n. matches_field n kv) names \<longrightarrow> UnmarshalString (snd kv) \<noteq> None) kvs"

fun UnmarshalStruct :: "string list \<Rightarrow> json_value \<Rightarrow> string list option" where
  "UnmarshalStruct names (VObj kvs) = (if fields_ok names kvs then Some (map (field_value kvs) names) else None)"
| "UnmarshalStruct names VNull = Some (map (\<lambda>_. []) names)"
| "UnmarshalStruct names _ = None"

fun UnmarshalStructs :: "string list \<Rightarrow> json_value \<Rightarrow> string list list option" where
  "UnmarshalStructs names (VArr vs) =
     (let rs = map (UnmarshalStruct names) vs in if list_all (\<lambda>r. r \<noteq> None) rs then Some (map the rs) else None)"
| "UnmarshalStructs names VNull = Some []"
| "UnmarshalStructs names _ = None"

section \<open>Fetching into a structure\<close>

text \<open>
  \<open>FetchJSON\<close> with the parsers of the sources, which decode every 200 answer into the same variable: what a failed
  decoding left there is what the next end point's answer is decoded into.
\<close>

type_synonym 'r filler = "string \<Rightarrow> 'r \<Rightarrow> 'r \<times> string option"

fun fetch_into ::
  "(Endpoint \<Rightarrow> fetch_error + string) \<Rightarrow> 'r filler \<Rightarrow> 'r \<Rightarrow> bool \<Rightarrow> fetch_error option \<Rightarrow> Endpoint list \<Rightarrow> 'r \<times> fetch_error option"
where
  "fetch_into get fill raw transient lastErr [] =
     (raw, Some (case lastErr of Some e \<Rightarrow> e | None \<Rightarrow> if transient then Transient else NotFound))"
| "fetch_into get fill raw transient lastErr (ep # eps) =
     (case get ep of
        Inl NotFound \<Rightarrow> fetch_into get fill raw transient lastErr eps
      | Inl Transient \<Rightarrow> fetch_into get fill raw True lastErr eps
      | Inl e \<Rightarrow> fetch_into get fill raw transient (Some e) eps
      | Inr body \<Rightarrow>
          (case fill body raw of
             (raw', None) \<Rightarrow> (raw', None)
           | (raw', Some e) \<Rightarrow> fetch_into get fill raw' transient (Some (OtherError e)) eps))"

definition FetchInto ::
  "http_env \<Rightarrow> MirrorChain \<Rightarrow> string \<Rightarrow> string \<Rightarrow> 'r filler \<Rightarrow> 'r \<Rightarrow> fetch_error + 'r"
where
  "FetchInto env ch suffix sourceName fill raw =
     (case fetch_into (try_endpoint env Inr sourceName) fill raw False None (Endpoints ch suffix) of
        (raw', None) \<Rightarrow> Inr raw' | (_, Some e) \<Rightarrow> Inl e)"

definition non_empty :: "RMetadata \<Rightarrow> fetch_error + RMetadata option" where
  "non_empty meta = (if Metadata_IsEmpty (Some meta) then Inl NotFound else Inr (Some meta))"

definition no_supplier :: RSupplier where "no_supplier = \<lparr>SupName = [], SupURL = [], SupEmail = []\<rparr>"

definition no_metadata :: RMetadata where
  "no_metadata = \<lparr>MdName = [], MdVersion = [], MdDescription = [], MdLicenses = [], MdSupplier = no_supplier, MdAuthor = [],
     Homepage = [], Repository = [], BugTracker = [], Documentation = [], MdHashes = [], Keywords = []\<rparr>"

section \<open>npm\<close>

subsection \<open>Licences, people and addresses\<close>

definition named_license :: "string \<Rightarrow> string \<Rightarrow> RLicense" where
  "named_license spdx name = \<lparr>RLSPDXID = spdx, RLName = name, RLURL = []\<rparr>"

definition licenseFromString :: "string \<Rightarrow> RLicense list" where
  "licenseFromString s0 =
     (let s = TrimSpace s0 in
        if s = [] \<or> EqualFold s ''UNLICENSED'' then []
        else if HasPrefix s ''('' \<and> HasSuffix s '')'' then [named_license [] (TrimSpace (butlast (tl s)))]
        else if Contains s '' OR '' \<or> Contains s '' AND '' \<or> Contains s '' WITH '' then [named_license [] s]
        else if HasPrefix (ToUpper s) ''SEE LICENSE'' \<or> Contains s '' '' then [named_license [] s]
        else [named_license s s])"

definition normalizeNPMLicense :: "json_value option \<Rightarrow> RLicense list" where
  "normalizeNPMLicense raw =
     (case raw of None \<Rightarrow> []
      | Some v \<Rightarrow>
          (case UnmarshalString v of Some s \<Rightarrow> licenseFromString s
           | None \<Rightarrow>
               (case UnmarshalStruct [''type'', ''url''] v of None \<Rightarrow> []
                | Some fs \<Rightarrow> if hd fs \<noteq> [] then licenseFromString (hd fs) else [])))"

definition normalizeNPMLicenses :: "json_value option \<Rightarrow> RLicense list" where
  "normalizeNPMLicenses raw =
     (case raw of None \<Rightarrow> []
      | Some v \<Rightarrow>
          (case UnmarshalStructs [''type'', ''url''] v of None \<Rightarrow> []
           | Some ls \<Rightarrow> concat (map (\<lambda>fs. if hd fs = [] then [] else licenseFromString (hd fs)) ls)))"

record npmAuthor =
  AName :: string
  AEmail :: string
  AURL :: string

definition no_author :: npmAuthor where "no_author = \<lparr>AName = [], AEmail = [], AURL = []\<rparr>"

text \<open>The trimmed text between the first opening bracket and the closing one after it, and what remains without them.\<close>

definition cut_bracketed :: "char \<Rightarrow> char \<Rightarrow> string \<Rightarrow> string \<times> string" where
  "cut_bracketed opening closing rest =
     (case Index rest [opening] of None \<Rightarrow> ([], rest)
      | Some i \<Rightarrow>
          (case Index (drop (i + 1) rest) [closing] of None \<Rightarrow> ([], rest)
           | Some j \<Rightarrow> (TrimSpace (take j (drop (i + 1) rest)), TrimSpace (take i rest @ drop (i + 1 + j + 1) rest))))"

definition parseNPMAuthorString :: "string \<Rightarrow> npmAuthor" where
  "parseNPMAuthorString s =
     (let (url, rest1) = cut_bracketed (CHR ''('') (CHR '')'') (TrimSpace s);
          (email, rest2) = cut_bracketed (CHR ''<'') (CHR ''>'') rest1
      in \<lparr>AName = TrimSpace rest2, AEmail = email, AURL = url\<rparr>)"

definition decodeNPMAuthor :: "json_value option \<Rightarrow> npmAuthor" where
  "decodeNPMAuthor raw =
     (case raw of None \<Rightarrow> no_author
      | Some v \<Rightarrow>
          (case UnmarshalString v of Some s \<Rightarrow> parseNPMAuthorString s
           | None \<Rightarrow>
               (case UnmarshalStruct [''name'', ''email'', ''url''] v of None \<Rightarrow> no_author
                | Some fs \<Rightarrow> \<lparr>AName = fs ! 0, AEmail = fs ! 1, AURL = fs ! 2\<rparr>)))"

definition cleanVCSURL :: "string \<Rightarrow> string" where
  "cleanVCSURL u0 =
     (let u = TrimPrefix (TrimSpace u0) ''git+'' in
        if list_ex (\<lambda>c. c = CHR ''?'' \<or> c = CHR ''#'') u then u else TrimSuffix u ''.git'')"

definition decodeNPMRepository :: "json_value option \<Rightarrow> string" where
  "decodeNPMRepository raw =
     (case raw of None \<Rightarrow> []
      | Some v \<Rightarrow>
          (case UnmarshalString v of Some s \<Rightarrow> cleanVCSURL s
           | None \<Rightarrow> (case UnmarshalStruct [''type'', ''url''] v of None \<Rightarrow> [] | Some fs \<Rightarrow> cleanVCSURL (fs ! 1))))"

definition decodeNPMBugs :: "json_value option \<Rightarrow> string" where
  "decodeNPMBugs raw =
     (case raw of None \<Rightarrow> []
      | Some v \<Rightarrow>
          (case UnmarshalString v of Some s \<Rightarrow> s
           | None \<Rightarrow> (case UnmarshalStruct [''url'', ''email''] v of None \<Rightarrow> [] | Some fs \<Rightarrow> fs ! 0)))"

definition decodeBase64ToHex :: "string \<Rightarrow> string" where
  "decodeBase64ToHex b64 = (case DecodeString b64 of None \<Rightarrow> [] | Some raw \<Rightarrow> hex_encode raw)"

definition parseSubresourceIntegrity :: "string \<Rightarrow> string \<times> string" where
  "parseSubresourceIntegrity integrity =
     (case IndexByte integrity (CHR ''-'') of None \<Rightarrow> ([], [])
      | Some i \<Rightarrow>
          (let alg = ToLower (TrimSpace (take i integrity)) in
             if alg \<in> {''sha256'', ''sha384'', ''sha512''} then
               (let hex = decodeBase64ToHex (drop (Suc i) integrity) in if hex = [] then ([], []) else (alg, hex))
             else ([], [])))"

subsection \<open>The source\<close>

record npmPackageVersion =
  NvName :: string
  NvVersion :: string
  NvDescription :: string
  NvLicense :: "json_value option"
  NvLicenses :: "json_value option"
  NvAuthor :: "json_value option"
  NvHomepage :: string
  NvRepository :: "json_value option"
  NvBugs :: "json_value option"
  NvMaintainers :: "npmAuthor list"
  DistShasum :: string
  DistIntegrity :: string

definition no_npm :: npmPackageVersion where
  "no_npm = \<lparr>NvName = [], NvVersion = [], NvDescription = [], NvLicense = None, NvLicenses = None, NvAuthor = None, NvHomepage = [],
     NvRepository = None, NvBugs = None, NvMaintainers = [], DistShasum = [], DistIntegrity = []\<rparr>"

definition npm_supplier :: "npmPackageVersion \<Rightarrow> RSupplier" where
  "npm_supplier raw =
     (let a = decodeNPMAuthor (NvAuthor raw) in
        if AName a \<noteq> [] then \<lparr>SupName = AName a, SupURL = AURL a, SupEmail = AEmail a\<rparr>
        else (case NvMaintainers raw of [] \<Rightarrow> no_supplier
          | m # _ \<Rightarrow> \<lparr>SupName = AName m, SupURL = [], SupEmail = AEmail m\<rparr>))"

definition npm_hashes :: "npmPackageVersion \<Rightarrow> props" where
  "npm_hashes raw =
     (let sha = (if DistShasum raw \<noteq> [] then [(''sha1'', DistShasum raw)] else []);
          (alg, hex) = (if DistIntegrity raw \<noteq> [] then parseSubresourceIntegrity (DistIntegrity raw) else ([], []))
      in if alg \<noteq> [] then mput alg hex sha else sha)"

definition convertNPMMetadata :: "npmPackageVersion \<Rightarrow> RMetadata" where
  "convertNPMMetadata raw =
     \<lparr>MdName = NvName raw, MdVersion = NvVersion raw, MdDescription = NvDescription raw,
      MdLicenses = (if normalizeNPMLicense (NvLicense raw) \<noteq> [] then normalizeNPMLicense (NvLicense raw)
        else normalizeNPMLicenses (NvLicenses raw)),
      MdSupplier = npm_supplier raw, MdAuthor = AName (decodeNPMAuthor (NvAuthor raw)), Homepage = NvHomepage raw,
      Repository = decodeNPMRepository (NvRepository raw), BugTracker = decodeNPMBugs (NvBugs raw), Documentation = [],
      MdHashes = npm_hashes raw, Keywords = []\<rparr>"

definition npmUpstream :: string where "npmUpstream = ''https://registry.npmjs.org''"

definition npmPathFor :: "PURL_parts \<Rightarrow> string" where
  "npmPathFor p =
     ''/'' @ (if Namespace p \<noteq> [] then PathEscape (Namespace p @ ''/'' @ PName p) else PName p) @ ''/'' @ PathEscape (PURL_parts.PVersion p)"

definition NPM_Fetch ::
  "http_env \<Rightarrow> npmPackageVersion filler \<Rightarrow> MirrorEntry list \<Rightarrow> string \<Rightarrow> PURL_parts \<Rightarrow> fetch_error + RMetadata option"
where
  "NPM_Fetch env fill mirrors upstream p =
     (if PName p = [] \<or> PURL_parts.PVersion p = [] then Inl UnsupportedPURL
      else (case FetchInto env \<lparr>Mirrors = mirrors, Upstream = upstream\<rparr> (npmPathFor p) ''npm'' fill no_npm of
          Inl e \<Rightarrow> Inl e | Inr raw \<Rightarrow> non_empty (convertNPMMetadata raw)))"

section \<open>PyPI\<close>

record pypiResponse =
  PyName :: string
  PyVersion :: string
  PySummary :: string
  PyDescription :: string
  PyHomePage :: string
  PyProjectURL :: string
  PyProjectURLs :: "json_value gomap"
  PyAuthor :: string
  PyAuthorEmail :: string
  PyMaintainer :: string
  PyMaintainerEmail :: string
  PyLicense :: string
  PyLicenseExpr :: string
  PyKeywords :: string
  PyClassifiers :: "string list"
  PyBugTrackerURL :: string
  PyDocumentationURL :: string
  PyURLs :: "(string \<times> props) list"

definition no_pypi :: pypiResponse where
  "no_pypi = \<lparr>PyName = [], PyVersion = [], PySummary = [], PyDescription = [], PyHomePage = [], PyProjectURL = [], PyProjectURLs = [],
     PyAuthor = [], PyAuthorEmail = [], PyMaintainer = [], PyMaintainerEmail = [], PyLicense = [], PyLicenseExpr = [], PyKeywords = [],
     PyClassifiers = [], PyBugTrackerURL = [], PyDocumentationURL = [], PyURLs = []\<rparr>"

definition pypiDescription :: "pypiResponse \<Rightarrow> string" where
  "pypiDescription raw = (if PySummary raw \<noteq> [] then PySummary raw else PyDescription raw)"

definition classifier_table :: "(string \<times> string) list" where
  "classifier_table =
     [(''License :: OSI Approved :: MIT License'', ''MIT''),
      (''License :: OSI Approved :: Apache Software License'', ''Apache-2.0''),
      (''License :: OSI Approved :: BSD License'', ''BSD-3-Clause''),
      (''License :: OSI Approved :: GNU General Public License v2 (GPLv2)'', ''GPL-2.0-only''),
      (''License :: OSI Approved :: GNU General Public License v3 (GPLv3)'', ''GPL-3.0-only''),
      (''License :: OSI Approved :: GNU Lesser General Public License v3 (LGPLv3)'', ''LGPL-3.0-only''),
      (''License :: OSI Approved :: ISC License (ISCL)'', ''ISC''),
      (''License :: OSI Approved :: Mozilla Public License 2.0 (MPL 2.0)'', ''MPL-2.0'')]"

definition licenseFromClassifier :: "string \<Rightarrow> string" where
  "licenseFromClassifier c = (case map_of classifier_table c of Some spdx \<Rightarrow> spdx | None \<Rightarrow> [])"

fun first_classifier :: "string list \<Rightarrow> RLicense list" where
  "first_classifier [] = []"
| "first_classifier (c # cs) =
     (if licenseFromClassifier c \<noteq> [] then [named_license (licenseFromClassifier c) (licenseFromClassifier c)] else first_classifier cs)"

definition pypiLicense :: "pypiResponse \<Rightarrow> RLicense list" where
  "pypiLicense raw =
     (if PyLicenseExpr raw \<noteq> [] then licenseFromString (PyLicenseExpr raw)
      else if PyLicense raw \<noteq> [] then licenseFromString (PyLicense raw)
      else first_classifier (PyClassifiers raw))"

fun string_at :: "json_value option \<Rightarrow> string" where
  "string_at (Some (VStr s)) = s"
| "string_at _ = []"

fun first_label :: "json_value gomap \<Rightarrow> string list \<Rightarrow> string" where
  "first_label urls [] = []"
| "first_label urls (l # ls) = (if string_at (mget urls l) \<noteq> [] then cleanVCSURL (string_at (mget urls l)) else first_label urls ls)"

definition pypiRepository :: "json_value gomap \<Rightarrow> string" where
  "pypiRepository urls = first_label urls [''Source'', ''Source Code'', ''Repository'', ''GitHub'', ''Code'']"

fun pypiURLByLabel :: "json_value gomap \<Rightarrow> string list \<Rightarrow> string" where
  "pypiURLByLabel [] ls = []"
| "pypiURLByLabel ((k, v) # urls) ls =
     (if string_at (Some v) \<noteq> [] \<and> list_ex (\<lambda>p. Contains (ToLower k) (ToLower p)) ls then string_at (Some v)
      else pypiURLByLabel urls ls)"

definition add_digest :: "props \<Rightarrow> string \<times> string \<Rightarrow> props" where
  "add_digest out kv = (if snd kv = [] \<or> mget out (ToLower (fst kv)) \<noteq> None then out else mput (ToLower (fst kv)) (snd kv) out)"

definition pypiHashes :: "pypiResponse \<Rightarrow> props" where
  "pypiHashes raw = foldl (\<lambda>out u. foldl add_digest out (snd u)) [] (PyURLs raw)"

definition pypiKeywords :: "string \<Rightarrow> string list" where
  "pypiKeywords s = (if s = [] then [] else filter (\<lambda>k. k \<noteq> []) (map TrimSpace (SplitC (CHR '','') s)))"

definition pypi_party :: "pypiResponse \<Rightarrow> RSupplier" where
  "pypi_party raw =
     (if PyAuthor raw \<noteq> [] then \<lparr>SupName = PyAuthor raw, SupURL = [], SupEmail = PyAuthorEmail raw\<rparr>
      else if PyMaintainer raw \<noteq> [] then \<lparr>SupName = PyMaintainer raw, SupURL = [], SupEmail = PyMaintainerEmail raw\<rparr>
      else no_supplier)"

definition convertPyPIMetadata :: "pypiResponse \<Rightarrow> RMetadata" where
  "convertPyPIMetadata raw =
     \<lparr>MdName = PyName raw, MdVersion = PyVersion raw, MdDescription = pypiDescription raw, MdLicenses = pypiLicense raw,
      MdSupplier = pypi_party raw, MdAuthor = SupName (pypi_party raw),
      Homepage = (if PyHomePage raw = [] then PyProjectURL raw else PyHomePage raw),
      Repository = pypiRepository (PyProjectURLs raw),
      BugTracker = (if PyBugTrackerURL raw \<noteq> [] then PyBugTrackerURL raw
        else pypiURLByLabel (PyProjectURLs raw) [''issues'', ''bug'', ''tracker'']),
      Documentation = (if PyDocumentationURL raw = [] then pypiURLByLabel (PyProjectURLs raw) [''docs'', ''documentation'']
        else PyDocumentationURL raw),
      MdHashes = pypiHashes raw, Keywords = pypiKeywords (PyKeywords raw)\<rparr>"

definition pypiUpstream :: string where "pypiUpstream = ''https://pypi.org/pypi''"

definition pypi_suffix :: "PURL_parts \<Rightarrow> string" where
  "pypi_suffix p = ''/'' @ PName p @ (if PURL_parts.PVersion p \<noteq> [] then ''/'' @ PURL_parts.PVersion p else []) @ ''/json''"

definition PyPI_Fetch ::
  "http_env \<Rightarrow> pypiResponse filler \<Rightarrow> MirrorEntry list \<Rightarrow> string \<Rightarrow> PURL_parts \<Rightarrow> fetch_error + RMetadata option"
where
  "PyPI_Fetch env fill mirrors upstream p =
     (if PName p = [] then Inl UnsupportedPURL
      else (case FetchInto env \<lparr>Mirrors = mirrors, Upstream = upstream\<rparr> (pypi_suffix p) ''pypi'' fill no_pypi of
          Inl e \<Rightarrow> Inl e | Inr raw \<Rightarrow> non_empty (convertPyPIMetadata raw)))"

section \<open>Maven\<close>

record mavenDeveloper =
  DevName :: string
  DevEmail :: string
  DevURL :: string

text \<open>\<open>PomLicenses\<close> are pairs of a name and an address.\<close>

record mavenPOM =
  PomGroupID :: string
  PomArtifactID :: string
  PomVersion :: string
  PomName :: string
  PomDescription :: string
  PomURL :: string
  PomLicenses :: "(string \<times> string) list"
  OrgName :: string
  OrgURL :: string
  Developers :: "mavenDeveloper list"
  SCMURL :: string
  SCMConnection :: string
  IssueURL :: string

definition no_pom :: mavenPOM where
  "no_pom = \<lparr>PomGroupID = [], PomArtifactID = [], PomVersion = [], PomName = [], PomDescription = [], PomURL = [], PomLicenses = [],
     OrgName = [], OrgURL = [], Developers = [], SCMURL = [], SCMConnection = [], IssueURL = []\<rparr>"

definition mavenLicenseToSPDX :: "string \<Rightarrow> string" where
  "mavenLicenseToSPDX name =
     (let lower = ToLower (TrimSpace name); has = Contains lower in
        if has ''apache license, version 2.0'' \<or> has ''apache 2'' \<or> has ''apache-2.0'' then ''Apache-2.0''
        else if has ''mit license'' \<or> lower = ''mit'' then ''MIT''
        else if has ''bsd 3-clause'' \<or> has ''bsd-3-clause'' then ''BSD-3-Clause''
        else if has ''bsd 2-clause'' \<or> has ''bsd-2-clause'' then ''BSD-2-Clause''
        else if has ''eclipse public license 2'' then ''EPL-2.0''
        else if has ''eclipse public license 1'' then ''EPL-1.0''
        else if has ''gnu lesser general public license, version 2.1'' then ''LGPL-2.1-only''
        else if has ''gnu lesser general public license, version 3'' then ''LGPL-3.0-only''
        else if has ''isc'' then ''ISC''
        else [])"

definition maven_licenses :: "(string \<times> string) list \<Rightarrow> RLicense list" where
  "maven_licenses ls =
     map (\<lambda>l. \<lparr>RLSPDXID = mavenLicenseToSPDX (fst l), RLName = fst l, RLURL = snd l\<rparr>) (filter (\<lambda>l. fst l \<noteq> []) ls)"

definition maven_supplier :: "mavenPOM \<Rightarrow> PURL_parts \<Rightarrow> RSupplier" where
  "maven_supplier pom p =
     (let s = (if OrgName pom \<noteq> [] then \<lparr>SupName = OrgName pom, SupURL = OrgURL pom, SupEmail = []\<rparr>
        else (case Developers pom of [] \<Rightarrow> no_supplier
          | d # _ \<Rightarrow> \<lparr>SupName = DevName d, SupURL = DevURL d, SupEmail = DevEmail d\<rparr>))
      in if SupName s = [] \<and> Namespace p \<noteq> [] then s\<lparr>SupName := Namespace p\<rparr> else s)"

definition convertMavenMetadata :: "mavenPOM \<Rightarrow> PURL_parts \<Rightarrow> RMetadata" where
  "convertMavenMetadata pom p =
     \<lparr>MdName = (if PomArtifactID pom = [] then PName p else PomArtifactID pom),
      MdVersion = (if PomVersion pom = [] then PURL_parts.PVersion p else PomVersion pom),
      MdDescription = TrimSpace (PomDescription pom), MdLicenses = maven_licenses (PomLicenses pom),
      MdSupplier = maven_supplier pom p,
      MdAuthor = (if OrgName pom \<noteq> [] then [] else case Developers pom of [] \<Rightarrow> [] | d # _ \<Rightarrow> DevName d),
      Homepage = PomURL pom,
      Repository = (if cleanVCSURL (SCMURL pom) = [] then cleanVCSURL (SCMConnection pom) else cleanVCSURL (SCMURL pom)),
      BugTracker = IssueURL pom, Documentation = [], MdHashes = [], Keywords = []\<rparr>"

definition mavenUpstream :: string where "mavenUpstream = ''https://repo1.maven.org/maven2''"

definition maven_suffix :: "PURL_parts \<Rightarrow> string" where
  "maven_suffix p =
     ''/'' @ replace_char (CHR ''.'') slash (Namespace p) @ ''/'' @ PName p @ ''/'' @ PURL_parts.PVersion p @ ''/'' @ PName p @ ''-'' @
     PURL_parts.PVersion p @ ''.pom''"

definition Maven_Fetch ::
  "http_env \<Rightarrow> mavenPOM filler \<Rightarrow> MirrorEntry list \<Rightarrow> string \<Rightarrow> PURL_parts \<Rightarrow> fetch_error + RMetadata option"
where
  "Maven_Fetch env fill mirrors upstream p =
     (if Namespace p = [] \<or> PName p = [] \<or> PURL_parts.PVersion p = [] then Inl UnsupportedPURL
      else (case FetchInto env \<lparr>Mirrors = mirrors, Upstream = upstream\<rparr> (maven_suffix p) ''maven'' fill no_pom of
          Inl e \<Rightarrow> Inl e | Inr pom \<Rightarrow> non_empty (convertMavenMetadata pom p)))"

section \<open>The Go proxy\<close>

definition joinGolangModule :: "PURL_parts \<Rightarrow> string" where
  "joinGolangModule p = (if Namespace p = [] then PName p else Namespace p @ ''/'' @ PName p)"

definition is_upper :: "char \<Rightarrow> bool" where "is_upper c \<longleftrightarrow> 65 \<le> (of_char c :: nat) \<and> (of_char c :: nat) \<le> 90"

text \<open>The loop goes over runes; only ASCII letters change, so the bytes of valid UTF-8 can be taken one by one.\<close>

definition escapeModulePath :: "string \<Rightarrow> string" where
  "escapeModulePath m = concat (map (\<lambda>c. if is_upper c then [CHR ''!'', lower_char c] else [c]) m)"

definition forge_prefixes :: "string list" where
  "forge_prefixes = [''github.com/'', ''gitlab.com/'', ''bitbucket.org/'', ''codeberg.org/'', ''sr.ht/~'', ''git.sr.ht/~'']"

fun vcs_guess :: "string list \<Rightarrow> string \<Rightarrow> string" where
  "vcs_guess [] m = []"
| "vcs_guess (prefix # prefixes) m =
     (case CutPrefix m prefix of None \<Rightarrow> vcs_guess prefixes m
      | Some rest \<Rightarrow>
          (case SplitC slash rest of a # b # _ \<Rightarrow> ''https://'' @ prefix @ a @ ''/'' @ b
           | _ \<Rightarrow> vcs_guess prefixes m))"

definition golangVCSGuess :: "string \<Rightarrow> string" where
  "golangVCSGuess m = vcs_guess forge_prefixes m"

definition golang_description :: string where
  "golang_description =
     ''Go module '' @ [CHR 0xE2, CHR 0x80, CHR 0x94] @
     '' registry-proxy metadata only carries Version+Time; pkg.go.dev scraping deferred (see ADR-0033 '' @ [CHR 0xC2, CHR 0xA7] @
     ''6 follow-ups).''"

definition golangUpstream :: string where "golangUpstream = ''https://proxy.golang.org''"

definition golang_suffix :: "PURL_parts \<Rightarrow> string" where
  "golang_suffix p = ''/'' @ escapeModulePath (joinGolangModule p) @ ''/@v/'' @ PURL_parts.PVersion p @ ''.info''"

text \<open>The structure filled is a pair of the fields Version and Time.\<close>

definition Golang_Fetch ::
  "http_env \<Rightarrow> (string \<times> string) filler \<Rightarrow> MirrorEntry list \<Rightarrow> string \<Rightarrow> PURL_parts \<Rightarrow> fetch_error + RMetadata option"
where
  "Golang_Fetch env fill mirrors upstream p =
     (if PName p = [] \<or> PURL_parts.PVersion p = [] then Inl UnsupportedPURL
      else (case FetchInto env \<lparr>Mirrors = mirrors, Upstream = upstream\<rparr> (golang_suffix p) ''golang'' fill ([], []) of
          Inl e \<Rightarrow> Inl e
        | Inr info \<Rightarrow>
            Inr (Some (no_metadata\<lparr>MdName := joinGolangModule p,
              MdVersion := (if fst info = [] then PURL_parts.PVersion p else fst info),
              MdDescription := golang_description, Repository := golangVCSGuess (joinGolangModule p)\<rparr>))))"

section \<open>Sources\<close>

definition source_for :: "string \<Rightarrow> (PURL_parts \<Rightarrow> fetch_error + RMetadata option) \<Rightarrow> registry_source" where
  "source_for purlType fetch = \<lparr>Supports = (\<lambda>t. EqualFold t purlType), RequiresNetwork = True, SFetch = fetch\<rparr>"

record source_decoders =
  FillNPM :: "npmPackageVersion filler"
  FillPyPI :: "pypiResponse filler"
  FillMaven :: "mavenPOM filler"
  FillGo :: "(string \<times> string) filler"

definition NewNPM :: "http_env \<Rightarrow> source_decoders \<Rightarrow> MirrorEntry list \<Rightarrow> registry_source" where
  "NewNPM env D mirrors = source_for ''npm'' (NPM_Fetch env (FillNPM D) mirrors npmUpstream)"

definition NewPyPI :: "http_env \<Rightarrow> source_decoders \<Rightarrow> MirrorEntry list \<Rightarrow> registry_source" where
  "NewPyPI env D mirrors = source_for ''pypi'' (PyPI_Fetch env (FillPyPI D) mirrors pypiUpstream)"

definition NewMaven :: "http_env \<Rightarrow> source_decoders \<Rightarrow> MirrorEntry list \<Rightarrow> registry_source" where
  "NewMaven env D mirrors = source_for ''maven'' (Maven_Fetch env (FillMaven D) mirrors mavenUpstream)"

definition NewGolang :: "http_env \<Rightarrow> source_decoders \<Rightarrow> MirrorEntry list \<Rightarrow> registry_source" where
  "NewGolang env D mirrors = source_for ''golang'' (Golang_Fetch env (FillGo D) mirrors golangUpstream)"

definition stubSource :: "string \<Rightarrow> registry_source" where
  "stubSource purlType = source_for purlType (\<lambda>p. Inl NotFound)"

definition NewCargo :: registry_source where "NewCargo = stubSource ''cargo''"
definition NewRubyGems :: registry_source where "NewRubyGems = stubSource ''gem''"
definition NewNuGet :: registry_source where "NewNuGet = stubSource ''nuget''"
definition NewDebian :: registry_source where "NewDebian = stubSource ''deb''"
definition NewAlpine :: registry_source where "NewAlpine = stubSource ''apk''"
definition NewRepology :: registry_source where "NewRepology = stubSource ''repology''"
definition NewEcosystems :: registry_source where "NewEcosystems = stubSource ''ecosyste-ms''"

section \<open>Lemmas\<close>

subsection \<open>Decoding into a shared structure\<close>

text \<open>Whether an answer decodes does not depend on what the structure held, and a failure leaves it alone.\<close>

definition clean_filler :: "'r filler \<Rightarrow> 'r \<Rightarrow> bool" where
  "clean_filler fill raw \<longleftrightarrow> (\<forall>body raw' e. fill body raw = (raw', Some e) \<longrightarrow> raw' = raw)"

definition pure_parser :: "'r filler \<Rightarrow> 'r \<Rightarrow> string \<Rightarrow> fetch_error + 'r" where
  "pure_parser fill raw body = (case fill body raw of (raw', None) \<Rightarrow> Inr raw' | (_, Some e) \<Rightarrow> Inl (OtherError e))"

definition bind_parser :: "(Endpoint \<Rightarrow> fetch_error + string) \<Rightarrow> (string \<Rightarrow> fetch_error + 'r) \<Rightarrow> Endpoint \<Rightarrow> fetch_error + 'r" where
  "bind_parser get parser ep = (case get ep of Inl e \<Rightarrow> Inl e | Inr body \<Rightarrow> parser body)"

definition result_of :: "'r \<times> fetch_error option \<Rightarrow> fetch_error + 'r" where
  "result_of r = (case r of (raw, None) \<Rightarrow> Inr raw | (_, Some e) \<Rightarrow> Inl e)"

lemma result_of_simps [simp]: "result_of (raw, None) = Inr raw" "result_of (raw, Some e) = Inl e"
  by (simp_all add: result_of_def)

lemma fetch_into_loop:
  assumes "clean_filler fill raw"
  shows "result_of (fetch_into get fill raw transient lastErr eps) = fetch_loop (bind_parser get (pure_parser fill raw)) transient lastErr eps"
proof (induction eps arbitrary: transient lastErr)
  case (Cons ep eps)
  show ?case
  proof (cases "get ep")
    case (Inl e)
    then show ?thesis by (cases e) (simp_all add: bind_parser_def Cons.IH)
  next
    case (Inr body)
    obtain raw' r where f: "fill body raw = (raw', r)" by fastforce
    show ?thesis
    proof (cases r)
      case None
      then show ?thesis by (simp add: Inr f bind_parser_def pure_parser_def)
    next
      case (Some e)
      then have "raw' = raw" using assms f by (auto simp: clean_filler_def)
      then show ?thesis by (simp add: Inr f Some bind_parser_def pure_parser_def Cons.IH)
    qed
  qed
qed simp

lemma bind_try_endpoint: "bind_parser (try_endpoint env Inr src) parser = try_endpoint env parser src"
  by (rule ext) (simp add: bind_parser_def try_endpoint_def handleResponse_def Let_def split: sum.split)

lemma FetchInto_result_of: "FetchInto env ch suffix src fill raw = result_of (fetch_into (try_endpoint env Inr src) fill raw False None (Endpoints ch suffix))"
  by (simp add: FetchInto_def result_of_def split: prod.split option.split)

lemma FetchInto_clean:
  "clean_filler fill raw \<Longrightarrow> FetchInto env ch suffix src fill raw = FetchJSON env ch suffix src (pure_parser fill raw)"
  by (simp add: FetchInto_result_of fetch_into_loop bind_try_endpoint FetchJSON_def Let_def)

lemma fetch_into_cong:
  "(\<And>ep. ep \<in> set eps \<Longrightarrow> f ep = g ep) \<Longrightarrow> fetch_into f fill raw transient lastErr eps = fetch_into g fill raw transient lastErr eps"
proof (induction eps arbitrary: raw transient lastErr)
  case (Cons ep eps)
  then show ?case by (auto split: sum.split fetch_error.split prod.split option.split)
qed simp

subsection \<open>The interface of a source\<close>

text \<open>
  What the resolver needs of the function that fetches for one ecosystem: it answers with metadata that carries
  something, and with a replace mirror it asks the mirrors alone.
\<close>

definition under_mirror :: "MirrorEntry list \<Rightarrow> string \<Rightarrow> bool" where
  "under_mirror mirrors url \<longleftrightarrow> list_ex (\<lambda>m. HasPrefix url (trim_right slash (MURL m))) mirrors"

definition same_on_mirrors :: "MirrorEntry list \<Rightarrow> http_env \<Rightarrow> (http_request \<Rightarrow> string + http_response) \<Rightarrow> bool" where
  "same_on_mirrors mirrors env other \<longleftrightarrow> (\<forall>req. under_mirror mirrors (RURL req) \<longrightarrow> Do env req = other req)"

lemma FetchInto_air_gap:
  assumes "list_ex (has_mode MirrorModeReplace) mirrors" "same_on_mirrors mirrors env other"
  shows "FetchInto (env\<lparr>Do := other\<rparr>) \<lparr>Mirrors = mirrors, Upstream = up\<rparr> suffix src fill raw = FetchInto env \<lparr>Mirrors = mirrors, Upstream = up\<rparr> suffix src fill raw"
proof -
  let ?ch = "\<lparr>Mirrors = mirrors, Upstream = up\<rparr>"
  have "try_endpoint (env\<lparr>Do := other\<rparr>) Inr src ep = try_endpoint env Inr src ep" if ep: "ep \<in> set (Endpoints ?ch suffix)" for ep
  proof -
    obtain m where m: "m \<in> set mirrors" "ep = mirror_endpoint suffix m"
      using Endpoints_mirrors_only [of ?ch ep suffix] assms(1) ep by auto
    have "HasPrefix (EURL ep) (trim_right slash (MURL m))"
      using m(2) by (simp add: mirror_endpoint_def joinURL_def Let_def)
    then have "under_mirror mirrors (EURL ep)" using m(1) by (auto simp: under_mirror_def list_ex_iff)
    then have "Do env req = other req" if "build_request env ep = Inr req" for req
      using assms(2) build_request_URL [OF that] by (simp add: same_on_mirrors_def)
    then show ?thesis by (auto simp: try_endpoint_def build_request_cong split: sum.split)
  qed
  then show ?thesis unfolding FetchInto_def by (simp cong: fetch_into_cong)
qed

locale metadata_source =
  fixes fetch :: "http_env \<Rightarrow> MirrorEntry list \<Rightarrow> PURL_parts \<Rightarrow> fetch_error + RMetadata option"
  assumes fetch_nonempty: "fetch env mirrors p = Inr m \<Longrightarrow> \<not> Metadata_IsEmpty m"
    and fetch_air_gap: "list_ex (has_mode MirrorModeReplace) mirrors \<Longrightarrow> same_on_mirrors mirrors env other \<Longrightarrow>
      fetch (env\<lparr>Do := other\<rparr>) mirrors p = fetch env mirrors p"
begin

lemma dispatch:
  assumes "EqualFold (PType p) t" "list_all (\<lambda>s. \<not> Supports s (PType p)) before" "list_all (\<lambda>s. \<not> Supports s (PType p)) after"
  shows "Registry.walk_sources True (before @ source_for t (fetch env mirrors) # after) p =
    (case fetch env mirrors p of Inr m \<Rightarrow> m | Inl _ \<Rightarrow> None, True)"
proof -
  have skip: "Registry.walk_sources True (xs @ ys) p = Registry.walk_sources True ys p" if "list_all (\<lambda>s. \<not> Supports s (PType p)) xs" for xs ys
    using that by (induction xs) auto
  have none: "Registry.walk_sources True after p = (None, False)" using skip [OF assms(3), of "[]"] by simp
  show ?thesis
    using fetch_nonempty [of env mirrors p] none assms(1)
    by (cases "fetch env mirrors p") (auto simp: skip [OF assms(2)] source_for_def Metadata_IsEmpty_def split: option.split)
qed

end

lemma non_empty_Inr: "non_empty md = Inr m \<Longrightarrow> \<not> Metadata_IsEmpty m"
  by (auto simp: non_empty_def split: if_splits)

interpretation npm: metadata_source "\<lambda>env ms. NPM_Fetch env fill ms up" for fill up
proof
  show "\<not> Metadata_IsEmpty m" if "NPM_Fetch env fill ms up p = Inr m" for env ms p m
    using that by (auto simp: NPM_Fetch_def non_empty_Inr split: if_splits sum.splits)
qed (simp add: NPM_Fetch_def FetchInto_air_gap)

interpretation pypi: metadata_source "\<lambda>env ms. PyPI_Fetch env fill ms up" for fill up
proof
  show "\<not> Metadata_IsEmpty m" if "PyPI_Fetch env fill ms up p = Inr m" for env ms p m
    using that by (auto simp: PyPI_Fetch_def non_empty_Inr split: if_splits sum.splits)
qed (simp add: PyPI_Fetch_def FetchInto_air_gap)

interpretation maven: metadata_source "\<lambda>env ms. Maven_Fetch env fill ms up" for fill up
proof
  show "\<not> Metadata_IsEmpty m" if "Maven_Fetch env fill ms up p = Inr m" for env ms p m
    using that by (auto simp: Maven_Fetch_def non_empty_Inr split: if_splits sum.splits)
qed (simp add: Maven_Fetch_def FetchInto_air_gap)

interpretation golang: metadata_source "\<lambda>env ms. Golang_Fetch env fill ms up" for fill up
proof
  show "\<not> Metadata_IsEmpty m" if "Golang_Fetch env fill ms up p = Inr m" for env ms p m
    using that by (auto simp: Golang_Fetch_def Metadata_IsEmpty_def golang_description_def split: if_splits sum.splits)
qed (simp add: Golang_Fetch_def FetchInto_air_gap)

interpretation stub: metadata_source "\<lambda>env ms p. Inl NotFound"
  by unfold_locales simp_all

subsection \<open>Trimming and brackets\<close>

lemma TrimSpace_pad:
  assumes "s \<noteq> []" "\<not> is_space (hd s)" "\<not> is_space (last s)" "list_all is_space sp"
  shows "TrimSpace (s @ sp) = s"
proof -
  have "dropWhile is_space (s @ sp) = s @ sp" using assms(1,2) by (cases s) auto
  moreover have "dropWhile is_space (rev sp @ rev s) = rev s"
  proof -
    have "dropWhile is_space (rev sp @ rev s) = dropWhile is_space (rev s)"
      using assms(4) by (simp add: dropWhile_append list_all_iff)
    also have "\<dots> = rev s" using assms(1,3) by (cases "rev s") (auto simp: last_rev hd_rev [symmetric])
    finally show ?thesis .
  qed
  ultimately show ?thesis by (simp add: TrimSpace_def)
qed

definition trimmed :: "string \<Rightarrow> bool" where
  "trimmed s \<longleftrightarrow> s = [] \<or> (\<not> is_space (hd s) \<and> \<not> is_space (last s))"

lemma TrimSpace_trimmed: "trimmed s \<Longrightarrow> TrimSpace s = s"
  using TrimSpace_pad [of s "[]"] by (cases "s = []") (simp_all add: trimmed_def TrimSpace_def)

lemma Index_char: "c \<notin> set u \<Longrightarrow> Index (u @ c # v) [c] = Some (length u)"
  by (induction u) auto

lemma cut_bracketed_between:
  assumes "a \<notin> set u" "b \<notin> set t" "trimmed t"
  shows "cut_bracketed a b (u @ a # t @ b # v) = (t, TrimSpace (u @ v))"
  using assms by (simp add: cut_bracketed_def Index_char TrimSpace_trimmed)

subsection \<open>Digests and module paths\<close>

lemma hex_encode_Nil [simp]: "hex_encode s = [] \<longleftrightarrow> s = []"
  by (cases s) (auto simp: hex_encode_def Let_def)

lemma parse_integrity:
  assumes "alg \<in> {''sha256'', ''sha384'', ''sha512''}" "raw \<noteq> []"
  shows "parseSubresourceIntegrity (alg @ ''-'' @ b64_encode raw) = (alg, hex_encode raw)"
proof -
  have "ToLower (TrimSpace alg) = alg" "CHR ''-'' \<notin> set alg"
    using assms(1) by (auto simp: go_defs go_char)
  then show ?thesis
    using assms by (simp add: parseSubresourceIntegrity_def IndexByte_append decodeBase64ToHex_def DecodeString_encode Let_def)
qed

lemma lower_of_upper:
  assumes "is_upper c"
  shows "\<not> is_upper (lower_char c)" "lower_char c \<noteq> CHR ''!''" "lower_char (lower_char c) = lower_char c" "c \<noteq> CHR ''!''"
    "is_upper d \<Longrightarrow> lower_char c = lower_char d \<Longrightarrow> c = d"
proof -
  have n: "(of_char (lower_char c) :: nat) = of_char c + 32" using assms by (simp add: lower_char_def is_upper_def)
  then show "\<not> is_upper (lower_char c)" using assms by (simp add: is_upper_def)
  have bang: "(of_char (CHR ''!'') :: nat) = 33" by simp
  show "lower_char c \<noteq> CHR ''!''" using n bang assms by (auto simp: is_upper_def)
  show "lower_char (lower_char c) = lower_char c" using n assms by (simp add: lower_char_def [of "lower_char c"] is_upper_def)
  show "c \<noteq> CHR ''!''" using assms by (auto simp: is_upper_def)
  show "c = d" if "is_upper d" "lower_char c = lower_char d"
  proof -
    have "(of_char (lower_char d) :: nat) = of_char d + 32" using that(1) by (simp add: lower_char_def is_upper_def)
    then have "(of_char c :: nat) = of_char d" using n that(2) by simp
    then show ?thesis by simp
  qed
qed

lemma escape_Cons: "escapeModulePath (c # m) = (if is_upper c then CHR ''!'' # lower_char c # escapeModulePath m else c # escapeModulePath m)"
  by (simp add: escapeModulePath_def)

lemma escape_injective: "CHR ''!'' \<notin> set m \<Longrightarrow> CHR ''!'' \<notin> set m' \<Longrightarrow> escapeModulePath m = escapeModulePath m' \<Longrightarrow> m = m'"
proof (induction m arbitrary: m')
  case Nil
  then show ?case by (cases m') (simp_all add: escape_Cons escapeModulePath_def split: if_splits)
next
  case (Cons c m)
  from Cons.prems(3) obtain d n where m': "m' = d # n" by (cases m') (simp_all add: escape_Cons escapeModulePath_def split: if_splits)
  show ?case
    using Cons.prems Cons.IH [of n] lower_of_upper(5) [of c d] unfolding m' by (auto simp: escape_Cons split: if_splits)
qed

lemma escape_no_upper: "list_all (\<lambda>c. \<not> is_upper c) (escapeModulePath m)"
  by (induction m) (auto simp: escape_Cons lower_of_upper(1) is_upper_def [of "CHR ''!''"] simp: escapeModulePath_def)

lemma ToLower_escape: "ToLower (escapeModulePath m) = escapeModulePath m"
proof -
  have "lower_char c = c" if "\<not> is_upper c" for c using that by (auto simp: lower_char_def is_upper_def)
  then show ?thesis using escape_no_upper [of m] by (simp add: ToLower_def list_all_iff map_idI)
qed

subsection \<open>Licences\<close>

lemma licenseFromString_size: "length (licenseFromString s) \<le> 1"
  by (simp add: licenseFromString_def Let_def)

lemma add_digest_keys:
  assumes "map_ok out" "\<And>k. k \<in> fst ` set out \<Longrightarrow> ToLower k = k"
  shows "map_ok (add_digest out kv)" "k \<in> fst ` set (add_digest out kv) \<Longrightarrow> ToLower k = k"
  using assms by (auto simp: add_digest_def distinct_update update_keys dom_update split: if_splits)

text \<open>The digests of all files in the order they are met, their algorithms in lower case.\<close>

definition lower_digests :: "props \<Rightarrow> props" where
  "lower_digests ds = map (\<lambda>kv. (ToLower (fst kv), snd kv)) (filter (\<lambda>kv. snd kv \<noteq> []) ds)"

lemma fold_digests: "mget (foldl add_digest out ds) k = (case mget out k of Some v \<Rightarrow> Some v | None \<Rightarrow> mget (lower_digests ds) k)"
  by (induction ds arbitrary: out) (auto simp: lower_digests_def add_digest_def update_conv' split: option.split)

lemma pypiHashes_flat: "pypiHashes raw = foldl add_digest [] (concat (map snd (PyURLs raw)))"
proof -
  have "foldl (\<lambda>out u. foldl add_digest out (snd u)) out us = foldl add_digest out (concat (map snd us))" for out and us :: "(string \<times> props) list"
    by (induction us arbitrary: out) simp_all
  then show ?thesis by (simp add: pypiHashes_def)
qed

section \<open>Properties\<close>

definition replaced :: "MirrorEntry list" where
  "replaced = [\<lparr>Ecosystem = ''npm'', MURL = ''https://npm.corp/'', MMode = ''replace'', MAuth = None, MTLS = None, MHeaders = []\<rparr>]"

definition demo_purl_npm :: PURL_parts where
  "demo_purl_npm = \<lparr>PType = ''npm'', Namespace = ''@corp'', PName = ''lib'', PVersion = ''1.0'', Qualifiers = [], Subpath = []\<rparr>"

definition demo_http :: http_env where
  "demo_http = \<lparr>Getenv = (\<lambda>_. []), Bundle = (\<lambda>_. None), KeyPair = (\<lambda>_ _. None), NewRequestError = (\<lambda>_. None),
     Do = (\<lambda>req. Inr \<lparr>StatusCode = 200, RBody = RURL req\<rparr>)\<rparr>"

definition demo_decoders :: source_decoders where
  "demo_decoders = \<lparr>FillNPM = (\<lambda>body r. (r\<lparr>NvDescription := body\<rparr>, None)), FillPyPI = (\<lambda>body r. (r\<lparr>PySummary := body\<rparr>, None)),
     FillMaven = (\<lambda>body r. (r\<lparr>PomName := body\<rparr>, None)), FillGo = (\<lambda>body r. ((body, snd r), None))\<rparr>"

text \<open>
  C29.  With a mirror in replace mode none of the sources depends on the public registry: whatever would be answered
  at an address outside the mirrors, the metadata and the errors are the same.
\<close>

theorem sources_stay_on_mirrors:
  assumes "list_ex (has_mode MirrorModeReplace) mirrors" "same_on_mirrors mirrors env other"
    and "new \<in> {NewNPM, NewPyPI, NewMaven, NewGolang}"
  shows "SFetch (new (env\<lparr>Do := other\<rparr>) D mirrors) p = SFetch (new env D mirrors) p"
  using assms(3) npm.fetch_air_gap [OF assms(1,2)] pypi.fetch_air_gap [OF assms(1,2)] maven.fetch_air_gap [OF assms(1,2)]
    golang.fetch_air_gap [OF assms(1,2)]
  by (auto simp: NewNPM_def NewPyPI_def NewMaven_def NewGolang_def source_for_def)

theorem sources_stay_on_mirrors_witness:
  "SFetch (NewNPM (demo_http\<lparr>Do := \<lambda>req. if under_mirror replaced (RURL req) then Do demo_http req else Inl ''unreachable''\<rparr>)
      demo_decoders replaced) demo_purl_npm = SFetch (NewNPM demo_http demo_decoders replaced) demo_purl_npm \<and>
   SFetch (NewNPM demo_http demo_decoders replaced) demo_purl_npm =
     Inr (Some (no_metadata\<lparr>MdDescription := ''https://npm.corp/@corp%2Flib/1.0''\<rparr>))"
proof
  show "SFetch (NewNPM (demo_http\<lparr>Do := \<lambda>req. if under_mirror replaced (RURL req) then Do demo_http req else Inl ''unreachable''\<rparr>)
      demo_decoders replaced) demo_purl_npm = SFetch (NewNPM demo_http demo_decoders replaced) demo_purl_npm"
  proof (rule sources_stay_on_mirrors)
    show "list_ex (has_mode MirrorModeReplace) replaced" by code_simp
  qed (simp_all add: same_on_mirrors_def)
qed code_simp

text \<open>Whatever one of the sources returns carries something: an answer that says nothing is "not found".\<close>

theorem sources_answer_something:
  assumes "new \<in> {NewNPM, NewPyPI, NewMaven, NewGolang}" "SFetch (new env D mirrors) p = Inr m"
  shows "\<not> Metadata_IsEmpty m"
  using assms npm.fetch_nonempty pypi.fetch_nonempty maven.fetch_nonempty golang.fetch_nonempty
  by (auto simp: NewNPM_def NewPyPI_def NewMaven_def NewGolang_def source_for_def)

theorem sources_answer_something_witness:
  "\<exists>m. SFetch (NewGolang demo_http demo_decoders []) demo_purl_npm = Inr m \<and> \<not> Metadata_IsEmpty m"
proof -
  obtain m where m: "SFetch (NewGolang demo_http demo_decoders []) demo_purl_npm = Inr m"
    by (simp add: NewGolang_def source_for_def Golang_Fetch_def demo_purl_npm_def FetchInto_def Endpoints_def try_endpoint_def
        build_request_def buildMirrorTLSConfig_def applyAuth_def demo_http_def handleResponse_def demo_decoders_def golangUpstream_def)
  then have "\<not> Metadata_IsEmpty m" by (intro sources_answer_something [of NewGolang]) simp_all
  with m show ?thesis by blast
qed

text \<open>
  Decoding every answer into one variable is as good as decoding each into a fresh one, provided a decoding that
  fails leaves the variable alone.
\<close>

theorem shared_structure_fetch:
  assumes "clean_filler fill raw"
  shows "FetchInto env ch suffix src fill raw = FetchJSON env ch suffix src (pure_parser fill raw)"
  using assms by (rule FetchInto_clean)

theorem shared_structure_fetch_witness:
  "FetchInto demo_http \<lparr>Mirrors = replaced, Upstream = npmUpstream\<rparr> ''/x'' ''npm'' (FillNPM demo_decoders) no_npm =
     FetchJSON demo_http \<lparr>Mirrors = replaced, Upstream = npmUpstream\<rparr> ''/x'' ''npm'' (pure_parser (FillNPM demo_decoders) no_npm)"
  by (rule shared_structure_fetch) (simp add: clean_filler_def demo_decoders_def)



text \<open>A subresource integrity string is read back as the algorithm and the digest in hexadecimal.\<close>

theorem integrity_roundtrip:
  assumes "alg \<in> {''sha256'', ''sha384'', ''sha512''}" "raw \<noteq> []"
  shows "parseSubresourceIntegrity (alg @ ''-'' @ b64_encode raw) = (alg, hex_encode raw)"
  using assms by (rule parse_integrity)

theorem integrity_roundtrip_witness: "parseSubresourceIntegrity (''sha512'' @ ''-'' @ b64_encode ''abcd'') = (''sha512'', hex_encode ''abcd'')"
  by (rule integrity_roundtrip) simp_all

text \<open>An author written as \<open>Name <email> (url)\<close> is read back as the three.\<close>

theorem author_roundtrip:
  assumes "name \<noteq> []" "trimmed name" "trimmed email" "trimmed url"
    and "{CHR ''('', CHR ''<''} \<inter> set name = {}" "{CHR ''('', CHR ''>''} \<inter> set email = {}" "CHR '')'' \<notin> set url"
  shows "parseNPMAuthorString (name @ '' <'' @ email @ ''> ('' @ url @ '')'') = \<lparr>AName = name, AEmail = email, AURL = url\<rparr>"
proof -
  let ?s = "name @ '' <'' @ email @ ''> ('' @ url @ '')''"
  have ends: "\<not> is_space (hd name)" "\<not> is_space (last name)" using assms(1,2) by (simp_all add: trimmed_def)
  have brackets: "\<not> is_space (CHR '')'')" "\<not> is_space (CHR ''>'')" "is_space (CHR '' '')" by (simp_all add: is_space_def)
  have "trimmed ?s" using assms(1) ends(1) brackets by (simp add: trimmed_def)
  moreover have "cut_bracketed (CHR ''('') (CHR '')'') ((name @ '' <'' @ email @ ''> '') @ CHR ''('' # url @ CHR '')'' # []) =
      (url, TrimSpace ((name @ '' <'' @ email @ ''> '') @ []))"
    using assms by (intro cut_bracketed_between) auto
  moreover have "TrimSpace ((name @ '' <'' @ email @ ''>'') @ '' '') = name @ '' <'' @ email @ ''>''"
    using assms(1) ends(1) brackets by (intro TrimSpace_pad) simp_all
  moreover have "cut_bracketed (CHR ''<'') (CHR ''>'') ((name @ '' '') @ CHR ''<'' # email @ CHR ''>'' # []) =
      (email, TrimSpace ((name @ '' '') @ []))"
    using assms brackets by (intro cut_bracketed_between) auto
  moreover have "TrimSpace (name @ '' '') = name" using assms(1) ends brackets by (intro TrimSpace_pad) simp_all
  ultimately show ?thesis
    using assms(2) by (simp add: parseNPMAuthorString_def TrimSpace_trimmed)
qed

theorem author_roundtrip_witness:
  "parseNPMAuthorString (''Ada L'' @ '' <'' @ ''ada@x.org'' @ ''> ('' @ ''https://x.org'' @ '')'') = \<lparr>AName = ''Ada L'', AEmail = ''ada@x.org'', AURL = ''https://x.org''\<rparr>"
  by (rule author_roundtrip) (simp_all add: trimmed_def is_space_def)

text \<open>
  PyPI's digests come one per algorithm, in lower case: the first that is not empty among those of the files, in the order met.
\<close>

theorem pypiHashes_first:
  "mget (pypiHashes raw) k = mget (lower_digests (concat (map snd (PyURLs raw)))) k"
  by (simp add: pypiHashes_flat fold_digests)

section \<open>Observations\<close>

text \<open>Brackets around the first and the last operand are taken for brackets around the whole expression.\<close>

lemma paren_license: "licenseFromString ''(MIT) OR (Apache-2.0)'' = [named_license [] ''MIT) OR (Apache-2.0'']"
  by code_simp

lemma isc_substring: "mavenLicenseToSPDX ''BSD with disclaimer'' = ''ISC''"
  by code_simp

lemma label_order_matters:
  "pypiURLByLabel [(''Bug Tracker'', VStr ''a''), (''Issues'', VStr ''b'')] [''issues'', ''bug''] \<noteq>
   pypiURLByLabel (rev [(''Bug Tracker'', VStr ''a''), (''Issues'', VStr ''b'')]) [''issues'', ''bug'']"
  by code_simp

lemma label_is_no_prefix: "pypiURLByLabel [(''Debug info'', VStr ''a'')] [''issues'', ''bug''] = ''a''"
  by code_simp

lemma maven_never_empty: "Namespace p \<noteq> [] \<Longrightarrow> \<not> Metadata_IsEmpty (Some (convertMavenMetadata pom p))"
  by (auto simp: Metadata_IsEmpty_def convertMavenMetadata_def maven_supplier_def Let_def)

text \<open>
  A field of the wrong type is an error, yet the other fields are filled: here the first mirror's description ends up in the
  metadata although the second mirror's answer, the one accepted, has none.
\<close>

definition leaky :: "npmPackageVersion filler" where
  "leaky body r = (if HasPrefix body ''https://bad'' then (r\<lparr>NvDescription := ''stale''\<rparr>, Some ''cannot unmarshal number into Go struct field'')
     else (r\<lparr>NvHomepage := ''https://good''\<rparr>, None))"

definition two_mirrors :: "MirrorEntry list" where
  "two_mirrors = [(replaced ! 0)\<lparr>MURL := ''https://bad''\<rparr>, (replaced ! 0)\<lparr>MURL := ''https://good''\<rparr>]"

lemma stale_fields_leak:
  "NPM_Fetch demo_http leaky two_mirrors npmUpstream demo_purl_npm =
     Inr (Some (no_metadata\<lparr>MdDescription := ''stale'', Homepage := ''https://good''\<rparr>))"
  by code_simp

end
