(* ===== verification/Wiring.thy ===== *)
theory Wiring
  imports Pipeline Dedup Attribution Compliance CpeEnricher Basediff PathClassifier Matchers Untracked Registry Lifecycle CpeSources
    Prefilter Extract Sources
begin

text \<open>
  The wiring of the \<open>enrich\<close> command (\<open>internal/cli/enrich.go\<close>, \<open>internal/cli/cpe_degrade.go\<close>): the builders that turn
  the flags into the ten enrichers, \<open>allEnrichers\<close> with the enrichers of the other theories, the selection by
  \<open>--enable\<close> and \<open>--disable\<close>, and the compliance gate.  What is reached over the network is a record of its
  own, so that a property can say that a run does not depend on it.
\<close>

section \<open>Flags and surroundings\<close>

record enrich_flags =
  FNoNetwork :: bool
  FOfflineDB :: string
  FBase :: string
  FIncludeRedundant :: bool
  FIncludeNoise :: bool
  FRulesFile :: string
  FNoCluster :: bool
  FCpeMode :: string
  FNvdAPIKey :: string
  FNvdAPIURL :: string
  FIncludeRejectedCPE :: bool
  FComplianceConfig :: string
  FNoSyftPrefilter :: bool
  FNoRegistry :: bool
  FMirrorsConfig :: string
  FRegistryCacheDir :: string
  FRegistryCacheTTL :: rat
  FNoLifecycle :: bool
  FLifecycleMode :: string
  FLifecycleSnapshot :: string
  FFailOn :: string
  FEnable :: "string list"
  FDisable :: "string list"

text \<open>
  The network: HTTP for the CPE sources, Software Heritage behind its cache and limiter, HTTP for the package
  registries and for \<open>endoflife.date\<close>, and the base image.
\<close>

record 'w network =
  NHttp :: "'w http"
  NAcquire :: "string \<Rightarrow> 'w \<Rightarrow> bool \<times> 'w"
  NSwh :: matcher
  NRegistry :: "http_request \<Rightarrow> string + http_response"
  NOpenBase :: "string \<Rightarrow> string + image_bundle"

text \<open>
  What is local: the environment, the files the flags name, the decoders of YAML and JSON, the embedded
  data, hashing, contexts and clocks.  \<open>WCpe\<close> is the state of the CPE sources when a PURL is asked for.
\<close>

record 'w cli_world =
  WGetenv :: "string \<Rightarrow> string"
  WRead :: "string \<Rightarrow> string + string"
  WRules :: "string \<Rightarrow> RulesFile option"
  WEmbeddedRules :: string
  WGlob :: pattern_matcher
  WRegex :: pattern_matcher
  WFingerprints :: "string \<Rightarrow> fp_root"
  WMatch :: "string \<Rightarrow> Match option"
  WCatalogue :: "string \<Rightarrow> catalogue"
  WBundledCPE :: "bundledEntry list option"
  WDecodeNVD :: "string \<Rightarrow> string list option"
  WDecodeCD :: "string \<Rightarrow> string list option"
  WMirrors :: "string \<Rightarrow> string + MirrorEntry list"
  WCertificates :: "string \<Rightarrow> string option"
  WKeyPair :: "string \<Rightarrow> string \<Rightarrow> string option"
  WBadURL :: "string \<Rightarrow> string option"
  WSourceDecoders :: source_decoders
  WEolDecode :: "string \<Rightarrow> fetch_error + eolCycle list"
  WDisk :: "string \<Rightarrow> (rat \<times> RMetadata option) gomap option"
  WDiskWritable :: bool
  WEmbeddedSnapshot :: string
  WProducts :: "string \<Rightarrow> string + (string \<times> string) list"
  WCycles :: "string \<Rightarrow> string + eolCycle list"
  WUnquote :: "string \<Rightarrow> string option"
  WOverrides :: "string \<Rightarrow> severityOverride list option"
  WUntracked :: untracked_env
  WAnchorDecoders :: decoders
  WReadFails :: "tar_header \<Rightarrow> bool"
  WBaseEnv :: bd_env
  WExtractors :: "extractor_impl list option"
  WRefDigest :: "component \<Rightarrow> string"
  WCtx :: "string \<Rightarrow> nat \<Rightarrow> string option"
  WEntryCtx :: "string \<Rightarrow> nat \<Rightarrow> nat \<Rightarrow> string option"
  WCpe :: "PURL_parts \<Rightarrow> 'w"
  WClock :: rat
  WNow :: int
  WStamp :: string
  WLayerText :: "layer_error \<Rightarrow> string"

datatype build_error =
    FingerprintDir load_failure
  | DefaultRules load_error
  | RulesUnreadable string
  | RulesInvalid load_error
  | RulesCompile rule_error
  | DictionaryDir string
  | PolicyUnreadable string
  | PolicyMalformed
  | PolicyOverride override_error
  | MirrorsConfigError string
  | CacheDirError
  | SnapshotError string

section \<open>The builders\<close>

subsection \<open>Matchers, rules and severities\<close>

definition buildLocalMatcher :: "'w cli_world \<Rightarrow> string \<Rightarrow> build_error + matcher" where
  "buildLocalMatcher w db =
     (case Matchers.LoadFromDir (WMatch w) (WFingerprints w db) [] of
        (entries, Some e) \<Rightarrow> Inl (FingerprintDir e)
      | (entries, None) \<Rightarrow> Inr (Local_Lookup entries))"

definition buildFingerprintMatcher :: "'w cli_world \<Rightarrow> 'w network \<Rightarrow> enrich_flags \<Rightarrow> build_error + matcher list" where
  "buildFingerprintMatcher w net fl =
     (let online = (if FNoNetwork fl then [] else [NSwh net]) in
      if FOfflineDB fl \<noteq> [] then
        (case buildLocalMatcher w (FOfflineDB fl) of
           Inl e \<Rightarrow> Inl e
         | Inr local \<Rightarrow> Inr (Chain_Append (Chain_Append (Chain_Append (NewChain []) [local]) online) [Null_Lookup]))
      else Inr (Chain_Append (Chain_Append (NewChain []) online) [Null_Lookup]))"

definition LoadFromPath :: "'w cli_world \<Rightarrow> string \<Rightarrow> build_error + PathRule list" where
  "LoadFromPath w path =
     (case WRead w path of Inl e \<Rightarrow> Inl (RulesUnreadable e)
      | Inr data \<Rightarrow> (case Load (WRules w) data of Inl e \<Rightarrow> Inl (RulesInvalid e) | Inr rules \<Rightarrow> Inr rules))"

definition buildPathClassifier :: "'w cli_world \<Rightarrow> string \<Rightarrow> build_error + path_classifier" where
  "buildPathClassifier w rulesPath =
     (case Load (WRules w) (WEmbeddedRules w) of
        Inl e \<Rightarrow> Inl (DefaultRules e)
      | Inr defaults \<Rightarrow>
          (case (if rulesPath \<noteq> [] then map_sum id (Merge defaults) (LoadFromPath w rulesPath) else Inr defaults) of
             Inl e \<Rightarrow> Inl e
           | Inr rules \<Rightarrow>
               (case classifier_New (WGlob w) (WRegex w) rules of Inl e \<Rightarrow> Inl (RulesCompile e) | Inr c \<Rightarrow> Inr c)))"

definition LoadSeverityPolicyFromFile :: "'w cli_world \<Rightarrow> string \<Rightarrow> build_error + SeverityRule list" where
  "LoadSeverityPolicyFromFile w path =
     (if path = [] then Inr DefaultSeverityPolicy
      else case WRead w path of
          Inl e \<Rightarrow> Inl (PolicyUnreadable e)
        | Inr body \<Rightarrow>
            (case WOverrides w body of
               None \<Rightarrow> Inl PolicyMalformed
             | Some vs \<Rightarrow> (case load_policy vs of Inl e \<Rightarrow> Inl (PolicyOverride e) | Inr rs \<Rightarrow> Inr rs)))"

subsection \<open>The CPE resolver\<close>

definition nvdHybridSkipThreshold :: int where "nvdHybridSkipThreshold = 50"
definition nvdAnonymousSecondsPerCall :: rat where "nvdAnonymousSecondsPerCall = 6"
definition NVDAPIBaseURL :: string where "NVDAPIBaseURL = ''https://services.nvd.nist.gov/rest/json/cpes/2.0''"
definition ClearlyDefinedBaseURL :: string where "ClearlyDefinedBaseURL = ''https://api.clearlydefined.io''"

definition shouldSkipAnonymousNVDInHybrid :: "string \<Rightarrow> string \<Rightarrow> int \<Rightarrow> bool" where
  "shouldSkipAnonymousNVDInHybrid mode nvdKey componentCount =
     (if mode \<noteq> CpeSources.ModeHybrid then False
      else if nvdKey \<noteq> [] then False
      else componentCount > nvdHybridSkipThreshold)"

text \<open>The quotient is exact here; in the code it is a float, whose ceiling is the same for every count of components.\<close>

definition estimateAnonymousNVDMinutes :: "int \<Rightarrow> int" where
  "estimateAnonymousNVDMinutes componentCount =
     (if componentCount \<le> 0 then 0
      else let minutes = \<lceil>of_int componentCount * nvdAnonymousSecondsPerCall / 60\<rceil> in
        if minutes < 1 then 1 else minutes)"

definition nvdSkipAdvice :: "int \<Rightarrow> string" where
  "nvdSkipAdvice n =
     ''NVD API rate limit (5 req/30s without API key) would take ~'' @ Itoa (estimateAnonymousNVDMinutes n) @ '' min for '' @ Itoa n @
     '' components. Skipping NVD API source. To enable: set NVD_API_KEY env var '' @
     ''(free: https://nvd.nist.gov/developers/request-an-api-key) '' @ ''or use --cpe-mode online to force.''"

definition cpe_mode :: "enrich_flags \<Rightarrow> string" where
  "cpe_mode fl =
     (let m = ToLower (TrimSpace (FCpeMode fl)); mode = (if CpeSources.Mode_IsKnown m then m else CpeSources.ModeHybrid) in
      if FNoNetwork fl then CpeSources.ModeOffline else mode)"

definition nvd_key :: "'w cli_world \<Rightarrow> enrich_flags \<Rightarrow> string" where
  "nvd_key w fl = (if FNvdAPIKey fl = [] then WGetenv w ''NVD_API_KEY'' else FNvdAPIKey fl)"

definition local_sources :: "'w cli_world \<Rightarrow> enrich_flags \<Rightarrow> build_error + 'w cpe_source option list" where
  "local_sources w fl =
     (if FOfflineDB fl \<noteq> [] then
        (case Cpe.LoadFromDir (WCatalogue w (FOfflineDB fl)) of
           Inl e \<Rightarrow> Inl (DictionaryDir e)
         | Inr (dict, failures) \<Rightarrow> Inr [NewLocalDict (Some dict)])
      else Inr [])"

definition online_sources :: "'w cli_world \<Rightarrow> 'w network \<Rightarrow> enrich_flags \<Rightarrow> int \<Rightarrow> 'w cpe_source option list" where
  "online_sources w net fl componentCount =
     (let mode = cpe_mode fl; key = nvd_key w fl in
      if mode = CpeSources.ModeOffline then []
      else (if shouldSkipAnonymousNVDInHybrid mode key componentCount then []
            else [Some (NVDAPI (NAcquire net key) (NHttp net) (WDecodeNVD w)
                    (if FNvdAPIURL fl \<noteq> [] then FNvdAPIURL fl else NVDAPIBaseURL) key)])
        @ [Some (ClearlyDefined (NHttp net) (WDecodeCD w) ClearlyDefinedBaseURL)])"

definition buildCPEResolver :: "'w cli_world \<Rightarrow> 'w network \<Rightarrow> enrich_flags \<Rightarrow> int \<Rightarrow> build_error + 'w multi_source" where
  "buildCPEResolver w net fl componentCount =
     (case local_sources w fl of
        Inl e \<Rightarrow> Inl e
      | Inr locals \<Rightarrow>
          Inr (NewMultiSource (cpe_mode fl)
            ([Some (PatternMatcher (WBundledCPE w))] @ locals @ online_sources w net fl componentCount @ [Some NewHeuristic])))"

text \<open>Each PURL is resolved with an empty cache; a cached answer repeats the one computed first.\<close>

definition buildCPEEnricher :: "'w cli_world \<Rightarrow> 'w network \<Rightarrow> enrich_flags \<Rightarrow> int \<Rightarrow> build_error + cpe_enricher" where
  "buildCPEEnricher w net fl componentCount =
     map_sum id (\<lambda>r. cpe_WithIncludeRejected (FIncludeRejectedCPE fl)
         \<lparr>chain = (\<lambda>p. fst (resolveCtx r p ([], WCpe w p))), threshold = DefaultThreshold, includeRejected = False\<rparr>)
       (buildCPEResolver w net fl componentCount)"

subsection \<open>Registries and lifecycles\<close>

definition mirrors_of :: "MirrorEntry list \<Rightarrow> string \<Rightarrow> MirrorEntry list" where
  "mirrors_of cfg eco = (case mget (MirrorsByEcosystem (Some cfg)) eco of None \<Rightarrow> [] | Some ms \<Rightarrow> ms)"

definition registry_http :: "'w cli_world \<Rightarrow> 'w network \<Rightarrow> http_env" where
  "registry_http w net =
     \<lparr>Getenv = WGetenv w, Bundle = WCertificates w, KeyPair = WKeyPair w, NewRequestError = WBadURL w, Do = NRegistry net\<rparr>"

definition registry_sources :: "'w cli_world \<Rightarrow> 'w network \<Rightarrow> MirrorEntry list \<Rightarrow> registry_source list" where
  "registry_sources w net cfg =
     (let env = registry_http w net; D = WSourceDecoders w; byEco = mirrors_of cfg in
        [NewNPM env D (byEco ''npm''), NewPyPI env D (byEco ''pypi''), NewMaven env D (byEco ''maven''),
         NewGolang env D (byEco ''golang''), NewCargo, NewRubyGems, NewNuGet, NewDebian, NewAlpine, NewRepology, NewEcosystems])"

definition buildRegistryCache :: "'w cli_world \<Rightarrow> enrich_flags \<Rightarrow> build_error + layered_cache" where
  "buildRegistryCache w fl =
     (if FRegistryCacheDir fl = [] then Inr ([], None)
      else case WDisk w (FRegistryCacheDir fl) of
          None \<Rightarrow> Inl CacheDirError
        | Some files \<Rightarrow> Inr ([], Some \<lparr>DFiles = files, DTtl = FRegistryCacheTTL fl, DWritable = WDiskWritable w\<rparr>))"

type_synonym registry_resolver = "layered_cache \<Rightarrow> PURL_parts \<Rightarrow> layered_cache \<times> (fetch_error + RMetadata)"

definition buildRegistryEnricher ::
  "'w cli_world \<Rightarrow> 'w network \<Rightarrow> enrich_flags \<Rightarrow> build_error + registry_resolver option \<times> layered_cache"
where
  "buildRegistryEnricher w net fl =
     (if FNoRegistry fl then Inr (None, ([], None))
      else case LoadMirrorsConfig (WRead w) (WMirrors w) (FMirrorsConfig fl) of
          Inl e \<Rightarrow> Inl (MirrorsConfigError e)
        | Inr cfg \<Rightarrow>
            (case buildRegistryCache w fl of
               Inl e \<Rightarrow> Inl e
             | Inr cache \<Rightarrow>
                 Inr (Some (registry_Resolve (Layered_Get (WClock w)) (Layered_Set (WClock w)) (\<not> FNoNetwork fl) (registry_sources w net cfg)),
                      cache)))"

definition online_lifecycle :: "'w cli_world \<Rightarrow> 'w network \<Rightarrow> MirrorEntry list \<Rightarrow> lifecycle_source" where
  "online_lifecycle w net mirrors =
     EOL_Fetch (registry_http w net) (WEolDecode w) (WUnquote w) \<lparr>Mirrors = mirrors, Upstream = ''https://endoflife.date/api''\<rparr>"

definition loadLifecycleBundled :: "'w cli_world \<Rightarrow> string \<Rightarrow> build_error + string \<times> lifecycle_source" where
  "loadLifecycleBundled w path =
     (let parse = parseBundledSnapshot (WProducts w) (WCycles w) (WUnquote w);
          named = (if path = [] then Inr (''bundled'', WEmbeddedSnapshot w) else map_sum id (\<lambda>b. (''snapshot:'' @ path, b)) (WRead w path))
      in case named of
          Inl e \<Rightarrow> Inl (SnapshotError e)
        | Inr (name, body) \<Rightarrow> (case parse body of Inl e \<Rightarrow> Inl (SnapshotError e) | Inr m \<Rightarrow> Inr (name, Bundled_Fetch (Inr m))))"

definition lifecycle_mode :: "enrich_flags \<Rightarrow> string" where
  "lifecycle_mode fl =
     (let m = ToLower (TrimSpace (FLifecycleMode fl)); mode = (if Lifecycle.Mode_IsKnown m then m else Lifecycle.ModeHybrid) in
      if FNoNetwork fl then Lifecycle.ModeOffline else mode)"

definition buildLifecycleEnricher :: "'w cli_world \<Rightarrow> 'w network \<Rightarrow> enrich_flags \<Rightarrow> build_error + lifecycle_resolver option" where
  "buildLifecycleEnricher w net fl =
     (if FNoLifecycle fl then Inr None
      else case loadLifecycleBundled w (FLifecycleSnapshot fl) of
          Inl e \<Rightarrow> Inl e
        | Inr bundled \<Rightarrow>
            (case LoadMirrorsConfig (WRead w) (WMirrors w) (FMirrorsConfig fl) of
               Inl e \<Rightarrow> Inl (MirrorsConfigError e)
             | Inr cfg \<Rightarrow>
                 Inr (Some (NewResolver (Some (''endoflife.date'', online_lifecycle w net (mirrors_of cfg ''lifecycle''))) (Some bundled) (lifecycle_mode fl)))))"

subsection \<open>Base images\<close>

definition basediffOptionsFor :: "string \<Rightarrow> bd_options" where
  "basediffOptionsFor base =
     (let b = TrimSpace base in
      if b = [] \<or> b = ''auto'' then \<lparr>OMode = ModeAuto, OReference = []\<rparr>
      else if b = ''none'' then \<lparr>OMode = base_mode.ModeNone, OReference = []\<rparr>
      else \<lparr>OMode = ModeExplicit, OReference = base\<rparr>)"

section \<open>The enrichers\<close>

definition adapt :: "string option \<times> SBOM option \<Rightarrow> SBOM \<Rightarrow> string option \<times> SBOM" where
  "adapt r s = (fst r, case snd r of None \<Rightarrow> s | Some t \<Rightarrow> t)"

definition prefilter_enricher :: "'w cli_world \<Rightarrow> path_classifier option \<Rightarrow> image_bundle enricher" where
  "prefilter_enricher w classifier =
     \<lparr>EName = ''syft-prefilter'', Dependencies = [],
      Enrich = (\<lambda>b s. case Enrich_prefilter (WGlob w) (WRegex w) classifier (Some s) of (e, t, st) \<Rightarrow> adapt (e, t) s)\<rparr>"

fun attribution_text :: "'w cli_world \<Rightarrow> attribution_error \<Rightarrow> string" where
  "attribution_text w attribution_error.Missing = ''attribution: missing sbom/bundle/image''"
| "attribution_text w (Attribution.WalkFailed e) = ''attribution: walk layers: '' @ WLayerText w e"

definition attribution_enricher :: "'w cli_world \<Rightarrow> image_bundle enricher" where
  "attribution_enricher w =
     \<lparr>EName = ''attribution'', Dependencies = [],
      Enrich = (\<lambda>b s. case Enrich_attribution (WCtx w ''attribution'') None (Some s) (Some b) of
         (e, t) \<Rightarrow> adapt (map_option (attribution_text w) e, t) s)\<rparr>"

text \<open>The content strategy does not panic; the case is kept apart as an error of its own.\<close>

definition basediff_enricher :: "'w cli_world \<Rightarrow> 'w network \<Rightarrow> enrich_flags \<Rightarrow> image_bundle enricher" where
  "basediff_enricher w net fl =
     \<lparr>EName = ''basediff'', Dependencies = [''untracked''],
      Enrich = (\<lambda>b s. case Enrich_basediff ((WBaseEnv w)\<lparr>OpenBase := NOpenBase net\<rparr>) (basediffOptionsFor (FBase fl)) (Some s) (Some b) of
         BdError e \<Rightarrow> (Some e, s) | BdPanic \<Rightarrow> (Some ''panic'', s) | BdDone t \<Rightarrow> (None, t))\<rparr>"

fun untracked_text :: "'w cli_world \<Rightarrow> untracked_error \<Rightarrow> string" where
  "untracked_text w UntrackedMissingInput = ''untracked: missing sbom/bundle/image''"
| "untracked_text w (UntrackedWalk e) = ''untracked: walk: '' @ WLayerText w e"

definition untracked_options_for :: "'w cli_world \<Rightarrow> enrich_flags \<Rightarrow> path_classifier \<Rightarrow> untracked_options" where
  "untracked_options_for w fl classifier =
     NewWithOptions (WGlob w) (WRegex w) (Load (WRules w) (WEmbeddedRules w))
       \<lparr>MaxComponents = 0, UMaxFileBytes = 0,
        Include = \<lparr>IncludeRedundant = FIncludeRedundant fl, IncludeNoise = FIncludeNoise fl\<rparr>,
        MatcherIncludeUnknown = False, MatcherIncludeScripts = False, MatcherIncludeArchives = False, MatcherMinFileBytes = 0,
        MatcherWorkers = 0, UPathClassifier = Some classifier, DisableClustering = FNoCluster fl,
        UClusterOptions = \<lparr>MaxAnchorBytes = 0, SkipDensity = False, MinDirChildren = 0\<rparr>\<rparr>"

definition untracked_enricher :: "'w cli_world \<Rightarrow> enrich_flags \<Rightarrow> path_classifier \<Rightarrow> matcher list \<Rightarrow> image_bundle enricher" where
  "untracked_enricher w fl classifier matchers =
     \<lparr>EName = ''untracked'', Dependencies = [],
      Enrich = (\<lambda>b s.
        let opts = untracked_options_for w fl classifier;
            detected = DetectClusters (WAnchorDecoders w) (WReadFails w) (WCtx w ''cluster'') (WEntryCtx w ''cluster'') (BImage b) (UClusterOptions opts);
            r = Enrich_untracked (WUntracked w) (WCtx w ''untracked'') (WEntryCtx w ''untracked'') detected
                  (\<lambda>t. Chain_Lookup matchers ''sha256'' (TSha t)) opts (BImage b) s
        in (map_option (untracked_text w) (RError r), RSbom r))\<rparr>"

definition extractor_enricher :: "'w cli_world \<Rightarrow> image_bundle enricher" where
  "extractor_enricher w =
     \<lparr>EName = ''extractor'', Dependencies = extractor_Dependencies,
      Enrich = (\<lambda>b s. case Enrich_extractor (WRefDigest w) (WExtractors w) (WReadFails w) (WCtx w ''extractor'') (WEntryCtx w ''extractor'')
          (BImage b) (Some s) of (e, t, st) \<Rightarrow> adapt (e, t) s)\<rparr>"

definition registry_enricher :: "'w cli_world \<Rightarrow> registry_resolver option \<times> layered_cache \<Rightarrow> image_bundle enricher" where
  "registry_enricher w rc =
     \<lparr>EName = ''registry'', Dependencies = [''untracked'', ''extractor''],
      Enrich = (\<lambda>b s. (None, snd (Enrich_registry (fst rc) (WStamp w) (snd rc) s)))\<rparr>"

definition lifecycle_enricher :: "'w cli_world \<Rightarrow> lifecycle_resolver option \<Rightarrow> image_bundle enricher" where
  "lifecycle_enricher w resolver =
     \<lparr>EName = ''lifecycle'', Dependencies = [''untracked'', ''extractor''],
      Enrich = (\<lambda>b s. (None, snd (Enrich_lifecycle resolver (WNow w) (WStamp w) s)))\<rparr>"

definition cpe_pipeline_enricher :: "cpe_enricher \<Rightarrow> image_bundle enricher" where
  "cpe_pipeline_enricher e = \<lparr>EName = ''cpe'', Dependencies = cpe_Dependencies, Enrich = cpe_pipeline_step e\<rparr>"

definition dedup_enricher :: "image_bundle enricher" where
  "dedup_enricher =
     \<lparr>EName = ''dedup'', Dependencies = [''basediff'', ''cpe'', ''extractor'', ''registry''],
      Enrich = (\<lambda>b s. adapt (Enrich_dedup (Some s)) s)\<rparr>"

definition compliance_enricher :: "compliance \<Rightarrow> image_bundle enricher" where
  "compliance_enricher c =
     \<lparr>EName = ''compliance'', Dependencies = [''dedup''], Enrich = (\<lambda>b s. adapt (Enrich_compliance c (Some s)) s)\<rparr>"

definition allEnrichers :: "'w cli_world \<Rightarrow> 'w network \<Rightarrow> enrich_flags \<Rightarrow> int \<Rightarrow> build_error + image_bundle enricher list" where
  "allEnrichers w net fl componentCount =
     (case buildFingerprintMatcher w net fl of Inl e \<Rightarrow> Inl e
      | Inr matchers \<Rightarrow>
      (case buildPathClassifier w (FRulesFile fl) of Inl e \<Rightarrow> Inl e
      | Inr classifier \<Rightarrow>
      (case buildCPEEnricher w net fl componentCount of Inl e \<Rightarrow> Inl e
      | Inr cpe \<Rightarrow>
      (case LoadSeverityPolicyFromFile w (FComplianceConfig fl) of Inl e \<Rightarrow> Inl e
      | Inr severityPolicy \<Rightarrow>
      (case buildRegistryEnricher w net fl of Inl e \<Rightarrow> Inl e
      | Inr registry \<Rightarrow>
      (case buildLifecycleEnricher w net fl of Inl e \<Rightarrow> Inl e
      | Inr lifecycle \<Rightarrow>
          Inr [prefilter_enricher w (if FNoSyftPrefilter fl then None else Some classifier),
               attribution_enricher w,
               basediff_enricher w net fl,
               untracked_enricher w fl classifier matchers,
               extractor_enricher w,
               registry_enricher w registry,
               lifecycle_enricher w lifecycle,
               cpe_pipeline_enricher cpe,
               dedup_enricher,
               compliance_enricher (WithSeverityPolicy (Some severityPolicy) New)]))))))"

section \<open>Selection and the gate\<close>

definition stringSliceToSet :: "string list \<Rightarrow> bool gomap" where
  "stringSliceToSet xs =
     foldl (\<lambda>out s. let t = TrimSpace s in if t = [] then out else mput t True out) [] xs"

definition select_enrichers :: "enrich_flags \<Rightarrow> image_bundle enricher list \<Rightarrow> image_bundle enricher list" where
  "select_enrichers fl es = Filter es (stringSliceToSet (FEnable fl)) (stringSliceToSet (FDisable fl))"

definition GateInvalidArgs :: nat where "GateInvalidArgs = 2"
definition ExitComplianceFail :: nat where "ExitComplianceFail = 40"

text \<open>\<open>--fail-on\<close>: the exit code if the gate fails.\<close>

definition evaluateComplianceGate :: "string \<Rightarrow> SBOM \<Rightarrow> nat option" where
  "evaluateComplianceGate failOn sbom =
     (if failOn = [] then None
      else case ParseSeverity (ToLower (TrimSpace failOn)) of (sev, ok) \<Rightarrow>
        if \<not> ok then Some GateInvalidArgs
        else let hits = length (filter (\<lambda>f. AtLeast (FSeverity f) sev) (Findings New sbom)) in
          if hits = 0 then None else Some ExitComplianceFail)"

section \<open>The order of the enrichers\<close>

abbreviation canonical :: "string list" where
  "canonical \<equiv> [''syft-prefilter'', ''attribution'', ''basediff'', ''untracked'', ''extractor'', ''registry'', ''lifecycle'', ''cpe'', ''dedup'', ''compliance'']"

definition deps_of :: "string \<Rightarrow> string list" where
  "deps_of n =
     (if n = ''basediff'' \<or> n = ''extractor'' then [''untracked'']
      else if n \<in> {''registry'', ''lifecycle'', ''cpe''} then [''untracked'', ''extractor'']
      else if n = ''dedup'' then [''basediff'', ''cpe'', ''extractor'', ''registry'']
      else if n = ''compliance'' then [''dedup'']
      else [])"

lemmas enricher_defs = prefilter_enricher_def attribution_enricher_def basediff_enricher_def untracked_enricher_def extractor_enricher_def
  registry_enricher_def lifecycle_enricher_def cpe_pipeline_enricher_def dedup_enricher_def compliance_enricher_def

lemma enricher_names [simp]:
  "EName (prefilter_enricher w pc) = ''syft-prefilter''" "EName (attribution_enricher w) = ''attribution''"
  "EName (basediff_enricher w net fl) = ''basediff''" "EName (untracked_enricher w fl c ms) = ''untracked''"
  "EName (extractor_enricher w) = ''extractor''" "EName (registry_enricher w rc) = ''registry''"
  "EName (lifecycle_enricher w lr) = ''lifecycle''" "EName (cpe_pipeline_enricher ce) = ''cpe''"
  "EName dedup_enricher = ''dedup''" "EName (compliance_enricher co) = ''compliance''"
  by (simp_all add: enricher_defs)

lemma enricher_dependencies:
  "Dependencies (prefilter_enricher w pc) = deps_of ''syft-prefilter''" "Dependencies (attribution_enricher w) = deps_of ''attribution''"
  "Dependencies (basediff_enricher w net fl) = deps_of ''basediff''" "Dependencies (untracked_enricher w fl c ms) = deps_of ''untracked''"
  "Dependencies (extractor_enricher w) = deps_of ''extractor''" "Dependencies (registry_enricher w rc) = deps_of ''registry''"
  "Dependencies (lifecycle_enricher w lr) = deps_of ''lifecycle''" "Dependencies (cpe_pipeline_enricher ce) = deps_of ''cpe''"
  "Dependencies dedup_enricher = deps_of ''dedup''" "Dependencies (compliance_enricher co) = deps_of ''compliance''"
  by (simp_all add: enricher_defs extractor_Dependencies_def cpe_Dependencies_def deps_of_def)

lemma allEnrichers_names:
  assumes "allEnrichers w net fl n = Inr es"
  shows "names es = canonical \<and> (\<forall>e \<in> set es. Dependencies e = deps_of (EName e))"
proof -
  obtain pc cl ms rc lr ce co where
    "es = [prefilter_enricher w pc, attribution_enricher w, basediff_enricher w net fl, untracked_enricher w fl cl ms,
       extractor_enricher w, registry_enricher w rc, lifecycle_enricher w lr, cpe_pipeline_enricher ce, dedup_enricher, compliance_enricher co]"
    using assms by (auto simp: allEnrichers_def split: sum.splits)
  then show ?thesis by (simp add: enricher_dependencies)
qed

text \<open>An enricher without its effect: the order depends on the names and the dependencies only.\<close>

definition bare :: "'b enricher \<Rightarrow> unit enricher" where
  "bare e = \<lparr>EName = EName e, Dependencies = Dependencies e, Enrich = \<lambda>_ s. (None, s)\<rparr>"

lemma bare_sel [simp]: "EName (bare e) = EName e" "Dependencies (bare e) = Dependencies e"
  by (simp_all add: bare_def)

definition bare_map :: "'b enricher gomap \<Rightarrow> unit enricher gomap" where
  "bare_map m = map (\<lambda>(k, e). (k, bare e)) m"

lemma bare_map_get [simp]: "mget (bare_map m) k = map_option bare (mget m k)"
  by (induction m) (auto simp: bare_map_def)

lemma bare_map_put [simp]: "mput k (bare e) (bare_map m) = bare_map (mput k e m)"
  by (induction m) (auto simp: bare_map_def)

lemma indexByName_bare:
  "indexByName_from i (map bare es) (bare_map m) order = map_sum id (\<lambda>r. (bare_map (fst r), snd r)) (indexByName_from i es m order)"
  by (induction es arbitrary: i m order) auto

lemma buildGraph_bare: "buildGraph (map bare es) (bare_map m) = buildGraph es m"
proof -
  have "foldl (add_edge (bare_map m) n) g ds = foldl (add_edge m n) g ds" for n g ds
    by (induction ds arbitrary: g) (simp_all add: add_edge_def)
  then show ?thesis unfolding buildGraph_def foldl_map by simp
qed

lemma find_bare: "find (\<lambda>e. EName e = n) (map bare es) = map_option bare (find (\<lambda>e. EName e = n) es)"
  by (induction es) auto

lemma retire_bare:
  "retire (map bare es) (f, map bare q) n = (fst (retire es (f, q) n), map bare (snd (retire es (f, q) n)))"
  by (auto simp: retire_def Let_def find_bare split: option.split)

lemma retire_fold_bare:
  "foldl (retire (map bare es)) (f, map bare q) ns =
     (fst (foldl (retire es) (f, q) ns), map bare (snd (foldl (retire es) (f, q) ns)))"
proof (induction ns arbitrary: f q)
  case (Cons n ns)
  show ?case
    using Cons.IH [of "fst (retire es (f, q) n)" "snd (retire es (f, q) n)"] by (simp add: retire_bare)
qed simp

lemma kahn_loop_bare: "kahn_loop (map bare es) d f (map bare q) (map bare out) = map bare (kahn_loop es d f q out)"
proof (induction es d f q out rule: kahn_loop.induct)
  case (2 es d f head queue out)
  show ?case using 2 [OF refl] by (simp add: Let_def retire_fold_bare)
qed simp

text \<open>The order depends on the names and the dependencies only.\<close>

lemma TopoSort_bare: "TopoSort (map bare es) = map_sum id (map bare) (TopoSort es)"
proof (cases "es = []")
  case False
  have idx: "indexByName (map bare es) = map_sum id (\<lambda>r. (bare_map (fst r), snd r)) (indexByName es)"
    unfolding indexByName_def using indexByName_bare [of 0 es "[]" "[]"] by (simp add: bare_map_def)
  have k: "kahn (map bare es) f d = map bare (kahn es f d)" for f d
    unfolding kahn_def using kahn_loop_bare [of es d f "filter (\<lambda>e. f (EName e) = 0) es" "[]"]
    by (simp add: filter_map comp_def)
  show ?thesis
    using False by (cases "indexByName es") (simp_all add: TopoSort_def idx k buildGraph_bare Let_def cycleError_def filter_map comp_def)
qed (simp add: TopoSort_def)

definition shell :: "string \<Rightarrow> unit enricher" where
  "shell n = \<lparr>EName = n, Dependencies = deps_of n, Enrich = \<lambda>_ s. (None, s)\<rparr>"

lemma bare_shell: "\<forall>e \<in> set es. Dependencies e = deps_of (EName e) \<Longrightarrow> map bare es = map shell (names es)"
  by (induction es) (simp_all add: bare_def shell_def)

lemma names_bare [simp]: "names (map bare es) = names es"
  by (induction es) auto

lemma order_of_names:
  assumes "\<forall>e \<in> set es. Dependencies e = deps_of (EName e)"
  shows "map_sum id names (TopoSort es) = map_sum id names (TopoSort (map shell (names es)))"
proof -
  have "map_sum id names (TopoSort (map bare es)) = map_sum id names (TopoSort es)"
    unfolding TopoSort_bare by (cases "TopoSort es") (simp_all del: map_map)
  then show ?thesis using bare_shell [OF assms] by simp
qed

lemma flag_set: "flag (stringSliceToSet xs) n \<longleftrightarrow> n \<noteq> [] \<and> n \<in> TrimSpace ` set xs"
proof -
  have "flag (foldl (\<lambda>out s. let t = TrimSpace s in if t = [] then out else mput t True out) m xs) n \<longleftrightarrow>
      flag m n \<or> n \<noteq> [] \<and> n \<in> TrimSpace ` set xs" for m
    by (induction xs arbitrary: m) (auto simp: flag_def Let_def)
  from this [of "[]"] show ?thesis unfolding stringSliceToSet_def by (simp add: flag_def)
qed

lemma set_empty: "stringSliceToSet xs = [] \<longleftrightarrow> (\<forall>x \<in> set xs. TrimSpace x = [])"
proof -
  have upd: "mput k v m \<noteq> []" for k :: string and v :: bool and m by (cases m) auto
  have "foldl (\<lambda>out s. let t = TrimSpace s in if t = [] then out else mput t True out) m xs = [] \<longleftrightarrow>
      m = [] \<and> (\<forall>x \<in> set xs. TrimSpace x = [])" for m
    by (induction xs arbitrary: m) (auto simp: Let_def upd)
  from this [of "[]"] show ?thesis unfolding stringSliceToSet_def by simp
qed

text \<open>Which enrichers a run keeps.\<close>

definition selected :: "enrich_flags \<Rightarrow> string \<Rightarrow> bool" where
  "selected fl n \<longleftrightarrow>
     n \<notin> TrimSpace ` set (FDisable fl) \<and> (list_all (\<lambda>x. TrimSpace x = []) (FEnable fl) \<or> n \<in> TrimSpace ` set (FEnable fl))"

lemma select_selected:
  assumes "[] \<notin> set (names es)"
  shows "select_enrichers fl es = filter (\<lambda>e. selected fl (EName e)) es"
  unfolding select_enrichers_def Filter_def
proof (rule filter_cong [OF refl])
  fix e assume "e \<in> set es"
  then have "EName e \<noteq> []" using assms by force
  then show "(\<not> flag (stringSliceToSet (FDisable fl)) (EName e) \<and>
      (stringSliceToSet (FEnable fl) \<noteq> [] \<longrightarrow> flag (stringSliceToSet (FEnable fl)) (EName e))) = selected fl (EName e)"
    unfolding flag_set set_empty selected_def list_all_iff by auto
qed

lemma selected_names:
  assumes "allEnrichers w net fl n = Inr es"
  shows "names (select_enrichers fl' es) = filter (selected fl') canonical"
    "\<forall>e \<in> set (select_enrichers fl' es). Dependencies e = deps_of (EName e)"
proof -
  note all = allEnrichers_names [OF assms]
  then have "[] \<notin> set (names es)" by simp
  note sel = select_selected [OF this, of fl']
  have "names (filter (\<lambda>e. selected fl' (EName e)) es) = filter (selected fl') (names es)" by (induction es) auto
  then show "names (select_enrichers fl' es) = filter (selected fl') canonical" using sel all by simp
  show "\<forall>e \<in> set (select_enrichers fl' es). Dependencies e = deps_of (EName e)" using sel all by auto
qed

definition precedes :: "'a \<Rightarrow> 'a \<Rightarrow> 'a list \<Rightarrow> bool" where
  "precedes a b xs \<longleftrightarrow> (\<exists>us vs ws. xs = us @ a # vs @ b # ws)"

lemma precedes_take:
  assumes "i < length xs" "a \<in> set (take i xs)"
  shows "precedes a (xs ! i) xs"
proof -
  obtain us vs where "take i xs = us @ a # vs" using split_list [OF assms(2)] by blast
  then have "xs = us @ a # vs @ xs ! i # drop (Suc i) xs" using id_take_nth_drop [OF assms(1)] by simp
  then show ?thesis unfolding precedes_def by blast
qed

lemma precedes_trans:
  assumes "precedes a b xs" "precedes b c xs" "distinct xs"
  shows "precedes a c xs"
proof -
  obtain us vs ws where x: "xs = us @ a # vs @ b # ws" using assms(1) precedes_def by metis
  obtain us' vs' ws' where y: "xs = us' @ b # vs' @ c # ws'" using assms(2) precedes_def by metis
  have "b \<notin> set (us @ a # vs)" "b \<notin> set ws" using assms(3) x by auto
  from append_Cons_eq_iff [OF this, of us' "vs' @ c # ws'"] have "ws = vs' @ c # ws'" using x y by simp
  then have "xs = us @ a # (vs @ b # vs') @ c # ws'" using x by simp
  then show ?thesis unfolding precedes_def by blast
qed

lemma order_respects:
  assumes "allEnrichers w net fl n = Inr es" "TopoSort (select_enrichers fl' es) = Inr out" "a \<in> set (deps_of b)"
    "selected fl' a" "selected fl' b" "a \<in> set canonical" "b \<in> set canonical"
  shows "precedes a b (names out)"
proof -
  let ?es = "select_enrichers fl' es"
  note nm = selected_names [OF assms(1), of fl']
  have sound: "mset out = mset ?es" "dep_sorted ?es out" using topo_sound [OF assms(2)] by auto
  then have same: "set out = set ?es" by (metis set_mset_mset)
  have all: "set (names ?es) = {x \<in> set canonical. selected fl' x}" unfolding nm(1) set_filter by (rule refl)
  have "b \<in> set (names ?es)" unfolding all using assms(5,7) by blast
  then obtain e where e: "e \<in> set out" "EName e = b" unfolding set_map same by blast
  then obtain i where i: "i < length out" "out ! i = e" by (metis in_set_conv_nth)
  have "a \<in> set (names ?es)" unfolding all using assms(4,6) by blast
  then have "a \<in> set (registered ?es (out ! i))"
    using assms(3) nm(2) e same i(2) by (auto simp: registered_def)
  then have "a \<in> set (take i (names out))" using sound(2) i(1) by (auto simp: dep_sorted_def take_map)
  then show ?thesis using precedes_take [of i "names out" a] i e(2) by simp
qed
section \<open>Without the network\<close>

lemma walk_sources_offline: "list_all registry_source.RequiresNetwork srcs \<Longrightarrow> Registry.walk_sources False srcs p = (None, False)"
  by (induction srcs) auto

lemma registry_Resolve_offline:
  assumes "list_all registry_source.RequiresNetwork srcs1" "list_all registry_source.RequiresNetwork srcs2"
  shows "registry_Resolve get put False srcs1 = registry_Resolve get put False srcs2"
proof -
  have "Registry.walk_sources False srcs1 = Registry.walk_sources False srcs2"
    using walk_sources_offline [OF assms(1)] walk_sources_offline [OF assms(2)] by (intro ext) simp
  then have "registry_Resolve get put False srcs1 s p = registry_Resolve get put False srcs2 s p" for s p
    unfolding registry_Resolve_def by metis
  then show ?thesis by (intro ext)
qed

text \<open>For a type of PURL at most one of the sources is asked.\<close>

lemmas source_constructors = NewNPM_def NewPyPI_def NewMaven_def NewGolang_def NewCargo_def NewRubyGems_def NewNuGet_def NewDebian_def
  NewAlpine_def NewRepology_def NewEcosystems_def stubSource_def

definition found_by :: "fetch_error + RMetadata option \<Rightarrow> RMetadata option" where
  "found_by r = (case r of Inr m \<Rightarrow> m | Inl _ \<Rightarrow> None)"

lemma Supports_source_for [simp]: "Supports (source_for t f) p = EqualFold p t"
  by (simp add: source_for_def)

lemma source_types:
  "ToLower ''npm'' = ''npm''" "ToLower ''pypi'' = ''pypi''" "ToLower ''maven'' = ''maven''" "ToLower ''golang'' = ''golang''"
  "ToLower ''cargo'' = ''cargo''" "ToLower ''gem'' = ''gem''" "ToLower ''nuget'' = ''nuget''" "ToLower ''deb'' = ''deb''"
  "ToLower ''apk'' = ''apk''" "ToLower ''repology'' = ''repology''" "ToLower ''ecosyste-ms'' = ''ecosyste-ms''"
  by code_simp+

lemma registry_sources_online: "list_all registry_source.RequiresNetwork (registry_sources w net cfg)"
  by (simp add: registry_sources_def source_constructors source_for_def Let_def)

lemma lifecycle_Resolve_offline:
  "lifecycle_Resolve (Some (NewResolver on1 bundled Lifecycle.ModeOffline)) =
   lifecycle_Resolve (Some (NewResolver on2 bundled Lifecycle.ModeOffline))"
proof -
  have "Mode_EffectiveMode Lifecycle.ModeOffline = Lifecycle.ModeOffline"
    by (simp add: Mode_EffectiveMode_def Lifecycle.Mode_IsKnown_def Lifecycle.ModeOffline_def)
  then show ?thesis by (intro ext) (simp add: lifecycle_Resolve_def NewResolver_def bundled_tier_def)
qed

lemma lifecycle_enricher_offline:
  "lifecycle_enricher w (Some (NewResolver on1 bundled Lifecycle.ModeOffline)) =
   lifecycle_enricher w (Some (NewResolver on2 bundled Lifecycle.ModeOffline))"
proof -
  have "lifecycle_component (NewResolver on1 bundled Lifecycle.ModeOffline) now stamp =
      lifecycle_component (NewResolver on2 bundled Lifecycle.ModeOffline) now stamp" for now stamp
    unfolding lifecycle_component_def lifecycle_Resolve_offline [of on1 bundled on2] by (rule refl)
  then show ?thesis by (simp add: lifecycle_enricher_def Enrich_lifecycle_def)
qed

lemma buildFingerprintMatcher_offline:
  "FNoNetwork fl \<Longrightarrow> buildFingerprintMatcher w net1 fl = buildFingerprintMatcher w net2 fl"
  by (simp add: buildFingerprintMatcher_def)

lemma buildCPEEnricher_offline:
  assumes "FNoNetwork fl"
  shows "buildCPEEnricher w net1 fl n = buildCPEEnricher w net2 fl n"
proof -
  have "online_sources w net1 fl n = online_sources w net2 fl n" using assms by (simp add: online_sources_def cpe_mode_def)
  then show ?thesis unfolding buildCPEEnricher_def buildCPEResolver_def by metis
qed

lemma buildRegistryEnricher_offline:
  assumes "FNoNetwork fl"
  shows "buildRegistryEnricher w net1 fl = buildRegistryEnricher w net2 fl"
proof -
  have "registry_Resolve get put False (registry_sources w net1 cfg) = registry_Resolve get put False (registry_sources w net2 cfg)" for get put cfg
    by (rule registry_Resolve_offline) (rule registry_sources_online)+
  note eq = this
  have off: "(\<not> FNoNetwork fl) = False" using assms by simp
  show ?thesis unfolding buildRegistryEnricher_def off eq by (rule refl)
qed

lemma buildLifecycleEnricher_offline:
  assumes "FNoNetwork fl"
  shows "map_sum id (lifecycle_enricher w) (buildLifecycleEnricher w net1 fl) = map_sum id (lifecycle_enricher w) (buildLifecycleEnricher w net2 fl)"
proof -
  have "lifecycle_mode fl = Lifecycle.ModeOffline" using assms by (simp add: lifecycle_mode_def Let_def)
  then show ?thesis
    using lifecycle_enricher_offline [of w] by (auto simp: buildLifecycleEnricher_def split: sum.split)
qed

lemma basediff_enricher_none:
  assumes "TrimSpace (FBase fl) = ''none''"
  shows "basediff_enricher w net1 fl = basediff_enricher w net2 fl"
proof -
  have opts: "OMode (basediffOptionsFor (FBase fl)) = base_mode.ModeNone" using assms by (simp add: basediffOptionsFor_def)
  have "Enrich_basediff env1 o1 (Some s) (Some b) = Enrich_basediff env2 o1 (Some s) (Some b)"
    if "OMode o1 = base_mode.ModeNone" for env1 env2 o1 s b
    using that by (cases "BImage b") (simp_all add: Enrich_basediff_def)
  then have eq: "Enrich_basediff ((WBaseEnv w)\<lparr>OpenBase := NOpenBase net1\<rparr>) (basediffOptionsFor (FBase fl)) (Some s) (Some b) =
      Enrich_basediff ((WBaseEnv w)\<lparr>OpenBase := NOpenBase net2\<rparr>) (basediffOptionsFor (FBase fl)) (Some s) (Some b)" for s b
    using opts by blast
  show ?thesis unfolding basediff_enricher_def eq by (rule refl)
qed

lemma allEnrichers_offline:
  assumes "FNoNetwork fl" "TrimSpace (FBase fl) = ''none''"
  shows "allEnrichers w net1 fl n = allEnrichers w net2 fl n"
proof -
  note eqs = buildFingerprintMatcher_offline [OF assms(1), of w net1 net2] buildCPEEnricher_offline [OF assms(1), of w net1 n net2]
    buildRegistryEnricher_offline [OF assms(1), of w net1 net2] basediff_enricher_none [OF assms(2), of w net1 net2]
  note lc = buildLifecycleEnricher_offline [OF assms(1), of w net1 net2]
  show ?thesis
  proof (cases "buildLifecycleEnricher w net1 fl")
    case (Inl e)
    with lc have "buildLifecycleEnricher w net2 fl = Inl e" by (cases "buildLifecycleEnricher w net2 fl") auto
    then show ?thesis unfolding allEnrichers_def eqs Inl by (simp only: sum.case)
  next
    case (Inr r1)
    with lc obtain r2 where r2: "buildLifecycleEnricher w net2 fl = Inr r2" "lifecycle_enricher w r1 = lifecycle_enricher w r2"
      by (cases "buildLifecycleEnricher w net2 fl") auto
    show ?thesis unfolding allEnrichers_def eqs Inr r2 sum.case by (rule refl)
  qed
qed
section \<open>Properties\<close>

text \<open>
  With \<open>--no-network\<close> and \<open>--base none\<close> the enrichers do not depend on the network at all: whatever
  Software Heritage, the CPE services, the package registries, \<open>endoflife.date\<close> and the registry of base images would
  answer, the same enrichers are built, or the same error is reported, and so every run of them is the same.
\<close>

theorem air_gapped:
  assumes "FNoNetwork fl" "TrimSpace (FBase fl) = ''none''"
  shows "allEnrichers w net1 fl n = allEnrichers w net2 fl n"
  using assms by (rule allEnrichers_offline)

lemma default_order_names:
  "map_sum id names (TopoSort (map shell canonical)) =
     Inr [''syft-prefilter'', ''attribution'', ''untracked'', ''basediff'', ''extractor'', ''registry'', ''lifecycle'', ''cpe'', ''dedup'', ''compliance'']"
  by code_simp

lemma without_dedup_names:
  "map_sum id names (TopoSort (map shell (filter (\<lambda>n. n \<noteq> ''dedup'') canonical))) =
     Inr [''syft-prefilter'', ''attribution'', ''untracked'', ''compliance'', ''basediff'', ''extractor'', ''registry'', ''lifecycle'', ''cpe'']"
  by code_simp

text \<open>
  The ten enrichers always sort.  Without \<open>--enable\<close> and \<open>--disable\<close> they run with the base diff after the
  untracked scan, the sources of metadata after the extractor, and dedup and compliance last; \<open>--disable dedup\<close> moves
  compliance before the base diff, the extractor and all sources of metadata.
\<close>

theorem pipeline_order:
  assumes "allEnrichers w net fl n = Inr es" "FEnable fl' = []"
  shows "(FDisable fl' = [] \<longrightarrow> map_sum id names (TopoSort (select_enrichers fl' es)) =
           Inr [''syft-prefilter'', ''attribution'', ''untracked'', ''basediff'', ''extractor'', ''registry'', ''lifecycle'', ''cpe'', ''dedup'', ''compliance''])
         \<and> (FDisable fl' = [''dedup''] \<longrightarrow> map_sum id names (TopoSort (select_enrichers fl' es)) =
           Inr [''syft-prefilter'', ''attribution'', ''untracked'', ''compliance'', ''basediff'', ''extractor'', ''registry'', ''lifecycle'', ''cpe''])"
proof -
  note nm = selected_names [OF assms(1), of fl']
  have "map_sum id names (TopoSort (select_enrichers fl' es)) = map_sum id names (TopoSort (map shell (filter (selected fl') canonical)))"
    using order_of_names [OF nm(2)] unfolding nm(1) .
  moreover have "selected fl' = (\<lambda>n. True)" if "FDisable fl' = []" using that assms(2) by (intro ext) (simp add: selected_def)
  moreover have "selected fl' = (\<lambda>n. n \<noteq> ''dedup'')" if "FDisable fl' = [''dedup'']"
  proof -
    have "TrimSpace ''dedup'' = ''dedup''" by code_simp
    then show ?thesis using that assms(2) by (intro ext) (simp add: selected_def)
  qed
  ultimately show ?thesis using default_order_names without_dedup_names by (simp only: filter_True) auto
qed

lemma select_sorts:
  assumes "allEnrichers w net fl n = Inr es"
  shows "\<exists>out. TopoSort (select_enrichers fl' es) = Inr out"
proof -
  note all = allEnrichers_names [OF assms]
  have "map_sum id names (TopoSort es) = map_sum id names (TopoSort (map shell canonical))" using order_of_names all by metis
  then have "\<exists>out. TopoSort es = Inr out" unfolding default_order_names by (cases "TopoSort es") auto
  then have ok: "distinct (names es)" "acyclic (dep_rel es)" using topo_succeeds_iff by blast+
  have "distinct (names (select_enrichers fl' es))" unfolding select_enrichers_def using ok(1) by (rule distinct_names_Filter)
  moreover have "acyclic (dep_rel (select_enrichers fl' es))"
    unfolding select_enrichers_def using ok(2) dep_rel_mono [OF Filter_subset] by (rule acyclic_subset)
  ultimately show ?thesis using topo_succeeds_iff by blast
qed

text \<open>
  The resolver of CPEs asks the pattern matcher, the dictionary if one is given, then unless offline the NVD
  and ClearlyDefined, and the heuristic last, in this order; \<open>--no-network\<close> makes every mode offline, and the NVD
  is left out exactly in hybrid mode without a key and above 50 components.
\<close>

theorem cpe_slate:
  assumes "buildCPEResolver w net fl n = Inr r"
  shows "map SrcName (MSources r) =
           [''pattern-matcher''] @ (if FOfflineDB fl \<noteq> [] then [''local-dictionary''] else []) @
           (if cpe_mode fl = ''offline'' then []
            else (if cpe_mode fl = ''hybrid'' \<and> nvd_key w fl = [] \<and> n > 50 then [] else [''nvd-api'']) @ [''clearly-defined'']) @
           [''heuristic'']
         \<and> MMode r = cpe_mode fl \<and> (FNoNetwork fl \<longrightarrow> cpe_mode fl = ''offline'')"
proof -
  obtain locals where l: "local_sources w fl = Inr locals"
    and r: "r = NewMultiSource (cpe_mode fl) ([Some (PatternMatcher (WBundledCPE w))] @ locals @ online_sources w net fl n @ [Some NewHeuristic])"
    using assms by (auto simp: buildCPEResolver_def split: sum.splits)
  have known: "CpeSources.Mode_IsKnown (cpe_mode fl)" by (simp add: cpe_mode_def Let_def CpeSources.Mode_IsKnown_def)
  obtain d where d: "locals = (if FOfflineDB fl \<noteq> [] then [NewLocalDict (Some d)] else [])"
    using l by (auto simp: local_sources_def split: if_splits sum.splits)
  have online: "online_sources w net fl n =
      (if cpe_mode fl = ''offline'' then []
       else (if cpe_mode fl = ''hybrid'' \<and> nvd_key w fl = [] \<and> n > 50 then []
             else [Some (NVDAPI (NAcquire net (nvd_key w fl)) (NHttp net) (WDecodeNVD w) (if FNvdAPIURL fl \<noteq> [] then FNvdAPIURL fl else NVDAPIBaseURL) (nvd_key w fl))])
        @ [Some (ClearlyDefined (NHttp net) (WDecodeCD w) ClearlyDefinedBaseURL)])"
    unfolding online_sources_def shouldSkipAnonymousNVDInHybrid_def nvdHybridSkipThreshold_def modes Let_def by auto
  have "map SrcName (MSources r) =
      [''pattern-matcher''] @ (if FOfflineDB fl \<noteq> [] then [''local-dictionary''] else []) @
      (if cpe_mode fl = ''offline'' then []
       else (if cpe_mode fl = ''hybrid'' \<and> nvd_key w fl = [] \<and> n > 50 then [] else [''nvd-api'']) @ [''clearly-defined'']) @ [''heuristic'']"
    unfolding r d online NewMultiSource_def Let_def using known
    by (cases "cpe_mode fl = ''offline''"; cases "FOfflineDB fl = []"; cases "cpe_mode fl = ''hybrid'' \<and> nvd_key w fl = [] \<and> n > 50")
      (simp_all add: sort_desc_def PatternMatcher_def NewLocalDict_def NewHeuristic_def NVDAPI_def ClearlyDefined_def CpeSources.ModeOffline_def)
  moreover have "MMode r = cpe_mode fl" unfolding r NewMultiSource_def Let_def using known by simp
  ultimately show ?thesis by (simp add: cpe_mode_def CpeSources.ModeOffline_def)
qed

lemma tenths:
  assumes "(of_int n :: rat) / 10 \<le> of_int m" "(of_int m :: rat) - 1 < of_int n / 10"
  shows "10 * (m - 1) < n" "n \<le> 10 * m"
proof -
  have "(of_int (10 * (m - 1)) :: rat) < of_int n" "(of_int n :: rat) \<le> of_int (10 * m)" using assms by simp_all
  then show "10 * (m - 1) < n" "n \<le> 10 * m" by (simp_all only: of_int_less_iff of_int_le_iff)
qed

text \<open>
  The estimate in the warning is the number of tens of components, rounded up; a skipped NVD would
  have taken more than five minutes, and with a key, in another mode or up to 50 components it is never skipped.
\<close>

theorem nvd_skip_bounds:
  "(let m = estimateAnonymousNVDMinutes n in if n \<le> 0 then m = 0 else 10 * (m - 1) < n \<and> n \<le> 10 * m) \<and>
   (shouldSkipAnonymousNVDInHybrid mode key n = (mode = ''hybrid'' \<and> key = [] \<and> 6 \<le> estimateAnonymousNVDMinutes n))"
proof -
  have e: "10 * (estimateAnonymousNVDMinutes n - 1) < n \<and> n \<le> 10 * estimateAnonymousNVDMinutes n" if "0 < n"
  proof -
    let ?m = "\<lceil>(of_int n :: rat) * 6 / 60\<rceil>"
    have eq: "(of_int n :: rat) * 6 / 60 = of_int n / 10" by simp
    have "(of_int n :: rat) / 10 \<le> of_int ?m" unfolding eq by (rule le_of_int_ceiling)
    moreover have "(of_int ?m :: rat) - 1 < of_int n / 10" unfolding eq using ceiling_correct [of "(of_int n :: rat) / 10"] by simp
    ultimately have m: "10 * (?m - 1) < n" "n \<le> 10 * ?m" by (rule tenths)+
    with that have "1 \<le> ?m" by linarith
    with m that show ?thesis by (simp add: estimateAnonymousNVDMinutes_def nvdAnonymousSecondsPerCall_def Let_def)
  qed
  have z: "estimateAnonymousNVDMinutes n = 0" if "n \<le> 0" using that by (simp add: estimateAnonymousNVDMinutes_def)
  have "50 < n \<longleftrightarrow> 6 \<le> estimateAnonymousNVDMinutes n"
  proof (cases "0 < n")
    case True
    from e [OF this] show ?thesis by auto
  qed (use z in simp)
  with e z show ?thesis
    by (auto simp: shouldSkipAnonymousNVDInHybrid_def nvdHybridSkipThreshold_def CpeSources.ModeHybrid_def Let_def)
qed

text \<open>
  The gate passes without a severity; an unknown one is an invalid argument, and otherwise the gate fails exactly if a
  finding under the bundled policy is at least as severe.  At the name of a severity it passes exactly if all findings are below it.
\<close>

theorem gate_outcome:
  "(case ParseSeverity (ToLower (TrimSpace failOn)) of (sev, ok) \<Rightarrow>
      evaluateComplianceGate failOn s =
        (if failOn = [] then None else if \<not> ok then Some 2
         else if list_ex (\<lambda>f. sev \<le> FSeverity f) (Findings New s) then Some 40 else None)) \<and>
   (evaluateComplianceGate (severity_string t) s = None \<longleftrightarrow> list_all (\<lambda>f. FSeverity f < t) (Findings New s))"
proof -
  have g: "evaluateComplianceGate fo s =
      (if fo = [] then None else if \<not> snd (ParseSeverity (ToLower (TrimSpace fo))) then Some 2
       else if list_ex (\<lambda>f. fst (ParseSeverity (ToLower (TrimSpace fo))) \<le> FSeverity f) (Findings New s) then Some 40 else None)" for fo
    by (auto simp: evaluateComplianceGate_def AtLeast_def list_ex_iff filter_empty_conv GateInvalidArgs_def ExitComplianceFail_def
        Let_def split: prod.split)
  have p: "ParseSeverity (ToLower (TrimSpace (severity_string t))) = (t, True) \<and> severity_string t \<noteq> []" for t
  proof -
    have "ToLower (TrimSpace ''critical'') = ''critical''" "ToLower (TrimSpace ''high'') = ''high''" "ToLower (TrimSpace ''medium'') = ''medium''"
      "ToLower (TrimSpace ''low'') = ''low''" "ToLower (TrimSpace ''info'') = ''info''" "ToLower (TrimSpace ''ignored'') = ''ignored''"
      by code_simp+
    then show ?thesis by (cases t) (simp_all add: ParseSeverity_def)
  qed
  have "evaluateComplianceGate (severity_string t) s = None \<longleftrightarrow> list_all (\<lambda>f. FSeverity f < t) (Findings New s)"
    unfolding g by (auto simp: p list_ex_iff list_all_iff not_le [symmetric])
  with g [of failOn] show ?thesis by (auto split: prod.split)
qed

text \<open>A directory that does not exist is an empty catalogue: a mistyped \<open>--offline-db\<close> is not reported.\<close>

lemma missing_offline_db:
  assumes "WFingerprints w (FOfflineDB fl) = fp_root.RootMissing" "WCatalogue w (FOfflineDB fl) = catalogue.RootMissing" "FNoNetwork fl"
  shows "\<exists>m. buildFingerprintMatcher w net fl = Inr m \<and> (\<forall>alg d. Chain_Lookup m alg d = NoMatch)"
    "\<exists>r. buildCPEResolver w net fl n = Inr r"
  using assms
  by (auto simp: buildFingerprintMatcher_def buildLocalMatcher_def Matchers.LoadFromDir_def Chain_Append_def NewChain_def Null_Lookup_def
      Local_Lookup_def buildCPEResolver_def local_sources_def Cpe.LoadFromDir_def)

text \<open>
  A package is looked up where its ecosystem lives and nowhere else: the npm, PyPI, Maven or Go source by the type of
  its PURL, whatever its case, each with the mirrors configured for it; for other types nothing is found.
\<close>

theorem registry_dispatch:
  "fst (Registry.walk_sources True (registry_sources w net cfg) p) =
     (let t = ToLower (PType p); env = registry_http w net; D = WSourceDecoders w; byEco = mirrors_of cfg in
        if t = ''npm'' then found_by (NPM_Fetch env (FillNPM D) (byEco ''npm'') npmUpstream p)
        else if t = ''pypi'' then found_by (PyPI_Fetch env (FillPyPI D) (byEco ''pypi'') pypiUpstream p)
        else if t = ''maven'' then found_by (Maven_Fetch env (FillMaven D) (byEco ''maven'') mavenUpstream p)
        else if t = ''golang'' then found_by (Golang_Fetch env (FillGo D) (byEco ''golang'') golangUpstream p)
        else None)"
proof -
  let ?env = "registry_http w net" and ?D = "WSourceDecoders w" and ?ms = "mirrors_of cfg"
  let ?srcs = "registry_sources w net cfg"
  note srcs = registry_sources_def Let_def source_constructors
  note fold = EqualFold_def source_types
  consider "ToLower (PType p) = ''npm''" | "ToLower (PType p) = ''pypi''" | "ToLower (PType p) = ''maven''" | "ToLower (PType p) = ''golang''"
    | "ToLower (PType p) \<notin> {''npm'', ''pypi'', ''maven'', ''golang''}" by blast
  then show ?thesis
  proof cases
    case 1
    then show ?thesis
      using npm.dispatch [of p "''npm''" "[]" "tl ?srcs" ?env "FillNPM ?D" "?ms ''npm''" npmUpstream] by (simp add: srcs fold found_by_def)
  next
    case 2
    then show ?thesis
      using pypi.dispatch [of p "''pypi''" "take 1 ?srcs" "drop 2 ?srcs" ?env "FillPyPI ?D" "?ms ''pypi''" pypiUpstream] by (simp add: srcs fold found_by_def)
  next
    case 3
    then show ?thesis
      using maven.dispatch [of p "''maven''" "take 2 ?srcs" "drop 3 ?srcs" ?env "FillMaven ?D" "?ms ''maven''" mavenUpstream] by (simp add: srcs fold found_by_def)
  next
    case 4
    then show ?thesis
      using golang.dispatch [of p "''golang''" "take 3 ?srcs" "drop 4 ?srcs" ?env "FillGo ?D" "?ms ''golang''" golangUpstream] by (simp add: srcs fold found_by_def)
  next
    case 5
    then show ?thesis by (simp add: srcs fold source_for_def)
  qed
qed

section \<open>Witnesses\<close>

definition demo_cli_world :: "unit cli_world" where
  "demo_cli_world =
     \<lparr>WGetenv = (\<lambda>_. []), WRead = (\<lambda>_. Inl ''missing''), WRules = (\<lambda>_. Some \<lparr>RFVersion = 1, RFRules = []\<rparr>), WEmbeddedRules = ''rules'',
      WGlob = no_matcher, WRegex = no_matcher, WFingerprints = (\<lambda>_. fp_root.RootMissing), WMatch = (\<lambda>_. None),
      WCatalogue = (\<lambda>_. catalogue.RootMissing), WBundledCPE = None, WDecodeNVD = (\<lambda>_. None), WDecodeCD = (\<lambda>_. None),
      WMirrors = (\<lambda>_. Inr []), WCertificates = (\<lambda>_. None), WKeyPair = (\<lambda>_ _. None), WBadURL = (\<lambda>_. None),
      WSourceDecoders = demo_decoders, WEolDecode = (\<lambda>_. Inr []), WDisk = (\<lambda>_. None), WDiskWritable = False,
      WEmbeddedSnapshot = ''snapshot'', WProducts = (\<lambda>_. Inr []), WCycles = (\<lambda>_. Inr []), WUnquote = (\<lambda>_. None),
      WOverrides = (\<lambda>_. None), WUntracked = Untracked.demo_env, WAnchorDecoders = no_decoders, WReadFails = (\<lambda>_. False),
      WBaseEnv = Basediff.demo_env, WExtractors = None, WRefDigest = (\<lambda>_. []), WCtx = (\<lambda>_ _. None), WEntryCtx = (\<lambda>_ _ _. None),
      WCpe = (\<lambda>_. ()), WClock = 0, WNow = 0, WStamp = [], WLayerText = (\<lambda>_. [])\<rparr>"

definition demo_network :: "lookup \<Rightarrow> unit network" where
  "demo_network answer =
     \<lparr>NHttp = (\<lambda>u h w. (Inl (), w)), NAcquire = (\<lambda>_ w. (True, w)), NSwh = (\<lambda>_ _. answer),
      NRegistry = (\<lambda>_. Inl ''refused''), NOpenBase = (\<lambda>_. Inl ''refused'')\<rparr>"

definition demo_flags :: enrich_flags where
  "demo_flags =
     \<lparr>FNoNetwork = True, FOfflineDB = [], FBase = ''none'', FIncludeRedundant = False, FIncludeNoise = False, FRulesFile = [],
      FNoCluster = False, FCpeMode = ''Online'', FNvdAPIKey = [], FNvdAPIURL = [], FIncludeRejectedCPE = False, FComplianceConfig = [],
      FNoSyftPrefilter = False, FNoRegistry = False, FMirrorsConfig = [], FRegistryCacheDir = [], FRegistryCacheTTL = 0,
      FNoLifecycle = False, FLifecycleMode = ''hybrid'', FLifecycleSnapshot = [], FFailOn = [], FEnable = [], FDisable = []\<rparr>"

lemma demo_enrichers_enable: "\<exists>es. allEnrichers demo_cli_world (demo_network NoMatch) (demo_flags\<lparr>FEnable := xs\<rparr>) n = Inr es"
  by (simp add: allEnrichers_def buildFingerprintMatcher_def buildPathClassifier_def Load_def validateRules_def classifier_New_def
      buildCPEEnricher_def buildCPEResolver_def local_sources_def LoadSeverityPolicyFromFile_def buildRegistryEnricher_def
      buildRegistryCache_def LoadMirrorsConfig_def buildLifecycleEnricher_def loadLifecycleBundled_def parseBundledSnapshot_def
      demo_cli_world_def demo_flags_def)

lemma demo_enrichers: "\<exists>es. allEnrichers demo_cli_world (demo_network NoMatch) demo_flags n = Inr es"
  using demo_enrichers_enable [of "[]" n] by (simp add: demo_flags_def)

lemma air_gapped_witness:
  "allEnrichers demo_cli_world (demo_network NoMatch) demo_flags 60 = allEnrichers demo_cli_world (demo_network (LookupError ''down'')) demo_flags 60"
proof (rule air_gapped)
  show "FNoNetwork demo_flags" by (simp add: demo_flags_def)
  show "TrimSpace (FBase demo_flags) = ''none''" by code_simp
qed

lemma pipeline_order_witness:
  "\<exists>es. map_sum id names (TopoSort (select_enrichers (demo_flags\<lparr>FDisable := [''dedup'']\<rparr>) es)) =
      Inr [''syft-prefilter'', ''attribution'', ''untracked'', ''compliance'', ''basediff'', ''extractor'', ''registry'', ''lifecycle'', ''cpe'']"
proof -
  obtain es where "allEnrichers demo_cli_world (demo_network NoMatch) demo_flags 60 = Inr es" using demo_enrichers by blast
  from pipeline_order [OF this, of "demo_flags\<lparr>FDisable := [''dedup'']\<rparr>"] show ?thesis by (auto simp: demo_flags_def)
qed


lemma cpe_slate_witness:
  "\<exists>r :: unit multi_source. map SrcName (MSources r) = [''pattern-matcher'', ''clearly-defined'', ''heuristic'']"
proof -
  let ?fl = "demo_flags\<lparr>FNoNetwork := False, FCpeMode := '' Hybrid''\<rparr>"
  obtain r where r: "buildCPEResolver demo_cli_world (demo_network NoMatch) ?fl 51 = Inr r"
    by (simp add: buildCPEResolver_def local_sources_def demo_flags_def)
  have "cpe_mode ?fl = ''hybrid''" "nvd_key demo_cli_world ?fl = []" "FOfflineDB ?fl = []" by code_simp+
  with cpe_slate [OF r] show ?thesis by (intro exI [of _ r]) simp
qed

end
