(* ===== verification/Metrics.thy ===== *)
theory Metrics
  imports Pipeline
begin

text \<open>
  The metrics store and its Prometheus text format (\<open>internal/telemetry/metrics.go\<close>), and the metrics of the
  pipeline (\<open>WithMetrics\<close> and the recording of \<open>internal/enrich/pipeline.go\<close>).  A metric is mutated through a
  pointer, here it is returned; floats are rationals, counts are natural numbers, and \<open>fmt_g\<close> is the \<open>%g\<close> verb.  A
  locked section is one step.  The writer is the text written so far, and it does not fail.
\<close>

section \<open>Model\<close>

datatype MetricKind = KindCounter | KindGauge | KindHistogram

fun MetricKind_String :: "MetricKind \<Rightarrow> string" where
  "MetricKind_String KindCounter = ''counter''"
| "MetricKind_String KindGauge = ''gauge''"
| "MetricKind_String KindHistogram = ''histogram''"

text \<open>A nil slice of bucket counts is \<^const>\<open>None\<close>.\<close>

record series =
  LabelValues :: "string list"
  SValue :: rat
  BucketCounts :: "nat list option"
  SCount :: nat
  SSum :: rat

record metric =
  MetName :: string
  MetHelp :: string
  MetKind :: MetricKind
  MetLabels :: "string list"
  MetBuckets :: "rat list"
  MetSeries :: "series gomap"

definition NewCounter :: "string \<Rightarrow> string \<Rightarrow> string list \<Rightarrow> metric" where
  "NewCounter name help labels =
     \<lparr>MetName = name, MetHelp = help, MetKind = KindCounter, MetLabels = labels, MetBuckets = [], MetSeries = []\<rparr>"

definition NewGauge :: "string \<Rightarrow> string \<Rightarrow> string list \<Rightarrow> metric" where
  "NewGauge name help labels =
     \<lparr>MetName = name, MetHelp = help, MetKind = KindGauge, MetLabels = labels, MetBuckets = [], MetSeries = []\<rparr>"

definition DefaultBuckets :: "rat list" where
  "DefaultBuckets = [5 / 1000, 1 / 100, 25 / 1000, 5 / 100, 1 / 10, 25 / 100, 5 / 10, 1, 25 / 10, 5, 10]"

definition NewHistogram :: "string \<Rightarrow> string \<Rightarrow> string list \<Rightarrow> rat list \<Rightarrow> metric" where
  "NewHistogram name help labels buckets =
     \<lparr>MetName = name, MetHelp = help, MetKind = KindHistogram, MetLabels = labels,
      MetBuckets = sort (if buckets = [] then DefaultBuckets else buckets), MetSeries = []\<rparr>"

definition joinLabelValues :: "string list \<Rightarrow> string" where
  "joinLabelValues values = (if values = [] then [] else Join [CHR 0x00] values)"

definition new_series :: "string list \<Rightarrow> series" where
  "new_series values = \<lparr>LabelValues = values, SValue = 0, BucketCounts = None, SCount = 0, SSum = 0\<rparr>"

definition series_for :: "metric \<Rightarrow> string list \<Rightarrow> series" where
  "series_for m values = (case mget (MetSeries m) (joinLabelValues values) of Some s \<Rightarrow> s | None \<Rightarrow> new_series values)"

text \<open>\<open>seriesForLocked\<close> and the change made to what it returns.\<close>

definition seriesForLocked :: "(series \<Rightarrow> series) \<Rightarrow> string list \<Rightarrow> metric \<Rightarrow> metric" where
  "seriesForLocked change values m =
     m\<lparr>MetSeries := mput (joinLabelValues values) (change (series_for m values)) (MetSeries m)\<rparr>"

definition metric_add :: "rat \<Rightarrow> string list \<Rightarrow> metric \<Rightarrow> metric" where
  "metric_add delta = seriesForLocked (\<lambda>s. s\<lparr>SValue := SValue s + delta\<rparr>)"

definition metric_set :: "rat \<Rightarrow> string list \<Rightarrow> metric \<Rightarrow> metric" where
  "metric_set value = seriesForLocked (\<lambda>s. s\<lparr>SValue := value\<rparr>)"

definition bump :: "rat list \<Rightarrow> rat \<Rightarrow> nat list \<Rightarrow> nat list" where
  "bump buckets value counts = map (\<lambda>(b, n). if value \<le> b then n + 1 else n) (zip buckets counts)"

definition observe_series :: "rat list \<Rightarrow> rat \<Rightarrow> series \<Rightarrow> series" where
  "observe_series buckets value s =
     s\<lparr>SSum := SSum s + value, SCount := SCount s + 1,
       BucketCounts := Some (bump buckets value (case BucketCounts s of None \<Rightarrow> replicate (length buckets) 0 | Some cs \<Rightarrow> cs))\<rparr>"

definition metric_observe :: "rat \<Rightarrow> string list \<Rightarrow> metric \<Rightarrow> metric" where
  "metric_observe value values m = seriesForLocked (observe_series (MetBuckets m) value) values m"

definition Metric_Inc :: "string list \<Rightarrow> metric \<Rightarrow> metric" where
  "Metric_Inc values m = (if MetKind m = KindHistogram then m else metric_add 1 values m)"

definition Metric_Add :: "rat \<Rightarrow> string list \<Rightarrow> metric \<Rightarrow> metric" where
  "Metric_Add n values m =
     (if MetKind m = KindCounter \<and> n < 0 then m
      else if MetKind m = KindHistogram then metric_observe n values m
      else metric_add n values m)"

definition Metric_Set :: "rat \<Rightarrow> string list \<Rightarrow> metric \<Rightarrow> metric" where
  "Metric_Set n values m = (if MetKind m \<noteq> KindGauge then m else metric_set n values m)"

definition Metric_Observe :: "rat \<Rightarrow> string list \<Rightarrow> metric \<Rightarrow> metric" where
  "Metric_Observe value values m = (if MetKind m \<noteq> KindHistogram then m else metric_observe value values m)"

text \<open>The calls on one metric, in any order.\<close>

inductive metric_step :: "metric \<Rightarrow> metric \<Rightarrow> bool" where
  Inc: "metric_step m (Metric_Inc values m)"
| Add: "metric_step m (Metric_Add n values m)"
| Set: "metric_step m (Metric_Set n values m)"
| Observe: "metric_step m (Metric_Observe n values m)"

inductive_cases metric_stepE: "metric_step m m'"

section \<open>The registry\<close>

type_synonym metric_registry = "metric gomap"

definition Register :: "metric option \<Rightarrow> metric_registry \<Rightarrow> metric_registry \<times> string option" where
  "Register m r =
     (case m of None \<Rightarrow> (r, Some ''telemetry: nil metric'')
      | Some m \<Rightarrow>
          if mget r (MetName m) \<noteq> None then (r, Some (''telemetry: duplicate metric '' @ Quote (MetName m)))
          else (mput (MetName m) m r, None))"

text \<open>The panic of \<open>MustRegister\<close> is \<^const>\<open>None\<close>.\<close>

definition MustRegister :: "metric \<Rightarrow> metric_registry \<Rightarrow> metric_registry option" where
  "MustRegister m r = (case Register (Some m) r of (r', None) \<Rightarrow> Some r' | (_, Some e) \<Rightarrow> None)"

definition Registry_Names :: "metric_registry \<Rightarrow> string list" where
  "Registry_Names r = sort (map fst r)"

section \<open>The text format\<close>

definition replace_with :: "char \<Rightarrow> string \<Rightarrow> string \<Rightarrow> string" where
  "replace_with c t s = concat (map (\<lambda>x. if x = c then t else [x]) s)"

definition backslash :: char where "backslash = CHR 0x5C"

definition escapeLabelValue :: "string \<Rightarrow> string" where
  "escapeLabelValue v =
     replace_with (CHR 0x0A) [backslash, CHR ''n''] (replace_with (CHR 0x22) [backslash, CHR 0x22] (replace_with backslash [backslash, backslash] v))"

definition escapeHelp :: "string \<Rightarrow> string" where
  "escapeHelp h = replace_with (CHR 0x0A) [backslash, CHR ''n''] (replace_with backslash [backslash, backslash] h)"

definition label_pair :: "string \<Rightarrow> string \<Rightarrow> string" where
  "label_pair name value = name @ ''='' @ Quote (escapeLabelValue value)"

definition formatLabels :: "string list \<Rightarrow> string list \<Rightarrow> string" where
  "formatLabels keys values =
     (if keys = [] then []
      else ''{'' @ Join '','' (sort (map (\<lambda>i. label_pair (keys ! i) (if i < length values then values ! i else [])) [0..<length keys])) @ ''}'')"

definition mergeLabels :: "string \<Rightarrow> string \<Rightarrow> string \<Rightarrow> string" where
  "mergeLabels existing name value =
     (if existing = [] then ''{'' @ label_pair name value @ ''}'' else butlast existing @ '','' @ label_pair name value @ ''}'')"

definition eol :: string where "eol = [CHR 0x0A]"

text \<open>The lines of a series; reading bucket counts that are not there is the panic \<^const>\<open>None\<close>.\<close>

definition writeSeries :: "(rat \<Rightarrow> string) \<Rightarrow> metric \<Rightarrow> series \<Rightarrow> string option" where
  "writeSeries fmt_g m s =
     (let labels = formatLabels (MetLabels m) (LabelValues s) in
        case MetKind m of
          KindHistogram \<Rightarrow>
            (let counts = (case BucketCounts s of None \<Rightarrow> [] | Some cs \<Rightarrow> cs) in
             if length counts < length (MetBuckets m) then None
             else Some (concat (map (\<lambda>(b, n). MetName m @ ''_bucket'' @ mergeLabels labels ''le'' (fmt_g b) @ '' '' @ Itoa (int n) @ eol)
                   (zip (MetBuckets m) counts)) @
                 MetName m @ ''_bucket'' @ mergeLabels labels ''le'' ''+Inf'' @ '' '' @ Itoa (int (SCount s)) @ eol @
                 MetName m @ ''_sum'' @ labels @ '' '' @ fmt_g (SSum s) @ eol @
                 MetName m @ ''_count'' @ labels @ '' '' @ Itoa (int (SCount s)) @ eol))
        | _ \<Rightarrow> Some (MetName m @ labels @ '' '' @ fmt_g (SValue s) @ eol))"

fun concat_options :: "string option list \<Rightarrow> string option" where
  "concat_options [] = Some []"
| "concat_options (x # xs) = (case x of None \<Rightarrow> None | Some s \<Rightarrow> map_option (\<lambda>t. s @ t) (concat_options xs))"

definition encodePrometheus :: "(rat \<Rightarrow> string) \<Rightarrow> metric \<Rightarrow> string option" where
  "encodePrometheus fmt_g m =
     map_option (\<lambda>t. ''# HELP '' @ MetName m @ '' '' @ escapeHelp (MetHelp m) @ eol @
         ''# TYPE '' @ MetName m @ '' '' @ MetricKind_String (MetKind m) @ eol @ t)
       (concat_options (map (\<lambda>k. writeSeries fmt_g m (the (mget (MetSeries m) k))) (sort (map fst (MetSeries m)))))"

definition ExportPrometheus :: "(rat \<Rightarrow> string) \<Rightarrow> metric_registry \<Rightarrow> string option" where
  "ExportPrometheus fmt_g r = concat_options (map (\<lambda>n. encodePrometheus fmt_g (the (mget r n))) (Registry_Names r))"

section \<open>The metrics of the pipeline\<close>

definition enricher_duration :: string where "enricher_duration = ''astinus_enricher_duration_seconds''"
definition enricher_errors :: string where "enricher_errors = ''astinus_enricher_errors_total''"
definition pipeline_runs :: string where "pipeline_runs = ''astinus_pipeline_runs_total''"
definition pipeline_duration :: string where "pipeline_duration = ''astinus_pipeline_duration_seconds''"

lemmas metric_names = enricher_duration_def enricher_errors_def pipeline_runs_def pipeline_duration_def

definition pipeline_metrics :: "metric list" where
  "pipeline_metrics =
     [NewHistogram enricher_duration ''Per-enricher Enrich() duration in seconds.'' [''enricher'', ''status''] [],
      NewCounter enricher_errors ''Per-enricher Enrich() error count.'' [''enricher''],
      NewCounter pipeline_runs ''Total pipeline runs labeled by terminal status.'' [''status''],
      NewHistogram pipeline_duration ''Total pipeline duration in seconds.'' [''status''] []]"

fun register_all :: "metric list \<Rightarrow> metric_registry \<Rightarrow> metric_registry option" where
  "register_all [] r = Some r"
| "register_all (m # ms) r = (case MustRegister m r of None \<Rightarrow> None | Some r' \<Rightarrow> register_all ms r')"

definition WithMetrics :: "metric_registry \<Rightarrow> metric_registry option" where
  "WithMetrics = register_all pipeline_metrics"

text \<open>A call through the pointer that \<open>MustRegister\<close> returned.\<close>

definition on_metric :: "string \<Rightarrow> (metric \<Rightarrow> metric) \<Rightarrow> metric_registry \<Rightarrow> metric_registry" where
  "on_metric name f r = (case mget r name of None \<Rightarrow> r | Some m \<Rightarrow> mput name (f m) r)"

text \<open>What the pipeline records for an event of its trace; \<open>dur\<close> is the time measured for it.\<close>

fun record_event :: "rat \<Rightarrow> event \<Rightarrow> metric_registry \<Rightarrow> metric_registry" where
  "record_event dur (DurationObserved name status) r = on_metric enricher_duration (Metric_Observe dur [name, status]) r"
| "record_event dur (ErrorCounted name) r = on_metric enricher_errors (Metric_Inc [name]) r"
| "record_event dur (RunCounted status) r = on_metric pipeline_runs (Metric_Inc [status]) r"
| "record_event dur (RunDuration status) r = on_metric pipeline_duration (Metric_Observe dur [status]) r"
| "record_event dur _ r = r"

fun record_events :: "(nat \<Rightarrow> rat) \<Rightarrow> nat \<Rightarrow> event list \<Rightarrow> metric_registry \<Rightarrow> metric_registry" where
  "record_events dur i [] r = r"
| "record_events dur i (e # es) r = record_events dur (Suc i) es (record_event (dur i) e r)"

text \<open>The text that is exported after a run with that trace; \<^const>\<open>None\<close> would be a panic.\<close>

definition metrics_text :: "(rat \<Rightarrow> string) \<Rightarrow> (nat \<Rightarrow> rat) \<Rightarrow> event list \<Rightarrow> string option" where
  "metrics_text fmt_g dur es =
     (case WithMetrics [] of None \<Rightarrow> None | Some r \<Rightarrow> ExportPrometheus fmt_g (record_events dur 0 es r))"

section \<open>Lemmas\<close>

subsection \<open>Series\<close>

text \<open>What the observations of a series amount to.\<close>

definition bucket_count :: "rat list \<Rightarrow> rat \<Rightarrow> nat" where
  "bucket_count obs b = length (filter (\<lambda>v. v \<le> b) obs)"

definition summarises :: "rat list \<Rightarrow> rat list \<Rightarrow> series \<Rightarrow> bool" where
  "summarises buckets obs s \<longleftrightarrow>
     obs \<noteq> [] \<and> SCount s = length obs \<and> SSum s = sum_list obs \<and> BucketCounts s = Some (map (bucket_count obs) buckets)"

lemma observe_summarises:
  assumes "if obs = [] then s = new_series values else summarises buckets obs s"
  shows "summarises buckets (obs @ [v]) (observe_series buckets v s)"
proof -
  have bump: "bump buckets v (map f buckets) = map (\<lambda>b. if v \<le> b then f b + 1 else f b) buckets" for f
    by (simp add: bump_def zip_map2 map_zip_map2 zip_same_conv_map comp_def)
  have zero: "replicate (length buckets) 0 = map (\<lambda>b. 0) buckets" by (simp add: map_replicate_const)
  have "map (\<lambda>b. if v \<le> b then bucket_count obs b + 1 else bucket_count obs b) buckets = map (bucket_count (obs @ [v])) buckets"
    by (simp add: bucket_count_def)
  then show ?thesis
    using assms by (auto simp: observe_series_def summarises_def new_series_def bump zero bucket_count_def split: if_splits)
qed

text \<open>The abstract view of a histogram: the observations of each key.\<close>

definition histogram_view :: "metric \<Rightarrow> (string \<Rightarrow> rat list) \<Rightarrow> bool" where
  "histogram_view m obs \<longleftrightarrow>
     (\<forall>k. case mget (MetSeries m) k of None \<Rightarrow> obs k = [] | Some s \<Rightarrow> summarises (MetBuckets m) (obs k) s)"

lemma observe_view:
  assumes "histogram_view m obs"
  shows "histogram_view (metric_observe v values m) (obs(joinLabelValues values := obs (joinLabelValues values) @ [v]))"
proof -
  let ?k = "joinLabelValues values"
  have view: "case mget (MetSeries m) ?k of None \<Rightarrow> obs ?k = [] | Some s \<Rightarrow> summarises (MetBuckets m) (obs ?k) s"
    using assms unfolding histogram_view_def by (rule spec)
  have "summarises (MetBuckets m) (obs ?k @ [v]) (observe_series (MetBuckets m) v (series_for m values))"
  proof (rule observe_summarises)
    show "if obs ?k = [] then series_for m values = new_series values else summarises (MetBuckets m) (obs ?k) (series_for m values)"
    proof (cases "mget (MetSeries m) ?k")
      case None
      then have "obs ?k = []" using view by simp
      with None show ?thesis by (simp add: series_for_def)
    next
      case (Some s)
      then have "summarises (MetBuckets m) (obs ?k) s" using view by simp
      moreover from this have "obs ?k \<noteq> []" by (simp add: summarises_def)
      ultimately show ?thesis using Some by (simp add: series_for_def)
    qed
  qed
  then show ?thesis
    using assms by (simp add: histogram_view_def metric_observe_def seriesForLocked_def cong: option.case_cong)
qed

lemma steps_keep:
  assumes "metric_step m m'"
  shows "MetName m' = MetName m" "MetHelp m' = MetHelp m" "MetKind m' = MetKind m" "MetLabels m' = MetLabels m" "MetBuckets m' = MetBuckets m"
  using assms by (auto elim!: metric_stepE simp: Metric_Inc_def Metric_Add_def Metric_Set_def Metric_Observe_def metric_add_def metric_set_def
      metric_observe_def seriesForLocked_def)

text \<open>On a histogram a call observes one value or does nothing.\<close>

lemma histogram_step:
  assumes "metric_step m m'" "MetKind m = KindHistogram"
  shows "m' = m \<or> (\<exists>v values. m' = metric_observe v values m)"
  using assms(1)
proof cases
  case (Inc vs)
  then show ?thesis using assms(2) by (simp add: Metric_Inc_def)
next
  case (Add n vs)
  then have "m' = metric_observe n vs m" using assms(2) by (simp add: Metric_Add_def)
  then show ?thesis by blast
next
  case (Set n vs)
  then show ?thesis using assms(2) by (simp add: Metric_Set_def)
next
  case (Observe n vs)
  then have "m' = metric_observe n vs m" using assms(2) by (simp add: Metric_Observe_def)
  then show ?thesis by blast
qed

lemma histogram_reachable:
  assumes "metric_step\<^sup>*\<^sup>* (NewHistogram name help labels buckets) m"
  shows "\<exists>obs. histogram_view m obs \<and> MetKind m = KindHistogram \<and> MetBuckets m = sort (if buckets = [] then DefaultBuckets else buckets)"
  using assms
proof (induction rule: rtranclp_induct)
  case base
  show ?case by (auto simp: histogram_view_def NewHistogram_def)
next
  case (step m m')
  then obtain obs where obs: "histogram_view m obs" "MetKind m = KindHistogram" "MetBuckets m = sort (if buckets = [] then DefaultBuckets else buckets)"
    by blast
  have kept: "MetKind m' = KindHistogram" "MetBuckets m' = MetBuckets m" using steps_keep [OF step.hyps(2)] obs(2) by simp_all
  from histogram_step [OF step.hyps(2) obs(2)] show ?case
    using obs kept observe_view [OF obs(1)] by (elim disjE exE) auto
qed

lemma bucket_count_mono: "b \<le> b' \<Longrightarrow> bucket_count obs b \<le> bucket_count obs b'"
  unfolding bucket_count_def by (induction obs) auto

lemma bucket_count_le: "bucket_count obs b \<le> length obs"
  by (simp add: bucket_count_def)

subsection \<open>Text\<close>

lemma concat_options_defined: "list_all (\<lambda>x. x \<noteq> None) xs \<Longrightarrow> concat_options xs \<noteq> None"
  by (induction xs) auto

lemma writeSeries_defined:
  assumes "MetKind m = KindHistogram \<Longrightarrow> \<exists>obs. summarises (MetBuckets m) obs s"
  shows "writeSeries fmt_g m s \<noteq> None"
  using assms by (cases "MetKind m") (auto simp: writeSeries_def Let_def summarises_def)

lemma same_map_keys: "map_ok m \<Longrightarrow> map_ok n \<Longrightarrow> same_map m n \<Longrightarrow> sort (map fst m) = sort (map fst n)"
proof -
  assume ok: "map_ok m" "map_ok n" "same_map m n"
  have "set (map fst m) = dom (mget m)" "set (map fst n) = dom (mget n)" by (simp_all add: dom_map_of_conv_image_fst)
  then have "set (map fst m) = set (map fst n)" using ok(3) by (simp only: same_map_def)
  then have "mset (map fst m) = mset (map fst n)" by (rule iffD1 [OF set_eq_iff_mset_eq_distinct [OF ok(1,2)]])
  then have "sort (map fst n) = sort (map fst m)" by (intro properties_for_sort) simp_all
  then show ?thesis by (rule sym)
qed

lemma joined_values:
  assumes "length xs = length ys" "list_all (\<lambda>x. CHR 0x00 \<notin> set x) xs" "list_all (\<lambda>x. CHR 0x00 \<notin> set x) ys"
    "joinLabelValues xs = joinLabelValues ys"
  shows "xs = ys"
proof (cases "xs = []")
  case False
  then have "ys \<noteq> []" using assms(1) by auto
  then have "Join [CHR 0x00] xs = Join [CHR 0x00] ys" using False assms(4) by (simp add: joinLabelValues_def)
  then have "SplitC (CHR 0x00) (Join [CHR 0x00] xs) = SplitC (CHR 0x00) (Join [CHR 0x00] ys)" by (rule arg_cong)
  then show ?thesis using SplitC_Join [OF False] SplitC_Join [OF \<open>ys \<noteq> []\<close>] assms(2,3) by (simp add: list_all_iff)
qed (use assms(1) in simp)

subsection \<open>Counters\<close>

definition value_of :: "metric \<Rightarrow> string \<Rightarrow> rat" where
  "value_of m k = (case mget (MetSeries m) k of None \<Rightarrow> 0 | Some s \<Rightarrow> SValue s)"

lemma add_value: "0 \<le> delta \<Longrightarrow> value_of m k \<le> value_of (metric_add delta vs m) k"
  by (auto simp: value_of_def metric_add_def seriesForLocked_def series_for_def new_series_def split: option.split)

lemma counter_step:
  assumes "metric_step m m'" "MetKind m = KindCounter"
  shows "value_of m k \<le> value_of m' k"
  using assms(1)
proof cases
  case (Inc vs)
  then show ?thesis using assms(2) add_value [of 1 m k vs] by (simp add: Metric_Inc_def)
next
  case (Add n vs)
  then show ?thesis using assms(2) add_value [of n m k vs] by (simp add: Metric_Add_def)
qed (simp_all add: assms(2) Metric_Set_def Metric_Observe_def)

section \<open>Properties\<close>

text \<open>
  Whatever is called on a histogram, each of its series is the summary of a list of observations: their number, their sum
  and, for every bucket, how many do not exceed its bound; so the buckets are cumulative and none exceeds the count.
\<close>

theorem histogram_counts:
  assumes "metric_step\<^sup>*\<^sup>* (NewHistogram name help labels buckets) m" "mget (MetSeries m) k = Some s"
  shows "\<exists>obs cs. BucketCounts s = Some cs \<and> cs = map (bucket_count obs) (MetBuckets m) \<and> SCount s = length obs \<and>
    SSum s = sum_list obs \<and> sorted cs \<and> list_all (\<lambda>n. n \<le> SCount s) cs"
proof -
  from histogram_reachable [OF assms(1)] obtain obs
    where view: "histogram_view m obs" and b: "MetBuckets m = sort (if buckets = [] then DefaultBuckets else buckets)" by blast
  have "case mget (MetSeries m) k of None \<Rightarrow> obs k = [] | Some s \<Rightarrow> summarises (MetBuckets m) (obs k) s"
    using view unfolding histogram_view_def by (rule spec)
  then have s: "summarises (MetBuckets m) (obs k) s" by (simp add: assms(2))
  have "sorted (map (bucket_count (obs k)) (MetBuckets m))"
    unfolding b by (rule sorted_map_mono [OF sorted_sort]) (auto intro: monoI mono_onI bucket_count_mono)
  then show ?thesis using s bucket_count_le [of "obs k"] by (auto simp: summarises_def list_all_iff)
qed

theorem histogram_counts_witness:
  "\<exists>obs. map_option BucketCounts (mget (MetSeries (Metric_Observe 2 [''a''] (Metric_Add 7 [''a''] (NewHistogram ''d'' [] [''l''] [5, 1])))) ''a'') =
     Some (Some (map (bucket_count obs) [1, 5]))"
proof -
  let ?h = "NewHistogram ''d'' [] [''l''] [5, 1]"
  let ?m = "Metric_Observe 2 [''a''] (Metric_Add 7 [''a''] ?h)"
  have "metric_step\<^sup>*\<^sup>* ?h ?m" by (meson Add Observe r_into_rtranclp rtranclp.rtrancl_into_rtrancl)
  moreover obtain s where s: "mget (MetSeries ?m) ''a'' = Some s" "MetBuckets ?m = [1, 5]"
    by (simp add: Metric_Observe_def Metric_Add_def NewHistogram_def metric_observe_def seriesForLocked_def joinLabelValues_def)
  ultimately show ?thesis using histogram_counts [of "''d''" "[]" "[''l'']" "[5, 1]" ?m "''a''" s] by auto
qed

text \<open>A counter never goes down.\<close>

theorem counter_monotone:
  assumes "metric_step\<^sup>*\<^sup>* m m'" "MetKind m = KindCounter"
  shows "value_of m k \<le> value_of m' k"
proof -
  from assms(1) have "MetKind m' = KindCounter \<and> value_of m k \<le> value_of m' k"
  proof (induction rule: rtranclp_induct)
    case (step m1 m2)
    then show ?case using steps_keep(3) [OF step.hyps(2)] counter_step [OF step.hyps(2), of k] by auto
  qed (simp add: assms(2))
  then show ?thesis by blast
qed

theorem counter_monotone_witness:
  "value_of (NewCounter ''c'' [] []) [] \<le> value_of (Metric_Add (-1) [] (Metric_Inc [] (NewCounter ''c'' [] []))) []"
proof (rule counter_monotone)
  show "metric_step\<^sup>*\<^sup>* (NewCounter ''c'' [] []) (Metric_Add (-1) [] (Metric_Inc [] (NewCounter ''c'' [] [])))"
    by (meson Add Inc r_into_rtranclp rtranclp.rtrancl_into_rtrancl)
qed (simp add: NewCounter_def)

text \<open>Different tuples of label values are different series, unless they contain the separator.\<close>

theorem series_distinct:
  assumes "length xs = length ys" "list_all (\<lambda>x. CHR 0x00 \<notin> set x) xs" "list_all (\<lambda>x. CHR 0x00 \<notin> set x) ys" "xs \<noteq> ys"
  shows "mget (MetSeries (metric_add d xs m)) (joinLabelValues ys) = mget (MetSeries m) (joinLabelValues ys)"
  using joined_values [OF assms(1-3)] assms(4) by (auto simp: metric_add_def seriesForLocked_def)

theorem series_distinct_witness:
  "mget (MetSeries (metric_add 1 [''a'', ''bc''] (NewCounter ''c'' [] [''x'', ''y'']))) (joinLabelValues [''ab'', ''c'']) = None"
proof -
  have "mget (MetSeries (metric_add 1 [''a'', ''bc''] (NewCounter ''c'' [] [''x'', ''y'']))) (joinLabelValues [''ab'', ''c'']) =
      mget (MetSeries (NewCounter ''c'' [] [''x'', ''y''])) (joinLabelValues [''ab'', ''c''])"
    by (rule series_distinct) simp_all
  then show ?thesis by (simp add: NewCounter_def)
qed

definition in_use :: "metric \<Rightarrow> bool" where
  "in_use m \<longleftrightarrow> (\<exists>name help labels buckets.
     metric_step\<^sup>*\<^sup>* (NewCounter name help labels) m \<or> metric_step\<^sup>*\<^sup>* (NewGauge name help labels) m \<or>
     metric_step\<^sup>*\<^sup>* (NewHistogram name help labels buckets) m)"

lemma kind_kept: "metric_step\<^sup>*\<^sup>* m m' \<Longrightarrow> MetKind m' = MetKind m"
  by (induction rule: rtranclp_induct) (auto dest: steps_keep(3))

lemma NewCounter_kind: "MetKind (NewCounter nm hp ls) = KindCounter"
  by (simp add: NewCounter_def)

lemma NewGauge_kind: "MetKind (NewGauge nm hp ls) = KindGauge"
  by (simp add: NewGauge_def)

lemma in_use_encodes:
  assumes "in_use m"
  shows "encodePrometheus fmt_g m \<noteq> None"
proof -
  have "writeSeries fmt_g m (the (mget (MetSeries m) k)) \<noteq> None" if "k \<in> fst ` set (MetSeries m)" for k
  proof (rule writeSeries_defined)
    assume kind: "MetKind m = KindHistogram"
    from assms obtain nm hp ls bs where
      "metric_step\<^sup>*\<^sup>* (NewCounter nm hp ls) m \<or> metric_step\<^sup>*\<^sup>* (NewGauge nm hp ls) m \<or> metric_step\<^sup>*\<^sup>* (NewHistogram nm hp ls bs) m"
      unfolding in_use_def by blast
    then have h: "metric_step\<^sup>*\<^sup>* (NewHistogram nm hp ls bs) m"
    proof (elim disjE)
      assume "metric_step\<^sup>*\<^sup>* (NewCounter nm hp ls) m"
      from kind_kept [OF this] kind show ?thesis by (simp only: NewCounter_kind MetricKind.distinct)
    next
      assume "metric_step\<^sup>*\<^sup>* (NewGauge nm hp ls) m"
      from kind_kept [OF this] kind show ?thesis by (simp only: NewGauge_kind MetricKind.distinct)
    qed
    have "mget (MetSeries m) k \<noteq> None" using that by (simp add: map_of_eq_None_iff)
    then obtain s where "mget (MetSeries m) k = Some s" by blast
    moreover from histogram_reachable [OF h] obtain obs where "histogram_view m obs" by blast
    then have "case mget (MetSeries m) k of None \<Rightarrow> obs k = [] | Some s \<Rightarrow> summarises (MetBuckets m) (obs k) s"
      unfolding histogram_view_def by (rule spec)
    ultimately show "\<exists>obs. summarises (MetBuckets m) obs (the (mget (MetSeries m) k))" by auto
  qed
  then have "list_all (\<lambda>x. x \<noteq> None) (map (\<lambda>k. writeSeries fmt_g m (the (mget (MetSeries m) k))) (sort (map fst (MetSeries m))))"
    by (simp add: list_all_iff)
  from concat_options_defined [OF this] show ?thesis by (simp add: encodePrometheus_def)
qed

lemma in_use_step: "in_use m \<Longrightarrow> metric_step m m' \<Longrightarrow> in_use m'"
  unfolding in_use_def by (meson rtranclp.rtrancl_into_rtrancl)

definition registry_in_use :: "metric_registry \<Rightarrow> bool" where
  "registry_in_use r \<longleftrightarrow> (\<forall>n m. mget r n = Some m \<longrightarrow> in_use m)"

lemma on_metric_in_use: "registry_in_use r \<Longrightarrow> (\<And>m. metric_step m (f m)) \<Longrightarrow> registry_in_use (on_metric name f r)"
proof (cases "mget r name")
  case (Some m)
  assume "registry_in_use r" and step: "\<And>m. metric_step m (f m)"
  with Some have "in_use m" by (simp add: registry_in_use_def)
  from in_use_step [OF this step] have "in_use (f m)" .
  with \<open>registry_in_use r\<close> Some show ?thesis by (simp add: registry_in_use_def on_metric_def)
qed (simp add: on_metric_def)

lemma record_event_in_use: "registry_in_use r \<Longrightarrow> registry_in_use (record_event dur e r)"
  by (cases e) (auto intro!: on_metric_in_use metric_step.intros)

lemma record_events_in_use: "registry_in_use r \<Longrightarrow> registry_in_use (record_events dur i es r)"
  by (induction es arbitrary: i r) (simp_all add: record_event_in_use)

lemma export_defined:
  assumes "registry_in_use r"
  shows "ExportPrometheus fmt_g r \<noteq> None"
proof -
  have "encodePrometheus fmt_g (the (mget r n)) \<noteq> None" if n: "n \<in> fst ` set r" for n
  proof -
    have "mget r n \<noteq> None" using n by (simp add: map_of_eq_None_iff)
    then obtain m where m: "mget r n = Some m" by blast
    with assms have "in_use m" by (simp add: registry_in_use_def)
    from in_use_encodes [OF this] show ?thesis by (simp add: m)
  qed
  then have "list_all (\<lambda>x. x \<noteq> None) (map (\<lambda>n. encodePrometheus fmt_g (the (mget r n))) (Registry_Names r))"
    by (simp add: list_all_iff Registry_Names_def)
  from concat_options_defined [OF this] show ?thesis by (simp add: ExportPrometheus_def)
qed

definition pipeline_registry :: metric_registry where
  "pipeline_registry = map (\<lambda>m. (MetName m, m)) pipeline_metrics"

lemma WithMetrics_fresh: "WithMetrics [] = Some pipeline_registry"
  by (simp add: WithMetrics_def pipeline_registry_def pipeline_metrics_def MustRegister_def Register_def NewHistogram_def NewCounter_def metric_names)

lemma fresh_in_use: "registry_in_use pipeline_registry"
proof -
  have "list_all in_use pipeline_metrics" unfolding pipeline_metrics_def in_use_def by auto
  moreover have "m \<in> set pipeline_metrics" if "mget pipeline_registry n = Some m" for n m
    using map_of_SomeD [OF that] by (auto simp: pipeline_registry_def)
  ultimately show ?thesis by (auto simp: registry_in_use_def list_all_iff)
qed

text \<open>What an event adds to the counter of errors and of runs.\<close>

lemma joinLabelValues_single [simp]: "joinLabelValues [x] = x"
  by (simp add: joinLabelValues_def)

definition counted :: "metric_registry \<Rightarrow> string \<Rightarrow> string \<Rightarrow> rat" where
  "counted r name k = (case mget r name of None \<Rightarrow> 0 | Some m \<Rightarrow> value_of m k)"

definition counter_in :: "metric_registry \<Rightarrow> string \<Rightarrow> bool" where
  "counter_in r name \<longleftrightarrow> (\<exists>m. mget r name = Some m \<and> MetKind m = KindCounter)"

lemma inc_value: "MetKind m = KindCounter \<Longrightarrow> value_of (Metric_Inc [x] m) k = value_of m k + (if k = x then 1 else 0)"
  by (auto simp: Metric_Inc_def metric_add_def seriesForLocked_def value_of_def series_for_def new_series_def split: option.split)

lemma record_event_counts:
  assumes "counter_in r enricher_errors" "counter_in r pipeline_runs"
  shows "counter_in (record_event dur e r) enricher_errors" "counter_in (record_event dur e r) pipeline_runs"
    "counted (record_event dur e r) enricher_errors k = counted r enricher_errors k + (if e = ErrorCounted k then 1 else 0)"
    "counted (record_event dur e r) pipeline_runs k = counted r pipeline_runs k + (if e = RunCounted k then 1 else 0)"
proof -
  have kind: "MetKind (Metric_Inc vs m) = MetKind m" for vs m by (rule steps_keep(3) [OF Inc])
  have names: "enricher_errors \<noteq> enricher_duration" "enricher_errors \<noteq> pipeline_duration" "pipeline_runs \<noteq> enricher_duration"
    "pipeline_runs \<noteq> pipeline_duration" "enricher_errors \<noteq> pipeline_runs" by (simp_all add: metric_names)
  show "counter_in (record_event dur e r) enricher_errors" "counter_in (record_event dur e r) pipeline_runs"
    using assms names kind by (cases e; auto simp: counter_in_def on_metric_def split: option.split)+
  show "counted (record_event dur e r) enricher_errors k = counted r enricher_errors k + (if e = ErrorCounted k then 1 else 0)"
    using assms(1) names by (cases e) (auto simp: counted_def counter_in_def on_metric_def inc_value split: option.split)
  show "counted (record_event dur e r) pipeline_runs k = counted r pipeline_runs k + (if e = RunCounted k then 1 else 0)"
    using assms(2) names by (cases e) (auto simp: counted_def counter_in_def on_metric_def inc_value split: option.split)
qed

lemma record_events_counts:
  assumes "counter_in r enricher_errors" "counter_in r pipeline_runs"
  shows "counted (record_events dur i es r) enricher_errors k = counted r enricher_errors k + of_nat (length (filter (\<lambda>e. e = ErrorCounted k) es)) \<and>
    counted (record_events dur i es r) pipeline_runs k = counted r pipeline_runs k + of_nat (length (filter (\<lambda>e. e = RunCounted k) es))"
  using assms
proof (induction es arbitrary: i r)
  case (Cons e es)
  note step = record_event_counts [OF Cons.prems, of "dur i" e]
  show ?case using Cons.IH [OF step(1,2), of "Suc i"] step(3,4) [of k] by auto
qed simp

text \<open>
  What a run publishes: the export is always a text, and its counters of errors and of runs are the numbers of those events in the
  trace.
\<close>

theorem published_counts:
  "\<exists>r. WithMetrics [] = Some r \<and> metrics_text fmt_g dur es = ExportPrometheus fmt_g (record_events dur 0 es r) \<and>
     metrics_text fmt_g dur es \<noteq> None \<and>
     counted (record_events dur 0 es r) enricher_errors name = of_nat (length (filter (\<lambda>e. e = ErrorCounted name) es)) \<and>
     counted (record_events dur 0 es r) pipeline_runs status = of_nat (length (filter (\<lambda>e. e = RunCounted status) es))"
proof (intro exI conjI)
  show "WithMetrics [] = Some pipeline_registry" by (rule WithMetrics_fresh)
  show exported: "metrics_text fmt_g dur es = ExportPrometheus fmt_g (record_events dur 0 es pipeline_registry)"
    by (simp add: metrics_text_def WithMetrics_fresh)
  have kept: "registry_in_use (record_events dur 0 es pipeline_registry)" by (rule record_events_in_use [OF fresh_in_use])
  show "metrics_text fmt_g dur es \<noteq> None"
    unfolding exported by (rule export_defined [OF kept])
  have base: "counter_in pipeline_registry enricher_errors" "counter_in pipeline_registry pipeline_runs"
    "counted pipeline_registry enricher_errors name = 0" "counted pipeline_registry pipeline_runs status = 0"
    by (simp_all add: counter_in_def counted_def pipeline_registry_def pipeline_metrics_def NewCounter_def NewHistogram_def metric_names value_of_def)
  show "counted (record_events dur 0 es pipeline_registry) enricher_errors name = of_nat (length (filter (\<lambda>e. e = ErrorCounted name) es))"
    using record_events_counts [OF base(1,2), of dur 0 es name] base(3) by simp
  show "counted (record_events dur 0 es pipeline_registry) pipeline_runs status = of_nat (length (filter (\<lambda>e. e = RunCounted status) es))"
    using record_events_counts [OF base(1,2), of dur 0 es status] base(4) by simp
qed

text \<open>
  The export never indexes bucket counts that are not there, and it does not depend on the order in which the map of
  metrics is iterated.
\<close>

theorem export_deterministic:
  assumes "\<And>n m. mget r n = Some m \<Longrightarrow> in_use m" "map_ok r" "map_ok r'" "same_map r r'"
  shows "ExportPrometheus fmt_g r \<noteq> None \<and> ExportPrometheus fmt_g r' = ExportPrometheus fmt_g r"
proof
  show "ExportPrometheus fmt_g r \<noteq> None" using assms(1) by (intro export_defined) (simp add: registry_in_use_def)
  show "ExportPrometheus fmt_g r' = ExportPrometheus fmt_g r"
    using same_map_keys [OF assms(2-4)] assms(4) by (simp add: ExportPrometheus_def Registry_Names_def same_map_def)
qed

theorem export_deterministic_witness:
  "ExportPrometheus (\<lambda>_. ''1'') [(''a'', NewCounter ''a'' [] []), (''b'', NewGauge ''b'' [] [])] =
   ExportPrometheus (\<lambda>_. ''1'') [(''b'', NewGauge ''b'' [] []), (''a'', NewCounter ''a'' [] [])]"
proof -
  let ?r = "[(''b'', NewGauge ''b'' [] []), (''a'', NewCounter ''a'' [] [])]" and ?r' = "[(''a'', NewCounter ''a'' [] []), (''b'', NewGauge ''b'' [] [])]"
  have "in_use m" if "mget ?r n = Some m" for n m
    using that unfolding in_use_def by (auto split: if_splits)
  moreover have "same_map ?r ?r'" by (auto simp: same_map_def fun_eq_iff)
  ultimately show ?thesis using export_deterministic [of ?r ?r' "\<lambda>_. ''1''"] by simp
qed

section \<open>Observations\<close>

text \<open>Binding the metrics a second time to the same registry panics.\<close>

lemma metrics_bound_once: "WithMetrics pipeline_registry = None"
  by (simp add: WithMetrics_def pipeline_registry_def pipeline_metrics_def MustRegister_def Register_def NewHistogram_def)

text \<open>
  A label value is escaped for the format and then quoted by the \<open>%q\<close> verb, which escapes again: one quotation mark comes out
  as three backslashes and the mark.
\<close>

lemma label_escaped_twice:
  "formatLabels [''l''] [[CHR 0x22]] = ''{l='' @ [CHR 0x22, backslash, backslash, backslash, CHR 0x22, CHR 0x22] @ ''}''"
  by code_simp

lemma labels_not_by_name: "formatLabels [''a'', ''a1''] [[], []] = ''{a1='' @ Quote [] @ '',a='' @ Quote [] @ ''}''"
  by code_simp

lemma no_labels_and_empty_label: "joinLabelValues [] = joinLabelValues [[]]"
  by (simp add: joinLabelValues_def)

lemma add_observes: "MetKind m = KindHistogram \<Longrightarrow> Metric_Add n vs m = Metric_Observe n vs m"
  by (simp add: Metric_Add_def Metric_Observe_def)

end
