(* ===== verification/Command.thy ===== *)
theory Command
  imports Wiring Format Render Sign Access ImageSource Metrics
begin

text \<open>
  The \<open>enrich\<close> command from its flags to its exit code (\<open>runEnrich\<close>, \<open>runPostRenderHooks\<close> and the metrics of
  \<open>internal/cli/enrich.go\<close>, \<open>Open\<close> of \<open>internal/image/bundle.go\<close>): the SBOM is loaded, the image opened, the enrichers built,
  selected and run, the result written, signed and judged.  The file system is threaded through; what reaches a registry is an
  argument of its own beside the record of the other network services.
\<close>

section \<open>Model\<close>

definition ExitOK :: nat where "ExitOK = 0"
definition ExitSBOMRead :: nat where "ExitSBOMRead = 3"
definition ExitImageAccess :: nat where "ExitImageAccess = 4"
definition ExitEnrich :: nat where "ExitEnrich = 5"
definition ExitNoNetwork :: nat where "ExitNoNetwork = 30"

record command_flags =
  KEnrich :: enrich_flags
  KSbomPath :: string
  KImageRef :: string
  KOutputPath :: string
  KOutputFormat :: string
  KPlatform :: string
  KInsecure :: bool
  KCABundle :: string
  KSkipTLS :: bool
  KConfigPath :: string
  KMetricsOutput :: string
  KSign :: sign_flags

text \<open>
  \<open>CLoad\<close> loads an image that is not in a registry; \<open>CPartial\<close> is what a failing renderer has written, \<open>CExport\<close> the metrics
  of a run as text, \<open>CCloses\<close> whether the flush of a file succeeds.
\<close>

record ('w, 'c, 'k) command_world =
  CCli :: "'w cli_world"
  CCodecs :: codecs
  COpenFile :: "string \<Rightarrow> reader option"
  CStdin :: reader
  CReadConfig :: "string \<Rightarrow> string option"
  CYaml :: "string \<Rightarrow> Config option"
  CTls :: "('c, 'k) tls_world"
  CHome :: "string option"
  CDocker :: "string \<Rightarrow> docker_file"
  CSources :: source_world
  CParsePlatform :: "string \<Rightarrow> (string \<times> string) option"
  CRegistryHost :: "string \<Rightarrow> string"
  CLoad :: "image_source \<Rightarrow> string \<Rightarrow> string + v1_image"
  CRunCtx :: "nat \<Rightarrow> string option"
  CVersionText :: string
  CEncoders :: encoders
  CPartial :: "renderer \<Rightarrow> SBOM \<Rightarrow> string"
  CWritable :: "string \<Rightarrow> bool"
  CCloses :: "string \<Rightarrow> bool"
  CFmtG :: "rat \<Rightarrow> string"
  CDuration :: "nat \<Rightarrow> rat"
  CSignEnv :: sign_env

text \<open>A registry: the transports, whether plain HTTP is allowed, the platform and the credentials to the answer for a reference.\<close>

type_synonym ('c, 'k) registry_world =
  "('c, 'k) per_registry \<Rightarrow> bool \<Rightarrow> (string \<times> string) option \<Rightarrow> authenticator option \<Rightarrow> string \<Rightarrow> v1_image remote_answer"

datatype open_error = SourceFailed ImageSource.source_error | PullFailed pull_error | LoadFailed string

definition load_source ::
  "('w, 'c, 'k) command_world \<Rightarrow> ('c, 'k) registry_world \<Rightarrow> ('c, 'k) per_registry \<Rightarrow> provider list \<Rightarrow> command_flags \<Rightarrow> image_source \<Rightarrow>
   open_error + v1_image"
where
  "load_source w remote tr providers fl src =
     (case src of
        RegistrySource r \<Rightarrow>
          map_sum PullFailed id (pull (CParsePlatform w) (remote tr (KInsecure fl)) (Some providers) (KPlatform fl) (CRegistryHost w r) r)
      | _ \<Rightarrow> map_sum LoadFailed id (CLoad w src (KPlatform fl)))"

definition Open_bundle ::
  "('w, 'c, 'k) command_world \<Rightarrow> ('c, 'k) registry_world \<Rightarrow> ('c, 'k) per_registry \<Rightarrow> provider list \<Rightarrow> command_flags \<Rightarrow> open_error + image_bundle"
where
  "Open_bundle w remote tr providers fl =
     (case fst (FromReference (CSources w) (KInsecure fl) (KImageRef fl) (WGetenv (CCli w))) of
        Inl e \<Rightarrow> Inl (SourceFailed e)
      | Inr src \<Rightarrow>
          (case load_source w remote tr providers fl src of
             Inl e \<Rightarrow> Inl e
           | Inr img \<Rightarrow>
               (case detectRuntime (Some img) of
                  (rt, ev) \<Rightarrow> Inr \<lparr>BImage = Some img, BRuntime = Some rt, RuntimeEvidence = ev\<rparr>)))"

definition loadConfigIfPresent :: "('w, 'c, 'k) command_world \<Rightarrow> string \<Rightarrow> config_error + Config option" where
  "loadConfigIfPresent w path =
     (if path = [] then Inr None
      else case Load_config (CReadConfig w) (CYaml w) path of Inl e \<Rightarrow> Inl e | Inr c \<Rightarrow> Inr (Some c))"

datatype metrics_sink = MetricsStdout | MetricsStderr | MetricsFile string

definition openMetricsSink :: "(string \<Rightarrow> bool) \<Rightarrow> string \<Rightarrow> metrics_sink option" where
  "openMetricsSink writable spec =
     (if spec = ''stdout'' then Some MetricsStdout
      else if spec = ''stderr'' then Some MetricsStderr
      else case CutPrefix spec ''file:'' of
          Some rest \<Rightarrow> if rest = [] then None else if writable rest then Some (MetricsFile rest) else None
        | None \<Rightarrow> None)"

text \<open>The metrics change the file system or the standard output only; every failure is logged.  A truncated file stays.\<close>

definition writeMetrics ::
  "('w, 'c, 'k) command_world \<Rightarrow> string \<Rightarrow> event list \<Rightarrow> file_system \<Rightarrow> file_system \<times> string"
where
  "writeMetrics w spec events fs =
     (if spec = [] then (fs, [])
      else case openMetricsSink (CWritable w) spec of
          None \<Rightarrow> (fs, [])
        | Some MetricsStdout \<Rightarrow> (fs, case metrics_text (CFmtG w) (CDuration w) events of None \<Rightarrow> [] | Some t \<Rightarrow> t)
        | Some MetricsStderr \<Rightarrow> (fs, [])
        | Some (MetricsFile p) \<Rightarrow> (fs(p \<mapsto> (case metrics_text (CFmtG w) (CDuration w) events of None \<Rightarrow> [] | Some t \<Rightarrow> t)), []))"

text \<open>The write of the result: the exit code of a failure, the file system and the standard output.\<close>

definition writeOutput ::
  "('w, 'c, 'k) command_world \<Rightarrow> string \<Rightarrow> renderer \<Rightarrow> SBOM \<Rightarrow> file_system \<Rightarrow> nat option \<times> file_system \<times> string"
where
  "writeOutput w path r sbom fs =
     (case Open_output (CWritable w) path of
        None \<Rightarrow> (Some ExitOutputWrite, fs, [])
      | Some sink \<Rightarrow>
          (let rendered = Render_sbom (CEncoders w) r (Some sbom);
               bytes = (case rendered of None \<Rightarrow> CPartial w r sbom | Some b \<Rightarrow> b);
               failed = (rendered = None) \<or> (case sink of Stdout \<Rightarrow> False | OutFile p \<Rightarrow> \<not> CCloses w p)
           in (if failed then Some ExitOutputWrite else None,
               case sink of Stdout \<Rightarrow> fs | OutFile p \<Rightarrow> fs(p \<mapsto> bytes),
               case sink of Stdout \<Rightarrow> bytes | OutFile p \<Rightarrow> [])))"

definition runPostRenderHooks ::
  "('w, 'c, 'k) command_world \<Rightarrow> command_flags \<Rightarrow> SBOM \<Rightarrow> string \<Rightarrow> file_system \<Rightarrow> nat option \<times> file_system"
where
  "runPostRenderHooks w fl sbom formatName fs =
     (case runSigningStep (CSignEnv w) ((KSign fl)\<lparr>CAFlag := KCABundle fl\<rparr>) (KOutputPath fl) formatName fs of
        (Some code, fs1) \<Rightarrow> (Some code, fs1)
      | (None, fs1) \<Rightarrow> (evaluateComplianceGate (FFailOn (KEnrich fl)) sbom, fs1))"

definition formatNameFor :: "command_flags \<Rightarrow> SBOM \<Rightarrow> string" where
  "formatNameFor fl sbom = (if KOutputFormat fl = FormatSame then ResolveSame (SourceFormat sbom) else KOutputFormat fl)"

definition run_pipeline ::
  "('w, 'c, 'k) command_world \<Rightarrow> command_flags \<Rightarrow> image_bundle enricher list \<Rightarrow> SBOM \<Rightarrow> image_bundle \<Rightarrow>
   pipeline_error option \<times> SBOM option \<times> event list"
where
  "run_pipeline w fl es sbom bundle =
     Run (CRunCtx w) (CVersionText w) \<lparr>Enrichers = select_enrichers (KEnrich fl) es, Metrics = (KMetricsOutput fl \<noteq> [])\<rparr> (Some sbom) (Some bundle)"

text \<open>The steps up to the image and its enrichers: an exit code, or the SBOM, the bundle and the enrichers.\<close>

definition prepare ::
  "('w, 'c, 'k) command_world \<Rightarrow> 'w network \<Rightarrow> ('c, 'k) registry_world \<Rightarrow> command_flags \<Rightarrow> nat + SBOM \<times> image_bundle \<times> image_bundle enricher list"
where
  "prepare w net remote fl =
     (case loadSBOM (CCodecs w) (COpenFile w) (CStdin w) (KSbomPath fl) of Inl e \<Rightarrow> Inl ExitSBOMRead
      | Inr sbom \<Rightarrow>
      (case loadConfigIfPresent w (KConfigPath fl) of Inl e \<Rightarrow> Inl Sign.ExitInvalidArgs
      | Inr cfg \<Rightarrow>
      (if FNoNetwork (KEnrich fl) \<and> refRequiresNetwork (CSources w) (KImageRef fl) then Inl ExitNoNetwork
       else case buildTransport (CTls w) (KCABundle fl) (KSkipTLS fl) cfg of Inl e \<Rightarrow> Inl ExitImageAccess
      | Inr tr \<Rightarrow>
      (case Open_bundle w remote tr (buildAuthChain (WGetenv (CCli w)) (CHome w) (CDocker w) cfg) fl of Inl e \<Rightarrow> Inl ExitImageAccess
      | Inr bundle \<Rightarrow>
      (case allEnrichers (CCli w) net (KEnrich fl) (int (length (Components sbom))) of Inl e \<Rightarrow> Inl Sign.ExitInvalidArgs
      | Inr es \<Rightarrow> Inr (sbom, bundle, es))))))"

text \<open>The exit code, the file system and the standard output of a run.\<close>

definition runEnrich ::
  "('w, 'c, 'k) command_world \<Rightarrow> 'w network \<Rightarrow> ('c, 'k) registry_world \<Rightarrow> command_flags \<Rightarrow> file_system \<Rightarrow> nat \<times> file_system \<times> string"
where
  "runEnrich w net remote fl fs =
     (case prepare w net remote fl of
        Inl code \<Rightarrow> (code, fs, [])
      | Inr (sbom, bundle, es) \<Rightarrow>
          (case run_pipeline w fl es sbom bundle of
             (err, result, events) \<Rightarrow>
               (case writeMetrics w (KMetricsOutput fl) events fs of
                  (fs1, out1) \<Rightarrow>
                    (case (err, result) of
                       (None, Some s) \<Rightarrow>
                         (case Get_renderer builtin_formats (formatNameFor fl s) True of
                            Inl known \<Rightarrow> (Sign.ExitInvalidArgs, fs1, out1)
                          | Inr r \<Rightarrow>
                              (case writeOutput w (KOutputPath fl) r s fs1 of
                                 (Some code, fs2, out2) \<Rightarrow> (code, fs2, out1 @ out2)
                               | (None, fs2, out2) \<Rightarrow>
                                   (case runPostRenderHooks w fl s (formatNameFor fl s) fs2 of
                                      (Some code, fs3) \<Rightarrow> (code, fs3, out1 @ out2)
                                    | (None, fs3) \<Rightarrow> (ExitOK, fs3, out1 @ out2))))
                     | _ \<Rightarrow> (ExitEnrich, fs1, out1)))))"

section \<open>Lemmas\<close>

lemma prepare_codes:
  assumes "prepare w net remote fl = Inl c"
  shows "c \<in> {2, 3, 4, 30}"
    "c = 3 \<longleftrightarrow> (\<exists>e. loadSBOM (CCodecs w) (COpenFile w) (CStdin w) (KSbomPath fl) = Inl e)"
    "c = 30 \<longleftrightarrow> (\<exists>s cfg. loadSBOM (CCodecs w) (COpenFile w) (CStdin w) (KSbomPath fl) = Inr s \<and> loadConfigIfPresent w (KConfigPath fl) = Inr cfg) \<and>
       FNoNetwork (KEnrich fl) \<and> refRequiresNetwork (CSources w) (KImageRef fl)"
  using assms
  by (auto simp: prepare_def ExitSBOMRead_def Sign.ExitInvalidArgs_def ExitNoNetwork_def ExitImageAccess_def split: sum.splits if_splits)

lemma prepare_ready:
  assumes "prepare w net remote fl = Inr r"
  shows "\<nexists>e. loadSBOM (CCodecs w) (COpenFile w) (CStdin w) (KSbomPath fl) = Inl e"
    "\<not> (FNoNetwork (KEnrich fl) \<and> refRequiresNetwork (CSources w) (KImageRef fl))"
  using assms by (auto simp: prepare_def split: sum.splits if_splits)

lemma run_pipeline_result: "\<exists>s'. fst (snd (run_pipeline w fl es s b)) = Some s'"
  by (auto simp: run_pipeline_def Run_def Let_def split: sum.split)

lemma signing_codes: "fst (runSigningStep env fl path fmt fs) = Some c \<Longrightarrow> c = 2 \<or> c = 50 \<or> c = 6 \<and> fs path = None"
  by (auto simp: runSigningStep_def Let_def Sign.ExitInvalidArgs_def ExitSigning_def ExitOutputWrite_def
      split: if_splits option.splits sum.splits prod.splits)

lemma gate_codes: "evaluateComplianceGate f s = Some c \<Longrightarrow> c = 2 \<or> c = 40"
  by (auto simp: evaluateComplianceGate_def GateInvalidArgs_def ExitComplianceFail_def Let_def split: if_splits prod.splits)

lemma writeOutput_result:
  assumes "writeOutput w path r s fs = (code, fs', out)"
  shows "code = None \<and> (\<exists>bytes. Render_sbom (CEncoders w) r (Some s) = Some bytes \<and>
            (if path = ''-'' then fs' = fs \<and> out = bytes else fs' = fs(path \<mapsto> bytes) \<and> out = [] \<and> path \<noteq> [] \<and> CWritable w path \<and> CCloses w path))
         \<or> code = Some 6"
  using assms
  by (auto simp: writeOutput_def Open_output_def Let_def ExitOutputWrite_def split: if_splits option.splits sink.splits)

text \<open>The steps after the enrichers, by the outcome of the write.\<close>

lemma runEnrich_cases:
  assumes "runEnrich w net remote fl fs = (c, fs', out)"
  obtains (stopped) "prepare w net remote fl = Inl c" "fs' = fs" "out = []"
  | (failed) sbom bdl es err s events where "prepare w net remote fl = Inr (sbom, bdl, es)"
      "run_pipeline w fl es sbom bdl = (Some err, s, events)" "c = 5" "(fs', out) = writeMetrics w (KMetricsOutput fl) events fs"
  | (unknown) sbom bdl es s events where "prepare w net remote fl = Inr (sbom, bdl, es)"
      "run_pipeline w fl es sbom bdl = (None, Some s, events)" "c = 2" "(fs', out) = writeMetrics w (KMetricsOutput fl) events fs"
  | (unwritten) sbom bdl es s events where "prepare w net remote fl = Inr (sbom, bdl, es)"
      "run_pipeline w fl es sbom bdl = (None, Some s, events)" "c = 6"
  | (written) sbom bdl es s events r fs1 out1 fs2 out2 post where "prepare w net remote fl = Inr (sbom, bdl, es)"
      "run_pipeline w fl es sbom bdl = (None, Some s, events)" "writeMetrics w (KMetricsOutput fl) events fs = (fs1, out1)"
      "Get_renderer builtin_formats (formatNameFor fl s) True = Inr r"
      "writeOutput w (KOutputPath fl) r s fs1 = (None, fs2, out2)"
      "runPostRenderHooks w fl s (formatNameFor fl s) fs2 = (post, fs')"
      "c = (case post of None \<Rightarrow> 0 | Some code \<Rightarrow> code)" "out = out1 @ out2"
proof (cases "prepare w net remote fl")
  case (Inl code)
  with assms show thesis by (intro stopped) (auto simp: runEnrich_def)
next
  case (Inr ready)
  obtain sbom bdl es where ready: "ready = (sbom, bdl, es)" by (cases ready) auto
  obtain err result events where run: "run_pipeline w fl es sbom bdl = (err, result, events)" using prod_cases3 by blast
  obtain fs1 out1 where m: "writeMetrics w (KMetricsOutput fl) events fs = (fs1, out1)" by fastforce
  obtain s where s: "result = Some s" using run_pipeline_result [of w fl es sbom bdl] run by auto
  note pre = Inr [unfolded ready]
  show thesis
  proof (cases err)
    case (Some e)
    with assms pre run m s show thesis by (intro failed [OF pre]) (auto simp: runEnrich_def ExitEnrich_def)
  next
    case None
    note run = run [unfolded None s]
    show thesis
    proof (cases "Get_renderer builtin_formats (formatNameFor fl s) True")
      case (Inl known)
      with assms pre run m show thesis by (intro unknown [OF pre run]) (auto simp: runEnrich_def Sign.ExitInvalidArgs_def)
    next
      case (Inr r)
      obtain code fs2 out2 where wo: "writeOutput w (KOutputPath fl) r s fs1 = (code, fs2, out2)" using prod_cases3 by blast
      show thesis
      proof (cases code)
        case (Some k)
        then have "k = 6" using writeOutput_result [OF wo] by simp
        with Some assms pre run m Inr wo show thesis by (intro unwritten [OF pre run]) (auto simp: runEnrich_def)
      next
        case None
        obtain post fs3 where p: "runPostRenderHooks w fl s (formatNameFor fl s) fs2 = (post, fs3)" by fastforce
        with None assms pre run m Inr wo have "c = (case post of None \<Rightarrow> 0 | Some code \<Rightarrow> code)" "out = out1 @ out2" "fs' = fs3"
          by (auto simp: runEnrich_def ExitOK_def split: option.splits)
        with written [OF pre run m Inr wo [unfolded None]] p show thesis by blast
      qed
    qed
  qed
qed
lemma writeMetrics_untouched: "writeMetrics w spec ev fs = (fs1, out1) \<Longrightarrow> spec = [] \<or> spec = ''stderr'' \<Longrightarrow> fs1 = fs \<and> out1 = []"
  by (auto simp: writeMetrics_def openMetricsSink_def split: option.splits)

lemma post_codes:
  assumes "runPostRenderHooks w fl s name fs = (Some c, fs')" "KOutputPath fl = ''-'' \<or> fs (KOutputPath fl) \<noteq> None"
  shows "c \<in> {2, 40, 50}"
proof (cases "fst (runSigningStep (CSignEnv w) ((KSign fl)\<lparr>CAFlag := KCABundle fl\<rparr>) (KOutputPath fl) name fs)")
  case None
  with assms(1) gate_codes show ?thesis
    by (auto simp: runPostRenderHooks_def split: prod.splits)
next
  case (Some k)
  then have "c = k" using assms(1) by (auto simp: runPostRenderHooks_def split: prod.splits)
  moreover have "k \<noteq> 6"
    using Some assms(2) signing_codes [OF Some]
    by (auto simp: runSigningStep_def Let_def Sign.ExitInvalidArgs_def ExitSigning_def ExitOutputWrite_def
        split: if_splits option.splits sum.splits prod.splits)
  ultimately show ?thesis using signing_codes [OF Some] by auto
qed

section \<open>Properties\<close>


text \<open>
  C12.  Codes 0, 40 and 50 mean that the result is complete where it was asked for: the bytes of the renderer for the enriched SBOM are on the
  standard output or, before signing, in the output file, whose flush succeeded.  A run that ends with 0 has passed the gate, has signed if
  asked to, and leaves the file as the signing step left it; 40 is the gate's code alone.
\<close>

theorem success_is_written:
  assumes "runEnrich w net remote fl fs = (c, fs', out)" "c \<in> {0, 40, 50}"
  shows "\<exists>sbom bdl es s events r bytes fs1 out1 fs2.
    prepare w net remote fl = Inr (sbom, bdl, es) \<and> run_pipeline w fl es sbom bdl = (None, Some s, events) \<and>
    writeMetrics w (KMetricsOutput fl) events fs = (fs1, out1) \<and>
    Get_renderer builtin_formats (formatNameFor fl s) True = Inr r \<and> Render_sbom (CEncoders w) r (Some s) = Some bytes \<and>
    (if KOutputPath fl = ''-'' then fs2 = fs1 \<and> out = out1 @ bytes
     else fs2 = fs1(KOutputPath fl \<mapsto> bytes) \<and> out = out1 \<and> CCloses w (KOutputPath fl)) \<and>
    (let sign = runSigningStep (CSignEnv w) ((KSign fl)\<lparr>CAFlag := KCABundle fl\<rparr>) (KOutputPath fl) (formatNameFor fl s) fs2;
         gate = evaluateComplianceGate (FFailOn (KEnrich fl)) s
     in fs' = snd sign \<and> (c = 0 \<longleftrightarrow> fst sign = None \<and> gate = None) \<and> (c = 40 \<longleftrightarrow> fst sign = None \<and> gate = Some 40) \<and>
        (c = 50 \<longleftrightarrow> fst sign = Some 50))"
  using assms(1)
proof (cases rule: runEnrich_cases)
  case stopped
  with prepare_codes(1) [OF stopped(1)] assms(2) show ?thesis by auto
next
  case (written sbom bdl es s events r fs1 out1 fs2 out2 post)
  have "\<exists>bytes. Render_sbom (CEncoders w) r (Some s) = Some bytes \<and>
      (if KOutputPath fl = ''-'' then fs2 = fs1 \<and> out2 = bytes else fs2 = fs1(KOutputPath fl \<mapsto> bytes) \<and> out2 = [] \<and> CCloses w (KOutputPath fl))"
    using writeOutput_result [OF written(5)] by (auto split: if_splits)
  then obtain bytes where bytes: "Render_sbom (CEncoders w) r (Some s) = Some bytes"
      "if KOutputPath fl = ''-'' then fs2 = fs1 \<and> out2 = bytes else fs2 = fs1(KOutputPath fl \<mapsto> bytes) \<and> out2 = [] \<and> CCloses w (KOutputPath fl)"
    by blast
  let ?sign = "runSigningStep (CSignEnv w) ((KSign fl)\<lparr>CAFlag := KCABundle fl\<rparr>) (KOutputPath fl) (formatNameFor fl s) fs2"
  let ?gate = "evaluateComplianceGate (FFailOn (KEnrich fl)) s"
  have post: "fs' = snd ?sign" "post = (case fst ?sign of None \<Rightarrow> ?gate | Some k \<Rightarrow> Some k)"
    using written(6) by (auto simp: runPostRenderHooks_def split: prod.splits option.splits)
  have codes: "fst ?sign = Some k \<Longrightarrow> k \<noteq> 0 \<and> k \<noteq> 40" "?gate = Some k \<Longrightarrow> k \<noteq> 0 \<and> k \<noteq> 50" for k
    using signing_codes [of _ _ _ _ fs2 k] gate_codes [of _ s k] by fastforce+
  have "(c = 0 \<longleftrightarrow> fst ?sign = None \<and> ?gate = None) \<and> (c = 40 \<longleftrightarrow> fst ?sign = None \<and> ?gate = Some 40) \<and> (c = 50 \<longleftrightarrow> fst ?sign = Some 50)"
    using written(7) unfolding post(2) using codes by (cases "fst ?sign"; cases ?gate) auto
  with written(1-4,8) bytes post(1) show ?thesis unfolding Let_def by (cases "KOutputPath fl = ''-''") auto
qed (use assms(2) in auto)

lemma Open_bundle_offline:
  assumes "\<not> refRequiresNetwork (CSources w) (KImageRef fl)" "\<not> HasPrefix (KImageRef fl) ''registry://''"
  shows "Open_bundle w remote1 tr providers fl = Open_bundle w remote2 tr providers fl"
proof (cases "fst (FromReference (CSources w) (KInsecure fl) (KImageRef fl) (WGetenv (CCli w)))")
  case (Inr src)
  have local: "src \<noteq> RegistrySource r" for r by (rule offline_local [OF assms Inr])
  have same: "load_source w remote1 tr providers fl src = load_source w remote2 tr providers fl src"
    using local by (cases src) (auto simp: load_source_def)
  show ?thesis unfolding Open_bundle_def Inr sum.case same by (rule refl)
qed (simp add: Open_bundle_def)


section \<open>Witnesses\<close>

definition demo_sink_encoders :: encoders where
  "demo_sink_encoders =
     \<lparr>EncodeCDX = (\<lambda>_ _ _. Some ''cdx''), EncodeSPDX = (\<lambda>_ _ _. Some ''spdx''), EncodeSARIF = (\<lambda>_ _. None), FormatTime = (\<lambda>_. []),
      Float32 = (\<lambda>x. x), ToolVersionText = ''dev'', Now = [], Percent = (\<lambda>_ _. [])\<rparr>"

definition demo_command_world :: "(unit, string, string) command_world" where
  "demo_command_world =
     \<lparr>CCli = demo_cli_world, CCodecs = demo_codecs, COpenFile = (\<lambda>_. None), CStdin = ([CHR 0x7B], False), CReadConfig = (\<lambda>_. None),
      CYaml = (\<lambda>_. None), CTls = Access.demo_world, CHome = None, CDocker = (\<lambda>_. DockerMissing), CSources = ImageSource.demo_files,
      CParsePlatform = (\<lambda>_. None), CRegistryHost = (\<lambda>_. []), CLoad = (\<lambda>_ _. Inr Untracked.demo_files), CRunCtx = (\<lambda>_. None),
      CVersionText = ''dev'', CEncoders = demo_sink_encoders, CPartial = (\<lambda>_ _. []), CWritable = (\<lambda>_. True), CCloses = (\<lambda>_. True),
      CFmtG = (\<lambda>_. ''1''), CDuration = (\<lambda>_. 1), CSignEnv = demo_sign_env\<rparr>"

definition demo_command :: command_flags where
  "demo_command =
     \<lparr>KEnrich = demo_flags\<lparr>FEnable := [''nothing'']\<rparr>, KSbomPath = ''-'', KImageRef = ''app.tar'', KOutputPath = ''o.json'',
      KOutputFormat = ''cyclonedx-json'', KPlatform = [], KInsecure = False, KCABundle = [], KSkipTLS = False, KConfigPath = [], KMetricsOutput = [],
      KSign = demo_sign_flags\<rparr>"

definition refusing :: "(string, string) registry_world" where
  "refusing tr insecure platform auth ref = RemoteFailure ''refused''"

lemma demo_prepared:
  "\<exists>bdl es. prepare demo_command_world (demo_network NoMatch) refusing demo_command = Inr (demo_loaded, bdl, es) \<and>
     select_enrichers (KEnrich demo_command) es = []"
proof -
  let ?w = "demo_command_world" and ?fl = "demo_command"
  have load: "loadSBOM (CCodecs ?w) (COpenFile ?w) (CStdin ?w) (KSbomPath ?fl) = Inr demo_loaded"
    using demo_loads by (simp add: demo_command_world_def demo_command_def)
  have cfg: "loadConfigIfPresent ?w (KConfigPath ?fl) = Inr None" by (simp add: loadConfigIfPresent_def demo_command_def)
  have net: "\<not> refRequiresNetwork (CSources ?w) (KImageRef ?fl)"
    by (simp add: demo_command_world_def demo_command_def) code_simp
  obtain tr where tr: "buildTransport (CTls ?w) (KCABundle ?fl) (KSkipTLS ?fl) None = Inr tr"
    by (simp add: demo_command_world_def demo_command_def buildTransport_def New_transport_def no_options_def loadCAPool_def
        loadClientCertificate_def proxyFunc_def Access.demo_world_def)
  have src: "fst (FromReference (CSources ?w) (KInsecure ?fl) (KImageRef ?fl) (WGetenv (CCli ?w))) = Inr (ArchiveSource ''app.tar'' ''archive/app:latest'')"
    by (simp add: demo_command_world_def demo_command_def demo_cli_world_def) code_simp
  obtain bdl where bdl: "Open_bundle ?w refusing tr (buildAuthChain (WGetenv (CCli ?w)) (CHome ?w) (CDocker ?w) None) ?fl = Inr bdl"
    unfolding Open_bundle_def src
    by (cases "detectRuntime (Some Untracked.demo_files)") (simp add: load_source_def demo_command_world_def)
  obtain es where es: "allEnrichers (CCli ?w) (demo_network NoMatch) (KEnrich ?fl) (int (length (Components demo_loaded))) = Inr es"
    using that demo_enrichers_enable [of "[''nothing'']"] by (auto simp: demo_command_world_def demo_command_def)
  have "names (select_enrichers (KEnrich ?fl) es) = filter (selected (KEnrich ?fl)) canonical" by (rule selected_names(1) [OF es])
  also have "\<dots> = []"
  proof -
    have "TrimSpace ''nothing'' = ''nothing''" by code_simp
    then show ?thesis by (simp add: selected_def demo_command_def demo_flags_def)
  qed
  finally have "select_enrichers (KEnrich ?fl) es = []" by simp
  moreover have "prepare ?w (demo_network NoMatch) refusing ?fl = Inr (demo_loaded, bdl, es)"
    by (simp add: prepare_def load cfg net tr bdl es)
  ultimately show ?thesis by blast
qed

lemma demo_run:
  "\<exists>fs'. runEnrich demo_command_world (demo_network NoMatch) refusing demo_command Map.empty = (0, fs', []) \<and> fs' ''o.json'' = Some ''cdx''"
proof -
  let ?w = "demo_command_world" and ?fl = "demo_command"
  obtain bdl es where pre: "prepare ?w (demo_network NoMatch) refusing ?fl = Inr (demo_loaded, bdl, es)"
      "select_enrichers (KEnrich ?fl) es = []"
    using demo_prepared by blast
  let ?s = "stampMetadata ''dev'' demo_loaded"
  have run: "run_pipeline ?w ?fl es demo_loaded bdl = (None, Some ?s, [PipelineOrder [], PipelineDone 0])"
    unfolding run_pipeline_def pre(2)
    by (simp add: Run_def TopoSort_def enricherNames_def recordPipelineEnd_def demo_command_def demo_command_world_def Let_def)
  have fmt: "formatNameFor ?fl ?s = FormatCycloneDXJSON"
    by (simp add: formatNameFor_def demo_command_def FormatSame_def FormatCycloneDXJSON_def)
  have r: "Get_renderer builtin_formats FormatCycloneDXJSON True = Inr (CdxJSONRenderer True)"
    by (simp add: Get_renderer_def builtin_formats_def)
  have m: "writeMetrics ?w (KMetricsOutput ?fl) ev Map.empty = (Map.empty, [])" for ev by (simp add: writeMetrics_def demo_command_def)
  have wo: "writeOutput ?w (KOutputPath ?fl) (CdxJSONRenderer True) ?s Map.empty = (None, Map.empty(''o.json'' \<mapsto> ''cdx''), [])"
    by (simp add: writeOutput_def demo_command_def demo_command_world_def Open_output_def Render_sbom_def write_cdx_def demo_sink_encoders_def Let_def)
  have hooks: "runPostRenderHooks ?w ?fl ?s FormatCycloneDXJSON (Map.empty(''o.json'' \<mapsto> ''cdx'')) =
      (None, (Map.empty(''o.json'' \<mapsto> ''cdx'', ''/tmp/s'' \<mapsto> ''cdx''))(''/tmp/s'' := None))"
    by (simp add: runPostRenderHooks_def demo_command_def demo_command_world_def demo_flags_def evaluateComplianceGate_def runSigningStep_def
        demo_sign_flags_def demo_sign_env_def SignModeNone_def SignMode_IsKnown_def ModeCosignKey_def Validate_sign_def signOptionsFor_def
        NewCosignSigner_def Sign_cosign_def writeTempSBOM_def ModeForOptions_def Let_def)
  show ?thesis by (simp add: runEnrich_def pre(1) run m fmt r wo hooks ExitOK_def)
qed


lemma success_is_written_witness:
  "\<exists>sbom bdl es s events r bytes.
     prepare demo_command_world (demo_network NoMatch) refusing demo_command = Inr (sbom, bdl, es) \<and>
     run_pipeline demo_command_world demo_command es sbom bdl = (None, Some s, events) \<and>
     Render_sbom (CEncoders demo_command_world) r (Some s) = Some bytes"
proof -
  obtain fs' where run: "runEnrich demo_command_world (demo_network NoMatch) refusing demo_command Map.empty = (0, fs', [])"
    using demo_run by blast
  have "(0 :: nat) \<in> {0, 40, 50}" by simp
  from success_is_written [OF run this] show ?thesis by blast
qed


end
