(* ===== verification/Tools.thy ===== *)
theory Tools
  imports Lifecycle
begin

text \<open>
  The commands that prepare an air-gapped run: \<open>lifecycle update\<close> (\<open>internal/cli/lifecycle.go\<close>), which writes the snapshot
  that the bundled source of the lifecycle enricher loads, and \<open>offline-db\<close> (\<open>internal/cli/offline_db.go\<close>).  The file system
  is a map from paths to contents; directories are kept apart as the list of those made.  Which calls fail, the
  fetches, the JSON encoder and decoders, the clock and the tree that \<open>filepath.Walk\<close> visits are parameters.
\<close>

section \<open>Files\<close>

type_synonym files = "string \<Rightarrow> string option"

text \<open>A write that fails leaves some content behind, perhaps none; a rename that fails changes nothing.\<close>

record os_ops =
  MkdirError :: "string \<Rightarrow> string option"
  WriteError :: "string \<Rightarrow> (string option \<times> string) option"
  RenameError :: "string \<Rightarrow> string \<Rightarrow> string option"

definition WriteFile :: "os_ops \<Rightarrow> string \<Rightarrow> string \<Rightarrow> files \<Rightarrow> files \<times> string option" where
  "WriteFile ops path body fs =
     (case WriteError ops path of None \<Rightarrow> (fs(path \<mapsto> body), None) | Some (left, e) \<Rightarrow> (fs(path := left), Some e))"

definition Rename :: "os_ops \<Rightarrow> string \<Rightarrow> string \<Rightarrow> files \<Rightarrow> files \<times> string option" where
  "Rename ops src dst fs =
     (case RenameError ops src dst of None \<Rightarrow> (fs(dst := fs src, src := None), None) | Some e \<Rightarrow> (fs, Some e))"

section \<open>The snapshot of release cycles\<close>

definition lifecyclePURLProducts :: "string list" where
  "lifecyclePURLProducts =
     [''alpine'', ''debian'', ''ubuntu'', ''centos'', ''rhel'', ''rocky-linux'', ''almalinux'', ''fedora'', ''amazon-linux'', ''opensuse'']"

definition lifecycleNameProducts :: "string list" where
  "lifecycleNameProducts =
     [''nodejs'', ''python'', ''go'', ''openjdk'', ''ruby'', ''php'', ''perl'', ''rust'', ''dotnet'',
      ''postgresql'', ''mysql'', ''mariadb'', ''redis'', ''mongodb'', ''sqlite'', ''cassandra'', ''elasticsearch'',
      ''kubernetes'', ''docker-engine'', ''containerd'', ''podman'', ''nginx'', ''apache'', ''haproxy'']"

definition uniqueProducts :: "string list" where
  "uniqueProducts = sort (remdups (filter (\<lambda>p. p \<noteq> []) (lifecyclePURLProducts @ lifecycleNameProducts)))"

text \<open>
  A cycle as it is written: the fields that are dates or booleans are JSON texts, empty when the key is left out.
\<close>

definition quoted :: "string \<Rightarrow> string" where "quoted s = ''\"'' @ s @ ''\"''"

definition wire_bool :: "bool \<Rightarrow> string" where "wire_bool b = (if b then ''true'' else ''false'')"

definition date_or_bool :: "date option \<Rightarrow> string \<Rightarrow> string" where
  "date_or_bool t b =
     (case t of Some d \<Rightarrow> quoted (format_date d) | None \<Rightarrow> if b \<noteq> [] then wire_bool (b = ''true'') else [])"

definition wire_cycle :: "Lifecycle \<Rightarrow> eolCycle" where
  "wire_cycle c =
     \<lparr>WCycle = Cycle c, WReleaseDate = formatDate (ReleaseDate c), WSupport = date_or_bool (ActiveSupportEnd c) (SupportBoolean c),
      WEOL = date_or_bool (EOL c) (EOLBoolean c), WLatest = Latest c, WLTS = wire_bool (LTS c)\<rparr>"

definition toWireFormat :: "Lifecycle list gomap \<Rightarrow> eolCycle list gomap" where
  "toWireFormat m = map (\<lambda>kv. (fst kv, map wire_cycle (snd kv))) m"

definition parentDir :: "string \<Rightarrow> string" where
  "parentDir path = (case LastIndexByte path slash of Some i \<Rightarrow> take i path | None \<Rightarrow> ''.'')"

definition writeLifecycleSnapshot ::
  "os_ops \<Rightarrow> (eolCycle list gomap \<Rightarrow> string + string) \<Rightarrow> string \<Rightarrow> Lifecycle list gomap \<Rightarrow> files \<Rightarrow> files \<times> string option"
where
  "writeLifecycleSnapshot ops encode path combined fs =
     (case MkdirError ops (parentDir path) of Some e \<Rightarrow> (fs, Some (''mkdir for '' @ Quote path @ '': '' @ e))
      | None \<Rightarrow>
          (case encode (toWireFormat combined) of Inl e \<Rightarrow> (fs, Some (''marshal snapshot: '' @ e))
           | Inr body \<Rightarrow>
               (let tmp = path @ ''.tmp'' in
                case WriteFile ops tmp body fs of
                  (fs1, Some e) \<Rightarrow> (fs1, Some (''write '' @ Quote tmp @ '': '' @ e))
                | (fs1, None) \<Rightarrow>
                    (case Rename ops tmp path fs1 of
                       (fs2, Some e) \<Rightarrow> (fs2(tmp := None), Some (''rename '' @ Quote path @ '': '' @ e))
                     | (fs2, None) \<Rightarrow> (fs2, None)))))"

text \<open>The fetches one product after the other: what was combined and what failed.\<close>

definition fetch_products ::
  "(string \<Rightarrow> lifecycle_error + Lifecycle list) \<Rightarrow> string list \<Rightarrow> Lifecycle list gomap \<times> string list"
where
  "fetch_products fetch ps =
     foldl (\<lambda>acc p. case fetch p of Inl _ \<Rightarrow> (fst acc, snd acc @ [p]) | Inr cs \<Rightarrow> (mput p cs (fst acc), snd acc)) ([], []) ps"

record update_options =
  UOutput :: string
  UMirrorsConfig :: string

text \<open>\<open>fetch\<close> is \<open>FetchProduct\<close> with the mirrors of the configuration, under the time limit.\<close>

definition runLifecycleUpdate ::
  "os_ops \<Rightarrow> (string \<Rightarrow> string + MirrorEntry list) \<Rightarrow> (MirrorEntry list \<Rightarrow> string \<Rightarrow> lifecycle_error + Lifecycle list) \<Rightarrow>
   (eolCycle list gomap \<Rightarrow> string + string) \<Rightarrow> update_options \<Rightarrow> files \<Rightarrow> files \<times> string option"
where
  "runLifecycleUpdate ops load fetch encode opts fs =
     (if UOutput opts = [] then (fs, Some ''--output is required'')
      else (case load (UMirrorsConfig opts) of Inl e \<Rightarrow> (fs, Some e)
        | Inr cfg \<Rightarrow>
            (let mirrors = (case mget (MirrorsByEcosystem (Some cfg)) ''lifecycle'' of None \<Rightarrow> [] | Some ms \<Rightarrow> ms);
                 (combined, failures) = fetch_products (fetch mirrors) uniqueProducts
             in if combined = [] then (fs, Some (''no products fetched (all '' @ Itoa (int (length failures)) @ '' failed)''))
                else writeLifecycleSnapshot ops encode (UOutput opts) combined fs)))"

section \<open>The offline catalogue\<close>

record offlineDBOptions =
  DbOutput :: string
  IncludeNVDCPE :: bool
  IncludeCD :: bool
  IncludePop :: bool
  DbNotes :: string

record offlineDBManifest =
  MfVersion :: int
  MfBuiltAt :: int
  MfBuiltBy :: string
  MfSources :: "string list"
  MfNotes :: string

definition collectSourceLabels :: "offlineDBOptions \<Rightarrow> string list" where
  "collectSourceLabels o1 =
     (if IncludeNVDCPE o1 then [''nvd-cpe''] else []) @ (if IncludeCD o1 then [''clearlydefined''] else []) @
     (if IncludePop o1 then [''popular-binaries''] else [])"

definition anyIncludeFlag :: "offlineDBOptions \<Rightarrow> bool" where
  "anyIncludeFlag o1 \<longleftrightarrow> IncludeNVDCPE o1 \<or> IncludeCD o1 \<or> IncludePop o1"

text \<open>\<open>filepath.Join\<close> of a path and relative elements without dots.\<close>

definition catalogue_dirs :: "string \<Rightarrow> string list" where
  "catalogue_dirs out = map (\<lambda>d. JoinPath out d) [''cpe/by-purl'', ''cpe/by-name'', ''fingerprint/sha256'']"

fun make_dirs :: "os_ops \<Rightarrow> string list \<Rightarrow> string list \<Rightarrow> string list \<times> (string \<times> string) option" where
  "make_dirs ops made [] = (made, None)"
| "make_dirs ops made (d # ds) =
     (case MkdirError ops d of Some e \<Rightarrow> (made, Some (d, e)) | None \<Rightarrow> make_dirs ops (made @ [d]) ds)"

text \<open>An error comes with its exit code: 2 for invalid arguments, 6 for output.\<close>

type_synonym exit_error = "nat \<times> string"

definition runOfflineDBBuild ::
  "os_ops \<Rightarrow> (offlineDBManifest \<Rightarrow> string + string) \<Rightarrow> int \<Rightarrow> string \<Rightarrow> offlineDBOptions \<Rightarrow> string list \<times> files \<Rightarrow>
   (string list \<times> files) \<times> (exit_error + string list)"
where
  "runOfflineDBBuild ops encode now version o1 st =
     (if DbOutput o1 = [] then (st, Inl (2, ''offline-db: --output required''))
      else (case make_dirs ops (fst st) (catalogue_dirs (DbOutput o1)) of
          (made, Some (d, e)) \<Rightarrow> ((made, snd st), Inl (6, ''offline-db: mkdir '' @ d @ '': '' @ e))
        | (made, None) \<Rightarrow>
            (case encode \<lparr>MfVersion = 1, MfBuiltAt = now, MfBuiltBy = ''astinus-'' @ version, MfSources = collectSourceLabels o1,
                MfNotes = DbNotes o1\<rparr> of
               Inl e \<Rightarrow> ((made, snd st), Inl (6, ''offline-db: marshal manifest: '' @ e))
             | Inr body \<Rightarrow>
                 (let mf = JoinPath (DbOutput o1) ''manifest.json'' in
                  case WriteFile ops mf (body @ [CHR 0x0A]) (snd st) of
                    (fs, Some e) \<Rightarrow> ((made, fs), Inl (6, ''offline-db: write manifest: '' @ e))
                  | (fs, None) \<Rightarrow> ((made, fs), Inr
                      ((if anyIncludeFlag o1 then [''Note: --include-* flags are recognised but not yet wired (Stage 13 follow-up).''] else []) @
                       [''Offline DB scaffold created at '' @ DbOutput o1,
                        ''Manifest:                       '' @ mf,
                        ''Layout:'',
                        ''  cpe/by-purl/                  (one JSON per PURL)'',
                        ''  cpe/by-name/<type>/           (one JSON per (type, name))'',
                        ''  fingerprint/<alg>/            (one JSON per (alg, digest))'']))))))"

text \<open>
  \<open>offline-db info\<close>: \<open>built\<close> is the rendered time of the manifest, and a tree is the list of the entries that
  \<open>filepath.Walk\<close> visits with their names and whether they are directories.
\<close>

definition countJSONFiles :: "(string \<times> bool) list \<Rightarrow> nat" where
  "countJSONFiles entries = length (filter (\<lambda>e. \<not> snd e \<and> Ext (fst e) = ''.json'') entries)"

definition runOfflineDBInfo ::
  "(string \<Rightarrow> string + string) \<Rightarrow> (string \<Rightarrow> string + offlineDBManifest) \<Rightarrow> (int \<Rightarrow> string) \<Rightarrow> (string \<Rightarrow> (string \<times> bool) list) \<Rightarrow>
   string \<Rightarrow> exit_error + string list"
where
  "runOfflineDBInfo readFile decode built tree path =
     (if path = [] then Inl (2, ''offline-db: --path required'')
      else (case readFile (JoinPath path ''manifest.json'') of Inl e \<Rightarrow> Inl (6, ''offline-db: read manifest: '' @ e)
        | Inr body \<Rightarrow>
            (case decode body of Inl e \<Rightarrow> Inl (6, ''offline-db: parse manifest: '' @ e)
             | Inr mf \<Rightarrow> Inr
                 ([''Path:    '' @ path, ''Version: '' @ Itoa (MfVersion mf), ''Built:   '' @ built (MfBuiltAt mf), ''By:      '' @ MfBuiltBy mf] @
                  (if MfSources mf \<noteq> [] then [''Sources: ['' @ Join '' '' (MfSources mf) @ '']''] else []) @
                  (if MfNotes mf \<noteq> [] then [''Notes:   '' @ MfNotes mf] else []) @
                  [''Entries: cpe='' @ Itoa (int (countJSONFiles (tree (JoinPath path ''cpe'')))) @ ''  fingerprint='' @
                   Itoa (int (countJSONFiles (tree (JoinPath path ''fingerprint''))))]))))"

section \<open>Lemmas\<close>

lemma tmp_differs [simp]: "path @ ''.tmp'' \<noteq> path" "path \<noteq> path @ ''.tmp''"
  by simp_all

lemma uniqueProducts_distinct: "distinct uniqueProducts"
  by (simp add: uniqueProducts_def)

lemma uniqueProducts_iff: "p \<in> set uniqueProducts \<longleftrightarrow> p \<noteq> [] \<and> p \<in> set (lifecyclePURLProducts @ lifecycleNameProducts)"
  by (auto simp: uniqueProducts_def)

lemma table_products:
  "list_all (\<lambda>r. Product (snd r) \<in> set uniqueProducts) purlToProduct" "list_all (\<lambda>r. Product (snd r) \<in> set uniqueProducts) nameToProduct"
  unfolding uniqueProducts_iff by (simp_all add: purlToProduct_def nameToProduct_def lifecyclePURLProducts_def lifecycleNameProducts_def)

lemma products_plain: "p \<in> set uniqueProducts \<Longrightarrow> ToLower p = p \<and> \<not> HasPrefix p ''_''"
proof -
  have "list_all (\<lambda>p. ToLower p = p \<and> \<not> HasPrefix p ''_'') (lifecyclePURLProducts @ lifecycleNameProducts)" by code_simp
  then show "p \<in> set uniqueProducts \<Longrightarrow> ToLower p = p \<and> \<not> HasPrefix p ''_''" by (simp add: uniqueProducts_iff list_all_iff)
qed

subsection \<open>A cycle and its text\<close>

definition unquotes_dates :: "(string \<Rightarrow> string option) \<Rightarrow> bool" where
  "unquotes_dates unq \<longleftrightarrow> (\<forall>d. valid_date d \<longrightarrow> unq (quoted (format_date d)) = Some (format_date d))"

lemma TrimSpace_quoted [simp]: "TrimSpace (quoted s) = quoted s"
  by (simp add: TrimSpace_def quoted_def is_space_def)

lemma parse_date_or_bool:
  assumes "unquotes_dates unq" "parseDateOrBool unq' raw = (t, b)"
  shows "parseDateOrBool unq (date_or_bool t b) = (t, b)"
proof -
  have shapes: "TrimSpace ''true'' = ''true''" "TrimSpace ''false'' = ''false''" "TrimSpace [] = []"
    by (simp_all add: TrimSpace_def is_space_def)
  have q: "quoted s \<noteq> []" "quoted s \<noteq> ''null''" "quoted s \<noteq> ''true''" "quoted s \<noteq> ''false''" for s by (simp_all add: quoted_def)
  consider "t = None" "b \<in> {[], ''true'', ''false''}" | d where "t = Some d" "b = []" "valid_date d" "d \<noteq> zero_date"
    using assms(2) by (auto simp: parseDateOrBool_def Let_def parseDate_Some split: if_splits option.splits)
      (metis not_None_eq parseDate_Some)
  then show ?thesis
  proof cases
    case 1
    then show ?thesis by (auto simp: date_or_bool_def wire_bool_def parseDateOrBool_def shapes Let_def)
  next
    case 2
    have "parseDate (format_date d) = Some d" using 2 by (simp add: parseDate_Some format_date_shape)
    then show ?thesis using 2 assms(1) q by (simp add: date_or_bool_def parseDateOrBool_def unquotes_dates_def Let_def)
  qed
qed

lemma wire_cycle_roundtrip:
  assumes "unquotes_dates unq"
  shows "convertCycle unq (wire_cycle (convertCycle unq' c)) = convertCycle unq' c"
proof -
  have d: "parseDate (formatDate (parseDate s)) = parseDate s" for s
  proof (cases "parseDate s")
    case None
    then show ?thesis by (simp add: formatDate_def parseDate_def TrimSpace_def)
  next
    case (Some d)
    from Some [unfolded parseDate_Some] show ?thesis unfolding Some by (simp add: formatDate_def parseDate_Some format_date_shape)
  qed
  have b: "parseDateOrBool unq (date_or_bool (fst (parseDateOrBool unq' raw)) (snd (parseDateOrBool unq' raw))) = parseDateOrBool unq' raw" for raw
    using parse_date_or_bool [OF assms, of unq' raw] by (cases "parseDateOrBool unq' raw") simp
  have l: "parseLTS unq (wire_bool x) = x" for x
    by (cases x) (simp_all add: parseLTS_def wire_bool_def TrimSpace_def is_space_def)
  show ?thesis by (simp add: convertCycle_def wire_cycle_def d b l)
qed

subsection \<open>What is combined and written\<close>

lemma fetch_products_get:
  "mget (fst (fetch_products fetch ps)) p = (if p \<in> set ps then (case fetch p of Inr cs \<Rightarrow> Some cs | Inl _ \<Rightarrow> None) else None)"
proof -
  have "mget (fst (foldl (\<lambda>acc p. case fetch p of Inl _ \<Rightarrow> (fst acc, snd acc @ [p]) | Inr cs \<Rightarrow> (mput p cs (fst acc), snd acc)) acc ps)) p =
      (if p \<in> set ps \<and> (\<exists>cs. fetch p = Inr cs) then Some (projr (fetch p)) else mget (fst acc) p)" for acc
    by (induction ps arbitrary: acc) (auto simp: update_conv' split: sum.split)
  from this [of "([], [])"] show ?thesis by (auto simp: fetch_products_def split: sum.split)
qed

lemma fetch_products_keys: "map_ok (fst (fetch_products fetch ps)) \<and> fst ` set (fst (fetch_products fetch ps)) \<subseteq> set ps"
proof -
  have "map_ok (fst acc) \<Longrightarrow> map_ok (fst (foldl (\<lambda>acc p. case fetch p of Inl _ \<Rightarrow> (fst acc, snd acc @ [p]) | Inr cs \<Rightarrow> (mput p cs (fst acc), snd acc)) acc ps)) \<and>
      fst ` set (fst (foldl (\<lambda>acc p. case fetch p of Inl _ \<Rightarrow> (fst acc, snd acc @ [p]) | Inr cs \<Rightarrow> (mput p cs (fst acc), snd acc)) acc ps)) \<subseteq>
        fst ` set (fst acc) \<union> set ps" for acc
  proof (induction ps arbitrary: acc)
    case (Cons p ps)
    show ?case
    proof (cases "fetch p")
      case (Inl e)
      then show ?thesis using Cons.IH [of "(fst acc, snd acc @ [p])"] Cons.prems by auto
    next
      case (Inr cs)
      have "fst ` set (mput p cs (fst acc)) = insert p (fst ` set (fst acc))" by (simp add: update_keys dom_update flip: dom_map_of_conv_image_fst)
      then show ?thesis using Cons.IH [of "(mput p cs (fst acc), snd acc)"] Cons.prems Inr by (auto simp: distinct_update)
    qed
  qed simp
  from this [of "([], [])"] show ?thesis by (simp add: fetch_products_def)
qed

lemma writeLifecycleSnapshot_outcome:
  assumes "writeLifecycleSnapshot ops encode path combined fs = (fs', r)"
  shows "(case r of None \<Rightarrow> (\<exists>body. encode (toWireFormat combined) = Inr body \<and> fs' path = Some body) \<and> fs' (path @ ''.tmp'') = None
      | Some e \<Rightarrow> fs' path = fs path) \<and>
    (\<forall>q. q \<noteq> path \<and> q \<noteq> path @ ''.tmp'' \<longrightarrow> fs' q = fs q)"
  using assms by (auto simp: writeLifecycleSnapshot_def WriteFile_def Rename_def Let_def split: option.splits sum.splits prod.splits)

text \<open>What \<open>parseBundledSnapshot\<close> makes of a text whose decoding gives the cycles \<open>m\<close>.\<close>

definition decodes_to :: "(string \<Rightarrow> string + (string \<times> string) list) \<Rightarrow> (string \<Rightarrow> string + eolCycle list) \<Rightarrow> string \<Rightarrow> eolCycle list gomap \<Rightarrow> bool" where
  "decodes_to decode cycles body m \<longleftrightarrow>
     body \<noteq> [] \<and> (\<exists>raw. decode body = Inr raw \<and> list_all2 (\<lambda>r kv. fst r = fst kv \<and> cycles (snd r) = Inr (snd kv)) raw m)"

lemma parse_loop:
  assumes "list_all2 (\<lambda>r kv. fst r = fst kv \<and> cycles (snd r) = Inr (snd kv)) raw m"
    and "list_all (\<lambda>kv. ToLower (fst kv) = fst kv \<and> \<not> HasPrefix (fst kv) ''_'') m"
  shows "foldl (\<lambda>out kv. case out of Inl e \<Rightarrow> Inl e
      | Inr m \<Rightarrow> if HasPrefix (fst kv) ''_'' then Inr m
          else (case cycles (snd kv) of Inl e \<Rightarrow> Inl (''lifecycle: parse cycles for '' @ Quote (fst kv) @ '': '' @ e)
            | Inr cs \<Rightarrow> Inr (mput (ToLower (fst kv)) (map (convertCycle unq) cs) m))) (Inr out) raw =
    Inr (foldl (\<lambda>out kv. mput (fst kv) (map (convertCycle unq) (snd kv)) out) out m)"
  using assms by (induction raw m arbitrary: out rule: list_all2_induct) auto

lemma foldl_mput:
  "map_ok m \<Longrightarrow> mget (foldl (\<lambda>out kv. mput (fst kv) (f (snd kv)) out) out m) k = (case mget m k of Some v \<Rightarrow> Some (f v) | None \<Rightarrow> mget out k)"
proof (induction m arbitrary: out)
  case (Cons kv m)
  obtain a b where kv: "kv = (a, b)" by fastforce
  have "map_ok m" "mget m a = None" using Cons.prems kv by (simp_all add: map_of_eq_None_iff)
  then show ?case using Cons.IH [of "mput a (f b) out"] unfolding kv by (cases "k = a"; cases "mget m k") (simp_all add: update_conv')
qed simp

lemma parse_written:
  assumes "decodes_to decode cycles body m" "map_ok m" "list_all (\<lambda>kv. ToLower (fst kv) = fst kv \<and> \<not> HasPrefix (fst kv) ''_'') m"
  shows "\<exists>parsed. parseBundledSnapshot decode cycles unq body = Inr parsed \<and>
    (\<forall>k. mget parsed k = map_option (map (convertCycle unq)) (mget m k))"
proof -
  obtain raw where "body \<noteq> []" "decode body = Inr raw"
    and l: "list_all2 (\<lambda>r kv. fst r = fst kv \<and> cycles (snd r) = Inr (snd kv)) raw m"
    using assms(1) by (auto simp: decodes_to_def)
  then have "parseBundledSnapshot decode cycles unq body = Inr (foldl (\<lambda>out kv. mput (fst kv) (map (convertCycle unq) (snd kv)) out) [] m)"
    by (simp add: parseBundledSnapshot_def parse_loop [OF l assms(3)])
  then show ?thesis using foldl_mput [OF assms(2), of "map (convertCycle unq)" "[]"] by (auto split: option.split)
qed

lemma mget_toWireFormat: "mget (toWireFormat m) k = map_option (map wire_cycle) (mget m k)"
  by (induction m) (auto simp: toWireFormat_def)

lemma toWireFormat_keys: "map fst (toWireFormat m) = map fst m"
  by (simp add: toWireFormat_def)

section \<open>Properties\<close>

text \<open>
  The snapshot is replaced as a whole: after \<open>lifecycle update\<close> the file holds a complete new text and no temporary file is
  left, or the command failed and the file is what it was; no other file is touched.
\<close>

theorem snapshot_atomic:
  assumes "runLifecycleUpdate ops load fetch encode opts fs = (fs', r)"
  shows "(case r of None \<Rightarrow> (\<exists>m body. encode m = Inr body \<and> fs' (UOutput opts) = Some body) \<and> fs' (UOutput opts @ ''.tmp'') = None
      | Some e \<Rightarrow> fs' (UOutput opts) = fs (UOutput opts)) \<and>
    (\<forall>q. q \<noteq> UOutput opts \<and> q \<noteq> UOutput opts @ ''.tmp'' \<longrightarrow> fs' q = fs q)"
proof -
  consider "fs' = fs" "r \<noteq> None" | combined where "writeLifecycleSnapshot ops encode (UOutput opts) combined fs = (fs', r)"
    using assms by (auto simp: runLifecycleUpdate_def Let_def split: if_splits sum.splits prod.splits)
  then show ?thesis
  proof cases
    case 2
    from writeLifecycleSnapshot_outcome [OF this] show ?thesis by (auto split: option.splits)
  qed auto
qed

text \<open>
  What \<open>lifecycle update\<close> writes, the bundled source of \<open>enrich\<close> reads back as it was fetched: for every known product
  the cycles the service gave, dates, booleans and all, and nothing for a product whose fetch failed.  The hypotheses are
  what the JSON library does: it decodes what it encoded, and unquotes a date.
\<close>

theorem snapshot_roundtrip:
  assumes "runLifecycleUpdate ops load (\<lambda>ms. EOL_FetchProduct env dec unq \<lparr>Mirrors = ms, Upstream = up\<rparr>) encode opts fs = (fs', None)"
    and "load (UMirrorsConfig opts) = Inr cfg" "mirrors = (case mget (MirrorsByEcosystem (Some cfg)) ''lifecycle'' of None \<Rightarrow> [] | Some ms \<Rightarrow> ms)"
    and "unquotes_dates unq" "\<And>m body. encode m = Inr body \<Longrightarrow> decodes_to decode cycles body m"
  shows "\<exists>body parsed. fs' (UOutput opts) = Some body \<and> parseBundledSnapshot decode cycles unq body = Inr parsed \<and>
    list_all (\<lambda>p. mget parsed p =
      (case EOL_FetchProduct env dec unq \<lparr>Mirrors = mirrors, Upstream = up\<rparr> p of Inr cs \<Rightarrow> Some cs | Inl _ \<Rightarrow> None)) uniqueProducts"
proof -
  let ?fetch = "EOL_FetchProduct env dec unq \<lparr>Mirrors = mirrors, Upstream = up\<rparr>"
  define combined where "combined = fst (fetch_products ?fetch uniqueProducts)"
  have "writeLifecycleSnapshot ops encode (UOutput opts) combined fs = (fs', None)"
    using assms(1,2) unfolding combined_def assms(3)
    by (auto simp: runLifecycleUpdate_def Let_def split: if_splits prod.splits)
  from writeLifecycleSnapshot_outcome [OF this] obtain body
    where body: "encode (toWireFormat combined) = Inr body" "fs' (UOutput opts) = Some body" by auto
  have keys: "map_ok combined" "fst ` set combined \<subseteq> set uniqueProducts" unfolding combined_def using fetch_products_keys by auto
  have plain: "list_all (\<lambda>kv. ToLower (fst kv) = fst kv \<and> \<not> HasPrefix (fst kv) ''_'') (toWireFormat combined)"
    using keys(2) products_plain by (fastforce simp: toWireFormat_def list_all_iff)
  have ok: "map_ok (toWireFormat combined)" using keys(1) by (simp only: toWireFormat_keys)
  from parse_written [OF assms(5) [OF body(1)] ok plain, of unq] obtain parsed
    where parsed: "parseBundledSnapshot decode cycles unq body = Inr parsed"
      "\<And>k. mget parsed k = map_option (map (convertCycle unq)) (mget (toWireFormat combined) k)" by blast
  have refetched: "map (\<lambda>l. convertCycle unq (wire_cycle l)) cs = cs" if "?fetch p = Inr cs" for p cs
    using that wire_cycle_roundtrip [OF assms(4)] by (auto simp: EOL_FetchProduct_def split: if_splits sum.splits)
  have "mget parsed p = (case ?fetch p of Inr cs \<Rightarrow> Some cs | Inl _ \<Rightarrow> None)" if "p \<in> set uniqueProducts" for p
    using that refetched [of p] by (auto simp: parsed(2) mget_toWireFormat combined_def fetch_products_get comp_def split: sum.split)
  with body(2) parsed(1) show ?thesis by (auto simp: list_all_iff)
qed

text \<open>Every product a component can be mapped to is one that \<open>lifecycle update\<close> fetches.\<close>

theorem mapped_products_fetched:
  assumes "MapToProduct c = Some (p, v)"
  shows "p \<in> set uniqueProducts"
proof -
  have "r \<in> set purlToProduct" if "find P purlToProduct = Some r" for P r using that by (metis find_Some_iff nth_mem)
  moreover have "(k, m) \<in> set nameToProduct" if "mget nameToProduct k = Some m" for k m using that by (rule map_of_SomeD)
  ultimately show ?thesis
    using assms table_products by (fastforce simp: MapToProduct_def MapToProduct_in_def list_all_iff split: option.splits if_splits)
qed

section \<open>Witnesses\<close>

definition demo_wire :: eolCycle where
  "demo_wire = \<lparr>WCycle = ''20'', WReleaseDate = ''2023-04-18'', WSupport = [], WEOL = quoted ''2026-04-30'', WLatest = ''20.1'', WLTS = ''true''\<rparr>"

definition demo_eol :: http_env where
  "demo_eol = \<lparr>Getenv = (\<lambda>_. []), Bundle = (\<lambda>_. None), KeyPair = (\<lambda>_ _. None), NewRequestError = (\<lambda>_. None),
     Do = (\<lambda>req. Inr \<lparr>StatusCode = (if RURL req = ''https://eol/nodejs.json'' then 200 else 404), RBody = ''cycles''\<rparr>)\<rparr>"

definition demo_cycles :: "string \<Rightarrow> string + eolCycle list" where
  "demo_cycles s = (if s = ''cycles'' then Inr [demo_wire] else Inl ''bad'')"

definition demo_encode :: "eolCycle list gomap \<Rightarrow> string + string" where
  "demo_encode m = (if m = [(''nodejs'', [demo_wire])] then Inr ''json'' else Inl ''unexpected'')"

definition demo_decode :: "string \<Rightarrow> string + (string \<times> string) list" where
  "demo_decode s = (if s = ''json'' then Inr [(''nodejs'', ''cycles'')] else Inl ''bad'')"

definition demo_unquote :: "string \<Rightarrow> string option" where "demo_unquote s = Some (butlast (tl s))"

definition demo_update :: "(string \<Rightarrow> string \<Rightarrow> string option) \<Rightarrow> files \<Rightarrow> files \<times> string option" where
  "demo_update rename = runLifecycleUpdate \<lparr>MkdirError = (\<lambda>_. None), WriteError = (\<lambda>_. None), RenameError = rename\<rparr> (\<lambda>_. Inr [])
     (\<lambda>ms. EOL_FetchProduct demo_eol (\<lambda>b. case demo_cycles b of Inl e \<Rightarrow> Inl (OtherError e) | Inr cs \<Rightarrow> Inr cs) demo_unquote
        \<lparr>Mirrors = ms, Upstream = ''https://eol''\<rparr>)
     demo_encode \<lparr>UOutput = ''out/snap.json'', UMirrorsConfig = []\<rparr>"

lemma demo_updates: "snd (demo_update (\<lambda>_ _. None) Map.empty) = None"
  by code_simp

theorem snapshot_roundtrip_witness:
  "\<exists>body parsed. fst (demo_update (\<lambda>_ _. None) Map.empty) ''out/snap.json'' = Some body \<and>
     parseBundledSnapshot demo_decode demo_cycles demo_unquote body = Inr parsed \<and>
     mget parsed ''nodejs'' = Some [convertCycle demo_unquote demo_wire]"
proof -
  let ?run = "demo_update (\<lambda>_ _. None) Map.empty"
  have run: "?run = (fst ?run, None)" using demo_updates by (simp add: prod_eq_iff)
  have "unquotes_dates demo_unquote" by (simp add: unquotes_dates_def demo_unquote_def quoted_def)
  moreover have "decodes_to demo_decode demo_cycles body m" if "demo_encode m = Inr body" for m body
    using that by (auto simp: demo_encode_def decodes_to_def demo_decode_def demo_cycles_def split: if_splits)
  ultimately obtain body parsed where s: "fst ?run ''out/snap.json'' = Some body" "parseBundledSnapshot demo_decode demo_cycles demo_unquote body = Inr parsed"
    "list_all (\<lambda>p. mget parsed p =
      (case EOL_FetchProduct demo_eol (\<lambda>b. case demo_cycles b of Inl e \<Rightarrow> Inl (OtherError e) | Inr cs \<Rightarrow> Inr cs) demo_unquote
        \<lparr>Mirrors = [], Upstream = ''https://eol''\<rparr> p of Inr cs \<Rightarrow> Some cs | Inl _ \<Rightarrow> None)) uniqueProducts"
    using snapshot_roundtrip [OF run [unfolded demo_update_def], of "[]" "[]" demo_decode demo_cycles]
    by (auto simp: MirrorsByEcosystem_def demo_update_def)
  moreover have "''nodejs'' \<in> set uniqueProducts" by (simp add: uniqueProducts_iff lifecycleNameProducts_def)
  moreover have "EOL_FetchProduct demo_eol (\<lambda>b. case demo_cycles b of Inl e \<Rightarrow> Inl (OtherError e) | Inr cs \<Rightarrow> Inr cs) demo_unquote
        \<lparr>Mirrors = [], Upstream = ''https://eol''\<rparr> ''nodejs'' = Inr [convertCycle demo_unquote demo_wire]" by code_simp
  ultimately show ?thesis by (auto simp: list_all_iff)
qed

theorem snapshot_atomic_witness:
  "fst (demo_update (\<lambda>_ _. Some ''denied'') [''out/snap.json'' \<mapsto> ''old'']) ''out/snap.json'' = Some ''old'' \<and>
   snd (demo_update (\<lambda>_ _. Some ''denied'') [''out/snap.json'' \<mapsto> ''old'']) \<noteq> None"
proof -
  let ?run = "demo_update (\<lambda>_ _. Some ''denied'') [''out/snap.json'' \<mapsto> ''old'']"
  have "snd ?run \<noteq> None" by code_simp
  then obtain e where run: "?run = (fst ?run, Some e)" by (metis not_None_eq prod.collapse)
  from snapshot_atomic [OF run [unfolded demo_update_def]] have "fst ?run ''out/snap.json'' = Some ''old''" by (simp add: demo_update_def)
  with \<open>snd ?run \<noteq> None\<close> show ?thesis by blast
qed

theorem mapped_products_fetched_witness: "''nodejs'' \<in> set uniqueProducts"
proof (rule mapped_products_fetched)
  show "MapToProduct (empty_component\<lparr>Name := ''Node'', Version := ''20.1''\<rparr>) = Some (''nodejs'', ''20'')" by code_simp
qed

text \<open>\<open>offline-db build\<close> records sources that it does not fetch.\<close>

lemma sources_only_recorded:
  "snd (runOfflineDBBuild ops encode now v o1 st) = Inr out \<Longrightarrow> fst (snd (fst (runOfflineDBBuild ops encode now v o1 st)), ()) q \<noteq> snd st q \<Longrightarrow>
     q = JoinPath (DbOutput o1) ''manifest.json''"
  by (auto simp: runOfflineDBBuild_def WriteFile_def Let_def split: if_splits option.splits sum.splits prod.splits)

end
