(* ===== verification/Spec2Isabelle.thy ===== *)
theory Spec2Isabelle
  imports Pipeline Dedup Attribution Compliance CpeEnricher Basediff PathClassifier Cluster Matchers Fingerprint Untracked Registry Lifecycle Cyclonedx Spdx CpeSources Prefilter Extract Access ImageSource Format Render Sign Sources Wiring Metrics Command Tools
begin

text \<open>
  Astinus takes the SBOM a scanner wrote for a container image, opens the image and fills in what the scanner
  could not know: the layer that brought a component, whether the base image already had it, files that no
  package explains, dependencies inside binaries, metadata of package registries, support dates and CPE names.
  It then merges duplicates, judges the result by compliance rules, writes and signs it, and turns the judgement
  into an exit code.  The development models the Go code under \<open>src/internal\<close>; names follow the code, with the name of
  the type or the package in front where two operations of the code have the same name.

  1. How the parts work together.  \<open>runEnrich\<close> (Command) reads and decodes the SBOM (Format, with the mappers
  Cyclonedx and Spdx), opens the image (ImageSource, with the credentials and transports of Access), builds the
  enrichers from the flags (Wiring) and selects among them, lets the pipeline order and run them (Ordering, Pipeline),
  writes the result (Render), signs it (Sign) and evaluates the compliance gate (Wiring).  The SBOM is one mutable
  object in the code; here it is passed and returned, also on the error paths.  The enrichers see each other only
  through it: \<open>syft-prefilter\<close> (Prefilter) drops noise before \<open>attribution\<close> (Attribution, on Layer and Runtime) stamps layers,
  \<open>basediff\<close> (Basediff, on ContentHash) marks what comes from the base image, \<open>untracked\<close> (Untracked, on PathClassifier, Cluster,
  Anchors, Matchers and Fingerprint) adds components, \<open>extractor\<close> (Extract) looks into binaries, \<open>registry\<close> (Registry, with
  Sources), \<open>lifecycle\<close> (Lifecycle) and \<open>cpe\<close> (CpeEnricher, on Cpe and CpeSources) add metadata, \<open>dedup\<close> (Dedup) merges, and
  \<open>compliance\<close> (Compliance, on Policy) judges.

  2. Theories and files.
  GoLib holds the parts of the Go library that the components call and the lemmas they share.
  Model is \<open>internal/sbom/model\<close>, with the walk over the component tree.
  Ordering and Pipeline are \<open>internal/enrich\<close>: \<open>ordering.go\<close>, \<open>pipeline.go\<close>.
  Layer and Runtime are \<open>internal/image/layer\<close> and \<open>internal/image/runtime\<close>; Attribution is \<open>internal/enrich/attribution\<close>.
  ContentHash and Basediff are \<open>internal/enrich/basediff\<close> and its \<open>contenthash\<close>.
  PathClassifier, Anchors, Cluster and Untracked are \<open>internal/enrich/untracked\<close> with \<open>pathclassifier\<close> and \<open>cluster\<close>.
  Matchers and Fingerprint are \<open>internal/fingerprint\<close> with \<open>matcher\<close> and \<open>extractor\<close>; Extract and Prefilter are
  \<open>internal/enrich/extractor\<close> and \<open>internal/enrich/syftprefilter\<close>.
  Registry and Sources are \<open>internal/enrich/registry\<close>, its \<open>sources\<close> and \<open>internal/config/mirrors.go\<close>; Lifecycle is
  \<open>internal/enrich/lifecycle\<close>.
  Cpe, CpeSources and CpeEnricher are \<open>internal/enrich/cpe\<close> and its \<open>sources\<close>.  Dedup is \<open>internal/enrich/dedup\<close>.
  Policy and Compliance are \<open>internal/policy\<close> and \<open>internal/enrich/compliance\<close>.
  Cyclonedx, Spdx and Format are \<open>internal/sbom/cyclonedx\<close>, \<open>internal/sbom/spdx\<close> and \<open>internal/sbom/format.go\<close>.
  Render is \<open>internal/output\<close>, Sign is \<open>internal/sign\<close>, Access is \<open>internal/config/registry.go\<close> with \<open>internal/image/auth\<close> and
  \<open>internal/image/transport\<close>, and ImageSource is \<open>internal/image/source\<close>.
  Wiring and Command are the parts of \<open>internal/cli\<close> that build and run the \<open>enrich\<close> command.

  3. How data and state are rendered.  A struct is a record, an enumeration or a set of sentinel errors a datatype, a
  nil pointer \<^const>\<open>None\<close>, a string the list of its bytes.  A map is an association list whose order is the order
  in which the runtime happens to iterate over it, so a statement about all lists is one about all orders.  An error is
  a value of a sum type, and every early return is a branch.  Bits and 64-bit arithmetic of the Bloom filter
  are machine words; sizes and counters whose wrap-around plays no role are integers; confidences and scores are
  rationals.  Loops over data are recursion over lists; the worker pool of the untracked enricher is a step
  relation over its interleavings.  What the code reaches outside itself is an argument: the network, files and the
  environment, the encoders, decoders and parsers of libraries, SHA-256 and the clocks.  The network is a record of its
  own in Wiring and Command, so that independence of it can be stated.

  4. What the lemmas show.
  Ordering, Pipeline: the sort succeeds exactly on acyclic graphs without duplicates, respects dependencies and
  breaks ties by position; a run applies the enrichers in that order and stops at the first error, and what each
  enricher keeps the run keeps.
  Enrichers: frames (the fields a step cannot touch), idempotence, conservation of components and dependencies
  in Dedup, exactness of the content strategy against the base set, disjoint clusters, silence about filtered files,
  every schedule of the worker pool equal to the sequential run, order-independence of compliance findings.
  Network: mirrors in replace mode cut off the public registries, offline modes ask nobody, the rate limiter
  admits no more than its budget and every wait ends, caches are transparent, credentials go to the host they are for.
  Formats: conversions to and from CycloneDX and SPDX preserve what the formats carry, detection agrees with the
  fields of a document, identifiers are legal.
  Commands: the exit code tells the outcome, success means that the output was written and the gate passed, signing
  leaves no temporary copy, a verified signature is bound to the identity asked for.

  5. Interfaces.  \<open>component_step\<close> and \<open>idempotent_step\<close> (Model) state what a change of one component may touch; the walk
  lemmas are proved in them and used by Attribution, Basediff, CpeEnricher, Registry, Lifecycle and Spdx.  \<open>sbom_invariant\<close>
  (Pipeline) is what an enricher must keep; \<open>membership_filter\<close> (ContentHash) is the contract of the Bloom filter;
  \<open>pattern_index\<close> (PathClassifier) that of the prefix and suffix tries; \<open>united_field\<close> (Dedup) that of a merged list;
  \<open>keyed_matcher\<close> (Matchers) and \<open>sound_cache\<close> and \<open>memo_cache\<close> (Registry) what caching relies on; \<open>metadata_source\<close> (Sources)
  what the resolver relies on; \<open>blind_validator\<close> (Policy) that a validator does not read what the compliance
  enricher writes.  Every one is interpreted on the definitions of the code.

  6. Bounds.  The walk over an unread JSON value in Format has fuel, twice the number of tokens and two, and each step
  consumes a token or closes a level, so it never runs out (the lemmas on \<open>skip\<close> and \<open>walk_keys\<close> there).  The loop of the
  topological sort ends because each round removes an enricher; path functions because the path shrinks;
  expansion of shell variables because the rest shrinks.  Limits of the code (the largest SBOM, anchor and body
  sizes, the threshold of 50 components above which an anonymous NVD source is skipped, cache and pool sizes) are
  constants with the values of the code.

  7. Not modelled.  The provenance reader (\<open>internal/image/provenance\<close>) only calls the registry library and decodes what it
  returns.  Tracing, logging and the exposition format of the metrics (\<open>internal/telemetry\<close>) do not influence results.  The
  commands \<open>offline-db\<close>, \<open>lifecycle\<close>, \<open>version\<close> and \<open>completion\<close> and the declaration of flags are command-line plumbing around
  functions that are modelled or around downloads.  Decoders of JSON, XML, YAML, ELF, PE and archives are those of
  libraries.  Times and durations are left out except where expiry, rate limits and support dates depend on them.

  8. Findings.  Where the code does something other than its comments or its purpose say, a lemma shows the behaviour
  as it is, next to the property it limits; PROJECT.json lists them with their places.
\<close>

end
